(* ===== verification/Prelude.thy ===== *)
theory Prelude
  imports Main "HOL-Library.AList" "HOL-Library.Word" "HOL-Library.Sublist"
    "HOL-Library.Char_ord" "HOL-Library.List_Lexorder"
begin

text \<open>
  Shared vocabulary of the development: the result of a state-changing closure
  (\<open>outcome\<close>), decimal rendering of numbers as the format verb for integers
  prints them, prefix trimming of Go strings, first-index search and in-place update of
  the elements of a list, and the association lists that stand for Go maps (their order is
  the iteration order of the map in the run considered).  Go strings are byte strings and
  are modelled by \<^typ>\<open>string\<close>.
\<close>

section \<open>Results of operations\<close>

text \<open>
  \<open>Err s\<close> is an error built from a fixed text; \<open>ErrQ a x b\<close> is one whose format string
  quotes \<open>x\<close> between \<open>a\<close> and \<open>b\<close>; \<open>NotAdmitted\<close> is the sentinel \<open>ErrNotAdmitted\<close>;
  \<open>Panic\<close> is a run-time panic (a nil dereference or an explicit panic).
\<close>

datatype error = Err string | ErrQ string string string | NotAdmitted | Panic string

text \<open>
  The result of a closure passed to \<open>Service.update\<close>: a new state with a result, the
  sentinel error \<open>unchanged\<close> (nothing is published, the caller sees success) with the
  result captured so far, or an error.
\<close>

datatype ('t, 'a) outcome = Changed 't 'a | Unchanged 'a | Fail error

named_theorems outcome_simps "rewrite rules for chained outcomes"

fun obind :: "('t, 'a) outcome \<Rightarrow> 'b \<Rightarrow> ('t \<Rightarrow> 'a \<Rightarrow> ('t, 'b) outcome) \<Rightarrow> ('t, 'b) outcome" where
  "obind (Changed t a) d k = k t a"
| "obind (Unchanged a) d k = Unchanged d"
| "obind (Fail e) d k = Fail e"

lemma obind_Changed [outcome_simps]:
  "obind x d k = Changed t b \<longleftrightarrow> (\<exists>t1 a. x = Changed t1 a \<and> k t1 a = Changed t b)"
  by (cases x) auto

lemma obind_Unchanged [outcome_simps]:
  "obind x d k = Unchanged b \<longleftrightarrow>
     (\<exists>a. x = Unchanged a \<and> d = b) \<or> (\<exists>t1 a. x = Changed t1 a \<and> k t1 a = Unchanged b)"
  by (cases x) auto

lemma obind_Fail [outcome_simps]:
  "obind x d k = Fail e \<longleftrightarrow> x = Fail e \<or> (\<exists>t1 a. x = Changed t1 a \<and> k t1 a = Fail e)"
  by (cases x) auto

fun guard :: "bool \<Rightarrow> error \<Rightarrow> ('t, 'a) outcome \<Rightarrow> ('t, 'a) outcome" where
  "guard True e k = k"
| "guard False e k = Fail e"

lemma guard_Changed [outcome_simps]: "guard b e k = Changed t a \<longleftrightarrow> b \<and> k = Changed t a"
  by (cases b) auto

lemma guard_Unchanged [outcome_simps]: "guard b e k = Unchanged a \<longleftrightarrow> b \<and> k = Unchanged a"
  by (cases b) auto

lemma guard_Fail [outcome_simps]:
  "guard b e k = Fail e' \<longleftrightarrow> (b \<and> k = Fail e') \<or> (\<not> b \<and> e = e')"
  by (cases b) auto

section \<open>Strings\<close>

definition digit_char :: "nat \<Rightarrow> char" where
  "digit_char d = char_of (48 + d)"

fun nat_dec :: "nat \<Rightarrow> string" where
  "nat_dec n = (if n < 10 then [digit_char n] else nat_dec (n div 10) @ [digit_char (n mod 10)])"

declare nat_dec.simps [simp del]

definition uint64_dec :: "64 word \<Rightarrow> string" where
  "uint64_dec w = nat_dec (unat w)"

definition int_dec :: "int \<Rightarrow> string" where
  "int_dec i = (if i < 0 then ''-'' @ nat_dec (nat (- i)) else nat_dec (nat i))"

definition trim_prefix :: "string \<Rightarrow> string \<Rightarrow> string" where
  "trim_prefix p s = (if prefix p s then drop (length p) s else s)"

definition trim_suffix :: "string \<Rightarrow> string \<Rightarrow> string" where
  "trim_suffix p s = (if suffix p s then take (length s - length p) s else s)"

fun join :: "string \<Rightarrow> string list \<Rightarrow> string" where
  "join sep [] = []"
| "join sep [x] = x"
| "join sep (x # y # zs) = x @ sep @ join sep (y # zs)"

lemma trim_prefix_append [simp]: "trim_prefix p (p @ s) = s"
  by (simp add: trim_prefix_def)

text \<open>
  \<open>strings.TrimSpace\<close>: the UTF-8 encodings of the Unicode white space characters, removed
  from either end.
\<close>

definition space_runes :: "string list" where
  "space_runes = [[CHR 0x09], [CHR 0x0A], [CHR 0x0B], [CHR 0x0C], [CHR 0x0D], [CHR 0x20],
     [CHR 0xC2, CHR 0x85], [CHR 0xC2, CHR 0xA0], [CHR 0xE1, CHR 0x9A, CHR 0x80]]
   @ map (\<lambda>c. [CHR 0xE2, CHR 0x80, c])
       [CHR 0x80, CHR 0x81, CHR 0x82, CHR 0x83, CHR 0x84, CHR 0x85,
        CHR 0x86, CHR 0x87, CHR 0x88, CHR 0x89, CHR 0x8A, CHR 0xA8,
        CHR 0xA9, CHR 0xAF]
   @ [[CHR 0xE2, CHR 0x81, CHR 0x9F], [CHR 0xE3, CHR 0x80, CHR 0x80]]"

fun trim_left_fuel :: "string list \<Rightarrow> nat \<Rightarrow> string \<Rightarrow> string" where
  "trim_left_fuel ps 0 s = s"
| "trim_left_fuel ps (Suc n) s =
    (case find (\<lambda>p. prefix p s) ps of
       None \<Rightarrow> s
     | Some p \<Rightarrow> trim_left_fuel ps n (drop (length p) s))"

text \<open>Each round removes at least one byte, so the length of the string is enough fuel.\<close>

definition trim_left :: "string list \<Rightarrow> string \<Rightarrow> string" where
  "trim_left ps s = trim_left_fuel ps (length s) s"

definition trim_space :: "string \<Rightarrow> string" where
  "trim_space s = rev (trim_left (map rev space_runes) (rev (trim_left space_runes s)))"

lemma trim_left_fuel_done:
  assumes "\<forall>p \<in> set ps. p \<noteq> []" and "length s \<le> n"
  shows "\<forall>p \<in> set ps. \<not> prefix p (trim_left_fuel ps n s)"
  using assms
proof (induction n arbitrary: s)
  case 0
  then show ?case by auto
next
  case (Suc n)
  show ?case
  proof (cases "find (\<lambda>p. prefix p s) ps")
    case None
    then have "\<forall>p \<in> set ps. \<not> prefix p s" by (auto simp: find_None_iff)
    with None show ?thesis by simp
  next
    case (Some p)
    then have p: "p \<in> set ps" "prefix p s" by (auto simp: find_Some_iff)
    with Suc.prems(1) have "p \<noteq> []" by blast
    with p(2) Suc.prems(2) have "length (drop (length p) s) \<le> n"
      by (cases p) auto
    from Suc.IH [OF Suc.prems(1) this] Some show ?thesis by simp
  qed
qed

section \<open>Integers\<close>

text \<open>Go's integer division truncates towards zero.\<close>

definition go_div :: "int \<Rightarrow> int \<Rightarrow> int" where
  "go_div a b = sgn a * sgn b * (\<bar>a\<bar> div \<bar>b\<bar>)"

lemma go_div_pos: "0 \<le> a \<Longrightarrow> 0 < b \<Longrightarrow> go_div a b = a div b"
  by (cases "a = 0") (simp_all add: go_div_def)

section \<open>Lists searched and updated in place\<close>

fun find_index :: "('a \<Rightarrow> bool) \<Rightarrow> 'a list \<Rightarrow> nat option" where
  "find_index P [] = None"
| "find_index P (x # xs) = (if P x then Some 0 else map_option Suc (find_index P xs))"

lemma find_index_Some:
  "find_index P xs = Some i \<Longrightarrow> i < length xs \<and> P (xs ! i) \<and> (\<forall>j < i. \<not> P (xs ! j))"
proof (induction xs arbitrary: i)
  case Nil
  then show ?case by simp
next
  case (Cons x xs)
  show ?case
  proof (cases "P x")
    case True
    with Cons.prems show ?thesis by simp
  next
    case False
    with Cons.prems obtain k where k: "find_index P xs = Some k" "i = Suc k" by auto
    with Cons.IH [OF k(1)] False show ?thesis by (auto simp: less_Suc_eq_0_disj)
  qed
qed

lemma find_index_None: "find_index P xs = None \<longleftrightarrow> (\<forall>x \<in> set xs. \<not> P x)"
  by (induction xs) auto

section \<open>Slices\<close>

text \<open>The slice expression \<open>xs[i:j]\<close>, for bounds in range.\<close>

definition segment :: "'a list \<Rightarrow> nat \<Rightarrow> nat \<Rightarrow> 'a list" where
  "segment xs i j = take (j - i) (drop i xs)"

lemma segment_length: "j \<le> length xs \<Longrightarrow> length (segment xs i j) = j - i"
  by (simp add: segment_def)

lemma segment_append: "i \<le> j \<Longrightarrow> j \<le> k \<Longrightarrow> segment xs i j @ segment xs j k = segment xs i k"
proof -
  assume ij: "i \<le> j" "j \<le> k"
  have "segment xs i k = take ((j - i) + (k - j)) (drop i xs)" using ij by (simp add: segment_def)
  then show ?thesis unfolding take_add using ij by (simp add: segment_def)
qed

lemma segment_empty [simp]: "segment xs i i = []"
  by (simp add: segment_def)

lemma segment_all [simp]: "segment xs 0 (length xs) = xs"
  by (simp add: segment_def)

lemma segment_take_drop: "i \<le> j \<Longrightarrow> take i xs @ segment xs i j = take j xs"
  by (metis add_diff_inverse_nat not_le segment_def take_add)

lemma segment_to_end: "length xs \<le> j \<Longrightarrow> segment xs i j = drop i xs"
  by (simp add: segment_def)

lemma segment_subset: "set (segment xs i j) \<subseteq> set xs"
  by (auto simp: segment_def dest!: in_set_takeD in_set_dropD)

lemma segment_nth: "k < j - i \<Longrightarrow> j \<le> length xs \<Longrightarrow> segment xs i j ! k = xs ! (i + k)"
  by (simp add: segment_def)

lemma segment_equal_cut:
  assumes "segment a i i' = segment b j j'" and "i' \<le> length a" and "j' \<le> length b" and "i \<le> i'" and "j \<le> j'"
    and "k \<le> j' - j"
  shows "i' - i = j' - j" and "segment a i (i + k) = segment b j (j + k)"
    and "segment a (i + k) i' = segment b (j + k) j'"
proof -
  show l: "i' - i = j' - j" using arg_cong [OF assms(1), of length] assms(2,3) by (simp add: segment_length)
  have e: "take (i' - i) (drop i a) = take (j' - j) (drop j b)" using assms(1) by (simp add: segment_def)
  have "take k (take (i' - i) (drop i a)) = take k (take (j' - j) (drop j b))" unfolding e ..
  then show "segment a i (i + k) = segment b j (j + k)" using assms(6) l by (simp add: segment_def min_def)
  have "drop k (take (i' - i) (drop i a)) = drop k (take (j' - j) (drop j b))" unfolding e ..
  then show "segment a (i + k) i' = segment b (j + k) j'" by (simp add: segment_def drop_take add.commute)
qed

lemma segment_take_eq:
  assumes "take n b = take n b'" and "k \<le> n"
  shows "segment b j k = segment b' j k"
proof -
  have "segment xs j k = segment (take n xs) j k" for xs :: "'a list"
    using assms(2) by (simp add: segment_def drop_take min_def)
  with assms(1) show ?thesis by metis
qed

lemma segment_drop_eq:
  assumes "drop n b = drop n' b'" and "n \<le> j" and "n \<le> k"
  shows "segment b j k = segment b' (j - n + n') (k - n + n')"
proof -
  have "drop j b = drop (j - n) (drop n b)" using assms(2) by simp
  also have "\<dots> = drop (j - n) (drop n' b')" using assms(1) by simp
  finally show ?thesis using assms(2,3) by (simp add: segment_def)
qed

lemma segment_segment:
  assumes "segment xs s (s + length f) = f" and "j \<le> length f"
  shows "segment f i j = segment xs (s + i) (s + j)"
proof -
  have "f = take (length f) (drop s xs)" using assms(1) by (simp add: segment_def)
  then have "segment f i j = take (j - i) (drop i (take (length f) (drop s xs)))"
    by (simp add: segment_def)
  also have "\<dots> = take (min (j - i) (length f - i)) (drop (i + s) xs)"
    by (simp add: drop_take)
  finally show ?thesis using assms(2) by (simp add: segment_def min_def add.commute)
qed

lemma segment_last:
  assumes "t + length g \<le> length b" and "segment b t (t + length g) = g" and "g \<noteq> []"
  shows "last g = b ! (t + length g - 1)"
proof -
  have "last g = g ! (length g - 1)" using assms(3) by (rule last_conv_nth)
  also have "\<dots> = segment b t (t + length g) ! (length g - 1)" using assms(2) by simp
  also have "\<dots> = b ! (t + (length g - 1))" using assms(1,3) by (simp add: segment_def)
  finally show ?thesis using assms(3) by (cases g) simp_all
qed

lemma segment_cons: "i < j \<Longrightarrow> j \<le> length xs \<Longrightarrow> segment xs i j = xs ! i # segment xs (Suc i) j"
  using Cons_nth_drop_Suc [of i xs] by (cases "j - i") (auto simp: segment_def take_Suc_Cons [symmetric] Suc_diff_Suc simp del: take_Suc_Cons)

section \<open>Go maps as association lists\<close>

abbreviation alist_get :: "('k \<times> 'v) list \<Rightarrow> 'k \<Rightarrow> 'v option" where
  "alist_get m k \<equiv> map_of m k"

abbreviation alist_put :: "'k \<Rightarrow> 'v \<Rightarrow> ('k \<times> 'v) list \<Rightarrow> ('k \<times> 'v) list" where
  "alist_put k v m \<equiv> AList.update k v m"

lemma alist_get_put [simp]:
  "alist_get (alist_put k v m) j = (if j = k then Some v else alist_get m j)"
  by (simp add: update_conv')

lemma alist_put_keys: "alist_get m k \<noteq> None \<Longrightarrow> map fst (alist_put k v m) = map fst m"
  by (induction m) auto

lemma alist_put_distinct:
  "distinct (map fst m) \<Longrightarrow> distinct (map fst (alist_put k v m))"
  by (rule distinct_update)

text \<open>The zero value of a missing key, as a Go map read returns it.\<close>

definition alist_zero :: "'v \<Rightarrow> ('k \<times> 'v) list \<Rightarrow> 'k \<Rightarrow> 'v" where
  "alist_zero z m k = (case alist_get m k of None \<Rightarrow> z | Some v \<Rightarrow> v)"

end
