(* ===== verification/Control_Types.thy ===== *)
theory Control_Types
  imports Prelude
begin

text \<open>
  Data model of thread control (\<open>modules/threadcontrol/control/types.go\<close>, with the value
  types of \<open>native.go\<close>, \<open>peer.go\<close> and \<open>contracts/guidance\<close> it contains).  Go string types
  with a fixed set of constants are datatypes with one constructor per constant and one
  for any other text, so that a read from a checkpoint or an argument of a caller is still
  representable.  Pointers that may be nil are options.  Times are integers (nanoseconds on
  the clock of the caller); generations are 64-bit words and wrap as \<open>uint64\<close> does.
  The map \<open>Tree.Members\<close> is an association list whose order is the order in which the run
  considered iterates over the map.
\<close>

section \<open>Enumerations\<close>

datatype status = Pending | Working | Waiting | Paused | Completed | Failed | Interrupted
  | Uncertain | StatusOther string

fun status_text :: "status \<Rightarrow> string" where
  "status_text Pending = ''pending''"
| "status_text Working = ''working''"
| "status_text Waiting = ''waiting''"
| "status_text Paused = ''paused''"
| "status_text Completed = ''completed''"
| "status_text Failed = ''failed''"
| "status_text Interrupted = ''interrupted''"
| "status_text Uncertain = ''uncertain''"
| "status_text (StatusOther s) = s"

text \<open>The empty status, the zero value of the Go type.\<close>

abbreviation no_status :: status where
  "no_status \<equiv> StatusOther ''''"

text \<open>Effect and wait states (the string field \<open>State\<close>).\<close>

datatype estate = SPending | SRegistered | SQueued | SDispatching | SUncertain | SConfirmed
  | SCompleted | SFailed | SCanceled | SPaused | STimeout | SWaiting | SScheduled
  | SOther string

text \<open>
  Effect kinds and creation phases: \<open>effectStep\<close> reads either as one vocabulary.
\<close>

datatype step = KCreate | KAssignmentInput | KAdmit | KInitial | KMessage | KFollowup
  | KInterrupt | KWake | KCompact | KCompletion | KFinal | KHuman | KOther string

abbreviation no_step :: step where
  "no_step \<equiv> KOther ''''"

datatype wait_mode = ModeNone | WaitAny | WaitAll | ModeOther string

text \<open>The field \<open>Wait.Stop\<close>: empty, \<open>eligible\<close> or \<open>committed\<close>.\<close>

datatype stop_mark = StopNone | StopEligible | StopCommitted

section \<open>Identities and settings\<close>

record identity =
  i_thread :: string
  i_session :: string
  i_turn :: string
  i_call :: string
  i_item :: string

record participant =
  p_thread :: string
  p_parent :: string
  p_task :: string
  p_role :: string
  p_status :: status
  p_non_attachable :: bool

record role_selection =
  r_name :: string
  r_description :: string
  r_path :: string
  r_digest :: string
  r_contents :: string

record settings =
  s_workspace :: string
  s_model :: string
  s_provider :: string
  s_role :: string
  s_permission_id :: string
  s_approvals_reviewer :: string
  s_effort :: "string option"
  s_summary :: "string option"
  s_tier :: "string option"
  s_base_instructions :: "string option"
  s_developer_instructions :: "string option"
  s_runtime_roots :: "string list"
  s_permission_profile :: string
  s_approval_policy :: string
  s_config :: string
  s_preparation :: string
  s_non_attachable :: bool
  s_selected_role :: "role_selection option"

record limits =
  l_min_wait_ms :: int
  l_max_wait_ms :: int

record fragment =
  f_thread :: string
  f_item :: string
  f_index :: int
  f_kind :: string
  f_text :: string

record context_preload =
  cp_item :: string
  cp_selection :: string

record session_metrics =
  sm_context_tokens :: "64 word option"
  sm_context_window :: "64 word option"
  sm_compactions :: "64 word option"

record local_stop =
  ls_generation :: "64 word"
  ls_turn :: string
  ls_item :: string
  ls_wait :: string

record host_failure =
  hf_message :: string
  hf_recoverable :: bool

section \<open>Foreign sessions (\<open>peer.go\<close>)\<close>

record origin =
  o_session :: string
  o_thread :: string
  o_task :: string
  o_turn :: string
  o_generation :: "64 word"
  o_status :: status

record remote_target =
  rt_session :: string
  rt_thread :: string
  rt_task :: string
  rt_turn :: string
  rt_generation :: "64 word"
  rt_status :: status
  rt_host_running :: bool
  rt_unavailable :: bool

section \<open>Events, wait results, effects\<close>

record event =
  ev_session :: string
  ev_id :: string
  ev_recipient :: string
  ev_source :: string
  ev_task :: string
  ev_turn :: string
  ev_generation :: "64 word"
  ev_kind :: string
  ev_status :: status
  ev_message :: string

record compaction_result =
  cr_reload :: string
  cr_state :: estate
  cr_error :: string

record wait_result =
  wr_compaction :: "compaction_result option"
  wr_metrics :: "(string \<times> session_metrics) list option"
  wr_id :: string
  wr_turn :: string
  wr_stop :: stop_mark
  wr_standalone :: bool
  wr_usage_limit :: bool
  wr_capacity :: bool
  wr_timed :: bool
  wr_deadline :: "int option"
  wr_all :: bool
  wr_state :: estate
  wr_mode :: wait_mode
  wr_events :: "event list"
  wr_event :: "event option"
  wr_targets :: "string list"
  wr_effective_ms :: "int option"

record child =
  c_import :: string
  c_task :: string
  c_session :: string
  c_path :: string
  c_arguments :: string
  c_settings :: settings
  c_limits :: limits
  c_preload :: context_preload

record effect =
  e_id :: string
  e_caller :: string
  e_caller_turn :: string
  e_target :: string
  e_kind :: step
  e_message :: string
  e_state :: estate
  e_phase :: step
  e_turn :: string
  e_error :: string
  e_claimed_by :: string
  e_caller_generation :: "64 word"
  e_generation :: "64 word"
  e_consumed :: bool
  e_previous_status :: status
  e_outcome :: status
  e_origin :: "origin option"
  e_child :: "child option"
  e_wake :: "wait_result option"

text \<open>The zero value of \<open>Effect\<close>, from which its struct literals are built.\<close>

definition zero_effect :: effect where
  "zero_effect = \<lparr>e_id = '''', e_caller = '''', e_caller_turn = '''', e_target = '''',
     e_kind = no_step, e_message = '''', e_state = SOther '''', e_phase = no_step,
     e_turn = '''', e_error = '''', e_claimed_by = '''', e_caller_generation = 0,
     e_generation = 0, e_consumed = False, e_previous_status = no_status,
     e_outcome = no_status, e_origin = None, e_child = None, e_wake = None\<rparr>"

record wait =
  w_effect :: effect
  w_metrics :: "(string \<times> session_metrics) list option"
  w_item :: string
  w_stop :: stop_mark
  w_resume_handle :: string
  w_targets :: "string list"
  w_foreign :: "(string \<times> remote_target) list"
  w_all :: bool
  w_mode :: wait_mode
  w_terminals :: "event list"
  w_recovery :: "(string \<times> 64 word) list"
  w_requested_ms :: "int option"
  w_effective_ms :: "int option"
  w_deadline :: "int option"
  w_terminal :: "event option"
  w_compaction :: "effect option"
  w_standalone :: bool
  w_usage_limit :: bool
  w_capacity :: bool

definition zero_wait :: wait where
  "zero_wait = \<lparr>w_effect = zero_effect, w_metrics = None, w_item = '''', w_stop = StopNone,
     w_resume_handle = '''', w_targets = [], w_foreign = [], w_all = False,
     w_mode = ModeNone, w_terminals = [], w_recovery = [], w_requested_ms = None,
     w_effective_ms = None, w_deadline = None, w_terminal = None, w_compaction = None,
     w_standalone = False, w_usage_limit = False, w_capacity = False\<rparr>"

text \<open>
  \<open>Wait\<close> embeds \<open>Effect\<close>: its promoted fields read and write the embedded effect.
\<close>

abbreviation w_id :: "wait \<Rightarrow> string" where "w_id w \<equiv> e_id (w_effect w)"
abbreviation w_caller :: "wait \<Rightarrow> string" where "w_caller w \<equiv> e_caller (w_effect w)"
abbreviation w_state :: "wait \<Rightarrow> estate" where "w_state w \<equiv> e_state (w_effect w)"
abbreviation w_turn :: "wait \<Rightarrow> string" where "w_turn w \<equiv> e_turn (w_effect w)"
abbreviation w_generation :: "wait \<Rightarrow> 64 word" where "w_generation w \<equiv> e_generation (w_effect w)"

definition wait_set_state :: "estate \<Rightarrow> wait \<Rightarrow> wait" where
  "wait_set_state st w = w\<lparr>w_effect := (w_effect w)\<lparr>e_state := st\<rparr>\<rparr>"

lemma wait_set_state_sel [simp]:
  "w_effect (wait_set_state st w) = (w_effect w)\<lparr>e_state := st\<rparr>"
  "w_stop (wait_set_state st w) = w_stop w"
  "w_compaction (wait_set_state st w) = w_compaction w"
  "w_item (wait_set_state st w) = w_item w"
  "w_targets (wait_set_state st w) = w_targets w"
  "w_terminals (wait_set_state st w) = w_terminals w"
  "w_terminal (wait_set_state st w) = w_terminal w"
  "w_recovery (wait_set_state st w) = w_recovery w"
  "w_deadline (wait_set_state st w) = w_deadline w"
  "w_usage_limit (wait_set_state st w) = w_usage_limit w"
  "w_standalone (wait_set_state st w) = w_standalone w"
  "w_mode (wait_set_state st w) = w_mode w"
  "w_foreign (wait_set_state st w) = w_foreign w"
  by (simp_all add: wait_set_state_def)

section \<open>Members and trees\<close>

record member =
  m_path :: string
  m_thread :: string
  m_session :: string
  m_parent :: string
  m_task :: string
  m_turn :: string
  m_last_answer :: string
  m_answer_items :: "string list"
  m_generation :: "64 word"
  m_capacity_retry_seconds :: int
  m_capacity_retry_generation :: "64 word"
  m_status :: status
  m_audience_admitted :: bool
  m_host_running :: bool
  m_settings :: settings
  m_limits :: limits
  m_instructions :: "fragment list"
  m_wait :: "wait option"
  m_recovery_wait :: "wait option"
  m_stop :: "local_stop option"
  m_preload :: context_preload

definition zero_settings :: settings where
  "zero_settings = \<lparr>s_workspace = '''', s_model = '''', s_provider = '''', s_role = '''',
     s_permission_id = '''', s_approvals_reviewer = '''', s_effort = None, s_summary = None,
     s_tier = None, s_base_instructions = None, s_developer_instructions = None,
     s_runtime_roots = [], s_permission_profile = '''', s_approval_policy = '''',
     s_config = '''', s_preparation = '''', s_non_attachable = False, s_selected_role = None\<rparr>"

definition zero_member :: member where
  "zero_member = \<lparr>m_path = '''', m_thread = '''', m_session = '''', m_parent = '''',
     m_task = '''', m_turn = '''', m_last_answer = '''', m_answer_items = [],
     m_generation = 0, m_capacity_retry_seconds = 0, m_capacity_retry_generation = 0,
     m_status = no_status, m_audience_admitted = False, m_host_running = False,
     m_settings = zero_settings, m_limits = \<lparr>l_min_wait_ms = 0, l_max_wait_ms = 0\<rparr>,
     m_instructions = [], m_wait = None, m_recovery_wait = None, m_stop = None,
     m_preload = \<lparr>cp_item = '''', cp_selection = ''''\<rparr>\<rparr>"

record tree =
  t_version :: int
  t_root :: string
  t_members :: "(string \<times> member) list"
  t_effects :: "effect list"

record spawn_request =
  sr_import :: string
  sr_name :: string
  sr_message :: string
  sr_preload :: string
  sr_arguments :: string
  sr_settings :: settings
  sr_limits :: limits

record receipt =
  rc_thread :: string
  rc_session :: string
  rc_path :: string
  rc_turn :: string
  rc_error :: string
  rc_phase :: step
  rc_uncertain :: bool
  rc_reconciled :: bool

section \<open>Operations on single values\<close>

definition reserved :: "member \<Rightarrow> bool" where
  "reserved m \<longleftrightarrow> m_status m = Pending \<or> m_status m = Working \<or> m_status m = Waiting
     \<or> m_status m = Paused \<or> m_status m = Uncertain"

definition host_owned :: "estate \<Rightarrow> bool" where
  "host_owned s \<longleftrightarrow> s = SDispatching \<or> s = SUncertain"

fun paused_state :: "estate \<Rightarrow> estate" where
  "paused_state SDispatching = SUncertain"
| "paused_state SPending = SPaused"
| "paused_state SRegistered = SPaused"
| "paused_state SQueued = SPaused"
| "paused_state s = s"

definition public_state :: "effect \<Rightarrow> estate" where
  "public_state e = (if e_kind e = KWake \<and> e_state e = SRegistered then SWaiting else e_state e)"

definition effect_step :: "effect \<Rightarrow> step" where
  "effect_step e = (if e_kind e = KCreate then e_phase e else e_kind e)"

definition delivered :: "effect \<Rightarrow> bool" where
  "delivered e \<longleftrightarrow> ((e_kind e = KMessage \<or> e_kind e = KFinal) \<and> e_state e = SConfirmed)
     \<or> (e_kind e = KFinal \<and> e_state e = SFailed)"

definition source :: "effect \<Rightarrow> string" where
  "source e = (case e_origin e of Some og \<Rightarrow> o_thread og | None \<Rightarrow> e_caller e)"

definition compaction_pending :: "wait option \<Rightarrow> bool" where
  "compaction_pending mw = (case mw of None \<Rightarrow> False | Some w \<Rightarrow>
     (case w_compaction w of None \<Rightarrow> False | Some c \<Rightarrow>
        host_owned (e_state c)
        \<or> (e_state c = SRegistered \<and> w_state w = SRegistered)
        \<or> (w_stop w = StopCommitted \<and> e_state c \<noteq> SCompleted \<and> e_state c \<noteq> SFailed
             \<and> e_state c \<noteq> SCanceled)))"

definition settled :: "wait_result option \<Rightarrow> bool" where
  "settled mr = (case mr of None \<Rightarrow> False | Some r \<Rightarrow>
     wr_state r = SCompleted \<or> wr_state r = STimeout \<or> wr_state r = SCanceled
     \<or> wr_state r = SPaused \<or> wr_state r = SFailed)"

definition member_participant :: "member \<Rightarrow> participant" where
  "member_participant m = \<lparr>p_thread = m_thread m, p_parent = m_parent m, p_task = m_task m,
     p_role = s_role (m_settings m), p_status = m_status m,
     p_non_attachable = s_non_attachable (m_settings m)\<rparr>"

text \<open>A new turn: the closure of \<open>member.start\<close>.\<close>

definition start_turn :: "string \<Rightarrow> member \<Rightarrow> member" where
  "start_turn turn m = m\<lparr>m_turn := turn, m_status := Working, m_host_running := True,
     m_last_answer := '''', m_answer_items := []\<rparr>"

text \<open>
  A JSON round trip keeps all but the unexported \<open>answerItems\<close> and the field \<open>Wake\<close> that its
  tag excludes.
\<close>

definition detach_effect :: "effect \<Rightarrow> effect" where
  "detach_effect e = e\<lparr>e_wake := None\<rparr>"

definition detach_wait :: "wait \<Rightarrow> wait" where
  "detach_wait w = w\<lparr>w_effect := detach_effect (w_effect w),
     w_compaction := map_option detach_effect (w_compaction w)\<rparr>"

definition detach_member :: "member \<Rightarrow> member" where
  "detach_member m = m\<lparr>m_answer_items := [], m_wait := map_option detach_wait (m_wait m),
     m_recovery_wait := map_option detach_wait (m_recovery_wait m)\<rparr>"

definition detach_tree :: "tree \<Rightarrow> tree" where
  "detach_tree t = t\<lparr>t_members := map (\<lambda>(k, m). (k, detach_member m)) (t_members t),
     t_effects := map detach_effect (t_effects t)\<rparr>"

section \<open>Names (\<open>names.go\<close>)\<close>

definition agent_name :: "string \<Rightarrow> string" where
  "agent_name task =
     (if task = ''/root'' \<or> prefix ''/root/'' task
      then ''agent:main'' @ trim_prefix ''/root'' task else task)"

definition task_path :: "string \<Rightarrow> string" where
  "task_path name =
     (if name = ''agent:main'' \<or> prefix ''agent:main/'' name
      then ''/root'' @ trim_prefix ''agent:main'' name else name)"

definition sender :: "origin \<Rightarrow> string" where
  "sender og = agent_name (o_task og) @ '' (session '' @ o_session og @ '', thread '' @ o_thread og @ '')''"

section \<open>First facts\<close>

lemma paused_state_idem [simp]: "paused_state (paused_state s) = paused_state s"
  by (cases s) auto

lemma paused_state_not_live:
  "paused_state s \<noteq> SDispatching" "paused_state s \<noteq> SPending"
  "paused_state s \<noteq> SRegistered" "paused_state s \<noteq> SQueued"
  by (cases s; simp)+

lemma host_owned_paused [simp]: "host_owned (paused_state s) = host_owned s"
  by (cases s) (auto simp: host_owned_def)

lemma host_owned_simps [simp]:
  "host_owned SDispatching" "host_owned SUncertain"
  "\<not> host_owned SPending" "\<not> host_owned SRegistered" "\<not> host_owned SQueued"
  "\<not> host_owned SConfirmed" "\<not> host_owned SCompleted" "\<not> host_owned SFailed"
  "\<not> host_owned SCanceled" "\<not> host_owned SPaused" "\<not> host_owned STimeout"
  by (simp_all add: host_owned_def)

lemma start_turn_sel [simp]:
  "m_thread (start_turn t m) = m_thread m" "m_wait (start_turn t m) = m_wait m"
  "m_recovery_wait (start_turn t m) = m_recovery_wait m"
  "m_turn (start_turn t m) = t" "m_status (start_turn t m) = Working"
  "m_host_running (start_turn t m)" "m_generation (start_turn t m) = m_generation m"
  "m_parent (start_turn t m) = m_parent m" "m_task (start_turn t m) = m_task m"
  "m_session (start_turn t m) = m_session m" "m_stop (start_turn t m) = m_stop m"
  "m_audience_admitted (start_turn t m) = m_audience_admitted m"
  by (simp_all add: start_turn_def)

end
