(* ===== verification/Control_Tree.thy ===== *)
theory Control_Tree
  imports Control_Types
begin

text \<open>
  Reads and writes of the logical tree: member lookup and replacement (\<open>Tree.edit\<close>),
  pointers to effects (\<open>Tree.Effect\<close> returns a pointer into the effect list or into a
  member's wait, here an \<open>eref\<close> that is read and written through), the derived views
  (\<open>event\<close>, \<open>waitResult\<close>, \<open>wakeResult\<close>, \<open>View\<close>, \<open>Actions\<close>), and the settlement steps
  shared by the handlers (\<open>cancelSubscription\<close>, \<open>cancelCompletion\<close>, \<open>finish\<close>, \<open>pause\<close>,
  \<open>selectRoot\<close>).  A mutation of a member through its pointer is a replacement of the
  member in the tree; every mutating closure works on a copy made by \<open>Service.update\<close>
  and \<open>Tree.edit\<close>, so no other value shares the record that changes.
\<close>

section \<open>Members\<close>

abbreviation t_member :: "tree \<Rightarrow> string \<Rightarrow> member option" where
  "t_member t k \<equiv> alist_get (t_members t) k"

definition set_member :: "string \<Rightarrow> member \<Rightarrow> tree \<Rightarrow> tree" where
  "set_member k m t = t\<lparr>t_members := alist_put k m (t_members t)\<rparr>"

definition upd_member :: "string \<Rightarrow> (member \<Rightarrow> member) \<Rightarrow> tree \<Rightarrow> tree" where
  "upd_member k f t = (case t_member t k of None \<Rightarrow> t | Some m \<Rightarrow> set_member k (f m) t)"

definition upd_wait :: "(wait \<Rightarrow> wait) \<Rightarrow> member \<Rightarrow> member" where
  "upd_wait f m = m\<lparr>m_wait := map_option f (m_wait m)\<rparr>"

definition set_effects :: "effect list \<Rightarrow> tree \<Rightarrow> tree" where
  "set_effects es t = t\<lparr>t_effects := es\<rparr>"

definition append_effect :: "effect \<Rightarrow> tree \<Rightarrow> tree" where
  "append_effect e t = set_effects (t_effects t @ [e]) t"

definition map_effects :: "(effect \<Rightarrow> effect) \<Rightarrow> tree \<Rightarrow> tree" where
  "map_effects f t = set_effects (map f (t_effects t)) t"

named_theorems tree_simps "how the tree updates read back"

lemma set_member_sel [simp, tree_simps]:
  "t_member (set_member k m t) j = (if j = k then Some m else t_member t j)"
  "t_effects (set_member k m t) = t_effects t"
  "t_root (set_member k m t) = t_root t"
  "t_version (set_member k m t) = t_version t"
  by (simp_all add: set_member_def)

lemma upd_member_sel [simp, tree_simps]:
  "t_member (upd_member k f t) j = (if j = k then map_option f (t_member t k) else t_member t j)"
  "t_effects (upd_member k f t) = t_effects t"
  "t_root (upd_member k f t) = t_root t"
  "t_version (upd_member k f t) = t_version t"
  by (auto simp: upd_member_def split: option.splits)

lemma set_effects_sel [simp, tree_simps]:
  "t_member (set_effects es t) j = t_member t j" "t_members (set_effects es t) = t_members t"
  "t_effects (set_effects es t) = es"
  "t_root (set_effects es t) = t_root t" "t_version (set_effects es t) = t_version t"
  by (simp_all add: set_effects_def)

lemma append_effect_sel [simp, tree_simps]:
  "t_member (append_effect e t) j = t_member t j" "t_members (append_effect e t) = t_members t"
  "t_effects (append_effect e t) = t_effects t @ [e]"
  "t_root (append_effect e t) = t_root t" "t_version (append_effect e t) = t_version t"
  by (simp_all add: append_effect_def)

lemma map_effects_sel [simp, tree_simps]:
  "t_member (map_effects f t) j = t_member t j" "t_members (map_effects f t) = t_members t"
  "t_effects (map_effects f t) = map f (t_effects t)"
  "t_root (map_effects f t) = t_root t" "t_version (map_effects f t) = t_version t"
  by (simp_all add: map_effects_def)

lemma upd_wait_sel [simp]:
  "m_thread (upd_wait f m) = m_thread m" "m_wait (upd_wait f m) = map_option f (m_wait m)"
  "m_recovery_wait (upd_wait f m) = m_recovery_wait m" "m_turn (upd_wait f m) = m_turn m"
  "m_status (upd_wait f m) = m_status m" "m_host_running (upd_wait f m) = m_host_running m"
  "m_generation (upd_wait f m) = m_generation m" "m_stop (upd_wait f m) = m_stop m"
  "m_parent (upd_wait f m) = m_parent m" "m_task (upd_wait f m) = m_task m"
  "m_session (upd_wait f m) = m_session m"
  "m_audience_admitted (upd_wait f m) = m_audience_admitted m"
  by (simp_all add: upd_wait_def)

section \<open>Pointers to effects\<close>

datatype eref = InTree nat | InWait string | InCompaction string

definition effect_ref :: "tree \<Rightarrow> string \<Rightarrow> string \<Rightarrow> eref option" where
  "effect_ref t caller eid =
     (case find_index (\<lambda>e. e_caller e = caller \<and> e_id e = eid) (t_effects t) of
        Some i \<Rightarrow> Some (InTree i)
      | None \<Rightarrow>
          (case t_member t caller of
             None \<Rightarrow> None
           | Some m \<Rightarrow>
               (case m_wait m of
                  None \<Rightarrow> None
                | Some w \<Rightarrow>
                    if w_id w = eid then Some (InWait caller)
                    else (case w_compaction w of
                            None \<Rightarrow> None
                          | Some c \<Rightarrow> if e_id c = eid then Some (InCompaction caller) else None))))"

fun get_effect :: "tree \<Rightarrow> eref \<Rightarrow> effect option" where
  "get_effect t (InTree i) = (if i < length (t_effects t) then Some (t_effects t ! i) else None)"
| "get_effect t (InWait k) = Option.bind (t_member t k) (\<lambda>m. map_option w_effect (m_wait m))"
| "get_effect t (InCompaction k) =
     Option.bind (t_member t k) (\<lambda>m. Option.bind (m_wait m) w_compaction)"

fun upd_effect :: "eref \<Rightarrow> (effect \<Rightarrow> effect) \<Rightarrow> tree \<Rightarrow> tree" where
  "upd_effect (InTree i) f t = set_effects ((t_effects t)[i := f (t_effects t ! i)]) t"
| "upd_effect (InWait k) f t =
     upd_member k (upd_wait (\<lambda>w. w\<lparr>w_effect := f (w_effect w)\<rparr>)) t"
| "upd_effect (InCompaction k) f t =
     upd_member k (upd_wait (\<lambda>w. w\<lparr>w_compaction := map_option f (w_compaction w)\<rparr>)) t"

text \<open>\<open>Tree.Effect\<close>: the effect with this caller and identity, and where it lives.\<close>

definition tree_effect :: "tree \<Rightarrow> string \<Rightarrow> string \<Rightarrow> effect option" where
  "tree_effect t caller eid = Option.bind (effect_ref t caller eid) (get_effect t)"

lemma effect_ref_get:
  "effect_ref t caller eid = Some r \<Longrightarrow> \<exists>e. get_effect t r = Some e \<and> e_id e = eid"
  by (auto simp: effect_ref_def dest!: find_index_Some split: option.splits if_splits)

lemma effect_ref_InTree:
  assumes "effect_ref t caller eid = Some (InTree i)"
  shows "i < length (t_effects t)" "e_caller (t_effects t ! i) = caller"
    "e_id (t_effects t ! i) = eid"
  using assms by (auto simp: effect_ref_def dest!: find_index_Some split: option.splits if_splits)

lemma effect_ref_key:
  "effect_ref t caller eid = Some (InWait k) \<Longrightarrow> k = caller"
  "effect_ref t caller eid = Some (InCompaction k) \<Longrightarrow> k = caller"
  by (auto simp: effect_ref_def split: option.splits if_splits)

lemma get_upd_effect:
  "get_effect t r = Some e \<Longrightarrow> get_effect (upd_effect r f t) r = Some (f e)"
  by (cases r) (auto split: if_splits bind_splits)

lemma tree_effect_None:
  "tree_effect t caller eid = None \<longleftrightarrow> effect_ref t caller eid = None"
proof (cases "effect_ref t caller eid")
  case None
  then show ?thesis by (simp add: tree_effect_def)
next
  case (Some r)
  with effect_ref_get [OF Some] show ?thesis by (auto simp: tree_effect_def)
qed

section \<open>Derived views\<close>

text \<open>
  \<open>Tree.event\<close> reads the task of the caller's member; a caller outside the tree would be a
  nil dereference.  Every effect of a reachable tree has its caller in the tree (shown with
  the invariants), so the empty task below is never used there.
\<close>

definition caller_task :: "tree \<Rightarrow> string \<Rightarrow> string" where
  "caller_task t k = (case t_member t k of None \<Rightarrow> '''' | Some m \<Rightarrow> m_task m)"

definition tree_event :: "tree \<Rightarrow> effect \<Rightarrow> event" where
  "tree_event t e =
    (let ev = \<lparr>ev_session = '''', ev_id = e_caller e @ '':'' @ e_id e @ '':event'',
               ev_recipient = e_target e, ev_source = e_caller e,
               ev_task = caller_task t (e_caller e), ev_turn = e_caller_turn e,
               ev_generation = e_caller_generation e, ev_kind = status_text (e_outcome e),
               ev_status = e_outcome e, ev_message = ''''\<rparr>;
         ev = (case e_origin e of None \<Rightarrow> ev
               | Some og \<Rightarrow> ev\<lparr>ev_source := o_thread og, ev_task := sender og,
                             ev_session := o_session og\<rparr>);
         ev = (if e_kind e = KMessage
               then ev\<lparr>ev_kind := ''message'', ev_message := e_message e\<rparr> else ev)
     in if e_state e = SFailed then ev\<lparr>ev_kind := ''delivery_failed''\<rparr> else ev)"

text \<open>\<open>waitMember\<close>: a member of the tree, or a stand-in for a foreign target.\<close>

definition wait_member :: "tree \<Rightarrow> wait \<Rightarrow> string \<Rightarrow> member option" where
  "wait_member t w eid =
    (case t_member t eid of
       Some m \<Rightarrow> Some m
     | None \<Rightarrow>
        (case alist_get (w_foreign w) eid of
           Some r \<Rightarrow> Some (zero_member\<lparr>m_thread := eid, m_session := rt_session r, m_task := eid,
                        m_turn := rt_turn r, m_generation := rt_generation r,
                        m_status := rt_status r, m_host_running := rt_host_running r\<rparr>)
         | None \<Rightarrow> None))"

definition stopped_event :: "wait \<Rightarrow> member \<Rightarrow> event" where
  "stopped_event w m =
    (let ev = \<lparr>ev_session = '''', ev_id = w_id w @ '':stopped:'' @ m_thread m,
               ev_recipient = w_caller w, ev_source = m_thread m, ev_task = m_task m,
               ev_turn = m_turn m, ev_generation = m_generation m,
               ev_kind = status_text (m_status m), ev_status = m_status m, ev_message = ''''\<rparr>
     in case alist_get (w_foreign w) (m_thread m) of
          None \<Rightarrow> ev
        | Some r \<Rightarrow>
            (let ev = ev\<lparr>ev_session := rt_session r\<rparr>
             in if rt_unavailable r
                then ev\<lparr>ev_kind := ''unavailable'',
                        ev_message := ''Selected foreign session runtime ended''\<rparr>
                else ev))"

text \<open>The loop of \<open>waitResult\<close> over the effects this wait has claimed.\<close>

fun claimed_events :: "tree \<Rightarrow> wait \<Rightarrow> effect list \<Rightarrow> wait_result \<Rightarrow> wait_result" where
  "claimed_events t w [] r = r"
| "claimed_events t w (e # es) r =
    (if delivered e \<and> e_claimed_by e = w_id w \<and> e_target e = w_caller w
     then (if w_mode w = WaitAll \<and> e_kind e = KFinal
           then claimed_events t w es (r\<lparr>wr_events := wr_events r @ [tree_event t e]\<rparr>)
           else r\<lparr>wr_event := Some (tree_event t e)\<rparr>)
     else claimed_events t w es r)"

definition wait_result_of :: "tree \<Rightarrow> wait \<Rightarrow> wait_result" where
  "wait_result_of t w =
    (let r = \<lparr>wr_compaction = None, wr_metrics = w_metrics w, wr_id = w_id w, wr_turn = '''',
              wr_stop = StopNone, wr_standalone = w_standalone w,
              wr_usage_limit = w_usage_limit w, wr_capacity = w_capacity w,
              wr_timed = (w_deadline w \<noteq> None),
              wr_deadline = (if w_usage_limit w then w_deadline w else None),
              wr_all = w_all w, wr_state = public_state (w_effect w),
              wr_mode = (if w_standalone w \<or> w_usage_limit w then ModeNone else w_mode w),
              wr_events = w_terminals w, wr_event = None, wr_targets = [],
              wr_effective_ms = w_effective_ms w\<rparr>;
         r = (case w_compaction w of None \<Rightarrow> r
              | Some c \<Rightarrow>
                 (let r = r\<lparr>wr_compaction := Some \<lparr>cr_reload = e_message c, cr_state = e_state c,
                                                  cr_error = e_error c\<rparr>\<rparr>
                  in if e_state c = SRegistered then r\<lparr>wr_state := SScheduled\<rparr> else r));
         r = r\<lparr>wr_event := w_terminal w\<rparr>;
         r = r\<lparr>wr_targets := List.map_filter (\<lambda>eid. map_option m_task (wait_member t w eid)) (w_targets w)\<rparr>
     in claimed_events t w (t_effects t) r)"

definition wake_result :: "tree \<Rightarrow> wait \<Rightarrow> wait_result" where
  "wake_result t w =
    (let r = (wait_result_of t w)\<lparr>wr_state := STimeout\<rparr>
     in if w_standalone w \<or> w_usage_limit w \<or> wr_event r \<noteq> None \<or> wr_events r \<noteq> []
        then r\<lparr>wr_state := SCompleted\<rparr> else r)"

record wait_view =
  v_id :: string
  v_caller :: string
  v_generation :: "64 word"
  v_turn :: string
  v_item :: string
  v_targets :: "string list"
  v_mode :: wait_mode
  v_requested_ms :: "int option"
  v_effective_ms :: "int option"
  v_deadline :: "int option"
  v_state :: estate
  v_stop :: stop_mark
  v_resume_handle :: string
  v_event :: "string option"

definition wait_view_of :: "tree \<Rightarrow> wait option \<Rightarrow> wait_view option" where
  "wait_view_of t mw = map_option (\<lambda>w. \<lparr>v_id = w_id w, v_caller = w_caller w,
     v_generation = w_generation w, v_turn = w_turn w, v_item = w_item w,
     v_targets = w_targets w, v_mode = w_mode w, v_requested_ms = w_requested_ms w,
     v_effective_ms = w_effective_ms w, v_deadline = w_deadline w,
     v_state = public_state (w_effect w), v_stop = w_stop w,
     v_resume_handle = w_resume_handle w,
     v_event = map_option ev_id (wr_event (wait_result_of t w))\<rparr>) mw"

text \<open>\<open>Tree.Actions\<close>: the retained effects, then each member's continuations.\<close>

definition member_actions :: "tree \<Rightarrow> member \<Rightarrow> effect list" where
  "member_actions t m =
    (case m_wait m of
       None \<Rightarrow> []
     | Some w \<Rightarrow> (case w_compaction w of None \<Rightarrow> [] | Some c \<Rightarrow> [c])
                @ [(w_effect w)\<lparr>e_wake := Some (wake_result t w)\<rparr>])"

definition tree_actions :: "tree \<Rightarrow> effect list" where
  "tree_actions t = t_effects t @ concat (map (member_actions t \<circ> snd) (t_members t))"

section \<open>Descendants\<close>

definition active_descendant_of :: "member \<Rightarrow> member \<Rightarrow> bool" where
  "active_descendant_of c p \<longleftrightarrow> prefix (m_task p @ ''/'') (m_task c)
     \<and> (m_status c = Pending \<or> m_status c = Working \<or> m_status c = Waiting)"

definition active_descendants :: "tree \<Rightarrow> member \<Rightarrow> string list" where
  "active_descendants t m =
     sort (map m_task (filter (\<lambda>c. active_descendant_of c m) (map snd (t_members t))))"

definition work_id :: "member \<Rightarrow> string \<Rightarrow> string" where
  "work_id m tag = m_thread m @ '':'' @ uint64_dec (m_generation m) @ '':'' @ m_turn m @ '':'' @ tag"

definition completion_stop :: "tree \<Rightarrow> member \<Rightarrow> local_stop option" where
  "completion_stop t m =
    (if active_descendants t m = [] then None
     else Some \<lparr>ls_generation = m_generation m, ls_turn = m_turn m, ls_item = '''',
                ls_wait = work_id m ''completion''\<rparr>)"

section \<open>Settlement\<close>

definition cancel_completion :: "string \<Rightarrow> tree \<Rightarrow> tree" where
  "cancel_completion k t =
    (case t_member t k of
       None \<Rightarrow> t
     | Some m \<Rightarrow>
        (case m_stop m of
           None \<Rightarrow> t
         | Some stop \<Rightarrow>
            (case effect_ref t (m_thread m) (ls_wait stop) of
               None \<Rightarrow> t
             | Some r \<Rightarrow>
                (case get_effect t r of
                   None \<Rightarrow> t
                 | Some e \<Rightarrow>
                    if e_kind e \<noteq> KCompletion \<or> e_state e \<noteq> SPending then t
                    else upd_effect r (\<lambda>e. e\<lparr>e_state := SCanceled\<rparr>) t))))"

definition cancel_wait :: "wait \<Rightarrow> wait" where
  "cancel_wait w =
    (wait_set_state SCanceled w)\<lparr>
       w_compaction := map_option (\<lambda>c. if host_owned (e_state c) then c
                                        else c\<lparr>e_state := SCanceled\<rparr>) (w_compaction w),
       w_stop := StopNone\<rparr>"

definition release_claims :: "string \<Rightarrow> string \<Rightarrow> tree \<Rightarrow> tree" where
  "release_claims thread eid = map_effects (\<lambda>e.
     if e_target e = thread \<and> e_claimed_by e = eid then e\<lparr>e_claimed_by := ''''\<rparr> else e)"

definition cancel_subscription :: "string \<Rightarrow> tree \<Rightarrow> tree" where
  "cancel_subscription k t =
    (case t_member t k of
       None \<Rightarrow> t
     | Some m \<Rightarrow>
        (case m_wait m of
           None \<Rightarrow> t
         | Some w \<Rightarrow>
            upd_member k (upd_wait cancel_wait)
              (if w_state w = SQueued then release_claims (m_thread m) (w_id w) t else t)))"

definition final_effect :: "member \<Rightarrow> status \<Rightarrow> string \<Rightarrow> effect" where
  "final_effect m st text = zero_effect\<lparr>e_id := work_id m ''final'', e_caller := m_thread m,
     e_target := m_parent m, e_caller_turn := m_turn m, e_caller_generation := m_generation m,
     e_kind := KFinal, e_state := SPending, e_message := text, e_outcome := st\<rparr>"

text \<open>\<open>Tree.finish\<close>: settle the work of a member and report to its parent.\<close>

definition finish :: "string \<Rightarrow> status \<Rightarrow> string \<Rightarrow> tree \<Rightarrow> tree" where
  "finish k st text t0 =
    (let t = upd_member k (\<lambda>m. m\<lparr>m_status := st\<rparr>) (cancel_completion k t0)
     in case t_member t k of
          None \<Rightarrow> t
        | Some m \<Rightarrow>
           (let t1 = (case m_wait m of
                        None \<Rightarrow> t
                      | Some w \<Rightarrow> if w_state w \<noteq> SCompleted \<and> \<not> host_owned (w_state w)
                                 then cancel_subscription k t else t)
            in if m_parent m \<noteq> '''' then append_effect (final_effect m st text) t1 else t1))"

definition pause_wait :: "wait \<Rightarrow> wait" where
  "pause_wait w = (wait_set_state (paused_state (w_state w)) w)\<lparr>
     w_compaction := map_option (\<lambda>c. c\<lparr>e_state := paused_state (e_state c)\<rparr>) (w_compaction w)\<rparr>"

definition pause_member :: "member \<Rightarrow> member" where
  "pause_member m = m\<lparr>
     m_status := (if reserved m then Paused else m_status m),
     m_host_running := False, m_turn := '''',
     m_wait := map_option pause_wait (m_wait m),
     m_recovery_wait := map_option (\<lambda>w. wait_set_state (paused_state (w_state w)) w)
                          (m_recovery_wait m)\<rparr>"

definition pause :: "string \<Rightarrow> tree \<Rightarrow> tree" where
  "pause thread t = map_effects
     (\<lambda>e. if thread = '''' \<or> e_caller e = thread \<or> e_target e = thread
          then e\<lparr>e_state := paused_state (e_state e)\<rparr> else e)
     (t\<lparr>t_members := map (\<lambda>(k, m). (k, if thread \<noteq> '''' \<and> thread \<noteq> k then m else pause_member m))
                      (t_members t)\<rparr>)"

section \<open>Selecting a saved root (\<open>rewind.go\<close>)\<close>

definition retarget_effect :: "string \<Rightarrow> string \<Rightarrow> effect \<Rightarrow> effect" where
  "retarget_effect old new e =
    (if e_target e = old \<and> (e_kind e = KMessage \<or> e_kind e = KFinal)
        \<and> (e_state e = SPending \<or> e_state e = SQueued)
     then e\<lparr>e_target := new\<rparr> else e)"

definition select_root :: "string \<Rightarrow> tree \<Rightarrow> error + tree" where
  "select_root thread t =
    (case t_member t thread of
       None \<Rightarrow> Inl (Err ''selected session is not a retained root branch'')
     | Some root \<Rightarrow>
        if m_parent root \<noteq> '''' \<or> m_task root \<noteq> ''/root''
        then Inl (Err ''selected session is not a retained root branch'')
        else if t_root t = thread then Inr t
        else (case t_member t (t_root t) of
                None \<Rightarrow> Inl (Panic ''nil root member'')
              | Some previous \<Rightarrow>
                  if m_host_running previous
                  then Inl (Err ''the family's current root is still running'')
                  else
                    (let t1 = set_member (t_root t) (previous\<lparr>m_audience_admitted := False\<rparr>) t;
                         t2 = upd_member thread (\<lambda>m. m\<lparr>m_audience_admitted := True\<rparr>) t1;
                         t3 = t2\<lparr>t_members := map (\<lambda>(k, m).
                                (k, if m_parent m = t_root t then m\<lparr>m_parent := thread\<rparr> else m))
                                (t_members t2)\<rparr>;
                         t4 = map_effects (retarget_effect (t_root t) thread) t3
                     in Inr (t4\<lparr>t_root := thread\<rparr>))))"

end
