(* ===== verification/Control_Lifecycle.thy ===== *)
theory Control_Lifecycle
  imports Control_Tree
begin

text \<open>
  The host-event table (\<open>transitionHost\<close> in \<open>lifecycle.go\<close>): one definition per event kind,
  dispatched by \<open>transition_host\<close>, and the closures of the lifecycle operations that use it.
  A handler takes the tree and the thread of the member it concerns; the member is read
  from the tree and written back to it.
\<close>

section \<open>Host events\<close>

datatype host_event =
    EvStarted string
  | EvTerminal string status host_failure
  | EvCheckpoint string
  | EvExecution string string string bool
  | EvLocalStop string string
  | EvWaitRegistration string string string bool bool
  | EvHumanInput
  | EvHumanInterrupt string
  | EvControl

type_synonym transition = "(tree, local_stop option) outcome"

definition with_member :: "tree \<Rightarrow> string \<Rightarrow> (member \<Rightarrow> ('t, 'a) outcome) \<Rightarrow> ('t, 'a) outcome" where
  "with_member t k f = (case t_member t k of None \<Rightarrow> Fail (Panic ''nil member'') | Some m \<Rightarrow> f m)"

lemma with_member_Changed [outcome_simps]:
  "with_member t k f = Changed t' a \<longleftrightarrow> (\<exists>m. t_member t k = Some m \<and> f m = Changed t' a)"
  by (simp add: with_member_def split: option.splits)

lemma with_member_Unchanged [outcome_simps]:
  "with_member t k f = Unchanged a \<longleftrightarrow> (\<exists>m. t_member t k = Some m \<and> f m = Unchanged a)"
  by (simp add: with_member_def split: option.splits)

lemma with_member_Some [simp]: "t_member t k = Some m \<Longrightarrow> with_member t k f = f m"
  by (simp add: with_member_def)

definition host_started :: "tree \<Rightarrow> string \<Rightarrow> string \<Rightarrow> transition" where
  "host_started t k turn = with_member t k (\<lambda>m.
     if m_host_running m \<and> m_turn m = turn then Unchanged None
     else if m_host_running m then Fail (Err ''request overlaps another host turn'')
     else
       let begin_turn = (\<lambda>m. start_turn turn (m\<lparr>m_stop := None\<rparr>))
       in if m_parent m = '''' then
            (let t1 = (case m_wait m of
                         None \<Rightarrow> t
                       | Some w \<Rightarrow> if w_state w = SRegistered \<or> w_state w = SQueued
                                  then cancel_subscription k t else t);
                 t2 = (if \<not> reserved m
                       then upd_member k (\<lambda>m. m\<lparr>m_generation := m_generation m + 1\<rparr>) t1 else t1)
             in Changed (upd_member k begin_turn t2) None)
          else if \<not> reserved m \<or> m_status m = Paused
               then Fail (Err ''child request has no active logical admission'')
               else Changed (upd_member k begin_turn t) None)"

definition confirm_interrupts :: "string \<Rightarrow> string \<Rightarrow> tree \<Rightarrow> tree" where
  "confirm_interrupts thread turn = map_effects (\<lambda>e.
     if e_target e = thread \<and> e_kind e = KInterrupt \<and> e_turn e = turn \<and> host_owned (e_state e)
     then e\<lparr>e_state := SConfirmed, e_error := ''''\<rparr> else e)"

definition recovery_wait :: "tree \<Rightarrow> member \<Rightarrow> string \<Rightarrow> wait" where
  "recovery_wait t m turn = zero_wait\<lparr>
     w_effect := zero_effect\<lparr>e_id := m_thread m @ '':'' @ uint64_dec (m_generation m) @ '':''
                                    @ turn @ '':recovery'',
       e_caller := m_thread m, e_target := m_thread m, e_generation := m_generation m,
       e_turn := turn, e_caller_turn := turn, e_kind := KWake, e_state := SRegistered\<rparr>,
     w_targets := sort (map fst (filter (\<lambda>(tid, c). prefix (m_task m @ ''/'') (m_task c)) (t_members t))),
     w_all := True,
     w_recovery := map (\<lambda>(tid, c). (tid, m_generation c))
                     (filter (\<lambda>(tid, c). active_descendant_of c m) (t_members t)),
     w_stop := StopCommitted\<rparr>"

text \<open>Hold a failed but recoverable turn until its active descendants settle.\<close>

definition install_recovery :: "string \<Rightarrow> string \<Rightarrow> wait \<Rightarrow> tree \<Rightarrow> tree" where
  "install_recovery k turn w t0 =
    (let t = cancel_completion k t0
     in case t_member t k of
          None \<Rightarrow> t
        | Some m \<Rightarrow>
           (let t1 = (if (case m_wait m of None \<Rightarrow> False | Some old \<Rightarrow> host_owned (w_state old))
                      then upd_member k (\<lambda>m. m\<lparr>m_recovery_wait := Some w\<rparr>) t
                      else upd_member k (\<lambda>m. m\<lparr>m_wait := Some w\<rparr>) (cancel_subscription k t))
            in upd_member k (\<lambda>m. m\<lparr>m_stop := Some \<lparr>ls_generation = m_generation m, ls_turn = turn,
                                      ls_item = '''', ls_wait = w_id w\<rparr>,
                                    m_status := Waiting\<rparr>) t1))"

text \<open>A completed turn whose local stop was claimed leaves its work running or waiting.\<close>

definition settle_stopped :: "member \<Rightarrow> member" where
  "settle_stopped m0 =
    (let m = m0\<lparr>m_status := Working\<rparr>;
         m = (case m_wait m of
                None \<Rightarrow> m
              | Some w \<Rightarrow>
                 if w_state w = SRegistered
                 then (upd_wait (\<lambda>w. w\<lparr>w_compaction := map_option
                          (\<lambda>c. if e_state c = SRegistered then c\<lparr>e_state := SPending\<rparr> else c)
                          (w_compaction w)\<rparr>) m)\<lparr>m_status := Waiting\<rparr>
                 else m)
     in case m_recovery_wait m of
          None \<Rightarrow> m
        | Some w \<Rightarrow> if w_state w = SRegistered then m\<lparr>m_status := Waiting\<rparr> else m)"

definition completion_effect :: "member \<Rightarrow> string \<Rightarrow> local_stop \<Rightarrow> effect" where
  "completion_effect m turn stop = zero_effect\<lparr>e_id := ls_wait stop, e_caller := m_thread m,
     e_caller_turn := turn, e_target := m_thread m, e_kind := KCompletion, e_state := SPending,
     e_generation := m_generation m\<rparr>"

definition host_terminal :: "tree \<Rightarrow> string \<Rightarrow> string \<Rightarrow> status \<Rightarrow> host_failure \<Rightarrow> transition" where
  "host_terminal t k turn st failure = with_member t k (\<lambda>m0.
     if m_turn m0 \<noteq> turn \<or> \<not> m_host_running m0 then Unchanged None
     else if st \<noteq> Completed \<and> st \<noteq> Failed \<and> st \<noteq> Interrupted
          then Fail (Err ''unknown terminal host outcome'')
     else
       let m = m0\<lparr>m_host_running := False\<rparr>;
           t1 = confirm_interrupts (m_thread m) turn (set_member k m t);
           rw = recovery_wait t1 m turn
       in if st = Failed \<and> hf_recoverable failure \<and> w_recovery rw \<noteq> []
          then Changed (install_recovery k turn rw t1) None
          else if st = Completed \<and> (case m_stop m of None \<Rightarrow> False
                    | Some stop \<Rightarrow> ls_turn stop = turn \<and> ls_generation stop = m_generation m)
          then Changed (upd_member k settle_stopped t1) None
          else if st = Completed
          then (case completion_stop t1 m of
                  Some stop \<Rightarrow>
                    Changed (append_effect (completion_effect m turn stop)
                      (upd_member k (\<lambda>m. m\<lparr>m_stop := Some stop, m_status := Working\<rparr>) t1)) None
                | None \<Rightarrow> Changed (finish k st (m_last_answer m) t1) None)
          else Changed (finish k st (hf_message failure) t1) None)"

definition host_checkpoint :: "tree \<Rightarrow> string \<Rightarrow> string \<Rightarrow> transition" where
  "host_checkpoint t k turn = with_member t k (\<lambda>m.
     if \<not> m_host_running m \<or> m_turn m \<noteq> turn
        \<or> (case m_stop m of None \<Rightarrow> True
           | Some stop \<Rightarrow> ls_turn stop \<noteq> turn \<or> ls_generation stop \<noteq> m_generation m)
     then Unchanged None
     else Changed (upd_member k (\<lambda>m. m\<lparr>m_host_running := False\<rparr>) t) None)"

definition host_wait_registration ::
    "tree \<Rightarrow> string \<Rightarrow> string \<Rightarrow> string \<Rightarrow> string \<Rightarrow> bool \<Rightarrow> bool \<Rightarrow> transition" where
  "host_wait_registration t k turn item call compact standalone = with_member t k (\<lambda>m.
     case m_wait m of
       None \<Rightarrow> Changed t None
     | Some old \<Rightarrow>
        if (case w_compaction old of None \<Rightarrow> False | Some c \<Rightarrow> host_owned (e_state c))
             \<and> (w_turn old \<noteq> turn \<or> w_item old \<noteq> item)
        then Fail (Err ''compaction requires native settlement or reconciliation before another checkpoint'')
        else if w_id old \<noteq> call \<and> (w_state old = SCanceled \<or> w_state old = SCompleted
                \<or> w_state old = SPaused \<or> w_state old = STimeout)
        then Changed t None
        else if w_turn old \<noteq> turn \<or> w_item old \<noteq> item \<or> w_generation old \<noteq> m_generation m
        then Fail (Err ''pending wait belongs to another enclosing execution; new input must supersede it before waiting again'')
        else if (w_compaction old \<noteq> None) \<noteq> compact \<or> w_standalone old \<noteq> standalone
        then Fail (Err ''conflicting checkpoint in the enclosing execution'')
        else Unchanged None)"

definition host_execution ::
    "tree \<Rightarrow> string \<Rightarrow> string \<Rightarrow> string \<Rightarrow> string \<Rightarrow> bool \<Rightarrow> transition" where
  "host_execution t k turn item handle succeeded = with_member t k (\<lambda>m.
     case m_wait m of
       None \<Rightarrow> Unchanged None
     | Some w \<Rightarrow>
        if w_turn w \<noteq> turn \<or> w_item w \<noteq> item \<or> w_generation w \<noteq> m_generation m
           \<or> w_state w \<noteq> SRegistered
        then Unchanged None
        else if handle \<noteq> '''' \<and> w_resume_handle w \<noteq> '''' \<and> w_resume_handle w \<noteq> handle
        then Fail (Err ''conflicting enclosing-cell handle'')
        else
          let t1 = (if handle \<noteq> ''''
                    then upd_member k (upd_wait (\<lambda>w. w\<lparr>w_resume_handle := handle\<rparr>)) t else t)
          in if succeeded
             then Changed (upd_member k (upd_wait (\<lambda>w. w\<lparr>w_stop := StopEligible\<rparr>)) t1) None
             else if handle = ''''
             then Changed (upd_member k (\<lambda>m. m\<lparr>m_stop := None,
                      m_status := (if m_status m = Waiting then Working else m_status m)\<rparr>)
                    (cancel_subscription k t1)) None
             else Changed t1 None)"

definition host_local_stop :: "tree \<Rightarrow> string \<Rightarrow> string \<Rightarrow> string \<Rightarrow> transition" where
  "host_local_stop t k turn item = with_member t k (\<lambda>m.
     case m_wait m of
       None \<Rightarrow> Unchanged None
     | Some w \<Rightarrow>
        if (w_stop w \<noteq> StopEligible \<and> w_stop w \<noteq> StopCommitted) \<or> w_state w \<noteq> SRegistered
           \<or> w_turn w \<noteq> turn \<or> (item \<noteq> '''' \<and> w_item w \<noteq> item)
           \<or> w_generation w \<noteq> m_generation m \<or> \<not> m_host_running m
        then Unchanged None
        else if w_stop w = StopCommitted
        then (case m_stop m of None \<Rightarrow> Fail (Panic ''nil local stop'') | Some s \<Rightarrow> Unchanged (Some s))
        else
          let stop = \<lparr>ls_generation = m_generation m, ls_turn = turn, ls_item = w_item w,
                      ls_wait = w_id w\<rparr>
          in Changed (upd_member k (\<lambda>m. (upd_wait (\<lambda>w. w\<lparr>w_stop := StopCommitted\<rparr>) m)\<lparr>
                        m_status := Waiting, m_stop := Some stop\<rparr>) t) (Some stop))"

definition wait_host_owned :: "member \<Rightarrow> bool" where
  "wait_host_owned m = (case m_wait m of None \<Rightarrow> False | Some w \<Rightarrow> host_owned (w_state w))"

definition host_human_input :: "tree \<Rightarrow> string \<Rightarrow> transition" where
  "host_human_input t k = with_member t k (\<lambda>m.
     if wait_host_owned m
     then Fail (Err ''wait continuation requires host reconciliation before new input'')
     else
       let live = (case m_wait m of None \<Rightarrow> False
                   | Some w \<Rightarrow> w_state w \<noteq> SCanceled \<and> w_state w \<noteq> SCompleted);
           t1 = cancel_completion k t;
           t2 = (if live then cancel_subscription k t1 else t1);
           changed = (m_stop m \<noteq> None \<or> live)
       in if \<not> changed \<and> m_parent m = '''' then Unchanged None
          else Changed (upd_member k (\<lambda>m. m\<lparr>m_stop := None,
                  m_status := (if m_status m = Waiting then Working else m_status m)\<rparr>) t2) None)"

definition host_human_interrupt :: "tree \<Rightarrow> string \<Rightarrow> string \<Rightarrow> transition" where
  "host_human_interrupt t k call = with_member t k (\<lambda>m.
     if ((case m_wait m of None \<Rightarrow> True | Some w \<Rightarrow> w_id w \<noteq> call)
         \<and> (case m_stop m of None \<Rightarrow> True | Some s \<Rightarrow> ls_wait s \<noteq> call))
        \<or> (\<not> reserved m \<and> \<not> m_host_running m)
     then Unchanged None
     else if wait_host_owned m
     then Fail (Err ''wait continuation requires host reconciliation before interruption'')
     else
       let t1 = upd_member k (\<lambda>m. m\<lparr>m_stop := None\<rparr>)
                  (cancel_completion k (cancel_subscription k t))
       in if \<not> m_host_running m \<and> reserved m
          then Changed (finish k Interrupted '''' t1) None
          else Changed t1 None)"

definition host_control :: "tree \<Rightarrow> string \<Rightarrow> transition" where
  "host_control t k = with_member t k (\<lambda>m.
     let t1 = cancel_completion k t
     in case m_wait m of
          None \<Rightarrow> Changed t1 None
        | Some w \<Rightarrow>
           if host_owned (w_state w)
           then Fail (Err ''wait continuation requires host reconciliation before control'')
           else Changed (cancel_subscription k t1) None)"

fun transition_host :: "tree \<Rightarrow> string \<Rightarrow> host_event \<Rightarrow> transition" where
  "transition_host t k (EvStarted turn) = host_started t k turn"
| "transition_host t k (EvTerminal turn st failure) = host_terminal t k turn st failure"
| "transition_host t k (EvCheckpoint turn) = host_checkpoint t k turn"
| "transition_host t k (EvExecution turn item handle ok) = host_execution t k turn item handle ok"
| "transition_host t k (EvLocalStop turn item) = host_local_stop t k turn item"
| "transition_host t k (EvWaitRegistration turn item call compact standalone) =
     host_wait_registration t k turn item call compact standalone"
| "transition_host t k EvHumanInput = host_human_input t k"
| "transition_host t k (EvHumanInterrupt call) = host_human_interrupt t k call"
| "transition_host t k EvControl = host_control t k"

section \<open>Closures of the lifecycle operations\<close>

definition request_started :: "identity \<Rightarrow> bool \<Rightarrow> tree \<Rightarrow> (tree, unit) outcome" where
  "request_started caller root t = with_member t (i_thread caller) (\<lambda>m.
     guard (i_session caller \<noteq> '''' \<and> i_session caller = m_session m \<and> i_turn caller \<noteq> ''''
            \<and> root = (m_parent m = '''') \<and> m_audience_admitted m)
       (Err ''request has no matching logical audience'')
       (obind (transition_host t (i_thread caller) (EvStarted (i_turn caller))) ()
          (\<lambda>t' _. Changed t' ())))"

definition answer_completed :: "string \<Rightarrow> string \<Rightarrow> string \<Rightarrow> string \<Rightarrow> tree \<Rightarrow> (tree, unit) outcome" where
  "answer_completed thread turn item text t = with_member t thread (\<lambda>m.
     if \<not> m_host_running m \<or> m_turn m \<noteq> turn \<or> text = '''' \<or> item \<in> set (m_answer_items m)
     then Unchanged ()
     else Changed (set_member thread (m\<lparr>m_answer_items := m_answer_items m @ [item],
            m_last_answer := (if m_last_answer m \<noteq> ''''
                              then m_last_answer m @ [CHR 0x0A, CHR 0x0A] else '''') @ text\<rparr>) t) ())"

text \<open>
  \<open>InputConsumed\<close>: the candidates read from the current publication, then the closure that
  consumes them.  \<open>item_id\<close> is \<open>MessageItemID\<close>.
\<close>

definition consumable :: "(string \<Rightarrow> string) \<Rightarrow> string \<Rightarrow> string list \<Rightarrow> effect \<Rightarrow> bool" where
  "consumable item_id thread items e \<longleftrightarrow>
     e_target e = thread \<and> (e_kind e = KMessage \<or> e_kind e = KFinal) \<and> \<not> e_consumed e
     \<and> e_claimed_by e = ''''
     \<and> item_id (if e_kind e = KMessage then e_caller e @ '':'' @ e_id e else e_id e) \<in> set items"

fun consume_all :: "effect list \<Rightarrow> bool \<Rightarrow> tree \<Rightarrow> bool \<times> tree" where
  "consume_all [] changed t = (changed, t)"
| "consume_all (c # cs) changed t =
    (case effect_ref t (e_caller c) (e_id c) of
       None \<Rightarrow> consume_all cs changed t
     | Some r \<Rightarrow>
        (case get_effect t r of
           None \<Rightarrow> consume_all cs changed t
         | Some e \<Rightarrow>
            if e_consumed e \<or> e_claimed_by e \<noteq> '''' then consume_all cs changed t
            else consume_all cs True (upd_effect r (\<lambda>e. e\<lparr>e_consumed := True\<rparr>) t)))"

definition input_consumed :: "identity \<Rightarrow> effect list \<Rightarrow> tree \<Rightarrow> (tree, unit) outcome" where
  "input_consumed caller consumed t = with_member t (i_thread caller) (\<lambda>m.
     guard (i_session caller \<noteq> '''' \<and> m_session m = i_session caller \<and> m_audience_admitted m)
       (Err ''consumed input has no matching logical audience'')
       (case consume_all consumed False t of
          (changed, t') \<Rightarrow> if changed then Changed t' () else Unchanged ()))"

definition checkpoint_wait :: "string \<Rightarrow> string \<Rightarrow> tree \<Rightarrow> (tree, unit) outcome" where
  "checkpoint_wait thread turn t =
     obind (transition_host t thread (EvCheckpoint turn)) () (\<lambda>t' _. Changed t' ())"

definition host_completed ::
    "string \<Rightarrow> string \<Rightarrow> status \<Rightarrow> host_failure \<Rightarrow> tree \<Rightarrow> (tree, unit) outcome" where
  "host_completed thread turn st failure t =
     obind (transition_host t thread (EvTerminal turn st failure)) () (\<lambda>t' _. Changed t' ())"

definition pause_thread :: "string \<Rightarrow> tree \<Rightarrow> (tree, unit) outcome" where
  "pause_thread thread t = with_member t thread (\<lambda>m.
     Changed (pause (if m_parent m = '''' then '''' else thread) t) ())"

definition human_input_committed ::
    "string \<Rightarrow> string \<Rightarrow> string \<Rightarrow> tree \<Rightarrow> (tree, unit) outcome" where
  "human_input_committed thread turn eid t = with_member t thread (\<lambda>m.
     case effect_ref t thread eid of
       None \<Rightarrow> Unchanged ()
     | Some r \<Rightarrow>
        (case get_effect t r of
           None \<Rightarrow> Unchanged ()
         | Some e \<Rightarrow>
            if e_kind e \<noteq> KHuman \<or> \<not> host_owned (e_state e) \<or> e_generation e \<noteq> m_generation m
            then Unchanged ()
            else guard (turn \<noteq> '''' \<and> (e_turn e = '''' \<or> e_turn e = turn))
                   (Err ''committed human input has a conflicting host turn'')
                   (Changed (upd_effect r (\<lambda>e. e\<lparr>e_state := SConfirmed, e_turn := turn,
                                                  e_error := ''''\<rparr>) t) ())))"

definition human_interrupt :: "string \<Rightarrow> string \<Rightarrow> tree \<Rightarrow> (tree, string) outcome" where
  "human_interrupt thread wid t =
     obind (transition_host t thread (EvHumanInterrupt wid)) '''' (\<lambda>t' _.
       with_member t' thread (\<lambda>m. Changed t' (if m_host_running m then m_turn m else '''')))"

end
