(* ===== verification/Control_Waits.thy ===== *)
theory Control_Waits
  imports Control_Lifecycle
begin

text \<open>
  Subscriptions of \<open>waits.go\<close>: target resolution, the choice of the outcome that settles a
  wait (\<open>selectWaitOutcome\<close> for any target, \<open>selectAllWaitOutcomes\<close> for all of them), the
  registration of waits and compaction checkpoints, wake-ups, and the waits that hold work
  for a provider.  The selection functions return the tree and the wait they write.
\<close>

section \<open>Targets\<close>

definition resolve :: "tree \<Rightarrow> member \<Rightarrow> string \<Rightarrow> error + member" where
  "resolve t caller target =
    (if target = '''' then Inl (Err ''empty task target'')
     else case t_member t target of
       Some m \<Rightarrow> if m_parent m = '''' \<and> m_thread m \<noteq> t_root t
                 then Inl (Err ''target is a previous root branch'') else Inr m
     | None \<Rightarrow>
        let path = task_path target;
            candidate = (if prefix ''/'' path then path else m_task caller @ ''/'' @ path)
        in case find (\<lambda>m. m_task m = candidate \<and> (m_parent m \<noteq> '''' \<or> m_thread m = t_root t))
                  (map snd (t_members t)) of
             Some m \<Rightarrow> Inr m
           | None \<Rightarrow>
              (case filter (\<lambda>m. \<not> prefix ''/'' target \<and> suffix (''/'' @ target) (m_task m))
                      (map snd (t_members t)) of
                 [] \<Rightarrow> Inl (ErrQ ''unknown task '' target '''')
               | [m] \<Rightarrow> Inr m
               | _ \<Rightarrow> Inl (ErrQ ''ambiguous task '' target '''')))"

fun select_descendants :: "tree \<Rightarrow> member \<Rightarrow> string list \<Rightarrow> string list \<Rightarrow> error + string list" where
  "select_descendants t caller [] selected = Inr selected"
| "select_descendants t caller (target # targets) selected =
    (case resolve t caller target of
       Inl e \<Rightarrow> Inl e
     | Inr m \<Rightarrow>
        if \<not> prefix (m_task caller @ ''/'') (m_task m)
        then Inl (ErrQ ''wait target '' target '' is not an admitted descendant'')
        else select_descendants t caller targets
               (if m_thread m \<in> set selected then selected else selected @ [m_thread m]))"

definition descendants :: "tree \<Rightarrow> member \<Rightarrow> string list \<Rightarrow> bool \<Rightarrow> error + string list" where
  "descendants t caller targets all =
    (let r = (if all
              then Inr (sort (map fst (filter (\<lambda>(tid, m). prefix (m_task caller @ ''/'') (m_task m))
                                  (t_members t))))
              else select_descendants t caller targets [])
     in case r of
          Inl e \<Rightarrow> Inl e
        | Inr sel \<Rightarrow> if sel = [] then Inl (Err ''wait selection is empty'') else Inr sel)"

fun select_targets ::
    "tree \<Rightarrow> member \<Rightarrow> (string \<times> remote_target) list \<Rightarrow> string list \<Rightarrow> string list
       \<Rightarrow> error + string list" where
  "select_targets t m foreign [] selected = Inr selected"
| "select_targets t m foreign (target # targets) selected =
    (if alist_get foreign target \<noteq> None
     then select_targets t m foreign targets
            (if target \<in> set selected then selected else selected @ [target])
     else case descendants t m [target] False of
            Inl e \<Rightarrow> Inl e
          | Inr [] \<Rightarrow> Inl (Panic ''index out of range'')
          | Inr (local # _) \<Rightarrow> select_targets t m foreign targets
              (if local \<in> set selected then selected else selected @ [local]))"

section \<open>Choosing an outcome\<close>

definition selectable :: "wait \<Rightarrow> effect \<Rightarrow> bool" where
  "selectable w e \<longleftrightarrow> delivered e \<and> \<not> e_consumed e \<and> e_target e = w_caller w
     \<and> e_claimed_by e = '''' \<and> source e \<in> set (w_targets w)"

definition selected_event :: "tree \<Rightarrow> wait \<Rightarrow> nat option" where
  "selected_event t w = find_index (selectable w) (t_effects t)"

definition claim_index :: "nat \<Rightarrow> string \<Rightarrow> tree \<Rightarrow> tree" where
  "claim_index i wid t = set_effects ((t_effects t)[i := (t_effects t ! i)\<lparr>e_claimed_by := wid\<rparr>]) t"

definition stopped :: "member \<Rightarrow> bool" where
  "stopped m \<longleftrightarrow> \<not> m_host_running m \<and> (m_status m = Completed \<or> m_status m = Failed
     \<or> m_status m = Interrupted \<or> m_status m = Paused)"

definition delivery_pending :: "effect \<Rightarrow> bool" where
  "delivery_pending e \<longleftrightarrow> e_state e = SPending \<or> host_owned (e_state e)"

definition final_pending :: "tree \<Rightarrow> wait \<Rightarrow> string \<Rightarrow> member \<Rightarrow> bool" where
  "final_pending t w tid m \<longleftrightarrow> (\<exists>e \<in> set (t_effects t). e_kind e = KFinal \<and> e_caller e = tid
     \<and> e_target e = w_caller w \<and> e_caller_generation e = m_generation m \<and> delivery_pending e)"

fun stopped_target :: "tree \<Rightarrow> wait \<Rightarrow> string list \<Rightarrow> member option" where
  "stopped_target t w [] = None"
| "stopped_target t w (tid # tids) =
    (case wait_member t w tid of
       None \<Rightarrow> stopped_target t w tids
     | Some m \<Rightarrow> if \<not> stopped m \<or> final_pending t w tid m then stopped_target t w tids else Some m)"

definition recovery_matches :: "wait \<Rightarrow> effect \<Rightarrow> bool" where
  "recovery_matches w e \<longleftrightarrow> (case alist_get (w_recovery w) (e_caller e) of
     None \<Rightarrow> False
   | Some g \<Rightarrow> e_kind e = KFinal \<and> delivered e \<and> g = e_caller_generation e)"

text \<open>The scan of \<open>selectAllWaitOutcomes\<close>: a message to claim at once, or what is known of
  each caller: the callers with a delivery under way and the last unclaimed outcome of each.\<close>

fun scan_outcomes :: "tree \<Rightarrow> wait \<Rightarrow> effect list \<Rightarrow> nat \<Rightarrow> string list \<Rightarrow> (string \<times> nat) list
     \<Rightarrow> nat + (string list \<times> (string \<times> nat) list)" where
  "scan_outcomes t w [] i pend outs = Inr (pend, outs)"
| "scan_outcomes t w (e # es) i pend outs =
    (if e_target e \<noteq> w_caller w \<or> source e \<notin> set (w_targets w)
     then scan_outcomes t w es (Suc i) pend outs
     else if e_kind e = KMessage \<and> delivered e \<and> \<not> e_consumed e \<and> e_claimed_by e = ''''
     then Inl i
     else if e_kind e \<noteq> KFinal \<or> (case t_member t (e_caller e) of None \<Rightarrow> True
               | Some m \<Rightarrow> e_caller_generation e \<noteq> m_generation m)
     then scan_outcomes t w es (Suc i) pend outs
     else scan_outcomes t w es (Suc i)
            (if delivery_pending e then e_caller e # pend else pend)
            (if delivered e \<and> \<not> e_consumed e \<and> e_claimed_by e = ''''
             then alist_put (e_caller e) i outs else outs))"

definition all_settled :: "tree \<Rightarrow> wait \<Rightarrow> string list \<Rightarrow> bool" where
  "all_settled t w pend \<longleftrightarrow> (\<forall>tid \<in> set (w_targets w). tid \<notin> set pend
     \<and> (case wait_member t w tid of None \<Rightarrow> False | Some m \<Rightarrow> stopped m))"

fun claim_outcomes :: "(string \<times> nat) list \<Rightarrow> string list \<Rightarrow> tree \<Rightarrow> wait \<Rightarrow> tree \<times> wait" where
  "claim_outcomes outs [] t w = (t, w)"
| "claim_outcomes outs (tid # tids) t w =
    (case alist_get outs tid of
       Some i \<Rightarrow> claim_outcomes outs tids (claim_index i (w_id w) t) w
     | None \<Rightarrow>
        (case wait_member t w tid of
           None \<Rightarrow> claim_outcomes outs tids t w
         | Some m \<Rightarrow> claim_outcomes outs tids t
                       (w\<lparr>w_terminals := w_terminals w @ [stopped_event w m]\<rparr>)))"

definition select_all_wait_outcomes :: "tree \<Rightarrow> wait \<Rightarrow> bool \<times> tree \<times> wait" where
  "select_all_wait_outcomes t w =
    (case scan_outcomes t w (t_effects t) 0 [] [] of
       Inl i \<Rightarrow> (True, claim_index i (w_id w) t, w)
     | Inr (pend, outs) \<Rightarrow>
        if \<not> all_settled t w pend then (False, t, w)
        else (True, claim_outcomes outs (w_targets w) t w))"

definition select_wait_outcome :: "tree \<Rightarrow> wait \<Rightarrow> bool \<times> tree \<times> wait" where
  "select_wait_outcome t w =
    (if w_mode w = WaitAll then select_all_wait_outcomes t w
     else case selected_event t w of
       Some i \<Rightarrow> (True, claim_index i (w_id w) t, w)
     | None \<Rightarrow>
        if w_recovery w \<noteq> [] then
          (case find (recovery_matches w) (t_effects t) of
             Some e \<Rightarrow> (True, t, w\<lparr>w_terminal := Some ((tree_event t e)\<lparr>ev_recipient := w_caller w\<rparr>)\<rparr>)
           | None \<Rightarrow> (False, t, w))
        else
          (case stopped_target t w (w_targets w) of
             Some m \<Rightarrow> (True, t, w\<lparr>w_terminal := Some (stopped_event w m)\<rparr>)
           | None \<Rightarrow> (False, t, w)))"

section \<open>Registration\<close>

definition admitted :: "tree \<Rightarrow> identity \<Rightarrow> error + member" where
  "admitted t caller =
    (case t_member t (i_thread caller) of
       None \<Rightarrow> Inl (Err ''missing, stale or foreign thread-control caller'')
     | Some m \<Rightarrow>
        if i_session caller = '''' \<or> i_session caller \<noteq> m_session m \<or> i_turn caller = ''''
           \<or> i_turn caller \<noteq> m_turn m \<or> \<not> m_host_running m
        then Inl (Err ''missing, stale or foreign thread-control caller'')
        else Inr m)"

definition with_admitted :: "tree \<Rightarrow> identity \<Rightarrow> (member \<Rightarrow> ('t, 'a) outcome) \<Rightarrow> ('t, 'a) outcome" where
  "with_admitted t caller f = (case admitted t caller of Inl e \<Rightarrow> Fail e | Inr m \<Rightarrow> f m)"

record wait_request =
  q_targets :: "string list"
  q_all :: bool
  q_mode :: wait_mode
  q_timeout :: "int option"
  q_now :: int
  q_compact :: bool
  q_standalone :: bool
  q_foreign :: "(string \<times> remote_target) list"
  q_reload :: string

definition new_wait :: "identity \<Rightarrow> wait_request \<Rightarrow> wait_mode \<Rightarrow> 64 word \<Rightarrow> string list \<Rightarrow> wait" where
  "new_wait caller q mode gen sel = zero_wait\<lparr>
     w_effect := zero_effect\<lparr>e_id := i_call caller, e_caller := i_thread caller,
       e_target := i_thread caller, e_generation := gen, e_turn := i_turn caller,
       e_caller_turn := i_turn caller, e_kind := KWake, e_state := SRegistered\<rparr>,
     w_item := i_item caller, w_targets := sel, w_all := q_all q, w_mode := mode,
     w_foreign := q_foreign q, w_standalone := q_standalone q,
     w_compaction := (if q_compact q
       then Some (zero_effect\<lparr>e_id := i_call caller @ '':compact'', e_caller := i_thread caller,
              e_target := i_thread caller, e_caller_turn := i_turn caller, e_generation := gen,
              e_kind := KCompact, e_state := SRegistered, e_message := q_reload q\<rparr>)
       else None)\<rparr>"

text \<open>The largest wait in milliseconds that fits a nanosecond duration of 64 bits.\<close>

definition max_duration_ms :: int where
  "max_duration_ms = (2 ^ 63 - 1) div 1000000"

definition timed_wait :: "member \<Rightarrow> wait_request \<Rightarrow> wait \<Rightarrow> error + wait" where
  "timed_wait m q w =
    (case q_timeout q of
       None \<Rightarrow> Inr w
     | Some timeout \<Rightarrow>
        if timeout > l_max_wait_ms (m_limits m)
        then Inl (Err ''wait timeout exceeds the captured host maximum'')
        else let effective = max timeout (l_min_wait_ms (m_limits m))
             in if effective < 0 \<or> effective > max_duration_ms
                then Inl (Err ''invalid captured host wait timeout bounds'')
                else Inr (w\<lparr>w_requested_ms := Some timeout, w_effective_ms := Some effective,
                            w_deadline := Some (q_now q + effective * 1000000)\<rparr>))"

definition wait_selection :: "tree \<Rightarrow> member \<Rightarrow> wait_request \<Rightarrow> error + string list" where
  "wait_selection t m q =
    (if q_standalone q then Inr []
     else if q_foreign q = [] then descendants t m (q_targets q) (q_all q)
     else select_targets t m (q_foreign q) (q_targets q) [])"

text \<open>The state a new wait starts in, with an outcome that is already there.\<close>

definition first_state :: "wait_request \<Rightarrow> tree \<Rightarrow> wait \<Rightarrow> tree \<times> wait" where
  "first_state q t w =
    (if q_compact q then (t, w)
     else case select_wait_outcome t w of
       (True, t', w') \<Rightarrow> (t', wait_set_state SCompleted w')
     | (False, t', w') \<Rightarrow>
         (t', if w_effective_ms w = Some 0 then wait_set_state STimeout w' else w'))"

definition register_wait :: "identity \<Rightarrow> wait_request \<Rightarrow> tree \<Rightarrow> (tree, wait_result) outcome" where
  "register_wait caller q t =
    (let mode = (if q_mode q = ModeNone then WaitAny else q_mode q);
         k = i_thread caller
     in if mode \<noteq> WaitAny \<and> mode \<noteq> WaitAll
        then Fail (Err ''wait_mode must be any or all'')
        else with_admitted t caller (\<lambda>m.
          if i_call caller = '''' \<or> i_item caller = ''''
          then Fail (Err ''wait requires enclosing host-call identity'')
          else case wait_selection t m q of
            Inl e \<Rightarrow> Fail e
          | Inr sel \<Rightarrow>
             (case transition_host t k (EvWaitRegistration (i_turn caller) (i_item caller)
                      (i_call caller) (q_compact q) (q_standalone q)) of
                Fail e \<Rightarrow> Fail e
              | Unchanged _ \<Rightarrow>
                 (case m_wait m of
                    None \<Rightarrow> Fail (Panic ''nil wait'')
                  | Some w \<Rightarrow> Unchanged (wait_result_of t w))
              | Changed t1 _ \<Rightarrow>
                 (case timed_wait m q (new_wait caller q mode (m_generation m) sel) of
                    Inl e \<Rightarrow> Fail e
                  | Inr w \<Rightarrow>
                     (case first_state q t1 w of
                        (t2, w2) \<Rightarrow>
                          let t3 = upd_member k (\<lambda>m. m\<lparr>m_wait := Some w2\<rparr>) t2
                          in Changed t3 (wait_result_of t3 w2))))))"

text \<open>\<open>Service.Execution\<close>: the handle is validated before the closure runs.\<close>

definition valid_handle :: "string \<Rightarrow> bool" where
  "valid_handle handle \<longleftrightarrow> handle = '''' \<or> (prefix ''cell:'' handle \<and> length handle \<noteq> length ''cell:'')"

definition execution :: "string \<Rightarrow> string \<Rightarrow> string \<Rightarrow> string \<Rightarrow> bool \<Rightarrow> tree \<Rightarrow> (tree, unit) outcome" where
  "execution thread turn item handle ok t =
     guard (valid_handle handle) (Err ''wait requires a host execution-cell handle'')
       (obind (transition_host t thread (EvExecution turn item handle ok)) () (\<lambda>t' _. Changed t' ()))"

definition claim_local_stop ::
    "string \<Rightarrow> string \<Rightarrow> string \<Rightarrow> tree \<Rightarrow> (tree, local_stop option) outcome" where
  "claim_local_stop thread turn item t = transition_host t thread (EvLocalStop turn item)"

definition reject_compaction ::
    "string \<Rightarrow> string \<Rightarrow> string \<Rightarrow> string \<Rightarrow> tree \<Rightarrow> (tree, unit) outcome" where
  "reject_compaction thread turn item reason t = with_member t thread (\<lambda>m.
     case m_wait m of
       None \<Rightarrow> Unchanged ()
     | Some w \<Rightarrow>
        if w_state w \<noteq> SRegistered \<or> w_turn w \<noteq> turn \<or> w_item w \<noteq> item
           \<or> w_generation w \<noteq> m_generation m
           \<or> (case w_compaction w of None \<Rightarrow> True | Some c \<Rightarrow> e_state c \<noteq> SRegistered)
           \<or> w_stop w \<noteq> StopEligible
        then Unchanged ()
        else Changed (upd_member thread (upd_wait (\<lambda>w. w\<lparr>w_compaction := map_option
               (\<lambda>c. c\<lparr>e_state := SFailed, e_error := reason\<rparr>) (w_compaction w)\<rparr>)) t) ())"

section \<open>Wake-ups\<close>

definition before_deadline :: "int \<Rightarrow> wait \<Rightarrow> bool" where
  "before_deadline now w \<longleftrightarrow> (case w_deadline w of None \<Rightarrow> True | Some d \<Rightarrow> now < d)"

definition prepare_wake :: "string \<Rightarrow> int \<Rightarrow> tree \<Rightarrow> (tree, effect option) outcome" where
  "prepare_wake thread now t = with_member t thread (\<lambda>m.
     case m_wait m of
       None \<Rightarrow> Unchanged None
     | Some w \<Rightarrow>
        if w_state w \<noteq> SRegistered \<or> w_stop w \<noteq> StopCommitted \<or> m_host_running m
           \<or> m_status m \<noteq> Waiting \<or> w_generation w \<noteq> m_generation m
        then Unchanged None
        else if compaction_pending (Some w) then Unchanged None
        else if w_usage_limit w \<and> before_deadline now w then Unchanged None
        else
          case (if w_standalone w then (True, t, w) else select_wait_outcome t w) of
            (found, t1, w1) \<Rightarrow>
              if \<not> found \<and> before_deadline now w then Unchanged None
              else
                let w2 = wait_set_state SQueued w1
                in Changed (upd_member thread (\<lambda>m. m\<lparr>m_wait := Some w2\<rparr>) t1) (Some (w_effect w2)))"

definition due :: "string \<Rightarrow> int \<Rightarrow> tree \<Rightarrow> string list" where
  "due thread now t =
    (case t_member t thread of
       None \<Rightarrow> []
     | Some m \<Rightarrow>
        (case m_wait m of
           None \<Rightarrow> []
         | Some w \<Rightarrow>
            if m_status m = Waiting \<and> \<not> m_host_running m \<and> w_state w = SRegistered
               \<and> w_deadline w \<noteq> None \<and> \<not> compaction_pending (Some w) \<and> \<not> before_deadline now w
            then [thread] else []))"

definition wait_for_turn :: "string \<Rightarrow> string \<Rightarrow> tree \<Rightarrow> wait option" where
  "wait_for_turn thread turn t =
    (case t_member t thread of
       None \<Rightarrow> None
     | Some m \<Rightarrow>
        (case m_wait m of
           None \<Rightarrow> None
         | Some w \<Rightarrow> if \<not> m_host_running m \<or> m_turn m \<noteq> turn \<or> w_turn w \<noteq> turn
                       \<or> w_generation w \<noteq> m_generation m then None else Some w))"

definition wait_publication :: "string \<Rightarrow> tree \<Rightarrow> wait_result option" where
  "wait_publication thread t =
    (case t_member t thread of
       None \<Rightarrow> None
     | Some m \<Rightarrow>
        (case (if m_recovery_wait m \<noteq> None then m_recovery_wait m else m_wait m) of
           None \<Rightarrow> None
         | Some w \<Rightarrow>
            (let r = (wait_result_of t w)\<lparr>wr_metrics := None, wr_turn := w_turn w,
                        wr_stop := w_stop w, wr_effective_ms := w_effective_ms w\<rparr>
             in Some (if \<not> w_standalone w \<and> w_state w = SCompleted \<and> wr_event r = None
                         \<and> wr_events r = []
                      then r\<lparr>wr_state := STimeout\<rparr> else r))))"

text \<open>\<open>StatusText\<close>; \<open>format_time\<close> renders a time in the local zone.\<close>

definition middle_dot :: string where
  "middle_dot = [CHR 0xC2, CHR 0xB7]"

definition status_line :: "(int \<Rightarrow> string) \<Rightarrow> wait_result \<Rightarrow> string" where
  "status_line format_time r =
    (let retry = (case wr_deadline r of None \<Rightarrow> ''''
                  | Some d \<Rightarrow> '' '' @ middle_dot @ '' retry at '' @ format_time d)
     in if wr_capacity r then ''Waiting for provider capacity'' @ retry
        else if \<not> wr_usage_limit r then ''Waiting for agents''
        else if \<not> wr_timed r then ''Usage limit '' @ middle_dot @ '' paused''
        else ''Waiting for usage limit reset'' @ retry)"

section \<open>Provider waits\<close>

text \<open>
  The exponential backoff is a third-party package, a parameter of the model:
  \<open>backoff initial n\<close> is what the \<open>n\<close>th call (from 0) of \<open>NextBackOff\<close> returns on a policy
  with this initial interval, multiplier 2 and a cap of 30 seconds, in nanoseconds.
\<close>

type_synonym backoff = "int \<Rightarrow> nat \<Rightarrow> int"

definition second :: int where
  "second = 1000000000"

definition retry_seconds :: "backoff \<Rightarrow> member \<Rightarrow> int" where
  "retry_seconds backoff m =
    (if m_capacity_retry_generation m = m_generation m \<and> m_capacity_retry_seconds m \<noteq> 0
     then go_div (backoff (m_capacity_retry_seconds m * second) 1) second
     else go_div (backoff second 0) second)"

definition provider_wait :: "member \<Rightarrow> string \<Rightarrow> string \<Rightarrow> int option \<Rightarrow> bool \<Rightarrow> string \<Rightarrow> wait" where
  "provider_wait m thread turn deadline capacity wid = zero_wait\<lparr>
     w_effect := zero_effect\<lparr>e_id := wid, e_caller := thread, e_target := thread,
       e_generation := m_generation m, e_turn := turn, e_caller_turn := turn, e_kind := KWake,
       e_state := SRegistered\<rparr>,
     w_stop := StopCommitted, w_usage_limit := True, w_capacity := capacity,
     w_deadline := deadline\<rparr>"

definition wait_for_provider ::
    "backoff \<Rightarrow> string \<Rightarrow> string \<Rightarrow> int option \<Rightarrow> bool \<Rightarrow> int \<Rightarrow> tree \<Rightarrow> (tree, local_stop option) outcome" where
  "wait_for_provider backoff thread turn deadline0 capacity now t = with_member t thread (\<lambda>m0.
     if \<not> m_host_running m0 \<or> m_turn m0 \<noteq> turn
     then Fail (Err ''usage limit does not belong to the running host turn'')
     else
       let wid = thread @ '':'' @ uint64_dec (m_generation m0) @ '':'' @ turn @ '':usage-limit''
       in if (case m_stop m0 of None \<Rightarrow> False | Some s \<Rightarrow> ls_wait s = wid)
          then Unchanged (m_stop m0)
          else
            let fallback = (capacity \<and> deadline0 = None);
                secs = retry_seconds backoff m0;
                m = (if fallback then m0\<lparr>m_capacity_retry_seconds := secs,
                          m_capacity_retry_generation := m_generation m0\<rparr> else m0);
                deadline = (if fallback then Some (now + secs * second) else deadline0);
                w = provider_wait m thread turn deadline capacity wid;
                t1 = set_member thread m t;
                t2 = (if wait_host_owned m
                      then upd_member thread (\<lambda>m. m\<lparr>m_recovery_wait := Some w\<rparr>) t1
                      else upd_member thread (\<lambda>m. m\<lparr>m_wait := Some w\<rparr>)
                             (cancel_subscription thread t1));
                stop = \<lparr>ls_generation = m_generation m, ls_turn = turn, ls_item = '''',
                        ls_wait = wid\<rparr>
            in Changed (upd_member thread (\<lambda>m. m\<lparr>m_stop := Some stop, m_status := Waiting\<rparr>) t2)
                 (Some stop))"

definition provider_recovered :: "string \<Rightarrow> string \<Rightarrow> tree \<Rightarrow> (tree, unit) outcome" where
  "provider_recovered thread turn t = with_member t thread (\<lambda>m.
     if \<not> m_host_running m \<or> m_turn m \<noteq> turn \<or> m_capacity_retry_seconds m = 0 then Unchanged ()
     else Changed (set_member thread (m\<lparr>m_capacity_retry_seconds := 0\<rparr>) t) ())"

end
