(* ===== verification/Control_Actions.thy ===== *)
theory Control_Actions
  imports Control_Waits
begin

text \<open>
  Control intents of \<open>actions.go\<close>, \<open>admission.go\<close>, \<open>peer.go\<close>, \<open>instructions.go\<close> and
  \<open>inspection.go\<close>: preparing an action, reserving a spawn, receiving a foreign message,
  human input, claiming an effect for dispatch and acknowledging it.  Closures return the
  new tree with the value the operation reports.  Which reload sources a selection has is
  decided by the compaction package; \<open>reloads\<close> and \<open>completion_changes\<close> stand for its two
  answers.
\<close>

section \<open>Features a confirmed step counts (\<open>features.go\<close>)\<close>

datatype feature = FeatureCompaction | FeatureSelfCompaction | FeatureCompactionPreload
  | FeatureSpawn | FeatureSpawnPreload | FeaturePreloadRejection | FeatureFinal
  | FeatureCompletionChanges | FeatureMessage | FeatureSideQuestion
  | FeatureSideQuestionRejection | FeatureSideQuestionFailure | FeatureWait | FeatureWaitAll

record reload_api =
  reloads :: "string \<Rightarrow> bool"
  completion_changes :: "string \<Rightarrow> bool"

definition confirmed_features :: "reload_api \<Rightarrow> step \<Rightarrow> effect \<Rightarrow> feature list" where
  "confirmed_features api st e =
    (if st = KAdmit
     then (case e_child e of
             None \<Rightarrow> [FeatureSpawn]
           | Some c \<Rightarrow> if reloads api (cp_selection (c_preload c))
                      then [FeatureSpawn, FeatureSpawnPreload] else [FeatureSpawn])
     else if st = KFinal \<and> e_outcome e = Completed
     then (if completion_changes api (e_message e)
           then [FeatureFinal, FeatureCompletionChanges] else [FeatureFinal])
     else [])"

section \<open>Preparing an action\<close>

definition human_unsettled :: "tree \<Rightarrow> string \<Rightarrow> bool" where
  "human_unsettled t thread \<longleftrightarrow> (\<exists>e \<in> set (t_effects t).
     e_target e = thread \<and> e_kind e = KHuman \<and> host_owned (e_state e))"

text \<open>A follow-up resumes the creation of a paused child, or drops its initial input.\<close>

definition resume_creation :: "string \<Rightarrow> effect \<Rightarrow> effect" where
  "resume_creation thread e =
    (if e_kind e \<noteq> KCreate \<or> e_target e \<noteq> thread \<or> e_state e \<noteq> SPaused then e
     else if e_phase e = KAssignmentInput \<or> e_phase e = KAdmit
     then e\<lparr>e_state := SPending, e_outcome := Interrupted\<rparr>
     else if e_phase e = KInitial then e\<lparr>e_state := SCanceled\<rparr> else e)"

text \<open>A new work generation, unless the member still holds one.\<close>

definition reserve_work :: "member \<Rightarrow> member" where
  "reserve_work m = m\<lparr>m_generation := (if reserved m then m_generation m else m_generation m + 1),
                      m_status := Pending\<rparr>"

definition action_effect :: "identity \<Rightarrow> 64 word \<Rightarrow> member \<Rightarrow> step \<Rightarrow> string \<Rightarrow> effect" where
  "action_effect caller gen receiver kind message = zero_effect\<lparr>e_id := i_call caller,
     e_caller := i_thread caller, e_caller_turn := i_turn caller, e_caller_generation := gen,
     e_target := m_thread receiver, e_kind := kind, e_message := message, e_state := SPending,
     e_generation := m_generation receiver, e_previous_status := m_status receiver\<rparr>"

definition control_receiver :: "string \<Rightarrow> step \<Rightarrow> tree \<Rightarrow> (tree, unit) outcome" where
  "control_receiver k kind t =
    (if kind = KMessage then Changed t ()
     else obind (transition_host t k EvControl) () (\<lambda>t1 _.
       with_member t1 k (\<lambda>m.
         if kind = KFollowup \<and> (\<not> reserved m \<or> m_status m = Paused)
         then Changed (set_member k ((reserve_work m)\<lparr>m_stop := None\<rparr>) t1) ()
         else Changed t1 ())))"

definition prepare_action ::
    "identity \<Rightarrow> string \<Rightarrow> step \<Rightarrow> string \<Rightarrow> tree \<Rightarrow> (tree, effect) outcome" where
  "prepare_action caller target kind message t = with_admitted t caller (\<lambda>m.
     if i_call caller = '''' \<or> (kind \<noteq> KMessage \<and> kind \<noteq> KFollowup \<and> kind \<noteq> KInterrupt)
     then Fail (Err ''control action requires a host call and known operation'')
     else case resolve t m target of
       Inl e \<Rightarrow> Fail e
     | Inr receiver \<Rightarrow>
        if kind \<noteq> KMessage \<and> m_parent receiver = ''''
        then Fail (Err ''root control belongs to the human session controller'')
        else case tree_effect t (i_thread caller) (i_call caller) of
          Some old \<Rightarrow>
            if e_caller_turn old \<noteq> i_turn caller \<or> e_target old \<noteq> m_thread receiver
               \<or> e_kind old \<noteq> kind \<or> e_message old \<noteq> message
            then Fail (Err ''conflicting repeated control call'')
            else Unchanged old
        | None \<Rightarrow>
            if kind = KFollowup \<and> human_unsettled t (m_thread receiver)
            then Fail (Err ''human input requires host settlement before follow-up'')
            else
              let t1 = (if kind = KFollowup \<and> m_status receiver = Paused
                        then map_effects (resume_creation (m_thread receiver)) t else t)
              in if kind = KMessage \<and> m_parent receiver \<noteq> '''' \<and> \<not> m_audience_admitted receiver
                 then Fail (Err ''target has not entered the application audience'')
                 else obind (control_receiver (m_thread receiver) kind t1) zero_effect (\<lambda>t2 _.
                   with_member t2 (m_thread receiver) (\<lambda>r.
                     let e = action_effect caller (m_generation m) r kind message
                     in Changed (append_effect e t2) e)))"

section \<open>Claiming an effect\<close>

text \<open>An interrupt withdraws the queued starts of the generation it stops.\<close>

definition withdraw_queued :: "string \<Rightarrow> 64 word \<Rightarrow> effect \<Rightarrow> effect" where
  "withdraw_queued target gen e =
    (if e_target e \<noteq> target \<or> e_generation e \<noteq> gen \<or> e_state e \<noteq> SPending then e
     else (if e_kind e = KCreate then e\<lparr>e_outcome := Interrupted\<rparr> else e)\<lparr>
            e_state := (if effect_step e = KInitial \<or> e_kind e = KFollowup
                        then SCanceled else e_state e)\<rparr>)"

text \<open>The serialization loop: another effect of the same target that must settle first.\<close>

fun claim_blocked ::
    "string \<Rightarrow> string \<Rightarrow> effect \<Rightarrow> bool \<Rightarrow> effect list \<Rightarrow> bool \<Rightarrow> bool" where
  "claim_blocked caller eid e running [] before = False"
| "claim_blocked caller eid e running (other # es) before =
    (if e_caller other = caller \<and> e_id other = eid
     then claim_blocked caller eid e running es False
     else if e_target e = '''' \<or> e_target other \<noteq> e_target e
     then claim_blocked caller eid e running es before
     else if e_kind e = KInterrupt \<and> running \<and> effect_step other = KInitial
     then claim_blocked caller eid e running es before
     else if host_owned (e_state other) \<or> (before \<and> e_state other = SPending \<and> e_kind e \<noteq> KCompact)
     then True
     else claim_blocked caller eid e running es before)"

definition dispatch_effect :: "member option \<Rightarrow> effect \<Rightarrow> effect" where
  "dispatch_effect mo e =
    (case mo of
       None \<Rightarrow> e\<lparr>e_state := SDispatching\<rparr>
     | Some m \<Rightarrow> e\<lparr>e_state := SDispatching,
                  e_turn := (if e_kind e = KHuman \<and> \<not> m_host_running m then '''' else m_turn m)\<rparr>)"

text \<open>Dispatch the effect at \<open>r\<close>; a wake carries the result of the wait it settles.\<close>

definition dispatch_at :: "eref \<Rightarrow> (effect \<Rightarrow> effect) \<Rightarrow> tree \<Rightarrow> (tree, effect option) outcome" where
  "dispatch_at r pre t =
    (case get_effect t r of
       None \<Rightarrow> Fail (Panic ''nil effect'')
     | Some e \<Rightarrow>
        let e1 = dispatch_effect (t_member t (e_target e)) (pre e);
            t1 = upd_effect r (\<lambda>_. e1) t
        in if e_kind e1 = KWake
           then with_member t1 (e_target e) (\<lambda>m.
                  case m_wait m of
                    None \<Rightarrow> Fail (Panic ''nil wait'')
                  | Some w \<Rightarrow> Changed t1 (Some (e1\<lparr>e_wake := Some (wake_result t1 w)\<rparr>)))
           else Changed t1 (Some e1))"

definition cancel_at :: "eref \<Rightarrow> tree \<Rightarrow> tree" where
  "cancel_at r t = upd_effect r (\<lambda>e. e\<lparr>e_state := SCanceled\<rparr>) t"

text \<open>The switch of \<open>claimEffect\<close> on the step, for a claim that is not blocked.\<close>

definition claim_step :: "eref \<Rightarrow> effect \<Rightarrow> tree \<Rightarrow> (tree, effect option) outcome" where
  "claim_step r e t =
    (let k = e_target e
     in case effect_step e of
          KCompact \<Rightarrow> with_member t k (\<lambda>m.
            if m_host_running m \<or> (case m_wait m of None \<Rightarrow> True
                  | Some w \<Rightarrow> w_state w \<noteq> SRegistered \<or> w_stop w \<noteq> StopCommitted)
               \<or> m_generation m \<noteq> e_generation e
            then Unchanged None else dispatch_at r (\<lambda>e. e) t)
        | KCreate \<Rightarrow> dispatch_at r (\<lambda>e. e) t
        | KAssignmentInput \<Rightarrow> dispatch_at r (\<lambda>e. e) t
        | KAdmit \<Rightarrow> dispatch_at r (\<lambda>e. e) t
        | KMessage \<Rightarrow> dispatch_at r (\<lambda>e. e) t
        | KFinal \<Rightarrow> dispatch_at r (\<lambda>e. e) t
        | KCompletion \<Rightarrow> with_member t k (\<lambda>m.
            if m_host_running m \<or> m_status m \<noteq> Working \<or> m_generation m \<noteq> e_generation e
               \<or> m_turn m \<noteq> e_caller_turn e
               \<or> (case m_stop m of None \<Rightarrow> True | Some s \<Rightarrow> ls_wait s \<noteq> e_id e)
            then Changed (cancel_at r t) None
            else if active_descendants t m = []
            then Changed (finish k Completed (m_last_answer m) (cancel_at r t)) None
            else dispatch_at r (\<lambda>e. e\<lparr>e_message := join '', '' (active_descendants t m)\<rparr>) t)
        | KWake \<Rightarrow> with_member t k (\<lambda>m.
            if m_status m \<noteq> Waiting \<or> m_host_running m \<or> m_generation m \<noteq> e_generation e
            then Changed (cancel_at r t) None else dispatch_at r (\<lambda>e. e) t)
        | KInterrupt \<Rightarrow> with_member t k (\<lambda>m.
            if \<not> m_host_running m
            then (let t1 = upd_effect r (\<lambda>e. e\<lparr>e_state := SConfirmed\<rparr>) t
                  in Changed (if reserved m then finish k Interrupted '''' t1 else t1) None)
            else dispatch_at r (\<lambda>e. e) t)
        | KOther _ \<Rightarrow> Fail (Err ''unknown effect kind'')
        | _ \<Rightarrow> with_member t k (\<lambda>m.
            if \<not> m_audience_admitted m \<or> \<not> reserved m \<or> m_generation m \<noteq> e_generation e
            then Fail (Err ''execution has no active logical audience reservation'')
            else if m_host_running m \<and> (case m_stop m of None \<Rightarrow> False
                       | Some s \<Rightarrow> ls_turn s = m_turn m)
            then Unchanged None
            else dispatch_at r (\<lambda>e. e) t))"

definition claim_effect :: "string \<Rightarrow> string \<Rightarrow> tree \<Rightarrow> (tree, effect option) outcome" where
  "claim_effect caller eid t =
    (case effect_ref t caller eid of
       None \<Rightarrow> Fail (Err ''unknown control intent'')
     | Some r \<Rightarrow>
        (case get_effect t r of
           None \<Rightarrow> Fail (Err ''unknown control intent'')
         | Some e \<Rightarrow>
            if e_state e \<noteq> SPending \<and> e_state e \<noteq> SQueued then Unchanged None
            else
              let mo = t_member t (e_target e)
              in if e_kind e = KInterrupt \<and> mo = None then Fail (Panic ''nil member'')
                 else if e_kind e = KInterrupt
                         \<and> (case mo of None \<Rightarrow> False | Some m \<Rightarrow> e_generation e \<noteq> m_generation m)
                 then Changed (upd_effect r (\<lambda>e. e\<lparr>e_state := SConfirmed\<rparr>) t) None
                 else
                   let t1 = (case mo of
                               None \<Rightarrow> t
                             | Some m \<Rightarrow>
                                if e_kind e = KInterrupt
                                then map_effects (withdraw_queued (e_target e) (m_generation m)) t
                                else t);
                       pending = (case mo of None \<Rightarrow> False
                                  | Some m \<Rightarrow> compaction_pending (m_wait m)
                                     \<and> e_kind e \<noteq> KCompact \<and> e_kind e \<noteq> KInterrupt);
                       waking = (case mo of None \<Rightarrow> False
                                 | Some m \<Rightarrow> wait_host_owned m \<and> e_kind e \<noteq> KWake);
                       running = (case mo of None \<Rightarrow> False | Some m \<Rightarrow> m_host_running m)
                   in if pending \<or> waking \<or> claim_blocked caller eid e running (t_effects t1) True
                      then Changed t1 None
                      else claim_step r e t1))"

section \<open>Human input\<close>

definition human_effect :: "string \<Rightarrow> string \<Rightarrow> 64 word \<Rightarrow> status \<Rightarrow> effect" where
  "human_effect thread eid gen previous = zero_effect\<lparr>e_id := eid, e_caller := thread,
     e_target := thread, e_kind := KHuman, e_state := SPending, e_generation := gen,
     e_previous_status := previous\<rparr>"

definition human_input :: "string \<Rightarrow> string \<Rightarrow> tree \<Rightarrow> (tree, effect option) outcome" where
  "human_input thread eid t = with_member t thread (\<lambda>m.
     if eid = '''' \<or> \<not> m_audience_admitted m
     then Fail (Err ''human input requires an admitted audience and input identity'')
     else if tree_effect t thread eid \<noteq> None
     then Fail (Err ''human input identity already has a retained outcome'')
     else if m_parent m = ''''
     then obind (transition_host t thread EvHumanInput) None (\<lambda>t1 _. Changed t1 None)
     else
       let t1 = (if \<not> reserved m \<or> m_status m = Paused
                 then set_member thread (reserve_work m) t else t)
       in obind (transition_host t1 thread EvHumanInput) None (\<lambda>t2 _.
            with_member t2 thread (\<lambda>m2.
              obind (claim_effect thread eid
                       (append_effect (human_effect thread eid (m_generation m2) (m_status m)) t2))
                None
                (\<lambda>t3 r. case r of
                   None \<Rightarrow> Fail (Err ''another control operation requires settlement before human input'')
                 | Some e \<Rightarrow> Changed t3 (Some e)))))"

section \<open>Acknowledgement\<close>

definition settle_member :: "member \<Rightarrow> member" where
  "settle_member m =
    (case m_recovery_wait m of
       None \<Rightarrow> m
     | Some w \<Rightarrow>
        if wait_host_owned m then m
        else m\<lparr>m_wait := Some w, m_recovery_wait := None,
               m_status := (if m_status m = Uncertain then Waiting else m_status m)\<rparr>)"

text \<open>\<open>settleRecovery\<close> of the member at \<open>k\<close>, if there is one.\<close>

definition settle_recovery :: "string \<Rightarrow> 'a \<Rightarrow> tree \<Rightarrow> (tree, 'a) outcome" where
  "settle_recovery k a t =
    (case t_member t k of
       None \<Rightarrow> Changed t a
     | Some m \<Rightarrow>
        if m_recovery_wait m \<noteq> None \<and> m_wait m = None then Fail (Panic ''nil wait'')
        else Changed (set_member k (settle_member m) t) a)"

definition set_child :: "receipt \<Rightarrow> effect \<Rightarrow> effect" where
  "set_child rc e = e\<lparr>e_target := rc_thread rc,
     e_child := map_option (\<lambda>c. c\<lparr>c_session := rc_session rc, c_path := rc_path rc\<rparr>) (e_child e)\<rparr>"

definition failed_status :: "effect \<Rightarrow> receipt \<Rightarrow> member \<Rightarrow> member" where
  "failed_status e rc m =
    (if m_status m = Paused then m
     else
       let m1 = (if (e_kind e = KWake \<or> e_kind e = KCompact) \<and> reserved m \<and> rc_uncertain rc
                 then m\<lparr>m_status := Uncertain\<rparr> else m)
       in if e_kind e = KCreate \<and> m_status m1 = Pending
          then m1\<lparr>m_status := (if rc_uncertain rc then Uncertain else Failed)\<rparr> else m1)"

definition ack_failed ::
    "eref \<Rightarrow> effect \<Rightarrow> receipt \<Rightarrow> tree \<Rightarrow> (tree, feature list) outcome" where
  "ack_failed r e rc t =
    (if effect_step e = KCreate \<and> e_child e = None then Fail (Panic ''nil child'')
     else
       let k = e_target e;
           e1 = (if effect_step e = KCreate then set_child rc e else e)\<lparr>
                  e_error := rc_error rc,
                  e_state := (if rc_uncertain rc then SUncertain else SFailed)\<rparr>;
           t1 = upd_effect r (\<lambda>_. e1) t;
           t2 = upd_member k (failed_status e rc) t1;
           t3 = (case t_member t2 k of
                   None \<Rightarrow> t2
                 | Some m \<Rightarrow>
                    if (e_kind e = KHuman \<or> e_kind e = KFollowup \<or> e_kind e = KCompletion)
                       \<and> m_generation m = e_generation e \<and> \<not> m_host_running m \<and> reserved m
                    then (if rc_uncertain rc
                          then set_member k (m\<lparr>m_status := Uncertain\<rparr>) t2
                          else finish k Failed (rc_error rc) t2)
                    else t2)
       in if rc_uncertain rc then Changed t3 [] else settle_recovery k [] t3)"

definition child_member :: "string \<Rightarrow> receipt \<Rightarrow> child \<Rightarrow> member" where
  "child_member caller rc c = zero_member\<lparr>m_thread := rc_thread rc, m_session := rc_session rc,
     m_path := rc_path rc, m_parent := caller, m_task := c_task c, m_generation := 1,
     m_status := Pending, m_settings := c_settings c, m_limits := c_limits c,
     m_preload := c_preload c\<rparr>"

text \<open>
  The switch of \<open>EffectAcknowledged\<close> on a confirmed step: the effect and the tree it
  leaves.  \<open>e\<close> already carries the confirmed state and the receipt's error text.
\<close>

definition confirm_step ::
    "string \<Rightarrow> step \<Rightarrow> effect \<Rightarrow> receipt \<Rightarrow> tree \<Rightarrow> error + effect \<times> tree" where
  "confirm_step caller st e rc t =
    (let k = e_target e; mo = t_member t k
     in case st of
          KCompact \<Rightarrow>
            (let e1 = e\<lparr>e_state := SCompleted\<rparr>
             in if \<not> rc_reconciled rc then Inr (e1, t)
                else case mo of
                  None \<Rightarrow> Inl (Panic ''nil member'')
                | Some m \<Rightarrow>
                   if m_status m \<noteq> Uncertain then Inr (e1, t)
                   else (case m_wait m of
                           None \<Rightarrow> Inl (Panic ''nil wait'')
                         | Some w \<Rightarrow> Inr (e1, if w_state w = SRegistered
                                             then set_member k (m\<lparr>m_status := Waiting\<rparr>) t else t)))
        | KCreate \<Rightarrow>
            (if rc_thread rc = '''' \<or> rc_session rc = '''' \<or> t_member t (rc_thread rc) \<noteq> None
             then Inl (Err ''invalid independent child identity'')
             else case e_child e of
               None \<Rightarrow> Inl (Panic ''nil child'')
             | Some c \<Rightarrow> Inr ((set_child rc e)\<lparr>e_phase := KAssignmentInput, e_state := SPending\<rparr>,
                            set_member (rc_thread rc) (child_member caller rc c) t))
        | KAssignmentInput \<Rightarrow> Inr (e\<lparr>e_phase := KAdmit, e_state := SPending\<rparr>, t)
        | KAdmit \<Rightarrow>
            (case mo of
               None \<Rightarrow> Inl (Panic ''nil member'')
             | Some m \<Rightarrow> Inr (e\<lparr>e_phase := KInitial,
                              e_state := (if e_outcome e = Interrupted then SCanceled else SPending)\<rparr>,
                            set_member k (m\<lparr>m_audience_admitted := True\<rparr>) t))
        | KMessage \<Rightarrow>
            (case t_member t (e_caller e) of
               None \<Rightarrow> Inl (Panic ''nil member'')
             | Some c \<Rightarrow> Inr (e\<lparr>e_outcome := (case e_origin e of None \<Rightarrow> m_status c
                                             | Some og \<Rightarrow> o_status og)\<rparr>, t))
        | KFinal \<Rightarrow> Inr (e, t)
        | KInterrupt \<Rightarrow> Inr (e, t)
        | KOther _ \<Rightarrow> Inr (e, t)
        | _ \<Rightarrow>
            (let e1 = (if e_kind e = KWake then e\<lparr>e_state := SCompleted\<rparr> else e)
             in if rc_reconciled rc then Inr (e1, t)
                else if rc_turn rc = ''''
                then Inl (Err ''effect acknowledgement has missing or conflicting host turn'')
                else case mo of
                  None \<Rightarrow> Inl (Panic ''nil member'')
                | Some m \<Rightarrow>
                   if m_host_running m \<and> m_turn m \<noteq> rc_turn rc
                   then Inl (Err ''effect acknowledgement has missing or conflicting host turn'')
                   else Inr (e1, if m_generation m = e_generation e \<and> reserved m
                                    \<and> m_turn m \<noteq> rc_turn rc
                                 then set_member k (start_turn (rc_turn rc) m) t else t)))"

definition ack_confirmed ::
    "reload_api \<Rightarrow> string \<Rightarrow> eref \<Rightarrow> effect \<Rightarrow> receipt \<Rightarrow> tree \<Rightarrow> (tree, feature list) outcome" where
  "ack_confirmed api caller r e rc t =
    (let st = effect_step e;
         e0 = e\<lparr>e_error := rc_error rc, e_state := SConfirmed\<rparr>
     in if st = KAdmit \<and> e_child e = None then Fail (Panic ''nil child'')
        else case confirm_step caller st e0 rc t of
          Inl err \<Rightarrow> Fail err
        | Inr (e1, t1) \<Rightarrow>
            let paused = (e_kind e1 = KCreate \<and> e_state e1 = SPending
                  \<and> (case t_member t1 (e_target e) of None \<Rightarrow> False | Some m \<Rightarrow> m_status m = Paused));
                e2 = (if paused then e1\<lparr>e_state := SPaused\<rparr> else e1)
            in settle_recovery (e_target e) (confirmed_features api st e0)
                 (upd_effect r (\<lambda>_. e2) t1))"

definition dispatched :: "effect \<Rightarrow> receipt \<Rightarrow> bool" where
  "dispatched e rc \<longleftrightarrow> e_state e = SDispatching
     \<or> (e_state e = SUncertain \<and> rc_reconciled rc \<and> effect_step e \<noteq> KCreate
          \<and> effect_step e \<noteq> KAdmit \<and> rc_error rc = '''' \<and> \<not> rc_uncertain rc)"

definition effect_acknowledged ::
    "reload_api \<Rightarrow> string \<Rightarrow> string \<Rightarrow> receipt \<Rightarrow> tree \<Rightarrow> (tree, feature list) outcome" where
  "effect_acknowledged api caller eid rc t =
    (case effect_ref t caller eid of
       None \<Rightarrow> Fail (Err ''unknown effect acknowledgement'')
     | Some r \<Rightarrow>
        (case get_effect t r of
           None \<Rightarrow> Fail (Err ''unknown effect acknowledgement'')
         | Some e \<Rightarrow>
            if e_kind e = KCreate \<and> rc_phase rc \<noteq> e_phase e
            then Fail (Err ''creation acknowledgement does not match retained phase'')
            else if e_state e = SConfirmed \<or> e_state e = SCompleted \<or> e_state e = SFailed
            then Unchanged []
            else if \<not> dispatched e rc then Fail (Err ''effect is not dispatched'')
            else if rc_uncertain rc \<or> rc_error rc \<noteq> '''' then ack_failed r e rc t
            else ack_confirmed api caller r e rc t))"

end
