(* ===== verification/Control_Reads.thy ===== *)
theory Control_Reads
  imports Control_Actions
begin

text \<open>
  The remaining closures and reads of thread control: spawn reservation (\<open>admission.go\<close>),
  foreign messages and wait targets (\<open>peer.go\<close>), retained instructions and metrics
  (\<open>instructions.go\<close>, \<open>inspection.go\<close>), the interruption projection (\<open>interruptions.go\<close>)
  and the detached reads of \<open>reads.go\<close> and \<open>store.go\<close>.  \<open>item_id\<close> is \<open>MessageItemID\<close>.
\<close>

section \<open>Spawn reservation\<close>

definition task_char :: "char \<Rightarrow> bool" where
  "task_char c \<longleftrightarrow> (CHR ''a'' \<le> c \<and> c \<le> CHR ''z'') \<or> (CHR ''0'' \<le> c \<and> c \<le> CHR ''9'')
     \<or> c = CHR ''_'' \<or> c = CHR ''-''"

definition child_task :: "effect \<Rightarrow> string option" where
  "child_task e = map_option c_task (e_child e)"

definition spawn_effect ::
    "(string \<Rightarrow> string) \<Rightarrow> identity \<Rightarrow> member \<Rightarrow> string \<Rightarrow> spawn_request \<Rightarrow> effect" where
  "spawn_effect item_id caller m task q = zero_effect\<lparr>e_id := i_call caller,
     e_caller := i_thread caller, e_caller_turn := i_turn caller,
     e_caller_generation := m_generation m, e_kind := KCreate, e_phase := KCreate,
     e_state := SPending, e_message := sr_message q, e_generation := 1,
     e_child := Some \<lparr>c_import = sr_import q, c_task = task, c_session = '''', c_path = '''',
       c_arguments = sr_arguments q, c_settings = sr_settings q, c_limits = sr_limits q,
       c_preload = (if sr_preload q = '''' then \<lparr>cp_item = '''', cp_selection = ''''\<rparr>
         else \<lparr>cp_item = item_id (i_thread caller @ '':'' @ i_call caller @ '':assignment''),
               cp_selection = sr_preload q\<rparr>)\<rparr>\<rparr>"

definition reserve_spawn ::
    "(string \<Rightarrow> string) \<Rightarrow> identity \<Rightarrow> spawn_request \<Rightarrow> tree \<Rightarrow> (tree, effect) outcome" where
  "reserve_spawn item_id caller q t = with_admitted t caller (\<lambda>m.
     if i_call caller = '''' \<or> sr_name q = '''' \<or> trim_space (sr_message q) = ''''
        \<or> \<not> prefix ''/'' (s_workspace (sr_settings q))
     then Fail (Err ''spawn requires host call identity, task name and selected absolute workspace'')
     else if \<not> list_all task_char (sr_name q)
     then Fail (Err ''task name must contain only lowercase letters, digits, underscores and hyphens'')
     else
       let task = m_task m @ ''/'' @ sr_name q
       in case tree_effect t (i_thread caller) (i_call caller) of
            Some old \<Rightarrow>
              if e_kind old \<noteq> KCreate
                 \<or> (case e_child old of None \<Rightarrow> True
                    | Some c \<Rightarrow> c_task c \<noteq> task \<or> c_arguments c \<noteq> sr_arguments q)
                 \<or> e_caller_turn old \<noteq> i_turn caller \<or> e_message old \<noteq> sr_message q
              then Fail (Err ''conflicting repeated spawn call'')
              else Unchanged old
          | None \<Rightarrow>
              if \<exists>old \<in> set (map snd (t_members t)). m_task old = task
              then Fail (Err ''task name is already admitted'')
              else if \<exists>old \<in> set (t_effects t). e_kind old = KCreate
                        \<and> child_task old = Some task \<and> e_state old \<noteq> SFailed
              then Fail (Err ''task name has a pending or uncertain spawn'')
              else let e = spawn_effect item_id caller m task q
                   in Changed (append_effect e t) e)"

section \<open>Foreign sessions\<close>

definition member_origin :: "tree \<Rightarrow> member \<Rightarrow> origin" where
  "member_origin t m = \<lparr>o_session = t_root t, o_thread = m_thread m, o_task = m_task m,
     o_turn = m_turn m, o_generation = m_generation m, o_status = m_status m\<rparr>"

definition origin_of :: "identity \<Rightarrow> tree \<Rightarrow> error + origin" where
  "origin_of caller t =
    (case admitted t caller of Inl e \<Rightarrow> Inl e | Inr m \<Rightarrow> Inr (member_origin t m))"

definition remote_target_of :: "string \<Rightarrow> tree \<Rightarrow> error + remote_target" where
  "remote_target_of thread t =
    (case t_member t thread of
       None \<Rightarrow> Inl (Panic ''nil member'')
     | Some m \<Rightarrow>
        if \<not> m_audience_admitted m \<or> (m_parent m = '''' \<and> t_root t \<noteq> thread)
        then Inl (Err ''target has no active coordination identity'')
        else Inr \<lparr>rt_session = t_root t, rt_thread = m_thread m, rt_task = m_task m,
                  rt_turn = m_turn m, rt_generation = m_generation m, rt_status = m_status m,
                  rt_host_running = m_host_running m, rt_unavailable = False\<rparr>)"

definition receive_message ::
    "origin \<Rightarrow> string \<Rightarrow> string \<Rightarrow> string \<Rightarrow> tree \<Rightarrow> (tree, effect) outcome" where
  "receive_message peer target call message t = with_member t target (\<lambda>m.
     if o_session peer = t_root t \<or> o_thread peer = '''' \<or> call = '''' \<or> \<not> m_audience_admitted m
     then Fail (Err ''foreign message requires authenticated source and recipient'')
     else
       let eid = o_thread peer @ '':'' @ call
       in case tree_effect t target eid of
            Some old \<Rightarrow>
              if (case e_origin old of None \<Rightarrow> True
                  | Some og \<Rightarrow> og \<noteq> peer\<lparr>o_status := o_status og\<rparr>)
                 \<or> e_message old \<noteq> message \<or> e_kind old \<noteq> KMessage
              then Fail (Err ''conflicting repeated foreign message'')
              else Unchanged old
          | None \<Rightarrow>
              let e = zero_effect\<lparr>e_id := eid, e_caller := target, e_caller_turn := o_turn peer,
                        e_caller_generation := o_generation peer, e_target := target,
                        e_kind := KMessage, e_message := message, e_state := SPending,
                        e_generation := m_generation m, e_origin := Some peer\<rparr>
              in Changed (append_effect e t) e)"

definition foreign_wait :: "string \<Rightarrow> string \<Rightarrow> tree \<Rightarrow> (string \<times> remote_target) list" where
  "foreign_wait thread wid t =
    (case t_member t thread of
       None \<Rightarrow> []
     | Some m \<Rightarrow>
        (case m_wait m of
           None \<Rightarrow> []
         | Some w \<Rightarrow> if w_id w \<noteq> wid \<or> w_state w \<noteq> SRegistered then [] else w_foreign w))"

definition refresh_foreign_wait ::
    "string \<Rightarrow> string \<Rightarrow> remote_target \<Rightarrow> tree \<Rightarrow> (tree, unit) outcome" where
  "refresh_foreign_wait thread wid state t = with_member t thread (\<lambda>m.
     case m_wait m of
       None \<Rightarrow> Unchanged ()
     | Some w \<Rightarrow>
        if w_id w \<noteq> wid \<or> w_state w \<noteq> SRegistered then Unchanged ()
        else case alist_get (w_foreign w) (rt_thread state) of
          None \<Rightarrow> Unchanged ()
        | Some old \<Rightarrow>
            if old = state then Unchanged ()
            else if rt_session old \<noteq> rt_session state
            then Fail (Err ''foreign wait target identity changed'')
            else Changed (upd_member thread (upd_wait (\<lambda>w.
                   w\<lparr>w_foreign := alist_put (rt_thread state) state (w_foreign w)\<rparr>)) t) ())"

section \<open>Retained instructions and metrics\<close>

fun retain_fragments ::
    "string \<Rightarrow> fragment list \<Rightarrow> fragment list \<Rightarrow> bool \<Rightarrow> error + (fragment list \<times> bool)" where
  "retain_fragments thread [] instrs changed = Inr (instrs, changed)"
| "retain_fragments thread (part # parts) instrs changed =
    (if f_thread part \<noteq> thread
     then Inl (Err ''instruction source conflicts with admitted thread'')
     else case find (\<lambda>old. f_item old = f_item part \<and> f_index old = f_index part) instrs of
       Some old \<Rightarrow> if old \<noteq> part
                  then Inl (Err ''conflicting retained instruction provenance'')
                  else retain_fragments thread parts instrs changed
     | None \<Rightarrow> retain_fragments thread parts (instrs @ [part]) True)"

definition retain_instructions ::
    "string \<Rightarrow> string \<Rightarrow> fragment list \<Rightarrow> tree \<Rightarrow> (tree, unit) outcome" where
  "retain_instructions thread path parts t = with_member t thread (\<lambda>m.
     case retain_fragments thread parts (m_instructions m) (m_path m \<noteq> path) of
       Inl e \<Rightarrow> Fail e
     | Inr (instrs, changed) \<Rightarrow>
         if \<not> changed then Unchanged ()
         else Changed (set_member thread (m\<lparr>m_instructions := instrs, m_path := path\<rparr>) t) ())"

definition retain_wait_metrics ::
    "string \<Rightarrow> string \<Rightarrow> (string \<times> session_metrics) list \<Rightarrow> tree \<Rightarrow> (tree, unit) outcome" where
  "retain_wait_metrics thread wid metrics t = with_member t thread (\<lambda>m.
     case m_wait m of
       None \<Rightarrow> Fail (Err ''wait metrics require the claimed continuation'')
     | Some w \<Rightarrow>
        if w_id w \<noteq> wid \<or> w_state w \<noteq> SDispatching
        then Fail (Err ''wait metrics require the claimed continuation'')
        else if w_metrics w \<noteq> None then Unchanged ()
        else Changed (upd_member thread (upd_wait (\<lambda>w. w\<lparr>w_metrics := Some metrics\<rparr>)) t) ())"

section \<open>The interruption projection\<close>

fun final_outcomes :: "effect list \<Rightarrow> ((string \<times> 64 word) \<times> status) list \<Rightarrow> ((string \<times> 64 word) \<times> status) list" where
  "final_outcomes [] acc = acc"
| "final_outcomes (e # es) acc = final_outcomes es
     (if e_kind e = KFinal then alist_put (e_caller e, e_caller_generation e) (e_outcome e) acc
      else acc)"

fun interrupt_outcomes ::
    "((string \<times> 64 word) \<times> status) list \<Rightarrow> effect list \<Rightarrow> ((string \<times> string) \<times> status) list
       \<Rightarrow> ((string \<times> string) \<times> status) list" where
  "interrupt_outcomes finals [] acc = acc"
| "interrupt_outcomes finals (e # es) acc = interrupt_outcomes finals es
     (if e_kind e = KInterrupt \<and> e_state e = SConfirmed
         \<and> alist_zero no_status finals (e_target e, e_generation e) \<noteq> no_status
      then alist_put (e_caller e, e_id e) (alist_zero no_status finals (e_target e, e_generation e)) acc
      else acc)"

definition interruptions :: "tree \<Rightarrow> ((string \<times> string) \<times> status) list" where
  "interruptions t = interrupt_outcomes (final_outcomes (t_effects t) []) (t_effects t) []"

definition interruption_outcome :: "tree \<Rightarrow> string \<Rightarrow> string \<Rightarrow> status" where
  "interruption_outcome t caller eid = alist_zero no_status (interruptions t) (caller, eid)"

section \<open>Detached reads\<close>

definition detached_effect :: "tree \<Rightarrow> effect \<Rightarrow> effect" where
  "detached_effect t e =
    (case t_member t (e_caller e) of
       None \<Rightarrow> e\<lparr>e_wake := None\<rparr>
     | Some m \<Rightarrow>
        (case m_wait m of
           None \<Rightarrow> e\<lparr>e_wake := None\<rparr>
         | Some w \<Rightarrow> if w_id w = e_id e \<and> e_kind e = KWake
                    then e\<lparr>e_wake := Some (wake_result t w)\<rparr> else e\<lparr>e_wake := None\<rparr>))"

definition read_effect :: "string \<Rightarrow> string \<Rightarrow> tree \<Rightarrow> effect option" where
  "read_effect caller eid t = map_option (detached_effect t) (tree_effect t caller eid)"

text \<open>The effects of a tree in the order the readers visit them: retained intents, then each
  member's compaction and wait.\<close>

definition wait_effects :: "member \<Rightarrow> effect list" where
  "wait_effects m = (case m_wait m of
       None \<Rightarrow> []
     | Some w \<Rightarrow> (case w_compaction w of None \<Rightarrow> [] | Some c \<Rightarrow> [c]) @ [w_effect w])"

definition all_effects :: "tree \<Rightarrow> effect list" where
  "all_effects t = t_effects t @ concat (map (wait_effects \<circ> snd) (t_members t))"

record effect_key =
  ek_caller :: string
  ek_id :: string
  ek_target :: string

definition effect_key_of :: "effect \<Rightarrow> effect_key" where
  "effect_key_of e = \<lparr>ek_caller = e_caller e, ek_id = e_id e, ek_target = e_target e\<rparr>"

definition pending_for :: "string \<Rightarrow> effect \<Rightarrow> bool" where
  "pending_for thread e \<longleftrightarrow> (e_target e = thread \<or> e_caller e = thread)
     \<and> (e_state e = SPending \<or> e_state e = SQueued)"

definition pending_effects :: "string \<Rightarrow> tree \<Rightarrow> effect_key list \<times> bool" where
  "pending_effects thread t =
    (map effect_key_of (filter (pending_for thread) (all_effects t)),
     (case t_member t thread of
        None \<Rightarrow> False
      | Some m \<Rightarrow>
         (case m_wait m of
            None \<Rightarrow> False
          | Some w \<Rightarrow> w_recovery w \<noteq> [] \<and> w_state w = SRegistered)))"

record action =
  a_effect :: effect
  a_sender :: string
  a_recipient :: string
  a_settings :: "settings option"

definition action_of :: "tree \<Rightarrow> effect \<Rightarrow> error + action" where
  "action_of t e =
    (case t_member t (e_caller e) of
       None \<Rightarrow> Inl (Panic ''nil member'')
     | Some c \<Rightarrow>
        (case t_member t (e_target e) of
           None \<Rightarrow> Inl (Panic ''nil member'')
         | Some r \<Rightarrow> Inr \<lparr>a_effect = e,
             a_sender = (case e_origin e of None \<Rightarrow> m_task c | Some og \<Rightarrow> sender og),
             a_recipient = m_task r,
             a_settings = (if effect_step e = KInitial then Some (m_settings r) else None)\<rparr>))"

fun actions_of :: "tree \<Rightarrow> effect list \<Rightarrow> error + action list" where
  "actions_of t [] = Inr []"
| "actions_of t (e # es) =
    (case action_of t (detached_effect t (e\<lparr>e_child := None\<rparr>)) of
       Inl x \<Rightarrow> Inl x
     | Inr a \<Rightarrow> (case actions_of t es of Inl x \<Rightarrow> Inl x | Inr as \<Rightarrow> Inr (a # as)))"

definition uncertain_actions :: "string \<Rightarrow> tree \<Rightarrow> error + action list" where
  "uncertain_actions thread t =
     actions_of t (filter (\<lambda>e. e_target e = thread \<and> e_state e = SUncertain) (all_effects t))"

record agent_row =
  ar_name :: string
  ar_status :: status
  ar_thread :: string
  ar_generation :: "64 word"
  ar_wait :: "wait_view option"

record effect_row =
  er_id :: string
  er_state :: estate
  er_thread :: string
  er_task :: "string option"

definition task_matches :: "string \<Rightarrow> string \<Rightarrow> bool" where
  "task_matches pre task \<longleftrightarrow> pre = '''' \<or> task = pre \<or> prefix (pre @ ''/'') task"

definition agent_row_of :: "tree \<Rightarrow> member \<Rightarrow> agent_row" where
  "agent_row_of t m = \<lparr>ar_name = m_task m, ar_status = m_status m, ar_thread = m_thread m,
     ar_generation = m_generation m, ar_wait = wait_view_of t (m_wait m)\<rparr>"

definition effect_shown :: "string \<Rightarrow> tree \<Rightarrow> effect \<Rightarrow> bool" where
  "effect_shown pre t e \<longleftrightarrow> e_state e \<noteq> SConfirmed
     \<and> (task_matches pre (caller_task t (e_caller e))
        \<or> (case t_member t (e_target e) of None \<Rightarrow> False | Some m \<Rightarrow> task_matches pre (m_task m))
        \<or> (case e_child e of None \<Rightarrow> False | Some c \<Rightarrow> task_matches pre (c_task c)))"

definition effect_row_of :: "effect \<Rightarrow> effect_row" where
  "effect_row_of e = \<lparr>er_id = e_id e, er_state = public_state e, er_thread = e_target e,
     er_task = child_task e\<rparr>"

definition agents :: "string \<Rightarrow> tree \<Rightarrow> agent_row list \<times> effect_row list" where
  "agents pre t =
    (sort_key ar_name (map (agent_row_of t)
        (filter (\<lambda>m. task_matches pre (m_task m)) (map snd (t_members t)))),
     map effect_row_of (filter (effect_shown pre t) (all_effects t)))"

text \<open>The walk up the ancestry in \<open>ContextPreloads\<close>; \<open>None\<close> is a walk that has not ended.\<close>

fun preload_walk :: "tree \<Rightarrow> nat \<Rightarrow> member option \<Rightarrow> context_preload list option" where
  "preload_walk t n None = Some []"
| "preload_walk t 0 (Some m) = None"
| "preload_walk t (Suc n) (Some m) =
    map_option (\<lambda>ps. if cp_selection (m_preload m) \<noteq> '''' then m_preload m # ps else ps)
      (preload_walk t n (t_member t (m_parent m)))"

definition context_preloads ::
    "string \<Rightarrow> string \<Rightarrow> tree \<Rightarrow> error + context_preload list option" where
  "context_preloads thread session t =
    (case t_member t thread of
       None \<Rightarrow> Inr (Some [])
     | Some m \<Rightarrow>
        if \<not> m_audience_admitted m \<or> m_session m \<noteq> session
        then Inl (Err ''context preload requires admitted runtime identity'')
        else Inr (preload_walk t (Suc (length (m_task m))) (Some m)))"

definition descendant_participants :: "string \<Rightarrow> tree \<Rightarrow> participant list" where
  "descendant_participants thread t =
    (case t_member t thread of
       None \<Rightarrow> []
     | Some m \<Rightarrow> sort_key p_task (map member_participant
         (filter (\<lambda>c. m_audience_admitted c \<and> prefix (m_task m @ ''/'') (m_task c))
            (map snd (t_members t)))))"

definition family :: "tree \<Rightarrow> string \<times> participant list" where
  "family t = (t_root t, sort_key p_task (map member_participant
     (filter m_audience_admitted (map snd (t_members t)))))"

end
