(* ===== verification/Control_Invariant.thy ===== *)
theory Control_Invariant
  imports Control_Reads
begin

text \<open>
  The well-formedness invariant of a logical tree and its preservation by every closure
  of thread control.  \<open>tree_ok\<close> says that members are stored under their own thread, that
  a running member has a turn and a live status, that a recovery wait only exists beside a
  wait, that the ancestry is the task hierarchy, and that every retained effect has its
  caller (and, once created, its target) in the tree.  The nil dereferences of the Go code
  cannot happen in such a tree.
\<close>

section \<open>The invariant\<close>

definition task_of :: "tree \<Rightarrow> string \<Rightarrow> string option" where
  "task_of t k = map_option m_task (t_member t k)"

definition compaction_good :: "string \<Rightarrow> effect \<Rightarrow> bool" where
  "compaction_good k e \<longleftrightarrow> e_caller e = k \<and> e_target e = k \<and> e_kind e = KCompact"

definition wake_good :: "string \<Rightarrow> effect \<Rightarrow> bool" where
  "wake_good k e \<longleftrightarrow> e_caller e = k \<and> e_target e = k \<and> e_kind e = KWake"

definition wait_good :: "string \<Rightarrow> wait \<Rightarrow> bool" where
  "wait_good k w \<longleftrightarrow> wake_good k (w_effect w) \<and> pred_option (compaction_good k) (w_compaction w)"

definition running_good :: "member \<Rightarrow> bool" where
  "running_good m \<longleftrightarrow> (m_host_running m \<longrightarrow> m_turn m \<noteq> ''''
     \<and> (m_status m = Working \<or> m_status m = Waiting \<or> m_status m = Uncertain))"

definition waits_good :: "string \<Rightarrow> member \<Rightarrow> bool" where
  "waits_good k m \<longleftrightarrow> pred_option (wait_good k) (m_wait m)
     \<and> pred_option (\<lambda>w. m_wait m \<noteq> None \<and> wait_good k w \<and> \<not> host_owned (w_state w))
         (m_recovery_wait m)"

definition member_good :: "string \<Rightarrow> member \<Rightarrow> bool" where
  "member_good k m \<longleftrightarrow> m_thread m = k \<and> running_good m \<and> waits_good k m"

definition lineage_good :: "tree \<Rightarrow> member \<Rightarrow> bool" where
  "lineage_good t m \<longleftrightarrow>
     (if m_parent m = '''' then m_task m = ''/root''
      else \<exists>p. task_of t (m_parent m) = Some p \<and> prefix (p @ ''/'') (m_task m))"

definition create_good :: "string \<Rightarrow> effect \<Rightarrow> bool" where
  "create_good p e \<longleftrightarrow> (e_kind e = KCreate \<longrightarrow>
     (\<exists>c. e_child e = Some c \<and> prefix (p @ ''/'') (c_task c))
     \<and> (e_phase e = KCreate \<or> e_phase e = KAssignmentInput \<or> e_phase e = KAdmit
        \<or> e_phase e = KInitial))"

definition effect_good :: "tree \<Rightarrow> effect \<Rightarrow> bool" where
  "effect_good t e \<longleftrightarrow> (\<exists>p. task_of t (e_caller e) = Some p \<and> create_good p e)
     \<and> (effect_step e \<noteq> KCreate \<longrightarrow> task_of t (e_target e) \<noteq> None)
     \<and> e_kind e \<noteq> KWake \<and> e_kind e \<noteq> KCompact"

definition keys_good :: "tree \<Rightarrow> bool" where
  "keys_good t \<longleftrightarrow> distinct (map fst (t_members t))"

definition tree_ok :: "tree \<Rightarrow> bool" where
  "tree_ok t \<longleftrightarrow> keys_good t \<and> t_member t '''' = None
     \<and> (\<forall>k m. t_member t k = Some m \<longrightarrow> member_good k m \<and> lineage_good t m)
     \<and> (\<forall>e \<in> set (t_effects t). effect_good t e)
     \<and> (\<exists>r. t_member t (t_root t) = Some r \<and> m_parent r = '''')"

lemma tree_okD:
  assumes "tree_ok t"
  shows "keys_good t" "t_member t '''' = None"
    "t_member t k = Some m \<Longrightarrow> member_good k m" "t_member t k = Some m \<Longrightarrow> lineage_good t m"
    "e \<in> set (t_effects t) \<Longrightarrow> effect_good t e"
    "\<exists>r. t_member t (t_root t) = Some r \<and> m_parent r = ''''"
  using assms by (auto simp: tree_ok_def)

section \<open>Updates that keep it\<close>

text \<open>A member update that keeps identity and place, and the local invariant.\<close>

definition member_step :: "string \<Rightarrow> member \<Rightarrow> member \<Rightarrow> bool" where
  "member_step k m m' \<longleftrightarrow> m_parent m' = m_parent m \<and> m_task m' = m_task m
     \<and> (member_good k m \<longrightarrow> member_good k m')"

lemma member_step_refl: "member_step k m m"
  by (simp add: member_step_def)

named_theorems good_defs "local invariants of members and effects"

lemmas [good_defs] = member_step_def member_good_def running_good_def waits_good_def
  wait_good_def wake_good_def compaction_good_def

lemma task_of_simps [simp]:
  "task_of (set_effects es t) = task_of t" "task_of (append_effect e t) = task_of t"
  "task_of (map_effects f t) = task_of t"
  by (auto simp: task_of_def)

lemma keys_good_simps [simp]:
  "keys_good (set_effects es t) = keys_good t" "keys_good (append_effect e t) = keys_good t"
  "keys_good (map_effects f t) = keys_good t" "keys_good t \<Longrightarrow> keys_good (set_member k m t)"
  by (simp_all add: keys_good_def set_member_def distinct_update)

lemma task_of_set_member:
  "t_member t k = Some m \<Longrightarrow> m_task m' = m_task m \<Longrightarrow> task_of (set_member k m' t) = task_of t"
  by (auto simp: task_of_def)

lemma task_of_upd_member:
  "(\<And>m. t_member t k = Some m \<Longrightarrow> m_task (f m) = m_task m) \<Longrightarrow> task_of (upd_member k f t) = task_of t"
  by (cases "t_member t k") (auto simp: task_of_def upd_member_def)

lemma good_cong:
  "task_of t' = task_of t \<Longrightarrow> effect_good t' e = effect_good t e"
  "task_of t' = task_of t \<Longrightarrow> lineage_good t' m = lineage_good t m"
  by (simp_all add: effect_good_def lineage_good_def)

lemma lineage_good_step: "m_parent m' = m_parent m \<Longrightarrow> m_task m' = m_task m \<Longrightarrow>
    lineage_good t m' = lineage_good t m"
  by (simp add: lineage_good_def)

lemma tree_ok_set_member:
  assumes ok: "tree_ok t" and m: "t_member t k = Some m" and st: "member_step k m m'"
  shows "tree_ok (set_member k m' t)"
proof -
  have task: "task_of (set_member k m' t) = task_of t"
    using m st by (intro task_of_set_member) (auto simp: member_step_def)
  have "member_good k m'" "lineage_good t m'"
    using tree_okD(3,4) [OF ok m] st by (auto simp: member_step_def lineage_good_def)
  then show ?thesis
    using ok m st unfolding tree_ok_def good_cong [OF task]
    by (auto simp: member_step_def)
qed

lemma upd_member_eq: "t_member t k = Some m \<Longrightarrow> upd_member k f t = set_member k (f m) t"
  by (simp add: upd_member_def)

lemma tree_ok_upd_member:
  assumes "tree_ok t" and "\<And>m. t_member t k = Some m \<Longrightarrow> member_step k m (f m)"
  shows "tree_ok (upd_member k f t)"
proof (cases "t_member t k")
  case None
  with assms show ?thesis by (simp add: upd_member_def)
next
  case (Some m)
  with assms show ?thesis by (simp add: upd_member_eq tree_ok_set_member)
qed

lemma tree_ok_set_effects:
  "tree_ok t \<Longrightarrow> \<forall>e \<in> set es. effect_good t e \<Longrightarrow> tree_ok (set_effects es t)"
  unfolding tree_ok_def by (simp add: good_cong [OF task_of_simps(1)])

lemma tree_ok_append_effect: "tree_ok t \<Longrightarrow> effect_good t e \<Longrightarrow> tree_ok (append_effect e t)"
  unfolding append_effect_def by (rule tree_ok_set_effects) (auto simp: tree_okD)

lemma tree_ok_map_effects:
  "tree_ok t \<Longrightarrow> (\<And>e. effect_good t e \<Longrightarrow> effect_good t (f e)) \<Longrightarrow> tree_ok (map_effects f t)"
  unfolding map_effects_def by (rule tree_ok_set_effects) (auto simp: tree_okD)

text \<open>Fields the invariant does not read.\<close>

lemma effect_good_frame [simp]:
  "effect_good t (e\<lparr>e_state := a\<rparr>) = effect_good t e"
  "effect_good t (e\<lparr>e_error := b\<rparr>) = effect_good t e"
  "effect_good t (e\<lparr>e_turn := b\<rparr>) = effect_good t e"
  "effect_good t (e\<lparr>e_claimed_by := b\<rparr>) = effect_good t e"
  "effect_good t (e\<lparr>e_consumed := c\<rparr>) = effect_good t e"
  "effect_good t (e\<lparr>e_outcome := st\<rparr>) = effect_good t e"
  "effect_good t (e\<lparr>e_message := b\<rparr>) = effect_good t e"
  by (simp_all add: effect_good_def create_good_def effect_step_def)

section \<open>Effects behind pointers\<close>

definition ref_good :: "tree \<Rightarrow> eref \<Rightarrow> effect \<Rightarrow> bool" where
  "ref_good t r e = (case r of
     InTree i \<Rightarrow> effect_good t e
   | InWait k \<Rightarrow> wake_good k e
   | InCompaction k \<Rightarrow> compaction_good k e)"

lemma ref_good_frame [simp]:
  "ref_good t r (e\<lparr>e_state := a\<rparr>) = ref_good t r e"
  "ref_good t r (e\<lparr>e_error := b\<rparr>) = ref_good t r e"
  "ref_good t r (e\<lparr>e_turn := b\<rparr>) = ref_good t r e"
  "ref_good t r (e\<lparr>e_claimed_by := b\<rparr>) = ref_good t r e"
  "ref_good t r (e\<lparr>e_consumed := c\<rparr>) = ref_good t r e"
  "ref_good t r (e\<lparr>e_outcome := st\<rparr>) = ref_good t r e"
  "ref_good t r (e\<lparr>e_message := b\<rparr>) = ref_good t r e"
  by (simp_all add: ref_good_def wake_good_def compaction_good_def split: eref.splits)

lemma get_effect_good:
  assumes "tree_ok t" and "get_effect t r = Some e"
  shows "ref_good t r e"
proof (cases r)
  case (InTree i)
  with assms show ?thesis by (auto simp: ref_good_def tree_okD split: if_splits)
next
  case (InWait k)
  with assms(2) obtain m w where "t_member t k = Some m" "m_wait m = Some w" "e = w_effect w"
    by (auto simp: bind_eq_Some_conv)
  with tree_okD(3) [OF assms(1)] InWait show ?thesis
    by (fastforce simp: ref_good_def member_good_def waits_good_def wait_good_def)
next
  case (InCompaction k)
  with assms(2) obtain m w where "t_member t k = Some m" "m_wait m = Some w"
      "w_compaction w = Some e"
    by (auto simp: bind_eq_Some_conv)
  with tree_okD(3) [OF assms(1)] InCompaction show ?thesis
    by (fastforce simp: ref_good_def member_good_def waits_good_def wait_good_def)
qed

lemma tree_ok_upd_effect:
  assumes ok: "tree_ok t" and e: "get_effect t r = Some e" and good: "ref_good t r (f e)"
  shows "tree_ok (upd_effect r f t)"
proof (cases r)
  case (InTree i)
  with e good have "i < length (t_effects t)" "effect_good t (f (t_effects t ! i))"
    by (auto simp: ref_good_def split: if_splits)
  with ok InTree show ?thesis
    by (auto intro!: tree_ok_set_effects dest!: subsetD [OF set_update_subset_insert]
        simp: tree_okD)
next
  case (InWait k)
  with e obtain m w where w: "t_member t k = Some m" "m_wait m = Some w" "e = w_effect w"
    by (auto simp: bind_eq_Some_conv)
  with good InWait ok show ?thesis
    by (auto intro!: tree_ok_upd_member simp: good_defs ref_good_def upd_wait_def
        split: option.splits)
next
  case (InCompaction k)
  with e obtain m w where w: "t_member t k = Some m" "m_wait m = Some w" "w_compaction w = Some e"
    by (auto simp: bind_eq_Some_conv)
  with good InCompaction ok show ?thesis
    by (auto intro!: tree_ok_upd_member simp: good_defs ref_good_def upd_wait_def
        split: option.splits)
qed

lemma tree_ok_upd_effect_frame:
  assumes "tree_ok t" and "get_effect t r = Some e" and "\<And>e. ref_good t r (f e) = ref_good t r e"
  shows "tree_ok (upd_effect r f t)"
  using assms get_effect_good tree_ok_upd_effect by metis

section \<open>Settlement steps\<close>

lemma cancel_completion_members [simp]:
  assumes "tree_ok t"
  shows "tree_ok (cancel_completion k t)"
  using assms unfolding cancel_completion_def
  by (auto split: option.splits intro!: tree_ok_upd_effect_frame)

text \<open>Updates of the wait alone, and of the status alone.\<close>

definition wait_step :: "(wait \<Rightarrow> wait) \<Rightarrow> bool" where
  "wait_step f \<longleftrightarrow> (\<forall>k w. wait_good k w \<longrightarrow> wait_good k (f w))"

lemma member_step_upd_wait: "wait_step f \<Longrightarrow> member_step k m (upd_wait f m)"
  by (cases "m_wait m"; cases "m_recovery_wait m")
    (simp_all add: wait_step_def member_step_def member_good_def running_good_def waits_good_def
      upd_wait_def)

lemma member_step_cancel_wait: "member_step k m (upd_wait cancel_wait m)"
proof (rule member_step_upd_wait)
  show "wait_step cancel_wait"
    unfolding wait_step_def
  proof (intro allI impI)
    fix k w assume "wait_good k w"
    then show "wait_good k (cancel_wait w)"
      by (cases "w_compaction w")
        (auto simp: wait_good_def cancel_wait_def wake_good_def compaction_good_def)
  qed
qed

lemma tree_ok_release_claims [simp]: "tree_ok t \<Longrightarrow> tree_ok (release_claims th w t)"
  unfolding release_claims_def by (rule tree_ok_map_effects) auto

lemma tree_ok_cancel_subscription [simp]: "tree_ok t \<Longrightarrow> tree_ok (cancel_subscription k t)"
  unfolding cancel_subscription_def
  by (auto split: option.splits intro!: tree_ok_upd_member member_step_cancel_wait)

text \<open>\<open>cancelCompletion\<close> only writes a completion effect, so it changes no member.\<close>

lemma cancel_completion_member [simp]:
  assumes "tree_ok t"
  shows "t_member (cancel_completion k t) j = t_member t j"
proof -
  have "get_effect t r = Some e \<Longrightarrow> e_kind e = KCompletion \<Longrightarrow>
      t_member (upd_effect r f t) j = t_member t j" for r e f
    using get_effect_good [OF assms, of r e]
    by (cases r) (auto simp: ref_good_def wake_good_def compaction_good_def)
  then show ?thesis
    unfolding cancel_completion_def by (auto split: option.splits)
qed

lemma cancel_subscription_member:
  "t_member (cancel_subscription k t) j =
     (if j = k then map_option (upd_wait cancel_wait) (t_member t k) else t_member t j)"
  by (auto simp: cancel_subscription_def release_claims_def upd_wait_def
      split: option.splits)

lemma cancel_subscription_other [simp]:
  "t_root (cancel_subscription k t) = t_root t" "t_version (cancel_subscription k t) = t_version t"
  by (auto simp: cancel_subscription_def release_claims_def split: option.splits)

lemma task_of_cancel_subscription [simp]: "task_of (cancel_subscription k t) = task_of t"
  by (rule ext) (auto simp: task_of_def cancel_subscription_member option.map_comp comp_def
      upd_wait_def)

lemma final_effect_good:
  assumes "tree_ok t" and "t_member t k = Some m" and "m_parent m \<noteq> ''''"
  shows "effect_good t (final_effect m st text)"
proof -
  have "m_thread m = k" "lineage_good t m"
    using tree_okD(3,4) [OF assms(1) assms(2)] by (auto simp: member_good_def)
  with assms show ?thesis
    by (auto simp: effect_good_def final_effect_def create_good_def effect_step_def
        lineage_good_def task_of_def zero_effect_def)
qed

lemma member_step_status:
  "\<not> m_host_running m \<Longrightarrow> member_step k m (m\<lparr>m_status := st\<rparr>)"
  by (auto simp: good_defs)

lemma tree_ok_finish:
  assumes ok: "tree_ok t" and idle: "\<And>m. t_member t k = Some m \<Longrightarrow> \<not> m_host_running m"
  shows "tree_ok (finish k st text t)"
proof -
  define t1 where "t1 = upd_member k (\<lambda>m. m\<lparr>m_status := st\<rparr>) (cancel_completion k t)"
  have ok1: "tree_ok t1"
    unfolding t1_def using ok idle
    by (intro tree_ok_upd_member member_step_status) auto
  show ?thesis
  proof (cases "t_member t1 k")
    case None
    with ok1 show ?thesis by (simp add: finish_def t1_def [symmetric])
  next
    case (Some m)
    then have good: "effect_good t1 (final_effect m st text)" if "m_parent m \<noteq> ''''"
      using final_effect_good [OF ok1] that by blast
    have "tree_ok (append_effect (final_effect m st text) (cancel_subscription k t1))"
      if "m_parent m \<noteq> ''''"
      using ok1 good [OF that] good_cong(1) [OF task_of_cancel_subscription]
      by (intro tree_ok_append_effect) auto
    with ok1 good Some show ?thesis
      by (auto simp: finish_def t1_def [symmetric] tree_ok_append_effect Let_def
          split: option.splits)
  qed
qed

lemma wait_good_pause: "wait_good k w \<Longrightarrow> wait_good k (pause_wait w)"
  by (cases "w_compaction w")
    (auto simp: wait_good_def pause_wait_def wake_good_def compaction_good_def)

lemma wait_good_set_state [simp]: "wait_good k (wait_set_state st w) = wait_good k w"
  by (simp add: wait_good_def wake_good_def)

lemma pause_member_step: "member_step k m (pause_member m)"
  by (cases "m_wait m"; cases "m_recovery_wait m")
    (auto simp: member_step_def member_good_def running_good_def waits_good_def pause_member_def
      wait_good_pause)

lemma map_of_map_value:
  "map_of (map (\<lambda>(k, m). (k, f k m)) ms) j = map_option (f j) (map_of ms j)"
  by (induction ms) auto

text \<open>Updating every member at once.\<close>

lemma tree_ok_map_members:
  assumes ok: "tree_ok t" and st: "\<And>k m. member_step k m (f k m)"
  shows "tree_ok (t\<lparr>t_members := map (\<lambda>(k, m). (k, f k m)) (t_members t)\<rparr>)"
proof -
  let ?t = "t\<lparr>t_members := map (\<lambda>(k, m). (k, f k m)) (t_members t)\<rparr>"
  have mem: "t_member ?t j = map_option (f j) (t_member t j)" for j
    by (simp add: map_of_map_value)
  have task: "task_of ?t = task_of t"
    unfolding task_of_def mem using st
    by (auto simp: option.map_comp member_step_def comp_def)
  have "keys_good ?t"
    using tree_okD(1) [OF ok] by (auto simp: keys_good_def comp_def case_prod_beta)
  moreover have "member_good k (f k m) \<and> lineage_good t (f k m)" if "t_member t k = Some m" for k m
    using tree_okD(3,4) [OF ok that] st [of k m]
    by (auto simp: member_step_def lineage_good_def)
  ultimately show ?thesis
    using ok st unfolding tree_ok_def good_cong [OF task] mem
    by (auto simp: member_step_def)
qed

lemma tree_ok_pause [simp]: "tree_ok t \<Longrightarrow> tree_ok (pause thread t)"
  unfolding pause_def
  by (rule tree_ok_map_effects, rule tree_ok_map_members)
    (auto simp: pause_member_step member_step_refl)

section \<open>The host-event table keeps the invariant\<close>

lemma member_simps_of_ok: "tree_ok t \<Longrightarrow> t_member t k = Some m \<Longrightarrow> m_thread m = k"
  using tree_okD(3) by (auto simp: member_good_def)

lemma running_goodD: "tree_ok t \<Longrightarrow> t_member t k = Some m \<Longrightarrow> running_good m"
  using tree_okD(3) by (auto simp: member_good_def)

lemma tree_ok_confirm_interrupts [simp]: "tree_ok t \<Longrightarrow> tree_ok (confirm_interrupts th turn t)"
  unfolding confirm_interrupts_def by (rule tree_ok_map_effects) auto

lemma confirm_interrupts_member [simp]:
  "t_member (confirm_interrupts th turn t) j = t_member t j"
  "t_members (confirm_interrupts th turn t) = t_members t"
  by (simp_all add: confirm_interrupts_def)

lemma wait_good_recovery: "m_thread m = k \<Longrightarrow> wait_good k (recovery_wait t m turn)"
  by (simp add: recovery_wait_def wait_good_def wake_good_def zero_wait_def)

lemma recovery_wait_idle [simp]: "\<not> host_owned (w_state (recovery_wait t m turn))"
  by (simp add: recovery_wait_def)

text \<open>
  Member updates built from these parts keep the local invariant; each lemma names the
  fields it may change.
\<close>

lemma member_step_recovery:
  "wait_good k w \<Longrightarrow> \<not> host_owned (w_state w) \<Longrightarrow> m_wait m \<noteq> None \<Longrightarrow>
     member_step k m (m\<lparr>m_recovery_wait := Some w\<rparr>)"
  by (cases "m_wait m") (auto simp: member_step_def member_good_def running_good_def waits_good_def)

lemma member_step_wait:
  "wait_good k w \<Longrightarrow> member_step k m (m\<lparr>m_wait := Some w\<rparr>)"
  by (cases "m_recovery_wait m")
    (auto simp: member_step_def member_good_def running_good_def waits_good_def)

lemma member_step_stop_status:
  "st = Working \<or> st = Waiting \<or> st = Uncertain \<or> st = m_status m \<or> \<not> m_host_running m \<Longrightarrow>
     member_step k m (m\<lparr>m_stop := s, m_status := st\<rparr>)"
  by (cases "m_recovery_wait m")
    (auto simp: member_step_def member_good_def running_good_def waits_good_def)

lemma member_step_idle: "member_step k m (m\<lparr>m_host_running := False\<rparr>)"
  by (cases "m_recovery_wait m")
    (auto simp: member_step_def member_good_def running_good_def waits_good_def)

lemma member_step_trans: "member_step k m m1 \<Longrightarrow> member_step k m1 m2 \<Longrightarrow> member_step k m m2"
  by (auto simp: member_step_def)

lemma tree_ok_install_recovery:
  assumes ok: "tree_ok t" and w: "wait_good k w" "\<not> host_owned (w_state w)"
  shows "tree_ok (install_recovery k turn w t)"
proof -
  have ok1: "tree_ok (cancel_completion k t)" using ok by simp
  show ?thesis
    unfolding install_recovery_def
    using ok ok1 w
    by (auto simp: Let_def split: option.splits
        intro!: tree_ok_upd_member member_step_stop_status member_step_recovery member_step_wait)
qed

lemma wait_good_compaction_state:
  "wait_good k w \<Longrightarrow> (\<And>c. compaction_good k (f c) = compaction_good k c) \<Longrightarrow>
     wait_good k (w\<lparr>w_compaction := map_option f (w_compaction w)\<rparr>)"
  by (cases "w_compaction w") (auto simp: wait_good_def)

lemma compaction_good_state [simp]:
  "compaction_good k (c\<lparr>e_state := st\<rparr>) = compaction_good k c"
  "compaction_good k (if b then c\<lparr>e_state := st\<rparr> else c) = compaction_good k c"
  by (simp_all add: compaction_good_def)

lemma member_step_settle_stopped:
  assumes "\<not> m_host_running m"
  shows "member_step k m (settle_stopped m)"
proof -
  let ?f = "\<lambda>w. w\<lparr>w_compaction := map_option
      (\<lambda>c. if e_state c = SRegistered then c\<lparr>e_state := SPending\<rparr> else c) (w_compaction w)\<rparr>"
  have "wait_step ?f"
    unfolding wait_step_def
    by (auto intro!: wait_good_compaction_state)
  then have "member_step k m (upd_wait ?f m)" by (rule member_step_upd_wait)
  with assms show ?thesis
    by (cases "m_recovery_wait m"; cases "m_wait m")
      (auto simp: settle_stopped_def member_step_def member_good_def running_good_def
        waits_good_def upd_wait_def Let_def)
qed

lemma effect_good_completion:
  assumes "tree_ok t" and "t_member t k = Some m" and "m_thread m' = k"
  shows "effect_good t (completion_effect m' turn stop)"
  using assms by (auto simp: effect_good_def completion_effect_def create_good_def
      effect_step_def task_of_def zero_effect_def)

lemma tree_ok_host_started:
  assumes ok: "tree_ok t" and turn: "turn \<noteq> ''''" and res: "host_started t k turn = Changed t' r"
  shows "tree_ok t'"
proof -
  have gen: "member_step k m (m\<lparr>m_generation := g\<rparr>)" for m g
    by (cases "m_recovery_wait m")
      (auto simp: member_step_def member_good_def running_good_def waits_good_def)
  have fresh: "member_step k m (start_turn turn (m\<lparr>m_stop := None\<rparr>))" for m
    using turn by (cases "m_recovery_wait m")
      (auto simp: member_step_def member_good_def running_good_def waits_good_def start_turn_def)
  have upd: "tree_ok (upd_member k (\<lambda>m. start_turn turn (m\<lparr>m_stop := None\<rparr>)) s)" if "tree_ok s" for s
    using that fresh by (intro tree_ok_upd_member) auto
  have bump: "tree_ok (upd_member k (\<lambda>m. m\<lparr>m_generation := m_generation m + 1\<rparr>) s)" if "tree_ok s" for s
    using that gen by (intro tree_ok_upd_member) auto
  show ?thesis
    using res ok unfolding host_started_def
    by (auto simp: with_member_def Let_def upd bump split: option.splits if_splits)
qed

lemma tree_ok_host_terminal:
  assumes ok: "tree_ok t" and res: "host_terminal t k turn st failure = Changed t' r"
  shows "tree_ok t'"
proof -
  from res obtain m0 where m0: "t_member t k = Some m0"
    by (auto simp: host_terminal_def outcome_simps)
  define m where "m = m0\<lparr>m_host_running := False\<rparr>"
  define t1 where "t1 = confirm_interrupts (m_thread m) turn (set_member k m t)"
  have ok1: "tree_ok t1"
    unfolding t1_def m_def using ok m0 member_step_idle by (simp add: tree_ok_set_member)
  have m1: "t_member t1 k = Some m" by (simp add: t1_def)
  have thr: "m_thread m = k" using member_simps_of_ok [OF ok1 m1] .
  have "tree_ok (install_recovery k turn (recovery_wait t1 m turn) t1)"
    using ok1 wait_good_recovery [OF thr] by (intro tree_ok_install_recovery) auto
  moreover have "tree_ok (upd_member k settle_stopped t1)"
    using ok1 m1 by (intro tree_ok_upd_member member_step_settle_stopped) (auto simp: m_def)
  moreover have "tree_ok (finish k s msg t1)" for s msg
    using ok1 m1 by (intro tree_ok_finish) (auto simp: m_def)
  moreover have "tree_ok (append_effect (completion_effect m turn stop)
        (upd_member k (\<lambda>m. m\<lparr>m_stop := Some stop, m_status := Working\<rparr>) t1))" for stop
    using ok1 m1 thr
    by (auto intro!: tree_ok_append_effect tree_ok_upd_member member_step_stop_status
        effect_good_completion)
  ultimately show ?thesis
    using res m0 unfolding host_terminal_def
    by (auto simp: Let_def m_def [symmetric] t1_def [symmetric] split: if_splits option.splits)
qed

lemma wait_step_frame [simp]:
  "wait_step (\<lambda>w. w\<lparr>w_resume_handle := h\<rparr>)" "wait_step (\<lambda>w. w\<lparr>w_stop := s\<rparr>)"
  "wait_step (\<lambda>w. w\<lparr>w_metrics := mt\<rparr>)" "wait_step (\<lambda>w. w\<lparr>w_foreign := F w\<rparr>)"
  by (simp_all add: wait_step_def wait_good_def)

lemma tree_ok_upd_wait: "tree_ok t \<Longrightarrow> wait_step f \<Longrightarrow> tree_ok (upd_member k (upd_wait f) t)"
  by (intro tree_ok_upd_member member_step_upd_wait)

lemma member_step_release:
  "member_step k m (m\<lparr>m_stop := s, m_status := (if m_status m = Waiting then Working else m_status m)\<rparr>)"
  by (rule member_step_stop_status) auto

lemma tree_ok_release_member:
  "tree_ok t \<Longrightarrow> tree_ok (upd_member k (\<lambda>m. m\<lparr>m_stop := None,
     m_status := (if m_status m = Waiting then Working else m_status m)\<rparr>) t)"
  by (intro tree_ok_upd_member member_step_release)

lemma member_step_clear_stop: "member_step k m (m\<lparr>m_stop := None\<rparr>)"
  by (cases "m_recovery_wait m")
    (auto simp: member_step_def member_good_def running_good_def waits_good_def)

lemma tree_ok_host_checkpoint:
  "tree_ok t \<Longrightarrow> host_checkpoint t k turn = Changed t' r \<Longrightarrow> tree_ok t'"
  by (auto simp: host_checkpoint_def outcome_simps intro!: tree_ok_upd_member member_step_idle
      split: if_splits)

lemma tree_ok_host_wait_registration:
  "tree_ok t \<Longrightarrow> host_wait_registration t k turn item call c s = Changed t' r \<Longrightarrow> t' = t"
  by (auto simp: host_wait_registration_def outcome_simps split: if_splits option.splits)

lemma tree_ok_host_execution:
  assumes ok: "tree_ok t" and res: "host_execution t k turn item handle ok' = Changed t' r"
  shows "tree_ok t'"
  using res ok unfolding host_execution_def
  by (auto simp: outcome_simps Let_def tree_ok_upd_wait tree_ok_release_member
      split: if_splits option.splits)

lemma tree_ok_host_local_stop:
  assumes ok: "tree_ok t" and res: "host_local_stop t k turn item = Changed t' r"
  shows "tree_ok t'"
proof -
  have "member_step k m ((upd_wait (\<lambda>w. w\<lparr>w_stop := StopCommitted\<rparr>) m)\<lparr>
        m_status := Waiting, m_stop := s\<rparr>)" for m s
    by (cases "m_recovery_wait m"; cases "m_wait m")
      (auto simp: member_step_def member_good_def running_good_def waits_good_def upd_wait_def
        wait_good_def)
  then show ?thesis
    using res ok unfolding host_local_stop_def
    by (auto simp: outcome_simps Let_def intro!: tree_ok_upd_member split: if_splits option.splits)
qed

lemma tree_ok_host_human_input:
  "tree_ok t \<Longrightarrow> host_human_input t k = Changed t' r \<Longrightarrow> tree_ok t'"
  unfolding host_human_input_def
  by (auto simp: outcome_simps Let_def tree_ok_release_member split: if_splits option.splits)

lemma tree_ok_host_human_interrupt:
  assumes ok: "tree_ok t" and res: "host_human_interrupt t k call = Changed t' r"
  shows "tree_ok t'"
proof -
  let ?t1 = "upd_member k (\<lambda>m. m\<lparr>m_stop := None\<rparr>) (cancel_completion k (cancel_subscription k t))"
  have ok1: "tree_ok ?t1"
    using ok member_step_clear_stop by (intro tree_ok_upd_member) auto
  from res obtain m where m: "t_member t k = Some m"
    by (auto simp: host_human_interrupt_def outcome_simps)
  have "t_member ?t1 k = Some ((upd_wait cancel_wait m)\<lparr>m_stop := None\<rparr>)"
    using m ok by (simp add: cancel_subscription_member)
  then have "tree_ok (finish k Interrupted '''' ?t1)" if "\<not> m_host_running m"
    using ok1 that by (intro tree_ok_finish) auto
  with ok1 show ?thesis
    using res m unfolding host_human_interrupt_def
    by (auto simp: Let_def split: if_splits)
qed

lemma tree_ok_host_control:
  "tree_ok t \<Longrightarrow> host_control t k = Changed t' r \<Longrightarrow> tree_ok t'"
  unfolding host_control_def by (auto simp: outcome_simps Let_def split: if_splits option.splits)

text \<open>Every host event with a proper turn keeps the tree well formed.\<close>

definition proper_event :: "host_event \<Rightarrow> bool" where
  "proper_event ev \<longleftrightarrow> (case ev of EvStarted turn \<Rightarrow> turn \<noteq> '''' | _ \<Rightarrow> True)"

lemma tree_ok_transition:
  assumes "tree_ok t" and "proper_event ev" and "transition_host t k ev = Changed t' r"
  shows "tree_ok t'"
  using assms tree_ok_host_wait_registration
  by (cases ev)
    (fastforce simp: proper_event_def dest: tree_ok_host_started tree_ok_host_terminal
      tree_ok_host_checkpoint tree_ok_host_execution tree_ok_host_local_stop
      tree_ok_host_human_input tree_ok_host_human_interrupt tree_ok_host_control)+

section \<open>Closures that write effects behind pointers\<close>

lemma upd_effect_member:
  assumes "t_member (upd_effect r f t) k = Some m'"
  shows "\<exists>m. t_member t k = Some m \<and> m_host_running m' = m_host_running m
     \<and> m_status m' = m_status m \<and> m_task m' = m_task m \<and> m_thread m' = m_thread m
     \<and> m_parent m' = m_parent m \<and> m_turn m' = m_turn m \<and> m_generation m' = m_generation m"
  using assms by (cases r) (auto split: if_splits)

lemma task_of_upd_effect [simp]: "task_of (upd_effect r f t) = task_of t"
  by (cases r) (auto intro!: task_of_upd_member)

lemma ref_good_cong: "task_of t' = task_of t \<Longrightarrow> ref_good t' r e = ref_good t r e"
  by (cases r) (simp_all add: ref_good_def good_cong(1) [of t' t])

lemma tree_ok_cancel_at:
  "tree_ok t \<Longrightarrow> get_effect t r = Some e \<Longrightarrow> tree_ok (cancel_at r t)"
  unfolding cancel_at_def by (rule tree_ok_upd_effect_frame) auto

lemma tree_ok_dispatch_at:
  assumes "tree_ok t" and "dispatch_at r pre t = Changed t' x"
    and "\<And>e. ref_good t r (pre e) = ref_good t r e"
  shows "tree_ok t'"
proof -
  from assms(2) obtain e where e: "get_effect t r = Some e"
    by (auto simp: dispatch_at_def split: option.splits)
  have "ref_good t r e" using get_effect_good [OF assms(1) e] .
  then have "ref_good t r (dispatch_effect mo (pre e))" for mo
    using assms(3) by (cases mo) (auto simp: dispatch_effect_def)
  then have "tree_ok (upd_effect r (\<lambda>_. dispatch_effect mo (pre e)) t)" for mo
    using tree_ok_upd_effect [OF assms(1) e] by auto
  then show ?thesis
    using assms(2) e
    by (auto simp: dispatch_at_def outcome_simps Let_def split: if_splits option.splits)
qed

lemma tree_ok_finish_at:
  assumes ok: "tree_ok (upd_effect r f t)" and m: "t_member t k = Some m" "\<not> m_host_running m"
  shows "tree_ok (finish k st msg (upd_effect r f t))"
  using ok
proof (rule tree_ok_finish)
  fix m' assume "t_member (upd_effect r f t) k = Some m'"
  from upd_effect_member [OF this] m show "\<not> m_host_running m'" by auto
qed

lemma tree_ok_claim_step:
  assumes ok: "tree_ok t" and e: "get_effect t r = Some e0" and res: "claim_step r e t = Changed t' x"
  shows "tree_ok t'"
proof -
  have cancel: "tree_ok (cancel_at r t)" using tree_ok_cancel_at [OF ok e] .
  have conf: "tree_ok (upd_effect r (\<lambda>e. e\<lparr>e_state := SConfirmed\<rparr>) t)"
    by (rule tree_ok_upd_effect_frame [OF ok e]) auto
  have disp: "tree_ok t'" if "dispatch_at r (\<lambda>e. e) t = Changed t' x"
    using tree_ok_dispatch_at [OF ok that] by simp
  have disp': "tree_ok t'" if "dispatch_at r (\<lambda>e. e\<lparr>e_message := s\<rparr>) t = Changed t' x" for s
    using tree_ok_dispatch_at [OF ok that] by simp
  have fin: "tree_ok (finish k st msg (cancel_at r t))"
    if "t_member t k = Some m" "\<not> m_host_running m" for k m st msg
    using tree_ok_finish_at [OF _ that] cancel unfolding cancel_at_def by blast
  have fin': "tree_ok (finish k st msg (upd_effect r (\<lambda>e. e\<lparr>e_state := SConfirmed\<rparr>) t))"
    if "t_member t k = Some m" "\<not> m_host_running m" for k m st msg
    using tree_ok_finish_at [OF conf that] .
  show ?thesis
    using res disp disp' cancel conf fin fin' unfolding claim_step_def Let_def
    by (cases "effect_step e") (auto simp: outcome_simps split: if_splits)
qed

lemma effect_good_withdraw [simp]: "effect_good t e \<Longrightarrow> effect_good t (withdraw_queued k g e)"
  by (auto simp: withdraw_queued_def effect_good_def create_good_def effect_step_def)

lemma get_effect_withdraw:
  "get_effect t r = Some e \<Longrightarrow> \<exists>e'. get_effect (map_effects f t) r = Some e'"
  by (cases r) (auto split: if_splits)

lemma tree_ok_claim_effect:
  assumes ok: "tree_ok t" and res: "claim_effect caller eid t = Changed t' x"
  shows "tree_ok t'"
proof -
  from res obtain r e where r: "effect_ref t caller eid = Some r" and e: "get_effect t r = Some e"
    by (auto simp: claim_effect_def split: option.splits)
  have conf: "tree_ok (upd_effect r (\<lambda>e. e\<lparr>e_state := SConfirmed\<rparr>) t)"
    by (rule tree_ok_upd_effect_frame [OF ok e]) auto
  have wd: "tree_ok (map_effects (withdraw_queued k g) t)" for k g
    using ok by (rule tree_ok_map_effects) simp
  have step: "tree_ok t'" if "claim_step r e t = Changed t' x"
    using tree_ok_claim_step [OF ok e that] .
  have step': "tree_ok t'" if "claim_step r e (map_effects (withdraw_queued k g) t) = Changed t' x" for k g
    using get_effect_withdraw [OF e] tree_ok_claim_step [OF wd _ that] by blast
  show ?thesis
    using res r e ok conf wd step step' unfolding claim_effect_def
    by (auto simp: Let_def split: if_splits option.splits)
qed

section \<open>Acknowledgements\<close>

lemma member_step_settle: "member_step k m (settle_member m)"
  by (cases "m_recovery_wait m"; cases "m_wait m")
    (auto simp: settle_member_def member_step_def member_good_def running_good_def waits_good_def)

lemma tree_ok_settle_recovery:
  "tree_ok t \<Longrightarrow> settle_recovery k a t = Changed t' b \<Longrightarrow> tree_ok t'"
  by (auto simp: settle_recovery_def intro!: tree_ok_set_member member_step_settle
      split: option.splits if_splits)

lemma member_step_status_live:
  "st = Working \<or> st = Waiting \<or> st = Uncertain \<or> \<not> m_host_running m \<Longrightarrow>
     member_step k m (m\<lparr>m_status := st\<rparr>)"
  by (cases "m_recovery_wait m")
    (auto simp: member_step_def member_good_def running_good_def waits_good_def)

lemma member_step_failed_status: "member_step k m (failed_status e rc m)"
  by (cases "m_recovery_wait m")
    (auto simp: failed_status_def member_step_def member_good_def running_good_def waits_good_def
      Let_def)

lemma ref_good_set_child:
  "ref_good t r e \<Longrightarrow> effect_step e = KCreate \<Longrightarrow> ref_good t r (set_child rc e)"
  by (auto simp: ref_good_def set_child_def effect_good_def create_good_def effect_step_def
      wake_good_def compaction_good_def split: eref.splits if_splits)

lemma tree_ok_ack_failed:
  assumes ok: "tree_ok t" and e: "get_effect t r = Some e" and res: "ack_failed r e rc t = Changed t' x"
  shows "tree_ok t'"
proof -
  define e1 where "e1 = (if effect_step e = KCreate then set_child rc e else e)\<lparr>
     e_error := rc_error rc, e_state := (if rc_uncertain rc then SUncertain else SFailed)\<rparr>"
  define t2 where "t2 = upd_member (e_target e) (failed_status e rc) (upd_effect r (\<lambda>_. e1) t)"
  have "ref_good t r e1"
    using get_effect_good [OF ok e] ref_good_set_child [of t r e rc] by (auto simp: e1_def)
  then have "tree_ok (upd_effect r (\<lambda>_. e1) t)" by (rule tree_ok_upd_effect [OF ok e])
  then have ok2: "tree_ok t2"
    unfolding t2_def by (intro tree_ok_upd_member member_step_failed_status)
  have fin: "tree_ok (finish (e_target e) Failed (rc_error rc) t2)"
    if "t_member t2 (e_target e) = Some m" "\<not> m_host_running m" for m
    using ok2 that by (intro tree_ok_finish) auto
  have unc: "tree_ok (set_member (e_target e) (m\<lparr>m_status := Uncertain\<rparr>) t2)"
    if "t_member t2 (e_target e) = Some m" for m
    using tree_ok_set_member [OF ok2 that member_step_status_live] by simp
  show ?thesis
    using res ok2 fin unc
    unfolding ack_failed_def Let_def e1_def [symmetric] t2_def [symmetric]
    by (auto split: if_splits option.splits dest: tree_ok_settle_recovery)
qed

text \<open>A new child enters the tree below its caller.\<close>

lemma effect_good_extend:
  "effect_good t e \<Longrightarrow> (\<And>k p. task_of t k = Some p \<Longrightarrow> task_of t' k = Some p) \<Longrightarrow> effect_good t' e"
  by (auto simp: effect_good_def)

lemma tree_ok_insert:
  assumes ok: "tree_ok t" and new: "t_member t k = None" "k \<noteq> ''''"
    and good: "member_good k m" "lineage_good t m" "m_parent m \<noteq> ''''"
  shows "tree_ok (set_member k m t)"
proof -
  have ext: "task_of (set_member k m t) j = Some p" if "task_of t j = Some p" for j p
    using that new by (auto simp: task_of_def)
  have "effect_good (set_member k m t) e" if "e \<in> set (t_effects t)" for e
    using effect_good_extend [OF tree_okD(5) [OF ok that] ext] by simp
  moreover have "lineage_good (set_member k m t) m'" if "lineage_good t m'" for m'
    using that ext by (auto simp: lineage_good_def split: if_splits)
  ultimately show ?thesis
    using ok new good unfolding tree_ok_def by auto
qed

lemma child_member_good: "member_good (rc_thread rc) (child_member caller rc c)"
  by (simp add: child_member_def member_good_def running_good_def waits_good_def zero_member_def)

end
