(* ===== verification/Control_Reachable.thy ===== *)
theory Control_Reachable
  imports Control_Invariant
begin

text \<open>
  Every operation of thread control as one step of a logical tree, and the trees reachable
  by such steps.  The invariant \<open>tree_ok\<close> holds in every reachable tree.
\<close>

section \<open>Confirmed acknowledgements keep the invariant\<close>

text \<open>A tree in which at most one member was replaced, with its wait and place kept.\<close>

definition member_change :: "tree \<Rightarrow> tree \<Rightarrow> bool" where
  "member_change t t1 \<longleftrightarrow> t1 = t
     \<or> (\<exists>k m m'. t_member t k = Some m \<and> member_step k m m' \<and> m_wait m' = m_wait m
          \<and> t1 = set_member k m' t)"

lemma member_change_refl [simp]: "member_change t t"
  by (simp add: member_change_def)

lemma member_change_set:
  "t_member t k = Some m \<Longrightarrow> member_step k m m' \<Longrightarrow> m_wait m' = m_wait m \<Longrightarrow>
     member_change t (set_member k m' t)"
  unfolding member_change_def by blast

lemma member_change_get:
  assumes "member_change t t1" and "get_effect t r = Some e"
  shows "get_effect t1 r = Some e"
  using assms by (cases r) (auto simp: member_change_def bind_eq_Some_conv split: if_splits)

lemma tree_ok_member_change:
  assumes "tree_ok t" and "member_change t t1"
  shows "tree_ok t1" "task_of t1 = task_of t"
  using assms tree_ok_set_member
  by (auto simp: member_change_def member_step_def intro!: task_of_set_member)

lemma ref_good_phase:
  assumes "ref_good t r e" and "effect_step e = KAssignmentInput \<and> ph = KAdmit
      \<or> effect_step e = KAdmit \<and> ph = KInitial"
  shows "ref_good t r (e\<lparr>e_phase := ph\<rparr>)"
  using assms
  by (auto simp: ref_good_def effect_good_def create_good_def effect_step_def
      wake_good_def compaction_good_def split: eref.splits if_splits)

lemma confirm_step_keeps:
  assumes res: "confirm_step caller st e rc t = Inr (e1, t1)"
    and st: "st = effect_step e" "st \<noteq> KCreate" and good: "ref_good t r e"
  shows "member_change t t1 \<and> ref_good t r e1"
proof -
  have admit: "member_change t (set_member k (m\<lparr>m_audience_admitted := True\<rparr>) t)"
    if "t_member t k = Some m" for k m
    by (rule member_change_set [OF that], cases "m_recovery_wait m")
      (auto simp: member_step_def member_good_def running_good_def waits_good_def)
  have started: "member_change t (set_member k (start_turn (rc_turn rc) m) t)"
    if "t_member t k = Some m" "rc_turn rc \<noteq> ''''" for k m
    by (rule member_change_set [OF that(1)], cases "m_recovery_wait m")
      (use that in \<open>auto simp: member_step_def member_good_def running_good_def waits_good_def\<close>)
  have waiting: "member_change t (set_member k (m\<lparr>m_status := Waiting\<rparr>) t)"
    if "t_member t k = Some m" for k m
    by (rule member_change_set [OF that member_step_status_live]) auto
  have phase: "ref_good t r (e\<lparr>e_phase := KAdmit\<rparr>)" if "st = KAssignmentInput"
    using ref_good_phase [OF good] that st by simp
  have phase': "ref_good t r (e\<lparr>e_phase := KInitial\<rparr>)" if "st = KAdmit"
    using ref_good_phase [OF good] that st by simp
  show ?thesis
    using res st(2) good admit started waiting phase phase' unfolding confirm_step_def Let_def
    by (cases st) (auto split: if_splits option.splits)
qed

lemma confirm_create:
  assumes "confirm_step caller KCreate e rc t = Inr (e1, t1)"
  obtains c where "e_child e = Some c" "rc_thread rc \<noteq> ''''" "t_member t (rc_thread rc) = None"
    "e1 = (set_child rc e)\<lparr>e_phase := KAssignmentInput, e_state := SPending\<rparr>"
    "t1 = set_member (rc_thread rc) (child_member caller rc c) t"
  using assms by (auto simp: confirm_step_def split: if_splits option.splits)

text \<open>A creation enters its child below its caller.\<close>

lemma confirm_create_ok:
  assumes ok: "tree_ok t" and good: "ref_good t r e" and caller: "e_caller e = caller"
    and st: "effect_step e = KCreate" and res: "confirm_step caller KCreate e rc t = Inr (e1, t1)"
  shows "tree_ok t1 \<and> ref_good t1 r e1"
proof -
  from confirm_create [OF res] obtain c where c: "e_child e = Some c" "rc_thread rc \<noteq> ''''"
      "t_member t (rc_thread rc) = None"
      "e1 = (set_child rc e)\<lparr>e_phase := KAssignmentInput, e_state := SPending\<rparr>"
      "t1 = set_member (rc_thread rc) (child_member caller rc c) t" .
  have intree: "\<exists>i. r = InTree i" "e_kind e = KCreate"
    using good st by (auto simp: ref_good_def effect_step_def wake_good_def compaction_good_def
        effect_good_def create_good_def split: eref.splits if_splits)
  with good c(1) caller obtain p where p: "task_of t caller = Some p" "prefix (p @ ''/'') (c_task c)"
    by (auto simp: ref_good_def effect_good_def create_good_def)
  with tree_okD(2) [OF ok] have "caller \<noteq> ''''" by (auto simp: task_of_def)
  with p have t1: "tree_ok t1"
    unfolding c(5) using ok c
    by (intro tree_ok_insert child_member_good)
      (auto simp: lineage_good_def child_member_def zero_member_def)
  have ext: "task_of t1 j = Some q" if "task_of t j = Some q" for j q
    using that c(3,5) by (auto simp: task_of_def)
  have "effect_good t e" using good intree by (auto simp: ref_good_def)
  then have "effect_good t1 e1"
    using ext intree(2) c by (auto simp: effect_good_def create_good_def effect_step_def
        set_child_def task_of_def)
  with t1 intree show ?thesis by (auto simp: ref_good_def)
qed

text \<open>A confirmed acknowledgement writes one effect after the step, then settles recovery.\<close>

lemma ack_confirmed_shape:
  assumes ok: "tree_ok t" and e: "get_effect t r = Some e" and caller: "e_caller e = caller"
    and res: "ack_confirmed api caller r e rc t = Changed t' x"
  obtains e0 e1 e2 t1 where "e0 = e\<lparr>e_error := rc_error rc, e_state := SConfirmed\<rparr>"
    "confirm_step caller (effect_step e) e0 rc t = Inr (e1, t1)" "get_effect t1 r = Some e"
    "e2 = e1 \<or> e2 = e1\<lparr>e_state := SPaused\<rparr>" "tree_ok (upd_effect r (\<lambda>_. e2) t1)"
    "settle_recovery (e_target e) x (upd_effect r (\<lambda>_. e2) t1) = Changed t' x"
proof -
  define e0 where "e0 = e\<lparr>e_error := rc_error rc, e_state := SConfirmed\<rparr>"
  have good: "ref_good t r e0" using get_effect_good [OF ok e] by (simp add: e0_def)
  have st: "effect_step e = effect_step e0" "e_caller e0 = caller"
    using caller by (simp_all add: e0_def effect_step_def)
  from res obtain e1 t1 where c: "confirm_step caller (effect_step e) e0 rc t = Inr (e1, t1)"
    by (auto simp: ack_confirmed_def e0_def Let_def split: if_splits sum.splits)
  have *: "tree_ok t1 \<and> ref_good t1 r e1 \<and> get_effect t1 r = Some e"
  proof (cases "effect_step e = KCreate")
    case True
    note ok1 = confirm_create_ok [OF ok good st(2) _ c [unfolded True]]
    have "get_effect t1 r = Some e"
      by (rule confirm_create [OF c [unfolded True]])
        (use e in \<open>cases r; auto simp: bind_eq_Some_conv split: if_splits\<close>)
    with ok1 True st show ?thesis by simp
  next
    case False
    from confirm_step_keeps [OF c st(1) False good] have "member_change t t1" "ref_good t r e1"
      by auto
    with tree_ok_member_change [OF ok this(1)] member_change_get [OF this(1) e]
    show ?thesis by (simp add: ref_good_cong [of t1 t])
  qed
  then have upd: "tree_ok (upd_effect r (\<lambda>_. e1) t1)" "tree_ok (upd_effect r (\<lambda>_. e1\<lparr>e_state := SPaused\<rparr>) t1)"
    by (auto intro!: tree_ok_upd_effect)
  define e2 where "e2 = (if e_kind e1 = KCreate \<and> e_state e1 = SPending
      \<and> (case t_member t1 (e_target e) of None \<Rightarrow> False | Some m \<Rightarrow> m_status m = Paused)
      then e1\<lparr>e_state := SPaused\<rparr> else e1)"
  have "settle_recovery (e_target e) (confirmed_features api (effect_step e) e0)
      (upd_effect r (\<lambda>_. e2) t1) = Changed t' x"
    using res unfolding ack_confirmed_def e0_def [symmetric] Let_def c
    by (simp only: sum.case prod.case e2_def [symmetric] outcome.distinct split: if_splits)
  then have "settle_recovery (e_target e) x (upd_effect r (\<lambda>_. e2) t1) = Changed t' x"
    by (auto simp: settle_recovery_def split: option.splits if_splits)
  moreover have "tree_ok (upd_effect r (\<lambda>_. e2) t1)" "e2 = e1 \<or> e2 = e1\<lparr>e_state := SPaused\<rparr>"
    using upd by (simp_all add: e2_def)
  ultimately show ?thesis using that [OF e0_def c] * by blast
qed

lemma tree_ok_ack_confirmed:
  assumes "tree_ok t" and "get_effect t r = Some e" and "e_caller e = caller"
    and "ack_confirmed api caller r e rc t = Changed t' x"
  shows "tree_ok t'"
  by (rule ack_confirmed_shape [OF assms]) (erule (1) tree_ok_settle_recovery)

lemma effect_ref_caller:
  assumes ok: "tree_ok t" and r: "effect_ref t caller eid = Some r" and e: "get_effect t r = Some e"
  shows "e_caller e = caller"
proof (cases r)
  case (InTree i)
  with effect_ref_InTree [of t caller eid i] r e show ?thesis by (auto split: if_splits)
next
  case (InWait k)
  with get_effect_good [OF ok e] effect_ref_key(1) [of t caller eid k] r show ?thesis
    by (simp add: ref_good_def wake_good_def)
next
  case (InCompaction k)
  with get_effect_good [OF ok e] effect_ref_key(2) [of t caller eid k] r show ?thesis
    by (simp add: ref_good_def compaction_good_def)
qed

lemma tree_ok_effect_acknowledged:
  assumes ok: "tree_ok t" and res: "effect_acknowledged api caller eid rc t = Changed t' x"
  shows "tree_ok t'"
proof -
  from res obtain r e where r: "effect_ref t caller eid = Some r" and e: "get_effect t r = Some e"
    by (auto simp: effect_acknowledged_def split: option.splits)
  with effect_ref_caller [OF ok r e] res r e ok show ?thesis
    by (auto simp: effect_acknowledged_def split: if_splits
        dest: tree_ok_ack_failed tree_ok_ack_confirmed)
qed

section \<open>The remaining closures\<close>

lemma tree_ok_request_started:
  "tree_ok t \<Longrightarrow> request_started caller root t = Changed t' x \<Longrightarrow> tree_ok t'"
  by (auto simp: request_started_def outcome_simps dest: tree_ok_host_started)

lemma tree_ok_answer_completed:
  assumes "tree_ok t" and "answer_completed thread turn item txt t = Changed t' x"
  shows "tree_ok t'"
proof -
  have "member_step k m (m\<lparr>m_answer_items := a, m_last_answer := b\<rparr>)" for k m a b
    by (cases "m_recovery_wait m")
      (auto simp: member_step_def member_good_def running_good_def waits_good_def)
  with assms show ?thesis
    by (auto simp: answer_completed_def outcome_simps intro!: tree_ok_set_member split: if_splits)
qed

lemma tree_ok_consume_all:
  "tree_ok t \<Longrightarrow> consume_all cs b t = (b', t') \<Longrightarrow> tree_ok t'"
proof (induction cs b t rule: consume_all.induct)
  case (1 changed t)
  then show ?case by simp
next
  case (2 c cs changed t)
  have "tree_ok (upd_effect r (\<lambda>e. e\<lparr>e_consumed := True\<rparr>) t)" if "get_effect t r = Some e" for r e
    using tree_ok_upd_effect_frame [OF 2(5) that] by simp
  with 2 show ?case by (auto split: option.splits if_splits)
qed

lemma tree_ok_input_consumed:
  "tree_ok t \<Longrightarrow> input_consumed caller cs t = Changed t' x \<Longrightarrow> tree_ok t'"
  by (auto simp: input_consumed_def outcome_simps dest: tree_ok_consume_all
      split: prod.splits if_splits)

lemma tree_ok_checkpoint_wait:
  "tree_ok t \<Longrightarrow> checkpoint_wait thread turn t = Changed t' x \<Longrightarrow> tree_ok t'"
  by (auto simp: checkpoint_wait_def outcome_simps dest: tree_ok_host_checkpoint)

lemma tree_ok_host_completed:
  "tree_ok t \<Longrightarrow> host_completed thread turn st failure t = Changed t' x \<Longrightarrow> tree_ok t'"
  by (auto simp: host_completed_def outcome_simps dest: tree_ok_host_terminal)

lemma tree_ok_pause_thread:
  "tree_ok t \<Longrightarrow> pause_thread thread t = Changed t' x \<Longrightarrow> tree_ok t'"
  by (auto simp: pause_thread_def outcome_simps)

lemma tree_ok_human_input_committed:
  assumes "tree_ok t" and "human_input_committed thread turn eid t = Changed t' x"
  shows "tree_ok t'"
proof -
  have "tree_ok (upd_effect r (\<lambda>e. e\<lparr>e_state := SConfirmed, e_turn := turn, e_error := ''''\<rparr>) t)"
    if "get_effect t r = Some e" for r e
    by (rule tree_ok_upd_effect_frame [OF assms(1) that]) simp
  moreover from assms(2) obtain m where "t_member t thread = Some m"
    by (auto simp: human_input_committed_def outcome_simps)
  ultimately show ?thesis
    using assms by (auto simp: human_input_committed_def guard_Changed split: option.splits if_splits)
qed

lemma tree_ok_human_interrupt:
  "tree_ok t \<Longrightarrow> human_interrupt thread wid t = Changed t' x \<Longrightarrow> tree_ok t'"
  by (auto simp: human_interrupt_def outcome_simps dest: tree_ok_host_human_interrupt)

lemma tree_ok_execution:
  "tree_ok t \<Longrightarrow> execution thread turn item handle b t = Changed t' x \<Longrightarrow> tree_ok t'"
  by (auto simp: execution_def outcome_simps dest: tree_ok_host_execution)

lemma tree_ok_claim_local_stop:
  "tree_ok t \<Longrightarrow> claim_local_stop thread turn item t = Changed t' x \<Longrightarrow> tree_ok t'"
  by (auto simp: claim_local_stop_def dest: tree_ok_host_local_stop)

lemma tree_ok_reject_compaction:
  assumes "tree_ok t" and "reject_compaction thread turn item reason t = Changed t' x"
  shows "tree_ok t'"
proof -
  have "wait_step (\<lambda>w. w\<lparr>w_compaction := map_option
      (\<lambda>c. c\<lparr>e_state := SFailed, e_error := reason\<rparr>) (w_compaction w)\<rparr>)"
    unfolding wait_step_def by (auto intro!: wait_good_compaction_state simp: compaction_good_def)
  moreover from assms(2) obtain m where "t_member t thread = Some m"
    by (auto simp: reject_compaction_def outcome_simps)
  ultimately show ?thesis
    using assms by (auto simp: reject_compaction_def tree_ok_upd_wait split: option.splits if_splits)
qed

text \<open>Outcome selection claims effects and writes fields of the wait the invariant does not read.\<close>

definition wait_frame :: "wait \<Rightarrow> wait \<Rightarrow> bool" where
  "wait_frame w w' \<longleftrightarrow> w_effect w' = w_effect w \<and> w_compaction w' = w_compaction w"

lemma tree_ok_claim_index [simp]: "tree_ok t \<Longrightarrow> tree_ok (claim_index i wid t)"
  unfolding claim_index_def
proof (rule tree_ok_set_effects)
  assume ok: "tree_ok t"
  show "\<forall>e \<in> set ((t_effects t)[i := (t_effects t ! i)\<lparr>e_claimed_by := wid\<rparr>]). effect_good t e"
  proof (cases "i < length (t_effects t)")
    case True
    with ok show ?thesis
      by (auto dest!: subsetD [OF set_update_subset_insert] simp: tree_okD)
  next
    case False
    with ok show ?thesis by (simp add: list_update_beyond tree_okD)
  qed
qed

lemma claim_index_members [simp]: "t_members (claim_index i wid t) = t_members t"
  by (simp add: claim_index_def)

lemma claim_outcomes_keeps:
  "tree_ok t \<Longrightarrow> claim_outcomes outs tids t w = (t', w') \<Longrightarrow>
     tree_ok t' \<and> t_members t' = t_members t \<and> wait_frame w w'"
proof (induction tids arbitrary: t w)
  case Nil
  then show ?case by (simp add: wait_frame_def)
next
  case (Cons tid tids)
  show ?case
  proof (cases "alist_get outs tid")
    case (Some i)
    with Cons.prems Cons.IH [of "claim_index i (w_id w) t" w] show ?thesis by simp
  next
    case None
    show ?thesis
    proof (cases "wait_member t w tid")
      case (Some m)
      with None Cons.prems Cons.IH [of t "w\<lparr>w_terminals := w_terminals w @ [stopped_event w m]\<rparr>"]
      show ?thesis by (simp add: wait_frame_def)
    qed (use None Cons.prems Cons.IH [of t w] in simp)
  qed
qed

lemma select_wait_outcome_keeps:
  assumes "tree_ok t" and "select_wait_outcome t w = (found, t', w')"
  shows "tree_ok t' \<and> t_members t' = t_members t \<and> wait_frame w w'"
proof (cases "w_mode w = WaitAll")
  case True
  with assms show ?thesis
    by (auto simp: select_wait_outcome_def select_all_wait_outcomes_def wait_frame_def
        split: sum.splits prod.splits if_splits dest: claim_outcomes_keeps)
next
  case False
  with assms show ?thesis
    by (auto simp: select_wait_outcome_def wait_frame_def split: option.splits if_splits)
qed

lemma wait_good_frame: "wait_frame w w' \<Longrightarrow> wait_good k w \<Longrightarrow> wait_good k w'"
  by (simp add: wait_frame_def wait_good_def)

lemma tree_ok_install_wait:
  "tree_ok t \<Longrightarrow> wait_good k w \<Longrightarrow> tree_ok (upd_member k (\<lambda>m. m\<lparr>m_wait := Some w\<rparr>) t)"
  by (intro tree_ok_upd_member member_step_wait)

lemma timed_wait_frame: "timed_wait m q w = Inr w' \<Longrightarrow> wait_frame w w'"
  by (auto simp: timed_wait_def wait_frame_def Let_def split: option.splits if_splits)

lemma wait_good_new: "wait_good (i_thread caller) (new_wait caller q mode gen sel)"
  by (simp add: new_wait_def wait_good_def wake_good_def compaction_good_def)

lemma first_state_keeps:
  assumes ok: "tree_ok t" and w: "wait_good k w" and res: "first_state q t w = (t', w')"
  shows "tree_ok t' \<and> wait_good k w'"
proof -
  obtain found t1 w1 where sel: "select_wait_outcome t w = (found, t1, w1)"
    using prod_cases3 by blast
  then have "tree_ok t1" "wait_good k w1"
    using select_wait_outcome_keeps [OF ok sel] wait_good_frame w by auto
  with ok w res sel show ?thesis
    by (cases found) (auto simp: first_state_def split: if_splits)
qed

lemma tree_ok_register_wait:
  assumes ok: "tree_ok t" and res: "register_wait caller q t = Changed t' x"
  shows "tree_ok t'"
proof -
  have step: "tree_ok (upd_member (i_thread caller) (\<lambda>m. m\<lparr>m_wait := Some w2\<rparr>) t2)"
    if "timed_wait m q (new_wait caller q mode gen sel) = Inr w" "first_state q t w = (t2, w2)"
    for m mode gen sel w t2 w2
    using first_state_keeps [OF ok wait_good_frame [OF timed_wait_frame [OF that(1)] wait_good_new] that(2)]
    by (simp add: tree_ok_install_wait)
  from res show ?thesis
    unfolding register_wait_def with_admitted_def
    by (auto simp: Let_def step dest!: tree_ok_host_wait_registration [OF ok]
        split: if_splits sum.splits outcome.splits option.splits prod.splits)
qed

lemma tree_ok_prepare_wake:
  assumes ok: "tree_ok t" and res: "prepare_wake thread now t = Changed t' x"
  shows "tree_ok t'"
proof -
  from res obtain m w where m: "t_member t thread = Some m" and w: "m_wait m = Some w"
    by (auto simp: prepare_wake_def outcome_simps split: option.splits)
  have good: "wait_good thread w"
    using tree_okD(3) [OF ok m] w by (auto simp: member_good_def waits_good_def)
  have step: "tree_ok (upd_member thread (\<lambda>m. m\<lparr>m_wait := Some (wait_set_state SQueued w1)\<rparr>) t1)"
    if *: "(if w_standalone w then (True, t, w) else select_wait_outcome t w) = (found, t1, w1)"
    for found t1 w1
  proof (cases "w_standalone w")
    case False
    with * have "select_wait_outcome t w = (found, t1, w1)" by simp
    from select_wait_outcome_keeps [OF ok this] wait_good_frame good show ?thesis
      by (auto intro!: tree_ok_install_wait)
  qed (use * ok good in \<open>auto intro!: tree_ok_install_wait\<close>)
  from res m w show ?thesis
    by (auto simp: prepare_wake_def Let_def step split: if_splits prod.splits)
qed

lemma member_step_capacity:
  "member_step k m (m\<lparr>m_capacity_retry_seconds := s, m_capacity_retry_generation := g\<rparr>)"
  "member_step k m (m\<lparr>m_capacity_retry_seconds := s\<rparr>)"
  by (cases "m_recovery_wait m",
      auto simp: member_step_def member_good_def running_good_def waits_good_def)+

lemma provider_wait_good:
  "wait_good k (provider_wait m k turn d c wid)" "\<not> host_owned (w_state (provider_wait m k turn d c wid))"
  by (simp_all add: provider_wait_def wait_good_def wake_good_def zero_wait_def)

lemma tree_ok_wait_for_provider:
  assumes ok: "tree_ok t"
    and res: "wait_for_provider backoff thread turn d c now t = Changed t' x"
  shows "tree_ok t'"
proof -
  from res obtain m0 where m0: "t_member t thread = Some m0"
    by (auto simp: wait_for_provider_def outcome_simps)
  have t1: "tree_ok (set_member thread m t)"
    if "m = m0 \<or> (\<exists>s g. m = m0\<lparr>m_capacity_retry_seconds := s, m_capacity_retry_generation := g\<rparr>)" for m
    using that by (auto intro!: tree_ok_set_member [OF ok m0] member_step_capacity member_step_refl)
  have stop: "tree_ok (upd_member thread (\<lambda>m. m\<lparr>m_stop := s, m_status := Waiting\<rparr>) t2)"
    if "tree_ok t2" for t2 s
    using that by (intro tree_ok_upd_member member_step_stop_status) auto
  have rec: "tree_ok (upd_member thread (\<lambda>m. m\<lparr>m_recovery_wait := Some (provider_wait m1 thread tu d' c' wid)\<rparr>)
      (set_member thread m t))"
    if "wait_host_owned m" "tree_ok (set_member thread m t)" for m m1 tu d' c' wid
    using that provider_wait_good
    by (intro tree_ok_upd_member member_step_recovery) (auto simp: wait_host_owned_def split: option.splits)
  have inst: "tree_ok (upd_member thread (\<lambda>m. m\<lparr>m_wait := Some (provider_wait m1 thread tu d' c' wid)\<rparr>)
      (cancel_subscription thread (set_member thread m t)))"
    if "tree_ok (set_member thread m t)" for m m1 tu d' c' wid
    using that provider_wait_good by (intro tree_ok_install_wait) auto
  show ?thesis
    using res m0 unfolding wait_for_provider_def
    by (auto simp: Let_def intro!: stop rec inst t1 split: if_splits)
qed

lemma tree_ok_provider_recovered:
  assumes "tree_ok t" and "provider_recovered thread turn t = Changed t' x"
  shows "tree_ok t'"
  using assms member_step_capacity
  by (auto simp: provider_recovered_def outcome_simps intro!: tree_ok_set_member split: if_splits)

text \<open>A new work generation is only reserved for a member with no running turn.\<close>

lemma member_step_reserve_work:
  assumes "\<not> reserved m \<or> m_status m = Paused"
  shows "member_step k m (reserve_work m)" "member_step k m ((reserve_work m)\<lparr>m_stop := None\<rparr>)"
  using assms
  by (cases "m_recovery_wait m"; auto simp: member_step_def member_good_def running_good_def
      waits_good_def reserve_work_def reserved_def)+

lemma effect_good_resume_creation: "effect_good t e \<Longrightarrow> effect_good t (resume_creation th e)"
  by (simp add: resume_creation_def)

lemma effect_good_action:
  assumes "t_member t (i_thread caller) \<noteq> None" and "t_member t k \<noteq> None" and "m_thread r = k"
    and "kind = KMessage \<or> kind = KFollowup \<or> kind = KInterrupt"
  shows "effect_good t (action_effect caller g r kind msg)"
  using assms
  by (auto simp: effect_good_def action_effect_def create_good_def effect_step_def task_of_def)

text \<open>The host-event handlers that a closure runs on the way keep the members' keys and tasks.\<close>

lemma host_control_member:
  assumes "tree_ok t" and "host_control t k = Changed t1 x"
  shows "(t_member t1 j = None) = (t_member t j = None)"
proof -
  from assms(2) obtain m where "t_member t k = Some m"
    by (auto simp: host_control_def outcome_simps)
  with assms show ?thesis
    by (auto simp: host_control_def cancel_subscription_member Let_def split: option.splits if_splits)
qed

lemma control_receiver_ok:
  assumes ok: "tree_ok t" and res: "control_receiver k kind t = Changed t' x"
  shows "tree_ok t' \<and> (t_member t' j = None) = (t_member t j = None)"
proof (cases "kind = KMessage")
  case True
  with assms show ?thesis by (simp add: control_receiver_def)
next
  case False
  with res obtain t1 y m where t1: "host_control t k = Changed t1 y" "t_member t1 k = Some m"
    and t': "(if kind = KFollowup \<and> (\<not> reserved m \<or> m_status m = Paused)
       then Changed (set_member k ((reserve_work m)\<lparr>m_stop := None\<rparr>) t1) () else Changed t1 ())
      = Changed t' x"
    by (auto simp: control_receiver_def outcome_simps)
  have ok1: "tree_ok t1" using tree_ok_host_control [OF ok t1(1)] .
  then show ?thesis
    using t1 t' host_control_member [OF ok t1(1), of j] host_control_member [OF ok t1(1), of k]
    by (auto split: if_splits intro!: tree_ok_set_member member_step_reserve_work)
qed

lemma admitted_SomeD: "admitted t caller = Inr m \<Longrightarrow> t_member t (i_thread caller) = Some m"
  by (auto simp: admitted_def split: option.splits if_splits)

lemma with_admitted_Changed [outcome_simps]:
  "with_admitted t caller f = Changed t' a \<longleftrightarrow> (\<exists>m. admitted t caller = Inr m \<and> f m = Changed t' a)"
  by (auto simp: with_admitted_def split: sum.splits)

text \<open>What a successful, first \<open>PrepareAction\<close> has found and written.\<close>

lemma prepare_action_Changed:
  assumes "prepare_action caller target kind msg t = Changed t' e"
  obtains m receiver t1 t2 r where "admitted t caller = Inr m" "resolve t m target = Inr receiver"
    "kind = KMessage \<or> kind = KFollowup \<or> kind = KInterrupt"
    "tree_effect t (i_thread caller) (i_call caller) = None"
    "t1 = t \<or> t1 = map_effects (resume_creation (m_thread receiver)) t"
    "control_receiver (m_thread receiver) kind t1 = Changed t2 ()"
    "t_member t2 (m_thread receiver) = Some r"
    "e = action_effect caller (m_generation m) r kind msg" "t' = append_effect e t2"
proof -
  from assms obtain m where m: "admitted t caller = Inr m"
    by (auto simp: prepare_action_def outcome_simps)
  from assms [unfolded prepare_action_def with_admitted_def m, simplified] obtain receiver where
    r: "resolve t m target = Inr receiver" and
    k: "kind = KMessage \<or> kind = KFollowup \<or> kind = KInterrupt"
    by (auto split: if_splits sum.splits)
  define t1 where "t1 = (if kind = KFollowup \<and> m_status receiver = Paused
      then map_effects (resume_creation (m_thread receiver)) t else t)"
  have t1: "t1 = t \<or> t1 = map_effects (resume_creation (m_thread receiver)) t"
    by (simp add: t1_def)
  have te: "tree_effect t (i_thread caller) (i_call caller) = None"
    using assms m r by (auto simp: prepare_action_def with_admitted_def split: if_splits option.splits)
  have "obind (control_receiver (m_thread receiver) kind t1) zero_effect (\<lambda>t2 _.
      with_member t2 (m_thread receiver) (\<lambda>r.
        let e = action_effect caller (m_generation m) r kind msg in Changed (append_effect e t2) e))
      = Changed t' e"
    using assms m r te unfolding prepare_action_def with_admitted_def t1_def
    by (auto simp: Let_def split: if_splits)
  then obtain t2 rr where "control_receiver (m_thread receiver) kind t1 = Changed t2 ()"
      "t_member t2 (m_thread receiver) = Some rr"
      "e = action_effect caller (m_generation m) rr kind msg" "t' = append_effect e t2"
    by (auto simp: outcome_simps Let_def)
  with that m r k te t1 show ?thesis by blast
qed

lemma tree_ok_prepare_action:
  assumes ok: "tree_ok t" and res: "prepare_action caller target kind msg t = Changed t' e"
  shows "tree_ok t'"
proof (rule prepare_action_Changed [OF res])
  fix m receiver t1 t2 r
  assume m: "admitted t caller = Inr m"
    and k: "kind = KMessage \<or> kind = KFollowup \<or> kind = KInterrupt"
    and t1: "t1 = t \<or> t1 = map_effects (resume_creation (m_thread receiver)) t"
    and t2: "control_receiver (m_thread receiver) kind t1 = Changed t2 ()"
    and r: "t_member t2 (m_thread receiver) = Some r"
    and e: "e = action_effect caller (m_generation m) r kind msg" "t' = append_effect e t2"
  have ok1: "tree_ok t1"
    using t1 ok by (auto intro!: tree_ok_map_effects effect_good_resume_creation)
  note ok2 = control_receiver_ok [OF ok1 t2]
  have "t_member t2 (i_thread caller) \<noteq> None"
    using ok2 admitted_SomeD [OF m] t1 by auto
  then have "effect_good t2 e"
    unfolding e(1) using r k member_simps_of_ok [OF _ r] ok2
    by (intro effect_good_action) auto
  with ok2 show ?thesis unfolding e(2) by (simp add: tree_ok_append_effect)
qed

lemma tree_ok_reserve_spawn:
  assumes ok: "tree_ok t" and res: "reserve_spawn item_id caller q t = Changed t' e"
  shows "tree_ok t'"
proof -
  from res obtain m where m: "admitted t caller = Inr m"
    by (auto simp: reserve_spawn_def outcome_simps)
  have "effect_good t (spawn_effect item_id caller m (m_task m @ ''/'' @ sr_name q) q)"
    using admitted_SomeD [OF m]
    by (auto simp: effect_good_def spawn_effect_def create_good_def effect_step_def task_of_def)
  with res m ok show ?thesis
    by (auto simp: reserve_spawn_def with_admitted_def Let_def tree_ok_append_effect
        split: if_splits option.splits)
qed

lemma tree_ok_receive_message:
  assumes ok: "tree_ok t" and res: "receive_message peer target call msg t = Changed t' e"
  shows "tree_ok t'"
proof -
  from res obtain m where m: "t_member t target = Some m"
    by (auto simp: receive_message_def outcome_simps)
  with res ok show ?thesis
    by (auto simp: receive_message_def Let_def effect_good_def create_good_def effect_step_def
        task_of_def intro!: tree_ok_append_effect split: if_splits option.splits)
qed

lemma tree_ok_refresh_foreign_wait:
  assumes ok: "tree_ok t" and res: "refresh_foreign_wait thread wid state t = Changed t' x"
  shows "tree_ok t'"
proof -
  from res obtain m where m: "t_member t thread = Some m"
    by (auto simp: refresh_foreign_wait_def outcome_simps)
  with res ok show ?thesis
    by (auto simp: refresh_foreign_wait_def tree_ok_upd_wait split: if_splits option.splits)
qed

lemma tree_ok_retain_instructions:
  assumes ok: "tree_ok t" and res: "retain_instructions thread path parts t = Changed t' x"
  shows "tree_ok t'"
proof -
  from res obtain m where m: "t_member t thread = Some m"
    by (auto simp: retain_instructions_def outcome_simps)
  have "member_step thread m (m\<lparr>m_instructions := a, m_path := b\<rparr>)" for a b
    by (cases "m_recovery_wait m")
      (auto simp: member_step_def member_good_def running_good_def waits_good_def)
  with res m ok show ?thesis
    by (auto simp: retain_instructions_def tree_ok_set_member split: if_splits sum.splits prod.splits)
qed

lemma tree_ok_retain_wait_metrics:
  assumes ok: "tree_ok t" and res: "retain_wait_metrics thread wid mt t = Changed t' x"
  shows "tree_ok t'"
proof -
  from res obtain m where m: "t_member t thread = Some m"
    by (auto simp: retain_wait_metrics_def outcome_simps)
  with res ok show ?thesis
    by (auto simp: retain_wait_metrics_def tree_ok_upd_wait split: if_splits option.splits)
qed

lemma tree_ok_human_input:
  assumes ok: "tree_ok t" and res: "human_input thread eid t = Changed t' x"
  shows "tree_ok t'"
proof -
  from res obtain m where m: "t_member t thread = Some m"
    by (auto simp: human_input_def outcome_simps)
  define t1 where "t1 = (if \<not> reserved m \<or> m_status m = Paused
      then set_member thread (reserve_work m) t else t)"
  have ok1: "tree_ok t1"
    unfolding t1_def using ok by (auto intro!: tree_ok_set_member [OF ok m] member_step_reserve_work)
  show ?thesis
  proof (cases "m_parent m = ''''")
    case True
    with res m ok show ?thesis
      by (auto simp: human_input_def outcome_simps split: if_splits dest: tree_ok_host_human_input)
  next
    case False
    with res m obtain t2 y m2 t3 e where s: "host_human_input t1 thread = Changed t2 y"
        "t_member t2 thread = Some m2"
        "claim_effect thread eid (append_effect
            (human_effect thread eid (m_generation m2) (m_status m)) t2) = Changed t3 (Some e)" "t' = t3"
      unfolding human_input_def t1_def
      by (auto simp: outcome_simps Let_def split: if_splits option.splits)
    have ok2: "tree_ok t2" using tree_ok_host_human_input [OF ok1 s(1)] .
    have "effect_good t2 (human_effect thread eid (m_generation m2) (m_status m))"
      using s(2) by (simp add: effect_good_def human_effect_def create_good_def effect_step_def
          task_of_def)
    with ok2 show ?thesis
      using tree_ok_claim_effect [OF _ s(3)] s(4) by (simp add: tree_ok_append_effect)
  qed
qed

section \<open>Selecting a saved root\<close>

lemma lineage_good_reparent:
  assumes "lineage_good t m" and "old \<noteq> ''''" and "task_of t old = task_of t new" and "new \<noteq> ''''"
  shows "lineage_good t (if m_parent m = old then m\<lparr>m_parent := new\<rparr> else m)"
  using assms by (auto simp: lineage_good_def)

lemma effect_good_retarget:
  "effect_good t e \<Longrightarrow> task_of t new \<noteq> None \<Longrightarrow> effect_good t (retarget_effect old new e)"
  by (auto simp: retarget_effect_def effect_good_def create_good_def effect_step_def)

lemma member_step_audience: "member_step k m (m\<lparr>m_audience_admitted := b\<rparr>)"
  by (cases "m_recovery_wait m")
    (auto simp: member_step_def member_good_def running_good_def waits_good_def)

text \<open>The members of the tree below the old root move below the new one.\<close>

definition reparent :: "string \<Rightarrow> string \<Rightarrow> tree \<Rightarrow> tree" where
  "reparent old new t = t\<lparr>t_members := map (\<lambda>(k, m).
     (k, if m_parent m = old then m\<lparr>m_parent := new\<rparr> else m)) (t_members t)\<rparr>"

lemma reparent_sel [simp]:
  "t_member (reparent old new t) j =
     map_option (\<lambda>m. if m_parent m = old then m\<lparr>m_parent := new\<rparr> else m) (t_member t j)"
  "t_effects (reparent old new t) = t_effects t" "t_root (reparent old new t) = t_root t"
  by (simp_all add: reparent_def map_of_map_value [of "\<lambda>_ m. if m_parent m = old then m\<lparr>m_parent := new\<rparr> else m"])

lemma tree_ok_reparent:
  assumes ok: "tree_ok t" and task: "task_of t old = task_of t new"
    and new: "t_member t new \<noteq> None" and old: "t_root t = old"
  shows "tree_ok (reparent old new t)"
proof -
  have ne: "old \<noteq> ''''" "new \<noteq> ''''" using tree_okD(2,6) [OF ok] new old by auto
  have tasks: "task_of (reparent old new t) = task_of t"
    by (rule ext) (auto simp: task_of_def option.map_comp comp_def intro!: option.map_cong)
  have "keys_good (reparent old new t)"
    using tree_okD(1) [OF ok] by (auto simp: keys_good_def reparent_def comp_def case_prod_beta)
  have member: "member_good k (if m_parent m = old then m\<lparr>m_parent := new\<rparr> else m)"
    if "member_good k m" for k m
    using that by (cases "m_recovery_wait m")
      (auto simp: member_good_def running_good_def waits_good_def)
  note \<open>keys_good (reparent old new t)\<close>
  moreover have "\<exists>r. t_member (reparent old new t) (t_root t) = Some r \<and> m_parent r = ''''"
    using tree_okD(6) [OF ok] ne(1) by auto
  moreover have "lineage_good t m'"
    if "t_member (reparent old new t) k = Some m'" for k m'
    using that tree_okD(4) [OF ok] lineage_good_reparent [OF _ ne(1) task ne(2)] by auto
  moreover have "member_good k m'" if "t_member (reparent old new t) k = Some m'" for k m'
    using that tree_okD(3) [OF ok] member by auto
  moreover have "\<forall>e \<in> set (t_effects (reparent old new t)). effect_good t e"
    "t_member (reparent old new t) '''' = None"
    using tree_okD(2,5) [OF ok] by simp_all
  ultimately show ?thesis
    unfolding tree_ok_def good_cong [OF tasks] reparent_sel(3) by blast
qed

lemma tree_ok_set_root:
  assumes ok: "tree_ok t" and "t_member t k = Some m" and "m_parent m = ''''"
  shows "tree_ok (t\<lparr>t_root := k\<rparr>)"
proof -
  have task: "task_of (t\<lparr>t_root := k\<rparr>) = task_of t" by (simp add: task_of_def fun_eq_iff)
  show ?thesis
    using assms unfolding tree_ok_def good_cong [OF task] by (simp add: keys_good_def)
qed

lemma tree_ok_select_root:
  assumes ok: "tree_ok t" and res: "select_root thread t = Inr t'"
  shows "tree_ok t'"
proof (cases "t_root t = thread")
  case True
  with res ok show ?thesis by (auto simp: select_root_def split: option.splits if_splits)
next
  case False
  from res obtain root where root: "t_member t thread = Some root" "m_parent root = ''''"
      "m_task root = ''/root''"
    by (auto simp: select_root_def split: option.splits if_splits)
  obtain prev where prev: "t_member t (t_root t) = Some prev" "m_parent prev = ''''"
    using tree_okD(6) [OF ok] by auto
  define t1 where "t1 = set_member (t_root t) (prev\<lparr>m_audience_admitted := False\<rparr>) t"
  define t2 where "t2 = upd_member thread (\<lambda>m. m\<lparr>m_audience_admitted := True\<rparr>) t1"
  have ok2: "tree_ok t2" unfolding t2_def t1_def
    using ok prev by (auto intro!: tree_ok_upd_member tree_ok_set_member member_step_audience)
  have "m_task prev = ''/root''" using tree_okD(4) [OF ok prev(1)] prev(2) by (simp add: lineage_good_def)
  then have task: "task_of t2 (t_root t) = task_of t2 thread"
    using root prev False by (simp add: task_of_def t2_def t1_def)
  have mem2: "t_member t2 thread = Some (root\<lparr>m_audience_admitted := True\<rparr>)"
    using root False by (simp add: t2_def t1_def)
  have root2: "t_root t2 = t_root t" by (simp add: t2_def t1_def)
  define t3 where "t3 = reparent (t_root t) thread t2"
  have ok3: "tree_ok t3" unfolding t3_def
    using tree_ok_reparent [OF ok2 task] mem2 root2 by simp
  have "t_root t \<noteq> ''''" using prev tree_okD(2) [OF ok] by auto
  then have mem3: "t_member t3 thread = Some (root\<lparr>m_audience_admitted := True\<rparr>)"
    using mem2 root by (simp add: t3_def)
  have "tree_ok (map_effects (retarget_effect (t_root t) thread) t3)"
    using ok3 mem3 by (intro tree_ok_map_effects effect_good_retarget) (auto simp: task_of_def)
  moreover have "t' = (map_effects (retarget_effect (t_root t) thread) t3)\<lparr>t_root := thread\<rparr>"
    using res root prev False
    by (auto simp: select_root_def Let_def t1_def t2_def t3_def reparent_def split: if_splits)
  ultimately show ?thesis
    using mem3 root by (auto intro!: tree_ok_set_root)
qed

section \<open>Operations as steps\<close>

text \<open>The collaborators outside the package that the closures consult.\<close>

record control_env =
  ce_reload :: reload_api
  ce_item_id :: "string \<Rightarrow> string"
  ce_backoff :: backoff

text \<open>
  One constructor per exported operation that writes a tree, with its arguments.
  \<open>OpInputConsumed\<close> carries the candidates that were read from an earlier publication.
\<close>

datatype operation =
    OpRequestStarted identity bool
  | OpAnswerCompleted string string string string
  | OpInputConsumed identity "effect list"
  | OpCheckpointWait string string
  | OpHostCompleted string string status host_failure
  | OpPause string
  | OpHumanInput string string
  | OpHumanInputCommitted string string string
  | OpHumanInterrupt string string
  | OpRegisterWait identity wait_request
  | OpExecution string string string string bool
  | OpClaimLocalStop string string string
  | OpRejectCompaction string string string string
  | OpPrepareWake string int
  | OpWaitForProvider string string "int option" bool int
  | OpProviderRecovered string string
  | OpPrepareAction identity string step string
  | OpReserveSpawn identity spawn_request
  | OpClaimEffect string string
  | OpEffectAcknowledged string string receipt
  | OpReceiveMessage origin string string string
  | OpRefreshForeignWait string string remote_target
  | OpRetainInstructions string string "fragment list"
  | OpRetainWaitMetrics string string "(string \<times> session_metrics) list"
  | OpSelectRoot string

text \<open>Forget the result of a closure, but keep what the service counts afterwards.\<close>

fun omap :: "('a \<Rightarrow> 'b) \<Rightarrow> 'b \<Rightarrow> ('t, 'a) outcome \<Rightarrow> ('t, 'b) outcome" where
  "omap f d (Changed t a) = Changed t (f a)"
| "omap f d (Unchanged a) = Unchanged d"
| "omap f d (Fail e) = Fail e"

lemma omap_Changed [outcome_simps]:
  "omap f d x = Changed t b \<longleftrightarrow> (\<exists>a. x = Changed t a \<and> f a = b)"
  by (cases x) auto

abbreviation quiet :: "('t, 'a) outcome \<Rightarrow> ('t, feature list) outcome" where
  "quiet \<equiv> omap (\<lambda>_. []) []"

text \<open>The counts of a newly registered wait (the deferred part of \<open>registerWait\<close>).\<close>

definition wait_features :: "reload_api \<Rightarrow> wait_request \<Rightarrow> feature list" where
  "wait_features api q =
    (if q_compact q
     then FeatureSelfCompaction # (if reloads api (q_reload q) then [FeatureCompactionPreload] else [])
     else [])
    @ (if \<not> q_standalone q
       then FeatureWait # (if q_mode q = WaitAll then [FeatureWaitAll] else []) else [])"

definition select_root_closure :: "string \<Rightarrow> tree \<Rightarrow> (tree, unit) outcome" where
  "select_root_closure thread t =
     (case select_root thread t of Inl e \<Rightarrow> Fail e | Inr t' \<Rightarrow> Changed t' ())"

fun run_op :: "control_env \<Rightarrow> operation \<Rightarrow> tree \<Rightarrow> (tree, feature list) outcome" where
  "run_op env (OpRequestStarted caller root) t = quiet (request_started caller root t)"
| "run_op env (OpAnswerCompleted th turn item txt) t = quiet (answer_completed th turn item txt t)"
| "run_op env (OpInputConsumed caller cs) t = quiet (input_consumed caller cs t)"
| "run_op env (OpCheckpointWait th turn) t = quiet (checkpoint_wait th turn t)"
| "run_op env (OpHostCompleted th turn st failure) t = quiet (host_completed th turn st failure t)"
| "run_op env (OpPause th) t = quiet (pause_thread th t)"
| "run_op env (OpHumanInput th eid) t = quiet (human_input th eid t)"
| "run_op env (OpHumanInputCommitted th turn eid) t = quiet (human_input_committed th turn eid t)"
| "run_op env (OpHumanInterrupt th wid) t = quiet (human_interrupt th wid t)"
| "run_op env (OpRegisterWait caller q) t =
     omap (\<lambda>_. wait_features (ce_reload env) q) [] (register_wait caller q t)"
| "run_op env (OpExecution th turn item handle ok) t = quiet (execution th turn item handle ok t)"
| "run_op env (OpClaimLocalStop th turn item) t = quiet (claim_local_stop th turn item t)"
| "run_op env (OpRejectCompaction th turn item reason) t =
     quiet (reject_compaction th turn item reason t)"
| "run_op env (OpPrepareWake th now) t = quiet (prepare_wake th now t)"
| "run_op env (OpWaitForProvider th turn deadline capacity now) t =
     quiet (wait_for_provider (ce_backoff env) th turn deadline capacity now t)"
| "run_op env (OpProviderRecovered th turn) t = quiet (provider_recovered th turn t)"
| "run_op env (OpPrepareAction caller target kind msg) t =
     omap (\<lambda>_. if kind = KMessage then [FeatureMessage] else []) []
       (prepare_action caller target kind msg t)"
| "run_op env (OpReserveSpawn caller q) t = quiet (reserve_spawn (ce_item_id env) caller q t)"
| "run_op env (OpClaimEffect caller eid) t = quiet (claim_effect caller eid t)"
| "run_op env (OpEffectAcknowledged caller eid rc) t =
     omap (\<lambda>fs. fs) [] (effect_acknowledged (ce_reload env) caller eid rc t)"
| "run_op env (OpReceiveMessage peer target call msg) t =
     quiet (receive_message peer target call msg t)"
| "run_op env (OpRefreshForeignWait th wid state) t = quiet (refresh_foreign_wait th wid state t)"
| "run_op env (OpRetainInstructions th path parts) t = quiet (retain_instructions th path parts t)"
| "run_op env (OpRetainWaitMetrics th wid mt) t = quiet (retain_wait_metrics th wid mt t)"
| "run_op env (OpSelectRoot th) t = quiet (select_root_closure th t)"

lemma tree_ok_select_root_closure:
  "tree_ok t \<Longrightarrow> select_root_closure th t = Changed t' x \<Longrightarrow> tree_ok t'"
  by (auto simp: select_root_closure_def split: sum.splits dest: tree_ok_select_root)

lemmas tree_ok_closures =
  tree_ok_request_started tree_ok_answer_completed tree_ok_input_consumed tree_ok_checkpoint_wait
  tree_ok_host_completed tree_ok_pause_thread tree_ok_human_input tree_ok_human_input_committed
  tree_ok_human_interrupt tree_ok_register_wait tree_ok_execution tree_ok_claim_local_stop
  tree_ok_reject_compaction tree_ok_prepare_wake tree_ok_wait_for_provider
  tree_ok_provider_recovered tree_ok_prepare_action tree_ok_reserve_spawn tree_ok_claim_effect
  tree_ok_effect_acknowledged tree_ok_receive_message tree_ok_refresh_foreign_wait
  tree_ok_retain_instructions tree_ok_retain_wait_metrics tree_ok_select_root_closure

lemma tree_ok_run_op:
  assumes "tree_ok t" and "run_op env op t = Changed t' fs"
  shows "tree_ok t'"
  using assms by (cases op) (auto simp: outcome_simps intro: tree_ok_closures)

section \<open>Reachable trees\<close>

text \<open>The member an admitted root starts as: the checks of \<open>AdmitRoot\<close> and an idle start.\<close>

definition valid_root :: "string \<Rightarrow> member \<Rightarrow> bool" where
  "valid_root thread m \<longleftrightarrow> thread \<noteq> '''' \<and> m_thread m = thread \<and> m_parent m = ''''
     \<and> m_task m = ''/root'' \<and> m_session m \<noteq> ''''"

definition new_tree :: "string \<Rightarrow> member \<Rightarrow> tree" where
  "new_tree thread m = \<lparr>t_version = 4, t_root = thread, t_members = [(thread, m)], t_effects = []\<rparr>"

text \<open>
  A tree starts with an admitted root; it is changed by operations, and by a restart, which
  reads the checkpoint, pauses everything that was under way and selects a root.
\<close>

inductive reachable :: "control_env \<Rightarrow> tree \<Rightarrow> bool" for env where
  admit: "valid_root thread m \<Longrightarrow> member_good thread m \<Longrightarrow> reachable env (new_tree thread m)"
| step: "reachable env t \<Longrightarrow> run_op env op t = Changed t' fs \<Longrightarrow> reachable env t'"
| restore: "reachable env t \<Longrightarrow> select_root thread (pause '''' (detach_tree t)) = Inr t'
     \<Longrightarrow> reachable env t'"

inductive_cases reachable_stepE: "reachable env t"

lemma wait_good_detach: "wait_good k w \<Longrightarrow> wait_good k (detach_wait w)"
  by (cases "w_compaction w")
    (auto simp: wait_good_def detach_wait_def detach_effect_def wake_good_def compaction_good_def)

lemma detach_wait_state [simp]: "w_state (detach_wait w) = w_state w"
  by (simp add: detach_wait_def detach_effect_def)

lemma member_step_detach: "member_step k m (detach_member m)"
  by (cases "m_recovery_wait m"; cases "m_wait m")
    (auto simp: detach_member_def member_step_def member_good_def running_good_def waits_good_def
      wait_good_detach)

lemma detach_tree_map:
  "detach_tree t = map_effects detach_effect
     (t\<lparr>t_members := map (\<lambda>(k, m). (k, detach_member m)) (t_members t)\<rparr>)"
  by (simp add: detach_tree_def map_effects_def set_effects_def)

lemma tree_ok_detach [simp]: "tree_ok t \<Longrightarrow> tree_ok (detach_tree t)"
  unfolding detach_tree_map
  by (rule tree_ok_map_effects, rule tree_ok_map_members)
    (auto intro: member_step_detach simp: detach_effect_def effect_good_def create_good_def
      effect_step_def)

lemma tree_ok_new_tree:
  "valid_root thread m \<Longrightarrow> member_good thread m \<Longrightarrow> tree_ok (new_tree thread m)"
  by (auto simp: tree_ok_def valid_root_def new_tree_def keys_good_def lineage_good_def)

lemma reachable_tree_ok: "reachable env t \<Longrightarrow> tree_ok t"
proof (induction rule: reachable.induct)
  case (admit thread m)
  then show ?case by (rule tree_ok_new_tree)
next
  case (step t op t' fs)
  then show ?case using tree_ok_run_op by blast
next
  case (restore t thread t')
  then show ?case using tree_ok_select_root tree_ok_pause tree_ok_detach by blast
qed

end
