(* ===== verification/Control_Serial.thy ===== *)
theory Control_Serial
  imports Control_Reachable
begin

text \<open>
  Serialization of dispatch.  The host owns an effect while its dispatch is under way or
  its outcome is uncertain.  In every reachable tree the effects of one target are owned
  one at a time, with one exception (an interrupt may overtake the initial input it stops),
  and a wake that the host owns excludes every other effect of its thread.  Only the two
  closures that claim an effect can make the host own one; all the others are calm.
\<close>

section \<open>Calm changes\<close>

definition same_key :: "effect \<Rightarrow> effect \<Rightarrow> bool" where
  "same_key e e' \<longleftrightarrow> e_caller e' = e_caller e \<and> e_id e' = e_id e"

definition owned :: "effect \<Rightarrow> bool" where
  "owned e \<longleftrightarrow> host_owned (e_state e)"

text \<open>An effect is changed calmly if the change does not make the host own it.\<close>

definition calm :: "effect \<Rightarrow> effect \<Rightarrow> bool" where
  "calm e e' \<longleftrightarrow> same_key e e' \<and> (owned e' \<longrightarrow> owned e \<and>
     (effect_step e' \<noteq> KCreate \<longrightarrow> effect_step e = effect_step e' \<and> e_target e = e_target e'))"

definition wait_owned :: "tree \<Rightarrow> string \<Rightarrow> bool" where
  "wait_owned t k \<longleftrightarrow> (case t_member t k of None \<Rightarrow> False | Some m \<Rightarrow> wait_host_owned m)"

definition calm_effects :: "effect list \<Rightarrow> effect list \<Rightarrow> bool" where
  "calm_effects es es' \<longleftrightarrow> (\<exists>zs new. es' = zs @ new \<and> list_all2 calm es zs
     \<and> (\<forall>e \<in> set new. \<not> owned e))"

definition calm_tree :: "tree \<Rightarrow> tree \<Rightarrow> bool" where
  "calm_tree t t' \<longleftrightarrow> calm_effects (t_effects t) (t_effects t')
     \<and> (\<forall>k. wait_owned t' k \<longrightarrow> wait_owned t k)"

lemma calm_refl [simp]: "calm e e"
  by (simp add: calm_def same_key_def)

lemma calm_trans: "calm e e1 \<Longrightarrow> calm e1 e2 \<Longrightarrow> calm e e2"
  by (auto simp: calm_def same_key_def)

lemma calm_effects_refl [simp]: "calm_effects es es"
  unfolding calm_effects_def by (rule exI [of _ es]) (simp add: list_all2_refl)

lemma calm_effects_trans:
  assumes "calm_effects xs ys" and "calm_effects ys zs"
  shows "calm_effects xs zs"
proof -
  from assms(1) obtain ys1 new where y: "ys = ys1 @ new" "list_all2 calm xs ys1"
      "\<forall>e \<in> set new. \<not> owned e"
    by (auto simp: calm_effects_def)
  from assms(2) obtain zs1 zs2 new' where z: "zs = (zs1 @ zs2) @ new'" "list_all2 calm ys1 zs1"
      "list_all2 calm new zs2" "\<forall>e \<in> set new'. \<not> owned e"
    unfolding calm_effects_def y(1) by (auto simp: list_all2_append1)
  have "list_all2 calm xs zs1"
    using list_all2_trans [OF _ y(2) z(2)] calm_trans by blast
  moreover have "\<not> owned e" if "e \<in> set zs2" for e
    using that z(3) y(3) by (metis calm_def in_set_conv_nth list_all2_conv_all_nth)
  ultimately show ?thesis
    using z(1,4) unfolding calm_effects_def by (intro exI [of _ zs1] exI [of _ "zs2 @ new'"]) auto
qed

lemma calm_tree_refl [simp]: "calm_tree t t"
  by (simp add: calm_tree_def)

lemma calm_tree_trans [trans]: "calm_tree t t1 \<Longrightarrow> calm_tree t1 t2 \<Longrightarrow> calm_tree t t2"
  unfolding calm_tree_def using calm_effects_trans by blast

lemma calm_effects_map: "(\<And>e. calm e (f e)) \<Longrightarrow> calm_effects es (map f es)"
  unfolding calm_effects_def
  by (rule exI [of _ "map f es"]) (simp add: list_all2_map2 list_all2_refl)

lemma calm_effects_append: "\<not> owned e \<Longrightarrow> calm_effects es (es @ [e])"
  unfolding calm_effects_def
  by (rule exI [of _ es], rule exI [of _ "[e]"]) (simp add: list_all2_refl)

lemma calm_effects_update:
  "i < length es \<Longrightarrow> calm (es ! i) e \<Longrightarrow> calm_effects es (es[i := e])"
  unfolding calm_effects_def
  by (rule exI [of _ "es[i := e]"], rule exI [of _ "[]"])
    (auto simp: list_all2_conv_all_nth nth_list_update)

text \<open>The building blocks of the closures.\<close>

named_theorems calm_intros "calm building blocks"

lemma calm_set_member [calm_intros]:
  "(wait_host_owned m' \<Longrightarrow> wait_owned t k) \<Longrightarrow> calm_tree t (set_member k m' t)"
  by (auto simp: calm_tree_def wait_owned_def)

lemma calm_upd_member [calm_intros]:
  assumes "\<And>m. wait_host_owned (f m) \<Longrightarrow> wait_host_owned m"
  shows "calm_tree t (upd_member k f t)"
proof (cases "t_member t k")
  case None
  then show ?thesis by (simp add: upd_member_def)
next
  case (Some m)
  with assms show ?thesis by (auto simp: calm_tree_def wait_owned_def split: option.splits)
qed

lemma calm_map_effects [calm_intros]:
  "(\<And>e. calm e (f e)) \<Longrightarrow> calm_tree t (map_effects f t)"
  by (simp add: calm_tree_def wait_owned_def calm_effects_map)

lemma calm_append_effect [calm_intros]:
  "\<not> owned e \<Longrightarrow> calm_tree t (append_effect e t)"
  by (simp add: calm_tree_def wait_owned_def calm_effects_append)

lemma calm_upd_effect [calm_intros]:
  assumes "get_effect t r = Some e" and "calm e (f e)"
  shows "calm_tree t (upd_effect r f t)"
proof (cases r)
  case (InTree i)
  with assms show ?thesis
    by (auto simp: calm_tree_def wait_owned_def calm_effects_update split: if_splits)
next
  case (InWait k)
  with assms show ?thesis
    by (auto simp: calm_tree_def wait_owned_def calm_def owned_def wait_host_owned_def
        bind_eq_Some_conv upd_wait_def split: option.splits)
next
  case (InCompaction k)
  then show ?thesis
    by (auto intro!: calm_upd_member simp: wait_host_owned_def split: option.splits)
qed

lemma calm_state [simp]:
  "\<not> host_owned st \<Longrightarrow> calm e (e\<lparr>e_state := st\<rparr>)"
  "calm e (e\<lparr>e_consumed := c\<rparr>)" "calm e (e\<lparr>e_claimed_by := s\<rparr>)" "calm e (e\<lparr>e_error := s\<rparr>)"
  "calm e (e\<lparr>e_state := paused_state (e_state e)\<rparr>)"
  by (auto simp: calm_def same_key_def owned_def effect_step_def)

lemma wait_host_owned_frame [simp]:
  "wait_host_owned (m\<lparr>m_status := st\<rparr>) = wait_host_owned m"
  "wait_host_owned (m\<lparr>m_stop := s\<rparr>) = wait_host_owned m"
  "wait_host_owned (m\<lparr>m_host_running := b\<rparr>) = wait_host_owned m"
  "wait_host_owned (m\<lparr>m_turn := turn\<rparr>) = wait_host_owned m"
  "wait_host_owned (m\<lparr>m_generation := g\<rparr>) = wait_host_owned m"
  "wait_host_owned (m\<lparr>m_recovery_wait := rw\<rparr>) = wait_host_owned m"
  "wait_host_owned (m\<lparr>m_audience_admitted := b\<rparr>) = wait_host_owned m"
  "wait_host_owned (m\<lparr>m_answer_items := ai\<rparr>) = wait_host_owned m"
  "wait_host_owned (m\<lparr>m_last_answer := la\<rparr>) = wait_host_owned m"
  "wait_host_owned (m\<lparr>m_instructions := ins\<rparr>) = wait_host_owned m"
  "wait_host_owned (m\<lparr>m_path := pa\<rparr>) = wait_host_owned m"
  "wait_host_owned (m\<lparr>m_parent := pa\<rparr>) = wait_host_owned m"
  "wait_host_owned (m\<lparr>m_capacity_retry_seconds := c\<rparr>) = wait_host_owned m"
  "wait_host_owned (m\<lparr>m_capacity_retry_generation := cg\<rparr>) = wait_host_owned m"
  "wait_host_owned (start_turn turn m) = wait_host_owned m"
  "wait_host_owned (m\<lparr>m_wait := Some w\<rparr>) = host_owned (w_state w)"
  by (simp_all add: wait_host_owned_def start_turn_def)

lemma wait_host_owned_upd_wait:
  "wait_host_owned (upd_wait f m) =
     (case m_wait m of None \<Rightarrow> False | Some w \<Rightarrow> host_owned (w_state (f w)))"
  by (auto simp: wait_host_owned_def split: option.splits)

lemma wait_ownedI: "t_member t k = Some m \<Longrightarrow> wait_host_owned m \<Longrightarrow> wait_owned t k"
  by (simp add: wait_owned_def)

section \<open>Settlement steps are calm\<close>

lemma calm_cancel_completion [calm_intros]: "calm_tree t (cancel_completion k t)"
  unfolding cancel_completion_def
  by (auto intro!: calm_intros split: option.splits)

lemma calm_release_claims [calm_intros]: "calm_tree t (release_claims k eid t)"
  unfolding release_claims_def by (rule calm_intros) simp

lemma calm_cancel_subscription [calm_intros]: "calm_tree t (cancel_subscription k t)"
proof (cases "t_member t k")
  case None
  then show ?thesis by (simp add: cancel_subscription_def)
next
  case (Some m)
  have upd: "calm_tree s (upd_member k (upd_wait cancel_wait) s)" for s
    by (rule calm_intros)
      (auto simp: wait_host_owned_upd_wait cancel_wait_def split: option.splits)
  show ?thesis
    using upd calm_tree_trans [OF calm_release_claims upd]
    unfolding cancel_subscription_def by (auto split: option.splits)
qed

lemma calm_set_status: "calm_tree t (upd_member k (\<lambda>m. m\<lparr>m_status := st\<rparr>) t)"
  by (rule calm_intros) simp

lemma not_owned_final [simp]: "\<not> owned (final_effect m st msg)"
  by (simp add: owned_def final_effect_def)

lemma calm_finish [calm_intros]: "calm_tree t (finish k st msg t)"
proof -
  define t1 where "t1 = upd_member k (\<lambda>m. m\<lparr>m_status := st\<rparr>) (cancel_completion k t)"
  have t1: "calm_tree t t1"
    unfolding t1_def by (rule calm_tree_trans [OF calm_cancel_completion calm_set_status])
  have sub: "calm_tree t (cancel_subscription k t1)"
    using calm_tree_trans [OF t1 calm_cancel_subscription] .
  have app: "calm_tree t (append_effect (final_effect m st msg) s)" if "calm_tree t s" for m s
    using calm_tree_trans [OF that calm_append_effect] by simp
  show ?thesis
    unfolding finish_def t1_def [symmetric]
    by (auto simp: Let_def t1 sub app split: option.splits)
qed

lemma owned_paused: "wait_host_owned (pause_member m) = wait_host_owned m"
  by (cases "m_wait m") (auto simp: wait_host_owned_def pause_member_def pause_wait_def)

lemma calm_pause [calm_intros]: "calm_tree t (pause thread t)"
proof -
  define t1 where "t1 = t\<lparr>t_members := map (\<lambda>(k, m). (k, if thread \<noteq> '''' \<and> thread \<noteq> k then m
      else pause_member m)) (t_members t)\<rparr>"
  have "calm_tree t t1"
    by (auto simp: t1_def calm_tree_def wait_owned_def owned_paused
        map_of_map_value [of "\<lambda>k m. if thread \<noteq> '''' \<and> thread \<noteq> k then m else pause_member m"]
        split: option.splits if_splits)
  moreover have "calm_tree t1 (pause thread t)"
    unfolding pause_def t1_def [symmetric] by (rule calm_intros) simp
  ultimately show ?thesis by (rule calm_tree_trans)
qed

section \<open>The host-event table is calm\<close>

lemma calm_confirm_interrupts [calm_intros]: "calm_tree t (confirm_interrupts th turn t)"
  unfolding confirm_interrupts_def
  by (rule calm_intros) (auto simp: calm_def same_key_def owned_def)

lemma calm_host_started: "host_started k' k turn = Changed t' r \<Longrightarrow> calm_tree k' t'"
  unfolding host_started_def
  by (auto simp: outcome_simps Let_def intro!: calm_tree_trans [OF _ calm_upd_member]
      calm_cancel_subscription split: if_splits option.splits)

lemma calm_install_recovery:
  assumes "\<not> host_owned (w_state w)"
  shows "calm_tree t (install_recovery k turn w t)"
proof -
  define t0 where "t0 = cancel_completion k t"
  have t0: "calm_tree t t0" unfolding t0_def by (rule calm_intros)
  have rec: "calm_tree t0 (upd_member k (\<lambda>m. m\<lparr>m_recovery_wait := Some w\<rparr>) t0)"
    by (rule calm_intros) simp
  have inst: "calm_tree t0 (upd_member k (\<lambda>m. m\<lparr>m_wait := Some w\<rparr>) (cancel_subscription k t0))"
    by (rule calm_tree_trans [OF calm_cancel_subscription]) (rule calm_intros, use assms in simp)
  have fin: "calm_tree t (upd_member k (\<lambda>m. m\<lparr>m_stop := s m, m_status := Waiting\<rparr>) t1)"
    if "calm_tree t0 t1" for t1 s
    by (rule calm_tree_trans [OF calm_tree_trans [OF t0 that]]) (rule calm_intros, simp)
  show ?thesis
    unfolding install_recovery_def t0_def [symmetric]
    by (auto simp: Let_def t0 fin rec inst split: option.splits)
qed

lemma owned_settle_stopped: "wait_host_owned (settle_stopped m) = wait_host_owned m"
  by (cases "m_wait m")
    (auto simp: settle_stopped_def wait_host_owned_def Let_def split: option.splits)

lemma calm_host_terminal:
  assumes res: "host_terminal t k turn st failure = Changed t' r"
  shows "calm_tree t t'"
proof -
  from res obtain m0 where m0: "t_member t k = Some m0"
    by (auto simp: host_terminal_def outcome_simps)
  define m where "m = m0\<lparr>m_host_running := False\<rparr>"
  define t1 where "t1 = confirm_interrupts (m_thread m) turn (set_member k m t)"
  have t1: "calm_tree t t1"
    unfolding t1_def m_def using m0
    by (intro calm_tree_trans [OF calm_set_member calm_confirm_interrupts]) (simp add: wait_ownedI)
  note step = calm_tree_trans [OF t1]
  have "calm_tree t (install_recovery k turn (recovery_wait t1 m turn) t1)"
    by (rule step [OF calm_install_recovery]) simp
  moreover have "calm_tree t (upd_member k settle_stopped t1)"
    by (rule step) (rule calm_intros, simp add: owned_settle_stopped)
  moreover have "calm_tree t (append_effect (completion_effect m turn stop)
      (upd_member k (\<lambda>m. m\<lparr>m_stop := Some stop, m_status := Working\<rparr>) t1))" for stop
    by (rule step, rule calm_tree_trans [OF calm_upd_member calm_append_effect])
      (simp_all add: owned_def completion_effect_def)
  moreover have "calm_tree t (finish k s msg t1)" for s msg
    by (rule step) (rule calm_intros)
  ultimately show ?thesis
    using res m0 unfolding host_terminal_def
    by (auto simp: Let_def m_def [symmetric] t1_def [symmetric] split: if_splits option.splits)
qed

lemma calm_host_checkpoint: "host_checkpoint t k turn = Changed t' r \<Longrightarrow> calm_tree t t'"
  by (auto simp: host_checkpoint_def outcome_simps intro!: calm_intros split: if_splits)

lemma calm_release_member: "calm_tree t (upd_member k (\<lambda>m. m\<lparr>m_stop := None,
     m_status := (if m_status m = Waiting then Working else m_status m)\<rparr>) t)"
  by (rule calm_intros) simp

lemma calm_upd_wait_frame:
  "(\<And>w. w_state (f w) = w_state w) \<Longrightarrow> calm_tree t (upd_member k (upd_wait f) t)"
  by (rule calm_intros) (simp add: wait_host_owned_def split: option.splits)

lemma calm_host_execution:
  assumes res: "host_execution t k turn item handle ok = Changed t' r"
  shows "calm_tree t t'"
proof -
  from res obtain m where m: "t_member t k = Some m" by (auto simp: host_execution_def outcome_simps)
  define t1 where "t1 = (if handle \<noteq> ''''
      then upd_member k (upd_wait (\<lambda>w. w\<lparr>w_resume_handle := handle\<rparr>)) t else t)"
  have t1: "calm_tree t t1" by (simp add: t1_def calm_upd_wait_frame)
  have "calm_tree t (upd_member k (upd_wait (\<lambda>w. w\<lparr>w_stop := StopEligible\<rparr>)) t1)"
    by (rule calm_tree_trans [OF t1 calm_upd_wait_frame]) simp
  moreover have "calm_tree t (upd_member k (\<lambda>m. m\<lparr>m_stop := None,
      m_status := (if m_status m = Waiting then Working else m_status m)\<rparr>) (cancel_subscription k t1))"
    by (rule calm_tree_trans [OF calm_tree_trans [OF t1 calm_cancel_subscription] calm_release_member])
  ultimately show ?thesis
    using res m t1 unfolding host_execution_def t1_def
    by (auto simp: Let_def split: if_splits option.splits)
qed

lemma calm_host_local_stop:
  assumes res: "host_local_stop t k turn item = Changed t' r"
  shows "calm_tree t t'"
proof -
  from res obtain m where m: "t_member t k = Some m" by (auto simp: host_local_stop_def outcome_simps)
  have "calm_tree t (upd_member k (\<lambda>m. (upd_wait (\<lambda>w. w\<lparr>w_stop := StopCommitted\<rparr>) m)\<lparr>
      m_status := Waiting, m_stop := s\<rparr>) t)" for s
    by (rule calm_intros) (auto simp: wait_host_owned_def split: option.splits)
  with res m show ?thesis
    unfolding host_local_stop_def by (auto simp: Let_def split: if_splits option.splits)
qed

lemma calm_host_human_input:
  assumes res: "host_human_input t k = Changed t' r"
  shows "calm_tree t t'"
proof -
  from res obtain m where m: "t_member t k = Some m" by (auto simp: host_human_input_def outcome_simps)
  show ?thesis
    using res m calm_tree_trans [OF calm_cancel_completion calm_release_member]
      calm_tree_trans [OF calm_tree_trans [OF calm_cancel_completion calm_cancel_subscription]
        calm_release_member]
    unfolding host_human_input_def by (auto simp: Let_def split: if_splits)
qed

lemma calm_host_human_interrupt:
  assumes res: "host_human_interrupt t k call = Changed t' r"
  shows "calm_tree t t'"
proof -
  from res obtain m where m: "t_member t k = Some m"
    by (auto simp: host_human_interrupt_def outcome_simps)
  define t1 where "t1 = upd_member k (\<lambda>m. m\<lparr>m_stop := None\<rparr>)
      (cancel_completion k (cancel_subscription k t))"
  have t1: "calm_tree t t1" unfolding t1_def
    by (rule calm_tree_trans [OF calm_tree_trans [OF calm_cancel_subscription calm_cancel_completion]])
      (rule calm_intros, simp)
  with res m calm_tree_trans [OF t1 calm_finish] show ?thesis
    unfolding host_human_interrupt_def by (auto simp: t1_def [symmetric] split: if_splits)
qed

lemma calm_host_control:
  assumes res: "host_control t k = Changed t' r"
  shows "calm_tree t t'"
proof -
  from res obtain m where m: "t_member t k = Some m" by (auto simp: host_control_def outcome_simps)
  with res calm_tree_trans [OF calm_cancel_completion calm_cancel_subscription] calm_cancel_completion
  show ?thesis
    unfolding host_control_def by (auto simp: Let_def split: if_splits option.splits)
qed

section \<open>The other closures are calm\<close>

lemma calm_request_started:
  "request_started caller root t = Changed t' x \<Longrightarrow> calm_tree t t'"
  by (auto simp: request_started_def outcome_simps dest: calm_host_started)

lemma calm_answer_completed:
  assumes res: "answer_completed th turn item txt t = Changed t' x"
  shows "calm_tree t t'"
proof -
  from res obtain m where m: "t_member t th = Some m" by (auto simp: answer_completed_def outcome_simps)
  with res show ?thesis
    by (auto simp: answer_completed_def wait_ownedI intro!: calm_intros split: if_splits)
qed

lemma calm_consume_all: "consume_all cs b t = (b', t') \<Longrightarrow> calm_tree t t'"
proof (induction cs b t rule: consume_all.induct)
  case (1 changed t)
  then show ?case by simp
next
  case (2 c cs changed t)
  have "calm_tree t (upd_effect r (\<lambda>e. e\<lparr>e_consumed := True\<rparr>) t)" if "get_effect t r = Some e" for r e
    by (rule calm_upd_effect [OF that]) simp
  with 2 calm_tree_trans show ?case
    by (fastforce split: option.splits if_splits)
qed

lemma calm_input_consumed: "input_consumed caller cs t = Changed t' x \<Longrightarrow> calm_tree t t'"
  by (auto simp: input_consumed_def outcome_simps dest: calm_consume_all split: prod.splits if_splits)

lemma calm_checkpoint_wait: "checkpoint_wait th turn t = Changed t' x \<Longrightarrow> calm_tree t t'"
  by (auto simp: checkpoint_wait_def outcome_simps dest: calm_host_checkpoint)

lemma calm_host_completed: "host_completed th turn st f t = Changed t' x \<Longrightarrow> calm_tree t t'"
  by (auto simp: host_completed_def outcome_simps dest: calm_host_terminal)

lemma calm_pause_thread: "pause_thread th t = Changed t' x \<Longrightarrow> calm_tree t t'"
  by (auto simp: pause_thread_def outcome_simps intro: calm_pause)

lemma calm_human_input_committed:
  assumes res: "human_input_committed th turn eid t = Changed t' x"
  shows "calm_tree t t'"
proof -
  from res obtain m where m: "t_member t th = Some m"
    by (auto simp: human_input_committed_def outcome_simps)
  have "calm_tree t (upd_effect r (\<lambda>e. e\<lparr>e_state := SConfirmed, e_turn := turn, e_error := ''''\<rparr>) t)"
    if "get_effect t r = Some e" for r e
    by (rule calm_upd_effect [OF that]) (simp add: calm_def same_key_def owned_def)
  with res m show ?thesis
    by (auto simp: human_input_committed_def guard_Changed split: option.splits if_splits)
qed

lemma calm_human_interrupt: "human_interrupt th wid t = Changed t' x \<Longrightarrow> calm_tree t t'"
  by (auto simp: human_interrupt_def outcome_simps dest: calm_host_human_interrupt)

lemma calm_execution: "execution th turn item handle b t = Changed t' x \<Longrightarrow> calm_tree t t'"
  by (auto simp: execution_def outcome_simps dest: calm_host_execution)

lemma calm_claim_local_stop: "claim_local_stop th turn item t = Changed t' x \<Longrightarrow> calm_tree t t'"
  by (auto simp: claim_local_stop_def dest: calm_host_local_stop)

lemma calm_reject_compaction:
  assumes res: "reject_compaction th turn item reason t = Changed t' x"
  shows "calm_tree t t'"
proof -
  from res obtain m where m: "t_member t th = Some m"
    by (auto simp: reject_compaction_def outcome_simps)
  with res show ?thesis
    by (auto simp: reject_compaction_def intro!: calm_upd_wait_frame split: option.splits if_splits)
qed

lemma calm_claim_index: "calm_tree t (claim_index i wid t)"
proof (cases "i < length (t_effects t)")
  case True
  then show ?thesis
    by (simp add: claim_index_def calm_tree_def wait_owned_def calm_effects_update)
next
  case False
  then show ?thesis by (simp add: claim_index_def calm_tree_def wait_owned_def list_update_beyond)
qed

lemma calm_claim_outcomes: "claim_outcomes outs tids t w = (t', w') \<Longrightarrow> calm_tree t t'"
proof (induction tids arbitrary: t w)
  case Nil
  then show ?case by simp
next
  case (Cons tid tids)
  show ?case
  proof (cases "alist_get outs tid")
    case (Some i)
    with Cons.prems Cons.IH show ?thesis using calm_tree_trans [OF calm_claim_index] by simp blast
  next
    case None
    with Cons show ?thesis by (auto split: option.splits)
  qed
qed

lemma calm_select_wait_outcome:
  "select_wait_outcome t w = (found, t', w') \<Longrightarrow> calm_tree t t'"
  by (auto simp: select_wait_outcome_def select_all_wait_outcomes_def calm_claim_index
      dest: calm_claim_outcomes split: if_splits sum.splits option.splits prod.splits)

lemma select_wait_outcome_frame:
  assumes "select_wait_outcome t w = (found, t', w')"
  shows "w_effect w' = w_effect w"
proof (cases "w_mode w = WaitAll")
  case True
  have "claim_outcomes outs tids s v = (s', v') \<Longrightarrow> w_effect v' = w_effect v" for outs tids s v s' v'
  proof (induction tids arbitrary: s v)
    case (Cons tid tids)
    then show ?case by (fastforce split: option.splits)
  qed simp
  with True assms show ?thesis
    by (auto simp: select_wait_outcome_def select_all_wait_outcomes_def
        split: if_splits sum.splits prod.splits)
next
  case False
  with assms show ?thesis by (auto simp: select_wait_outcome_def split: if_splits option.splits)
qed

lemma calm_install_wait:
  "\<not> host_owned (w_state w) \<Longrightarrow> calm_tree t (upd_member k (\<lambda>m. m\<lparr>m_wait := Some w\<rparr>) t)"
  by (rule calm_intros) simp

lemma calm_register_wait:
  assumes res: "register_wait caller q t = Changed t' x"
  shows "calm_tree t t'"
proof -
  have first: "calm_tree t t2 \<and> \<not> host_owned (w_state w2)"
    if "first_state q t w = (t2, w2)" "w_state w = SRegistered" for w t2 w2
  proof -
    obtain found t1 w1 where sel: "select_wait_outcome t w = (found, t1, w1)"
      using prod_cases3 by blast
    with that calm_select_wait_outcome [OF sel] select_wait_outcome_frame [OF sel] show ?thesis
      by (cases found) (auto simp: first_state_def split: if_splits)
  qed
  have state: "w_state w = SRegistered"
    if "timed_wait m q (new_wait caller q mode gen sel) = Inr w" for m mode gen sel w
    using timed_wait_frame [OF that] by (simp add: wait_frame_def new_wait_def)
  have step: "calm_tree t (upd_member (i_thread caller) (\<lambda>m. m\<lparr>m_wait := Some w2\<rparr>) t2)"
    if "timed_wait m q (new_wait caller q mode gen sel) = Inr w" "first_state q t w = (t2, w2)"
    for m mode gen sel w t2 w2
    using first [OF that(2) state [OF that(1)]] calm_tree_trans calm_install_wait by blast
  have same: "t1 = t"
    if "host_wait_registration t k turn item call c s = Changed t1 r" for k turn item call c s t1 r
    using that by (auto simp: host_wait_registration_def outcome_simps split: if_splits option.splits)
  from res show ?thesis
    unfolding register_wait_def with_admitted_def
    by (auto simp: Let_def step dest!: same
        split: if_splits sum.splits outcome.splits option.splits prod.splits)
qed

lemma calm_prepare_wake:
  assumes res: "prepare_wake th now t = Changed t' x"
  shows "calm_tree t t'"
proof -
  from res obtain m w where m: "t_member t th = Some m" and w: "m_wait m = Some w"
    by (auto simp: prepare_wake_def outcome_simps split: option.splits)
  have step: "calm_tree t (upd_member th (\<lambda>m. m\<lparr>m_wait := Some (wait_set_state SQueued w1)\<rparr>) t1)"
    if *: "(if w_standalone w then (True, t, w) else select_wait_outcome t w) = (found, t1, w1)"
    for found t1 w1
  proof -
    have "calm_tree t t1" using * calm_select_wait_outcome by (auto split: if_splits)
    then show ?thesis by (rule calm_tree_trans) (rule calm_install_wait, simp)
  qed
  from res m w show ?thesis
    by (auto simp: prepare_wake_def Let_def step split: if_splits prod.splits)
qed

lemma calm_wait_for_provider:
  assumes res: "wait_for_provider backoff th turn d c now t = Changed t' x"
  shows "calm_tree t t'"
proof -
  from res obtain m0 where m0: "t_member t th = Some m0"
    by (auto simp: wait_for_provider_def outcome_simps)
  have t1: "calm_tree t (set_member th m t)" if "wait_host_owned m = wait_host_owned m0" for m
    using that m0 by (intro calm_intros) (auto simp: wait_ownedI)
  have stop: "calm_tree t (upd_member th (\<lambda>m. m\<lparr>m_stop := s, m_status := Waiting\<rparr>) t2)"
    if "calm_tree t t2" for t2 s
    by (rule calm_tree_trans [OF that]) (rule calm_intros, simp)
  have rec: "calm_tree t (upd_member th (\<lambda>m. m\<lparr>m_recovery_wait := w\<rparr>) (set_member th m t))"
    if "wait_host_owned m = wait_host_owned m0" for m w
    by (rule calm_tree_trans [OF t1 [OF that]]) (rule calm_intros, simp)
  have inst: "calm_tree t (upd_member th (\<lambda>m. m\<lparr>m_wait := Some (provider_wait m1 th tu d' c' wid)\<rparr>)
      (cancel_subscription th (set_member th m t)))"
    if "wait_host_owned m = wait_host_owned m0" for m m1 tu d' c' wid
    by (rule calm_tree_trans [OF calm_tree_trans [OF t1 [OF that] calm_cancel_subscription]
          calm_install_wait]) (rule provider_wait_good)
  show ?thesis
    using res m0 unfolding wait_for_provider_def
    by (auto simp: Let_def intro!: stop rec inst split: if_splits)
qed

lemma calm_provider_recovered:
  assumes res: "provider_recovered th turn t = Changed t' x"
  shows "calm_tree t t'"
proof -
  from res obtain m where m: "t_member t th = Some m" by (auto simp: provider_recovered_def outcome_simps)
  with res show ?thesis
    by (auto simp: provider_recovered_def wait_ownedI intro!: calm_intros split: if_splits)
qed

lemma wait_host_owned_reserve_work [simp]: "wait_host_owned (reserve_work m) = wait_host_owned m"
  by (simp add: reserve_work_def)

lemma calm_resume_creation [simp]: "calm e (resume_creation th e)"
  by (auto simp: resume_creation_def calm_def same_key_def owned_def)

lemma calm_control_receiver:
  assumes res: "control_receiver k kind t = Changed t' x"
  shows "calm_tree t t'"
proof (cases "kind = KMessage")
  case True
  with res show ?thesis by (simp add: control_receiver_def)
next
  case False
  with res obtain t1 y m where t1: "host_control t k = Changed t1 y" "t_member t1 k = Some m"
    and t': "(if kind = KFollowup \<and> (\<not> reserved m \<or> m_status m = Paused)
       then Changed (set_member k ((reserve_work m)\<lparr>m_stop := None\<rparr>) t1) () else Changed t1 ())
      = Changed t' x"
    by (auto simp: control_receiver_def outcome_simps)
  have "calm_tree t1 (set_member k ((reserve_work m)\<lparr>m_stop := None\<rparr>) t1)"
    using t1(2) by (intro calm_intros) (simp add: wait_ownedI)
  with calm_host_control [OF t1(1)] t' calm_tree_trans show ?thesis
    by (auto split: if_splits)
qed

lemma calm_prepare_action:
  assumes res: "prepare_action caller target kind msg t = Changed t' e"
  shows "calm_tree t t'"
proof (rule prepare_action_Changed [OF res])
  fix m receiver t1 t2 r
  assume t1: "t1 = t \<or> t1 = map_effects (resume_creation (m_thread receiver)) t"
    and t2: "control_receiver (m_thread receiver) kind t1 = Changed t2 ()"
    and e: "e = action_effect caller (m_generation m) r kind msg" "t' = append_effect e t2"
  have "calm_tree t t1" using t1 by (auto intro: calm_intros)
  then have "calm_tree t t2" by (rule calm_tree_trans [OF _ calm_control_receiver [OF t2]])
  then show ?thesis unfolding e
    by (rule calm_tree_trans) (rule calm_intros, simp add: owned_def action_effect_def)
qed

lemma calm_reserve_spawn:
  assumes res: "reserve_spawn item_id caller q t = Changed t' e"
  shows "calm_tree t t'"
proof -
  from res obtain m where m: "admitted t caller = Inr m"
    by (auto simp: reserve_spawn_def outcome_simps)
  with res show ?thesis
    by (auto simp: reserve_spawn_def with_admitted_def Let_def owned_def spawn_effect_def
        intro!: calm_intros split: if_splits option.splits)
qed

lemma calm_receive_message:
  assumes res: "receive_message peer target call msg t = Changed t' e"
  shows "calm_tree t t'"
proof -
  from res obtain m where m: "t_member t target = Some m"
    by (auto simp: receive_message_def outcome_simps)
  with res show ?thesis
    by (auto simp: receive_message_def Let_def owned_def
        intro!: calm_intros split: if_splits option.splits)
qed

lemma calm_refresh_foreign_wait:
  assumes res: "refresh_foreign_wait th wid state t = Changed t' x"
  shows "calm_tree t t'"
proof -
  from res obtain m where m: "t_member t th = Some m"
    by (auto simp: refresh_foreign_wait_def outcome_simps)
  with res show ?thesis
    by (auto simp: refresh_foreign_wait_def intro!: calm_upd_wait_frame split: if_splits option.splits)
qed

lemma calm_retain_instructions:
  assumes res: "retain_instructions th path parts t = Changed t' x"
  shows "calm_tree t t'"
proof -
  from res obtain m where m: "t_member t th = Some m"
    by (auto simp: retain_instructions_def outcome_simps)
  with res show ?thesis
    by (auto simp: retain_instructions_def wait_ownedI intro!: calm_intros
        split: if_splits sum.splits prod.splits)
qed

lemma calm_retain_wait_metrics:
  assumes res: "retain_wait_metrics th wid mt t = Changed t' x"
  shows "calm_tree t t'"
proof -
  from res obtain m where m: "t_member t th = Some m"
    by (auto simp: retain_wait_metrics_def outcome_simps)
  with res show ?thesis
    by (auto simp: retain_wait_metrics_def intro!: calm_upd_wait_frame split: if_splits option.splits)
qed

section \<open>Acknowledgements are calm\<close>

lemma calm_settle_recovery:
  assumes ok: "tree_ok t" and res: "settle_recovery k a t = Changed t' b"
  shows "calm_tree t t'"
proof -
  have idle: "\<not> wait_host_owned (m\<lparr>m_wait := Some w, m_recovery_wait := r, m_status := st\<rparr>)"
    if "t_member t k = Some m" "m_recovery_wait m = Some w" for m w r st
    using tree_okD(3) [OF ok that(1)] that(2)
    by (simp add: member_good_def waits_good_def wait_host_owned_def)
  show ?thesis
    using res idle by (auto simp: settle_recovery_def settle_member_def wait_ownedI
        intro!: calm_intros split: option.splits if_splits)
qed

lemma calm_not_owned: "same_key e e' \<Longrightarrow> \<not> owned e' \<Longrightarrow> calm e e'"
  by (simp add: calm_def)

lemma wait_host_owned_failed_status [simp]:
  "wait_host_owned (failed_status e rc m) = wait_host_owned m"
  by (simp add: failed_status_def Let_def)

lemma calm_ack_failed:
  assumes ok: "tree_ok t" and e: "get_effect t r = Some e" and own: "owned e"
    and res: "ack_failed r e rc t = Changed t' x"
  shows "calm_tree t t'"
proof -
  define e1 where "e1 = (if effect_step e = KCreate then set_child rc e else e)\<lparr>
     e_error := rc_error rc, e_state := (if rc_uncertain rc then SUncertain else SFailed)\<rparr>"
  define t2 where "t2 = upd_member (e_target e) (failed_status e rc) (upd_effect r (\<lambda>_. e1) t)"
  have e1: "calm e e1"
    using own by (auto simp: calm_def same_key_def e1_def set_child_def effect_step_def owned_def)
  have t2: "calm_tree t t2" unfolding t2_def
    by (rule calm_tree_trans [OF calm_upd_effect calm_upd_member]) (use e e1 in simp_all)
  have good: "ref_good t r e1"
    using get_effect_good [OF ok e] ref_good_set_child [of t r e rc] by (auto simp: e1_def)
  then have ok2: "tree_ok t2" unfolding t2_def
    by (intro tree_ok_upd_member member_step_failed_status tree_ok_upd_effect [OF ok e])
  define t3 where "t3 = (case t_member t2 (e_target e) of
       None \<Rightarrow> t2
     | Some m \<Rightarrow>
        if (e_kind e = KHuman \<or> e_kind e = KFollowup \<or> e_kind e = KCompletion)
           \<and> m_generation m = e_generation e \<and> \<not> m_host_running m \<and> reserved m
        then (if rc_uncertain rc then set_member (e_target e) (m\<lparr>m_status := Uncertain\<rparr>) t2
              else finish (e_target e) Failed (rc_error rc) t2)
        else t2)"
  have t3: "calm_tree t t3"
    unfolding t3_def using t2 calm_tree_trans [OF t2 calm_finish]
    by (auto simp: wait_ownedI intro!: calm_tree_trans [OF t2 calm_set_member] split: option.splits)
  have ok3: "tree_ok t3"
    unfolding t3_def using ok2
    by (auto intro!: tree_ok_finish tree_ok_set_member member_step_status_live split: option.splits)
  have "(if rc_uncertain rc then Changed t3 [] else settle_recovery (e_target e) [] t3) = Changed t' x"
    using res unfolding ack_failed_def Let_def e1_def [symmetric] t2_def [symmetric] t3_def [symmetric]
    by (simp split: if_splits)
  with t3 show ?thesis
    using calm_tree_trans [OF t3 calm_settle_recovery [OF ok3]] by (auto split: if_splits)
qed

lemma confirm_step_effect:
  assumes "confirm_step caller st e rc t = Inr (e1, t1)" and "\<not> owned e"
  shows "same_key e e1 \<and> \<not> owned e1"
  using assms
  by (cases st) (auto simp: confirm_step_def Let_def same_key_def owned_def set_child_def
      split: if_splits option.splits)

lemma confirm_step_waits:
  assumes "confirm_step caller st e rc t = Inr (e1, t1)"
  shows "calm_tree t t1"
  using assms
  by (cases st) (auto simp: confirm_step_def Let_def child_member_def wait_host_owned_def zero_member_def
      wait_owned_def intro!: calm_set_member split: if_splits option.splits)

lemma calm_ack_confirmed:
  assumes ok: "tree_ok t" and e: "get_effect t r = Some e" and caller: "e_caller e = caller"
    and res: "ack_confirmed api caller r e rc t = Changed t' x"
  shows "calm_tree t t'"
proof (rule ack_confirmed_shape [OF ok e caller res])
  fix e0 e1 e2 t1
  assume e0: "e0 = e\<lparr>e_error := rc_error rc, e_state := SConfirmed\<rparr>"
    and c: "confirm_step caller (effect_step e) e0 rc t = Inr (e1, t1)"
    and e2: "get_effect t1 r = Some e" "e2 = e1 \<or> e2 = e1\<lparr>e_state := SPaused\<rparr>"
    and ok2: "tree_ok (upd_effect r (\<lambda>_. e2) t1)"
    and s: "settle_recovery (e_target e) x (upd_effect r (\<lambda>_. e2) t1) = Changed t' x"
  have "\<not> owned e0" by (simp add: e0 owned_def)
  with confirm_step_effect [OF c] e2(2) have "calm e e2"
    by (intro calm_not_owned) (auto simp: e0 same_key_def owned_def)
  then have "calm_tree t (upd_effect r (\<lambda>_. e2) t1)"
    by (intro calm_tree_trans [OF confirm_step_waits [OF c] calm_upd_effect [OF e2(1)]])
  with calm_settle_recovery [OF ok2 s] show ?thesis using calm_tree_trans by blast
qed

lemma dispatched_owned: "dispatched e rc \<Longrightarrow> owned e"
  by (auto simp: dispatched_def owned_def)

lemma calm_effect_acknowledged:
  assumes ok: "tree_ok t" and res: "effect_acknowledged api caller eid rc t = Changed t' x"
  shows "calm_tree t t'"
proof -
  from res obtain r e where r: "effect_ref t caller eid = Some r" and e: "get_effect t r = Some e"
    by (auto simp: effect_acknowledged_def split: option.splits)
  with res have "dispatched e rc"
    by (auto simp: effect_acknowledged_def split: if_splits)
  note own = dispatched_owned [OF this]
  show ?thesis
    using res r e calm_ack_failed [OF ok e own] calm_ack_confirmed [OF ok e effect_ref_caller [OF ok r e]]
    by (auto simp: effect_acknowledged_def split: if_splits)
qed

section \<open>Root selection is calm\<close>

lemma calm_retarget [simp]: "calm e (retarget_effect old new e)"
  by (auto simp: retarget_effect_def calm_def same_key_def owned_def)

lemma calm_select_root:
  assumes res: "select_root_closure th t = Changed t' x"
  shows "calm_tree t t'"
proof -
  from res have r: "select_root th t = Inr t'" by (auto simp: select_root_closure_def split: sum.splits)
  show ?thesis
  proof (cases "t_root t = th")
    case True
    with r show ?thesis by (auto simp: select_root_def split: option.splits if_splits)
  next
    case False
    with r obtain root prev where root: "t_member t th = Some root"
        "t_member t (t_root t) = Some prev"
        "\<not> (m_parent root \<noteq> '''' \<or> m_task root \<noteq> ''/root'')"
      by (auto simp: select_root_def split: option.splits if_splits)
    define t1 where "t1 = upd_member th (\<lambda>m. m\<lparr>m_audience_admitted := True\<rparr>)
        (set_member (t_root t) (prev\<lparr>m_audience_admitted := False\<rparr>) t)"
    have t1: "calm_tree t t1" unfolding t1_def
      by (rule calm_tree_trans [OF calm_set_member calm_upd_member]) (use root in \<open>simp_all add: wait_ownedI\<close>)
    define t2 where "t2 = reparent (t_root t) th t1"
    have t2: "calm_tree t1 t2"
      by (auto simp: t2_def calm_tree_def wait_owned_def split: option.splits if_splits)
    have t3: "calm_tree t (map_effects (retarget_effect (t_root t) th) t2)"
      by (rule calm_tree_trans [OF calm_tree_trans [OF t1 t2]]) (rule calm_intros, simp)
    have "t' = (map_effects (retarget_effect (t_root t) th) t2)\<lparr>t_root := th\<rparr>"
      using r root False by (simp add: select_root_def Let_def t1_def t2_def reparent_def split: if_splits)
    with t3 show ?thesis by (simp add: calm_tree_def wait_owned_def)
  qed
qed

lemmas calm_closures =
  calm_request_started calm_answer_completed calm_input_consumed calm_checkpoint_wait
  calm_host_completed calm_pause_thread calm_human_input_committed calm_human_interrupt
  calm_register_wait calm_execution calm_claim_local_stop calm_reject_compaction
  calm_prepare_wake calm_wait_for_provider calm_provider_recovered calm_prepare_action
  calm_reserve_spawn calm_receive_message calm_refresh_foreign_wait
  calm_retain_instructions calm_retain_wait_metrics calm_select_root

section \<open>The serialization invariant\<close>

text \<open>An interrupt may be dispatched while the host still owns the initial input it stops.\<close>

definition overtakes :: "effect \<Rightarrow> effect \<Rightarrow> bool" where
  "overtakes e other \<longleftrightarrow> effect_step e = KInterrupt \<and> effect_step other = KInitial"

definition one_lane :: "effect \<Rightarrow> effect \<Rightarrow> bool" where
  "one_lane e other \<longleftrightarrow> e_target e = e_target other \<and> effect_step e \<noteq> KCreate
     \<and> effect_step other \<noteq> KCreate"

definition lanes_serial :: "effect list \<Rightarrow> bool" where
  "lanes_serial es \<longleftrightarrow> (\<forall>i < length es. \<forall>j < length es. i \<noteq> j \<longrightarrow> owned (es ! i) \<longrightarrow> owned (es ! j)
     \<longrightarrow> one_lane (es ! i) (es ! j) \<longrightarrow> overtakes (es ! i) (es ! j) \<or> overtakes (es ! j) (es ! i))"

definition first_owned :: "effect list \<Rightarrow> bool" where
  "first_owned es \<longleftrightarrow> (\<forall>i < length es. owned (es ! i) \<longrightarrow> (\<forall>j < i. \<not> same_key (es ! j) (es ! i)))"

definition wakes_serial :: "tree \<Rightarrow> bool" where
  "wakes_serial t \<longleftrightarrow> (\<forall>k. wait_owned t k \<longrightarrow>
     (\<forall>e \<in> set (t_effects t). owned e \<longrightarrow> e_target e = k \<longrightarrow> effect_step e = KCreate))"

definition serial :: "tree \<Rightarrow> bool" where
  "serial t \<longleftrightarrow> lanes_serial (t_effects t) \<and> first_owned (t_effects t) \<and> wakes_serial t"

lemma calm_effects_nth:
  assumes "calm_effects es es'"
  shows "length es \<le> length es'"
    "i < length es \<Longrightarrow> same_key (es ! i) (es' ! i)"
    "i < length es' \<Longrightarrow> owned (es' ! i) \<Longrightarrow> i < length es \<and> owned (es ! i)
       \<and> (effect_step (es' ! i) \<noteq> KCreate \<longrightarrow> effect_step (es ! i) = effect_step (es' ! i)
            \<and> e_target (es ! i) = e_target (es' ! i))"
proof -
  from assms obtain zs new where z: "es' = zs @ new" "list_all2 calm es zs"
      "\<forall>e \<in> set new. \<not> owned e"
    by (auto simp: calm_effects_def)
  note len = list_all2_lengthD [OF z(2)]
  show "length es \<le> length es'" using z(1) len by simp
  show "i < length es \<Longrightarrow> same_key (es ! i) (es' ! i)"
    using list_all2_nthD [OF z(2)] len by (simp add: z(1) nth_append calm_def)
  assume i: "i < length es'" "owned (es' ! i)"
  have lt: "i < length zs"
  proof (rule ccontr)
    assume "\<not> i < length zs"
    with i z have "es' ! i \<in> set new" by (simp add: nth_append)
    with i(2) z(3) show False by blast
  qed
  with list_all2_nthD [OF z(2)] len i(2)
  show "i < length es \<and> owned (es ! i)
       \<and> (effect_step (es' ! i) \<noteq> KCreate \<longrightarrow> effect_step (es ! i) = effect_step (es' ! i)
            \<and> e_target (es ! i) = e_target (es' ! i))"
    by (auto simp: z(1) nth_append calm_def)
qed

text \<open>Calm changes keep all three parts.\<close>

lemma calm_serial:
  assumes calm: "calm_tree t t'" and ser: "serial t"
  shows "serial t'"
proof -
  let ?es = "t_effects t" and ?es' = "t_effects t'"
  have ce: "calm_effects ?es ?es'" using calm by (simp add: calm_tree_def)
  note nth = calm_effects_nth [OF ce]
  have "lanes_serial ?es'"
    unfolding lanes_serial_def
  proof (intro allI impI)
    fix i j
    assume ij: "i < length ?es'" "j < length ?es'" "i \<noteq> j" "owned (?es' ! i)" "owned (?es' ! j)"
      and lane: "one_lane (?es' ! i) (?es' ! j)"
    from nth(3) [OF ij(1,4)] nth(3) [OF ij(2,5)] lane
    have old: "i < length ?es" "j < length ?es" "owned (?es ! i)" "owned (?es ! j)"
      "one_lane (?es ! i) (?es ! j)" "effect_step (?es ! i) = effect_step (?es' ! i)"
      "effect_step (?es ! j) = effect_step (?es' ! j)"
      by (auto simp: one_lane_def)
    with ser ij(3) have "overtakes (?es ! i) (?es ! j) \<or> overtakes (?es ! j) (?es ! i)"
      by (auto simp: serial_def lanes_serial_def)
    with old(6,7) show "overtakes (?es' ! i) (?es' ! j) \<or> overtakes (?es' ! j) (?es' ! i)"
      by (simp add: overtakes_def)
  qed
  moreover have "first_owned ?es'"
    unfolding first_owned_def
  proof (intro allI impI)
    fix i j
    assume i: "i < length ?es'" "owned (?es' ! i)" and j: "j < i"
    from nth(3) [OF i] have old: "i < length ?es" "owned (?es ! i)" by auto
    with ser j have "\<not> same_key (?es ! j) (?es ! i)" by (auto simp: serial_def first_owned_def)
    with nth(2) [OF old(1)] nth(2) [of j] old(1) j show "\<not> same_key (?es' ! j) (?es' ! i)"
      by (auto simp: same_key_def)
  qed
  moreover have "wakes_serial t'"
    unfolding wakes_serial_def
  proof (intro allI impI ballI)
    fix k e
    assume k: "wait_owned t' k" and e: "e \<in> set ?es'" "owned e" "e_target e = k"
    from e(1) obtain i where i: "i < length ?es'" "?es' ! i = e" by (auto simp: in_set_conv_nth)
    from k calm have "wait_owned t k" by (auto simp: calm_tree_def)
    with nth(3) [OF i(1)] i(2) e ser show "effect_step e = KCreate"
      by (fastforce simp: serial_def wakes_serial_def)
  qed
  ultimately show ?thesis by (simp add: serial_def)
qed

section \<open>Claims keep the lanes apart\<close>

text \<open>What an unblocked claim has checked.\<close>

lemma claim_unblocked:
  assumes "\<not> claim_blocked caller eid e running es before" and "other \<in> set es"
    and "\<not> (e_caller other = caller \<and> e_id other = eid)"
    and "e_target e \<noteq> ''''" and "e_target other = e_target e"
    and "\<not> (e_kind e = KInterrupt \<and> running \<and> effect_step other = KInitial)"
  shows "\<not> owned other"
  using assms
  by (induction caller eid e running es before rule: claim_blocked.induct)
    (auto simp: owned_def split: if_splits)

lemma claim_fifo:
  assumes "\<not> claim_blocked caller eid e running (xs @ other # ys) True"
    and "\<forall>x \<in> set (xs @ [other]). \<not> (e_caller x = caller \<and> e_id x = eid)"
    and "e_target e \<noteq> ''''" and "e_target other = e_target e" and "e_kind e \<noteq> KCompact"
    and "\<not> (e_kind e = KInterrupt \<and> running \<and> effect_step other = KInitial)"
  shows "e_state other \<noteq> SPending"
  using assms by (induction xs) (auto split: if_splits)

lemma dispatch_effect_sel [simp]:
  "e_caller (dispatch_effect mo e) = e_caller e" "e_id (dispatch_effect mo e) = e_id e"
  "e_target (dispatch_effect mo e) = e_target e" "e_kind (dispatch_effect mo e) = e_kind e"
  "e_state (dispatch_effect mo e) = SDispatching"
  "effect_step (dispatch_effect mo e) = effect_step e" "e_generation (dispatch_effect mo e) = e_generation e"
  by (cases mo; simp add: dispatch_effect_def effect_step_def)+

text \<open>A dispatch either is refused calmly or takes the lane of its target.\<close>

definition free_lane :: "string \<Rightarrow> string \<Rightarrow> effect \<Rightarrow> tree \<Rightarrow> bool" where
  "free_lane caller eid e t \<longleftrightarrow>
     (e_kind e \<noteq> KWake \<longrightarrow> \<not> wait_owned t (e_target e))
     \<and> (\<forall>other \<in> set (t_effects t). \<not> (e_caller other = caller \<and> e_id other = eid)
          \<longrightarrow> e_target e \<noteq> '''' \<longrightarrow> e_target other = e_target e \<longrightarrow> owned other
          \<longrightarrow> e_kind e = KInterrupt \<and> effect_step other = KInitial)"

lemma serial_dispatch_tree:
  assumes ok: "tree_ok t" and ser: "serial t"
    and r: "effect_ref t caller eid = Some (InTree i)"
    and e: "t_effects t ! i = e" and free: "free_lane caller eid e t"
    and e1: "e_caller e1 = e_caller e" "e_id e1 = e_id e" "e_target e1 = e_target e"
      "e_kind e1 = e_kind e" "effect_step e1 = effect_step e"
  shows "serial (upd_effect (InTree i) (\<lambda>_. e1) t)"
proof -
  let ?es = "t_effects t" and ?es' = "(t_effects t)[i := e1]"
  from effect_ref_InTree [OF r] e have i: "i < length ?es" "e_caller e = caller" "e_id e = eid" by auto
  have first: "\<not> (e_caller (?es ! j) = caller \<and> e_id (?es ! j) = eid)" if "j < i" for j
    using r that by (auto simp: effect_ref_def dest!: find_index_Some split: option.splits if_splits)
  have good: "effect_good t e" using tree_okD(5) [OF ok] i e by auto
  have key: "\<not> (e_caller (?es ! j) = caller \<and> e_id (?es ! j) = eid)"
    if "j < length ?es" "j \<noteq> i" "owned (?es ! j)" for j
  proof (cases "j < i")
    case True
    then show ?thesis by (rule first)
  next
    case False
    with that ser have "\<not> same_key (?es ! i) (?es ! j)"
      by (auto simp: serial_def first_owned_def)
    with e i show ?thesis by (auto simp: same_key_def)
  qed
  have clash: "overtakes e1 (?es ! j)"
    if "j < length ?es" "j \<noteq> i" "owned (?es ! j)" "one_lane e1 (?es ! j)" for j
  proof -
    have "e_target e \<noteq> ''''"
      using good tree_okD(2) [OF ok] that(4) e1 by (auto simp: effect_good_def one_lane_def task_of_def)
    with free key [OF that(1-3)] that e1 have "e_kind e = KInterrupt" "effect_step (?es ! j) = KInitial"
      by (auto simp: free_lane_def one_lane_def)
    then show ?thesis using e1 by (simp add: overtakes_def effect_step_def)
  qed
  have "lanes_serial ?es'"
    unfolding lanes_serial_def
  proof (intro allI impI)
    fix a b
    assume ab: "a < length ?es'" "b < length ?es'" "a \<noteq> b" "owned (?es' ! a)" "owned (?es' ! b)"
      "one_lane (?es' ! a) (?es' ! b)"
    consider "a = i" | "b = i" | "a \<noteq> i" "b \<noteq> i" by blast
    then show "overtakes (?es' ! a) (?es' ! b) \<or> overtakes (?es' ! b) (?es' ! a)"
    proof cases
      case 1
      with ab i clash [of b] show ?thesis by simp
    next
      case 2
      with ab i clash [of a] show ?thesis by (simp add: one_lane_def)
    next
      case 3
      with ab ser show ?thesis by (auto simp: serial_def lanes_serial_def)
    qed
  qed
  moreover have "first_owned ?es'"
    unfolding first_owned_def
  proof (intro allI impI)
    fix a b
    assume ab: "a < length ?es'" "owned (?es' ! a)" "b < a"
    show "\<not> same_key (?es' ! b) (?es' ! a)"
    proof (cases "a = i")
      case True
      with ab i first [of b] e1 show ?thesis by (auto simp: same_key_def)
    next
      case False
      with ab have a: "owned (?es ! a)" "a < length ?es" by auto
      with ser ab have "\<not> same_key (?es ! b) (?es ! a)" by (auto simp: serial_def first_owned_def)
      with False e i e1 ab show ?thesis by (cases "b = i") (auto simp: same_key_def)
    qed
  qed
  moreover have "wakes_serial (set_effects ?es' t)"
    unfolding wakes_serial_def
  proof (intro allI impI ballI)
    fix k f
    assume k: "wait_owned (set_effects ?es' t) k" and f: "f \<in> set (t_effects (set_effects ?es' t))"
      "owned f" "e_target f = k"
    from k have k': "wait_owned t k" by (simp add: wait_owned_def)
    from f(1) have "f = e1 \<or> f \<in> set ?es" using set_update_subset_insert by fastforce
    then show "effect_step f = KCreate"
    proof
      assume "f = e1"
      with free k' f e1 good show ?thesis by (auto simp: free_lane_def effect_good_def)
    next
      assume "f \<in> set ?es"
      with ser k' f show ?thesis by (auto simp: serial_def wakes_serial_def)
    qed
  qed
  ultimately show ?thesis using e by (simp add: serial_def)
qed

lemma serial_dispatch_wait:
  assumes ok: "tree_ok t" and ser: "serial t"
    and r: "effect_ref t caller eid = Some (InWait k)" and e: "get_effect t (InWait k) = Some e"
    and free: "free_lane caller eid e t"
  shows "serial (upd_effect (InWait k) (\<lambda>_. e1) t)"
proof -
  have tgt: "e_target e = k" using get_effect_good [OF ok e] by (simp add: ref_good_def wake_good_def)
  have "k \<noteq> ''''" using e tree_okD(2) [OF ok] by (auto simp: bind_eq_Some_conv)
  have nokey: "\<not> (e_caller f = caller \<and> e_id f = eid)" if "f \<in> set (t_effects t)" for f
    using r that by (auto simp: effect_ref_def find_index_None split: option.splits if_splits)
  have kind: "e_kind e = KWake" using get_effect_good [OF ok e] by (simp add: ref_good_def wake_good_def)
  have "wakes_serial (upd_effect (InWait k) (\<lambda>_. e1) t)"
    unfolding wakes_serial_def
  proof (intro allI impI ballI)
    fix j f
    assume j: "wait_owned (upd_effect (InWait k) (\<lambda>_. e1) t) j"
      and f: "f \<in> set (t_effects (upd_effect (InWait k) (\<lambda>_. e1) t))" "owned f" "e_target f = j"
    show "effect_step f = KCreate"
    proof (cases "j = k")
      case True
      with free f nokey [of f] tgt kind \<open>k \<noteq> ''''\<close> show ?thesis by (auto simp: free_lane_def)
    next
      case False
      with j have "wait_owned t j" by (simp add: wait_owned_def)
      with ser f show ?thesis by (auto simp: serial_def wakes_serial_def)
    qed
  qed
  with ser show ?thesis by (simp add: serial_def)
qed

lemma calm_cancel_at: "get_effect t r = Some e \<Longrightarrow> calm_tree t (cancel_at r t)"
  unfolding cancel_at_def by (rule calm_upd_effect) auto

lemma calm_confirm_at:
  "get_effect t r = Some e \<Longrightarrow> calm_tree t (upd_effect r (\<lambda>e. e\<lparr>e_state := SConfirmed\<rparr>) t)"
  by (rule calm_upd_effect) auto

definition keeps_identity :: "(effect \<Rightarrow> effect) \<Rightarrow> bool" where
  "keeps_identity f \<longleftrightarrow> (\<forall>e. e_caller (f e) = e_caller e \<and> e_id (f e) = e_id e
     \<and> e_target (f e) = e_target e \<and> e_kind (f e) = e_kind e \<and> effect_step (f e) = effect_step e
     \<and> e_generation (f e) = e_generation e)"

lemma keeps_identity_simps [simp]:
  "keeps_identity (\<lambda>e. e)" "keeps_identity (\<lambda>e. e\<lparr>e_message := msg\<rparr>)"
  by (simp_all add: keeps_identity_def effect_step_def)

text \<open>Past the serialization check a claim either dispatches the effect or changes calmly.\<close>

lemma claim_step_cases:
  assumes e: "get_effect t r = Some e0" and res: "claim_step r e t = Changed t' x"
  shows "(calm_tree t t' \<and> x = None) \<or> (\<exists>pre. keeps_identity pre \<and> dispatch_at r pre t = Changed t' x)"
proof -
  note cancel = calm_cancel_at [OF e] and conf = calm_confirm_at [OF e]
  note fin = calm_tree_trans [OF cancel calm_finish] and fin' = calm_tree_trans [OF conf calm_finish]
  have disp: ?thesis if "dispatch_at r (\<lambda>e. e) t = Changed t' x" using that keeps_identity_simps by blast
  have disp': ?thesis if "dispatch_at r (\<lambda>e. e\<lparr>e_message := s\<rparr>) t = Changed t' x" for s
    using that keeps_identity_simps by blast
  show ?thesis
    using res disp disp' cancel conf fin fin' unfolding claim_step_def Let_def
    by (cases "effect_step e") (auto simp: outcome_simps split: if_splits)
qed

lemma calm_withdraw [simp]: "calm e (withdraw_queued k g e)"
  by (auto simp: withdraw_queued_def calm_def same_key_def owned_def)

lemma withdraw_interrupt [simp]: "e_kind e = KInterrupt \<Longrightarrow> withdraw_queued k g e = e"
  by (simp add: withdraw_queued_def effect_step_def)

lemma get_withdraw_interrupt:
  "get_effect t r = Some e \<Longrightarrow> e_kind e = KInterrupt \<Longrightarrow>
     get_effect (map_effects (withdraw_queued k g) t) r = Some e"
  by (cases r) (auto split: if_splits)

lemma effect_ref_map:
  assumes "\<And>e. same_key e (f e)"
  shows "effect_ref (map_effects f t) caller eid = effect_ref t caller eid"
proof -
  have "find_index (\<lambda>e. e_caller e = caller \<and> e_id e = eid) (map f es)
      = find_index (\<lambda>e. e_caller e = caller \<and> e_id e = eid) es" for es
    using assms by (induction es) (auto simp: same_key_def)
  then show ?thesis by (simp add: effect_ref_def cong: option.case_cong)
qed

text \<open>What a claim that dispatches has established.\<close>

definition claim_dispatch :: "string \<Rightarrow> string \<Rightarrow> tree \<Rightarrow> tree \<Rightarrow> effect option \<Rightarrow> eref \<Rightarrow> effect \<Rightarrow> tree
    \<Rightarrow> (effect \<Rightarrow> effect) \<Rightarrow> bool" where
  "claim_dispatch caller eid t t' x r e t1 pre \<longleftrightarrow>
     effect_ref t caller eid = Some r \<and> effect_ref t1 caller eid = Some r
     \<and> get_effect t r = Some e \<and> get_effect t1 r = Some e
     \<and> (e_state e = SPending \<or> e_state e = SQueued) \<and> calm_tree t t1 \<and> tree_ok t1
     \<and> (\<forall>k. t_member t1 k = t_member t k)
     \<and> (\<forall>other \<in> set (t_effects t). owned other \<longrightarrow> other \<in> set (t_effects t1))
     \<and> \<not> claim_blocked caller eid e (case t_member t (e_target e) of None \<Rightarrow> False
           | Some m \<Rightarrow> m_host_running m) (t_effects t1) True
     \<and> (t1 = t \<or> e_kind e = KInterrupt)
     \<and> free_lane caller eid e t1 \<and> keeps_identity pre
     \<and> claim_step r e t1 = Changed t' x \<and> dispatch_at r pre t1 = Changed t' x"

lemma claim_effect_cases:
  assumes ok: "tree_ok t" and res: "claim_effect caller eid t = Changed t' x"
  shows "(calm_tree t t' \<and> x = None) \<or> (\<exists>r e t1 pre. claim_dispatch caller eid t t' x r e t1 pre)"
proof -
  from res obtain r e where r: "effect_ref t caller eid = Some r" and e: "get_effect t r = Some e"
    by (auto simp: claim_effect_def split: option.splits)
  define t1 where "t1 = (case t_member t (e_target e) of None \<Rightarrow> t
      | Some m \<Rightarrow> if e_kind e = KInterrupt
                 then map_effects (withdraw_queued (e_target e) (m_generation m)) t else t)"
  define running where "running = (case t_member t (e_target e) of None \<Rightarrow> False
      | Some m \<Rightarrow> m_host_running m)"
  have calm1: "calm_tree t t1"
    by (auto simp: t1_def intro!: calm_map_effects split: option.splits)
  have ok1: "tree_ok t1"
    using ok by (auto simp: t1_def intro!: tree_ok_map_effects split: option.splits)
  have sk: "same_key e (withdraw_queued k g e)" for e k g using calm_withdraw by (simp add: calm_def)
  have r1: "effect_ref t1 caller eid = Some r"
    using r by (auto simp: t1_def effect_ref_map sk split: option.splits)
  have e1: "get_effect t1 r = Some e"
    using e by (auto simp: t1_def get_withdraw_interrupt split: option.splits)
  have same: "t1 = t \<or> e_kind e = KInterrupt" by (auto simp: t1_def split: option.splits)
  have mem: "t_member t1 k = t_member t k" for k by (auto simp: t1_def split: option.splits)
  have kept: "other \<in> set (t_effects t1)" if "other \<in> set (t_effects t)" "owned other" for other
  proof -
    have "e_state other \<noteq> SPending" using that(2) by (auto simp: owned_def)
    then have keep: "withdraw_queued k g other = other" for k g
      by (simp add: withdraw_queued_def)
    have "t1 = t \<or> (\<exists>k g. t1 = map_effects (withdraw_queued k g) t)"
      by (auto simp: t1_def split: option.splits)
    then show ?thesis
    proof
      assume "\<exists>k g. t1 = map_effects (withdraw_queued k g) t"
      then obtain k g where "t1 = map_effects (withdraw_queued k g) t" by blast
      moreover have "other \<in> withdraw_queued k g ` set (t_effects t)"
        using keep [of k g] that(1) by (rule rev_image_eqI [OF _ sym, rotated])
      ultimately show ?thesis by simp
    qed (use that in simp)
  qed
  consider (stale) "t' = upd_effect r (\<lambda>e. e\<lparr>e_state := SConfirmed\<rparr>) t" "x = None"
    | (blocked) "t' = t1" "x = None"
    | (free) "e_state e = SPending \<or> e_state e = SQueued"
        "e_kind e \<noteq> KWake \<longrightarrow> \<not> wait_owned t (e_target e)"
        "\<not> claim_blocked caller eid e running (t_effects t1) True" "claim_step r e t1 = Changed t' x"
    using res r e unfolding claim_effect_def t1_def running_def wait_owned_def
    by (auto simp: Let_def split: if_splits option.splits)
  then show ?thesis
  proof cases
    case stale
    with calm_confirm_at [OF e] show ?thesis by simp
  next
    case blocked
    with calm1 show ?thesis by simp
  next
    case free
    have lane: "free_lane caller eid e t1"
      using free(2) claim_unblocked [OF free(3)] mem by (auto simp: free_lane_def wait_owned_def)
    from claim_step_cases [OF e1 free(4)] show ?thesis
    proof
      assume "calm_tree t1 t' \<and> x = None"
      with calm_tree_trans [OF calm1] show ?thesis by blast
    next
      assume "\<exists>pre. keeps_identity pre \<and> dispatch_at r pre t1 = Changed t' x"
      then obtain pre where "keeps_identity pre" "dispatch_at r pre t1 = Changed t' x" by blast
      with r r1 e e1 free lane calm1 ok1 same mem kept
      have "claim_dispatch caller eid t t' x r e t1 pre"
        unfolding claim_dispatch_def running_def by simp
      then show ?thesis by blast
    qed
  qed
qed

lemma dispatch_at_Changed:
  assumes e: "get_effect t r = Some e" and pre: "keeps_identity pre"
    and res: "dispatch_at r pre t = Changed t' x"
  shows "\<exists>e1 e2. t' = upd_effect r (\<lambda>_. e1) t \<and> x = Some e2 \<and> e_state e1 = SDispatching \<and> e_state e2 = SDispatching
    \<and> e_caller e1 = e_caller e \<and> e_id e1 = e_id e \<and> e_target e1 = e_target e \<and> e_kind e1 = e_kind e
    \<and> effect_step e1 = effect_step e
    \<and> e_caller e2 = e_caller e \<and> e_id e2 = e_id e \<and> e_target e2 = e_target e \<and> e_kind e2 = e_kind e"
proof -
  define e1 where "e1 = dispatch_effect (t_member t (e_target e)) (pre e)"
  have e1: "owned e1" "e_state e1 = SDispatching" "e_caller e1 = e_caller e" "e_id e1 = e_id e"
      "e_target e1 = e_target e" "e_kind e1 = e_kind e" "effect_step e1 = effect_step e"
    using pre by (simp_all add: e1_def owned_def keeps_identity_def)
  from res e have "t' = upd_effect r (\<lambda>_. e1) t \<and> (x = Some e1 \<or> (\<exists>wr. x = Some (e1\<lparr>e_wake := Some wr\<rparr>)))"
    unfolding dispatch_at_def e1_def [symmetric]
    by (auto simp: Let_def outcome_simps e1_def [symmetric] split: if_splits option.splits)
  with e1 show ?thesis by fastforce
qed

lemma serial_claim_effect:
  assumes ok: "tree_ok t" and ser: "serial t" and res: "claim_effect caller eid t = Changed t' x"
  shows "serial t'"
  using claim_effect_cases [OF ok res]
proof
  assume "calm_tree t t' \<and> x = None"
  with ser show ?thesis using calm_serial by blast
next
  assume "\<exists>r e t1 pre. claim_dispatch caller eid t t' x r e t1 pre"
  then obtain r e t1 pre where r: "effect_ref t1 caller eid = Some r" and calm1: "calm_tree t t1"
      and ok1: "tree_ok t1" and e: "get_effect t1 r = Some e" and free: "free_lane caller eid e t1"
      and pre: "keeps_identity pre" and disp: "dispatch_at r pre t1 = Changed t' x"
    unfolding claim_dispatch_def by blast
  note ser1 = calm_serial [OF calm1 ser]
  from dispatch_at_Changed [OF e pre disp] obtain e1 where t': "t' = upd_effect r (\<lambda>_. e1) t1"
    and e1: "e_caller e1 = e_caller e" "e_id e1 = e_id e" "e_target e1 = e_target e"
      "e_kind e1 = e_kind e" "effect_step e1 = effect_step e" by blast
  show ?thesis
  proof (cases r)
    case (InTree i)
    with e have "t_effects t1 ! i = e" by (simp split: if_splits)
    from serial_dispatch_tree [OF ok1 ser1 r [unfolded InTree] this free e1] show ?thesis
      unfolding t' InTree .
  next
    case (InWait k)
    from serial_dispatch_wait [OF ok1 ser1 r [unfolded InWait] e [unfolded InWait] free] show ?thesis
      unfolding t' InWait .
  next
    case (InCompaction k)
    have "calm_tree t1 t'"
      unfolding t' InCompaction
      by (auto intro!: calm_upd_member simp: wait_host_owned_def split: option.splits)
    with ser1 show ?thesis using calm_serial by blast
  qed
qed

lemma serial_human_input:
  assumes ok: "tree_ok t" and ser: "serial t" and res: "human_input th eid t = Changed t' x"
  shows "serial t'"
proof -
  from res obtain m where m: "t_member t th = Some m"
    by (auto simp: human_input_def outcome_simps)
  define t1 where "t1 = (if \<not> reserved m \<or> m_status m = Paused
      then set_member th (reserve_work m) t else t)"
  have ok1: "tree_ok t1"
    unfolding t1_def using ok by (auto intro!: tree_ok_set_member [OF ok m] member_step_reserve_work)
  have calm1: "calm_tree t t1"
    unfolding t1_def using m by (auto simp: wait_ownedI intro!: calm_set_member)
  show ?thesis
  proof (cases "m_parent m = ''''")
    case True
    with res m have "\<exists>y. host_human_input t th = Changed t' y"
      by (auto simp: human_input_def outcome_simps split: if_splits)
    with ser show ?thesis using calm_serial calm_host_human_input by blast
  next
    case False
    with res m obtain t2 y m2 t3 e where s: "host_human_input t1 th = Changed t2 y"
        "t_member t2 th = Some m2"
        "claim_effect th eid (append_effect
            (human_effect th eid (m_generation m2) (m_status m)) t2) = Changed t3 (Some e)" "t' = t3"
      unfolding human_input_def t1_def
      by (auto simp: outcome_simps Let_def split: if_splits option.splits)
    let ?h = "human_effect th eid (m_generation m2) (m_status m)"
    have ok2: "tree_ok t2" using tree_ok_host_human_input [OF ok1 s(1)] .
    have "effect_good t2 ?h"
      using s(2) by (simp add: effect_good_def human_effect_def create_good_def effect_step_def
          task_of_def)
    then have ok3: "tree_ok (append_effect ?h t2)" using ok2 by (simp add: tree_ok_append_effect)
    have "calm_tree t2 (append_effect ?h t2)"
      by (rule calm_append_effect) (simp add: owned_def human_effect_def)
    then have "calm_tree t (append_effect ?h t2)"
      by (rule calm_tree_trans [OF calm_tree_trans [OF calm1 calm_host_human_input [OF s(1)]]])
    from serial_claim_effect [OF ok3 calm_serial [OF this ser] s(3)] s(4) show ?thesis by simp
  qed
qed

lemma serial_run_op:
  assumes ok: "tree_ok t" and ser: "serial t" and res: "run_op env op t = Changed t' fs"
  shows "serial t'"
proof (cases "(\<exists>th eid. op = OpHumanInput th eid) \<or> (\<exists>c eid. op = OpClaimEffect c eid)
    \<or> (\<exists>c eid rc. op = OpEffectAcknowledged c eid rc)")
  case True
  with ok ser res show ?thesis
    by (auto simp: outcome_simps dest: serial_human_input serial_claim_effect
        intro: calm_serial [OF calm_effect_acknowledged])
next
  case False
  with res have "calm_tree t t'"
    by (cases op) (simp_all add: outcome_simps, ((elim exE conjE)?, erule calm_closures)+)
  with ser show ?thesis using calm_serial by blast
qed

lemma calm_detach: "calm_tree t (detach_tree t)"
proof -
  have "t_member (detach_tree t) k = map_option detach_member (t_member t k)" for k
    by (simp add: detach_tree_def map_of_map_value [of "\<lambda>_. detach_member"])
  moreover have "wait_host_owned (detach_member m) = wait_host_owned m" for m
    by (cases "m_wait m") (auto simp: wait_host_owned_def detach_member_def detach_wait_def
        detach_effect_def)
  moreover have "calm_effects es (map detach_effect es)" for es
    by (rule calm_effects_map) (auto simp: calm_def same_key_def owned_def detach_effect_def
        effect_step_def)
  ultimately show ?thesis
    by (auto simp: calm_tree_def detach_tree_def wait_owned_def split: option.splits)
qed

lemma serial_new_tree: "member_good th m \<Longrightarrow> serial (new_tree th m)"
  by (simp add: serial_def lanes_serial_def first_owned_def wakes_serial_def new_tree_def)

lemma reachable_serial: "reachable env t \<Longrightarrow> serial t"
proof (induction rule: reachable.induct)
  case (admit th m)
  then show ?case by (simp add: serial_new_tree)
next
  case (step t op t' fs)
  then show ?case using serial_run_op reachable_tree_ok by blast
next
  case (restore t th t')
  have "calm_tree t (pause '''' (detach_tree t))"
    by (rule calm_tree_trans [OF calm_detach calm_pause])
  moreover have "calm_tree (pause '''' (detach_tree t)) t'"
    using calm_select_root [of th "pause '''' (detach_tree t)" t' "()"] restore
    by (simp add: select_root_closure_def)
  ultimately show ?case using restore calm_serial calm_tree_trans by blast
qed

end
