(* ===== verification/Interfaces.thy ===== *)
theory Interfaces
  imports Prelude
begin

text \<open>
  The contracts the components share, as locales: a keyed store (what a lookup returns after
  a write), a system whose steps keep an invariant, and an ordered system whose steps never
  move a measure back.  Each is interpreted on the model's own definitions in the theory of
  the component that provides it.
\<close>

section \<open>A keyed store\<close>

locale keyed_store =
  fixes get :: "'s \<Rightarrow> 'k \<Rightarrow> 'v option"
    and put :: "'k \<Rightarrow> 'v \<Rightarrow> 's \<Rightarrow> 's"
  assumes get_put: "get (put k v s) j = (if j = k then Some v else get s j)"
begin

lemma get_put_same: "get (put k v s) k = Some v"
  by (simp add: get_put)

lemma get_put_other: "j \<noteq> k \<Longrightarrow> get (put k v s) j = get s j"
  by (simp add: get_put)

lemma dom_put: "{j. get (put k v s) j \<noteq> None} = insert k {j. get s j \<noteq> None}"
  by (auto simp: get_put)

lemma put_overwrites: "get (put k v (put k w s)) j = get (put k v s) j"
  by (simp add: get_put)

text \<open>A property of every stored value survives the writes of values that have it.\<close>

lemma put_keeps:
  assumes "\<And>j v. get s j = Some v \<Longrightarrow> P j v" and "P k v"
  shows "get (put k v s) j = Some w \<Longrightarrow> P j w"
  using assms by (auto simp: get_put split: if_splits)

end

section \<open>A codec\<close>

text \<open>What is printed from a valid value is read back as that value.\<close>

locale codec =
  fixes print :: "'v \<Rightarrow> 'c"
    and read :: "'c \<Rightarrow> 'v option"
    and valid :: "'v \<Rightarrow> bool"
  assumes read_print: "valid v \<Longrightarrow> read (print v) = Some v"
begin

lemma print_inj: "valid v \<Longrightarrow> valid w \<Longrightarrow> print v = print w \<Longrightarrow> v = w"
  using read_print by (metis option.inject)

lemma inj_on_print: "inj_on print {v. valid v}"
  by (rule inj_onI) (simp add: print_inj)

lemma read_print_list: "list_all valid vs \<Longrightarrow> map read (map print vs) = map Some vs"
  by (induction vs) (simp_all add: read_print)

end

section \<open>A system whose steps keep an invariant\<close>

locale step_system =
  fixes step :: "'op \<Rightarrow> 's \<Rightarrow> 's"
    and allowed :: "'op \<Rightarrow> bool"
    and inv :: "'s \<Rightarrow> bool"
  assumes step_inv: "inv s \<Longrightarrow> allowed op \<Longrightarrow> inv (step op s)"
begin

lemma run_inv: "inv s \<Longrightarrow> list_all allowed ops \<Longrightarrow> inv (fold step ops s)"
  by (induction ops arbitrary: s) (auto intro: step_inv)

lemma run_invariant_prefix:
  "inv s \<Longrightarrow> list_all allowed (xs @ ys) \<Longrightarrow> inv (fold step xs s)"
  by (rule run_inv) auto

end

section \<open>A system that moves forward\<close>

locale forward_system = step_system +
  fixes le :: "'b \<Rightarrow> 'b \<Rightarrow> bool"
  assumes le_refl: "le s s"
    and le_trans: "le s t \<Longrightarrow> le t u \<Longrightarrow> le s u"
    and step_le: "inv s \<Longrightarrow> allowed op \<Longrightarrow> le s (step op s)"
begin

lemma run_le: "inv s \<Longrightarrow> list_all allowed ops \<Longrightarrow> le s (fold step ops s)"
proof (induction ops arbitrary: s)
  case Nil
  show ?case by (simp add: le_refl)
next
  case (Cons op ops)
  have "le s (step op s)" using step_le Cons.prems by simp
  moreover have "le (step op s) (fold step ops (step op s))"
    using Cons.IH step_inv Cons.prems by simp
  ultimately show ?case using le_trans by simp
qed

text \<open>The state reached by a shorter run is never ahead of the one reached by a longer one.\<close>

lemma run_split_le:
  "inv s \<Longrightarrow> list_all allowed (xs @ ys) \<Longrightarrow> le (fold step xs s) (fold step (xs @ ys) s)"
  using run_le [OF run_inv] by simp

end

end
