(* ===== verification/Control_Service.thy ===== *)
theory Control_Service
  imports Control_Serial Interfaces
begin

text \<open>
  The service over the logical trees (\<open>store.go\<close>, \<open>features.go\<close>, \<open>import.go\<close>): the index
  of admitted trees, the transaction every closure runs in (\<open>update\<close> and \<open>publish\<close>), the
  admission and restoration of roots, the retained records, and the counts of feature use.
  The encoding of a record, the digest of a name, the outcome of a history transaction and
  the namespace index belong to other packages and are the fields of \<open>host\<close>.
\<close>

section \<open>State\<close>

record session =
  ss_thread :: string
  ss_namespace :: string

record owner =
  ow_session :: session
  ow_state :: tree

record feature_use =
  fu_compactions :: "64 word"
  fu_self_compactions :: "64 word"
  fu_compaction_preloads :: "64 word"
  fu_spawns :: "64 word"
  fu_spawn_preloads :: "64 word"
  fu_preload_rejections :: "64 word"
  fu_finals :: "64 word"
  fu_completion_changes :: "64 word"
  fu_messages :: "64 word"
  fu_side_questions :: "64 word"
  fu_side_question_rejections :: "64 word"
  fu_side_question_failures :: "64 word"
  fu_waits :: "64 word"
  fu_all_waits :: "64 word"

definition zero_use :: feature_use where
  "zero_use = \<lparr>fu_compactions = 0, fu_self_compactions = 0, fu_compaction_preloads = 0,
     fu_spawns = 0, fu_spawn_preloads = 0, fu_preload_rejections = 0, fu_finals = 0,
     fu_completion_changes = 0, fu_messages = 0, fu_side_questions = 0,
     fu_side_question_rejections = 0, fu_side_question_failures = 0, fu_waits = 0,
     fu_all_waits = 0\<rparr>"

text \<open>
  An owner is in the index once its first publication succeeded; \<open>sv_disk\<close> holds the
  retained records by name.
\<close>

record service =
  sv_trees :: "(string \<times> owner) list"
  sv_features :: "(string \<times> feature_use) list"
  sv_compactions :: "(string \<times> string) list"
  sv_disk :: "(string \<times> string) list"

record host =
  h_encode :: "tree \<Rightarrow> string option"
  h_decode :: "string \<Rightarrow> tree option"
  h_digest :: "string \<Rightarrow> string"
  h_commit :: "string \<Rightarrow> string \<Rightarrow> error option"
  h_read_fault :: "string \<Rightarrow> error option"
  h_namespace :: "string \<Rightarrow> error + string"

definition new_service :: "(string \<times> string) list \<Rightarrow> service" where
  "new_service disk = \<lparr>sv_trees = [], sv_features = [], sv_compactions = [], sv_disk = disk\<rparr>"

section \<open>Records\<close>

definition max_record_bytes :: nat where
  "max_record_bytes = 32 * 2 ^ 20"

definition checkpoint_version :: int where
  "checkpoint_version = 4"

definition record_name :: "host \<Rightarrow> string \<Rightarrow> string" where
  "record_name h root = ''threadcontrol-tree-'' @ h_digest h root"

text \<open>A read finds a record, finds none, or fails.\<close>

definition read_record :: "host \<Rightarrow> service \<Rightarrow> string \<Rightarrow> error + string option" where
  "read_record h sv name =
    (case h_read_fault h name of Some e \<Rightarrow> Inl e | None \<Rightarrow> Inr (alist_get (sv_disk sv) name))"

definition root_entry :: "tree \<Rightarrow> string \<Rightarrow> bool" where
  "root_entry t k \<longleftrightarrow> (case t_member t k of None \<Rightarrow> False
     | Some m \<Rightarrow> m_parent m = '''' \<and> m_task m = ''/root'')"

definition decode_tree :: "host \<Rightarrow> string \<Rightarrow> string \<Rightarrow> error + tree" where
  "decode_tree h data root =
    (case h_decode h data of
       None \<Rightarrow> Inl (Err ''decode thread-control checkpoint'')
     | Some t \<Rightarrow>
        if t_version t \<noteq> checkpoint_version \<or> \<not> root_entry t root \<or> \<not> root_entry t (t_root t)
        then Inl (Err ''thread-control checkpoint identity mismatch'')
        else if \<not> list_all (\<lambda>(k, m). k = m_thread m \<and> m_session m \<noteq> '''') (t_members t)
        then Inl (Err ''invalid retained member identity'')
        else Inr t)"

text \<open>\<open>treeOwner.publish\<close>: write the record, then make the tree current.\<close>

definition publish :: "host \<Rightarrow> session \<Rightarrow> tree \<Rightarrow> service \<Rightarrow> error + service" where
  "publish h ss t sv =
    (case h_encode h t of
       None \<Rightarrow> Inl (Err ''encode thread-control checkpoint'')
     | Some data \<Rightarrow>
        if max_record_bytes < length data
        then Inl (Err ''thread-control checkpoint exceeds retained record limit'')
        else
          let name = record_name h (ss_namespace ss)
          in case h_commit h name data of
               Some e \<Rightarrow> Inl e
             | None \<Rightarrow> Inr (sv\<lparr>sv_disk := alist_put name data (sv_disk sv),
                 sv_trees := alist_put (ss_thread ss) \<lparr>ow_session = ss, ow_state = t\<rparr> (sv_trees sv)\<rparr>))"

section \<open>Transactions\<close>

definition owner_of :: "service \<Rightarrow> string \<Rightarrow> owner option" where
  "owner_of sv thread =
     find (\<lambda>ow. t_member (ow_state ow) thread \<noteq> None) (map snd (sv_trees sv))"

text \<open>
  \<open>Service.update\<close>: the closure sees a copy of the current tree; its result is published
  unless it failed or reported no change.
\<close>

definition update ::
    "host \<Rightarrow> string \<Rightarrow> (tree \<Rightarrow> (tree, 'a) outcome) \<Rightarrow> service \<Rightarrow> error + service \<times> 'a" where
  "update h thread mutate sv =
    (case owner_of sv thread of
       None \<Rightarrow> Inl NotAdmitted
     | Some ow \<Rightarrow>
        (case mutate (ow_state ow) of
           Fail e \<Rightarrow> Inl e
         | Unchanged a \<Rightarrow> Inr (sv, a)
         | Changed t a \<Rightarrow>
            (case publish h (ow_session ow) t sv of
               Inl e \<Rightarrow> Inl e
             | Inr sv' \<Rightarrow> Inr (sv', a))))"

definition sv_member :: "service \<Rightarrow> string \<Rightarrow> member option" where
  "sv_member sv thread =
    (case owner_of sv thread of None \<Rightarrow> None | Some ow \<Rightarrow> t_member (ow_state ow) thread)"

section \<open>Feature use\<close>

fun use_get :: "feature \<Rightarrow> feature_use \<Rightarrow> 64 word" where
  "use_get FeatureCompaction u = fu_compactions u"
| "use_get FeatureSelfCompaction u = fu_self_compactions u"
| "use_get FeatureCompactionPreload u = fu_compaction_preloads u"
| "use_get FeatureSpawn u = fu_spawns u"
| "use_get FeatureSpawnPreload u = fu_spawn_preloads u"
| "use_get FeaturePreloadRejection u = fu_preload_rejections u"
| "use_get FeatureFinal u = fu_finals u"
| "use_get FeatureCompletionChanges u = fu_completion_changes u"
| "use_get FeatureMessage u = fu_messages u"
| "use_get FeatureSideQuestion u = fu_side_questions u"
| "use_get FeatureSideQuestionRejection u = fu_side_question_rejections u"
| "use_get FeatureSideQuestionFailure u = fu_side_question_failures u"
| "use_get FeatureWait u = fu_waits u"
| "use_get FeatureWaitAll u = fu_all_waits u"

fun use_put :: "feature \<Rightarrow> 64 word \<Rightarrow> feature_use \<Rightarrow> feature_use" where
  "use_put FeatureCompaction n u = u\<lparr>fu_compactions := n\<rparr>"
| "use_put FeatureSelfCompaction n u = u\<lparr>fu_self_compactions := n\<rparr>"
| "use_put FeatureCompactionPreload n u = u\<lparr>fu_compaction_preloads := n\<rparr>"
| "use_put FeatureSpawn n u = u\<lparr>fu_spawns := n\<rparr>"
| "use_put FeatureSpawnPreload n u = u\<lparr>fu_spawn_preloads := n\<rparr>"
| "use_put FeaturePreloadRejection n u = u\<lparr>fu_preload_rejections := n\<rparr>"
| "use_put FeatureFinal n u = u\<lparr>fu_finals := n\<rparr>"
| "use_put FeatureCompletionChanges n u = u\<lparr>fu_completion_changes := n\<rparr>"
| "use_put FeatureMessage n u = u\<lparr>fu_messages := n\<rparr>"
| "use_put FeatureSideQuestion n u = u\<lparr>fu_side_questions := n\<rparr>"
| "use_put FeatureSideQuestionRejection n u = u\<lparr>fu_side_question_rejections := n\<rparr>"
| "use_put FeatureSideQuestionFailure n u = u\<lparr>fu_side_question_failures := n\<rparr>"
| "use_put FeatureWait n u = u\<lparr>fu_waits := n\<rparr>"
| "use_put FeatureWaitAll n u = u\<lparr>fu_all_waits := n\<rparr>"

definition all_features :: "feature list" where
  "all_features = [FeatureCompaction, FeatureSelfCompaction, FeatureCompactionPreload,
     FeatureSpawn, FeatureSpawnPreload, FeaturePreloadRejection, FeatureFinal,
     FeatureCompletionChanges, FeatureMessage, FeatureSideQuestion,
     FeatureSideQuestionRejection, FeatureSideQuestionFailure, FeatureWait, FeatureWaitAll]"

definition use_incr :: "feature \<Rightarrow> feature_use \<Rightarrow> feature_use" where
  "use_incr f u = use_put f (use_get f u + 1) u"

definition use_add :: "feature_use \<Rightarrow> feature_use \<Rightarrow> feature_use" where
  "use_add u other = fold (\<lambda>f u. use_put f (use_get f u + use_get f other) u) all_features u"

definition observe_feature :: "string \<Rightarrow> feature list \<Rightarrow> service \<Rightarrow> service" where
  "observe_feature thread fs sv =
    (if thread = '''' then sv
     else sv\<lparr>sv_features := alist_put thread (fold use_incr fs
            (alist_zero zero_use (sv_features sv) thread)) (sv_features sv)\<rparr>)"

definition observe_compaction :: "string \<Rightarrow> string \<Rightarrow> service \<Rightarrow> service" where
  "observe_compaction thread item sv =
    (if thread = '''' \<or> item = '''' \<or> (thread, item) \<in> set (sv_compactions sv) then sv
     else observe_feature thread [FeatureCompaction]
            (sv\<lparr>sv_compactions := (thread, item) # sv_compactions sv\<rparr>))"

definition sv_descendants :: "service \<Rightarrow> string \<Rightarrow> participant list" where
  "sv_descendants sv thread =
    (case owner_of sv thread of None \<Rightarrow> []
     | Some ow \<Rightarrow> descendant_participants thread (ow_state ow))"

definition feature_use_of :: "service \<Rightarrow> string \<Rightarrow> feature_use \<times> feature_use \<times> string list" where
  "feature_use_of sv thread =
    (let threads = map p_thread (sv_descendants sv thread)
     in (alist_zero zero_use (sv_features sv) thread,
         fold (\<lambda>k u. use_add u (alist_zero zero_use (sv_features sv) k)) threads zero_use,
         threads))"

section \<open>Roots\<close>

text \<open>
  \<open>admitRoot\<close>: a retained record is paused and its root selected; without a record the given
  root starts a tree, and without a root nothing is admitted.
\<close>

definition admit_root_tree ::
    "host \<Rightarrow> session \<Rightarrow> member option \<Rightarrow> service \<Rightarrow> error + tree option" where
  "admit_root_tree h ss root sv =
    (case read_record h sv (record_name h (ss_namespace ss)) of
       Inl e \<Rightarrow> Inl e
     | Inr None \<Rightarrow> Inr (map_option (\<lambda>m. new_tree (ss_thread ss) (detach_member m)) root)
     | Inr (Some data) \<Rightarrow>
        (case decode_tree h data (ss_namespace ss) of
           Inl e \<Rightarrow> Inl e
         | Inr t \<Rightarrow>
            (case select_root (ss_thread ss) (pause '''' t) of
               Inl e \<Rightarrow> Inl e
             | Inr t' \<Rightarrow> Inr (Some t'))))"

definition admit_root_with :: "host \<Rightarrow> session \<Rightarrow> member option \<Rightarrow> service \<Rightarrow> error + service" where
  "admit_root_with h ss root sv =
    (if alist_get (sv_trees sv) (ss_thread ss) \<noteq> None
     then Inl (Err ''thread-control root is already admitted'')
     else case admit_root_tree h ss root sv of
       Inl e \<Rightarrow> Inl e
     | Inr None \<Rightarrow> Inr sv
     | Inr (Some t) \<Rightarrow> publish h ss t sv)"

definition admit_root :: "host \<Rightarrow> session \<Rightarrow> member \<Rightarrow> service \<Rightarrow> error + service" where
  "admit_root h ss root sv =
    (if ss_thread ss = '''' \<or> m_thread root \<noteq> ss_thread ss \<or> m_parent root \<noteq> ''''
        \<or> m_task root \<noteq> ''/root'' \<or> m_session root = ''''
     then Inl (Err ''invalid admitted thread-control root'')
     else admit_root_with h ss (Some root) sv)"

definition restore_root :: "host \<Rightarrow> session \<Rightarrow> service \<Rightarrow> error + service" where
  "restore_root h ss sv =
    (if ss_thread ss = '''' then Inl (Err ''recovery requires a selected history session'')
     else case sv_member sv (ss_thread ss) of
       Some m \<Rightarrow>
         if m_parent m \<noteq> '''' \<or> m_audience_admitted m then Inr sv
         else map_sum (\<lambda>e. e) fst (update h (ss_thread ss) (select_root_closure (ss_thread ss)) sv)
     | None \<Rightarrow> admit_root_with h ss None sv)"

text \<open>\<open>ReadFamily\<close>: the navigation metadata of a retained record, with the bytes read.\<close>

definition family_member :: "string \<Rightarrow> string \<Rightarrow> member \<Rightarrow> participant" where
  "family_member tree_root root m =
    (let p = member_participant m
     in if p_parent p = tree_root then p\<lparr>p_parent := root\<rparr> else p)"

definition family_of_record :: "tree \<Rightarrow> string \<Rightarrow> error + participant list" where
  "family_of_record t thread =
    (case t_member t thread of
       None \<Rightarrow> Inl (Err ''selected thread is not an admitted retained family member'')
     | Some sel \<Rightarrow>
        if \<not> m_audience_admitted sel \<and> (m_parent sel \<noteq> '''' \<or> m_task sel \<noteq> ''/root'')
        then Inl (Err ''selected thread is not an admitted retained family member'')
        else
          let root = (if m_parent sel = '''' then m_thread sel else t_root t)
          in Inr (sort_key p_task (map (family_member (t_root t) root)
               (filter (\<lambda>m. m_thread m = root \<or> (m_audience_admitted m \<and> m_parent m \<noteq> ''''))
                  (map snd (t_members t))))))"

definition read_family :: "host \<Rightarrow> service \<Rightarrow> string \<Rightarrow> error + participant list \<times> nat" where
  "read_family h sv thread =
    (if thread = '''' then Inl (Err ''retained family requires a history store and thread'')
     else case h_namespace h thread of
       Inl e \<Rightarrow> Inl e
     | Inr root \<Rightarrow>
        (case read_record h sv (record_name h root) of
           Inl e \<Rightarrow> Inl e
         | Inr None \<Rightarrow> Inr ([], 0)
         | Inr (Some data) \<Rightarrow>
            (case decode_tree h data root of
               Inl e \<Rightarrow> Inl e
             | Inr t \<Rightarrow>
                (case family_of_record t thread of
                   Inl e \<Rightarrow> Inl e
                 | Inr ps \<Rightarrow> Inr (ps, length data)))))"

text \<open>\<open>Caller\<close>, \<open>Origin\<close> and the retained fork imports.\<close>

definition sv_caller :: "service \<Rightarrow> identity \<Rightarrow> error + member" where
  "sv_caller sv caller =
    (case owner_of sv (i_thread caller) of None \<Rightarrow> Inl NotAdmitted
     | Some ow \<Rightarrow> admitted (ow_state ow) caller)"

definition import_path :: "service \<Rightarrow> string \<Rightarrow> string \<Rightarrow> error + string" where
  "import_path sv thread name =
    (case owner_of sv thread of
       None \<Rightarrow> Inl NotAdmitted
     | Some _ \<Rightarrow>
        if CHR ''/'' \<in> set name \<or> \<not> prefix ''threadcontrol-import-'' name
        then Inl (Err ''invalid retained fork import'') else Inr name)"

definition import_name :: "host \<Rightarrow> identity \<Rightarrow> string" where
  "import_name h caller =
     ''threadcontrol-import-'' @ h_digest h (i_thread caller @ [CHR 0x00] @ i_call caller)"

definition publish_import ::
    "host \<Rightarrow> identity \<Rightarrow> string \<Rightarrow> service \<Rightarrow> error + service \<times> string" where
  "publish_import h caller data sv =
    (case sv_caller sv caller of
       Inl e \<Rightarrow> Inl e
     | Inr _ \<Rightarrow>
        let name = import_name h caller
        in case read_record h sv name of
             Inl e \<Rightarrow> Inl e
           | Inr prior \<Rightarrow>
              if prior \<noteq> None \<and> prior \<noteq> Some data
              then Inl (Err ''conflicting retained fork preparation'')
              else case h_commit h name data of
                Some e \<Rightarrow> Inl e
              | None \<Rightarrow> Inr (sv\<lparr>sv_disk := alist_put name data (sv_disk sv)\<rparr>, name))"

section \<open>Operations of the service\<close>

fun op_thread :: "operation \<Rightarrow> string" where
  "op_thread (OpRequestStarted caller root) = i_thread caller"
| "op_thread (OpAnswerCompleted th turn item txt) = th"
| "op_thread (OpInputConsumed caller cs) = i_thread caller"
| "op_thread (OpCheckpointWait th turn) = th"
| "op_thread (OpHostCompleted th turn st failure) = th"
| "op_thread (OpPause th) = th"
| "op_thread (OpHumanInput th eid) = th"
| "op_thread (OpHumanInputCommitted th turn eid) = th"
| "op_thread (OpHumanInterrupt th wid) = th"
| "op_thread (OpRegisterWait caller q) = i_thread caller"
| "op_thread (OpExecution th turn item handle ok) = th"
| "op_thread (OpClaimLocalStop th turn item) = th"
| "op_thread (OpRejectCompaction th turn item reason) = th"
| "op_thread (OpPrepareWake th now) = th"
| "op_thread (OpWaitForProvider th turn deadline capacity now) = th"
| "op_thread (OpProviderRecovered th turn) = th"
| "op_thread (OpPrepareAction caller target kind msg) = i_thread caller"
| "op_thread (OpReserveSpawn caller q) = i_thread caller"
| "op_thread (OpClaimEffect caller eid) = caller"
| "op_thread (OpEffectAcknowledged caller eid rc) = caller"
| "op_thread (OpReceiveMessage peer target call msg) = target"
| "op_thread (OpRefreshForeignWait th wid state) = th"
| "op_thread (OpRetainInstructions th path parts) = th"
| "op_thread (OpRetainWaitMetrics th wid mt) = th"
| "op_thread (OpSelectRoot th) = th"

text \<open>A successful operation counts its features for the thread that used them.\<close>

definition serve :: "control_env \<Rightarrow> host \<Rightarrow> operation \<Rightarrow> service \<Rightarrow> error + service" where
  "serve env h op sv =
    (case update h (op_thread op) (run_op env op) sv of
       Inl e \<Rightarrow> Inl e
     | Inr (sv', fs) \<Rightarrow> Inr (if fs = [] then sv' else observe_feature (op_thread op) fs sv'))"

text \<open>A step of a launch: an operation, an admission, a restoration or an observation.\<close>

datatype launch_step =
    Serve operation
  | AdmitRoot session member
  | RestoreRoot session
  | PublishImport identity string
  | ObserveFeatures string "feature list"
  | ObserveCompaction string string

fun launch :: "control_env \<Rightarrow> host \<Rightarrow> launch_step \<Rightarrow> service \<Rightarrow> service" where
  "launch env h (Serve op) sv = (case serve env h op sv of Inl _ \<Rightarrow> sv | Inr sv' \<Rightarrow> sv')"
| "launch env h (AdmitRoot ss m) sv = (case admit_root h ss m sv of Inl _ \<Rightarrow> sv | Inr sv' \<Rightarrow> sv')"
| "launch env h (RestoreRoot ss) sv = (case restore_root h ss sv of Inl _ \<Rightarrow> sv | Inr sv' \<Rightarrow> sv')"
| "launch env h (PublishImport caller data) sv =
     (case publish_import h caller data sv of Inl _ \<Rightarrow> sv | Inr (sv', _) \<Rightarrow> sv')"
| "launch env h (ObserveFeatures th fs) sv = observe_feature th fs sv"
| "launch env h (ObserveCompaction th item) sv = observe_compaction th item sv"

section \<open>The invariant of the service\<close>

text \<open>
  What the service relies on from the JSON codec: decoding an encoded tree gives the tree
  back, less the fields that are not written.
\<close>

definition codec_ok :: "host \<Rightarrow> bool" where
  "codec_ok h \<longleftrightarrow> (\<forall>t data. h_encode h t = Some data \<longrightarrow> h_decode h data = Some (detach_tree t))"

text \<open>Import records and tree records have different names.\<close>

lemma record_names_differ: "record_name h root \<noteq> import_name h caller"
  by (simp add: record_name_def import_name_def)

text \<open>A good tree is well formed and serial.\<close>

definition tree_good :: "tree \<Rightarrow> bool" where
  "tree_good t \<longleftrightarrow> tree_ok t \<and> serial t"

lemma tree_good_run_op: "tree_good t \<Longrightarrow> run_op env op t = Changed t' fs \<Longrightarrow> tree_good t'"
  by (simp add: tree_good_def) (blast intro: tree_ok_run_op serial_run_op)

lemma tree_good_select:
  assumes "tree_good t" and "select_root th t = Inr t'"
  shows "tree_good t'"
proof -
  from assms(2) have "select_root_closure th t = Changed t' ()" by (simp add: select_root_closure_def)
  with assms show ?thesis
    using calm_serial [OF calm_select_root] tree_ok_select_root by (auto simp: tree_good_def)
qed

lemma tree_good_pause: "tree_good t \<Longrightarrow> tree_good (pause th t)"
  using calm_serial [OF calm_pause] by (simp add: tree_good_def)

lemma tree_good_detach: "tree_good t \<Longrightarrow> tree_good (detach_tree t)"
  using calm_serial [OF calm_detach] by (simp add: tree_good_def)

definition disk_good :: "host \<Rightarrow> (string \<times> string) list \<Rightarrow> bool" where
  "disk_good h disk \<longleftrightarrow> (\<forall>root data t. alist_get disk (record_name h root) = Some data
     \<longrightarrow> h_decode h data = Some t \<longrightarrow> tree_good t)"

definition service_ok :: "host \<Rightarrow> service \<Rightarrow> bool" where
  "service_ok h sv \<longleftrightarrow> (\<forall>k ow. alist_get (sv_trees sv) k = Some ow \<longrightarrow> tree_good (ow_state ow))
     \<and> distinct (map fst (sv_trees sv)) \<and> disk_good h (sv_disk sv)"

interpretation sv_store: keyed_store alist_get alist_put
  by unfold_locales simp

lemma disk_good_put:
  assumes "disk_good h disk" and "\<And>t. h_decode h data = Some t \<Longrightarrow> tree_good t"
  shows "disk_good h (alist_put name data disk)"
  using assms by (auto simp: disk_good_def split: if_splits)

lemma service_ok_publish:
  assumes codec: "codec_ok h" and sv: "service_ok h sv" and t: "tree_good t"
    and res: "publish h ss t sv = Inr sv'"
  shows "service_ok h sv'"
proof -
  from res obtain data where data: "h_encode h t = Some data"
    and sv': "sv' = sv\<lparr>sv_disk := alist_put (record_name h (ss_namespace ss)) data (sv_disk sv),
        sv_trees := alist_put (ss_thread ss) \<lparr>ow_session = ss, ow_state = t\<rparr> (sv_trees sv)\<rparr>"
    by (auto simp: publish_def Let_def split: option.splits if_splits)
  have "h_decode h data = Some (detach_tree t)" using codec data by (simp add: codec_ok_def)
  then have "disk_good h (sv_disk sv')"
    using sv t by (auto simp: sv' service_ok_def intro!: disk_good_put tree_good_detach)
  with sv t show ?thesis
    by (auto simp: sv' service_ok_def alist_put_distinct split: if_splits)
qed

lemma owner_of_Some:
  assumes "owner_of sv th = Some ow"
  shows "\<exists>k. (k, ow) \<in> set (sv_trees sv)" "t_member (ow_state ow) th \<noteq> None"
  using assms by (auto simp: owner_of_def find_Some_iff set_conv_nth)
    (metis (no_types, lifting) nth_mem prod.collapse)

lemma service_ok_owner:
  assumes "service_ok h sv" and "owner_of sv th = Some ow"
  shows "tree_good (ow_state ow)"
proof -
  from owner_of_Some(1) [OF assms(2)] obtain k where "(k, ow) \<in> set (sv_trees sv)" by blast
  with assms(1) have "alist_get (sv_trees sv) k = Some ow" by (simp add: service_ok_def)
  with assms(1) show ?thesis by (simp add: service_ok_def)
qed

lemma service_ok_update:
  assumes codec: "codec_ok h" and sv: "service_ok h sv" and res: "update h th f sv = Inr (sv', a)"
    and good: "\<And>t t' b. tree_good t \<Longrightarrow> f t = Changed t' b \<Longrightarrow> tree_good t'"
  shows "service_ok h sv'"
proof -
  from res obtain ow where ow: "owner_of sv th = Some ow"
    by (auto simp: update_def split: option.splits)
  with res sv show ?thesis
    using service_ok_publish [OF codec sv good [OF service_ok_owner [OF sv ow]]]
    by (auto simp: update_def split: outcome.splits sum.splits)
qed

lemma service_ok_frame [simp]:
  "service_ok h (sv\<lparr>sv_features := fs\<rparr>) = service_ok h sv"
  "service_ok h (sv\<lparr>sv_compactions := cs\<rparr>) = service_ok h sv"
  "service_ok h (observe_feature th gs sv) = service_ok h sv"
  by (simp_all add: service_ok_def observe_feature_def)

text \<open>An admitted root starts out well formed; the caller of \<open>AdmitRoot\<close> builds it so.\<close>

fun proper_step :: "launch_step \<Rightarrow> bool" where
  "proper_step (AdmitRoot ss m) = member_good (ss_thread ss) m"
| "proper_step _ = True"

lemma member_good_detach: "member_good k m \<Longrightarrow> member_good k (detach_member m)"
  using member_step_detach by (simp add: member_step_def)

lemma tree_good_new:
  assumes "valid_root th m" and "member_good th m"
  shows "tree_good (new_tree th (detach_member m))"
proof -
  have "valid_root th (detach_member m)" using assms(1) by (simp add: valid_root_def detach_member_def)
  then show ?thesis
    using assms(2) member_good_detach tree_ok_new_tree serial_new_tree by (simp add: tree_good_def)
qed

lemma admit_root_tree_good:
  assumes sv: "service_ok h sv" and res: "admit_root_tree h ss root sv = Inr (Some t)"
    and root: "\<And>m. root = Some m \<Longrightarrow> valid_root (ss_thread ss) m \<and> member_good (ss_thread ss) m"
  shows "tree_good t"
proof -
  from res consider (new) m where "root = Some m" "t = new_tree (ss_thread ss) (detach_member m)"
    | (old) data t0 where "alist_get (sv_disk sv) (record_name h (ss_namespace ss)) = Some data"
        "decode_tree h data (ss_namespace ss) = Inr t0" "select_root (ss_thread ss) (pause '''' t0) = Inr t"
    by (auto simp: admit_root_tree_def read_record_def split: sum.splits option.splits)
  then show ?thesis
  proof cases
    case new
    with root tree_good_new show ?thesis by auto
  next
    case old
    from old(2) have "h_decode h data = Some t0"
      by (auto simp: decode_tree_def split: option.splits if_splits)
    with sv old(1) have "tree_good t0" by (auto simp: service_ok_def disk_good_def)
    with tree_good_select [OF tree_good_pause old(3)] show ?thesis by simp
  qed
qed

lemma service_ok_admit_with:
  assumes codec: "codec_ok h" and sv: "service_ok h sv" and res: "admit_root_with h ss root sv = Inr sv'"
    and root: "\<And>m. root = Some m \<Longrightarrow> valid_root (ss_thread ss) m \<and> member_good (ss_thread ss) m"
  shows "service_ok h sv'"
proof -
  have "service_ok h s" if "admit_root_tree h ss root sv = Inr (Some t)" "publish h ss t sv = Inr s" for t s
    using service_ok_publish [OF codec sv admit_root_tree_good [OF sv that(1) root] that(2)] by blast
  with res sv show ?thesis
    by (auto simp: admit_root_with_def split: if_splits sum.splits option.splits)
qed

lemma service_ok_import:
  assumes sv: "service_ok h sv" and res: "publish_import h caller data sv = Inr (sv', name)"
  shows "service_ok h sv'"
proof -
  from res have "sv' = sv\<lparr>sv_disk := alist_put (import_name h caller) data (sv_disk sv)\<rparr>"
    by (auto simp: publish_import_def Let_def split: if_splits sum.splits option.splits)
  with sv record_names_differ show ?thesis
    by (auto simp: service_ok_def disk_good_def split: if_splits)
qed

lemma service_ok_serve:
  assumes codec: "codec_ok h" and sv: "service_ok h sv" and res: "serve env h op sv = Inr sv'"
  shows "service_ok h sv'"
  using res service_ok_update [OF codec sv _ tree_good_run_op]
  by (auto simp: serve_def split: sum.splits prod.splits if_splits)

lemma service_ok_restore:
  assumes codec: "codec_ok h" and sv: "service_ok h sv" and res: "restore_root h ss sv = Inr sv'"
  shows "service_ok h sv'"
proof -
  have sel: "tree_good t'" if "tree_good t" "select_root_closure th t = Changed t' b" for t t' b th
    using that tree_good_select by (auto simp: select_root_closure_def split: sum.splits)
  have upd: "service_ok h s"
    if "map_sum (\<lambda>e. e) fst (update h th (select_root_closure th) sv) = Inr s" for th s
    using that by (cases "update h th (select_root_closure th) sv")
      (auto intro: service_ok_update [OF codec sv] sel)
  from res sv show ?thesis
    using service_ok_admit_with [OF codec sv, of ss None]
    by (auto simp: restore_root_def upd split: if_splits option.splits)
qed

lemma service_ok_launch:
  assumes codec: "codec_ok h" and sv: "service_ok h sv" and st: "proper_step st"
  shows "service_ok h (launch env h st sv)"
proof (cases st)
  case (AdmitRoot ss m)
  have "service_ok h sv'" if "admit_root h ss m sv = Inr sv'" for sv'
    using that st AdmitRoot service_ok_admit_with [OF codec sv, of ss "Some m" sv']
    by (auto simp: admit_root_def valid_root_def split: if_splits)
  with sv AdmitRoot show ?thesis by (auto split: sum.splits)
qed (use sv service_ok_serve [OF codec sv] service_ok_restore [OF codec sv] service_ok_import [OF sv]
    in \<open>auto simp: observe_compaction_def split: sum.splits\<close>)

interpretation launches: step_system "launch env h" proper_step "\<lambda>sv. codec_ok h \<and> service_ok h sv"
  for env h
  by unfold_locales (simp add: service_ok_launch)

lemma service_ok_new: "disk_good h disk \<Longrightarrow> service_ok h (new_service disk)"
  by (simp add: service_ok_def new_service_def)

end
