(* ===== verification/Control_Examples.thy ===== *)
theory Control_Examples
  imports Control_Service
begin

text \<open>
  A run of thread control on concrete values, for the witnesses of the properties: a root
  session with one child that is created, admitted and started.  \<open>apply_op\<close> is one operation
  on a tree that keeps the tree when the operation fails or reports no change.
\<close>

definition apply_op :: "control_env \<Rightarrow> operation \<Rightarrow> tree \<Rightarrow> tree" where
  "apply_op env op t = (case run_op env op t of Changed t' _ \<Rightarrow> t' | _ \<Rightarrow> t)"

lemma reachable_apply_op: "reachable env t \<Longrightarrow> reachable env (apply_op env op t)"
  by (auto simp: apply_op_def intro: reachable.step split: outcome.splits)

interpretation trees: step_system "apply_op env" "\<lambda>_. True" "reachable env" for env
  by unfold_locales (rule reachable_apply_op)

definition demo_env :: control_env where
  "demo_env = \<lparr>ce_reload = \<lparr>reloads = (\<lambda>s. s \<noteq> ''''), completion_changes = (\<lambda>s. False)\<rparr>,
     ce_item_id = (\<lambda>s. ''i:'' @ s), ce_backoff = (\<lambda>i n. min (30 * second) (i * 2 ^ n))\<rparr>"

definition demo_root :: member where
  "demo_root = zero_member\<lparr>m_thread := ''r'', m_session := ''s'', m_task := ''/root'',
     m_turn := ''t1'', m_generation := 1, m_status := Working, m_host_running := True,
     m_audience_admitted := True, m_limits := \<lparr>l_min_wait_ms = 10000, l_max_wait_ms = 3600000\<rparr>\<rparr>"

definition demo_tree :: tree where
  "demo_tree = new_tree ''r'' demo_root"

definition demo_caller :: "string \<Rightarrow> identity" where
  "demo_caller call = \<lparr>i_thread = ''r'', i_session = ''s'', i_turn = ''t1'', i_call = call, i_item = ''m''\<rparr>"

definition demo_spawn :: spawn_request where
  "demo_spawn = \<lparr>sr_import = '''', sr_name = ''w'', sr_message = ''go'', sr_preload = '''',
     sr_arguments = '''', sr_settings = zero_settings\<lparr>s_workspace := ''/w''\<rparr>,
     sr_limits = \<lparr>l_min_wait_ms = 0, l_max_wait_ms = 0\<rparr>\<rparr>"

definition demo_receipt :: "step \<Rightarrow> receipt" where
  "demo_receipt phase = \<lparr>rc_thread = ''c'', rc_session = ''sc'', rc_path = '''', rc_turn = ''u1'',
     rc_error = '''', rc_phase = phase, rc_uncertain = False, rc_reconciled = False\<rparr>"

text \<open>The creation of a child, up to the dispatch of its initial input.\<close>

definition demo_creation :: "operation list" where
  "demo_creation = [OpReserveSpawn (demo_caller ''k'') demo_spawn,
     OpClaimEffect ''r'' ''k'', OpEffectAcknowledged ''r'' ''k'' (demo_receipt KCreate),
     OpClaimEffect ''r'' ''k'', OpEffectAcknowledged ''r'' ''k'' (demo_receipt KAssignmentInput),
     OpClaimEffect ''r'' ''k'', OpEffectAcknowledged ''r'' ''k'' (demo_receipt KAdmit),
     OpClaimEffect ''r'' ''k'']"

definition demo_child_tree :: tree where
  "demo_child_tree = fold (apply_op demo_env) demo_creation demo_tree"

lemma demo_tree_reachable: "reachable demo_env demo_tree"
  unfolding demo_tree_def
  by (rule reachable.admit)
    (simp_all add: valid_root_def demo_root_def member_good_def running_good_def waits_good_def
      zero_member_def)

lemma demo_child_reachable: "reachable demo_env demo_child_tree"
  unfolding demo_child_tree_def
  by (rule trees.run_inv) (simp_all add: demo_tree_reachable list_all_iff)

lemma demo_child_state:
  "map e_state (t_effects demo_child_tree) = [SDispatching]"
  by code_simp

end
