(* ===== verification/Control_Dispatch_Properties.thy ===== *)
theory Control_Dispatch_Properties
  imports Control_Examples
begin

text \<open>
  Properties of the service and of dispatch: the invariant of every launch, serialization,
  the claim and its order, acknowledgement, creation and transactions.
\<close>

section \<open>Every launch keeps its trees well formed\<close>








section \<open>Dispatch is serialized\<close>






section \<open>Claims\<close>

lemma find_index_update:
  "i < length xs \<Longrightarrow> P y = P (xs ! i) \<Longrightarrow> find_index P (xs[i := y]) = find_index P xs"
proof (induction xs arbitrary: i)
  case (Cons x xs)
  then show ?case by (cases i) auto
qed simp

lemma effect_ref_upd_effect:
  assumes "get_effect t r = Some e" and "e_caller e1 = e_caller e" and "e_id e1 = e_id e"
  shows "effect_ref (upd_effect r (\<lambda>_. e1) t) caller eid = effect_ref t caller eid"
proof (cases r)
  case (InTree i)
  with assms have i: "i < length (t_effects t)" "t_effects t ! i = e" by (auto split: if_splits)
  with InTree assms(2,3) show ?thesis
    by (simp add: effect_ref_def find_index_update cong: option.case_cong)
next
  case (InWait k)
  with assms show ?thesis
    by (auto simp: effect_ref_def bind_eq_Some_conv split: option.splits)
next
  case (InCompaction k)
  with assms show ?thesis
    by (auto simp: effect_ref_def bind_eq_Some_conv split: option.splits)
qed

text \<open>
  C7: a claim that returns an effect returns the pending or queued intent it names, now
  dispatching, and only while the host owns no other effect of that target, except that an
  interrupt may overtake an initial input.
\<close>

theorem claim_exclusive:
  assumes "reachable env t" and "claim_effect caller eid t = Changed t' (Some e)"
  shows "\<exists>e0. tree_effect t caller eid = Some e0 \<and> (e_state e0 = SPending \<or> e_state e0 = SQueued)
    \<and> e_state e = SDispatching \<and> e_caller e = caller \<and> e_id e = eid \<and> e_target e = e_target e0
    \<and> map_option e_state (tree_effect t' caller eid) = Some SDispatching
    \<and> (\<forall>other \<in> set (t_effects t). \<not> (e_caller other = caller \<and> e_id other = eid)
         \<and> e_target other = e_target e \<and> e_target e \<noteq> '''' \<and> host_owned (e_state other)
         \<longrightarrow> e_kind e = KInterrupt \<and> effect_step other = KInitial)"
proof -
  have ok: "tree_ok t" using reachable_tree_ok [OF assms(1)] .
  from claim_effect_cases [OF ok assms(2)] obtain r e0 t1 pre where
    c: "claim_dispatch caller eid t t' (Some e) r e0 t1 pre"
    by auto
  note c = c [unfolded claim_dispatch_def]
  from c have r: "effect_ref t caller eid = Some r" "effect_ref t1 caller eid = Some r"
    and e0: "get_effect t r = Some e0" "get_effect t1 r = Some e0" by auto
  from c have pre: "keeps_identity pre" "dispatch_at r pre t1 = Changed t' (Some e)" by auto
  from dispatch_at_Changed [OF e0(2) pre] obtain e1 where t': "t' = upd_effect r (\<lambda>_. e1) t1"
    and e1: "e_state e1 = SDispatching" "e_caller e1 = e_caller e0" "e_id e1 = e_id e0"
    and e: "e_state e = SDispatching" "e_caller e = e_caller e0" "e_id e = e_id e0"
      "e_target e = e_target e0" "e_kind e = e_kind e0"
    by auto
  have key: "e_caller e0 = caller" "e_id e0 = eid"
    using effect_ref_caller [OF ok r(1) e0(1)] effect_ref_get [OF r(1)] e0(1) by auto
  have "effect_ref t' caller eid = Some r"
    unfolding t' using effect_ref_upd_effect [OF e0(2) e1(2,3)] r(2) by simp
  then have "tree_effect t' caller eid = Some e1"
    unfolding tree_effect_def t' using get_upd_effect [OF e0(2)] by simp
  moreover have "e_kind e = KInterrupt \<and> effect_step other = KInitial"
    if "other \<in> set (t_effects t)" "\<not> (e_caller other = caller \<and> e_id other = eid)"
      "e_target other = e_target e" "e_target e \<noteq> ''''" "host_owned (e_state other)" for other
  proof -
    from c that have "other \<in> set (t_effects t1)" "owned other" by (auto simp: owned_def)
    with c that e show ?thesis by (auto simp: free_lane_def)
  qed
  ultimately show ?thesis using r(1) e0(1) c e e1 key by (auto simp: tree_effect_def)
qed

text \<open>Witness: the claim of the initial input of the child.\<close>

definition demo_admitted :: tree where
  "demo_admitted = fold (apply_op demo_env) (take 7 demo_creation) demo_tree"

lemma demo_admitted_reachable: "reachable demo_env demo_admitted"
  unfolding demo_admitted_def
  by (rule trees.run_inv) (simp_all add: demo_tree_reachable list_all_iff)

lemma demo_claim:
  "(case claim_effect ''r'' ''k'' demo_admitted of Changed t (Some e) \<Rightarrow>
      effect_step e = KInitial \<and> e_target e = ''c'' | _ \<Rightarrow> False)"
  by code_simp

theorem claim_exclusive_witness:
  "\<exists>t' e. claim_effect ''r'' ''k'' demo_admitted = Changed t' (Some e) \<and> e_state e = SDispatching"
proof -
  from demo_claim obtain t' e where c: "claim_effect ''r'' ''k'' demo_admitted = Changed t' (Some e)"
    by (auto split: outcome.splits option.splits)
  from claim_exclusive [OF demo_admitted_reachable c] c show ?thesis by blast
qed





text \<open>
  C20: work is only dispatched to a live reservation.  A claim that grants an initial input,
  a follow-up or a human input finds its target admitted to the audience, holding a
  reservation of the very generation the effect was made for.
\<close>

theorem claim_current_work:
  assumes "reachable env t" and "claim_effect caller eid t = Changed t' (Some e)"
    and "tree_effect t caller eid = Some e0"
    and "effect_step e0 = KInitial \<or> effect_step e0 = KFollowup \<or> effect_step e0 = KHuman"
  shows "\<exists>m. t_member t (e_target e0) = Some m \<and> m_audience_admitted m \<and> reserved m
    \<and> m_generation m = e_generation e0"
proof -
  have ok: "tree_ok t" using reachable_tree_ok [OF assms(1)] .
  from claim_effect_cases [OF ok assms(2)] obtain r e1 t1 pre where
    "claim_dispatch caller eid t t' (Some e) r e1 t1 pre" by auto
  note c = this [unfolded claim_dispatch_def]
  with assms(3) have "e1 = e0" by (auto simp: tree_effect_def)
  with c assms(4) show ?thesis
    by (auto simp: claim_step_def Let_def outcome_simps split: if_splits)
qed

theorem claim_current_work_witness:
  "\<exists>m. t_member demo_admitted ''c'' = Some m \<and> m_audience_admitted m \<and> reserved m"
proof -
  from demo_claim obtain t' e where c: "claim_effect ''r'' ''k'' demo_admitted = Changed t' (Some e)"
    by (auto split: outcome.splits option.splits)
  have "(case tree_effect demo_admitted ''r'' ''k'' of None \<Rightarrow> False
      | Some e0 \<Rightarrow> effect_step e0 = KInitial \<and> e_target e0 = ''c'')"
    by code_simp
  then obtain e0 where "tree_effect demo_admitted ''r'' ''k'' = Some e0" "effect_step e0 = KInitial"
      "e_target e0 = ''c''"
    by (auto split: option.splits)
  with claim_current_work [OF demo_admitted_reachable c] show ?thesis by auto
qed

text \<open>
  A pending compaction holds back every delivery.  While the checkpoint of a member is
  registered, dispatched, uncertain or committed and unsettled, a claim of any effect for it
  but the compaction and an interrupt changes nothing and grants nothing.
\<close>

lemma compaction_holds_claims:
  assumes "tree_effect t caller eid = Some e" and "t_member t (e_target e) = Some m"
    and "compaction_pending (m_wait m)" and "e_kind e \<noteq> KCompact" and "e_kind e \<noteq> KInterrupt"
  shows "claim_effect caller eid t = Changed t None \<or> claim_effect caller eid t = Unchanged None"
proof -
  from assms(1) obtain r where "effect_ref t caller eid = Some r" "get_effect t r = Some e"
    by (auto simp: tree_effect_def bind_eq_Some_conv)
  with assms show ?thesis
    by (cases "e_state e \<noteq> SPending \<and> e_state e \<noteq> SQueued") (simp_all add: claim_effect_def)
qed

definition demo_compacting :: tree where
  "demo_compacting = fold (apply_op demo_env)
     [OpRegisterWait (demo_caller ''w1'') \<lparr>q_targets = [], q_all = False, q_mode = ModeNone,
        q_timeout = None, q_now = 0, q_compact = True, q_standalone = True, q_foreign = [],
        q_reload = ''''\<rparr>,
      OpReceiveMessage \<lparr>o_session = ''far'', o_thread = ''x'', o_task = ''/root'', o_turn = ''q'',
        o_generation = 1, o_status = Working\<rparr> ''r'' ''c9'' ''hello''] demo_tree"

lemma demo_compacting_facts:
  "(case tree_effect demo_compacting ''r'' ''x:c9'' of None \<Rightarrow> False | Some e \<Rightarrow>
      e_target e = ''r'' \<and> e_kind e = KMessage)
   \<and> (case t_member demo_compacting ''r'' of None \<Rightarrow> False | Some m \<Rightarrow> compaction_pending (m_wait m))"
  by code_simp

lemma compaction_holds_claims_witness:
  "claim_effect ''r'' ''x:c9'' demo_compacting = Changed demo_compacting None
   \<or> claim_effect ''r'' ''x:c9'' demo_compacting = Unchanged None"
proof -
  from demo_compacting_facts obtain e m where "tree_effect demo_compacting ''r'' ''x:c9'' = Some e"
      "e_target e = ''r''" "e_kind e = KMessage" "t_member demo_compacting ''r'' = Some m"
      "compaction_pending (m_wait m)"
    by (auto split: option.splits)
  with compaction_holds_claims [of demo_compacting "''r''" "''x:c9''" e m] show ?thesis by simp
qed

section \<open>Acknowledgement\<close>

text \<open>
  Only a dispatched effect can be acknowledged.  When the host does not own the effect an
  acknowledgement names, the acknowledgement is an error or leaves the tree as it is: a
  repeated acknowledgement is harmless, a premature one is refused.
\<close>

lemma acknowledgement_needs_dispatch:
  assumes "tree_effect t caller eid = Some e" and "\<not> host_owned (e_state e)"
  shows "effect_acknowledged api caller eid rc t = Unchanged []
    \<or> (\<exists>err. effect_acknowledged api caller eid rc t = Fail (Err err))"
proof -
  from assms(1) obtain r where "effect_ref t caller eid = Some r" "get_effect t r = Some e"
    by (auto simp: tree_effect_def bind_eq_Some_conv)
  moreover have "\<not> dispatched e rc" using assms(2) dispatched_owned by (auto simp: owned_def)
  ultimately show ?thesis by (simp add: effect_acknowledged_def)
qed

lemma acknowledgement_needs_dispatch_witness:
  "effect_acknowledged (ce_reload demo_env) ''r'' ''k'' (demo_receipt KInitial) demo_admitted = Unchanged []
   \<or> (\<exists>err. effect_acknowledged (ce_reload demo_env) ''r'' ''k'' (demo_receipt KInitial) demo_admitted = Fail (Err err))"
proof -
  have "(case tree_effect demo_admitted ''r'' ''k'' of None \<Rightarrow> False
      | Some e \<Rightarrow> \<not> host_owned (e_state e))"
    by code_simp
  then obtain e where "tree_effect demo_admitted ''r'' ''k'' = Some e" "\<not> host_owned (e_state e)"
    by (auto split: option.splits)
  then show ?thesis by (rule acknowledgement_needs_dispatch)
qed

section \<open>Creation\<close>

lemma effect_at_index:
  "effect_ref t caller eid = Some (InTree i) \<Longrightarrow>
     find_index (\<lambda>e. e_caller e = caller \<and> e_id e = eid) (t_effects t) = Some i"
  by (auto simp: effect_ref_def split: option.splits if_splits)

lemma tree_effect_at:
  "find_index (\<lambda>e. e_caller e = caller \<and> e_id e = eid) (t_effects t) = Some i \<Longrightarrow>
     tree_effect t caller eid = Some (t_effects t ! i)"
  using find_index_Some [of "\<lambda>e. e_caller e = caller \<and> e_id e = eid" "t_effects t" i]
  by (simp add: tree_effect_def effect_ref_def)

lemma settle_recovery_Changed:
  assumes "settle_recovery k a t = Changed t' b"
  shows "t' = t \<or> (\<exists>m. t_member t k = Some m \<and> t' = set_member k (settle_member m) t)"
  using assms by (auto simp: settle_recovery_def split: option.splits if_splits)

lemma settle_child [simp]: "settle_member (child_member caller rc c) = child_member caller rc c"
  by (simp add: settle_member_def child_member_def zero_member_def)

text \<open>
  A confirmed creation registers exactly the reserved child.  The acknowledgement of the
  creation step adds one member, new to the tree, under the thread the host created, below
  the caller and with the reserved task; it is pending and outside the audience, and the
  creation goes on with its assignment.
\<close>

lemma creation_registers_child:
  assumes "tree_ok t" and "tree_effect t caller eid = Some e" and "effect_step e = KCreate"
    and "rc_error rc = ''''" and "\<not> rc_uncertain rc"
    and "e_state e = SDispatching"
    and "effect_acknowledged api caller eid rc t = Changed t' fs"
  shows "\<exists>c m. e_child e = Some c \<and> t_member t (rc_thread rc) = None
    \<and> t_member t' (rc_thread rc) = Some m \<and> m_thread m = rc_thread rc \<and> m_parent m = caller
    \<and> m_task m = c_task c \<and> m_status m = Pending \<and> \<not> m_audience_admitted m \<and> \<not> m_host_running m
    \<and> map_option e_phase (tree_effect t' caller eid) = Some KAssignmentInput
    \<and> map_option e_target (tree_effect t' caller eid) = Some (rc_thread rc)"
proof -
  from assms(2) obtain r where r: "effect_ref t caller eid = Some r" and e: "get_effect t r = Some e"
    by (auto simp: tree_effect_def bind_eq_Some_conv)
  note caller = effect_ref_caller [OF assms(1) r e]
  have res: "ack_confirmed api caller r e rc t = Changed t' fs"
    using assms r e by (auto simp: effect_acknowledged_def split: if_splits)
  obtain i where i: "r = InTree i"
    using get_effect_good [OF assms(1) e] assms(3)
    by (cases r) (auto simp: ref_good_def effect_step_def wake_good_def compaction_good_def)
  show ?thesis
  proof (rule ack_confirmed_shape [OF assms(1) e caller res])
    fix e0 e1 e2 t1
    assume e0: "e0 = e\<lparr>e_error := rc_error rc, e_state := SConfirmed\<rparr>"
      and c: "confirm_step caller (effect_step e) e0 rc t = Inr (e1, t1)"
      and e2: "get_effect t1 r = Some e" "e2 = e1 \<or> e2 = e1\<lparr>e_state := SPaused\<rparr>"
      and s: "settle_recovery (e_target e) fs (upd_effect r (\<lambda>_. e2) t1) = Changed t' fs"
    show ?thesis
    proof (rule confirm_create [OF c [unfolded assms(3)]])
      fix ch
      assume ch: "e_child e0 = Some ch" "t_member t (rc_thread rc) = None"
          "e1 = (set_child rc e0)\<lparr>e_phase := KAssignmentInput, e_state := SPending\<rparr>"
          "t1 = set_member (rc_thread rc) (child_member caller rc ch) t"
      let ?t2 = "upd_effect r (\<lambda>_. e2) t1"
      have mem: "t_member t' (rc_thread rc) = Some (child_member caller rc ch)"
        using settle_recovery_Changed [OF s] ch i by (auto split: if_splits)
      have keys: "e_caller e2 = e_caller e" "e_id e2 = e_id e"
        using e2(2) ch(3) by (auto simp: e0 set_child_def)
      have effs: "t_effects t' = (t_effects t)[i := e2]"
        using settle_recovery_Changed [OF s] i ch(4) by auto
      have "i < length (t_effects t)" "t_effects t ! i = e" using e i by (auto split: if_splits)
      then have "tree_effect t' caller eid = Some e2"
        using effect_at_index [OF r [unfolded i]] effs keys
        by (intro tree_effect_at [of _ _ _ i, THEN trans]) (simp_all add: find_index_update)
      with mem ch e2(2) show ?thesis
        by (auto simp: child_member_def zero_member_def e0 set_child_def)
    qed
  qed
qed

text \<open>Witness: the acknowledgement of the creation in the run.\<close>

definition demo_creating :: tree where
  "demo_creating = fold (apply_op demo_env) (take 2 demo_creation) demo_tree"

lemma demo_creating_reachable: "reachable demo_env demo_creating"
  unfolding demo_creating_def
  by (rule trees.run_inv) (simp_all add: demo_tree_reachable list_all_iff)

lemma demo_creating_facts:
  "(case tree_effect demo_creating ''r'' ''k'' of None \<Rightarrow> False
      | Some e \<Rightarrow> effect_step e = KCreate \<and> e_state e = SDispatching)
   \<and> (case effect_acknowledged (ce_reload demo_env) ''r'' ''k'' (demo_receipt KCreate) demo_creating of
        Changed _ _ \<Rightarrow> True | _ \<Rightarrow> False)"
  by code_simp

lemma creation_registers_child_witness:
  "\<exists>t' m fs. effect_acknowledged (ce_reload demo_env) ''r'' ''k'' (demo_receipt KCreate) demo_creating
     = Changed t' fs \<and> t_member t' ''c'' = Some m \<and> m_parent m = ''r''"
proof -
  from demo_creating_facts obtain e t' fs where e: "tree_effect demo_creating ''r'' ''k'' = Some e"
      "effect_step e = KCreate" "e_state e = SDispatching"
    and a: "effect_acknowledged (ce_reload demo_env) ''r'' ''k'' (demo_receipt KCreate) demo_creating
      = Changed t' fs"
    by (auto split: option.splits outcome.splits)
  have "rc_error (demo_receipt KCreate) = ''''" "\<not> rc_uncertain (demo_receipt KCreate)"
      "rc_thread (demo_receipt KCreate) = ''c''"
    by (simp_all add: demo_receipt_def)
  with creation_registers_child [OF reachable_tree_ok [OF demo_creating_reachable] e(1,2) _ _ e(3) a] a
  show ?thesis by auto
qed

section \<open>Publication and restart\<close>





end
