(* ===== verification/Control_Lifecycle_Properties.thy ===== *)
theory Control_Lifecycle_Properties
  imports Control_Examples
begin

text \<open>
  Properties of the logical state machine: pausing, settlement of work and its reports,
  deferred completion and recovery, repeated control calls, root selection, the projections
  the display reads, and names.
\<close>

section \<open>Pause\<close>

definition quiescent_effect :: "effect \<Rightarrow> bool" where
  "quiescent_effect e \<longleftrightarrow> e_state e \<notin> {SPending, SQueued, SRegistered, SDispatching}"

definition quiescent_member :: "member \<Rightarrow> bool" where
  "quiescent_member m \<longleftrightarrow> \<not> m_host_running m \<and> (reserved m \<longrightarrow> m_status m = Paused)
     \<and> pred_option (\<lambda>w. quiescent_effect (w_effect w) \<and> pred_option quiescent_effect (w_compaction w)) (m_wait m)
     \<and> pred_option (\<lambda>w. quiescent_effect (w_effect w)) (m_recovery_wait m)"

lemma paused_quiescent: "paused_state s \<notin> {SPending, SQueued, SRegistered, SDispatching}"
  by (cases s) auto

lemma pause_member_quiescent: "quiescent_member (pause_member m)"
  using paused_quiescent
  by (cases "m_wait m"; cases "m_recovery_wait m"; cases "m_status m")
    (auto simp: quiescent_member_def pause_member_def reserved_def pause_wait_def quiescent_effect_def
      pred_option_def)

lemma pause_member_idem: "pause_member (pause_member m) = pause_member m"
  by (cases "m_wait m"; cases "m_recovery_wait m")
    (auto simp: pause_member_def reserved_def pause_wait_def wait_set_state_def option.map_comp
      comp_def)

text \<open>
  C22: pausing a family stops everything and stopping twice is stopping once.  After a
  pause of the whole tree no member runs or holds unpaused work, no effect, wait or
  compaction is live, uncertain dispatches are kept as uncertain, and a second pause changes
  nothing.
\<close>

theorem pause_stops_everything:
  "(\<forall>k m. t_member (pause '''' t) k = Some m \<longrightarrow> quiescent_member m)
   \<and> (\<forall>e \<in> set (t_effects (pause '''' t)). quiescent_effect e)
   \<and> map (\<lambda>e. host_owned (e_state e)) (t_effects (pause '''' t)) =
       map (\<lambda>e. host_owned (e_state e)) (t_effects t)
   \<and> pause '''' (pause '''' t) = pause '''' t"
proof -
  have mem: "t_member (pause '''' t) k = map_option pause_member (t_member t k)" for k
    by (simp add: pause_def map_of_map_value [of "\<lambda>_. pause_member"])
  have "pause '''' (pause '''' t) = pause '''' t"
    by (simp add: pause_def map_effects_def set_effects_def pause_member_idem comp_def case_prod_beta)
  moreover have "\<forall>k m. t_member (pause '''' t) k = Some m \<longrightarrow> quiescent_member m"
    unfolding mem by (auto simp: pause_member_quiescent)
  moreover have "\<forall>e \<in> set (t_effects (pause '''' t)). quiescent_effect e"
    using paused_quiescent by (auto simp: pause_def quiescent_effect_def)
  moreover have "map (\<lambda>e. host_owned (e_state e)) (t_effects (pause '''' t)) =
      map (\<lambda>e. host_owned (e_state e)) (t_effects t)"
    by (simp add: pause_def)
  ultimately show ?thesis by blast
qed

theorem pause_stops_everything_witness:
  "\<exists>m. t_member (pause '''' demo_tree) ''r'' = Some m \<and> quiescent_member m"
  using pause_stops_everything [of demo_tree]
  by (simp add: demo_tree_def new_tree_def pause_def)

section \<open>Settlement of work\<close>

lemma upd_effect_length [simp]: "length (t_effects (upd_effect r f t)) = length (t_effects t)"
  by (cases r) auto

lemma cancel_completion_length [simp]:
  "length (t_effects (cancel_completion k t)) = length (t_effects t)"
  by (auto simp: cancel_completion_def split: option.splits)

lemma cancel_subscription_length [simp]:
  "length (t_effects (cancel_subscription k t)) = length (t_effects t)"
  by (auto simp: cancel_subscription_def release_claims_def split: option.splits)




text \<open>Witness: the child has started its turn.\<close>

definition demo_child_caller :: identity where
  "demo_child_caller = \<lparr>i_thread = ''c'', i_session = ''sc'', i_turn = ''u1'', i_call = ''q1'', i_item = ''m''\<rparr>"

definition demo_running :: tree where
  "demo_running = apply_op demo_env (OpRequestStarted demo_child_caller False) demo_child_tree"

lemma demo_running_reachable: "reachable demo_env demo_running"
  unfolding demo_running_def by (rule reachable_apply_op) (rule demo_child_reachable)

definition demo_failure :: "bool \<Rightarrow> host_failure" where
  "demo_failure b = \<lparr>hf_message = ''lost'', hf_recoverable = b\<rparr>"



text \<open>
  A recoverable failure is not reported while descendants still work.  It leaves the
  member idle and waiting behind a committed recovery wait for its active descendants, and no
  effect is added.
\<close>

lemma recoverable_failure_waits:
  assumes "tree_ok t" and "t_member t k = Some m" and "m_host_running m" and "m_turn m = turn"
    and "hf_recoverable failure" and "active_descendants t m \<noteq> []"
    and "host_terminal t k turn Failed failure = Changed t' r"
  shows "\<exists>m' w. t_member t' k = Some m' \<and> m_status m' = Waiting \<and> \<not> m_host_running m'
    \<and> (m_wait m' = Some w \<or> m_recovery_wait m' = Some w) \<and> w_state w = SRegistered
    \<and> w_stop w = StopCommitted \<and> w_all w \<and> w_recovery w \<noteq> []
    \<and> length (t_effects t') = length (t_effects t)"
proof -
  define m1 where "m1 = m\<lparr>m_host_running := False\<rparr>"
  define t1 where "t1 = confirm_interrupts (m_thread m1) turn (set_member k m1 t)"
  have mem1: "t_member t1 k = Some m1" by (simp add: t1_def)
  have ok1: "tree_ok t1"
    unfolding t1_def m1_def using assms(1,2) member_step_idle by (simp add: tree_ok_set_member)
  have len: "length (t_effects t1) = length (t_effects t)"
    by (simp add: t1_def confirm_interrupts_def)
  have "filter (\<lambda>c. active_descendant_of c m) (map snd (t_members t)) \<noteq> []"
    using assms(6) by (auto simp: active_descendants_def)
  from hd_in_set [OF this] obtain c where c: "c \<in> snd ` set (t_members t)" "active_descendant_of c m"
    by auto
  then obtain j where j: "(j, c) \<in> set (t_members t)" by auto
  have "j \<noteq> k"
  proof
    assume "j = k"
    with j assms(2) tree_okD(1) [OF assms(1)] have "c = m"
      by (auto simp: keys_good_def dest: map_of_is_SomeI)
    with c(2) show False by (simp add: active_descendant_of_def)
  qed
  then have "(j, c) \<in> set (t_members t1)"
    using j map_of_SomeD [of "t_members t1" j c] tree_okD(1) [OF assms(1)]
    by (simp add: t1_def set_member_def keys_good_def update_conv')
  moreover have "active_descendant_of c m1" using c(2) by (simp add: active_descendant_of_def m1_def)
  ultimately have rec: "w_recovery (recovery_wait t1 m1 turn) \<noteq> []"
    by (force simp: recovery_wait_def filter_empty_conv)
  define w where "w = recovery_wait t1 m1 turn"
  have w: "w_state w = SRegistered" "w_stop w = StopCommitted" "w_all w" "w_recovery w \<noteq> []"
    using rec by (simp_all add: w_def) (simp_all add: recovery_wait_def)
  have t': "t' = install_recovery k turn w t1"
    using assms(2-5,7) rec unfolding host_terminal_def
    by (simp add: m1_def [symmetric] t1_def [symmetric] Let_def w_def)
  show ?thesis
    using mem1 ok1 len w unfolding t' install_recovery_def
    by (auto simp: Let_def cancel_subscription_member m1_def split: option.splits)
qed

text \<open>Witness: the root loses its turn while the child works.\<close>

lemma demo_running_root:
  "(case t_member demo_running ''r'' of None \<Rightarrow> False | Some m \<Rightarrow>
      m_host_running m \<and> m_turn m = ''t1'' \<and> active_descendants demo_running m \<noteq> [])
   \<and> (case host_terminal demo_running ''r'' ''t1'' Failed (demo_failure True) of
        Changed _ _ \<Rightarrow> True | _ \<Rightarrow> False)"
  by code_simp

lemma recoverable_failure_waits_witness:
  "\<exists>t' r m. host_terminal demo_running ''r'' ''t1'' Failed (demo_failure True) = Changed t' r
     \<and> t_member t' ''r'' = Some m \<and> m_status m = Waiting"
proof -
  from demo_running_root obtain m t' r where m: "t_member demo_running ''r'' = Some m" "m_host_running m"
      "m_turn m = ''t1''"
    and act: "active_descendants demo_running m \<noteq> []"
    and h: "host_terminal demo_running ''r'' ''t1'' Failed (demo_failure True) = Changed t' r"
    by (auto split: option.splits outcome.splits)
  have "hf_recoverable (demo_failure True)" by (simp add: demo_failure_def)
  from recoverable_failure_waits [OF reachable_tree_ok [OF demo_running_reachable] m this act h] h
  show ?thesis by blast
qed

section \<open>Repeated control calls\<close>

lemma find_index_append:
  "find_index P xs = None \<Longrightarrow> P y \<Longrightarrow> find_index P (xs @ [y]) = Some (length xs)"
  by (induction xs) (auto split: if_splits)

lemma effect_ref_None_index:
  "effect_ref t caller eid = None \<Longrightarrow>
     find_index (\<lambda>e. e_caller e = caller \<and> e_id e = eid) (t_effects t) = None"
  by (auto simp: effect_ref_def split: option.splits)

lemma tree_effect_append:
  assumes "tree_effect t caller eid = None" and "e_caller e = caller" and "e_id e = eid"
  shows "tree_effect (append_effect e t) caller eid = Some e"
proof -
  have "find_index (\<lambda>e. e_caller e = caller \<and> e_id e = eid) (t_effects t) = None"
    using assms(1) effect_ref_None_index by (simp add: tree_effect_None)
  then have "effect_ref (append_effect e t) caller eid = Some (InTree (length (t_effects t)))"
    using assms(2,3) by (simp add: effect_ref_def find_index_append)
  then show ?thesis by (simp add: tree_effect_def)
qed

lemma admitted_append [simp]: "admitted (append_effect e t) caller = admitted t caller"
  by (simp add: admitted_def)

lemma reserve_spawn_Changed:
  assumes "reserve_spawn item_id caller q t = Changed t' e"
  obtains m where "admitted t caller = Inr m" "tree_effect t (i_thread caller) (i_call caller) = None"
    "e = spawn_effect item_id caller m (m_task m @ ''/'' @ sr_name q) q" "t' = append_effect e t"
    "i_call caller \<noteq> ''''" "sr_name q \<noteq> ''''" "trim_space (sr_message q) \<noteq> ''''"
    "prefix ''/'' (s_workspace (sr_settings q))" "list_all task_char (sr_name q)"
proof -
  from assms obtain m where m: "admitted t caller = Inr m"
    by (auto simp: reserve_spawn_def outcome_simps)
  with assms that show ?thesis
    by (auto simp: reserve_spawn_def with_admitted_def Let_def split: if_splits option.splits)
qed

text \<open>
  A spawn call is reserved once.  The repetition of a successful reservation returns the
  same reservation and changes nothing, and no other call reserves the same task while that
  reservation has not failed.
\<close>

lemma spawn_reserved_once:
  assumes "reserve_spawn item_id caller q t = Changed t' e"
  shows "reserve_spawn item_id caller q t' = Unchanged e
    \<and> (\<forall>caller2 q2 m2 t2 e2. admitted t' caller2 = Inr m2
         \<and> Some (m_task m2 @ ''/'' @ sr_name q2) = child_task e
         \<longrightarrow> reserve_spawn item_id caller2 q2 t' \<noteq> Changed t2 e2)"
proof (rule reserve_spawn_Changed [OF assms])
  fix m
  assume m: "admitted t caller = Inr m" "tree_effect t (i_thread caller) (i_call caller) = None"
    and e: "e = spawn_effect item_id caller m (m_task m @ ''/'' @ sr_name q) q" "t' = append_effect e t"
    and q: "i_call caller \<noteq> ''''" "sr_name q \<noteq> ''''" "trim_space (sr_message q) \<noteq> ''''"
      "prefix ''/'' (s_workspace (sr_settings q))" "list_all task_char (sr_name q)"
  have key: "e_caller e = i_thread caller" "e_id e = i_call caller" "e_kind e = KCreate"
      "e_caller_turn e = i_turn caller" "e_message e = sr_message q" "e_state e = SPending"
      "map_option c_task (e_child e) = Some (m_task m @ ''/'' @ sr_name q)"
      "map_option c_arguments (e_child e) = Some (sr_arguments q)"
    by (simp_all add: e(1) spawn_effect_def)
  have old: "tree_effect t' (i_thread caller) (i_call caller) = Some e"
    unfolding e(2) by (rule tree_effect_append [OF m(2) key(1,2)])
  have "reserve_spawn item_id caller q t' = Unchanged e"
    using m(1) old key q
    by (auto simp: reserve_spawn_def with_admitted_def Let_def e(2) split: option.splits)
  moreover have False
    if "admitted t' caller2 = Inr m2" "Some (m_task m2 @ ''/'' @ sr_name q2) = child_task e"
      "reserve_spawn item_id caller2 q2 t' = Changed t2 e2" for caller2 q2 m2 t2 e2
  proof -
    have "e \<in> set (t_effects t')" by (simp add: e(2))
    with that key show False
      by (auto simp: reserve_spawn_def with_admitted_def Let_def split: if_splits option.splits)
  qed
  ultimately show ?thesis by blast
qed

lemma spawn_reserved_once_witness:
  "\<exists>t' e. reserve_spawn (\<lambda>s. s) (demo_caller ''k'') demo_spawn demo_tree = Changed t' e
     \<and> reserve_spawn (\<lambda>s. s) (demo_caller ''k'') demo_spawn t' = Unchanged e"
proof -
  have "(case reserve_spawn (\<lambda>s. s) (demo_caller ''k'') demo_spawn demo_tree of
      Changed _ _ \<Rightarrow> True | _ \<Rightarrow> False)" by code_simp
  then obtain t' e where r: "reserve_spawn (\<lambda>s. s) (demo_caller ''k'') demo_spawn demo_tree = Changed t' e"
    by (auto split: outcome.splits)
  from spawn_reserved_once [OF r] r show ?thesis by blast
qed

text \<open>
  A foreign message is retained once.  The repetition of an accepted foreign message
  returns the retained effect and changes nothing, also when the sender's status has changed
  in between; the same call with another message is refused.
\<close>

lemma foreign_message_once:
  assumes "receive_message peer target call msg t = Changed t' e"
  shows "receive_message (peer\<lparr>o_status := st\<rparr>) target call msg t' = Unchanged e
    \<and> (msg2 \<noteq> msg \<longrightarrow> receive_message peer target call msg2 t'
         = Fail (Err ''conflicting repeated foreign message''))"
proof -
  from assms obtain m where m: "t_member t target = Some m"
    by (auto simp: receive_message_def outcome_simps)
  define eid where "eid = o_thread peer @ '':'' @ call"
  from assms m have new: "tree_effect t target eid = None" "t' = append_effect e t"
      "o_session peer \<noteq> t_root t" "o_thread peer \<noteq> ''''" "call \<noteq> ''''" "m_audience_admitted m"
    and e: "e_caller e = target" "e_id e = eid" "e_kind e = KMessage" "e_message e = msg"
      "e_origin e = Some peer"
    by (auto simp: receive_message_def Let_def eid_def split: if_splits option.splits)
  have "tree_effect t' target eid = Some e"
    unfolding new(2) by (rule tree_effect_append [OF new(1) e(1,2)])
  with m new e show ?thesis
    by (auto simp: receive_message_def Let_def eid_def)
qed

lemma foreign_message_once_witness:
  "\<exists>t' e. receive_message \<lparr>o_session = ''far'', o_thread = ''x'', o_task = ''/root'', o_turn = ''q'',
       o_generation = 1, o_status = Working\<rparr> ''r'' ''c9'' ''hello'' demo_tree = Changed t' e
     \<and> receive_message \<lparr>o_session = ''far'', o_thread = ''x'', o_task = ''/root'', o_turn = ''q'',
       o_generation = 1, o_status = Completed\<rparr> ''r'' ''c9'' ''hello'' t' = Unchanged e"
proof -
  let ?p = "\<lparr>o_session = ''far'', o_thread = ''x'', o_task = ''/root'', o_turn = ''q'',
       o_generation = 1, o_status = Working\<rparr>"
  have "(case receive_message ?p ''r'' ''c9'' ''hello'' demo_tree of
      Changed _ _ \<Rightarrow> True | _ \<Rightarrow> False)" by code_simp
  then obtain t' e where r: "receive_message ?p ''r'' ''c9'' ''hello'' demo_tree = Changed t' e"
    by (auto split: outcome.splits)
  from foreign_message_once [OF r, of Completed] r show ?thesis by simp
qed

section \<open>Ancestry\<close>

lemma parent_member:
  assumes "tree_ok t" and "t_member t k = Some m" and "m_parent m \<noteq> ''''"
  obtains p where "t_member t (m_parent m) = Some p" "prefix (m_task p @ ''/'') (m_task m)"
  using tree_okD(4) [OF assms(1,2)] assms(3) by (auto simp: lineage_good_def task_of_def)

lemma parent_shorter: "prefix (p @ ''/'') q \<Longrightarrow> length p < length q"
  using prefix_length_le by fastforce

text \<open>Every task of a well-formed tree lies below the root task.\<close>

lemma task_rooted:
  assumes "tree_ok t"
  shows "t_member t k = Some m \<Longrightarrow> m_task m = ''/root'' \<or> prefix ''/root/'' (m_task m)"
proof (induction "length (m_task m)" arbitrary: k m rule: less_induct)
  case less
  show ?case
  proof (cases "m_parent m = ''''")
    case True
    with tree_okD(4) [OF assms less.prems] show ?thesis by (simp add: lineage_good_def)
  next
    case False
    from parent_member [OF assms less.prems False] obtain p where
      p: "t_member t (m_parent m) = Some p" "prefix (m_task p @ ''/'') (m_task m)" .
    with less.hyps [OF parent_shorter [OF p(2)] p(1)] have "prefix ''/root/'' (m_task p @ ''/'')"
      by (auto simp: prefix_def)
    with p(2) show ?thesis using prefix_order.trans by blast
  qed
qed

text \<open>
  The name shown for an agent can be read back.  For every member of a reachable tree,
  the path read from its agent name is its task, so a target typed as it is shown resolves to
  the task it shows.
\<close>

lemma agent_name_round_trip:
  assumes "reachable env t" and "t_member t k = Some m"
  shows "task_path (agent_name (m_task m)) = m_task m"
  using task_rooted [OF reachable_tree_ok [OF assms(1)] assms(2)]
  by (auto simp: task_path_def agent_name_def trim_prefix_def prefix_def)

lemma agent_name_round_trip_witness:
  "task_path (agent_name (m_task demo_root)) = ''/root''"
proof -
  have "t_member demo_tree ''r'' = Some demo_root" by (simp add: demo_tree_def new_tree_def)
  from agent_name_round_trip [OF demo_tree_reachable this] show ?thesis
    by (simp add: demo_root_def)
qed

lemma preload_walk_ends:
  assumes ok: "tree_ok t"
  shows "t_member t k = Some m \<Longrightarrow> length (m_task m) < n \<Longrightarrow> \<exists>ps. preload_walk t n (Some m) = Some ps"
proof (induction n arbitrary: k m)
  case 0
  then show ?case by simp
next
  case (Suc n)
  show ?case
  proof (cases "m_parent m = ''''")
    case True
    with tree_okD(2) [OF ok] show ?thesis by simp
  next
    case False
    from parent_member [OF ok Suc.prems(1) False] obtain p where
      p: "t_member t (m_parent m) = Some p" "prefix (m_task p @ ''/'') (m_task m)" .
    with parent_shorter [OF p(2)] Suc.prems(2) have "length (m_task p) < n" by simp
    from Suc.IH [OF p(1) this] p(1) show ?thesis by auto
  qed
qed

text \<open>
  C24: the walk up the ancestry ends.  In a reachable tree the preload selections of a member
  are collected within as many steps as its task has characters, so the read of the context
  preloads returns for every admitted thread.
\<close>

theorem context_preloads_returns:
  assumes "reachable env t" and "t_member t thread = Some m" and "m_audience_admitted m"
  shows "\<exists>ps. context_preloads thread (m_session m) t = Inr (Some ps)"
  using preload_walk_ends [OF reachable_tree_ok [OF assms(1)] assms(2), of "Suc (length (m_task m))"] assms
  by (simp add: context_preloads_def)

theorem context_preloads_returns_witness:
  "\<exists>ps. context_preloads ''r'' ''s'' demo_tree = Inr (Some ps)"
proof -
  have "t_member demo_tree ''r'' = Some demo_root" by (simp add: demo_tree_def new_tree_def)
  from context_preloads_returns [OF demo_tree_reachable this] show ?thesis
    by (simp add: demo_root_def)
qed

section \<open>Root selection\<close>

text \<open>
  C25: selecting a saved root moves the whole family.  The selected root becomes the current
  one and joins the audience, the previous root leaves it, every member that hung below the
  previous root now hangs below the new one with its task unchanged, and no undelivered
  message or final is left for the previous root.
\<close>

theorem select_root_moves_family:
  assumes "tree_ok t" and "select_root th t = Inr t'" and "t_root t \<noteq> th"
  shows "t_root t' = th
    \<and> (\<exists>n. t_member t' th = Some n \<and> m_audience_admitted n \<and> m_parent n = '''')
    \<and> (\<exists>o'. t_member t' (t_root t) = Some o' \<and> \<not> m_audience_admitted o')
    \<and> (\<forall>k m. t_member t k = Some m \<and> m_parent m = t_root t
         \<longrightarrow> (\<exists>m'. t_member t' k = Some m' \<and> m_parent m' = th \<and> m_task m' = m_task m))
    \<and> (\<forall>e \<in> set (t_effects t'). e_target e = t_root t \<and> (e_kind e = KMessage \<or> e_kind e = KFinal)
         \<longrightarrow> e_state e \<noteq> SPending \<and> e_state e \<noteq> SQueued)"
proof -
  from assms obtain root where root: "t_member t th = Some root" "m_parent root = ''''"
    by (auto simp: select_root_def split: option.splits if_splits)
  obtain prev where prev: "t_member t (t_root t) = Some prev" "m_parent prev = ''''"
    using tree_okD(6) [OF assms(1)] by auto
  have ne: "t_root t \<noteq> ''''" using prev tree_okD(2) [OF assms(1)] by auto
  define t1 where "t1 = upd_member th (\<lambda>m. m\<lparr>m_audience_admitted := True\<rparr>)
      (set_member (t_root t) (prev\<lparr>m_audience_admitted := False\<rparr>) t)"
  have t': "t' = (map_effects (retarget_effect (t_root t) th) (reparent (t_root t) th t1))\<lparr>t_root := th\<rparr>"
    using assms root prev
    by (simp add: select_root_def Let_def t1_def reparent_def split: if_splits)
  have mem: "t_member t' k = map_option (\<lambda>m. if m_parent m = t_root t then m\<lparr>m_parent := th\<rparr> else m)
      (t_member t1 k)" for k by (simp add: t')
  have mem1: "t_member t1 th = Some (root\<lparr>m_audience_admitted := True\<rparr>)"
      "t_member t1 (t_root t) = Some (prev\<lparr>m_audience_admitted := False\<rparr>)"
      "k \<noteq> th \<Longrightarrow> k \<noteq> t_root t \<Longrightarrow> t_member t1 k = t_member t k" for k
    using root prev assms(3) by (auto simp: t1_def)
  have moved: "\<exists>m'. t_member t' k = Some m' \<and> m_parent m' = th \<and> m_task m' = m_task m"
    if "t_member t k = Some m" "m_parent m = t_root t" for k m
  proof -
    have "k \<noteq> th" "k \<noteq> t_root t" using that root prev ne by auto
    with that mem mem1(3) show ?thesis by simp
  qed
  have "t_effects t' = map (retarget_effect (t_root t) th) (t_effects t)"
    by (simp add: t' t1_def)
  then have effs: "\<forall>e \<in> set (t_effects t'). e_target e = t_root t \<and> (e_kind e = KMessage \<or> e_kind e = KFinal)
      \<longrightarrow> e_state e \<noteq> SPending \<and> e_state e \<noteq> SQueued"
    using assms(3) by (auto simp: retarget_effect_def)
  show ?thesis
    using mem mem1 root prev ne moved effs t' by auto
qed

text \<open>Witness: a family whose saved root is selected again.\<close>

definition demo_branches :: tree where
  "demo_branches = \<lparr>t_version = 4, t_root = ''b'',
     t_members = [(''b'', demo_root\<lparr>m_thread := ''b'', m_host_running := False\<rparr>),
       (''r'', demo_root\<lparr>m_host_running := False, m_audience_admitted := False\<rparr>),
       (''c'', demo_root\<lparr>m_thread := ''c'', m_parent := ''b'', m_task := ''/root/w'', m_host_running := False\<rparr>)],
     t_effects = []\<rparr>"

theorem select_root_moves_family_witness:
  "\<exists>t' m. select_root ''r'' demo_branches = Inr t' \<and> t_member t' ''c'' = Some m \<and> m_parent m = ''r''"
proof -
  have ok: "tree_ok demo_branches"
    by (auto simp: tree_ok_def demo_branches_def keys_good_def member_good_def running_good_def
        waits_good_def lineage_good_def task_of_def demo_root_def zero_member_def split: if_splits)
  obtain t' where s: "select_root ''r'' demo_branches = Inr t'"
    by (simp add: select_root_def demo_branches_def demo_root_def zero_member_def Let_def)
  have "t_root demo_branches = ''b''" by (simp add: demo_branches_def)
  moreover obtain y where "t_member demo_branches ''c'' = Some y" "m_parent y = ''b''"
    by (simp add: demo_branches_def)
  ultimately show ?thesis using select_root_moves_family [OF ok s] s by fastforce
qed

section \<open>The interruption projection\<close>

lemma find_append:
  "find P (xs @ ys) = (case find P xs of None \<Rightarrow> find P ys | Some x \<Rightarrow> Some x)"
  by (induction xs) auto

lemma final_outcomes_get:
  "alist_get (final_outcomes es acc) w =
    (case find (\<lambda>e. e_kind e = KFinal \<and> (e_caller e, e_caller_generation e) = w) (rev es) of
       Some e \<Rightarrow> Some (e_outcome e)
     | None \<Rightarrow> alist_get acc w)"
  by (induction es acc rule: final_outcomes.induct) (auto simp: find_append split: option.splits)

lemma interrupt_outcomes_get:
  "alist_get (interrupt_outcomes finals es acc) k =
    (case find (\<lambda>e. e_kind e = KInterrupt \<and> e_state e = SConfirmed \<and> (e_caller e, e_id e) = k
          \<and> alist_zero no_status finals (e_target e, e_generation e) \<noteq> no_status) (rev es) of
       Some e \<Rightarrow> Some (alist_zero no_status finals (e_target e, e_generation e))
     | None \<Rightarrow> alist_get acc k)"
  by (induction finals es acc rule: interrupt_outcomes.induct)
    (auto simp: find_append split: option.splits)

text \<open>The outcome of work: that of the last final its thread retained for the generation.\<close>

definition work_outcome :: "tree \<Rightarrow> string \<Rightarrow> 64 word \<Rightarrow> status" where
  "work_outcome t thread gen =
    (case find (\<lambda>e. e_kind e = KFinal \<and> e_caller e = thread \<and> e_caller_generation e = gen)
        (rev (t_effects t)) of
       Some e \<Rightarrow> e_outcome e
     | None \<Rightarrow> no_status)"

text \<open>
  The display reads the outcome of an interruption from the work it stopped.  The
  projection built in two passes over the effects returns, for an interrupt operation, the
  outcome of the last final that the interrupted thread retained for the captured generation,
  taken from the last confirmed interrupt of that identity whose work has an outcome; and
  nothing when there is none.
\<close>

lemma interruption_outcome_spec:
  "interruption_outcome t caller eid =
    (case find (\<lambda>e. e_kind e = KInterrupt \<and> e_state e = SConfirmed \<and> e_caller e = caller
          \<and> e_id e = eid \<and> work_outcome t (e_target e) (e_generation e) \<noteq> no_status)
        (rev (t_effects t)) of
       Some e \<Rightarrow> work_outcome t (e_target e) (e_generation e)
     | None \<Rightarrow> no_status)"
proof -
  have "alist_zero no_status (final_outcomes (t_effects t) []) (thread, gen) = work_outcome t thread gen"
    for thread gen
    by (simp add: alist_zero_def final_outcomes_get work_outcome_def split: option.splits)
  then show ?thesis
    by (simp add: interruption_outcome_def interruptions_def alist_zero_def [of _ "interrupt_outcomes a b c" for a b c]
        interrupt_outcomes_get split: option.splits)
qed

end
