(* ===== verification/Control_Wait_Properties.thy ===== *)
theory Control_Wait_Properties
  imports Control_Examples
begin

text \<open>
  Properties of waits: what an all-target wait reports and claims, deadlines, repeated
  registration, wake-ups, provider retries, and how human input supersedes a wait.
\<close>

section \<open>Outcome selection\<close>

text \<open>An effect an all-target wait may claim as the outcome of the thread \<open>tid\<close>.\<close>

definition final_of :: "tree \<Rightarrow> wait \<Rightarrow> string \<Rightarrow> effect \<Rightarrow> bool" where
  "final_of t w tid e \<longleftrightarrow> e_kind e = KFinal \<and> e_caller e = tid \<and> delivered e \<and> \<not> e_consumed e
     \<and> e_claimed_by e = '''' \<and> e_target e = w_caller w"

definition outcomes_valid :: "tree \<Rightarrow> wait \<Rightarrow> (string \<times> nat) list \<Rightarrow> bool" where
  "outcomes_valid t w outs \<longleftrightarrow> (\<forall>tid i. alist_get outs tid = Some i \<longrightarrow>
     i < length (t_effects t) \<and> final_of t w tid (t_effects t ! i))"

lemma drop_ConsD:
  assumes "e # es = drop i xs"
  shows "i < length xs \<and> xs ! i = e \<and> es = drop (Suc i) xs"
proof -
  have i: "i < length xs" using assms by (metis drop_all list.distinct(1) linorder_not_le)
  from assms Cons_nth_drop_Suc [OF i] have "e # es = xs ! i # drop (Suc i) xs" by (rule trans [OF _ sym])
  with i show ?thesis by simp
qed

text \<open>One step of the scan: a message is found, or the rest is scanned with what is known.\<close>

lemma scan_step:
  assumes "scan_outcomes t w (e # es) i pend outs = r"
  shows "(r = Inl i \<and> e_kind e = KMessage \<and> selectable w e)
    \<or> (\<exists>pend2 outs2. r = scan_outcomes t w es (Suc i) pend2 outs2
         \<and> (outs2 = outs \<or> (outs2 = alist_put (e_caller e) i outs \<and> e_kind e = KFinal \<and> delivered e
              \<and> \<not> e_consumed e \<and> e_claimed_by e = '''' \<and> e_target e = w_caller w)))"
  using assms by (auto simp: selectable_def split: if_splits)

lemma scan_outcomes_valid:
  assumes "scan_outcomes t w es i pend outs = Inr (pend', outs')" and "es = drop i (t_effects t)"
    and "outcomes_valid t w outs"
  shows "outcomes_valid t w outs'"
  using assms
proof (induction es arbitrary: i pend outs)
  case Nil
  then show ?case by simp
next
  case (Cons e es)
  note i = drop_ConsD [OF Cons.prems(2)]
  from scan_step [OF Cons.prems(1)] obtain pend2 outs2 where
    rec: "scan_outcomes t w es (Suc i) pend2 outs2 = Inr (pend', outs')"
    and outs2: "outs2 = outs \<or> (outs2 = alist_put (e_caller e) i outs \<and> e_kind e = KFinal \<and> delivered e
              \<and> \<not> e_consumed e \<and> e_claimed_by e = '''' \<and> e_target e = w_caller w)"
    by auto
  have "outcomes_valid t w outs2"
    using outs2 Cons.prems(3) i by (auto simp: outcomes_valid_def final_of_def split: if_splits)
  with Cons.IH [OF rec] i show ?case by simp
qed

text \<open>A message that the scan finds is one it may claim.\<close>

lemma scan_message:
  assumes "scan_outcomes t w es i pend outs = Inl j" and "es = drop i (t_effects t)"
  shows "j < length (t_effects t) \<and> selectable w (t_effects t ! j) \<and> e_kind (t_effects t ! j) = KMessage"
  using assms
proof (induction es arbitrary: i pend outs)
  case Nil
  then show ?case by simp
next
  case (Cons e es)
  note i = drop_ConsD [OF Cons.prems(2)]
  from scan_step [OF Cons.prems(1)] show ?case
    using Cons.IH i by auto
qed

text \<open>Claiming marks each effect at most once, for this wait.\<close>

definition marked :: "string \<Rightarrow> effect \<Rightarrow> effect \<Rightarrow> bool" where
  "marked wid e e' \<longleftrightarrow> e' = e \<or> e' = e\<lparr>e_claimed_by := wid\<rparr>"

lemma marked_trans: "marked wid a b \<Longrightarrow> marked wid b c \<Longrightarrow> marked wid a c"
  by (auto simp: marked_def)

text \<open>What an all-target wait knows of a thread.\<close>

definition outcome_for :: "tree \<Rightarrow> wait \<Rightarrow> string \<Rightarrow> bool" where
  "outcome_for t w tid \<longleftrightarrow> (\<exists>e \<in> set (t_effects t). e_kind e = KFinal \<and> e_caller e = tid
       \<and> delivered e \<and> e_claimed_by e = w_id w)
     \<or> (\<exists>ev \<in> set (w_terminals w). ev_source ev = tid)"

lemma claim_index_effects:
  "i < length (t_effects t) \<Longrightarrow>
     t_effects (claim_index i wid t) = (t_effects t)[i := (t_effects t ! i)\<lparr>e_claimed_by := wid\<rparr>]"
  by (simp add: claim_index_def)

lemma delivered_claimed [simp]: "delivered (e\<lparr>e_claimed_by := s\<rparr>) = delivered e"
  by (simp add: delivered_def)

lemma wait_member_claim [simp]:
  "wait_member (claim_index i wid t) w = wait_member t w"
  by (rule ext) (simp add: wait_member_def claim_index_def)

lemma wait_member_terminals [simp]:
  "wait_member t (w\<lparr>w_terminals := ts\<rparr>) = wait_member t w"
  by (rule ext) (simp add: wait_member_def cong: option.case_cong)

lemma wait_member_thread:
  assumes "tree_ok t" and "wait_member t w tid = Some m"
  shows "m_thread m = tid"
  using assms member_simps_of_ok [OF assms(1), of tid]
  by (auto simp: wait_member_def split: option.splits)

lemma stopped_event_source: "ev_source (stopped_event w m) = m_thread m"
  by (simp add: stopped_event_def Let_def split: option.splits)

lemma outcome_for_claim:
  assumes "outcome_for t w x" and "i < length (t_effects t)"
  shows "outcome_for (claim_index i (w_id w) t) w x"
  using assms(1) unfolding outcome_for_def
proof
  assume "\<exists>e \<in> set (t_effects t). e_kind e = KFinal \<and> e_caller e = x \<and> delivered e \<and> e_claimed_by e = w_id w"
  then obtain j where "j < length (t_effects t)" "e_kind (t_effects t ! j) = KFinal"
      "e_caller (t_effects t ! j) = x" "delivered (t_effects t ! j)"
      "e_claimed_by (t_effects t ! j) = w_id w"
    by (auto simp: in_set_conv_nth)
  moreover from this(1) assms(2) have
    "t_effects (claim_index i (w_id w) t) ! j \<in> set (t_effects (claim_index i (w_id w) t))"
    by (simp add: claim_index_effects)
  ultimately have "\<exists>e \<in> set (t_effects (claim_index i (w_id w) t)). e_kind e = KFinal \<and> e_caller e = x
      \<and> delivered e \<and> e_claimed_by e = w_id w"
    using assms(2) by (intro bexI [of _ "t_effects (claim_index i (w_id w) t) ! j"])
      (auto simp: claim_index_effects nth_list_update)
  then show "(\<exists>e \<in> set (t_effects (claim_index i (w_id w) t)). e_kind e = KFinal \<and> e_caller e = x
      \<and> delivered e \<and> e_claimed_by e = w_id w) \<or> (\<exists>ev \<in> set (w_terminals w). ev_source ev = x)" ..
qed simp

lemma outcome_for_terminal: "outcome_for t w x \<Longrightarrow> outcome_for t (w\<lparr>w_terminals := w_terminals w @ [ev]\<rparr>) x"
  by (auto simp: outcome_for_def)

definition finals_at :: "tree \<Rightarrow> (string \<times> nat) list \<Rightarrow> bool" where
  "finals_at t outs \<longleftrightarrow> (\<forall>tid i. alist_get outs tid = Some i \<longrightarrow> i < length (t_effects t)
     \<and> e_kind (t_effects t ! i) = KFinal \<and> e_caller (t_effects t ! i) = tid \<and> delivered (t_effects t ! i))"

lemma finals_at_claim: "finals_at t outs \<Longrightarrow> i < length (t_effects t) \<Longrightarrow> finals_at (claim_index i wid t) outs"
  by (auto simp: finals_at_def claim_index_effects nth_list_update)

lemma claim_outcomes_complete:
  assumes "claim_outcomes outs tids t w = (t', w')" and "finals_at t outs"
    and "\<forall>tid \<in> set tids. \<exists>m. wait_member t w tid = Some m \<and> m_thread m = tid"
  shows "(\<forall>x. outcome_for t w x \<longrightarrow> outcome_for t' w' x) \<and> (\<forall>x \<in> set tids. outcome_for t' w' x)"
  using assms
proof (induction tids arbitrary: t w)
  case Nil
  then show ?case by simp
next
  case (Cons tid tids)
  show ?case
  proof (cases "alist_get outs tid")
    case (Some i)
    let ?t1 = "claim_index i (w_id w) t"
    from Some Cons.prems(2) have i: "i < length (t_effects t)" "e_kind (t_effects t ! i) = KFinal"
        "e_caller (t_effects t ! i) = tid" "delivered (t_effects t ! i)"
      by (auto simp: finals_at_def)
    have rec: "claim_outcomes outs tids ?t1 w = (t', w')" using Cons.prems(1) Some by simp
    have IH: "(\<forall>x. outcome_for ?t1 w x \<longrightarrow> outcome_for t' w' x) \<and> (\<forall>x \<in> set tids. outcome_for t' w' x)"
      using Cons.prems(3) by (intro Cons.IH [OF rec finals_at_claim [OF Cons.prems(2) i(1)]]) auto
    have "(t_effects t ! i)\<lparr>e_claimed_by := w_id w\<rparr> \<in> set (t_effects ?t1)"
      using i(1) by (simp add: claim_index_effects set_update_memI)
    then have "outcome_for ?t1 w tid"
      unfolding outcome_for_def using i by (intro disjI1 bexI) auto
    with IH outcome_for_claim [OF _ i(1)] show ?thesis by auto
  next
    case None
    from Cons.prems(3) obtain m where m: "wait_member t w tid = Some m" "m_thread m = tid" by auto
    let ?w1 = "w\<lparr>w_terminals := w_terminals w @ [stopped_event w m]\<rparr>"
    have rec: "claim_outcomes outs tids t ?w1 = (t', w')" using Cons.prems(1) None m by simp
    have IH: "(\<forall>x. outcome_for t ?w1 x \<longrightarrow> outcome_for t' w' x) \<and> (\<forall>x \<in> set tids. outcome_for t' w' x)"
      using Cons.prems(3) by (intro Cons.IH [OF rec Cons.prems(2)]) auto
    have "outcome_for t ?w1 tid" using m by (auto simp: outcome_for_def stopped_event_source)
    with IH outcome_for_terminal show ?thesis by auto
  qed
qed

text \<open>
  C26: an all-target wait settles all at once or not at all.  Selecting for it either finds
  nothing and then leaves the tree and the wait as they were; or it claims one message; or
  every selected target has stopped and the wait knows an outcome of each of them: a final it
  has claimed, or a terminal event.
\<close>

theorem wait_all_settles_together:
  assumes "tree_ok t" and "w_mode w = WaitAll" and "select_wait_outcome t w = (found, t', w')"
  shows "(\<not> found \<and> t' = t \<and> w' = w)
    \<or> (\<exists>i. found \<and> i < length (t_effects t) \<and> e_kind (t_effects t ! i) = KMessage
         \<and> selectable w (t_effects t ! i) \<and> w' = w
         \<and> t_effects t' = (t_effects t)[i := (t_effects t ! i)\<lparr>e_claimed_by := w_id w\<rparr>])
    \<or> (found \<and> (\<forall>tid \<in> set (w_targets w). outcome_for t' w' tid
         \<and> (\<exists>m. wait_member t w tid = Some m \<and> stopped m)))"
proof (cases "scan_outcomes t w (t_effects t) 0 [] []")
  case (Inl i)
  with scan_message [OF Inl] assms show ?thesis
    by (auto simp: select_wait_outcome_def select_all_wait_outcomes_def claim_index_effects)
next
  case (Inr po)
  obtain pend outs where po: "po = (pend, outs)" by (cases po)
  show ?thesis
  proof (cases "all_settled t w pend")
    case False
    with Inr po assms show ?thesis
      by (auto simp: select_wait_outcome_def select_all_wait_outcomes_def)
  next
    case True
    then have st: "\<exists>m. wait_member t w tid = Some m \<and> stopped m" if "tid \<in> set (w_targets w)" for tid
      using that by (auto simp: all_settled_def split: option.splits)
    from Inr po assms True have c: "found" "claim_outcomes outs (w_targets w) t w = (t', w')"
      by (auto simp: select_wait_outcome_def select_all_wait_outcomes_def)
    have "outcomes_valid t w outs"
      using scan_outcomes_valid [OF Inr [unfolded po]] by (simp add: outcomes_valid_def)
    then have "finals_at t outs" by (auto simp: outcomes_valid_def finals_at_def final_of_def)
    moreover have "\<forall>tid \<in> set (w_targets w). \<exists>m. wait_member t w tid = Some m \<and> m_thread m = tid"
      using st wait_member_thread [OF assms(1)] by blast
    ultimately show ?thesis using claim_outcomes_complete [OF c(2)] c(1) st by blast
  qed
qed

text \<open>Witness: the child completes its turn and its final is delivered to the root.\<close>

definition demo_receipt_plain :: receipt where
  "demo_receipt_plain = (demo_receipt KFinal)\<lparr>rc_turn := ''''\<rparr>"

definition demo_finished :: tree where
  "demo_finished = fold (apply_op demo_env)
     [OpRequestStarted \<lparr>i_thread = ''c'', i_session = ''sc'', i_turn = ''u1'', i_call = '''', i_item = ''''\<rparr> False,
      OpAnswerCompleted ''c'' ''u1'' ''a1'' ''ok'',
      OpHostCompleted ''c'' ''u1'' Completed \<lparr>hf_message = '''', hf_recoverable = False\<rparr>,
      OpClaimEffect ''c'' ''c:1:u1:final'', OpEffectAcknowledged ''c'' ''c:1:u1:final'' demo_receipt_plain]
     demo_child_tree"

lemma demo_finished_reachable: "reachable demo_env demo_finished"
  unfolding demo_finished_def
  by (rule trees.run_inv) (simp_all add: demo_child_reachable list_all_iff)

definition demo_request :: "wait_mode \<Rightarrow> wait_request" where
  "demo_request mode = \<lparr>q_targets = [''w''], q_all = False, q_mode = mode, q_timeout = Some 500,
     q_now = 7, q_compact = False, q_standalone = False, q_foreign = [], q_reload = ''''\<rparr>"

definition demo_wait :: wait where
  "demo_wait = new_wait (demo_caller ''w1'') (demo_request WaitAll) WaitAll 1 [''c'']"

lemma demo_wait_selects:
  "(case select_wait_outcome demo_finished demo_wait of (found, t', w') \<Rightarrow>
      found \<and> map e_claimed_by (t_effects t') = ['''', ''w1''])"
  by code_simp

theorem wait_all_settles_together_witness:
  "\<exists>t' w'. select_wait_outcome demo_finished demo_wait = (True, t', w') \<and> outcome_for t' w' ''c''"
proof -
  obtain found t' w' where s: "select_wait_outcome demo_finished demo_wait = (found, t', w')"
    using prod_cases3 by blast
  with demo_wait_selects have f: "found" "map e_claimed_by (t_effects t') = ['''', ''w1'']" by auto
  have mode: "w_mode demo_wait = WaitAll" "w_targets demo_wait = [''c'']"
    by (simp_all add: demo_wait_def new_wait_def)
  have kinds: "map e_kind (t_effects demo_finished) = [KCreate, KFinal]" by code_simp
  have no: "e_kind (t_effects demo_finished ! i) \<noteq> KMessage" if "i < length (t_effects demo_finished)" for i
  proof -
    have "e_kind (t_effects demo_finished ! i) \<in> set (map e_kind (t_effects demo_finished))"
      using that by simp
    with kinds show ?thesis by auto
  qed
  from wait_all_settles_together [OF reachable_tree_ok [OF demo_finished_reachable] mode(1) s] f no
  have "outcome_for t' w' ''c''" using mode(2) by auto
  with s f show ?thesis by auto
qed

lemma claim_outcomes_marks:
  assumes "claim_outcomes outs tids t w = (t', w')" and "outcomes_valid t0 w outs"
    and "length (t_effects t) = length (t_effects t0)"
    and "\<forall>i < length (t_effects t0). t_effects t ! i = t_effects t0 ! i
      \<or> (final_of t0 w (e_caller (t_effects t0 ! i)) (t_effects t0 ! i)
           \<and> t_effects t ! i = (t_effects t0 ! i)\<lparr>e_claimed_by := w_id w\<rparr>)"
  shows "length (t_effects t') = length (t_effects t0)
    \<and> (\<forall>i < length (t_effects t0). t_effects t' ! i = t_effects t0 ! i
      \<or> (final_of t0 w (e_caller (t_effects t0 ! i)) (t_effects t0 ! i)
           \<and> t_effects t' ! i = (t_effects t0 ! i)\<lparr>e_claimed_by := w_id w\<rparr>))"
  using assms
proof (induction tids arbitrary: t w)
  case Nil
  then show ?case by simp
next
  case (Cons tid tids)
  show ?case
  proof (cases "alist_get outs tid")
    case (Some i)
    let ?t1 = "claim_index i (w_id w) t"
    have v: "final_of t0 w tid (t_effects t0 ! i)" "i < length (t_effects t0)"
      using Some Cons.prems(2) by (auto simp: outcomes_valid_def)
    then have v': "final_of t0 w (e_caller (t_effects t0 ! i)) (t_effects t0 ! i)"
      by (simp add: final_of_def)
    have rec: "claim_outcomes outs tids ?t1 w = (t', w')" using Cons.prems(1) Some by simp
    have len: "length (t_effects ?t1) = length (t_effects t0)"
      using Cons.prems(3) v(2) by (simp add: claim_index_effects)
    have "\<forall>j < length (t_effects t0). t_effects ?t1 ! j = t_effects t0 ! j
      \<or> (final_of t0 w (e_caller (t_effects t0 ! j)) (t_effects t0 ! j)
           \<and> t_effects ?t1 ! j = (t_effects t0 ! j)\<lparr>e_claimed_by := w_id w\<rparr>)"
    proof (intro allI impI)
      fix j assume j: "j < length (t_effects t0)"
      show "t_effects ?t1 ! j = t_effects t0 ! j
        \<or> (final_of t0 w (e_caller (t_effects t0 ! j)) (t_effects t0 ! j)
             \<and> t_effects ?t1 ! j = (t_effects t0 ! j)\<lparr>e_claimed_by := w_id w\<rparr>)"
      proof (cases "j = i")
        case True
        have "(t_effects t ! i)\<lparr>e_claimed_by := w_id w\<rparr> = (t_effects t0 ! i)\<lparr>e_claimed_by := w_id w\<rparr>"
          using Cons.prems(4) v(2) by auto
        with True v' v(2) Cons.prems(3) show ?thesis by (simp add: claim_index_effects)
      next
        case False
        with Cons.prems(3,4) v(2) j show ?thesis by (simp add: claim_index_effects)
      qed
    qed
    from Cons.IH [OF rec Cons.prems(2) len this] show ?thesis .
  next
    case None
    show ?thesis
    proof (cases "wait_member t w tid")
      case (Some m)
      let ?w1 = "w\<lparr>w_terminals := w_terminals w @ [stopped_event w m]\<rparr>"
      have rec: "claim_outcomes outs tids t ?w1 = (t', w')" using Cons.prems(1) None Some by simp
      have "outcomes_valid t0 ?w1 outs" using Cons.prems(2) by (simp add: outcomes_valid_def final_of_def)
      from Cons.IH [OF rec this Cons.prems(3)] Cons.prems(4) show ?thesis by (simp add: final_of_def)
    qed (use None Cons in simp)
  qed
qed

text \<open>
  C27: an outcome is delivered to one wait.  Whatever a wait selects, every effect is left as
  it was or is claimed for this wait, and an effect is only claimed if it was delivered, not
  yet consumed by its recipient and claimed by no other wait.
\<close>

theorem outcomes_claimed_once:
  assumes "select_wait_outcome t w = (found, t', w')"
  shows "length (t_effects t') = length (t_effects t)
    \<and> (\<forall>i < length (t_effects t). t_effects t' ! i = t_effects t ! i
         \<or> (delivered (t_effects t ! i) \<and> \<not> e_consumed (t_effects t ! i)
              \<and> e_claimed_by (t_effects t ! i) = '''' \<and> e_target (t_effects t ! i) = w_caller w
              \<and> t_effects t' ! i = (t_effects t ! i)\<lparr>e_claimed_by := w_id w\<rparr>))"
proof -
  have one: ?thesis if "t' = claim_index j (w_id w) t" "j < length (t_effects t)"
      "selectable w (t_effects t ! j)" for j
    using that by (auto simp: claim_index_effects nth_list_update selectable_def)
  have same: ?thesis if "t' = t" using that by simp
  show ?thesis
  proof (cases "w_mode w = WaitAll")
    case True
    show ?thesis
    proof (cases "scan_outcomes t w (t_effects t) 0 [] []")
      case (Inl j)
      with assms True have "t' = claim_index j (w_id w) t"
        by (auto simp: select_wait_outcome_def select_all_wait_outcomes_def)
      with scan_message [OF Inl] show ?thesis by (intro one [of j]) simp_all
    next
      case (Inr po)
      obtain pend outs where po: "po = (pend, outs)" by (cases po)
      have v: "outcomes_valid t w outs"
        using scan_outcomes_valid [OF Inr [unfolded po]] by (simp add: outcomes_valid_def)
      show ?thesis
      proof (cases "all_settled t w pend")
        case False
        with Inr po assms True same show ?thesis
          by (simp add: select_wait_outcome_def select_all_wait_outcomes_def)
      next
        case st: True
        with Inr po assms True have "claim_outcomes outs (w_targets w) t w = (t', w')"
          by (auto simp: select_wait_outcome_def select_all_wait_outcomes_def)
        from claim_outcomes_marks [OF this v] show ?thesis by (auto simp: final_of_def)
      qed
    qed
  next
    case False
    show ?thesis
    proof (cases "selected_event t w")
      case (Some j)
      with False assms have "t' = claim_index j (w_id w) t"
        by (auto simp: select_wait_outcome_def)
      with find_index_Some [of "selectable w" "t_effects t" j] Some show ?thesis
        by (intro one [of j]) (simp_all add: selected_event_def)
    next
      case None
      with False assms same show ?thesis
        by (auto simp: select_wait_outcome_def split: if_splits option.splits)
    qed
  qed
qed

theorem outcomes_claimed_once_witness:
  "\<exists>t' w'. select_wait_outcome demo_finished demo_wait = (True, t', w')
     \<and> length (t_effects t') = length (t_effects demo_finished)"
proof -
  obtain found t' w' where s: "select_wait_outcome demo_finished demo_wait = (found, t', w')"
    using prod_cases3 by blast
  with demo_wait_selects have "found" by auto
  with s outcomes_claimed_once [OF s] show ?thesis by auto
qed

section \<open>Registration\<close>

text \<open>
  A timed wait lasts as long as the host allows.  A registered wait with a timeout keeps
  the requested milliseconds, waits at least the captured minimum and no longer than the
  captured maximum unless the minimum exceeds it, and its deadline is that many milliseconds
  after the registration, a duration that fits 64 bits of nanoseconds.
\<close>

lemma timed_wait_bounds:
  assumes "timed_wait m q w = Inr w'" and "q_timeout q = Some timeout"
  shows "\<exists>ms. w_effective_ms w' = Some ms \<and> w_requested_ms w' = Some timeout
    \<and> timeout \<le> l_max_wait_ms (m_limits m) \<and> timeout \<le> ms \<and> l_min_wait_ms (m_limits m) \<le> ms
    \<and> (ms = timeout \<or> ms = l_min_wait_ms (m_limits m))
    \<and> 0 \<le> ms * 1000000 \<and> ms * 1000000 \<le> 2 ^ 63 - 1
    \<and> w_deadline w' = Some (q_now q + ms * 1000000)"
  using assms
  by (auto simp: timed_wait_def Let_def max_duration_ms_def max_def split: if_splits)

lemma timed_wait_bounds_witness:
  "\<exists>w'. timed_wait demo_root (demo_request WaitAny) demo_wait = Inr w'
     \<and> w_deadline w' = Some (7 + 10000 * 1000000)"
proof -
  obtain w' where t: "timed_wait demo_root (demo_request WaitAny) demo_wait = Inr w'"
    by (simp add: timed_wait_def demo_root_def demo_request_def max_duration_ms_def Let_def)
  from timed_wait_bounds [OF t, of 500] t show ?thesis
    by (auto simp: demo_request_def demo_root_def)
qed

text \<open>
  A repeated registration reuses the wait.  While a member's wait is live and belongs to
  the same enclosing execution, registering again in that execution returns the result of the
  retained wait, whatever call registers it, and changes nothing.
\<close>

lemma register_wait_repeated:
  assumes "admitted t caller = Inr m" and "i_call caller \<noteq> ''''" and "i_item caller \<noteq> ''''"
    and "m_wait m = Some w" and "w_turn w = i_turn caller" and "w_item w = i_item caller"
    and "w_generation w = m_generation m" and "w_state w = SRegistered"
    and "(w_compaction w \<noteq> None) = q_compact q" and "w_standalone w = q_standalone q"
    and "q_mode q = ModeNone \<or> q_mode q = WaitAny \<or> q_mode q = WaitAll"
    and "wait_selection t m q = Inr sel"
  shows "register_wait caller q t = Unchanged (wait_result_of t w)"
proof -
  have "t_member t (i_thread caller) = Some m" using admitted_SomeD [OF assms(1)] .
  then have "transition_host t (i_thread caller) (EvWaitRegistration (i_turn caller) (i_item caller)
      (i_call caller) (q_compact q) (q_standalone q)) = Unchanged None"
    using assms by (auto simp: host_wait_registration_def)
  with assms show ?thesis
    by (auto simp: register_wait_def with_admitted_def)
qed

definition demo_waiting :: tree where
  "demo_waiting = apply_op demo_env (OpRegisterWait (demo_caller ''w1'') (demo_request WaitAll)) demo_child_tree"

lemma demo_waiting_reachable: "reachable demo_env demo_waiting"
  unfolding demo_waiting_def by (rule reachable_apply_op) (rule demo_child_reachable)

lemma demo_waiting_facts:
  "(case admitted demo_waiting (demo_caller ''w2'') of Inl _ \<Rightarrow> False | Inr m \<Rightarrow>
     (case m_wait m of None \<Rightarrow> False | Some w \<Rightarrow>
        w_turn w = ''t1'' \<and> w_item w = ''m'' \<and> w_generation w = m_generation m
        \<and> w_state w = SRegistered \<and> w_compaction w = None \<and> \<not> w_standalone w \<and> w_id w = ''w1''
        \<and> wait_selection demo_waiting m (demo_request WaitAny) = Inr [''c'']))"
  by code_simp

lemma register_wait_repeated_witness:
  "\<exists>w. w_id w = ''w1''
     \<and> register_wait (demo_caller ''w2'') (demo_request WaitAny) demo_waiting = Unchanged (wait_result_of demo_waiting w)"
proof -
  from demo_waiting_facts obtain m w where f: "admitted demo_waiting (demo_caller ''w2'') = Inr m"
      "m_wait m = Some w" "w_turn w = ''t1''" "w_item w = ''m''" "w_generation w = m_generation m"
      "w_state w = SRegistered" "w_compaction w = None" "\<not> w_standalone w" "w_id w = ''w1''"
      "wait_selection demo_waiting m (demo_request WaitAny) = Inr [''c'']"
    by (auto split: sum.splits option.splits)
  have "register_wait (demo_caller ''w2'') (demo_request WaitAny) demo_waiting
      = Unchanged (wait_result_of demo_waiting w)"
    by (rule register_wait_repeated [OF f(1) _ _ f(2)])
      (use f in \<open>simp_all add: demo_caller_def demo_request_def\<close>)
  with f(9) show ?thesis by blast
qed

section \<open>Wake-ups\<close>

text \<open>
  C28: a due wait wakes.  When the due-list of a thread names it and its wait has committed
  its stop for the current work, preparing its wake queues the wake, and the queued effect is
  the one the claim will find.
\<close>

theorem due_wait_wakes:
  assumes "due thread now t = [thread]" and "t_member t thread = Some m" and "m_wait m = Some w"
    and "w_stop w = StopCommitted" and "w_generation w = m_generation m"
  shows "\<exists>t' e. prepare_wake thread now t = Changed t' (Some e) \<and> e_state e = SQueued \<and> e_id e = w_id w
    \<and> (\<exists>m' w'. t_member t' thread = Some m' \<and> m_wait m' = Some w' \<and> w_effect w' = e)"
proof -
  from assms(1-3) have d: "m_status m = Waiting" "\<not> m_host_running m" "w_state w = SRegistered"
      "w_deadline w \<noteq> None" "\<not> compaction_pending (Some w)" "\<not> before_deadline now w"
    by (auto simp: due_def split: if_splits)
  obtain found t1 w1 where s: "(if w_standalone w then (True, t, w) else select_wait_outcome t w) = (found, t1, w1)"
    using prod_cases3 by blast
  have eff: "w_effect w1 = w_effect w"
    using s select_wait_outcome_frame by (auto split: if_splits)
  have "t_members t1 = t_members t"
  proof (cases "w_standalone w")
    case False
    have mem: "claim_outcomes outs tids a v = (b, v') \<Longrightarrow> t_members b = t_members a" for outs tids a v b v'
      by (induction tids arbitrary: a v) (auto split: option.splits)
    from False s show ?thesis
      by (auto simp: select_wait_outcome_def select_all_wait_outcomes_def dest: mem
          split: if_splits sum.splits prod.splits option.splits)
  qed (use s in simp)
  with assms(2-5) d s eff show ?thesis
    by (simp add: prepare_wake_def Let_def)
qed

text \<open>Witness: a usage-limit wait whose deadline has passed.\<close>

definition demo_limited :: tree where
  "demo_limited = fold (apply_op demo_env)
     [OpWaitForProvider ''r'' ''t1'' (Some 100) False 50, OpCheckpointWait ''r'' ''t1''] demo_tree"

lemma demo_limited_facts:
  "due ''r'' 100 demo_limited = [''r'']
   \<and> (case t_member demo_limited ''r'' of None \<Rightarrow> False | Some m \<Rightarrow>
        (case m_wait m of None \<Rightarrow> False
         | Some w \<Rightarrow> w_stop w = StopCommitted \<and> w_generation w = m_generation m))"
  by code_simp

theorem due_wait_wakes_witness:
  "\<exists>t' e. prepare_wake ''r'' 100 demo_limited = Changed t' (Some e) \<and> e_state e = SQueued"
proof -
  from demo_limited_facts obtain m w where "due ''r'' 100 demo_limited = [''r'']"
      "t_member demo_limited ''r'' = Some m" "m_wait m = Some w" "w_stop w = StopCommitted"
      "w_generation w = m_generation m"
    by (auto split: option.splits)
  from due_wait_wakes [OF this] show ?thesis by blast
qed

end
