(* ===== verification/Notices.thy ===== *)
theory Notices
  imports Interfaces
begin

text \<open>
  The notice queue of \<open>modules/notifications/notice/queue.go\<close>: bounded recovery notices that a
  producer submits, that wait for the outcome of their turn, and that an attached view claims
  and finishes.  An entry of the Go code is a heap object: a batch keeps pointers to the
  entries it claimed, which may have left the queue when the batch is finished.  Here every
  entry carries the address it was allocated at, and \<open>ns_next\<close> is the next free address.
  Instants are nanoseconds and \<open>time.Now\<close> is an argument; a nil service is \<open>None\<close>.  The mutex
  makes each operation one step.
\<close>

section \<open>Data\<close>

datatype surface = ErrorSurface | ProgressSurface

record notice_input =
  n_ident :: string
  n_session :: string
  n_thread :: string
  n_turn :: string
  n_category :: string
  n_reference :: string
  n_text :: string
  n_surface :: surface
  n_request :: bool

record notice_entry = notice_input +
  n_count :: "64 word"
  n_delivered :: "64 word"
  n_in_flight :: bool
  n_await_turn :: bool
  n_occurred :: int
  n_address :: nat

record turn_outcome =
  to_thread :: string
  to_turn :: string
  to_status :: string

record request_success =
  rs_thread :: string
  rs_at :: int

record notice_service =
  ns_entries :: "notice_entry list"
  ns_outcomes :: "turn_outcome list"
  ns_successes :: "request_success list"
  ns_overflow :: "64 word"
  ns_next :: nat

record notice_message =
  nm_ident :: string
  nm_text :: string
  nm_thread :: string
  nm_occurred :: int

text \<open>A claim is the address of the entry and the count captured with it.\<close>

record batch =
  b_messages :: "notice_message list"
  b_claims :: "(nat \<times> 64 word) list"

record delivery =
  d_errors :: batch
  d_progress :: batch

definition empty_notices :: notice_service where
  "empty_notices = \<lparr>ns_entries = [], ns_outcomes = [], ns_successes = [], ns_overflow = 0, ns_next = 0\<rparr>"

definition empty_batch :: batch where
  "empty_batch = \<lparr>b_messages = [], b_claims = []\<rparr>"

text \<open>An operation of a service whose receiver may be nil: nothing happens then.\<close>

fun on_service :: "('s \<Rightarrow> 's) \<Rightarrow> 's option \<Rightarrow> 's option" where
  "on_service f None = None"
| "on_service f (Some s) = Some (f s)"

text \<open>Appending to a history of at most 256 records drops the oldest one.\<close>

definition push_bounded :: "'a \<Rightarrow> 'a list \<Rightarrow> 'a list" where
  "push_bounded x xs = (if length xs = 256 then tl xs else xs) @ [x]"

lemma push_bounded_length: "length xs \<le> 256 \<Longrightarrow> length (push_bounded x xs) \<le> 256"
  by (simp add: push_bounded_def)

section \<open>Request successes\<close>

definition record_success :: "string \<Rightarrow> int \<Rightarrow> notice_service \<Rightarrow> notice_service" where
  "record_success thread at s =
     s\<lparr>ns_successes := push_bounded \<lparr>rs_thread = thread, rs_at = at\<rparr>
          (filter (\<lambda>r. rs_thread r \<noteq> thread) (ns_successes s)),
       ns_entries := filter (\<lambda>e. \<not> (n_request e \<and> n_thread e = thread)) (ns_entries s)\<rparr>"

definition request_succeeded :: "string \<Rightarrow> int \<Rightarrow> notice_service option \<Rightarrow> notice_service option" where
  "request_succeeded thread at s = (if thread = '''' then s else on_service (record_success thread at) s)"

definition succeeded_since :: "string \<Rightarrow> int \<Rightarrow> notice_service option \<Rightarrow> bool" where
  "succeeded_since thread at s =
     (case s of None \<Rightarrow> False
      | Some s \<Rightarrow> thread \<noteq> '''' \<and> list_ex (\<lambda>r. rs_thread r = thread \<and> at < rs_at r) (ns_successes s))"

section \<open>Submission\<close>

definition turn_status :: "string \<Rightarrow> string \<Rightarrow> notice_service \<Rightarrow> string" where
  "turn_status thread turn s =
     (case find (\<lambda>r. to_thread r = thread \<and> to_turn r = turn) (ns_outcomes s) of
        None \<Rightarrow> '''' | Some r \<Rightarrow> to_status r)"

text \<open>The report of a failure that is already retained for this turn and reference.\<close>

definition same_report :: "notice_input \<Rightarrow> notice_entry \<Rightarrow> bool" where
  "same_report i e \<longleftrightarrow> n_request i \<and> n_turn i \<noteq> '''' \<and> n_thread e = n_thread i \<and> n_turn e = n_turn i
     \<and> n_reference e = n_reference i"

definition same_notice :: "notice_input \<Rightarrow> notice_entry \<Rightarrow> bool" where
  "same_notice i e \<longleftrightarrow> n_session e = n_session i \<and> n_category e = n_category i
     \<and> (n_request i \<or> n_thread e = n_thread i)"

definition repeat_entry :: "int \<Rightarrow> bool \<Rightarrow> notice_input \<Rightarrow> notice_entry \<Rightarrow> notice_entry" where
  "repeat_entry now await i e =
     (let e = e\<lparr>n_count := n_count e + 1, n_occurred := now\<rparr>
      in if n_request i
         then e\<lparr>n_thread := n_thread i, n_turn := n_turn i, n_reference := n_reference i, n_await_turn := await\<rparr>
         else e)"

definition new_entry :: "int \<Rightarrow> bool \<Rightarrow> nat \<Rightarrow> notice_input \<Rightarrow> notice_entry" where
  "new_entry now await address i =
     \<lparr>n_ident = n_ident i, n_session = n_session i, n_thread = n_thread i, n_turn = n_turn i,
      n_category = n_category i, n_reference = n_reference i, n_text = n_text i, n_surface = n_surface i,
      n_request = n_request i, n_count = 1, n_delivered = 0, n_in_flight = False, n_await_turn = await,
      n_occurred = now, n_address = address\<rparr>"

definition submit_notice :: "int \<Rightarrow> notice_input \<Rightarrow> notice_service \<Rightarrow> notice_service" where
  "submit_notice now i s =
     (let awaits = n_request i \<and> n_thread i \<noteq> '''' \<and> n_turn i \<noteq> '''';
          status = turn_status (n_thread i) (n_turn i) s
      in if awaits \<and> status \<in> {''completed'', ''interrupted''} then s
         else
           let await = (awaits \<and> status \<noteq> ''failed'')
           in if list_ex (same_report i) (ns_entries s) then s
              else case find_index (same_notice i) (ns_entries s) of
                  Some k \<Rightarrow> s\<lparr>ns_entries := (ns_entries s)[k := repeat_entry now await i (ns_entries s ! k)]\<rparr>
                | None \<Rightarrow>
                    if 256 \<le> length (ns_entries s) then s\<lparr>ns_overflow := ns_overflow s + 1\<rparr>
                    else s\<lparr>ns_entries := ns_entries s @ [new_entry now await (ns_next s) i],
                           ns_next := Suc (ns_next s)\<rparr>)"

definition submit :: "int \<Rightarrow> notice_input \<Rightarrow> notice_service option \<Rightarrow> notice_service option" where
  "submit now i s = on_service (submit_notice now i) s"

section \<open>Turn outcomes\<close>

definition settle_entry :: "string \<Rightarrow> string \<Rightarrow> string \<Rightarrow> notice_entry \<Rightarrow> notice_entry list" where
  "settle_entry thread turn status e =
     (if n_thread e \<noteq> thread \<or> n_turn e \<noteq> turn then [e]
      else if status = ''failed'' then [e\<lparr>n_await_turn := False\<rparr>]
      else [])"

definition settle_turn :: "string \<Rightarrow> string \<Rightarrow> string \<Rightarrow> notice_service \<Rightarrow> notice_service" where
  "settle_turn thread turn status s =
     s\<lparr>ns_outcomes := (if turn_status thread turn s = ''''
          then push_bounded \<lparr>to_thread = thread, to_turn = turn, to_status = status\<rparr> (ns_outcomes s)
          else ns_outcomes s),
       ns_entries := concat (map (settle_entry thread turn status) (ns_entries s))\<rparr>"

definition observe_turn :: "string \<Rightarrow> string \<Rightarrow> string \<Rightarrow> notice_service option \<Rightarrow> notice_service option" where
  "observe_turn thread turn status s =
     (if thread = '''' \<or> turn = '''' \<or> status \<notin> {''completed'', ''interrupted'', ''failed''} then s
      else on_service (settle_turn thread turn status) s)"

section \<open>Claims\<close>

definition entry_text :: "notice_entry \<Rightarrow> string" where
  "entry_text e =
     (if 1 < n_count e then n_text e @ '' (occurred '' @ uint64_dec (n_count e) @ '' times)'' else n_text e)"

definition pending_notices :: "notice_service option \<Rightarrow> string list" where
  "pending_notices s =
     (case s of None \<Rightarrow> []
      | Some s \<Rightarrow>
          map (\<lambda>e. ''mekugi: '' @ entry_text e) (filter (\<lambda>e. n_delivered e < n_count e) (ns_entries s))
          @ (if ns_overflow s \<noteq> 0
             then [''mekugi: '' @ uint64_dec (ns_overflow s)
                    @ '' additional failures could not be retained; check the failed turns.'']
             else []))"

definition claimable :: "string \<Rightarrow> (string \<times> string) list \<Rightarrow> notice_entry \<Rightarrow> bool" where
  "claimable root descendants e \<longleftrightarrow>
     \<not> (n_await_turn e \<or> n_delivered e \<noteq> 0 \<or> n_in_flight e)
     \<and> (n_thread e = root \<or> alist_get descendants (n_thread e) \<noteq> None
        \<or> n_thread e = '''' \<and> n_session e = '''')"

definition notice_message_of :: "string \<Rightarrow> (string \<times> string) list \<Rightarrow> notice_entry \<Rightarrow> notice_message" where
  "notice_message_of root descendants e =
     \<lparr>nm_ident = n_ident e,
      nm_text = (case alist_get descendants (n_thread e) of
          Some name \<Rightarrow> if n_thread e \<noteq> root \<and> n_thread e \<noteq> '''' then name @ '': '' @ entry_text e else entry_text e
        | None \<Rightarrow> entry_text e),
      nm_thread = n_thread e,
      nm_occurred = n_occurred e\<rparr>"

definition claim_into :: "string \<Rightarrow> (string \<times> string) list \<Rightarrow> notice_entry \<Rightarrow> batch \<Rightarrow> batch" where
  "claim_into root descendants e b =
     b\<lparr>b_messages := b_messages b @ [notice_message_of root descendants e],
       b_claims := b_claims b @ [(n_address e, n_count e)]\<rparr>"

fun claim_entries :: "string \<Rightarrow> (string \<times> string) list \<Rightarrow> notice_entry list \<Rightarrow> delivery
    \<Rightarrow> notice_entry list \<times> delivery" where
  "claim_entries root descendants [] d = ([], d)"
| "claim_entries root descendants (e # es) d =
     (if \<not> claimable root descendants e
      then let (es', d') = claim_entries root descendants es d in (e # es', d')
      else
        let e1 = e\<lparr>n_in_flight := True\<rparr>;
            d1 = (if n_surface e1 = ProgressSurface
                  then d\<lparr>d_progress := claim_into root descendants e1 (d_progress d)\<rparr>
                  else d\<lparr>d_errors := claim_into root descendants e1 (d_errors d)\<rparr>);
            (es', d') = claim_entries root descendants es d1
        in (e1 # es', d'))"

definition claim_service :: "string \<Rightarrow> (string \<times> string) list \<Rightarrow> notice_service
    \<Rightarrow> notice_service \<times> delivery option" where
  "claim_service root descendants s =
     (let (es, d) = claim_entries root descendants (ns_entries s)
                      \<lparr>d_errors = empty_batch, d_progress = empty_batch\<rparr>
      in (s\<lparr>ns_entries := es\<rparr>,
          if length (b_messages (d_errors d)) + length (b_messages (d_progress d)) = 0 then None else Some d))"

definition claim_notices :: "string \<Rightarrow> (string \<times> string) list \<Rightarrow> notice_service option
    \<Rightarrow> notice_service option \<times> delivery option" where
  "claim_notices root descendants s =
     (case s of None \<Rightarrow> (None, None)
      | Some s' \<Rightarrow> if root = '''' then (s, None)
          else let (s2, d) = claim_service root descendants s' in (Some s2, d))"

definition waiting_on :: "string \<Rightarrow> (string \<times> string) list \<Rightarrow> surface \<Rightarrow> notice_service option \<Rightarrow> bool" where
  "waiting_on root descendants sf s =
     (case s of None \<Rightarrow> False
      | Some s \<Rightarrow> root \<noteq> '''' \<and> list_ex (\<lambda>e. n_surface e = sf \<and> claimable root descendants e) (ns_entries s))"

text \<open>
  Finishing writes through the pointers of the batch; an entry that has left the queue is no
  longer observable.
\<close>

definition release_entry :: "bool \<Rightarrow> 64 word \<Rightarrow> notice_entry \<Rightarrow> notice_entry" where
  "release_entry visible count e =
     (let e = e\<lparr>n_in_flight := False\<rparr> in if visible then e\<lparr>n_delivered := count\<rparr> else e)"

fun finish_claims :: "bool \<Rightarrow> (nat \<times> 64 word) list \<Rightarrow> notice_entry list \<Rightarrow> notice_entry list" where
  "finish_claims visible [] es = es"
| "finish_claims visible ((address, count) # claims) es =
     finish_claims visible claims
       (map (\<lambda>e. if n_address e = address then release_entry visible count e else e) es)"

definition finish_batch :: "bool \<Rightarrow> batch option \<Rightarrow> notice_service option \<Rightarrow> notice_service option" where
  "finish_batch visible b s =
     (case b of None \<Rightarrow> s
      | Some b \<Rightarrow> on_service (\<lambda>s. s\<lparr>ns_entries := finish_claims visible (b_claims b) (ns_entries s)\<rparr>) s)"

section \<open>Closed forms\<close>

definition taken :: "string \<Rightarrow> (string \<times> string) list \<Rightarrow> notice_entry \<Rightarrow> notice_entry" where
  "taken root ds e = (if claimable root ds e then e\<lparr>n_in_flight := True\<rparr> else e)"

definition on_surface :: "bool \<Rightarrow> string \<Rightarrow> (string \<times> string) list \<Rightarrow> notice_entry list \<Rightarrow> notice_entry list" where
  "on_surface progress root ds es =
     filter (\<lambda>e. claimable root ds e \<and> (n_surface e = ProgressSurface) = progress) es"

definition claim_batch :: "string \<Rightarrow> (string \<times> string) list \<Rightarrow> notice_entry list \<Rightarrow> batch" where
  "claim_batch root ds es =
     \<lparr>b_messages = map (notice_message_of root ds) es, b_claims = map (\<lambda>e. (n_address e, n_count e)) es\<rparr>"

lemma message_in_flight [simp]:
  "notice_message_of root ds (e\<lparr>n_in_flight := b\<rparr>) = notice_message_of root ds e"
  by (simp add: notice_message_of_def entry_text_def split: option.splits)

lemma claim_entries_spec:
  assumes "claim_entries root ds es \<lparr>d_errors = claim_batch root ds xs, d_progress = claim_batch root ds ys\<rparr> = (es', d)"
  shows "es' = map (taken root ds) es
    \<and> d = \<lparr>d_errors = claim_batch root ds (xs @ on_surface False root ds es),
           d_progress = claim_batch root ds (ys @ on_surface True root ds es)\<rparr>"
  using assms
proof (induction es arbitrary: xs ys es' d)
  case Nil
  then show ?case by (auto simp: on_surface_def)
next
  case (Cons e es)
  have add: "claim_into root ds (e\<lparr>n_in_flight := True\<rparr>) (claim_batch root ds zs) = claim_batch root ds (zs @ [e])" for zs
    by (simp add: claim_into_def claim_batch_def)
  let ?d = "\<lambda>xs ys. \<lparr>d_errors = claim_batch root ds xs, d_progress = claim_batch root ds ys\<rparr>"
  obtain a where a: "\<And>xs ys. claim_entries root ds es (?d xs ys) = (a, snd (claim_entries root ds es (?d xs ys)))"
    using Cons.IH by (metis prod.collapse)
  consider "\<not> claimable root ds e" | "claimable root ds e" "n_surface e = ProgressSurface"
    | "claimable root ds e" "n_surface e \<noteq> ProgressSurface" by blast
  then show ?case
  proof cases
    case 1
    with Cons.prems a obtain es2 where "claim_entries root ds es (?d xs ys) = (es2, d)" "es' = e # es2"
      by (auto split: prod.splits)
    with Cons.IH [OF this(1)] 1 show ?thesis by (simp add: taken_def on_surface_def)
  next
    case 2
    with Cons.prems add obtain es2 where "claim_entries root ds es (?d xs (ys @ [e])) = (es2, d)"
        "es' = e\<lparr>n_in_flight := True\<rparr> # es2"
      by (auto simp: Let_def split: prod.splits)
    with Cons.IH [OF this(1)] 2 show ?thesis by (simp add: taken_def on_surface_def)
  next
    case 3
    with Cons.prems add obtain es2 where "claim_entries root ds es (?d (xs @ [e]) ys) = (es2, d)"
        "es' = e\<lparr>n_in_flight := True\<rparr> # es2"
      by (auto simp: Let_def split: prod.splits)
    with Cons.IH [OF this(1)] 3 show ?thesis by (simp add: taken_def on_surface_def)
  qed
qed

lemma claim_service_spec:
  "claim_service root ds s =
     (s\<lparr>ns_entries := map (taken root ds) (ns_entries s)\<rparr>,
      if list_ex (claimable root ds) (ns_entries s)
      then Some \<lparr>d_errors = claim_batch root ds (on_surface False root ds (ns_entries s)),
                 d_progress = claim_batch root ds (on_surface True root ds (ns_entries s))\<rparr>
      else None)"
proof -
  have empty: "empty_batch = claim_batch root ds []" by (simp add: empty_batch_def claim_batch_def)
  obtain es d where c: "claim_entries root ds (ns_entries s)
      \<lparr>d_errors = claim_batch root ds [], d_progress = claim_batch root ds []\<rparr> = (es, d)"
    using prod.exhaust by blast
  have none: "length (on_surface False root ds xs) + length (on_surface True root ds xs) = 0
      \<longleftrightarrow> \<not> list_ex (claimable root ds) xs" for xs
    by (auto simp: on_surface_def filter_empty_conv list_ex_iff)
  from claim_entries_spec [OF c] c show ?thesis
    using none [of "ns_entries s"] by (simp add: claim_service_def empty claim_batch_def)
qed

lemma release_address [simp]: "n_address (release_entry v c e) = n_address e"
  by (simp add: release_entry_def Let_def)

lemma finish_claims_spec:
  assumes "distinct (map fst cs)"
  shows "finish_claims v cs es =
     map (\<lambda>e. case alist_get cs (n_address e) of None \<Rightarrow> e | Some c \<Rightarrow> release_entry v c e) es"
  using assms
proof (induction cs arbitrary: es)
  case (Cons p cs)
  obtain a c where p: "p = (a, c)" by (cases p)
  with Cons have "alist_get cs a = None" by (simp add: map_of_eq_None_iff)
  with Cons p show ?case by (auto simp: fun_eq_iff)
qed simp

section \<open>Runs\<close>

text \<open>
  A run of the queue with the batches that have been handed out and not been finished yet.
  A claim hands out the batch of each surface; a finish names one of the open batches.
\<close>

datatype notice_op =
    NoSubmit int notice_input
  | NoSuccess string int
  | NoTurn string string string
  | NoClaim string "(string \<times> string) list"
  | NoFinish nat bool

fun notice_step :: "notice_op \<Rightarrow> notice_service option \<times> batch list \<Rightarrow> notice_service option \<times> batch list" where
  "notice_step (NoSubmit now i) (s, bs) = (submit now i s, bs)"
| "notice_step (NoSuccess thread at) (s, bs) = (request_succeeded thread at s, bs)"
| "notice_step (NoTurn thread turn status) (s, bs) = (observe_turn thread turn status s, bs)"
| "notice_step (NoClaim root ds) (s, bs) =
     (case claim_notices root ds s of
        (s, None) \<Rightarrow> (s, bs)
      | (s, Some d) \<Rightarrow> (s, bs @ [d_errors d, d_progress d]))"
| "notice_step (NoFinish k visible) (s, bs) =
     (if k < length bs then (finish_batch visible (Some (bs ! k)) s, take k bs @ drop (Suc k) bs) else (s, bs))"

definition held :: "batch list \<Rightarrow> nat list" where
  "held bs = concat (map (\<lambda>b. map fst (b_claims b)) bs)"

definition notices_good :: "notice_service \<Rightarrow> batch list \<Rightarrow> bool" where
  "notices_good s bs \<longleftrightarrow>
     length (ns_entries s) \<le> 256 \<and> length (ns_outcomes s) \<le> 256 \<and> length (ns_successes s) \<le> 256
     \<and> distinct (map n_address (ns_entries s)) \<and> (\<forall>e \<in> set (ns_entries s). n_address e < ns_next s)
     \<and> distinct (held bs) \<and> (\<forall>a \<in> set (held bs). a < ns_next s)
     \<and> (\<forall>e \<in> set (ns_entries s). n_in_flight e \<longleftrightarrow> n_address e \<in> set (held bs))"

definition notices_ok :: "notice_service option \<times> batch list \<Rightarrow> bool" where
  "notices_ok st = (case fst st of None \<Rightarrow> True | Some s \<Rightarrow> notices_good s (snd st))"

text \<open>Entries may leave, and may change in what the invariant does not speak of.\<close>

lemma notices_good_sub:
  assumes "notices_good s bs" and "length (ns_outcomes s') \<le> 256" and "length (ns_successes s') \<le> 256"
    and "ns_next s' = ns_next s"
    and "\<exists>f P. ns_entries s' = map f (filter P (ns_entries s))
       \<and> (\<forall>e. n_address (f e) = n_address e \<and> n_in_flight (f e) = n_in_flight e)"
  shows "notices_good s' bs"
proof -
  from assms(5) obtain f P where es: "ns_entries s' = map f (filter P (ns_entries s))"
    and f: "\<And>e. n_address (f e) = n_address e \<and> n_in_flight (f e) = n_in_flight e" by blast
  have len: "length (ns_entries s') \<le> 256"
    unfolding es length_map
    by (rule le_trans [OF length_filter_le]) (use assms(1) in \<open>simp add: notices_good_def\<close>)
  have ad: "map n_address (ns_entries s') = map n_address (filter P (ns_entries s))"
    using f by (simp add: es)
  have "distinct (map n_address (ns_entries s'))"
    unfolding ad using assms(1) by (auto simp: notices_good_def intro: distinct_map_filter)
  with len assms f show ?thesis by (auto simp: notices_good_def es)
qed

text \<open>Or they stay in place, while the open batches change.\<close>

lemma notices_good_same:
  assumes "notices_good s bs" and es: "map n_address es = map n_address (ns_entries s)"
    and "distinct (held bs')" and "\<forall>a \<in> set (held bs'). a < ns_next s"
    and "\<And>e. e \<in> set es \<Longrightarrow> n_in_flight e \<longleftrightarrow> n_address e \<in> set (held bs')"
  shows "notices_good (s\<lparr>ns_entries := es\<rparr>) bs'"
proof -
  have "n_address e < ns_next s" if "e \<in> set es" for e
  proof -
    have "n_address e \<in> set (map n_address (ns_entries s))" unfolding es [symmetric] using that by simp
    with assms(1) show ?thesis by (auto simp: notices_good_def)
  qed
  moreover have "length es = length (ns_entries s)" using es by (rule map_eq_imp_length_eq)
  ultimately show ?thesis using assms by (simp add: notices_good_def)
qed

lemma record_success_good: "notices_good s bs \<Longrightarrow> notices_good (record_success thread at s) bs"
proof (rule notices_good_sub)
  assume good: "notices_good s bs"
  have "length (filter (\<lambda>r. rs_thread r \<noteq> thread) (ns_successes s)) \<le> 256"
    by (rule le_trans [OF length_filter_le]) (use good in \<open>simp add: notices_good_def\<close>)
  then show "length (ns_successes (record_success thread at s)) \<le> 256"
    by (simp add: record_success_def push_bounded_length)
  show "\<exists>f P. ns_entries (record_success thread at s) = map f (filter P (ns_entries s))
      \<and> (\<forall>e. n_address (f e) = n_address e \<and> n_in_flight (f e) = n_in_flight e)"
    by (rule exI [of _ "\<lambda>e. e"]) (auto simp: record_success_def)
qed (simp_all add: record_success_def notices_good_def)

lemma settle_entry_map:
  "concat (map (settle_entry thread turn status) es) =
     map (\<lambda>e. if n_thread e = thread \<and> n_turn e = turn then e\<lparr>n_await_turn := False\<rparr> else e)
       (filter (\<lambda>e. \<not> (n_thread e = thread \<and> n_turn e = turn) \<or> status = ''failed'') es)"
  by (induction es) (auto simp: settle_entry_def)

lemma settle_turn_good: "notices_good s bs \<Longrightarrow> notices_good (settle_turn thread turn status s) bs"
proof (rule notices_good_sub)
  assume "notices_good s bs"
  then show "length (ns_outcomes (settle_turn thread turn status s)) \<le> 256"
    by (simp add: settle_turn_def notices_good_def push_bounded_length)
  show "\<exists>f P. ns_entries (settle_turn thread turn status s) = map f (filter P (ns_entries s))
      \<and> (\<forall>e. n_address (f e) = n_address e \<and> n_in_flight (f e) = n_in_flight e)"
    by (intro exI [of _ "\<lambda>e. if n_thread e = thread \<and> n_turn e = turn then e\<lparr>n_await_turn := False\<rparr> else e"]
        exI [of _ "\<lambda>e. \<not> (n_thread e = thread \<and> n_turn e = turn) \<or> status = ''failed''"])
      (simp add: settle_turn_def settle_entry_map)
qed (simp_all add: settle_turn_def notices_good_def)

lemma submit_notice_cases:
  "(submit_notice now i s = s)
   \<or> (\<exists>k await. k < length (ns_entries s) \<and> submit_notice now i s =
        s\<lparr>ns_entries := (ns_entries s)[k := repeat_entry now await i (ns_entries s ! k)]\<rparr>)
   \<or> submit_notice now i s = s\<lparr>ns_overflow := ns_overflow s + 1\<rparr>
   \<or> (length (ns_entries s) < 256 \<and> (\<exists>await. submit_notice now i s =
        s\<lparr>ns_entries := ns_entries s @ [new_entry now await (ns_next s) i], ns_next := Suc (ns_next s)\<rparr>))"
proof (cases "find_index (same_notice i) (ns_entries s)")
  case None
  then show ?thesis by (simp add: submit_notice_def Let_def not_le) blast
next
  case (Some k)
  with find_index_Some [OF Some] show ?thesis by (simp add: submit_notice_def Let_def) blast
qed

lemma repeat_entry_frame [simp]:
  "n_address (repeat_entry now await i e) = n_address e"
  "n_in_flight (repeat_entry now await i e) = n_in_flight e"
  by (simp_all add: repeat_entry_def Let_def)

lemma submit_notice_good: "notices_good s bs \<Longrightarrow> notices_good (submit_notice now i s) bs"
proof -
  assume good: "notices_good s bs"
  from submit_notice_cases [of now i s]
  consider "submit_notice now i s = s"
    | k await where "k < length (ns_entries s)" "submit_notice now i s =
        s\<lparr>ns_entries := (ns_entries s)[k := repeat_entry now await i (ns_entries s ! k)]\<rparr>"
    | "submit_notice now i s = s\<lparr>ns_overflow := ns_overflow s + 1\<rparr>"
    | await where "length (ns_entries s) < 256" "submit_notice now i s =
        s\<lparr>ns_entries := ns_entries s @ [new_entry now await (ns_next s) i], ns_next := Suc (ns_next s)\<rparr>"
    by blast
  then show ?thesis
  proof cases
    case 2
    have ad: "map n_address ((ns_entries s)[k := repeat_entry now await i (ns_entries s ! k)]) = map n_address (ns_entries s)"
      using 2(1) by (simp add: map_update list_update_same_conv)
    have old: "\<exists>e2 \<in> set (ns_entries s). n_address e = n_address e2 \<and> n_in_flight e = n_in_flight e2"
      if "e \<in> set ((ns_entries s)[k := repeat_entry now await i (ns_entries s ! k)])" for e
    proof -
      have "e = repeat_entry now await i (ns_entries s ! k) \<or> e \<in> set (ns_entries s)"
        using subsetD [OF set_update_subset_insert that] by simp
      then show ?thesis
      proof
        assume "e = repeat_entry now await i (ns_entries s ! k)"
        then show ?thesis using 2(1) by (intro bexI [of _ "ns_entries s ! k"]) simp_all
      qed blast
    qed
    have "n_in_flight e \<longleftrightarrow> n_address e \<in> set (held bs)"
      if "e \<in> set ((ns_entries s)[k := repeat_entry now await i (ns_entries s ! k)])" for e
    proof -
      from old [OF that] obtain e2 where "e2 \<in> set (ns_entries s)" "n_address e = n_address e2"
          "n_in_flight e = n_in_flight e2" by blast
      with good show ?thesis by (simp add: notices_good_def)
    qed
    with good show ?thesis
      unfolding 2(2) by - (rule notices_good_same [OF good ad], simp_all add: notices_good_def)
  next
    case 4
    have "ns_next s \<notin> set (held bs)" using good by (auto simp: notices_good_def)
    with good 4 show ?thesis
      by (fastforce simp: notices_good_def new_entry_def)
  qed (use good in \<open>simp_all add: notices_good_def\<close>)
qed

lemma held_append: "held (bs @ cs) = held bs @ held cs"
  by (simp add: held_def)

lemma surfaces_distinct:
  assumes "distinct (map n_address es)"
  shows "distinct (map n_address (on_surface False root ds es) @ map n_address (on_surface True root ds es))
    \<and> set (map n_address (on_surface False root ds es) @ map n_address (on_surface True root ds es))
        = n_address ` {e \<in> set es. claimable root ds e}"
proof -
  have inj: "inj_on n_address (set es)" using assms by (simp add: distinct_map)
  have "distinct (map n_address (on_surface b root ds es))" for b
    unfolding on_surface_def using assms by (rule distinct_map_filter)
  moreover have "set (map n_address (on_surface False root ds es)) \<inter> set (map n_address (on_surface True root ds es)) = {}"
    using inj by (auto simp: on_surface_def dest: inj_onD)
  moreover have "set (on_surface False root ds es) \<union> set (on_surface True root ds es) = {e \<in> set es. claimable root ds e}"
    by (auto simp: on_surface_def)
  ultimately show ?thesis by (simp add: image_Un [symmetric])
qed

lemma claim_service_good:
  assumes "notices_good s bs" and "claim_service root ds s = (s', d)"
  shows "notices_good s' (bs @ (case d of None \<Rightarrow> [] | Some d \<Rightarrow> [d_errors d, d_progress d]))"
proof -
  define es where "es = ns_entries s"
  define new where "new = (case d of None \<Rightarrow> [] | Some d \<Rightarrow> [d_errors d, d_progress d])"
  have s': "s' = s\<lparr>ns_entries := map (taken root ds) es\<rparr>"
    using assms(2) by (simp add: claim_service_spec es_def)
  have dist: "distinct (map n_address es)" using assms(1) by (simp add: notices_good_def es_def)
  have held: "distinct (held new) \<and> set (held new) = n_address ` {e \<in> set es. claimable root ds e}"
  proof (cases "list_ex (claimable root ds) es")
    case True
    then have "held new = map n_address (on_surface False root ds es) @ map n_address (on_surface True root ds es)"
      using assms(2) by (auto simp: claim_service_spec es_def new_def held_def claim_batch_def comp_def)
    with surfaces_distinct [OF dist] show ?thesis by simp
  next
    case False
    then show ?thesis
      using assms(2) by (auto simp: claim_service_spec es_def new_def held_def list_ex_iff)
  qed
  have ad: "map n_address (map (taken root ds) es) = map n_address es"
    by (simp add: taken_def)
  have free: "n_address e \<notin> set (held bs)" if "e \<in> set es" "claimable root ds e" for e
    using that assms(1) by (auto simp: notices_good_def es_def claimable_def)
  have flight: "n_in_flight (taken root ds e) \<longleftrightarrow> n_address (taken root ds e) \<in> set (held (bs @ new))"
    if "e \<in> set es" for e
  proof (cases "claimable root ds e")
    case True
    with that held show ?thesis by (auto simp: taken_def held_append)
  next
    case False
    have "n_address e \<notin> set (held new)"
    proof
      assume "n_address e \<in> set (held new)"
      with held obtain e2 where "e2 \<in> set es" "claimable root ds e2" "n_address e2 = n_address e" by auto
      with that dist False show False by (auto simp: distinct_map dest: inj_onD)
    qed
    with that assms(1) False show ?thesis by (auto simp: taken_def held_append notices_good_def es_def)
  qed
  have "distinct (held (bs @ new))"
    using assms(1) held free by (auto simp: held_append notices_good_def)
  moreover have "\<forall>a \<in> set (held (bs @ new)). a < ns_next s"
    using assms(1) held by (auto simp: held_append notices_good_def es_def)
  ultimately show ?thesis
    unfolding new_def [symmetric] s' using flight
    unfolding es_def
    by - (rule notices_good_same [OF assms(1) ad [unfolded es_def]], auto)
qed

lemma finish_batch_good:
  assumes "notices_good s bs" and "k < length bs"
  shows "notices_good (s\<lparr>ns_entries := finish_claims v (b_claims (bs ! k)) (ns_entries s)\<rparr>)
           (take k bs @ drop (Suc k) bs)"
proof -
  define b where "b = bs ! k"
  define rest where "rest = take k bs @ drop (Suc k) bs"
  have bs: "bs = take k bs @ b # drop (Suc k) bs"
    using assms(2) by (simp add: b_def id_take_nth_drop)
  have h: "held bs = held (take k bs) @ map fst (b_claims b) @ held (drop (Suc k) bs)"
    by (subst bs) (simp add: held_def)
  have d: "distinct (held bs)" using assms(1) by (simp add: notices_good_def)
  from d h have db: "distinct (map fst (b_claims b))" by simp
  have dr: "distinct (held rest)" "set (held bs) = set (held rest) \<union> set (map fst (b_claims b))"
      "set (held rest) \<inter> set (map fst (b_claims b)) = {}"
    using d unfolding h by (auto simp: rest_def held_append)
  let ?f = "\<lambda>e. case alist_get (b_claims b) (n_address e) of None \<Rightarrow> e | Some c \<Rightarrow> release_entry v c e"
  have es: "finish_claims v (b_claims b) (ns_entries s) = map ?f (ns_entries s)"
    using finish_claims_spec [OF db] .
  have ad: "n_address (?f e) = n_address e" for e by (simp split: option.splits)
  have fl: "n_in_flight (?f e) \<longleftrightarrow> n_in_flight e \<and> n_address e \<notin> set (map fst (b_claims b))" for e
  proof (cases "alist_get (b_claims b) (n_address e)")
    case None
    then have "n_address e \<notin> set (map fst (b_claims b))"
      using map_of_eq_None_iff [of "b_claims b" "n_address e"] by simp
    with None show ?thesis by simp
  next
    case (Some c)
    then have "n_address e \<in> set (map fst (b_claims b))"
      using map_of_eq_None_iff [of "b_claims b" "n_address e"] by auto
    with Some show ?thesis by (simp add: release_entry_def Let_def)
  qed
  have mad: "map n_address (map ?f (ns_entries s)) = map n_address (ns_entries s)"
    using ad by (simp add: comp_def)
  show ?thesis
    unfolding b_def [symmetric] rest_def [symmetric] es
  proof (rule notices_good_same [OF assms(1) mad dr(1)])
    show "\<forall>a \<in> set (held rest). a < ns_next s" using assms(1) dr(2) by (simp add: notices_good_def)
    fix e'
    assume "e' \<in> set (map ?f (ns_entries s))"
    then obtain e where e: "e \<in> set (ns_entries s)" "e' = ?f e" by auto
    with assms(1) have "n_in_flight e \<longleftrightarrow> n_address e \<in> set (held bs)" by (simp add: notices_good_def)
    with e fl [of e] ad [of e] dr(2,3) show "n_in_flight e' \<longleftrightarrow> n_address e' \<in> set (held rest)"
      by (metis Un_iff disjoint_iff)
  qed
qed

lemma notice_step_ok: "notices_ok st \<Longrightarrow> notices_ok (notice_step op st)"
proof -
  assume ok: "notices_ok st"
  obtain s bs where st: "st = (s, bs)" by (cases st)
  show ?thesis
  proof (cases s)
    case None
    with st show ?thesis
      by (cases op) (auto simp: notices_ok_def submit_def request_succeeded_def observe_turn_def
          claim_notices_def finish_batch_def)
  next
    case (Some q)
    with ok st have good: "notices_good q bs" by (simp add: notices_ok_def)
    show ?thesis
    proof (cases op)
      case (NoSubmit now i)
      with st Some good show ?thesis by (simp add: notices_ok_def submit_def submit_notice_good)
    next
      case (NoSuccess thread at)
      with st Some good show ?thesis by (simp add: notices_ok_def request_succeeded_def record_success_good)
    next
      case (NoTurn thread turn status)
      with st Some good show ?thesis by (simp add: notices_ok_def observe_turn_def settle_turn_good)
    next
      case (NoClaim root ds)
      obtain q' d where c: "claim_service root ds q = (q', d)" by (cases "claim_service root ds q")
      from claim_service_good [OF good c] NoClaim st Some c show ?thesis
        using good by (auto simp: notices_ok_def claim_notices_def split: option.splits)
    next
      case (NoFinish k visible)
      with st Some good finish_batch_good [OF good] show ?thesis
        by (simp add: notices_ok_def finish_batch_def)
    qed
  qed
qed

interpretation notices: step_system notice_step "\<lambda>_. True" notices_ok
  by unfold_locales (rule notice_step_ok)

end
