(* ===== verification/Strings.thy ===== *)
theory Strings
  imports Prelude
begin

text \<open>
  The functions of the standard library on byte strings that the modelled packages share:
  \<open>strings.Fields\<close>, \<open>Cut\<close>, \<open>CutPrefix\<close>, \<open>SplitAfter\<close> at line ends, and \<open>strconv.Atoi\<close>, with the
  facts about them that the round trips rest on.
\<close>

section \<open>Fields\<close>

text \<open>
  \<open>strings.Fields\<close>: the maximal runs of bytes that are not part of a white space rune.  The
  first argument collects the field in progress, the second counts the bytes of a white space
  rune still to be skipped.
\<close>

definition space_length :: "string \<Rightarrow> nat" where
  "space_length s = (case find (\<lambda>p. prefix p s) space_runes of None \<Rightarrow> 0 | Some p \<Rightarrow> length p)"

definition close_field :: "string \<Rightarrow> string list" where
  "close_field acc = (if acc = [] then [] else [acc])"

fun go_fields_from :: "string \<Rightarrow> nat \<Rightarrow> string \<Rightarrow> string list" where
  "go_fields_from acc skip [] = close_field acc"
| "go_fields_from acc (Suc k) (c # cs) = go_fields_from acc k cs"
| "go_fields_from acc 0 (c # cs) =
     (case space_length (c # cs) of
        0 \<Rightarrow> go_fields_from (acc @ [c]) 0 cs
      | Suc k \<Rightarrow> close_field acc @ go_fields_from [] k cs)"

definition go_fields :: "string \<Rightarrow> string list" where
  "go_fields s = go_fields_from [] 0 s"

lemma go_fields_from_nonempty: "f \<in> set (go_fields_from acc k s) \<Longrightarrow> f \<noteq> []"
  by (induction acc k s rule: go_fields_from.induct)
    (auto simp: close_field_def split: nat.splits if_splits)

text \<open>
  A white space rune inside a piece of a string is one of the whole string, so a field that
  was collected contains none, also when it is followed by a single space.
\<close>

definition spaceless :: "string \<Rightarrow> string \<Rightarrow> bool" where
  "spaceless f rest \<longleftrightarrow> (\<forall>i < length f. space_length (drop i f @ rest) = 0)"

lemma space_length_0: "space_length s = 0 \<longleftrightarrow> (\<forall>p \<in> set space_runes. \<not> prefix p s)"
proof -
  have nonempty: "\<forall>p \<in> set space_runes. p \<noteq> []" by code_simp
  show ?thesis
  proof (cases "find (\<lambda>p. prefix p s) space_runes")
    case None
    then have "\<forall>p \<in> set space_runes. \<not> prefix p s" by (simp add: find_None_iff)
    with None show ?thesis by (simp add: space_length_def)
  next
    case (Some p)
    then have "p \<in> set space_runes" "prefix p s" by (auto simp: find_Some_iff)
    with nonempty Some show ?thesis by (auto simp: space_length_def)
  qed
qed

lemma space_runes_tail: "p \<in> set space_runes \<Longrightarrow> CHR '' '' \<notin> set (tl p)"
proof -
  have "\<forall>p \<in> set space_runes. CHR '' '' \<notin> set (tl p)" by code_simp
  then show "p \<in> set space_runes \<Longrightarrow> CHR '' '' \<notin> set (tl p)" by blast
qed

lemma prefix_before_space:
  assumes "prefix p (u @ CHR '' '' # v)" and "u \<noteq> []" and "CHR '' '' \<notin> set (tl p)"
  shows "prefix p u"
proof (rule ccontr)
  assume no: "\<not> prefix p u"
  from assms(1) have "prefix p (u @ CHR '' '' # v)" .
  with no obtain w where w: "p = u @ w" "prefix w (CHR '' '' # v)" "w \<noteq> []"
    by (metis append_Nil2 prefix_append prefix_order.refl)
  then obtain w2 where "w = CHR '' '' # w2" by (cases w) auto
  with w(1) assms(2,3) show False by (cases u) auto
qed

lemma spaceless_sep:
  assumes "spaceless f rest"
  shows "spaceless f (CHR '' '' # later)" and "spaceless f []"
proof -
  have "\<not> prefix p (drop i f @ CHR '' '' # later)" "\<not> prefix p (drop i f)"
    if i: "i < length f" and p: "p \<in> set space_runes" for i p
  proof -
    from assms i have "\<not> prefix p (drop i f @ rest)"
      using p by (auto simp: spaceless_def space_length_0)
    then show no: "\<not> prefix p (drop i f)" by (auto simp: prefix_def)
    from i show "\<not> prefix p (drop i f @ CHR '' '' # later)"
      using no prefix_before_space [OF _ _ space_runes_tail [OF p], of "drop i f" later] by auto
  qed
  then show "spaceless f (CHR '' '' # later)" "spaceless f []"
    unfolding spaceless_def space_length_0 append_Nil2 by blast+
qed

lemma close_field_spaceless: "spaceless acc rest \<Longrightarrow> f \<in> set (close_field acc) \<Longrightarrow> spaceless f [] \<and> f \<noteq> []"
  using spaceless_sep(2) by (auto simp: close_field_def split: if_splits)

lemma go_fields_from_spaceless:
  assumes "f \<in> set (go_fields_from acc k s)" and "k = 0 \<and> spaceless acc s \<or> acc = []"
  shows "spaceless f [] \<and> f \<noteq> []"
  using assms
proof (induction acc k s rule: go_fields_from.induct)
  case (1 acc skip)
  then show ?case using close_field_spaceless [of acc "[]" f] by (auto simp: spaceless_def)
next
  case (2 acc k c cs)
  then show ?case by (auto simp: spaceless_def)
next
  case (3 acc c cs)
  have acc: "spaceless acc (c # cs)" using 3(4) by (auto simp: spaceless_def)
  show ?case
  proof (cases "space_length (c # cs)")
    case 0
    have "spaceless (acc @ [c]) cs"
      using acc 0 by (auto simp: spaceless_def less_Suc_eq)
    with 3(1) [OF 0] 3(3) 0 show ?thesis by simp
  next
    case (Suc k)
    with 3(2) [OF Suc] 3(3) close_field_spaceless [OF acc, of f] show ?thesis by auto
  qed
qed

lemma go_fields_from_field:
  "spaceless f rest \<Longrightarrow> go_fields_from acc 0 (f @ rest) = go_fields_from (acc @ f) 0 rest"
proof (induction f arbitrary: acc)
  case (Cons c f)
  from Cons.prems have "space_length (c # f @ rest) = 0" by (auto simp: spaceless_def)
  moreover have "spaceless f rest"
    using Cons.prems unfolding spaceless_def by (metis Suc_mono drop_Suc_Cons length_Cons)
  ultimately show ?case using Cons.IH [of "acc @ [c]"] by simp
qed simp

lemma space_length_space: "space_length (CHR '' '' # s) = 1"
proof -
  have "find (\<lambda>p. prefix p (CHR '' '' # s)) space_runes = Some '' ''"
    by (simp add: space_runes_def)
  then show ?thesis by (simp add: space_length_def)
qed

lemma go_fields_join:
  "\<forall>f \<in> set fs. spaceless f [] \<and> f \<noteq> [] \<Longrightarrow> go_fields (join '' '' fs) = fs"
proof (induction fs)
  case (Cons x fs)
  then have x: "spaceless x []" "x \<noteq> []" by auto
  show ?case
  proof (cases fs)
    case Nil
    with go_fields_from_field [OF x(1), of "[]"] x(2) show ?thesis
      by (simp add: go_fields_def close_field_def)
  next
    case (Cons y zs)
    with Cons.IH Cons.prems have "go_fields (join '' '' (y # zs)) = y # zs" by simp
    with go_fields_from_field [OF spaceless_sep(1) [OF x(1)], of "[]" "join '' '' (y # zs)"] x(2) Cons
    show ?thesis by (simp add: go_fields_def close_field_def space_length_space)
  qed
qed (simp add: go_fields_def close_field_def)

section \<open>Searching\<close>

text \<open>The first occurrence of a separator, as \<open>strings.Index\<close> finds it.\<close>

fun index_of :: "string \<Rightarrow> string \<Rightarrow> nat option" where
  "index_of sep [] = (if sep = [] then Some 0 else None)"
| "index_of sep (c # cs) = (if prefix sep (c # cs) then Some 0 else map_option Suc (index_of sep cs))"

definition contains :: "string \<Rightarrow> string \<Rightarrow> bool" where
  "contains s sep \<longleftrightarrow> index_of sep s \<noteq> None"

definition cut :: "string \<Rightarrow> string \<Rightarrow> string \<times> string \<times> bool" where
  "cut s sep = (case index_of sep s of None \<Rightarrow> (s, '''', False)
     | Some i \<Rightarrow> (take i s, drop (i + length sep) s, True))"

definition cut_prefix :: "string \<Rightarrow> string \<Rightarrow> string option" where
  "cut_prefix p s = (if prefix p s then Some (drop (length p) s) else None)"

lemma cut_prefix_append [simp]: "cut_prefix p (p @ s) = Some s"
  by (simp add: cut_prefix_def)

section \<open>Lines\<close>

abbreviation newline :: char where
  "newline \<equiv> CHR 0x0A"

text \<open>\<open>strings.SplitAfter\<close> at line ends: every piece but the last keeps its line end.\<close>

fun split_after :: "string \<Rightarrow> string list" where
  "split_after [] = [[]]"
| "split_after (c # cs) =
     (if c = newline then [c] # split_after cs
      else case split_after cs of [] \<Rightarrow> [[c]] | l # ls \<Rightarrow> (c # l) # ls)"

text \<open>\<open>strings.Split\<close> at line ends.\<close>

fun split_lines :: "string \<Rightarrow> string list" where
  "split_lines [] = [[]]"
| "split_lines (c # cs) =
     (if c = newline then [] # split_lines cs
      else case split_lines cs of [] \<Rightarrow> [[c]] | l # ls \<Rightarrow> (c # l) # ls)"

text \<open>A terminated line: one line end, at its end.\<close>

definition terminated :: "string \<Rightarrow> bool" where
  "terminated l \<longleftrightarrow> l \<noteq> [] \<and> last l = newline \<and> newline \<notin> set (butlast l)"

lemma terminatedI [intro]: "newline \<notin> set u \<Longrightarrow> terminated (u @ [newline])"
  by (simp add: terminated_def)

lemma terminatedD: "terminated l \<Longrightarrow> \<exists>u. l = u @ [newline] \<and> newline \<notin> set u"
  by (metis append_butlast_last_id terminated_def)

lemma split_after_line:
  assumes "newline \<notin> set u"
  shows "split_after (u @ newline # s) = (u @ [newline]) # split_after s"
  using assms by (induction u) auto

lemma split_after_terminated: "terminated l \<Longrightarrow> split_after (l @ s) = l # split_after s"
  using split_after_line [of _ s] by (auto dest!: terminatedD)

lemma split_after_concat:
  "list_all terminated ls \<Longrightarrow> split_after (concat ls @ s) = ls @ split_after s"
  by (induction ls) (simp_all add: split_after_terminated)

lemma concat_split_after: "concat (split_after s) = s"
proof (induction s)
  case (Cons c cs)
  then show ?case by (cases "split_after cs") auto
qed simp

lemma split_after_pieces:
  "\<exists>ls l. split_after s = ls @ [l] \<and> list_all terminated ls \<and> newline \<notin> set l"
proof (induction s)
  case Nil
  show ?case by (intro exI [of _ "[]"]) simp
next
  case (Cons c cs)
  then obtain ls l where IH: "split_after cs = ls @ [l]" "list_all terminated ls" "newline \<notin> set l" by blast
  show ?case
  proof (cases "c = newline")
    case True
    with IH show ?thesis
      using terminatedI [of "[]"] by (intro exI [of _ "[c] # ls"] exI [of _ l]) simp
  next
    case False
    show ?thesis
    proof (cases ls)
      case Nil
      with IH False show ?thesis by (intro exI [of _ "[]"] exI [of _ "c # l"]) simp
    next
      case (Cons k ks)
      with IH have k: "terminated k" "list_all terminated ks" by simp_all
      then have "terminated (c # k)" using False by (auto simp: terminated_def)
      with Cons IH False k show ?thesis
        by (intro exI [of _ "(c # k) # ks"] exI [of _ l]) simp
    qed
  qed
qed

section \<open>Numbers\<close>

definition is_digit :: "char \<Rightarrow> bool" where
  "is_digit c \<longleftrightarrow> 48 \<le> (of_char c :: nat) \<and> (of_char c :: nat) \<le> 57"

definition digits_value :: "string \<Rightarrow> nat" where
  "digits_value s = foldl (\<lambda>v c. 10 * v + (of_char c - 48)) 0 s"

text \<open>\<open>strconv.Atoi\<close>: an optional sign and decimal digits, in the range of 64 bits.\<close>

definition atoi :: "string \<Rightarrow> int option" where
  "atoi s =
     (let negative = prefix ''-'' s;
          ds = (if prefix ''-'' s \<or> prefix ''+'' s then tl s else s);
          v = (if negative then - int (digits_value ds) else int (digits_value ds))
      in if ds = [] \<or> \<not> list_all is_digit ds \<or> v < - (2 ^ 63) \<or> 2 ^ 63 \<le> v then None else Some v)"

lemma digits_value_snoc: "digits_value (s @ [c]) = 10 * digits_value s + (of_char c - 48)"
  by (simp add: digits_value_def)

lemma digit_char_value: "d < 10 \<Longrightarrow> (of_char (digit_char d) :: nat) = 48 + d"
  by (simp add: digit_char_def)

lemma nat_dec_digits: "nat_dec n \<noteq> [] \<and> list_all is_digit (nat_dec n) \<and> digits_value (nat_dec n) = n"
proof (induction n rule: nat_dec.induct)
  case (1 n)
  show ?case
  proof (cases "n < 10")
    case True
    then show ?thesis
      by (simp add: nat_dec.simps [of n] digits_value_def is_digit_def digit_char_value)
  next
    case False
    with 1 show ?thesis
      by (simp add: nat_dec.simps [of n] digits_value_snoc is_digit_def digit_char_value)
  qed
qed

lemma is_digit_not:
  "is_digit c \<Longrightarrow> c \<noteq> CHR ''-'' \<and> c \<noteq> CHR ''+'' \<and> c \<noteq> CHR '','' \<and> c \<noteq> newline \<and> c \<noteq> CHR '' ''"
  by (auto simp: is_digit_def)

lemma atoi_nat_dec: "n < 2 ^ 63 \<Longrightarrow> atoi (nat_dec n) = Some (int n)"
proof -
  assume n: "n < 2 ^ 63"
  from nat_dec_digits [of n] obtain c cs where c: "nat_dec n = c # cs" "is_digit c"
    by (cases "nat_dec n") auto
  with is_digit_not [OF c(2)] have "\<not> prefix ''-'' (nat_dec n)" "\<not> prefix ''+'' (nat_dec n)" by auto
  moreover have "int (digits_value (nat_dec n)) < 2 ^ 63"
    using nat_dec_digits [of n] n by simp
  ultimately show ?thesis using nat_dec_digits [of n] by (simp add: atoi_def)
qed

end
