(* ===== verification/Runes.thy ===== *)
theory Runes
  imports Strings
begin

text \<open>
  UTF-8, as the standard library decodes it: the bytes of the first rune of a string, its
  width, and the runes of a string.  Strings are byte strings; a rune is its encoding.
\<close>

section \<open>Runes\<close>

text \<open>
  Decoding as a range over a Go string does: the bytes of the first rune and the rest.  A byte
  that starts no valid encoding stands for the replacement character.
\<close>

definition byte :: "char \<Rightarrow> nat" where
  "byte c = of_char c"

definition continuation :: "char \<Rightarrow> bool" where
  "continuation c \<longleftrightarrow> 0x80 \<le> byte c \<and> byte c \<le> 0xBF"

definition replacement :: string where
  "replacement = [CHR 0xEF, CHR 0xBF, CHR 0xBD]"

definition second_low :: "nat \<Rightarrow> nat" where
  "second_low b = (if b = 0xE0 then 0xA0 else if b = 0xF0 then 0x90 else 0x80)"

definition second_high :: "nat \<Rightarrow> nat" where
  "second_high b = (if b = 0xED then 0x9F else if b = 0xF4 then 0x8F else 0xBF)"

text \<open>The width of the encoding that starts with a byte; 0 when none does.\<close>

definition rune_width :: "nat \<Rightarrow> nat" where
  "rune_width b = (if b < 0x80 then 1 else if b < 0xC2 then 0 else if b < 0xE0 then 2
     else if b < 0xF0 then 3 else if b < 0xF5 then 4 else 0)"

fun valid_rune :: "string \<Rightarrow> bool" where
  "valid_rune [] = False"
| "valid_rune (c # cs) = (rune_width (byte c) = Suc (length cs)
     \<and> (case cs of [] \<Rightarrow> True
        | d # ds \<Rightarrow> second_low (byte c) \<le> byte d \<and> byte d \<le> second_high (byte c) \<and> list_all continuation ds))"

definition rune_length :: "string \<Rightarrow> nat" where
  "rune_length s = (let n = rune_width (byte (hd s)) in if valid_rune (take n s) then n else 1)"

definition rune_bytes :: "string \<Rightarrow> string" where
  "rune_bytes s = (let n = rune_width (byte (hd s)) in if valid_rune (take n s) then take n s else replacement)"

lemma rune_length_pos: "s \<noteq> [] \<Longrightarrow> 0 < rune_length s"
proof -
  have "0 < rune_width b" if "valid_rune (take (rune_width b) s)" for b
    using that by (cases "rune_width b") simp_all
  then show ?thesis by (auto simp: rune_length_def Let_def)
qed

function runes :: "string \<Rightarrow> string list" where
  "runes s = (if s = [] then [] else rune_bytes s # runes (drop (rune_length s) s))"
  by pat_completeness auto

termination runes
proof (relation "measure length")
  fix s :: string
  assume "s \<noteq> []"
  with rune_length_pos [of s] show "(drop (rune_length s) s, s) \<in> measure length"
    by (cases s) auto
qed simp

declare runes.simps [simp del]

text \<open>Decoding splits a concatenation of valid runes where they were joined.\<close>

lemma valid_rune_width: "valid_rune r \<Longrightarrow> r \<noteq> [] \<and> rune_width (byte (hd r)) = length r"
  by (cases r) auto

lemma runes_cons:
  assumes "valid_rune r"
  shows "runes (r @ s) = r # runes s"
proof -
  from valid_rune_width [OF assms] have r: "r \<noteq> []" "rune_width (byte (hd r)) = length r" by simp_all
  with assms have "rune_bytes (r @ s) = r" "rune_length (r @ s) = length r"
    by (simp_all add: rune_bytes_def rune_length_def)
  with r(1) show ?thesis by (subst runes.simps) simp
qed

lemma runes_concat: "list_all valid_rune rs \<Longrightarrow> runes (concat rs) = rs"
  by (induction rs) (simp_all add: runes_cons, simp add: runes.simps)

lemma rune_bytes_valid: "s \<noteq> [] \<Longrightarrow> valid_rune (rune_bytes s)"
proof -
  have "valid_rune replacement" by code_simp
  then show ?thesis by (simp add: rune_bytes_def Let_def)
qed

lemma runes_valid: "list_all valid_rune (runes s)"
proof (induction s rule: runes.induct)
  case (1 s)
  then show ?case by (subst runes.simps) (simp add: rune_bytes_valid)
qed

text \<open>\<open>utf8.ValidString\<close>: the whole string is a sequence of valid encodings.\<close>

function valid_utf8 :: "string \<Rightarrow> bool" where
  "valid_utf8 s =
     (if s = [] then True
      else if valid_rune (take (rune_width (byte (hd s))) s) then valid_utf8 (drop (rune_length s) s) else False)"
  by pat_completeness auto

termination valid_utf8
proof (relation "measure length")
  fix s :: string
  assume "s \<noteq> []"
  with rune_length_pos [of s] show "(drop (rune_length s) s, s) \<in> measure length"
    by (cases s) auto
qed simp

declare valid_utf8.simps [simp del]

lemma valid_utf8_Nil [simp]: "valid_utf8 []"
  by (subst valid_utf8.simps) simp

lemma concat_runes: "valid_utf8 s \<Longrightarrow> concat (runes s) = s"
proof (induction s rule: valid_utf8.induct)
  case (1 s)
  show ?case
  proof (cases "s = []")
    case False
    with 1(2) have v: "valid_rune (take (rune_width (byte (hd s))) s)" "valid_utf8 (drop (rune_length s) s)"
      by (simp_all add: valid_utf8.simps [of s] split: if_splits)
    then have "rune_bytes s = take (rune_length s) s" by (simp add: rune_bytes_def rune_length_def Let_def)
    with 1(1) [OF False v(1) v(2)] False show ?thesis by (subst runes.simps) simp
  qed (simp add: runes.simps)
qed

lemma valid_utf8_concat: "list_all valid_rune rs \<Longrightarrow> valid_utf8 (concat rs)"
proof (induction rs)
  case (Cons r rs)
  then have r: "r \<noteq> []" "rune_width (byte (hd r)) = length r" "valid_rune r" using valid_rune_width by auto
  then have "rune_length (r @ concat rs) = length r" by (simp add: rune_length_def)
  with r Cons show ?case by (subst valid_utf8.simps) simp
qed simp

end
