(* ===== verification/Naming.thy ===== *)
theory Naming
  imports Interfaces Runes
begin

text \<open>
  Session naming, \<open>modules/sessionnaming/internal/naming/state.go\<close>: the per-thread state that
  decides whether a title is generated, and the generator that \<open>Admit\<close> hands out once.  The
  inference call \<open>complete\<close> is a parameter (it answers a text or an error for a request); the
  embedded instruction file is a parameter string.
\<close>

section \<open>State\<close>

record naming_state =
  nm_prompt :: string
  nm_started :: bool
  nm_named :: bool

definition naming_thread :: "string \<Rightarrow> bool \<Rightarrow> naming_state" where
  "naming_thread name has_turns =
     \<lparr>nm_prompt = '''', nm_started = (name \<noteq> '''' \<or> has_turns), nm_named = (name \<noteq> '''')\<rparr>"

definition observe_metadata :: "string \<Rightarrow> bool \<Rightarrow> naming_state \<Rightarrow> naming_state" where
  "observe_metadata name has_turns s =
     (if name \<noteq> '''' \<or> has_turns then s\<lparr>nm_started := True, nm_named := nm_named s \<or> name \<noteq> ''''\<rparr> else s)"

definition name_changed :: "string \<Rightarrow> naming_state \<Rightarrow> naming_state" where
  "name_changed name s =
     (let s = s\<lparr>nm_named := (name \<noteq> '''')\<rparr> in s\<lparr>nm_started := nm_started s \<or> nm_named s\<rparr>)"

definition accept_candidate :: "naming_state \<Rightarrow> bool" where
  "accept_candidate s \<longleftrightarrow> \<not> nm_named s"

definition needs_prompt :: "naming_state \<Rightarrow> bool" where
  "needs_prompt s \<longleftrightarrow> \<not> nm_started s \<and> nm_prompt s = ''''"

definition retain_prompt :: "string \<Rightarrow> naming_state \<Rightarrow> naming_state" where
  "retain_prompt prompt s =
     (if \<not> nm_started s \<and> nm_prompt s = '''' then s\<lparr>nm_prompt := trim_space prompt\<rparr> else s)"

section \<open>Admission and generation\<close>

record title_request =
  tr_model :: string
  tr_effort :: string
  tr_instructions :: string
  tr_input :: string

text \<open>\<open>Admit\<close> answers the prompt its generator captures, or nothing.\<close>

definition admit_title :: "naming_state \<Rightarrow> naming_state \<times> string option" where
  "admit_title s =
     (if nm_started s \<or> nm_prompt s = '''' then (s, None)
      else (s\<lparr>nm_started := True, nm_prompt := ''''\<rparr>, Some (nm_prompt s)))"

definition bounded_prompt :: "string \<Rightarrow> string" where
  "bounded_prompt prompt =
     (let rs = runes prompt in if 4096 < length rs then concat (take 4096 rs) else prompt)"

definition generate_title :: "string \<Rightarrow> (title_request \<Rightarrow> error + string) \<Rightarrow> string \<Rightarrow> error + string" where
  "generate_title instructions complete prompt =
     (case complete \<lparr>tr_model = ''gpt-6-luna'', tr_effort = ''medium'',
            tr_instructions = trim_space instructions, tr_input = bounded_prompt prompt\<rparr> of
        Inl err \<Rightarrow> Inl err
      | Inr answer \<Rightarrow>
          (let name = join '' '' (go_fields answer)
           in if name = '''' then Inl (Err ''session title request returned no title'') else Inr name))"

section \<open>Runs\<close>

datatype naming_op = NObserve string bool | NRename string | NRetain string | NAdmit

fun naming_step :: "naming_op \<Rightarrow> naming_state \<Rightarrow> naming_state" where
  "naming_step (NObserve name turns) s = observe_metadata name turns s"
| "naming_step (NRename name) s = name_changed name s"
| "naming_step (NRetain prompt) s = retain_prompt prompt s"
| "naming_step NAdmit s = fst (admit_title s)"

text \<open>A state that has started keeps no prompt back for a second generator, and never unstarts.\<close>

definition naming_ok :: "naming_state \<Rightarrow> bool" where
  "naming_ok s \<longleftrightarrow> (nm_named s \<longrightarrow> nm_started s)"

definition naming_le :: "naming_state \<Rightarrow> naming_state \<Rightarrow> bool" where
  "naming_le s t \<longleftrightarrow> (nm_started s \<longrightarrow> nm_started t)
     \<and> (nm_prompt s \<noteq> '''' \<longrightarrow> nm_prompt t = nm_prompt s \<or> nm_started t)"

lemma naming_step_cases:
  "nm_started (naming_step op s) \<longleftrightarrow> nm_started s \<or>
     (case op of NObserve name turns \<Rightarrow> name \<noteq> '''' \<or> turns | NRename name \<Rightarrow> name \<noteq> ''''
      | NRetain _ \<Rightarrow> False | NAdmit \<Rightarrow> nm_prompt s \<noteq> '''')"
  by (cases op) (auto simp: observe_metadata_def name_changed_def retain_prompt_def admit_title_def Let_def)

lemma naming_step_prompt:
  "nm_prompt s \<noteq> '''' \<Longrightarrow> nm_prompt (naming_step op s) = nm_prompt s \<or> nm_started (naming_step op s)"
  by (cases op) (auto simp: observe_metadata_def name_changed_def retain_prompt_def admit_title_def Let_def)

interpretation naming: forward_system naming_step "\<lambda>_. True" naming_ok naming_le
proof unfold_locales
  fix s op
  assume "naming_ok s"
  then show "naming_ok (naming_step op s)"
    by (cases op) (auto simp: naming_ok_def observe_metadata_def name_changed_def retain_prompt_def
        admit_title_def Let_def)
next
  fix s t u
  assume "naming_le s t" "naming_le t u"
  then show "naming_le s u" by (auto simp: naming_le_def)
next
  fix s op
  show "naming_le s (naming_step op s)"
    using naming_step_cases naming_step_prompt by (auto simp: naming_le_def)
qed (simp add: naming_le_def)

end
