(* ===== verification/Playback.thy ===== *)
theory Playback
  imports Interfaces
begin

text \<open>
  The offline replay player, \<open>modules/sessionreplay/playback/player.go\<close>.  Instants and durations
  are nanoseconds as integers; \<open>Time.Sub\<close> saturates at 64 bits.  The events of the source carry
  an instant and a payload.  The presentation is owned by the caller: \<open>reset\<close> and \<open>apply\<close> are
  arguments that act on a state of type \<open>'s\<close>, and \<open>ctx k\<close> is the answer of \<open>ctx.Err\<close> asked
  before the event of index \<open>k\<close>.
\<close>

section \<open>Floating-point speeds\<close>

text \<open>
  A speed is a double.  The finite ones are kept as their numerator over \<open>2 ^ 56\<close>: every
  double of magnitude at least 1/16 is a multiple of \<open>2 ^ -56\<close>, and a smaller one only has to
  be told apart from the bound 0.1.
\<close>

datatype speed = NotANumber | Infinite bool | Finite int

text \<open>Rounding an integer to 53 significant bits, halves to even.\<close>

fun bit_length :: "nat \<Rightarrow> nat" where
  "bit_length n = (if n = 0 then 0 else Suc (bit_length (n div 2)))"

declare bit_length.simps [simp del]

definition round_half_even :: "nat \<Rightarrow> nat \<Rightarrow> nat" where
  "round_half_even n k =
     (let q = n div 2 ^ k; r = n mod 2 ^ k
      in if 2 * r < 2 ^ k \<or> 2 * r = 2 ^ k \<and> even q then q else q + 1)"

definition round_double_nat :: "nat \<Rightarrow> nat" where
  "round_double_nat n =
     (let k = bit_length n - 53 in if k = 0 then n else round_half_even n k * 2 ^ k)"

definition round_double :: "int \<Rightarrow> int" where
  "round_double i = sgn i * int (round_double_nat (nat \<bar>i\<bar>))"

text \<open>\<open>time.Duration(float64(elapsed) * speed)\<close>: both roundings, then truncation.\<close>

definition scale_elapsed :: "int \<Rightarrow> int \<Rightarrow> int" where
  "scale_elapsed elapsed s = go_div (round_double (round_double elapsed * s)) (2 ^ 56)"

text \<open>The ladder of \<open>speedStep\<close>: 0.1 is the double 7205759403792794 / 2 ^ 56.\<close>

definition speed_ladder :: "int list" where
  "speed_ladder = [7205759403792794, 2 ^ 53, 2 ^ 54, 2 ^ 55, 2 ^ 56, 2 * 2 ^ 56, 4 * 2 ^ 56,
     8 * 2 ^ 56, 16 * 2 ^ 56, 32 * 2 ^ 56, 64 * 2 ^ 56, 100 * 2 ^ 56]"

fun speed_less :: "speed \<Rightarrow> speed \<Rightarrow> bool" where
  "speed_less (Finite a) (Finite b) = (a < b)"
| "speed_less (Finite a) (Infinite positive) = positive"
| "speed_less (Infinite positive) (Finite b) = (\<not> positive)"
| "speed_less (Infinite p) (Infinite q) = (\<not> p \<and> q)"
| "speed_less NotANumber b = False"
| "speed_less a NotANumber = False"

definition speed_step :: "speed \<Rightarrow> bool \<Rightarrow> speed" where
  "speed_step s faster =
     (if faster
      then (case find (\<lambda>step. speed_less s (Finite step)) speed_ladder of
              Some step \<Rightarrow> Finite step | None \<Rightarrow> Finite (last speed_ladder))
      else (case find (\<lambda>step. speed_less (Finite step) s) (rev speed_ladder) of
              Some step \<Rightarrow> Finite step | None \<Rightarrow> Finite (hd speed_ladder)))"

section \<open>The player\<close>

record 'e replay_event =
  ev_at :: int
  ev_payload :: 'e

record 'e replay_source =
  so_start :: int
  so_end :: int
  so_events :: "'e replay_event list"

record 'e player =
  p_source :: "'e replay_source"
  p_at :: int
  p_position :: int
  p_from :: int
  p_until :: int
  p_speed :: speed
  p_paused :: bool
  p_next :: nat

definition time_sub :: "int \<Rightarrow> int \<Rightarrow> int" where
  "time_sub a b = max (- (2 ^ 63)) (min (2 ^ 63 - 1) (a - b))"

definition replay_duration :: "'e replay_source \<Rightarrow> int" where
  "replay_duration src = time_sub (so_end src) (so_start src)"

definition new_player :: "'e replay_source \<Rightarrow> speed \<Rightarrow> 'e player" where
  "new_player src s = \<lparr>p_source = src, p_at = so_start src, p_position = 0, p_from = 0,
     p_until = replay_duration src, p_speed = s, p_paused = False, p_next = 0\<rparr>"

definition speed_in_range :: "speed \<Rightarrow> bool" where
  "speed_in_range s = (case s of Finite v \<Rightarrow> hd speed_ladder \<le> v \<and> v \<le> last speed_ladder | _ \<Rightarrow> False)"

definition player_bounds :: "int \<Rightarrow> int \<Rightarrow> 'e player \<Rightarrow> error + 'e player" where
  "player_bounds lo hi p =
     (let duration = replay_duration (p_source p)
      in if 24 * 3600 * 10 ^ 9 < duration then Inl (Err ''replay exceeds 24 hours'')
         else if \<not> speed_in_range (p_speed p)
         then Inl (Err ''replay speed must be finite and between 0.1 and 100'')
         else
           let hi = (if hi = 0 then duration else hi)
           in if lo < 0 \<or> hi \<le> lo \<or> duration < hi
              then Inl (Err ''require 0 <= from < until <= session duration'')
              else Inr (p\<lparr>p_from := lo, p_until := hi\<rparr>))"

text \<open>The loop over the events that are due; the list is what follows \<open>Next\<close>.\<close>

fun play_events :: "(nat \<Rightarrow> error option) \<Rightarrow> ('e replay_event \<Rightarrow> 's \<Rightarrow> 's \<times> error option) \<Rightarrow> int
    \<Rightarrow> 'e replay_event list \<Rightarrow> 'e player \<Rightarrow> 's \<Rightarrow> 'e player \<times> 's \<times> error option" where
  "play_events ctx app target [] p s = (p\<lparr>p_at := target\<rparr>, s, None)"
| "play_events ctx app target (e # es) p s =
     (if target < ev_at e then (p\<lparr>p_at := target\<rparr>, s, None)
      else case ctx (p_next p) of
          Some err \<Rightarrow> (p, s, Some err)
        | None \<Rightarrow>
            let p = p\<lparr>p_at := ev_at e, p_next := Suc (p_next p)\<rparr>
            in case app e s of
                 (s, Some err) \<Rightarrow> (p, s, Some err)
               | (s, None) \<Rightarrow> play_events ctx app target es p s)"

definition rewind :: "('s \<Rightarrow> 's) \<Rightarrow> int \<Rightarrow> 'e player \<Rightarrow> 's \<Rightarrow> 'e player \<times> 's" where
  "rewind reset position p s =
     (if position < p_position p
      then (p\<lparr>p_at := so_start (p_source p), p_next := 0, p_position := 0\<rparr>, reset s)
      else (p, s))"

definition clamp_position :: "'e player \<Rightarrow> int \<Rightarrow> int" where
  "clamp_position p position = max 0 (min position (p_until p))"

definition advance :: "(nat \<Rightarrow> error option) \<Rightarrow> ('s \<Rightarrow> 's) \<Rightarrow> ('e replay_event \<Rightarrow> 's \<Rightarrow> 's \<times> error option)
    \<Rightarrow> int \<Rightarrow> 'e player \<Rightarrow> 's \<Rightarrow> 'e player \<times> 's \<times> error option" where
  "advance ctx reset app position p s =
     (let position = clamp_position p position;
          (p, s) = rewind reset position p s;
          p = p\<lparr>p_position := position\<rparr>
      in play_events ctx app (so_start (p_source p) + position)
           (drop (p_next p) (so_events (p_source p))) p s)"

section \<open>Steps\<close>

datatype intent = Tick | TogglePause | Faster | Slower | SeekBackward | SeekForward | Restart

definition ten_seconds :: int where
  "ten_seconds = 10 * 10 ^ 9"

definition speed_scaled :: "int \<Rightarrow> speed \<Rightarrow> int" where
  "speed_scaled elapsed s = (case s of Finite v \<Rightarrow> scale_elapsed elapsed v | _ \<Rightarrow> 0)"

text \<open>What an intent does to the player, and the position it seeks to.\<close>

fun apply_intent :: "intent \<Rightarrow> 'e player \<Rightarrow> 'e player \<times> int option" where
  "apply_intent Tick p = (p, None)"
| "apply_intent TogglePause p = (p\<lparr>p_paused := \<not> p_paused p\<rparr>, None)"
| "apply_intent Faster p = (p\<lparr>p_speed := speed_step (p_speed p) True\<rparr>, None)"
| "apply_intent Slower p = (p\<lparr>p_speed := speed_step (p_speed p) False\<rparr>, None)"
| "apply_intent SeekBackward p = (p, Some (max (p_from p) (p_position p - ten_seconds)))"
| "apply_intent SeekForward p = (p, Some (min (p_until p) (p_position p + ten_seconds)))"
| "apply_intent Restart p = (p\<lparr>p_paused := False\<rparr>, Some (p_from p))"

definition player_step :: "(nat \<Rightarrow> error option) \<Rightarrow> (nat \<Rightarrow> error option) \<Rightarrow> int \<Rightarrow> intent \<Rightarrow> ('s \<Rightarrow> 's)
    \<Rightarrow> ('e replay_event \<Rightarrow> 's \<Rightarrow> 's \<times> error option) \<Rightarrow> 'e player \<Rightarrow> 's
    \<Rightarrow> 'e player \<times> 's \<times> bool \<times> error option" where
  "player_step ctx ctx2 elapsed i reset app p s =
     (let (p, s, err) = (if p_paused p then (p, s, None)
            else advance ctx reset app (p_position p + speed_scaled elapsed (p_speed p)) p s)
      in case err of
           Some e \<Rightarrow> (p, s, False, Some e)
         | None \<Rightarrow>
             (case apply_intent i p of
                (p, None) \<Rightarrow> (p, s, False, None)
              | (p, Some position) \<Rightarrow>
                  let (p, s, err) = advance ctx2 reset app position p s in (p, s, True, err)))"

section \<open>The player stays consistent with its presentation\<close>

text \<open>
  The presentation after a list of events, from the state that a reset leaves.
\<close>

definition present :: "('e replay_event \<Rightarrow> 's \<Rightarrow> 's \<times> error option) \<Rightarrow> 'e replay_event list \<Rightarrow> 's \<Rightarrow> 's" where
  "present app es s = fold (\<lambda>e s. fst (app e s)) es s"

text \<open>
  The window is well placed, the events are in order, every event already applied is due at
  the position, and the presentation is the one of exactly those events.
\<close>

definition player_ok :: "('e replay_event \<Rightarrow> 's \<Rightarrow> 's \<times> error option) \<Rightarrow> 's \<Rightarrow> 'e player \<Rightarrow> 's \<Rightarrow> bool" where
  "player_ok app fresh p s \<longleftrightarrow>
     sorted (map ev_at (so_events (p_source p)))
     \<and> 0 \<le> p_from p \<and> p_from p < p_until p
     \<and> 0 \<le> p_position p \<and> p_position p \<le> p_until p
     \<and> p_next p \<le> length (so_events (p_source p))
     \<and> (\<forall>e \<in> set (take (p_next p) (so_events (p_source p))). ev_at e \<le> so_start (p_source p) + p_position p)
     \<and> s = present app (take (p_next p) (so_events (p_source p))) fresh"

lemma play_events_frame:
  assumes "play_events ctx app target es p s = (p', s', err)"
  shows "p_source p' = p_source p \<and> p_position p' = p_position p \<and> p_from p' = p_from p
    \<and> p_until p' = p_until p \<and> p_speed p' = p_speed p \<and> p_paused p' = p_paused p"
  using assms
proof (induction es arbitrary: p s)
  case (Cons e es)
  from Cons.prems show ?case
    by (auto simp: Let_def split: if_splits option.splits prod.splits dest: Cons.IH)
qed auto

text \<open>What the loop applies: a part of the due events, and all of them when it succeeds.\<close>

lemma play_events_applied:
  assumes "play_events ctx app target es p s = (p', s', err)"
  shows "\<exists>k. p_next p' = p_next p + k \<and> k \<le> length (takeWhile (\<lambda>e. ev_at e \<le> target) es)
    \<and> s' = present app (take k es) s
    \<and> (err = None \<longrightarrow> k = length (takeWhile (\<lambda>e. ev_at e \<le> target) es) \<and> p_at p' = target)"
  using assms
proof (induction es arbitrary: p s)
  case Nil
  then show ?case by (auto simp: present_def)
next
  case (Cons e es)
  show ?case
  proof (cases "target < ev_at e \<or> ctx (p_next p) \<noteq> None")
    case True
    then consider "target < ev_at e" | x where "\<not> target < ev_at e" "ctx (p_next p) = Some x" by auto
    then show ?thesis using Cons.prems by cases (auto simp: present_def dest: sym)
  next
    case False
    obtain s1 e1 where a: "app e s = (s1, e1)" by (cases "app e s")
    show ?thesis
    proof (cases e1)
      case (Some x)
      with a False Cons.prems show ?thesis
        by (auto simp: present_def intro!: exI [of _ "1 :: nat"])
    next
      case None
      with a False Cons.prems
      have "play_events ctx app target es (p\<lparr>p_at := ev_at e, p_next := Suc (p_next p)\<rparr>) s1 = (p', s', err)"
        by auto
      from Cons.IH [OF this] obtain k where
        "p_next p' = Suc (p_next p) + k" "k \<le> length (takeWhile (\<lambda>e. ev_at e \<le> target) es)"
        "s' = present app (take k es) s1"
        "err = None \<longrightarrow> k = length (takeWhile (\<lambda>e. ev_at e \<le> target) es) \<and> p_at p' = target"
        by auto
      with a None False show ?thesis
        by (intro exI [of _ "Suc k"]) (auto simp: present_def)
    qed
  qed
qed

lemma takeWhile_all_drop:
  assumes "\<forall>x \<in> set (take n xs). P x" and "n \<le> length xs"
  shows "takeWhile P xs = take n xs @ takeWhile P (drop n xs)"
proof -
  have "takeWhile P (take n xs @ drop n xs) = take n xs @ takeWhile P (drop n xs)"
    using assms(1) by (intro takeWhile_append2) auto
  then show ?thesis by simp
qed

lemma present_append: "present app (xs @ ys) s = present app ys (present app xs s)"
  by (simp add: present_def)

lemma take_takeWhile:
  "k \<le> length (takeWhile P xs) \<Longrightarrow> take k xs = take k (takeWhile P xs)"
  by (metis takeWhile_eq_take min.absorb1 take_take)

lemma rewind_ok:
  assumes "player_ok app fresh p s" and "rewind (\<lambda>_. fresh) q p s = (p1, s1)" and "0 \<le> q"
  shows "player_ok app fresh p1 s1 \<and> p_position p1 \<le> q \<and> p_source p1 = p_source p
    \<and> p_until p1 = p_until p \<and> p_from p1 = p_from p \<and> p_speed p1 = p_speed p \<and> p_paused p1 = p_paused p"
  using assms by (auto simp: rewind_def player_ok_def present_def split: if_splits)

lemma advance_ok:
  assumes ok: "player_ok app fresh p s"
    and adv: "advance ctx (\<lambda>_. fresh) app position p s = (p', s', err)"
  shows "player_ok app fresh p' s' \<and> p_position p' = clamp_position p position
    \<and> p_source p' = p_source p \<and> p_from p' = p_from p \<and> p_until p' = p_until p
    \<and> p_speed p' = p_speed p \<and> p_paused p' = p_paused p
    \<and> (err = None \<longrightarrow> p_at p' = so_start (p_source p) + clamp_position p position
         \<and> s' = present app (takeWhile (\<lambda>e. ev_at e \<le> so_start (p_source p) + clamp_position p position)
                              (so_events (p_source p))) fresh)"
proof -
  define q where "q = clamp_position p position"
  obtain p1 s1 where r: "rewind (\<lambda>_. fresh) q p s = (p1, s1)" by (cases "rewind (\<lambda>_. fresh) q p s")
  have q: "0 \<le> q" "q \<le> p_until p"
    using ok by (auto simp: q_def clamp_position_def player_ok_def)
  note f = rewind_ok [OF ok r q(1)]
  define es where "es = so_events (p_source p)"
  define target where "target = so_start (p_source p) + q"
  have play: "play_events ctx app target (drop (p_next p1) es) (p1\<lparr>p_position := q\<rparr>) s1 = (p', s', err)"
    using adv r f by (simp add: advance_def q_def [symmetric] Let_def es_def target_def)
  note frame = play_events_frame [OF play]
  from play_events_applied [OF play] obtain k where k: "p_next p' = p_next p1 + k"
      "k \<le> length (takeWhile (\<lambda>e. ev_at e \<le> target) (drop (p_next p1) es))"
      "s' = present app (take k (drop (p_next p1) es)) s1"
      "err = None \<longrightarrow> k = length (takeWhile (\<lambda>e. ev_at e \<le> target) (drop (p_next p1) es)) \<and> p_at p' = target"
    by auto
  have n1: "p_next p1 \<le> length es" and s1: "s1 = present app (take (p_next p1) es) fresh"
    using f by (auto simp: player_ok_def es_def)
  have due: "\<forall>e \<in> set (take (p_next p1) es). ev_at e \<le> target"
    using f by (fastforce simp: player_ok_def es_def target_def)
  have tw: "length (takeWhile (\<lambda>e. ev_at e \<le> target) (drop (p_next p1) es)) \<le> length es - p_next p1"
    using length_takeWhile_le [of _ "drop (p_next p1) es"] by simp
  have take': "take (p_next p') es = take (p_next p1) es @ take k (drop (p_next p1) es)"
    using k(1) by (simp add: take_add)
  have late: "\<forall>e \<in> set (take k (drop (p_next p1) es)). ev_at e \<le> target"
    unfolding take_takeWhile [OF k(2)] by (auto dest!: in_set_takeD set_takeWhileD)
  have s': "s' = present app (take (p_next p') es) fresh"
    using k(3) s1 take' by (simp add: present_append)
  have "\<forall>e \<in> set (take (p_next p') es). ev_at e \<le> target"
    unfolding take' set_append using due late by blast
  moreover have "p_next p' \<le> length es" using k(1,2) n1 tw by linarith
  moreover have "sorted (map ev_at es)" "0 \<le> p_from p" "p_from p < p_until p"
    using ok by (simp_all add: player_ok_def es_def)
  moreover have same: "p_source p' = p_source p" "p_from p' = p_from p" "p_until p' = p_until p" "p_position p' = q"
      "p_speed p' = p_speed p" "p_paused p' = p_paused p"
    using frame f by simp_all
  ultimately have "player_ok app fresh p' s'"
    unfolding player_ok_def using s' q by (simp add: es_def target_def)
  moreover have "s' = present app (takeWhile (\<lambda>e. ev_at e \<le> target) es) fresh" if "err = None"
  proof -
    have "take k (drop (p_next p1) es) = takeWhile (\<lambda>e. ev_at e \<le> target) (drop (p_next p1) es)"
      using k(4) that takeWhile_eq_take [of "\<lambda>e. ev_at e \<le> target" "drop (p_next p1) es"] by metis
    then show ?thesis
      using s' take' takeWhile_all_drop [OF due n1] by simp
  qed
  ultimately show ?thesis
    using same k(4) by (simp add: q_def es_def target_def)
qed

lemma apply_intent_ok:
  assumes "player_ok app fresh p s" and "apply_intent i p = (p', sought)"
  shows "player_ok app fresh p' s \<and> p_source p' = p_source p \<and> p_position p' = p_position p"
  using assms by (cases i) (auto simp: player_ok_def)

lemma player_step_ok:
  assumes "player_ok app fresh p s"
    and "player_step ctx ctx2 elapsed i (\<lambda>_. fresh) app p s = (p', s', sought, err)"
  shows "player_ok app fresh p' s'"
proof -
  obtain p1 s1 e1 where one: "(if p_paused p then (p, s, None)
      else advance ctx (\<lambda>_. fresh) app (p_position p + speed_scaled elapsed (p_speed p)) p s) = (p1, s1, e1)"
    using prod_cases3 by blast
  have ok1: "player_ok app fresh p1 s1"
    using one assms(1) advance_ok [OF assms(1)] by (auto split: if_splits)
  obtain p2 pos where two: "apply_intent i p1 = (p2, pos)" by (cases "apply_intent i p1")
  have ok2: "player_ok app fresh p2 s1" using apply_intent_ok [OF ok1 two] by simp
  show ?thesis
  proof (cases "e1 = None \<and> pos \<noteq> None")
    case True
    then obtain position where pos: "pos = Some position" by auto
    obtain p3 s3 e3 where three: "advance ctx2 (\<lambda>_. fresh) app position p2 s1 = (p3, s3, e3)"
      using prod_cases3 by blast
    from advance_ok [OF ok2 three] have ok3: "player_ok app fresh p3 s3" by blast
    with True pos three one two assms(2) show ?thesis by (auto simp: player_step_def)
  next
    case False
    with one two assms(2) ok1 ok2 show ?thesis
      by (auto simp: player_step_def split: option.splits)
  qed
qed

text \<open>The replay as a system: each operation is one call of \<open>Step\<close> with what its context answers.\<close>

type_synonym replay_op = "(nat \<Rightarrow> error option) \<times> (nat \<Rightarrow> error option) \<times> int \<times> intent"

definition replay_step :: "('e replay_event \<Rightarrow> 's \<Rightarrow> 's \<times> error option) \<Rightarrow> 's \<Rightarrow> replay_op
    \<Rightarrow> 'e player \<times> 's \<Rightarrow> 'e player \<times> 's" where
  "replay_step app fresh op st =
     (case op of (ctx, ctx2, elapsed, i) \<Rightarrow>
        (case player_step ctx ctx2 elapsed i (\<lambda>_. fresh) app (fst st) (snd st) of
           (p, s, _) \<Rightarrow> (p, s)))"

interpretation replays: step_system "replay_step app fresh" "\<lambda>_. True" "\<lambda>st. player_ok app fresh (fst st) (snd st)"
  for app fresh
proof unfold_locales
  fix st op
  assume ok: "player_ok app fresh (fst st) (snd st)"
  show "player_ok app fresh (fst (replay_step app fresh op st)) (snd (replay_step app fresh op st))"
    using player_step_ok [OF ok] by (auto simp: replay_step_def split: prod.splits)
qed

end
