(* ===== verification/Module_Properties.thy ===== *)
theory Module_Properties
  imports Notices Naming Playback
begin

text \<open>
  Properties of the notice queue, of session naming and of the offline replay player.
\<close>

section \<open>Notices\<close>

lemma notice_step_some:
  "\<exists>q' bs'. notice_step op (Some q, bs) = (Some q', bs')"
  by (cases op) (auto simp: submit_def request_succeeded_def observe_turn_def claim_notices_def
      finish_batch_def split: prod.splits option.splits)

lemma notice_run_some:
  "\<exists>q' bs'. fold notice_step ops (Some q, bs) = (Some q', bs')"
proof (induction ops arbitrary: q bs)
  case (Cons op ops)
  obtain q1 bs1 where "notice_step op (Some q, bs) = (Some q1, bs1)" using notice_step_some by blast
  with Cons.IH [of q1 bs1] show ?case by simp
qed simp

text \<open>
  C32: a notice is held by one batch, and the queue is bounded.  Whatever is submitted,
  observed, claimed and finished, no entry is held by two open batches, an entry is in flight
  exactly while an open batch holds it, and at most 256 entries, 256 turn outcomes and 256
  request successes are retained.
\<close>

theorem notices_held_once:
  "\<exists>q bs. fold notice_step ops (Some empty_notices, []) = (Some q, bs)
     \<and> distinct (held bs)
     \<and> (\<forall>e \<in> set (ns_entries q). n_in_flight e \<longleftrightarrow> n_address e \<in> set (held bs))
     \<and> length (ns_entries q) \<le> 256 \<and> length (ns_outcomes q) \<le> 256 \<and> length (ns_successes q) \<le> 256"
proof -
  obtain q bs where r: "fold notice_step ops (Some empty_notices, []) = (Some q, bs)"
    using notice_run_some by blast
  have "notices_ok (Some empty_notices, [])"
    by (simp add: notices_ok_def notices_good_def empty_notices_def held_def)
  then have "notices_ok (fold notice_step ops (Some empty_notices, []))"
    by (rule notices.run_inv) (simp add: list_all_iff)
  with r show ?thesis by (auto simp: notices_ok_def notices_good_def)
qed

theorem notices_held_once_witness:
  "distinct (held (snd (fold notice_step [NoClaim ''r'' []] (Some empty_notices, []))))"
  using notices_held_once [of "[NoClaim ''r'' []]"] by (metis snd_conv)

text \<open>
  Waiting predicts claiming.  A surface is reported as waiting exactly when a claim made
  now would deliver a message on that surface.
\<close>

lemma waiting_iff_claim:
  "waiting_on root ds sf s \<longleftrightarrow>
     (\<exists>s' d. claim_notices root ds s = (s', Some d)
        \<and> b_messages (case sf of ErrorSurface \<Rightarrow> d_errors d | ProgressSurface \<Rightarrow> d_progress d) \<noteq> [])"
proof (cases s)
  case (Some q)
  have "b_messages (case sf of ErrorSurface \<Rightarrow> claim_batch root ds (on_surface False root ds es)
      | ProgressSurface \<Rightarrow> claim_batch root ds (on_surface True root ds es)) \<noteq> []
    \<longleftrightarrow> list_ex (\<lambda>e. n_surface e = sf \<and> claimable root ds e) es" for es
    by (cases sf) (auto simp: claim_batch_def on_surface_def filter_empty_conv list_ex_iff
        intro: surface.exhaust)
  from this [of "ns_entries q"] Some show ?thesis
    by (auto simp: waiting_on_def claim_notices_def claim_service_spec list_ex_iff split: surface.splits)
qed (simp add: waiting_on_def claim_notices_def)

lemma find_push_bounded:
  assumes "find P xs = None" and "P x"
  shows "find P (push_bounded x xs) = Some x"
proof -
  have "\<forall>y \<in> set (if length xs = 256 then tl xs else xs). \<not> P y"
  proof -
    have "set (tl xs) \<subseteq> set xs" by (cases xs) auto
    moreover have "\<forall>y \<in> set xs. \<not> P y" using assms(1) by (simp add: find_None_iff)
    ultimately show ?thesis by auto
  qed
  then have "find P (if length xs = 256 then tl xs else xs) = None" by (simp add: find_None_iff)
  moreover have "find P (ys @ [x]) = Some x" if "find P ys = None" for ys
    using that assms(2) by (induction ys) (auto split: if_splits)
  ultimately show ?thesis by (simp add: push_bounded_def)
qed

text \<open>
  A turn that ended well leaves no failure behind.  Once a turn is observed as completed
  or interrupted, and no earlier observation said otherwise, no entry of it remains and a late
  failure report of that turn is dropped.
\<close>

lemma settled_turn_is_quiet:
  assumes "thread \<noteq> ''''" and "turn \<noteq> ''''" and "status \<in> {''completed'', ''interrupted''}"
    and "\<forall>r \<in> set (ns_outcomes s). to_thread r = thread \<longrightarrow> to_turn r = turn
      \<longrightarrow> to_status r \<in> {''completed'', ''interrupted''}"
    and "n_request i" and "n_thread i = thread" and "n_turn i = turn"
  shows "\<exists>s'. observe_turn thread turn status (Some s) = Some s'
    \<and> (\<forall>e \<in> set (ns_entries s'). \<not> (n_thread e = thread \<and> n_turn e = turn))
    \<and> submit now i (Some s') = Some s'"
proof -
  define s' where "s' = settle_turn thread turn status s"
  have o: "observe_turn thread turn status (Some s) = Some s'"
    using assms(1-3) by (auto simp: observe_turn_def s'_def)
  have q: "\<forall>e \<in> set (ns_entries s'). \<not> (n_thread e = thread \<and> n_turn e = turn)"
    using assms(3) by (auto simp: s'_def settle_turn_def settle_entry_map)
  have "turn_status thread turn s' \<in> {''completed'', ''interrupted''}"
  proof (cases "find (\<lambda>r. to_thread r = thread \<and> to_turn r = turn) (ns_outcomes s)")
    case None
    from find_push_bounded [OF None, of "\<lparr>to_thread = thread, to_turn = turn, to_status = status\<rparr>"] None
    show ?thesis using assms(3) by (simp add: s'_def settle_turn_def turn_status_def)
  next
    case (Some r)
    then have "r \<in> set (ns_outcomes s)" "to_thread r = thread" "to_turn r = turn"
      by (auto simp: find_Some_iff)
    with assms(4) Some show ?thesis by (auto simp: s'_def settle_turn_def turn_status_def)
  qed
  then have "submit_notice now i s' = s'"
    using assms by (simp add: submit_notice_def Let_def)
  with o q show ?thesis by (simp add: submit_def)
qed

definition demo_report :: notice_input where
  "demo_report = \<lparr>n_ident = ''n1'', n_session = ''s'', n_thread = ''r'', n_turn = ''t1'', n_category = ''network'',
     n_reference = ''req'', n_text = ''failed'', n_surface = ErrorSurface, n_request = True\<rparr>"

definition demo_queue :: notice_service where
  "demo_queue = submit_notice 5 demo_report empty_notices"

lemma settled_turn_is_quiet_witness:
  "length (ns_entries demo_queue) = 1
   \<and> (\<exists>s'. observe_turn ''r'' ''t1'' ''completed'' (Some demo_queue) = Some s'
        \<and> (\<forall>e \<in> set (ns_entries s'). \<not> (n_thread e = ''r'' \<and> n_turn e = ''t1''))
        \<and> submit 9 demo_report (Some s') = Some s')"
proof
  have q: "ns_outcomes demo_queue = []" "length (ns_entries demo_queue) = 1" by code_simp+
  then show "length (ns_entries demo_queue) = 1" by simp
  show "\<exists>s'. observe_turn ''r'' ''t1'' ''completed'' (Some demo_queue) = Some s'
        \<and> (\<forall>e \<in> set (ns_entries s'). \<not> (n_thread e = ''r'' \<and> n_turn e = ''t1''))
        \<and> submit 9 demo_report (Some s') = Some s'"
    by (rule settled_turn_is_quiet) (simp_all add: q demo_report_def)
qed

section \<open>Naming\<close>

lemma admit_once_started: "nm_started s \<Longrightarrow> snd (admit_title s) = None"
  by (simp add: admit_title_def)

text \<open>
  A thread's title is generated at most once.  After an admission has handed out a
  generator, nothing that happens to the state makes another admission hand out one.
\<close>

lemma title_admitted_once:
  assumes "admit_title s = (s1, Some prompt)" and "naming_ok s"
  shows "prompt \<noteq> '''' \<and> snd (admit_title (fold naming_step ops s1)) = None"
proof -
  from assms(1) have p: "prompt \<noteq> ''''" "nm_started s1" "s1 = naming_step NAdmit s"
    by (auto simp: admit_title_def split: if_splits)
  have "naming_ok s1" unfolding p(3) using assms(2) by (rule naming.step_inv) simp
  then have "naming_le s1 (fold naming_step ops s1)" by (rule naming.run_le) (simp add: list_all_iff)
  with p show ?thesis by (simp add: naming_le_def admit_once_started)
qed

lemma title_admitted_once_witness:
  "\<exists>s1. admit_title (retain_prompt '' fix the bug '' (naming_thread '''' False)) = (s1, Some ''fix the bug'')
     \<and> snd (admit_title (fold naming_step [NRename '''', NRetain ''again''] s1)) = None"
proof -
  have "snd (admit_title (retain_prompt '' fix the bug '' (naming_thread '''' False))) = Some ''fix the bug''"
    by code_simp
  then obtain s1 where a: "admit_title (retain_prompt '' fix the bug '' (naming_thread '''' False)) = (s1, Some ''fix the bug'')"
    by (metis prod.collapse)
  have "naming_ok (retain_prompt '' fix the bug '' (naming_thread '''' False))" by code_simp
  from title_admitted_once [OF a this, of "[NRename '''', NRetain ''again'']"] a show ?thesis by blast
qed

text \<open>
  The prompt is cut on a rune boundary.  What the naming request carries decodes to the
  first 4096 runes of the retained prompt, malformed bytes counting as replacement characters.
\<close>

lemma bounded_prompt_runes:
  "runes (bounded_prompt prompt) = take 4096 (runes prompt)"
proof (cases "4096 < length (runes prompt)")
  case True
  have "list_all valid_rune (take 4096 (runes prompt))"
    using runes_valid [of prompt] by (auto simp: list_all_iff dest: in_set_takeD)
  with True show ?thesis by (simp add: bounded_prompt_def Let_def runes_concat)
qed (simp add: bounded_prompt_def Let_def)

text \<open>
  A generated title is in normal form.  A title is not empty, and splitting it at white
  space and joining the words with single spaces gives it back.
\<close>

lemma title_normal_form:
  assumes "generate_title instructions complete prompt = Inr name"
  shows "name \<noteq> '''' \<and> join '' '' (go_fields name) = name"
proof -
  from assms obtain answer where a: "name = join '' '' (go_fields answer)" "name \<noteq> ''''"
    by (auto simp: generate_title_def Let_def split: sum.splits if_splits)
  have "\<forall>f \<in> set (go_fields answer). spaceless f [] \<and> f \<noteq> []"
    unfolding go_fields_def using go_fields_from_spaceless by blast
  with a go_fields_join show ?thesis by simp
qed

lemma title_normal_form_witness:
  "join '' '' (go_fields ''Fix the bug'') = ''Fix the bug''"
proof -
  have "generate_title '''' (\<lambda>_. Inr ''  Fix the   bug '') ''p'' = Inr ''Fix the bug''" by code_simp
  from title_normal_form [OF this] show ?thesis ..
qed

section \<open>Playback\<close>

text \<open>
  C33: seeking shows what playing would have shown.  However the player was driven before, an
  advance that succeeds leaves the presentation of exactly the events that are due at its
  position, each applied once to a fresh presentation in recorded order.
\<close>

theorem advance_presents_due_events:
  assumes "sorted (map ev_at (so_events src))"
    and "player_bounds lo hi (new_player src v) = Inr p"
    and "(p1, s1) = fold (replay_step app fresh) ops (p, fresh)"
    and "advance ctx (\<lambda>_. fresh) app position p1 s1 = (p', s', None)"
  shows "s' = present app (takeWhile (\<lambda>e. ev_at e \<le> so_start (p_source p1) + p_position p') (so_events (p_source p1))) fresh
    \<and> 0 \<le> p_position p' \<and> p_position p' \<le> p_until p'"
proof -
  from assms(2) have p: "p = new_player src v\<lparr>p_from := p_from p, p_until := p_until p\<rparr>"
      "0 \<le> p_from p" "p_from p < p_until p"
    by (auto simp: player_bounds_def Let_def new_player_def split: if_splits)
  have f: "p_source p = src" "p_position p = 0" "p_next p = 0"
    by (subst p(1), simp add: new_player_def)+
  have "player_ok app fresh (fst (p, fresh)) (snd (p, fresh))"
    using assms(1) f p(2,3) by (simp add: player_ok_def present_def)
  then have "player_ok app fresh (fst (fold (replay_step app fresh) ops (p, fresh)))
      (snd (fold (replay_step app fresh) ops (p, fresh)))"
    by (rule replays.run_inv) (simp add: list_all_iff)
  then have "player_ok app fresh p1 s1" by (simp flip: assms(3))
  note ok = advance_ok [OF this assms(4)]
  have pos: "p_position p' = clamp_position p1 position" using ok by blast
  have "s' = present app (takeWhile (\<lambda>e. ev_at e \<le> so_start (p_source p1) + clamp_position p1 position)
      (so_events (p_source p1))) fresh"
    using ok by blast
  moreover have "0 \<le> p_position p'" "p_position p' \<le> p_until p'"
    using ok unfolding player_ok_def by blast+
  ultimately show ?thesis unfolding pos by blast
qed

definition demo_source :: "nat replay_source" where
  "demo_source = \<lparr>so_start = 100, so_end = 100 + 20 * 10 ^ 9,
     so_events = [\<lparr>ev_at = 100, ev_payload = 1\<rparr>, \<lparr>ev_at = 100 + 5 * 10 ^ 9, ev_payload = 2\<rparr>,
       \<lparr>ev_at = 100 + 20 * 10 ^ 9, ev_payload = 3\<rparr>]\<rparr>"

definition demo_apply :: "nat replay_event \<Rightarrow> nat list \<Rightarrow> nat list \<times> error option" where
  "demo_apply e s = (s @ [ev_payload e], None)"

definition demo_player :: "nat player" where
  "demo_player = (new_player demo_source (Finite (2 ^ 56)))\<lparr>p_until := 20 * 10 ^ 9\<rparr>"

theorem advance_presents_due_events_witness:
  "snd (advance (\<lambda>_. None) (\<lambda>_. []) demo_apply (6 * 10 ^ 9)
      (fst (replay_step demo_apply [] (\<lambda>_. None, \<lambda>_. None, 0, SeekForward) (demo_player, [])))
      (snd (replay_step demo_apply [] (\<lambda>_. None, \<lambda>_. None, 0, SeekForward) (demo_player, [])))) = ([1, 2], None)"
proof -
  let ?op = "(\<lambda>_. None, \<lambda>_. None, 0, SeekForward) :: replay_op"
  obtain p1 s1 where st: "replay_step demo_apply [] ?op (demo_player, []) = (p1, s1)"
    using prod.exhaust by blast
  obtain p' s' err where adv: "advance (\<lambda>_. None) (\<lambda>_. []) demo_apply (6 * 10 ^ 9) p1 s1 = (p', s', err)"
    using prod_cases3 by blast
  have c: "snd (snd (advance (\<lambda>_. None) (\<lambda>_. []) demo_apply (6 * 10 ^ 9)
      (fst (replay_step demo_apply [] ?op (demo_player, [])))
      (snd (replay_step demo_apply [] ?op (demo_player, []))))) = None
    \<and> p_position (fst (advance (\<lambda>_. None) (\<lambda>_. []) demo_apply (6 * 10 ^ 9)
      (fst (replay_step demo_apply [] ?op (demo_player, [])))
      (snd (replay_step demo_apply [] ?op (demo_player, []))))) = 6 * 10 ^ 9
    \<and> p_source (fst (replay_step demo_apply [] ?op (demo_player, []))) = demo_source"
    by code_simp
  then have e: "err = None" "p_position p' = 6 * 10 ^ 9" "p_source p1 = demo_source" using st adv by simp_all
  have "sorted (map ev_at (so_events demo_source))" by code_simp
  moreover have "player_bounds 0 0 (new_player demo_source (Finite (2 ^ 56))) = Inr demo_player"
    by (simp add: player_bounds_def demo_player_def new_player_def demo_source_def replay_duration_def time_sub_def
        speed_in_range_def speed_ladder_def Let_def)
  moreover have "(p1, s1) = fold (replay_step demo_apply []) [?op] (demo_player, [])" using st by simp
  ultimately have "s' = present demo_apply (takeWhile (\<lambda>x. ev_at x \<le> so_start (p_source p1) + p_position p')
      (so_events (p_source p1))) []"
    by (rule advance_presents_due_events [THEN conjunct1, OF _ _ _ adv [unfolded e(1)]])
  then have "s' = [1, 2]" by (simp add: e demo_source_def present_def demo_apply_def)
  with st adv e show ?thesis by simp
qed

text \<open>
  The speed ladder.  Faster selects the next preset above a finite speed and slower the
  next one below, with no preset between, and at the ends of the ladder they stay on it.
\<close>

lemma speed_step_neighbour:
  "\<exists>w \<in> set speed_ladder. speed_step (Finite v) faster = Finite w
     \<and> (if faster then (\<forall>x \<in> set speed_ladder. v < x \<longrightarrow> w \<le> x) \<and> (v < w \<or> w = last speed_ladder)
        else (\<forall>x \<in> set speed_ladder. x < v \<longrightarrow> x \<le> w) \<and> (w < v \<or> w = hd speed_ladder))"
  by (cases faster) (simp_all add: speed_step_def speed_ladder_def)

lemma speed_step_neighbour_witness:
  "\<exists>w. speed_step (Finite (2 ^ 56)) True = Finite w \<and> 2 ^ 56 < w \<and> w \<le> 2 * 2 ^ 56"
proof -
  from speed_step_neighbour [of "2 ^ 56" True] obtain w where w: "w \<in> set speed_ladder"
      "speed_step (Finite (2 ^ 56)) True = Finite w"
      "\<forall>x \<in> set speed_ladder. 2 ^ 56 < x \<longrightarrow> w \<le> x" "2 ^ 56 < w \<or> w = last speed_ladder"
    by auto
  have l: "(2 :: int) * 2 ^ 56 \<in> set speed_ladder" "(2 :: int) ^ 56 < last speed_ladder" by code_simp+
  with w show ?thesis by (intro exI [of _ w]) auto
qed

end
