(* ===== verification/Diff_Review.thy ===== *)
theory Diff_Review
  imports Interfaces Strings
begin

text \<open>
  The captured diff model, \<open>libraries/diffmodel\<close> (\<open>review.go\<close>, \<open>align.go\<close>, \<open>group.go\<close>,
  \<open>status.go\<close> and the parser of \<open>review_compose.go\<close>): review files, their rendering from a
  before/after pair, the parser of the rendered hunks, line counts, status codes and the
  grouping of captures by file.  The third-party sequence matcher and the quoting of paths
  are the fields of \<open>differ\<close>.  Source coordinates are natural numbers; where the code
  subtracts below zero the comparison is written out.
\<close>

section \<open>Review files\<close>

record review_file =
  rf_before_path :: string
  rf_after_path :: string
  rf_diff :: string
  rf_incomplete :: string
  rf_directory :: bool
  rf_binary :: bool
  rf_link :: bool
  rf_copy_from :: string
  rf_origin :: string
  rf_origin_note :: string

definition paths_file :: "string \<Rightarrow> string \<Rightarrow> review_file" where
  "paths_file before after = \<lparr>rf_before_path = before, rf_after_path = after, rf_diff = '''',
     rf_incomplete = '''', rf_directory = False, rf_binary = False, rf_link = False, rf_copy_from = '''',
     rf_origin = '''', rf_origin_note = ''''\<rparr>"

datatype review_action = ReviewAdd | ReviewUpdate | ReviewDelete | ReviewMove

fun action_name :: "review_action \<Rightarrow> string" where
  "action_name ReviewAdd = ''add''"
| "action_name ReviewUpdate = ''update''"
| "action_name ReviewDelete = ''delete''"
| "action_name ReviewMove = ''move''"

definition review_action_of :: "review_file \<Rightarrow> review_action" where
  "review_action_of f =
     (if rf_before_path f = '''' then ReviewAdd
      else if rf_after_path f = '''' then ReviewDelete
      else if rf_before_path f \<noteq> rf_after_path f then ReviewMove
      else ReviewUpdate)"

fun action_title :: "review_action \<Rightarrow> string" where
  "action_title ReviewAdd = ''Create''"
| "action_title ReviewDelete = ''Delete''"
| "action_title ReviewMove = ''Move''"
| "action_title ReviewUpdate = ''Edit''"

section \<open>The matcher\<close>

datatype op_tag = OpEqual | OpReplace | OpDelete | OpInsert

record opcode =
  o_tag :: op_tag
  o_i1 :: nat
  o_i2 :: nat
  o_j1 :: nat
  o_j2 :: nat

record differ =
  df_quote :: "string \<Rightarrow> string"
  df_opcodes :: "string list \<Rightarrow> string list \<Rightarrow> opcode list"
  df_grouped :: "nat \<Rightarrow> string list \<Rightarrow> string list \<Rightarrow> opcode list list"
  df_blocks :: "string list \<Rightarrow> string list \<Rightarrow> (nat \<times> nat \<times> nat) list"

section \<open>Rendering\<close>

definition review_path :: "differ \<Rightarrow> string \<Rightarrow> string" where
  "review_path df path = (if path = '''' then ''/dev/null'' else df_quote df path)"

definition review_range :: "nat \<Rightarrow> nat \<Rightarrow> string" where
  "review_range lo hi =
     (if lo = hi then nat_dec lo @ '',0'' else nat_dec (lo + 1) @ '','' @ nat_dec (hi - lo))"

definition review_lines :: "string \<Rightarrow> string list" where
  "review_lines content =
     (if content = '''' then []
      else let ls = split_after content in if last ls = '''' then butlast ls else ls)"

definition no_newline_marker :: string where
  "no_newline_marker = CHR 0x5C # '' No newline at end of file'' @ [newline]"

definition write_line :: "char \<Rightarrow> string \<Rightarrow> string" where
  "write_line mark line =
     mark # line @ (if suffix [newline] line then [] else newline # no_newline_marker)"

definition write_lines :: "char \<Rightarrow> string list \<Rightarrow> string" where
  "write_lines mark lines = concat (map (write_line mark) lines)"

definition file_headers :: "differ \<Rightarrow> string \<Rightarrow> string \<Rightarrow> string" where
  "file_headers df before after =
     ''--- '' @ review_path df before @ [newline] @ ''+++ '' @ review_path df after @ [newline]"

definition operation_line :: "differ \<Rightarrow> review_action \<Rightarrow> string \<Rightarrow> string \<Rightarrow> string" where
  "operation_line df a before after =
     action_name a @ '' '' @ df_quote df before @ '' -> '' @ df_quote df after @ [newline]"

definition render_op :: "string list \<Rightarrow> string list \<Rightarrow> opcode \<Rightarrow> string" where
  "render_op a b op =
     (if o_tag op = OpEqual then write_lines CHR '' '' (segment a (o_i1 op) (o_i2 op)) else [])
     @ (if o_tag op = OpReplace \<or> o_tag op = OpDelete
        then write_lines CHR ''-'' (segment a (o_i1 op) (o_i2 op)) else [])
     @ (if o_tag op = OpReplace \<or> o_tag op = OpInsert
        then write_lines CHR ''+'' (segment b (o_j1 op) (o_j2 op)) else [])"

definition hunk_line :: "nat \<Rightarrow> nat \<Rightarrow> nat \<Rightarrow> nat \<Rightarrow> string" where
  "hunk_line i1 i2 j1 j2 = ''@@ -'' @ review_range i1 i2 @ '' +'' @ review_range j1 j2 @ '' @@'' @ [newline]"

definition render_group :: "string list \<Rightarrow> string list \<Rightarrow> nat \<Rightarrow> nat \<Rightarrow> opcode list \<Rightarrow> string" where
  "render_group a b bo ao g =
     hunk_line (bo + o_i1 (hd g)) (bo + o_i2 (last g)) (ao + o_j1 (hd g)) (ao + o_j2 (last g))
     @ concat (map (render_op a b) g)"

definition render_groups :: "differ \<Rightarrow> review_file \<Rightarrow> string list \<Rightarrow> string list \<Rightarrow> nat \<Rightarrow> nat
    \<Rightarrow> opcode list list \<Rightarrow> review_file" where
  "render_groups df f a b bo ao groups =
     f\<lparr>rf_diff := operation_line df (review_action_of f) (rf_before_path f) (rf_after_path f)
        @ (if groups = [] then [] else file_headers df (rf_before_path f) (rf_after_path f))
        @ concat (map (render_group a b bo ao) groups)\<rparr>"

definition render_file :: "differ \<Rightarrow> review_file \<Rightarrow> string list \<Rightarrow> string list \<Rightarrow> nat \<Rightarrow> nat \<Rightarrow> review_file" where
  "render_file df f a b bo ao = render_groups df f a b bo ao (df_grouped df 3 a b)"

definition render_review_file :: "differ \<Rightarrow> string \<Rightarrow> string \<Rightarrow> string \<Rightarrow> string \<Rightarrow> review_file" where
  "render_review_file df before_path after_path before after =
     (let a = review_lines before; b = review_lines after
      in render_groups df (paths_file before_path after_path) a b 0 0 (df_grouped df 10 a b))"

definition render_preview_file :: "differ \<Rightarrow> string \<Rightarrow> string \<Rightarrow> string \<Rightarrow> string \<Rightarrow> review_file" where
  "render_preview_file df before_path after_path before after =
     render_file df (paths_file before_path after_path) (review_lines before) (review_lines after) 0 0"

definition binary_side :: "string \<Rightarrow> int \<Rightarrow> string \<Rightarrow> string" where
  "binary_side path bytes hash =
     (if path = '''' then ''absent''
      else int_dec bytes @ '' bytes, sha256 '' @ (if 12 < length hash then take 12 hash else hash))"

definition binary_line :: "differ \<Rightarrow> string \<Rightarrow> string \<Rightarrow> string" where
  "binary_line df before after =
     ''Binary files '' @ review_path df before @ '' and '' @ review_path df after @ '' differ (''"

definition render_binary_file :: "differ \<Rightarrow> string \<Rightarrow> string \<Rightarrow> int \<Rightarrow> int \<Rightarrow> string \<Rightarrow> string \<Rightarrow> review_file" where
  "render_binary_file df before_path after_path before_size after_size before_hash after_hash =
     (let f = render_review_file df before_path after_path '''' ''''
      in f\<lparr>rf_binary := True, rf_diff := rf_diff f @ binary_line df before_path after_path
             @ binary_side before_path before_size before_hash @ '' -> ''
             @ binary_side after_path after_size after_hash @ '')'' @ [newline]\<rparr>)"

definition mark_incomplete :: "string \<Rightarrow> review_file \<Rightarrow> review_file" where
  "mark_incomplete reason f =
     f\<lparr>rf_incomplete := reason, rf_diff := rf_diff f @ ''incomplete history: '' @ reason @ [newline]\<rparr>"

definition render_incomplete_file :: "differ \<Rightarrow> string \<Rightarrow> string \<Rightarrow> string \<Rightarrow> review_file" where
  "render_incomplete_file df before_path after_path reason =
     mark_incomplete reason (render_review_file df before_path after_path '''' '''')"

definition render_unbased_file :: "differ \<Rightarrow> string \<Rightarrow> string \<Rightarrow> string \<Rightarrow> review_file" where
  "render_unbased_file df path after reason =
     mark_incomplete reason (render_file df (paths_file path path) [] (review_lines after) 0 0)"

section \<open>Headers\<close>

definition unified_diff :: "differ \<Rightarrow> review_file \<Rightarrow> string" where
  "unified_diff df f =
     (case cut (rf_diff f) [newline] of
        (_, rest, ok) \<Rightarrow>
          if ok \<and> prefix (file_headers df (rf_before_path f) (rf_after_path f)) rest then rest else rf_diff f)"

definition unified_diff_with_paths :: "differ \<Rightarrow> string \<Rightarrow> string \<Rightarrow> review_file \<Rightarrow> string" where
  "unified_diff_with_paths df before_path after_path f0 =
     (let before = rf_before_path f0; after = rf_after_path f0;
          f1 = f0\<lparr>rf_before_path := before_path, rf_after_path := after_path\<rparr>;
          f2 = (case cut_prefix (operation_line df (review_action_of f1) before after) (rf_diff f1) of
                  Some rest \<Rightarrow> f1\<lparr>rf_diff := operation_line df (review_action_of f1) before_path after_path @ rest\<rparr>
                | None \<Rightarrow> f1);
          (first, rest, _) = cut (rf_diff f2) [newline];
          f3 = (if rf_binary f2
                then (case cut_prefix (binary_line df before after) rest of
                        Some tail \<Rightarrow> f2\<lparr>rf_diff := first @ [newline] @ binary_line df before_path after_path @ tail\<rparr>
                      | None \<Rightarrow> f2)
                else f2);
          f4 = (case cut_prefix (file_headers df before after) rest of
                  Some tail \<Rightarrow> f3\<lparr>rf_diff := first @ [newline] @ file_headers df before_path after_path @ tail\<rparr>
                | None \<Rightarrow>
                   (case cut_prefix (file_headers df before after) (rf_diff f3) of
                      Some tail \<Rightarrow> f3\<lparr>rf_diff := file_headers df before_path after_path @ tail\<rparr>
                    | None \<Rightarrow> f3))
      in unified_diff df f4)"

section \<open>Line counts\<close>

fun count_lines :: "string list \<Rightarrow> bool \<Rightarrow> int \<Rightarrow> int \<Rightarrow> int \<times> int" where
  "count_lines [] in_hunk added removed = (added, removed)"
| "count_lines (l # ls) in_hunk added removed =
     (if prefix ''@@ '' l then count_lines ls True added removed
      else if in_hunk \<and> prefix ''+'' l then count_lines ls in_hunk (added + 1) removed
      else if in_hunk \<and> prefix ''-'' l then count_lines ls in_hunk added (removed + 1)
      else count_lines ls in_hunk added removed)"

definition line_counts :: "review_file \<Rightarrow> int \<times> int" where
  "line_counts f =
     (if rf_incomplete f \<noteq> '''' \<or> rf_directory f then (-1, -1)
      else count_lines (split_lines (rf_diff f)) False 0 0)"

section \<open>Hunks\<close>

record review_row =
  rr_kind :: char
  rr_text :: string

record review_hunk =
  rh_before_start :: nat
  rh_after_start :: nat
  rh_changed_start :: nat
  rh_rows :: "review_row list"

definition max_compose_rows :: nat where
  "max_compose_rows = 2 ^ 20"

definition range_error :: error where
  "range_error = Err ''invalid captured hunk range''"

text \<open>A range as a zero-based start and a count.\<close>

definition parse_review_range :: "string \<Rightarrow> char \<Rightarrow> error + nat \<times> nat" where
  "parse_review_range s mark =
     (if length s < 2 \<or> hd s \<noteq> mark then Inl range_error
      else
        let (start_text, count_text, explicit) = cut (tl s) '',''
        in case atoi start_text of
             None \<Rightarrow> Inl (ErrQ ''invalid captured hunk position '' start_text '''')
           | Some start \<Rightarrow>
               if start < 0 \<or> 2 ^ 30 < start then Inl (ErrQ ''invalid captured hunk position '' start_text '''')
               else
                 (case (if explicit then atoi count_text else Some 1) of
                    None \<Rightarrow> Inl (Err ''invalid captured hunk length'')
                  | Some count \<Rightarrow>
                      if explicit \<and> (count < 0 \<or> int max_compose_rows < count)
                      then Inl (Err ''invalid captured hunk length'')
                      else
                        let start = (if count \<noteq> 0 then start - 1 else start)
                        in if start < 0 then Inl (Err ''invalid captured hunk start'')
                           else Inr (nat start, nat count)))"

definition is_header :: "string \<Rightarrow> bool" where
  "is_header l = prefix ''@@ '' l"

text \<open>
  The rows of one hunk.  The list holds the lines up to the next header; \<open>final\<close> tells
  whether the text ends with them.  The results are the rows, the rows of either side and the
  rows read so far.
\<close>

definition unterminate_last :: "review_row list \<Rightarrow> review_row list" where
  "unterminate_last body = butlast body @ [(last body)\<lparr>rr_text := butlast (rr_text (last body))\<rparr>]"

fun parse_rows :: "bool \<Rightarrow> string list \<Rightarrow> review_row list \<Rightarrow> nat \<Rightarrow> nat \<Rightarrow> nat
    \<Rightarrow> error + review_row list \<times> nat \<times> nat \<times> nat" where
  "parse_rows final [] body old new rows = Inr (body, old, new, rows)"
| "parse_rows final (l # ls) body old new rows =
     (if l = '''' \<and> ls = [] \<and> final then Inr (body, old, new, rows)
      else if l = no_newline_marker
      then (if body = [] \<or> \<not> suffix [newline] (rr_text (last body))
            then Inl (Err ''invalid captured newline marker'')
            else parse_rows final ls (unterminate_last body) old new rows)
      else if l = '''' \<or> hd l \<notin> {CHR '' '', CHR ''+'', CHR ''-''}
      then Inl (Err ''invalid captured hunk row'')
      else if max_compose_rows < rows + 1 then Inl (Err ''captured hunk exceeds capacity'')
      else parse_rows final ls (body @ [\<lparr>rr_kind = hd l, rr_text = tl l\<rparr>])
             (if hd l \<noteq> CHR ''+'' then old + 1 else old)
             (if hd l \<noteq> CHR ''-'' then new + 1 else new) (rows + 1))"

definition changed_start :: "nat \<Rightarrow> review_row list \<Rightarrow> nat" where
  "changed_start start body =
     (case find_index (\<lambda>r. rr_kind r \<noteq> CHR '' '') body of None \<Rightarrow> start | Some i \<Rightarrow> start + i)"

definition parse_hunk_header :: "string \<Rightarrow> error + (nat \<times> nat) \<times> (nat \<times> nat)" where
  "parse_hunk_header l =
     (case go_fields l of
        [f0, f1, f2, f3] \<Rightarrow>
          if f0 \<noteq> ''@@'' \<or> f3 \<noteq> ''@@'' then Inl (Err ''invalid captured hunk header'')
          else (case parse_review_range f1 CHR ''-'' of
                  Inl e \<Rightarrow> Inl e
                | Inr old \<Rightarrow> (case parse_review_range f2 CHR ''+'' of Inl e \<Rightarrow> Inl e | Inr new \<Rightarrow> Inr (old, new)))
      | _ \<Rightarrow> Inl (Err ''invalid captured hunk header''))"

text \<open>The loop over the lines; the state carries the ends, the shift and the row count so far.\<close>

record parse_state =
  ps_before_end :: nat
  ps_after_end :: nat
  ps_shift :: int
  ps_rows :: nat

definition parse_hunk :: "bool \<Rightarrow> parse_state \<Rightarrow> string \<Rightarrow> string list \<Rightarrow> bool \<Rightarrow> error + review_hunk \<times> parse_state" where
  "parse_hunk complete st l body_lines final =
     (case parse_hunk_header l of
        Inl e \<Rightarrow> Inl e
      | Inr ((old_start, old_count), (new_start, new_count)) \<Rightarrow>
          if old_start < ps_before_end st \<or> new_start < ps_after_end st
             \<or> complete \<and> int new_start \<noteq> int old_start + ps_shift st
          then Inl (Err ''inconsistent captured hunk coordinates'')
          else
            (case parse_rows final body_lines [] 0 0 (ps_rows st) of
               Inl e \<Rightarrow> Inl e
             | Inr (body, old, new, rows) \<Rightarrow>
                 if old \<noteq> old_count \<or> new \<noteq> new_count
                 then Inl (Err ''captured hunk counts do not match content'')
                 else Inr (\<lparr>rh_before_start = old_start, rh_after_start = new_start,
                             rh_changed_start = changed_start new_start body, rh_rows = body\<rparr>,
                           \<lparr>ps_before_end = old_start + old_count, ps_after_end = new_start + new_count,
                            ps_shift = ps_shift st + int new_count - int old_count, ps_rows = rows\<rparr>)))"

function parse_from :: "bool \<Rightarrow> parse_state \<Rightarrow> string list \<Rightarrow> error + review_hunk list" where
  "parse_from complete st [] = Inr []"
| "parse_from complete st (l # ls) =
     (if \<not> is_header l then parse_from complete st ls
      else
        (case parse_hunk complete st l (takeWhile (\<lambda>x. \<not> is_header x) ls) (dropWhile (\<lambda>x. \<not> is_header x) ls = []) of
           Inl e \<Rightarrow> Inl e
         | Inr (h, st') \<Rightarrow>
             (case parse_from complete st' (dropWhile (\<lambda>x. \<not> is_header x) ls) of
                Inl e \<Rightarrow> Inl e | Inr hs \<Rightarrow> Inr (h # hs))))"
  by pat_completeness auto

termination parse_from
  by (relation "measure (\<lambda>(_, _, ls). length ls)") (auto simp: le_imp_less_Suc length_dropWhile_le)

definition parse_review_hunks :: "differ \<Rightarrow> review_file \<Rightarrow> bool \<Rightarrow> error + review_hunk list" where
  "parse_review_hunks df f complete =
     parse_from complete \<lparr>ps_before_end = 0, ps_after_end = 0, ps_shift = 0, ps_rows = 0\<rparr>
       (split_after (unified_diff df f))"

definition hunks :: "differ \<Rightarrow> review_file \<Rightarrow> error + review_hunk list" where
  "hunks df f = parse_review_hunks df f False"

section \<open>Alignment\<close>

text \<open>Reading past the end of either side panics.\<close>

fun align_rows :: "review_row list \<Rightarrow> string list \<Rightarrow> string list \<Rightarrow> error + review_row list" where
  "align_rows [] before after = Inr []"
| "align_rows (r # rs) before after =
     (let (r1, before1, ok1) =
            (if rr_kind r \<noteq> CHR ''+''
             then (case before of [] \<Rightarrow> (r, before, False) | x # xs \<Rightarrow> (r\<lparr>rr_text := x\<rparr>, xs, True))
             else (r, before, True));
          (r2, after1, ok2) =
            (if rr_kind r \<noteq> CHR ''-''
             then (case after of [] \<Rightarrow> (r1, after, False) | x # xs \<Rightarrow> (r1\<lparr>rr_text := x\<rparr>, xs, True))
             else (r1, after, True))
      in if \<not> ok1 \<or> \<not> ok2 then Inl (Panic ''index out of range'')
         else (case align_rows rs before1 after1 of Inl e \<Rightarrow> Inl e | Inr out \<Rightarrow> Inr (r2 # out)))"

section \<open>Grouping captures by file\<close>

record file_group =
  fg_path :: string
  fg_captures :: "nat list"

record grouping =
  gr_files :: "file_group list"
  gr_current :: "(string \<times> nat) list"
  gr_deleted :: "(string \<times> nat) list"

definition group_slot :: "grouping \<Rightarrow> review_file \<Rightarrow> grouping \<times> nat" where
  "group_slot g f =
     (let path = (if rf_before_path f = '''' then rf_after_path f else rf_before_path f);
          found = alist_get (gr_current g) path;
          found = (if rf_before_path f = '''' \<and> alist_get (gr_deleted g) path \<noteq> None
                   then alist_get (gr_deleted g) path else found)
      in case found of
           Some i \<Rightarrow> (g, i)
         | None \<Rightarrow>
             (let i = length (gr_files g)
              in (g\<lparr>gr_files := gr_files g @ [\<lparr>fg_path = path, fg_captures = []\<rparr>],
                    gr_current := alist_put path i (gr_current g)\<rparr>, i)))"

definition group_capture :: "nat \<times> review_file \<Rightarrow> grouping \<Rightarrow> grouping" where
  "group_capture c g0 =
     (let (at, f) = c;
          (g, i) = group_slot g0 f;
          g = (if rf_before_path f = rf_after_path f then g
               else
                 let g = g\<lparr>gr_current := AList.delete (rf_before_path f) (gr_current g)\<rparr>
                 in if rf_after_path f = ''''
                    then g\<lparr>gr_deleted := alist_put (rf_before_path f) i (gr_deleted g)\<rparr>
                    else g\<lparr>gr_current := alist_put (rf_after_path f) i (gr_current g),
                           gr_deleted := AList.delete (rf_after_path f) (gr_deleted g),
                           gr_files := (gr_files g)[i := (gr_files g ! i)\<lparr>fg_path := rf_after_path f\<rparr>]\<rparr>)
      in g\<lparr>gr_files := (gr_files g)[i := (gr_files g ! i)\<lparr>fg_captures := fg_captures (gr_files g ! i) @ [at]\<rparr>]\<rparr>)"

definition group_files :: "review_file list \<Rightarrow> file_group list" where
  "group_files captures =
     gr_files (fold group_capture (enumerate 0 captures) \<lparr>gr_files = [], gr_current = [], gr_deleted = []\<rparr>)"

section \<open>Status\<close>

record file_status =
  fs_before :: string
  fs_after :: string
  fs_edited :: bool
  fs_conflict :: bool
  fs_incomplete :: bool
  fs_directory :: bool

definition binary_edited :: "review_file \<Rightarrow> bool" where
  "binary_edited f =
     (rf_binary f \<and>
      (case cut (rf_diff f) '' differ ('' of
         (_, sides, found) \<Rightarrow>
           found \<and> (case cut (trim_suffix '')'' (trim_space sides)) '' -> '' of (before, after, _) \<Rightarrow> before \<noteq> after)))"

definition conflict_mark :: string where
  "conflict_mark = newline # ''+>>>>>>> mchanges ''"

definition status_add :: "review_file \<Rightarrow> file_status \<Rightarrow> file_status" where
  "status_add f s =
     (let (added, removed) = line_counts f
      in s\<lparr>fs_after := rf_after_path f,
           fs_directory := rf_directory f,
           fs_incomplete := fs_incomplete s \<or> rf_incomplete f \<noteq> '''' \<and> \<not> rf_directory f,
           fs_edited := fs_edited s \<or> 0 < added \<or> 0 < removed \<or> rf_directory f \<or> binary_edited f,
           fs_conflict := fs_conflict s \<or> contains (rf_diff f) conflict_mark\<rparr>)"

definition status_of :: "review_file list \<Rightarrow> file_status" where
  "status_of regions =
     fold status_add regions
       \<lparr>fs_before = (case regions of [] \<Rightarrow> '''' | r # _ \<Rightarrow> rf_before_path r), fs_after = '''',
        fs_edited = False, fs_conflict = False, fs_incomplete = False, fs_directory = False\<rparr>"

definition short_code :: "file_status \<Rightarrow> string" where
  "short_code s =
     (if fs_incomplete s then ''?''
      else if fs_conflict s then ''UU''
      else if fs_before s = '''' then ''A''
      else if fs_after s = '''' then ''D''
      else if fs_before s \<noteq> fs_after s \<and> fs_edited s then ''RM''
      else if fs_before s \<noteq> fs_after s then ''R''
      else ''M'')"

end
