(* ===== verification/Diff_Merge.thy ===== *)
theory Diff_Merge
  imports Diff_Review
begin

text \<open>
  Replaying and undoing a captured review on current content, \<open>review_merge.go\<close>: locating a
  hunk exactly, anchoring it by its context, and the three-way merge of a region.  Loops over
  positions are folds over the list of positions the loop visits.  The three-way merge has no
  bound of its own in the code, so it runs on fuel and \<open>None\<close> is a run that does not return.
\<close>

section \<open>Hunks\<close>

definition before_rows :: "review_row list \<Rightarrow> string list" where
  "before_rows rows = map rr_text (filter (\<lambda>r. rr_kind r \<noteq> CHR ''+'') rows)"

definition after_rows :: "review_row list \<Rightarrow> string list" where
  "after_rows rows = map rr_text (filter (\<lambda>r. rr_kind r \<noteq> CHR ''-'') rows)"

definition sides :: "review_hunk \<Rightarrow> bool \<Rightarrow> string list \<times> string list \<times> nat" where
  "sides h reverse =
     (let before = before_rows (rh_rows h); after = after_rows (rh_rows h)
      in if reverse then (after, before, rh_after_start h) else (before, after, rh_before_start h))"

definition is_context :: "review_row \<Rightarrow> bool" where
  "is_context r \<longleftrightarrow> rr_kind r = CHR '' ''"

definition context_runs :: "review_hunk \<Rightarrow> nat \<times> nat" where
  "context_runs h =
     (let lead = length (takeWhile is_context (rh_rows h));
          trail = length (takeWhile is_context (rev (drop lead (rh_rows h))))
      in (lead, trail))"

definition hunk_text :: "review_hunk \<Rightarrow> string" where
  "hunk_text h =
     (let before = before_rows (rh_rows h); after = after_rows (rh_rows h)
      in hunk_line (rh_before_start h) (rh_before_start h + length before)
           (rh_after_start h) (rh_after_start h + length after)
         @ concat (map (\<lambda>r. write_line (rr_kind r) (rr_text r)) (rh_rows h)))"

section \<open>Locating a hunk\<close>

definition distance :: "int \<Rightarrow> int \<Rightarrow> int" where
  "distance a b = (if b < a then a - b else b - a)"

definition nearest_step :: "string list \<Rightarrow> string list \<Rightarrow> int \<Rightarrow> nat \<Rightarrow> nat option \<Rightarrow> nat option" where
  "nearest_step lines run expected at best =
     (if segment lines at (at + length run) = run
         \<and> (case best of None \<Rightarrow> True | Some b \<Rightarrow> distance (int at) expected < distance (int b) expected)
      then Some at else best)"

definition nearest_run :: "string list \<Rightarrow> string list \<Rightarrow> nat \<Rightarrow> int \<Rightarrow> nat option" where
  "nearest_run lines run cursor expected =
     (if run = [] then (if cursor = length lines then Some cursor else None)
      else fold (nearest_step lines run expected) [cursor..<Suc (length lines) - length run] None)"

definition review_anchors :: "nat \<Rightarrow> nat \<Rightarrow> nat \<Rightarrow> bool \<Rightarrow> (nat \<times> nat) list" where
  "review_anchors lo hi fuzz leading =
     (let keep = max 1 (hi - lo - fuzz)
      in if lo = hi \<or> keep = hi - lo then [(lo, hi)]
         else
           let inner = (if leading then (hi - keep, hi) else (lo, lo + keep));
               outer = (if leading then (lo, lo + keep) else (hi - keep, hi))
           in if inner = outer then [inner] else [inner, outer])"

record anchored =
  an_distance :: int
  an_first :: nat
  an_last :: nat
  an_base_start :: nat
  an_base_end :: nat

definition find_tail :: "string list \<Rightarrow> string list \<Rightarrow> nat \<Rightarrow> nat \<Rightarrow> nat option" where
  "find_tail lines tail lo span =
     find (\<lambda>k. segment lines k (k + length tail) = tail)
       (filter (\<lambda>k. k - lo \<le> span) [lo..<Suc (length lines) - length tail])"

definition anchor_step :: "string list \<Rightarrow> string list \<Rightarrow> nat \<Rightarrow> nat \<Rightarrow> int
    \<Rightarrow> (nat \<times> nat) \<times> (nat \<times> nat) \<times> nat \<Rightarrow> anchored option \<Rightarrow> anchored option" where
  "anchor_step lines froms lead trail expected c best =
     (let ((l1, l2), (t1, t2), at) = c;
          lo = at + (l2 - l1);
          span = 2 * (length froms - lead - trail) + 20
      in if lead = 0 \<and> lo \<noteq> 0 \<or> segment lines at lo \<noteq> segment froms l1 l2 then best
         else
           (case (if trail = 0 then Some (length lines) else find_tail lines (segment froms t1 t2) lo span) of
              None \<Rightarrow> best
            | Some hi \<Rightarrow>
                let d = distance (int lo) (expected - int lead + int l2)
                in if (case best of None \<Rightarrow> True | Some b \<Rightarrow> d < an_distance b)
                   then Some \<lparr>an_distance = d, an_first = lo, an_last = hi, an_base_start = l2, an_base_end = t1\<rparr>
                   else best))"

definition anchor_candidates :: "string list \<Rightarrow> string list \<Rightarrow> nat \<Rightarrow> nat \<Rightarrow> nat
    \<Rightarrow> ((nat \<times> nat) \<times> (nat \<times> nat) \<times> nat) list" where
  "anchor_candidates lines froms lead trail cursor =
     concat (map (\<lambda>fuzz.
       concat (map (\<lambda>l.
         concat (map (\<lambda>t.
           map (\<lambda>at. (l, t, at)) [cursor..<Suc (length lines) - (snd l - fst l)])
           (review_anchors (length froms - trail) (length froms) fuzz False)))
         (review_anchors 0 lead fuzz True)))
       [0..<max 1 (max lead trail)])"

definition anchor_region :: "string list \<Rightarrow> string list \<Rightarrow> nat \<Rightarrow> nat \<Rightarrow> nat \<Rightarrow> int \<Rightarrow> anchored option" where
  "anchor_region lines froms lead trail cursor expected =
     fold (anchor_step lines froms lead trail expected) (anchor_candidates lines froms lead trail cursor) None"

section \<open>Three-way merge\<close>

text \<open>For every line of \<open>a\<close> the line of \<open>b\<close> it is matched with.\<close>

definition set_block :: "nat \<times> nat \<times> nat \<Rightarrow> nat option list \<Rightarrow> nat option list" where
  "set_block blk ms = (case blk of (i, j, n) \<Rightarrow> fold (\<lambda>k ms. ms[i + k := Some (j + k)]) [0..<n] ms)"

definition review_matches :: "differ \<Rightarrow> string list \<Rightarrow> string list \<Rightarrow> nat option list" where
  "review_matches df a b = fold set_block (df_blocks df a b) (replicate (length a) None)"

definition append_terminated :: "string list \<Rightarrow> string list \<Rightarrow> string list" where
  "append_terminated out lines =
     (let all = out @ lines
      in if lines \<noteq> [] \<and> \<not> suffix [newline] (last lines) then butlast all @ [last all @ [newline]] else all)"

definition conflict_lines :: "string list \<Rightarrow> string list \<Rightarrow> string list \<Rightarrow> string \<Rightarrow> string list" where
  "conflict_lines out ours theirs label =
     append_terminated
       (append_terminated (out @ [''<<<<<<< workspace'' @ [newline]]) ours @ [''======='' @ [newline]]) theirs
     @ [''>>>>>>> '' @ label @ [newline]]"

text \<open>The lines all three agree on from the current positions.\<close>

fun common_run :: "string list \<Rightarrow> nat option list \<Rightarrow> nat option list \<Rightarrow> nat \<Rightarrow> nat \<Rightarrow> nat \<Rightarrow> nat" where
  "common_run [] mo mt b u v = 0"
| "common_run (l # ls) mo mt b u v =
     (if mo ! b = Some u \<and> mt ! b = Some v then Suc (common_run ls mo mt (Suc b) (Suc u) (Suc v)) else 0)"

definition next_matched :: "string list \<Rightarrow> nat option list \<Rightarrow> nat option list \<Rightarrow> nat \<Rightarrow> nat" where
  "next_matched base mo mt b =
     (case find (\<lambda>k. mo ! k \<noteq> None \<and> mt ! k \<noteq> None) [b..<length base] of None \<Rightarrow> length base | Some k \<Rightarrow> k)"

record merge_point =
  mp_base :: nat
  mp_ours :: nat
  mp_theirs :: nat
  mp_output :: "string list"
  mp_conflicts :: nat

text \<open>The three sides of a merge with the matches of the base on either side.\<close>

record three_way =
  tw_base :: "string list"
  tw_ours :: "string list"
  tw_theirs :: "string list"
  tw_label :: string
  tw_match_ours :: "nat option list"
  tw_match_theirs :: "nat option list"

definition copy_common :: "three_way \<Rightarrow> merge_point \<Rightarrow> merge_point" where
  "copy_common w p =
     (let n = common_run (drop (mp_base p) (tw_base w)) (tw_match_ours w) (tw_match_theirs w)
                (mp_base p) (mp_ours p) (mp_theirs p)
      in p\<lparr>mp_base := mp_base p + n, mp_ours := mp_ours p + n, mp_theirs := mp_theirs p + n,
           mp_output := mp_output p @ segment (tw_base w) (mp_base p) (mp_base p + n)\<rparr>)"

definition at_ends :: "three_way \<Rightarrow> merge_point \<Rightarrow> bool" where
  "at_ends w p \<longleftrightarrow> mp_base p = length (tw_base w) \<and> mp_ours p = length (tw_ours w) \<and> mp_theirs p = length (tw_theirs w)"

definition merge_chunk :: "three_way \<Rightarrow> merge_point \<Rightarrow> merge_point" where
  "merge_chunk w p =
     (let next = next_matched (tw_base w) (tw_match_ours w) (tw_match_theirs w) (mp_base p);
          next_ours = (if next < length (tw_base w) then the (tw_match_ours w ! next) else length (tw_ours w));
          next_theirs = (if next < length (tw_base w) then the (tw_match_theirs w ! next) else length (tw_theirs w));
          base_chunk = segment (tw_base w) (mp_base p) next;
          ours_chunk = segment (tw_ours w) (mp_ours p) next_ours;
          theirs_chunk = segment (tw_theirs w) (mp_theirs p) next_theirs;
          p = p\<lparr>mp_base := next, mp_ours := next_ours, mp_theirs := next_theirs\<rparr>
      in if ours_chunk = base_chunk then p\<lparr>mp_output := mp_output p @ theirs_chunk\<rparr>
         else if theirs_chunk = base_chunk \<or> ours_chunk = theirs_chunk then p\<lparr>mp_output := mp_output p @ ours_chunk\<rparr>
         else p\<lparr>mp_output := conflict_lines (mp_output p) ours_chunk theirs_chunk (tw_label w),
                mp_conflicts := mp_conflicts p + 1\<rparr>)"

fun merge_loop :: "nat \<Rightarrow> three_way \<Rightarrow> merge_point \<Rightarrow> (string list \<times> nat) option" where
  "merge_loop 0 w p = None"
| "merge_loop (Suc fuel) w p =
     (let p = copy_common w p
      in if at_ends w p then Some (mp_output p, mp_conflicts p) else merge_loop fuel w (merge_chunk w p))"

definition merge_lines :: "differ \<Rightarrow> string list \<Rightarrow> string list \<Rightarrow> string list \<Rightarrow> string
    \<Rightarrow> (string list \<times> nat) option" where
  "merge_lines df base ours theirs label =
     merge_loop (length base + length ours + length theirs + 1)
       \<lparr>tw_base = base, tw_ours = ours, tw_theirs = theirs, tw_label = label,
        tw_match_ours = review_matches df base ours, tw_match_theirs = review_matches df base theirs\<rparr>
       \<lparr>mp_base = 0, mp_ours = 0, mp_theirs = 0, mp_output = [], mp_conflicts = 0\<rparr>"

section \<open>Merge\<close>

record review_merge =
  rm_content :: string
  rm_conflicts :: nat
  rm_satisfied :: nat
  rm_rejected :: "string list"

record merge_state =
  mg_output :: "string list"
  mg_cursor :: nat
  mg_offset :: int
  mg_conflicts :: nat
  mg_satisfied :: nat
  mg_rejected :: "string list"

definition initial_merge :: merge_state where
  "initial_merge = \<lparr>mg_output = [], mg_cursor = 0, mg_offset = 0, mg_conflicts = 0, mg_satisfied = 0, mg_rejected = []\<rparr>"

definition ends_unterminated :: "string list \<Rightarrow> bool" where
  "ends_unterminated lines \<longleftrightarrow> lines \<noteq> [] \<and> \<not> suffix [newline] (last lines)"

definition merge_anchored :: "differ \<Rightarrow> string list \<Rightarrow> string list \<Rightarrow> string list \<Rightarrow> nat \<Rightarrow> string
    \<Rightarrow> anchored \<Rightarrow> merge_state \<Rightarrow> merge_state option" where
  "merge_anchored df lines froms tos start label r st =
     (let theirs = segment tos (an_base_start r) (length tos - (length froms - an_base_end r));
          ours = segment lines (an_first r) (an_last r)
      in case merge_lines df (segment froms (an_base_start r) (an_base_end r)) ours theirs label of
           None \<Rightarrow> None
         | Some (merged, conflicts) \<Rightarrow>
             Some (st\<lparr>mg_satisfied := mg_satisfied st + (if ours = theirs then 1 else 0),
                      mg_output := mg_output st @ segment lines (mg_cursor st) (an_first r) @ merged,
                      mg_cursor := an_last r,
                      mg_offset := int (an_first r) - int (an_base_start r) - int start,
                      mg_conflicts := mg_conflicts st + conflicts\<rparr>))"

definition merge_elsewhere :: "string list \<Rightarrow> string list \<Rightarrow> nat \<Rightarrow> int \<Rightarrow> review_hunk \<Rightarrow> merge_state \<Rightarrow> merge_state" where
  "merge_elsewhere lines tos start expected h st =
     (let cursor = mg_cursor st
      in case nearest_run lines tos cursor expected of
           Some at \<Rightarrow>
             if tos \<noteq> [] \<and> distance (int at) expected \<le> int (length tos)
             then st\<lparr>mg_output := mg_output st @ segment lines cursor (at + length tos),
                     mg_cursor := at + length tos, mg_offset := int at - int start,
                     mg_satisfied := mg_satisfied st + 1\<rparr>
             else st\<lparr>mg_rejected := mg_rejected st @ [hunk_text h]\<rparr>
         | None \<Rightarrow> st\<lparr>mg_rejected := mg_rejected st @ [hunk_text h]\<rparr>)"

definition merge_drifted :: "differ \<Rightarrow> string list \<Rightarrow> string list \<Rightarrow> string list \<Rightarrow> nat \<Rightarrow> nat \<times> nat \<Rightarrow> int
    \<Rightarrow> string \<Rightarrow> review_hunk \<Rightarrow> merge_state \<Rightarrow> merge_state option" where
  "merge_drifted df lines froms tos start runs expected label h st =
     (case anchor_region lines froms (fst runs) (snd runs) (mg_cursor st) (expected + int (fst runs)) of
        Some r \<Rightarrow> merge_anchored df lines froms tos start label r st
      | None \<Rightarrow> Some (merge_elsewhere lines tos start expected h st))"

definition merge_hunk :: "differ \<Rightarrow> string list \<Rightarrow> bool \<Rightarrow> string \<Rightarrow> review_hunk \<Rightarrow> merge_state \<Rightarrow> merge_state option" where
  "merge_hunk df lines reverse label h st =
     (let (froms, tos, start) = sides h reverse;
          runs = context_runs h;
          cursor = mg_cursor st;
          expected = max (int cursor) (int start + mg_offset st);
          at_end = ends_unterminated tos
      in case nearest_run lines froms cursor expected of
           Some at \<Rightarrow>
             if \<not> at_end \<or> at + length froms = length lines
             then Some (st\<lparr>mg_output := mg_output st @ segment lines cursor at @ tos,
                           mg_cursor := at + length froms, mg_offset := int at - int start\<rparr>)
             else merge_drifted df lines froms tos start runs expected label h st
         | None \<Rightarrow> merge_drifted df lines froms tos start runs expected label h st)"

fun merge_hunks :: "differ \<Rightarrow> string list \<Rightarrow> bool \<Rightarrow> string \<Rightarrow> review_hunk list \<Rightarrow> merge_state \<Rightarrow> merge_state option" where
  "merge_hunks df lines reverse label [] st = Some st"
| "merge_hunks df lines reverse label (h # hs) st =
     (case merge_hunk df lines reverse label h st of
        None \<Rightarrow> None
      | Some st' \<Rightarrow> merge_hunks df lines reverse label hs st')"

text \<open>Every retained hunk is split again with the compact context of a mutation.\<close>

fun compact_hunks :: "differ \<Rightarrow> review_file \<Rightarrow> review_hunk list \<Rightarrow> error + review_hunk list" where
  "compact_hunks df f [] = Inr []"
| "compact_hunks df f (h # hs) =
     (let compact = render_file df f (before_rows (rh_rows h)) (after_rows (rh_rows h))
                      (rh_before_start h) (rh_after_start h)
      in case parse_review_hunks df compact False of
           Inl e \<Rightarrow> Inl e
         | Inr parts \<Rightarrow> (case compact_hunks df f hs of Inl e \<Rightarrow> Inl e | Inr rest \<Rightarrow> Inr (parts @ rest)))"

definition merge_review :: "differ \<Rightarrow> review_file \<Rightarrow> string \<Rightarrow> bool \<Rightarrow> string \<Rightarrow> (error + review_merge) option" where
  "merge_review df f current reverse label =
     (if rf_directory f then Some (Inl (Err ''directory contents are not retained''))
      else if rf_incomplete f \<noteq> '''' then Some (Inl (Err (''incomplete history: '' @ rf_incomplete f)))
      else if rf_binary f then Some (Inl (Err ''binary content is not retained''))
      else
        (case parse_review_hunks df f False of
           Inl e \<Rightarrow> Some (Inl e)
         | Inr hs \<Rightarrow>
             (case compact_hunks df f hs of
                Inl e \<Rightarrow> Some (Inl e)
              | Inr hs \<Rightarrow>
                  (let lines = review_lines current
                   in case merge_hunks df lines reverse label hs initial_merge of
                        None \<Rightarrow> None
                      | Some st \<Rightarrow> Some (Inr \<lparr>rm_content = concat (mg_output st @ drop (mg_cursor st) lines),
                          rm_conflicts = mg_conflicts st, rm_satisfied = mg_satisfied st,
                          rm_rejected = mg_rejected st\<rparr>)))))"

end
