(* ===== verification/Diff_Roundtrip.thy ===== *)
theory Diff_Roundtrip
  imports Diff_Merge
begin

text \<open>
  What the parser reads back from a rendered review file: the documented contract of the
  matcher, the rows a group of opcodes stands for, and the hunks of a rendering.
\<close>

section \<open>The contract of the matcher\<close>

definition op_ok :: "string list \<Rightarrow> string list \<Rightarrow> opcode \<Rightarrow> bool" where
  "op_ok a b op \<longleftrightarrow> o_i1 op \<le> o_i2 op \<and> o_i2 op \<le> length a \<and> o_j1 op \<le> o_j2 op \<and> o_j2 op \<le> length b
     \<and> (case o_tag op of
          OpEqual \<Rightarrow> segment a (o_i1 op) (o_i2 op) = segment b (o_j1 op) (o_j2 op)
        | OpReplace \<Rightarrow> True
        | OpDelete \<Rightarrow> o_j1 op = o_j2 op
        | OpInsert \<Rightarrow> o_i1 op = o_i2 op)"

text \<open>Opcodes that lead from one pair of positions to another without a gap.\<close>

fun op_path :: "string list \<Rightarrow> string list \<Rightarrow> nat \<Rightarrow> nat \<Rightarrow> opcode list \<Rightarrow> nat \<Rightarrow> nat \<Rightarrow> bool" where
  "op_path a b i j [] i' j' \<longleftrightarrow> i = i' \<and> j = j'"
| "op_path a b i j (op # ops) i' j' \<longleftrightarrow>
     op_ok a b op \<and> o_i1 op = i \<and> o_j1 op = j \<and> op_path a b (o_i2 op) (o_j2 op) ops i' j'"

definition group_ok :: "string list \<Rightarrow> string list \<Rightarrow> opcode list \<Rightarrow> bool" where
  "group_ok a b g \<longleftrightarrow> g \<noteq> []
     \<and> op_path a b (o_i1 (hd g)) (o_j1 (hd g)) g (o_i2 (last g)) (o_j2 (last g))"

text \<open>Groups that cover every difference: what lies between them is equal on both sides.\<close>

fun groups_tile :: "string list \<Rightarrow> string list \<Rightarrow> nat \<Rightarrow> nat \<Rightarrow> opcode list list \<Rightarrow> bool" where
  "groups_tile a b i j [] \<longleftrightarrow> drop i a = drop j b"
| "groups_tile a b i j (g # gs) \<longleftrightarrow>
     group_ok a b g \<and> i \<le> o_i1 (hd g) \<and> j \<le> o_j1 (hd g)
     \<and> segment a i (o_i1 (hd g)) = segment b j (o_j1 (hd g))
     \<and> (o_i1 (hd g) = o_i2 (last g) \<longrightarrow> a = []) \<and> (o_j1 (hd g) = o_j2 (last g) \<longrightarrow> b = [])
     \<and> groups_tile a b (o_i2 (last g)) (o_j2 (last g)) gs"

text \<open>Matching blocks: equal runs of both sides, in order and without overlap.\<close>

fun blocks_ok :: "string list \<Rightarrow> string list \<Rightarrow> nat \<Rightarrow> nat \<Rightarrow> (nat \<times> nat \<times> nat) list \<Rightarrow> bool" where
  "blocks_ok a b i j [] \<longleftrightarrow> True"
| "blocks_ok a b i j ((x, y, n) # bs) \<longleftrightarrow>
     i \<le> x \<and> j \<le> y \<and> x + n \<le> length a \<and> y + n \<le> length b
     \<and> segment a x (x + n) = segment b y (y + n) \<and> blocks_ok a b (x + n) (y + n) bs"

text \<open>
  The documented behaviour the code relies on: the grouped opcodes are runs of valid opcodes
  that cover every difference with context around it, the opcodes lead from the start to the
  end of both sides, the matching blocks increase on both sides, and a quoted path has no
  line end.
\<close>

definition differ_ok :: "differ \<Rightarrow> bool" where
  "differ_ok df \<longleftrightarrow>
     (\<forall>n a b. 0 < n \<longrightarrow> groups_tile a b 0 0 (df_grouped df n a b))
     \<and> (\<forall>a b. op_path a b 0 0 (df_opcodes df a b) (length a) (length b))
     \<and> (\<forall>a b. blocks_ok a b 0 0 (df_blocks df a b))
     \<and> (\<forall>s. newline \<notin> set (df_quote df s))"

section \<open>Rows\<close>

definition row :: "char \<Rightarrow> string \<Rightarrow> review_row" where
  "row k l = \<lparr>rr_kind = k, rr_text = l\<rparr>"

definition op_rows :: "string list \<Rightarrow> string list \<Rightarrow> opcode \<Rightarrow> review_row list" where
  "op_rows a b op =
     (if o_tag op = OpEqual then map (row CHR '' '') (segment a (o_i1 op) (o_i2 op)) else [])
     @ (if o_tag op = OpReplace \<or> o_tag op = OpDelete then map (row CHR ''-'') (segment a (o_i1 op) (o_i2 op)) else [])
     @ (if o_tag op = OpReplace \<or> o_tag op = OpInsert then map (row CHR ''+'') (segment b (o_j1 op) (o_j2 op)) else [])"

definition group_rows :: "string list \<Rightarrow> string list \<Rightarrow> opcode list \<Rightarrow> review_row list" where
  "group_rows a b g = concat (map (op_rows a b) g)"

definition write_row :: "review_row \<Rightarrow> string" where
  "write_row r = write_line (rr_kind r) (rr_text r)"

lemma write_lines_rows: "write_lines k ls = concat (map write_row (map (row k) ls))"
  by (simp add: write_lines_def write_row_def row_def comp_def)

lemma render_op_rows: "render_op a b op = concat (map write_row (op_rows a b op))"
  by (simp add: render_op_def op_rows_def write_lines_rows)

lemma render_group_rows:
  "concat (map (render_op a b) g) = concat (map write_row (group_rows a b g))"
  by (induction g) (simp_all add: group_rows_def render_op_rows)

lemma before_rows_append: "before_rows (xs @ ys) = before_rows xs @ before_rows ys"
  by (simp add: before_rows_def)

lemma after_rows_append: "after_rows (xs @ ys) = after_rows xs @ after_rows ys"
  by (simp add: after_rows_def)

lemma rows_of_kind:
  "before_rows (map (row k) ls) = (if k = CHR ''+'' then [] else ls)"
  "after_rows (map (row k) ls) = (if k = CHR ''-'' then [] else ls)"
  by (induction ls) (auto simp: before_rows_def after_rows_def row_def)

lemma op_rows_sides:
  assumes "op_ok a b op"
  shows "before_rows (op_rows a b op) = segment a (o_i1 op) (o_i2 op)
    \<and> after_rows (op_rows a b op) = segment b (o_j1 op) (o_j2 op)"
  using assms
  by (cases "o_tag op") (simp_all add: op_rows_def op_ok_def before_rows_append after_rows_append rows_of_kind
      segment_def)

lemma op_path_le: "op_path a b i j ops i' j' \<Longrightarrow> i \<le> i' \<and> j \<le> j'"
  by (induction ops arbitrary: i j) (auto simp: op_ok_def intro: le_trans)

lemma op_path_bounds: "op_path a b i j ops i' j' \<Longrightarrow> ops \<noteq> [] \<Longrightarrow> i' \<le> length a \<and> j' \<le> length b"
proof (induction ops arbitrary: i j)
  case (Cons op ops)
  then show ?case by (cases ops) (auto simp: op_ok_def)
qed simp

lemma op_path_rows:
  assumes "op_path a b i j ops i' j'"
  shows "before_rows (group_rows a b ops) = segment a i i' \<and> after_rows (group_rows a b ops) = segment b j j'"
  using assms
proof (induction ops arbitrary: i j)
  case Nil
  then show ?case by (simp add: group_rows_def before_rows_def after_rows_def)
next
  case (Cons op ops)
  then have op: "op_ok a b op" "o_i1 op = i" "o_j1 op = j" and rest: "op_path a b (o_i2 op) (o_j2 op) ops i' j'"
    by simp_all
  from op(1) have "o_i1 op \<le> o_i2 op" "o_j1 op \<le> o_j2 op" by (simp_all add: op_ok_def)
  with Cons.IH [OF rest] op op_rows_sides [OF op(1)] op_path_le [OF rest] show ?case
    by (simp add: group_rows_def before_rows_append after_rows_append segment_append)
qed

lemma group_ok_facts:
  assumes "group_ok a b g"
  shows "before_rows (group_rows a b g) = segment a (o_i1 (hd g)) (o_i2 (last g))"
    and "after_rows (group_rows a b g) = segment b (o_j1 (hd g)) (o_j2 (last g))"
    and "o_i1 (hd g) \<le> o_i2 (last g)" and "o_j1 (hd g) \<le> o_j2 (last g)"
    and "o_i2 (last g) \<le> length a" and "o_j2 (last g) \<le> length b"
proof -
  from assms have p: "op_path a b (o_i1 (hd g)) (o_j1 (hd g)) g (o_i2 (last g)) (o_j2 (last g))" "g \<noteq> []"
    by (simp_all add: group_ok_def)
  show "before_rows (group_rows a b g) = segment a (o_i1 (hd g)) (o_i2 (last g))"
    and "after_rows (group_rows a b g) = segment b (o_j1 (hd g)) (o_j2 (last g))"
    and "o_i1 (hd g) \<le> o_i2 (last g)" and "o_j1 (hd g) \<le> o_j2 (last g)"
    and "o_i2 (last g) \<le> length a" and "o_j2 (last g) \<le> length b"
    using op_path_rows [OF p(1)] op_path_le [OF p(1)] op_path_bounds [OF p] by simp_all
qed

section \<open>Reading rows back\<close>

definition row_ok :: "review_row \<Rightarrow> bool" where
  "row_ok r \<longleftrightarrow> rr_kind r \<in> {CHR '' '', CHR ''+'', CHR ''-''}
     \<and> (terminated (rr_text r) \<or> newline \<notin> set (rr_text r))"

definition row_lines :: "review_row \<Rightarrow> string list" where
  "row_lines r =
     (if suffix [newline] (rr_text r) then [rr_kind r # rr_text r]
      else [rr_kind r # rr_text r @ [newline], no_newline_marker])"

lemma terminated_suffix: "terminated l \<Longrightarrow> suffix [newline] l"
  by (metis suffixI terminatedD)

lemma suffix_newline_in: "suffix [newline] l \<Longrightarrow> newline \<in> set l"
  by (auto simp: suffix_def)

lemma marker_terminated: "terminated no_newline_marker"
  by code_simp

lemma row_lines_terminated: "row_ok r \<Longrightarrow> list_all terminated (row_lines r)"
proof -
  assume ok: "row_ok r"
  then have k: "rr_kind r \<noteq> newline" by (auto simp: row_ok_def)
  show ?thesis
  proof (cases "suffix [newline] (rr_text r)")
    case True
    with ok have "terminated (rr_text r)" using suffix_newline_in by (auto simp: row_ok_def)
    with k have "terminated (rr_kind r # rr_text r)" by (auto simp: terminated_def)
    with True show ?thesis by (simp add: row_lines_def)
  next
    case False
    with ok have "newline \<notin> set (rr_kind r # rr_text r)"
      using terminated_suffix k by (auto simp: row_ok_def)
    from terminatedI [OF this] False show ?thesis by (simp add: row_lines_def marker_terminated)
  qed
qed

lemma write_row_lines: "write_row r = concat (row_lines r)"
  by (simp add: write_row_def write_line_def row_lines_def)

lemma split_rows:
  "list_all row_ok rs \<Longrightarrow> split_after (concat (map write_row rs) @ s) = concat (map row_lines rs) @ split_after s"
proof (induction rs)
  case (Cons r rs)
  then show ?case
    using row_lines_terminated [of r] by (simp add: write_row_lines split_after_concat)
qed simp

definition old_count :: "review_row list \<Rightarrow> nat" where
  "old_count rs = length (before_rows rs)"

definition new_count :: "review_row list \<Rightarrow> nat" where
  "new_count rs = length (after_rows rs)"

lemma marker_not_row: "l = no_newline_marker \<Longrightarrow> hd l \<notin> {CHR '' '', CHR ''+'', CHR ''-''}"
  by (simp add: no_newline_marker_def)

lemma parse_rows_row:
  assumes "row_ok r" and "rows + 1 \<le> max_compose_rows"
  shows "parse_rows final (row_lines r @ ls) body old new rows =
    parse_rows final ls (body @ [r]) (old + old_count [r]) (new + new_count [r]) (rows + 1)"
proof -
  have k: "rr_kind r \<in> {CHR '' '', CHR ''+'', CHR ''-''}" using assms(1) by (simp add: row_ok_def)
  have no: "rr_kind r # u \<noteq> no_newline_marker" for u
    using k by (auto simp: no_newline_marker_def)
  have cnt: "old_count [r] = (if rr_kind r \<noteq> CHR ''+'' then 1 else 0)"
      "new_count [r] = (if rr_kind r \<noteq> CHR ''-'' then 1 else 0)"
    by (simp_all add: old_count_def new_count_def before_rows_def after_rows_def)
  have nm: "no_newline_marker \<noteq> []" by (simp add: no_newline_marker_def)
  obtain kind body_text where r: "r = \<lparr>rr_kind = kind, rr_text = body_text\<rparr>" by (cases r)
  show ?thesis
  proof (cases "suffix [newline] body_text")
    case True
    with k no cnt assms(2) show ?thesis by (auto simp: r row_lines_def)
  next
    case False
    with k no cnt assms(2) nm show ?thesis
      by (auto simp: r row_lines_def unterminate_last_def)
  qed
qed

lemma counts_append:
  "old_count (xs @ ys) = old_count xs + old_count ys" "new_count (xs @ ys) = new_count xs + new_count ys"
  by (simp_all add: old_count_def new_count_def before_rows_append after_rows_append)

lemma parse_rows_rows:
  "list_all row_ok rs \<Longrightarrow> rows + length rs \<le> max_compose_rows \<Longrightarrow>
     parse_rows final (concat (map row_lines rs) @ ls) body old new rows =
     parse_rows final ls (body @ rs) (old + old_count rs) (new + new_count rs) (rows + length rs)"
proof (induction rs arbitrary: body old new rows)
  case Nil
  then show ?case by (simp add: old_count_def new_count_def before_rows_def after_rows_def)
next
  case (Cons r rs)
  from Cons.prems have "row_ok r" "rows + 1 \<le> max_compose_rows" by simp_all
  from parse_rows_row [OF this, of final "concat (map row_lines rs) @ ls" body old new]
    Cons.IH [of "rows + 1" "body @ [r]" "old + old_count [r]" "new + new_count [r]"] Cons.prems
    counts_append [of "[r]" rs]
  show ?case by (simp add: add.assoc)
qed
section \<open>Reading ranges back\<close>

lemma index_of_single:
  "c \<notin> set u \<Longrightarrow> index_of [c] (u @ c # v) = Some (length u)"
  by (induction u) auto

lemma cut_single: "c \<notin> set u \<Longrightarrow> cut (u @ c # v) [c] = (u, v, True)"
  by (simp add: cut_def index_of_single)

lemma comma_not_in_dec: "CHR '','' \<notin> set (nat_dec n)"
  using nat_dec_digits [of n] by (auto simp: list_all_iff dest: is_digit_not)

definition range_ok :: "nat \<times> nat \<Rightarrow> bool" where
  "range_ok r \<longleftrightarrow> fst r \<le> snd r \<and> snd r \<le> 2 ^ 30 \<and> snd r - fst r \<le> max_compose_rows"

definition print_range :: "char \<Rightarrow> nat \<times> nat \<Rightarrow> string" where
  "print_range mark r = mark # review_range (fst r) (snd r)"

definition read_range :: "char \<Rightarrow> string \<Rightarrow> (nat \<times> nat) option" where
  "read_range mark s =
     (case parse_review_range s mark of Inl _ \<Rightarrow> None | Inr (start, count) \<Rightarrow> Some (start, start + count))"

lemma parse_range_print:
  assumes "range_ok (lo, hi)"
  shows "parse_review_range (mark # review_range lo hi) mark = Inr (lo, hi - lo)"
proof -
  have b: "lo \<le> hi" "hi \<le> 2 ^ 30" "hi - lo \<le> 2 ^ 20"
    using assms by (simp_all add: range_ok_def max_compose_rows_def)
  define x n where "x = (if lo = hi then lo else lo + 1)" and "n = hi - lo"
  have r: "review_range lo hi = nat_dec x @ CHR '','' # nat_dec n"
  proof -
    have "nat_dec 0 = ''0''" by code_simp
    then show ?thesis by (simp add: review_range_def x_def n_def)
  qed
  have x: "x \<le> 2 ^ 30" "n \<le> 2 ^ 20" using b by (auto simp: x_def n_def)
  have at: "atoi (nat_dec x) = Some (int x)" "atoi (nat_dec n) = Some (int n)"
    using x by (intro atoi_nat_dec; simp)+
  have ne: "nat_dec x \<noteq> []" using nat_dec_digits by simp
  then have len: "\<not> length (mark # review_range lo hi) < 2" by (cases "nat_dec x") (simp_all add: r)
  have c: "cut (review_range lo hi) '','' = (nat_dec x, nat_dec n, True)"
    unfolding r using cut_single [OF comma_not_in_dec] by simp
  show ?thesis
    unfolding parse_review_range_def using len c at x b
    by (auto simp: x_def n_def max_compose_rows_def)
qed

interpretation ranges: codec "print_range mark" "read_range mark" range_ok for mark
  by unfold_locales (auto simp: print_range_def read_range_def parse_range_print, simp add: range_ok_def)

interpretation decimals: codec nat_dec "\<lambda>s. map_option nat (atoi s)" "\<lambda>n. n < 2 ^ 63"
  by unfold_locales (simp add: atoi_nat_dec)

section \<open>Reading hunk headers back\<close>

definition plain :: "string \<Rightarrow> bool" where
  "plain f \<longleftrightarrow> (\<forall>c \<in> set f. c \<notin> hd ` set space_runes)"

lemma plain_spaceless: "plain f \<Longrightarrow> spaceless f rest"
proof -
  have ne: "\<forall>p \<in> set space_runes. p \<noteq> []" by code_simp
  assume f: "plain f"
  have "\<not> prefix p (drop i f @ rest)" if "i < length f" "p \<in> set space_runes" for i p
  proof
    assume pre: "prefix p (drop i f @ rest)"
    have "drop i f = f ! i # drop (Suc i) f" using that(1) by (rule Cons_nth_drop_Suc [symmetric])
    with pre ne that(2) have "hd p = f ! i" by (cases p) auto
    with f that show False by (auto simp: plain_def)
  qed
  then show ?thesis by (simp add: spaceless_def space_length_0)
qed

lemma plain_append [simp]: "plain (xs @ ys) \<longleftrightarrow> plain xs \<and> plain ys"
  by (auto simp: plain_def)

lemma plain_Cons: "plain (c # xs) \<longleftrightarrow> plain [c] \<and> plain xs"
  by (auto simp: plain_def)

lemma plain_digits: "list_all is_digit s \<Longrightarrow> plain s"
proof -
  have "\<forall>p \<in> set space_runes. \<not> is_digit (hd p)" by code_simp
  then show "list_all is_digit s \<Longrightarrow> plain s" by (auto simp: plain_def list_all_iff)
qed

lemma plain_range: "plain (review_range lo hi)"
proof -
  have "plain '',''" "plain '',0''" by code_simp+
  moreover have "plain (nat_dec n)" for n using plain_digits nat_dec_digits by blast
  ultimately show ?thesis
    unfolding review_range_def using plain_Cons [of "CHR '',''" "nat_dec (hi - lo)"] by auto
qed

lemma fields_step:
  assumes "plain f" and "f \<noteq> []"
  shows "go_fields (f @ CHR '' '' # rest) = f # go_fields rest"
    and "go_fields (f @ [newline]) = [f]"
proof -
  have nl: "space_length [newline] = 1" by code_simp
  show "go_fields (f @ CHR '' '' # rest) = f # go_fields rest"
    unfolding go_fields_def using assms
    by (simp add: go_fields_from_field [OF plain_spaceless] space_length_space close_field_def)
  show "go_fields (f @ [newline]) = [f]"
    unfolding go_fields_def using assms
    by (simp add: go_fields_from_field [OF plain_spaceless] nl close_field_def)
qed

lemma hunk_line_fields:
  "go_fields (hunk_line i1 i2 j1 j2) =
     [''@@'', CHR ''-'' # review_range i1 i2, CHR ''+'' # review_range j1 j2, ''@@'']"
proof -
  have p: "plain ''@@''" "plain ''-''" "plain ''+''" by code_simp+
  have "plain (CHR ''-'' # review_range i1 i2)" "plain (CHR ''+'' # review_range j1 j2)"
    using p(2,3) plain_range unfolding plain_def by auto
  from fields_step(1) [OF p(1), of "(CHR ''-'' # review_range i1 i2) @ CHR '' '' # (CHR ''+'' # review_range j1 j2) @ CHR '' '' # ''@@'' @ [newline]"]
    fields_step(1) [OF this(1), of "(CHR ''+'' # review_range j1 j2) @ CHR '' '' # ''@@'' @ [newline]"]
    fields_step(1) [OF this(2), of "''@@'' @ [newline]"] fields_step(2) [OF p(1)]
  show ?thesis by (simp add: hunk_line_def)
qed

lemma parse_header_line:
  assumes "range_ok (i1, i2)" and "range_ok (j1, j2)"
  shows "parse_hunk_header (hunk_line i1 i2 j1 j2) = Inr ((i1, i2 - i1), (j1, j2 - j1))"
  using assms by (simp add: parse_hunk_header_def hunk_line_fields parse_range_print)

lemma hunk_line_header: "is_header (hunk_line i1 i2 j1 j2)"
  by (simp add: is_header_def hunk_line_def)

lemma newline_not_in_range: "newline \<notin> set (review_range lo hi)"
  using nat_dec_digits by (auto simp: review_range_def list_all_iff dest: is_digit_not)

lemma hunk_line_terminated: "terminated (hunk_line i1 i2 j1 j2)"
  unfolding hunk_line_def append_assoc [symmetric]
  by (rule terminatedI) (simp add: newline_not_in_range)

section \<open>Reading hunks back\<close>

lemma row_lines_no_header: "row_ok r \<Longrightarrow> l \<in> set (row_lines r) \<Longrightarrow> \<not> is_header l"
  by (auto simp: row_lines_def row_ok_def is_header_def no_newline_marker_def split: if_splits)

definition group_hunk :: "string list \<Rightarrow> string list \<Rightarrow> nat \<Rightarrow> nat \<Rightarrow> opcode list \<Rightarrow> review_hunk" where
  "group_hunk a b bo ao g =
     \<lparr>rh_before_start = bo + o_i1 (hd g), rh_after_start = ao + o_j1 (hd g),
      rh_changed_start = changed_start (ao + o_j1 (hd g)) (group_rows a b g), rh_rows = group_rows a b g\<rparr>"

definition group_lines :: "string list \<Rightarrow> string list \<Rightarrow> nat \<Rightarrow> nat \<Rightarrow> opcode list \<Rightarrow> string list" where
  "group_lines a b bo ao g =
     hunk_line (bo + o_i1 (hd g)) (bo + o_i2 (last g)) (ao + o_j1 (hd g)) (ao + o_j2 (last g))
     # concat (map row_lines (group_rows a b g))"

definition lines_ok :: "string list \<Rightarrow> bool" where
  "lines_ok ls \<longleftrightarrow> list_all (\<lambda>l. terminated l \<or> newline \<notin> set l) ls"

lemma group_rows_ok:
  assumes "lines_ok a" and "lines_ok b"
  shows "list_all row_ok (group_rows a b g)"
proof -
  have s: "l \<in> set xs" if "l \<in> set (segment xs i j)" for l :: string and xs i j
    using subsetD [OF segment_subset that] .
  show ?thesis
    using assms by (auto simp: group_rows_def op_rows_def list_all_iff row_ok_def row_def lines_ok_def dest!: s)
qed

definition total_rows :: "string list \<Rightarrow> string list \<Rightarrow> opcode list list \<Rightarrow> nat" where
  "total_rows a b gs = sum_list (map (\<lambda>g. length (group_rows a b g)) gs)"

lemma old_count_le: "old_count rs \<le> length rs" "new_count rs \<le> length rs"
  by (simp_all add: old_count_def new_count_def before_rows_def after_rows_def)

lemma parse_hunk_group:
  assumes g: "group_ok a b g" and ok: "lines_ok a" "lines_ok b"
    and bounds: "bo + length a \<le> 2 ^ 30" "ao + length b \<le> 2 ^ 30"
    and rows: "ps_rows st + length (group_rows a b g) \<le> max_compose_rows"
    and starts: "ps_before_end st \<le> bo + o_i1 (hd g)" "ps_after_end st \<le> ao + o_j1 (hd g)"
    and shift: "complete \<longrightarrow> int (ao + o_j1 (hd g)) = int (bo + o_i1 (hd g)) + ps_shift st"
    and tail: "body_lines = concat (map row_lines (group_rows a b g)) \<and> \<not> final
      \<or> body_lines = concat (map row_lines (group_rows a b g)) @ [''''] \<and> final"
  shows "parse_hunk complete st
      (hunk_line (bo + o_i1 (hd g)) (bo + o_i2 (last g)) (ao + o_j1 (hd g)) (ao + o_j2 (last g))) body_lines final
    = Inr (group_hunk a b bo ao g,
        \<lparr>ps_before_end = bo + o_i2 (last g), ps_after_end = ao + o_j2 (last g),
         ps_shift = ps_shift st + int (o_j2 (last g) - o_j1 (hd g)) - int (o_i2 (last g) - o_i1 (hd g)),
         ps_rows = ps_rows st + length (group_rows a b g)\<rparr>)"
proof -
  note f = group_ok_facts [OF g]
  have cnt: "old_count (group_rows a b g) = o_i2 (last g) - o_i1 (hd g)"
      "new_count (group_rows a b g) = o_j2 (last g) - o_j1 (hd g)"
    using f by (simp_all add: old_count_def new_count_def segment_length)
  have r: "range_ok (bo + o_i1 (hd g), bo + o_i2 (last g))" "range_ok (ao + o_j1 (hd g), ao + o_j2 (last g))"
    using f bounds rows old_count_le [of "group_rows a b g"] by (auto simp: range_ok_def cnt)
  have pr: "parse_rows final body_lines [] 0 0 (ps_rows st) =
      Inr (group_rows a b g, old_count (group_rows a b g), new_count (group_rows a b g),
           ps_rows st + length (group_rows a b g))"
    using tail parse_rows_rows [OF group_rows_ok [OF ok] rows, of final "[]" "[]" 0 0]
      parse_rows_rows [OF group_rows_ok [OF ok] rows, of final "['''']" "[]" 0 0] by auto
  show ?thesis
    unfolding parse_hunk_def parse_header_line [OF r] using starts shift pr cnt f
    by (auto simp: group_hunk_def)
qed

lemma takeWhile_rows:
  assumes "list_all row_ok rs" and "rest = [''''] \<or> (\<exists>h r. rest = h # r \<and> is_header h)"
  shows "takeWhile (\<lambda>x. \<not> is_header x) (concat (map row_lines rs) @ rest)
      = concat (map row_lines rs) @ (if rest = [''''] then [''''] else [])"
    and "dropWhile (\<lambda>x. \<not> is_header x) (concat (map row_lines rs) @ rest) = (if rest = [''''] then [] else rest)"
proof -
  have n: "\<not> is_header l" if "l \<in> set (concat (map row_lines rs))" for l
    using that assms(1) row_lines_no_header by (auto simp: list_all_iff)
  have e: "\<not> is_header ''''" by (simp add: is_header_def)
  have "takeWhile (\<lambda>x. \<not> is_header x) (concat (map row_lines rs) @ rest)
      = concat (map row_lines rs) @ takeWhile (\<lambda>x. \<not> is_header x) rest"
    using n by (rule takeWhile_append2)
  moreover have "takeWhile (\<lambda>x. \<not> is_header x) rest = (if rest = [''''] then [''''] else [])"
    using assms(2) e by auto
  ultimately show "takeWhile (\<lambda>x. \<not> is_header x) (concat (map row_lines rs) @ rest)
      = concat (map row_lines rs) @ (if rest = [''''] then [''''] else [])" by simp
  have "dropWhile (\<lambda>x. \<not> is_header x) (concat (map row_lines rs) @ rest) = dropWhile (\<lambda>x. \<not> is_header x) rest"
    using n by (rule dropWhile_append2)
  moreover have "dropWhile (\<lambda>x. \<not> is_header x) rest = (if rest = [''''] then [] else rest)"
    using assms(2) e by auto
  ultimately show "dropWhile (\<lambda>x. \<not> is_header x) (concat (map row_lines rs) @ rest) = (if rest = [''''] then [] else rest)"
    by simp
qed

lemma parse_from_groups:
  assumes "groups_tile a b i j gs" and ok: "lines_ok a" "lines_ok b"
    and bounds: "bo + length a \<le> 2 ^ 30" "ao + length b \<le> 2 ^ 30"
    and "ps_rows st + total_rows a b gs \<le> max_compose_rows"
    and "ps_before_end st \<le> bo + i" and "ps_after_end st \<le> ao + j"
    and "complete \<longrightarrow> int (ao + j) = int (bo + i) + ps_shift st"
    and "i \<le> length a" and "j \<le> length b"
  shows "parse_from complete st (concat (map (group_lines a b bo ao) gs) @ [''''])
    = Inr (map (group_hunk a b bo ao) gs)"
  using assms(1,6-)
proof (induction gs arbitrary: i j st)
  case Nil
  then show ?case by (simp add: is_header_def)
next
  case (Cons g gs)
  let ?st = "\<lparr>ps_before_end = bo + o_i2 (last g), ps_after_end = ao + o_j2 (last g),
         ps_shift = ps_shift st + int (o_j2 (last g) - o_j1 (hd g)) - int (o_i2 (last g) - o_i1 (hd g)),
         ps_rows = ps_rows st + length (group_rows a b g)\<rparr>"
  define rest where "rest = concat (map (group_lines a b bo ao) gs) @ ['''']"
  from Cons.prems(1) have g: "group_ok a b g" "i \<le> o_i1 (hd g)" "j \<le> o_j1 (hd g)"
      "segment a i (o_i1 (hd g)) = segment b j (o_j1 (hd g))"
      and tile: "groups_tile a b (o_i2 (last g)) (o_j2 (last g)) gs" by simp_all
  note f = group_ok_facts [OF g(1)]
  have gap: "o_i1 (hd g) - i = o_j1 (hd g) - j"
    using arg_cong [OF g(4), of length] f by (simp add: segment_length)
  have restc: "rest = [''''] \<or> (\<exists>h r. rest = h # r \<and> is_header h)"
    by (cases gs) (simp_all add: rest_def group_lines_def hunk_line_header)
  have fin: "rest = [''''] \<longleftrightarrow> gs = []"
    by (cases gs) (auto simp: rest_def group_lines_def hunk_line_def)
  have body: "parse_hunk complete st
      (hunk_line (bo + o_i1 (hd g)) (bo + o_i2 (last g)) (ao + o_j1 (hd g)) (ao + o_j2 (last g)))
      (concat (map row_lines (group_rows a b g)) @ (if rest = [''''] then [''''] else [])) (rest = [''''])
    = Inr (group_hunk a b bo ao g, ?st)"
    using Cons.prems(2-5) g gap f
    by (intro parse_hunk_group [OF g(1) ok bounds]) (auto simp: total_rows_def)
  have IH: "parse_from complete ?st rest = Inr (map (group_hunk a b bo ao) gs)"
    unfolding rest_def using Cons.prems(2-5) gap g f
    by (intro Cons.IH [OF tile]) (auto simp: total_rows_def)
  have stop: "parse_from complete ?st (if rest = [''''] then [] else rest) = Inr (map (group_hunk a b bo ao) gs)"
    using IH fin by auto
  note tw = takeWhile_rows [OF group_rows_ok [OF ok] restc]
  have "(if rest = [''''] then [] else rest) = [] \<longleftrightarrow> rest = ['''']" using restc by auto
  note last = this
  have split: "concat (map (group_lines a b bo ao) (g # gs)) @ [''''] =
      hunk_line (bo + o_i1 (hd g)) (bo + o_i2 (last g)) (ao + o_j1 (hd g)) (ao + o_j2 (last g))
      # (concat (map row_lines (group_rows a b g)) @ rest)"
    by (simp add: group_lines_def rest_def)
  show ?case
    unfolding split parse_from.simps(2) tw last using body stop by (simp add: hunk_line_header)
qed

section \<open>Reading a rendering back\<close>

definition quote_ok :: "differ \<Rightarrow> bool" where
  "quote_ok df \<longleftrightarrow> (\<forall>s. newline \<notin> set (df_quote df s))"

lemma differ_okD:
  assumes "differ_ok df"
  shows "0 < n \<Longrightarrow> groups_tile a b 0 0 (df_grouped df n a b)"
    and "op_path a b 0 0 (df_opcodes df a b) (length a) (length b)"
    and "quote_ok df"
    and "blocks_ok a b 0 0 (df_blocks df a b)"
  using assms by (simp_all add: differ_ok_def quote_ok_def)

lemma action_name_plain: "newline \<notin> set (action_name x)" "\<not> prefix ''@@ '' (action_name x @ s)"
  by (cases x; simp)+

lemma operation_line_terminated: "quote_ok df \<Longrightarrow> terminated (operation_line df x p q)"
  unfolding operation_line_def append_assoc [symmetric]
  by (rule terminatedI) (auto simp: quote_ok_def action_name_plain)

lemma path_no_newline: "quote_ok df \<Longrightarrow> newline \<notin> set (review_path df p)"
  by (auto simp: quote_ok_def review_path_def)

definition header_lines :: "differ \<Rightarrow> string \<Rightarrow> string \<Rightarrow> string list" where
  "header_lines df p q = [''--- '' @ review_path df p @ [newline], ''+++ '' @ review_path df q @ [newline]]"

lemma header_lines_terminated: "quote_ok df \<Longrightarrow> list_all terminated (header_lines df p q)"
  using terminatedI [of "''--- '' @ review_path df p"] terminatedI [of "''+++ '' @ review_path df q"]
  by (simp add: header_lines_def path_no_newline)

lemma file_headers_lines: "file_headers df p q = concat (header_lines df p q)"
  by (simp add: file_headers_def header_lines_def)

lemma render_group_lines: "render_group a b bo ao g = concat (group_lines a b bo ao g)"
proof -
  have "concat (map write_row rs) = concat (concat (map row_lines rs))" for rs
    by (induction rs) (simp_all add: write_row_lines)
  then show ?thesis by (simp add: render_group_def render_group_rows group_lines_def)
qed

lemma group_lines_terminated:
  assumes "lines_ok a" and "lines_ok b"
  shows "list_all terminated (group_lines a b bo ao g)"
proof -
  have "list_all terminated (concat (map row_lines rs))" if "list_all row_ok rs" for rs
    using that by (induction rs) (simp_all add: row_lines_terminated)
  with group_rows_ok [OF assms] show ?thesis by (simp add: group_lines_def hunk_line_terminated)
qed

lemma cut_terminated:
  assumes "terminated l"
  shows "cut (l @ s) [newline] = (butlast l, s, True)"
proof -
  obtain u where "l = u @ [newline]" "newline \<notin> set u" using terminatedD [OF assms] by blast
  then show ?thesis by (simp add: cut_single)
qed

lemma unified_render:
  assumes "quote_ok df"
  shows "unified_diff df (render_groups df f a b bo ao gs) =
    (if gs = [] then operation_line df (review_action_of f) (rf_before_path f) (rf_after_path f)
     else file_headers df (rf_before_path f) (rf_after_path f) @ concat (map (render_group a b bo ao) gs))"
proof -
  let ?o = "operation_line df (review_action_of f) (rf_before_path f) (rf_after_path f)"
  have c: "cut (?o @ s) [newline] = (butlast ?o, s, True)" for s
    using cut_terminated [OF operation_line_terminated [OF assms]] .
  have ne: "file_headers df p q \<noteq> []" for p q by (simp add: file_headers_def)
  show ?thesis
    using c ne c [of "[]"] by (simp add: unified_diff_def render_groups_def)
qed

lemma render_lines:
  assumes "quote_ok df" and "lines_ok a" and "lines_ok b"
  shows "split_after (unified_diff df (render_groups df f a b bo ao gs)) =
    (if gs = [] then [operation_line df (review_action_of f) (rf_before_path f) (rf_after_path f)]
     else header_lines df (rf_before_path f) (rf_after_path f))
    @ concat (map (group_lines a b bo ao) gs) @ ['''']"
proof (cases "gs = []")
  case True
  then show ?thesis
    using split_after_terminated [OF operation_line_terminated [OF assms(1)], of _ _ _ "[]"]
    by (simp add: unified_render [OF assms(1)])
next
  case False
  have "list_all terminated (concat (map (group_lines a b bo ao) gs))"
    using group_lines_terminated [OF assms(2,3)] by (induction gs) simp_all
  then have t: "list_all terminated (header_lines df (rf_before_path f) (rf_after_path f) @ concat (map (group_lines a b bo ao) gs))"
    using header_lines_terminated [OF assms(1)] by simp
  have "concat (map (render_group a b bo ao) gs) = concat (concat (map (group_lines a b bo ao) gs))" for gs
    by (induction gs) (simp_all add: render_group_lines)
  then have "unified_diff df (render_groups df f a b bo ao gs) =
      concat (header_lines df (rf_before_path f) (rf_after_path f) @ concat (map (group_lines a b bo ao) gs))"
    using False by (simp add: unified_render [OF assms(1)] file_headers_lines)
  with split_after_concat [OF t, of "[]"] False show ?thesis by simp
qed

lemma skip_lines:
  "list_all (\<lambda>l. \<not> is_header l) ls \<Longrightarrow> parse_from complete st (ls @ rest) = parse_from complete st rest"
  by (induction ls) simp_all

text \<open>
  The parser reads the groups of a rendering back as hunks, in the complete mode when both
  sides are rendered from the same offset.
\<close>

lemma parse_render:
  assumes "quote_ok df" and "lines_ok a" and "lines_ok b" and tile: "groups_tile a b 0 0 gs"
    and bounds: "bo + length a \<le> 2 ^ 30" "ao + length b \<le> 2 ^ 30"
    and rows: "total_rows a b gs \<le> max_compose_rows" and "complete \<longrightarrow> bo = ao"
  shows "parse_review_hunks df (render_groups df f a b bo ao gs) complete = Inr (map (group_hunk a b bo ao) gs)"
proof -
  let ?head = "if gs = [] then [operation_line df (review_action_of f) (rf_before_path f) (rf_after_path f)]
     else header_lines df (rf_before_path f) (rf_after_path f)"
  have skip: "list_all (\<lambda>l. \<not> is_header l) ?head"
    by (simp add: is_header_def header_lines_def operation_line_def action_name_plain)
  have "parse_from complete \<lparr>ps_before_end = 0, ps_after_end = 0, ps_shift = 0, ps_rows = 0\<rparr>
      (concat (map (group_lines a b bo ao) gs) @ ['''']) = Inr (map (group_hunk a b bo ao) gs)"
    using assms by (intro parse_from_groups [OF tile]) auto
  then show ?thesis
    unfolding parse_review_hunks_def render_lines [OF assms(1-3)] skip_lines [OF skip] .
qed

section \<open>Line counts of a rendering\<close>

fun line_kind :: "bool \<Rightarrow> string list \<Rightarrow> (int \<times> int)" where
  "line_kind h [] = (0, 0)"
| "line_kind h (l # ls) =
     (if prefix ''@@ '' l then line_kind True ls
      else case line_kind h ls of (p, m) \<Rightarrow>
        (if h \<and> prefix ''+'' l then p + 1 else p, if h \<and> \<not> prefix ''+'' l \<and> prefix ''-'' l then m + 1 else m))"

lemma count_lines_kind: "count_lines ls h p m = (p + fst (line_kind h ls), m + snd (line_kind h ls))"
  by (induction ls h p m rule: count_lines.induct) (auto split: prod.splits)

definition plus_rows :: "review_row list \<Rightarrow> int" where
  "plus_rows rs = int (length (filter (\<lambda>r. rr_kind r = CHR ''+'') rs))"

definition minus_rows :: "review_row list \<Rightarrow> int" where
  "minus_rows rs = int (length (filter (\<lambda>r. rr_kind r = CHR ''-'') rs))"

lemma split_lines_concat:
  "list_all terminated ls \<Longrightarrow> split_lines (concat ls @ s) = map butlast ls @ split_lines s"
proof (induction ls)
  case (Cons l ls)
  then obtain u where u: "l = u @ [newline]" "newline \<notin> set u" using terminatedD by auto
  have "split_lines (u @ newline # t) = u # split_lines t" for t
    using u(2) by (induction u) auto
  with Cons u show ?case by simp
qed simp

lemma row_lines_kind:
  assumes "row_ok r"
  shows "line_kind True (map butlast (row_lines r) @ rest) =
    (plus_rows [r] + fst (line_kind True rest), minus_rows [r] + snd (line_kind True rest))"
proof -
  have k: "rr_kind r \<in> {CHR '' '', CHR ''+'', CHR ''-''}" using assms by (simp add: row_ok_def)
  have m: "\<not> prefix ''@@ '' (butlast no_newline_marker)" "\<not> prefix ''+'' (butlast no_newline_marker)"
      "\<not> prefix ''-'' (butlast no_newline_marker)" by code_simp+
  show ?thesis
  proof (cases "suffix [newline] (rr_text r)")
    case True
    then have "rr_text r \<noteq> []" by auto
    with True k show ?thesis
      by (auto simp: row_lines_def plus_rows_def minus_rows_def split: prod.splits)
  next
    case False
    with k m show ?thesis
      by (auto simp: row_lines_def plus_rows_def minus_rows_def split: prod.splits)
  qed
qed

lemma rows_kind:
  "list_all row_ok rs \<Longrightarrow> line_kind True (map butlast (concat (map row_lines rs)) @ rest) =
    (plus_rows rs + fst (line_kind True rest), minus_rows rs + snd (line_kind True rest))"
proof (induction rs)
  case (Cons r rs)
  then have "row_ok r" by simp
  from row_lines_kind [OF this, of "map butlast (concat (map row_lines rs)) @ rest"] Cons show ?case
    by (simp add: plus_rows_def minus_rows_def)
qed (simp add: plus_rows_def minus_rows_def)

lemma groups_kind:
  assumes "lines_ok a" and "lines_ok b"
  shows "line_kind h (map butlast (concat (map (group_lines a b bo ao) gs)) @ ['''']) =
    (sum_list (map (\<lambda>g. plus_rows (group_rows a b g)) gs), sum_list (map (\<lambda>g. minus_rows (group_rows a b g)) gs))"
proof (induction gs arbitrary: h)
  case (Cons g gs)
  have "prefix ''@@ '' (butlast (hunk_line i1 i2 j1 j2))" for i1 i2 j1 j2 by (simp add: hunk_line_def butlast_append)
  moreover have "map butlast (concat (map (group_lines a b bo ao) (g # gs))) @ [''''] =
      butlast (hunk_line (bo + o_i1 (hd g)) (bo + o_i2 (last g)) (ao + o_j1 (hd g)) (ao + o_j2 (last g)))
      # (map butlast (concat (map row_lines (group_rows a b g)))
         @ (map butlast (concat (map (group_lines a b bo ao) gs)) @ ['''']))"
    by (simp add: group_lines_def)
  ultimately show ?case
    using rows_kind [OF group_rows_ok [OF assms], of g "map butlast (concat (map (group_lines a b bo ao) gs)) @ ['''']"] Cons.IH
    by (simp only: line_kind.simps if_True) simp
qed simp

lemma skip_kind: "list_all (\<lambda>l. \<not> is_header l) ls \<Longrightarrow> line_kind False (ls @ rest) = line_kind False rest"
  by (induction ls) (simp_all add: is_header_def split: prod.splits)

lemma line_counts_render:
  assumes "quote_ok df" and "lines_ok a" and "lines_ok b" and "rf_incomplete f = ''''" and "\<not> rf_directory f"
  shows "line_counts (render_groups df f a b bo ao gs) =
    (sum_list (map (\<lambda>g. plus_rows (group_rows a b g)) gs), sum_list (map (\<lambda>g. minus_rows (group_rows a b g)) gs))"
proof -
  let ?o = "operation_line df (review_action_of f) (rf_before_path f) (rf_after_path f)"
  let ?head = "?o # (if gs = [] then [] else header_lines df (rf_before_path f) (rf_after_path f))"
  have gl: "list_all terminated (concat (map (group_lines a b bo ao) gs))"
    using group_lines_terminated [OF assms(2,3)] by (induction gs) simp_all
  have t: "list_all terminated (?head @ concat (map (group_lines a b bo ao) gs))"
    using gl header_lines_terminated [OF assms(1)] operation_line_terminated [OF assms(1)] by simp
  have g: "concat (map (render_group a b bo ao) gs) = concat (concat (map (group_lines a b bo ao) gs))" for gs
    by (induction gs) (simp_all add: render_group_lines)
  have d: "rf_diff (render_groups df f a b bo ao gs) = concat (?head @ concat (map (group_lines a b bo ao) gs))"
    by (simp add: render_groups_def g file_headers_lines)
  have b: "prefix ''@@ '' (butlast l) \<Longrightarrow> prefix ''@@ '' l" for l
    using prefixeq_butlast prefix_order.trans by blast
  have n: "list_all (\<lambda>l. \<not> prefix ''@@ '' l) ?head"
    by (simp add: header_lines_def operation_line_def action_name_plain)
  have skip: "list_all (\<lambda>l. \<not> is_header l) (map butlast ?head)"
    unfolding list_all_iff is_header_def
  proof
    fix x
    assume "x \<in> set (map butlast ?head)"
    then obtain l where "l \<in> set ?head" "x = butlast l" by (auto simp del: list.map)
    with n b show "\<not> prefix ''@@ '' x" unfolding list_all_iff by blast
  qed
  have "split_lines (rf_diff (render_groups df f a b bo ao gs)) =
      map butlast ?head @ (map butlast (concat (map (group_lines a b bo ao) gs)) @ [''''])"
    unfolding d using split_lines_concat [OF t, of "[]"] by simp
  with skip_kind [OF skip] groups_kind [OF assms(2,3), of False bo ao gs] show ?thesis
    using assms(4,5) by (simp add: line_counts_def count_lines_kind render_groups_def del: list.map map_append)
qed

section \<open>The lines of a text\<close>

lemma review_lines_spec: "lines_ok (review_lines s) \<and> concat (review_lines s) = s
    \<and> list_all terminated (butlast (review_lines s)) \<and> '''' \<notin> set (review_lines s)"
proof (cases "s = ''''")
  case True
  then show ?thesis by (simp add: review_lines_def lines_ok_def)
next
  case False
  obtain ls l where s: "split_after s = ls @ [l]" "list_all terminated ls" "newline \<notin> set l"
    using split_after_pieces by blast
  have ne: "'''' \<notin> set ls" using s(2) by (auto simp: list_all_iff terminated_def)
  have c: "concat ls @ l = s" using concat_split_after [of s] s(1) by simp
  have ok: "lines_ok ls" using s(2) by (auto simp: lines_ok_def list_all_iff)
  show ?thesis
  proof (cases "l = ''''")
    case True
    have "list_all terminated (butlast ls)" using s(2) by (auto simp: list_all_iff dest: in_set_butlastD)
    with True False s c ok ne show ?thesis by (simp add: review_lines_def)
  next
    case False2: False
    with False s c ok ne show ?thesis by (auto simp: review_lines_def lines_ok_def)
  qed
qed

end
