(* ===== verification/Diff_Threeway.thy ===== *)
theory Diff_Threeway
  imports Diff_Roundtrip
begin

text \<open>
  The three-way merge of \<open>mergeReviewLines\<close>: the matches of the base on either side, the
  progress of the loop, and the chunks its output stands for.
\<close>

section \<open>Matches\<close>

definition matches_ok :: "string list \<Rightarrow> string list \<Rightarrow> nat option list \<Rightarrow> bool" where
  "matches_ok a b ms \<longleftrightarrow> length ms = length a
     \<and> (\<forall>k j. k < length a \<longrightarrow> ms ! k = Some j \<longrightarrow> j < length b \<and> b ! j = a ! k)
     \<and> (\<forall>k k' j j'. k < k' \<longrightarrow> k' < length a \<longrightarrow> ms ! k = Some j \<longrightarrow> ms ! k' = Some j' \<longrightarrow> j < j')"

lemma matches_length: "matches_ok a b ms \<Longrightarrow> length ms = length a"
  by (simp add: matches_ok_def)

lemma set_block_fold:
  "length (fold (\<lambda>k ms. ms[i + k := Some (j + k)]) [0..<n] ms) = length ms
   \<and> (\<forall>k < length ms. fold (\<lambda>k ms. ms[i + k := Some (j + k)]) [0..<n] ms ! k =
        (if i \<le> k \<and> k < i + n then Some (j + (k - i)) else ms ! k))"
proof (induction n)
  case (Suc n)
  let ?ms = "fold (\<lambda>k ms. ms[i + k := Some (j + k)]) [0..<n] ms"
  have "?ms[i + n := Some (j + n)] ! k = (if i \<le> k \<and> k < i + Suc n then Some (j + (k - i)) else ms ! k)"
    if "k < length ms" for k
    using that Suc by (cases "k = i + n") simp_all
  with Suc show ?case by simp
qed auto

lemma set_block_nth:
  "length (set_block (i, j, n) ms) = length ms"
  "k < length ms \<Longrightarrow> set_block (i, j, n) ms ! k = (if i \<le> k \<and> k < i + n then Some (j + (k - i)) else ms ! k)"
  using set_block_fold [of i j n ms] by (simp_all add: set_block_def)

lemma blocks_matches:
  assumes "blocks_ok a b i j bs" and "matches_ok a b ms"
    and "\<forall>k < length a. i \<le> k \<longrightarrow> ms ! k = None"
    and "\<forall>k y. k < length a \<longrightarrow> ms ! k = Some y \<longrightarrow> y < j"
  shows "matches_ok a b (fold set_block bs ms)"
  using assms
proof (induction bs arbitrary: i j ms)
  case (Cons blk bs)
  obtain x y n where blk: "blk = (x, y, n)" by (cases blk)
  from Cons.prems(1) blk have f: "i \<le> x" "j \<le> y" "x + n \<le> length a" "y + n \<le> length b"
      "segment a x (x + n) = segment b y (y + n)" "blocks_ok a b (x + n) (y + n) bs" by simp_all
  have l: "length ms = length a" using Cons.prems(2) by (simp add: matches_ok_def)
  let ?ms = "set_block (x, y, n) ms"
  have nth: "?ms ! k = (if x \<le> k \<and> k < x + n then Some (y + (k - x)) else ms ! k)" if "k < length a" for k
    using set_block_nth(2) [of k ms x y n] that l by simp
  have eq: "b ! (y + (k - x)) = a ! k" if "x \<le> k" "k < x + n" for k
    using arg_cong [OF f(5), of "\<lambda>s. s ! (k - x)"] that f(3,4) by (simp add: segment_nth)
  have none: "ms ! k = None" if "x \<le> k" "k < length a" for k using Cons.prems(3) that f(1) by simp
  have below: "v < y" if "k < length a" "ms ! k = Some v" for k v using Cons.prems(4) that f(2) by fastforce
  have "length ?ms = length a" using set_block_nth(1) l by simp
  moreover have "v < length b \<and> b ! v = a ! k" if "k < length a" "?ms ! k = Some v" for k v
  proof (cases "x \<le> k \<and> k < x + n")
    case True
    then have v: "v = y + (k - x)" using that nth [OF that(1)] by simp
    have "k - x < n" using True by linarith
    then have "v < length b" using v f(4) by linarith
    with True eq [of k] v show ?thesis by simp
  next
    case False
    have "ms ! k = Some v" using that(2) unfolding nth [OF that(1)] if_not_P [OF False] .
    with that(1) Cons.prems(2) show ?thesis unfolding matches_ok_def by blast
  qed
  moreover have "v < v'" if "k < k'" "k' < length a" "?ms ! k = Some v" "?ms ! k' = Some v'" for k k' v v'
  proof -
    have k: "k < length a" using that by simp
    have m: "v < v'" if "ms ! k = Some v" "ms ! k' = Some v'"
      using Cons.prems(2) that \<open>k < k'\<close> \<open>k' < length a\<close> unfolding matches_ok_def by blast
    note n = nth [OF k] nth [OF that(2)]
    consider "x \<le> k" "k < x + n" "x \<le> k'" "k' < x + n" | "\<not> (x \<le> k \<and> k < x + n)" "x \<le> k'" "k' < x + n"
      | "x \<le> k" "\<not> (x \<le> k' \<and> k' < x + n)" | "\<not> (x \<le> k \<and> k < x + n)" "\<not> (x \<le> k' \<and> k' < x + n)"
      using that(1) by linarith
    then show ?thesis
    proof cases
      case 1
      then have "v = y + (k - x)" "v' = y + (k' - x)" using n that(3,4) by simp_all
      with 1 that(1) show ?thesis by simp
    next
      case 2
      have "ms ! k = Some v" using that(3) unfolding n(1) if_not_P [OF 2(1)] .
      moreover have "v' = y + (k' - x)" using 2 n(2) that(4) by simp
      ultimately have "ms ! k = Some v" "v' = y + (k' - x)" .
      with below [OF k] show ?thesis by fastforce
    next
      case 3
      have "ms ! k' = Some v'" using that(4) unfolding n(2) if_not_P [OF 3(2)] .
      with none [of k'] 3(1) that(1,2) show ?thesis by simp
    next
      case 4
      have "ms ! k = Some v" using that(3) unfolding n(1) if_not_P [OF 4(1)] .
      moreover have "ms ! k' = Some v'" using that(4) unfolding n(2) if_not_P [OF 4(2)] .
      ultimately show ?thesis by (rule m)
    qed
  qed
  ultimately have "matches_ok a b ?ms" unfolding matches_ok_def by blast
  moreover have "\<forall>k < length a. x + n \<le> k \<longrightarrow> ?ms ! k = None" using nth none f(1) by auto
  moreover have "v < y + n" if "k < length a" "?ms ! k = Some v" for k v
    using that nth [OF that(1)] below [OF that(1)] by (fastforce split: if_splits)
  ultimately show ?case using Cons.IH [OF f(6)] blk by simp
qed simp

lemma review_matches_ok: "differ_ok df \<Longrightarrow> matches_ok a b (review_matches df a b)"
  unfolding review_matches_def
  by (rule blocks_matches [OF differ_okD(4)]) (auto simp: matches_ok_def)

section \<open>Positions\<close>

text \<open>A position of the loop: every match from here on lies ahead on both sides.\<close>

definition ahead :: "nat option list \<Rightarrow> nat \<Rightarrow> nat \<Rightarrow> bool" where
  "ahead ms i j \<longleftrightarrow> (\<forall>k y. i \<le> k \<longrightarrow> k < length ms \<longrightarrow> ms ! k = Some y \<longrightarrow> j \<le> y)"

lemma aheadD: "ahead ms i j \<Longrightarrow> i \<le> k \<Longrightarrow> k < length ms \<Longrightarrow> ms ! k = Some y \<Longrightarrow> j \<le> y"
  by (simp add: ahead_def)

definition tw_ok :: "three_way \<Rightarrow> bool" where
  "tw_ok w \<longleftrightarrow> matches_ok (tw_base w) (tw_ours w) (tw_match_ours w)
     \<and> matches_ok (tw_base w) (tw_theirs w) (tw_match_theirs w)"

definition point_ok :: "three_way \<Rightarrow> merge_point \<Rightarrow> bool" where
  "point_ok w p \<longleftrightarrow> mp_base p \<le> length (tw_base w) \<and> mp_ours p \<le> length (tw_ours w)
     \<and> mp_theirs p \<le> length (tw_theirs w)
     \<and> ahead (tw_match_ours w) (mp_base p) (mp_ours p) \<and> ahead (tw_match_theirs w) (mp_base p) (mp_theirs p)"

definition remaining :: "three_way \<Rightarrow> merge_point \<Rightarrow> nat" where
  "remaining w p = (length (tw_base w) - mp_base p) + (length (tw_ours w) - mp_ours p)
     + (length (tw_theirs w) - mp_theirs p)"

section \<open>Chunks\<close>

text \<open>The three sides of a chunk, its resolution and whether it conflicts.\<close>

type_synonym chunk = "string list \<times> string list \<times> string list"

fun clash :: "chunk \<Rightarrow> bool" where
  "clash (b, u, v) \<longleftrightarrow> u \<noteq> b \<and> v \<noteq> b \<and> u \<noteq> v"

fun resolve_chunk :: "string \<Rightarrow> chunk \<Rightarrow> string list" where
  "resolve_chunk label (b, u, v) =
     (if u = b then v else if v = b then u else if u = v then u else conflict_lines [] u v label)"

definition explained :: "three_way \<Rightarrow> merge_point \<Rightarrow> chunk list \<Rightarrow> bool" where
  "explained w p cs \<longleftrightarrow> concat (map fst cs) = take (mp_base p) (tw_base w)
     \<and> concat (map (\<lambda>c. fst (snd c)) cs) = take (mp_ours p) (tw_ours w)
     \<and> concat (map (\<lambda>c. snd (snd c)) cs) = take (mp_theirs p) (tw_theirs w)
     \<and> concat (map (resolve_chunk (tw_label w)) cs) = mp_output p
     \<and> length (filter clash cs) = mp_conflicts p"

lemma append_terminated_append: "append_terminated (xs @ ys) ls = xs @ append_terminated ys ls"
  by (auto simp: append_terminated_def Let_def butlast_append)

lemma conflict_lines_append: "conflict_lines out u v label = out @ conflict_lines [] u v label"
  unfolding conflict_lines_def
  using append_terminated_append [of out "[''<<<<<<< workspace'' @ [newline]]" u]
    append_terminated_append [of out "append_terminated [''<<<<<<< workspace'' @ [newline]] u @ [''======='' @ [newline]]" v]
  by simp

section \<open>The common lines\<close>

lemma common_run_spec:
  "common_run ls mo mt b u v \<le> length ls
   \<and> (\<forall>k < common_run ls mo mt b u v. mo ! (b + k) = Some (u + k) \<and> mt ! (b + k) = Some (v + k))
   \<and> (common_run ls mo mt b u v < length ls \<longrightarrow>
        \<not> (mo ! (b + common_run ls mo mt b u v) = Some (u + common_run ls mo mt b u v)
           \<and> mt ! (b + common_run ls mo mt b u v) = Some (v + common_run ls mo mt b u v)))"
proof (induction ls mo mt b u v rule: common_run.induct)
  case (2 l ls mo mt b u v)
  show ?case
  proof (cases "mo ! b = Some u \<and> mt ! b = Some v")
    case True
    have "mo ! (b + k) = Some (u + k) \<and> mt ! (b + k) = Some (v + k)"
      if "k < Suc (common_run ls mo mt (Suc b) (Suc u) (Suc v))" for k
      using that True 2 [OF True] by (cases k) simp_all
    with True 2 [OF True] show ?thesis by simp
  qed auto
qed simp

text \<open>A run of matched lines on one side.\<close>

lemma matched_run:
  assumes "matches_ok base other ms" and "\<forall>k < n. ms ! (b + k) = Some (u + k)" and "b + n \<le> length base"
    and "ahead ms b u" and "u \<le> length other"
  shows "u + n \<le> length other" and "segment other u (u + n) = segment base b (b + n)"
    and "ahead ms (b + n) (u + n)"
proof -
  have l: "length ms = length base" using assms(1) by (rule matches_length)
  have at: "u + k < length other \<and> other ! (u + k) = base ! (b + k)" if "k < n" for k
    using assms(1-3) that unfolding matches_ok_def by (metis add_less_cancel_left less_le_trans)
  show n: "u + n \<le> length other"
    using at [of "n - 1"] assms(5) by (cases n) simp_all
  show "segment other u (u + n) = segment base b (b + n)"
    using n assms(3) at by (intro nth_equalityI) (simp_all add: segment_length segment_nth)
  show "ahead ms (b + n) (u + n)"
    unfolding ahead_def
  proof (intro allI impI)
    fix k y
    assume k: "b + n \<le> k" "k < length ms" "ms ! k = Some y"
    show "u + n \<le> y"
    proof (cases n)
      case 0
      with k assms(4) show ?thesis by (auto simp: ahead_def)
    next
      case (Suc m)
      have "ms ! (b + m) = Some (u + m)" using assms(2) Suc by simp
      moreover have "b + m < k" "k < length base" using k Suc l by simp_all
      ultimately have "u + m < y" using assms(1) k(3) unfolding matches_ok_def by blast
      with Suc show ?thesis by simp
    qed
  qed
qed

section \<open>The loop\<close>

definition at_common :: "three_way \<Rightarrow> merge_point \<Rightarrow> bool" where
  "at_common w p \<longleftrightarrow> mp_base p < length (tw_base w)
     \<and> tw_match_ours w ! mp_base p = Some (mp_ours p) \<and> tw_match_theirs w ! mp_base p = Some (mp_theirs p)"

lemma explained_step:
  assumes "explained w p cs" and "mp_base p \<le> b" and "mp_ours p \<le> u" and "mp_theirs p \<le> v"
    and "c = (segment (tw_base w) (mp_base p) b, segment (tw_ours w) (mp_ours p) u, segment (tw_theirs w) (mp_theirs p) v)"
    and "p' = p\<lparr>mp_base := b, mp_ours := u, mp_theirs := v, mp_output := mp_output p @ resolve_chunk (tw_label w) c,
           mp_conflicts := mp_conflicts p + (if clash c then 1 else 0)\<rparr>"
  shows "explained w p' (cs @ [c])"
  using assms by (simp add: explained_def segment_take_drop)

lemma copy_common_ok:
  assumes w: "tw_ok w" and p: "point_ok w p" and e: "explained w p cs"
  shows "point_ok w (copy_common w p)" and "\<exists>c. explained w (copy_common w p) (cs @ [c])"
    and "remaining w (copy_common w p) \<le> remaining w p" and "\<not> at_common w (copy_common w p)"
proof -
  define n where "n = common_run (drop (mp_base p) (tw_base w)) (tw_match_ours w) (tw_match_theirs w)
                (mp_base p) (mp_ours p) (mp_theirs p)"
  note spec = common_run_spec [of "drop (mp_base p) (tw_base w)" "tw_match_ours w" "tw_match_theirs w"
      "mp_base p" "mp_ours p" "mp_theirs p", folded n_def]
  let ?b = "mp_base p + n" and ?u = "mp_ours p + n" and ?v = "mp_theirs p + n"
  let ?seg = "segment (tw_base w) (mp_base p) ?b"
  have p': "copy_common w p = p\<lparr>mp_base := ?b, mp_ours := ?u, mp_theirs := ?v, mp_output := mp_output p @ ?seg\<rparr>"
    by (simp add: copy_common_def Let_def flip: n_def)
  have "n \<le> length (tw_base w) - mp_base p" using spec by simp
  then have b: "?b \<le> length (tw_base w)" using p unfolding point_ok_def by linarith
  have mo: "matches_ok (tw_base w) (tw_ours w) (tw_match_ours w)" and mt: "matches_ok (tw_base w) (tw_theirs w) (tw_match_theirs w)"
    using w by (simp_all add: tw_ok_def)
  have run: "\<forall>k<n. tw_match_ours w ! (mp_base p + k) = Some (mp_ours p + k)"
      "\<forall>k<n. tw_match_theirs w ! (mp_base p + k) = Some (mp_theirs p + k)" using spec by simp_all
  have pp: "ahead (tw_match_ours w) (mp_base p) (mp_ours p)" "mp_ours p \<le> length (tw_ours w)"
      "ahead (tw_match_theirs w) (mp_base p) (mp_theirs p)" "mp_theirs p \<le> length (tw_theirs w)"
    using p by (simp_all add: point_ok_def)
  note u = matched_run [OF mo run(1) b pp(1,2)] and v = matched_run [OF mt run(2) b pp(3,4)]
  show "point_ok w (copy_common w p)" using b u v by (simp add: p' point_ok_def)
  show "remaining w (copy_common w p) \<le> remaining w p" by (simp add: p' remaining_def)
  show "\<not> at_common w (copy_common w p)"
    using spec b by (auto simp: p' at_common_def)
  have "explained w (copy_common w p) (cs @ [(?seg, segment (tw_ours w) (mp_ours p) ?u, segment (tw_theirs w) (mp_theirs p) ?v)])"
    by (rule explained_step [OF e, of ?b ?u ?v]) (simp_all add: p' u(2) v(2))
  then show "\<exists>c. explained w (copy_common w p) (cs @ [c])" ..
qed

lemma next_matched_cases:
  assumes "b \<le> length base"
  obtains (ends) "next_matched base mo mt b = length base"
  | (matched) k x y where "next_matched base mo mt b = k" "b \<le> k" "k < length base" "mo ! k = Some x" "mt ! k = Some y"
proof (cases "find (\<lambda>k. mo ! k \<noteq> None \<and> mt ! k \<noteq> None) [b..<length base]")
  case None
  then show ?thesis using ends by (simp add: next_matched_def)
next
  case (Some k)
  then have "next_matched base mo mt b = k" unfolding next_matched_def by simp
  moreover have "b \<le> k" "k < length base" "mo ! k \<noteq> None" "mt ! k \<noteq> None"
    using Some unfolding find_Some_iff by (auto simp: nth_upt)
  ultimately show ?thesis using matched by blast
qed

lemma ahead_matched:
  assumes "matches_ok base other ms" and "k < length base" and "ms ! k = Some y"
  shows "ahead ms k y" and "y < length other"
proof -
  have l: "length ms = length base" using assms(1) by (rule matches_length)
  show "ahead ms k y"
    unfolding ahead_def
  proof (intro allI impI)
    fix i z
    assume i: "k \<le> i" "i < length ms" "ms ! i = Some z"
    show "y \<le> z"
    proof (cases "i = k")
      case False
      with i l assms(1,3) have "y < z" unfolding matches_ok_def by (metis le_neq_implies_less)
      then show ?thesis by simp
    qed (use i assms(3) in simp)
  qed
  show "y < length other" using assms unfolding matches_ok_def by blast
qed

lemma merge_chunk_ok:
  assumes w: "tw_ok w" and p: "point_ok w p" and e: "explained w p cs"
    and stuck: "\<not> at_common w p" and going: "\<not> at_ends w p"
  shows "point_ok w (merge_chunk w p)" and "\<exists>c. explained w (merge_chunk w p) (cs @ [c])"
    and "remaining w (merge_chunk w p) < remaining w p"
proof -
  let ?next = "next_matched (tw_base w) (tw_match_ours w) (tw_match_theirs w) (mp_base p)"
  define b where "b = ?next"
  define u where "u = (if ?next < length (tw_base w) then the (tw_match_ours w ! ?next) else length (tw_ours w))"
  define v where "v = (if ?next < length (tw_base w) then the (tw_match_theirs w ! ?next) else length (tw_theirs w))"
  have mo: "matches_ok (tw_base w) (tw_ours w) (tw_match_ours w)" and mt: "matches_ok (tw_base w) (tw_theirs w) (tw_match_theirs w)"
    using w by (simp_all add: tw_ok_def)
  have pp: "mp_base p \<le> length (tw_base w)" "mp_ours p \<le> length (tw_ours w)" "mp_theirs p \<le> length (tw_theirs w)"
      "ahead (tw_match_ours w) (mp_base p) (mp_ours p)" "ahead (tw_match_theirs w) (mp_base p) (mp_theirs p)"
    using p by (simp_all add: point_ok_def)
  have len: "length (tw_match_ours w) = length (tw_base w)" "length (tw_match_theirs w) = length (tw_base w)"
    using mo mt by (simp_all add: matches_length)
  have facts: "mp_base p \<le> b \<and> b \<le> length (tw_base w) \<and> mp_ours p \<le> u \<and> u \<le> length (tw_ours w)
      \<and> mp_theirs p \<le> v \<and> v \<le> length (tw_theirs w) \<and> ahead (tw_match_ours w) b u \<and> ahead (tw_match_theirs w) b v
      \<and> (mp_base p < b \<or> mp_ours p < u \<or> mp_theirs p < v)"
    using pp(1)
  proof (cases rule: next_matched_cases [of "mp_base p" "tw_base w" "tw_match_ours w" "tw_match_theirs w"])
    case ends
    then have "b = length (tw_base w)" "u = length (tw_ours w)" "v = length (tw_theirs w)"
      by (simp_all add: b_def u_def v_def)
    moreover have "mp_base p < b \<or> mp_ours p < u \<or> mp_theirs p < v"
      using calculation pp(1-3) going unfolding at_ends_def by linarith
    ultimately show ?thesis using pp(1-3) len unfolding ahead_def by simp
  next
    case (matched k x y)
    then have k: "b = k" "u = x" "v = y" by (simp_all add: b_def u_def v_def)
    have "mp_ours p \<le> x" "mp_theirs p \<le> y"
      using aheadD [OF pp(4) matched(2)] aheadD [OF pp(5) matched(2)] matched(3-5) len by simp_all
    moreover have "mp_base p < k \<or> mp_ours p < x \<or> mp_theirs p < y"
    proof (rule ccontr)
      assume "\<not> ?thesis"
      with calculation matched(2) have "mp_base p = k" "mp_ours p = x" "mp_theirs p = y" by simp_all
      with matched stuck show False by (simp add: at_common_def)
    qed
    ultimately show ?thesis
      using matched k ahead_matched [OF mo matched(3,4)] ahead_matched [OF mt matched(3,5)] by simp
  qed
  define c where "c = (segment (tw_base w) (mp_base p) b, segment (tw_ours w) (mp_ours p) u, segment (tw_theirs w) (mp_theirs p) v)"
  have p': "merge_chunk w p = p\<lparr>mp_base := b, mp_ours := u, mp_theirs := v,
      mp_output := mp_output p @ resolve_chunk (tw_label w) c, mp_conflicts := mp_conflicts p + (if clash c then 1 else 0)\<rparr>"
    unfolding merge_chunk_def Let_def c_def b_def u_def v_def
    by (auto simp: conflict_lines_append [of "mp_output p"])
  show "point_ok w (merge_chunk w p)" using facts by (simp add: p' point_ok_def)
  show "remaining w (merge_chunk w p) < remaining w p" using facts by (auto simp: p' remaining_def)
  have "explained w (merge_chunk w p) (cs @ [c])"
    by (rule explained_step [OF e _ _ _ c_def p']) (use facts in simp_all)
  then show "\<exists>c. explained w (merge_chunk w p) (cs @ [c])" ..
qed

lemma merge_loop_explained:
  assumes w: "tw_ok w"
  shows "point_ok w p \<Longrightarrow> explained w p cs \<Longrightarrow> remaining w p < fuel
    \<Longrightarrow> \<exists>p' cs'. merge_loop fuel w p = Some (mp_output p', mp_conflicts p') \<and> at_ends w p' \<and> explained w p' cs'"
proof (induction fuel arbitrary: p cs)
  case (Suc fuel)
  let ?p = "copy_common w p"
  note c = copy_common_ok [OF w Suc.prems(1,2)]
  from c(2) obtain c1 where e: "explained w ?p (cs @ [c1])" ..
  show ?case
  proof (cases "at_ends w ?p")
    case True
    with e show ?thesis by (auto simp: Let_def)
  next
    case False
    note m = merge_chunk_ok [OF w c(1) e c(4) False]
    from m(2) obtain c2 where e2: "explained w (merge_chunk w ?p) ((cs @ [c1]) @ [c2])" ..
    have "remaining w (merge_chunk w ?p) < fuel" using m(3) c(3) Suc.prems(3) by simp
    from Suc.IH [OF m(1) e2 this] False show ?thesis by (simp add: Let_def)
  qed
qed simp

lemma merge_lines_explained:
  assumes "differ_ok df"
  shows "\<exists>cs. merge_lines df base ours theirs label =
      Some (concat (map (resolve_chunk label) cs), length (filter clash cs))
    \<and> concat (map fst cs) = base \<and> concat (map (\<lambda>c. fst (snd c)) cs) = ours
    \<and> concat (map (\<lambda>c. snd (snd c)) cs) = theirs"
proof -
  let ?w = "\<lparr>tw_base = base, tw_ours = ours, tw_theirs = theirs, tw_label = label,
        tw_match_ours = review_matches df base ours, tw_match_theirs = review_matches df base theirs\<rparr>"
  let ?p = "\<lparr>mp_base = 0, mp_ours = 0, mp_theirs = 0, mp_output = [], mp_conflicts = 0\<rparr>"
  have "tw_ok ?w" using review_matches_ok [OF assms] by (simp add: tw_ok_def)
  moreover have "point_ok ?w ?p" by (simp add: point_ok_def ahead_def)
  moreover have "explained ?w ?p []" by (simp add: explained_def)
  moreover have "remaining ?w ?p < length base + length ours + length theirs + 1" by (simp add: remaining_def)
  ultimately obtain p' cs where
    r: "merge_loop (length base + length ours + length theirs + 1) ?w ?p = Some (mp_output p', mp_conflicts p')"
       "at_ends ?w p'" "explained ?w p' cs"
    using merge_loop_explained by blast
  then show ?thesis by (intro exI [of _ cs]) (simp add: merge_lines_def explained_def at_ends_def)
qed

section \<open>Both sides alike\<close>

definition alike :: "three_way \<Rightarrow> merge_point \<Rightarrow> bool" where
  "alike w p \<longleftrightarrow> mp_ours p = mp_theirs p \<and> mp_output p = take (mp_ours p) (tw_ours w) \<and> mp_conflicts p = 0"

lemma alike_steps:
  assumes "tw_theirs w = tw_ours w" and "tw_match_theirs w = tw_match_ours w" and w: "tw_ok w"
    and p: "point_ok w p" and "alike w p"
  shows "alike w (copy_common w p)" and "\<not> at_common w p \<Longrightarrow> \<not> at_ends w p \<Longrightarrow> alike w (merge_chunk w p)"
proof -
  define n where "n = common_run (drop (mp_base p) (tw_base w)) (tw_match_ours w) (tw_match_theirs w)
                (mp_base p) (mp_ours p) (mp_theirs p)"
  note spec = common_run_spec [of "drop (mp_base p) (tw_base w)" "tw_match_ours w" "tw_match_theirs w"
      "mp_base p" "mp_ours p" "mp_theirs p", folded n_def]
  have "n \<le> length (tw_base w) - mp_base p" using spec by simp
  then have "mp_base p + n \<le> length (tw_base w)" using p unfolding point_ok_def by linarith
  then have "segment (tw_ours w) (mp_ours p) (mp_ours p + n) = segment (tw_base w) (mp_base p) (mp_base p + n)"
    by (intro matched_run(2) [of _ _ "tw_match_ours w"])
      (use spec p w in \<open>simp_all add: tw_ok_def point_ok_def\<close>)
  then show "alike w (copy_common w p)"
    using assms(5) segment_take_drop [of "mp_ours p" "mp_ours p + n" "tw_ours w"]
    unfolding copy_common_def Let_def n_def [symmetric] by (simp add: alike_def)
  assume "\<not> at_common w p" "\<not> at_ends w p"
  let ?next = "next_matched (tw_base w) (tw_match_ours w) (tw_match_theirs w) (mp_base p)"
  define u where "u = (if ?next < length (tw_base w) then the (tw_match_ours w ! ?next) else length (tw_ours w))"
  have pp: "mp_base p \<le> length (tw_base w)" "mp_ours p \<le> length (tw_ours w)" "ahead (tw_match_ours w) (mp_base p) (mp_ours p)"
    using p by (simp_all add: point_ok_def)
  have len: "length (tw_match_ours w) = length (tw_base w)" using w matches_length unfolding tw_ok_def by blast
  have le: "mp_ours p \<le> u"
    using pp(1)
  proof (cases rule: next_matched_cases [of "mp_base p" "tw_base w" "tw_match_ours w" "tw_match_theirs w"])
    case ends
    with pp(2) show ?thesis by (simp add: u_def)
  next
    case (matched k x y)
    with aheadD [OF pp(3) matched(2)] len show ?thesis by (simp add: u_def)
  qed
  then show "alike w (merge_chunk w p)"
    using assms(1,2,5) segment_take_drop [OF le, of "tw_ours w"]
    by (auto simp: merge_chunk_def alike_def Let_def u_def)
qed

lemma merge_loop_alike:
  assumes w: "tw_ok w" and same: "tw_theirs w = tw_ours w" "tw_match_theirs w = tw_match_ours w"
  shows "point_ok w p \<Longrightarrow> explained w p cs \<Longrightarrow> alike w p
    \<Longrightarrow> merge_loop fuel w p = Some (out, n) \<Longrightarrow> out = tw_ours w \<and> n = 0"
proof (induction fuel arbitrary: p cs)
  case (Suc fuel)
  let ?p = "copy_common w p"
  note c = copy_common_ok [OF w Suc.prems(1,2)] and a = alike_steps(1) [OF same w Suc.prems(1,3)]
  from c(2) obtain c1 where e: "explained w ?p (cs @ [c1])" ..
  show ?case
  proof (cases "at_ends w ?p")
    case True
    with a Suc.prems(4) show ?thesis by (auto simp: Let_def alike_def at_ends_def)
  next
    case False
    note m = merge_chunk_ok [OF w c(1) e c(4) False]
    from m(2) obtain c2 where e2: "explained w (merge_chunk w ?p) ((cs @ [c1]) @ [c2])" ..
    have "alike w (merge_chunk w ?p)" by (rule alike_steps(2) [OF same w c(1) a c(4) False])
    from Suc.IH [OF m(1) e2 this] False Suc.prems(4) show ?thesis by (simp add: Let_def)
  qed
qed simp

lemma merge_lines_alike:
  assumes "differ_ok df"
  shows "merge_lines df base ours ours label = Some (ours, 0)"
proof -
  let ?w = "\<lparr>tw_base = base, tw_ours = ours, tw_theirs = ours, tw_label = label,
        tw_match_ours = review_matches df base ours, tw_match_theirs = review_matches df base ours\<rparr>"
  let ?p = "\<lparr>mp_base = 0, mp_ours = 0, mp_theirs = 0, mp_output = [], mp_conflicts = 0\<rparr>"
  have w: "tw_ok ?w" using review_matches_ok [OF assms] by (simp add: tw_ok_def)
  have "point_ok ?w ?p" "explained ?w ?p []" "alike ?w ?p"
    by (simp_all add: point_ok_def ahead_def explained_def alike_def)
  moreover obtain out n where r: "merge_lines df base ours ours label = Some (out, n)"
    using merge_lines_explained [OF assms] by metis
  moreover from r have "merge_loop (length base + length ours + length ours + 1) ?w ?p = Some (out, n)"
    by (simp only: merge_lines_def)
  ultimately have "out = tw_ours ?w \<and> n = 0"
    using merge_loop_alike [OF w, of ?p "[]" "length base + length ours + length ours + 1" out n] by simp
  with r show ?thesis by simp
qed

section \<open>Merging a capture returns\<close>

lemma merge_lines_returns: "differ_ok df \<Longrightarrow> \<exists>out n. merge_lines df base ours theirs label = Some (out, n)"
  using merge_lines_explained by metis

lemma merge_anchored_returns:
  "differ_ok df \<Longrightarrow> \<exists>st'. merge_anchored df lines froms tos start label r st = Some st'"
proof -
  assume df: "differ_ok df"
  obtain out n where "merge_lines df (segment froms (an_base_start r) (an_base_end r)) (segment lines (an_first r) (an_last r))
      (segment tos (an_base_start r) (length tos - (length froms - an_base_end r))) label = Some (out, n)"
    using merge_lines_returns [OF df] by blast
  then show ?thesis by (simp add: merge_anchored_def Let_def)
qed

lemma merge_drifted_returns:
  "differ_ok df \<Longrightarrow> \<exists>st'. merge_drifted df lines froms tos start runs expected label h st = Some st'"
  using merge_anchored_returns by (auto simp: merge_drifted_def split: option.splits)

lemma merge_hunk_returns: "differ_ok df \<Longrightarrow> \<exists>st'. merge_hunk df lines reverse label h st = Some st'"
  using merge_drifted_returns by (auto simp: merge_hunk_def Let_def split: option.splits prod.splits)

lemma merge_hunks_returns: "differ_ok df \<Longrightarrow> \<exists>st'. merge_hunks df lines reverse label hs st = Some st'"
proof (induction hs arbitrary: st)
  case (Cons h hs)
  from merge_hunk_returns [OF Cons.prems] obtain st1 where "merge_hunk df lines reverse label h st = Some st1" by blast
  with Cons show ?case by simp
qed simp

lemma merge_review_returns: "differ_ok df \<Longrightarrow> \<exists>r. merge_review df f current reverse label = Some r"
proof -
  assume df: "differ_ok df"
  have "\<exists>st. merge_hunks df (review_lines current) reverse label hs initial_merge = Some st" for hs
    by (rule merge_hunks_returns [OF df])
  then show ?thesis
    by (auto simp: merge_review_def Let_def split: sum.splits option.splits) (metis option.distinct(1))
qed

end
