(* ===== verification/Diff_Grouping.thy ===== *)
theory Diff_Grouping
  imports Diff_Review "HOL-Library.Multiset"
begin

text \<open>
  The grouping of captures by file, \<open>GroupFiles\<close>: the invariant of its loop.  A group holds
  the indices of its captures in order, each capture continues the one before it, and the two
  maps name the groups whose last capture left a file at a path or removed it.
\<close>

definition capture_key :: "review_file \<Rightarrow> string" where
  "capture_key f = (if rf_before_path f = '''' then rf_after_path f else rf_before_path f)"

definition latest_name :: "review_file \<Rightarrow> string" where
  "latest_name f = (if rf_after_path f = '''' then rf_before_path f else rf_after_path f)"

text \<open>The later capture takes the file where the earlier one left it, or creates it again.\<close>

definition continues :: "review_file \<Rightarrow> review_file \<Rightarrow> bool" where
  "continues f h \<longleftrightarrow>
     (if rf_after_path f \<noteq> '''' then capture_key h = rf_after_path f
      else rf_before_path h = '''' \<and> rf_after_path h = rf_before_path f)"

definition named :: "review_file \<Rightarrow> bool" where
  "named f \<longleftrightarrow> rf_before_path f \<noteq> '''' \<or> rf_after_path f \<noteq> ''''"

definition trail_ok :: "review_file list \<Rightarrow> nat \<Rightarrow> file_group \<Rightarrow> bool" where
  "trail_ok fs n fg \<longleftrightarrow> fg_captures fg \<noteq> [] \<and> sorted_wrt (<) (fg_captures fg)
     \<and> (\<forall>k \<in> set (fg_captures fg). k < n)
     \<and> successively (\<lambda>x y. continues (fs ! x) (fs ! y)) (fg_captures fg)
     \<and> fg_path fg = latest_name (fs ! last (fg_captures fg))"

abbreviation final_capture :: "review_file list \<Rightarrow> grouping \<Rightarrow> nat \<Rightarrow> review_file" where
  "final_capture fs g i \<equiv> fs ! last (fg_captures (gr_files g ! i))"

definition grouped :: "review_file list \<Rightarrow> nat \<Rightarrow> grouping \<Rightarrow> bool" where
  "grouped fs n g \<longleftrightarrow>
     (\<forall>i < length (gr_files g). trail_ok fs n (gr_files g ! i))
     \<and> mset (concat (map fg_captures (gr_files g))) = mset [0..<n]
     \<and> (\<forall>p i. alist_get (gr_current g) p = Some i \<longrightarrow>
          p \<noteq> '''' \<and> i < length (gr_files g) \<and> rf_after_path (final_capture fs g i) = p)
     \<and> (\<forall>p i. alist_get (gr_deleted g) p = Some i \<longrightarrow>
          p \<noteq> '''' \<and> i < length (gr_files g) \<and> rf_after_path (final_capture fs g i) = ''''
          \<and> rf_before_path (final_capture fs g i) = p)"

text \<open>The state once the group of the next capture is found.\<close>

definition slotted :: "review_file list \<Rightarrow> nat \<Rightarrow> review_file \<Rightarrow> grouping \<Rightarrow> nat \<Rightarrow> bool" where
  "slotted fs n f g i \<longleftrightarrow> i < length (gr_files g)
     \<and> (\<forall>j < length (gr_files g). j \<noteq> i \<longrightarrow> trail_ok fs n (gr_files g ! j))
     \<and> (gr_files g ! i = \<lparr>fg_path = capture_key f, fg_captures = []\<rparr>
        \<or> trail_ok fs n (gr_files g ! i) \<and> continues (final_capture fs g i) f)
     \<and> mset (concat (map fg_captures (gr_files g))) = mset [0..<n]
     \<and> (\<forall>p j. alist_get (gr_current g) p = Some j \<longrightarrow> p \<noteq> '''' \<and> j < length (gr_files g)
          \<and> (if j = i then p = capture_key f else rf_after_path (final_capture fs g j) = p))
     \<and> (\<forall>p j. alist_get (gr_deleted g) p = Some j \<longrightarrow> p \<noteq> '''' \<and> j < length (gr_files g)
          \<and> (if j = i then rf_before_path f = '''' \<and> rf_after_path f = p
             else rf_after_path (final_capture fs g j) = '''' \<and> rf_before_path (final_capture fs g j) = p))"

lemma group_slot_ok:
  assumes g: "grouped fs n g" and f: "named f" and slot: "group_slot g f = (g', i)"
  shows "slotted fs n f g' i"
proof -
  let ?path = "capture_key f"
  have key: "?path \<noteq> ''''" using f by (auto simp: named_def capture_key_def)
  have cur: "p \<noteq> ''''" "j < length (gr_files g)" "rf_after_path (final_capture fs g j) = p"
    if "alist_get (gr_current g) p = Some j" for p j using g that unfolding grouped_def by blast+
  have del: "p \<noteq> ''''" "j < length (gr_files g)" "rf_after_path (final_capture fs g j) = ''''"
      "rf_before_path (final_capture fs g j) = p"
    if "alist_get (gr_deleted g) p = Some j" for p j using g that unfolding grouped_def by blast+
  have trail: "\<forall>j < length (gr_files g). trail_ok fs n (gr_files g ! j)"
    and parts: "mset (concat (map fg_captures (gr_files g))) = mset [0..<n]"
    using g unfolding grouped_def by blast+
  define found where "found = (if rf_before_path f = '''' \<and> alist_get (gr_deleted g) ?path \<noteq> None
      then alist_get (gr_deleted g) ?path else alist_get (gr_current g) ?path)"
  have s: "group_slot g f = (case found of Some i \<Rightarrow> (g, i)
      | None \<Rightarrow> (g\<lparr>gr_files := gr_files g @ [\<lparr>fg_path = ?path, fg_captures = []\<rparr>],
                   gr_current := alist_put ?path (length (gr_files g)) (gr_current g)\<rparr>, length (gr_files g)))"
    unfolding group_slot_def found_def capture_key_def Let_def by (rule refl)
  consider (removed) "rf_before_path f = ''''" "alist_get (gr_deleted g) ?path = Some i" "g' = g"
    | (present) "alist_get (gr_current g) ?path = Some i" "g' = g"
    | (fresh) "i = length (gr_files g)" "g' = g\<lparr>gr_files := gr_files g @ [\<lparr>fg_path = ?path, fg_captures = []\<rparr>],
        gr_current := alist_put ?path i (gr_current g)\<rparr>"
  proof (cases found)
    case None
    with slot s have "i = length (gr_files g)" "g' = g\<lparr>gr_files := gr_files g @ [\<lparr>fg_path = ?path, fg_captures = []\<rparr>],
        gr_current := alist_put ?path (length (gr_files g)) (gr_current g)\<rparr>" by auto
    then show ?thesis using fresh by blast
  next
    case (Some k)
    then have k: "k = i" "g' = g" using slot s by simp_all
    show ?thesis
    proof (cases "rf_before_path f = '''' \<and> alist_get (gr_deleted g) ?path \<noteq> None")
      case True
      then have "found = alist_get (gr_deleted g) ?path" unfolding found_def by (rule if_P)
      with Some k True removed show ?thesis by simp
    next
      case False
      then have "found = alist_get (gr_current g) ?path" unfolding found_def by (rule if_not_P)
      with Some k present show ?thesis by simp
    qed
  qed
  then show ?thesis
  proof cases
    case removed
    note d = del [OF removed(2)]
    have "continues (final_capture fs g i) f"
      using d removed(1) by (simp add: continues_def capture_key_def)
    moreover have "p = ?path" if "alist_get (gr_current g) p = Some i" for p using cur [OF that] d(3) by simp
    moreover have "rf_after_path f = p" if "alist_get (gr_deleted g) p = Some i" for p
      using del(4) [OF that] d(4) removed(1) by (simp add: capture_key_def)
    ultimately show ?thesis
      unfolding slotted_def removed(3) using cur del trail parts d(2) removed(1) by simp
  next
    case present
    note c = cur [OF present(1)]
    have "continues (final_capture fs g i) f" using c by (simp add: continues_def)
    moreover have "p = ?path" if "alist_get (gr_current g) p = Some i" for p using cur [OF that] c by simp
    moreover have "alist_get (gr_deleted g) p \<noteq> Some i" for p using del [of p i] c(1,3) by auto
    ultimately show ?thesis
      unfolding slotted_def present(2) using cur del trail parts c(2) by simp
  next
    case fresh
    have cur': "p \<noteq> '''' \<and> j < length (gr_files g')
        \<and> (if j = i then p = ?path else rf_after_path (final_capture fs g' j) = p)"
      if "alist_get (gr_current g') p = Some j" for p j
    proof (cases "p = ?path")
      case True
      with that fresh key show ?thesis by simp
    next
      case False
      then have o: "alist_get (gr_current g) p = Some j" using that fresh by simp
      from cur [OF o] fresh show ?thesis by (simp add: nth_append)
    qed
    have del': "p \<noteq> '''' \<and> j < length (gr_files g')
        \<and> (if j = i then rf_before_path f = '''' \<and> rf_after_path f = p
           else rf_after_path (final_capture fs g' j) = '''' \<and> rf_before_path (final_capture fs g' j) = p)"
      if "alist_get (gr_deleted g') p = Some j" for p j
    proof -
      have o: "alist_get (gr_deleted g) p = Some j" using that fresh by simp
      from del [OF o] fresh show ?thesis by (simp add: nth_append)
    qed
    have "i < length (gr_files g')" "gr_files g' ! i = \<lparr>fg_path = ?path, fg_captures = []\<rparr>"
      using fresh by simp_all
    moreover have "trail_ok fs n (gr_files g' ! j)" if "j < length (gr_files g')" "j \<noteq> i" for j
      using trail that fresh by (simp add: nth_append)
    moreover have "mset (concat (map fg_captures (gr_files g'))) = mset [0..<n]" using parts fresh by simp
    ultimately show ?thesis
      unfolding slotted_def using cur' del' by blast
  qed
qed

lemma concat_append_at:
  assumes "i < length xs" and "g (h (xs ! i)) = g (xs ! i) @ [a]"
  shows "mset (concat (map g (xs[i := h (xs ! i)]))) = add_mset a (mset (concat (map g xs)))"
proof -
  have "mset (concat (map g (take i xs @ xs ! i # drop (Suc i) xs))) = mset (concat (map g xs))"
    by (simp add: id_take_nth_drop [OF assms(1), symmetric])
  then show ?thesis using assms by (simp add: upd_conv_take_nth_drop)
qed

text \<open>What the rest of the step does with the group found.\<close>

definition extend_group :: "string \<Rightarrow> nat \<Rightarrow> file_group \<Rightarrow> file_group" where
  "extend_group path n fg = fg\<lparr>fg_path := path, fg_captures := fg_captures fg @ [n]\<rparr>"

lemma extend_group_ok:
  assumes "fg = \<lparr>fg_path = capture_key f, fg_captures = []\<rparr> \<or> trail_ok fs n fg \<and> continues (fs ! last (fg_captures fg)) f"
    and "fs ! n = f"
  shows "trail_ok fs (Suc n) (extend_group (latest_name f) n fg)"
  using assms(1)
proof
  assume "fg = \<lparr>fg_path = capture_key f, fg_captures = []\<rparr>"
  then show ?thesis using assms(2) by (simp add: trail_ok_def extend_group_def)
next
  assume t: "trail_ok fs n fg \<and> continues (fs ! last (fg_captures fg)) f"
  then show ?thesis
    using assms(2) by (auto simp: trail_ok_def extend_group_def sorted_wrt_append successively_append_iff less_Suc_eq)
qed

lemma trail_ok_mono: "trail_ok fs n fg \<Longrightarrow> trail_ok fs (Suc n) fg"
  by (auto simp: trail_ok_def less_Suc_eq)

lemma slot_path:
  assumes "slotted fs n f g i" and "named f" and "rf_before_path f = rf_after_path f \<or> rf_after_path f = ''''"
  shows "fg_path (gr_files g ! i) = latest_name f"
proof -
  consider "gr_files g ! i = \<lparr>fg_path = capture_key f, fg_captures = []\<rparr>"
    | "trail_ok fs n (gr_files g ! i)" "continues (final_capture fs g i) f"
    using assms(1) unfolding slotted_def by blast
  then show ?thesis
  proof cases
    case 1
    with assms(2,3) show ?thesis by (auto simp: latest_name_def capture_key_def named_def)
  next
    case 2
    then have "fg_path (gr_files g ! i) = latest_name (final_capture fs g i)" by (simp add: trail_ok_def)
    with 2(2) assms(2,3) show ?thesis
      by (auto simp: latest_name_def continues_def capture_key_def named_def split: if_splits)
  qed
qed

lemma group_capture_files:
  assumes "group_slot g f = (g', i)" and "slotted fs n f g' i" and "named f"
  shows "gr_files (group_capture (n, f) g) = (gr_files g')[i := extend_group (latest_name f) n (gr_files g' ! i)]"
proof -
  have i: "i < length (gr_files g')" using assms(2) by (simp add: slotted_def)
  have p: "(x :: file_group)\<lparr>fg_path := fg_path x\<rparr> = x" for x by simp
  show ?thesis
  proof (cases "rf_before_path f = rf_after_path f \<or> rf_after_path f = ''''")
    case True
    have "extend_group (latest_name f) n (gr_files g' ! i)
        = (gr_files g' ! i)\<lparr>fg_captures := fg_captures (gr_files g' ! i) @ [n]\<rparr>"
      using slot_path [OF assms(2,3) True] by (cases "gr_files g' ! i") (simp add: extend_group_def)
    with True assms(1) show ?thesis by (auto simp: group_capture_def Let_def)
  next
    case False
    then show ?thesis
      using assms(1) i by (simp add: group_capture_def Let_def extend_group_def latest_name_def)
  qed
qed

lemma group_capture_maps:
  assumes "group_slot g f = (g', i)"
  shows "alist_get (gr_current (group_capture (n, f) g)) p =
      (if rf_before_path f = rf_after_path f then alist_get (gr_current g') p
       else if p = rf_after_path f \<and> p \<noteq> '''' then Some i
       else if p = rf_before_path f then None else alist_get (gr_current g') p)"
    and "alist_get (gr_deleted (group_capture (n, f) g)) p =
      (if rf_before_path f = rf_after_path f then alist_get (gr_deleted g') p
       else if rf_after_path f = '''' then (if p = rf_before_path f then Some i else alist_get (gr_deleted g') p)
       else if p = rf_after_path f then None else alist_get (gr_deleted g') p)"
  by (simp_all add: group_capture_def assms Let_def delete_conv')

lemma group_capture_ok:
  assumes g: "grouped fs n g" and f: "named f" "fs ! n = f"
  shows "grouped fs (Suc n) (group_capture (n, f) g)"
proof -
  obtain g' i where slot: "group_slot g f = (g', i)" by (cases "group_slot g f")
  note s = group_slot_ok [OF g f(1) slot]
  let ?h = "group_capture (n, f) g"
  note files = group_capture_files [OF slot s f(1)]
  have i: "i < length (gr_files g')" using s by (simp add: slotted_def)
  have len: "length (gr_files ?h) = length (gr_files g')" using files by simp
  have mine: "final_capture fs ?h i = f" using files i f(2) by (simp add: extend_group_def)
  have other: "final_capture fs ?h j = final_capture fs g' j" if "j \<noteq> i" for j using files that by simp
  have "trail_ok fs (Suc n) (gr_files ?h ! j)" if "j < length (gr_files g')" for j
  proof (cases "j = i")
    case True
    moreover have "trail_ok fs (Suc n) (extend_group (latest_name f) n (gr_files g' ! i))"
      by (rule extend_group_ok [OF _ f(2)]) (use s in \<open>simp add: slotted_def\<close>)
    ultimately show ?thesis using files i by simp
  next
    case False
    then have "trail_ok fs n (gr_files g' ! j)" using s that unfolding slotted_def by blast
    with False show ?thesis using files trail_ok_mono by simp
  qed
  moreover have "mset (concat (map fg_captures (gr_files ?h))) = mset [0..<Suc n]"
  proof -
    have "mset (concat (map fg_captures (gr_files g'))) = mset [0..<n]" using s by (simp add: slotted_def)
    with concat_append_at [OF i, of fg_captures "extend_group (latest_name f) n" n] files show ?thesis
      by (simp add: extend_group_def)
  qed
  moreover have "p \<noteq> '''' \<and> j < length (gr_files g') \<and> rf_after_path (final_capture fs ?h j) = p"
    if "alist_get (gr_current ?h) p = Some j" for p j
  proof -
    have old: "p \<noteq> '''' \<and> j < length (gr_files g') \<and> (if j = i then p = capture_key f else rf_after_path (final_capture fs g' j) = p)"
      if "alist_get (gr_current g') p = Some j" using s that unfolding slotted_def by blast
    note m = that [unfolded group_capture_maps(1) [OF slot]]
    show ?thesis
    proof (cases "rf_before_path f \<noteq> rf_after_path f \<and> p = rf_after_path f \<and> p \<noteq> ''''")
      case True
      with m have "i = j" by (metis option.inject)
      with True mine i show ?thesis by auto
    next
      case False
      with m have o: "alist_get (gr_current g') p = Some j"
          "rf_before_path f = rf_after_path f \<or> p \<noteq> rf_before_path f" by (auto split: if_splits)
      show ?thesis
      proof (cases "j = i")
        case True
        with old [OF o(1)] have "p = capture_key f" "p \<noteq> ''''" by auto
        with o(2) False have "rf_after_path f = p" by (auto simp: capture_key_def split: if_splits)
        with True mine i \<open>p \<noteq> ''''\<close> show ?thesis by simp
      next
        case False
        with old [OF o(1)] other show ?thesis by simp
      qed
    qed
  qed
  moreover have "p \<noteq> '''' \<and> j < length (gr_files g') \<and> rf_after_path (final_capture fs ?h j) = ''''
      \<and> rf_before_path (final_capture fs ?h j) = p"
    if "alist_get (gr_deleted ?h) p = Some j" for p j
  proof -
    have old: "p \<noteq> '''' \<and> j < length (gr_files g') \<and> (if j = i then rf_before_path f = '''' \<and> rf_after_path f = p
           else rf_after_path (final_capture fs g' j) = '''' \<and> rf_before_path (final_capture fs g' j) = p)"
      if "alist_get (gr_deleted g') p = Some j" using s that unfolding slotted_def by blast
    note m = that [unfolded group_capture_maps(2) [OF slot]]
    show ?thesis
    proof (cases "rf_before_path f \<noteq> rf_after_path f \<and> rf_after_path f = '''' \<and> p = rf_before_path f")
      case True
      with m have "i = j" by (metis option.inject)
      with True mine i f(1) show ?thesis by (auto simp: named_def)
    next
      case False
      with m have o: "alist_get (gr_deleted g') p = Some j"
          "rf_before_path f = rf_after_path f \<or> p \<noteq> rf_after_path f \<or> rf_after_path f = ''''"
        by (auto split: if_splits)
      have "j \<noteq> i"
      proof
        assume "j = i"
        with old [OF o(1)] have "rf_before_path f = ''''" "rf_after_path f = p" "p \<noteq> ''''" by simp_all
        with o(2) show False by simp
      qed
      with old [OF o(1)] other show ?thesis by simp
    qed
  qed
  ultimately show ?thesis unfolding grouped_def len by blast
qed

lemma group_files_ok:
  assumes "list_all named fs"
  shows "grouped fs (length fs) (fold group_capture (enumerate 0 fs) \<lparr>gr_files = [], gr_current = [], gr_deleted = []\<rparr>)"
proof -
  have "grouped fs n (fold group_capture (take n (enumerate 0 fs)) \<lparr>gr_files = [], gr_current = [], gr_deleted = []\<rparr>)"
    if "n \<le> length fs" for n
    using that
  proof (induction n)
    case 0
    then show ?case by (simp add: grouped_def)
  next
    case (Suc n)
    then have "enumerate 0 fs ! n = (n, fs ! n)" by (simp add: nth_enumerate_eq)
    moreover have "take (Suc n) (enumerate 0 fs) = take n (enumerate 0 fs) @ [enumerate 0 fs ! n]"
      using Suc.prems by (intro take_Suc_conv_app_nth) simp
    moreover have "named (fs ! n)" using assms Suc.prems by (simp add: list_all_length)
    ultimately show ?case using Suc group_capture_ok [of fs n _ "fs ! n"] by simp
  qed
  from this [of "length fs"] show ?thesis by simp
qed

end
