(* ===== verification/Diff_Compose.thy ===== *)
theory Diff_Compose
  imports Diff_Review
begin

text \<open>
  Composition of the ordered captures of one file, \<open>review_compose.go\<close>: the lines known of the
  original and of the current content, the changed regions between them, the application of
  a capture, the normalisation of connected regions, and the visible projections.  Positions
  are integers, as the code also computes positions before the start; the two line maps are
  association lists.
\<close>

section \<open>State\<close>

record region =
  rg_before_start :: int
  rg_after_start :: int
  rg_before :: "string list"
  rg_after :: "string list"
  rg_hidden :: bool
  rg_highlighted :: bool

type_synonym line_map = "(int \<times> string) list"

record composition =
  cm_started :: bool
  cm_before_path :: string
  cm_after_path :: string
  cm_path_hidden :: bool
  cm_path_highlighted :: bool
  cm_regions :: "region list"
  cm_original :: line_map
  cm_current :: line_map

definition empty_composition :: composition where
  "empty_composition = \<lparr>cm_started = False, cm_before_path = '''', cm_after_path = '''', cm_path_hidden = False,
     cm_path_highlighted = False, cm_regions = [], cm_original = [], cm_current = []\<rparr>"

record review_edit =
  ed_start :: int
  ed_before :: "string list"
  ed_after :: "string list"

definition len :: "'a list \<Rightarrow> int" where
  "len xs = int (length xs)"

section \<open>Positions\<close>

text \<open>The original position of a current one, outside the changed regions.\<close>

fun original_from :: "region list \<Rightarrow> int \<Rightarrow> int \<Rightarrow> int option" where
  "original_from [] position shift = Some (position - shift)"
| "original_from (r # rs) position shift =
     (if position < rg_after_start r then Some (position - shift)
      else if position < rg_after_start r + len (rg_after r) then None
      else original_from rs position (shift + len (rg_after r) - len (rg_before r)))"

definition original_position :: "composition \<Rightarrow> int \<Rightarrow> int option" where
  "original_position c position = original_from (cm_regions c) position 0"

definition review_overlaps :: "int \<Rightarrow> int \<Rightarrow> int \<Rightarrow> int \<Rightarrow> bool" where
  "review_overlaps lo hi a b =
     (if lo = hi \<and> a = b then lo = a
      else if lo = hi then a < lo \<and> lo < b
      else if a = b then lo < a \<and> a < hi
      else lo < b \<and> a < hi)"

definition region_overlaps :: "int \<Rightarrow> int \<Rightarrow> region \<Rightarrow> bool" where
  "region_overlaps lo hi r = review_overlaps lo hi (rg_after_start r) (rg_after_start r + len (rg_after r))"

section \<open>Learning a capture\<close>

record learning =
  le_composition :: composition
  le_position :: int
  le_edits :: "review_edit list"
  le_open :: bool

definition known_differs :: "line_map \<Rightarrow> int \<Rightarrow> string \<Rightarrow> bool" where
  "known_differs m position l = (case alist_get m position of None \<Rightarrow> False | Some known \<Rightarrow> known \<noteq> l)"

text \<open>A row of the old side is checked against, and added to, what is known.\<close>

definition learn_line :: "string \<Rightarrow> int \<Rightarrow> composition \<Rightarrow> error + composition" where
  "learn_line l position c =
     (if known_differs (cm_current c) position l
      then Inl (Err ''captured source does not match the composed chain'')
      else
        let c1 = c\<lparr>cm_current := alist_put position l (cm_current c)\<rparr>
        in case original_position c1 position of
             None \<Rightarrow> Inr c1
           | Some original \<Rightarrow>
               if known_differs (cm_original c1) original l
               then Inl (Err ''captured original context does not match the composed chain'')
               else Inr (c1\<lparr>cm_original := alist_put original l (cm_original c1)\<rparr>))"

definition extend_edit :: "review_row \<Rightarrow> review_edit \<Rightarrow> review_edit" where
  "extend_edit row e =
     (if rr_kind row = CHR ''-'' then e\<lparr>ed_before := ed_before e @ [rr_text row]\<rparr>
      else e\<lparr>ed_after := ed_after e @ [rr_text row]\<rparr>)"

definition learn_edit :: "review_row \<Rightarrow> learning \<Rightarrow> learning" where
  "learn_edit row l =
     (if rr_kind row = CHR '' '' then l\<lparr>le_open := False\<rparr>
      else
        let edits = (if le_open l then le_edits l
                     else le_edits l @ [\<lparr>ed_start = le_position l, ed_before = [], ed_after = []\<rparr>])
        in l\<lparr>le_edits := butlast edits @ [extend_edit row (last edits)], le_open := True\<rparr>)"

definition learn_row :: "review_row \<Rightarrow> learning \<Rightarrow> error + learning" where
  "learn_row row l =
     (case (if rr_kind row \<noteq> CHR ''+'' then learn_line (rr_text row) (le_position l) (le_composition l)
            else Inr (le_composition l)) of
        Inl e \<Rightarrow> Inl e
      | Inr c \<Rightarrow>
          let l1 = learn_edit row (l\<lparr>le_composition := c\<rparr>)
          in Inr (if rr_kind row \<noteq> CHR ''+'' then l1\<lparr>le_position := le_position l1 + 1\<rparr> else l1))"

fun learn_rows :: "review_row list \<Rightarrow> learning \<Rightarrow> error + learning" where
  "learn_rows [] l = Inr l"
| "learn_rows (r # rs) l = (case learn_row r l of Inl e \<Rightarrow> Inl e | Inr l' \<Rightarrow> learn_rows rs l')"

fun learn_hunks :: "review_hunk list \<Rightarrow> composition \<Rightarrow> review_edit list \<Rightarrow> error + composition \<times> review_edit list" where
  "learn_hunks [] c edits = Inr (c, edits)"
| "learn_hunks (h # hs) c edits =
     (case learn_rows (rh_rows h)
             \<lparr>le_composition = c, le_position = int (rh_before_start h), le_edits = edits, le_open = False\<rparr> of
        Inl e \<Rightarrow> Inl e
      | Inr l \<Rightarrow> learn_hunks hs (le_composition l) (le_edits l))"

section \<open>Applying an edit\<close>

text \<open>The first and the last region an edit touches.\<close>

definition touched :: "int \<Rightarrow> int \<Rightarrow> region list \<Rightarrow> (nat \<times> nat) option" where
  "touched lo hi rs =
     (case filter (\<lambda>i. region_overlaps lo hi (rs ! i)) [0..<length rs] of
        [] \<Rightarrow> None | ks \<Rightarrow> Some (hd ks, last ks))"

definition edit_bounds :: "int \<Rightarrow> int \<Rightarrow> region list \<Rightarrow> (nat \<times> nat) option \<Rightarrow> int \<times> int" where
  "edit_bounds lo hi rs t =
     (case t of
        None \<Rightarrow> (lo, hi)
      | Some (i, j) \<Rightarrow>
          (min lo (rg_after_start (rs ! i)), max hi (rg_after_start (rs ! j) + len (rg_after (rs ! j)))))"

definition original_boundary :: "composition \<Rightarrow> (nat \<times> nat) option \<Rightarrow> int \<Rightarrow> int option" where
  "original_boundary c t left =
     (let rs = cm_regions c;
          at = (case t of
                  Some (i, _) \<Rightarrow>
                    if left = rg_after_start (rs ! i) then Some (rg_before_start (rs ! i))
                    else original_position c left
                | None \<Rightarrow> original_position c left)
      in case at of
           Some p \<Rightarrow> Some p
         | None \<Rightarrow> map_option rg_before_start (find (\<lambda>r. left = rg_after_start r) rs))"

text \<open>The current lines of a span, when all of them are known.\<close>

fun known_lines :: "line_map \<Rightarrow> int \<Rightarrow> nat \<Rightarrow> string list option" where
  "known_lines m position 0 = Some []"
| "known_lines m position (Suc n) =
     (case alist_get m position of
        None \<Rightarrow> None
      | Some l \<Rightarrow> (case known_lines m (position + 1) n of None \<Rightarrow> None | Some ls \<Rightarrow> Some (l # ls)))"

definition replace_lines :: "string list \<Rightarrow> nat \<Rightarrow> nat \<Rightarrow> string list \<Rightarrow> string list" where
  "replace_lines xs i j ys = take i xs @ ys @ drop j xs"

text \<open>Undo the touched regions, the last one first.\<close>

definition undo_region :: "int \<Rightarrow> region \<Rightarrow> string list \<Rightarrow> string list" where
  "undo_region left r lines =
     (let offset = nat (rg_after_start r - left)
      in replace_lines lines offset (offset + length (rg_after r)) (rg_before r))"

definition touched_regions :: "region list \<Rightarrow> (nat \<times> nat) option \<Rightarrow> region list" where
  "touched_regions rs t = (case t of None \<Rightarrow> [] | Some (i, j) \<Rightarrow> segment rs i (Suc j))"

definition untouched_regions :: "region list \<Rightarrow> (nat \<times> nat) option \<Rightarrow> region list" where
  "untouched_regions rs t = (case t of None \<Rightarrow> rs | Some (i, j) \<Rightarrow> take i rs @ drop (Suc j) rs)"

definition shift_lines :: "int \<Rightarrow> int \<Rightarrow> string list \<Rightarrow> line_map \<Rightarrow> line_map" where
  "shift_lines lo hi after m =
     (let shift = len after - (hi - lo);
          kept = concat (map (\<lambda>(p, l). if p < lo then [(p, l)] else if hi \<le> p then [(p + shift, l)] else []) m)
      in fold (\<lambda>i m. alist_put (lo + int i) (after ! i) m) [0..<length after] kept)"

definition shift_region :: "int \<Rightarrow> int \<Rightarrow> region \<Rightarrow> region" where
  "shift_region hi shift r = (if hi \<le> rg_after_start r then r\<lparr>rg_after_start := rg_after_start r + shift\<rparr> else r)"

definition region_le :: "region \<Rightarrow> region \<Rightarrow> bool" where
  "region_le a b \<longleftrightarrow> rg_after_start a < rg_after_start b
     \<or> rg_after_start a = rg_after_start b \<and> rg_before_start a \<le> rg_before_start b"

fun insert_region :: "region \<Rightarrow> region list \<Rightarrow> region list" where
  "insert_region x [] = [x]"
| "insert_region x (y # ys) = (if region_le y x then y # insert_region x ys else x # y # ys)"

definition sort_regions :: "region list \<Rightarrow> region list" where
  "sort_regions rs = fold insert_region rs []"

definition apply_edit :: "review_edit \<Rightarrow> bool \<Rightarrow> bool \<Rightarrow> composition \<Rightarrow> error + composition" where
  "apply_edit e hidden highlighted c =
     (let lo = ed_start e; hi = lo + len (ed_before e); rs = cm_regions c;
          t = touched lo hi rs;
          (left, right) = edit_bounds lo hi rs t
      in if int max_compose_rows < right - left then Inl (Err ''review region exceeds capacity'')
         else
           (case original_boundary c t left of
              None \<Rightarrow> Inl (Err ''review region has no original boundary'')
            | Some original_start \<Rightarrow>
                (case known_lines (cm_current c) left (nat (right - left)) of
                   None \<Rightarrow> Inl (Err ''review composition requires uncaptured source'')
                 | Some current \<Rightarrow>
                     if segment current (nat (lo - left)) (nat (hi - left)) \<noteq> ed_before e
                     then Inl (Err ''captured edit does not match the composed chain'')
                     else
                       let touched_rs = touched_regions rs t;
                           original = foldr (undo_region left) touched_rs current;
                           after = replace_lines current (nat (lo - left)) (nat (hi - left)) (ed_after e)
                       in if max_compose_rows < length original \<or> max_compose_rows < length after
                          then Inl (Err ''review region exceeds capacity'')
                          else
                            let shift = len (ed_after e) - len (ed_before e);
                                others = map (shift_region hi shift) (untouched_regions rs t);
                                added =
                                  (if original = after then []
                                   else [\<lparr>rg_before_start = original_start, rg_after_start = left,
                                          rg_before = original, rg_after = after,
                                          rg_hidden = \<not> (\<not> hidden \<or> list_ex (\<lambda>r. \<not> rg_hidden r) touched_rs),
                                          rg_highlighted = highlighted \<or> list_ex rg_highlighted touched_rs\<rparr>])
                            in Inr (c\<lparr>cm_current := shift_lines lo hi (ed_after e) (cm_current c),
                                      cm_regions := sort_regions (others @ added)\<rparr>))))"

fun apply_edits :: "review_edit list \<Rightarrow> bool \<Rightarrow> bool \<Rightarrow> composition \<Rightarrow> error + composition" where
  "apply_edits [] hidden highlighted c = Inr c"
| "apply_edits (e # es) hidden highlighted c =
     (case apply_edit e hidden highlighted c of
        Inl err \<Rightarrow> Inl err | Inr c' \<Rightarrow> apply_edits es hidden highlighted c')"

section \<open>Normalisation\<close>

text \<open>The common lines of a gap between two regions, when both sides know and share them.\<close>

fun shared_lines :: "composition \<Rightarrow> int \<Rightarrow> int \<Rightarrow> nat \<Rightarrow> string list option" where
  "shared_lines c old_at new_at 0 = Some []"
| "shared_lines c old_at new_at (Suc n) =
     (case (alist_get (cm_original c) old_at, alist_get (cm_current c) new_at) of
        (Some x, Some y) \<Rightarrow>
          if x \<noteq> y then None
          else (case shared_lines c (old_at + 1) (new_at + 1) n of None \<Rightarrow> None | Some ls \<Rightarrow> Some (x # ls))
      | _ \<Rightarrow> None)"

text \<open>
  The connected regions that follow: both sides grow by the gap and the region.  The result
  is the two sides, the members after the first, and the regions left.
\<close>

fun connect_regions :: "composition \<Rightarrow> region \<Rightarrow> string list \<Rightarrow> string list \<Rightarrow> region list
    \<Rightarrow> string list \<times> string list \<times> region list \<times> region list" where
  "connect_regions c initial a b [] = (a, b, [], [])"
| "connect_regions c initial a b (r # rs) =
     (let old_end = rg_before_start initial + len a; new_end = rg_after_start initial + len b;
          gap = rg_before_start r - old_end
      in if gap < 0 \<or> gap \<noteq> rg_after_start r - new_end then (a, b, [], r # rs)
         else
           (case shared_lines c old_end new_end (nat gap) of
              None \<Rightarrow> (a, b, [], r # rs)
            | Some context \<Rightarrow>
                (case connect_regions c initial (a @ context @ rg_before r) (b @ context @ rg_after r) rs of
                   (a', b', members, rest) \<Rightarrow> (a', b', r # members, rest))))"

record emission =
  em_old :: int
  em_new :: int
  em_regions :: "region list"

definition exposes :: "region \<Rightarrow> region \<Rightarrow> bool" where
  "exposes r prior \<longleftrightarrow> \<not> rg_hidden prior
     \<and> (rg_after r \<noteq> [] \<and> rg_after prior \<noteq> []
          \<and> region_overlaps (rg_after_start r) (rg_after_start r + len (rg_after r)) prior
        \<or> rg_before r \<noteq> [] \<and> rg_before prior \<noteq> []
          \<and> review_overlaps (rg_before_start r) (rg_before_start r + len (rg_before r))
              (rg_before_start prior) (rg_before_start prior + len (rg_before prior)))"

definition emit_region :: "region \<Rightarrow> region list \<Rightarrow> string list \<Rightarrow> string list \<Rightarrow> opcode \<Rightarrow> int \<times> int \<Rightarrow> emission \<Rightarrow> emission" where
  "emit_region initial members a b op ends em =
     (let (old_end, new_end) = ends
      in if old_end < em_old em \<or> new_end < em_new em \<or> int (o_i2 op) < old_end \<or> int (o_j2 op) < new_end
         then em
         else if old_end = em_old em \<and> new_end = em_new em then em
         else
           let before = segment a (nat (em_old em)) (nat old_end);
               after = segment b (nat (em_new em)) (nat new_end);
               r = \<lparr>rg_before_start = rg_before_start initial + em_old em,
                    rg_after_start = rg_after_start initial + em_new em,
                    rg_before = before, rg_after = after, rg_hidden = True, rg_highlighted = False\<rparr>;
               shown = filter (exposes r) members;
               em = em\<lparr>em_old := old_end, em_new := new_end\<rparr>
           in if before = after then em
              else em\<lparr>em_regions := em_regions em @ [r\<lparr>rg_hidden := (shown = []),
                                                      rg_highlighted := list_ex rg_highlighted shown\<rparr>]\<rparr>)"

definition cut_points :: "region \<Rightarrow> region list \<Rightarrow> opcode \<Rightarrow> (int \<times> int) list" where
  "cut_points initial members op =
     concat (map (\<lambda>r.
       [(rg_before_start r - rg_before_start initial, rg_after_start r - rg_after_start initial),
        (rg_before_start r + len (rg_before r) - rg_before_start initial,
         rg_after_start r + len (rg_after r) - rg_after_start initial)]) members)
     @ [(int (o_i2 op), int (o_j2 op))]"

definition emit_opcode :: "region \<Rightarrow> region list \<Rightarrow> string list \<Rightarrow> string list \<Rightarrow> opcode \<Rightarrow> region list" where
  "emit_opcode initial members a b op =
     (if o_tag op = OpEqual then []
      else em_regions (fold (emit_region initial members a b op) (cut_points initial members op)
             \<lparr>em_old = int (o_i1 op), em_new = int (o_j1 op), em_regions = []\<rparr>))"

lemma connect_regions_shrinks:
  "connect_regions c initial a b rs = (a', b', members, rest) \<Longrightarrow> rs = members @ rest"
proof (induction rs arbitrary: a b a' b' members)
  case (Cons r rs)
  then show ?case
    by (auto simp: Let_def split: if_splits option.splits prod.splits)
qed simp

function normalize_regions :: "differ \<Rightarrow> composition \<Rightarrow> region list \<Rightarrow> region list" where
  "normalize_regions df c [] = []"
| "normalize_regions df c (initial # rs) =
     (let (a, b, members, rest) = connect_regions c initial (rg_before initial) (rg_after initial) rs
      in concat (map (emit_opcode initial (initial # members) a b) (df_opcodes df a b))
         @ normalize_regions df c rest)"
  by pat_completeness auto

termination normalize_regions
proof (relation "measure (\<lambda>(_, _, rs). length rs)", goal_cases)
  case (2 df c initial rs x a xa b xb members rest)
  from connect_regions_shrinks [of c initial "rg_before initial" "rg_after initial" rs a b members rest] 2
  show ?case by simp
qed simp

definition normalize_composition :: "differ \<Rightarrow> composition \<Rightarrow> composition" where
  "normalize_composition df c = c\<lparr>cm_regions := normalize_regions df c (cm_regions c)\<rparr>"

section \<open>Applying a capture\<close>

definition start_composition :: "review_file \<Rightarrow> composition \<Rightarrow> composition" where
  "start_composition f c =
     (if cm_started c then c
      else c\<lparr>cm_started := True, cm_before_path := rf_before_path f, cm_after_path := rf_before_path f,
             cm_original := [], cm_current := []\<rparr>)"

definition apply_capture :: "differ \<Rightarrow> review_file \<Rightarrow> bool \<Rightarrow> bool \<Rightarrow> composition \<Rightarrow> error + composition" where
  "apply_capture df f hidden highlighted c =
     (if rf_directory f then Inl (Err ''directory contents are not retained'')
      else if rf_incomplete f \<noteq> '''' then Inl (Err (''incomplete history: '' @ rf_incomplete f))
      else
        let highlighted = (highlighted \<and> \<not> hidden)
        in case parse_review_hunks df f True of
             Inl e \<Rightarrow> Inl e
           | Inr hs \<Rightarrow>
               let c1 = start_composition f c
               in if rf_before_path f \<noteq> cm_after_path c1
                  then Inl (Err ''captured file identity does not continue the composed chain'')
                  else
                    (case learn_hunks hs c1 [] of
                       Inl e \<Rightarrow> Inl e
                     | Inr (c2, edits) \<Rightarrow>
                         (case apply_edits (rev edits) hidden highlighted c2 of
                            Inl e \<Rightarrow> Inl e
                          | Inr c3 \<Rightarrow>
                              let c4 = normalize_composition df c3
                              in if max_compose_rows < length (cm_original c4) \<or> max_compose_rows < length (cm_current c4)
                                 then Inl (Err ''review composition exceeds captured-line capacity'')
                                 else
                                   let c5 = (if rf_before_path f \<noteq> rf_after_path f
                                             then c4\<lparr>cm_path_hidden := hidden, cm_path_highlighted := highlighted\<rparr> else c4)
                                   in Inr (c5\<lparr>cm_after_path := rf_after_path f\<rparr>))))"

definition consistent :: "string \<Rightarrow> composition \<Rightarrow> bool" where
  "consistent content c =
     (let lines = review_lines content
      in list_all (\<lambda>(p, l). p < len lines \<and> lines ! nat p = l) (cm_current c))"

section \<open>Projections\<close>

record highlighted_file =
  hl_file :: review_file
  hl_highlighted :: bool

record window =
  wn_old_start :: int
  wn_new_start :: int
  wn_before :: "string list"
  wn_after :: "string list"

definition same_line :: "composition \<Rightarrow> int \<Rightarrow> int \<Rightarrow> string option" where
  "same_line c old_at new_at =
     (case (alist_get (cm_original c) old_at, alist_get (cm_current c) new_at) of
        (Some x, Some y) \<Rightarrow> if x = y then Some x else None | _ \<Rightarrow> None)"

fun extend_left :: "composition \<Rightarrow> int \<Rightarrow> int \<Rightarrow> nat \<Rightarrow> window \<Rightarrow> window" where
  "extend_left c old_end new_end 0 w = w"
| "extend_left c old_end new_end (Suc n) w =
     (if wn_old_start w \<le> old_end \<or> wn_new_start w \<le> new_end then w
      else case same_line c (wn_old_start w - 1) (wn_new_start w - 1) of
          None \<Rightarrow> w
        | Some l \<Rightarrow> extend_left c old_end new_end n
            (w\<lparr>wn_old_start := wn_old_start w - 1, wn_new_start := wn_new_start w - 1,
               wn_before := l # wn_before w, wn_after := l # wn_after w\<rparr>))"

fun extend_right :: "composition \<Rightarrow> region list \<Rightarrow> nat \<Rightarrow> window \<Rightarrow> window" where
  "extend_right c rest 0 w = w"
| "extend_right c rest (Suc n) w =
     (let old_end = wn_old_start w + len (wn_before w); new_end = wn_new_start w + len (wn_after w)
      in if (case rest of [] \<Rightarrow> False | r # _ \<Rightarrow> rg_before_start r \<le> old_end \<or> rg_after_start r \<le> new_end) then w
         else case same_line c old_end new_end of
             None \<Rightarrow> w
           | Some l \<Rightarrow> extend_right c rest n (w\<lparr>wn_before := wn_before w @ [l], wn_after := wn_after w @ [l]\<rparr>))"

definition composed_paths :: "composition \<Rightarrow> review_file" where
  "composed_paths c = paths_file (cm_before_path c) (cm_after_path c)"

fun visible_files :: "differ \<Rightarrow> composition \<Rightarrow> int \<Rightarrow> int \<Rightarrow> region list \<Rightarrow> highlighted_file list" where
  "visible_files df c old_end new_end [] = []"
| "visible_files df c old_end new_end (r # rs) =
     (if rg_hidden r then visible_files df c old_end new_end rs
      else
        let w = extend_right c rs 3 (extend_left c old_end new_end 3
                  \<lparr>wn_old_start = rg_before_start r, wn_new_start = rg_after_start r,
                   wn_before = rg_before r, wn_after = rg_after r\<rparr>)
        in \<lparr>hl_file = render_file df (composed_paths c) (wn_before w) (wn_after w)
                        (nat (wn_old_start w)) (nat (wn_new_start w)),
            hl_highlighted = rg_highlighted r\<rparr>
           # visible_files df c (wn_old_start w + len (wn_before w)) (wn_new_start w + len (wn_after w)) rs)"

definition files_with_highlights :: "differ \<Rightarrow> composition \<Rightarrow> highlighted_file list" where
  "files_with_highlights df c =
     (let files = visible_files df c 0 0 (cm_regions c)
      in if files = [] \<and> cm_started c \<and> cm_before_path c \<noteq> cm_after_path c \<and> \<not> cm_path_hidden c
         then [\<lparr>hl_file = render_file df (composed_paths c) [] [] 0 0, hl_highlighted = cm_path_highlighted c\<rparr>]
         else files)"

text \<open>Adjacent regions of one visibility form one region of the projection.\<close>

definition adjoins :: "region \<Rightarrow> region \<Rightarrow> bool" where
  "adjoins x r \<longleftrightarrow> rg_hidden x = rg_hidden r
     \<and> rg_before_start x + len (rg_before x) = rg_before_start r
     \<and> rg_after_start x + len (rg_after x) = rg_after_start r"

definition join_region :: "region \<Rightarrow> region list \<Rightarrow> region list" where
  "join_region r out =
     (if out \<noteq> [] \<and> adjoins (last out) r
      then butlast out @ [(last out)\<lparr>rg_before := rg_before (last out) @ rg_before r,
                                     rg_after := rg_after (last out) @ rg_after r\<rparr>]
      else out @ [r])"

definition composed_files :: "differ \<Rightarrow> composition \<Rightarrow> review_file list" where
  "composed_files df c =
     map hl_file (files_with_highlights df (c\<lparr>cm_regions := fold join_region (cm_regions c) []\<rparr>))"

end
