(* ===== verification/Diff_Tiling.thy ===== *)
theory Diff_Tiling
  imports Diff_Compose Diff_Roundtrip
begin

text \<open>
  Regions that tile a change from one text to another: between the regions the texts agree, and
  each region holds the lines of both texts at its position.  Joining, splitting, shifting and
  undoing such tilings, and the order of their regions.
\<close>

section \<open>Tilings\<close>

definition b_start :: "region \<Rightarrow> nat" where "b_start r = nat (rg_before_start r)"
definition a_start :: "region \<Rightarrow> nat" where "a_start r = nat (rg_after_start r)"
definition b_end :: "region \<Rightarrow> nat" where "b_end r = b_start r + length (rg_before r)"
definition a_end :: "region \<Rightarrow> nat" where "a_end r = a_start r + length (rg_after r)"

lemmas places = b_start_def a_start_def b_end_def a_end_def

definition region_at :: "string list \<Rightarrow> string list \<Rightarrow> region \<Rightarrow> bool" where
  "region_at a b r \<longleftrightarrow> 0 \<le> rg_before_start r \<and> 0 \<le> rg_after_start r
     \<and> b_end r \<le> length a \<and> a_end r \<le> length b
     \<and> segment a (b_start r) (b_end r) = rg_before r \<and> segment b (a_start r) (a_end r) = rg_after r
     \<and> rg_before r \<noteq> rg_after r"

fun tiles :: "string list \<Rightarrow> string list \<Rightarrow> nat \<Rightarrow> nat \<Rightarrow> region list \<Rightarrow> nat \<Rightarrow> nat \<Rightarrow> bool" where
  "tiles a b i j [] i' j' \<longleftrightarrow> i \<le> i' \<and> j \<le> j' \<and> i' \<le> length a \<and> j' \<le> length b
     \<and> segment a i i' = segment b j j'"
| "tiles a b i j (r # rs) i' j' \<longleftrightarrow>
     region_at a b r \<and> i \<le> b_start r \<and> j \<le> a_start r \<and> segment a i (b_start r) = segment b j (a_start r)
     \<and> tiles a b (b_end r) (a_end r) rs i' j'"

lemma start_le_end: "b_start r \<le> b_end r" "a_start r \<le> a_end r"
  by (simp_all add: places)

lemma tiles_bounds: "tiles a b i j rs i' j' \<Longrightarrow> i \<le> i' \<and> j \<le> j' \<and> i' \<le> length a \<and> j' \<le> length b"
proof (induction rs arbitrary: i j)
  case (Cons r rs)
  then have t: "tiles a b (b_end r) (a_end r) rs i' j'" and "i \<le> b_start r" "j \<le> a_start r"
    by simp_all
  with Cons.IH [OF t] start_le_end [of r] show ?case by linarith
qed simp

lemma tiles_gap:
  assumes "tiles a b m n rs i' j'" and "i \<le> m" and "j \<le> n" and "segment a i m = segment b j n"
  shows "tiles a b i j rs i' j'"
proof (cases rs)
  case Nil
  with assms show ?thesis using segment_append [of i m i' a] segment_append [of j n j' b] by simp
next
  case (Cons r rest)
  with assms(1) have h: "m \<le> b_start r" "n \<le> a_start r" "segment a m (b_start r) = segment b n (a_start r)" by simp_all
  with assms(2-4) have "segment a i (b_start r) = segment b j (a_start r)"
    using segment_append [of i m "b_start r" a] segment_append [of j n "a_start r" b] by simp
  with h assms(1-3) Cons show ?thesis by simp
qed

lemma tiles_append: "tiles a b i j xs m n \<Longrightarrow> tiles a b m n ys i' j' \<Longrightarrow> tiles a b i j (xs @ ys) i' j'"
proof (induction xs arbitrary: i j)
  case Nil
  then show ?case using tiles_gap by simp
qed simp

lemma tiles_split:
  assumes "tiles a b i j (xs @ ys) i' j'" and "\<forall>r \<in> set xs. a_end r \<le> n" and "\<forall>r \<in> set ys. n \<le> a_start r"
    and "j \<le> n" and "n \<le> j'"
  shows "\<exists>m. tiles a b i j xs m n \<and> tiles a b m n ys i' j'"
  using assms(1,2,4)
proof (induction xs arbitrary: i j)
  case Nil
  let ?m = "i + (n - j)"
  show ?case
  proof (cases ys)
    case Nil2: Nil
    with Nil have h: "i \<le> i'" "j \<le> j'" "i' \<le> length a" "j' \<le> length b" "segment a i i' = segment b j j'" by simp_all
    have k: "n - j \<le> j' - j" using assms(5) by simp
    note s = segment_equal_cut [OF h(5,3,4,1,2) k]
    have n: "j + (n - j) = n" using Nil.prems(3) by simp
    have "?m \<le> i'" using s(1) k h(1,2) by linarith
    with s(2,3) h Nil.prems(3) assms(5) have "tiles a b i j [] ?m n \<and> tiles a b ?m n [] i' j'"
      unfolding n by simp
    with Nil2 show ?thesis by blast
  next
    case (Cons r rest)
    with Nil have h: "region_at a b r" "i \<le> b_start r" "j \<le> a_start r" "segment a i (b_start r) = segment b j (a_start r)"
        "tiles a b (b_end r) (a_end r) rest i' j'" by simp_all
    have n: "n \<le> a_start r" using assms(3) Cons by simp
    have le: "b_start r \<le> length a" "a_start r \<le> length b"
      using h(1) start_le_end [of r] unfolding region_at_def by linarith+
    have k: "n - j \<le> a_start r - j" using n by simp
    note s = segment_equal_cut [OF h(4) le h(2,3) k]
    have nj: "j + (n - j) = n" using Nil.prems(3) by simp
    have "?m \<le> b_start r" using s(1) k h(2,3) by linarith
    with s(2,3) h le n Nil.prems(3) have "tiles a b i j [] ?m n \<and> tiles a b ?m n (r # rest) i' j'"
      unfolding nj by simp
    with Cons show ?thesis by blast
  qed
next
  case (Cons r xs)
  from Cons.prems have "tiles a b (b_end r) (a_end r) (xs @ ys) i' j'" "\<forall>r \<in> set xs. a_end r \<le> n" "a_end r \<le> n" by simp_all
  from Cons.IH [OF this] obtain m where "tiles a b (b_end r) (a_end r) xs m n \<and> tiles a b m n ys i' j'" ..
  with Cons.prems(1) show ?case by auto
qed

lemma tiles_current_take:
  assumes "tiles a b i j rs i' j'" and "take j' b = take j' b'" and "j' \<le> length b'"
  shows "tiles a b' i j rs i' j'"
  using assms(1)
proof (induction rs arbitrary: i j)
  case Nil
  then show ?case using assms(3) segment_take_eq [OF assms(2), of j' j] by simp
next
  case (Cons r rs)
  then have t: "tiles a b (b_end r) (a_end r) rs i' j'" and r: "region_at a b r" by simp_all
  have e: "a_end r \<le> j'" using tiles_bounds [OF t] by simp
  have "region_at a b' r"
    using r e assms(3) segment_take_eq [OF assms(2) e, of "a_start r"] by (simp add: region_at_def)
  moreover have "segment b' j (a_start r) = segment b j (a_start r)"
    using segment_take_eq [OF assms(2), of "a_start r" j] e start_le_end [of r] by simp
  ultimately show ?case using Cons.prems Cons.IH [OF t] by simp
qed

definition moved :: "int \<Rightarrow> region \<Rightarrow> region" where
  "moved d r = r\<lparr>rg_after_start := rg_after_start r + d\<rparr>"

lemma tiles_moved:
  assumes "tiles a b i j rs i' j'" and "drop n b = drop n' b'" and "n \<le> j" and "length b - n = length b' - n'"
    and "n \<le> length b" and "n' \<le> length b'"
  shows "tiles a b' i (j - n + n') (map (moved (int n' - int n)) rs) i' (j' - n + n')"
  using assms(1,3)
proof (induction rs arbitrary: i j)
  case Nil
  then have h: "i \<le> i'" "j \<le> j'" "i' \<le> length a" "j' \<le> length b" "segment a i i' = segment b j j'" "n \<le> j" by simp_all
  have "segment b j j' = segment b' (j - n + n') (j' - n + n')" using h by (intro segment_drop_eq [OF assms(2)]) simp_all
  moreover have "j - n + n' \<le> j' - n + n'" "j' - n + n' \<le> length b'" using h assms(4-6) by linarith+
  ultimately show ?case using h by simp
next
  case (Cons r rs)
  let ?r = "moved (int n' - int n) r"
  from Cons.prems have r: "region_at a b r" "i \<le> b_start r" "j \<le> a_start r" "segment a i (b_start r) = segment b j (a_start r)"
      "tiles a b (b_end r) (a_end r) rs i' j'" by simp_all
  have le: "n \<le> a_start r" "n \<le> a_end r" using r(3) Cons.prems(2) start_le_end [of r] by simp_all
  have pos: "0 \<le> rg_after_start r" "0 \<le> rg_before_start r" using r(1) by (simp_all add: region_at_def)
  have s: "a_start ?r = a_start r - n + n'" using le(1) pos by (simp add: moved_def a_start_def)
  have e: "a_end ?r = a_end r - n + n'" using s le(1) by (simp add: a_end_def moved_def)
  have b: "b_start ?r = b_start r" "b_end ?r = b_end r" by (simp_all add: moved_def places)
  have pos': "0 \<le> rg_after_start ?r" using le(1) pos by (simp add: moved_def a_start_def)
  have "a_end r \<le> length b" using r(1) by (simp add: region_at_def)
  then have top: "a_end r - n + n' \<le> length b'" using le(2) assms(4-6) by linarith
  have "region_at a b' ?r"
    using top r(1) pos pos' le assms(4-6) segment_drop_eq [OF assms(2) le]
    by (simp add: region_at_def s e b) (simp add: moved_def)
  moreover have "segment a i (b_start ?r) = segment b' (j - n + n') (a_start ?r)"
    using r(4) segment_drop_eq [OF assms(2) Cons.prems(2) le(1)] by (simp add: s b)
  moreover have "j - n + n' \<le> a_start ?r" using r(3) s by simp
  ultimately show ?case using Cons.IH [OF r(5) le(2)] r(2) by (simp add: e b)
qed

section \<open>Undoing\<close>

lemma undo_tiles:
  assumes "tiles a b i j rs i' j'" and "length before = j - left" and "left \<le> j"
  shows "foldr (undo_region (int left)) rs (before @ segment b j j') = before @ segment a i i'"
  using assms
proof (induction rs arbitrary: i j before)
  case Nil
  then show ?case by simp
next
  case (Cons r rs)
  then have r: "region_at a b r" "i \<le> b_start r" "j \<le> a_start r" "segment a i (b_start r) = segment b j (a_start r)"
      "tiles a b (b_end r) (a_end r) rs i' j'" by simp_all
  note bounds = tiles_bounds [OF r(5)] and se = start_le_end [of r]
  have at: "segment a (b_start r) (b_end r) = rg_before r" "segment b (a_start r) (a_end r) = rg_after r"
      "rg_after_start r = int (a_start r)" "a_end r \<le> length b" using r(1) by (simp_all add: region_at_def a_start_def)
  let ?pre = "before @ segment b j (a_start r)"
  have lp: "length ?pre = a_start r - left"
    using Cons.prems(2,3) r(3) at(4) se by (simp add: segment_length)
  have cut: "segment b j j' = segment b j (a_start r) @ rg_after r @ segment b (a_end r) j'"
    using segment_append [OF r(3), of j' b] segment_append [OF se(2), of j' b] at(2) bounds se by simp
  have len2: "length (?pre @ rg_after r) = a_end r - left" using lp Cons.prems(3) r(3) by (simp add: a_end_def)
  have "foldr (undo_region (int left)) rs ((?pre @ rg_after r) @ segment b (a_end r) j')
      = (?pre @ rg_after r) @ segment a (b_end r) i'"
    by (rule Cons.IH [OF r(5) len2]) (use Cons.prems(3) r(3) se in linarith)
  then have "foldr (undo_region (int left)) (r # rs) (before @ segment b j j')
      = undo_region (int left) r (?pre @ rg_after r @ segment a (b_end r) i')"
    using cut by simp
  also have "\<dots> = ?pre @ rg_before r @ segment a (b_end r) i'"
  proof -
    have "nat (rg_after_start r - int left) = length ?pre" using lp at(3) Cons.prems(3) r(3) by simp
    then show ?thesis by (simp add: undo_region_def replace_lines_def)
  qed
  also have "\<dots> = before @ segment a i i'"
    using segment_append [OF r(2), of i' a] segment_append [OF se(1), of i' a] at(1) r(4) bounds se by simp
  finally show ?case .
qed

section \<open>Order\<close>

definition region_lt :: "region \<Rightarrow> region \<Rightarrow> bool" where
  "region_lt x y \<longleftrightarrow> rg_after_start x < rg_after_start y
     \<or> rg_after_start x = rg_after_start y \<and> rg_before_start x < rg_before_start y"

lemma region_lt_le: "region_lt x y \<Longrightarrow> region_le x y" "region_lt x y \<Longrightarrow> \<not> region_le y x"
  by (auto simp: region_lt_def region_le_def)

lemma tiles_from:
  "tiles a b i j rs i' j' \<Longrightarrow> r \<in> set rs \<Longrightarrow> int i \<le> rg_before_start r \<and> int j \<le> rg_after_start r \<and> region_at a b r
    \<and> a_end r \<le> j' \<and> b_end r \<le> i'"
proof (induction rs arbitrary: i j)
  case (Cons x rs)
  from Cons.prems(1) have x: "region_at a b x" "i \<le> b_start x" "j \<le> a_start x"
      "tiles a b (b_end x) (a_end x) rs i' j'" by simp_all
  show ?case
  proof (cases "r = x")
    case True
    have "int i \<le> rg_before_start x" "int j \<le> rg_after_start x"
      using x(1-3) unfolding region_at_def b_start_def a_start_def by linarith+
    with True x tiles_bounds [OF x(4)] show ?thesis by simp
  next
    case False
    with Cons x(4) have "int (b_end x) \<le> rg_before_start r" "int (a_end x) \<le> rg_after_start r" "region_at a b r"
        "a_end r \<le> j'" "b_end r \<le> i'" by auto
    with x start_le_end [of x] show ?thesis by linarith
  qed
qed simp

lemma region_before_next:
  assumes "region_at a b x" and "int (b_end x) \<le> rg_before_start y" and "int (a_end x) \<le> rg_after_start y"
  shows "region_lt x y"
proof -
  have "rg_before x \<noteq> [] \<or> rg_after x \<noteq> []" using assms(1) by (auto simp: region_at_def)
  moreover have "int (b_end x) = rg_before_start x + len (rg_before x)" "int (a_end x) = rg_after_start x + len (rg_after x)"
    using assms(1) by (simp_all add: region_at_def places len_def)
  moreover have "rg_before x \<noteq> [] \<Longrightarrow> 0 < len (rg_before x)" "rg_after x \<noteq> [] \<Longrightarrow> 0 < len (rg_after x)"
      "0 \<le> len (rg_before x)" "0 \<le> len (rg_after x)" by (simp_all add: len_def)
  ultimately show ?thesis using assms(2,3) unfolding region_lt_def by linarith
qed

lemma tiles_sorted: "tiles a b i j rs i' j' \<Longrightarrow> sorted_wrt region_lt rs"
proof (induction rs arbitrary: i j)
  case (Cons x rs)
  then have x: "region_at a b x" "tiles a b (b_end x) (a_end x) rs i' j'" by simp_all
  have "region_lt x y" if "y \<in> set rs" for y
    using tiles_from [OF x(2) that] by (intro region_before_next [OF x(1)]) simp_all
  with Cons.IH [OF x(2)] show ?case by simp
qed simp

lemma insert_region_end: "\<forall>x \<in> set xs. region_le x r \<Longrightarrow> insert_region r xs = xs @ [r]"
  by (induction xs) simp_all

lemma insert_region_between:
  "\<forall>x \<in> set xs. region_le x r \<Longrightarrow> ys = [] \<or> \<not> region_le (hd ys) r \<Longrightarrow> insert_region r (xs @ ys) = xs @ r # ys"
  by (induction xs) (auto, cases ys, auto)

lemma sort_sorted: "sorted_wrt region_lt rs \<Longrightarrow> sort_regions rs = rs"
  unfolding sort_regions_def
proof (induction rs rule: rev_induct)
  case (snoc r rs)
  then have "\<forall>x \<in> set rs. region_le x r" "fold insert_region rs [] = rs"
    using region_lt_le(1) by (simp_all add: sorted_wrt_append)
  then show ?case by (simp add: insert_region_end)
qed simp

lemma sort_inserted:
  assumes "sorted_wrt region_lt (xs @ r # ys)"
  shows "sort_regions (xs @ ys @ [r]) = xs @ r # ys"
proof -
  have s: "sorted_wrt region_lt (xs @ ys)" "\<forall>x \<in> set xs. region_lt x r" "\<forall>y \<in> set ys. region_lt r y"
    using assms by (simp_all add: sorted_wrt_append)
  have "sort_regions (xs @ ys @ [r]) = insert_region r (sort_regions (xs @ ys))"
    by (simp add: sort_regions_def)
  also have "\<dots> = insert_region r (xs @ ys)" using sort_sorted [OF s(1)] by simp
  also have "\<dots> = xs @ r # ys"
    using s(2,3) region_lt_le by (intro insert_region_between) (auto simp: neq_Nil_conv)
  finally show ?thesis .
qed

section \<open>Original positions\<close>

lemma tiles_shift:
  assumes "tiles a b i j rs i' j'" and "\<forall>r \<in> set rs. int (a_end r) \<le> p"
  shows "original_from (rs @ rest) p (int j - int i) = original_from rest p (int j' - int i')"
  using assms
proof (induction rs arbitrary: i j)
  case Nil
  then have "i' - i = j' - j" "i \<le> i'" "j \<le> j'"
    using segment_equal_cut(1) [of a i i' b j j' 0] by simp_all
  then have "int j - int i = int j' - int i'" by linarith
  then show ?case by simp
next
  case (Cons r rs)
  then have r: "region_at a b r" "i \<le> b_start r" "j \<le> a_start r" "segment a i (b_start r) = segment b j (a_start r)"
      "tiles a b (b_end r) (a_end r) rs i' j'" "int (a_end r) \<le> p" by simp_all
  have le: "b_start r \<le> length a" "a_start r \<le> length b"
    using r(1) start_le_end [of r] unfolding region_at_def by linarith+
  have "b_start r - i = a_start r - j" by (rule segment_equal_cut(1) [OF r(4) le r(2,3), of 0]) simp
  then have d: "int j - int i = int (a_start r) - int (b_start r)" using r(2,3) by linarith
  have e: "rg_after_start r + len (rg_after r) = int (a_end r)" "rg_after_start r \<le> int (a_end r)"
    using r(1) by (simp_all add: places len_def region_at_def)
  have "int j - int i + len (rg_after r) - len (rg_before r) = int (a_end r) - int (b_end r)"
    using d by (simp add: a_end_def b_end_def len_def)
  with Cons.IH [OF r(5)] Cons.prems(2) e r(6) show ?case by simp
qed

end
