(* ===== verification/Diff_Replay.thy ===== *)
theory Diff_Replay
  imports Diff_Roundtrip
begin

text \<open>
  Replaying a captured review on the content it was captured from: chains of hunks that lead
  from one text to another, the compaction of retained hunks, and the loop of \<open>Merge\<close>.
\<close>

section \<open>Chains of hunks\<close>

text \<open>The position and the rows of a hunk on either side.\<close>

type_synonym link = "nat \<times> string list \<times> nat \<times> string list"

definition link_of :: "review_hunk \<Rightarrow> link" where
  "link_of h = (rh_before_start h, before_rows (rh_rows h), rh_after_start h, after_rows (rh_rows h))"

definition link_ok :: "string list \<Rightarrow> string list \<Rightarrow> link \<Rightarrow> bool" where
  "link_ok a b l = (case l of (s, f, t, g) \<Rightarrow>
     s + length f \<le> length a \<and> segment a s (s + length f) = f \<and> (f = [] \<longrightarrow> a = [])
     \<and> t + length g \<le> length b \<and> segment b t (t + length g) = g \<and> (g = [] \<longrightarrow> b = []))"

fun chain :: "string list \<Rightarrow> string list \<Rightarrow> nat \<Rightarrow> nat \<Rightarrow> link list \<Rightarrow> bool" where
  "chain a b i j [] \<longleftrightarrow> i \<le> length a \<and> j \<le> length b \<and> drop i a = drop j b"
| "chain a b i j ((s, f, t, g) # ls) \<longleftrightarrow>
     link_ok a b (s, f, t, g) \<and> i \<le> s \<and> j \<le> t \<and> segment a i s = segment b j t
     \<and> chain a b (s + length f) (t + length g) ls"

fun swap_link :: "link \<Rightarrow> link" where
  "swap_link (s, f, t, g) = (t, g, s, f)"

lemma chain_swap: "chain a b i j ls \<Longrightarrow> chain b a j i (map swap_link ls)"
  by (induction ls arbitrary: i j) (auto simp: link_ok_def)

lemma chain_gap:
  assumes "chain a b i' j' ls" and "i \<le> i'" and "j \<le> j'" and "segment a i i' = segment b j j'"
  shows "chain a b i j ls"
proof (cases ls)
  case Nil
  have d: "drop k xs = segment xs k k' @ drop k' xs" if "k \<le> k'" for k k' and xs :: "string list"
    using that by (metis append_take_drop_id drop_drop le_add_diff_inverse2 segment_def)
  from assms Nil d [of i i' a] d [of j j' b] show ?thesis by simp
next
  case (Cons l rest)
  obtain s f t g where l: "l = (s, f, t, g)" by (cases l)
  from assms(1) Cons l have h: "i' \<le> s" "j' \<le> t" "segment a i' s = segment b j' t"
      "link_ok a b (s, f, t, g)" "chain a b (s + length f) (t + length g) rest" by simp_all
  have "segment a i s = segment b j t"
    using segment_append [OF assms(2) h(1), of a] segment_append [OF assms(3) h(2), of b] assms(4) h(3) by simp
  with h assms(2,3) Cons l show ?thesis by simp
qed

lemma groups_chain:
  assumes "groups_tile a b i j gs" and "i \<le> length a" and "j \<le> length b"
  shows "chain a b i j (map (\<lambda>g. link_of (group_hunk a b 0 0 g)) gs)"
  using assms
proof (induction gs arbitrary: i j)
  case (Cons g gs)
  then have g: "group_ok a b g" by simp
  note f = group_ok_facts [OF g]
  have l: "o_i1 (hd g) + length (before_rows (group_rows a b g)) = o_i2 (last g)"
      "o_j1 (hd g) + length (after_rows (group_rows a b g)) = o_j2 (last g)"
    using f by (simp_all add: segment_length)
  have e: "before_rows (group_rows a b g) = [] \<Longrightarrow> o_i1 (hd g) = o_i2 (last g)"
      "after_rows (group_rows a b g) = [] \<Longrightarrow> o_j1 (hd g) = o_j2 (last g)"
    using l by auto
  have rest: "chain a b (o_i2 (last g)) (o_j2 (last g)) (map (\<lambda>g. link_of (group_hunk a b 0 0 g)) gs)"
    using Cons.IH [of "o_i2 (last g)" "o_j2 (last g)"] Cons.prems f by simp
  have eq: "link_of (group_hunk a b 0 0 g) = (o_i1 (hd g), before_rows (group_rows a b g),
      o_j1 (hd g), after_rows (group_rows a b g))"
    by (simp add: link_of_def group_hunk_def)
  have z: "before_rows (group_rows a b g) = [] \<longrightarrow> a = []" "after_rows (group_rows a b g) = [] \<longrightarrow> b = []"
    using e Cons.prems(1) by (metis groups_tile.simps(2))+
  have "link_ok a b (link_of (group_hunk a b 0 0 g))"
    unfolding eq link_ok_def prod.case l
    by (intro conjI f(5) f(6) f(1) [symmetric] f(2) [symmetric] z)
  moreover have "i \<le> o_i1 (hd g)" "j \<le> o_j1 (hd g)" "segment a i (o_i1 (hd g)) = segment b j (o_j1 (hd g))"
    using Cons.prems(1) by simp_all
  ultimately show ?case using rest unfolding eq by (simp only: list.map eq chain.simps l simp_thms)
qed simp

text \<open>A chain inside a link of another chain, moved to the place of the link.\<close>

fun shift_link :: "nat \<Rightarrow> nat \<Rightarrow> link \<Rightarrow> link" where
  "shift_link s t (s', f, t', g) = (s + s', f, t + t', g)"

lemma link_ok_inner:
  assumes out: "link_ok a b (s, f, t, g)" and inner: "link_ok f g (s', f', t', g')"
  shows "link_ok a b (s + s', f', t + t', g')"
proof -
  have a: "segment a s (s + length f) = f" "s + length f \<le> length a" "f = [] \<longrightarrow> a = []"
    and b: "segment b t (t + length g) = g" "t + length g \<le> length b" "g = [] \<longrightarrow> b = []"
    using out by (simp_all add: link_ok_def)
  have f: "s' + length f' \<le> length f" "segment f s' (s' + length f') = f'" "f' = [] \<longrightarrow> f = []"
    and g: "t' + length g' \<le> length g" "segment g t' (t' + length g') = g'" "g' = [] \<longrightarrow> g = []"
    using inner by (simp_all add: link_ok_def)
  from segment_segment [OF a(1) f(1), of s'] segment_segment [OF b(1) g(1), of t'] a b f g show ?thesis
    by (simp add: link_ok_def add.assoc)
qed

lemma chain_inner:
  assumes out: "link_ok a b (s, f, t, g)" and rest: "chain a b (s + length f) (t + length g) ls"
    and "chain f g i j inner" and "i \<le> length f" and "j \<le> length g"
  shows "chain a b (s + i) (t + j) (map (shift_link s t) inner @ ls)"
  using assms(3-)
proof (induction inner arbitrary: i j)
  case Nil
  have fa: "segment a s (s + length f) = f" "segment b t (t + length g) = g" using out by (simp_all add: link_ok_def)
  have "segment a (s + i) (s + length f) = segment f i (length f)"
    using segment_segment [OF fa(1), of "length f" i] by simp
  moreover have "segment b (t + j) (t + length g) = segment g j (length g)"
    using segment_segment [OF fa(2), of "length g" j] by simp
  moreover have "segment f i (length f) = segment g j (length g)"
    using Nil by (simp add: segment_to_end)
  ultimately show ?case using chain_gap [OF rest, of "s + i" "t + j"] Nil by simp
next
  case (Cons l inner)
  obtain s' f' t' g' where l: "l = (s', f', t', g')" by (cases l)
  from Cons.prems(1) l have h: "link_ok f g (s', f', t', g')" "i \<le> s'" "j \<le> t'" "segment f i s' = segment g j t'"
      "chain f g (s' + length f') (t' + length g') inner" by simp_all
  have b: "s' + length f' \<le> length f" "t' + length g' \<le> length g" using h(1) by (simp_all add: link_ok_def)
  have fa: "segment a s (s + length f) = f" "segment b t (t + length g) = g" using out by (simp_all add: link_ok_def)
  have "segment a (s + i) (s + s') = segment b (t + j) (t + t')"
    using segment_segment [OF fa(1), of s' i] segment_segment [OF fa(2), of t' j] h(4) b by simp
  moreover have "chain a b (s + (s' + length f')) (t + (t' + length g')) (map (shift_link s t) inner @ ls)"
    using Cons.IH [OF h(5) b] .
  ultimately show ?case
    using link_ok_inner [OF out h(1)] h(2,3) l by (simp add: add.assoc)
qed

section \<open>Compaction\<close>

lemma old_new_cover:
  assumes "list_all row_ok rs"
  shows "length rs \<le> old_count rs + new_count rs"
  using assms by (induction rs) (auto simp: old_count_def new_count_def before_rows_def after_rows_def row_ok_def)

lemma total_rows_le:
  assumes "groups_tile a b i j gs" and "lines_ok a" and "lines_ok b" and "i \<le> length a" and "j \<le> length b"
  shows "total_rows a b gs \<le> (length a - i) + (length b - j)"
  using assms(1,4,5)
proof (induction gs arbitrary: i j)
  case (Cons g gs)
  then have g: "group_ok a b g" "i \<le> o_i1 (hd g)" "j \<le> o_j1 (hd g)" by simp_all
  note f = group_ok_facts [OF g(1)]
  have IH: "total_rows a b gs \<le> (length a - o_i2 (last g)) + (length b - o_j2 (last g))"
    using Cons.IH [of "o_i2 (last g)" "o_j2 (last g)"] Cons.prems f by simp
  have "length (group_rows a b g) \<le> (o_i2 (last g) - o_i1 (hd g)) + (o_j2 (last g) - o_j1 (hd g))"
    using old_new_cover [OF group_rows_ok [OF assms(2,3)], of g] f
    by (simp add: old_count_def new_count_def segment_length)
  with IH f g(2,3) show ?case by (simp add: total_rows_def)
qed (simp add: total_rows_def)

lemma lines_ok_rows:
  assumes "list_all row_ok rs"
  shows "lines_ok (before_rows rs)" and "lines_ok (after_rows rs)"
  using assms by (auto simp: lines_ok_def before_rows_def after_rows_def list_all_iff row_ok_def)

lemma link_of_group: "link_of (group_hunk a b bo ao g) = shift_link bo ao (link_of (group_hunk a b 0 0 g))"
  by (simp add: link_of_def group_hunk_def)

lemma compact_one:
  assumes df: "differ_ok df" and h: "list_all row_ok (rh_rows h)" and "link_ok a b (link_of h)"
    and bounds: "length a + length b \<le> 2 ^ 20"
  shows "\<exists>hs. parse_review_hunks df (render_file df f (before_rows (rh_rows h)) (after_rows (rh_rows h))
        (rh_before_start h) (rh_after_start h)) False = Inr hs
    \<and> list_all (\<lambda>h. list_all row_ok (rh_rows h)) hs
    \<and> (\<exists>inner. map link_of hs = map (shift_link (rh_before_start h) (rh_after_start h)) inner
        \<and> chain (before_rows (rh_rows h)) (after_rows (rh_rows h)) 0 0 inner)"
proof -
  let ?a = "before_rows (rh_rows h)" and ?b = "after_rows (rh_rows h)"
  let ?gs = "df_grouped df 3 ?a ?b" and ?s = "rh_before_start h" and ?t = "rh_after_start h"
  note ok = lines_ok_rows [OF h]
  have tile: "groups_tile ?a ?b 0 0 ?gs" using differ_okD(1) [OF df] by simp
  have b: "?s + length ?a \<le> length a" "?t + length ?b \<le> length b"
    using assms(3) by (simp_all add: link_ok_def link_of_def)
  have rows: "total_rows ?a ?b ?gs \<le> max_compose_rows"
    using total_rows_le [OF tile ok] b bounds by (simp add: max_compose_rows_def)
  have "parse_review_hunks df (render_file df f ?a ?b ?s ?t) False = Inr (map (group_hunk ?a ?b ?s ?t) ?gs)"
    unfolding render_file_def using b bounds rows
    by (intro parse_render [OF differ_okD(3) [OF df] ok tile]) simp_all
  moreover have "list_all (\<lambda>h. list_all row_ok (rh_rows h)) (map (group_hunk ?a ?b ?s ?t) ?gs)"
    using group_rows_ok [OF ok] by (simp add: list_all_iff group_hunk_def)
  moreover have "map link_of (map (group_hunk ?a ?b ?s ?t) ?gs)
      = map (shift_link ?s ?t) (map (\<lambda>g. link_of (group_hunk ?a ?b 0 0 g)) ?gs)"
    using link_of_group [of ?a ?b ?s ?t] by (simp add: comp_def)
  moreover have "chain ?a ?b 0 0 (map (\<lambda>g. link_of (group_hunk ?a ?b 0 0 g)) ?gs)"
    using groups_chain [OF tile] by simp
  ultimately show ?thesis by blast
qed

lemma compact_chain:
  assumes df: "differ_ok df" and "list_all (\<lambda>h. list_all row_ok (rh_rows h)) hs"
    and "chain a b i j (map link_of hs)" and bounds: "length a + length b \<le> 2 ^ 20"
  shows "\<exists>cs. compact_hunks df f hs = Inr cs \<and> chain a b i j (map link_of cs)
    \<and> list_all (\<lambda>h. list_all row_ok (rh_rows h)) cs"
  using assms(2,3)
proof (induction hs arbitrary: i j)
  case (Cons h hs)
  let ?f = "before_rows (rh_rows h)" and ?g = "after_rows (rh_rows h)"
  let ?s = "rh_before_start h" and ?t = "rh_after_start h"
  have l: "link_of h = (?s, ?f, ?t, ?g)" by (simp add: link_of_def)
  from Cons.prems(2) l have h: "link_ok a b (?s, ?f, ?t, ?g)" "i \<le> ?s" "j \<le> ?t" "segment a i ?s = segment b j ?t"
      "chain a b (?s + length ?f) (?t + length ?g) (map link_of hs)" by simp_all
  from Cons.prems(1) have hr: "list_all row_ok (rh_rows h)" "list_all (\<lambda>h. list_all row_ok (rh_rows h)) hs" by simp_all
  from compact_one [OF df hr(1) _ bounds, of f] h(1) l obtain ds inner where
    ds: "parse_review_hunks df (render_file df f ?f ?g ?s ?t) False = Inr ds"
        "list_all (\<lambda>h. list_all row_ok (rh_rows h)) ds"
        "map link_of ds = map (shift_link ?s ?t) inner" "chain ?f ?g 0 0 inner" by auto
  from Cons.IH [OF hr(2) h(5)] obtain cs where
    cs: "compact_hunks df f hs = Inr cs" "chain a b (?s + length ?f) (?t + length ?g) (map link_of cs)"
        "list_all (\<lambda>h. list_all row_ok (rh_rows h)) cs" by blast
  have "chain a b (?s + 0) (?t + 0) (map (shift_link ?s ?t) inner @ map link_of cs)"
    by (rule chain_inner [OF h(1) cs(2) ds(4)]) simp_all
  then have "chain a b i j (map link_of (ds @ cs))"
    using chain_gap [of a b ?s ?t _ i j] h(2-4) ds(3) by simp
  with ds cs show ?case by simp
qed simp

section \<open>The merge loop\<close>

lemma nearest_step_best:
  assumes "distance (int at) (int s) = 0 \<longleftrightarrow> at = s"
  shows "nearest_step lines run (int s) s (Some s) = Some s"
  by (simp add: nearest_step_def)

lemma distance_pos: "distance (int x) (int s) = 0 \<longleftrightarrow> x = s" "0 \<le> distance x' s'"
  by (auto simp: distance_def)

lemma fold_nearest_keep:
  "fold (nearest_step lines run (int s)) xs (Some s) = Some s"
  by (induction xs) (auto simp: nearest_step_def distance_def)

lemma fold_nearest_before:
  "s \<notin> set xs \<Longrightarrow> best \<noteq> Some s \<Longrightarrow> fold (nearest_step lines run (int s)) xs best \<noteq> Some s"
  by (induction xs arbitrary: best) (auto simp: nearest_step_def split: option.splits if_splits)

lemma nearest_run_exact:
  assumes "segment lines s (s + length run) = run" and "i \<le> s" and "s + length run \<le> length lines"
    and "run = [] \<Longrightarrow> lines = []"
  shows "nearest_run lines run i (int s) = Some s"
proof (cases "run = []")
  case True
  with assms show ?thesis by (auto simp: nearest_run_def)
next
  case False
  let ?n = "Suc (length lines) - length run"
  have s: "s < ?n" using assms(3) by simp
  have split: "[i..<?n] = [i..<s] @ s # [Suc s..<?n]"
    using s assms(2) by (metis le_Suc_ex less_imp_le_nat upt_add_eq_append upt_conv_Cons)
  define best where "best = fold (nearest_step lines run (int s)) [i..<s] None"
  have "best \<noteq> Some s" unfolding best_def by (rule fold_nearest_before) simp_all
  then have "nearest_step lines run (int s) s best = Some s"
    using assms(1) by (auto simp: nearest_step_def distance_def split: option.splits)
  then show ?thesis
    using False fold_nearest_keep by (simp add: nearest_run_def split flip: best_def)
qed

lemma chain_end:
  assumes "chain a b i (length b) ls" and "b \<noteq> []" and "i \<le> length a"
  shows "i = length a"
proof (cases ls)
  case Nil
  with assms show ?thesis by simp
next
  case (Cons l rest)
  obtain s f t g where l: "l = (s, f, t, g)" by (cases l)
  from assms(1) Cons l have "t + length g \<le> length b" "length b \<le> t" "g = [] \<longrightarrow> b = []"
    by (simp_all add: link_ok_def)
  with assms(2) show ?thesis by (cases g) auto
qed

lemma chain_at_end:
  assumes "chain a b i j ((s, f, t, g) # ls)" and "list_all terminated (butlast b)" and "ends_unterminated g"
  shows "s + length f = length a"
proof -
  have g: "g \<noteq> []" "\<not> suffix [newline] (last g)" using assms(3) by (simp_all add: ends_unterminated_def)
  have l: "link_ok a b (s, f, t, g)" and rest: "chain a b (s + length f) (t + length g) ls"
    using assms(1) by simp_all
  have b: "t + length g \<le> length b" "segment b t (t + length g) = g" using l by (simp_all add: link_ok_def)
  have "t + length g = length b"
  proof (rule ccontr)
    assume "t + length g \<noteq> length b"
    with b(1) g(1) have k: "t + length g - 1 < length (butlast b)" by (cases g) auto
    then have "terminated (butlast b ! (t + length g - 1))" using assms(2) by (simp add: list_all_length)
    with k have "terminated (b ! (t + length g - 1))" by (simp add: nth_butlast)
    with segment_last [OF b g(1)] g(2) terminated_suffix show False by simp
  qed
  moreover from this g(1) have "b \<noteq> []" by (cases g) auto
  moreover have "s + length f \<le> length a" using l by (simp add: link_ok_def)
  ultimately show ?thesis using chain_end [of a b "s + length f" ls] rest by simp
qed

definition merged_to :: "string list \<Rightarrow> nat \<Rightarrow> nat \<Rightarrow> merge_state \<Rightarrow> bool" where
  "merged_to b i j st \<longleftrightarrow> mg_cursor st = i \<and> mg_offset st = 0 \<and> mg_output st = take j b
     \<and> mg_conflicts st = 0 \<and> mg_satisfied st = 0 \<and> mg_rejected st = []"

lemma merge_hunk_exact:
  assumes "chain a b i j ((s, f, t, g) # ls)" and "sides h undo = (f, g, s)"
    and "merged_to b i j st" and "list_all terminated (butlast b)"
  shows "\<exists>st'. merge_hunk df a undo label h st = Some st' \<and> merged_to b (s + length f) (t + length g) st'"
proof -
  have l: "segment a s (s + length f) = f" "i \<le> s" "s + length f \<le> length a" "f = [] \<Longrightarrow> a = []"
      "segment b t (t + length g) = g" "j \<le> t" "segment a i s = segment b j t"
    using assms(1) by (simp_all add: link_ok_def)
  have st: "mg_cursor st = i" "mg_offset st = 0" "mg_output st = take j b" using assms(3) by (simp_all add: merged_to_def)
  have exp: "max (int i) (int s + 0) = int s" using l(2) by simp
  have out: "take j b @ segment a i s @ g = take (t + length g) b"
    using l(5-7) segment_take_drop [of j t b] segment_take_drop [of t "t + length g" b] by (simp add: append_assoc [symmetric])
  have "ends_unterminated g \<Longrightarrow> s + length f = length a" using chain_at_end [OF assms(1,4)] .
  then show ?thesis
    using nearest_run_exact [OF l(1-4)] st exp out assms(3)
    by (auto simp: merge_hunk_def assms(2) Let_def merged_to_def)
qed

lemma merge_hunks_exact:
  assumes "chain a b i j (map lk hs)" and "\<And>h. h \<in> set hs \<Longrightarrow> (case lk h of (s, f, t, g) \<Rightarrow> sides h undo = (f, g, s))"
    and "merged_to b i j st" and "list_all terminated (butlast b)"
  shows "\<exists>st' i' j'. merge_hunks df a undo label hs st = Some st' \<and> merged_to b i' j' st'
    \<and> drop i' a = drop j' b"
  using assms(1-3)
proof (induction hs arbitrary: i j st)
  case Nil
  then show ?case by auto
next
  case (Cons h hs)
  obtain s f t g where l: "lk h = (s, f, t, g)" by (cases "lk h")
  with Cons.prems(2) [of h] have sd: "sides h undo = (f, g, s)" by simp
  from Cons.prems(1) l have ch: "chain a b i j ((s, f, t, g) # map lk hs)" by simp
  from merge_hunk_exact [OF ch sd Cons.prems(3) assms(4)] obtain st1 where
    st1: "merge_hunk df a undo label h st = Some st1" "merged_to b (s + length f) (t + length g) st1" by blast
  from ch have rest: "chain a b (s + length f) (t + length g) (map lk hs)" by simp
  from Cons.IH [OF rest Cons.prems(2) st1(2)] st1(1) show ?case by simp
qed

text \<open>
  Replaying a capture on its own before side gives its after side, and undoing it on its
  after side gives the before side, with nothing conflicting, satisfied or rejected.
\<close>

lemma merge_render:
  assumes df: "differ_ok df"
    and bounds: "length (review_lines before) + length (review_lines after) \<le> 2 ^ 20"
  shows "merge_review df (render_review_file df p q before after) (if reverse then after else before) reverse label =
    Some (Inr \<lparr>rm_content = (if reverse then before else after), rm_conflicts = 0, rm_satisfied = 0, rm_rejected = []\<rparr>)"
proof -
  define a b where "a = review_lines before" and "b = review_lines after"
  define gs where "gs = df_grouped df 10 a b"
  let ?f = "render_review_file df p q before after"
  have la: "lines_ok a" "concat a = before" "list_all terminated (butlast a)"
    and lb: "lines_ok b" "concat b = after" "list_all terminated (butlast b)"
    using review_lines_spec by (simp_all add: a_def b_def)
  have tile: "groups_tile a b 0 0 gs" using differ_okD(1) [OF df] by (simp add: gs_def)
  have rows: "total_rows a b gs \<le> max_compose_rows"
    using total_rows_le [OF tile la(1) lb(1)] bounds by (simp add: max_compose_rows_def a_def b_def)
  have f: "?f = render_groups df (paths_file p q) a b 0 0 gs"
    by (simp add: render_review_file_def a_def b_def gs_def Let_def)
  have parse: "parse_review_hunks df ?f False = Inr (map (group_hunk a b 0 0) gs)"
    unfolding f using bounds rows
    by (intro parse_render [OF differ_okD(3) [OF df] la(1) lb(1) tile]) (simp_all add: a_def b_def)
  have hr: "list_all (\<lambda>h. list_all row_ok (rh_rows h)) (map (group_hunk a b 0 0) gs)"
    using group_rows_ok [OF la(1) lb(1)] by (simp add: list_all_iff group_hunk_def)
  have ch: "chain a b 0 0 (map link_of (map (group_hunk a b 0 0) gs))"
    using groups_chain [OF tile] by (simp add: comp_def)
  from compact_chain [OF df hr ch] bounds obtain cs where
    cs: "compact_hunks df ?f (map (group_hunk a b 0 0) gs) = Inr cs" "chain a b 0 0 (map link_of cs)"
    by (auto simp: a_def b_def)
  have flags: "\<not> rf_directory ?f" "rf_incomplete ?f = ''''" "\<not> rf_binary ?f"
    by (simp_all add: f render_groups_def paths_file_def)
  have init: "merged_to xs 0 0 initial_merge" for xs by (simp add: merged_to_def initial_merge_def)
  show ?thesis
  proof (cases reverse)
    case False
    have "\<exists>st' i' j'. merge_hunks df a False label cs initial_merge = Some st' \<and> merged_to b i' j' st' \<and> drop i' a = drop j' b"
      by (rule merge_hunks_exact [OF cs(2) _ init lb(3)]) (simp add: link_of_def sides_def)
    with False parse cs(1) flags lb(2) show ?thesis
      by (auto simp: merge_review_def merged_to_def simp flip: a_def concat_append)
  next
    case True
    have sw: "chain b a 0 0 (map (\<lambda>h. swap_link (link_of h)) cs)"
      using chain_swap [OF cs(2)] by (simp add: comp_def)
    have "\<exists>st' i' j'. merge_hunks df b True label cs initial_merge = Some st' \<and> merged_to a i' j' st' \<and> drop i' b = drop j' a"
      by (rule merge_hunks_exact [OF sw _ init la(3)]) (simp add: link_of_def sides_def)
    with True parse cs(1) flags la(2) show ?thesis
      by (auto simp: merge_review_def merged_to_def simp flip: b_def concat_append)
  qed
qed

section \<open>The hunks and the counts of a capture\<close>

lemma render_review_hunks:
  assumes "differ_ok df"
    and "length (review_lines before) + length (review_lines after) \<le> 2 ^ 20"
  shows "parse_review_hunks df (render_review_file df p q before after) complete =
      Inr (map (group_hunk (review_lines before) (review_lines after) 0 0)
        (df_grouped df 10 (review_lines before) (review_lines after)))
    \<and> chain (review_lines before) (review_lines after) 0 0
        (map link_of (map (group_hunk (review_lines before) (review_lines after) 0 0)
          (df_grouped df 10 (review_lines before) (review_lines after))))
    \<and> list_all (\<lambda>h. list_all row_ok (rh_rows h)) (map (group_hunk (review_lines before) (review_lines after) 0 0)
          (df_grouped df 10 (review_lines before) (review_lines after)))"
proof -
  define a b where "a = review_lines before" and "b = review_lines after"
  define gs where "gs = df_grouped df 10 a b"
  have ok: "lines_ok a" "lines_ok b" using review_lines_spec by (simp_all add: a_def b_def)
  have tile: "groups_tile a b 0 0 gs" using differ_okD(1) [OF assms(1)] by (simp add: gs_def)
  have rows: "total_rows a b gs \<le> max_compose_rows"
    using total_rows_le [OF tile ok] assms(2) by (simp add: max_compose_rows_def a_def b_def)
  have "parse_review_hunks df (render_groups df (paths_file p q) a b 0 0 gs) complete = Inr (map (group_hunk a b 0 0) gs)"
    using assms(2) rows by (intro parse_render [OF differ_okD(3) [OF assms(1)] ok tile]) (simp_all add: a_def b_def)
  moreover have "list_all (\<lambda>h. list_all row_ok (rh_rows h)) (map (group_hunk a b 0 0) gs)"
    using group_rows_ok [OF ok] by (simp add: list_all_iff group_hunk_def)
  ultimately show ?thesis
    using groups_chain [OF tile] by (simp add: render_review_file_def Let_def comp_def flip: a_def b_def gs_def)
qed

lemma render_review_counts:
  assumes "differ_ok df"
  shows "line_counts (render_review_file df p q before after) =
    (sum_list (map (\<lambda>g. plus_rows (group_rows (review_lines before) (review_lines after) g))
       (df_grouped df 10 (review_lines before) (review_lines after))),
     sum_list (map (\<lambda>g. minus_rows (group_rows (review_lines before) (review_lines after) g))
       (df_grouped df 10 (review_lines before) (review_lines after))))"
  unfolding render_review_file_def Let_def using review_lines_spec differ_okD(3) [OF assms]
  by (intro line_counts_render) (simp_all add: paths_file_def)

lemma rows_balance:
  "list_all row_ok rs \<Longrightarrow>
    plus_rows rs - minus_rows rs = int (length (after_rows rs)) - int (length (before_rows rs))"
  by (induction rs) (auto simp: plus_rows_def minus_rows_def after_rows_def before_rows_def row_ok_def)

lemma chain_balance_from:
  assumes "chain a b i j (map link_of hs)" and "list_all (\<lambda>h. list_all row_ok (rh_rows h)) hs"
    and "i \<le> length a" and "j \<le> length b"
  shows "sum_list (map (\<lambda>h. plus_rows (rh_rows h)) hs) - sum_list (map (\<lambda>h. minus_rows (rh_rows h)) hs)
    = (int (length b) - int j) - (int (length a) - int i)"
  using assms
proof (induction hs arbitrary: i j)
  case Nil
  then have "length (drop i a) = length (drop j b)" by simp
  then have "int (length a) - int i = int (length b) - int j"
    using Nil(3,4) by (simp flip: of_nat_diff)
  then show ?case by simp
next
  case (Cons h hs)
  let ?f = "before_rows (rh_rows h)" and ?g = "after_rows (rh_rows h)"
  let ?s = "rh_before_start h" and ?t = "rh_after_start h"
  have l: "link_of h = (?s, ?f, ?t, ?g)" by (simp add: link_of_def)
  from Cons.prems(1) l have h: "link_ok a b (?s, ?f, ?t, ?g)" "i \<le> ?s" "j \<le> ?t" "segment a i ?s = segment b j ?t"
      "chain a b (?s + length ?f) (?t + length ?g) (map link_of hs)" by simp_all
  have b: "?s + length ?f \<le> length a" "?t + length ?g \<le> length b" using h(1) by (simp_all add: link_ok_def)
  have "?s - i = ?t - j" using arg_cong [OF h(4), of length] b by (simp add: segment_length)
  then have gap: "int ?s - int i = int ?t - int j" using h(2,3) by simp
  have rest: "sum_list (map (\<lambda>h. plus_rows (rh_rows h)) hs) - sum_list (map (\<lambda>h. minus_rows (rh_rows h)) hs)
      = (int (length b) - int (?t + length ?g)) - (int (length a) - int (?s + length ?f))"
    using Cons.IH [OF h(5) _ b] Cons.prems(2) by simp
  have "plus_rows (rh_rows h) - minus_rows (rh_rows h) = int (length ?g) - int (length ?f)"
    using Cons.prems(2) by (intro rows_balance) simp
  with rest gap show ?case by simp
qed

lemma chain_balance:
  assumes "list_all (\<lambda>h. list_all row_ok (rh_rows h)) hs" and "chain a b 0 0 (map link_of hs)"
  shows "sum_list (map (\<lambda>h. plus_rows (rh_rows h)) hs) - sum_list (map (\<lambda>h. minus_rows (rh_rows h)) hs)
    = int (length b) - int (length a)"
  using chain_balance_from [OF assms(2,1)] by simp

end
