(* ===== verification/Diff_Learning.thy ===== *)
theory Diff_Learning
  imports Diff_Tiling Diff_Replay
begin

text \<open>
  What a composition stands for: the original and the current text, the lines known of either,
  and the regions that tile the change.  Learning a capture of the current text adds only true
  lines, never fails, and collects the edits that lead to the captured text.
\<close>

section \<open>Known lines\<close>

definition known :: "line_map \<Rightarrow> string list \<Rightarrow> bool" where
  "known m xs \<longleftrightarrow> distinct (map fst m)
     \<and> (\<forall>(p, l) \<in> set m. 0 \<le> p \<and> nat p < length xs \<and> xs ! nat p = l)"

abbreviation knows :: "line_map \<Rightarrow> int \<Rightarrow> bool" where
  "knows m p \<equiv> alist_get m p \<noteq> None"

lemma knownD: "known m xs \<Longrightarrow> alist_get m p = Some l \<Longrightarrow> 0 \<le> p \<and> nat p < length xs \<and> xs ! nat p = l"
  by (auto simp: known_def dest: map_of_SomeD)

lemma set_put: "set (alist_put k v m) \<subseteq> insert (k, v) (set m)"
  by (induction m) auto

lemma known_put:
  assumes "known m xs" and "p < length xs" and "xs ! p = l"
  shows "known (alist_put (int p) l m) xs"
proof -
  have "distinct (map fst (alist_put (int p) l m))" using assms(1) by (simp add: known_def alist_put_distinct)
  moreover have "\<forall>(q, l') \<in> set (alist_put (int p) l m). 0 \<le> q \<and> nat q < length xs \<and> xs ! nat q = l'"
    using assms set_put [of "int p" l m] by (fastforce simp: known_def)
  ultimately show ?thesis by (simp add: known_def)
qed

lemma known_size:
  assumes "known m xs"
  shows "length m \<le> length xs"
proof -
  have "set (map fst m) \<subseteq> int ` {..<length xs}"
  proof
    fix p
    assume "p \<in> set (map fst m)"
    then obtain l where "(p, l) \<in> set m" by auto
    with assms have "0 \<le> p" "nat p < length xs" by (auto simp: known_def)
    then show "p \<in> int ` {..<length xs}" by (intro image_eqI [of _ _ "nat p"]) simp_all
  qed
  then have "card (set (map fst m)) \<le> length xs"
    using card_mono [of "int ` {..<length xs}" "set (map fst m)"] by (simp add: card_image)
  moreover have "card (set (map fst m)) = length m" using assms by (simp add: known_def distinct_card del: set_map)
  ultimately show ?thesis by simp
qed

lemma known_differs_not: "known m xs \<Longrightarrow> p < length xs \<Longrightarrow> xs ! p = l \<Longrightarrow> \<not> known_differs m (int p) l"
  by (auto simp: known_differs_def dest: knownD split: option.splits)

section \<open>Representation\<close>

definition covered :: "line_map \<Rightarrow> region list \<Rightarrow> bool" where
  "covered m rs \<longleftrightarrow> (\<forall>r \<in> set rs. \<forall>k. a_start r \<le> k \<longrightarrow> k < a_end r \<longrightarrow> knows m (int k))"

definition represents :: "string list \<Rightarrow> string list \<Rightarrow> composition \<Rightarrow> bool" where
  "represents a b c \<longleftrightarrow> tiles a b 0 0 (cm_regions c) (length a) (length b)
     \<and> known (cm_original c) a \<and> known (cm_current c) b \<and> covered (cm_current c) (cm_regions c)"

lemma original_from_true:
  assumes "tiles a b i j rs i' j'" and "j \<le> p" and "p < j'"
    and "original_from rs (int p) (int j - int i) = Some x"
  shows "0 \<le> x \<and> nat x < length a \<and> a ! nat x = b ! p"
  using assms
proof (induction rs arbitrary: i j)
  case Nil
  then have h: "i \<le> i'" "j \<le> j'" "i' \<le> length a" "j' \<le> length b" "segment a i i' = segment b j j'"
    and x: "x = int p - (int j - int i)" by simp_all
  have l: "i' - i = j' - j" by (rule segment_equal_cut(1) [OF h(5,3,4,1,2), of 0]) simp
  have "segment a i i' ! (p - j) = segment b j j' ! (p - j)" using h(5) by simp
  then have "a ! (i + (p - j)) = b ! (j + (p - j))" using Nil.prems l h by (simp add: segment_def)
  moreover have "nat x = i + (p - j)" "0 \<le> x" using x Nil.prems(2) by simp_all
  moreover have "i + (p - j) < length a" using l h Nil.prems by linarith
  ultimately show ?case using Nil.prems(2) by simp
next
  case (Cons r rs)
  then have r: "region_at a b r" "i \<le> b_start r" "j \<le> a_start r" "segment a i (b_start r) = segment b j (a_start r)"
      "tiles a b (b_end r) (a_end r) rs i' j'" by simp_all
  have le: "b_start r \<le> length a" "a_start r \<le> length b"
    using r(1) start_le_end [of r] unfolding region_at_def by linarith+
  have l: "b_start r - i = a_start r - j" by (rule segment_equal_cut(1) [OF r(4) le r(2,3), of 0]) simp
  have at: "rg_after_start r = int (a_start r)" "rg_after_start r + len (rg_after r) = int (a_end r)"
    using r(1) by (simp_all add: region_at_def places len_def)
  show ?case
  proof (cases "p < a_start r")
    case True
    then have x: "x = int p - (int j - int i)" using Cons.prems(4) at by simp
    have "segment a i (b_start r) ! (p - j) = segment b j (a_start r) ! (p - j)" using r(4) by simp
    then have "a ! (i + (p - j)) = b ! (j + (p - j))" using Cons.prems(2) True l le by (simp add: segment_def)
    moreover have "nat x = i + (p - j)" "0 \<le> x" using x Cons.prems(2) by simp_all
    moreover have "i + (p - j) < length a" using l le Cons.prems(2) True r(2) by linarith
    ultimately show ?thesis using Cons.prems(2) by simp
  next
    case False
    then have "a_end r \<le> p" using Cons.prems(4) at by (auto split: if_splits)
    moreover have "int j - int i + len (rg_after r) - len (rg_before r) = int (a_end r) - int (b_end r)"
      using l r(2,3) by (simp add: a_end_def b_end_def len_def)
    ultimately show ?thesis using Cons.IH [OF r(5) _ Cons.prems(3)] Cons.prems(4) False at by simp
  qed
qed

lemma original_position_true:
  assumes "represents a b c" and "p < length b" and "original_position c (int p) = Some x"
  shows "0 \<le> x \<and> nat x < length a \<and> a ! nat x = b ! p"
  using assms original_from_true [of a b 0 0 "cm_regions c" "length a" "length b" p x]
  by (simp add: represents_def original_position_def)

section \<open>Learning\<close>

text \<open>The composition has learned lines and is otherwise the same.\<close>

definition more_known :: "composition \<Rightarrow> composition \<Rightarrow> bool" where
  "more_known c d \<longleftrightarrow> cm_regions d = cm_regions c \<and> cm_started d = cm_started c
     \<and> cm_before_path d = cm_before_path c \<and> cm_after_path d = cm_after_path c
     \<and> (\<forall>q. knows (cm_current c) q \<longrightarrow> knows (cm_current d) q)"

lemma more_known_refl [simp]: "more_known c c"
  by (simp add: more_known_def)

lemma more_known_trans: "more_known c d \<Longrightarrow> more_known d e \<Longrightarrow> more_known c e"
  by (simp add: more_known_def)

lemma represents_more:
  assumes "represents a b c" and "more_known c d" and "known (cm_original d) a" and "known (cm_current d) b"
  shows "represents a b d"
  using assms by (simp add: represents_def more_known_def covered_def)

lemma learn_line_ok:
  assumes rep: "represents a b c" and p: "p < length b" and l: "b ! p = l"
  shows "\<exists>d. learn_line l (int p) c = Inr d \<and> represents a b d \<and> more_known c d \<and> knows (cm_current d) (int p)"
proof -
  have k: "known (cm_original c) a" "known (cm_current c) b" using rep by (simp_all add: represents_def)
  let ?c = "c\<lparr>cm_current := alist_put (int p) l (cm_current c)\<rparr>"
  have k1: "known (cm_current ?c) b" using known_put [OF k(2) p l] by simp
  have m1: "more_known c ?c" by (simp add: more_known_def)
  have r1: "represents a b ?c" by (rule represents_more [OF rep m1]) (use k k1 in simp_all)
  have s: "learn_line l (int p) c = (case original_position ?c (int p) of None \<Rightarrow> Inr ?c
      | Some x \<Rightarrow> if known_differs (cm_original ?c) x l
          then Inl (Err ''captured original context does not match the composed chain'')
          else Inr (?c\<lparr>cm_original := alist_put x l (cm_original ?c)\<rparr>))"
    using known_differs_not [OF k(2) p l] by (simp add: learn_line_def Let_def)
  show ?thesis
  proof (cases "original_position ?c (int p)")
    case None
    with s r1 m1 show ?thesis by auto
  next
    case (Some x)
    have x: "0 \<le> x" "nat x < length a" "a ! nat x = l" using original_position_true [OF r1 p Some] l by simp_all
    then have e: "int (nat x) = x" by simp
    have nd: "\<not> known_differs (cm_original ?c) x l" using known_differs_not [of "cm_original ?c" a "nat x" l] k(1) x by simp
    let ?d = "?c\<lparr>cm_original := alist_put x l (cm_original ?c)\<rparr>"
    have m2: "more_known c ?d" by (simp add: more_known_def)
    have "known (cm_original ?d) a" using known_put [OF k(1) x(2,3)] e by simp
    then have "represents a b ?d" using represents_more [OF rep m2] k1 by simp
    with s Some nd m2 show ?thesis by simp
  qed
qed

section \<open>Edits\<close>

definition e_start :: "review_edit \<Rightarrow> nat" where "e_start e = nat (ed_start e)"
definition e_end :: "review_edit \<Rightarrow> nat" where "e_end e = e_start e + length (ed_before e)"

definition edit_at :: "string list \<Rightarrow> review_edit \<Rightarrow> bool" where
  "edit_at b e \<longleftrightarrow> 0 \<le> ed_start e \<and> segment b (e_start e) (e_end e) = ed_before e \<and> e_end e \<le> length b
     \<and> (ed_before e \<noteq> [] \<or> ed_after e \<noteq> [])"

fun edits_at :: "string list \<Rightarrow> nat \<Rightarrow> review_edit list \<Rightarrow> nat \<Rightarrow> bool" where
  "edits_at b i [] p \<longleftrightarrow> i \<le> p \<and> p \<le> length b"
| "edits_at b i (e # es) p \<longleftrightarrow> edit_at b e \<and> i \<le> e_start e \<and> edits_at b (e_end e) es p"

fun rewritten :: "string list \<Rightarrow> nat \<Rightarrow> review_edit list \<Rightarrow> nat \<Rightarrow> string list" where
  "rewritten b i [] p = segment b i p"
| "rewritten b i (e # es) p = segment b i (e_start e) @ ed_after e @ rewritten b (e_end e) es p"

lemma e_start_le: "e_start e \<le> e_end e"
  by (simp add: e_end_def)

lemma edits_at_le: "edits_at b i es p \<Longrightarrow> i \<le> p \<and> p \<le> length b"
proof (induction es arbitrary: i)
  case (Cons e es)
  then have t: "edits_at b (e_end e) es p" and "i \<le> e_start e" by simp_all
  with Cons.IH [OF t] e_start_le [of e] show ?case by linarith
qed simp

lemma edits_at_snoc:
  "edits_at b i (es @ [e]) p \<longleftrightarrow> edits_at b i es (e_start e) \<and> edit_at b e \<and> e_end e \<le> p \<and> p \<le> length b"
proof (induction es arbitrary: i)
  case Nil
  show ?case using e_start_le [of e] by (auto simp: edit_at_def)
qed auto

lemma rewritten_snoc:
  "rewritten b i (es @ [e]) p = rewritten b i es (e_start e) @ ed_after e @ segment b (e_end e) p"
  by (induction es arbitrary: i) simp_all

lemma edits_at_further:
  assumes "edits_at b i es p" and "p \<le> q" and "q \<le> length b"
  shows "edits_at b i es q" and "rewritten b i es q = rewritten b i es p @ segment b p q"
proof -
  show "edits_at b i es q" using assms by (induction es arbitrary: i) auto
  show "rewritten b i es q = rewritten b i es p @ segment b p q"
    using assms
  proof (induction es arbitrary: i)
    case Nil
    then show ?case using segment_append [of i p q b] by simp
  qed simp
qed

definition spans_known :: "line_map \<Rightarrow> review_edit list \<Rightarrow> bool" where
  "spans_known m es \<longleftrightarrow> (\<forall>e \<in> set es. \<forall>k. e_start e \<le> k \<longrightarrow> k < e_end e \<longrightarrow> knows m (int k))"

text \<open>The state of learning at a position: the edits so far turn the text up to it into \<open>done\<close>.\<close>

definition learned :: "string list \<Rightarrow> string list \<Rightarrow> composition \<Rightarrow> nat \<Rightarrow> string list \<Rightarrow> learning \<Rightarrow> bool" where
  "learned a b c p out l \<longleftrightarrow> represents a b (le_composition l) \<and> more_known c (le_composition l)
     \<and> le_position l = int p \<and> edits_at b 0 (le_edits l) p \<and> rewritten b 0 (le_edits l) p = out
     \<and> (le_open l \<longrightarrow> le_edits l \<noteq> [] \<and> e_end (last (le_edits l)) = p)
     \<and> spans_known (cm_current (le_composition l)) (le_edits l)"

text \<open>The edit in progress: the last one when it is open, an empty one at the position otherwise.\<close>

lemma edit_in_progress:
  assumes "learned a b c p out l"
  obtains es e where "(if le_open l then le_edits l
      else le_edits l @ [\<lparr>ed_start = le_position l, ed_before = [], ed_after = []\<rparr>]) = es @ [e]"
    and "edits_at b 0 es (e_start e)" and "0 \<le> ed_start e" and "segment b (e_start e) (e_end e) = ed_before e"
    and "e_end e = p" and "rewritten b 0 es (e_start e) @ ed_after e = out"
    and "spans_known (cm_current (le_composition l)) (es @ [e])"
proof (cases "le_open l")
  case True
  with assms obtain es e where e: "le_edits l = es @ [e]" "e_end e = p"
    unfolding learned_def by (metis append_butlast_last_id)
  with assms have h: "edits_at b 0 (es @ [e]) p" "rewritten b 0 (es @ [e]) p = out"
      "spans_known (cm_current (le_composition l)) (es @ [e])"
    by (simp_all add: learned_def)
  show ?thesis
  proof (rule that [of es e])
    show "edits_at b 0 es (e_start e)" using h(1) by (simp add: edits_at_snoc)
    show "0 \<le> ed_start e" "segment b (e_start e) (e_end e) = ed_before e"
      using h(1) by (simp_all add: edits_at_snoc edit_at_def)
    show "rewritten b 0 es (e_start e) @ ed_after e = out" using h(2) e(2) by (simp add: rewritten_snoc)
  qed (use True e h in simp_all)
next
  case False
  with assms show ?thesis
    by (intro that [of "le_edits l" "\<lparr>ed_start = le_position l, ed_before = [], ed_after = []\<rparr>"])
      (simp_all add: learned_def e_start_def e_end_def spans_known_def)
qed

lemma spans_known_more:
  "spans_known m es \<Longrightarrow> (\<And>q. knows m q \<Longrightarrow> knows m' q) \<Longrightarrow> spans_known m' es"
  unfolding spans_known_def by blast

lemma segment_snoc:
  assumes "i \<le> p" and "p < length xs"
  shows "segment xs i (Suc p) = segment xs i p @ [xs ! p]"
proof -
  have "segment xs p (Suc p) = [xs ! p]" using assms(2) by (simp add: segment_def take_Suc hd_drop_conv_nth)
  then show ?thesis using segment_append [of i p "Suc p" xs] assms(1) by simp
qed

lemma learn_edit_minus:
  assumes l: "learned a b c p out l" and rw: "rr_kind rw = CHR ''-''" and p: "p < length b" "b ! p = rr_text rw"
    and k: "knows (cm_current (le_composition l)) (int p)"
  shows "learned a b c (Suc p) out ((learn_edit rw l)\<lparr>le_position := le_position (learn_edit rw l) + 1\<rparr>)"
proof -
  obtain es e where e: "(if le_open l then le_edits l
      else le_edits l @ [\<lparr>ed_start = le_position l, ed_before = [], ed_after = []\<rparr>]) = es @ [e]"
    "edits_at b 0 es (e_start e)" "0 \<le> ed_start e" "segment b (e_start e) (e_end e) = ed_before e"
    "e_end e = p" "rewritten b 0 es (e_start e) @ ed_after e = out"
    "spans_known (cm_current (le_composition l)) (es @ [e])"
    by (rule edit_in_progress [OF l])
  let ?e = "e\<lparr>ed_before := ed_before e @ [rr_text rw]\<rparr>"
  have s: "learn_edit rw l = l\<lparr>le_edits := es @ [?e], le_open := True\<rparr>"
    unfolding learn_edit_def e(1) by (simp add: rw extend_edit_def)
  have se: "e_start ?e = e_start e" "e_end ?e = Suc p" using e(5) by (simp_all add: e_start_def e_end_def)
  have "segment b (e_start e) (Suc p) = ed_before e @ [rr_text rw]"
    using segment_snoc [of "e_start e" p b] e_start_le [of e] e(4,5) p by simp
  then have at: "edit_at b ?e" using se e(3) p(1) by (simp add: edit_at_def)
  have "edits_at b 0 (es @ [?e]) (Suc p)" using e(2) at se p(1) by (simp add: edits_at_snoc)
  moreover have "rewritten b 0 (es @ [?e]) (Suc p) = out" using e(6) se by (simp add: rewritten_snoc)
  moreover have "spans_known (cm_current (le_composition l)) (es @ [?e])"
    using e(5,7) k se by (auto simp: spans_known_def less_Suc_eq)
  ultimately show ?thesis using l se by (simp add: s learned_def)
qed

lemma learn_edit_plus:
  assumes l: "learned a b c p out l" and rw: "rr_kind rw = CHR ''+''"
  shows "learned a b c p (out @ [rr_text rw]) (learn_edit rw l)"
proof -
  obtain es e where e: "(if le_open l then le_edits l
      else le_edits l @ [\<lparr>ed_start = le_position l, ed_before = [], ed_after = []\<rparr>]) = es @ [e]"
    "edits_at b 0 es (e_start e)" "0 \<le> ed_start e" "segment b (e_start e) (e_end e) = ed_before e"
    "e_end e = p" "rewritten b 0 es (e_start e) @ ed_after e = out"
    "spans_known (cm_current (le_composition l)) (es @ [e])"
    by (rule edit_in_progress [OF l])
  let ?e = "e\<lparr>ed_after := ed_after e @ [rr_text rw]\<rparr>"
  have s: "learn_edit rw l = l\<lparr>le_edits := es @ [?e], le_open := True\<rparr>"
    unfolding learn_edit_def e(1) by (simp add: rw extend_edit_def)
  have se: "e_start ?e = e_start e" "e_end ?e = p" using e(5) by (simp_all add: e_start_def e_end_def)
  have p: "p \<le> length b" using l edits_at_le [of b 0 "le_edits l" p] by (simp add: learned_def)
  have at: "edit_at b ?e" using se e(3-5) p by (simp add: edit_at_def)
  have "edits_at b 0 (es @ [?e]) p" using e(2) at se p by (simp add: edits_at_snoc)
  moreover have "rewritten b 0 (es @ [?e]) p = out @ [rr_text rw]"
    using e(6) se by (simp add: rewritten_snoc)
  moreover have "spans_known (cm_current (le_composition l)) (es @ [?e])"
    using e(5,7) se by (auto simp: spans_known_def)
  ultimately show ?thesis using l se by (simp add: s learned_def)
qed

lemma learn_edit_context:
  assumes l: "learned a b c p out l" and rw: "rr_kind rw = CHR '' ''" and p: "p < length b" "b ! p = rr_text rw"
  shows "learned a b c (Suc p) (out @ [rr_text rw])
    ((learn_edit rw l)\<lparr>le_position := le_position (learn_edit rw l) + 1\<rparr>)"
proof -
  have e: "edits_at b 0 (le_edits l) p" "rewritten b 0 (le_edits l) p = out" using l by (simp_all add: learned_def)
  have "segment b p (Suc p) = [rr_text rw]" using segment_snoc [of p p b] p by simp
  then show ?thesis
    using edits_at_further [OF e(1), of "Suc p"] e(2) p(1) l by (simp add: learn_edit_def rw learned_def)
qed

lemma learn_row_ok:
  assumes l: "learned a b c p out l" and rw: "row_ok rw"
    and p: "rr_kind rw \<noteq> CHR ''+'' \<Longrightarrow> p < length b \<and> b ! p = rr_text rw"
  shows "\<exists>l'. learn_row rw l = Inr l'
    \<and> learned a b c (p + (if rr_kind rw \<noteq> CHR ''+'' then 1 else 0))
        (out @ (if rr_kind rw \<noteq> CHR ''-'' then [rr_text rw] else [])) l'"
proof -
  have kind: "rr_kind rw \<in> {CHR '' '', CHR ''+'', CHR ''-''}" using rw by (simp add: row_ok_def)
  show ?thesis
  proof (cases "rr_kind rw = CHR ''+''")
    case True
    with learn_edit_plus [OF l True] show ?thesis by (simp add: learn_row_def)
  next
    case False
    note p = p [OF False]
    have pos: "le_position l = int p" and rep: "represents a b (le_composition l)" using l by (simp_all add: learned_def)
    from learn_line_ok [OF rep] p obtain d where
      d: "learn_line (rr_text rw) (int p) (le_composition l) = Inr d" "represents a b d"
         "more_known (le_composition l) d" "knows (cm_current d) (int p)" by blast
    let ?l = "l\<lparr>le_composition := d\<rparr>"
    have spans: "spans_known (cm_current d) (le_edits l)"
      by (rule spans_known_more [of "cm_current (le_composition l)"])
        (use l d(3) in \<open>auto simp: learned_def more_known_def\<close>)
    have l': "learned a b c p out ?l"
      using l d(2) spans more_known_trans [OF _ d(3), of c] by (simp add: learned_def)
    have s: "learn_row rw l = Inr ((learn_edit rw ?l)\<lparr>le_position := le_position (learn_edit rw ?l) + 1\<rparr>)"
      using False d(1) by (simp add: learn_row_def pos Let_def)
    from kind False consider "rr_kind rw = CHR ''-''" | "rr_kind rw = CHR '' ''" by blast
    then show ?thesis
    proof cases
      case 1
      with s False learn_edit_minus [OF l' 1] p d(4) show ?thesis by simp
    next
      case 2
      with s False learn_edit_context [OF l' 2] p show ?thesis by simp
    qed
  qed
qed

lemma learn_rows_ok:
  assumes "learned a b c p out l" and "list_all row_ok rows" and "p + length (before_rows rows) \<le> length b"
    and "segment b p (p + length (before_rows rows)) = before_rows rows"
  shows "\<exists>l'. learn_rows rows l = Inr l'
    \<and> learned a b c (p + length (before_rows rows)) (out @ after_rows rows) l'"
  using assms
proof (induction rows arbitrary: p out l)
  case Nil
  then show ?case by (simp add: before_rows_def after_rows_def)
next
  case (Cons rw rows)
  let ?n = "if rr_kind rw \<noteq> CHR ''+'' then 1 else 0 :: nat"
  have split: "before_rows (rw # rows) = (if rr_kind rw \<noteq> CHR ''+'' then [rr_text rw] else []) @ before_rows rows"
      "after_rows (rw # rows) = (if rr_kind rw \<noteq> CHR ''-'' then [rr_text rw] else []) @ after_rows rows"
    by (simp_all add: before_rows_def after_rows_def)
  have len: "length (before_rows (rw # rows)) = ?n + length (before_rows rows)" by (simp add: split)
  have here: "p < length b \<and> b ! p = rr_text rw" if "rr_kind rw \<noteq> CHR ''+''"
  proof -
    have "p < length b" using Cons.prems(3) len that by simp
    moreover have "segment b p (p + length (before_rows (rw # rows))) ! 0 = rr_text rw"
      using Cons.prems(4) split(1) that by simp
    ultimately show ?thesis using len that by (simp add: segment_def)
  qed
  have rest: "segment b (p + ?n) (p + ?n + length (before_rows rows)) = before_rows rows"
  proof -
    have "segment b (p + ?n) (p + length (before_rows (rw # rows)))
        = drop ?n (segment b p (p + length (before_rows (rw # rows))))"
      unfolding len by (simp add: segment_def drop_take add.commute)
    then show ?thesis using Cons.prems(4) split(1) len by (simp add: add.assoc)
  qed
  from learn_row_ok [OF Cons.prems(1) _ here] Cons.prems(2) obtain l1 where
    l1: "learn_row rw l = Inr l1"
      "learned a b c (p + ?n) (out @ (if rr_kind rw \<noteq> CHR ''-'' then [rr_text rw] else [])) l1" by auto
  have b: "p + ?n + length (before_rows rows) \<le> length b" using Cons.prems(3) len by simp
  from Cons.IH [OF l1(2) _ b rest] Cons.prems(2) obtain l' where
    l': "learn_rows rows l1 = Inr l'"
    "learned a b c (p + ?n + length (before_rows rows)) ((out @ (if rr_kind rw \<noteq> CHR ''-'' then [rr_text rw] else [])) @ after_rows rows) l'"
    by auto
  have "learned a b c (p + length (before_rows (rw # rows))) (out @ after_rows (rw # rows)) l'"
    using l'(2) unfolding len split(2) by (simp only: add.assoc append_assoc)
  with l1(1) l'(1) show ?case by simp
qed

lemma learn_hunks_ok:
  assumes "chain b b' i j (map link_of hs)" and "list_all (\<lambda>h. list_all row_ok (rh_rows h)) hs"
    and "represents a b c0" and "more_known c c0" and "edits_at b 0 es i" and "rewritten b 0 es i = take j b'"
    and "spans_known (cm_current c0) es"
  shows "\<exists>d es'. learn_hunks hs c0 es = Inr (d, es') \<and> represents a b d \<and> more_known c d
    \<and> edits_at b 0 es' (length b) \<and> rewritten b 0 es' (length b) = b' \<and> spans_known (cm_current d) es'"
  using assms
proof (induction hs arbitrary: i j c0 es)
  case Nil
  then have "i \<le> length b" "j \<le> length b'" "drop i b = drop j b'" by simp_all
  moreover have "segment b i (length b) = drop i b" by (simp add: segment_def)
  ultimately show ?case using Nil edits_at_further [OF Nil.prems(5), of "length b"] by simp
next
  case (Cons h hs)
  let ?f = "before_rows (rh_rows h)" and ?g = "after_rows (rh_rows h)"
  let ?s = "rh_before_start h" and ?t = "rh_after_start h"
  have link: "link_of h = (?s, ?f, ?t, ?g)" by (simp add: link_of_def)
  from Cons.prems(1) link have h: "link_ok b b' (?s, ?f, ?t, ?g)" "i \<le> ?s" "j \<le> ?t" "segment b i ?s = segment b' j ?t"
      "chain b b' (?s + length ?f) (?t + length ?g) (map link_of hs)" by simp_all
  have lk: "?s + length ?f \<le> length b" "segment b ?s (?s + length ?f) = ?f" "segment b' ?t (?t + length ?g) = ?g"
    using h(1) by (simp_all add: link_ok_def)
  have ok: "list_all row_ok (rh_rows h)" "list_all (\<lambda>h. list_all row_ok (rh_rows h)) hs" using Cons.prems(2) by simp_all
  let ?l = "\<lparr>le_composition = c0, le_position = int ?s, le_edits = es, le_open = False\<rparr>"
  have "?s \<le> length b" using lk(1) by simp
  note further = edits_at_further [OF Cons.prems(5) h(2) this]
  have "rewritten b 0 es ?s = take ?t b'"
    using further(2) Cons.prems(6) h(4) segment_take_drop [OF h(3), of b'] by simp
  then have start: "learned a b c ?s (take ?t b') ?l"
    using Cons.prems further(1) by (simp add: learned_def)
  from learn_rows_ok [OF start ok(1) lk(1,2)] obtain l where
    l: "learn_rows (rh_rows h) ?l = Inr l" "learned a b c (?s + length ?f) (take ?t b' @ ?g) l" by blast
  have "take ?t b' @ ?g = take (?t + length ?g) b'"
    using segment_take_drop [of ?t "?t + length ?g" b'] lk(3) by simp
  with l(2) have l2: "represents a b (le_composition l)" "more_known c (le_composition l)"
      "edits_at b 0 (le_edits l) (?s + length ?f)" "rewritten b 0 (le_edits l) (?s + length ?f) = take (?t + length ?g) b'"
      "spans_known (cm_current (le_composition l)) (le_edits l)"
    by (simp_all add: learned_def)
  from Cons.IH [OF h(5) ok(2) l2] l(1) show ?case by simp
qed

end
