(* ===== verification/Diff_Applying.thy ===== *)
theory Diff_Applying
  imports Diff_Learning
begin

text \<open>
  Applying an edit to a composition: when the composition stands for the change from one text to
  another and the edit is true of the second, the result exists and stands for the change to
  the edited text.
\<close>

section \<open>Shifting the known lines\<close>

definition edited :: "string list \<Rightarrow> review_edit \<Rightarrow> string list" where
  "edited b e = take (e_start e) b @ ed_after e @ drop (e_end e) b"

definition kept_lines :: "int \<Rightarrow> int \<Rightarrow> int \<Rightarrow> line_map \<Rightarrow> line_map" where
  "kept_lines lo hi shift m =
     concat (map (\<lambda>(p, l). if p < lo then [(p, l)] else if hi \<le> p then [(p + shift, l)] else []) m)"

lemma kept_lines_simps [simp]:
  "kept_lines lo hi shift [] = []"
  "kept_lines lo hi shift ((p, l) # m) =
    (if p < lo then [(p, l)] else if hi \<le> p then [(p + shift, l)] else []) @ kept_lines lo hi shift m"
  by (simp_all add: kept_lines_def)

lemma kept_lines_set:
  "(q, l) \<in> set (kept_lines lo hi shift m) \<longleftrightarrow>
    (\<exists>p. (p, l) \<in> set m \<and> (p < lo \<and> q = p \<or> lo \<le> p \<and> hi \<le> p \<and> q = p + shift))"
proof (induction m)
  case (Cons x m)
  obtain p l' where x: "x = (p, l')" by (cases x)
  consider "p < lo" | "\<not> p < lo" "hi \<le> p" | "\<not> p < lo" "\<not> hi \<le> p" by blast
  then show ?case using Cons by cases (auto simp: x)
qed simp

lemma kept_lines_keys:
  "q \<in> fst ` set (kept_lines lo hi shift m) \<longleftrightarrow>
    (\<exists>p \<in> fst ` set m. p < lo \<and> q = p \<or> lo \<le> p \<and> hi \<le> p \<and> q = p + shift)"
proof -
  have "q \<in> fst ` set (kept_lines lo hi shift m) \<longleftrightarrow> (\<exists>l. (q, l) \<in> set (kept_lines lo hi shift m))" by force
  also have "\<dots> \<longleftrightarrow> (\<exists>l p. (p, l) \<in> set m \<and> (p < lo \<and> q = p \<or> lo \<le> p \<and> hi \<le> p \<and> q = p + shift))"
    by (simp only: kept_lines_set)
  also have "\<dots> \<longleftrightarrow> (\<exists>p \<in> fst ` set m. p < lo \<and> q = p \<or> lo \<le> p \<and> hi \<le> p \<and> q = p + shift)" by force
  finally show ?thesis .
qed

lemma knows_in: "knows m p \<longleftrightarrow> p \<in> fst ` set m"
  by (simp add: map_of_eq_None_iff)

lemma kept_lines_distinct:
  assumes "distinct (map fst m)" and "lo \<le> hi" and "lo \<le> hi + shift"
  shows "distinct (map fst (kept_lines lo hi shift m))"
  using assms(1)
proof (induction m)
  case (Cons x m)
  obtain p l where x: "x = (p, l)" by (cases x)
  have p: "p \<notin> fst ` set m" using Cons.prems x by simp
  have "p \<notin> fst ` set (kept_lines lo hi shift m)" if "p < lo"
    unfolding kept_lines_keys using p that assms(3) by auto
  moreover have "p + shift \<notin> fst ` set (kept_lines lo hi shift m)" if "\<not> p < lo" "hi \<le> p"
    unfolding kept_lines_keys using p that assms(3) by auto
  ultimately show ?case using Cons x by simp
qed simp

lemma put_run:
  "known m xs \<Longrightarrow> (\<And>i. i < n \<Longrightarrow> lo + i < length xs \<and> xs ! (lo + i) = ys ! i)
    \<Longrightarrow> known (fold (\<lambda>i m. alist_put (int lo + int i) (ys ! i) m) [0..<n] m) xs
      \<and> (\<forall>q. knows (fold (\<lambda>i m. alist_put (int lo + int i) (ys ! i) m) [0..<n] m) q \<longleftrightarrow>
          knows m q \<or> int lo \<le> q \<and> q < int (lo + n))"
proof (induction n)
  case (Suc n)
  let ?f = "fold (\<lambda>i m. alist_put (int lo + int i) (ys ! i) m) [0..<n] m"
  have IH: "known ?f xs" "\<forall>q. knows ?f q \<longleftrightarrow> knows m q \<or> int lo \<le> q \<and> q < int (lo + n)"
    using Suc by simp_all
  have "known (alist_put (int (lo + n)) (ys ! n) ?f) xs"
    using Suc.prems(2) [of n] by (intro known_put [OF IH(1)]) simp_all
  then have "known (alist_put (int lo + int n) (ys ! n) ?f) xs" by simp
  moreover have "knows (alist_put (int lo + int n) (ys ! n) ?f) q \<longleftrightarrow> knows m q \<or> int lo \<le> q \<and> q < int (lo + Suc n)" for q
    using IH(2) by auto
  ultimately show ?case by simp
qed auto

lemma shift_lines_ok:
  assumes m: "known m b" and e: "edit_at b e"
  shows "known (shift_lines (ed_start e) (ed_start e + len (ed_before e)) (ed_after e) m) (edited b e)"
    and "k < e_start e \<Longrightarrow> knows m (int k) \<Longrightarrow>
      knows (shift_lines (ed_start e) (ed_start e + len (ed_before e)) (ed_after e) m) (int k)"
    and "e_start e \<le> k \<Longrightarrow> k < e_start e + length (ed_after e) \<Longrightarrow>
      knows (shift_lines (ed_start e) (ed_start e + len (ed_before e)) (ed_after e) m) (int k)"
    and "e_end e \<le> k \<Longrightarrow> knows m (int k) \<Longrightarrow>
      knows (shift_lines (ed_start e) (ed_start e + len (ed_before e)) (ed_after e) m)
        (int (k - e_end e + (e_start e + length (ed_after e))))"
proof -
  let ?lo = "e_start e" and ?hi = "e_end e" and ?n = "length (ed_after e)"
  let ?shift = "len (ed_after e) - len (ed_before e)"
  let ?kept = "kept_lines (int ?lo) (int ?hi) ?shift m"
  have pos: "ed_start e = int ?lo" "ed_start e + len (ed_before e) = int ?hi" "?lo \<le> ?hi" "?hi \<le> length b"
    using e by (simp_all add: edit_at_def e_start_def e_end_def len_def)
  have sh: "?shift = int (?lo + ?n) - int ?hi" using pos(1,2) by (simp add: len_def)
  have s: "shift_lines (ed_start e) (ed_start e + len (ed_before e)) (ed_after e) m =
      fold (\<lambda>i m. alist_put (int ?lo + int i) (ed_after e ! i) m) [0..<?n] ?kept"
  proof -
    have d: "int ?hi - ed_start e = len (ed_before e)" using pos(2) by simp
    show ?thesis unfolding shift_lines_def kept_lines_def Let_def pos(2) d unfolding pos(1) by (rule refl)
  qed
  have "known ?kept (edited b e)"
    unfolding known_def
  proof (intro conjI ballI)
    show "distinct (map fst ?kept)"
      using m pos(3) sh by (intro kept_lines_distinct) (simp_all add: known_def)
    fix x
    assume x: "x \<in> set ?kept"
    obtain q l where ql: "x = (q, l)" by (cases x)
    with x obtain p where p: "(p, l) \<in> set m" "p < int ?lo \<and> q = p \<or> int ?lo \<le> p \<and> int ?hi \<le> p \<and> q = p + ?shift"
      by (auto simp: kept_lines_set)
    have t: "0 \<le> p" "nat p < length b" "b ! nat p = l" using m p(1) by (auto simp: known_def)
    from p(2) have "0 \<le> q \<and> nat q < length (edited b e) \<and> edited b e ! nat q = l"
    proof
      assume "p < int ?lo \<and> q = p"
      with t pos(3,4) show ?thesis by (auto simp: edited_def nth_append)
    next
      assume h: "int ?lo \<le> p \<and> int ?hi \<le> p \<and> q = p + ?shift"
      have "q = int (nat p - ?hi + (?lo + ?n))" using h sh t(1) by linarith
      then have q: "nat q = nat p - ?hi + (?lo + ?n)" "0 \<le> q" by simp_all
      have "edited b e ! nat q = drop ?hi b ! (nat p - ?hi)"
        using q(1) pos(3,4) by (simp add: edited_def nth_append)
      also have "\<dots> = l"
      proof -
        have "?hi \<le> nat p" using h by linarith
        then have "?hi + (nat p - ?hi) = nat p" by simp
        with t(3) pos(4) show ?thesis by simp
      qed
      finally have "edited b e ! nat q = l" .
      moreover have "nat q < length (edited b e)"
      proof -
        have "?hi \<le> nat p" using h by linarith
        with q(1) t(2) pos(3,4) show ?thesis by (simp add: edited_def)
      qed
      ultimately show ?thesis using q(2) by simp
    qed
    then show "case x of (q, l) \<Rightarrow> 0 \<le> q \<and> nat q < length (edited b e) \<and> edited b e ! nat q = l" by (simp add: ql)
  qed
  moreover have "?lo + i < length (edited b e) \<and> edited b e ! (?lo + i) = ed_after e ! i" if "i < ?n" for i
    using that pos(3,4) by (simp add: edited_def nth_append)
  ultimately have r: "known (fold (\<lambda>i m. alist_put (int ?lo + int i) (ed_after e ! i) m) [0..<?n] ?kept) (edited b e)
      \<and> (\<forall>q. knows (fold (\<lambda>i m. alist_put (int ?lo + int i) (ed_after e ! i) m) [0..<?n] ?kept) q \<longleftrightarrow>
          knows ?kept q \<or> int ?lo \<le> q \<and> q < int (?lo + ?n))"
    by (rule put_run)
  note kn = r [THEN conjunct2, rule_format]
  have keys: "knows ?kept q \<longleftrightarrow> (\<exists>p. knows m p \<and> (p < int ?lo \<and> q = p \<or> int ?lo \<le> p \<and> int ?hi \<le> p \<and> q = p + ?shift))" for q
    unfolding knows_in kept_lines_keys by blast
  show "known (shift_lines (ed_start e) (ed_start e + len (ed_before e)) (ed_after e) m) (edited b e)"
    unfolding s using r by (rule conjunct1)
  show "knows (shift_lines (ed_start e) (ed_start e + len (ed_before e)) (ed_after e) m) (int k)"
    if "k < e_start e" "knows m (int k)"
    unfolding s kn keys using that by auto
  show "knows (shift_lines (ed_start e) (ed_start e + len (ed_before e)) (ed_after e) m) (int k)"
    if "e_start e \<le> k" "k < e_start e + length (ed_after e)"
    unfolding s kn using that by auto
  show "knows (shift_lines (ed_start e) (ed_start e + len (ed_before e)) (ed_after e) m)
        (int (k - e_end e + (e_start e + length (ed_after e))))"
    if "e_end e \<le> k" "knows m (int k)"
  proof -
    have "int (k - ?hi + (?lo + ?n)) = int k + ?shift" using that(1) sh by simp
    moreover have "knows ?kept (int k + ?shift)" unfolding keys using that pos(3) by fastforce
    ultimately show ?thesis unfolding s kn by simp
  qed
qed

lemma known_lines_ok:
  assumes "known m b" and "i + n \<le> length b" and "\<And>k. i \<le> k \<Longrightarrow> k < i + n \<Longrightarrow> knows m (int k)"
  shows "known_lines m (int i) n = Some (segment b i (i + n))"
  using assms(2,3)
proof (induction n arbitrary: i)
  case (Suc n)
  have "knows m (int i)" using Suc.prems(2) [of i] by simp
  then obtain l where l: "alist_get m (int i) = Some l" by auto
  with assms(1) have at: "b ! i = l" using knownD by fastforce
  have "known_lines m (int (Suc i)) n = Some (segment b (Suc i) (Suc i + n))"
    using Suc.prems by (intro Suc.IH) simp_all
  then have "known_lines m (int i + 1) n = Some (segment b (Suc i) (Suc i + n))" by (simp add: add.commute)
  moreover have "segment b i (i + Suc n) = b ! i # segment b (Suc i) (Suc i + n)"
    using Suc.prems(1) Cons_nth_drop_Suc [of i b] by (simp add: segment_def take_Suc_Cons [symmetric] del: take_Suc_Cons)
  ultimately show ?case using l at by simp
qed simp

section \<open>The regions an edit touches\<close>

lemma overlaps_nat:
  assumes "0 \<le> rg_after_start r" and "lo \<le> hi"
  shows "region_overlaps (int lo) (int hi) r \<longleftrightarrow>
    a_start r = lo \<and> a_end r = lo \<and> lo = hi \<or> a_start r < hi \<and> lo < a_end r"
proof -
  have e: "rg_after_start r = int (a_start r)" "int (a_start r) + len (rg_after r) = int (a_end r)"
    using assms(1) by (simp_all add: places len_def)
  have le: "a_start r \<le> a_end r" by (rule start_le_end)
  show ?thesis
    unfolding region_overlaps_def review_overlaps_def e of_nat_eq_iff of_nat_less_iff using assms(2) le
    by (cases "lo = hi"; cases "a_start r = a_end r") auto
qed

definition ordered :: "region list \<Rightarrow> bool" where
  "ordered rs \<longleftrightarrow> sorted_wrt (\<lambda>x y. a_end x \<le> a_start y) rs \<and> (\<forall>r \<in> set rs. 0 \<le> rg_after_start r)"

lemma tiles_ordered: "tiles a b i j rs i' j' \<Longrightarrow> ordered rs"
proof (induction rs arbitrary: i j)
  case (Cons x rs)
  then have x: "region_at a b x" "tiles a b (b_end x) (a_end x) rs i' j'" by simp_all
  have "a_end x \<le> a_start y" if "y \<in> set rs" for y
  proof -
    have "int (a_end x) \<le> rg_after_start y" using tiles_from [OF x(2) that] by blast
    then show ?thesis unfolding a_start_def by linarith
  qed
  with Cons.IH [OF x(2)] x(1) show ?case by (simp add: ordered_def region_at_def)
qed (simp add: ordered_def)

lemma sorted_bounds: "sorted xs \<Longrightarrow> x \<in> set xs \<Longrightarrow> hd xs \<le> x \<and> x \<le> last xs"
proof (induction xs)
  case (Cons y ys)
  then show ?case by (cases ys) auto
qed simp

lemma touched_none: "touched lo hi rs = None \<Longrightarrow> r \<in> set rs \<Longrightarrow> \<not> region_overlaps lo hi r"
  by (auto simp: touched_def filter_empty_conv in_set_conv_nth split: list.splits)

lemma touched_some:
  assumes "touched lo hi rs = Some (i, j)"
  shows "i \<le> j" and "j < length rs" and "region_overlaps lo hi (rs ! i)" and "region_overlaps lo hi (rs ! j)"
    and "k < i \<Longrightarrow> \<not> region_overlaps lo hi (rs ! k)"
    and "j < k \<Longrightarrow> k < length rs \<Longrightarrow> \<not> region_overlaps lo hi (rs ! k)"
proof -
  let ?ks = "filter (\<lambda>i. region_overlaps lo hi (rs ! i)) [0..<length rs]"
  have ne: "?ks \<noteq> []" and ij: "i = hd ?ks" "j = last ?ks"
    using assms by (auto simp: touched_def split: list.splits)
  have s: "sorted ?ks" by (rule sorted_wrt_filter) simp
  have m: "i \<in> set ?ks" "j \<in> set ?ks" unfolding ij using ne by (rule hd_in_set, rule last_in_set)
  from sorted_bounds [OF s m(1)] ij show "i \<le> j" by simp
  from m show "j < length rs" "region_overlaps lo hi (rs ! i)" "region_overlaps lo hi (rs ! j)" by auto
  have all: "i \<le> k \<and> k \<le> j" if "k < length rs" "region_overlaps lo hi (rs ! k)" for k
    using sorted_bounds [OF s, of k] that ij by simp
  show "\<not> region_overlaps lo hi (rs ! k)" if "k < i"
    using all [of k] that \<open>i \<le> j\<close> \<open>j < length rs\<close> by auto
  show "\<not> region_overlaps lo hi (rs ! k)" if "j < k" "k < length rs"
    using all [of k] that by auto
qed

text \<open>
  The regions before the edit, those it touches, and those behind it, with the bounds of the
  span they form together.
\<close>

definition edit_split :: "nat \<Rightarrow> nat \<Rightarrow> region list \<Rightarrow> region list \<Rightarrow> region list \<Rightarrow> nat \<Rightarrow> nat \<Rightarrow> bool" where
  "edit_split lo hi bs ts as left right \<longleftrightarrow> left \<le> lo \<and> hi \<le> right
     \<and> (\<forall>r \<in> set bs. a_end r \<le> left \<and> a_start r < hi) \<and> (\<forall>r \<in> set as. right \<le> a_start r)
     \<and> (\<forall>r \<in> set ts. left \<le> a_start r \<and> a_end r \<le> right)
     \<and> (if ts = [] then left = lo \<and> right = hi \<and> (\<forall>r \<in> set as. lo < a_end r)
        else left = min lo (a_start (hd ts)) \<and> right = max hi (a_end (last ts))
          \<and> a_start (hd ts) \<le> hi \<and> (a_start (hd ts) < lo \<longrightarrow> lo < a_end (hd ts))
          \<and> (hi < a_end (last ts) \<longrightarrow> a_start (last ts) \<le> hi))"

lemma ordered_pairs:
  assumes "ordered rs" and "k < l" and "l < length rs"
  shows "a_end (rs ! k) \<le> a_start (rs ! l)"
  using assms by (simp add: ordered_def sorted_wrt_iff_nth_less)

lemma edit_split_none:
  assumes o: "ordered rs" and t: "touched (int lo) (int hi) rs = None" and le: "lo \<le> hi"
  shows "\<exists>bs as. rs = bs @ as \<and> edit_split lo hi bs [] as lo hi"
proof -
  let ?bs = "takeWhile (\<lambda>r. a_end r \<le> lo) rs" and ?as = "dropWhile (\<lambda>r. a_end r \<le> lo) rs"
  have pos: "0 \<le> rg_after_start r" if "r \<in> set rs" for r using o that by (simp add: ordered_def)
  have no: "\<not> (a_start r = lo \<and> a_end r = lo \<and> lo = hi)" "hi \<le> a_start r \<or> a_end r \<le> lo" if "r \<in> set rs" for r
    using touched_none [OF t that] overlaps_nat [OF pos [OF that] le] by auto
  have "a_end r \<le> lo \<and> a_start r < hi" if "r \<in> set ?bs" for r
  proof -
    have r: "a_end r \<le> lo" "r \<in> set rs" using that by (auto dest: set_takeWhileD)
    with no [OF r(2)] start_le_end(2) [of r] le show ?thesis by linarith
  qed
  moreover have "hi \<le> a_start r \<and> lo < a_end r" if "r \<in> set ?as" for r
  proof (cases ?as)
    case Nil
    with that show ?thesis by simp
  next
    case (Cons x xs)
    have x: "lo < a_end x" "x \<in> set rs"
      using Cons hd_dropWhile [of "\<lambda>r. a_end r \<le> lo" rs] set_dropWhileD [of x "\<lambda>r. a_end r \<le> lo" rs] by auto
    with no(2) [OF x(2)] have hx: "hi \<le> a_start x" by simp
    show ?thesis
    proof (cases "r = x")
      case True
      with x hx show ?thesis by simp
    next
      case False
      have "sorted_wrt (\<lambda>x y. a_end x \<le> a_start y) (?bs @ ?as)" using o by (simp add: ordered_def)
      then have "sorted_wrt (\<lambda>x y. a_end x \<le> a_start y) ?as" by (simp only: sorted_wrt_append)
      with Cons False that have "a_end x \<le> a_start r" by auto
      with x hx start_le_end(2) [of r] start_le_end(2) [of x] show ?thesis by linarith
    qed
  qed
  ultimately have "edit_split lo hi ?bs [] ?as lo hi" by (simp add: edit_split_def)
  moreover have "rs = ?bs @ ?as" by simp
  ultimately show ?thesis by blast
qed

lemma edit_split_some:
  assumes o: "ordered rs" and t: "touched (int lo) (int hi) rs = Some (i, j)" and le: "lo \<le> hi"
  shows "edit_split lo hi (take i rs) (segment rs i (Suc j)) (drop (Suc j) rs)
    (min lo (a_start (rs ! i))) (max hi (a_end (rs ! j)))"
    and "hd (segment rs i (Suc j)) = rs ! i" and "segment rs i (Suc j) \<noteq> []"
    and "rs = take i rs @ segment rs i (Suc j) @ drop (Suc j) rs"
proof -
  note t = touched_some [OF t]
  have pos: "0 \<le> rg_after_start (rs ! k)" if "k < length rs" for k using o that by (simp add: ordered_def)
  have ov: "region_overlaps (int lo) (int hi) (rs ! k) \<longleftrightarrow>
      a_start (rs ! k) = lo \<and> a_end (rs ! k) = lo \<and> lo = hi \<or> a_start (rs ! k) < hi \<and> lo < a_end (rs ! k)"
    if "k < length rs" for k by (rule overlaps_nat [OF pos [OF that] le])
  have il: "i < length rs" using t(1,2) by simp
  have oi: "a_start (rs ! i) = lo \<and> a_end (rs ! i) = lo \<and> lo = hi \<or> a_start (rs ! i) < hi \<and> lo < a_end (rs ! i)"
    using t(3) ov [OF il] by simp
  have oj: "a_start (rs ! j) = lo \<and> a_end (rs ! j) = lo \<and> lo = hi \<or> a_start (rs ! j) < hi \<and> lo < a_end (rs ! j)"
    using t(4) ov [OF t(2)] by simp
  have before: "a_end (rs ! k) \<le> min lo (a_start (rs ! i)) \<and> a_start (rs ! k) < hi" if "k < i" for k
  proof -
    have k: "k < length rs" "a_end (rs ! k) \<le> a_start (rs ! i)" using that il ordered_pairs [OF o that il] by simp_all
    with t(5) [OF that] ov [OF k(1)] oi start_le_end(2) [of "rs ! k"] le show ?thesis by linarith
  qed
  have behind: "max hi (a_end (rs ! j)) \<le> a_start (rs ! k)" if "j < k" "k < length rs" for k
  proof -
    have k: "a_end (rs ! j) \<le> a_start (rs ! k)" by (rule ordered_pairs [OF o that])
    with t(6) [OF that] ov [OF that(2)] oj start_le_end(2) [of "rs ! k"] le show ?thesis by linarith
  qed
  have len: "length (segment rs i (Suc j)) = Suc j - i" using t(2) by (simp add: segment_length)
  have nth: "segment rs i (Suc j) ! k = rs ! (i + k)" if "k < Suc j - i" for k
    using that t(2) by (simp add: segment_def)
  show ne: "segment rs i (Suc j) \<noteq> []" using len t(1) by auto
  show h: "hd (segment rs i (Suc j)) = rs ! i" using ne nth [of 0] t(1) by (simp add: hd_conv_nth)
  have l: "last (segment rs i (Suc j)) = rs ! j" using ne nth [of "j - i"] t(1) by (simp add: last_conv_nth len)
  show "rs = take i rs @ segment rs i (Suc j) @ drop (Suc j) rs"
    using segment_take_drop [of i "Suc j" rs] t(1) by (metis append.assoc append_take_drop_id le_SucI)
  have inside: "min lo (a_start (rs ! i)) \<le> a_start r \<and> a_end r \<le> max hi (a_end (rs ! j))"
    if r: "r \<in> set (segment rs i (Suc j))" for r
  proof -
    obtain k where k: "k < Suc j - i" "r = rs ! (i + k)"
      using r len nth unfolding in_set_conv_nth by metis
    have "a_start (rs ! i) \<le> a_start r"
      using k ordered_pairs [OF o, of i "i + k"] t(2) start_le_end(2) [of "rs ! i"] by (cases "k = 0") fastforce+
    moreover have "a_end r \<le> a_end (rs ! j)"
      using k ordered_pairs [OF o, of "i + k" j] t(2) start_le_end(2) [of "rs ! j"] by (cases "i + k = j") fastforce+
    ultimately show ?thesis by linarith
  qed
  show "edit_split lo hi (take i rs) (segment rs i (Suc j)) (drop (Suc j) rs)
    (min lo (a_start (rs ! i))) (max hi (a_end (rs ! j)))"
    unfolding edit_split_def
  proof (intro conjI ballI)
    show "a_end r \<le> min lo (a_start (rs ! i))" "a_start r < hi" if "r \<in> set (take i rs)" for r
      using that before il by (auto simp: in_set_conv_nth)
    show "max hi (a_end (rs ! j)) \<le> a_start r" if "r \<in> set (drop (Suc j) rs)" for r
      using that behind by (auto simp: in_set_conv_nth)
    show "min lo (a_start (rs ! i)) \<le> a_start r" "a_end r \<le> max hi (a_end (rs ! j))"
      if "r \<in> set (segment rs i (Suc j))" for r using inside [OF that] by simp_all
  qed (use ne h l oi oj in auto)
qed

lemma edit_split_exists:
  assumes o: "ordered rs" and le: "lo \<le> hi"
  obtains bs ts as left right where "rs = bs @ ts @ as" and "edit_split lo hi bs ts as left right"
    and "touched_regions rs (touched (int lo) (int hi) rs) = ts"
    and "untouched_regions rs (touched (int lo) (int hi) rs) = bs @ as"
    and "edit_bounds (int lo) (int hi) rs (touched (int lo) (int hi) rs) = (int left, int right)"
    and "ts = [] \<Longrightarrow> touched (int lo) (int hi) rs = None"
    and "ts \<noteq> [] \<Longrightarrow> \<exists>i j. touched (int lo) (int hi) rs = Some (i, j) \<and> rs ! i = hd ts"
proof (cases "touched (int lo) (int hi) rs")
  case None
  from edit_split_none [OF o this le] obtain bs as where s: "rs = bs @ as" "edit_split lo hi bs [] as lo hi" by blast
  show ?thesis
    by (rule that [of bs "[]" as lo hi])
      (use s None in \<open>simp_all add: touched_regions_def untouched_regions_def edit_bounds_def\<close>)
next
  case (Some ij)
  obtain i j where ij: "ij = (i, j)" by (cases ij)
  with Some have t: "touched (int lo) (int hi) rs = Some (i, j)" by simp
  note s = edit_split_some [OF o t le]
  have il: "i < length rs" and jl: "j < length rs" using touched_some(1,2) [OF t] by simp_all
  have pos: "rg_after_start (rs ! i) = int (a_start (rs ! i))"
      "rg_after_start (rs ! j) + len (rg_after (rs ! j)) = int (a_end (rs ! j))"
    using o il jl by (simp_all add: ordered_def places len_def)
  show ?thesis
  proof (rule that [of "take i rs" "segment rs i (Suc j)" "drop (Suc j) rs"])
    show "rs = take i rs @ segment rs i (Suc j) @ drop (Suc j) rs" by (rule s(4))
    show "edit_split lo hi (take i rs) (segment rs i (Suc j)) (drop (Suc j) rs)
      (min lo (a_start (rs ! i))) (max hi (a_end (rs ! j)))" by (rule s(1))
    show "edit_bounds (int lo) (int hi) rs (touched (int lo) (int hi) rs)
      = (int (min lo (a_start (rs ! i))), int (max hi (a_end (rs ! j))))"
      by (simp add: t edit_bounds_def pos min_def max_def)
  qed (use t s(2,3) in \<open>simp_all add: touched_regions_def untouched_regions_def\<close>)
qed

lemma tile_start:
  assumes "tiles a b m n (r # rs) i' j'" and "a_start r = n"
  shows "rg_before_start r = int m"
proof -
  from assms have r: "region_at a b r" "m \<le> b_start r" "segment a m (b_start r) = []" by (simp_all add: segment_def)
  have "b_start r \<le> length a" using r(1) start_le_end(1) [of r] unfolding region_at_def by linarith
  with r(3) have "b_start r - m = 0" using segment_length [of "b_start r" a m] by simp
  with r(1,2) show ?thesis unfolding region_at_def b_start_def by linarith
qed

lemma original_boundary_ok:
  assumes c: "cm_regions c = bs @ ts @ as" and s: "edit_split lo hi bs ts as left right"
    and bs: "tiles a b 0 0 bs m left" and rest: "tiles a b m left (ts @ as) i' j'" and le: "lo \<le> hi"
    and none: "ts = [] \<Longrightarrow> t = None" and some: "ts \<noteq> [] \<Longrightarrow> \<exists>i j. t = Some (i, j) \<and> cm_regions c ! i = hd ts"
  shows "original_boundary c t (int left) = Some (int m)"
proof -
  have "\<forall>r \<in> set bs. int (a_end r) \<le> int left" using s by (simp add: edit_split_def)
  from tiles_shift [OF bs this, of "ts @ as"]
  have pos: "original_position c (int left) = original_from (ts @ as) (int left) (int left - int m)"
    by (simp add: original_position_def c)
  have at: "rg_after_start r = int (a_start r)" if "r \<in> set (ts @ as)" for r
    using tiles_from [OF rest that] by (simp add: region_at_def a_start_def)
  have atb: "rg_after_start r = int (a_start r)" if "r \<in> set bs" for r
    using tiles_from [OF bs that] by (simp add: region_at_def a_start_def)
  show ?thesis
  proof (cases ts)
    case Nil
    then have sp: "left = lo" "\<forall>r \<in> set as. hi \<le> a_start r \<and> lo < a_end r" "\<forall>r \<in> set bs. a_start r < hi"
      using s by (auto simp: edit_split_def)
    show ?thesis
    proof (cases as)
      case Nil2: Nil
      with Nil pos none show ?thesis by (simp add: original_boundary_def)
    next
      case (Cons r rs)
      have r: "rg_after_start r = int (a_start r)" "hi \<le> a_start r" "lo < a_end r"
          "rg_after_start r + len (rg_after r) = int (a_end r)"
        using at [of r] Cons sp(2) by (simp_all add: places len_def)
      show ?thesis
      proof (cases "left < a_start r")
        case True
        with Nil Cons pos none r(1) show ?thesis by (simp add: original_boundary_def)
      next
        case False
        with r(2) sp(1) le have eq: "a_start r = left" "hi = left" by simp_all
        have "original_position c (int left) = None"
          using pos Nil Cons r eq sp(1) by simp
        moreover have "find (\<lambda>r. int left = rg_after_start r) (bs @ r # rs) = Some r"
        proof -
          have "\<forall>x \<in> set bs. int left \<noteq> rg_after_start x" using atb sp(3) eq(2) by fastforce
          then have "find (\<lambda>r. int left = rg_after_start r) bs = None" by (auto simp: find_None_iff)
          then show ?thesis using r(1) eq(1) by (induction bs) (auto split: if_splits)
        qed
        moreover have "rg_before_start r = int m"
          using rest Nil Cons eq(1) by (intro tile_start [of a b m left r rs i' j']) simp_all
        ultimately show ?thesis using Nil Cons none c by (simp add: original_boundary_def)
      qed
    qed
  next
    case (Cons f fs)
    with some obtain i j where t: "t = Some (i, j)" "cm_regions c ! i = f" by auto
    have left: "left = min lo (a_start f)" using s Cons by (simp add: edit_split_def)
    have f: "rg_after_start f = int (a_start f)" using at Cons by simp
    show ?thesis
    proof (cases "left = a_start f")
      case True
      with rest Cons have "rg_before_start f = int m"
        by (intro tile_start [of a b m left f "fs @ as" i' j']) simp_all
      with t True f show ?thesis by (simp add: original_boundary_def)
    next
      case False
      with left have "left < a_start f" by simp
      with t f pos Cons show ?thesis by (simp add: original_boundary_def)
    qed
  qed
qed

lemma coveredD: "covered m rs \<Longrightarrow> r \<in> set rs \<Longrightarrow> a_start r \<le> k \<Longrightarrow> k < a_end r \<Longrightarrow> knows m (int k)"
  by (simp add: covered_def)

lemma span_known:
  assumes s: "edit_split lo hi bs ts as left right" and cov: "covered m (bs @ ts @ as)"
    and e: "\<And>k. lo \<le> k \<Longrightarrow> k < hi \<Longrightarrow> knows m (int k)" and k: "left \<le> k" "k < right"
  shows "knows m (int k)"
proof -
  consider "lo \<le> k" "k < hi" | "k < lo" | "hi \<le> k" by linarith
  then show ?thesis
  proof cases
    case 1
    then show ?thesis by (rule e)
  next
    case 2
    with k(1) s have ne: "ts \<noteq> []" by (auto simp: edit_split_def)
    with s k(1) 2 have "a_start (hd ts) \<le> k" "k < a_end (hd ts)" by (auto simp: edit_split_def)
    moreover have "hd ts \<in> set (bs @ ts @ as)" using ne by simp
    ultimately show ?thesis using coveredD [OF cov] by blast
  next
    case 3
    with k(2) s have ne: "ts \<noteq> []" by (auto simp: edit_split_def)
    with s k(2) 3 have "a_start (last ts) \<le> k" "k < a_end (last ts)" by (auto simp: edit_split_def)
    moreover have "last ts \<in> set (bs @ ts @ as)" using ne by simp
    ultimately show ?thesis using coveredD [OF cov] by blast
  qed
qed

lemma shift_region_moved:
  assumes "edit_split lo hi bs ts as left right" and "\<forall>r \<in> set (bs @ as). 0 \<le> rg_after_start r"
  shows "map (shift_region (int hi) d) (bs @ as) = bs @ map (moved d) as"
proof -
  have "shift_region (int hi) d r = r" if "r \<in> set bs" for r
  proof -
    have "a_start r < hi" "0 \<le> rg_after_start r" using assms that by (simp_all add: edit_split_def)
    then show ?thesis by (simp add: shift_region_def a_start_def nat_less_iff)
  qed
  moreover have "shift_region (int hi) d r = moved d r" if "r \<in> set as" for r
  proof -
    have "hi \<le> a_start r" "0 \<le> rg_after_start r" using assms that by (auto simp: edit_split_def)
    then show ?thesis by (simp add: shift_region_def moved_def a_start_def le_nat_iff)
  qed
  ultimately show ?thesis by (simp add: map_idI)
qed

section \<open>Applying an edit\<close>

text \<open>The tiling after an edit: the span of the touched regions becomes one region, or a gap.\<close>

lemma tiles_edited:
  assumes s: "edit_split lo hi bs ts as left right" and e: "edit_at b e" "lo = e_start e" "hi = e_end e"
    and bs: "tiles a b 0 0 bs m left" and as: "tiles a b n right as (length a) (length b)"
    and mn: "m \<le> n" and r: "right \<le> length b"
  shows "tiles a (edited b e) 0 0 bs m left"
    and "tiles a (edited b e) n (right - hi + (lo + length (ed_after e)))
      (map (moved (len (ed_after e) - len (ed_before e))) as) (length a) (length (edited b e))"
    and "segment (edited b e) left (right - hi + (lo + length (ed_after e)))
      = segment b left lo @ ed_after e @ segment b hi right"
    and "left \<le> right - hi + (lo + length (ed_after e))"
    and "right - hi + (lo + length (ed_after e)) \<le> length (edited b e)"
proof -
  let ?n = "length (ed_after e)" and ?b = "edited b e"
  have lh: "left \<le> lo" "lo \<le> hi" "hi \<le> right" "hi \<le> length b"
    using s e e_start_le [of e] by (simp_all add: edit_split_def edit_at_def)
  have len: "length ?b = length b - hi + (lo + ?n)" using lh by (simp add: edited_def flip: e(2,3))
  show bd: "right - hi + (lo + ?n) \<le> length ?b" using len r lh by linarith
  show lb: "left \<le> right - hi + (lo + ?n)" using lh by linarith
  have "take left b = take left ?b" using lh by (simp add: edited_def flip: e(2,3))
  moreover have "left \<le> length ?b" using lh len by linarith
  ultimately show "tiles a ?b 0 0 bs m left" by (intro tiles_current_take [OF bs])
  have d: "drop hi b = drop (lo + ?n) ?b" using lh by (simp add: edited_def flip: e(2,3))
  have "int (lo + ?n) - int hi = len (ed_after e) - len (ed_before e)"
    using e(2,3) by (simp add: e_end_def len_def)
  with tiles_moved [OF as d lh(3)] len lh
  show "tiles a ?b n (right - hi + (lo + ?n)) (map (moved (len (ed_after e) - len (ed_before e))) as) (length a) (length ?b)"
    by simp
  have "segment ?b left (right - hi + (lo + ?n)) =
      segment ?b left lo @ segment ?b lo (lo + ?n) @ segment ?b (lo + ?n) (right - hi + (lo + ?n))"
    using segment_append [of left lo "right - hi + (lo + ?n)" ?b]
      segment_append [of lo "lo + ?n" "right - hi + (lo + ?n)" ?b] lh by simp
  moreover have "segment ?b left lo = segment b left lo"
    using lh by (intro segment_take_eq [of lo]) (simp_all add: edited_def flip: e(2,3))
  moreover have "segment ?b lo (lo + ?n) = ed_after e"
    using lh by (simp add: segment_def edited_def flip: e(2,3))
  moreover have "segment b hi right = segment ?b (lo + ?n) (right - hi + (lo + ?n))"
    using segment_drop_eq [OF d, of hi right] lh by simp
  ultimately show "segment ?b left (right - hi + (lo + ?n)) = segment b left lo @ ed_after e @ segment b hi right"
    by simp
qed

lemma covered_shifted:
  assumes "edit_split lo hi bs ts as left right" and e: "edit_at b e" "lo = e_start e" "hi = e_end e"
    and m: "known m b" and cov: "covered m (bs @ ts @ as)"
    and pos: "\<forall>r \<in> set as. 0 \<le> rg_after_start r"
  shows "covered (shift_lines (ed_start e) (ed_start e + len (ed_before e)) (ed_after e) m)
      (bs @ map (moved (len (ed_after e) - len (ed_before e))) as)"
  unfolding covered_def
proof (intro ballI allI impI)
  let ?m = "shift_lines (ed_start e) (ed_start e + len (ed_before e)) (ed_after e) m"
  let ?d = "len (ed_after e) - len (ed_before e)"
  fix r k
  assume r: "r \<in> set (bs @ map (moved ?d) as)" and k: "a_start r \<le> k" "k < a_end r"
  note sh = shift_lines_ok [OF m e(1)]
  from r consider "r \<in> set bs" | x where "x \<in> set as" "r = moved ?d x" by auto
  then show "knows ?m (int k)"
  proof cases
    case 1
    then have "k < e_start e" using assms(1) k e(2) by (auto simp: edit_split_def)
    moreover have "knows m (int k)" using coveredD [OF cov _ k] 1 by simp
    ultimately show ?thesis by (rule sh(2))
  next
    case 2
    have x: "hi \<le> a_start x" "0 \<le> rg_after_start x" using assms(1) 2(1) pos by (auto simp: edit_split_def)
    have d: "?d = int (lo + length (ed_after e)) - int hi" using e(2,3) by (simp add: e_end_def len_def)
    have st: "a_start r = a_start x - hi + (lo + length (ed_after e))"
      using x d 2(2) unfolding a_start_def moved_def by simp
    then have en: "a_end r = a_end x - hi + (lo + length (ed_after e))"
      using x(1) 2(2) by (simp add: a_end_def moved_def)
    let ?k = "k + hi - (lo + length (ed_after e))"
    have kk: "a_start x \<le> ?k" "?k < a_end x" using k st en x(1) start_le_end(2) [of x] by linarith+
    have "knows m (int ?k)" using coveredD [OF cov _ kk] 2(1) by simp
    moreover have "e_end e \<le> ?k" using kk(1) x(1) e(3) by simp
    ultimately have kn: "knows ?m (int (?k - e_end e + (e_start e + length (ed_after e))))" by (intro sh(4))
    have same: "?k - e_end e + (e_start e + length (ed_after e)) = k"
      using kk(1) x(1) k(1) st e(2,3) by linarith
    show ?thesis using kn unfolding same .
  qed
qed

lemma apply_edit_ok:
  assumes rep: "represents a b c" and e: "edit_at b e" and spans: "spans_known (cm_current c) [e]"
    and size: "length a \<le> 2 ^ 20" "length b \<le> 2 ^ 20" "length (edited b e) \<le> 2 ^ 20"
  shows "\<exists>d. apply_edit e hidden highlighted c = Inr d \<and> represents a (edited b e) d
    \<and> cm_started d = cm_started c \<and> cm_before_path d = cm_before_path c \<and> cm_after_path d = cm_after_path c
    \<and> (\<forall>k < e_start e. knows (cm_current c) (int k) \<longrightarrow> knows (cm_current d) (int k))"
proof -
  define lo hi where "lo = e_start e" and "hi = e_end e"
  let ?rs = "cm_regions c" and ?b = "edited b e"
  let ?d = "len (ed_after e) - len (ed_before e)"
  have tiles: "tiles a b 0 0 ?rs (length a) (length b)" and k: "known (cm_original c) a" "known (cm_current c) b"
    and cov: "covered (cm_current c) ?rs" using rep by (simp_all add: represents_def)
  have le: "lo \<le> hi" "hi \<le> length b" using e e_start_le [of e] by (simp_all add: lo_def hi_def edit_at_def)
  have pos: "ed_start e = int lo" "int lo + len (ed_before e) = int hi" "segment b lo hi = ed_before e"
    using e by (simp_all add: edit_at_def lo_def hi_def e_end_def e_start_def len_def)
  have o: "ordered ?rs" by (rule tiles_ordered [OF tiles])
  define t where "t = touched (int lo) (int hi) ?rs"
  obtain bs ts as left right where sp: "?rs = bs @ ts @ as" "edit_split lo hi bs ts as left right"
      "touched_regions ?rs t = ts" "untouched_regions ?rs t = bs @ as" "edit_bounds (int lo) (int hi) ?rs t = (int left, int right)"
      "ts = [] \<Longrightarrow> t = None" "ts \<noteq> [] \<Longrightarrow> \<exists>i j. t = Some (i, j) \<and> ?rs ! i = hd ts"
    using edit_split_exists [OF o le(1)] unfolding t_def by metis
  have bd: "left \<le> lo" "hi \<le> right" using sp(2) by (simp_all add: edit_split_def)
  have right: "right \<le> length b"
  proof (cases "ts = []")
    case True
    with sp(2) le show ?thesis by (simp add: edit_split_def)
  next
    case False
    then have "last ts \<in> set ?rs" using sp(1) by simp
    with tiles_from [OF tiles this] False sp(2) le show ?thesis by (simp add: edit_split_def)
  qed
  have lr: "left \<le> right" using bd le by linarith
  obtain m where m: "tiles a b 0 0 bs m left" "tiles a b m left (ts @ as) (length a) (length b)"
    using tiles_split [of a b 0 0 bs "ts @ as" "length a" "length b" left] tiles sp(1,2) lr right
    by (fastforce simp: edit_split_def)
  obtain n where n: "tiles a b m left ts n right" "tiles a b n right as (length a) (length b)"
    using tiles_split [OF m(2), of right] sp(2) lr right by (fastforce simp: edit_split_def)
  have mn: "m \<le> n" "n \<le> length a" using tiles_bounds [OF n(1)] by simp_all
  note te = tiles_edited [OF sp(2) e lo_def hi_def m(1) n(2) mn(1) right]
  define right' where "right' = right - hi + (lo + length (ed_after e))"
  note te = te [folded right'_def]
  have boundary: "original_boundary c t (int left) = Some (int m)"
    by (rule original_boundary_ok [OF sp(1,2) m le(1) sp(6,7)])
  have known: "known_lines (cm_current c) (int left) (nat (int right - int left)) = Some (segment b left right)"
  proof -
    have "known_lines (cm_current c) (int left) (right - left) = Some (segment b left (left + (right - left)))"
    proof (rule known_lines_ok [OF k(2)])
      show "left + (right - left) \<le> length b" using lr right by simp
      show "knows (cm_current c) (int k)" if "left \<le> k" "k < left + (right - left)" for k
        using span_known [OF sp(2) cov [unfolded sp(1)], of k] spans that lr
        by (simp add: spans_known_def lo_def hi_def)
    qed
    then show ?thesis using lr by (simp add: nat_diff_distrib)
  qed
  have off: "nat (int lo - int left) = lo - left" "nat (int hi - int left) = hi - left"
    using bd le by simp_all
  have here: "segment (segment b left right) (lo - left) (hi - left) = ed_before e"
  proof -
    have l: "length (segment b left right) = right - left" using right by (simp add: segment_length)
    then have "segment b left (left + length (segment b left right)) = segment b left right" using lr by simp
    moreover have "hi - left \<le> length (segment b left right)" using l bd by simp
    ultimately have "segment (segment b left right) (lo - left) (hi - left) = segment b (left + (lo - left)) (left + (hi - left))"
      by (rule segment_segment)
    then show ?thesis using pos(3) bd le by simp
  qed
  have orig: "foldr (undo_region (int left)) ts (segment b left right) = segment a m n"
    using undo_tiles [OF n(1), of "[]" left] by simp
  define after where "after = segment b left lo @ ed_after e @ segment b hi right"
  have repl: "replace_lines (segment b left right) (lo - left) (hi - left) (ed_after e) = after"
  proof -
    have "take (lo - left) (segment b left right) = segment b left lo" using bd le by (simp add: segment_def min_def)
    moreover have "drop (hi - left) (segment b left right) = segment b hi right"
      using bd le by (simp add: segment_def drop_take)
    ultimately show ?thesis by (simp add: replace_lines_def after_def)
  qed
  have sizes: "length (segment a m n) \<le> max_compose_rows" "length after \<le> max_compose_rows"
      "int right - int left \<le> int max_compose_rows"
  proof -
    show "length (segment a m n) \<le> max_compose_rows" using size(1) by (simp add: segment_def max_compose_rows_def)
    have "length after \<le> length ?b" using te(3,5) unfolding after_def by (metis segment_length diff_le_self order_trans)
    then show "length after \<le> max_compose_rows" using size(3) by (simp add: max_compose_rows_def)
    show "int right - int left \<le> int max_compose_rows" using right size(2) by (simp add: max_compose_rows_def)
  qed
  define r where "r = \<lparr>rg_before_start = int m, rg_after_start = int left, rg_before = segment a m n, rg_after = after,
      rg_hidden = \<not> (\<not> hidden \<or> list_ex (\<lambda>r. \<not> rg_hidden r) ts), rg_highlighted = highlighted \<or> list_ex rg_highlighted ts\<rparr>"
  define added where "added = (if segment a m n = after then [] else [r])"
  define d where "d = c\<lparr>cm_current := shift_lines (int lo) (int hi) (ed_after e) (cm_current c),
      cm_regions := sort_regions (map (shift_region (int hi) ?d) (bs @ as) @ added)\<rparr>"
  have step: "apply_edit e hidden highlighted c = Inr d"
    using sizes known here boundary
    by (simp add: apply_edit_def Let_def pos(1,2) sp(3-5) off orig repl d_def r_def added_def flip: t_def)
  let ?as = "map (moved ?d) as"
  have nonneg: "\<forall>r \<in> set (bs @ as). 0 \<le> rg_after_start r" using o sp(1) by (auto simp: ordered_def)
  have moved: "map (shift_region (int hi) ?d) (bs @ as) = bs @ ?as" by (rule shift_region_moved [OF sp(2) nonneg])
  have seg: "segment ?b left right' = after" using te(3) by (simp add: after_def)
  have regions: "cm_regions d = bs @ added @ ?as \<and> tiles a ?b 0 0 (bs @ added @ ?as) (length a) (length ?b)"
  proof (cases "segment a m n = after")
    case True
    have t: "tiles a ?b 0 0 (bs @ ?as) (length a) (length ?b)"
      by (rule tiles_append [OF te(1) tiles_gap [OF te(2) mn(1) te(4)]]) (use True seg in simp)
    then have "sort_regions (bs @ ?as) = bs @ ?as" by (intro sort_sorted tiles_sorted)
    with t True show ?thesis by (simp add: d_def added_def moved [unfolded map_append])
  next
    case False
    have ends: "b_start r = m" "a_start r = left" "b_end r = n" "a_end r = right'"
      using mn te(4,5) seg [symmetric] by (simp_all add: r_def places segment_length)
    have at: "region_at a ?b r"
      unfolding region_at_def ends using mn te(5) seg False by (simp add: r_def)
    have t: "tiles a ?b 0 0 (bs @ r # ?as) (length a) (length ?b)"
      by (rule tiles_append [OF te(1)]) (use at ends te(2) in simp)
    have "sort_regions (bs @ ?as @ [r]) = bs @ r # ?as" by (rule sort_inserted [OF tiles_sorted [OF t]])
    with t False show ?thesis by (simp add: d_def added_def moved [unfolded map_append] append_assoc [symmetric] del: append_assoc)
  qed
  note sh = shift_lines_ok [OF k(2) e, unfolded pos(1,2), folded lo_def hi_def]
  have cur: "cm_current d = shift_lines (int lo) (int hi) (ed_after e) (cm_current c)" by (simp add: d_def)
  have "covered (cm_current d) (bs @ ?as)"
    using covered_shifted [OF sp(2) e lo_def hi_def k(2) cov [unfolded sp(1)]] nonneg by (simp add: cur pos(1,2))
  moreover have "covered (cm_current d) [r]"
    unfolding covered_def
  proof (intro ballI allI impI)
    fix x q
    assume "x \<in> set [r]" and q: "a_start x \<le> q" "q < a_end x"
    then have q: "left \<le> q" "q < right'"
      using te(4,5) seg [symmetric] by (simp_all add: r_def places segment_length)
    have old: "knows (cm_current c) (int k)" if "left \<le> k" "k < right" for k
      using span_known [OF sp(2) cov [unfolded sp(1)] _ that] spans
      by (simp add: spans_known_def lo_def hi_def)
    consider "q < lo" | "lo \<le> q" "q < lo + length (ed_after e)" | "lo + length (ed_after e) \<le> q" by linarith
    then show "knows (cm_current d) (int q)"
    proof cases
      case 1
      with old [of q] q(1) bd le show ?thesis unfolding cur by (intro sh(2)) simp_all
    next
      case 2
      then show ?thesis unfolding cur by (intro sh(3))
    next
      case 3
      let ?k = "q + hi - (lo + length (ed_after e))"
      have "hi \<le> ?k" "?k < right" using 3 q(2) bd by (simp_all add: right'_def)
      with old [of ?k] bd le have kn: "knows (cm_current d) (int (?k - hi + (lo + length (ed_after e))))"
        unfolding cur by (intro sh(4)) simp_all
      have same: "?k - hi + (lo + length (ed_after e)) = q" using 3 by linarith
      show ?thesis using kn unfolding same .
    qed
  qed
  ultimately have "covered (cm_current d) (bs @ added @ ?as)"
    by (auto simp: covered_def added_def)
  moreover have "known (cm_current d) ?b" unfolding cur by (rule sh(1))
  moreover have "known (cm_original d) a" using k(1) by (simp add: d_def)
  ultimately have "represents a ?b d" using regions by (simp add: represents_def)
  moreover have "knows (cm_current d) (int q)" if "q < lo" "knows (cm_current c) (int q)" for q
    unfolding cur by (rule sh(2) [OF that])
  ultimately show ?thesis using step by (simp add: lo_def d_def)
qed

end
