(* ===== verification/Diff_Composition.thy ===== *)
theory Diff_Composition
  imports Diff_Applying
begin

text \<open>
  A composition stands for the change from the first to the last text of its captures: the
  edits of a capture, the normalisation of connected regions, and the application of a capture.
\<close>

section \<open>The edits of a capture\<close>

definition same_paths :: "composition \<Rightarrow> composition \<Rightarrow> bool" where
  "same_paths c d \<longleftrightarrow> cm_started d = cm_started c \<and> cm_before_path d = cm_before_path c
     \<and> cm_after_path d = cm_after_path c"

lemma apply_edits_append:
  "apply_edits (xs @ ys) h l c = (case apply_edits xs h l c of Inl e \<Rightarrow> Inl e | Inr d \<Rightarrow> apply_edits ys h l d)"
  by (induction xs arbitrary: c) (auto split: sum.splits)

lemma apply_edits_ok:
  assumes "represents a b c" and "edits_at b i es (length b)" and "spans_known (cm_current c) es"
    and "length a \<le> 2 ^ 20" and "length b + length (rewritten b i es (length b)) \<le> 2 ^ 20"
  shows "\<exists>d. apply_edits (rev es) h l c = Inr d \<and> represents a (take i b @ rewritten b i es (length b)) d
    \<and> same_paths c d \<and> (\<forall>k < i. knows (cm_current c) (int k) \<longrightarrow> knows (cm_current d) (int k))"
  using assms
proof (induction es arbitrary: i)
  case Nil
  have "take i b @ segment b i (length b) = b" by (simp add: segment_def)
  with Nil show ?case by (simp add: same_paths_def)
next
  case (Cons e es)
  let ?lo = "e_start e" and ?hi = "e_end e"
  from Cons.prems(2) have e: "edit_at b e" "i \<le> ?lo" "edits_at b ?hi es (length b)" by simp_all
  let ?R = "rewritten b ?hi es (length b)"
  have R: "rewritten b i (e # es) (length b) = segment b i ?lo @ ed_after e @ ?R" by simp
  have spans: "spans_known (cm_current c) es" "spans_known (cm_current c) [e]"
    using Cons.prems(3) by (simp_all add: spans_known_def)
  have hi: "?hi \<le> length b" "?lo \<le> ?hi" using e(1) e_start_le [of e] by (simp_all add: edit_at_def)
  from Cons.IH [OF Cons.prems(1) e(3) spans(1) Cons.prems(4)] Cons.prems(5) R obtain d1 where
    d1: "apply_edits (rev es) h l c = Inr d1" "represents a (take ?hi b @ ?R) d1" "same_paths c d1"
       "\<forall>k < ?hi. knows (cm_current c) (int k) \<longrightarrow> knows (cm_current d1) (int k)" by auto
  let ?b = "take ?hi b @ ?R"
  have "segment ?b ?lo ?hi = segment b ?lo ?hi"
    using hi by (intro segment_take_eq [of ?hi]) simp_all
  then have e1: "edit_at ?b e" using e(1) hi by (simp add: edit_at_def)
  have sp1: "spans_known (cm_current d1) [e]" using spans(2) d1(4) by (simp add: spans_known_def)
  have ed: "edited ?b e = take i b @ rewritten b i (e # es) (length b)"
    using hi e(2) segment_take_drop [of i ?lo b] by (simp add: edited_def R)
  have "length ?b \<le> 2 ^ 20" using Cons.prems(5) R by simp
  moreover have "length (edited ?b e) \<le> 2 ^ 20"
  proof -
    have "length (edited ?b e) \<le> length b + length (rewritten b i (e # es) (length b))" unfolding ed by simp
    with Cons.prems(5) show ?thesis by linarith
  qed
  ultimately obtain d where d: "apply_edit e h l d1 = Inr d" "represents a (edited ?b e) d" "same_paths d1 d"
      "\<forall>k < ?lo. knows (cm_current d1) (int k) \<longrightarrow> knows (cm_current d) (int k)"
    using apply_edit_ok [OF d1(2) e1 sp1 Cons.prems(4), of h l] unfolding same_paths_def by blast
  have "\<forall>k < i. knows (cm_current c) (int k) \<longrightarrow> knows (cm_current d) (int k)"
    using d1(4) d(4) e(2) hi by (meson less_le_trans)
  with d1 d show ?case unfolding ed by (simp add: apply_edits_append same_paths_def)
qed

section \<open>Normalisation\<close>

lemma shared_lines_ok:
  assumes "shared_lines c (int i) (int j) n = Some ls" and "known (cm_original c) a" and "known (cm_current c) b"
  shows "ls = segment a i (i + n) \<and> ls = segment b j (j + n)
    \<and> (\<forall>k. j \<le> k \<longrightarrow> k < j + n \<longrightarrow> knows (cm_current c) (int k))"
  using assms(1)
proof (induction n arbitrary: i j ls)
  case (Suc n)
  from Suc.prems obtain x rest where
    x: "alist_get (cm_original c) (int i) = Some x" "alist_get (cm_current c) (int j) = Some x"
       "shared_lines c (int (Suc i)) (int (Suc j)) n = Some rest" "ls = x # rest"
    by (auto simp: add.commute split: option.splits if_splits)
  have at: "i < length a" "a ! i = x" "j < length b" "b ! j = x"
    using knownD [OF assms(2) x(1)] knownD [OF assms(3) x(2)] by simp_all
  have cons: "segment xs k (k + Suc n) = xs ! k # segment xs (Suc k) (Suc k + n)" if "k < length xs" for xs :: "string list" and k
    using Cons_nth_drop_Suc [OF that] by (metis add_diff_cancel_left' segment_def take_Suc_Cons)
  note IH0 = Suc.IH [OF x(3)]
  note IH = IH0 [THEN conjunct1] IH0 [THEN conjunct2, THEN conjunct1] IH0 [THEN conjunct2, THEN conjunct2]
  have "knows (cm_current c) (int k)" if "j \<le> k" "k < j + Suc n" for k
    using IH(3) x(2) that by (cases "k = j") simp_all
  moreover have "ls = segment a i (i + Suc n)" using cons [OF at(1)] at(2) IH(1) x(4) by simp
  moreover have "ls = segment b j (j + Suc n)" using cons [OF at(3)] at(4) IH(2) x(4) by simp
  ultimately show ?case by blast
qed simp

definition span_of :: "line_map \<Rightarrow> nat \<Rightarrow> nat \<Rightarrow> bool" where
  "span_of m j j' \<longleftrightarrow> (\<forall>k. j \<le> k \<longrightarrow> k < j' \<longrightarrow> knows m (int k))"

lemma connect_regions_ok:
  assumes "tiles a b i j rs i' j'" and "known (cm_original c) a" and "known (cm_current c) b"
    and "rg_before_start initial = int s" and "rg_after_start initial = int t" and "s \<le> i" and "t \<le> j"
    and "covered (cm_current c) rs" and "span_of (cm_current c) t j"
    and "i \<le> length a" and "j \<le> length b"
    and "connect_regions c initial (segment a s i) (segment b t j) rs = (x, y, members, rest)"
  shows "\<exists>m n. x = segment a s m \<and> y = segment b t n \<and> i \<le> m \<and> j \<le> n
    \<and> tiles a b m n rest i' j' \<and> span_of (cm_current c) t n"
  using assms(1,6-12)
proof (induction rs arbitrary: i j members)
  case Nil
  then show ?case by auto
next
  case (Cons r rs)
  from Cons.prems(1) have r: "region_at a b r" "i \<le> b_start r" "j \<le> a_start r"
      "segment a i (b_start r) = segment b j (a_start r)" "tiles a b (b_end r) (a_end r) rs i' j'" by simp_all
  have at: "rg_before_start r = int (b_start r)" "rg_after_start r = int (a_start r)"
      "rg_before r = segment a (b_start r) (b_end r)" "rg_after r = segment b (a_start r) (a_end r)"
      "b_end r \<le> length a" "a_end r \<le> length b"
    using r(1) by (simp_all add: region_at_def b_start_def a_start_def)
  have ends: "rg_before_start initial + len (segment a s i) = int i" "rg_after_start initial + len (segment b t j) = int j"
    using Cons.prems(2,3,6,7) assms(4,5) by (simp_all add: len_def segment_length)
  have le: "b_start r \<le> b_end r" "a_start r \<le> a_end r" by (rule start_le_end)+
  have "b_start r \<le> length a" "a_start r \<le> length b" using le at(5,6) by simp_all
  then have d: "b_start r - i = a_start r - j"
    by (intro segment_equal_cut(1) [OF r(4) _ _ r(2,3), of 0]) simp_all
  then have gap: "int (b_start r) - int i = int (b_start r - i)" "int (a_start r) - int j = int (b_start r - i)"
    using r(2,3) by simp_all
  have same: "j + (b_start r - i) = a_start r" "i + (b_start r - i) = b_start r" using d r(2,3) by linarith+
  let ?stop = "(segment a s i, segment b t j, [], r # rs)"
  have E: "connect_regions c initial (segment a s i) (segment b t j) (r # rs) =
      (case shared_lines c (int i) (int j) (b_start r - i) of None \<Rightarrow> ?stop
       | Some common \<Rightarrow> (case connect_regions c initial (segment a s i @ common @ rg_before r)
             (segment b t j @ common @ rg_after r) rs of (a', b', members, rest) \<Rightarrow> (a', b', r # members, rest)))"
    unfolding connect_regions.simps Let_def ends at(1,2) gap by simp
  show ?case
  proof (cases "shared_lines c (int i) (int j) (b_start r - i)")
    case None
    then have "x = segment a s i" "y = segment b t j" "rest = r # rs" using Cons.prems(8) [unfolded E] by simp_all
    with Cons.prems(1,5) show ?thesis by (intro exI [of _ i] exI [of _ j]) simp
  next
    case (Some common)
    note cx0 = shared_lines_ok [OF Some assms(2,3), unfolded same]
    note cx = cx0 [THEN conjunct1] cx0 [THEN conjunct2, THEN conjunct1] cx0 [THEN conjunct2, THEN conjunct2]
    have x: "segment a s i @ common @ rg_before r = segment a s (b_end r)"
    proof -
      have "common @ rg_before r = segment a i (b_end r)"
        using segment_append [OF r(2) le(1), of a] by (simp only: cx(1) at(3))
      then show ?thesis using segment_append [of s i "b_end r" a] r(2) le(1) Cons.prems(2) by simp
    qed
    have y: "segment b t j @ common @ rg_after r = segment b t (a_end r)"
    proof -
      have "common @ rg_after r = segment b j (a_end r)"
        using segment_append [OF r(3) le(2), of b] by (simp only: cx(2) at(4))
      then show ?thesis using segment_append [of t j "a_end r" b] r(3) le(2) Cons.prems(3) by simp
    qed
    have sp: "span_of (cm_current c) t (a_end r)"
      unfolding span_of_def
    proof (intro allI impI)
      fix k
      assume k: "t \<le> k" "k < a_end r"
      consider "k < j" | "j \<le> k" "k < a_start r" | "a_start r \<le> k" by linarith
      then show "knows (cm_current c) (int k)"
        using Cons.prems(4,5) k cx(3) by cases (auto simp: span_of_def covered_def)
    qed
    have "connect_regions c initial (segment a s (b_end r)) (segment b t (a_end r)) rs = (x, y, tl members, rest)"
      using Cons.prems(8) [unfolded E] Some x y by (auto split: prod.splits)
    moreover have "s \<le> b_end r" "t \<le> a_end r" using Cons.prems(2,3) r(2,3) le by simp_all
    moreover have "covered (cm_current c) rs" using Cons.prems(4) by (simp add: covered_def)
    ultimately obtain m n where "x = segment a s m \<and> y = segment b t n \<and> b_end r \<le> m \<and> a_end r \<le> n
        \<and> tiles a b m n rest i' j' \<and> span_of (cm_current c) t n"
      using Cons.IH [OF r(5) _ _ _ sp at(5,6)] by blast
    with r(2,3) le show ?thesis by (metis le_trans)
  qed
qed

text \<open>What an opcode emits tiles its part of the connected text.\<close>

lemma segment_of_segment:
  assumes "s \<le> m" and "m \<le> length xs" and "j \<le> m - s"
  shows "segment (segment xs s m) i j = segment xs (s + i) (s + j)"
proof -
  have l: "length (segment xs s m) = m - s" using assms(2) by (simp add: segment_length)
  then have "segment xs s (s + length (segment xs s m)) = segment xs s m" using assms(1) by simp
  then show ?thesis using assms(3) l by (intro segment_segment) simp_all
qed

definition emitted :: "string list \<Rightarrow> string list \<Rightarrow> nat \<Rightarrow> nat \<Rightarrow> opcode \<Rightarrow> emission \<Rightarrow> bool" where
  "emitted a b s t op em \<longleftrightarrow> int (o_i1 op) \<le> em_old em \<and> em_old em \<le> int (o_i2 op)
     \<and> int (o_j1 op) \<le> em_new em \<and> em_new em \<le> int (o_j2 op)
     \<and> tiles a b (s + o_i1 op) (t + o_j1 op) (em_regions em) (s + nat (em_old em)) (t + nat (em_new em))"

lemma emit_region_ok:
  assumes em: "emitted a b s t op em" and op: "op_ok (segment a s m) (segment b t n) op"
    and sm: "s \<le> m" "m \<le> length a" "t \<le> n" "n \<le> length b"
    and at: "rg_before_start initial = int s" "rg_after_start initial = int t"
  shows "emitted a b s t op (emit_region initial members (segment a s m) (segment b t n) op ends em)"
    and "ends = (int (o_i2 op), int (o_j2 op)) \<Longrightarrow>
      em_old (emit_region initial members (segment a s m) (segment b t n) op ends em) = int (o_i2 op)
      \<and> em_new (emit_region initial members (segment a s m) (segment b t n) op ends em) = int (o_j2 op)"
proof -
  obtain p q where ends: "ends = (p, q)" by (cases ends)
  have opb: "o_i2 op \<le> m - s" "o_j2 op \<le> n - t" using op sm by (simp_all add: op_ok_def segment_length)
  have e: "int (o_i1 op) \<le> em_old em" "em_old em \<le> int (o_i2 op)" "int (o_j1 op) \<le> em_new em" "em_new em \<le> int (o_j2 op)"
      "tiles a b (s + o_i1 op) (t + o_j1 op) (em_regions em) (s + nat (em_old em)) (t + nat (em_new em))"
    using em by (simp_all add: emitted_def)
  show "em_old (emit_region initial members (segment a s m) (segment b t n) op ends em) = int (o_i2 op)
      \<and> em_new (emit_region initial members (segment a s m) (segment b t n) op ends em) = int (o_j2 op)"
    if "ends = (int (o_i2 op), int (o_j2 op))"
    using that e by (simp add: emit_region_def Let_def)
  show "emitted a b s t op (emit_region initial members (segment a s m) (segment b t n) op ends em)"
  proof (cases "p < em_old em \<or> q < em_new em \<or> int (o_i2 op) < p \<or> int (o_j2 op) < q \<or> p = em_old em \<and> q = em_new em")
    case True
    then have "emit_region initial members (segment a s m) (segment b t n) op ends em = em"
      by (auto simp: emit_region_def ends)
    with em show ?thesis by simp
  next
    case False
    then have pq: "em_old em \<le> p" "em_new em \<le> q" "p \<le> int (o_i2 op)" "q \<le> int (o_j2 op)" by simp_all
    have nn: "0 \<le> em_old em" "0 \<le> em_new em" "0 \<le> p" "0 \<le> q" using e(1,3) pq by simp_all
    have le: "nat p \<le> m - s" "nat q \<le> n - t" "nat (em_old em) \<le> nat p" "nat (em_new em) \<le> nat q"
      using pq nn opb by linarith+
    let ?x = "segment (segment a s m) (nat (em_old em)) (nat p)" and ?y = "segment (segment b t n) (nat (em_new em)) (nat q)"
    have x: "?x = segment a (s + nat (em_old em)) (s + nat p)" and y: "?y = segment b (t + nat (em_new em)) (t + nat q)"
      by (rule segment_of_segment [OF sm(1,2) le(1)], rule segment_of_segment [OF sm(3,4) le(2)])
    have top: "s + nat p \<le> length a" "t + nat q \<le> length b" using sm le by linarith+
    define r where "r = \<lparr>rg_before_start = rg_before_start initial + em_old em, rg_after_start = rg_after_start initial + em_new em,
        rg_before = ?x, rg_after = ?y, rg_hidden = True, rg_highlighted = False\<rparr>"
    define shown where "shown = filter (exposes r) members"
    let ?r = "r\<lparr>rg_hidden := (shown = []), rg_highlighted := list_ex rg_highlighted shown\<rparr>"
    let ?em = "em\<lparr>em_old := p, em_new := q\<rparr>"
    have step: "emit_region initial members (segment a s m) (segment b t n) op ends em =
        (if ?x = ?y then ?em else ?em\<lparr>em_regions := em_regions em @ [?r]\<rparr>)"
      using False by (auto simp: emit_region_def ends r_def shown_def Let_def)
    show ?thesis
    proof (cases "?x = ?y")
      case True
      have "tiles a b (s + nat (em_old em)) (t + nat (em_new em)) [] (s + nat p) (t + nat q)"
        using True x y top le by simp
      from tiles_append [OF e(5) this] pq e True show ?thesis
        by (simp add: step emitted_def)
    next
      case False2: False
      have pl: "b_start ?r = s + nat (em_old em)" "a_start ?r = t + nat (em_new em)"
        using nn at by (simp_all add: r_def places nat_add_distrib)
      have en: "b_end ?r = s + nat p" "a_end ?r = t + nat q"
        unfolding b_end_def a_end_def pl using x y top le by (simp_all add: r_def segment_length)
      have "region_at a b ?r"
        unfolding region_at_def pl en using nn at x y top False2 by (simp add: r_def)
      then have "tiles a b (s + nat (em_old em)) (t + nat (em_new em)) [?r] (s + nat p) (t + nat q)"
        using pl en top by simp
      from tiles_append [OF e(5) this] pq e False2 show ?thesis
        by (simp add: step emitted_def)
    qed
  qed
qed

lemma emit_fold_ok:
  assumes "emitted a b s t op em" and op: "op_ok (segment a s m) (segment b t n) op"
    and sm: "s \<le> m" "m \<le> length a" "t \<le> n" "n \<le> length b"
    and at: "rg_before_start initial = int s" "rg_after_start initial = int t"
  shows "emitted a b s t op (fold (emit_region initial members (segment a s m) (segment b t n) op) cs em)"
  using assms(1)
proof (induction cs arbitrary: em)
  case (Cons c cs)
  from Cons.IH [OF emit_region_ok(1) [OF Cons.prems op sm at]] show ?case by simp
qed simp

lemma emit_opcode_ok:
  assumes op: "op_ok (segment a s m) (segment b t n) op"
    and sm: "s \<le> m" "m \<le> length a" "t \<le> n" "n \<le> length b"
    and at: "rg_before_start initial = int s" "rg_after_start initial = int t"
  shows "tiles a b (s + o_i1 op) (t + o_j1 op) (emit_opcode initial members (segment a s m) (segment b t n) op)
    (s + o_i2 op) (t + o_j2 op)"
proof -
  have o: "o_i1 op \<le> o_i2 op" "o_j1 op \<le> o_j2 op" "o_i2 op \<le> m - s" "o_j2 op \<le> n - t"
    using op sm by (simp_all add: op_ok_def segment_length)
  have top: "s + o_i2 op \<le> length a" "t + o_j2 op \<le> length b" using o sm by linarith+
  show ?thesis
  proof (cases "o_tag op = OpEqual")
    case True
    then have "segment (segment a s m) (o_i1 op) (o_i2 op) = segment (segment b t n) (o_j1 op) (o_j2 op)"
      using op by (simp add: op_ok_def)
    then have "segment a (s + o_i1 op) (s + o_i2 op) = segment b (t + o_j1 op) (t + o_j2 op)"
      using segment_of_segment [OF sm(1,2) o(3)] segment_of_segment [OF sm(3,4) o(4)] by simp
    with True o top show ?thesis by (simp add: emit_opcode_def)
  next
    case False
    let ?emit = "emit_region initial members (segment a s m) (segment b t n) op"
    let ?em = "\<lparr>em_old = int (o_i1 op), em_new = int (o_j1 op), em_regions = []\<rparr>"
    have start: "emitted a b s t op ?em" using o top by (simp add: emitted_def)
    define cs where "cs = butlast (cut_points initial members op)"
    have cs: "cut_points initial members op = cs @ [(int (o_i2 op), int (o_j2 op))]"
      by (simp add: cut_points_def cs_def butlast_append)
    note mid = emit_fold_ok [OF start op sm at, of members cs]
    note fin = emit_region_ok [OF mid op sm at, where members = members and ends = "(int (o_i2 op), int (o_j2 op))"]
    from fin show ?thesis using False by (simp add: emit_opcode_def cs emitted_def)
  qed
qed

lemma emit_opcodes_ok:
  assumes "op_path (segment a s m) (segment b t n) i j ops i' j'" and sm: "s \<le> m" "m \<le> length a" "t \<le> n" "n \<le> length b"
    and at: "rg_before_start initial = int s" "rg_after_start initial = int t"
    and "s + i \<le> length a" and "t + j \<le> length b"
  shows "tiles a b (s + i) (t + j) (concat (map (emit_opcode initial members (segment a s m) (segment b t n)) ops))
    (s + i') (t + j')"
  using assms(1,8,9)
proof (induction ops arbitrary: i j)
  case (Cons op ops)
  then have op: "op_ok (segment a s m) (segment b t n) op" "o_i1 op = i" "o_j1 op = j"
      "op_path (segment a s m) (segment b t n) (o_i2 op) (o_j2 op) ops i' j'" by simp_all
  note one = emit_opcode_ok [OF op(1) sm at, of members]
  from tiles_bounds [OF one] Cons.IH [OF op(4)]
  have "tiles a b (s + o_i2 op) (t + o_j2 op)
      (concat (map (emit_opcode initial members (segment a s m) (segment b t n)) ops)) (s + i') (t + j')" by simp
  from tiles_append [OF one this] op(2,3) show ?case by simp
qed simp

lemma covered_span:
  assumes "tiles a b i j rs i' j'" and "span_of m j j'"
  shows "covered m rs"
  unfolding covered_def
proof (intro ballI allI impI)
  fix r k
  assume "r \<in> set rs" and k: "a_start r \<le> k" "k < a_end r"
  from tiles_from [OF assms(1) this(1)] have "int j \<le> rg_after_start r" "a_end r \<le> j'" by simp_all
  then have "j \<le> k" "k < j'" using k unfolding a_start_def by linarith+
  with assms(2) show "knows m (int k)" by (simp add: span_of_def)
qed

lemma normalize_regions_ok:
  assumes df: "differ_ok df" and maps: "known (cm_original c) a" "known (cm_current c) b"
  shows "tiles a b i j rs i' j' \<Longrightarrow> covered (cm_current c) rs
    \<Longrightarrow> tiles a b i j (normalize_regions df c rs) i' j' \<and> covered (cm_current c) (normalize_regions df c rs)"
proof (induction "length rs" arbitrary: rs i j rule: less_induct)
  case less
  show ?case
  proof (cases rs)
    case Nil
    with less.prems show ?thesis by simp
  next
    case (Cons initial rest)
    let ?s = "b_start initial" and ?t = "a_start initial"
    from less.prems(1) Cons have r: "region_at a b initial" "i \<le> ?s" "j \<le> ?t"
        "segment a i ?s = segment b j ?t" "tiles a b (b_end initial) (a_end initial) rest i' j'" by simp_all
    have at: "rg_before_start initial = int ?s" "rg_after_start initial = int ?t"
        "rg_before initial = segment a ?s (b_end initial)" "rg_after initial = segment b ?t (a_end initial)"
        "b_end initial \<le> length a" "a_end initial \<le> length b"
      using r(1) by (simp_all add: region_at_def b_start_def a_start_def)
    have le: "?s \<le> b_end initial" "?t \<le> a_end initial" by (rule start_le_end)+
    have cov: "covered (cm_current c) rest" "span_of (cm_current c) ?t (a_end initial)"
      using less.prems(2) Cons by (simp_all add: covered_def span_of_def)
    obtain x y members left where con: "connect_regions c initial (rg_before initial) (rg_after initial) rest = (x, y, members, left)"
      using prod_cases4 by blast
    from connect_regions_ok [OF r(5) maps at(1,2) le cov at(5,6) con [unfolded at(3,4)]] obtain m n where
      mn: "x = segment a ?s m" "y = segment b ?t n" "b_end initial \<le> m" "a_end initial \<le> n"
        "tiles a b m n left i' j'" "span_of (cm_current c) ?t n" by blast
    have sm: "?s \<le> m" "m \<le> length a" "?t \<le> n" "n \<le> length b"
      using mn(3,4) le tiles_bounds [OF mn(5)] by linarith+
    let ?new = "concat (map (emit_opcode initial (initial # members) x y) (df_opcodes df x y))"
    have "op_path x y 0 0 (df_opcodes df x y) (length x) (length y)" by (rule differ_okD(2) [OF df])
    then have "op_path (segment a ?s m) (segment b ?t n) 0 0 (df_opcodes df x y) (m - ?s) (n - ?t)"
      using sm by (simp add: mn(1,2) segment_length)
    from emit_opcodes_ok [OF this sm at(1,2), of "initial # members"] sm
    have new: "tiles a b ?s ?t ?new m n" by (simp add: mn(1,2))
    have shorter: "length left < length rs" using connect_regions_shrinks [OF con] Cons by simp
    have covl: "covered (cm_current c) left"
      using cov(1) unfolding connect_regions_shrinks [OF con] covered_def set_append by blast
    note IH = less.hyps [OF shorter mn(5) covl]
    have "tiles a b ?s ?t (?new @ normalize_regions df c left) i' j'" using tiles_append [OF new] IH by blast
    then have "tiles a b i j (?new @ normalize_regions df c left) i' j'" by (rule tiles_gap [OF _ r(2-4)])
    moreover have "covered (cm_current c) (?new @ normalize_regions df c left)"
      using covered_span [OF new mn(6)] IH by (auto simp: covered_def)
    moreover have "normalize_regions df c rs = ?new @ normalize_regions df c left"
      using con Cons by simp
    ultimately show ?thesis by simp
  qed
qed

lemma normalize_composition_ok:
  assumes "differ_ok df" and "represents a b c"
  shows "represents a b (normalize_composition df c)" and "same_paths c (normalize_composition df c)"
  using assms normalize_regions_ok [OF assms(1), of c a b 0 0 "cm_regions c" "length a" "length b"]
  by (simp_all add: represents_def normalize_composition_def same_paths_def)

section \<open>Applying a capture\<close>

lemma apply_capture_ok:
  assumes df: "differ_ok df" and size: "length a \<le> 2 ^ 20"
      "length (review_lines before) + length (review_lines after) \<le> 2 ^ 20"
    and c1: "represents a (review_lines before) (start_composition (render_review_file df p q before after) c)"
      "cm_after_path (start_composition (render_review_file df p q before after) c) = p"
  shows "\<exists>d. apply_capture df (render_review_file df p q before after) hidden highlighted c = Inr d
    \<and> represents a (review_lines after) d
    \<and> cm_started d = cm_started (start_composition (render_review_file df p q before after) c)
    \<and> cm_before_path d = cm_before_path (start_composition (render_review_file df p q before after) c)
    \<and> cm_after_path d = q"
proof -
  let ?f = "render_review_file df p q before after"
  define b b' where "b = review_lines before" and "b' = review_lines after"
  define c1 where "c1 = start_composition ?f c"
  have f: "rf_before_path ?f = p" "rf_after_path ?f = q" "\<not> rf_directory ?f" "rf_incomplete ?f = ''''"
    by (simp_all add: render_review_file_def render_groups_def paths_file_def Let_def)
  obtain hs where hs: "parse_review_hunks df ?f True = Inr hs" "chain b b' 0 0 (map link_of hs)"
      "list_all (\<lambda>h. list_all row_ok (rh_rows h)) hs"
    using render_review_hunks [OF df size(2), of p q True] unfolding b_def b'_def by blast
  have rep: "represents a b c1" using c1(1) by (simp add: c1_def b_def)
  have sz: "length b + length b' \<le> 2 ^ 20" using size(2) by (simp add: b_def b'_def)
  obtain c2 es where c2: "learn_hunks hs c1 [] = Inr (c2, es)" "represents a b c2" "more_known c1 c2"
      "edits_at b 0 es (length b)" "rewritten b 0 es (length b) = b'" "spans_known (cm_current c2) es"
    using learn_hunks_ok [OF hs(2,3) rep more_known_refl, of "[]"] by (auto simp: spans_known_def)
  have "length b + length (rewritten b 0 es (length b)) \<le> 2 ^ 20" using sz c2(5) by simp
  from apply_edits_ok [OF c2(2,4,6) size(1) this, of hidden "highlighted \<and> \<not> hidden"] obtain c3 where
    c3: "apply_edits (rev es) hidden (highlighted \<and> \<not> hidden) c2 = Inr c3" "represents a b' c3" "same_paths c2 c3"
    unfolding c2(5) by auto
  define c4 where "c4 = normalize_composition df c3"
  have c4: "represents a b' c4" "same_paths c3 c4"
    using normalize_composition_ok [OF df c3(2)] by (simp_all add: c4_def)
  have "length (cm_original c4) \<le> length a" "length (cm_current c4) \<le> length b'"
    using c4(1) known_size by (auto simp: represents_def)
  then have cap: "\<not> (max_compose_rows < length (cm_original c4) \<or> max_compose_rows < length (cm_current c4))"
    using size(1) sz by (simp add: max_compose_rows_def)
  define c5 where "c5 = (if p \<noteq> q then c4\<lparr>cm_path_hidden := hidden, cm_path_highlighted := highlighted \<and> \<not> hidden\<rparr> else c4)"
  have step: "apply_capture df ?f hidden highlighted c = Inr (c5\<lparr>cm_after_path := q\<rparr>)"
    using f hs(1) c1(2) c2(1) c3(1) cap
    by (simp add: apply_capture_def Let_def c5_def flip: c1_def c4_def)
  have "represents a b' (c5\<lparr>cm_after_path := q\<rparr>)"
    using c4(1) by (simp add: c5_def represents_def)
  moreover have "cm_started (c5\<lparr>cm_after_path := q\<rparr>) = cm_started c1"
      "cm_before_path (c5\<lparr>cm_after_path := q\<rparr>) = cm_before_path c1"
    using c2(3) c3(3) c4(2) by (simp_all add: c5_def same_paths_def more_known_def)
  ultimately show ?thesis using step by (simp add: c1_def b'_def)
qed

section \<open>A chain of captures\<close>

text \<open>The captures between the versions of a file, each a path with its content.\<close>

fun captures_of :: "differ \<Rightarrow> (string \<times> string) list \<Rightarrow> review_file list" where
  "captures_of df ((p, s) # (q, t) # vs) = render_review_file df p q s t # captures_of df ((q, t) # vs)"
| "captures_of df vs = []"

text \<open>The captures are applied in order, each with its visibility; the first error ends the run.\<close>

fun compose_captures :: "differ \<Rightarrow> (review_file \<times> bool \<times> bool) list \<Rightarrow> composition \<Rightarrow> error + composition" where
  "compose_captures df [] c = Inr c"
| "compose_captures df ((f, hidden, highlighted) # fs) c =
     (case apply_capture df f hidden highlighted c of Inl e \<Rightarrow> Inl e | Inr d \<Rightarrow> compose_captures df fs d)"

definition small_versions :: "(string \<times> string) list \<Rightarrow> bool" where
  "small_versions vs \<longleftrightarrow> (\<forall>v \<in> set vs. length (review_lines (snd v)) \<le> 2 ^ 19)"

lemma compose_from:
  assumes df: "differ_ok df" and "length a \<le> 2 ^ 20"
  shows "small_versions (v # vs) \<Longrightarrow> length flags = length vs \<Longrightarrow> cm_started c
    \<Longrightarrow> represents a (review_lines (snd v)) c \<Longrightarrow> cm_after_path c = fst v
    \<Longrightarrow> \<exists>d. compose_captures df (zip (captures_of df (v # vs)) flags) c = Inr d
      \<and> represents a (review_lines (snd (last (v # vs)))) d \<and> cm_started d
      \<and> cm_before_path d = cm_before_path c \<and> cm_after_path d = fst (last (v # vs))"
proof (induction vs arbitrary: v flags c)
  case (Cons w vs)
  obtain p s where v: "v = (p, s)" by (cases v)
  obtain q t where w: "w = (q, t)" by (cases w)
  obtain h l rest where fl: "flags = (h, l) # rest" "length rest = length vs"
    using Cons.prems(2) by (cases flags) auto
  have sz: "length (review_lines s) + length (review_lines t) \<le> 2 ^ 20" "small_versions (w # vs)"
    using Cons.prems(1) by (auto simp: small_versions_def v w)
  have st: "start_composition f c = c" for f using Cons.prems(3) by (simp add: start_composition_def)
  from apply_capture_ok [OF df assms(2) sz(1), of p q c h l] Cons.prems(3-5) obtain d where
    d: "apply_capture df (render_review_file df p q s t) h l c = Inr d" "represents a (review_lines t) d"
       "cm_started d" "cm_before_path d = cm_before_path c" "cm_after_path d = q"
    by (auto simp: st v)
  from Cons.IH [OF sz(2) fl(2) d(3)] d(2,4,5) w obtain e where
    "compose_captures df (zip (captures_of df (w # vs)) rest) d = Inr e"
    "represents a (review_lines (snd (last (w # vs)))) e" "cm_started e" "cm_before_path e = cm_before_path d"
    "cm_after_path e = fst (last (w # vs))" by auto
  with d fl(1) v w show ?case by simp
qed simp

lemma represents_start: "represents b b (start_composition f empty_composition)"
  by (simp add: represents_def start_composition_def empty_composition_def known_def covered_def)

lemma compose_all:
  assumes df: "differ_ok df" and small: "small_versions (v # w # vs)" and flags: "length flags = length (w # vs)"
  shows "\<exists>d. compose_captures df (zip (captures_of df (v # w # vs)) flags) empty_composition = Inr d
      \<and> represents (review_lines (snd v)) (review_lines (snd (last (w # vs)))) d
      \<and> cm_before_path d = fst v \<and> cm_after_path d = fst (last (w # vs))"
proof -
  obtain p s where v: "v = (p, s)" by (cases v)
  obtain q t where w: "w = (q, t)" by (cases w)
  obtain h l rest where fl: "flags = (h, l) # rest" "length rest = length vs"
    using flags by (cases flags) auto
  have sz: "length (review_lines s) \<le> 2 ^ 20" "length (review_lines s) + length (review_lines t) \<le> 2 ^ 20"
      "small_versions (w # vs)"
    using small by (auto simp: small_versions_def v w)
  have paths: "cm_after_path (start_composition (render_review_file df p q s t) empty_composition) = p"
      "cm_before_path (start_composition (render_review_file df p q s t) empty_composition) = p"
      "cm_started (start_composition (render_review_file df p q s t) empty_composition)"
    by (simp_all add: start_composition_def empty_composition_def render_review_file_def render_groups_def paths_file_def Let_def)
  from apply_capture_ok [OF df sz(1,2) represents_start paths(1), of h l] paths obtain d where
    d: "apply_capture df (render_review_file df p q s t) h l empty_composition = Inr d"
       "represents (review_lines s) (review_lines t) d" "cm_started d" "cm_before_path d = p" "cm_after_path d = q"
    by auto
  from compose_from [OF df sz(1,3) fl(2) d(3)] d(2,4,5) w obtain e where
    "compose_captures df (zip (captures_of df (w # vs)) rest) d = Inr e"
    "represents (review_lines s) (review_lines (snd (last (w # vs)))) e" "cm_before_path e = p"
    "cm_after_path e = fst (last (w # vs))" by auto
  with d(1) fl(1) v w show ?thesis by simp
qed

lemma represents_consistent: "represents a (review_lines s) c \<Longrightarrow> consistent s c"
  by (auto simp: represents_def known_def consistent_def list_all_iff len_def Let_def)

end
