(* ===== verification/Diff_Projection.thy ===== *)
theory Diff_Projection
  imports Diff_Composition
begin

text \<open>
  The visible projection of a composition: the windows around its regions hold true lines of
  both texts, do not overlap, and leave out only lines that are equal on both sides.
\<close>

section \<open>Windows\<close>

text \<open>The bounds of a window on either side.\<close>

type_synonym bounds = "nat \<times> nat \<times> nat \<times> nat"

definition window_at :: "string list \<Rightarrow> string list \<Rightarrow> bounds \<Rightarrow> window \<Rightarrow> bool" where
  "window_at a b w v = (case w of (s, s', t, t') \<Rightarrow>
     wn_old_start v = int s \<and> wn_new_start v = int t \<and> s \<le> s' \<and> s' \<le> length a \<and> t \<le> t' \<and> t' \<le> length b
     \<and> wn_before v = segment a s s' \<and> wn_after v = segment b t t')"

fun windows_tile :: "string list \<Rightarrow> string list \<Rightarrow> nat \<Rightarrow> nat \<Rightarrow> bounds list \<Rightarrow> bool" where
  "windows_tile a b i j [] \<longleftrightarrow> drop i a = drop j b"
| "windows_tile a b i j ((s, s', t, t') # ws) \<longleftrightarrow>
     i \<le> s \<and> s \<le> s' \<and> s' \<le> length a \<and> j \<le> t \<and> t \<le> t' \<and> t' \<le> length b
     \<and> segment a i s = segment b j t \<and> windows_tile a b s' t' ws"

lemma same_line_ok:
  assumes "same_line c x y = Some l" and "known (cm_original c) a" and "known (cm_current c) b"
  shows "0 \<le> x \<and> nat x < length a \<and> a ! nat x = l \<and> 0 \<le> y \<and> nat y < length b \<and> b ! nat y = l"
  using assms(1) knownD [OF assms(2)] knownD [OF assms(3)]
  by (fastforce simp: same_line_def split: option.splits if_splits)

lemma extend_left_ok:
  assumes maps: "known (cm_original c) a" "known (cm_current c) b" and "window_at a b (s, s', t, t') v"
    and "i \<le> s" and "j \<le> t" and "segment a i s = segment b j t"
  shows "\<exists>k. k \<le> s - i \<and> k \<le> t - j \<and> window_at a b (s - k, s', t - k, t') (extend_left c (int i) (int j) n v)
    \<and> segment a i (s - k) = segment b j (t - k)"
  using assms(3-)
proof (induction n arbitrary: s t v)
  case 0
  then show ?case by (intro exI [of _ 0]) simp
next
  case (Suc n)
  have v: "wn_old_start v = int s" "wn_new_start v = int t" "s \<le> s'" "s' \<le> length a" "t \<le> t'" "t' \<le> length b"
      "wn_before v = segment a s s'" "wn_after v = segment b t t'" using Suc.prems(1) by (simp_all add: window_at_def)
  show ?case
  proof (cases "s \<le> i \<or> t \<le> j \<or> same_line c (int s - 1) (int t - 1) = None")
    case True
    then have "extend_left c (int i) (int j) (Suc n) v = v" using v(1,2) by auto
    with Suc.prems show ?thesis by (intro exI [of _ 0]) simp
  next
    case False
    then obtain l where l: "same_line c (int s - 1) (int t - 1) = Some l" by auto
    have pos: "i < s" "j < t" using False by simp_all
    obtain s0 t0 where st: "s = Suc s0" "t = Suc t0" using pos by (metis not_less_zero old.nat.exhaust)
    from same_line_ok [OF l maps] st have at: "a ! s0 = l" "b ! t0 = l" by simp_all
    let ?v = "v\<lparr>wn_old_start := wn_old_start v - 1, wn_new_start := wn_new_start v - 1,
               wn_before := l # wn_before v, wn_after := l # wn_after v\<rparr>"
    have w: "window_at a b (s0, s', t0, t') ?v"
      using v st at segment_cons [of s0 s' a] segment_cons [of t0 t' b] by (simp add: window_at_def)
    have le: "s \<le> length a" "t \<le> length b" using v by simp_all
    have eqlen: "s - i = t - j" by (rule segment_equal_cut(1) [OF Suc.prems(4) le Suc.prems(2,3), of 0]) simp
    have ends: "i + (t0 - j) = s0" "j + (t0 - j) = t0" using eqlen st pos by linarith+
    have "t0 - j \<le> t - j" using st by simp
    from segment_equal_cut(2) [OF Suc.prems(4) le Suc.prems(2,3) this]
    have cut: "segment a i s0 = segment b j t0" unfolding ends .
    have "i \<le> s0" "j \<le> t0" using pos st by simp_all
    from Suc.IH [OF w this cut] obtain k where
      k: "k \<le> s0 - i" "k \<le> t0 - j" "window_at a b (s0 - k, s', t0 - k, t') (extend_left c (int i) (int j) n ?v)"
         "segment a i (s0 - k) = segment b j (t0 - k)" by blast
    moreover have "extend_left c (int i) (int j) (Suc n) v = extend_left c (int i) (int j) n ?v"
      using l v(1,2) pos by simp
    moreover have "Suc k \<le> s - i" "Suc k \<le> t - j" using k(1,2) st \<open>i \<le> s0\<close> \<open>j \<le> t0\<close> by linarith+
    ultimately show ?thesis using st by (intro exI [of _ "Suc k"]) simp
  qed
qed

lemma tiles_advance:
  assumes "tiles a b i j rs i' j'" and "i < length a" and "j < length b" and "i < i'" and "j < j'" and "a ! i = b ! j"
    and "rs = [] \<or> i < b_start (hd rs) \<and> j < a_start (hd rs)"
  shows "tiles a b (Suc i) (Suc j) rs i' j'"
proof -
  have cut: "segment a (Suc i) p = segment b (Suc j) q"
    if "segment a i p = segment b j q" "i < p" "j < q" "p \<le> length a" "q \<le> length b" for p q
    using that segment_cons [of i p a] segment_cons [of j q b] by simp
  show ?thesis
  proof (cases rs)
    case Nil
    with assms cut [of i' j'] show ?thesis by simp
  next
    case (Cons r rest)
    with assms have r: "region_at a b r" "segment a i (b_start r) = segment b j (a_start r)" "i < b_start r" "j < a_start r"
      by simp_all
    have "b_start r \<le> length a" "a_start r \<le> length b"
      using r(1) start_le_end [of r] unfolding region_at_def by linarith+
    with cut [OF r(2-4)] r Cons assms(1) show ?thesis by simp
  qed
qed

lemma extend_right_ok:
  assumes maps: "known (cm_original c) a" "known (cm_current c) b"
    and "window_at a b (s, s', t, t') v" and "tiles a b s' t' rs (length a) (length b)"
  shows "\<exists>e f. s' \<le> e \<and> t' \<le> f \<and> window_at a b (s, e, t, f) (extend_right c rs n v)
    \<and> tiles a b e f rs (length a) (length b)"
  using assms(3-)
proof (induction n arbitrary: s' t' v)
  case 0
  then show ?case by auto
next
  case (Suc n)
  have v: "wn_old_start v = int s" "wn_new_start v = int t" "s \<le> s'" "s' \<le> length a" "t \<le> t'" "t' \<le> length b"
      "wn_before v = segment a s s'" "wn_after v = segment b t t'" using Suc.prems(1) by (simp_all add: window_at_def)
  have ends: "wn_old_start v + len (wn_before v) = int s'" "wn_new_start v + len (wn_after v) = int t'"
    using v by (simp_all add: len_def segment_length)
  let ?blocked = "case rs of [] \<Rightarrow> False | r # _ \<Rightarrow> rg_before_start r \<le> int s' \<or> rg_after_start r \<le> int t'"
  show ?case
  proof (cases "?blocked \<or> same_line c (int s') (int t') = None")
    case True
    then have "extend_right c rs (Suc n) v = v" by (auto simp: Let_def ends)
    with Suc.prems show ?thesis by (metis le_refl)
  next
    case False
    then obtain l where l: "same_line c (int s') (int t') = Some l" by auto
    from same_line_ok [OF l maps] have at: "s' < length a" "a ! s' = l" "t' < length b" "b ! t' = l" by simp_all
    let ?v = "v\<lparr>wn_before := wn_before v @ [l], wn_after := wn_after v @ [l]\<rparr>"
    have "window_at a b (s, Suc s', t, Suc t') ?v"
      using v at segment_snoc [of s s' a] segment_snoc [of t t' b] by (simp add: window_at_def)
    moreover have "tiles a b (Suc s') (Suc t') rs (length a) (length b)"
    proof (rule tiles_advance [OF Suc.prems(2) at(1,3) at(1,3)])
      show "a ! s' = b ! t'" using at by simp
      show "rs = [] \<or> s' < b_start (hd rs) \<and> t' < a_start (hd rs)"
      proof (cases rs)
        case (Cons r rest)
        with False have "int s' < rg_before_start r" "int t' < rg_after_start r" by simp_all
        then have "s' < b_start r" "t' < a_start r" unfolding b_start_def a_start_def by linarith+
        with Cons show ?thesis by simp
      qed simp
    qed
    ultimately obtain e f where "Suc s' \<le> e" "Suc t' \<le> f" "window_at a b (s, e, t, f) (extend_right c rs n ?v)"
        "tiles a b e f rs (length a) (length b)" using Suc.IH by blast
    moreover have "extend_right c rs (Suc n) v = extend_right c rs n ?v"
      using False l by (auto simp: Let_def ends)
    ultimately show ?thesis by (metis Suc_leD)
  qed
qed

section \<open>The visible files\<close>

definition render_window :: "differ \<Rightarrow> review_file \<Rightarrow> string list \<Rightarrow> string list \<Rightarrow> bounds \<Rightarrow> review_file" where
  "render_window df f a b w = (case w of (s, s', t, t') \<Rightarrow> render_file df f (segment a s s') (segment b t t') s t)"

lemma visible_files_ok:
  assumes maps: "known (cm_original c) a" "known (cm_current c) b"
  shows "tiles a b i j rs (length a) (length b) \<Longrightarrow> list_all (\<lambda>r. \<not> rg_hidden r) rs
    \<Longrightarrow> \<exists>ws. map hl_file (visible_files df c (int i) (int j) rs) = map (render_window df (composed_paths c) a b) ws
      \<and> windows_tile a b i j ws \<and> length ws = length rs"
proof (induction rs arbitrary: i j)
  case Nil
  then have "drop i a = drop j b" by (simp add: segment_def)
  then show ?case by (intro exI [of _ "[]"]) simp
next
  case (Cons r rs)
  then have r: "region_at a b r" "i \<le> b_start r" "j \<le> a_start r" "segment a i (b_start r) = segment b j (a_start r)"
      "tiles a b (b_end r) (a_end r) rs (length a) (length b)" by simp_all
  let ?v = "\<lparr>wn_old_start = rg_before_start r, wn_new_start = rg_after_start r, wn_before = rg_before r, wn_after = rg_after r\<rparr>"
  have v: "window_at a b (b_start r, b_end r, a_start r, a_end r) ?v"
    using r(1) start_le_end [of r] by (simp add: window_at_def region_at_def b_start_def a_start_def)
  obtain k where k: "k \<le> b_start r - i" "k \<le> a_start r - j"
      "window_at a b (b_start r - k, b_end r, a_start r - k, a_end r) (extend_left c (int i) (int j) 3 ?v)"
      "segment a i (b_start r - k) = segment b j (a_start r - k)"
    using extend_left_ok [OF maps v r(2-4)] by blast
  obtain e f where ef: "b_end r \<le> e" "a_end r \<le> f"
      "window_at a b (b_start r - k, e, a_start r - k, f) (extend_right c rs 3 (extend_left c (int i) (int j) 3 ?v))"
      "tiles a b e f rs (length a) (length b)"
    using extend_right_ok [OF maps k(3) r(5)] by blast
  let ?w = "extend_right c rs 3 (extend_left c (int i) (int j) 3 ?v)"
  have w: "wn_old_start ?w = int (b_start r - k)" "wn_new_start ?w = int (a_start r - k)"
      "wn_before ?w = segment a (b_start r - k) e" "wn_after ?w = segment b (a_start r - k) f"
      "b_start r - k \<le> e" "e \<le> length a" "a_start r - k \<le> f" "f \<le> length b"
    using ef(3) unfolding window_at_def by auto
  have ends: "wn_old_start ?w + len (wn_before ?w) = int e" "wn_new_start ?w + len (wn_after ?w) = int f"
    using w by (simp_all add: len_def segment_length)
  from Cons.IH [OF ef(4)] Cons.prems(2) obtain ws where
    ws: "map hl_file (visible_files df c (int e) (int f) rs) = map (render_window df (composed_paths c) a b) ws"
      "windows_tile a b e f ws" "length ws = length rs" by auto
  have hid: "\<not> rg_hidden r" using Cons.prems(2) by simp
  have "map hl_file (visible_files df c (int i) (int j) (r # rs)) =
      map (render_window df (composed_paths c) a b) ((b_start r - k, e, a_start r - k, f) # ws)"
    using hid ws(1) w(1-4) ends by (simp add: Let_def render_window_def)
  moreover have "windows_tile a b i j ((b_start r - k, e, a_start r - k, f) # ws)"
    using k ws(2) w r(2,3) by auto
  ultimately show ?case using ws(3) by (intro exI [of _ "(b_start r - k, e, a_start r - k, f) # ws"]) simp
qed

end
