(* ===== verification/Diff_Properties.thy ===== *)
theory Diff_Properties
  imports Diff_Threeway Diff_Grouping Diff_Projection
begin

text \<open>
  Properties of the captured diffs: what the parser reads back from a capture, what its line
  counts say, and what replaying and undoing it gives.  The witnesses run on a concrete
  matcher that replaces everything when the two sides differ.
\<close>

section \<open>A concrete matcher\<close>

definition whole_op :: "string list \<Rightarrow> string list \<Rightarrow> opcode" where
  "whole_op a b = \<lparr>o_tag = OpReplace, o_i1 = 0, o_i2 = length a, o_j1 = 0, o_j2 = length b\<rparr>"

definition whole_differ :: differ where
  "whole_differ = \<lparr>df_quote = (\<lambda>s. CHR 0x22 # filter (\<lambda>c. c \<noteq> newline) s @ [CHR 0x22]),
     df_opcodes = (\<lambda>a b. [whole_op a b]),
     df_grouped = (\<lambda>n a b. if a = b then [] else [[whole_op a b]]),
     df_blocks = (\<lambda>a b. [])\<rparr>"

lemma whole_differ_ok: "differ_ok whole_differ"
  by (auto simp: differ_ok_def whole_differ_def whole_op_def group_ok_def op_ok_def)

text \<open>The capture of a one-line change, on which the witnesses run.\<close>

definition one_line_hunk :: review_hunk where
  "one_line_hunk = \<lparr>rh_before_start = 0, rh_after_start = 0, rh_changed_start = 0,
     rh_rows = [\<lparr>rr_kind = CHR ''-'', rr_text = ''a''\<rparr>, \<lparr>rr_kind = CHR ''+'', rr_text = ''b''\<rparr>]\<rparr>"

lemma one_line_sides: "review_lines ''a'' = [''a'']" "review_lines ''b'' = [''b'']"
  by code_simp+

lemma one_line_small: "length (review_lines ''a'') + length (review_lines ''b'') \<le> 2 ^ 20"
  by (simp add: one_line_sides)

lemma one_line_groups:
  "map (group_hunk (review_lines ''a'') (review_lines ''b'') 0 0)
     (df_grouped whole_differ 10 (review_lines ''a'') (review_lines ''b'')) = [one_line_hunk]"
proof -
  have "df_grouped whole_differ 10 [''a''] [''b''] = [[whole_op [''a''] [''b'']]]"
    by (simp add: whole_differ_def)
  moreover have "map (group_hunk [''a''] [''b''] 0 0) [[whole_op [''a''] [''b'']]] = [one_line_hunk]"
    by code_simp
  ultimately show ?thesis by (simp add: one_line_sides)
qed

section \<open>Captures\<close>

text \<open>
  C9: a capture keeps its content.  The hunks read back from a rendered review file are the
  groups of the matcher, row by row, and they lead from the lines before to the lines after:
  each hunk holds the lines of both sides at its position, and between hunks the sides agree.
\<close>

theorem capture_hunks:
  assumes "differ_ok df"
    and "length (review_lines before) + length (review_lines after) \<le> 2 ^ 20"
  shows "hunks df (render_review_file df p q before after) =
      Inr (map (group_hunk (review_lines before) (review_lines after) 0 0)
        (df_grouped df 10 (review_lines before) (review_lines after)))
    \<and> chain (review_lines before) (review_lines after) 0 0
        (map link_of (map (group_hunk (review_lines before) (review_lines after) 0 0)
          (df_grouped df 10 (review_lines before) (review_lines after))))"
  using render_review_hunks [OF assms] by (simp add: hunks_def)

theorem capture_hunks_witness:
  "hunks whole_differ (render_review_file whole_differ ''f'' ''f'' ''a'' ''b'') = Inr [one_line_hunk]"
  using capture_hunks [OF whole_differ_ok one_line_small, of "''f''" "''f''"] unfolding one_line_groups
  by (rule conjunct1)

text \<open>
  The line counts of a capture.  They are the added and the removed rows of its hunks,
  and their difference is the difference of the lengths of the two sides.
\<close>

lemma capture_line_counts:
  assumes "differ_ok df"
    and "length (review_lines before) + length (review_lines after) \<le> 2 ^ 20"
    and "hunks df (render_review_file df p q before after) = Inr hs"
    and "line_counts (render_review_file df p q before after) = (added, removed)"
  shows "added = sum_list (map (\<lambda>h. plus_rows (rh_rows h)) hs)
    \<and> removed = sum_list (map (\<lambda>h. minus_rows (rh_rows h)) hs)
    \<and> added - removed = int (length (review_lines after)) - int (length (review_lines before))"
proof -
  note r = render_review_hunks [OF assms(1,2), of p q]
  note c = render_review_counts [OF assms(1), of p q before after]
  from r assms(3) have hs: "hs = map (group_hunk (review_lines before) (review_lines after) 0 0)
      (df_grouped df 10 (review_lines before) (review_lines after))" by (simp add: hunks_def)
  have sums: "added = sum_list (map (\<lambda>h. plus_rows (rh_rows h)) hs)"
      "removed = sum_list (map (\<lambda>h. minus_rows (rh_rows h)) hs)"
    using c assms(4) by (simp_all add: hs comp_def group_hunk_def)
  have "list_all (\<lambda>h. list_all row_ok (rh_rows h)) hs" using r by (simp add: hs)
  moreover have "chain (review_lines before) (review_lines after) 0 0 (map link_of hs)" using r by (simp add: hs)
  ultimately show ?thesis using sums chain_balance [of hs] by simp
qed

lemma capture_line_counts_witness:
  "line_counts (render_review_file whole_differ ''f'' ''f'' ''a'' ''b'') = (1, 1)"
proof -
  obtain p m where pm: "line_counts (render_review_file whole_differ ''f'' ''f'' ''a'' ''b'') = (p, m)"
    by (meson surj_pair)
  have "hunks whole_differ (render_review_file whole_differ ''f'' ''f'' ''a'' ''b'') = Inr [one_line_hunk]"
    using render_review_hunks [OF whole_differ_ok one_line_small, of "''f''" "''f''" False]
    unfolding one_line_groups hunks_def by (rule conjunct1)
  from capture_line_counts [OF whole_differ_ok one_line_small this pm] have "p = 1 \<and> m = 1"
    by (simp add: plus_rows_def minus_rows_def one_line_hunk_def)
  with pm show ?thesis by simp
qed

text \<open>
  C11: replay and undo.  Merging a capture into the content it was captured on gives the other
  side, in either direction, with no conflict, nothing found already satisfied and nothing
  rejected.
\<close>

theorem replay_and_undo:
  assumes "differ_ok df"
    and "length (review_lines before) + length (review_lines after) \<le> 2 ^ 20"
  shows "merge_review df (render_review_file df p q before after) before False label =
      Some (Inr \<lparr>rm_content = after, rm_conflicts = 0, rm_satisfied = 0, rm_rejected = []\<rparr>)
    \<and> merge_review df (render_review_file df p q before after) after True label =
      Some (Inr \<lparr>rm_content = before, rm_conflicts = 0, rm_satisfied = 0, rm_rejected = []\<rparr>)"
  using merge_render [OF assms, of p q False label] merge_render [OF assms, of p q True label] by simp

theorem replay_and_undo_witness:
  "merge_review whole_differ (render_review_file whole_differ ''f'' ''f'' ''a'' ''b'') ''b'' True ''undo'' =
    Some (Inr \<lparr>rm_content = ''a'', rm_conflicts = 0, rm_satisfied = 0, rm_rejected = []\<rparr>)"
  by (rule replay_and_undo [OF whole_differ_ok one_line_small, THEN conjunct2])

section \<open>Three-way merge\<close>

text \<open>
  C6: the three-way merge is a diff3.  It returns for any three texts, and its output is
  explained by cutting the three sides into the same number of chunks: a chunk changed on one
  side only takes that side, an identical change is taken once, and every other chunk is
  written between markers and counted as a conflict.  When both sides are the same text, the
  result is that text without conflicts, whatever the matcher finds.
\<close>

theorem three_way_merge:
  assumes "differ_ok df"
  shows "(\<exists>cs. merge_lines df base ours theirs label =
        Some (concat (map (resolve_chunk label) cs), length (filter clash cs))
      \<and> concat (map fst cs) = base \<and> concat (map (\<lambda>c. fst (snd c)) cs) = ours
      \<and> concat (map (\<lambda>c. snd (snd c)) cs) = theirs)
    \<and> merge_lines df base ours ours label = Some (ours, 0)"
  using merge_lines_explained [OF assms] merge_lines_alike [OF assms] by blast

theorem three_way_merge_witness:
  "merge_lines whole_differ [''a''] [''b''] [''b''] ''undo'' = Some ([''b''], 0)"
  using three_way_merge [OF whole_differ_ok, of "[''a'']" "[''b'']" "[''b'']" "''undo''"] by simp

text \<open>
  Merging a capture returns.  For every review file, whatever its text, and every current
  content, in either direction, the merge ends with a result or an error: the loops of the
  three-way merges make progress, so their fuel is enough.
\<close>

lemma merge_returns:
  assumes "differ_ok df"
  shows "\<exists>r. merge_review df f current reverse label = Some r"
  by (rule merge_review_returns [OF assms])

lemma merge_returns_witness:
  "\<exists>r. merge_review whole_differ (paths_file ''f'' ''f'') ''current'' False ''replay'' = Some r"
  by (rule merge_returns [OF whole_differ_ok])

section \<open>Files\<close>



section \<open>Composition\<close>

text \<open>
  C4: composition refines the chain of versions.  For any versions of a file, each with its
  path, the captures between them compose without an error in order, whatever their
  visibility, and the composition stands for the change from the first to the last version:
  its regions tile the two texts, everything it knows of either text is true, the last
  content is consistent with it, and its paths are the first and the last path.
\<close>

theorem composition_refines_versions:
  assumes "differ_ok df" and "length flags = Suc (length vs)"
    and "list_all (\<lambda>v. length (review_lines (snd v)) \<le> 2 ^ 19) (v # w # vs)"
  shows "\<exists>c. compose_captures df (zip (captures_of df (v # w # vs)) flags) empty_composition = Inr c
    \<and> represents (review_lines (snd v)) (review_lines (snd (last (w # vs)))) c
    \<and> consistent (snd (last (w # vs))) c
    \<and> cm_before_path c = fst v \<and> cm_after_path c = fst (last (w # vs))"
proof -
  have "small_versions (v # w # vs)" using assms(3) by (simp add: small_versions_def list_all_iff)
  from compose_all [OF assms(1) this, of flags] assms(2) represents_consistent show ?thesis by fastforce
qed

theorem composition_refines_versions_witness:
  "\<exists>c. compose_captures whole_differ
      (zip (captures_of whole_differ [(''f'', ''a''), (''f'', ''b''), (''g'', ''c'')]) [(False, False), (False, True)])
      empty_composition = Inr c
    \<and> consistent ''c'' c \<and> cm_after_path c = ''g''"
proof -
  have l: "review_lines ''a'' = [''a'']" "review_lines ''b'' = [''b'']" "review_lines ''c'' = [''c'']" by code_simp+
  have "list_all (\<lambda>v. length (review_lines (snd v)) \<le> 2 ^ 19) [(''f'', ''a''), (''f'', ''b''), (''g'', ''c'')]"
    by (simp add: l)
  from composition_refines_versions [OF whole_differ_ok _ this, of "[(False, False), (False, True)]"]
  show ?thesis by auto
qed

text \<open>
  C35: the projection shows the change.  When a composition stands for the change from one text
  to another and hides no region, each visible file renders a window of true lines of both
  texts at its position, the windows follow each other without overlap, and what lies between
  them is equal on both sides; without a region the texts are equal and at most the change of
  the path is shown.
\<close>

theorem projection_shows_change:
  assumes "represents a b c" and "list_all (\<lambda>r. \<not> rg_hidden r) (cm_regions c)"
  shows "if cm_regions c = [] then a = b \<and> length (files_with_highlights df c) \<le> 1
    else \<exists>ws. map hl_file (files_with_highlights df c) = map (render_window df (composed_paths c) a b) ws
      \<and> windows_tile a b 0 0 ws"
proof -
  have t: "tiles a b 0 0 (cm_regions c) (length a) (length b)" "known (cm_original c) a" "known (cm_current c) b"
    using assms(1) by (simp_all add: represents_def)
  show ?thesis
  proof (cases "cm_regions c")
    case Nil
    with t(1) show ?thesis by (simp add: files_with_highlights_def)
  next
    case (Cons r rs)
    from visible_files_ok [OF t(2,3,1) assms(2), of df] obtain ws where
      ws: "map hl_file (visible_files df c 0 0 (cm_regions c)) = map (render_window df (composed_paths c) a b) ws"
        "windows_tile a b 0 0 ws" "length ws = length (cm_regions c)" by auto
    then have "visible_files df c 0 0 (cm_regions c) \<noteq> []" using Cons by auto
    with ws Cons show ?thesis by (auto simp: files_with_highlights_def Let_def)
  qed
qed

theorem projection_shows_change_witness:
  "map hl_file (files_with_highlights whole_differ
      \<lparr>cm_started = True, cm_before_path = ''f'', cm_after_path = ''f'', cm_path_hidden = False, cm_path_highlighted = False,
       cm_regions = [\<lparr>rg_before_start = 0, rg_after_start = 0, rg_before = [''a''], rg_after = [''b''], rg_hidden = False,
         rg_highlighted = False\<rparr>], cm_original = [(0, ''a'')], cm_current = [(0, ''b'')]\<rparr>) \<noteq> []"
proof -
  let ?r = "\<lparr>rg_before_start = 0, rg_after_start = 0, rg_before = [''a''], rg_after = [''b''], rg_hidden = False,
         rg_highlighted = False\<rparr>"
  let ?c = "\<lparr>cm_started = True, cm_before_path = ''f'', cm_after_path = ''f'', cm_path_hidden = False, cm_path_highlighted = False,
       cm_regions = [?r], cm_original = [(0, ''a'')], cm_current = [(0, ''b'')]\<rparr>"
  have "represents [''a''] [''b''] ?c"
    by (simp add: represents_def region_at_def places segment_def known_def covered_def)
  from projection_shows_change [OF this, of whole_differ] show ?thesis by fastforce
qed

end
