(* ===== verification/Dedup_Matcher.thy ===== *)
theory Dedup_Matcher
  imports Strings
begin

text \<open>
  The line matcher of the output deduplication module
  (\<open>modules/outputdeduplication/internal/matcher/matcher.go\<close>): an index of the verbatim text
  already shown in one request, the search for repeated line runs, and the eviction of text
  that leaves the window.  The random seed of the standard library's hash is the function
  \<open>hash\<close> every operation takes; nothing below depends on which function it is.  A lookup that
  would be out of range is \<open>None\<close>, the panic of the source.
\<close>

definition threshold :: nat where
  "threshold = 192"

definition window_bytes :: nat where
  "window_bytes = 262144"

section \<open>Data\<close>

record span =
  sp_start :: nat
  sp_end :: nat
  sp_source :: nat
  sp_first :: nat
  sp_last :: nat
  sp_whole :: bool

definition zero_span :: span where
  "zero_span = \<lparr>sp_start = 0, sp_end = 0, sp_source = 0, sp_first = 0, sp_last = 0, sp_whole = False\<rparr>"

record projection =
  pj_spans :: "span list"
  pj_text :: string

text \<open>
  The sixteen bytes of a seed: the offset of its line, the delivered row, and the next seed
  of the piece with the same hash, plus one.
\<close>

record seed =
  sd_offset :: "32 word"
  sd_row :: nat
  sd_next :: "32 word"

record piece =
  p_text :: string
  p_seeds :: "seed list"
  p_start :: nat
  p_first_seed :: nat
  p_source :: nat
  p_rows :: nat
  p_order :: nat
  p_complete :: bool

type_synonym position = "nat \<times> nat"

record candidates =
  cd_recent :: "position list"
  cd_first :: "position list"

definition no_candidates :: candidates where
  "no_candidates = \<lparr>cd_recent = replicate 4 (0, 0), cd_first = replicate 4 (0, 0)\<rparr>"

type_synonym seed_table = "64 word \<rightharpoonup> candidates"

record line_index =
  ix_seeds :: seed_table
  ix_pieces :: "piece list"
  ix_first_piece :: nat
  ix_bytes :: nat

type_synonym hashing = "string \<Rightarrow> 64 word"

definition new_index :: line_index where
  "new_index = \<lparr>ix_seeds = Map.empty, ix_pieces = [], ix_first_piece = 1, ix_bytes = 0\<rparr>"

definition close_index :: "line_index \<Rightarrow> line_index" where
  "close_index idx = idx\<lparr>ix_pieces := [], ix_seeds := Map.empty, ix_first_piece := 1, ix_bytes := 0\<rparr>"

text \<open>A map read returns the zero value of a missing key.\<close>

definition lookup_seeds :: "seed_table \<Rightarrow> 64 word \<Rightarrow> candidates" where
  "lookup_seeds tbl h = (case tbl h of None \<Rightarrow> no_candidates | Some c \<Rightarrow> c)"

section \<open>Lines\<close>

definition line_end :: "string \<Rightarrow> nat \<Rightarrow> nat" where
  "line_end s at = (case find_index (\<lambda>c. c = newline) (drop at s) of
     None \<Rightarrow> length s | Some n \<Rightarrow> at + n + 1)"

definition row_count :: "string \<Rightarrow> nat" where
  "row_count s = length (filter (\<lambda>c. c = newline) s)
     + (if s \<noteq> [] \<and> last s \<noteq> newline then 1 else 0)"

definition blank :: "char \<Rightarrow> bool" where
  "blank c \<longleftrightarrow> c \<in> {CHR '' '', CHR 0x09, CHR 0x0D, CHR 0x0B, CHR 0x0C, newline}"

fun seed_scan :: "nat \<Rightarrow> string \<Rightarrow> bool" where
  "seed_scan n [] = False"
| "seed_scan n (c # cs) =
     (if blank c then seed_scan n cs else if n + 1 = 8 then True else seed_scan (n + 1) cs)"

definition is_seed :: "string \<Rightarrow> bool" where
  "is_seed content = seed_scan 0 content"

definition hash_text :: "hashing \<Rightarrow> string \<Rightarrow> 64 word" where
  "hash_text hash s =
     hash (if suffix [newline] s then trim_suffix [CHR 0x0D] (trim_suffix [newline] s) else s)"

definition equal_line :: "string \<Rightarrow> string \<Rightarrow> bool" where
  "equal_line s reference \<longleftrightarrow> trim_suffix [newline] s = trim_suffix [newline] reference"

text \<open>\<open>low + bytes.LastIndexByte(text[low:at-1], newline) + 1\<close>.\<close>

definition row_start :: "string \<Rightarrow> nat \<Rightarrow> nat \<Rightarrow> nat" where
  "row_start s low at =
     (let r = segment s low (at - 1)
      in case find_index (\<lambda>c. c = newline) (rev r) of
           None \<Rightarrow> low | Some i \<Rightarrow> low + (length r - 1 - i) + 1)"

lemma line_end_gt: "at < length s \<Longrightarrow> at < line_end s at"
  by (simp add: line_end_def split: option.splits)

lemma line_end_le: "line_end s at \<le> length s \<or> length s \<le> at"
proof (cases "find_index (\<lambda>c. c = newline) (drop at s)")
  case (Some n)
  then have "n < length (drop at s)" by (rule conjunct1 [OF find_index_Some])
  with Some show ?thesis by (simp add: line_end_def) linarith
qed (simp add: line_end_def)

lemma row_start_less: "low < at \<Longrightarrow> row_start s low at < at"
  by (auto simp: row_start_def segment_def Let_def split: option.splits dest!: find_index_Some)

lemma row_start_ge: "low \<le> row_start s low at"
  by (simp add: row_start_def Let_def split: option.splits)

section \<open>Matching\<close>

text \<open>
  The two loops that extend a matching line to the rows before and after it; the last
  component counts the delivered rows of the reference.
\<close>

function extend_back :: "string \<Rightarrow> string \<Rightarrow> nat \<Rightarrow> nat \<Rightarrow> nat \<times> nat \<times> nat \<Rightarrow> nat \<times> nat \<times> nat" where
  "extend_back s reference floor start (lo, low, first) =
     (if floor < lo \<and> start < low
      then let previous = row_start reference start low; at = row_start s floor lo
           in if equal_line (segment s at lo) (segment reference previous low)
              then extend_back s reference floor start (at, previous, first - 1)
              else (lo, low, first)
      else (lo, low, first))"
  by pat_completeness auto
termination
  by (relation "measure (\<lambda>(s, reference, floor, start, lo, low, first). lo)")
    (simp_all add: row_start_less)

function extend_forward :: "string \<Rightarrow> string \<Rightarrow> nat \<times> nat \<times> nat \<Rightarrow> nat \<times> nat \<times> nat" where
  "extend_forward s reference (hi, high, final) =
     (if hi < length s \<and> high < length reference
      then let e = line_end s hi; ref_end = line_end reference high
           in if equal_line (segment s hi e) (segment reference high ref_end)
              then extend_forward s reference (e, ref_end, final + 1)
              else (hi, high, final)
      else (hi, high, final))"
  by pat_completeness auto
termination
  by (relation "measure (\<lambda>(s, reference, hi, high, final). length s - hi)")
    (simp_all add: line_end_gt diff_less_mono2)

declare extend_back.simps [simp del] extend_forward.simps [simp del]

text \<open>The candidate run at one earlier position, with its recency; \<open>None\<close> when the line differs.\<close>

definition candidate_run :: "string \<Rightarrow> nat \<Rightarrow> nat \<Rightarrow> nat \<Rightarrow> piece \<Rightarrow> seed \<Rightarrow> (span \<times> nat) option" where
  "candidate_run s floor at nxt p sd =
     (let reference = p_text p; offset = unat (sd_offset sd); row = sd_row sd;
          to = line_end reference offset
      in if \<not> equal_line (segment s at nxt) (segment reference offset to) then None
         else (case extend_back s reference floor (p_start p) (at, offset, row) of (lo, low, first) \<Rightarrow>
               (case extend_forward s reference (nxt, to, row) of (hi, high, final) \<Rightarrow>
                  Some (\<lparr>sp_start = lo, sp_end = hi, sp_source = p_source p, sp_first = first,
                         sp_last = final, sp_whole = (first = 1 \<and> final = p_rows p)\<rparr>,
                        p_order p + low))))"

definition piece_at :: "line_index \<Rightarrow> nat \<Rightarrow> piece option" where
  "piece_at idx i =
     (if ix_first_piece idx \<le> i \<and> i - ix_first_piece idx < length (ix_pieces idx)
      then Some (ix_pieces idx ! (i - ix_first_piece idx)) else None)"

definition seed_at :: "piece \<Rightarrow> nat \<Rightarrow> seed option" where
  "seed_at p i = (if i < length (p_seeds p) then Some (p_seeds p ! i) else None)"

text \<open>Whether a candidate replaces the best run so far, with its recency.\<close>

definition better_run :: "span \<times> nat \<Rightarrow> span \<times> nat \<Rightarrow> span \<times> nat" where
  "better_run new best =
     (let l = sp_end (fst new) - sp_start (fst new); k = sp_end (fst best) - sp_start (fst best)
      in if l < threshold \<or> l < k \<or> l = k \<and> snd new \<le> snd best then best else new)"

fun consider_positions :: "line_index \<Rightarrow> string \<Rightarrow> nat \<Rightarrow> nat \<Rightarrow> nat \<Rightarrow> position list \<Rightarrow> (nat \<times> position) list
    \<Rightarrow> span \<times> nat \<Rightarrow> (span \<times> nat) option" where
  "consider_positions idx s floor at nxt recent [] best = Some best"
| "consider_positions idx s floor at nxt recent ((n, pos) # rest) best =
     (if fst pos = 0 \<or> 4 \<le> n \<and> pos \<in> set recent
      then consider_positions idx s floor at nxt recent rest best
      else case piece_at idx (fst pos) of
             None \<Rightarrow> None
           | Some p \<Rightarrow>
               (case seed_at p (snd pos) of
                  None \<Rightarrow> None
                | Some sd \<Rightarrow>
                    consider_positions idx s floor at nxt recent rest
                      (case candidate_run s floor at nxt p sd of
                         None \<Rightarrow> best | Some new \<Rightarrow> better_run new best)))"

definition best_run :: "hashing \<Rightarrow> line_index \<Rightarrow> string \<Rightarrow> nat \<Rightarrow> nat \<Rightarrow> nat \<Rightarrow> span option" where
  "best_run hash idx s floor at nxt =
     (let c = lookup_seeds (ix_seeds idx) (hash_text hash (segment s at nxt))
      in map_option fst (consider_positions idx s floor at nxt (cd_recent c)
           (enumerate 0 (cd_recent c @ cd_first c)) (zero_span, 0)))"

text \<open>
  The scan over the lines of the text.  Every round moves past at least one byte, so the
  length of the text is enough fuel; running out of it is \<open>None\<close> too.
\<close>

fun project_from :: "hashing \<Rightarrow> line_index \<Rightarrow> string \<Rightarrow> nat \<Rightarrow> nat \<Rightarrow> nat \<Rightarrow> span list \<Rightarrow> span list option" where
  "project_from hash idx s fuel floor at spans =
     (if length s \<le> at then Some spans
      else case fuel of
        0 \<Rightarrow> None
      | Suc n \<Rightarrow>
          (let nxt = line_end s at
           in if \<not> is_seed (segment s at nxt) then project_from hash idx s n floor nxt spans
              else case best_run hash idx s floor at nxt of
                     None \<Rightarrow> None
                   | Some best \<Rightarrow>
                       if sp_end best \<noteq> 0
                       then project_from hash idx s n (sp_end best) (sp_end best) (spans @ [best])
                       else project_from hash idx s n floor nxt spans))"

declare project_from.simps [simp del]

definition project :: "hashing \<Rightarrow> line_index \<Rightarrow> string \<Rightarrow> projection option" where
  "project hash idx s =
     (if length s < threshold then Some \<lparr>pj_spans = [], pj_text = s\<rparr>
      else map_option (\<lambda>spans. \<lparr>pj_spans = spans, pj_text = s\<rparr>)
             (project_from hash idx s (length s) 0 0 []))"

section \<open>Adding a unit\<close>

text \<open>The verbatim runs of a projection, with the arguments \<open>visitRuns\<close> passes to its visitor.\<close>

record run_visit =
  rv_rows :: nat
  rv_text :: string
  rv_row :: nat
  rv_skip :: nat

fun visit_spans :: "string \<Rightarrow> nat \<Rightarrow> span list \<Rightarrow> nat \<Rightarrow> nat \<Rightarrow> nat \<Rightarrow> run_visit list" where
  "visit_spans s rows [] start row skip =
     (if start < length s
      then [\<lparr>rv_rows = rows, rv_text = drop start s, rv_row = row, rv_skip = skip\<rparr>] else [])"
| "visit_spans s rows (sp # sps) start row skip =
     (if start < sp_start sp
      then \<lparr>rv_rows = rows, rv_text = segment s start (sp_start sp), rv_row = row, rv_skip = skip\<rparr>
           # visit_spans s rows sps (sp_end sp) (row + row_count (segment s start (sp_start sp)) + 1)
               (skip - (sp_start sp - start))
      else visit_spans s rows sps (sp_end sp) (row + 1) skip)"

text \<open>
  The rows of the delivered unit, every span being one marker row, and the bytes that stay
  verbatim.
\<close>

definition delivered_rows :: "projection \<Rightarrow> nat" where
  "delivered_rows pj = fold (\<lambda>sp n. n + 1 - row_count (segment (pj_text pj) (sp_start sp) (sp_end sp)))
     (pj_spans pj) (row_count (pj_text pj))"

definition verbatim_bytes :: "projection \<Rightarrow> nat" where
  "verbatim_bytes pj = fold (\<lambda>sp n. n - (sp_end sp - sp_start sp)) (pj_spans pj) (length (pj_text pj))"

definition visit_runs :: "projection \<Rightarrow> run_visit list" where
  "visit_runs pj =
     (if length (pj_text pj) < threshold then []
      else visit_spans (pj_text pj) (delivered_rows pj) (pj_spans pj) 0 1
             (verbatim_bytes pj - window_bytes))"

function count_seeds :: "string \<Rightarrow> nat \<Rightarrow> nat" where
  "count_seeds s at =
     (if at < length s
      then (let e = line_end s at in (if is_seed (segment s at e) then 1 else 0) + count_seeds s e)
      else 0)"
  by pat_completeness auto
termination
  by (relation "measure (\<lambda>(s, at). length s - at)") (simp_all add: line_end_gt diff_less_mono2)

declare count_seeds.simps [simp del]

definition line_boundary :: "string \<Rightarrow> nat \<Rightarrow> nat" where
  "line_boundary s at = (if 0 < at \<and> s ! (at - 1) \<noteq> newline then line_end s at else at)"

definition retained_run :: "string \<Rightarrow> nat \<Rightarrow> nat \<Rightarrow> string \<times> nat \<times> nat \<times> nat" where
  "retained_run s first skip =
     (let start = line_boundary s (min skip (length s));
          row = first + row_count (take start s);
          kept = drop start s
      in if length kept < threshold then (kept, row, start, 0)
         else (kept, row, start, count_seeds kept 0))"

text \<open>The span the admission gate is asked about.\<close>

definition run_span :: "nat \<Rightarrow> nat \<Rightarrow> string \<Rightarrow> nat \<Rightarrow> span" where
  "run_span src rows s first =
     (let final = first + row_count s - 1
      in \<lparr>sp_start = 0, sp_end = length s, sp_source = src, sp_first = first, sp_last = final,
          sp_whole = (first = 1 \<and> final = rows)\<rparr>)"

text \<open>The gate is an optional closure over the state \<open>'s\<close> of its owner.\<close>

type_synonym 's gate = "(span \<Rightarrow> string \<Rightarrow> 's \<Rightarrow> bool \<times> 's) option"

definition ask_gate :: "'s gate \<Rightarrow> span \<Rightarrow> string \<Rightarrow> 's \<Rightarrow> bool \<times> 's" where
  "ask_gate accept sp s st = (case accept of None \<Rightarrow> (True, st) | Some g \<Rightarrow> g sp s st)"

text \<open>The index records the seeds of a new piece \<open>i\<close> line by line.\<close>

definition record_seed :: "hashing \<Rightarrow> nat \<Rightarrow> string \<Rightarrow> nat \<Rightarrow> seed list \<times> seed_table \<Rightarrow> nat
    \<Rightarrow> seed list \<times> seed_table" where
  "record_seed hash i s at st row =
     (case st of (sds, tbl) \<Rightarrow>
      let n = length sds; h = hash_text hash (segment s at (line_end s at));
          c = lookup_seeds tbl h; sds = sds @ [\<lparr>sd_offset = of_nat at, sd_row = row, sd_next = 0\<rparr>]
      in (if fst (hd (cd_recent c)) = i
          then let previous = snd (hd (cd_recent c))
               in (sds[previous := (sds ! previous)\<lparr>sd_next := of_nat (n + 1)\<rparr>],
                   tbl(h \<mapsto> c\<lparr>cd_recent := (i, n) # take 3 (cd_recent c)\<rparr>))
          else (sds, tbl(h \<mapsto> c\<lparr>cd_first := (i, n) # take 3 (cd_first c),
                  cd_recent := (i, n) # take 3 (cd_recent c)\<rparr>))))"

function record_seeds :: "hashing \<Rightarrow> nat \<Rightarrow> string \<Rightarrow> nat \<Rightarrow> nat \<Rightarrow> seed list \<times> seed_table
    \<Rightarrow> seed list \<times> seed_table" where
  "record_seeds hash i s at row st =
     (if at < length s
      then record_seeds hash i s (line_end s at) (row + 1)
             (if is_seed (segment s at (line_end s at)) then record_seed hash i s at st row else st)
      else st)"
  by pat_completeness auto
termination
  by (relation "measure (\<lambda>(hash, i, s, at, row, st). length s - at)")
    (simp_all add: line_end_gt diff_less_mono2)

declare record_seeds.simps [simp del]

section \<open>Eviction\<close>

text \<open>
  The position of an evicted seed leaves a candidate list; in the list of first occurrences
  the next seed of the piece with the same hash takes its place.
\<close>

definition drop_position :: "bool \<Rightarrow> position \<Rightarrow> nat \<Rightarrow> position list \<Rightarrow> position list" where
  "drop_position is_first pos nxt l =
     (case find_index (\<lambda>q. q = pos) l of
        None \<Rightarrow> l
      | Some i \<Rightarrow> if is_first \<and> nxt \<noteq> 0 then l[i := (fst pos, nxt - 1)]
                  else take i l @ drop (i + 1) l @ [(0, 0)])"

definition evict_seed :: "hashing \<Rightarrow> nat \<Rightarrow> piece \<Rightarrow> seed_table \<Rightarrow> seed_table" where
  "evict_seed hash i p tbl =
     (let sd = p_seeds p ! p_first_seed p; offset = unat (sd_offset sd);
          h = hash_text hash (segment (p_text p) offset (line_end (p_text p) offset));
          c = lookup_seeds tbl h; pos = (i, p_first_seed p); nxt = unat (sd_next sd);
          c' = \<lparr>cd_recent = drop_position False pos nxt (cd_recent c),
                cd_first = drop_position True pos nxt (cd_first c)\<rparr>
      in if fst (hd (cd_recent c')) = 0 then tbl(h := None) else tbl(h \<mapsto> c'))"

function evict_seeds :: "hashing \<Rightarrow> nat \<Rightarrow> piece \<Rightarrow> seed_table \<Rightarrow> piece \<times> seed_table" where
  "evict_seeds hash i p tbl =
     (if p_first_seed p < length (p_seeds p)
         \<and> unat (sd_offset (p_seeds p ! p_first_seed p)) < p_start p
      then evict_seeds hash i (p\<lparr>p_first_seed := p_first_seed p + 1\<rparr>) (evict_seed hash i p tbl)
      else (p, tbl))"
  by pat_completeness auto
termination
  by (relation "measure (\<lambda>(hash, i, p, tbl). length (p_seeds p) - p_first_seed p)") (simp_all add: diff_less_mono2)

declare evict_seeds.simps [simp del]

fun evict_pieces :: "hashing \<Rightarrow> nat \<Rightarrow> nat \<Rightarrow> piece list \<Rightarrow> seed_table \<Rightarrow> nat \<times> piece list \<times> seed_table" where
  "evict_pieces hash cutoff i [] tbl = (i, [], tbl)"
| "evict_pieces hash cutoff i (p # ps) tbl =
     (if cutoff \<le> p_order p + p_start p then (i, p # ps, tbl)
      else case evict_seeds hash i
             (p\<lparr>p_start := line_boundary (p_text p) (min (cutoff - p_order p) (length (p_text p)))\<rparr>) tbl
           of (q, tbl') \<Rightarrow>
             if p_first_seed q < length (p_seeds q) then (i, q # ps, tbl')
             else evict_pieces hash cutoff (i + 1) ps tbl')"

definition evict :: "hashing \<Rightarrow> line_index \<Rightarrow> line_index" where
  "evict hash idx =
     (if ix_bytes idx \<le> window_bytes then idx
      else case evict_pieces hash (ix_bytes idx - window_bytes) (ix_first_piece idx) (ix_pieces idx) (ix_seeds idx)
           of (i, ps, tbl) \<Rightarrow> idx\<lparr>ix_first_piece := i, ix_pieces := ps, ix_seeds := tbl\<rparr>)"

definition add_run :: "hashing \<Rightarrow> nat \<Rightarrow> 's gate \<Rightarrow> run_visit \<Rightarrow> line_index \<times> 's \<Rightarrow> line_index \<times> 's" where
  "add_run hash src accept v ixst =
     (case ixst of (idx, st) \<Rightarrow>
      let order = ix_bytes idx;
          idx = evict hash (idx\<lparr>ix_bytes := ix_bytes idx + length (rv_text v)\<rparr>)
      in case retained_run (rv_text v) (rv_row v) (rv_skip v) of (s, first, start, count) \<Rightarrow>
           if count = 0 then (idx, st)
           else let sp = run_span src (rv_rows v) s first
                in case ask_gate accept sp s st of (ok, st) \<Rightarrow>
                     if \<not> ok then (idx, st)
                     else case record_seeds hash (ix_first_piece idx + length (ix_pieces idx)) s 0 first
                                 ([], ix_seeds idx)
                          of (sds, tbl) \<Rightarrow>
                            (idx\<lparr>ix_seeds := tbl,
                              ix_pieces := ix_pieces idx @
                                [\<lparr>p_text = s, p_seeds = sds, p_start = 0, p_first_seed = 0, p_source = src,
                                  p_rows = rv_rows v, p_order = order + start, p_complete = sp_whole sp\<rparr>]\<rparr>,
                             st))"

definition add_unit :: "hashing \<Rightarrow> nat \<Rightarrow> projection \<Rightarrow> 's gate \<Rightarrow> line_index \<times> 's \<Rightarrow> (line_index \<times> 's) \<times> bool" where
  "add_unit hash src pj accept ixst =
     (let first_order = ix_bytes (fst ixst); r = fold (add_run hash src accept) (visit_runs pj) ixst;
          ps = ix_pieces (fst r)
      in (r, ps \<noteq> [] \<and> first_order \<le> p_order (last ps)))"

text \<open>The same admission gate, without changing the index.\<close>

definition can_add_run :: "nat \<Rightarrow> 's gate \<Rightarrow> run_visit \<Rightarrow> bool \<times> 's \<Rightarrow> bool \<times> 's" where
  "can_add_run src accept v ast =
     (case ast of (admitted, st) \<Rightarrow>
      case retained_run (rv_text v) (rv_row v) (rv_skip v) of (s, first, start, count) \<Rightarrow>
        if count = 0 then (admitted, st)
        else case ask_gate accept (run_span src (rv_rows v) s first) s st of (ok, st) \<Rightarrow> (admitted \<or> ok, st))"

definition can_add :: "nat \<Rightarrow> projection \<Rightarrow> 's gate \<Rightarrow> 's \<Rightarrow> bool \<times> 's" where
  "can_add src pj accept st = fold (can_add_run src accept) (visit_runs pj) (False, st)"

text \<open>The newest complete and still visible bodies, at most \<open>limit\<close> of them.\<close>

definition complete_units :: "line_index \<Rightarrow> nat \<Rightarrow> (nat \<times> string) list" where
  "complete_units idx limit =
     take limit (map (\<lambda>p. (p_source p, p_text p))
       (filter (\<lambda>p. p_complete p \<and> p_start p = 0) (rev (ix_pieces idx))))"

end
