(* ===== verification/Dedup_Edits.thy ===== *)
theory Dedup_Edits
  imports Runes Dedup_Matcher
begin

text \<open>
  The edit planner of the output deduplication module
  (\<open>modules/outputdeduplication/internal/projection/edits.go\<close>): a bounded Myers search over
  runes, the byte edits read off its trace, their normalization, and the reconstruction that
  checks them.  The shared budget \<open>*work\<close> is threaded through as an integer.
\<close>

definition edit_candidates :: nat where
  "edit_candidates = 4"

definition edit_work :: int where
  "edit_work = 2097152"

definition edit_distance :: nat where
  "edit_distance = 128"

record byte_edit =
  ed_start :: nat
  ed_end :: nat
  ed_text :: string

section \<open>The frontier search\<close>

fun common_prefix :: "'a list \<Rightarrow> 'a list \<Rightarrow> nat" where
  "common_prefix (x # xs) (y # ys) = (if x = y then common_prefix xs ys + 1 else 0)"
| "common_prefix _ _ = 0"

text \<open>
  A snake follows equal runes and pays one unit of work for each; the result has the length,
  the work left and whether the budget lasted.
\<close>

fun snake :: "string list \<Rightarrow> string list \<Rightarrow> int \<Rightarrow> nat \<times> int \<times> bool" where
  "snake (a # as) (b # bs) work =
     (if a \<noteq> b then (0, work, True)
      else if work - 1 \<le> 0 then (1, work - 1, False)
      else case snake as bs (work - 1) of (n, w, ok) \<Rightarrow> (n + 1, w, ok))"
| "snake _ _ work = (0, work, True)"

text \<open>\<open>previous[d-1+k]\<close>\<close>

definition frontier_at :: "int list \<Rightarrow> int \<Rightarrow> int \<Rightarrow> int" where
  "frontier_at v d k = v ! nat (d + k)"

text \<open>Whether the best path to diagonal \<open>k\<close> comes down from diagonal \<open>k+1\<close>.\<close>

definition comes_down :: "int list \<Rightarrow> int \<Rightarrow> int \<Rightarrow> bool" where
  "comes_down previous d k \<longleftrightarrow> k = - d \<or> k \<noteq> d \<and> frontier_at previous (d - 1) (k - 1) < frontier_at previous (d - 1) (k + 1)"

definition frontier_start :: "int list list \<Rightarrow> int \<Rightarrow> int \<Rightarrow> int" where
  "frontier_start trace d k =
     (if d > 0
      then let previous = trace ! nat (d - 1)
           in if comes_down previous d k then frontier_at previous (d - 1) (k + 1)
              else frontier_at previous (d - 1) (k - 1) + 1
      else 0)"

datatype row_result = RowStop | RowFound "int list" | RowDone "int list"

fun frontier_row :: "string list \<Rightarrow> string list \<Rightarrow> int list list \<Rightarrow> int \<Rightarrow> int list \<Rightarrow> int list \<Rightarrow> int
    \<Rightarrow> row_result \<times> int" where
  "frontier_row xs ys trace d [] v work = (RowDone v, work)"
| "frontier_row xs ys trace d (k # ks) v work =
     (let x0 = frontier_start trace d k
      in case snake (drop (nat x0) xs) (drop (nat (x0 - k)) ys) work of (n, w, ok) \<Rightarrow>
           if \<not> ok then (RowStop, w)
           else let x = x0 + int n; v = v[nat (d + k) := x]
                in if int (length xs) \<le> x \<and> int (length ys) \<le> x - k then (RowFound v, w)
                   else frontier_row xs ys trace d ks v w)"

text \<open>The diagonals \<open>-d, -d+2, \<dots>, d\<close>.\<close>

definition diagonals :: "nat \<Rightarrow> int list" where
  "diagonals d = map (\<lambda>i. 2 * int i - int d) [0..<d + 1]"

text \<open>The rounds \<open>d, d+1, \<dots>\<close> that remain, at most \<open>n\<close> of them; the result is the trace.\<close>

fun frontier :: "string list \<Rightarrow> string list \<Rightarrow> nat \<Rightarrow> nat \<Rightarrow> int list list \<Rightarrow> int \<Rightarrow> int list list option \<times> int" where
  "frontier xs ys 0 d trace work = (None, work)"
| "frontier xs ys (Suc n) d trace work =
     (let work = work - (2 * int d + 1)
      in if work \<le> 0 then (None, work)
         else case frontier_row xs ys trace (int d) (diagonals d) (replicate (2 * d + 1) 0) work of
             (RowStop, w) \<Rightarrow> (None, w)
           | (RowFound v, w) \<Rightarrow> (Some (trace @ [v]), w)
           | (RowDone v, w) \<Rightarrow> frontier xs ys n (d + 1) (trace @ [v]) w)"

section \<open>Reading the edits off the trace\<close>

datatype edit_op = Keep | Insert | Delete

text \<open>
  The walk back along the trace collects the steps in reverse; here the accumulator has them
  in forward order.
\<close>

definition back_step :: "int list list \<Rightarrow> nat \<Rightarrow> int \<Rightarrow> int \<Rightarrow> nat \<times> edit_op \<times> int \<times> int" where
  "back_step trace e x y =
     (let d = int e + 1; k = x - y; previous = trace ! e;
          previous_k = (if comes_down previous d k then k + 1 else k - 1);
          previous_x = frontier_at previous (d - 1) previous_k; previous_y = previous_x - previous_k;
          n = nat (min (x - previous_x) (y - previous_y))
      in if x - int n = previous_x then (n, Insert, x - int n, y - int n - 1)
         else (n, Delete, x - int n - 1, y - int n))"

primrec backtrack :: "int list list \<Rightarrow> nat \<Rightarrow> int \<Rightarrow> int \<Rightarrow> edit_op list \<Rightarrow> edit_op list" where
  "backtrack trace 0 x y acc = replicate (nat (min x y)) Keep @ acc"
| "backtrack trace (Suc e) x y acc =
     (case back_step trace e x y of (n, s, x', y') \<Rightarrow> backtrack trace e x' y' (s # replicate n Keep @ acc))"

definition bytes_of :: "string list \<Rightarrow> nat" where
  "bytes_of rs = length (concat rs)"

text \<open>Nearby changes are coalesced into one edit.\<close>

definition push_edit :: "string \<Rightarrow> byte_edit list \<Rightarrow> byte_edit \<Rightarrow> byte_edit list" where
  "push_edit base edits e =
     (if edits \<noteq> [] \<and> int (ed_start e) - int (ed_end (last edits)) \<le> 16
      then butlast edits @ [(last edits)\<lparr>ed_text := ed_text (last edits) @ segment base (ed_end (last edits)) (ed_start e) @ ed_text e,
             ed_end := ed_end e\<rparr>]
      else edits @ [e])"

function byte_edits :: "string list \<Rightarrow> string list \<Rightarrow> string \<Rightarrow> edit_op list \<Rightarrow> nat \<Rightarrow> nat \<Rightarrow> nat
    \<Rightarrow> byte_edit list \<Rightarrow> byte_edit list" where
  "byte_edits a b base steps x y at edits =
     (case steps of
        [] \<Rightarrow> edits
      | s # rest \<Rightarrow>
          if s = Keep then byte_edits a b base rest (x + 1) (y + 1) (at + length (a ! x)) edits
          else let change = takeWhile (\<lambda>s. s \<noteq> Keep) steps;
                   x' = x + length (filter (\<lambda>s. s = Delete) change);
                   y' = y + length (filter (\<lambda>s. s = Insert) change);
                   at' = at + bytes_of (segment a x x')
               in byte_edits a b base (dropWhile (\<lambda>s. s \<noteq> Keep) steps) x' y' at'
                    (push_edit base edits \<lparr>ed_start = at, ed_end = at', ed_text = concat (segment b y y')\<rparr>))"
  by pat_completeness auto
termination
  by (relation "measure (\<lambda>(a, b, base, steps, x, y, at, edits). length steps)")
    (auto simp: length_dropWhile_le le_imp_less_Suc)

declare byte_edits.simps [simp del]

definition frontier_edits :: "string list \<Rightarrow> string list \<Rightarrow> nat \<Rightarrow> nat \<Rightarrow> nat \<Rightarrow> int list list \<Rightarrow> byte_edit list" where
  "frontier_edits a b pre x y trace =
     byte_edits a b (concat a) (backtrack trace (length trace - 1) (int x) (int y) []) pre pre
       (bytes_of (take pre a)) []"

section \<open>Normalization\<close>

text \<open>An insertion moves right through equal text; the result has its position and rotation.\<close>

function rotate_insertion :: "string \<Rightarrow> nat \<Rightarrow> string \<Rightarrow> nat \<Rightarrow> nat \<Rightarrow> int \<Rightarrow> nat \<times> nat \<times> int" where
  "rotate_insertion base limit s at rotation work =
     (if at < limit \<and> 0 < work
      then let r = drop rotation s; other = segment base at limit; size = rune_length other
           in if rune_bytes r \<noteq> rune_bytes other \<or> other = [] then (at, rotation, work - int size)
              else rotate_insertion base limit s (at + size) ((rotation + rune_length r) mod length s) (work - int size)
      else (at, rotation, work))"
  by pat_completeness auto
termination
  by (relation "measure (\<lambda>(base, limit, s, at, rotation, work). limit - at)")
    (auto simp: rune_length_pos diff_less_mono2)

declare rotate_insertion.simps [simp del]

definition normalize_insertion :: "string \<Rightarrow> nat \<Rightarrow> byte_edit \<Rightarrow> int \<Rightarrow> byte_edit \<times> int" where
  "normalize_insertion base limit e work =
     (if ed_start e \<noteq> ed_end e \<or> ed_text e = [] then (e, work)
      else case rotate_insertion base limit (ed_text e) (ed_start e) 0 work of
             (at, rotation, w) \<Rightarrow>
               (\<lparr>ed_start = at, ed_end = at, ed_text = drop rotation (ed_text e) @ take rotation (ed_text e)\<rparr>, w))"

fun normalize_insertions :: "string \<Rightarrow> byte_edit list \<Rightarrow> int \<Rightarrow> byte_edit list \<times> int" where
  "normalize_insertions base [] work = ([], work)"
| "normalize_insertions base (e # es) work =
     (case normalize_insertion base (case es of [] \<Rightarrow> length base | f # _ \<Rightarrow> ed_start f) e work of
        (e', w) \<Rightarrow> case normalize_insertions base es w of (es', w') \<Rightarrow> (e' # es', w'))"

section \<open>Planning\<close>

definition plan_edits :: "string \<Rightarrow> string \<Rightarrow> int \<Rightarrow> byte_edit list option \<times> int" where
  "plan_edits base body work =
     (let work = work - int (length base + length body)
      in if work \<le> 0 then (None, work)
         else let a = runes base; b = runes body; pre = common_prefix a b;
                  post = common_prefix (rev (drop pre a)) (rev (drop pre b));
                  xs = segment a pre (length a - post); ys = segment b pre (length b - post)
              in if xs = [] \<and> ys = [] then (Some [], work)
                 else case frontier xs ys (min edit_distance (length xs + length ys) + 1) 0 [] work of
                        (None, w) \<Rightarrow> (None, w)
                      | (Some trace, w) \<Rightarrow>
                          (case normalize_insertions base (frontier_edits a b pre (length xs) (length ys) trace) w of
                             (edits, w') \<Rightarrow> (if 0 < w' then Some edits else None, w')))"

section \<open>Reconstruction\<close>

definition unchanged_lines :: "string \<Rightarrow> nat \<Rightarrow> nat \<Rightarrow> nat" where
  "unchanged_lines body start e =
     (if length body < e \<or> start = e then 0
      else let within = 0 < start \<and> body ! (start - 1) \<noteq> newline;
               n = find_index (\<lambda>c. c = newline) (segment body start e);
               from = (if within then start + the n + 1 else start)
           in if within \<and> n = None then 0
              else length (filter (\<lambda>c. c = newline) (segment body from e))
                + (if e = length body \<and> from < e \<and> body ! (e - 1) \<noteq> newline then 1 else 0))"

fun reconstruct_from :: "string \<Rightarrow> string \<Rightarrow> byte_edit list \<Rightarrow> nat \<Rightarrow> string \<Rightarrow> nat \<Rightarrow> nat \<Rightarrow> string \<times> nat \<times> nat" where
  "reconstruct_from base body [] at out repeated lines =
     (let whole = out @ drop at base
      in (whole, repeated + (length base - at), lines + unchanged_lines body (length out) (length whole)))"
| "reconstruct_from base body (e # es) at out repeated lines =
     (if ed_start e < at \<or> ed_end e < ed_start e \<or> length base < ed_end e then ('''', 0, 0)
      else let kept = out @ segment base at (ed_start e)
           in reconstruct_from base body es (ed_end e) (kept @ ed_text e) (repeated + (ed_start e - at))
                (lines + unchanged_lines body (length out) (length kept)))"

definition reconstruct :: "string \<Rightarrow> string \<Rightarrow> byte_edit list \<Rightarrow> string \<times> nat \<times> nat" where
  "reconstruct base body edits = reconstruct_from base body edits 0 '''' 0 0"

end
