(* ===== verification/Dedup_Rows.thy ===== *)
theory Dedup_Rows
  imports Dedup_Matcher
begin

text \<open>
  The rows of a text, as the reference of the matcher's byte offsets: where rows begin and
  end, how rows of adjacent slices append, and what \<open>line_end\<close>, \<open>row_start\<close> and
  \<open>row_count\<close> compute in terms of them.
\<close>

section \<open>Rows\<close>

fun rows :: "string \<Rightarrow> string list" where
  "rows [] = []"
| "rows (c # cs) =
     (if c = newline then [c] # rows cs
      else case rows cs of [] \<Rightarrow> [[c]] | l # ls \<Rightarrow> (c # l) # ls)"

definition row_text :: "string \<Rightarrow> string" where
  "row_text l = trim_suffix [newline] l"

definition same_rows :: "string \<Rightarrow> string \<Rightarrow> bool" where
  "same_rows a b \<longleftrightarrow> map row_text (rows a) = map row_text (rows b)"

definition boundary :: "string \<Rightarrow> nat \<Rightarrow> bool" where
  "boundary s i \<longleftrightarrow> i \<le> length s \<and> (i = 0 \<or> i = length s \<or> s ! (i - 1) = newline)"

lemma concat_rows: "concat (rows s) = s"
proof (induction s)
  case (Cons c s)
  then show ?case by (cases "rows s") auto
qed simp

lemma rows_Nil [simp]: "rows s = [] \<longleftrightarrow> s = []"
  by (cases s) (simp_all split: list.split)

lemma length_rows: "length (rows s) = row_count s"
proof (induction s)
  case (Cons c s)
  show ?case
  proof (cases "rows s")
    case Nil
    then show ?thesis by (auto simp: row_count_def)
  next
    case (Cons l ls)
    then have "s \<noteq> []" by auto
    with Cons Cons.IH show ?thesis by (auto simp: row_count_def split: if_splits)
  qed
qed (simp add: row_count_def)

lemma rows_line: "newline \<notin> set u \<Longrightarrow> rows (u @ newline # t) = (u @ [newline]) # rows t"
  by (induction u) auto

lemma rows_single: "newline \<notin> set u \<Longrightarrow> u \<noteq> [] \<Longrightarrow> rows u = [u]"
proof (induction u)
  case (Cons c u)
  then show ?case by (cases u) (auto split: list.split)
qed simp

lemma rows_append: "s = [] \<or> last s = newline \<Longrightarrow> rows (s @ t) = rows s @ rows t"
proof (induction s)
  case (Cons c s)
  show ?case
  proof (cases s)
    case (Cons d r)
    with Cons.prems have "rows (s @ t) = rows s @ rows t" using Cons.IH by simp
    moreover have "rows s \<noteq> []" using Cons by (simp only: rows_Nil) simp
    ultimately show ?thesis by (cases "rows s") auto
  qed (use Cons.prems in simp)
qed simp

lemma rows_segment_append:
  assumes "i \<le> j" and "j \<le> k" and "k \<le> length s" and "boundary s j"
  shows "rows (segment s i k) = rows (segment s i j) @ rows (segment s j k)"
proof -
  have split: "segment s i k = segment s i j @ segment s j k" using segment_append [OF assms(1,2), of s] by simp
  show ?thesis
  proof (cases "i = j")
    case False
    with assms have len: "length (segment s i j) = j - i" "0 < j - i" by (simp_all add: segment_length)
    then have "last (segment s i j) = s ! (j - 1)"
      using assms(1-3) False by (subst last_conv_nth) (auto simp: segment_nth)
    moreover have "segment s j k = []" if "j = length s" using that assms(2,3) by (simp add: segment_def)
    ultimately show ?thesis unfolding split
      using assms(4) False assms(1) rows_append [of "segment s i j" "segment s j k"] by (auto simp: boundary_def)
  qed simp
qed

lemma boundary_0 [simp]: "boundary s 0" and boundary_length [simp]: "boundary s (length s)"
  by (simp_all add: boundary_def)

lemma boundary_le: "boundary s i \<Longrightarrow> i \<le> length s"
  by (simp add: boundary_def)

section \<open>Line ends\<close>

lemma line_end_spec:
  assumes "at < length s"
  shows "at < line_end s at" and "line_end s at \<le> length s" and "boundary s (line_end s at)"
    and "rows (segment s at (line_end s at)) = [segment s at (line_end s at)]"
proof -
  show gt: "at < line_end s at" using assms by (rule line_end_gt)
  show le: "line_end s at \<le> length s" using line_end_le [of s at] assms by simp
  have "boundary s (line_end s at) \<and> rows (segment s at (line_end s at)) = [segment s at (line_end s at)]"
  proof (cases "find_index (\<lambda>c. c = newline) (drop at s)")
    case None
    then have "newline \<notin> set (drop at s)" by (auto simp: find_index_None)
    then have "rows (drop at s) = [drop at s]" using assms by (intro rows_single) auto
    with None show ?thesis by (simp add: line_end_def segment_def)
  next
    case (Some n)
    from find_index_Some [OF this] assms have n: "n < length s - at" "s ! (at + n) = newline"
      "\<forall>j < n. s ! (at + j) \<noteq> newline" by auto
    have "segment s at (line_end s at) = take n (drop at s) @ [newline]"
      using n Some by (simp add: line_end_def segment_def take_Suc_conv_app_nth)
    moreover have "newline \<notin> set (take n (drop at s))"
      using n(1,3) by (auto simp: in_set_conv_nth)
    ultimately have "rows (segment s at (line_end s at)) = [segment s at (line_end s at)]"
      using rows_line [of _ "[]"] by simp
    then show ?thesis using n Some assms by (auto simp: line_end_def boundary_def)
  qed
  then show "boundary s (line_end s at)" "rows (segment s at (line_end s at)) = [segment s at (line_end s at)]"
    by simp_all
qed

lemma row_start_spec:
  assumes "low < at" and "at \<le> length s" and "boundary s low" and "boundary s at"
  shows "low \<le> row_start s low at" and "row_start s low at < at" and "boundary s (row_start s low at)"
    and "rows (segment s (row_start s low at) at) = [segment s (row_start s low at) at]"
proof -
  show ge: "low \<le> row_start s low at" by (rule row_start_ge)
  show lt: "row_start s low at < at" using assms(1) by (rule row_start_less)
  define r where "r = segment s low (at - 1)"
  have r: "length r = at - 1 - low" "\<And>k. k < length r \<Longrightarrow> r ! k = s ! (low + k)"
    using assms(1,2) by (auto simp: r_def segment_length segment_nth)
  have inner: "newline \<notin> set (segment s (row_start s low at) (at - 1)) \<and> boundary s (row_start s low at)"
  proof (cases "find_index (\<lambda>c. c = newline) (rev r)")
    case None
    then have "row_start s low at = low" by (simp add: row_start_def r_def)
    moreover from None have "newline \<notin> set r" by (auto simp: find_index_None)
    ultimately show ?thesis using assms(3) by (simp add: r_def)
  next
    case (Some i)
    from find_index_Some [OF this] have i: "i < length r" "rev r ! i = newline" "\<forall>j < i. rev r ! j \<noteq> newline"
      by auto
    have at: "row_start s low at = low + (length r - 1 - i) + 1"
      using Some by (simp add: row_start_def r_def Let_def)
    have nl: "s ! (row_start s low at - 1) = newline"
      using i r by (simp add: at rev_nth)
    have "s ! k \<noteq> newline" if "row_start s low at \<le> k" "k < at - 1" for k
    proof -
      define j where "j = length r - Suc (k - low)"
      have k: "k - low < length r" "low \<le> k" using that r(1) by (simp_all add: at)
      have "j < i" using that r(1) i(1) by (simp add: at j_def)
      moreover have "rev r ! j = s ! k"
      proof -
        have "length r - Suc j = k - low" and "j < length r" using k by (simp_all add: j_def)
        then have "rev r ! j = r ! (k - low)" by (simp add: rev_nth)
        with k r(2) show ?thesis by simp
      qed
      ultimately show ?thesis using i(3) by auto
    qed
    then have "newline \<notin> set (segment s (row_start s low at) (at - 1))"
      using assms(2) by (auto simp: segment_def in_set_conv_nth)
    with nl show ?thesis using lt assms(2) by (simp add: boundary_def)
  qed
  then show "boundary s (row_start s low at)" by simp
  have split: "segment s (row_start s low at) at = segment s (row_start s low at) (at - 1) @ [s ! (at - 1)]"
  proof -
    have "segment s (row_start s low at) at = segment s (row_start s low at) (at - 1) @ segment s (at - 1) at"
      using lt by (simp add: segment_append)
    also have "segment s (at - 1) at = [s ! (at - 1)]"
      using lt assms(2) segment_cons [of "at - 1" at s] by simp
    finally show ?thesis .
  qed
  show "rows (segment s (row_start s low at) at) = [segment s (row_start s low at) at]"
  proof (cases "s ! (at - 1) = newline")
    case True
    then show ?thesis using inner rows_line [of "segment s (row_start s low at) (at - 1)" "[]"] by (simp add: split)
  next
    case False
    then show ?thesis using inner by (intro rows_single) (auto simp: split)
  qed
qed

lemma line_boundary_spec:
  assumes "at \<le> length s"
  shows "at \<le> line_boundary s at" and "line_boundary s at \<le> length s" and "boundary s (line_boundary s at)"
proof -
  have "line_end s (length s) = length s" by (simp add: line_end_def)
  then have "at \<le> line_boundary s at \<and> line_boundary s at \<le> length s \<and> boundary s (line_boundary s at)"
    using assms line_end_spec [of at s]
    by (cases "at = length s") (auto simp: line_boundary_def boundary_def)
  then show "at \<le> line_boundary s at" "line_boundary s at \<le> length s" "boundary s (line_boundary s at)" by simp_all
qed

lemma equal_line_rows:
  assumes "rows a = [a]" and "rows b = [b]"
  shows "equal_line a b \<longleftrightarrow> same_rows a b"
  using assms by (simp add: equal_line_def same_rows_def row_text_def)

lemma same_rows_append:
  assumes "same_rows a c" and "same_rows b d" and "rows (a @ b) = rows a @ rows b" and "rows (c @ d) = rows c @ rows d"
  shows "same_rows (a @ b) (c @ d)"
  using assms by (simp add: same_rows_def)

lemma row_count_segment_append:
  assumes "i \<le> j" and "j \<le> k" and "k \<le> length s" and "boundary s j"
  shows "row_count (segment s i k) = row_count (segment s i j) + row_count (segment s j k)"
  using rows_segment_append [OF assms] by (simp flip: length_rows)

lemma row_count_Nil [simp]: "row_count [] = 0"
  by (simp add: row_count_def)

lemma row_count_single: "rows l = [l] \<Longrightarrow> row_count l = 1"
  by (simp flip: length_rows)

end
