(* ===== verification/Dedup_Table.thy ===== *)
theory Dedup_Table
  imports Dedup_Matcher
begin

text \<open>
  The candidate table is exact: for every hash it holds the newest four live positions with
  that hash, and the first live position of each of the newest four pieces that have one.
  Adding a piece, evicting a seed and dropping a piece keep it so, and with it every lookup
  of a search is in range.
\<close>

section \<open>The reference table\<close>

definition seed_key :: "hashing \<Rightarrow> piece \<Rightarrow> nat \<Rightarrow> 64 word" where
  "seed_key hash p s =
     (let offset = unat (sd_offset (p_seeds p ! s))
      in hash_text hash (segment (p_text p) offset (line_end (p_text p) offset)))"

text \<open>The live seeds of a piece with a hash, and the positions of a list of pieces.\<close>

definition hits :: "hashing \<Rightarrow> 64 word \<Rightarrow> piece \<Rightarrow> nat list" where
  "hits hash h p = filter (\<lambda>s. seed_key hash p s = h) [p_first_seed p..<length (p_seeds p)]"

fun occurrences :: "hashing \<Rightarrow> 64 word \<Rightarrow> nat \<Rightarrow> piece list \<Rightarrow> position list" where
  "occurrences hash h i [] = []"
| "occurrences hash h i (p # ps) = map (Pair i) (hits hash h p) @ occurrences hash h (Suc i) ps"

fun first_occurrences :: "hashing \<Rightarrow> 64 word \<Rightarrow> nat \<Rightarrow> piece list \<Rightarrow> position list" where
  "first_occurrences hash h i [] = []"
| "first_occurrences hash h i (p # ps) =
     map (Pair i) (take 1 (hits hash h p)) @ first_occurrences hash h (Suc i) ps"

definition newest :: "position list \<Rightarrow> position list" where
  "newest xs = take 4 (rev xs @ replicate 4 (0, 0))"

definition exact_candidates :: "hashing \<Rightarrow> nat \<Rightarrow> piece list \<Rightarrow> 64 word \<Rightarrow> candidates option" where
  "exact_candidates hash i ps h =
     (if occurrences hash h i ps = [] then None
      else Some \<lparr>cd_recent = newest (occurrences hash h i ps),
                 cd_first = newest (first_occurrences hash h i ps)\<rparr>)"

definition table_exact :: "hashing \<Rightarrow> nat \<Rightarrow> piece list \<Rightarrow> seed_table \<Rightarrow> bool" where
  "table_exact hash i ps tbl \<longleftrightarrow> tbl = exact_candidates hash i ps"

text \<open>Every seed links to the next seed of its piece with the same hash.\<close>

definition chain_next :: "nat list \<Rightarrow> nat" where
  "chain_next ts = (case ts of [] \<Rightarrow> 0 | t # _ \<Rightarrow> Suc t)"

definition chain_ok :: "hashing \<Rightarrow> piece \<Rightarrow> bool" where
  "chain_ok hash p \<longleftrightarrow> (\<forall>s < length (p_seeds p). unat (sd_next (p_seeds p ! s)) =
     chain_next (filter (\<lambda>t. seed_key hash p t = seed_key hash p s) [Suc s..<length (p_seeds p)]))"

section \<open>The newest four\<close>

lemma newest_snoc: "newest (xs @ [q]) = q # take 3 (newest xs)"
  by (simp add: newest_def take_Cons')

lemma newest_Nil: "newest [] = replicate 4 (0, 0)"
  by (simp add: newest_def)

lemma newest_many: "4 \<le> length xs \<Longrightarrow> newest (ys @ xs) = take 4 (rev xs)"
  by (simp add: newest_def)

lemma few_cases:
  assumes "\<not> 4 \<le> length xs"
  obtains "xs = []" | a where "xs = [a]" | a b where "xs = [a, b]" | a b c where "xs = [a, b, c]"
proof (cases xs)
  case (Cons a ys)
  show ?thesis
  proof (cases ys)
    case (Cons b zs)
    show ?thesis
    proof (cases zs)
      case (Cons c ws)
      with assms \<open>xs = a # ys\<close> \<open>ys = b # zs\<close> that show ?thesis by (cases ws) auto
    qed (use \<open>xs = a # ys\<close> \<open>ys = b # zs\<close> that in auto)
  qed (use \<open>xs = a # ys\<close> that in auto)
qed (use that in auto)

lemma newest_many_absent: "4 \<le> length xs \<Longrightarrow> q \<notin> set xs \<Longrightarrow> q \<notin> set (newest (q # xs))"
  using newest_many [of xs "[q]"] by (auto dest!: in_set_takeD)

lemma drop_position_absent: "q \<notin> set l \<Longrightarrow> drop_position is_first q nxt l = l"
  using find_index_None [of "\<lambda>r. r = q" l] by (auto simp: drop_position_def split: option.split)

lemma drop_newest:
  assumes "q \<notin> set xs" and "q \<noteq> (0, 0)" and "is_first \<longrightarrow> nxt = 0"
  shows "drop_position is_first q nxt (newest (q # xs)) = newest xs"
proof (cases "4 \<le> length xs")
  case True
  with newest_many [of xs "[q]"] newest_many [of xs "[]"] newest_many_absent [OF True assms(1)]
  show ?thesis by (simp add: drop_position_absent)
next
  case False
  then show ?thesis
    by (rule few_cases) (use assms in \<open>auto simp: newest_def drop_position_def numeral_eq_Suc\<close>)
qed

lemma move_newest:
  assumes "q \<notin> set xs" and "q \<noteq> (0, 0)"
  shows "drop_position True q (Suc t) (newest (q # xs)) = newest ((fst q, t) # xs)"
proof (cases "4 \<le> length xs")
  case True
  with newest_many [of xs "[q]"] newest_many [of xs "[(fst q, t)]"] newest_many_absent [OF True assms(1)]
  show ?thesis by (simp add: drop_position_absent)
next
  case False
  then show ?thesis
    by (rule few_cases) (use assms in \<open>auto simp: newest_def drop_position_def numeral_eq_Suc\<close>)
qed

section \<open>Positions\<close>

lemma occurrences_append:
  "occurrences hash h i (ps @ qs) = occurrences hash h i ps @ occurrences hash h (i + length ps) qs"
  by (induction ps arbitrary: i) simp_all

lemma first_occurrences_append:
  "first_occurrences hash h i (ps @ qs) =
     first_occurrences hash h i ps @ first_occurrences hash h (i + length ps) qs"
  by (induction ps arbitrary: i) simp_all

lemma occurrences_range:
  "q \<in> set (occurrences hash h i ps) \<Longrightarrow>
     i \<le> fst q \<and> fst q < i + length ps \<and> snd q \<in> set (hits hash h (ps ! (fst q - i)))"
proof (induction ps arbitrary: i)
  case (Cons p ps)
  show ?case
  proof (cases "q \<in> set (map (Pair i) (hits hash h p))")
    case False
    with Cons.prems have "q \<in> set (occurrences hash h (Suc i) ps)" by simp
    from Cons.IH [OF this] show ?thesis by (auto simp: Suc_diff_le nth_Cons')
  qed auto
qed simp

lemma first_occurrences_sub: "set (first_occurrences hash h i ps) \<subseteq> set (occurrences hash h i ps)"
  by (induction ps arbitrary: i) (auto dest: in_set_takeD)

lemma first_occurrences_Nil: "first_occurrences hash h i ps = [] \<longleftrightarrow> occurrences hash h i ps = []"
  by (induction ps arbitrary: i) auto

lemma occurrences_later: "i < j \<Longrightarrow> (i, s) \<notin> set (occurrences hash h j ps)"
  using occurrences_range [of "(i, s)" hash h j ps] by auto

lemma first_occurrences_later: "i < j \<Longrightarrow> (i, s) \<notin> set (first_occurrences hash h j ps)"
  using occurrences_later first_occurrences_sub by fast

lemma lookup_exact:
  assumes "table_exact hash i ps tbl"
  shows "lookup_seeds tbl h =
     \<lparr>cd_recent = newest (occurrences hash h i ps), cd_first = newest (first_occurrences hash h i ps)\<rparr>"
  using assms first_occurrences_Nil [of hash h i ps]
  by (cases "occurrences hash h i ps = []")
    (simp_all add: table_exact_def lookup_seeds_def exact_candidates_def no_candidates_def newest_Nil)

lemma newest_head:
  "fst (hd (newest xs)) = (case rev xs of [] \<Rightarrow> 0 | q # _ \<Rightarrow> fst q)"
  by (auto simp: newest_def numeral_eq_Suc split: list.split)

section \<open>Evicting a seed\<close>

abbreviation without_seed :: "piece \<Rightarrow> piece" where
  "without_seed p \<equiv> p\<lparr>p_first_seed := p_first_seed p + 1\<rparr>"

lemma seed_key_frame [simp]:
  "seed_key hash (p\<lparr>p_first_seed := n\<rparr>) = seed_key hash p" "seed_key hash (p\<lparr>p_start := n\<rparr>) = seed_key hash p"
  by (simp_all add: seed_key_def fun_eq_iff)

lemma hits_front:
  assumes "p_first_seed p < length (p_seeds p)"
  shows "hits hash h p =
     (if seed_key hash p (p_first_seed p) = h then [p_first_seed p] else []) @ hits hash h (without_seed p)"
  using assms by (simp add: hits_def upt_conv_Cons)

lemma table_exact_evict_seed:
  assumes exact: "table_exact hash i (p # ps) tbl" and live: "p_first_seed p < length (p_seeds p)"
    and chain: "chain_ok hash p" and i: "0 < i"
  shows "table_exact hash i (without_seed p # ps) (evict_seed hash i p tbl)"
proof -
  define s where "s = p_first_seed p"
  define h where "h = seed_key hash p s"
  define rest where "rest = hits hash h (without_seed p)"
  define nxt where "nxt = unat (sd_next (p_seeds p ! s))"
  define c where "c = \<lparr>cd_recent = drop_position False (i, s) nxt (cd_recent (lookup_seeds tbl h)),
    cd_first = drop_position True (i, s) nxt (cd_first (lookup_seeds tbl h))\<rparr>"
  have evict: "evict_seed hash i p tbl = (if fst (hd (cd_recent c)) = 0 then tbl(h := None) else tbl(h \<mapsto> c))"
    by (simp add: evict_seed_def c_def h_def s_def nxt_def seed_key_def Let_def)
  have hits: "hits hash h p = s # rest"
    using hits_front [OF live, of hash h] by (simp add: h_def s_def rest_def)
  have rest: "hits hash h (p\<lparr>p_first_seed := Suc (p_first_seed p)\<rparr>) = rest" by (simp add: rest_def)
  have nxt: "nxt = chain_next rest"
    using chain live by (simp add: chain_ok_def nxt_def rest_def hits_def h_def s_def)
  have fresh: "(i, s) \<notin> set (map (Pair i) rest @ occurrences hash h (Suc i) ps)"
    using occurrences_later [of i "Suc i" s] by (auto simp: rest_def hits_def s_def)
  have recent: "cd_recent c = newest (occurrences hash h i (without_seed p # ps))"
    using drop_newest [OF fresh, of False nxt] i
    by (simp add: c_def lookup_exact [OF exact] hits rest)
  have first: "cd_first c = newest (first_occurrences hash h i (without_seed p # ps))"
  proof (cases rest)
    case Nil
    then show ?thesis
      using drop_newest [of "(i, s)" "first_occurrences hash h (Suc i) ps" True nxt] i nxt
        first_occurrences_later [of i "Suc i" s hash h ps]
      by (simp add: c_def lookup_exact [OF exact] hits rest chain_next_def)
  next
    case (Cons t ts)
    then show ?thesis
      using move_newest [of "(i, s)" "first_occurrences hash h (Suc i) ps" t] i nxt
        first_occurrences_later [of i "Suc i" s hash h ps]
      by (simp add: c_def lookup_exact [OF exact] hits rest chain_next_def)
  qed
  have empty: "fst (hd (cd_recent c)) = 0 \<longleftrightarrow> occurrences hash h i (without_seed p # ps) = []"
    unfolding recent newest_head
  proof (cases "rev (occurrences hash h i (without_seed p # ps))")
    case (Cons q qs)
    then have "q \<in> set (occurrences hash h i (without_seed p # ps))"
      by (metis list.set_intros(1) set_rev)
    from occurrences_range [OF this] i have "0 < fst q" by linarith
    with Cons show "(case rev (occurrences hash h i (without_seed p # ps)) of [] \<Rightarrow> 0 | q # _ \<Rightarrow> fst q) = 0 \<longleftrightarrow>
      occurrences hash h i (without_seed p # ps) = []" by (simp only: list.case) auto
  qed (simp only: rev_is_Nil_conv rev.simps list.case simp_thms)
  have same: "exact_candidates hash i (without_seed p # ps) k = exact_candidates hash i (p # ps) k" if "k \<noteq> h" for k
    using hits_front [OF live, of hash k] that by (simp add: exact_candidates_def h_def s_def)
  have at: "exact_candidates hash i (without_seed p # ps) h = (if fst (hd (cd_recent c)) = 0 then None else Some c)"
    unfolding empty exact_candidates_def using recent first by (cases c) simp
  show ?thesis
    unfolding table_exact_def evict
    using exact same at by (auto simp: table_exact_def fun_eq_iff)
qed

lemma table_exact_evict_seeds:
  assumes "table_exact hash i (p # ps) tbl" and "chain_ok hash p" and "0 < i"
    and "evict_seeds hash i p tbl = (q, tbl')"
  shows "table_exact hash i (q # ps) tbl'"
  using assms
proof (induction hash i p tbl rule: evict_seeds.induct)
  case (1 hash i p tbl)
  show ?case
  proof (cases "p_first_seed p < length (p_seeds p) \<and> unat (sd_offset (p_seeds p ! p_first_seed p)) < p_start p")
    case True
    have "chain_ok hash (without_seed p)" using 1(3) by (simp add: chain_ok_def)
    moreover have "evict_seeds hash i (without_seed p) (evict_seed hash i p tbl) = (q, tbl')"
      using 1(5) True by (simp add: evict_seeds.simps [of hash i p])
    ultimately show ?thesis
      using 1(1) [OF True] table_exact_evict_seed [OF 1(2) _ 1(3,4)] True 1(4) by simp
  next
    case False
    then have "q = p \<and> tbl' = tbl" using 1(5) by (simp only: evict_seeds.simps [of hash i p] if_False prod.inject)
    with 1(2) show ?thesis by simp
  qed
qed

lemma evict_seeds_frame:
  assumes "evict_seeds hash i p tbl = (q, tbl')"
  shows "\<exists>n. q = p\<lparr>p_first_seed := n\<rparr> \<and> p_first_seed p \<le> n
     \<and> (p_first_seed p \<le> length (p_seeds p) \<longrightarrow> n \<le> length (p_seeds p))
     \<and> (n < length (p_seeds p) \<longrightarrow> p_start p \<le> unat (sd_offset (p_seeds p ! n)))"
  using assms
proof (induction hash i p tbl rule: evict_seeds.induct)
  case (1 hash i p tbl)
  show ?case
  proof (cases "p_first_seed p < length (p_seeds p) \<and> unat (sd_offset (p_seeds p ! p_first_seed p)) < p_start p")
    case True
    have "evict_seeds hash i (without_seed p) (evict_seed hash i p tbl) = (q, tbl')"
      using 1(2) True by (simp add: evict_seeds.simps [of hash i p])
    with 1(1) [OF True] True show ?thesis by (auto intro: exI)
  next
    case False
    then have "q = p \<and> tbl' = tbl" using 1(2) by (simp only: evict_seeds.simps [of hash i p] if_False prod.inject)
    with False show ?thesis by (intro exI [of _ "p_first_seed p"]) auto
  qed
qed

lemma table_exact_empty_front:
  "length (p_seeds p) \<le> p_first_seed p \<Longrightarrow> table_exact hash i (p # ps) = table_exact hash (Suc i) ps"
  by (simp add: table_exact_def exact_candidates_def hits_def fun_eq_iff)

lemma table_exact_start:
  "table_exact hash i (p\<lparr>p_start := n\<rparr> # ps) = table_exact hash i (p # ps)"
  by (simp add: table_exact_def exact_candidates_def hits_def fun_eq_iff)

lemma table_exact_evict_pieces:
  assumes "table_exact hash i ps tbl" and "list_all (chain_ok hash) ps" and "0 < i"
    and "evict_pieces hash cutoff i ps tbl = (j, qs, tbl')"
  shows "table_exact hash j qs tbl' \<and> list_all (chain_ok hash) qs \<and> i \<le> j"
  using assms
proof (induction ps arbitrary: i tbl)
  case (Cons p ps)
  define start where "start = line_boundary (p_text p) (min (cutoff - p_order p) (length (p_text p)))"
  obtain q tbl1 where q: "evict_seeds hash i (p\<lparr>p_start := start\<rparr>) tbl = (q, tbl1)" by fastforce
  have "table_exact hash i (p\<lparr>p_start := start\<rparr> # ps) tbl"
    using Cons.prems(1) by (simp only: table_exact_start)
  moreover have "chain_ok hash (p\<lparr>p_start := start\<rparr>)" using Cons.prems(2) by (simp add: chain_ok_def)
  ultimately have table: "table_exact hash i (q # ps) tbl1"
    using table_exact_evict_seeds Cons.prems(3) q by blast
  have chain: "chain_ok hash q"
    using evict_seeds_frame [OF q] Cons.prems(2) by (auto simp: chain_ok_def)
  show ?case
  proof (cases "cutoff \<le> p_order p + p_start p \<or> p_first_seed q < length (p_seeds q)")
    case True
    then show ?thesis
      using Cons.prems table chain q by (auto simp: start_def split: if_splits)
  next
    case False
    then have "evict_pieces hash cutoff (Suc i) ps tbl1 = (j, qs, tbl')"
      using Cons.prems(4) q by (simp add: start_def)
    moreover have "table_exact hash (Suc i) ps tbl1"
      using table False by (simp add: table_exact_empty_front)
    ultimately show ?thesis using Cons.IH [of "Suc i" tbl1] Cons.prems(2) by simp
  qed
qed auto

section \<open>Recording a piece\<close>

text \<open>The piece whose seeds are being recorded, seen as the last piece of the index.\<close>

definition growing :: "string \<Rightarrow> seed list \<Rightarrow> piece" where
  "growing s sds = \<lparr>p_text = s, p_seeds = sds, p_start = 0, p_first_seed = 0, p_source = 0,
     p_rows = 0, p_order = 0, p_complete = False\<rparr>"

lemma growing_sel [simp]:
  "p_text (growing s sds) = s" "p_seeds (growing s sds) = sds" "p_first_seed (growing s sds) = 0"
  by (simp_all add: growing_def)

lemma seed_key_offsets:
  assumes "p_text p = p_text q" and "sd_offset (p_seeds p ! s) = sd_offset (p_seeds q ! s)"
  shows "seed_key hash p s = seed_key hash q s"
  using assms by (simp add: seed_key_def)

lemma hits_cong:
  assumes "p_text p = p_text q" and "p_first_seed p = p_first_seed q" and "length (p_seeds p) = length (p_seeds q)"
    and "\<forall>s < length (p_seeds q). sd_offset (p_seeds p ! s) = sd_offset (p_seeds q ! s)"
  shows "hits hash h p = hits hash h q"
proof -
  have "seed_key hash p s = seed_key hash q s" if "s < length (p_seeds q)" for s
    using seed_key_offsets [of p q s] assms(1,4) that by blast
  then show ?thesis unfolding hits_def assms(2,3) by (intro filter_cong) auto
qed

lemma unat_word32: "n < 2 ^ 32 \<Longrightarrow> unat (of_nat n :: 32 word) = n"
  by (simp add: unat_of_nat)

lemma chain_next_snoc: "chain_next (ts @ [t]) = (if ts = [] then Suc t else chain_next ts)"
  by (cases ts) (simp_all add: chain_next_def)

lemma table_exact_record_seed:
  assumes exact: "table_exact hash i (ps @ [growing s sds]) tbl"
    and chain: "chain_ok hash (growing s sds)" and i: "0 < i"
    and at: "at < 2 ^ 32" and small: "length sds + 1 < 2 ^ 32"
    and step: "record_seed hash (i + length ps) s at (sds, tbl) row = (sds', tbl')"
  shows "table_exact hash i (ps @ [growing s sds']) tbl' \<and> chain_ok hash (growing s sds')
     \<and> length sds' = Suc (length sds)
     \<and> sd_offset (sds' ! length sds) = of_nat at \<and> sd_row (sds' ! length sds) = row
     \<and> (\<forall>k < length sds. sd_offset (sds' ! k) = sd_offset (sds ! k) \<and> sd_row (sds' ! k) = sd_row (sds ! k))"
proof -
  define n where "n = length sds"
  define h where "h = hash_text hash (segment s at (line_end s at))"
  define j where "j = i + length ps"
  define old where "old = hits hash h (growing s sds)"
  define occ where "occ = occurrences hash h i ps @ map (Pair j) old"
  define c where "c = lookup_seeds tbl h"
  define appended where "appended = sds @ [\<lparr>sd_offset = of_nat at, sd_row = row, sd_next = 0\<rparr>]"
  have recent: "cd_recent c = newest occ"
    and first: "cd_first c = newest (first_occurrences hash h i ps @ map (Pair j) (take 1 old))"
    using lookup_exact [OF exact, of h]
    by (simp_all add: c_def occ_def j_def old_def occurrences_append first_occurrences_append)
  have head: "fst (hd (cd_recent c)) = j \<longleftrightarrow> old \<noteq> []"
    and previous: "old \<noteq> [] \<Longrightarrow> snd (hd (cd_recent c)) = last old"
  proof -
    have "fst (hd (newest (occurrences hash h i ps))) \<noteq> j"
    proof (cases "rev (occurrences hash h i ps)")
      case (Cons q qs)
      then have "q \<in> set (occurrences hash h i ps)" by (metis list.set_intros(1) set_rev)
      from occurrences_range [OF this] have "fst q \<noteq> j" by (simp add: j_def)
      with Cons show ?thesis by (simp add: newest_head)
    qed (use i in \<open>simp add: newest_head j_def\<close>)
    moreover have "hd (newest (xs @ [q])) = q" for xs q by (simp add: newest_snoc)
    ultimately show "fst (hd (cd_recent c)) = j \<longleftrightarrow> old \<noteq> []" "old \<noteq> [] \<Longrightarrow> snd (hd (cd_recent c)) = last old"
      unfolding recent occ_def by (cases old rule: rev_cases; simp add: append_assoc [symmetric] del: append_assoc)+
  qed
  define sds1 where "sds1 = (if old = [] then appended
    else appended[last old := (appended ! last old)\<lparr>sd_next := of_nat (n + 1)\<rparr>])"
  have result: "sds' = sds1"
    "tbl' = tbl(h \<mapsto> \<lparr>cd_recent = (j, n) # take 3 (cd_recent c),
       cd_first = (if old = [] then (j, n) # take 3 (cd_first c) else cd_first c)\<rparr>)"
    using step head previous
    by (cases c; auto simp: record_seed_def Let_def sds1_def appended_def n_def h_def j_def c_def split: if_splits)+
  have last_old: "last old < n" if "old \<noteq> []"
  proof -
    from that have "last old \<in> set old" by simp
    then show ?thesis by (simp add: old_def hits_def n_def)
  qed
  have len: "length sds1 = Suc n" by (simp add: sds1_def appended_def n_def)
  have fields: "sd_offset (sds1 ! k) = sd_offset (appended ! k) \<and> sd_row (sds1 ! k) = sd_row (appended ! k)" for k
  proof -
    have "sd_offset (xs[m := (xs ! m)\<lparr>sd_next := v\<rparr>] ! k) = sd_offset (xs ! k)
      \<and> sd_row (xs[m := (xs ! m)\<lparr>sd_next := v\<rparr>] ! k) = sd_row (xs ! k)" for xs :: "seed list" and m v
      by (cases "m < length xs"; cases "m = k") (simp_all add: list_update_beyond)
    then show ?thesis by (simp add: sds1_def)
  qed
  have key: "seed_key hash (growing s sds1) k = (if k < n then seed_key hash (growing s sds) k else h)" if "k < Suc n" for k
    using that fields [of k] at
    by (auto simp: seed_key_def appended_def n_def h_def nth_append less_Suc_eq unat_word32)
  have hits: "hits hash g (growing s sds1) = hits hash g (growing s sds) @ (if g = h then [n] else [])" for g
  proof -
    have "filter (\<lambda>t. seed_key hash (growing s sds1) t = g) [0..<n] = filter (\<lambda>t. seed_key hash (growing s sds) t = g) [0..<n]"
      using key by (intro filter_cong) auto
    then show ?thesis using key [of n] by (auto simp: hits_def len n_def [symmetric])
  qed
  have next_old: "unat (sd_next (sds1 ! k)) = (if old \<noteq> [] \<and> k = last old then Suc n else unat (sd_next (sds ! k)))" if "k < n" for k
    using that small last_old
    by (auto simp: sds1_def appended_def n_def nth_append nth_list_update unat_word32 simp del: of_nat_Suc)
  have chain': "chain_ok hash (growing s sds1)"
    unfolding chain_ok_def growing_sel len
  proof (intro allI impI)
    fix k assume k: "k < Suc n"
    define later where "later = filter (\<lambda>t. seed_key hash (growing s sds) t = seed_key hash (growing s sds1) k) [Suc k..<n]"
    have split: "filter (\<lambda>t. seed_key hash (growing s sds1) t = seed_key hash (growing s sds1) k) [Suc k..<Suc n]
      = (if k < n then later @ (if seed_key hash (growing s sds1) k = h then [n] else []) else [])"
    proof -
      have "filter (\<lambda>t. seed_key hash (growing s sds1) t = seed_key hash (growing s sds1) k) [Suc k..<n] = later"
        unfolding later_def using key by (intro filter_cong) auto
      then show ?thesis using k key [of n] by (auto simp: less_Suc_eq)
    qed
    show "unat (sd_next (sds1 ! k)) =
      chain_next (filter (\<lambda>t. seed_key hash (growing s sds1) t = seed_key hash (growing s sds1) k) [Suc k..<Suc n])"
    proof (cases "k < n")
      case False
      with k have "sd_next (sds1 ! k) = 0"
        using last_old by (cases "old = []") (auto simp: sds1_def appended_def n_def less_Suc_eq)
      with False show ?thesis unfolding split by (simp add: chain_next_def)
    next
      case True
      have now: "unat (sd_next (sds ! k)) = chain_next later"
        using chain True key [OF k] by (simp add: chain_ok_def later_def n_def)
      show ?thesis
      proof (cases "seed_key hash (growing s sds1) k = h")
        case same: True
        have "old = filter (\<lambda>t. seed_key hash (growing s sds) t = h) [0..<n]" by (simp add: old_def hits_def n_def)
        also have "\<dots> = filter (\<lambda>t. seed_key hash (growing s sds) t = h) ([0..<k] @ k # [Suc k..<n])"
          using True by (metis upt_add_eq_append upt_conv_Cons le_add_diff_inverse less_imp_le_nat zero_le)
        also have "\<dots> = filter (\<lambda>t. seed_key hash (growing s sds) t = h) [0..<k] @ k # later"
          using same key [OF k] True by (simp add: later_def)
        finally have old: "old = filter (\<lambda>t. seed_key hash (growing s sds) t = h) [0..<k] @ k # later" .
        have "k = last old \<longleftrightarrow> later = []"
        proof (cases "later = []")
          case False
          then have "last later \<in> set later" by simp
          then have "k < last later" unfolding later_def by auto
          with False old show ?thesis by simp
        qed (simp add: old)
        moreover have "old \<noteq> []" using old by simp
        ultimately show ?thesis unfolding split using next_old [OF True] now True same by (simp add: chain_next_snoc)
      next
        case other: False
        have "k \<noteq> last old" if "old \<noteq> []"
        proof -
          from that have "last old \<in> set old" by simp
          then have "seed_key hash (growing s sds) (last old) = h" by (auto simp: old_def hits_def)
          with other key [OF k] True show ?thesis by auto
        qed
        then show ?thesis unfolding split using next_old [OF True] now True other by auto
      qed
    qed
  qed
  have at_h: "exact_candidates hash i (ps @ [growing s sds1]) h =
    Some \<lparr>cd_recent = (j, n) # take 3 (cd_recent c), cd_first = (if old = [] then (j, n) # take 3 (cd_first c) else cd_first c)\<rparr>"
  proof -
    have "take (Suc 0) (old @ [n]) = (if old = [] then [n] else take (Suc 0) old)" by (cases old) simp_all
    then show ?thesis
      using hits [of h]
      by (simp add: exact_candidates_def occurrences_append first_occurrences_append recent first occ_def old_def [symmetric]
          j_def [symmetric] newest_snoc [symmetric] del: take_append)
  qed
  have other: "exact_candidates hash i (ps @ [growing s sds1]) g = exact_candidates hash i (ps @ [growing s sds]) g" if "g \<noteq> h" for g
    using hits [of g] that by (simp add: exact_candidates_def occurrences_append first_occurrences_append)
  have "table_exact hash i (ps @ [growing s sds1]) tbl'"
    using exact at_h other unfolding result(2) by (auto simp: table_exact_def fun_eq_iff)
  then show ?thesis
    using chain' len fields unfolding result(1) by (auto simp: n_def appended_def nth_append)
qed

end
