(* ===== verification/Dedup_Matching.thy ===== *)
theory Dedup_Matching
  imports Dedup_Rows Dedup_Table
begin

text \<open>
  What a search finds.  \<open>H\<close> maps the number of every unit delivered so far to its rows, a
  marker row being \<open>None\<close>.  A piece of the index is a run of verbatim rows of one of them, and
  a span found in a text stands for rows of an earlier unit with the same contents.
\<close>

section \<open>Extending a match\<close>

lemma extend_back_ok:
  assumes "extend_back s r floor start (lo, low, first) = (lo', low', first')"
    and "boundary s floor" and "boundary s lo" and "boundary r start" and "boundary r low"
    and "floor \<le> lo" and "start \<le> low"
  shows "floor \<le> lo' \<and> lo' \<le> lo \<and> start \<le> low' \<and> low' \<le> low \<and> boundary s lo' \<and> boundary r low'
    \<and> same_rows (segment s lo' lo) (segment r low' low) \<and> first' = first - row_count (segment r low' low)"
  using assms
proof (induction s r floor start "(lo, low, first)" arbitrary: lo low first rule: extend_back.induct)
  case (1 s r floor start lo low first)
  define at where "at = row_start s floor lo"
  define previous where "previous = row_start r start low"
  show ?case
  proof (cases "floor < lo \<and> start < low \<and> equal_line (segment s at lo) (segment r previous low)")
    case True
    note s_row = row_start_spec [of floor lo s, folded at_def]
    note r_row = row_start_spec [of start low r, folded previous_def]
    have s_at: "floor \<le> at" "at < lo" "boundary s at" "rows (segment s at lo) = [segment s at lo]"
      using s_row True 1(3-) by (auto dest: boundary_le)
    have r_at: "start \<le> previous" "previous < low" "boundary r previous" "rows (segment r previous low) = [segment r previous low]"
      using r_row True 1(3-) by (auto dest: boundary_le)
    have "extend_back s r floor start (at, previous, first - 1) = (lo', low', first')"
      using 1(2) True by (simp add: extend_back.simps [of s r floor start lo] at_def previous_def)
    from 1(1) [OF _ previous_def at_def _ this] True s_at r_at 1(3-)
    have IH: "floor \<le> lo'" "lo' \<le> at" "start \<le> low'" "low' \<le> previous" "boundary s lo'" "boundary r low'"
      "same_rows (segment s lo' at) (segment r low' previous)" "first' = first - 1 - row_count (segment r low' previous)"
      by simp_all
    have "lo \<le> length s" "low \<le> length r" using 1(3-) by (simp_all add: boundary_le)
    then have apart: "rows (segment s lo' lo) = rows (segment s lo' at) @ rows (segment s at lo)"
      "rows (segment r low' low) = rows (segment r low' previous) @ rows (segment r previous low)"
      using rows_segment_append [of lo' at lo s] rows_segment_append [of low' previous low r] IH s_at r_at
      by auto
    have "same_rows (segment s lo' lo) (segment r low' low)"
      using apart IH(7) equal_line_rows [OF s_at(4) r_at(4)] True by (simp add: same_rows_def)
    moreover have "row_count (segment r low' low) = row_count (segment r low' previous) + 1"
      using apart(2) r_at(4) by (simp flip: length_rows)
    ultimately show ?thesis using IH s_at r_at by auto
  next
    case False
    then have "(lo', low', first') = (lo, low, first)"
      using 1(2) by (auto simp: extend_back.simps [of s r floor start lo] at_def previous_def Let_def split: if_splits)
    with 1(3-) show ?thesis by (simp add: same_rows_def)
  qed
qed

lemma extend_forward_ok:
  assumes "extend_forward s r (hi, high, final) = (hi', high', final')"
    and "boundary s hi" and "boundary r high"
  shows "hi \<le> hi' \<and> high \<le> high' \<and> boundary s hi' \<and> boundary r high'
    \<and> same_rows (segment s hi hi') (segment r high high') \<and> final' = final + row_count (segment r high high')"
  using assms
proof (induction s r "(hi, high, final)" arbitrary: hi high final rule: extend_forward.induct)
  case (1 s r hi high final)
  define e where "e = line_end s hi"
  define f where "f = line_end r high"
  show ?case
  proof (cases "hi < length s \<and> high < length r \<and> equal_line (segment s hi e) (segment r high f)")
    case True
    note s_at = line_end_spec [of hi s, folded e_def]
    note r_at = line_end_spec [of high r, folded f_def]
    have "extend_forward s r (e, f, final + 1) = (hi', high', final')"
      using 1(2) True by (simp add: extend_forward.simps [of s r hi] e_def f_def)
    from 1(1) [OF _ e_def f_def _ this] True s_at(3) r_at(3)
    have IH: "e \<le> hi'" "f \<le> high'" "boundary s hi'" "boundary r high'"
      "same_rows (segment s e hi') (segment r f high')" "final' = final + 1 + row_count (segment r f high')"
      by simp_all
    have le: "hi' \<le> length s" "high' \<le> length r" using IH by (simp_all add: boundary_le)
    have apart: "rows (segment s hi hi') = rows (segment s hi e) @ rows (segment s e hi')"
      "rows (segment r high high') = rows (segment r high f) @ rows (segment r f high')"
      using rows_segment_append [of hi e hi' s] rows_segment_append [of high f high' r] IH s_at r_at True le
      by auto
    have "same_rows (segment s hi hi') (segment r high high')"
      using apart IH(5) equal_line_rows [of "segment s hi e" "segment r high f"] s_at(4) r_at(4) True
      by (simp add: same_rows_def)
    moreover have "row_count (segment r high high') = row_count (segment r f high') + 1"
      using apart(2) r_at(4) True by (simp flip: length_rows)
    ultimately show ?thesis using IH s_at(1) r_at(1) True by auto
  next
    case False
    then have "(hi', high', final') = (hi, high, final)"
      using 1(2) by (auto simp: extend_forward.simps [of s r hi] e_def f_def Let_def split: if_splits)
    with 1(3-) show ?thesis by (simp add: same_rows_def)
  qed
qed

section \<open>The pieces of delivered units\<close>

type_synonym history = "nat \<rightharpoonup> string option list"

definition seed_placed :: "string \<Rightarrow> nat \<Rightarrow> seed \<Rightarrow> bool" where
  "seed_placed s row sd \<longleftrightarrow> unat (sd_offset sd) < length s \<and> boundary s (unat (sd_offset sd))
     \<and> sd_row sd = row + row_count (take (unat (sd_offset sd)) s)"

text \<open>The text stands in the unit from the given row on.\<close>

definition stands_at :: "string option list \<Rightarrow> nat \<Rightarrow> string \<Rightarrow> bool" where
  "stands_at u row s \<longleftrightarrow> 1 \<le> row \<and> row - 1 + row_count s \<le> length u
     \<and> segment u (row - 1) (row - 1 + row_count s) = map Some (rows s)"

definition piece_ok :: "history \<Rightarrow> piece \<Rightarrow> bool" where
  "piece_ok H p \<longleftrightarrow> (\<exists>u row. H (p_source p) = Some u \<and> p_rows p = length u \<and> stands_at u row (p_text p)
     \<and> (\<forall>sd \<in> set (p_seeds p). seed_placed (p_text p) row sd)
     \<and> (p_complete p \<longleftrightarrow> row = 1 \<and> row_count (p_text p) = length u))"

text \<open>The live seeds of a piece lie in the part of its text that is still visible.\<close>

definition live_ok :: "piece \<Rightarrow> bool" where
  "live_ok p \<longleftrightarrow> boundary (p_text p) (p_start p) \<and> p_first_seed p \<le> length (p_seeds p)
     \<and> sorted_wrt (\<lambda>a b. unat (sd_offset a) < unat (sd_offset b)) (p_seeds p)
     \<and> (p_first_seed p < length (p_seeds p) \<longrightarrow> p_start p \<le> unat (sd_offset (p_seeds p ! p_first_seed p)))"

lemma live_ok_offset:
  assumes "live_ok p" and "p_first_seed p \<le> k" and "k < length (p_seeds p)"
  shows "p_start p \<le> unat (sd_offset (p_seeds p ! k))"
proof (cases "k = p_first_seed p")
  case False
  with assms have "unat (sd_offset (p_seeds p ! p_first_seed p)) < unat (sd_offset (p_seeds p ! k))"
    by (auto simp: live_ok_def sorted_wrt_iff_nth_less)
  with assms show ?thesis by (auto simp: live_ok_def)
qed (use assms in \<open>simp add: live_ok_def\<close>)

text \<open>A span stands for rows of an earlier unit with the contents it replaces.\<close>

definition span_sound :: "history \<Rightarrow> string \<Rightarrow> span \<Rightarrow> bool" where
  "span_sound H s sp \<longleftrightarrow> boundary s (sp_start sp) \<and> boundary s (sp_end sp)
     \<and> sp_start sp + threshold \<le> sp_end sp
     \<and> (\<exists>u. H (sp_source sp) = Some u \<and> 1 \<le> sp_first sp \<and> sp_first sp \<le> sp_last sp \<and> sp_last sp \<le> length u
          \<and> map (map_option row_text) (segment u (sp_first sp - 1) (sp_last sp)) =
              map (Some \<circ> row_text) (rows (segment s (sp_start sp) (sp_end sp)))
          \<and> (sp_whole sp \<longleftrightarrow> sp_first sp = 1 \<and> sp_last sp = length u))"

lemma rows_segment:
  assumes "i \<le> j" and "j \<le> length s" and "boundary s i" and "boundary s j"
  shows "rows (segment s i j) = segment (rows s) (row_count (take i s)) (row_count (take j s))"
proof -
  define A B C where "A = rows (take i s)" and "B = rows (segment s i j)" and "C = rows (segment s j (length s))"
  have take: "take i s = segment s 0 i" "take j s = segment s 0 j" by (simp_all add: segment_def)
  have whole: "rows s = A @ B @ C"
    using rows_segment_append [of 0 i "length s" s] rows_segment_append [of i j "length s" s] assms
    by (simp add: A_def B_def C_def take)
  have "rows (take j s) = A @ B"
    using assms rows_segment_append [of 0 i j s] by (simp only: A_def B_def take)
  then have "row_count (take j s) = length A + length B" "row_count (take i s) = length A"
    by (simp_all add: A_def flip: length_rows)
  then show ?thesis unfolding whole by (simp add: segment_def B_def)
qed

lemma row_count_take_mono:
  assumes "i < j" and "j \<le> length s" and "boundary s i" and "boundary s j"
  shows "row_count (take i s) < row_count (take j s)"
proof -
  have "take j s = segment s 0 j" "take i s = segment s 0 i" by (simp_all add: segment_def)
  moreover have "row_count (segment s 0 j) = row_count (segment s 0 i) + row_count (segment s i j)"
    using row_count_segment_append [of 0 i j s] assms by auto
  moreover have "segment s i j \<noteq> []" using assms by (simp add: segment_def)
  then have "row_count (segment s i j) \<noteq> 0" by (simp flip: length_rows)
  ultimately show ?thesis by simp
qed

lemma row_count_take_le: "boundary s i \<Longrightarrow> row_count (take i s) \<le> row_count s"
  using row_count_take_mono [of i "length s" s] by (cases "i = length s") (auto simp: boundary_def)

text \<open>A candidate run.\<close>

lemma candidate_run_ok:
  assumes piece: "piece_ok H p" and live: "live_ok p" and k: "p_first_seed p \<le> k" "k < length (p_seeds p)"
    and run: "candidate_run s floor at (line_end s at) p (p_seeds p ! k) = Some (sp, recency)"
    and at: "at < length s" "boundary s at" "boundary s floor" "floor \<le> at"
    and long: "sp_start sp + threshold \<le> sp_end sp"
  shows "span_sound H s sp \<and> floor \<le> sp_start sp \<and> sp_start sp \<le> at \<and> line_end s at \<le> sp_end sp"
proof -
  define r where "r = p_text p"
  define sd where "sd = p_seeds p ! k"
  define off where "off = unat (sd_offset sd)"
  define e where "e = line_end r off"
  define nxt where "nxt = line_end s at"
  from piece obtain u row0 where u: "H (p_source p) = Some u" "p_rows p = length u" "stands_at u row0 r"
    and all: "\<forall>sd \<in> set (p_seeds p). seed_placed r row0 sd"
    unfolding piece_ok_def r_def by blast
  have placed: "seed_placed r row0 sd" using all k by (simp add: sd_def)
  have off: "off < length r" "boundary r off" "sd_row sd = row0 + row_count (take off r)"
    using placed by (simp_all add: seed_placed_def off_def)
  have start: "p_start p \<le> off" "boundary r (p_start p)"
    using live_ok_offset [OF live k] live by (simp_all add: live_ok_def off_def sd_def r_def)
  note e = line_end_spec [OF off(1), folded e_def]
  note nxt = line_end_spec [OF at(1), folded nxt_def]
  obtain lo low first where leftwards: "extend_back s r floor (p_start p) (at, off, sd_row sd) = (lo, low, first)"
    by (metis prod_cases3)
  obtain hi high final where rightwards: "extend_forward s r (nxt, e, sd_row sd) = (hi, high, final)"
    by (metis prod_cases3)
  have eq: "equal_line (segment s at nxt) (segment r off e)"
    and sp: "sp = \<lparr>sp_start = lo, sp_end = hi, sp_source = p_source p, sp_first = first, sp_last = final,
      sp_whole = (first = 1 \<and> final = p_rows p)\<rparr>"
    using run leftwards rightwards by (auto simp: candidate_run_def Let_def r_def sd_def off_def e_def nxt_def split: if_splits)
  note B = extend_back_ok [OF leftwards at(3,2) start(2) off(2) at(4) start(1)]
  note F = extend_forward_ok [OF rightwards nxt(3) e(3)]
  have hi: "hi \<le> length s" "high \<le> length r" using F by (simp_all add: boundary_le)
  have s_rows: "rows (segment s lo hi) = rows (segment s lo at) @ rows (segment s at nxt) @ rows (segment s nxt hi)"
    using rows_segment_append [of lo at hi s] rows_segment_append [of at nxt hi s] B F at nxt hi by simp
  have r_rows: "rows (segment r low high) = rows (segment r low off) @ rows (segment r off e) @ rows (segment r e high)"
    using rows_segment_append [of low off high r] rows_segment_append [of off e high r] B F off e hi by simp
  have same: "map row_text (rows (segment s lo hi)) = map row_text (rows (segment r low high))"
    unfolding s_rows r_rows using B F eq equal_line_rows [OF nxt(4) e(4)] by (simp add: same_rows_def)
  have take_seg: "take i r = segment r 0 i" for i by (simp add: segment_def)
  have counts: "row_count (take off r) = row_count (take low r) + row_count (segment r low off)"
    "row_count (take high r) = row_count (take off r) + 1 + row_count (segment r e high)"
    unfolding take_seg
    using row_count_segment_append [of 0 low off r] row_count_segment_append [of 0 off high r]
      row_count_segment_append [of off e high r] row_count_single [OF e(4)] B F off e hi
    by simp_all
  have first: "first = row0 + row_count (take low r)" using B off(3) counts(1) by simp
  have final: "final + 1 = row0 + row_count (take high r)" using F off(3) counts(2) by simp
  have row0: "1 \<le> row0" "row0 - 1 + row_count r \<le> length u"
    and here: "segment u (row0 - 1) (row0 - 1 + row_count r) = map Some (rows r)"
    using u(3) unfolding stands_at_def by blast+
  define m n where "m = row_count (take low r)" and "n = row_count (take high r)"
  have le: "m \<le> n" "n \<le> row_count r"
    using row_count_take_mono [of low high r] row_count_take_le [of r high] B F e off hi
    by (auto simp: m_def n_def)
  have "first - 1 = row0 - 1 + m" "final = row0 - 1 + n"
    using first final row0(1) by (simp_all add: m_def n_def)
  then have "segment u (first - 1) final = segment u (row0 - 1 + m) (row0 - 1 + n)" by simp
  also have "\<dots> = segment (map Some (rows r)) m n"
  proof -
    have "segment u (row0 - 1) (row0 - 1 + length (map Some (rows r))) = map Some (rows r)"
      using here by (simp add: length_rows)
    from segment_segment [OF this, of n m] le show ?thesis by (simp add: length_rows)
  qed
  also have "\<dots> = map Some (rows (segment r low high))"
    using rows_segment [of low high r] B F e off hi by (simp add: m_def n_def segment_def take_map drop_map)
  finally have "map (map_option row_text) (segment u (first - 1) final) = map (Some \<circ> row_text) (rows (segment s lo hi))"
    using arg_cong [OF same, of "map Some"] by simp
  moreover have "first \<le> final" "final \<le> length u" "1 \<le> first"
    using row_count_take_mono [of low high r] first final row0 le B F e off hi by (auto simp: m_def n_def)
  ultimately show ?thesis
    using B F u long by (auto simp: span_sound_def sp nxt_def)
qed

section \<open>The search\<close>

definition index_ok :: "hashing \<Rightarrow> history \<Rightarrow> line_index \<Rightarrow> bool" where
  "index_ok hash H idx \<longleftrightarrow> 0 < ix_first_piece idx
     \<and> table_exact hash (ix_first_piece idx) (ix_pieces idx) (ix_seeds idx)
     \<and> (\<forall>p \<in> set (ix_pieces idx). chain_ok hash p \<and> piece_ok H p \<and> live_ok p)"

lemma index_ok_new: "index_ok hash Map.empty new_index"
  by (simp add: index_ok_def new_index_def table_exact_def exact_candidates_def fun_eq_iff)

text \<open>Every position a lookup returns is empty or live.\<close>

definition position_live :: "line_index \<Rightarrow> position \<Rightarrow> bool" where
  "position_live idx pos \<longleftrightarrow> (\<exists>p \<in> set (ix_pieces idx). piece_at idx (fst pos) = Some p
     \<and> p_first_seed p \<le> snd pos \<and> snd pos < length (p_seeds p))"

lemma looked_up_live:
  assumes "index_ok hash H idx" and "pos \<in> set (cd_recent (lookup_seeds (ix_seeds idx) h) @ cd_first (lookup_seeds (ix_seeds idx) h))"
  shows "fst pos = 0 \<or> position_live idx pos"
proof -
  have exact: "table_exact hash (ix_first_piece idx) (ix_pieces idx) (ix_seeds idx)"
    using assms(1) by (simp add: index_ok_def)
  have "set (newest xs) \<subseteq> set xs \<union> {(0, 0)}" for xs
    by (auto simp: newest_def dest!: in_set_takeD)
  then have "pos \<in> set (occurrences hash h (ix_first_piece idx) (ix_pieces idx)) \<union> {(0, 0)}"
    using assms(2) lookup_exact [OF exact, of h] first_occurrences_sub by fastforce
  then consider "pos = (0, 0)" | "pos \<in> set (occurrences hash h (ix_first_piece idx) (ix_pieces idx))" by blast
  then show ?thesis
  proof cases
    case 2
    from occurrences_range [OF this] show ?thesis
      by (auto simp: position_live_def piece_at_def hits_def intro!: bexI)
  qed simp
qed

definition run_ok :: "history \<Rightarrow> string \<Rightarrow> nat \<Rightarrow> nat \<Rightarrow> span \<Rightarrow> bool" where
  "run_ok H s floor at sp \<longleftrightarrow> sp = zero_span
     \<or> span_sound H s sp \<and> floor \<le> sp_start sp \<and> sp_start sp \<le> at \<and> line_end s at \<le> sp_end sp"

lemma consider_positions_ok:
  assumes "index_ok hash H idx" and at: "at < length s" "boundary s at" "boundary s floor" "floor \<le> at"
    and "\<forall>x \<in> set ps. fst (snd x) = 0 \<or> position_live idx (snd x)" and "run_ok H s floor at (fst best)"
  shows "\<exists>b. consider_positions idx s floor at (line_end s at) recent ps best = Some b \<and> run_ok H s floor at (fst b)"
  using assms(6,7)
proof (induction ps arbitrary: best)
  case (Cons x ps)
  obtain n pos where x: "x = (n, pos)" by (cases x)
  show ?case
  proof (cases "fst pos = 0 \<or> 4 \<le> n \<and> pos \<in> set recent")
    case True
    then show ?thesis using Cons x by simp
  next
    case False
    with Cons.prems(1) x have "position_live idx pos" by simp
    then obtain p where p: "p \<in> set (ix_pieces idx)" "piece_at idx (fst pos) = Some p"
      "p_first_seed p \<le> snd pos" "snd pos < length (p_seeds p)"
      by (auto simp: position_live_def)
    have ok: "piece_ok H p" "live_ok p" using assms(1) p(1) by (simp_all add: index_ok_def)
    define b where "b = (case candidate_run s floor at (line_end s at) p (p_seeds p ! snd pos) of
      None \<Rightarrow> best | Some new \<Rightarrow> better_run new best)"
    have "run_ok H s floor at (fst b)"
    proof (cases "candidate_run s floor at (line_end s at) p (p_seeds p ! snd pos)")
      case None
      then show ?thesis using Cons.prems(2) by (simp add: b_def)
    next
      case (Some new)
      obtain sp recency where new: "new = (sp, recency)" by (cases new)
      show ?thesis
      proof (cases "b = best")
        case False
        with Some have b: "b = new" "\<not> sp_end sp - sp_start sp < threshold"
          by (auto simp: b_def better_run_def new Let_def split: if_splits)
        then have "sp_start sp + threshold \<le> sp_end sp" by (simp add: threshold_def)
        with candidate_run_ok [OF ok p(3,4) _ at] Some new b(1) show ?thesis by (simp add: run_ok_def)
      qed (use Cons.prems(2) in simp)
    qed
    then have "\<exists>b'. consider_positions idx s floor at (line_end s at) recent ps b = Some b' \<and> run_ok H s floor at (fst b')"
      using Cons.IH [of b] Cons.prems(1) by simp
    moreover have "consider_positions idx s floor at (line_end s at) recent (x # ps) best =
      consider_positions idx s floor at (line_end s at) recent ps b"
      unfolding x consider_positions.simps(2) if_not_P [OF False] using p by (simp add: seed_at_def b_def)
    ultimately show ?thesis by simp
  qed
qed auto

lemma best_run_ok:
  assumes "index_ok hash H idx" and "at < length s" "boundary s at" "boundary s floor" "floor \<le> at"
  shows "\<exists>sp. best_run hash idx s floor at (line_end s at) = Some sp \<and> run_ok H s floor at sp"
proof -
  define c where "c = lookup_seeds (ix_seeds idx) (hash_text hash (segment s at (line_end s at)))"
  have "\<forall>x \<in> set (enumerate 0 (cd_recent c @ cd_first c)). fst (snd x) = 0 \<or> position_live idx (snd x)"
    using looked_up_live [OF assms(1)] unfolding c_def
    by (metis enumerate_eq_zip set_zip_rightD prod.collapse)
  from consider_positions_ok [OF assms this, of "(zero_span, 0)" "cd_recent c"] show ?thesis
    by (auto simp: best_run_def run_ok_def c_def Let_def)
qed

text \<open>The spans of a projection: in order, apart, and each sound.\<close>

definition spans_ok :: "history \<Rightarrow> string \<Rightarrow> span list \<Rightarrow> bool" where
  "spans_ok H s sps \<longleftrightarrow> list_all (span_sound H s) sps \<and> sorted_wrt (\<lambda>a b. sp_end a \<le> sp_start b) sps"

lemma project_from_ok:
  assumes "index_ok hash H idx"
    and "length s - at \<le> fuel" and "boundary s at" and "boundary s floor" and "floor \<le> at"
    and "spans_ok H s sps" and "\<forall>sp \<in> set sps. sp_end sp \<le> floor"
  shows "\<exists>sps'. project_from hash idx s fuel floor at sps = Some sps' \<and> spans_ok H s sps'"
  using assms(2-)
proof (induction fuel arbitrary: at floor sps)
  case 0
  then show ?case by (subst project_from.simps) simp
next
  case (Suc n)
  show ?case
  proof (cases "at < length s")
    case True
    define nxt where "nxt = line_end s at"
    note nxt = line_end_spec [OF True, folded nxt_def]
    have skip: ?thesis if "project_from hash idx s (Suc n) floor at sps = project_from hash idx s n floor nxt sps"
      unfolding that using Suc.IH [of nxt floor sps] Suc.prems nxt True by simp
    obtain sp where sp: "best_run hash idx s floor at nxt = Some sp" "run_ok H s floor at sp"
      using best_run_ok [OF assms(1) True Suc.prems(2-4)] unfolding nxt_def by blast
    show ?thesis
    proof (cases "is_seed (segment s at nxt) \<and> sp_end sp \<noteq> 0")
      case hit: True
      with sp have sound: "span_sound H s sp" "floor \<le> sp_start sp" "nxt \<le> sp_end sp"
        by (auto simp: run_ok_def zero_span_def nxt_def)
      then have e: "boundary s (sp_end sp)" "sp_start sp < sp_end sp" by (auto simp: span_sound_def threshold_def)
      have "project_from hash idx s (Suc n) floor at sps = project_from hash idx s n (sp_end sp) (sp_end sp) (sps @ [sp])"
        using True hit sp(1) by (subst project_from.simps) (simp add: nxt_def)
      moreover have "spans_ok H s (sps @ [sp])"
        using Suc.prems(5,6) sound by (force simp: spans_ok_def sorted_wrt_append)
      moreover have "\<forall>x \<in> set (sps @ [sp]). sp_end x \<le> sp_end sp"
        using Suc.prems(6) sound(2) e(2) by force
      ultimately show ?thesis
        using Suc.IH [of "sp_end sp" "sp_end sp" "sps @ [sp]"] Suc.prems(1) sound(3) nxt(1) e(1) by simp
    next
      case False
      have "project_from hash idx s (Suc n) floor at sps = project_from hash idx s n floor nxt sps"
        using True False sp(1) by (subst project_from.simps) (auto simp: nxt_def Let_def)
      then show ?thesis by (rule skip)
    qed
  next
    case False
    then show ?thesis using Suc.prems(5) by (subst project_from.simps) simp
  qed
qed

lemma project_ok:
  assumes "index_ok hash H idx"
  shows "\<exists>sps. project hash idx s = Some \<lparr>pj_spans = sps, pj_text = s\<rparr> \<and> spans_ok H s sps
     \<and> (length s < threshold \<longrightarrow> sps = [])"
  using project_from_ok [OF assms, of s 0 "length s" 0 "[]"]
  by (auto simp: project_def spans_ok_def)

end
