(* ===== verification/Dedup_Adding.thy ===== *)
theory Dedup_Adding
  imports Dedup_Matching
begin

text \<open>
  Adding a delivered unit: its verbatim runs stand in the unit where their rows say, a piece
  records them, and what leaves the window is evicted.  The index keeps its invariant, and
  the text it refers to lies in the newest bytes.
\<close>

section \<open>The rows of a delivered unit\<close>

fun unit_from :: "string \<Rightarrow> span list \<Rightarrow> nat \<Rightarrow> string option list" where
  "unit_from s [] start = map Some (rows (drop start s))"
| "unit_from s (sp # sps) start =
     map Some (rows (segment s start (sp_start sp))) @ None # unit_from s sps (sp_end sp)"

definition unit_rows :: "projection \<Rightarrow> string option list" where
  "unit_rows pj = unit_from (pj_text pj) (pj_spans pj) 0"

text \<open>Spans at row boundaries, in order.\<close>

fun spans_placed :: "string \<Rightarrow> span list \<Rightarrow> nat \<Rightarrow> bool" where
  "spans_placed s [] start = boundary s start"
| "spans_placed s (sp # sps) start \<longleftrightarrow> boundary s start \<and> start \<le> sp_start sp \<and> sp_start sp < sp_end sp
     \<and> boundary s (sp_start sp) \<and> spans_placed s sps (sp_end sp)"

lemma spans_placed_boundary: "spans_placed s sps start \<Longrightarrow> boundary s start"
  by (cases sps) simp_all

lemma spans_ok_placed:
  assumes "spans_ok H s sps" and "boundary s start" and "\<forall>sp \<in> set sps. start \<le> sp_start sp"
  shows "spans_placed s sps start"
  using assms
proof (induction sps arbitrary: start)
  case (Cons sp sps)
  then show ?case by (auto simp: spans_ok_def span_sound_def threshold_def)
qed simp

lemma spans_placed_end: "spans_placed s sps start \<Longrightarrow> sp \<in> set sps \<Longrightarrow> start \<le> sp_start sp \<and> sp_start sp < sp_end sp \<and> sp_end sp \<le> length s"
proof (induction sps arbitrary: start)
  case (Cons x sps)
  from Cons.prems have x: "spans_placed s sps (sp_end x)" "start \<le> sp_start x" "sp_start x < sp_end x" by simp_all
  show ?case
  proof (cases "sp = x")
    case True
    with x spans_placed_boundary [OF x(1)] show ?thesis by (simp add: boundary_le)
  next
    case False
    with Cons.prems Cons.IH [OF x(1)] x show ?thesis by auto
  qed
qed simp

text \<open>The bytes and rows that remain from a position on.\<close>

fun verbatim_from :: "string \<Rightarrow> span list \<Rightarrow> nat \<Rightarrow> nat" where
  "verbatim_from s [] start = length s - start"
| "verbatim_from s (sp # sps) start = sp_start sp - start + verbatim_from s sps (sp_end sp)"

lemma verbatim_fold:
  "spans_placed s sps start \<Longrightarrow>
     fold (\<lambda>sp n. n - (sp_end sp - sp_start sp)) sps (length s - start + k) = verbatim_from s sps start + k"
proof (induction sps arbitrary: start k)
  case (Cons sp sps)
  then have e: "sp_end sp \<le> length s" using spans_placed_boundary by (auto simp: boundary_le)
  have "length s - start + k - (sp_end sp - sp_start sp) = length s - sp_end sp + (sp_start sp - start + k)"
    using Cons.prems e by simp
  with Cons.IH [of "sp_end sp" "sp_start sp - start + k"] Cons.prems show ?case by simp
qed simp

lemma verbatim_bytes_from: "spans_placed (pj_text pj) (pj_spans pj) 0 \<Longrightarrow>
    verbatim_bytes pj = verbatim_from (pj_text pj) (pj_spans pj) 0"
  using verbatim_fold [of "pj_text pj" "pj_spans pj" 0 0] by (simp add: verbatim_bytes_def)

lemma row_count_drop: "boundary s i \<Longrightarrow> row_count (drop i s) + row_count (take i s) = row_count s"
  using row_count_segment_append [of 0 i "length s" s]
  by (simp add: boundary_le segment_def)

lemma delivered_fold:
  "spans_placed s sps start \<Longrightarrow>
     fold (\<lambda>sp n. n + 1 - row_count (segment s (sp_start sp) (sp_end sp))) sps (row_count (drop start s) + k)
       = length (unit_from s sps start) + k"
proof (induction sps arbitrary: start k)
  case Nil
  then show ?case by (simp add: length_rows)
next
  case (Cons sp sps)
  then have e: "boundary s (sp_end sp)" "sp_end sp \<le> length s"
    using spans_placed_boundary by (auto simp: boundary_le)
  have drop_seg: "drop i s = segment s i (length s)" for i by (simp add: segment_def)
  have "row_count (drop start s) = row_count (segment s start (sp_start sp))
      + (row_count (segment s (sp_start sp) (sp_end sp)) + row_count (drop (sp_end sp) s))"
    unfolding drop_seg
    using row_count_segment_append [of start "sp_start sp" "length s" s]
      row_count_segment_append [of "sp_start sp" "sp_end sp" "length s" s] Cons.prems e
    by simp
  then have "row_count (drop start s) + k + 1 - row_count (segment s (sp_start sp) (sp_end sp)) =
      row_count (drop (sp_end sp) s) + (row_count (segment s start (sp_start sp)) + 1 + k)" by simp
  with Cons.IH [of "sp_end sp" "row_count (segment s start (sp_start sp)) + 1 + k"] Cons.prems
  show ?case by (simp add: length_rows)
qed

lemma delivered_rows_length: "spans_placed (pj_text pj) (pj_spans pj) 0 \<Longrightarrow> delivered_rows pj = length (unit_rows pj)"
  using delivered_fold [of "pj_text pj" "pj_spans pj" 0 0] by (simp add: delivered_rows_def unit_rows_def)

text \<open>What every visited run satisfies.\<close>

definition visit_ok :: "string option list \<Rightarrow> run_visit \<Rightarrow> bool" where
  "visit_ok u v \<longleftrightarrow> rv_rows v = length u \<and> stands_at u (rv_row v) (rv_text v)
     \<and> length (rv_text v) \<le> window_bytes + rv_skip v"

lemma stands_at_append: "stands_at (pre @ map Some (rows s) @ post) (length pre + 1) s"
  by (simp add: stands_at_def segment_def length_rows [symmetric])

lemma visit_spans_ok:
  assumes "spans_placed s sps start" and "verbatim_from s sps start \<le> window_bytes + skip"
    and "u = pre @ unit_from s sps start"
  shows "\<forall>v \<in> set (visit_spans s (length u) sps start (length pre + 1) skip). visit_ok u v"
  using assms
proof (induction sps arbitrary: start skip pre)
  case Nil
  then show ?case using stands_at_append [of pre "drop start s" "[]"] by (simp add: visit_ok_def)
next
  case (Cons sp sps)
  define r where "r = segment s start (sp_start sp)"
  have placed: "spans_placed s sps (sp_end sp)" "start \<le> sp_start sp" "sp_start sp \<le> length s"
    using Cons.prems(1) by (auto simp: boundary_le)
  have r: "length r = sp_start sp - start" using placed(3) by (simp add: r_def segment_length)
  have u: "u = (pre @ map Some (rows r) @ [None]) @ unit_from s sps (sp_end sp)"
    using Cons.prems(3) by (simp add: r_def)
  have rest: "\<forall>v \<in> set (visit_spans s (length u) sps (sp_end sp) (length pre + row_count r + 2) (skip - length r)). visit_ok u v"
    using Cons.IH [OF placed(1) _ u, of "skip - length r"] Cons.prems(2) r by (simp add: length_rows)
  show ?case
  proof (cases "start < sp_start sp")
    case True
    have "visit_ok u \<lparr>rv_rows = length u, rv_text = r, rv_row = length pre + 1, rv_skip = skip\<rparr>"
      using stands_at_append [of pre r "None # unit_from s sps (sp_end sp)"] Cons.prems(2) u r by (simp add: visit_ok_def)
    with rest True r show ?thesis by (simp add: r_def [symmetric] numeral_2_eq_2)
  next
    case False
    then have "r = []" using r placed by simp
    with rest False show ?thesis by (simp add: numeral_2_eq_2)
  qed
qed

lemma visit_runs_ok:
  assumes "spans_placed (pj_text pj) (pj_spans pj) 0"
  shows "\<forall>v \<in> set (visit_runs pj). visit_ok (unit_rows pj) v"
  using visit_spans_ok [OF assms, of "verbatim_bytes pj - window_bytes" "unit_rows pj" "[]"]
  by (simp add: visit_runs_def delivered_rows_length [OF assms] verbatim_bytes_from [OF assms] unit_rows_def)

text \<open>The part of a run inside the window.\<close>

lemma retained_run_ok:
  assumes "visit_ok u v" and "retained_run (rv_text v) (rv_row v) (rv_skip v) = (s, row, start, count)"
  shows "stands_at u row s \<and> s = drop start (rv_text v) \<and> start \<le> length (rv_text v)
    \<and> length s \<le> window_bytes \<and> min (rv_skip v) (length (rv_text v)) \<le> start
    \<and> (count \<noteq> 0 \<longrightarrow> threshold \<le> length s)"
proof -
  define t where "t = rv_text v"
  have start: "start = line_boundary t (min (rv_skip v) (length t))" "s = drop start t" "row = rv_row v + row_count (take start t)"
    using assms(2) by (auto simp: retained_run_def Let_def t_def split: if_splits)
  have b: "min (rv_skip v) (length t) \<le> start" "start \<le> length t" "boundary t start"
    using line_boundary_spec [of "min (rv_skip v) (length t)" t] by (simp_all add: start(1))
  have t: "stands_at u (rv_row v) t" "length t \<le> window_bytes + rv_skip v"
    using assms(1) by (simp_all add: visit_ok_def t_def)
  have parts: "rows t = rows (take start t) @ rows (drop start t)"
    using rows_segment_append [of 0 start "length t" t] b by (simp add: segment_def)
  have "segment u (rv_row v - 1) (rv_row v - 1 + row_count t) = map Some (rows t)"
    using t(1) by (simp only: stands_at_def)
  then have "segment u (row - 1) (row - 1 + row_count s) = map Some (rows s)"
  proof -
    assume here: "segment u (rv_row v - 1) (rv_row v - 1 + row_count t) = map Some (rows t)"
    then have "segment u (rv_row v - 1) (rv_row v - 1 + length (map Some (rows t))) = map Some (rows t)" by (simp add: length_rows)
    from segment_segment [OF this, of "row_count t" "row_count (take start t)"]
    have "segment (map Some (rows t)) (row_count (take start t)) (row_count t) =
      segment u (rv_row v - 1 + row_count (take start t)) (rv_row v - 1 + row_count t)" by (simp add: length_rows)
    moreover have "segment (map Some (rows t)) (row_count (take start t)) (row_count t) = map Some (rows s)"
      by (simp add: parts start(2) segment_def flip: length_rows)
    moreover have "rv_row v - 1 + row_count (take start t) = row - 1"
      "rv_row v - 1 + row_count t = row - 1 + row_count s"
      using row_count_drop [OF b(3)] t(1) start(2,3) by (simp_all add: stands_at_def)
    ultimately show ?thesis by simp
  qed
  moreover have "1 \<le> row" "row - 1 + row_count s \<le> length u"
  proof -
    have "1 \<le> rv_row v" "rv_row v - 1 + row_count t \<le> length u" using t(1) unfolding stands_at_def by blast+
    then show "1 \<le> row" "row - 1 + row_count s \<le> length u"
      unfolding start(2,3) using row_count_drop [OF b(3)] by linarith+
  qed
  ultimately show ?thesis
    using b t(2) start(2) assms(2)
    by (auto simp: stands_at_def t_def [symmetric] retained_run_def Let_def split: if_splits)
qed

section \<open>Recording the seeds of a piece\<close>

text \<open>What the seeds recorded for a prefix of the text satisfy.\<close>

definition recorded :: "hashing \<Rightarrow> nat \<Rightarrow> piece list \<Rightarrow> string \<Rightarrow> nat \<Rightarrow> nat \<Rightarrow> seed list \<times> seed_table \<Rightarrow> bool" where
  "recorded hash i ps s first at st \<longleftrightarrow> table_exact hash i (ps @ [growing s (fst st)]) (snd st)
     \<and> chain_ok hash (growing s (fst st))
     \<and> (\<forall>sd \<in> set (fst st). seed_placed s first sd \<and> unat (sd_offset sd) < at)
     \<and> sorted_wrt (\<lambda>a b. unat (sd_offset a) < unat (sd_offset b)) (fst st)
     \<and> length (fst st) \<le> at"

lemma recorded_step:
  assumes rec: "recorded hash i ps s first at (sds, tbl)" and i: "0 < i"
    and at: "at < length s" "boundary s at" and small: "length s < 2 ^ 32"
    and step: "record_seed hash (i + length ps) s at (sds, tbl) (first + row_count (take at s)) = (sds', tbl')"
  shows "recorded hash i ps s first (line_end s at) (sds', tbl')"
proof -
  have bounds: "at < 2 ^ 32" "length sds + 1 < 2 ^ 32" "length sds \<le> at"
    using rec at(1) small by (simp_all add: recorded_def)
  from table_exact_record_seed [OF _ _ i bounds(1,2) step] rec
  have T: "table_exact hash i (ps @ [growing s sds']) tbl'" "chain_ok hash (growing s sds')"
    and len: "length sds' = Suc (length sds)"
    and new: "sd_offset (sds' ! length sds) = of_nat at" "sd_row (sds' ! length sds) = first + row_count (take at s)"
    and old: "\<forall>k < length sds. sd_offset (sds' ! k) = sd_offset (sds ! k) \<and> sd_row (sds' ! k) = sd_row (sds ! k)"
    by (simp_all add: recorded_def)
  have gt: "at < line_end s at" using at(1) by (rule line_end_gt)
  have placed: "seed_placed s first (sds' ! k) \<and> unat (sd_offset (sds' ! k)) < line_end s at" if "k < Suc (length sds)" for k
  proof (cases "k = length sds")
    case True
    with new at bounds(1) gt show ?thesis by (simp add: seed_placed_def unat_word32)
  next
    case False
    with that have k: "k < length sds" by simp
    then have "seed_placed s first (sds ! k)" "unat (sd_offset (sds ! k)) < at"
      using rec by (simp_all add: recorded_def)
    with old k gt show ?thesis by (simp add: seed_placed_def)
  qed
  have "sorted_wrt (\<lambda>a b. unat (sd_offset a) < unat (sd_offset b)) sds'"
    unfolding sorted_wrt_iff_nth_less len
  proof (intro allI impI)
    fix a b assume ab: "a < b" "b < Suc (length sds)"
    have a: "a < length sds" using ab by simp
    show "unat (sd_offset (sds' ! a)) < unat (sd_offset (sds' ! b))"
    proof (cases "b = length sds")
      case True
      then show ?thesis using rec a old new(1) bounds(1) by (simp add: recorded_def unat_word32)
    next
      case False
      with ab have "b < length sds" by simp
      with rec ab a old show ?thesis by (simp add: recorded_def sorted_wrt_iff_nth_less)
    qed
  qed
  moreover have "\<forall>sd \<in> set sds'. seed_placed s first sd \<and> unat (sd_offset sd) < line_end s at"
    using placed len by (auto simp: in_set_conv_nth)
  ultimately show ?thesis using T len bounds(3) gt by (simp add: recorded_def)
qed

lemma record_seeds_ok:
  assumes "recorded hash i ps s first at st" and i: "0 < i" and "boundary s at" and small: "length s < 2 ^ 32"
    and "row = first + row_count (take at s)"
  shows "recorded hash i ps s first (length s) (record_seeds hash (i + length ps) s at row st)"
  using assms
proof (induction hash "i + length ps" s at row st rule: record_seeds.induct)
  case (1 hash s at row st)
  show ?case
  proof (cases "at < length s")
    case True
    define e where "e = line_end s at"
    note e = line_end_spec [OF True, folded e_def]
    define st' where "st' = (if is_seed (segment s at e) then record_seed hash (i + length ps) s at st row else st)"
    have rec: "recorded hash i ps s first e st'"
    proof (cases "is_seed (segment s at e)")
      case seed: True
      obtain sds tbl sds' tbl' where st: "st = (sds, tbl)"
        and step: "record_seed hash (i + length ps) s at (sds, tbl) row = (sds', tbl')"
        by (metis surj_pair)
      show ?thesis
        using recorded_step [of hash i ps s first at sds tbl sds' tbl'] 1(2,3,4,5,6) True step seed
        by (simp add: st'_def st e_def)
    next
      case False
      with 1(2) e(1) show ?thesis by (fastforce simp: recorded_def st'_def)
    qed
    have row: "row + 1 = first + row_count (take e s)"
      using row_count_segment_append [of 0 at e s] row_count_single [OF e(4)] e(1,2) 1(4,6)
      by (simp add: segment_def)
    have "recorded hash i ps s first (length s) (record_seeds hash (i + length ps) s e (row + 1) st')"
      unfolding st'_def e_def
      by (rule 1(1) [OF True]) (use rec i e(3) 1(5) row in \<open>simp_all add: st'_def e_def\<close>)
    then show ?thesis using True by (subst record_seeds.simps) (simp add: st'_def e_def)
  next
    case False
    with 1(2,4) show ?thesis by (subst record_seeds.simps) (simp add: boundary_def)
  qed
qed

lemma recorded_start: "table_exact hash i ps tbl \<Longrightarrow> recorded hash i ps s first 0 ([], tbl)"
  by (simp add: recorded_def chain_ok_def table_exact_def exact_candidates_def occurrences_append
      first_occurrences_append hits_def fun_eq_iff)

text \<open>A piece with the text and seeds of a growing one has its positions.\<close>

lemma table_exact_piece:
  assumes "p_text p = s" and "p_seeds p = sds" and "p_first_seed p = 0"
  shows "table_exact hash i (ps @ [p]) tbl = table_exact hash i (ps @ [growing s sds]) tbl"
    and "chain_ok hash p = chain_ok hash (growing s sds)"
proof -
  have key: "seed_key hash p = seed_key hash (growing s sds)" using assms by (simp add: seed_key_def fun_eq_iff)
  then have "hits hash h p = hits hash h (growing s sds)" for h using assms by (simp add: hits_def)
  then show "table_exact hash i (ps @ [p]) tbl = table_exact hash i (ps @ [growing s sds]) tbl"
    by (simp add: table_exact_def exact_candidates_def occurrences_append first_occurrences_append fun_eq_iff)
  show "chain_ok hash p = chain_ok hash (growing s sds)" using assms key by (simp add: chain_ok_def)
qed

section \<open>The window\<close>

definition window_ok :: "line_index \<Rightarrow> bool" where
  "window_ok idx \<longleftrightarrow> (\<forall>p \<in> set (ix_pieces idx). ix_bytes idx \<le> window_bytes + (p_order p + p_start p)
       \<and> p_order p + length (p_text p) \<le> ix_bytes idx)
     \<and> sorted_wrt (\<lambda>p q. p_order p + length (p_text p) \<le> p_order q) (ix_pieces idx)"

definition visible_bytes :: "line_index \<Rightarrow> nat" where
  "visible_bytes idx = (\<Sum>p\<leftarrow>ix_pieces idx. length (p_text p) - p_start p)"

lemma live_pieces_bytes:
  assumes "\<forall>p \<in> set ps. live_ok p" and "\<forall>p \<in> set ps. p_order p + length (p_text p) \<le> n \<and> lo \<le> p_order p + p_start p"
    and "sorted_wrt (\<lambda>p q. p_order p + length (p_text p) \<le> p_order q) ps" and "lo \<le> n"
  shows "(\<Sum>p\<leftarrow>ps. length (p_text p) - p_start p) \<le> n - lo"
  using assms
proof (induction ps arbitrary: lo)
  case (Cons p ps)
  have p: "p_start p \<le> length (p_text p)" "p_order p + length (p_text p) \<le> n" "lo \<le> p_order p + p_start p"
    using Cons.prems(1,2) by (auto simp: live_ok_def boundary_def)
  have "\<forall>q \<in> set ps. p_order p + length (p_text p) \<le> p_order q + p_start q"
    using Cons.prems(3) by (auto intro: trans_le_add1)
  then have "(\<Sum>q\<leftarrow>ps. length (p_text q) - p_start q) \<le> n - (p_order p + length (p_text p))"
    using Cons.IH [of "p_order p + length (p_text p)"] Cons.prems p(2) by simp
  with p show ?case by simp
qed simp

lemma window_bytes_visible:
  assumes "index_ok hash H idx" and "window_ok idx"
  shows "visible_bytes idx \<le> window_bytes"
proof -
  have "visible_bytes idx \<le> ix_bytes idx - (ix_bytes idx - window_bytes)"
    unfolding visible_bytes_def
    using assms by (intro live_pieces_bytes) (auto simp: index_ok_def window_ok_def)
  then show ?thesis by simp
qed

lemma evict_piece_ok:
  assumes "piece_ok H p" and "live_ok p" and "evict_seeds hash i (p\<lparr>p_start := start\<rparr>) tbl = (q, tbl')"
    and "boundary (p_text p) start"
  shows "piece_ok H q \<and> live_ok q \<and> p_start q = start \<and> p_order q = p_order p \<and> p_text q = p_text p"
proof -
  from evict_seeds_frame [OF assms(3)] obtain n where
    q: "q = p\<lparr>p_start := start, p_first_seed := n\<rparr>" and n: "n \<le> length (p_seeds p)"
    "n < length (p_seeds p) \<longrightarrow> start \<le> unat (sd_offset (p_seeds p ! n))"
    using assms(2) by (auto simp: live_ok_def)
  show ?thesis using assms(1,2,4) n by (auto simp: q piece_ok_def live_ok_def)
qed

lemma evict_pieces_ok:
  assumes "\<forall>p \<in> set ps. piece_ok H p \<and> live_ok p"
    and "sorted_wrt (\<lambda>p q. p_order p + length (p_text p) \<le> p_order q) ps"
    and "evict_pieces hash cutoff i ps tbl = (j, qs, tbl')"
  shows "(\<forall>q \<in> set qs. piece_ok H q \<and> live_ok q \<and> cutoff \<le> p_order q + p_start q
       \<and> (\<exists>p \<in> set ps. p_order q = p_order p \<and> p_text q = p_text p \<and> p_source q = p_source p))
     \<and> sorted_wrt (\<lambda>p q. p_order p + length (p_text p) \<le> p_order q) qs"
  using assms
proof (induction ps arbitrary: i tbl)
  case (Cons p ps)
  define start where "start = line_boundary (p_text p) (min (cutoff - p_order p) (length (p_text p)))"
  note start = line_boundary_spec [of "min (cutoff - p_order p) (length (p_text p))" "p_text p", folded start_def]
  have start_ge: "min (cutoff - p_order p) (length (p_text p)) \<le> start" using start(1) by simp
  obtain q tbl1 where q: "evict_seeds hash i (p\<lparr>p_start := start\<rparr>) tbl = (q, tbl1)" by fastforce
  have p: "piece_ok H p" "live_ok p" using Cons.prems(1) by simp_all
  have q_ok: "piece_ok H q \<and> live_ok q \<and> p_start q = start \<and> p_order q = p_order p \<and> p_text q = p_text p"
    using evict_piece_ok [OF p q] start(3) by simp
  have src: "p_source q = p_source p" using evict_seeds_frame [OF q] by auto
  have later: "\<forall>r \<in> set ps. p_order p + length (p_text p) \<le> p_order r" using Cons.prems(2) by simp
  have "p_start p \<le> length (p_text p)" using p(2) by (simp add: live_ok_def boundary_le)
  show ?case
  proof (cases "cutoff \<le> p_order p + p_start p")
    case True
    then have "j = i \<and> qs = p # ps" using Cons.prems(3) by simp
    with Cons.prems(1,2) True later \<open>p_start p \<le> length (p_text p)\<close> show ?thesis by fastforce
  next
    case evict: False
    show ?thesis
    proof (cases "p_first_seed q < length (p_seeds q)")
      case True
      then have qs: "qs = q # ps" using Cons.prems(3) evict q by (simp add: start_def)
      have "p_start q \<le> unat (sd_offset (p_seeds q ! p_first_seed q))"
        using q_ok True by (simp add: live_ok_def)
      moreover have "unat (sd_offset (p_seeds q ! p_first_seed q)) < length (p_text q)"
        using q_ok True by (auto simp: piece_ok_def seed_placed_def)
      ultimately have cut: "cutoff \<le> p_order p + start"
        using q_ok start_ge by (simp add: min_def split: if_splits)
      have "start \<le> length (p_text p)" using start(2) by simp
      with Cons.prems(1,2) q_ok cut later src show ?thesis unfolding qs by fastforce
    next
      case False
      then have "evict_pieces hash cutoff (i + 1) ps tbl1 = (j, qs, tbl')"
        using Cons.prems(3) evict q by (simp add: start_def)
      from Cons.IH [OF _ _ this] Cons.prems(1,2) show ?thesis by auto
    qed
  qed
qed simp

section \<open>Adding a unit\<close>

lemma window_bytes_small: "window_bytes < 2 ^ 32" "0 < threshold"
  by (simp_all add: window_bytes_def threshold_def)

lemma evict_ok:
  assumes "index_ok hash H idx" and "window_ok idx"
  shows "\<exists>idx'. evict hash (idx\<lparr>ix_bytes := ix_bytes idx + n\<rparr>) = idx' \<and> index_ok hash H idx' \<and> window_ok idx'
     \<and> ix_bytes idx' = ix_bytes idx + n
     \<and> (\<forall>q \<in> set (ix_pieces idx'). p_order q + length (p_text q) \<le> ix_bytes idx
          \<and> (\<exists>p \<in> set (ix_pieces idx). p_source q = p_source p))"
proof -
  define moved where "moved = idx\<lparr>ix_bytes := ix_bytes idx + n\<rparr>"
  have old: "\<forall>p \<in> set (ix_pieces idx). p_order p + length (p_text p) \<le> ix_bytes idx"
    and sorted: "sorted_wrt (\<lambda>p q. p_order p + length (p_text p) \<le> p_order q) (ix_pieces idx)"
    using assms(2) by (auto simp: window_ok_def)
  show ?thesis
  proof (cases "ix_bytes moved \<le> window_bytes")
    case True
    have "evict hash moved = moved" using True by (simp add: evict_def)
    moreover have "index_ok hash H moved" using assms(1) by (simp add: index_ok_def moved_def)
    moreover have "window_ok moved" using old sorted True by (fastforce simp: window_ok_def moved_def)
    ultimately show ?thesis using old by (auto simp: moved_def)
  next
    case False
    obtain j qs tbl where e: "evict_pieces hash (ix_bytes moved - window_bytes) (ix_first_piece idx) (ix_pieces idx) (ix_seeds idx) = (j, qs, tbl)"
      by (metis prod_cases3)
    have ok: "\<forall>p \<in> set (ix_pieces idx). piece_ok H p \<and> live_ok p"
      and exact: "table_exact hash (ix_first_piece idx) (ix_pieces idx) (ix_seeds idx)"
      and chain: "list_all (chain_ok hash) (ix_pieces idx)" and first: "0 < ix_first_piece idx"
      using assms(1) by (auto simp: index_ok_def list_all_iff)
    note E = evict_pieces_ok [OF ok sorted e]
    note T = table_exact_evict_pieces [OF exact chain first e]
    define idx' where "idx' = moved\<lparr>ix_first_piece := j, ix_pieces := qs, ix_seeds := tbl\<rparr>"
    have "evict hash moved = idx'" using False e by (simp add: evict_def idx'_def moved_def)
    moreover have "index_ok hash H idx'"
      using E T first by (auto simp: index_ok_def idx'_def list_all_iff)
    moreover have "\<forall>q \<in> set qs. p_order q + length (p_text q) \<le> ix_bytes idx \<and> (\<exists>p \<in> set (ix_pieces idx). p_source q = p_source p)"
      using E old by fastforce
    moreover have "window_ok idx'"
      unfolding window_ok_def
    proof (intro conjI ballI)
      fix q assume "q \<in> set (ix_pieces idx')"
      then have q: "q \<in> set qs" by (simp add: idx'_def)
      with E have "ix_bytes moved - window_bytes \<le> p_order q + p_start q" by blast
      then show "ix_bytes idx' \<le> window_bytes + (p_order q + p_start q)" by (simp add: idx'_def)
      from E q obtain p where "p \<in> set (ix_pieces idx)" "p_order q = p_order p" "p_text q = p_text p" by blast
      with old show "p_order q + length (p_text q) \<le> ix_bytes idx'" by (auto simp: idx'_def moved_def)
    qed (use E in \<open>simp add: idx'_def\<close>)
    ultimately show ?thesis by (auto simp: idx'_def moved_def)
  qed
qed

lemma add_run_ok:
  assumes "index_ok hash H idx" and "window_ok idx" and "H src = Some u" and "visit_ok u v"
    and "add_run hash src accept v (idx, st) = (idx', st')"
  shows "index_ok hash H idx' \<and> window_ok idx'
    \<and> (\<forall>q \<in> set (ix_pieces idx'). p_source q = src \<or> (\<exists>p \<in> set (ix_pieces idx). p_source q = p_source p))"
proof -
  obtain ev where ev: "evict hash (idx\<lparr>ix_bytes := ix_bytes idx + length (rv_text v)\<rparr>) = ev"
    "index_ok hash H ev" "window_ok ev" "ix_bytes ev = ix_bytes idx + length (rv_text v)"
    "\<forall>q \<in> set (ix_pieces ev). p_order q + length (p_text q) \<le> ix_bytes idx \<and> (\<exists>p \<in> set (ix_pieces idx). p_source q = p_source p)"
    using evict_ok [OF assms(1,2)] by blast
  obtain s row start count where r: "retained_run (rv_text v) (rv_row v) (rv_skip v) = (s, row, start, count)"
    by (metis prod_cases4)
  note R = retained_run_ok [OF assms(4) r]
  define sp where "sp = run_span src (rv_rows v) s row"
  obtain ok st1 where gate: "ask_gate accept sp s st = (ok, st1)" by fastforce
  obtain sds tbl where rec: "record_seeds hash (ix_first_piece ev + length (ix_pieces ev)) s 0 row ([], ix_seeds ev) = (sds, tbl)"
    by fastforce
  define p where "p = \<lparr>p_text = s, p_seeds = sds, p_start = 0, p_first_seed = 0, p_source = src,
    p_rows = rv_rows v, p_order = ix_bytes idx + start, p_complete = sp_whole sp\<rparr>"
  show ?thesis
  proof (cases "count = 0 \<or> \<not> ok")
    case True
    then have "idx' = ev"
      using assms(5) by (auto simp: add_run_def Let_def ev(1) r gate [unfolded sp_def] split: if_splits)
    with ev show ?thesis by blast
  next
    case False
    then have idx': "idx' = ev\<lparr>ix_seeds := tbl, ix_pieces := ix_pieces ev @ [p]\<rparr>"
      using assms(5) by (simp add: add_run_def Let_def ev(1) r gate [unfolded sp_def] rec p_def sp_def)
    have first: "0 < ix_first_piece ev" and exact: "table_exact hash (ix_first_piece ev) (ix_pieces ev) (ix_seeds ev)"
      using ev(2) by (simp_all add: index_ok_def)
    have "length s \<le> window_bytes" using R by blast
    then have small: "length s < 2 ^ 32" using window_bytes_small(1) by linarith
    have recorded: "recorded hash (ix_first_piece ev) (ix_pieces ev) s row (length s) (sds, tbl)"
      using record_seeds_ok [OF recorded_start [OF exact] first, of s row row] small rec by simp
    have p_sel: "p_text p = s" "p_seeds p = sds" "p_first_seed p = 0" by (simp_all add: p_def)
    note same = table_exact_piece [OF p_sel]
    have table: "table_exact hash (ix_first_piece ev) (ix_pieces ev @ [p]) tbl" "chain_ok hash p"
      using recorded same by (simp_all add: recorded_def)
    have "s \<noteq> []" using R False by (auto simp: threshold_def)
    then have "0 < row_count s" by (simp flip: length_rows)
    then have whole: "sp_whole sp \<longleftrightarrow> row = 1 \<and> row_count s = length u"
      using assms(4) by (auto simp: sp_def run_span_def visit_ok_def Let_def)
    have "piece_ok H p"
      unfolding piece_ok_def using R assms(3,4) recorded whole
      by (intro exI [of _ u] exI [of _ row]) (auto simp: p_def visit_ok_def recorded_def)
    moreover have "live_ok p" using recorded by (simp add: live_ok_def p_def recorded_def)
    ultimately have index: "index_ok hash H idx'"
      using ev(2) table by (auto simp: index_ok_def idx')
    have len: "length s = length (rv_text v) - start" "start \<le> length (rv_text v)" using R by simp_all
    moreover have "length (rv_text v) \<le> window_bytes + start"
      using R assms(4) by (auto simp: visit_ok_def min_def split: if_splits)
    ultimately have "window_ok idx'"
      using ev(3,4,5) by (fastforce simp: window_ok_def idx' p_def sorted_wrt_append)
    with index ev(5) show ?thesis by (auto simp: idx' p_def)
  qed
qed

lemma add_runs_ok:
  assumes "index_ok hash H idx" and "window_ok idx" and "H src = Some u" and "\<forall>v \<in> set vs. visit_ok u v"
    and "fold (add_run hash src accept) vs (idx, st) = (idx', st')"
  shows "index_ok hash H idx' \<and> window_ok idx'
    \<and> (\<forall>q \<in> set (ix_pieces idx'). p_source q = src \<or> (\<exists>p \<in> set (ix_pieces idx). p_source q = p_source p))"
  using assms
proof (induction vs arbitrary: idx st)
  case (Cons v vs)
  obtain idx1 st1 where one: "add_run hash src accept v (idx, st) = (idx1, st1)" by fastforce
  from add_run_ok [OF Cons.prems(1-3) _ one] Cons.prems(4)
  have "index_ok hash H idx1" "window_ok idx1"
    and src: "\<forall>q \<in> set (ix_pieces idx1). p_source q = src \<or> (\<exists>p \<in> set (ix_pieces idx). p_source q = p_source p)" by simp_all
  with Cons.IH [of idx1 st1] Cons.prems one
  have "index_ok hash H idx' \<and> window_ok idx' \<and>
    (\<forall>q \<in> set (ix_pieces idx'). p_source q = src \<or> (\<exists>p \<in> set (ix_pieces idx1). p_source q = p_source p))" by simp
  with src show ?case by metis
qed auto

text \<open>A unit number nothing refers to yet can be given to the next unit.\<close>

lemma index_ok_numbered:
  assumes "index_ok hash H idx" and "\<forall>p \<in> set (ix_pieces idx). p_source p \<noteq> src"
  shows "index_ok hash (H(src \<mapsto> u)) idx"
  using assms by (simp add: index_ok_def piece_ok_def)

lemma add_unit_ok:
  assumes "index_ok hash H idx" and "window_ok idx" and "\<forall>p \<in> set (ix_pieces idx). p_source p \<noteq> src"
    and "spans_placed (pj_text pj) (pj_spans pj) 0"
    and "add_unit hash src pj accept (idx, st) = ((idx', st'), kept)"
  shows "index_ok hash (H(src \<mapsto> unit_rows pj)) idx' \<and> window_ok idx'
    \<and> (\<forall>q \<in> set (ix_pieces idx'). p_source q = src \<or> (\<exists>p \<in> set (ix_pieces idx). p_source q = p_source p))"
proof -
  have "fold (add_run hash src accept) (visit_runs pj) (idx, st) = (idx', st')"
    using assms(5) by (simp add: add_unit_def Let_def)
  from add_runs_ok [OF index_ok_numbered [OF assms(1,3), of "unit_rows pj"] assms(2) _ visit_runs_ok [OF assms(4)] this]
  show ?thesis by simp
qed

text \<open>Dropping spans of a projection keeps the others placed.\<close>

lemma spans_ok_filter: "spans_ok H s sps \<Longrightarrow> spans_ok H s (filter P sps)"
  by (auto simp: spans_ok_def list_all_iff intro: sorted_wrt_filter)

end
