(* ===== verification/Dedup_Pass.thy ===== *)
theory Dedup_Pass
  imports Dedup_Edits Dedup_Adding
begin

text \<open>
  One pass of the output deduplication module over a model request
  (\<open>modules/outputdeduplication/internal/projection/\<close>): the delivered text of a tool output
  (\<open>Pass.Text\<close>), of an attached source (\<open>Pass.Source\<close>, \<open>Pass.Sources\<close>), the byte edits
  against an earlier unit (\<open>editProjection\<close>) and the token savings they must reach.  The
  tokenizer is the function \<open>tok\<close>, \<open>None\<close> when it fails; nothing depends on its counts.
\<close>

section \<open>Savings\<close>

record savings =
  sv_saved :: int
  sv_failed :: bool

type_synonym tokenizer = "string \<Rightarrow> nat option"

definition count_tokens :: "tokenizer \<Rightarrow> string \<Rightarrow> savings \<Rightarrow> int \<times> savings" where
  "count_tokens tok s sv =
     (if sv_failed sv then (0, sv)
      else case tok s of None \<Rightarrow> (0, sv\<lparr>sv_failed := True\<rparr>) | Some n \<Rightarrow> (int n, sv))"

definition add_savings :: "tokenizer \<Rightarrow> string \<Rightarrow> string \<Rightarrow> savings \<Rightarrow> savings" where
  "add_savings tok before after sv =
     (if before = after \<or> sv_failed sv then sv
      else case count_tokens tok before sv of (original, sv) \<Rightarrow>
           case count_tokens tok after sv of (projected, sv) \<Rightarrow>
             sv\<lparr>sv_saved := sv_saved sv + (original - projected)\<rparr>)"

definition savings_result :: "savings \<Rightarrow> int \<times> bool" where
  "savings_result sv = (if sv_failed sv then (0, False) else (sv_saved sv, True))"

section \<open>References\<close>

definition minimum_token_savings :: int where
  "minimum_token_savings = 32"

record result =
  rs_text :: string
  rs_occurrences :: nat
  rs_repeated_lines :: nat
  rs_body_bytes :: nat
  rs_repeated_bytes :: nat

definition empty_result :: result where
  "empty_result = \<lparr>rs_text = '''', rs_occurrences = 0, rs_repeated_lines = 0, rs_body_bytes = 0, rs_repeated_bytes = 0\<rparr>"

definition reference_text :: "span \<Rightarrow> string \<Rightarrow> string" where
  "reference_text sp run =
     ''See O'' @ nat_dec (sp_source sp)
     @ (if sp_whole sp then ''''
        else if sp_first sp = sp_last sp then '':'' @ nat_dec (sp_first sp)
        else '':'' @ nat_dec (sp_first sp) @ ''-'' @ nat_dec (sp_last sp))
     @ (if suffix [newline] run then [newline] else '''')"

definition anchor_text :: "nat \<Rightarrow> string" where
  "anchor_text src = ''O'' @ nat_dec src @ '':'' @ [newline]"

definition marker_lines :: "string \<Rightarrow> nat" where
  "marker_lines run = length (filter (\<lambda>c. c = newline) (trim_suffix [newline] run)) + 1"

record pass =
  ps_index :: line_index
  ps_sources :: nat
  ps_savings :: savings
  ps_exact :: "string \<rightharpoonup> string"

definition new_pass :: "savings \<Rightarrow> pass" where
  "new_pass sv = \<lparr>ps_index = new_index, ps_sources = 0, ps_savings = sv, ps_exact = Map.empty\<rparr>"

definition close_pass :: "pass \<Rightarrow> pass" where
  "close_pass ps = ps\<lparr>ps_index := close_index (ps_index ps)\<rparr>"

section \<open>Byte edits\<close>

text \<open>\<open>json.Marshal\<close> of a string: an error when it is not UTF-8, no escapes for HTML.\<close>

definition hex_digit :: "nat \<Rightarrow> char" where
  "hex_digit n = (if n < 10 then digit_char n else char_of (87 + n))"

definition escape_char :: "char \<Rightarrow> string" where
  "escape_char c =
     (if c = CHR 0x22 \<or> c = CHR 0x5C then [CHR 0x5C, c]
      else if c = CHR 0x08 then [CHR 0x5C, CHR ''b'']
      else if c = CHR 0x0C then [CHR 0x5C, CHR ''f'']
      else if c = CHR 0x0A then [CHR 0x5C, CHR ''n'']
      else if c = CHR 0x0D then [CHR 0x5C, CHR ''r'']
      else if c = CHR 0x09 then [CHR 0x5C, CHR ''t'']
      else if byte c < 0x20
        then [CHR 0x5C, CHR ''u'', CHR ''0'', CHR ''0'', hex_digit (byte c div 16), hex_digit (byte c mod 16)]
      else [c])"

definition json_string :: "string \<Rightarrow> string option" where
  "json_string s = (if valid_utf8 s then Some ([CHR 0x22] @ concat (map escape_char s) @ [CHR 0x22]) else None)"

definition json_numbers :: "nat list \<Rightarrow> string" where
  "json_numbers ns = ''['' @ join '','' (map nat_dec ns) @ '']''"

definition insertion_positions :: "byte_edit list \<Rightarrow> string \<Rightarrow> nat list" where
  "insertion_positions edits s = map ed_start (filter (\<lambda>e. ed_start e = ed_end e \<and> ed_text e = s) edits)"

text \<open>The lines of an edit list; equal insertions share one line at their first position.\<close>

fun edit_lines :: "byte_edit list \<Rightarrow> byte_edit list \<Rightarrow> string option" where
  "edit_lines edits [] = Some ''''"
| "edit_lines edits (e # es) =
     (let ps = insertion_positions edits (ed_text e); shared = ed_start e = ed_end e \<and> 1 < length ps
      in if shared \<and> ed_start e \<noteq> hd ps then edit_lines edits es
         else case json_string (ed_text e) of
             None \<Rightarrow> None
           | Some payload \<Rightarrow>
               map_option (\<lambda>rest.
                 (if shared then ''['' @ json_numbers ps @ '','' @ payload @ '']''
                  else ''['' @ nat_dec (ed_start e) @ '','' @ nat_dec (ed_end e) @ '','' @ payload @ '']'')
                 @ [newline] @ rest) (edit_lines edits es))"

definition edit_text :: "string \<Rightarrow> nat \<Rightarrow> byte_edit list \<Rightarrow> string option" where
  "edit_text header src edits =
     map_option (\<lambda>ls. header @ ''See O'' @ nat_dec src
       @ '' with byte edits: [start,end,text] replaces 0-based UTF-8 [start,end); [[offsets],text] inserts; JSON text; other bytes unchanged:''
       @ [newline] @ ls) (edit_lines edits edits)"

record edit_search =
  es_work :: int
  es_best :: result
  es_best_tokens :: int
  es_original :: int
  es_baseline :: bool
  es_savings :: savings

text \<open>The tokens a candidate costs against the best text so far and the plain body.\<close>

definition weigh_edit :: "tokenizer \<Rightarrow> string \<Rightarrow> string \<Rightarrow> string \<Rightarrow> string \<Rightarrow> nat \<Rightarrow> nat \<Rightarrow> edit_search \<Rightarrow> edit_search" where
  "weigh_edit tok header body baseline candidate repeated lines st =
     (let st = (if es_baseline st then st
            else case count_tokens tok baseline (es_savings st) of (n, sv) \<Rightarrow>
              st\<lparr>es_best_tokens := n, es_baseline := True, es_savings := sv\<rparr>)
      in case count_tokens tok candidate (es_savings st) of (tokens, sv) \<Rightarrow>
        let st = st\<lparr>es_savings := sv\<rparr>
        in if sv_failed sv \<or> es_best_tokens st \<le> tokens then st
           else let st = (if 0 \<le> es_original st then st
                 else case count_tokens tok (header @ body) (es_savings st) of (n, sv) \<Rightarrow>
                   st\<lparr>es_original := n, es_savings := sv\<rparr>)
             in if sv_failed (es_savings st) \<or> es_original st - tokens < minimum_token_savings then st
                else st\<lparr>es_best_tokens := tokens,
                  es_best := \<lparr>rs_text = candidate, rs_occurrences = 1, rs_repeated_lines = lines,
                    rs_body_bytes = length body, rs_repeated_bytes = repeated\<rparr>\<rparr>)"

text \<open>The visitor of the complete units.\<close>

definition try_edit :: "tokenizer \<Rightarrow> string \<Rightarrow> string \<Rightarrow> string \<Rightarrow> nat \<times> string \<Rightarrow> edit_search \<Rightarrow> edit_search" where
  "try_edit tok header body baseline unit st =
     (case unit of (src, raw) \<Rightarrow>
      if es_work st \<le> 0 \<or> \<not> valid_utf8 raw then st
      else case plan_edits raw body (es_work st) of (planned, w) \<Rightarrow>
        let st = st\<lparr>es_work := w\<rparr>
        in case planned of
            None \<Rightarrow> st
          | Some edits \<Rightarrow>
              if edits = [] then st
              else case reconstruct raw body edits of (rebuilt, repeated, lines) \<Rightarrow>
                if rebuilt \<noteq> body \<or> repeated < threshold then st
                else case edit_text header src edits of
                    None \<Rightarrow> st
                  | Some candidate \<Rightarrow> weigh_edit tok header body baseline candidate repeated lines st)"

definition edit_projection :: "tokenizer \<Rightarrow> string \<Rightarrow> string \<Rightarrow> string \<Rightarrow> line_index \<Rightarrow> savings \<Rightarrow> result option \<times> savings" where
  "edit_projection tok header body baseline idx sv =
     (if sv_failed sv \<or> window_bytes < length body \<or> \<not> valid_utf8 body then (None, sv)
      else let st = fold (try_edit tok header body baseline) (complete_units idx edit_candidates)
             \<lparr>es_work = edit_work, es_best = empty_result, es_best_tokens = 0, es_original = - 1,
              es_baseline = False, es_savings = sv\<rparr>
           in (if 0 < es_work st \<and> \<not> sv_failed (es_savings st) \<and> rs_text (es_best st) \<noteq> ''''
               then Some (es_best st) else None, es_savings st))"

section \<open>Text\<close>

text \<open>The spans worth their reference, in order.\<close>

fun accept_spans :: "tokenizer \<Rightarrow> string \<Rightarrow> span list \<Rightarrow> savings \<Rightarrow> span list \<times> savings" where
  "accept_spans tok body [] sv = ([], sv)"
| "accept_spans tok body (sp # sps) sv =
     (let run = segment body (sp_start sp) (sp_end sp)
      in case count_tokens tok run sv of (a, sv) \<Rightarrow>
         case count_tokens tok (reference_text sp run) sv of (b, sv) \<Rightarrow>
         case accept_spans tok body sps sv of (rest, sv') \<Rightarrow>
           ((if \<not> sv_failed sv \<and> minimum_token_savings \<le> a - b then sp # rest else rest), sv'))"

text \<open>The admission gate of a unit, with its memory.\<close>

record gate_state =
  gt_anchor :: string
  gt_anchor_tokens :: int
  gt_admissions :: "span \<rightharpoonup> bool"
  gt_savings :: savings

definition admit_run :: "tokenizer \<Rightarrow> span \<Rightarrow> string \<Rightarrow> gate_state \<Rightarrow> bool \<times> gate_state" where
  "admit_run tok sp run g =
     (case gt_admissions g sp of
        Some admitted \<Rightarrow> (admitted, g)
      | None \<Rightarrow>
          let g = (if gt_anchor g \<noteq> '''' then g
                else case count_tokens tok (anchor_text (sp_source sp)) (gt_savings g) of (n, sv) \<Rightarrow>
                  g\<lparr>gt_anchor := anchor_text (sp_source sp), gt_anchor_tokens := n, gt_savings := sv\<rparr>)
          in case count_tokens tok run (gt_savings g) of (a, sv) \<Rightarrow>
             case count_tokens tok (reference_text sp run) sv of (b, sv) \<Rightarrow>
               let admitted = (\<not> sv_failed sv \<and> minimum_token_savings \<le> a - b - gt_anchor_tokens g)
               in (admitted, g\<lparr>gt_admissions := (gt_admissions g)(sp \<mapsto> admitted), gt_savings := sv\<rparr>))"

definition new_gate :: "savings \<Rightarrow> gate_state" where
  "new_gate sv = \<lparr>gt_anchor = '''', gt_anchor_tokens = 0, gt_admissions = Map.empty, gt_savings = sv\<rparr>"

fun marked_from :: "string \<Rightarrow> span list \<Rightarrow> nat \<Rightarrow> string" where
  "marked_from body [] start = drop start body"
| "marked_from body (sp # sps) start =
     segment body start (sp_start sp) @ reference_text sp (segment body (sp_start sp) (sp_end sp))
     @ marked_from body sps (sp_end sp)"

definition span_bytes :: "span list \<Rightarrow> nat" where
  "span_bytes sps = sum_list (map (\<lambda>sp. sp_end sp - sp_start sp) sps)"

definition span_lines :: "string \<Rightarrow> span list \<Rightarrow> nat" where
  "span_lines body sps = sum_list (map (\<lambda>sp. marker_lines (segment body (sp_start sp) (sp_end sp))) sps)"

definition pass_text :: "hashing \<Rightarrow> tokenizer \<Rightarrow> string \<Rightarrow> string \<Rightarrow> pass \<Rightarrow> (result \<times> pass) option" where
  "pass_text hash tok header body ps =
     (if length body < threshold
      then Some (empty_result\<lparr>rs_text := header @ body, rs_body_bytes := length body\<rparr>, ps)
      else case project hash (ps_index ps) body of
          None \<Rightarrow> None
        | Some found \<Rightarrow>
            case accept_spans tok body (pj_spans found) (ps_savings ps) of (sps, sv) \<Rightarrow>
            let pj = found\<lparr>pj_spans := sps\<rparr>; repeated = span_bytes sps; src = ps_sources ps + 1;
                gate = Some (admit_run tok)
            in case (if repeated < length body then can_add src pj gate (new_gate sv) else (False, new_gate sv))
               of (add, g) \<Rightarrow>
               let projected = header @ (if add then gt_anchor g else '''') @ marked_from body sps 0
               in case edit_projection tok header body projected (ps_index ps) (gt_savings g) of
                    (Some edited, sv') \<Rightarrow> Some (edited, ps\<lparr>ps_savings := sv'\<rparr>)
                  | (None, sv') \<Rightarrow>
                      (let r = \<lparr>rs_text = projected, rs_occurrences = (if sps = [] then 0 else 1),
                             rs_repeated_lines = span_lines body sps, rs_body_bytes = length body,
                             rs_repeated_bytes = repeated\<rparr>
                       in if repeated < length body
                          then case add_unit hash src pj gate (ps_index ps, g\<lparr>gt_savings := sv'\<rparr>) of ((idx, g'), kept) \<Rightarrow>
                            Some (r, ps\<lparr>ps_index := idx, ps_sources := (if add then src else ps_sources ps),
                              ps_savings := gt_savings g'\<rparr>)
                          else Some (r, ps\<lparr>ps_savings := sv'\<rparr>)))"

section \<open>Sources\<close>

definition repeated_source :: "string \<Rightarrow> string \<Rightarrow> string \<Rightarrow> result" where
  "repeated_source header body reference =
     \<lparr>rs_text = header @ reference, rs_occurrences = 1, rs_repeated_lines = marker_lines body,
      rs_body_bytes = length body, rs_repeated_bytes = length body\<rparr>"

definition whole_span :: "nat \<Rightarrow> span" where
  "whole_span src = \<lparr>sp_start = 0, sp_end = 0, sp_source = src, sp_first = 0, sp_last = 0, sp_whole = True\<rparr>"

definition exact_reference :: "pass \<Rightarrow> string \<Rightarrow> string" where
  "exact_reference ps body = (case ps_exact ps body of None \<Rightarrow> '''' | Some r \<Rightarrow> r)"

definition pass_source :: "hashing \<Rightarrow> tokenizer \<Rightarrow> string \<Rightarrow> string \<Rightarrow> pass \<Rightarrow> (result \<times> pass) option" where
  "pass_source hash tok header body ps =
     (if body = '''' then Some (empty_result\<lparr>rs_text := header\<rparr>, ps)
      else if exact_reference ps body \<noteq> '''' then Some (repeated_source header body (exact_reference ps body), ps)
      else case pass_text hash tok header body ps of
          None \<Rightarrow> None
        | Some (r, ps') \<Rightarrow>
            if rs_repeated_bytes r \<noteq> 0 then Some (r, ps')
            else let fresh = (ps_sources ps' = ps_sources ps);
                     n = (if fresh then ps_sources ps' + 1 else ps_sources ps')
                 in Some (if fresh then r\<lparr>rs_text := header @ anchor_text n @ body\<rparr> else r,
                      ps'\<lparr>ps_sources := n, ps_exact := (ps_exact ps')(body \<mapsto> reference_text (whole_span n) body)\<rparr>))"

text \<open>The chunks of one source; \<open>None\<close> for a header that is missing, as indexing panics.\<close>

fun pass_chunks :: "hashing \<Rightarrow> tokenizer \<Rightarrow> string list \<Rightarrow> string list \<Rightarrow> pass \<Rightarrow> (result list \<times> string list \<times> pass) option" where
  "pass_chunks hash tok hs [] ps = Some ([], [], ps)"
| "pass_chunks hash tok [] (b # bs) ps = None"
| "pass_chunks hash tok (h # hs) (b # bs) ps =
     (case pass_source hash tok h b ps of
        None \<Rightarrow> None
      | Some (r, ps') \<Rightarrow>
          let reference = exact_reference ps' b
          in map_option (\<lambda>(rs, refs, ps''). (r # rs,
                 (if reference \<noteq> '''' then [trim_suffix [newline] reference] else []) @ refs, ps''))
               (pass_chunks hash tok hs bs ps'))"

fun repeated_chunks :: "string list \<Rightarrow> string list \<Rightarrow> string \<Rightarrow> result list option" where
  "repeated_chunks hs [] reference = Some []"
| "repeated_chunks [] (b # bs) reference = None"
| "repeated_chunks (h # hs) (b # bs) reference =
     map_option (Cons (repeated_source h b reference)) (repeated_chunks hs bs '''')"

definition pass_sources :: "hashing \<Rightarrow> tokenizer \<Rightarrow> string list \<Rightarrow> string list \<Rightarrow> pass \<Rightarrow> (result list \<times> pass) option" where
  "pass_sources hash tok headers bodies ps =
     (let whole = concat bodies; reference = exact_reference ps whole
      in if reference \<noteq> ''''
         then (case (if bodies = [] then None else repeated_chunks headers bodies reference) of
                 None \<Rightarrow> None | Some rs \<Rightarrow> Some (rs, ps))
         else case pass_chunks hash tok headers bodies ps of
             None \<Rightarrow> None
           | Some (rs, refs, ps') \<Rightarrow>
               Some (rs, if 1 < length bodies \<and> length refs = length bodies
                 then ps'\<lparr>ps_exact := (ps_exact ps')(whole \<mapsto> join [newline] refs @ (if suffix [newline] whole then [newline] else ''''))\<rparr>
                 else ps'))"

end
