(* ===== verification/Dedup_Edit_Search.thy ===== *)
theory Dedup_Edit_Search
  imports Dedup_Edits
begin

text \<open>
  The frontier search is a correct one: a completed row holds reachable points, the search
  can only end on the diagonal of the two lengths, and the walk back along the trace is a
  path of steps that turns the first text into the second.
\<close>

section \<open>Points of the frontier\<close>

text \<open>The diagonals of a round.\<close>

definition on_row :: "nat \<Rightarrow> int \<Rightarrow> bool" where
  "on_row d k \<longleftrightarrow> - int d \<le> k \<and> k \<le> int d \<and> even (int d - k)"

text \<open>A point \<open>(x, x-k)\<close> at the end of a snake from the start of its diagonal.\<close>

definition point_ok :: "string list \<Rightarrow> string list \<Rightarrow> int list list \<Rightarrow> nat \<Rightarrow> int \<Rightarrow> int \<Rightarrow> bool" where
  "point_ok xs ys trace d k x \<longleftrightarrow> (let x0 = frontier_start trace (int d) k in
     0 \<le> x0 \<and> 0 \<le> x0 - k \<and> x0 \<le> x
     \<and> (\<forall>i. x0 \<le> i \<and> i < x \<longrightarrow> i < int (length xs) \<and> i - k < int (length ys) \<and> xs ! nat i = ys ! nat (i - k)))"

definition at_end :: "string list \<Rightarrow> string list \<Rightarrow> int \<Rightarrow> int \<Rightarrow> bool" where
  "at_end xs ys k x \<longleftrightarrow> int (length xs) \<le> x \<and> int (length ys) \<le> x - k"

definition row_ok :: "string list \<Rightarrow> string list \<Rightarrow> int list list \<Rightarrow> nat \<Rightarrow> int list \<Rightarrow> bool" where
  "row_ok xs ys trace d v \<longleftrightarrow> length v = 2 * d + 1
     \<and> (\<forall>k. on_row d k \<longrightarrow> point_ok xs ys trace d k (frontier_at v (int d) k) \<and> \<not> at_end xs ys k (frontier_at v (int d) k))"

definition trace_ok :: "string list \<Rightarrow> string list \<Rightarrow> int list list \<Rightarrow> bool" where
  "trace_ok xs ys trace \<longleftrightarrow> (\<forall>d < length trace. row_ok xs ys trace d (trace ! d))"

abbreviation reached :: "int list list \<Rightarrow> nat \<Rightarrow> int \<Rightarrow> int" where
  "reached trace d k \<equiv> frontier_at (trace ! d) (int d) k"

lemma on_row_diagonals: "on_row d k \<longleftrightarrow> k \<in> set (diagonals d)"
proof
  assume k: "on_row d k"
  then have "even (int d - k)" unfolding on_row_def by blast
  then obtain m where m: "int d - k = 2 * m" by (rule evenE)
  with k have "nat (int d - m) < d + 1" "k = 2 * int (nat (int d - m)) - int d" by (auto simp: on_row_def)
  then show "k \<in> set (diagonals d)" unfolding diagonals_def set_map by (intro image_eqI [where x = "nat (int d - m)"]) auto
qed (auto simp: diagonals_def on_row_def)

lemma on_row_0: "on_row 0 k \<longleftrightarrow> k = 0"
  by (auto simp: on_row_def)

lemma on_row_neighbours:
  assumes "on_row (Suc d) k"
  shows "k \<noteq> - int (Suc d) \<Longrightarrow> on_row d (k - 1)" and "k \<noteq> int (Suc d) \<Longrightarrow> on_row d (k + 1)"
proof -
  have "even (int (Suc d) - k)" using assms unfolding on_row_def by blast
  then obtain m where m: "int (Suc d) - k = 2 * m" by (rule evenE)
  have e: "int d - (k - 1) = 2 * m" "int d - (k + 1) = 2 * (m - 1)" using m by simp_all
  have bounds: "- int (Suc d) \<le> k" "k \<le> int (Suc d)" using assms by (simp_all add: on_row_def)
  show "on_row d (k - 1)" if "k \<noteq> - int (Suc d)"
    unfolding on_row_def e(1) using that bounds m by simp presburger
  show "on_row d (k + 1)" if "k \<noteq> int (Suc d)"
    unfolding on_row_def e(2) using that bounds m by simp presburger
qed

lemma on_row_within: "on_row d k \<Longrightarrow> on_row (Suc d) (k - 1) \<and> on_row (Suc d) (k + 1)"
  by (auto simp: on_row_def)

text \<open>The start of a diagonal is the further of its two neighbours.\<close>

lemma frontier_start_Suc:
  "frontier_start trace (int (Suc d)) k =
     (if comes_down (trace ! d) (int (Suc d)) k then reached trace d (k + 1) else reached trace d (k - 1) + 1)"
  by (simp add: frontier_start_def Let_def)

lemma comes_down_row:
  assumes "on_row (Suc d) k"
  shows "comes_down (trace ! d) (int (Suc d)) k \<Longrightarrow> on_row d (k + 1)"
    and "\<not> comes_down (trace ! d) (int (Suc d)) k \<Longrightarrow> on_row d (k - 1)"
  using on_row_neighbours [OF assms] by (auto simp: comes_down_def)

lemma frontier_start_max:
  assumes "on_row (Suc d) k"
  shows "on_row d (k + 1) \<Longrightarrow> reached trace d (k + 1) \<le> frontier_start trace (int (Suc d)) k"
    and "on_row d (k - 1) \<Longrightarrow> reached trace d (k - 1) + 1 \<le> frontier_start trace (int (Suc d)) k"
proof -
  show "reached trace d (k + 1) \<le> frontier_start trace (int (Suc d)) k" if "on_row d (k + 1)"
    using that unfolding frontier_start_Suc comes_down_def by (auto simp: on_row_def)
  show "reached trace d (k - 1) + 1 \<le> frontier_start trace (int (Suc d)) k" if "on_row d (k - 1)"
    using that unfolding frontier_start_Suc comes_down_def by (auto simp: on_row_def)
qed

section \<open>Where the search ends\<close>

lemma point_start:
  assumes "point_ok xs ys trace d k x" and "int (length xs) < x \<or> int (length ys) < x - k"
  shows "frontier_start trace (int d) k = x"
proof (rule ccontr)
  assume "frontier_start trace (int d) k \<noteq> x"
  with assms(1) have "frontier_start trace (int d) k \<le> x - 1" by (simp add: point_ok_def Let_def)
  with assms(1) have "x - 1 < int (length xs)" "x - 1 - k < int (length ys)"
    unfolding point_ok_def Let_def by (metis zle_diff1_eq diff_add_cancel zless_add1_eq)+
  with assms(2) show False by linarith
qed

lemma reached_point:
  assumes "trace_ok xs ys trace" and "d < length trace" and "on_row d k"
  shows "point_ok xs ys trace d k (reached trace d k)" and "\<not> at_end xs ys k (reached trace d k)"
  using assms by (auto simp: trace_ok_def row_ok_def)

lemma point_ge_start: "point_ok xs ys trace d k x \<Longrightarrow> frontier_start trace (int d) k \<le> x"
  by (simp add: point_ok_def Let_def)

text \<open>A point past the first text has a point one column to the left in the row before.\<close>

lemma past_right:
  assumes trace: "trace_ok xs ys trace"
  shows "d \<le> length trace \<Longrightarrow> on_row d k \<Longrightarrow> point_ok xs ys trace d k x \<Longrightarrow> int (length xs) < x
    \<Longrightarrow> \<exists>e. d = Suc e \<and> on_row e (k - 1) \<and> x - 1 \<le> reached trace e (k - 1)"
proof (induction d arbitrary: k x rule: less_induct)
  case (less d)
  note start = point_start [OF less.prems(3)]
  show ?case
  proof (cases d)
    case 0
    with start less.prems(4) show ?thesis by (simp add: frontier_start_def)
  next
    case (Suc e)
    show ?thesis
    proof (cases "comes_down (trace ! e) (int (Suc e)) k")
      case True
      have up: "on_row e (k + 1)" using comes_down_row(1) less.prems(2) True Suc by blast
      have x: "reached trace e (k + 1) = x" using start less.prems(4) True Suc frontier_start_Suc [of trace e k] by simp
      have len: "e < length trace" using less.prems(1) Suc by simp
      from less.IH [of e "k + 1" x] Suc up reached_point(1) [OF trace len up] x less.prems(4) len
      obtain f where f: "e = Suc f" "on_row f k" "x - 1 \<le> reached trace f k" by auto
      have left: "on_row e (k - 1)" using on_row_within f(1,2) by blast
      have "reached trace f k \<le> frontier_start trace (int e) (k - 1)"
        using frontier_start_max(1) [of f "k - 1" trace] f left by simp
      also have "\<dots> \<le> reached trace e (k - 1)"
        using point_ge_start reached_point(1) [OF trace len left] by blast
      finally show ?thesis using f(3) left Suc by simp
    next
      case False
      then show ?thesis
        using comes_down_row(2) less.prems(2) Suc start less.prems(4) frontier_start_Suc [of trace e k] by auto
    qed
  qed
qed

lemma past_below:
  assumes trace: "trace_ok xs ys trace"
  shows "d \<le> length trace \<Longrightarrow> on_row d k \<Longrightarrow> point_ok xs ys trace d k x \<Longrightarrow> int (length ys) < x - k
    \<Longrightarrow> \<exists>e. d = Suc e \<and> on_row e (k + 1) \<and> x \<le> reached trace e (k + 1)"
proof (induction d arbitrary: k x rule: less_induct)
  case (less d)
  note start = point_start [OF less.prems(3)]
  show ?case
  proof (cases d)
    case 0
    with start less.prems(2,4) show ?thesis by (simp add: frontier_start_def on_row_0)
  next
    case (Suc e)
    show ?thesis
    proof (cases "comes_down (trace ! e) (int (Suc e)) k")
      case True
      then show ?thesis
        using comes_down_row(1) less.prems(2) Suc start less.prems(4) frontier_start_Suc [of trace e k] by auto
    next
      case False
      have up: "on_row e (k - 1)" using comes_down_row(2) less.prems(2) False Suc by blast
      have x: "reached trace e (k - 1) = x - 1" using start less.prems(4) False Suc frontier_start_Suc [of trace e k] by simp
      have len: "e < length trace" using less.prems(1) Suc by simp
      from less.IH [of e "k - 1" "x - 1"] Suc up reached_point(1) [OF trace len up] x less.prems(4) len
      obtain f where f: "e = Suc f" "on_row f k" "x - 1 \<le> reached trace f k" by auto
      have right: "on_row e (k + 1)" using on_row_within f(1,2) by blast
      have "reached trace f k + 1 \<le> frontier_start trace (int e) (k + 1)"
        using frontier_start_max(2) [of f "k + 1" trace] f right by simp
      also have "\<dots> \<le> reached trace e (k + 1)"
        using point_ge_start reached_point(1) [OF trace len right] by blast
      finally show ?thesis using f(3) right Suc by simp
    qed
  qed
qed

lemma end_on_diagonal:
  assumes trace: "trace_ok xs ys trace" and "d \<le> length trace" and "on_row d k" and "point_ok xs ys trace d k x"
    and "at_end xs ys k x"
  shows "x = int (length xs) \<and> x - k = int (length ys)"
proof (rule ccontr)
  assume no: "\<not> ?thesis"
  then have "int (length xs) < x \<or> int (length ys) < x - k" using assms(5) unfolding at_end_def by linarith
  then consider "int (length xs) < x" | "int (length ys) < x - k" by blast
  then show False
  proof cases
    case 1
    from past_right [OF trace assms(2-4) this] obtain e where
      e: "d = Suc e" "on_row e (k - 1)" "x - 1 \<le> reached trace e (k - 1)" by blast
    then have "at_end xs ys (k - 1) (reached trace e (k - 1))" using 1 assms(5) by (simp add: at_end_def)
    with reached_point(2) [OF trace _ e(2)] e(1) assms(2) show False by simp
  next
    case 2
    from past_below [OF trace assms(2-4) this] obtain e where
      e: "d = Suc e" "on_row e (k + 1)" "x \<le> reached trace e (k + 1)" by blast
    then have "at_end xs ys (k + 1) (reached trace e (k + 1))" using 2 assms(5) by (simp add: at_end_def)
    with reached_point(2) [OF trace _ e(2)] e(1) assms(2) show False by simp
  qed
qed

section \<open>The rows the search computes\<close>

lemma snake_spec:
  assumes "snake as bs work = (n, w, ok)"
  shows "n \<le> length as \<and> n \<le> length bs \<and> (\<forall>i < n. as ! i = bs ! i)"
  using assms
proof (induction as bs work arbitrary: n w ok rule: snake.induct)
  case (1 a as b bs work)
  show ?case
  proof (cases "a = b \<and> \<not> work - 1 \<le> 0")
    case True
    obtain m v ok' where m: "snake as bs (work - 1) = (m, v, ok')" by (metis prod_cases3)
    from 1(1) [OF _ _ m] True have "m \<le> length as" "m \<le> length bs" "\<forall>i < m. as ! i = bs ! i" by simp_all
    moreover have "n = Suc m" using 1(2) True m by simp
    ultimately show ?thesis using True by (auto simp: less_Suc_eq_0_disj)
  next
    case False
    with 1(2) show ?thesis by (auto split: if_splits)
  qed
qed auto

lemma snake_point:
  assumes "snake (drop (nat x0) xs) (drop (nat (x0 - k)) ys) work = (n, w, ok)"
    and "x0 = frontier_start trace (int d) k" and "0 \<le> x0" and "0 \<le> x0 - k"
  shows "point_ok xs ys trace d k (x0 + int n)"
proof -
  note S = snake_spec [OF assms(1)]
  have "i < int (length xs) \<and> i - k < int (length ys) \<and> xs ! nat i = ys ! nat (i - k)" if i: "x0 \<le> i" "i < x0 + int n" for i
  proof -
    define j where "j = nat (i - x0)"
    have j: "j < n" "nat i = nat x0 + j" "nat (i - k) = nat (x0 - k) + j" using i assms(3,4) by (auto simp: j_def)
    then have lt: "j < length xs - nat x0" "j < length ys - nat (x0 - k)" using S by auto
    have "drop (nat x0) xs ! j = drop (nat (x0 - k)) ys ! j" using S j(1) by blast
    then show ?thesis using j(2,3) lt i assms(3,4) by auto
  qed
  then show ?thesis using assms(2-4) by (simp add: point_ok_def Let_def)
qed

lemma frontier_start_ok:
  assumes "trace_ok xs ys trace" and "d \<le> length trace" and "on_row d k"
  shows "0 \<le> frontier_start trace (int d) k" and "0 \<le> frontier_start trace (int d) k - k"
proof -
  have "0 \<le> frontier_start trace (int d) k \<and> 0 \<le> frontier_start trace (int d) k - k"
  proof (cases d)
    case 0
    with assms(3) show ?thesis by (simp add: frontier_start_def on_row_0)
  next
    case (Suc e)
    have "0 \<le> reached trace e j \<and> 0 \<le> reached trace e j - j" if "on_row e j" for j
      using reached_point(1) [OF assms(1) _ that] assms(2) Suc by (auto simp: point_ok_def Let_def)
    from this [of "k + 1"] this [of "k - 1"] comes_down_row [of e k trace] assms(3) Suc
    show ?thesis unfolding Suc frontier_start_Suc by auto
  qed
  then show "0 \<le> frontier_start trace (int d) k" "0 \<le> frontier_start trace (int d) k - k" by simp_all
qed

text \<open>The diagonals already visited hold their points; the end may only be the one visited last.\<close>

definition visited :: "string list \<Rightarrow> string list \<Rightarrow> int list list \<Rightarrow> nat \<Rightarrow> int set \<Rightarrow> int list \<Rightarrow> bool" where
  "visited xs ys trace d K v \<longleftrightarrow> length v = 2 * d + 1
     \<and> (\<forall>k \<in> K. point_ok xs ys trace d k (frontier_at v (int d) k) \<and> \<not> at_end xs ys k (frontier_at v (int d) k))"

lemma frontier_at_set:
  assumes "length v = 2 * d + 1" and "on_row d k" and "on_row d j"
  shows "frontier_at (v[nat (int d + k) := x]) (int d) j = (if j = k then x else frontier_at v (int d) j)"
proof -
  have "nat (int d + k) = nat (int d + j) \<longleftrightarrow> j = k" "nat (int d + k) < length v"
    using assms by (auto simp: on_row_def)
  then show ?thesis by (simp add: frontier_at_def nth_list_update)
qed

lemma frontier_row_ok:
  assumes trace: "trace_ok xs ys trace" and d: "d \<le> length trace"
    and "\<forall>k \<in> set ks. on_row d k" and "\<forall>k \<in> K. on_row d k" and "distinct ks" and "K \<inter> set ks = {}"
    and "visited xs ys trace d K v"
    and "frontier_row xs ys trace (int d) ks v work = (r, w)"
  shows "case r of RowStop \<Rightarrow> True
    | RowDone u \<Rightarrow> visited xs ys trace d (K \<union> set ks) u
    | RowFound u \<Rightarrow> \<exists>k. on_row d k \<and> point_ok xs ys trace d k (frontier_at u (int d) k) \<and> at_end xs ys k (frontier_at u (int d) k)"
  using assms(3-)
proof (induction ks arbitrary: K v work)
  case (Cons k ks)
  define x0 where "x0 = frontier_start trace (int d) k"
  have k: "on_row d k" using Cons.prems(1) by simp
  obtain n w1 ok where s: "snake (drop (nat x0) xs) (drop (nat (x0 - k)) ys) work = (n, w1, ok)" by (metis prod_cases3)
  define x where "x = x0 + int n"
  define u where "u = v[nat (int d + k) := x]"
  have point: "point_ok xs ys trace d k x"
    unfolding x_def using snake_point [OF s x0_def] frontier_start_ok [OF trace d k] by (simp add: x0_def)
  have len: "length v = 2 * d + 1" using Cons.prems(5) by (simp add: visited_def)
  have at: "frontier_at u (int d) j = (if j = k then x else frontier_at v (int d) j)" if "on_row d j" for j
    using frontier_at_set [OF len k that] by (simp add: u_def)
  consider "\<not> ok" | "ok" "at_end xs ys k x" | "ok" "\<not> at_end xs ys k x" by blast
  then show ?case
  proof cases
    case 1
    then show ?thesis using Cons.prems(6) s by (simp add: x0_def [symmetric] Let_def split: row_result.split)
  next
    case 2
    then have "r = RowFound u"
      using Cons.prems(6) s by (simp add: x0_def [symmetric] Let_def u_def x_def at_end_def)
    with at [OF k] k point 2 show ?thesis by auto
  next
    case 3
    then have rest: "frontier_row xs ys trace (int d) ks u w1 = (r, w)"
      using Cons.prems(6) s by (auto simp: x0_def [symmetric] Let_def u_def x_def at_end_def)
    have "visited xs ys trace d (insert k K) u"
      using Cons.prems(2,5) at k point 3 by (auto simp: visited_def u_def)
    moreover have eq: "insert k K \<union> set ks = K \<union> set (k # ks)" by auto
    note IH = Cons.IH [OF _ _ _ _ _ rest, of "insert k K", unfolded eq]
    ultimately show ?thesis by (intro IH) (use Cons.prems k in auto)
  qed
qed (auto simp: visited_def)

lemma diagonals_distinct: "distinct (diagonals d)"
  by (simp add: diagonals_def distinct_map inj_on_def del: upt_Suc)

lemma row_ok_append:
  "d < length trace \<Longrightarrow> row_ok xs ys (trace @ [v]) d u = row_ok xs ys trace d u"
  "row_ok xs ys (trace @ [v]) (length trace) u = row_ok xs ys trace (length trace) u"
proof -
  have "frontier_start (trace @ [v]) (int d) k = frontier_start trace (int d) k" if "d \<le> length trace" for d k
    using that by (auto simp: frontier_start_def nth_append Let_def)
  then show "d < length trace \<Longrightarrow> row_ok xs ys (trace @ [v]) d u = row_ok xs ys trace d u"
    "row_ok xs ys (trace @ [v]) (length trace) u = row_ok xs ys trace (length trace) u"
    by (simp_all add: row_ok_def point_ok_def)
qed

lemma trace_ok_append:
  "trace_ok xs ys trace \<Longrightarrow> row_ok xs ys trace (length trace) v \<Longrightarrow> trace_ok xs ys (trace @ [v])"
  by (auto simp: trace_ok_def row_ok_append nth_append less_Suc_eq)

text \<open>The search returns a trace whose complete rows are all but the last one.\<close>

lemma frontier_ok:
  assumes "trace_ok xs ys trace" and "frontier xs ys n (length trace) trace work = (Some tr, w)"
  shows "\<exists>rows v k. tr = rows @ [v] \<and> trace_ok xs ys rows \<and> on_row (length rows) k
    \<and> point_ok xs ys rows (length rows) k (frontier_at v (int (length rows)) k)
    \<and> at_end xs ys k (frontier_at v (int (length rows)) k)"
  using assms
proof (induction n arbitrary: trace work)
  case (Suc n)
  define d where "d = length trace"
  obtain r w1 where r: "frontier_row xs ys trace (int d) (diagonals d) (replicate (2 * d + 1) 0) (work - (2 * int d + 1)) = (r, w1)"
    by fastforce
  have go: "\<not> work - (2 * int d + 1) \<le> 0"
    using Suc.prems(2) unfolding d_def [symmetric] by (auto simp: Let_def split: if_splits)
  have F: "case r of RowStop \<Rightarrow> True
    | RowDone u \<Rightarrow> visited xs ys trace d ({} \<union> set (diagonals d)) u
    | RowFound u \<Rightarrow> \<exists>k. on_row d k \<and> point_ok xs ys trace d k (frontier_at u (int d) k) \<and> at_end xs ys k (frontier_at u (int d) k)"
    by (rule frontier_row_ok [OF Suc.prems(1) _ _ _ _ _ _ r])
      (simp_all add: d_def on_row_diagonals diagonals_distinct visited_def del: replicate_Suc)
  show ?case
  proof (cases r)
    case RowStop
    with Suc.prems(2) r go show ?thesis unfolding d_def [symmetric] by (simp add: Let_def)
  next
    case (RowFound v)
    with Suc.prems(2) r go have "tr = trace @ [v]" unfolding d_def [symmetric] by (simp add: Let_def)
    with F RowFound Suc.prems(1) show ?thesis by (auto simp: d_def)
  next
    case (RowDone v)
    with Suc.prems(2) r go have "frontier xs ys n (length (trace @ [v])) (trace @ [v]) w1 = (Some tr, w)"
      unfolding d_def [symmetric] by (simp add: Let_def d_def)
    moreover have "row_ok xs ys trace (length trace) v"
      using F RowDone by (auto simp: row_ok_def visited_def on_row_diagonals d_def)
    then have "trace_ok xs ys (trace @ [v])" by (rule trace_ok_append [OF Suc.prems(1)])
    ultimately show ?thesis using Suc.IH by blast
  qed
qed simp

section \<open>The walk back\<close>

text \<open>A path of steps from one pair of positions to another.\<close>

fun path :: "string list \<Rightarrow> string list \<Rightarrow> nat \<Rightarrow> nat \<Rightarrow> edit_op list \<Rightarrow> nat \<Rightarrow> nat \<Rightarrow> bool" where
  "path xs ys i j [] i' j' \<longleftrightarrow> i = i' \<and> j = j'"
| "path xs ys i j (Keep # ss) i' j' \<longleftrightarrow> i < length xs \<and> j < length ys \<and> xs ! i = ys ! j \<and> path xs ys (Suc i) (Suc j) ss i' j'"
| "path xs ys i j (Insert # ss) i' j' \<longleftrightarrow> j < length ys \<and> path xs ys i (Suc j) ss i' j'"
| "path xs ys i j (Delete # ss) i' j' \<longleftrightarrow> i < length xs \<and> path xs ys (Suc i) j ss i' j'"

lemma path_append:
  "path xs ys i j ss m n \<Longrightarrow> path xs ys m n ts i' j' \<Longrightarrow> path xs ys i j (ss @ ts) i' j'"
  by (induction xs ys i j ss m n rule: path.induct) auto

lemma path_keep:
  "\<forall>q < n. i + q < length xs \<and> j + q < length ys \<and> xs ! (i + q) = ys ! (j + q) \<Longrightarrow>
     path xs ys i j (replicate n Keep) (i + n) (j + n)"
proof (induction n arbitrary: i j)
  case (Suc n)
  from Suc.prems have "\<forall>q < n. Suc i + q < length xs \<and> Suc j + q < length ys \<and> xs ! (Suc i + q) = ys ! (Suc j + q)"
    by (metis Suc_less_eq add_Suc add_Suc_right)
  from Suc.IH [OF this] Suc.prems [rule_format, of 0] show ?case by simp
qed simp

lemma back_step_ok:
  assumes trace: "trace_ok xs ys trace" and e: "e < length trace" and k: "on_row (Suc e) (x - y)"
    and point: "point_ok xs ys trace (Suc e) (x - y) x"
    and fit: "x \<le> int (length xs)" "y \<le> int (length ys)"
    and step: "back_step trace e x y = (n, s, x', y')"
  shows "on_row e (x' - y') \<and> reached trace e (x' - y') = x' \<and> 0 \<le> x' \<and> 0 \<le> y' \<and> x' \<le> int (length xs) \<and> y' \<le> int (length ys)
    \<and> path xs ys (nat x') (nat y') (s # replicate n Keep) (nat x) (nat y)"
proof -
  define k where "k = x - y"
  define x0 where "x0 = frontier_start trace (int (Suc e)) k"
  define down where "down = comes_down (trace ! e) (int (Suc e)) k"
  define pk where "pk = (if down then k + 1 else k - 1)"
  define px where "px = reached trace e pk"
  have kk: "on_row (Suc e) k" using k by (simp add: k_def)
  have pk: "on_row e pk" using comes_down_row [OF kk, of trace] by (simp add: pk_def down_def)
  have x0: "x0 = (if down then px else px + 1)"
    unfolding x0_def frontier_start_Suc by (simp add: down_def px_def pk_def)
  have px0: "0 \<le> px" "0 \<le> px - pk"
    using reached_point(1) [OF trace e pk] by (auto simp: point_ok_def Let_def px_def)
  have snake: "x0 \<le> x" "\<And>i. x0 \<le> i \<Longrightarrow> i < x \<Longrightarrow> i < int (length xs) \<and> i - k < int (length ys) \<and> xs ! nat i = ys ! nat (i - k)"
    using point by (auto simp: point_ok_def Let_def x0_def k_def)
  have n: "n = nat (min (x - px) (y - (px - pk)))"
    and r: "(s, x', y') = (if x - int n = px then (Insert, x - int n, y - int n - 1) else (Delete, x - int n - 1, y - int n))"
    using step by (auto simp: back_step_def Let_def px_def pk_def down_def k_def add.commute split: if_splits)
  have n0: "int n = x - x0" using n x0 snake(1) by (auto simp: pk_def k_def)
  have res: "x' = px" "y' = px - pk" "s = (if down then Insert else Delete)"
    using r n0 x0 by (auto simp: pk_def k_def split: if_splits)
  define X0 Y0 where "X0 = nat x0" and "Y0 = nat (x0 - k)"
  have y0: "0 \<le> x0 - k" "0 \<le> x0" using x0 px0 by (auto simp: pk_def split: if_splits)
  have XY: "int X0 = x0" "int Y0 = x0 - k" using y0 by (simp_all add: X0_def Y0_def)
  have "\<forall>q < n. X0 + q < length xs \<and> Y0 + q < length ys \<and> xs ! (X0 + q) = ys ! (Y0 + q)"
  proof (intro allI impI)
    fix q assume q: "q < n"
    have at: "nat (x0 + int q) = X0 + q" "nat (x0 + int q - k) = Y0 + q" using y0 by (simp_all add: X0_def Y0_def nat_add_distrib)
    have "x0 + int q < int (length xs)" "x0 + int q - k < int (length ys)" "xs ! (X0 + q) = ys ! (Y0 + q)"
      using snake(2) [of "x0 + int q"] q n0 unfolding at by auto
    then show "X0 + q < length xs \<and> Y0 + q < length ys \<and> xs ! (X0 + q) = ys ! (Y0 + q)" using XY by linarith
  qed
  from path_keep [OF this] have keep: "path xs ys X0 Y0 (replicate n Keep) (nat x) (nat y)"
  proof -
    have "x = int (X0 + n)" "y = int (Y0 + n)" using XY n0 by (simp_all add: k_def)
    then have "nat x = X0 + n" "nat y = Y0 + n" by simp_all
    then show "path xs ys X0 Y0 (replicate n Keep) (X0 + n) (Y0 + n) \<Longrightarrow> ?thesis" by simp
  qed
  have "path xs ys (nat x') (nat y') (s # replicate n Keep) (nat x) (nat y)"
  proof (cases down)
    case True
    then have at: "X0 = nat x'" "Y0 = Suc (nat y')" "y' < int (length ys)"
      using res x0 px0 fit snake(1) by (auto simp: X0_def Y0_def pk_def k_def)
    from at(3) have "nat y' < length ys" using res px0 by (simp add: nat_less_iff)
    with keep res True at show ?thesis by simp
  next
    case False
    then have at: "X0 = Suc (nat x')" "Y0 = nat y'" "x' < int (length xs)"
      using res x0 px0 fit snake(1) by (auto simp: X0_def Y0_def pk_def k_def)
    from at(3) have "nat x' < length xs" using res px0 by (simp add: nat_less_iff)
    with keep res False at show ?thesis by simp
  qed
  moreover have "x' \<le> int (length xs)" "y' \<le> int (length ys)"
    using res x0 fit snake(1) by (auto simp: pk_def k_def split: if_splits)
  ultimately show ?thesis using res pk px0 by (simp add: px_def)
qed

lemma backtrack_ok:
  assumes trace: "trace_ok xs ys trace" and "d \<le> length trace" and "on_row d (x - y)" and "point_ok xs ys trace d (x - y) x"
    and "0 \<le> x" and "0 \<le> y" and "x \<le> int (length xs)" and "y \<le> int (length ys)"
  shows "\<exists>ss. backtrack trace d x y acc = ss @ acc \<and> path xs ys 0 0 ss (nat x) (nat y)"
  using assms(2-)
proof (induction d arbitrary: x y acc)
  case 0
  then have xy: "x = y" by (simp add: on_row_0)
  have "xs ! q = ys ! q" if "q < nat x" for q
    using 0(3) that xy by (auto simp: point_ok_def Let_def frontier_start_def dest!: spec [of _ "int q"])
  then have "path xs ys 0 0 (replicate (nat x) Keep) (0 + nat x) (0 + nat x)"
    using 0 xy by (intro path_keep) auto
  with xy show ?case by simp
next
  case (Suc e)
  obtain n s x' y' where step: "back_step trace e x y = (n, s, x', y')" by (metis prod_cases4)
  have e: "e < length trace" using Suc.prems(1) by simp
  note B = back_step_ok [OF trace e Suc.prems(2,3,6,7) step]
  from B have "point_ok xs ys trace e (x' - y') x'" using reached_point(1) [OF trace e, of "x' - y'"] by simp
  with Suc.IH [of x' y' "s # replicate n Keep @ acc"] B e
  obtain ss where ss: "backtrack trace e x' y' (s # replicate n Keep @ acc) = ss @ s # replicate n Keep @ acc"
    "path xs ys 0 0 ss (nat x') (nat y')" by auto
  have "path xs ys 0 0 (ss @ s # replicate n Keep) (nat x) (nat y)" using path_append [OF ss(2)] B by blast
  then show ?case using step ss(1) by (intro exI [of _ "ss @ s # replicate n Keep"]) simp
qed

text \<open>The steps read off a successful search turn one text into the other.\<close>

lemma search_path:
  assumes "frontier xs ys n 0 [] work = (Some trace, w)"
  shows "path xs ys 0 0 (backtrack trace (length trace - 1) (int (length xs)) (int (length ys)) []) (length xs) (length ys)"
proof -
  have "trace_ok xs ys []" by (simp add: trace_ok_def)
  from frontier_ok [OF this, of n work trace w] assms obtain rows v k where
    tr: "trace = rows @ [v]" and rows: "trace_ok xs ys rows" and k: "on_row (length rows) k"
    and point: "point_ok xs ys rows (length rows) k (frontier_at v (int (length rows)) k)"
    and e: "at_end xs ys k (frontier_at v (int (length rows)) k)" by auto
  from end_on_diagonal [OF rows _ k point e] have x: "frontier_at v (int (length rows)) k = int (length xs)"
    "k = int (length xs) - int (length ys)" by auto
  have same: "backtrack (rows @ [v]) d i j acc = backtrack rows d i j acc" if "d \<le> length rows" for d i j acc
    using that by (induction d arbitrary: i j acc) (auto simp: back_step_def nth_append Let_def)
  from backtrack_ok [OF rows order_refl, of "int (length xs)" "int (length ys)" "[]"] k point x
  show ?thesis by (simp add: tr same)
qed

end
