(* ===== verification/Dedup_Edit_Apply.thy ===== *)
theory Dedup_Edit_Apply
  imports Dedup_Edit_Search
begin

text \<open>
  Applying byte edits: what the edits read off a path do to the base text, that coalescing
  and normalization do not change it, and that a planned edit list rebuilds the body.
\<close>

section \<open>Patching\<close>

fun patch :: "string \<Rightarrow> byte_edit list \<Rightarrow> nat \<Rightarrow> string" where
  "patch base [] at = drop at base"
| "patch base (e # es) at = segment base at (ed_start e) @ ed_text e @ patch base es (ed_end e)"

fun edits_in :: "string \<Rightarrow> byte_edit list \<Rightarrow> nat \<Rightarrow> bool" where
  "edits_in base [] at \<longleftrightarrow> at \<le> length base"
| "edits_in base (e # es) at \<longleftrightarrow> at \<le> ed_start e \<and> ed_start e \<le> ed_end e \<and> edits_in base es (ed_end e)"

fun patch_head :: "string \<Rightarrow> byte_edit list \<Rightarrow> nat \<Rightarrow> string" where
  "patch_head base [] at = []"
| "patch_head base (e # es) at = segment base at (ed_start e) @ ed_text e @ patch_head base es (ed_end e)"

definition end_of :: "byte_edit list \<Rightarrow> nat \<Rightarrow> nat" where
  "end_of es at = (if es = [] then at else ed_end (last es))"

lemma end_of_simps [simp]: "end_of [] at = at" "end_of (es @ [e]) at = ed_end e"
  by (simp_all add: end_of_def)

lemma end_of_Cons: "end_of (e # es) at = end_of es (ed_end e)"
  by (simp add: end_of_def)

lemma edits_in_le: "edits_in base es at \<Longrightarrow> at \<le> length base"
  by (induction es arbitrary: at) fastforce+

lemma patch_append: "patch base (es @ fs) at = patch_head base es at @ patch base fs (end_of es at)"
  by (induction es arbitrary: at) (simp_all add: end_of_Cons)

lemma patch_head_append: "patch_head base (es @ fs) at = patch_head base es at @ patch_head base fs (end_of es at)"
  by (induction es arbitrary: at) (simp_all add: end_of_Cons)

lemma edits_in_append: "edits_in base (es @ fs) at \<longleftrightarrow> edits_in base es at \<and> edits_in base fs (end_of es at)"
proof (induction es arbitrary: at)
  case Nil
  then show ?case using edits_in_le by auto
qed (simp add: end_of_Cons)

text \<open>\<open>reconstruct\<close> applies edits that are in order.\<close>

lemma reconstruct_patch:
  "edits_in base es at \<Longrightarrow> fst (reconstruct_from base body es at out repeated lines) = out @ patch base es at"
  by (induction base body es at out repeated lines rule: reconstruct_from.induct)
    (use edits_in_le in \<open>auto simp: Let_def not_less dest: edits_in_le\<close>)

section \<open>Rune boundaries\<close>

definition aligned :: "string list \<Rightarrow> nat \<Rightarrow> bool" where
  "aligned a i \<longleftrightarrow> (\<exists>n. i = bytes_of (take n a))"

lemma valid_utf8_append: "valid_utf8 s \<Longrightarrow> valid_utf8 t \<Longrightarrow> valid_utf8 (s @ t)"
  using valid_utf8_concat [of "runes s @ runes t"] runes_valid [of s] runes_valid [of t]
  by (simp add: concat_runes)

lemma bytes_of_append [simp]: "bytes_of (xs @ ys) = bytes_of xs + bytes_of ys"
  by (simp add: bytes_of_def)

lemma bytes_of_take_le: "i \<le> j \<Longrightarrow> bytes_of (take i a) \<le> bytes_of (take j a)"
proof -
  assume "i \<le> j"
  then have "take j a = take i a @ segment a i j" by (simp add: segment_take_drop)
  then show ?thesis by simp
qed

lemma bytes_of_take_length: "bytes_of (take i a) \<le> length (concat a)"
  using bytes_of_take_le [of i "max i (length a)" a] by (simp add: bytes_of_def)

lemma segment_concat:
  assumes "i \<le> j"
  shows "segment (concat a) (bytes_of (take i a)) (bytes_of (take j a)) = concat (segment a i j)"
proof -
  have "concat a = concat (take i a) @ concat (segment a i j) @ concat (drop j a)"
    using assms by (metis append_take_drop_id concat_append segment_take_drop append_assoc)
  moreover have "bytes_of (take j a) = bytes_of (take i a) + length (concat (segment a i j))"
    using assms by (metis bytes_of_append bytes_of_def segment_take_drop)
  ultimately show ?thesis by (simp add: segment_def bytes_of_def)
qed

lemma drop_concat: "drop (bytes_of (take i a)) (concat a) = concat (drop i a)"
  by (metis append_eq_conv_conj append_take_drop_id bytes_of_def concat_append)

lemma list_all_segment: "list_all P a \<Longrightarrow> list_all P (segment a i j)"
  using segment_subset [of a i j] by (auto simp: list_all_iff)

lemma aligned_segment:
  assumes "list_all valid_rune a" and "aligned a i" and "aligned a j" and "i \<le> j"
  shows "valid_utf8 (segment (concat a) i j)"
proof -
  from assms(2,3) obtain m n where mn: "i = bytes_of (take m a)" "j = bytes_of (take n a)" by (auto simp: aligned_def)
  show ?thesis
  proof (cases "m \<le> n")
    case True
    then show ?thesis using assms(1) by (simp add: mn segment_concat valid_utf8_concat list_all_segment)
  next
    case False
    then have "j \<le> i" using bytes_of_take_le [of n m a] by (simp add: mn)
    with assms(4) show ?thesis by simp
  qed
qed

definition edit_aligned :: "string list \<Rightarrow> byte_edit \<Rightarrow> bool" where
  "edit_aligned a e \<longleftrightarrow> aligned a (ed_start e) \<and> aligned a (ed_end e) \<and> valid_utf8 (ed_text e)"

section \<open>The edits of a path\<close>

lemma push_edit_ok:
  assumes "edits_in base es 0" and "end_of es 0 \<le> ed_start e" and "ed_start e \<le> ed_end e" and "ed_end e \<le> length base"
    and "list_all valid_rune a" and "base = concat a" and "list_all (edit_aligned a) es" and "edit_aligned a e"
  shows "edits_in base (push_edit base es e) 0 \<and> end_of (push_edit base es e) 0 = ed_end e
    \<and> patch_head base (push_edit base es e) 0 = patch_head base es 0 @ segment base (end_of es 0) (ed_start e) @ ed_text e
    \<and> list_all (edit_aligned a) (push_edit base es e)"
proof (cases "es \<noteq> [] \<and> int (ed_start e) - int (ed_end (last es)) \<le> 16")
  case True
  then obtain fs l where es: "es = fs @ [l]" by (metis append_butlast_last_id)
  have push: "push_edit base es e = fs @ [l\<lparr>ed_text := ed_text l @ segment base (ed_end l) (ed_start e) @ ed_text e, ed_end := ed_end e\<rparr>]"
    using True by (simp add: push_edit_def es)
  have l: "aligned a (ed_start l)" "aligned a (ed_end l)" "valid_utf8 (ed_text l)" "ed_end l \<le> ed_start e"
    using assms(2,7) by (simp_all add: es edit_aligned_def)
  have "valid_utf8 (segment base (ed_end l) (ed_start e))"
    unfolding assms(6) using aligned_segment [OF assms(5) l(2) _ l(4)] assms(8) by (simp add: edit_aligned_def)
  then show ?thesis
    using assms l unfolding push [unfolded es] es
    by (auto simp: edits_in_append patch_head_append edit_aligned_def valid_utf8_append)
next
  case False
  then have "push_edit base es e = es @ [e]" unfolding push_edit_def by auto
  then show ?thesis using assms by (simp add: edits_in_append patch_head_append)
qed

lemma path_change:
  "path a b x y ss X Y \<Longrightarrow>
     path a b (x + length (filter (\<lambda>s. s = Delete) (takeWhile (\<lambda>s. s \<noteq> Keep) ss)))
       (y + length (filter (\<lambda>s. s = Insert) (takeWhile (\<lambda>s. s \<noteq> Keep) ss)))
       (dropWhile (\<lambda>s. s \<noteq> Keep) ss) X Y"
  by (induction a b x y ss X Y rule: path.induct) auto

lemma path_le: "path a b x y ss X Y \<Longrightarrow> x \<le> X \<and> y \<le> Y \<and> (x \<le> length a \<longrightarrow> X \<le> length a) \<and> (y \<le> length b \<longrightarrow> Y \<le> length b)"
  by (induction a b x y ss X Y rule: path.induct) auto

definition edits_so_far :: "string list \<Rightarrow> string list \<Rightarrow> nat \<Rightarrow> nat \<Rightarrow> byte_edit list \<Rightarrow> bool" where
  "edits_so_far a b x y es \<longleftrightarrow> edits_in (concat a) es 0 \<and> end_of es 0 \<le> bytes_of (take x a)
     \<and> patch_head (concat a) es 0 @ segment (concat a) (end_of es 0) (bytes_of (take x a)) = concat (take y b)
     \<and> list_all (edit_aligned a) es"

lemma byte_edits_ok:
  assumes "list_all valid_rune a" and "list_all valid_rune b" and "base = concat a"
    and "path a b x y ss X Y" and "at = bytes_of (take x a)" and "edits_so_far a b x y es" and "x \<le> length a" and "y \<le> length b"
  shows "edits_so_far a b X Y (byte_edits a b base ss x y at es)"
  using assms
proof (induction a b base ss x y at es rule: byte_edits.induct)
  case (1 a b base ss x y at es)
  show ?case
  proof (cases ss)
    case Nil
    with 1(6,8) show ?thesis by (subst byte_edits.simps) simp
  next
    case (Cons s rest)
    show ?thesis
    proof (cases "s = Keep")
      case True
      have k: "x < length a" "y < length b" "a ! x = b ! y" "path a b (Suc x) (Suc y) rest X Y"
        using 1(6) by (simp_all add: Cons True)
      have at': "at + length (a ! x) = bytes_of (take (x + 1) a)"
        using k(1) 1(7) by (simp add: take_Suc_conv_app_nth bytes_of_def)
      have "segment (concat a) (end_of es 0) (bytes_of (take (Suc x) a)) =
          segment (concat a) (end_of es 0) (bytes_of (take x a)) @ a ! x"
      proof -
        have "segment (concat a) (bytes_of (take x a)) (bytes_of (take (Suc x) a)) = a ! x"
          using segment_concat [of x "Suc x" a] k(1) by (simp add: segment_def take_Suc_conv_app_nth hd_drop_conv_nth take_Suc)
        moreover have "end_of es 0 \<le> bytes_of (take x a)" using 1(8) by (simp add: edits_so_far_def)
        ultimately show ?thesis
          using segment_append [of "end_of es 0" "bytes_of (take x a)" "bytes_of (take (Suc x) a)" "concat a"]
            bytes_of_take_le [of x "Suc x" a] by simp
      qed
      then have "edits_so_far a b (x + 1) (y + 1) es"
        using 1(8) k bytes_of_take_le [of x "Suc x" a] by (auto simp: edits_so_far_def take_Suc_conv_app_nth)
      then have "edits_so_far a b X Y (byte_edits a b base rest (x + 1) (y + 1) (at + length (a ! x)) es)"
        using 1(1) [OF Cons True 1(3-5) _ at'] k by simp
      then show ?thesis using Cons True by (subst byte_edits.simps) simp
    next
      case False
      define change where "change = takeWhile (\<lambda>s. s \<noteq> Keep) ss"
      define x' where "x' = x + length (filter (\<lambda>s. s = Delete) change)"
      define y' where "y' = y + length (filter (\<lambda>s. s = Insert) change)"
      define at' where "at' = at + bytes_of (segment a x x')"
      define e where "e = \<lparr>ed_start = at, ed_end = at', ed_text = concat (segment b y y')\<rparr>"
      have p: "path a b x' y' (dropWhile (\<lambda>s. s \<noteq> Keep) ss) X Y"
        unfolding x'_def y'_def change_def by (rule path_change [OF 1(6)])
      have le: "x \<le> x'" "y \<le> y'" "x' \<le> length a" "y' \<le> length b"
        using path_le [OF p] path_le [OF 1(6)] 1(9,10) by (auto simp: x'_def y'_def)
      have at': "at' = bytes_of (take x' a)"
        unfolding at'_def 1(7) using le(1) by (metis bytes_of_append segment_take_drop)
      have al: "edit_aligned a e"
        unfolding edit_aligned_def aligned_def e_def
        using at' 1(7) 1(4) by (auto simp: valid_utf8_concat list_all_segment)
      have bounds: "edits_in base es 0" "end_of es 0 \<le> ed_start e" "ed_start e \<le> ed_end e" "ed_end e \<le> length base"
        "list_all (edit_aligned a) es"
        using 1(5,7,8) at' bytes_of_take_length [of x' a] by (auto simp: edits_so_far_def e_def at'_def)
      note P = push_edit_ok [OF bounds(1-4) 1(3,5) bounds(5) al]
      have grown: "concat (take y' b) = concat (take y b) @ concat (segment b y y')"
        by (metis concat_append segment_take_drop le(2))
      have "edits_so_far a b x' y' (push_edit base es e)"
        unfolding edits_so_far_def
        using P 1(5,7,8) at' grown by (auto simp: edits_so_far_def e_def)
      moreover have "ss = s # rest \<Longrightarrow> s \<noteq> Keep \<Longrightarrow> byte_edits a b base ss x y at es =
          byte_edits a b base (dropWhile (\<lambda>s. s \<noteq> Keep) ss) x' y' at' (push_edit base es e)"
        by (subst byte_edits.simps) (simp add: change_def x'_def y'_def at'_def e_def Let_def)
      ultimately show ?thesis
        using 1(2) [OF Cons False change_def x'_def y'_def at'_def 1(3-5) p at'] le Cons False
        by (simp add: e_def)
    qed
  qed
qed

section \<open>Normalization\<close>

lemma rune_at_front:
  assumes "valid_utf8 s" and "s \<noteq> []"
  shows "rune_bytes s = take (rune_length s) s" and "valid_utf8 (drop (rune_length s) s)" and "rune_length s \<le> length s"
    and "valid_rune (rune_bytes s)" and "0 < rune_length s"
proof -
  have v: "valid_rune (take (rune_width (byte (hd s))) s)" "valid_utf8 (drop (rune_length s) s)"
    using assms by (simp_all add: valid_utf8.simps [of s] split: if_splits)
  then show "rune_bytes s = take (rune_length s) s" "valid_utf8 (drop (rune_length s) s)"
    by (simp_all add: rune_bytes_def rune_length_def Let_def)
  from valid_rune_width [OF v(1)] assms(2) have "rune_width (byte (hd s)) = length (take (rune_width (byte (hd s))) s)"
    by (metis hd_take take_eq_Nil2 bot_nat_0.not_eq_extremum)
  then show "rune_length s \<le> length s" using v(1) by (auto simp: rune_length_def Let_def min_def split: if_splits)
  show "valid_rune (rune_bytes s)" by (rule rune_bytes_valid [OF assms(2)])
  show "0 < rune_length s" by (rule rune_length_pos [OF assms(2)])
qed

lemma rotate_insertion_ok:
  assumes "valid_utf8 (segment base at limit)" and "at \<le> limit" and "limit \<le> length base"
    and "rotation < length s" and "valid_utf8 (drop rotation s)" and "valid_utf8 (take rotation s)"
    and "rotate_insertion base limit s at rotation work = (at', rotation', w)"
  shows "at \<le> at' \<and> at' \<le> limit \<and> valid_utf8 (drop rotation' s) \<and> valid_utf8 (take rotation' s)
    \<and> (drop rotation s @ take rotation s) @ segment base at limit =
       segment base at at' @ (drop rotation' s @ take rotation' s) @ segment base at' limit"
  using assms
proof (induction base limit s at rotation work rule: rotate_insertion.induct)
  case (1 base limit s at rotation work)
  define r where "r = drop rotation s"
  define other where "other = segment base at limit"
  define size where "size = rune_length other"
  define turned where "turned = (rotation + rune_length r) mod length s"
  show ?case
  proof (cases "at < limit \<and> 0 < work \<and> rune_bytes r = rune_bytes other")
    case True
    have ne: "r \<noteq> []" "other \<noteq> []" using 1(4,5) True by (auto simp: r_def other_def segment_def)
    note R = rune_at_front [OF _ ne(1)] and O = rune_at_front [OF _ ne(2)]
    have vr: "valid_utf8 r" and vo: "valid_utf8 other" using 1(2,6) by (simp_all add: r_def other_def)
    have same: "take (rune_length r) r = take size other" using R(1) [OF vr] O(1) [OF vo] True by (simp add: size_def)
    then have len: "rune_length r = size" using R(3) [OF vr] O(3) [OF vo] unfolding size_def by (metis length_take min.absorb2)
    have size: "size \<le> limit - at" "0 < size" using O(3) [OF vo] O(5) [OF vo] 1(4) by (simp_all add: other_def segment_length size_def)
    have split_other: "other = segment base at (at + size) @ segment base (at + size) limit"
    proof -
      have "at \<le> at + size" "at + size \<le> limit" using size(1) True by linarith+
      from segment_append [OF this, of base] show ?thesis by (simp add: other_def)
    qed
    have here: "take size other = segment base at (at + size)"
      unfolding split_other using size 1(4) True by (simp add: segment_length)
    have rest: "drop size other = segment base (at + size) limit"
      unfolding split_other using size 1(4) True by (simp add: segment_length)
    have fits: "rotation + size \<le> length s" using R(3) [OF vr] len 1(5) by (simp add: r_def)
    have drop_take: "drop rotation s = take size r @ drop (rotation + size) s"
      by (metis add.commute append_take_drop_id drop_drop r_def)
    have vrot: "valid_utf8 (drop (rotation + size) s)" "valid_utf8 (take (rotation + size) s)"
    proof -
      show "valid_utf8 (drop (rotation + size) s)" using R(2) [OF vr] len by (simp add: r_def add.commute)
      have "valid_utf8 (take size r)" using valid_utf8_concat [of "[take size r]"] R(1,4) [OF vr] len by simp
      then show "valid_utf8 (take (rotation + size) s)"
        using 1(7) valid_utf8_append by (simp add: take_add r_def)
    qed
    have turned: "turned < length s" "valid_utf8 (drop turned s)" "valid_utf8 (take turned s)"
      "drop turned s @ take turned s = drop (rotation + size) s @ take (rotation + size) s"
      using fits vrot 1(5) len by (cases "rotation + size = length s"; auto simp: turned_def)+
    have step: "rotate_insertion base limit s (at + size) turned (work - int size) = (at', rotation', w)"
      using 1(8) True ne by (subst (asm) rotate_insertion.simps) (simp add: r_def other_def size_def turned_def Let_def)
    have "at < limit \<and> 0 < work" "\<not> (rune_bytes r \<noteq> rune_bytes other \<or> other = [])" using True ne by auto
    moreover have "at + size \<le> limit" using size(1) True by linarith
    ultimately have IH0: "at + size \<le> at' \<and> at' \<le> limit \<and> valid_utf8 (drop rotation' s) \<and> valid_utf8 (take rotation' s)
      \<and> (drop turned s @ take turned s) @ segment base (at + size) limit =
         segment base (at + size) at' @ (drop rotation' s @ take rotation' s) @ segment base at' limit"
      using 1(1) [OF _ r_def other_def size_def] rest O(2) [OF vo] 1(4) turned(1-3) step
      unfolding size_def turned_def by metis
    from IH0
    have IH: "at + size \<le> at'" "at' \<le> limit" "valid_utf8 (drop rotation' s)" "valid_utf8 (take rotation' s)"
      "(drop turned s @ take turned s) @ segment base (at + size) limit =
       segment base (at + size) at' @ (drop rotation' s @ take rotation' s) @ segment base at' limit"
      by simp_all
    have "(drop rotation s @ take rotation s) @ segment base at limit
      = take size r @ drop (rotation + size) s @ take rotation s @ take size r @ segment base (at + size) limit"
      using split_other here same len drop_take by (simp add: other_def)
    also have "\<dots> = segment base at (at + size) @ (drop turned s @ take turned s) @ segment base (at + size) limit"
      unfolding turned(4) using same len here by (simp add: take_add r_def)
    also have "\<dots> = segment base at (at + size) @ segment base (at + size) at' @ (drop rotation' s @ take rotation' s) @ segment base at' limit"
      using IH(5) by simp
    also have "\<dots> = segment base at at' @ (drop rotation' s @ take rotation' s) @ segment base at' limit"
      using segment_append [of at "at + size" at' base] IH(1) by simp
    finally show ?thesis using IH by simp
  next
    case False
    then have "at' = at \<and> rotation' = rotation"
      using 1(8) by (subst (asm) rotate_insertion.simps) (auto simp: r_def other_def Let_def segment_def split: if_splits)
    with 1(3,6,7) show ?thesis by simp
  qed
qed

lemma patch_from:
  assumes "edits_in base es at" and "at \<le> limit" and "limit \<le> (case es of [] \<Rightarrow> length base | f # _ \<Rightarrow> ed_start f)"
  shows "patch base es at = segment base at limit @ patch base es limit" and "edits_in base es limit"
proof -
  have "patch base es at = segment base at limit @ patch base es limit \<and> edits_in base es limit"
  proof (cases es)
    case Nil
    then show ?thesis using assms segment_append [of at limit "length base" base] by (simp add: segment_def)
  next
    case (Cons f fs)
    then show ?thesis using assms segment_append [of at limit "ed_start f" base] by simp
  qed
  then show "patch base es at = segment base at limit @ patch base es limit" "edits_in base es limit" by simp_all
qed

lemma edits_in_limit:
  "edits_in base es at \<Longrightarrow> at \<le> (case es of [] \<Rightarrow> length base | f # _ \<Rightarrow> ed_start f)
     \<and> (case es of [] \<Rightarrow> length base | f # _ \<Rightarrow> ed_start f) \<le> length base"
  by (cases es) (auto dest: edits_in_le)

lemma normalize_insertion_ok:
  assumes "list_all valid_rune a" and "base = concat a" and "edits_in base (e # es) at" and "edit_aligned a e"
    and "limit = (case es of [] \<Rightarrow> length base | f # _ \<Rightarrow> ed_start f)" and "aligned a limit"
    and "normalize_insertion base limit e work = (e', w)"
  shows "edits_in base (e' # es) at \<and> patch base (e' # es) at = patch base (e # es) at \<and> valid_utf8 (ed_text e')"
proof (cases "ed_start e \<noteq> ed_end e \<or> ed_text e = []")
  case True
  then have "e' = e" using assms(7) unfolding normalize_insertion_def by auto
  with assms(3,4) show ?thesis by (simp add: edit_aligned_def)
next
  case False
  define s where "s = ed_text e"
  obtain at' rotation v where r: "rotate_insertion base limit s (ed_start e) 0 work = (at', rotation, v)" by (metis prod_cases3)
  have e': "e' = \<lparr>ed_start = at', ed_end = at', ed_text = drop rotation s @ take rotation s\<rparr>"
    using assms(7) False r by (simp add: normalize_insertion_def s_def)
  have start: "ed_end e = ed_start e" "at \<le> ed_start e" "edits_in base es (ed_start e)" using False assms(3) by auto
  have lim: "ed_start e \<le> limit" "limit \<le> length base" using edits_in_limit [OF start(3)] assms(5) by simp_all
  have "valid_utf8 (segment base (ed_start e) limit)"
    unfolding assms(2) using aligned_segment [OF assms(1) _ assms(6) lim(1)] assms(4) by (simp add: edit_aligned_def)
  from rotate_insertion_ok [OF this lim _ _ _ r] assms(4) False
  have R: "ed_start e \<le> at'" "at' \<le> limit" "valid_utf8 (drop rotation s)" "valid_utf8 (take rotation s)"
    "s @ segment base (ed_start e) limit = segment base (ed_start e) at' @ (drop rotation s @ take rotation s) @ segment base at' limit"
    by (simp_all add: edit_aligned_def s_def)
  note from_start = patch_from [OF start(3) lim(1)]
  have e_lim: "edits_in base es at'" using patch_from(2) [OF start(3) R(1)] R(2) assms(5) by simp
  note from_at = patch_from [OF e_lim R(2)]
  have "patch base (e # es) at = segment base at (ed_start e) @ s @ segment base (ed_start e) limit @ patch base es limit"
    using start(1) from_start(1) assms(5) by (simp add: s_def)
  also have "\<dots> = segment base at (ed_start e) @ (s @ segment base (ed_start e) limit) @ patch base es limit" by simp
  also have "\<dots> = segment base at at' @ (drop rotation s @ take rotation s) @ segment base at' limit @ patch base es limit"
    unfolding R(5) using segment_append [OF start(2) R(1), of base] by simp
  also have "\<dots> = patch base (e' # es) at" using from_at(1) assms(5) by (simp add: e')
  finally show ?thesis using e_lim start(2) R(1,3,4) by (simp add: e' valid_utf8_append)
qed

lemma normalize_insertions_ok:
  assumes "list_all valid_rune a" and "base = concat a"
  shows "edits_in base es at \<Longrightarrow> list_all (edit_aligned a) es \<Longrightarrow> normalize_insertions base es work = (es', w)
    \<Longrightarrow> edits_in base es' at \<and> patch base es' at = patch base es at \<and> list_all (\<lambda>e. valid_utf8 (ed_text e)) es'"
proof (induction es arbitrary: at work es' w)
  case (Cons e es)
  define limit where "limit = (case es of [] \<Rightarrow> length base | f # _ \<Rightarrow> ed_start f)"
  obtain e' v fs u where n: "normalize_insertion base limit e work = (e', v)" "normalize_insertions base es v = (fs, u)"
    by (metis surj_pair)
  have es': "es' = e' # fs" using Cons.prems(3) n by (simp add: limit_def [symmetric])
  have "aligned a (length (concat a))" unfolding aligned_def by (intro exI [of _ "length a"]) (simp add: bytes_of_def)
  then have "aligned a limit" using Cons.prems(2) assms(2) by (cases es) (simp_all add: limit_def edit_aligned_def)
  with normalize_insertion_ok [OF assms Cons.prems(1) _ limit_def _ n(1)] Cons.prems(2)
  have e': "edits_in base (e' # es) at" "patch base (e' # es) at = patch base (e # es) at" "valid_utf8 (ed_text e')" by simp_all
  then have "edits_in base es (ed_end e')" by simp
  from Cons.IH [OF this _ n(2)] Cons.prems(2) e' show ?case by (simp add: es')
qed simp

section \<open>Planned edits rebuild the body\<close>

lemma common_prefix_spec:
  "common_prefix a b \<le> length a \<and> common_prefix a b \<le> length b \<and> take (common_prefix a b) a = take (common_prefix a b) b"
  by (induction a b rule: common_prefix.induct) auto

lemma path_shift:
  assumes "path (segment a p m) (segment b q n) i j ss i' j'" and "m \<le> length a" and "n \<le> length b"
  shows "path a b (p + i) (q + j) ss (p + i') (q + j')"
  using assms
proof (induction "segment a p m" "segment b q n" i j ss i' j' rule: path.induct)
  case (2 i j ss i' j')
  then have "i < m - p" "j < n - q" "segment a p m ! i = segment b q n ! j" by (simp_all add: segment_length)
  with 2 show ?case by (auto simp: segment_nth)
qed (auto simp: segment_length)

lemma plan_edits_ok:
  assumes "valid_utf8 base" and "valid_utf8 body" and "plan_edits base body work = (Some es, w)"
  shows "edits_in base es 0 \<and> patch base es 0 = body \<and> list_all (\<lambda>e. valid_utf8 (ed_text e)) es"
proof -
  define a b where "a = runes base" and "b = runes body"
  define pre where "pre = common_prefix a b"
  define post where "post = common_prefix (rev (drop pre a)) (rev (drop pre b))"
  define xs ys where "xs = segment a pre (length a - post)" and "ys = segment b pre (length b - post)"
  have a: "concat a = base" "list_all valid_rune a" and b: "concat b = body" "list_all valid_rune b"
    using assms(1,2) by (simp_all add: a_def b_def concat_runes runes_valid)
  have pre: "pre \<le> length a" "pre \<le> length b" "take pre a = take pre b"
    using common_prefix_spec [of a b] by (simp_all add: pre_def)
  have post: "post \<le> length a - pre" "post \<le> length b - pre"
    and suffixes: "drop (length a - post) a = drop (length b - post) b"
  proof -
    note S = common_prefix_spec [of "rev (drop pre a)" "rev (drop pre b)", folded post_def]
    show p: "post \<le> length a - pre" "post \<le> length b - pre" using S by simp_all
    from S have "rev (take post (rev (drop pre a))) = rev (take post (rev (drop pre b)))" by simp
    then have "drop (length a - pre - post) (drop pre a) = drop (length b - pre - post) (drop pre b)"
      by (simp add: rev_take)
    with p pre show "drop (length a - post) a = drop (length b - post) b" by simp
  qed
  have len: "length xs = length a - post - pre" "length ys = length b - post - pre"
    by (simp_all add: xs_def ys_def segment_length)
  have whole: "concat (take (pre + length ys) b) @ drop (bytes_of (take (pre + length xs) a)) base = body"
  proof -
    have "pre + length xs = length a - post" "pre + length ys = length b - post" using len post pre by simp_all
    then show ?thesis using suffixes a(1) b(1) drop_concat [of "length a - post" a]
      by (metis append_take_drop_id concat_append)
  qed
  show ?thesis
  proof (cases "xs = [] \<and> ys = []")
    case True
    then have "es = []" using assms(3) by (auto simp: plan_edits_def Let_def a_def [symmetric] b_def [symmetric]
        pre_def [symmetric] post_def [symmetric] xs_def [symmetric] ys_def [symmetric] split: if_splits)
    moreover have "base = body"
      using whole True pre(3) a(1) drop_concat [of pre a] by (metis add_0_right append_take_drop_id concat_append list.size(3))
    ultimately show ?thesis by simp
  next
    case False
    obtain trace w1 where search: "frontier xs ys (min edit_distance (length xs + length ys) + 1) 0 []
        (work - int (length base + length body)) = (Some trace, w1)"
      and norm: "normalize_insertions base (frontier_edits a b pre (length xs) (length ys) trace) w1 = (es, w)"
      using assms(3) False by (auto simp: plan_edits_def Let_def a_def [symmetric] b_def [symmetric]
        pre_def [symmetric] post_def [symmetric] xs_def [symmetric] ys_def [symmetric] split: if_splits option.splits prod.splits)
    define steps where "steps = backtrack trace (length trace - 1) (int (length xs)) (int (length ys)) []"
    have "path xs ys 0 0 steps (length xs) (length ys)" unfolding steps_def by (rule search_path [OF search])
    from path_shift [OF this [unfolded xs_def ys_def]]
    have p: "path a b pre pre steps (pre + length xs) (pre + length ys)" by (simp add: xs_def ys_def)
    have "edits_so_far a b pre pre []"
      using segment_concat [of 0 pre a] pre(3) by (simp add: edits_so_far_def segment_def bytes_of_def)
    from byte_edits_ok [OF a(2) b(2) a(1) [symmetric] p refl this pre(1,2)]
    have E: "edits_so_far a b (pre + length xs) (pre + length ys) (frontier_edits a b pre (length xs) (length ys) trace)"
      by (simp add: frontier_edits_def steps_def a(1))
    define fs where "fs = frontier_edits a b pre (length xs) (length ys) trace"
    have fs: "edits_in base fs 0" "list_all (edit_aligned a) fs"
      "patch_head base fs 0 @ segment base (end_of fs 0) (bytes_of (take (pre + length xs) a)) = concat (take (pre + length ys) b)"
      "end_of fs 0 \<le> bytes_of (take (pre + length xs) a)"
      using E by (simp_all add: edits_so_far_def fs_def a(1))
    have "drop (end_of fs 0) base = segment base (end_of fs 0) (bytes_of (take (pre + length xs) a)) @ drop (bytes_of (take (pre + length xs) a)) base"
      using segment_append [OF fs(4), of "length base" base] bytes_of_take_length [of "pre + length xs" a] a(1) by (simp add: segment_def)
    then have "patch base fs 0 = body" using patch_append [of base fs "[]" 0] fs(3) whole by (simp flip: append_assoc)
    with normalize_insertions_ok [OF a(2) a(1) [symmetric] fs(1,2) norm [folded fs_def]] show ?thesis by simp
  qed
qed

lemma plan_edits_reconstruct:
  assumes "valid_utf8 base" and "valid_utf8 body" and "plan_edits base body work = (Some es, w)"
  shows "fst (reconstruct base body es) = body"
  using plan_edits_ok [OF assms] reconstruct_patch [of base es 0 body "''''" 0 0] by (simp add: reconstruct_def)

end
