(* ===== verification/Dedup_Lossless.thy ===== *)
theory Dedup_Lossless
  imports Dedup_Pass Dedup_Edit_Apply
begin

text \<open>
  What a delivered text stands for.  A pass numbers the units it shows; \<open>H\<close> maps a number to
  the rows shown under it.  A delivered text is the body with marked spans, each standing
  for rows of an earlier unit with the same contents, or the edits of an earlier complete
  body; either way the body can be read back from what was shown.
\<close>

section \<open>Reading marked text\<close>

text \<open>The row contents a reader finds, following every marker to the rows it names.\<close>

fun read_from :: "history \<Rightarrow> string \<Rightarrow> span list \<Rightarrow> nat \<Rightarrow> string option list" where
  "read_from H body [] start = map (Some \<circ> row_text) (rows (drop start body))"
| "read_from H body (sp # sps) start =
     map (Some \<circ> row_text) (rows (segment body start (sp_start sp)))
     @ map (map_option row_text) (segment (the (H (sp_source sp))) (sp_first sp - 1) (sp_last sp))
     @ read_from H body sps (sp_end sp)"

lemma read_from_ok:
  assumes "spans_ok H body sps" and "boundary body start" and "\<forall>sp \<in> set sps. start \<le> sp_start sp"
  shows "read_from H body sps start = map (Some \<circ> row_text) (rows (drop start body))"
  using assms
proof (induction sps arbitrary: start)
  case (Cons sp sps)
  have sound: "span_sound H body sp" using Cons.prems(1) by (simp add: spans_ok_def)
  then obtain u where u: "H (sp_source sp) = Some u"
    "map (map_option row_text) (segment u (sp_first sp - 1) (sp_last sp)) =
       map (Some \<circ> row_text) (rows (segment body (sp_start sp) (sp_end sp)))"
    unfolding span_sound_def by blast
  have b: "boundary body (sp_start sp)" "boundary body (sp_end sp)" "start \<le> sp_start sp" "sp_start sp \<le> sp_end sp"
    "sp_end sp \<le> length body"
    using sound Cons.prems(3) by (auto simp: span_sound_def boundary_le)
  have drop_seg: "drop i body = segment body i (length body)" for i by (simp add: segment_def)
  have split: "rows (drop start body) = rows (segment body start (sp_start sp))
      @ rows (segment body (sp_start sp) (sp_end sp)) @ rows (drop (sp_end sp) body)"
    unfolding drop_seg
    using rows_segment_append [of start "sp_start sp" "length body" body]
      rows_segment_append [of "sp_start sp" "sp_end sp" "length body" body] b by simp
  have "spans_ok H body sps" "\<forall>x \<in> set sps. sp_end sp \<le> sp_start x"
    using Cons.prems(1) by (auto simp: spans_ok_def)
  with Cons.IH [of "sp_end sp"] b(2) u split show ?case by simp
qed simp

section \<open>Complete units\<close>

lemma complete_units_ok:
  assumes "index_ok hash H idx" and "(src, raw) \<in> set (complete_units idx limit)"
  shows "H src = Some (map Some (rows raw))"
proof -
  from assms(2) obtain p where p: "p \<in> set (ix_pieces idx)" "p_complete p" "src = p_source p" "raw = p_text p"
    by (auto simp: complete_units_def dest!: in_set_takeD)
  with assms(1) have "piece_ok H p" by (simp add: index_ok_def)
  with p(2) obtain u where u: "H (p_source p) = Some u" "stands_at u 1 (p_text p)" "row_count (p_text p) = length u"
    by (auto simp: piece_ok_def)
  then have "u = map Some (rows (p_text p))" by (simp add: stands_at_def)
  with u(1) p show ?thesis by simp
qed

text \<open>What an edited projection holds: the edits of a complete earlier body.\<close>

definition edited_ok :: "history \<Rightarrow> string \<Rightarrow> string \<Rightarrow> result \<Rightarrow> bool" where
  "edited_ok H header body r \<longleftrightarrow> (\<exists>src raw es. H src = Some (map Some (rows raw)) \<and> edits_in raw es 0
     \<and> patch raw es 0 = body \<and> edit_text header src es = Some (rs_text r)) \<and> threshold \<le> rs_repeated_bytes r"

lemma weigh_edit_best:
  "es_best (weigh_edit tok header body baseline candidate repeated lines st) \<in>
     {es_best st, \<lparr>rs_text = candidate, rs_occurrences = 1, rs_repeated_lines = lines,
        rs_body_bytes = length body, rs_repeated_bytes = repeated\<rparr>}"
proof -
  obtain st1 where st1: "st1 = (if es_baseline st then st
      else case count_tokens tok baseline (es_savings st) of (n, sv) \<Rightarrow>
        st\<lparr>es_best_tokens := n, es_baseline := True, es_savings := sv\<rparr>)" "es_best st1 = es_best st"
    by (simp split: prod.split)
  obtain tokens sv where count: "count_tokens tok candidate (es_savings st1) = (tokens, sv)" by fastforce
  show ?thesis
    unfolding weigh_edit_def st1(1) [symmetric] Let_def count using st1(2) by (simp split: prod.split)
qed

lemma try_edit_best:
  assumes "H (fst unit) = Some (map Some (rows (snd unit)))" and "valid_utf8 body"
    and "es_best st = empty_result \<or> edited_ok H header body (es_best st)"
  shows "es_best (try_edit tok header body baseline unit st) = empty_result
    \<or> edited_ok H header body (es_best (try_edit tok header body baseline unit st))"
proof -
  obtain src raw where unit: "unit = (src, raw)" by (cases unit)
  obtain planned w where plan: "plan_edits raw body (es_work st) = (planned, w)" by fastforce
  show ?thesis
  proof (cases "es_work st \<le> 0 \<or> \<not> valid_utf8 raw \<or> planned = None \<or> planned = Some []")
    case True
    then show ?thesis using assms(3) plan by (auto simp: try_edit_def unit Let_def)
  next
    case False
    then obtain edits where edits: "planned = Some edits" "edits \<noteq> []" and raw: "valid_utf8 raw" by auto
    obtain rebuilt repeated lines where rec: "reconstruct raw body edits = (rebuilt, repeated, lines)"
      by (metis prod_cases3)
    from plan_edits_ok [OF raw assms(2) plan [unfolded edits(1)]]
    have ok: "edits_in raw edits 0" "patch raw edits 0 = body" by simp_all
    show ?thesis
    proof (cases "edit_text header src edits")
      case None
      then show ?thesis using assms(3) plan edits rec False by (simp add: try_edit_def unit Let_def)
    next
      case (Some candidate)
      have "edited_ok H header body \<lparr>rs_text = candidate, rs_occurrences = 1, rs_repeated_lines = lines,
          rs_body_bytes = length body, rs_repeated_bytes = repeated\<rparr>" if "threshold \<le> repeated"
        using assms(1) ok Some that unfolding edited_ok_def unit by auto
      moreover have "try_edit tok header body baseline unit st =
          (if rebuilt \<noteq> body \<or> repeated < threshold then st\<lparr>es_work := w\<rparr>
           else weigh_edit tok header body baseline candidate repeated lines (st\<lparr>es_work := w\<rparr>))"
        using plan edits rec Some False by (simp add: try_edit_def unit Let_def)
      ultimately show ?thesis
        using assms(3) weigh_edit_best [of tok header body baseline candidate repeated lines "st\<lparr>es_work := w\<rparr>"]
        by (cases "rebuilt \<noteq> body \<or> repeated < threshold") auto
    qed
  qed
qed

lemma edit_projection_ok:
  assumes "index_ok hash H idx" and "edit_projection tok header body baseline idx sv = (Some r, sv')"
  shows "edited_ok H header body r"
proof -
  define st0 where "st0 = \<lparr>es_work = edit_work, es_best = empty_result, es_best_tokens = 0, es_original = - 1,
    es_baseline = False, es_savings = sv\<rparr>"
  have valid: "valid_utf8 body"
    and r: "r = es_best (fold (try_edit tok header body baseline) (complete_units idx edit_candidates) st0)" "rs_text r \<noteq> ''''"
    using assms(2) by (auto simp: edit_projection_def Let_def st0_def split: if_splits)
  have "es_best (fold (try_edit tok header body baseline) us st) = empty_result
      \<or> edited_ok H header body (es_best (fold (try_edit tok header body baseline) us st))"
    if "set us \<subseteq> set (complete_units idx edit_candidates)" "es_best st = empty_result \<or> edited_ok H header body (es_best st)" for us st
    using that
  proof (induction us arbitrary: st)
    case (Cons unit us)
    have "H (fst unit) = Some (map Some (rows (snd unit)))"
      using complete_units_ok [OF assms(1), of "fst unit" "snd unit" edit_candidates] Cons.prems(1) by simp
    from try_edit_best [OF this valid Cons.prems(2)] Cons show ?case by simp
  qed simp
  from this [of "complete_units idx edit_candidates" st0] r show ?thesis
    by (auto simp: st0_def empty_result_def)
qed

section \<open>The gate\<close>

definition gate_ok :: "nat \<Rightarrow> gate_state \<Rightarrow> bool" where
  "gate_ok src g \<longleftrightarrow> gt_anchor g \<in> {'''', anchor_text src}
     \<and> (\<forall>sp. gt_admissions g sp \<noteq> None \<longrightarrow> gt_anchor g \<noteq> '''')"

definition denied :: "nat \<Rightarrow> gate_state \<Rightarrow> run_visit \<Rightarrow> bool" where
  "denied src g v \<longleftrightarrow> (case retained_run (rv_text v) (rv_row v) (rv_skip v) of (s, first, start, count) \<Rightarrow>
     count = 0 \<or> gt_admissions g (run_span src (rv_rows v) s first) = Some False)"

lemma anchor_text_nonempty [simp]: "anchor_text src \<noteq> ''''"
  by (simp add: anchor_text_def)

lemma admit_run_ok:
  assumes "admit_run tok sp run g = (ok, g')" and "gate_ok (sp_source sp) g"
  shows "gate_ok (sp_source sp) g' \<and> gt_admissions g' sp = Some ok
    \<and> (\<forall>x b. gt_admissions g x = Some b \<longrightarrow> gt_admissions g' x = Some b)"
proof (cases "gt_admissions g sp")
  case (Some b)
  with assms show ?thesis by (simp add: admit_run_def)
next
  case None
  then show ?thesis
    using assms by (auto simp: admit_run_def Let_def gate_ok_def split: prod.splits if_splits)
qed

lemma can_add_ok:
  assumes "gate_ok src g" and "adm \<longrightarrow> gt_anchor g \<noteq> ''''"
    and "fold (can_add_run src (Some (admit_run tok))) vs (adm, g) = (add, g')"
  shows "gate_ok src g' \<and> (add \<longrightarrow> gt_anchor g' \<noteq> '''') \<and> (\<not> add \<longrightarrow> \<not> adm \<and> (\<forall>v \<in> set vs. denied src g' v))
    \<and> (\<forall>x b. gt_admissions g x = Some b \<longrightarrow> gt_admissions g' x = Some b)"
  using assms
proof (induction vs arbitrary: adm g)
  case (Cons v vs)
  obtain s first start count where r: "retained_run (rv_text v) (rv_row v) (rv_skip v) = (s, first, start, count)"
    by (metis prod_cases4)
  obtain ok g1 where gate: "admit_run tok (run_span src (rv_rows v) s first) s g = (ok, g1)" by fastforce
  have src: "sp_source (run_span src (rv_rows v) s first) = src" by (simp add: run_span_def Let_def)
  show ?case
  proof (cases "count = 0")
    case True
    then have "can_add_run src (Some (admit_run tok)) v (adm, g) = (adm, g)" using r by (simp add: can_add_run_def)
    with Cons.IH [OF Cons.prems(1,2)] Cons.prems(3) r True show ?thesis by (simp add: denied_def)
  next
    case False
    have step: "can_add_run src (Some (admit_run tok)) v (adm, g) = (adm \<or> ok, g1)"
      using r gate False by (simp add: can_add_run_def ask_gate_def)
    note G = admit_run_ok [OF gate, unfolded src, OF Cons.prems(1)]
    have "gt_anchor g1 \<noteq> ''''" using G unfolding gate_ok_def by blast
    with Cons.IH [of g1 "adm \<or> ok"] G Cons.prems(3) step
    have IH: "gate_ok src g' \<and> (add \<longrightarrow> gt_anchor g' \<noteq> '''') \<and> (\<not> add \<longrightarrow> \<not> (adm \<or> ok) \<and> (\<forall>v \<in> set vs. denied src g' v))
      \<and> (\<forall>x b. gt_admissions g1 x = Some b \<longrightarrow> gt_admissions g' x = Some b)" by simp
    with G r show ?thesis by (auto simp: denied_def)
  qed
qed simp

lemma add_run_denied:
  assumes "index_ok hash H idx" and "window_ok idx" and "denied src g v"
    and "add_run hash src (Some (admit_run tok)) v (idx, g) = (idx', g')"
  shows "index_ok hash H idx' \<and> window_ok idx' \<and> g' = g"
proof -
  obtain ev where ev: "evict hash (idx\<lparr>ix_bytes := ix_bytes idx + length (rv_text v)\<rparr>) = ev"
    "index_ok hash H ev" "window_ok ev"
    using evict_ok [OF assms(1,2)] by blast
  obtain s first start count where r: "retained_run (rv_text v) (rv_row v) (rv_skip v) = (s, first, start, count)"
    by (metis prod_cases4)
  have "admit_run tok (run_span src (rv_rows v) s first) s g = (False, g)" if "count \<noteq> 0"
    using assms(3) r that by (simp add: denied_def admit_run_def)
  then have "idx' = ev \<and> g' = g"
    using assms(4) by (auto simp: add_run_def Let_def ev(1) r ask_gate_def split: if_splits)
  with ev show ?thesis by simp
qed

lemma add_unit_denied:
  assumes "index_ok hash H idx" and "window_ok idx" and "\<forall>v \<in> set (visit_runs pj). denied src g v"
    and "add_unit hash src pj (Some (admit_run tok)) (idx, g) = ((idx', g'), kept)"
  shows "index_ok hash H idx' \<and> window_ok idx'"
proof -
  have "fold (add_run hash src (Some (admit_run tok))) vs (idx, g) = (idx', g') \<Longrightarrow> index_ok hash H idx' \<and> window_ok idx'"
    if "index_ok hash H idx" "window_ok idx" "\<forall>v \<in> set vs. denied src g v" for vs idx
    using that
  proof (induction vs arbitrary: idx)
    case (Cons v vs)
    obtain idx1 g1 where one: "add_run hash src (Some (admit_run tok)) v (idx, g) = (idx1, g1)" by fastforce
    with add_run_denied [OF Cons.prems(2,3) _ one] Cons show ?case by simp
  qed simp
  with assms show ?thesis by (simp add: add_unit_def Let_def)
qed

section \<open>Text\<close>

lemma accept_spans_ok:
  "spans_ok H body sps \<Longrightarrow> spans_ok H body (fst (accept_spans tok body sps sv)) \<and> set (fst (accept_spans tok body sps sv)) \<subseteq> set sps"
proof (induction sps arbitrary: sv)
  case (Cons sp sps)
  define run where "run = segment body (sp_start sp) (sp_end sp)"
  obtain a sv1 where a: "count_tokens tok run sv = (a, sv1)" by fastforce
  obtain b sv2 where b: "count_tokens tok (reference_text sp run) sv1 = (b, sv2)" by fastforce
  obtain rest sv3 where rest: "accept_spans tok body sps sv2 = (rest, sv3)" by fastforce
  have "spans_ok H body sps" using Cons.prems by (simp add: spans_ok_def)
  from Cons.IH [OF this, of sv2] rest have "spans_ok H body rest" "set rest \<subseteq> set sps" by simp_all
  with Cons.prems a b rest show ?case by (auto simp: run_def [symmetric] Let_def spans_ok_def)
qed simp

lemma span_bytes_0: "spans_ok H body sps \<Longrightarrow> span_bytes sps = 0 \<Longrightarrow> sps = []"
  by (cases sps) (auto simp: span_bytes_def spans_ok_def span_sound_def threshold_def)

text \<open>The state of a pass: its index, its numbering and its exact references.\<close>

definition explains :: "history \<Rightarrow> string \<Rightarrow> string \<Rightarrow> bool" where
  "explains H reference body \<longleftrightarrow> (\<exists>us. us \<noteq> [] \<and> concat (map snd us) = body
     \<and> (\<forall>(src, b) \<in> set us. H src = Some (map Some (rows b)))
     \<and> reference = join [newline] (map (\<lambda>(src, b). ''See O'' @ nat_dec src) us)
         @ (if suffix [newline] body then [newline] else ''''))"

definition pass_ok :: "hashing \<Rightarrow> history \<Rightarrow> pass \<Rightarrow> bool" where
  "pass_ok hash H ps \<longleftrightarrow> index_ok hash H (ps_index ps) \<and> window_ok (ps_index ps)
     \<and> (\<forall>src u. H src = Some u \<longrightarrow> 1 \<le> src \<and> src \<le> ps_sources ps)
     \<and> (\<forall>body reference. ps_exact ps body = Some reference \<longrightarrow> explains H reference body)"

lemma pass_ok_sources: "pass_ok hash H ps \<Longrightarrow> H (ps_sources ps + 1) = None"
proof (rule ccontr)
  assume "pass_ok hash H ps" and "H (ps_sources ps + 1) \<noteq> None"
  then obtain u where "H (ps_sources ps + 1) = Some u" and "\<forall>src u. H src = Some u \<longrightarrow> src \<le> ps_sources ps"
    unfolding pass_ok_def by blast
  then have "ps_sources ps + 1 \<le> ps_sources ps" by blast
  then show False by simp
qed

lemma map_le_Some: "H \<subseteq>\<^sub>m H' \<Longrightarrow> H src = Some u \<Longrightarrow> H' src = Some u"
  by (metis domI map_le_def)

lemma explains_le: "explains H reference body \<Longrightarrow> H \<subseteq>\<^sub>m H' \<Longrightarrow> explains H' reference body"
proof -
  assume "explains H reference body" and le: "H \<subseteq>\<^sub>m H'"
  then obtain us where us: "us \<noteq> []" "concat (map snd us) = body" "\<forall>(src, b) \<in> set us. H src = Some (map Some (rows b))"
    "reference = join [newline] (map (\<lambda>(src, b). ''See O'' @ nat_dec src) us) @ (if suffix [newline] body then [newline] else '''')"
    unfolding explains_def by blast
  from us(3) have "\<forall>(src, b) \<in> set us. H' src = Some (map Some (rows b))" using map_le_Some [OF le] by blast
  with us show ?thesis unfolding explains_def by blast
qed

lemma new_pass_ok: "pass_ok hash Map.empty (new_pass sv)"
  using index_ok_new by (simp add: pass_ok_def new_pass_def window_ok_def new_index_def)

text \<open>The ways a text is delivered: marked spans, with or without an anchor, or edits.\<close>

definition is_delivered :: "history \<Rightarrow> string \<Rightarrow> string \<Rightarrow> result \<Rightarrow> bool" where
  "is_delivered H header body r \<longleftrightarrow>
     (\<exists>sps. spans_ok H body sps \<and> rs_text r = header @ marked_from body sps 0 \<and> rs_repeated_bytes r = span_bytes sps)
     \<or> edited_ok H header body r"

definition is_anchored :: "history \<Rightarrow> nat \<Rightarrow> string \<Rightarrow> string \<Rightarrow> result \<Rightarrow> history \<Rightarrow> bool" where
  "is_anchored H src header body r H' \<longleftrightarrow> (\<exists>sps. spans_ok H body sps
     \<and> rs_text r = header @ anchor_text src @ marked_from body sps 0 \<and> rs_repeated_bytes r = span_bytes sps
     \<and> H' = H(src \<mapsto> unit_rows \<lparr>pj_spans = sps, pj_text = body\<rparr>))"

lemma pass_ok_index:
  assumes "pass_ok hash H ps" and "index_ok hash H idx" and "window_ok idx"
  shows "pass_ok hash H (ps\<lparr>ps_index := idx, ps_savings := sv\<rparr>)"
  using assms by (simp add: pass_ok_def)

lemma pass_ok_anchored:
  assumes "pass_ok hash H ps" and "index_ok hash (H(ps_sources ps + 1 \<mapsto> u)) idx" and "window_ok idx"
  shows "pass_ok hash (H(ps_sources ps + 1 \<mapsto> u)) (ps\<lparr>ps_index := idx, ps_sources := ps_sources ps + 1, ps_savings := sv\<rparr>)"
proof -
  have "H \<subseteq>\<^sub>m H(ps_sources ps + 1 \<mapsto> u)" using pass_ok_sources [OF assms(1)] by (auto simp: map_le_def dom_def)
  then show ?thesis using assms explains_le by (fastforce simp: pass_ok_def)
qed

text \<open>A text above the threshold, with the results of its steps named.\<close>

definition text_result :: "string \<Rightarrow> string \<Rightarrow> span list \<Rightarrow> bool \<Rightarrow> gate_state \<Rightarrow> result" where
  "text_result header body sps add g = \<lparr>rs_text = header @ (if add then gt_anchor g else '''') @ marked_from body sps 0,
     rs_occurrences = (if sps = [] then 0 else 1), rs_repeated_lines = span_lines body sps,
     rs_body_bytes = length body, rs_repeated_bytes = span_bytes sps\<rparr>"

lemma pass_text_run:
  assumes "\<not> length body < threshold"
    and p: "project hash (ps_index ps) body = Some \<lparr>pj_spans = found, pj_text = body\<rparr>"
    and a: "accept_spans tok body found (ps_savings ps) = (sps, sv)"
    and c: "(if span_bytes sps < length body
        then can_add (ps_sources ps + 1) \<lparr>pj_spans = sps, pj_text = body\<rparr> (Some (admit_run tok)) (new_gate sv)
        else (False, new_gate sv)) = (add, g)"
    and e: "edit_projection tok header body (rs_text (text_result header body sps add g)) (ps_index ps) (gt_savings g) = (e, sv')"
    and u: "add_unit hash (ps_sources ps + 1) \<lparr>pj_spans = sps, pj_text = body\<rparr> (Some (admit_run tok))
        (ps_index ps, g\<lparr>gt_savings := sv'\<rparr>) = ((idx, g'), kept)"
  shows "pass_text hash tok header body ps =
      (case e of Some edited \<Rightarrow> Some (edited, ps\<lparr>ps_savings := sv'\<rparr>)
       | None \<Rightarrow> if span_bytes sps < length body
           then Some (text_result header body sps add g, ps\<lparr>ps_index := idx,
             ps_sources := (if add then ps_sources ps + 1 else ps_sources ps), ps_savings := gt_savings g'\<rparr>)
           else Some (text_result header body sps add g, ps\<lparr>ps_savings := sv'\<rparr>))"
proof -
  have rec: "pj_spans \<lparr>pj_spans = found, pj_text = body\<rparr> = found"
    "\<lparr>pj_spans = found, pj_text = body\<rparr>\<lparr>pj_spans := sps\<rparr> = \<lparr>pj_spans = sps, pj_text = body\<rparr>" by simp_all
  have shown: "header @ (if add then gt_anchor g else '''') @ marked_from body sps 0 = rs_text (text_result header body sps add g)"
    by (simp add: text_result_def)
  show ?thesis
    unfolding pass_text_def if_not_P [OF assms(1)] p option.case rec(1) a prod.case Let_def rec(2) c shown e u
    by (cases e) (simp_all add: text_result_def)
qed

lemma pass_text_ok:
  assumes "pass_ok hash H ps"
  shows "\<exists>r ps' H'. pass_text hash tok header body ps = Some (r, ps') \<and> pass_ok hash H' ps' \<and> ps_exact ps' = ps_exact ps
    \<and> (ps_sources ps' = ps_sources ps \<and> H' = H \<and> is_delivered H header body r
       \<or> ps_sources ps' = ps_sources ps + 1 \<and> is_anchored H (ps_sources ps + 1) header body r H')"
proof (cases "length body < threshold")
  case True
  have "is_delivered H header body (empty_result\<lparr>rs_text := header @ body, rs_body_bytes := length body\<rparr>)"
    unfolding is_delivered_def
    by (intro disjI1 exI [of _ "[]"]) (simp add: spans_ok_def span_bytes_def empty_result_def)
  with True assms show ?thesis by (intro exI) (auto simp: pass_text_def)
next
  case False
  have ix: "index_ok hash H (ps_index ps)" "window_ok (ps_index ps)" using assms by (simp_all add: pass_ok_def)
  obtain found where p: "project hash (ps_index ps) body = Some \<lparr>pj_spans = found, pj_text = body\<rparr>" "spans_ok H body found"
    using project_ok [OF ix(1)] by blast
  obtain sps sv where a: "accept_spans tok body found (ps_savings ps) = (sps, sv)" by fastforce
  have sps: "spans_ok H body sps" using accept_spans_ok [OF p(2), of tok "ps_savings ps"] a by simp
  define pj where "pj = \<lparr>pj_spans = sps, pj_text = body\<rparr>"
  define src where "src = ps_sources ps + 1"
  define gate where "gate = Some (admit_run tok)"
  obtain add g where c: "(if span_bytes sps < length body then can_add src pj gate (new_gate sv) else (False, new_gate sv)) = (add, g)"
    by fastforce
  have g0: "gate_ok src (new_gate sv)" by (simp add: gate_ok_def new_gate_def)
  have anchor: "gt_anchor g = anchor_text src" if "add"
    using can_add_ok [OF g0, of False tok "visit_runs pj" add g] c that
    by (auto simp: can_add_def gate_def gate_ok_def split: if_splits)
  have den: "\<forall>v \<in> set (visit_runs pj). denied src g v" if "\<not> add" "span_bytes sps < length body"
    using can_add_ok [OF g0, of False tok "visit_runs pj" add g] c that by (simp add: can_add_def gate_def)
  define r where "r = text_result header body sps add g"
  obtain e sv' where e: "edit_projection tok header body (rs_text r) (ps_index ps) (gt_savings g) = (e, sv')" by fastforce
  obtain idx g' kept where u: "add_unit hash src pj gate (ps_index ps, g\<lparr>gt_savings := sv'\<rparr>) = ((idx, g'), kept)"
    by (metis prod_cases3 prod.collapse)
  note run = pass_text_run [OF False p(1) a c [unfolded src_def pj_def gate_def] e [unfolded r_def]
      u [unfolded src_def pj_def gate_def], folded src_def r_def]
  have plain: "is_delivered H header body r" if "\<not> add"
    unfolding is_delivered_def using sps that by (intro disjI1 exI [of _ sps]) (simp add: r_def text_result_def)
  show ?thesis
  proof (cases e)
    case (Some edited)
    have "is_delivered H header body edited"
      unfolding is_delivered_def using edit_projection_ok [OF ix(1)] e Some by blast
    moreover have "pass_ok hash H (ps\<lparr>ps_savings := sv'\<rparr>)" using assms by (simp add: pass_ok_def)
    ultimately show ?thesis using run Some by (intro exI) auto
  next
    case None
    consider "span_bytes sps < length body" "add" | "span_bytes sps < length body" "\<not> add" | "\<not> span_bytes sps < length body" by blast
    then show ?thesis
    proof cases
      case 1
      have fresh: "\<forall>p \<in> set (ix_pieces (ps_index ps)). p_source p \<noteq> src"
        using ix(1) pass_ok_sources [OF assms] by (auto simp: index_ok_def piece_ok_def src_def)
      have placed: "spans_placed (pj_text pj) (pj_spans pj) 0"
        using spans_ok_placed [OF sps, of 0] by (simp add: pj_def)
      from add_unit_ok [OF ix fresh placed u]
      have "index_ok hash (H(src \<mapsto> unit_rows pj)) idx" "window_ok idx" by simp_all
      from pass_ok_anchored [OF assms this [unfolded src_def]]
      have "pass_ok hash (H(src \<mapsto> unit_rows pj)) (ps\<lparr>ps_index := idx, ps_sources := src, ps_savings := gt_savings g'\<rparr>)"
        by (simp add: src_def)
      moreover have "is_anchored H src header body r (H(src \<mapsto> unit_rows pj))"
        unfolding is_anchored_def using sps anchor [OF 1(2)] 1(2)
        by (intro exI [of _ sps]) (simp add: r_def text_result_def pj_def)
      ultimately show ?thesis using run None 1 by (intro exI) (auto simp: src_def)
    next
      case 2
      have "\<forall>v \<in> set (visit_runs pj). denied src (g\<lparr>gt_savings := sv'\<rparr>) v"
        using den [OF 2(2,1)] by (simp add: denied_def)
      from add_unit_denied [OF ix this u [unfolded gate_def]]
      have "index_ok hash H idx" "window_ok idx" by simp_all
      from pass_ok_index [OF assms this] plain [OF 2(2)] run None 2 show ?thesis
        by (intro exI [of _ r] exI [of _ "ps\<lparr>ps_index := idx, ps_savings := gt_savings g'\<rparr>"] exI [of _ H]) simp
    next
      case 3
      then have "\<not> add" using c by auto
      moreover have "pass_ok hash H (ps\<lparr>ps_savings := sv'\<rparr>)" using assms by (simp add: pass_ok_def)
      ultimately show ?thesis using run None 3 plain by (intro exI) auto
    qed
  qed
qed

end
