(* ===== verification/Dedup_Reading.thy ===== *)
theory Dedup_Reading
  imports Dedup_Lossless
begin

text \<open>
  A run of operations of a pass together with what a reader of the request has seen: the
  text shown after every anchor.  The reader follows a marker to rows of the text shown
  under its number, an edit list to the text it edits, and an exact reference to the texts
  it names; all of them give the body back.
\<close>

section \<open>The rows of marked text\<close>

lemma nat_dec_no_newline: "newline \<notin> set (nat_dec n)"
  using nat_dec_digits [of n] is_digit_not by (auto simp: list_all_iff)

lemma reference_text_row:
  "rows (reference_text sp run) = [reference_text sp run] \<and> (last (reference_text sp run) = newline \<longleftrightarrow> suffix [newline] run)"
proof -
  define r where "r = ''See O'' @ nat_dec (sp_source sp)
     @ (if sp_whole sp then ''''
        else if sp_first sp = sp_last sp then '':'' @ nat_dec (sp_first sp)
        else '':'' @ nat_dec (sp_first sp) @ ''-'' @ nat_dec (sp_last sp))"
  have r: "r \<noteq> []" "newline \<notin> set r" using nat_dec_no_newline by (auto simp: r_def)
  have ref: "reference_text sp run = r @ (if suffix [newline] run then [newline] else [])"
    by (simp add: reference_text_def r_def)
  show ?thesis
  proof (cases "suffix [newline] run")
    case True
    then show ?thesis using rows_line [OF r(2), of "[]"] by (simp add: ref)
  next
    case False
    have "last r \<noteq> newline" using r by (metis last_in_set)
    with False show ?thesis using rows_single [OF r(2,1)] by (simp add: ref)
  qed
qed

text \<open>A delivered row is the marker of a span or the verbatim row.\<close>

definition displays :: "string option list \<Rightarrow> string \<Rightarrow> bool" where
  "displays u s \<longleftrightarrow> list_all2 (\<lambda>x l. x = None \<or> x = Some l) u (rows s)"

lemma displays_rows: "displays (map Some (rows s)) s"
  by (simp add: displays_def list_all2_conv_all_nth)

lemma displays_append:
  assumes "displays u s" and "displays v t" and "s = [] \<or> last s = newline"
  shows "displays (u @ v) (s @ t)"
  using assms by (simp add: displays_def rows_append list_all2_appendI)

lemma segment_ends_line:
  assumes "boundary s j" and "i \<le> j" and "j < length s \<or> i = j"
  shows "segment s i j = [] \<or> last (segment s i j) = newline"
proof (cases "i = j")
  case False
  with assms have "j \<le> length s" "s ! (j - 1) = newline" by (auto simp: boundary_def)
  moreover have "segment s i j \<noteq> []" using False assms(2) \<open>j \<le> length s\<close> by (simp add: segment_def)
  ultimately show ?thesis using False assms(2) by (simp add: last_conv_nth segment_length segment_nth)
qed simp

lemma displays_unit_from:
  "spans_placed body sps start \<Longrightarrow> displays (unit_from body sps start) (marked_from body sps start)"
proof (induction sps arbitrary: start)
  case (Cons sp sps)
  define run where "run = segment body (sp_start sp) (sp_end sp)"
  define tail where "tail = marked_from body sps (sp_end sp)"
  have e: "boundary body (sp_end sp)" "sp_start sp < sp_end sp" "start \<le> sp_start sp" "boundary body (sp_start sp)"
    using Cons.prems spans_placed_boundary by auto
  then have le: "sp_start sp < length body" "sp_end sp \<le> length body" by (auto simp: boundary_le dest: boundary_le)
  have ref: "displays [None] (reference_text sp run)"
    using reference_text_row [of sp run] by (simp add: displays_def)
  have "displays (None # unit_from body sps (sp_end sp)) (reference_text sp run @ tail)"
  proof (cases "sp_end sp = length body")
    case True
    have "sps = []"
    proof (cases sps)
      case (Cons a list)
      then have "sp_end sp \<le> sp_start a" "sp_start a < sp_end a" "boundary body (sp_end a)"
        using Cons.prems spans_placed_boundary [of body list "sp_end a"] by auto
      with True show ?thesis using boundary_le by fastforce
    qed simp
    then show ?thesis using ref True by (simp add: tail_def)
  next
    case False
    have "last run = newline" "run \<noteq> []"
      using segment_ends_line [OF e(1), of "sp_start sp"] e(2) le False by (auto simp: run_def segment_def)
    then have "suffix [newline] run" by (metis append_butlast_last_id suffixI)
    then have "last (reference_text sp run) = newline" using reference_text_row by blast
    from displays_append [OF ref, of "unit_from body sps (sp_end sp)" tail] this Cons.IH [of "sp_end sp"] Cons.prems
    show ?thesis by (simp add: tail_def)
  qed
  moreover have "segment body start (sp_start sp) = [] \<or> last (segment body start (sp_start sp)) = newline"
    using segment_ends_line [OF e(4,3)] le(1) by blast
  ultimately show ?case
    using displays_append [OF displays_rows [of "segment body start (sp_start sp)"]] by (simp add: run_def tail_def)
qed (simp add: displays_rows)

section \<open>The reader\<close>

text \<open>The texts shown, by their numbers.\<close>

type_synonym view = "nat \<rightharpoonup> string"

text \<open>The contents of the rows a reader of a marked body finds.\<close>

fun reader_rows :: "view \<Rightarrow> string \<Rightarrow> span list \<Rightarrow> nat \<Rightarrow> string list" where
  "reader_rows V body [] start = map row_text (rows (drop start body))"
| "reader_rows V body (sp # sps) start =
     map row_text (rows (segment body start (sp_start sp)))
     @ map row_text (segment (rows (the (V (sp_source sp)))) (sp_first sp - 1) (sp_last sp))
     @ reader_rows V body sps (sp_end sp)"

definition reads_marked :: "view \<Rightarrow> string \<Rightarrow> string \<Rightarrow> bool" where
  "reads_marked V s body \<longleftrightarrow> (\<exists>sps. s = marked_from body sps 0 \<and> spans_placed body sps 0
     \<and> (\<forall>sp \<in> set sps. V (sp_source sp) \<noteq> None) \<and> reader_rows V body sps 0 = map row_text (rows body))"

definition reads_edits :: "view \<Rightarrow> string \<Rightarrow> string \<Rightarrow> bool" where
  "reads_edits V s body \<longleftrightarrow> (\<exists>src raw es. V src = Some raw \<and> edit_text '''' src es = Some s
     \<and> fst (reconstruct raw body es) = body)"

definition reads_exact :: "view \<Rightarrow> string \<Rightarrow> string \<Rightarrow> bool" where
  "reads_exact V s body \<longleftrightarrow> (\<exists>us. us \<noteq> [] \<and> (\<forall>(src, b) \<in> set us. V src = Some b) \<and> concat (map snd us) = body
     \<and> s = join [newline] (map (\<lambda>(src, b). ''See O'' @ nat_dec src) us) @ (if suffix [newline] body then [newline] else ''''))"

text \<open>The view of the units of a history.\<close>

definition viewed :: "view \<Rightarrow> history \<Rightarrow> bool" where
  "viewed V H \<longleftrightarrow> (\<forall>src u. H src = Some u \<longrightarrow> (\<exists>s. V src = Some s \<and> displays u s))"

lemma shown_segment:
  assumes "displays u s" and "map (map_option row_text) (segment u i j) = map (Some \<circ> row_text) ls" and "j \<le> length u"
  shows "map row_text (segment (rows s) i j) = map row_text ls"
proof -
  have len: "length (rows s) = length u" using assms(1) by (simp add: displays_def list_all2_lengthD)
  have lens: "length (segment u i j) = length ls" using arg_cong [OF assms(2), of length] by simp
  have "map row_text (segment (rows s) i j) ! k = map row_text ls ! k" if k: "k < length ls" for k
  proof -
    have kk: "k < j - i" "i + k < length u" using k lens assms(3) by (auto simp: segment_def)
    have "map_option row_text (segment u i j ! k) = Some (row_text (ls ! k))"
      using arg_cong [OF assms(2), of "\<lambda>xs. xs ! k"] k lens by simp
    then have "map_option row_text (u ! (i + k)) = Some (row_text (ls ! k))" using kk assms(3) by (simp add: segment_nth)
    moreover have "u ! (i + k) = None \<or> u ! (i + k) = Some (rows s ! (i + k))"
      using assms(1) kk(2) by (simp add: displays_def list_all2_conv_all_nth)
    ultimately show ?thesis using kk assms(3) len k lens by (auto simp: segment_nth segment_length)
  qed
  moreover have "length (segment (rows s) i j) = length ls" using lens assms(3) len by (simp add: segment_length)
  ultimately show ?thesis by (intro nth_equalityI) simp_all
qed

lemma reader_rows_ok:
  assumes "viewed V H" and "spans_ok H body sps" and "boundary body start" and "\<forall>sp \<in> set sps. start \<le> sp_start sp"
  shows "reader_rows V body sps start = map row_text (rows (drop start body))"
  using assms(2-)
proof (induction sps arbitrary: start)
  case (Cons sp sps)
  have sound: "span_sound H body sp" using Cons.prems(1) by (simp add: spans_ok_def)
  then obtain u where u: "H (sp_source sp) = Some u" "sp_last sp \<le> length u"
    "map (map_option row_text) (segment u (sp_first sp - 1) (sp_last sp)) =
       map (Some \<circ> row_text) (rows (segment body (sp_start sp) (sp_end sp)))"
    unfolding span_sound_def by blast
  obtain s where s: "V (sp_source sp) = Some s" "displays u s" using assms(1) u(1) unfolding viewed_def by blast
  have here: "map row_text (segment (rows s) (sp_first sp - 1) (sp_last sp)) =
      map row_text (rows (segment body (sp_start sp) (sp_end sp)))" by (rule shown_segment [OF s(2) u(3,2)])
  have b: "boundary body (sp_start sp)" "boundary body (sp_end sp)" "start \<le> sp_start sp" "sp_start sp \<le> sp_end sp"
    "sp_end sp \<le> length body"
    using sound Cons.prems(3) by (auto simp: span_sound_def boundary_le)
  have drop_seg: "drop i body = segment body i (length body)" for i by (simp add: segment_def)
  have split: "rows (drop start body) = rows (segment body start (sp_start sp))
      @ rows (segment body (sp_start sp) (sp_end sp)) @ rows (drop (sp_end sp) body)"
    unfolding drop_seg
    using rows_segment_append [of start "sp_start sp" "length body" body]
      rows_segment_append [of "sp_start sp" "sp_end sp" "length body" body] b by simp
  have "spans_ok H body sps" "\<forall>x \<in> set sps. sp_end sp \<le> sp_start x"
    using Cons.prems(1) by (auto simp: spans_ok_def)
  with Cons.IH [of "sp_end sp"] b(2) s here split show ?case by simp
qed simp

lemma spans_ok_read:
  assumes "viewed V H" and "spans_ok H body sps"
  shows "reads_marked V (marked_from body sps 0) body"
proof -
  have "V (sp_source sp) \<noteq> None" if "sp \<in> set sps" for sp
  proof -
    have "span_sound H body sp" using assms(2) that by (simp add: spans_ok_def list_all_iff)
    then obtain u where "H (sp_source sp) = Some u" unfolding span_sound_def by blast
    with assms(1) show ?thesis unfolding viewed_def by blast
  qed
  then show ?thesis
    using reader_rows_ok [OF assms, of 0] spans_ok_placed [OF assms(2), of 0]
    unfolding reads_marked_def by auto
qed

lemma displays_whole: "displays (map Some (rows raw)) s \<Longrightarrow> s = raw"
proof -
  assume "displays (map Some (rows raw)) s"
  then have "list_all2 (=) (rows raw) (rows s)" by (simp add: displays_def list.rel_map)
  then have "rows raw = rows s" by (simp add: list.rel_eq)
  then show ?thesis by (metis concat_rows)
qed

lemma edit_text_header: "edit_text header src es = map_option (\<lambda>s. header @ s) (edit_text '''' src es)"
  by (simp add: edit_text_def option.map_comp comp_def)

lemma edited_read:
  assumes "viewed V H" and "edited_ok H header body r"
  shows "\<exists>s. rs_text r = header @ s \<and> reads_edits V s body"
proof -
  obtain src raw es where e: "H src = Some (map Some (rows raw))" "edits_in raw es 0" "patch raw es 0 = body"
    "edit_text header src es = Some (rs_text r)"
    using assms(2) unfolding edited_ok_def by blast
  obtain s where s: "V src = Some s" "displays (map Some (rows raw)) s" using assms(1) e(1) unfolding viewed_def by blast
  have "V src = Some raw" using s displays_whole by metis
  moreover have "fst (reconstruct raw body es) = body"
    using reconstruct_patch [OF e(2), of body "''''" 0 0] e(3) by (simp add: reconstruct_def)
  moreover obtain t where "edit_text '''' src es = Some t" "header @ t = rs_text r"
    using e(4) unfolding edit_text_header [of header] by blast
  ultimately show ?thesis unfolding reads_edits_def by metis
qed

lemma explains_read: "viewed V H \<Longrightarrow> explains H reference body \<Longrightarrow> reads_exact V reference body"
proof -
  assume v: "viewed V H" and "explains H reference body"
  then obtain us where us: "us \<noteq> []" "concat (map snd us) = body" "\<forall>(src, b) \<in> set us. H src = Some (map Some (rows b))"
    "reference = join [newline] (map (\<lambda>(src, b). ''See O'' @ nat_dec src) us) @ (if suffix [newline] body then [newline] else '''')"
    unfolding explains_def by blast
  have "\<forall>(src, b) \<in> set us. V src = Some b" using us(3) v displays_whole unfolding viewed_def by (auto split: prod.splits) metis
  with us show ?thesis unfolding reads_exact_def by blast
qed

section \<open>Sources\<close>

lemma join_append: "xs \<noteq> [] \<Longrightarrow> ys \<noteq> [] \<Longrightarrow> join sep (xs @ ys) = join sep xs @ sep @ join sep ys"
proof (induction sep xs rule: join.induct)
  case (2 sep x)
  then show ?case by (cases ys) auto
qed auto

lemma explains_whole: "H n = Some (map Some (rows body)) \<Longrightarrow> explains H (reference_text (whole_span n) body) body"
  unfolding explains_def by (intro exI [of _ "[(n, body)]"]) (simp add: reference_text_def whole_span_def)

text \<open>The result of a source: its reference, or its text, anchored when it is fresh.\<close>

lemma pass_source_ok:
  assumes "pass_ok hash H ps"
  shows "\<exists>r ps' H'. pass_source hash tok header body ps = Some (r, ps') \<and> pass_ok hash H' ps'
    \<and> (ps_sources ps' = ps_sources ps \<and> H' = H
         \<and> (is_delivered H header body r \<or> (\<exists>reference. rs_text r = header @ reference \<and> explains H reference body))
       \<or> ps_sources ps' = ps_sources ps + 1 \<and> is_anchored H (ps_sources ps + 1) header body r H')"
proof -
  have plain: "spans_ok H body []" "span_bytes [] = 0" by (simp_all add: spans_ok_def span_bytes_def)
  consider "body = ''''" | "body \<noteq> ''''" "exact_reference ps body \<noteq> ''''" | "body \<noteq> ''''" "exact_reference ps body = ''''" by blast
  then show ?thesis
  proof cases
    case 1
    have "is_delivered H header body (empty_result\<lparr>rs_text := header\<rparr>)"
      unfolding is_delivered_def using plain 1 by (intro disjI1 exI [of _ "[]"]) (simp add: empty_result_def)
    with assms 1 show ?thesis by (intro exI) (auto simp: pass_source_def)
  next
    case 2
    then have "explains H (exact_reference ps body) body"
      using assms by (auto simp: exact_reference_def pass_ok_def split: option.splits)
    then have "\<exists>reference. rs_text (repeated_source header body (exact_reference ps body)) = header @ reference \<and> explains H reference body"
      by (intro exI [of _ "exact_reference ps body"]) (simp add: repeated_source_def)
    with assms 2 show ?thesis by (intro exI) (auto simp: pass_source_def)
  next
    case 3
    obtain r ps1 H1 where t: "pass_text hash tok header body ps = Some (r, ps1)" "pass_ok hash H1 ps1" "ps_exact ps1 = ps_exact ps"
      and cases: "ps_sources ps1 = ps_sources ps \<and> H1 = H \<and> is_delivered H header body r
       \<or> ps_sources ps1 = ps_sources ps + 1 \<and> is_anchored H (ps_sources ps + 1) header body r H1"
      using pass_text_ok [OF assms, of tok header body] by blast
    show ?thesis
    proof (cases "rs_repeated_bytes r = 0")
      case False
      then have "pass_source hash tok header body ps = Some (r, ps1)" using 3 t by (simp add: pass_source_def)
      with t cases show ?thesis by blast
    next
      case zero: True
      have put: "pass_ok hash H' (ps2\<lparr>ps_exact := (ps_exact ps2)(body \<mapsto> reference_text (whole_span n) body)\<rparr>)"
        if "pass_ok hash H' ps2" "H' n = Some (map Some (rows body))" for H' ps2 n
        using that explains_whole by (auto simp: pass_ok_def)
      from cases show ?thesis
      proof (elim disjE conjE)
        assume same: "ps_sources ps1 = ps_sources ps" "H1 = H"
        define n where "n = ps_sources ps + 1"
        define H' where "H' = H(n \<mapsto> map Some (rows body))"
        have ix: "index_ok hash H (ps_index ps1)" "window_ok (ps_index ps1)" using t(2) same by (simp_all add: pass_ok_def)
        have none: "H n = None" using pass_ok_sources [OF assms] by (simp add: n_def)
        have "\<forall>p \<in> set (ix_pieces (ps_index ps1)). p_source p \<noteq> n"
          using ix(1) none by (auto simp: index_ok_def piece_ok_def)
        from index_ok_numbered [OF ix(1) this, of "map Some (rows body)"] have ix': "index_ok hash H' (ps_index ps1)" by (simp add: H'_def)
        have "H \<subseteq>\<^sub>m H'" using none by (auto simp: map_le_def dom_def H'_def)
        then have "pass_ok hash H' (ps1\<lparr>ps_sources := n\<rparr>)"
          using t(2) ix' ix(2) same explains_le by (fastforce simp: pass_ok_def H'_def n_def)
        from put [OF this, of n]
        have ok: "pass_ok hash H' (ps1\<lparr>ps_sources := n, ps_exact := (ps_exact ps1)(body \<mapsto> reference_text (whole_span n) body)\<rparr>)"
          by (simp add: H'_def)
        have "is_anchored H n header body (r\<lparr>rs_text := header @ anchor_text n @ body\<rparr>) H'"
          unfolding is_anchored_def using plain zero
          by (intro exI [of _ "[]"]) (simp add: H'_def unit_rows_def)
        with ok 3 t same zero show ?thesis
          by (intro exI [of _ "r\<lparr>rs_text := header @ anchor_text n @ body\<rparr>"] exI) (auto simp: pass_source_def Let_def n_def)
      next
        assume new: "ps_sources ps1 = ps_sources ps + 1" "is_anchored H (ps_sources ps + 1) header body r H1"
        then obtain sps where sps: "spans_ok H body sps" "rs_repeated_bytes r = span_bytes sps"
          "H1 = H(ps_sources ps + 1 \<mapsto> unit_rows \<lparr>pj_spans = sps, pj_text = body\<rparr>)"
          unfolding is_anchored_def by blast
        then have "sps = []" using span_bytes_0 zero by metis
        then have "H1 (ps_sources ps1) = Some (map Some (rows body))" using sps(3) new(1) by (simp add: unit_rows_def)
        note put [OF t(2) this]
        moreover have "pass_source hash tok header body ps =
            Some (r, ps1\<lparr>ps_exact := (ps_exact ps1)(body \<mapsto> reference_text (whole_span (ps_sources ps1)) body)\<rparr>)"
          using 3 t(1) new(1) zero by (simp add: pass_source_def Let_def)
        ultimately show ?thesis using new by (intro exI conjI disjI2) (assumption | simp)+
      qed
    qed
  qed
qed

end
