(* ===== verification/Dedup_Runs.thy ===== *)
theory Dedup_Runs
  imports Dedup_Reading
begin

text \<open>
  Whole runs of a pass: operations in any order, together with the view of a reader, who
  notes the text shown under every number.  Every operation returns, keeps the invariant
  and delivers text that the reader can follow back to the bodies.
\<close>

section \<open>Following delivered text\<close>

definition reads :: "view \<Rightarrow> string \<Rightarrow> string \<Rightarrow> string \<Rightarrow> bool" where
  "reads V header body t \<longleftrightarrow>
     (\<exists>s. t = header @ s \<and> (reads_marked V s body \<or> reads_edits V s body \<or> reads_exact V s body))
     \<or> (\<exists>n s. t = header @ anchor_text n @ s \<and> V n = Some s \<and> reads_marked V s body)"

definition see :: "view \<Rightarrow> pass \<Rightarrow> pass \<Rightarrow> string \<Rightarrow> result \<Rightarrow> view" where
  "see V ps ps' header r =
     (if ps_sources ps' = ps_sources ps then V
      else V(ps_sources ps' \<mapsto> drop (length (header @ anchor_text (ps_sources ps'))) (rs_text r)))"

definition shown_ok :: "hashing \<Rightarrow> history \<Rightarrow> view \<Rightarrow> pass \<Rightarrow> bool" where
  "shown_ok hash H V ps \<longleftrightarrow> pass_ok hash H ps \<and> viewed V H \<and> (\<forall>n. V n \<noteq> None \<longrightarrow> n \<le> ps_sources ps)"

lemma shown_ok_fresh: "shown_ok hash H V ps \<Longrightarrow> V (ps_sources ps + 1) = None"
  unfolding shown_ok_def by (metis Suc_eq_plus1 not_less_eq_eq order_refl)

lemma reader_rows_le:
  "V \<subseteq>\<^sub>m V' \<Longrightarrow> \<forall>sp \<in> set sps. V (sp_source sp) \<noteq> None \<Longrightarrow> reader_rows V' body sps start = reader_rows V body sps start"
proof (induction sps arbitrary: start)
  case (Cons sp sps)
  then have "V' (sp_source sp) = V (sp_source sp)" by (auto simp: map_le_def dom_def)
  with Cons show ?case by simp
qed simp

lemma reads_marked_le:
  assumes le: "V \<subseteq>\<^sub>m V'" and "reads_marked V s body"
  shows "reads_marked V' s body"
proof -
  from assms(2) obtain sps where sps: "s = marked_from body sps 0" "spans_placed body sps 0"
    "\<forall>sp \<in> set sps. V (sp_source sp) \<noteq> None" "reader_rows V body sps 0 = map row_text (rows body)"
    unfolding reads_marked_def by blast
  moreover have "\<forall>sp \<in> set sps. V' (sp_source sp) \<noteq> None"
    using sps(3) le unfolding map_le_def by (metis domIff)
  ultimately show ?thesis unfolding reads_marked_def using reader_rows_le [OF le sps(3), of body 0] by metis
qed

lemma view_le_Some: "V \<subseteq>\<^sub>m V' \<Longrightarrow> V n = Some s \<Longrightarrow> V' n = Some (s :: string)"
  by (metis domI map_le_def)

lemma reads_edits_le:
  assumes le: "V \<subseteq>\<^sub>m V'" and "reads_edits V s body"
  shows "reads_edits V' s body"
proof -
  from assms(2) obtain src raw es where e: "V src = Some raw" "edit_text '''' src es = Some s"
    "fst (reconstruct raw body es) = body" unfolding reads_edits_def by blast
  show ?thesis unfolding reads_edits_def by (intro exI conjI) (rule view_le_Some [OF le e(1)], rule e(2), rule e(3))
qed

lemma reads_exact_le:
  assumes le: "V \<subseteq>\<^sub>m V'" and "reads_exact V s body"
  shows "reads_exact V' s body"
proof -
  from assms(2) obtain us where us: "us \<noteq> []" "\<forall>(src, b) \<in> set us. V src = Some b" "concat (map snd us) = body"
    "s = join [newline] (map (\<lambda>(src, b). ''See O'' @ nat_dec src) us) @ (if suffix [newline] body then [newline] else '''')"
    unfolding reads_exact_def by blast
  have "\<forall>(src, b) \<in> set us. V' src = Some b" using us(2) view_le_Some [OF le] by fast
  with us show ?thesis unfolding reads_exact_def by (intro exI [of _ us] conjI)
qed

lemma reads_le:
  assumes le: "V \<subseteq>\<^sub>m V'" and "reads V header body t"
  shows "reads V' header body t"
  using assms(2) [unfolded reads_def]
proof (elim disjE exE conjE)
  fix s assume "t = header @ s" "reads_marked V s body"
  with reads_marked_le [OF le] show ?thesis unfolding reads_def by blast
next
  fix s assume "t = header @ s" "reads_edits V s body"
  with reads_edits_le [OF le] show ?thesis unfolding reads_def by blast
next
  fix s assume "t = header @ s" "reads_exact V s body"
  with reads_exact_le [OF le] show ?thesis unfolding reads_def by blast
next
  fix n s assume "t = header @ anchor_text n @ s" "V n = Some s" "reads_marked V s body"
  with reads_marked_le [OF le] view_le_Some [OF le] show ?thesis unfolding reads_def by blast
qed

lemma is_delivered_reads: "viewed V H \<Longrightarrow> is_delivered H header body r \<Longrightarrow> reads V header body (rs_text r)"
  unfolding is_delivered_def reads_def using spans_ok_read edited_read by blast

section \<open>One source\<close>

lemma shown_ok_anchored:
  assumes ok: "shown_ok hash H V ps" and n: "n = ps_sources ps + 1" and ps': "pass_ok hash H' ps'" "ps_sources ps' = n"
    and anchored: "is_anchored H n header body r H'"
  shows "shown_ok hash H' (see V ps ps' header r) ps'" and "H \<subseteq>\<^sub>m H'" and "V \<subseteq>\<^sub>m see V ps ps' header r"
    and "reads (see V ps ps' header r) header body (rs_text r)"
proof -
  obtain sps where sps: "spans_ok H body sps" "rs_text r = header @ anchor_text n @ marked_from body sps 0"
    "H' = H(n \<mapsto> unit_rows \<lparr>pj_spans = sps, pj_text = body\<rparr>)"
    using anchored unfolding is_anchored_def by blast
  have v: "viewed V H" "pass_ok hash H ps" "V n = None" using ok shown_ok_fresh n by (auto simp: shown_ok_def)
  have h: "H n = None" using pass_ok_sources [OF v(2)] n by simp
  let ?s = "marked_from body sps 0"
  have see: "see V ps ps' header r = V(n \<mapsto> ?s)" using n ps' by (simp add: see_def sps)
  show le: "V \<subseteq>\<^sub>m see V ps ps' header r" using v(3) by (auto simp: see map_le_def dom_def)
  show "H \<subseteq>\<^sub>m H'" using h by (auto simp: sps map_le_def dom_def)
  have "displays (unit_from body sps 0) ?s" by (rule displays_unit_from [OF spans_ok_placed [OF sps(1)]]) simp_all
  then have "viewed (see V ps ps' header r) H'"
    using v(1) by (auto simp: viewed_def see sps unit_rows_def)
  moreover have "\<forall>m. see V ps ps' header r m \<noteq> None \<longrightarrow> m \<le> ps_sources ps'"
    using ok n ps' by (auto simp: shown_ok_def see intro: le_SucI)
  ultimately show "shown_ok hash H' (see V ps ps' header r) ps'" using ps' by (simp add: shown_ok_def)
  have "reads_marked (see V ps ps' header r) ?s body" by (rule reads_marked_le [OF le spans_ok_read [OF v(1) sps(1)]])
  then show "reads (see V ps ps' header r) header body (rs_text r)"
    unfolding reads_def sps(2) by (intro disjI2 exI [of _ n] exI [of _ ?s]) (simp add: see)
qed

definition step_ok :: "hashing \<Rightarrow> history \<Rightarrow> view \<Rightarrow> string \<Rightarrow> string \<Rightarrow> pass \<Rightarrow> result \<Rightarrow> pass \<Rightarrow> history \<Rightarrow> bool" where
  "step_ok hash H V header body ps r ps' H' \<longleftrightarrow> shown_ok hash H' (see V ps ps' header r) ps' \<and> H \<subseteq>\<^sub>m H'
     \<and> V \<subseteq>\<^sub>m see V ps ps' header r \<and> reads (see V ps ps' header r) header body (rs_text r)"

lemma text_step:
  assumes "shown_ok hash H V ps"
  shows "\<exists>r ps' H'. pass_text hash tok header body ps = Some (r, ps') \<and> step_ok hash H V header body ps r ps' H'"
proof -
  obtain r ps' H' where t: "pass_text hash tok header body ps = Some (r, ps')" "pass_ok hash H' ps'"
    and cases: "ps_sources ps' = ps_sources ps \<and> H' = H \<and> is_delivered H header body r
       \<or> ps_sources ps' = ps_sources ps + 1 \<and> is_anchored H (ps_sources ps + 1) header body r H'"
    using assms pass_text_ok unfolding shown_ok_def by meson
  from cases have "step_ok hash H V header body ps r ps' H'"
  proof (elim disjE conjE)
    assume same: "ps_sources ps' = ps_sources ps" "H' = H" and "is_delivered H header body r"
    then have "reads V header body (rs_text r)" using assms is_delivered_reads unfolding shown_ok_def by blast
    with t(2) same assms show ?thesis by (simp add: step_ok_def see_def shown_ok_def)
  next
    assume "ps_sources ps' = ps_sources ps + 1" "is_anchored H (ps_sources ps + 1) header body r H'"
    with shown_ok_anchored [OF assms refl t(2)] show ?thesis by (simp add: step_ok_def)
  qed
  with t(1) show ?thesis by blast
qed

lemma source_step:
  assumes "shown_ok hash H V ps"
  shows "\<exists>r ps' H'. pass_source hash tok header body ps = Some (r, ps') \<and> step_ok hash H V header body ps r ps' H'"
proof -
  obtain r ps' H' where t: "pass_source hash tok header body ps = Some (r, ps')" "pass_ok hash H' ps'"
    and cases: "ps_sources ps' = ps_sources ps \<and> H' = H
         \<and> (is_delivered H header body r \<or> (\<exists>reference. rs_text r = header @ reference \<and> explains H reference body))
       \<or> ps_sources ps' = ps_sources ps + 1 \<and> is_anchored H (ps_sources ps + 1) header body r H'"
    using assms pass_source_ok [of hash H ps tok header body] unfolding shown_ok_def by meson
  from cases have "step_ok hash H V header body ps r ps' H'"
  proof
    assume "ps_sources ps' = ps_sources ps \<and> H' = H
         \<and> (is_delivered H header body r \<or> (\<exists>reference. rs_text r = header @ reference \<and> explains H reference body))"
    then have same: "ps_sources ps' = ps_sources ps" "H' = H"
      and "is_delivered H header body r \<or> (\<exists>reference. rs_text r = header @ reference \<and> explains H reference body)" by blast+
    then have "reads V header body (rs_text r)"
      using assms is_delivered_reads explains_read unfolding shown_ok_def reads_def by blast
    with t(2) same assms show ?thesis by (simp add: step_ok_def see_def shown_ok_def)
  next
    assume "ps_sources ps' = ps_sources ps + 1 \<and> is_anchored H (ps_sources ps + 1) header body r H'"
    then have "ps_sources ps' = ps_sources ps + 1" "is_anchored H (ps_sources ps + 1) header body r H'" by blast+
    with shown_ok_anchored [OF assms refl t(2)] show ?thesis by (simp add: step_ok_def)
  qed
  with t(1) show ?thesis by blast
qed


section \<open>The chunks of a source\<close>

definition named_by :: "(nat \<times> string) list \<Rightarrow> string" where
  "named_by us = join [newline] (map (\<lambda>(src, b). ''See O'' @ nat_dec src) us)"

lemma named_by_append: "us \<noteq> [] \<Longrightarrow> vs \<noteq> [] \<Longrightarrow> named_by (us @ vs) = named_by us @ newline # named_by vs"
  by (simp add: named_by_def join_append)

lemma named_by_last: "us \<noteq> [] \<Longrightarrow> named_by us \<noteq> [] \<and> last (named_by us) \<noteq> newline"
proof (induction us rule: rev_induct)
  case (snoc u us)
  obtain n b where u: "u = (n, b)" by fastforce
  have d: "nat_dec n \<noteq> []" using nat_dec_digits [of n] by simp
  then have "last (nat_dec n) \<noteq> newline" using nat_dec_no_newline [of n] last_in_set by metis
  with d have one: "named_by [u] \<noteq> []" "last (named_by [u]) \<noteq> newline"
    by (auto simp: named_by_def u)
  show ?case
  proof (cases "us = []")
    case False
    with one named_by_append [OF False, of "[u]"] show ?thesis by simp
  qed (use one in simp)
qed simp

lemma trim_named: "us \<noteq> [] \<Longrightarrow> trim_suffix [newline] (named_by us @ (if b then [newline] else '''')) = named_by us"
  using named_by_last [of us] by (auto simp: trim_suffix_def suffix_def)

text \<open>The texts that name the bodies of a list of chunks.\<close>

definition names_chunks :: "history \<Rightarrow> string list \<Rightarrow> string list \<Rightarrow> bool" where
  "names_chunks H refs bs \<longleftrightarrow> (\<exists>us. us \<noteq> [] \<and> concat (map snd us) = concat bs
     \<and> (\<forall>(src, b) \<in> set us. H src = Some (map Some (rows b))) \<and> join [newline] refs = named_by us)"

lemma names_chunks_one:
  "explains H reference b \<Longrightarrow> names_chunks H [trim_suffix [newline] reference] [b]"
  unfolding explains_def names_chunks_def using trim_named unfolding named_by_def by fastforce

lemma names_chunks_Cons:
  assumes one: "names_chunks H [x] [b]" and rest: "names_chunks H refs bs" "refs \<noteq> []"
  shows "names_chunks H (x # refs) (b # bs)"
proof -
  obtain us where us: "us \<noteq> []" "concat (map snd us) = b" "\<forall>(src, b) \<in> set us. H src = Some (map Some (rows b))" "x = named_by us"
    using one unfolding names_chunks_def by auto
  obtain vs where vs: "vs \<noteq> []" "concat (map snd vs) = concat bs" "\<forall>(src, b) \<in> set vs. H src = Some (map Some (rows b))"
    "join [newline] refs = named_by vs" using rest unfolding names_chunks_def by auto
  have "join [newline] (x # refs) = named_by (us @ vs)"
    using join_append [of "[x]" refs "[newline]"] rest(2) us vs by (simp add: named_by_append)
  moreover have "concat (map snd (us @ vs)) = concat (b # bs)" using us(2) vs(2) by simp
  moreover have "\<forall>(src, b) \<in> set (us @ vs). H src = Some (map Some (rows b))" using us(3) vs(3) by fastforce
  ultimately show ?thesis unfolding names_chunks_def using us(1) by (intro exI [of _ "us @ vs"]) simp
qed

lemma names_chunks_explains:
  "names_chunks H refs bs \<Longrightarrow> explains H (join [newline] refs @ (if suffix [newline] (concat bs) then [newline] else '''')) (concat bs)"
  unfolding names_chunks_def explains_def named_by_def by blast

text \<open>The view after the chunks of one source.\<close>

fun see_chunks :: "hashing \<Rightarrow> tokenizer \<Rightarrow> string list \<Rightarrow> string list \<Rightarrow> pass \<Rightarrow> view \<Rightarrow> view" where
  "see_chunks hash tok (h # hs) (b # bs) ps V =
     (case pass_source hash tok h b ps of
        None \<Rightarrow> V
      | Some (r, ps') \<Rightarrow> see_chunks hash tok hs bs ps' (see V ps ps' h r))"
| "see_chunks hash tok hs bs ps V = V"

fun reads_all :: "view \<Rightarrow> string list \<Rightarrow> string list \<Rightarrow> result list \<Rightarrow> bool" where
  "reads_all V (h # hs) (b # bs) (r # rs) \<longleftrightarrow> reads V h b (rs_text r) \<and> reads_all V hs bs rs"
| "reads_all V hs [] [] \<longleftrightarrow> True"
| "reads_all V hs bs rs \<longleftrightarrow> False"

definition chunks_ok :: "hashing \<Rightarrow> tokenizer \<Rightarrow> history \<Rightarrow> view \<Rightarrow> string list \<Rightarrow> string list \<Rightarrow> pass \<Rightarrow> result list \<Rightarrow> string list \<Rightarrow> pass \<Rightarrow> history \<Rightarrow> bool" where
  "chunks_ok hash tok H V hs bs ps rs refs ps' H' \<longleftrightarrow>
     shown_ok hash H' (see_chunks hash tok hs bs ps V) ps' \<and> H \<subseteq>\<^sub>m H' \<and> V \<subseteq>\<^sub>m see_chunks hash tok hs bs ps V
     \<and> reads_all (see_chunks hash tok hs bs ps V) hs bs rs
     \<and> length refs \<le> length bs \<and> (bs \<noteq> [] \<longrightarrow> length refs = length bs \<longrightarrow> names_chunks H' refs bs)"

lemma names_chunks_le: "names_chunks H refs bs \<Longrightarrow> H \<subseteq>\<^sub>m H' \<Longrightarrow> names_chunks H' refs bs"
proof -
  assume "names_chunks H refs bs" and le: "H \<subseteq>\<^sub>m H'"
  then obtain us where us: "us \<noteq> []" "concat (map snd us) = concat bs" "\<forall>(src, b) \<in> set us. H src = Some (map Some (rows b))"
    "join [newline] refs = named_by us" unfolding names_chunks_def by blast
  have "\<forall>(src, b) \<in> set us. H' src = Some (map Some (rows b))" using us(3) map_le_Some [OF le] by fast
  with us show ?thesis unfolding names_chunks_def by blast
qed

lemma chunk_refs:
  assumes "shown_ok hash H V ps" and "exact_reference ps b \<noteq> ''''"
  shows "names_chunks H [trim_suffix [newline] (exact_reference ps b)] [b]"
  using assms names_chunks_one
  by (auto simp: shown_ok_def pass_ok_def exact_reference_def split: option.splits)

lemma pass_chunks_ok:
  "shown_ok hash H V ps \<Longrightarrow> length bs \<le> length hs \<Longrightarrow>
   \<exists>rs refs ps' H'. pass_chunks hash tok hs bs ps = Some (rs, refs, ps') \<and> chunks_ok hash tok H V hs bs ps rs refs ps' H'"
proof (induction bs arbitrary: hs H V ps)
  case Nil
  have "chunks_ok hash tok H V hs [] ps [] [] ps H" using Nil by (cases hs) (simp_all add: chunks_ok_def)
  then show ?case by (cases hs) auto
next
  case (Cons b bs)
  then obtain h hs' where hs: "hs = h # hs'" "length bs \<le> length hs'" by (cases hs) auto
  obtain r ps1 H1 where s: "pass_source hash tok h b ps = Some (r, ps1)" "step_ok hash H V h b ps r ps1 H1"
    using source_step [OF Cons.prems(1)] by blast
  let ?V1 = "see V ps ps1 h r"
  have ok: "shown_ok hash H1 ?V1 ps1" "H \<subseteq>\<^sub>m H1" "V \<subseteq>\<^sub>m ?V1" "reads ?V1 h b (rs_text r)"
    using s(2) by (simp_all add: step_ok_def)
  obtain rs refs ps' H' where c: "pass_chunks hash tok hs' bs ps1 = Some (rs, refs, ps')"
    "chunks_ok hash tok H1 ?V1 hs' bs ps1 rs refs ps' H'" using Cons.IH [OF ok(1) hs(2)] by blast
  let ?x = "exact_reference ps1 b" let ?V2 = "see_chunks hash tok hs' bs ps1 ?V1"
  let ?refs = "(if ?x \<noteq> '''' then [trim_suffix [newline] ?x] else []) @ refs"
  have c2: "shown_ok hash H' ?V2 ps'" "H1 \<subseteq>\<^sub>m H'" "?V1 \<subseteq>\<^sub>m ?V2" "reads_all ?V2 hs' bs rs" "length refs \<le> length bs"
    "bs \<noteq> [] \<Longrightarrow> length refs = length bs \<Longrightarrow> names_chunks H' refs bs"
    using c(2) by (simp_all add: chunks_ok_def)
  have "names_chunks H' ?refs (b # bs)" if len: "length ?refs = length (b # bs)"
  proof -
    have x: "?x \<noteq> ''''" "length refs = length bs" using len c2(5) by (auto split: if_splits)
    have one: "names_chunks H' [trim_suffix [newline] ?x] [b]"
      by (rule names_chunks_le [OF chunk_refs [OF ok(1) x(1)] c2(2)])
    show ?thesis
    proof (cases "bs = []")
      case True
      with one x show ?thesis by simp
    next
      case False
      then have "refs \<noteq> []" using x(2) by auto
      from names_chunks_Cons [OF one c2(6) [OF False x(2)] this] x(1) show ?thesis by simp
    qed
  qed
  moreover have "reads ?V2 h b (rs_text r)" by (rule reads_le [OF c2(3) ok(4)])
  moreover have "H \<subseteq>\<^sub>m H'" "V \<subseteq>\<^sub>m ?V2" using ok c2 map_le_trans by blast+
  ultimately have "chunks_ok hash tok H V hs (b # bs) ps (r # rs) ?refs ps' H'"
    using c2 s(1) by (simp add: chunks_ok_def hs)
  moreover have "pass_chunks hash tok hs (b # bs) ps = Some (r # rs, ?refs, ps')"
    using s(1) c(1) by (simp add: hs Let_def)
  ultimately show ?case by blast
qed


text \<open>A reference to the whole source, delivered with the first chunk.\<close>

definition reads_whole :: "view \<Rightarrow> string list \<Rightarrow> string list \<Rightarrow> result list \<Rightarrow> bool" where
  "reads_whole V hs bs rs \<longleftrightarrow> (\<exists>reference. reads_exact V reference (concat bs)
     \<and> map rs_text rs = (hd hs @ reference) # take (length bs - 1) (tl hs))"

lemma repeated_chunks_ok:
  assumes "bs \<noteq> []" and "length bs \<le> length hs"
  shows "\<exists>rs. repeated_chunks hs bs reference = Some rs \<and> map rs_text rs = (hd hs @ reference) # take (length bs - 1) (tl hs)"
  using assms
proof (induction hs bs reference rule: repeated_chunks.induct)
  case (3 h hs b bs reference)
  show ?case
  proof (cases "bs = []")
    case True
    then show ?thesis by (simp add: repeated_source_def)
  next
    case False
    with 3 obtain rs where rs: "repeated_chunks hs bs '''' = Some rs" "map rs_text rs = hd hs # take (length bs - 1) (tl hs)"
      by auto
    obtain h' hs' where hs: "hs = h' # hs'" using 3(3) False by (cases hs) auto
    obtain b' bs' where bs: "bs = b' # bs'" using False by (cases bs) auto
    from rs have "map rs_text (repeated_source h b reference # rs) = (h @ reference) # take (length bs) hs"
      by (simp add: repeated_source_def hs bs)
    with rs(1) show ?thesis by (intro exI [of _ "repeated_source h b reference # rs"]) simp
  qed
qed auto

definition see_sources :: "hashing \<Rightarrow> tokenizer \<Rightarrow> string list \<Rightarrow> string list \<Rightarrow> pass \<Rightarrow> view \<Rightarrow> view" where
  "see_sources hash tok hs bs ps V =
     (if exact_reference ps (concat bs) \<noteq> '''' then V else see_chunks hash tok hs bs ps V)"

lemma exact_Nil:
  assumes "shown_ok hash H V ps" and "exact_reference ps b \<noteq> ''''"
  shows "explains H (exact_reference ps b) b"
  using assms by (auto simp: shown_ok_def pass_ok_def exact_reference_def split: option.splits)

definition sources_ok :: "hashing \<Rightarrow> tokenizer \<Rightarrow> history \<Rightarrow> view \<Rightarrow> string list \<Rightarrow> string list \<Rightarrow> pass \<Rightarrow> result list \<Rightarrow> pass \<Rightarrow> history \<Rightarrow> bool" where
  "sources_ok hash tok H V hs bs ps rs ps' H' \<longleftrightarrow>
     shown_ok hash H' (see_sources hash tok hs bs ps V) ps' \<and> V \<subseteq>\<^sub>m see_sources hash tok hs bs ps V
     \<and> (reads_all (see_sources hash tok hs bs ps V) hs bs rs \<or> reads_whole (see_sources hash tok hs bs ps V) hs bs rs)"

lemma pass_sources_ok:
  assumes ok: "shown_ok hash H V ps" and len: "length bs \<le> length hs" and bs: "bs \<noteq> []"
  shows "\<exists>rs ps' H'. pass_sources hash tok hs bs ps = Some (rs, ps') \<and> sources_ok hash tok H V hs bs ps rs ps' H'"
proof (cases "exact_reference ps (concat bs) = ''''")
  case False
  obtain rs where rs: "repeated_chunks hs bs (exact_reference ps (concat bs)) = Some rs"
    "map rs_text rs = (hd hs @ exact_reference ps (concat bs)) # take (length bs - 1) (tl hs)"
    using repeated_chunks_ok [OF bs len, of "exact_reference ps (concat bs)"] by (elim exE conjE)
  have "reads_exact V (exact_reference ps (concat bs)) (concat bs)"
    by (rule explains_read [OF _ exact_Nil [OF ok False]]) (use ok in \<open>simp add: shown_ok_def\<close>)
  then have "reads_whole V hs bs rs" using rs(2) unfolding reads_whole_def by (intro exI conjI)
  then have "sources_ok hash tok H V hs bs ps rs ps H" using ok False by (simp add: sources_ok_def see_sources_def)
  moreover have "pass_sources hash tok hs bs ps = Some (rs, ps)" using rs(1) bs False by (simp add: pass_sources_def)
  ultimately show ?thesis by blast
next
  case True
  obtain rs refs ps1 H1 where c: "pass_chunks hash tok hs bs ps = Some (rs, refs, ps1)"
    "chunks_ok hash tok H V hs bs ps rs refs ps1 H1" using pass_chunks_ok [OF ok len] by blast
  let ?ref = "join [newline] refs @ (if suffix [newline] (concat bs) then [newline] else '''')"
  let ?ps = "if 1 < length bs \<and> length refs = length bs
    then ps1\<lparr>ps_exact := (ps_exact ps1)(concat bs \<mapsto> ?ref)\<rparr> else ps1"
  let ?V = "see_chunks hash tok hs bs ps V"
  have c2: "shown_ok hash H1 ?V ps1" "V \<subseteq>\<^sub>m ?V" "reads_all ?V hs bs rs"
    "length refs = length bs \<Longrightarrow> names_chunks H1 refs bs" using c(2) bs by (simp_all add: chunks_ok_def)
  have "shown_ok hash H1 ?V ?ps"
  proof (cases "length refs = length bs")
    case True
    from names_chunks_explains [OF c2(4) [OF True]] c2(1) show ?thesis
      by (auto simp: shown_ok_def pass_ok_def)
  qed (use c2 in simp)
  then have "sources_ok hash tok H V hs bs ps rs ?ps H1"
    using c2 True by (simp add: sources_ok_def see_sources_def)
  moreover have "pass_sources hash tok hs bs ps = Some (rs, ?ps)"
    using c(1) True by (simp add: pass_sources_def Let_def)
  ultimately show ?thesis by blast
qed

section \<open>Runs\<close>

datatype pass_op =
    TextOp string string
  | SourceOp string string
  | SourcesOp "string list" "string list"

definition pass_step :: "hashing \<Rightarrow> tokenizer \<Rightarrow> pass_op \<Rightarrow> pass \<Rightarrow> (result list \<times> pass) option" where
  "pass_step hash tok opn ps = (case opn of
       TextOp h b \<Rightarrow> map_option (\<lambda>(r, ps'). ([r], ps')) (pass_text hash tok h b ps)
     | SourceOp h b \<Rightarrow> map_option (\<lambda>(r, ps'). ([r], ps')) (pass_source hash tok h b ps)
     | SourcesOp hs bs \<Rightarrow> pass_sources hash tok hs bs ps)"

text \<open>There is a chunk, and every chunk has a header, as the callers frame them.\<close>

definition framed :: "pass_op \<Rightarrow> bool" where
  "framed opn \<longleftrightarrow> (case opn of SourcesOp hs bs \<Rightarrow> bs \<noteq> [] \<and> length bs \<le> length hs | _ \<Rightarrow> True)"

definition see_step :: "hashing \<Rightarrow> tokenizer \<Rightarrow> pass_op \<Rightarrow> pass \<Rightarrow> result list \<Rightarrow> pass \<Rightarrow> view \<Rightarrow> view" where
  "see_step hash tok opn ps rs ps' V = (case opn of
       TextOp h b \<Rightarrow> see V ps ps' h (hd rs)
     | SourceOp h b \<Rightarrow> see V ps ps' h (hd rs)
     | SourcesOp hs bs \<Rightarrow> see_sources hash tok hs bs ps V)"

definition reads_op :: "view \<Rightarrow> pass_op \<Rightarrow> result list \<Rightarrow> bool" where
  "reads_op V opn rs \<longleftrightarrow> (case opn of
       TextOp h b \<Rightarrow> reads_all V [h] [b] rs
     | SourceOp h b \<Rightarrow> reads_all V [h] [b] rs
     | SourcesOp hs bs \<Rightarrow> reads_all V hs bs rs \<or> reads_whole V hs bs rs)"

lemma reads_all_le: "V \<subseteq>\<^sub>m V' \<Longrightarrow> reads_all V hs bs rs \<Longrightarrow> reads_all V' hs bs rs"
  by (induction V hs bs rs rule: reads_all.induct) (simp_all add: reads_le)

lemma reads_whole_le: "V \<subseteq>\<^sub>m V' \<Longrightarrow> reads_whole V hs bs rs \<Longrightarrow> reads_whole V' hs bs rs"
  unfolding reads_whole_def by (elim exE conjE, intro exI conjI) (rule reads_exact_le, assumption+)

lemma reads_op_le: "V \<subseteq>\<^sub>m V' \<Longrightarrow> reads_op V opn rs \<Longrightarrow> reads_op V' opn rs"
  using reads_all_le [of V V'] reads_whole_le [of V V']
  by (cases opn) (auto simp only: reads_op_def pass_op.case)

lemma pass_step_ok:
  assumes ok: "shown_ok hash H V ps" and framed: "framed opn"
  shows "\<exists>rs ps' H'. pass_step hash tok opn ps = Some (rs, ps') \<and> shown_ok hash H' (see_step hash tok opn ps rs ps' V) ps'
    \<and> V \<subseteq>\<^sub>m see_step hash tok opn ps rs ps' V \<and> reads_op (see_step hash tok opn ps rs ps' V) opn rs"
proof (cases opn)
  case (TextOp h b)
  with text_step [OF ok, of tok h b] show ?thesis
    by (fastforce simp: pass_step_def see_step_def reads_op_def step_ok_def)
next
  case (SourceOp h b)
  with source_step [OF ok, of tok h b] show ?thesis
    by (fastforce simp: pass_step_def see_step_def reads_op_def step_ok_def)
next
  case (SourcesOp hs bs)
  have "\<exists>rs ps' H'. pass_sources hash tok hs bs ps = Some (rs, ps') \<and> sources_ok hash tok H V hs bs ps rs ps' H'"
    using pass_sources_ok [OF ok] framed by (simp add: SourcesOp framed_def)
  then show ?thesis unfolding sources_ok_def by (auto simp: SourcesOp pass_step_def see_step_def reads_op_def)
qed


text \<open>The results of a list of operations, with the last pass and the last view.\<close>

fun pass_run :: "hashing \<Rightarrow> tokenizer \<Rightarrow> pass_op list \<Rightarrow> pass \<Rightarrow> (result list list \<times> pass) option" where
  "pass_run hash tok [] ps = Some ([], ps)"
| "pass_run hash tok (opn # ops) ps =
     (case pass_step hash tok opn ps of
        None \<Rightarrow> None
      | Some (rs, ps') \<Rightarrow> map_option (\<lambda>(rss, ps''). (rs # rss, ps'')) (pass_run hash tok ops ps'))"

fun see_run :: "hashing \<Rightarrow> tokenizer \<Rightarrow> pass_op list \<Rightarrow> pass \<Rightarrow> view \<Rightarrow> view" where
  "see_run hash tok [] ps V = V"
| "see_run hash tok (opn # ops) ps V =
     (case pass_step hash tok opn ps of
        None \<Rightarrow> V
      | Some (rs, ps') \<Rightarrow> see_run hash tok ops ps' (see_step hash tok opn ps rs ps' V))"

lemma pass_run_ok:
  "shown_ok hash H V ps \<Longrightarrow> \<forall>opn \<in> set ops. framed opn \<Longrightarrow>
   \<exists>rss ps' H'. pass_run hash tok ops ps = Some (rss, ps') \<and> shown_ok hash H' (see_run hash tok ops ps V) ps'
     \<and> V \<subseteq>\<^sub>m see_run hash tok ops ps V \<and> list_all2 (reads_op (see_run hash tok ops ps V)) ops rss"
proof (induction ops arbitrary: H V ps)
  case (Cons opn ops)
  obtain rs ps1 H1 where s: "pass_step hash tok opn ps = Some (rs, ps1)"
    "shown_ok hash H1 (see_step hash tok opn ps rs ps1 V) ps1" "V \<subseteq>\<^sub>m see_step hash tok opn ps rs ps1 V"
    "reads_op (see_step hash tok opn ps rs ps1 V) opn rs"
    using pass_step_ok [OF Cons.prems(1)] Cons.prems(2) by fastforce
  obtain rss ps2 H2 where r: "pass_run hash tok ops ps1 = Some (rss, ps2)"
    "shown_ok hash H2 (see_run hash tok ops ps1 (see_step hash tok opn ps rs ps1 V)) ps2"
    "see_step hash tok opn ps rs ps1 V \<subseteq>\<^sub>m see_run hash tok ops ps1 (see_step hash tok opn ps rs ps1 V)"
    "list_all2 (reads_op (see_run hash tok ops ps1 (see_step hash tok opn ps rs ps1 V))) ops rss"
    using Cons.IH [OF s(2)] Cons.prems(2) by auto
  have "pass_run hash tok (opn # ops) ps = Some (rs # rss, ps2)" using s(1) r(1) by simp
  moreover have "see_run hash tok (opn # ops) ps V = see_run hash tok ops ps1 (see_step hash tok opn ps rs ps1 V)"
    using s(1) by simp
  ultimately show ?case
    using r map_le_trans [OF s(3) r(3)] reads_op_le [OF r(3) s(4)]
    by (intro exI [of _ "rs # rss"] exI [of _ ps2] exI [of _ H2]) (simp only: list_all2_Cons simp_thms)
qed auto

lemma new_pass_shown: "shown_ok hash Map.empty Map.empty (new_pass sv)"
  using new_pass_ok by (simp add: shown_ok_def viewed_def)

end
