(* ===== verification/Dedup_Utf8.thy ===== *)
theory Dedup_Utf8
  imports Dedup_Runs
begin

text \<open>
  The type of the texts: UTF-8.  Spans begin and end between rows, hence between runes;
  markers, anchors and the JSON of edits are made of whole runes.
\<close>

section \<open>Rows and runes\<close>

lemma valid_rune_newline:
  assumes "valid_rune r" and "k < length r" and "r ! k = newline"
  shows "length r = 1"
proof -
  have nl: "byte newline = 10" by (simp add: byte_def)
  obtain c cs where r: "r = c # cs" using assms(2) by (cases r) auto
  show ?thesis
  proof (cases k)
    case 0
    with assms nl show ?thesis by (simp add: r rune_width_def)
  next
    case (Suc j)
    then obtain d ds where cs: "cs = d # ds" using assms(2) by (cases cs) (auto simp: r)
    have d: "0x80 \<le> byte d" "list_all continuation ds"
      using assms(1) by (auto simp: r cs second_low_def split: if_splits)
    then have "0x80 \<le> byte (cs ! j)" using Suc assms(2) by (cases j) (auto simp: r cs list_all_length continuation_def)
    with assms(3) nl Suc show ?thesis by (simp add: r)
  qed
qed

lemma boundary_aligned: "list_all valid_rune a \<Longrightarrow> boundary (concat a) i \<Longrightarrow> aligned a i"
proof (induction a arbitrary: i)
  case Nil
  then show ?case by (auto simp: aligned_def boundary_def bytes_of_def)
next
  case (Cons r rs)
  consider "i = 0" | "0 < i" "i \<le> length r" | "length r < i" by linarith
  then show ?case
  proof cases
    case 1
    then show ?thesis by (auto simp: aligned_def bytes_of_def intro: exI [of _ 0])
  next
    case 2
    have "i = length r"
    proof (cases "i = length (concat (r # rs))")
      case True
      with 2 show ?thesis by simp
    next
      case False
      then have "concat (r # rs) ! (i - 1) = newline" using Cons.prems(2) 2 by (auto simp: boundary_def)
      moreover have "i - 1 < length r" using 2 by simp
      ultimately have "r ! (i - 1) = newline" by (simp add: nth_append)
      from valid_rune_newline [OF _ _ this] Cons.prems(1) 2 have "length r = 1" by simp
      with 2 show ?thesis by simp
    qed
    then show ?thesis unfolding aligned_def by (intro exI [of _ 1]) (simp add: bytes_of_def)
  next
    case 3
    then obtain k where k: "i = length r + Suc k" using less_imp_Suc_add by fastforce
    then have "boundary (concat rs) (i - length r)"
      using Cons.prems(2) by (auto simp: boundary_def nth_append)
    then obtain n where "i - length r = bytes_of (take n rs)" using Cons by (auto simp: aligned_def)
    with 3 show ?thesis unfolding aligned_def by (intro exI [of _ "Suc n"]) (simp add: bytes_of_def)
  qed
qed

lemma boundary_segment_valid:
  assumes "valid_utf8 s" and "boundary s i" and "boundary s j"
  shows "valid_utf8 (segment s i j)"
proof (cases "i \<le> j")
  case True
  have "concat (runes s) = s" by (rule concat_runes [OF assms(1)])
  with aligned_segment [OF runes_valid [of s] _ _ True] boundary_aligned [OF runes_valid [of s]] assms show ?thesis
    by metis
next
  case False
  then have "segment s i j = []" by (simp add: segment_def)
  then show ?thesis by simp
qed

lemma boundary_drop_valid: "valid_utf8 s \<Longrightarrow> boundary s i \<Longrightarrow> valid_utf8 (drop i s)"
  using boundary_segment_valid [of s i "length s"] by (simp add: segment_def)

section \<open>Markers\<close>

definition ascii :: "string \<Rightarrow> bool" where
  "ascii s \<longleftrightarrow> list_all (\<lambda>c. byte c < 0x80) s"

lemma ascii_append [simp]: "ascii (s @ t) \<longleftrightarrow> ascii s \<and> ascii t"
  and ascii_Cons [simp]: "ascii (c # s) \<longleftrightarrow> byte c < 0x80 \<and> ascii s"
  and ascii_Nil [simp]: "ascii ''''"
  by (simp_all add: ascii_def)

lemma ascii_valid: "ascii s \<Longrightarrow> valid_utf8 s"
  using valid_utf8_concat [of "map (\<lambda>c. [c]) s"]
  by (simp add: ascii_def list_all_iff rune_width_def)

lemma byte_newline [simp]: "byte newline < 0x80"
  by (simp add: byte_def)

lemma ascii_nat_dec: "ascii (nat_dec n)"
proof -
  have "is_digit c \<Longrightarrow> byte c < 0x80" for c by (auto simp: is_digit_def byte_def)
  with nat_dec_digits [of n] show ?thesis by (auto simp: ascii_def list_all_iff)
qed

lemma ascii_join: "ascii sep \<Longrightarrow> list_all ascii ss \<Longrightarrow> ascii (join sep ss)"
  by (induction sep ss rule: join.induct) simp_all

lemma ascii_reference: "ascii (reference_text sp run)" and ascii_anchor: "ascii (anchor_text n)"
  using ascii_nat_dec by (simp_all add: reference_text_def anchor_text_def byte_def)

lemma marked_valid:
  "valid_utf8 body \<Longrightarrow> spans_placed body sps start \<Longrightarrow> valid_utf8 (marked_from body sps start)"
proof (induction sps arbitrary: start)
  case (Cons sp sps)
  then have "boundary body start" "boundary body (sp_start sp)" "spans_placed body sps (sp_end sp)" by simp_all
  with Cons ascii_valid [OF ascii_reference] show ?case
    by (simp add: valid_utf8_append boundary_segment_valid)
qed (simp add: boundary_drop_valid)

lemma exact_valid:
  "valid_utf8 (join [newline] (map (\<lambda>(src, b). ''See O'' @ nat_dec src) us) @ (if suffix [newline] body then [newline] else ''''))"
proof -
  have "list_all ascii (map (\<lambda>(src, b). ''See O'' @ nat_dec src) us)"
    using ascii_nat_dec by (auto simp: list_all_iff byte_def)
  then show ?thesis by (intro ascii_valid) (simp add: ascii_join)
qed

section \<open>Edits\<close>

lemma byte_char_of: "n < 256 \<Longrightarrow> byte (char_of n) = n"
  by (simp add: byte_def)

lemma hex_digit_ascii: "n < 16 \<Longrightarrow> byte (hex_digit n) < 0x80"
  by (simp add: hex_digit_def digit_char_def byte_char_of)

lemma escape_ascii: "byte c < 0x80 \<Longrightarrow> ascii (escape_char c)"
proof -
  assume c: "byte c < 0x80"
  have "byte (hex_digit (byte c div 16)) < 0x80" "byte (hex_digit (byte c mod 16)) < 0x80"
    using c hex_digit_ascii by (simp_all add: less_mult_imp_div_less)
  with c show ?thesis by (simp add: escape_char_def, simp add: byte_def)
qed

lemma escape_high: "0x80 \<le> byte c \<Longrightarrow> escape_char c = [c]"
proof -
  assume high: "0x80 \<le> byte c"
  then have differs: "byte d < 0x80 \<Longrightarrow> c \<noteq> d" for d by auto
  have "c \<noteq> CHR 0x22" "c \<noteq> CHR 0x5C" "c \<noteq> CHR 0x08" "c \<noteq> CHR 0x0C" "c \<noteq> CHR 0x0A" "c \<noteq> CHR 0x0D" "c \<noteq> CHR 0x09"
    by (rule differs, simp add: byte_def)+
  with high show ?thesis by (simp add: escape_char_def)
qed

lemma escape_high_all: "\<forall>c \<in> set s. 0x80 \<le> byte c \<Longrightarrow> concat (map escape_char s) = s"
  by (induction s) (simp_all add: escape_high)

lemma escape_rune: "valid_rune r \<Longrightarrow> valid_utf8 (concat (map escape_char r))"
proof -
  assume v: "valid_rune r"
  then obtain c cs where r: "r = c # cs" by (cases r) auto
  show ?thesis
  proof (cases cs)
    case Nil
    with v have "byte c < 0x80" by (auto simp: r rune_width_def split: if_splits)
    then show ?thesis using ascii_valid [OF escape_ascii] by (simp add: r Nil)
  next
    case (Cons d ds)
    with v have "0x80 \<le> byte c" "0x80 \<le> byte d" "\<forall>x \<in> set ds. 0x80 \<le> byte x"
      by (auto simp: r rune_width_def second_low_def continuation_def list_all_iff split: if_splits)
    then have "concat (map escape_char r) = r"
      using escape_high_all [of ds] by (simp add: r Cons escape_high)
    with v valid_utf8_concat [of "[r]"] show ?thesis by simp
  qed
qed

lemma escape_valid: "valid_utf8 s \<Longrightarrow> valid_utf8 (concat (map escape_char s))"
proof -
  assume "valid_utf8 s"
  have "list_all valid_rune rs \<Longrightarrow> valid_utf8 (concat (map escape_char (concat rs)))" for rs
    by (induction rs) (simp_all add: escape_rune valid_utf8_append)
  from this [OF runes_valid [of s]] concat_runes [OF \<open>valid_utf8 s\<close>] show ?thesis by simp
qed

lemma json_string_valid: "json_string s = Some t \<Longrightarrow> valid_utf8 t"
proof -
  assume "json_string s = Some t"
  then have t: "t = [CHR 0x22] @ concat (map escape_char s) @ [CHR 0x22]" "valid_utf8 s"
    by (auto simp: json_string_def split: if_splits)
  have "valid_utf8 [CHR 0x22]" by (rule ascii_valid) (simp add: byte_def)
  with escape_valid [OF t(2)] show ?thesis unfolding t(1) by (intro valid_utf8_append)
qed

lemma ascii_numbers: "ascii (json_numbers ns)"
  using ascii_nat_dec ascii_join [of "'',''" "map nat_dec ns"] by (simp add: json_numbers_def byte_def list_all_iff)

lemma edit_lines_valid: "edit_lines edits es = Some t \<Longrightarrow> valid_utf8 t"
proof (induction es arbitrary: t)
  case (Cons e es)
  define ps where "ps = insertion_positions edits (ed_text e)"
  define shared where "shared \<longleftrightarrow> ed_start e = ed_end e \<and> 1 < length ps"
  show ?case
  proof (cases "shared \<and> ed_start e \<noteq> hd ps")
    case True
    with Cons show ?thesis by (simp add: ps_def shared_def Let_def)
  next
    case False
    define h where "h = (if shared then ''['' @ json_numbers ps @ '',''
      else ''['' @ nat_dec (ed_start e) @ '','' @ nat_dec (ed_end e) @ '','')"
    have h: "valid_utf8 h" using ascii_valid [of h] ascii_numbers ascii_nat_dec by (simp add: h_def byte_def)
    have close: "valid_utf8 '']''" "valid_utf8 [newline]" by (rule ascii_valid, simp add: byte_def)+
    obtain payload rest where pr: "json_string (ed_text e) = Some payload" "edit_lines edits es = Some rest"
      "t = h @ payload @ '']'' @ [newline] @ rest"
    proof -
      have "edit_lines edits (e # es) = (case json_string (ed_text e) of None \<Rightarrow> None
          | Some payload \<Rightarrow> map_option (\<lambda>rest. h @ payload @ '']'' @ [newline] @ rest) (edit_lines edits es))"
        unfolding edit_lines.simps Let_def ps_def [symmetric] shared_def [symmetric] if_not_P [OF False] h_def
        by (cases shared) (simp_all split: option.split)
      then show thesis using that Cons.prems by (auto split: option.splits)
    qed
    show ?thesis unfolding pr(3) using h close json_string_valid [OF pr(1)] Cons.IH [OF pr(2)] by (intro valid_utf8_append)
  qed
qed simp

lemma edit_text_valid:
  assumes "valid_utf8 header" and "edit_text header src es = Some t"
  shows "valid_utf8 t"
proof -
  obtain ls where ls: "edit_lines es es = Some ls" "t = header @ (''See O'' @ nat_dec src
       @ '' with byte edits: [start,end,text] replaces 0-based UTF-8 [start,end); [[offsets],text] inserts; JSON text; other bytes unchanged:''
       @ [newline]) @ ls"
    using assms(2) by (auto simp: edit_text_def)
  show ?thesis unfolding ls(2)
    by (intro valid_utf8_append ascii_valid assms(1) edit_lines_valid [OF ls(1)]) (simp add: ascii_nat_dec byte_def)
qed

section \<open>Delivered text\<close>

lemma reads_valid:
  assumes "valid_utf8 header" and "valid_utf8 body" and "reads V header body t"
  shows "valid_utf8 t"
proof -
  have marked: "valid_utf8 s" if "reads_marked V s body" for s
    using that marked_valid [OF assms(2)] unfolding reads_marked_def by blast
  have edits: "valid_utf8 s" if "reads_edits V s body" for s
    using that edit_text_valid [of "''''"] unfolding reads_edits_def by fastforce
  have exact: "valid_utf8 s" if "reads_exact V s body" for s
    using that exact_valid unfolding reads_exact_def by blast
  show ?thesis using assms(3) unfolding reads_def
  proof (elim disjE exE conjE)
    fix n s assume "t = header @ anchor_text n @ s" "reads_marked V s body"
    with marked assms(1) ascii_valid [OF ascii_anchor] show ?thesis by (simp add: valid_utf8_append)
  qed (use assms(1) marked edits exact in \<open>simp_all add: valid_utf8_append\<close>)
qed

definition valid_op :: "pass_op \<Rightarrow> bool" where
  "valid_op opn \<longleftrightarrow> (case opn of
       TextOp h b \<Rightarrow> valid_utf8 h \<and> valid_utf8 b
     | SourceOp h b \<Rightarrow> valid_utf8 h \<and> valid_utf8 b
     | SourcesOp hs bs \<Rightarrow> list_all valid_utf8 hs \<and> list_all valid_utf8 bs)"

lemma reads_all_valid:
  "reads_all V hs bs rs \<Longrightarrow> list_all valid_utf8 hs \<Longrightarrow> list_all valid_utf8 bs \<Longrightarrow> \<forall>r \<in> set rs. valid_utf8 (rs_text r)"
  by (induction V hs bs rs rule: reads_all.induct) (auto intro: reads_valid)

lemma reads_op_valid:
  assumes "framed opn" and "valid_op opn" and "reads_op V opn rs"
  shows "\<forall>r \<in> set rs. valid_utf8 (rs_text r)"
proof (cases opn)
  case (SourcesOp hs bs)
  then have hs: "hs \<noteq> []" "list_all valid_utf8 hs" "list_all valid_utf8 bs"
    and "reads_all V hs bs rs \<or> reads_whole V hs bs rs"
    using assms by (auto simp: framed_def valid_op_def reads_op_def)
  then show ?thesis
  proof (elim disjE)
    assume "reads_whole V hs bs rs"
    then obtain reference where r: "reads_exact V reference (concat bs)"
      "map rs_text rs = (hd hs @ reference) # take (length bs - 1) (tl hs)"
      unfolding reads_whole_def by (elim exE conjE)
    have "valid_utf8 reference" using r(1) exact_valid unfolding reads_exact_def by blast
    then have "\<forall>t \<in> set (map rs_text rs). valid_utf8 t"
      using hs unfolding r(2) by (cases hs) (auto simp: list_all_iff valid_utf8_append dest: in_set_takeD)
    then show ?thesis by simp
  qed (use hs reads_all_valid in blast)
qed (use assms reads_all_valid in \<open>force simp: valid_op_def reads_op_def simp del: reads_all.simps\<close>)+
end
