(* ===== verification/Dedup_Savings.thy ===== *)
theory Dedup_Savings
  imports Dedup_Lossless
begin

text \<open>
  What a delivered text costs: every marker and every edit list saves the minimum number of
  tokens, and a tokenizer that fails leaves the text as it is.
\<close>

section \<open>Counting\<close>

lemma count_tokens_ok:
  "count_tokens tok s sv = (n, sv') \<Longrightarrow> \<not> sv_failed sv' \<Longrightarrow> \<not> sv_failed sv \<and> tok s = Some (nat n) \<and> 0 \<le> n \<and> sv' = sv"
  by (auto simp: count_tokens_def split: if_splits option.splits)

lemma count_tokens_failed: "sv_failed sv \<Longrightarrow> count_tokens tok s sv = (0, sv)"
  by (simp add: count_tokens_def)

definition saves :: "tokenizer \<Rightarrow> string \<Rightarrow> string \<Rightarrow> bool" where
  "saves tok before after \<longleftrightarrow> (\<exists>m n. tok before = Some m \<and> tok after = Some n \<and> int n + minimum_token_savings \<le> int m)"

definition span_saves :: "tokenizer \<Rightarrow> string \<Rightarrow> span \<Rightarrow> bool" where
  "span_saves tok body sp \<longleftrightarrow>
     saves tok (segment body (sp_start sp) (sp_end sp)) (reference_text sp (segment body (sp_start sp) (sp_end sp)))"

lemma accept_spans_save: "list_all (span_saves tok body) (fst (accept_spans tok body sps sv))"
proof (induction sps arbitrary: sv)
  case (Cons sp sps)
  define run where "run = segment body (sp_start sp) (sp_end sp)"
  obtain a sv1 where a: "count_tokens tok run sv = (a, sv1)" by fastforce
  obtain b sv2 where b: "count_tokens tok (reference_text sp run) sv1 = (b, sv2)" by fastforce
  obtain rest sv3 where rest: "accept_spans tok body sps sv2 = (rest, sv3)" by fastforce
  have "list_all (span_saves tok body) rest" using Cons.IH [of sv2] rest by simp
  moreover have "span_saves tok body sp" if "\<not> sv_failed sv2" "minimum_token_savings \<le> a - b"
  proof -
    from count_tokens_ok [OF b that(1)] have nb: "tok (reference_text sp run) = Some (nat b)" "0 \<le> b" "\<not> sv_failed sv1"
      by auto
    from count_tokens_ok [OF a nb(3)] have na: "tok run = Some (nat a)" "0 \<le> a" by auto
    from na nb that(2) show ?thesis by (simp add: span_saves_def saves_def run_def)
  qed
  ultimately show ?case using a b rest by (simp add: run_def [symmetric] Let_def)
qed simp

lemma accept_spans_failed: "sv_failed sv \<Longrightarrow> accept_spans tok body sps sv = ([], sv)"
  by (induction sps) (simp_all add: count_tokens_failed Let_def)

section \<open>Edits\<close>

definition edits_save :: "tokenizer \<Rightarrow> string \<Rightarrow> string \<Rightarrow> edit_search \<Rightarrow> bool" where
  "edits_save tok header body st \<longleftrightarrow>
     (rs_text (es_best st) \<noteq> '''' \<longrightarrow> saves tok (header @ body) (rs_text (es_best st)))
     \<and> (\<not> sv_failed (es_savings st) \<longrightarrow> 0 \<le> es_original st \<longrightarrow> tok (header @ body) = Some (nat (es_original st)))"

lemma weigh_edit_save:
  assumes "edits_save tok header body st"
  shows "edits_save tok header body (weigh_edit tok header body baseline candidate repeated lines st)"
proof -
  obtain n1 sv1 where c1: "count_tokens tok baseline (es_savings st) = (n1, sv1)" by fastforce
  define st1 where "st1 = (if es_baseline st then st else st\<lparr>es_best_tokens := n1, es_baseline := True, es_savings := sv1\<rparr>)"
  obtain n2 sv2 where c2: "count_tokens tok candidate (es_savings st1) = (n2, sv2)" by fastforce
  define st2 where "st2 = st1\<lparr>es_savings := sv2\<rparr>"
  obtain n3 sv3 where c3: "count_tokens tok (header @ body) (es_savings st2) = (n3, sv3)" by fastforce
  define st3 where "st3 = (if 0 \<le> es_original st2 then st2 else st2\<lparr>es_original := n3, es_savings := sv3\<rparr>)"
  have w: "weigh_edit tok header body baseline candidate repeated lines st =
     (if sv_failed sv2 \<or> es_best_tokens st2 \<le> n2 then st2
      else if sv_failed (es_savings st3) \<or> es_original st3 - n2 < minimum_token_savings then st3
      else st3\<lparr>es_best_tokens := n2, es_best := \<lparr>rs_text = candidate, rs_occurrences = 1, rs_repeated_lines = lines,
        rs_body_bytes = length body, rs_repeated_bytes = repeated\<rparr>\<rparr>)"
    unfolding weigh_edit_def c1 prod.case st1_def [symmetric] Let_def c2 st2_def [symmetric] c3 st3_def [symmetric]
    by (simp add: st2_def)
  have one: "edits_save tok header body st1"
    using assms c1 count_tokens_ok [OF c1] by (auto simp: st1_def edits_save_def)
  have two: "edits_save tok header body st2"
    using one count_tokens_ok [OF c2] by (auto simp: st2_def edits_save_def)
  have three: "edits_save tok header body st3"
    using two count_tokens_ok [OF c3] by (auto simp: st3_def edits_save_def)
  have "saves tok (header @ body) candidate"
    if failed: "\<not> sv_failed sv2" "\<not> sv_failed (es_savings st3)" and worth: "\<not> es_original st3 - n2 < minimum_token_savings"
  proof -
    have n2: "tok candidate = Some (nat n2)" "0 \<le> n2" using count_tokens_ok [OF c2 failed(1)] by auto
    then have pos: "0 \<le> es_original st3" using worth by (simp add: minimum_token_savings_def)
    then have "tok (header @ body) = Some (nat (es_original st3))" using three failed(2) by (simp add: edits_save_def)
    with n2 pos worth show ?thesis by (simp add: saves_def)
  qed
  with two three show ?thesis unfolding w by (simp add: edits_save_def)
qed

lemma try_edit_save:
  "edits_save tok header body st \<Longrightarrow> edits_save tok header body (try_edit tok header body baseline unit st)"
  using weigh_edit_save by (auto simp: try_edit_def Let_def edits_save_def split: prod.splits option.splits)

lemma fold_edits_save:
  "edits_save tok header body st \<Longrightarrow> edits_save tok header body (fold (try_edit tok header body baseline) us st)"
  by (induction us arbitrary: st) (simp_all add: try_edit_save)

lemma edit_projection_save:
  assumes "edit_projection tok header body baseline idx sv = (Some r, sv')"
  shows "saves tok (header @ body) (rs_text r)"
proof -
  define st0 where "st0 = \<lparr>es_work = edit_work, es_best = empty_result, es_best_tokens = 0, es_original = - 1,
      es_baseline = False, es_savings = sv\<rparr>"
  have "edits_save tok header body (fold (try_edit tok header body baseline) (complete_units idx edit_candidates) st0)"
    by (rule fold_edits_save) (simp add: edits_save_def st0_def empty_result_def)
  with assms show ?thesis
    by (auto simp: edit_projection_def Let_def st0_def edits_save_def split: if_splits)
qed

lemma edit_projection_failed: "sv_failed sv \<Longrightarrow> edit_projection tok header body baseline idx sv = (None, sv)"
  by (simp add: edit_projection_def)

section \<open>A tokenizer that failed\<close>

definition gate_denies :: "gate_state \<Rightarrow> bool" where
  "gate_denies g \<longleftrightarrow> sv_failed (gt_savings g) \<and> (\<forall>sp. gt_admissions g sp \<noteq> Some True)"

lemma admit_run_denies: "gate_denies g \<Longrightarrow> admit_run tok sp run g = (ok, g') \<Longrightarrow> \<not> ok \<and> gate_denies g'"
  by (auto simp: gate_denies_def admit_run_def Let_def count_tokens_failed split: option.splits if_splits prod.splits)

lemma can_add_denies:
  "gate_denies g \<Longrightarrow> fold (can_add_run src (Some (admit_run tok))) vs (False, g) = (add, g') \<Longrightarrow> \<not> add \<and> gate_denies g'"
proof (induction vs arbitrary: g)
  case (Cons v vs)
  obtain s first start count where r: "retained_run (rv_text v) (rv_row v) (rv_skip v) = (s, first, start, count)"
    by (metis prod_cases4)
  obtain ok g1 where gate: "admit_run tok (run_span src (rv_rows v) s first) s g = (ok, g1)" by fastforce
  note G = admit_run_denies [OF Cons.prems(1) gate]
  have "can_add_run src (Some (admit_run tok)) v (False, g) = (False, if count = 0 then g else g1)"
    using r gate G by (simp add: can_add_run_def ask_gate_def)
  with Cons.IH Cons.prems G show ?case by (auto split: if_splits)
qed simp

lemma add_run_denies:
  assumes "gate_denies g" and "add_run hash src (Some (admit_run tok)) v (idx, g) = (idx', g')"
  shows "gate_denies g'"
proof -
  obtain s first start count where r: "retained_run (rv_text v) (rv_row v) (rv_skip v) = (s, first, start, count)"
    by (metis prod_cases4)
  obtain ok g1 where gate: "admit_run tok (run_span src (rv_rows v) s first) s g = (ok, g1)" by fastforce
  note G = admit_run_denies [OF assms(1) gate]
  have "g' = (if count = 0 then g else g1)"
    using assms(2) G by (auto simp: add_run_def Let_def r ask_gate_def gate split: if_splits)
  with G assms(1) show ?thesis by simp
qed

lemma add_unit_denies:
  assumes "gate_denies g" and "add_unit hash src pj (Some (admit_run tok)) (idx, g) = ((idx', g'), kept)"
  shows "gate_denies g'"
proof -
  have "fold (add_run hash src (Some (admit_run tok))) vs (idx, g) = (idx', g') \<Longrightarrow> gate_denies g \<Longrightarrow> gate_denies g'" for vs idx g
  proof (induction vs arbitrary: idx g)
    case (Cons v vs)
    obtain idx1 g1 where "add_run hash src (Some (admit_run tok)) v (idx, g) = (idx1, g1)" by fastforce
    with add_run_denies [OF Cons.prems(2) this] Cons show ?case by simp
  qed simp
  with assms show ?thesis by (auto simp: add_unit_def Let_def)
qed

section \<open>Texts\<close>

text \<open>The ways a text returns: short, as an edit list, or marked.\<close>

lemma pass_text_cases:
  assumes "pass_ok hash H ps" and "pass_text hash tok header body ps = Some (r, ps')"
  shows "r = empty_result\<lparr>rs_text := header @ body, rs_body_bytes := length body\<rparr> \<and> ps' = ps
    \<or> (\<exists>found sps sv add g e sv'.
         accept_spans tok body found (ps_savings ps) = (sps, sv)
       \<and> (if span_bytes sps < length body
          then can_add (ps_sources ps + 1) \<lparr>pj_spans = sps, pj_text = body\<rparr> (Some (admit_run tok)) (new_gate sv)
          else (False, new_gate sv)) = (add, g)
       \<and> edit_projection tok header body (rs_text (text_result header body sps add g)) (ps_index ps) (gt_savings g) = (e, sv')
       \<and> (case e of Some edited \<Rightarrow> r = edited \<and> ps_savings ps' = sv' | None \<Rightarrow> r = text_result header body sps add g
            \<and> (ps_savings ps' = sv' \<or> (\<exists>idx idx' g' kept. add_unit hash (ps_sources ps + 1) \<lparr>pj_spans = sps, pj_text = body\<rparr>
                 (Some (admit_run tok)) (idx, g\<lparr>gt_savings := sv'\<rparr>) = ((idx', g'), kept) \<and> ps_savings ps' = gt_savings g'))))"
proof (cases "length body < threshold")
  case True
  with assms(2) show ?thesis by (simp add: pass_text_def)
next
  case False
  have ix: "index_ok hash H (ps_index ps)" using assms(1) by (simp add: pass_ok_def)
  obtain found where p: "project hash (ps_index ps) body = Some \<lparr>pj_spans = found, pj_text = body\<rparr>"
    using project_ok [OF ix] by blast
  obtain sps sv where a: "accept_spans tok body found (ps_savings ps) = (sps, sv)" by fastforce
  obtain add g where c: "(if span_bytes sps < length body
        then can_add (ps_sources ps + 1) \<lparr>pj_spans = sps, pj_text = body\<rparr> (Some (admit_run tok)) (new_gate sv)
        else (False, new_gate sv)) = (add, g)" by fastforce
  obtain e sv' where e: "edit_projection tok header body (rs_text (text_result header body sps add g)) (ps_index ps) (gt_savings g) = (e, sv')"
    by fastforce
  obtain idx g' kept where u: "add_unit hash (ps_sources ps + 1) \<lparr>pj_spans = sps, pj_text = body\<rparr> (Some (admit_run tok))
      (ps_index ps, g\<lparr>gt_savings := sv'\<rparr>) = ((idx, g'), kept)"
    by (metis prod_cases3 prod.collapse)
  have "case e of Some edited \<Rightarrow> r = edited \<and> ps_savings ps' = sv' | None \<Rightarrow> r = text_result header body sps add g
      \<and> (ps_savings ps' = sv' \<or> ps_savings ps' = gt_savings g')"
    using assms(2) unfolding pass_text_run [OF False p a c e u] by (auto split: option.splits if_splits)
  with a c e u show ?thesis by (intro disjI2 exI [of _ found] exI [of _ sps] exI [of _ sv] exI [of _ add] exI [of _ g]
      exI [of _ e] exI [of _ sv'] conjI) (auto split: option.splits)
qed

lemma pass_text_saves:
  assumes "pass_ok hash H ps" and "pass_text hash tok header body ps = Some (r, ps')"
  shows "saves tok (header @ body) (rs_text r)
    \<or> (\<exists>sps anchor. rs_text r = header @ anchor @ marked_from body sps 0 \<and> list_all (span_saves tok body) sps)"
  using pass_text_cases [OF assms]
proof (elim disjE exE conjE)
  assume "r = empty_result\<lparr>rs_text := header @ body, rs_body_bytes := length body\<rparr>"
  then show ?thesis by (intro disjI2 exI [of _ "[]"]) simp
next
  fix found sps sv add g e sv'
  assume a: "accept_spans tok body found (ps_savings ps) = (sps, sv)"
    and e: "edit_projection tok header body (rs_text (text_result header body sps add g)) (ps_index ps) (gt_savings g) = (e, sv')"
    and r: "case e of Some edited \<Rightarrow> r = edited \<and> ps_savings ps' = sv' | None \<Rightarrow> r = text_result header body sps add g
            \<and> (ps_savings ps' = sv' \<or> (\<exists>idx idx' g' kept. add_unit hash (ps_sources ps + 1) \<lparr>pj_spans = sps, pj_text = body\<rparr>
                 (Some (admit_run tok)) (idx, g\<lparr>gt_savings := sv'\<rparr>) = ((idx', g'), kept) \<and> ps_savings ps' = gt_savings g'))"
  show ?thesis
  proof (cases e)
    case None
    then have "r = text_result header body sps add g" using r by simp
    moreover have "list_all (span_saves tok body) sps" using accept_spans_save [of tok body found "ps_savings ps"] a by simp
    ultimately show ?thesis unfolding text_result_def by auto
  next
    case (Some edited)
    with r e edit_projection_save show ?thesis by simp
  qed
qed

lemma pass_text_failed:
  assumes ok: "pass_ok hash H ps" and failed: "sv_failed (ps_savings ps)"
  shows "\<exists>r ps'. pass_text hash tok header body ps = Some (r, ps') \<and> rs_text r = header @ body
     \<and> rs_repeated_bytes r = 0 \<and> sv_failed (ps_savings ps')"
proof -
  obtain r ps' where t: "pass_text hash tok header body ps = Some (r, ps')" using pass_text_ok [OF ok] by blast
  from pass_text_cases [OF ok t] have "rs_text r = header @ body \<and> rs_repeated_bytes r = 0 \<and> sv_failed (ps_savings ps')"
  proof (elim disjE exE conjE)
    assume "r = empty_result\<lparr>rs_text := header @ body, rs_body_bytes := length body\<rparr>" "ps' = ps"
    with failed show ?thesis by (simp add: empty_result_def)
  next
    fix found sps sv add g e sv'
    assume a: "accept_spans tok body found (ps_savings ps) = (sps, sv)"
      and c: "(if span_bytes sps < length body
          then can_add (ps_sources ps + 1) \<lparr>pj_spans = sps, pj_text = body\<rparr> (Some (admit_run tok)) (new_gate sv)
          else (False, new_gate sv)) = (add, g)"
      and e: "edit_projection tok header body (rs_text (text_result header body sps add g)) (ps_index ps) (gt_savings g) = (e, sv')"
      and r: "case e of Some edited \<Rightarrow> r = edited \<and> ps_savings ps' = sv' | None \<Rightarrow> r = text_result header body sps add g
            \<and> (ps_savings ps' = sv' \<or> (\<exists>idx idx' g' kept. add_unit hash (ps_sources ps + 1) \<lparr>pj_spans = sps, pj_text = body\<rparr>
                 (Some (admit_run tok)) (idx, g\<lparr>gt_savings := sv'\<rparr>) = ((idx', g'), kept) \<and> ps_savings ps' = gt_savings g'))"
    have sps: "sps = []" "sv = ps_savings ps" using a accept_spans_failed [OF failed] by simp_all
    have "gate_denies (new_gate sv)" using failed sps by (simp add: gate_denies_def new_gate_def)
    then have g: "\<not> add" "gate_denies g"
      using c can_add_denies [of "new_gate sv" "ps_sources ps + 1" tok "visit_runs \<lparr>pj_spans = sps, pj_text = body\<rparr>" add g]
      by (simp_all add: can_add_def split: if_splits)
    then have e': "e = None" "sv' = gt_savings g" using e edit_projection_failed [of "gt_savings g"] by (auto simp: gate_denies_def)
    have "gate_denies (g\<lparr>gt_savings := sv'\<rparr>)" using g(2) e' by simp
    from r e'(1) have "ps_savings ps' = sv' \<or> (\<exists>idx idx' g' kept. add_unit hash (ps_sources ps + 1) \<lparr>pj_spans = sps, pj_text = body\<rparr>
        (Some (admit_run tok)) (idx, g\<lparr>gt_savings := sv'\<rparr>) = ((idx', g'), kept) \<and> ps_savings ps' = gt_savings g')" by simp
    then have "sv_failed (ps_savings ps')"
    proof (elim disjE exE conjE)
      assume "ps_savings ps' = sv'"
      with e' g(2) show ?thesis by (simp add: gate_denies_def)
    next
      fix idx idx' g' kept
      assume u: "add_unit hash (ps_sources ps + 1) \<lparr>pj_spans = sps, pj_text = body\<rparr>
        (Some (admit_run tok)) (idx, g\<lparr>gt_savings := sv'\<rparr>) = ((idx', g'), kept)" and "ps_savings ps' = gt_savings g'"
      with add_unit_denies [OF \<open>gate_denies (g\<lparr>gt_savings := sv'\<rparr>)\<close> u] show ?thesis by (simp add: gate_denies_def)
    qed
    then show ?thesis using r e' g(1) sps by (simp add: text_result_def span_bytes_def)
  qed
  with t show ?thesis by blast
qed

end
