(* ===== verification/Composer_Draft.thy ===== *)
theory Composer_Draft
  imports Runes
begin

text \<open>
  A draft of the conversation composer (\<open>modules/conversation/composer/draft.go\<close>): text with
  bound spans (images, files, skills, selections), its caret, and the edits that keep the
  spans in step with the text.  \<open>None\<close> is the panic of a slice that is out of range.  Clones
  are values here.  The grapheme clusters of \<open>uniseg\<close> are the function \<open>clusters\<close>, the category
  table of \<open>unicode.IsPunct\<close> the function \<open>punct\<close> on the bytes of a rune.
\<close>

section \<open>Data\<close>

record token =
  tk_start :: nat
  tk_end :: nat
  tk_path :: string
  tk_name :: string
  tk_text :: string
  tk_source :: string

datatype token_kind = Image | File | Skill | Selection

record draft_span =
  ds_start :: nat
  ds_end :: nat
  ds_kind :: token_kind

record draft =
  d_text :: string
  d_back :: int
  d_images :: "token list"
  d_files :: "token list"
  d_skills :: "token list"
  d_selections :: "token list"
  d_answer_images :: "string list"
  d_attachments :: "string list"
  d_notice :: string
  d_in_history :: bool

definition empty_draft :: draft where
  "empty_draft = \<lparr>d_text = '''', d_back = 0, d_images = [], d_files = [], d_skills = [], d_selections = [],
     d_answer_images = [], d_attachments = [], d_notice = '''', d_in_history = False\<rparr>"

definition cursor :: "draft \<Rightarrow> int" where
  "cursor d = int (length (d_text d)) - min (d_back d) (int (length (d_text d)))"

text \<open>Recalled input takes fresh contents.\<close>

definition editable :: "draft \<Rightarrow> draft" where
  "editable d = d\<lparr>d_answer_images := [], d_attachments := [], d_notice := '''', d_in_history := False\<rparr>"

definition map_groups :: "(token list \<Rightarrow> token list) \<Rightarrow> draft \<Rightarrow> draft" where
  "map_groups f d = d\<lparr>d_images := f (d_images d), d_files := f (d_files d), d_skills := f (d_skills d),
     d_selections := f (d_selections d)\<rparr>"

definition kind_spans :: "token_kind \<Rightarrow> token list \<Rightarrow> draft_span list" where
  "kind_spans k ts = map (\<lambda>t. \<lparr>ds_start = tk_start t, ds_end = tk_end t, ds_kind = k\<rparr>) ts"

definition spans :: "draft \<Rightarrow> draft_span list" where
  "spans d = sort_key ds_start (kind_spans Image (d_images d) @ kind_spans File (d_files d)
     @ kind_spans Skill (d_skills d) @ kind_spans Selection (d_selections d))"

section \<open>Edits\<close>

definition insert_text :: "string \<Rightarrow> draft \<Rightarrow> draft option" where
  "insert_text s d =
     (let at = nat (cursor d)
      in if length (d_text d) < at then None
         else Some (map_groups (map (\<lambda>t. if at \<le> tk_start t
                then t\<lparr>tk_start := tk_start t + length s, tk_end := tk_end t + length s\<rparr> else t))
              (d\<lparr>d_text := take at (d_text d) @ s @ drop at (d_text d)\<rparr>)))"

definition image_label :: "nat \<Rightarrow> string" where
  "image_label n = ''[Image '' @ nat_dec n @ '']''"

text \<open>What stands after a replaced span moves by the difference of the lengths.\<close>

definition shift_after :: "nat \<Rightarrow> nat \<Rightarrow> nat \<Rightarrow> token \<Rightarrow> token" where
  "shift_after start fin n t =
     (if fin \<le> tk_start t then t\<lparr>tk_start := tk_start t + start + n - fin, tk_end := tk_end t + start + n - fin\<rparr> else t)"

definition renumber_image :: "nat \<Rightarrow> int \<times> draft \<Rightarrow> (int \<times> draft) option" where
  "renumber_image i s =
     (case s of (at, d) \<Rightarrow>
      let im = d_images d ! i; start = tk_start im; fin = tk_end im; label = image_label (i + 1)
      in if length (d_text d) < start \<or> length (d_text d) < fin then None
         else let d = map_groups (map (shift_after start fin (length label)))
                    (d\<lparr>d_text := take start (d_text d) @ label @ drop fin (d_text d)\<rparr>);
                  moved = d_images d ! i
              in Some (if int fin \<le> at then at + int start + int (length label) - int fin else at,
                   d\<lparr>d_images := (d_images d)[i := moved\<lparr>tk_end := tk_end moved + start + length label - fin\<rparr>]\<rparr>))"

fun renumber_from :: "nat list \<Rightarrow> int \<times> draft \<Rightarrow> (int \<times> draft) option" where
  "renumber_from [] s = Some s"
| "renumber_from (i # js) s = (case renumber_image i s of None \<Rightarrow> None | Some s' \<Rightarrow> renumber_from js s')"

definition renumber_images :: "draft \<Rightarrow> draft option" where
  "renumber_images d =
     (case renumber_from [0..<length (d_images d)] (cursor d, d\<lparr>d_images := sort_key tk_start (d_images d)\<rparr>) of
        None \<Rightarrow> None
      | Some (at, d') \<Rightarrow> Some (d'\<lparr>d_back := int (length (d_text d')) - at\<rparr>))"

text \<open>A removal drops the bindings that meet the range and moves those after it.\<close>

definition remove_tokens :: "nat \<Rightarrow> nat \<Rightarrow> token list \<Rightarrow> token list" where
  "remove_tokens start fin ts =
     map (\<lambda>t. if fin \<le> tk_start t then t\<lparr>tk_start := tk_start t + start - fin, tk_end := tk_end t + start - fin\<rparr> else t)
       (filter (\<lambda>t. \<not> (tk_start t < fin \<and> start < tk_end t)) ts)"

definition remove_range :: "nat \<Rightarrow> nat \<Rightarrow> draft \<Rightarrow> draft option" where
  "remove_range start fin d =
     (if length (d_text d) < start \<or> length (d_text d) < fin then None
      else let s = take start (d_text d) @ drop fin (d_text d)
           in renumber_images (map_groups (remove_tokens start fin)
                (d\<lparr>d_text := s, d_back := int (length s) - int start\<rparr>)))"

definition trimmed :: "draft \<Rightarrow> draft option" where
  "trimmed d =
     (let s = trim_space (d_text d);
          start = length (d_text d) - length (trim_left space_runes (d_text d))
      in case remove_range (start + length s) (length (d_text d)) d of
           None \<Rightarrow> None
         | Some d1 \<Rightarrow> map_option (\<lambda>d2. d2\<lparr>d_back := 0\<rparr>) (remove_range 0 start d1))"

text \<open>The drafts that have text, one per line.\<close>

definition shift_tokens :: "nat \<Rightarrow> token list \<Rightarrow> token list" where
  "shift_tokens n = map (\<lambda>t. t\<lparr>tk_start := tk_start t + n, tk_end := tk_end t + n\<rparr>)"

definition join_part :: "draft \<Rightarrow> draft \<Rightarrow> draft" where
  "join_part joined part =
     (if d_text part = '''' then joined
      else let s = (if d_text joined \<noteq> '''' then d_text joined @ [newline] else d_text joined); n = length s
           in joined\<lparr>d_text := s @ d_text part, d_back := d_back part,
                d_images := d_images joined @ shift_tokens n (d_images part),
                d_files := d_files joined @ shift_tokens n (d_files part),
                d_skills := d_skills joined @ shift_tokens n (d_skills part),
                d_selections := d_selections joined @ shift_tokens n (d_selections part),
                d_answer_images := d_answer_images joined @ d_answer_images part,
                d_attachments := d_attachments joined @ d_attachments part,
                d_notice := (if d_notice part \<noteq> '''' then d_notice part else d_notice joined)\<rparr>)"

definition join_drafts :: "draft list \<Rightarrow> draft option" where
  "join_drafts parts = renumber_images (foldl join_part empty_draft parts)"

section \<open>Text parts\<close>

text \<open>Even parts are editable, odd ones the labels of the bindings.\<close>

fun parts_from :: "string \<Rightarrow> nat \<Rightarrow> draft_span list \<Rightarrow> string list option" where
  "parts_from s at [] = (if length s < at then None else Some [drop at s])"
| "parts_from s at (sp # sps) =
     (if ds_start sp < at \<or> ds_end sp < ds_start sp \<or> length s < ds_end sp then None
      else map_option (\<lambda>ps. segment s at (ds_start sp) # segment s (ds_start sp) (ds_end sp) # ps)
             (parts_from s (ds_end sp) sps))"

definition text_parts :: "draft \<Rightarrow> string list option" where
  "text_parts d = parts_from (d_text d) 0 (spans d)"

text \<open>The part before binding \<open>i\<close> is replaced, the last part first.\<close>

definition replace_part :: "draft_span list \<Rightarrow> string list \<Rightarrow> nat \<Rightarrow> draft \<Rightarrow> draft option" where
  "replace_part sps parts i d =
     (let start = (if 0 < i then ds_end (sps ! (i - 1)) else 0);
          fin = (if i < length sps then ds_start (sps ! i) else length (d_text d))
      in case remove_range start fin d of None \<Rightarrow> None | Some d' \<Rightarrow> insert_text (parts ! i) d')"

fun replace_parts :: "draft_span list \<Rightarrow> string list \<Rightarrow> nat list \<Rightarrow> draft \<Rightarrow> draft option" where
  "replace_parts sps parts [] d = Some d"
| "replace_parts sps parts (i # js) d =
     (case replace_part sps parts i d of None \<Rightarrow> None | Some d' \<Rightarrow> replace_parts sps parts js d')"

definition with_text_parts :: "string list \<Rightarrow> draft \<Rightarrow> (string + draft) option" where
  "with_text_parts parts d =
     (let sps = spans d
      in if length parts \<noteq> length sps + 1 then Some (Inl ''The retained input changed; reopen its editor'')
         else map_option (\<lambda>d'. Inr (d'\<lparr>d_back := 0\<rparr>)) (replace_parts sps parts (rev [0..<length sps + 1]) d))"

end
