(* ===== verification/Composer_Moves.thy ===== *)
theory Composer_Moves
  imports Composer_Draft
begin

text \<open>
  Where the caret of a draft may stand (\<open>Draft.Graphemes\<close>, \<open>Draft.Boundary\<close>, \<open>Draft.WordBoundary\<close>,
  \<open>Editor.validRange\<close>): between grapheme clusters and never inside a binding.  \<open>clusters\<close> splits
  a string into its grapheme clusters.
\<close>

type_synonym splitter = "string \<Rightarrow> string list"

section \<open>Grapheme clusters\<close>

text \<open>The clusters of a string with the offsets at which they start.\<close>

fun offsets :: "nat \<Rightarrow> string list \<Rightarrow> (nat \<times> string) list" where
  "offsets at [] = []"
| "offsets at (g # gs) = (at, g) # offsets (at + length g) gs"

definition edges :: "draft \<Rightarrow> nat list" where
  "edges d = remdups_adj (sort ([0, length (d_text d)] @ concat (map (\<lambda>sp. [ds_start sp, ds_end sp]) (spans d))))"

fun clusters_between :: "splitter \<Rightarrow> string \<Rightarrow> nat list \<Rightarrow> (nat \<times> string) list" where
  "clusters_between clusters s (a # b # es) = offsets a (clusters (segment s a b)) @ clusters_between clusters s (b # es)"
| "clusters_between clusters s es = []"

definition graphemes :: "splitter \<Rightarrow> draft \<Rightarrow> (nat \<times> string) list" where
  "graphemes clusters d = clusters_between clusters (d_text d) (edges d)"

section \<open>Boundaries\<close>

definition span_boundary :: "nat \<Rightarrow> int \<Rightarrow> draft_span \<Rightarrow> nat option" where
  "span_boundary at direction sp =
     (if direction < 0 \<and> ds_start sp < at \<and> at \<le> ds_end sp then Some (ds_start sp)
      else if 0 < direction \<and> ds_start sp \<le> at \<and> at < ds_end sp then Some (ds_end sp) else None)"

fun first_boundary :: "nat \<Rightarrow> int \<Rightarrow> draft_span list \<Rightarrow> nat option" where
  "first_boundary at direction [] = None"
| "first_boundary at direction (sp # sps) =
     (case span_boundary at direction sp of None \<Rightarrow> first_boundary at direction sps | Some b \<Rightarrow> Some b)"

fun cluster_boundary :: "nat \<Rightarrow> nat \<Rightarrow> int \<Rightarrow> nat \<Rightarrow> (nat \<times> string) list \<Rightarrow> nat" where
  "cluster_boundary len at direction previous [] = len"
| "cluster_boundary len at direction previous ((start, g) # gs) =
     (let fin = start + length g
      in if direction < 0 \<and> at \<le> fin then previous
         else if 0 < direction \<and> at < fin then fin
         else cluster_boundary len at direction fin gs)"

definition caret_boundary :: "splitter \<Rightarrow> nat \<Rightarrow> int \<Rightarrow> draft \<Rightarrow> nat" where
  "caret_boundary clusters at direction d =
     (case first_boundary at direction (spans d) of
        Some b \<Rightarrow> b
      | None \<Rightarrow> cluster_boundary (length (d_text d)) at direction 0 (graphemes clusters d))"

definition is_boundary :: "splitter \<Rightarrow> nat \<Rightarrow> draft \<Rightarrow> bool" where
  "is_boundary clusters at d \<longleftrightarrow> at = 0 \<or> at = length (d_text d)
     \<or> caret_boundary clusters (caret_boundary clusters at (- 1) d) 1 d = at"

definition valid_range :: "splitter \<Rightarrow> int \<Rightarrow> int \<Rightarrow> draft \<Rightarrow> bool" where
  "valid_range clusters start fin d \<longleftrightarrow> 0 \<le> start \<and> start \<le> fin \<and> fin \<le> int (length (d_text d))
     \<and> is_boundary clusters (nat start) d \<and> is_boundary clusters (nat fin) d"

section \<open>Words\<close>

text \<open>\<open>utf8.DecodeLastRuneInString\<close>: the width and the bytes of the last rune.\<close>

definition last_rune_length :: "string \<Rightarrow> nat" where
  "last_rune_length s =
     (case find (\<lambda>k. k \<le> length s \<and> valid_rune (drop (length s - k) s)) [1, 2, 3, 4] of None \<Rightarrow> 1 | Some k \<Rightarrow> k)"

definition last_rune :: "string \<Rightarrow> string" where
  "last_rune s =
     (case find (\<lambda>k. k \<le> length s \<and> valid_rune (drop (length s - k) s)) [1, 2, 3, 4] of
        None \<Rightarrow> replacement | Some k \<Rightarrow> drop (length s - k) s)"

definition is_space :: "string \<Rightarrow> bool" where
  "is_space r \<longleftrightarrow> r \<in> set space_runes"

definition separator :: "(string \<Rightarrow> bool) \<Rightarrow> string \<Rightarrow> bool" where
  "separator punct r \<longleftrightarrow> is_space r \<or> punct r"

lemma last_rune_length_pos: "0 < last_rune_length s"
  by (simp add: last_rune_length_def)

text \<open>While the rune at the caret is, or is not, a separator.\<close>

function skip_left :: "(string \<Rightarrow> bool) \<Rightarrow> string \<Rightarrow> nat \<Rightarrow> nat \<Rightarrow> nat" where
  "skip_left stop s low at =
     (if low < at \<and> \<not> stop (last_rune (take at s)) then skip_left stop s low (at - last_rune_length (take at s)) else at)"
  by pat_completeness auto
termination
proof (relation "measure (\<lambda>(stop, s, low, at). at)")
  fix stop s and low at :: nat
  assume "low < at \<and> \<not> stop (last_rune (take at s))"
  then show "((stop, s, low, at - last_rune_length (take at s)), stop, s, low, at) \<in> measure (\<lambda>(stop, s, low, at). at)"
    using last_rune_length_pos [of "take at s"] by simp
qed simp

function skip_right :: "(string \<Rightarrow> bool) \<Rightarrow> string \<Rightarrow> nat \<Rightarrow> nat \<Rightarrow> nat" where
  "skip_right stop s high at =
     (if at < high \<and> at < length s \<and> \<not> stop (rune_bytes (drop at s)) then skip_right stop s high (at + rune_length (drop at s)) else at)"
  by pat_completeness auto
termination
proof (relation "measure (\<lambda>(stop, s, high, at). high - at)")
  fix stop s and high at :: nat
  assume "at < high \<and> at < length s \<and> \<not> stop (rune_bytes (drop at s))"
  then show "((stop, s, high, at + rune_length (drop at s)), stop, s, high, at) \<in> measure (\<lambda>(stop, s, high, at). high - at)"
    using rune_length_pos [of "drop at s"] by auto
qed simp

declare skip_left.simps [simp del] skip_right.simps [simp del]

text \<open>A word ends inside a cluster only at its edge.\<close>

fun snap :: "bool \<Rightarrow> nat \<Rightarrow> (nat \<times> string) list \<Rightarrow> nat" where
  "snap backward at [] = at"
| "snap backward at ((start, g) # gs) =
     (if at \<le> start then at
      else if at < start + length g then (if backward then start else start + length g)
      else snap backward at gs)"

fun span_word :: "bool \<Rightarrow> nat \<Rightarrow> draft_span list \<Rightarrow> nat option" where
  "span_word backward at [] = None"
| "span_word backward at (sp # sps) =
     (if backward \<and> at = ds_end sp then Some (ds_start sp)
      else if \<not> backward \<and> at = ds_start sp then Some (ds_end sp) else span_word backward at sps)"

definition word_low :: "nat \<Rightarrow> draft_span list \<Rightarrow> nat" where
  "word_low at sps = foldl max 0 (map ds_end (filter (\<lambda>sp. ds_end sp \<le> at) sps))"

definition word_high :: "nat \<Rightarrow> nat \<Rightarrow> draft_span list \<Rightarrow> nat" where
  "word_high len at sps = foldl min len (map ds_start (filter (\<lambda>sp. at \<le> ds_start sp) sps))"

definition word_boundary :: "splitter \<Rightarrow> (string \<Rightarrow> bool) \<Rightarrow> nat \<Rightarrow> bool \<Rightarrow> draft \<Rightarrow> nat" where
  "word_boundary clusters punct at backward d =
     (case span_word backward at (spans d) of
        Some b \<Rightarrow> b
      | None \<Rightarrow>
          let s = d_text d; sep = separator punct; word = (\<lambda>r. \<not> separator punct r);
              low = word_low at (spans d); high = word_high (length s) at (spans d);
              at' = (if backward then skip_left sep s low (skip_left word s low at)
                     else skip_right sep s high (skip_right word s high at))
          in snap backward at' (graphemes clusters d))"

end
