(* ===== verification/Composer_Editor.thy ===== *)
theory Composer_Editor
  imports Composer_Moves
begin

text \<open>
  The editor of the composer (\<open>editor.go\<close>, \<open>edit.go\<close>): a draft with undo and redo stacks and the
  shared input history.  The identifiers that \<open>rand.Text\<close> draws for history entries are
  arguments.
\<close>

section \<open>Data\<close>

datatype run = NoRun | InsertRun | BackspaceRun | DeleteRun

record undo =
  u_draft :: draft
  u_back :: int
  u_history_draft :: draft

record parked =
  k_snapshot :: undo
  k_undo :: "undo list"
  k_redo :: "undo list"
  k_run :: run

record history_entry =
  h_draft :: draft
  h_occurrence :: string
  h_source :: string
  h_restored :: bool

record editor =
  e_draft :: draft
  e_revision :: "64 word"
  e_undo :: "undo list"
  e_redo :: "undo list"
  e_history :: "history_entry list"
  e_history_draft :: draft
  e_back :: int
  e_run :: run

definition new_editor :: editor where
  "new_editor = \<lparr>e_draft = empty_draft, e_revision = 0, e_undo = [], e_redo = [], e_history = [],
     e_history_draft = empty_draft, e_back = 0, e_run = NoRun\<rparr>"

definition changed :: "editor \<Rightarrow> editor" where
  "changed e = e\<lparr>e_revision := e_revision e + 1\<rparr>"

definition replace_draft :: "draft \<Rightarrow> editor \<Rightarrow> editor" where
  "replace_draft d e = changed (e\<lparr>e_draft := editable d\<rparr>)"

definition insert_plain :: "string \<Rightarrow> editor \<Rightarrow> editor option" where
  "insert_plain s e =
     (if s = '''' then Some e
      else map_option (\<lambda>d. changed (e\<lparr>e_draft := d\<rparr>)) (insert_text s (e_draft e)))"

definition remove_plain :: "nat \<Rightarrow> nat \<Rightarrow> editor \<Rightarrow> editor option" where
  "remove_plain start fin e =
     (if start = fin then Some e
      else map_option (\<lambda>d. changed (e\<lparr>e_draft := d\<rparr>)) (remove_range start fin (e_draft e)))"

section \<open>Undo\<close>

text \<open>At most a hundred are kept, the newest ones.\<close>

definition newest_hundred :: "'a list \<Rightarrow> 'a list" where
  "newest_hundred xs = (if 100 < length xs then drop (length xs - 100) xs else xs)"

definition snapshot :: "editor \<Rightarrow> undo" where
  "snapshot e = \<lparr>u_draft = editable (e_draft e), u_back = e_back e, u_history_draft = e_history_draft e\<rparr>"

definition record_undo :: "editor \<Rightarrow> editor" where
  "record_undo e = e\<lparr>e_undo := newest_hundred (e_undo e @ [snapshot e]), e_redo := [], e_run := NoRun\<rparr>"

definition restore_snapshot :: "undo \<Rightarrow> editor \<Rightarrow> editor" where
  "restore_snapshot u e = replace_draft (u_draft u) (e\<lparr>e_back := u_back u, e_history_draft := u_history_draft u\<rparr>)"

definition undo_step :: "bool \<Rightarrow> editor \<Rightarrow> editor" where
  "undo_step redo e =
     (let stack = (if redo then e_redo e else e_undo e); e1 = e\<lparr>e_run := NoRun\<rparr>
      in if stack = [] then e1
         else let e2 = (if redo
                then e1\<lparr>e_redo := butlast stack, e_undo := e_undo e @ [snapshot e]\<rparr>
                else e1\<lparr>e_undo := butlast stack, e_redo := e_redo e @ [snapshot e]\<rparr>)
              in restore_snapshot (last stack) e2)"

section \<open>Edits\<close>

definition word_starts :: "string \<Rightarrow> draft \<Rightarrow> bool" where
  "word_starts s d \<longleftrightarrow> 0 < cursor d \<and> s \<noteq> ''''
     \<and> is_space (last_rune (take (nat (cursor d)) (d_text d))) \<and> \<not> is_space (rune_bytes s)"

definition insert_typed :: "string \<Rightarrow> editor \<Rightarrow> editor option" where
  "insert_typed s e =
     (if 0 < cursor (e_draft e) \<and> s \<noteq> '''' \<and> int (length (d_text (e_draft e))) < cursor (e_draft e) then None
      else insert_plain s (if e_run e \<noteq> InsertRun \<or> word_starts s (e_draft e)
             then (record_undo e)\<lparr>e_run := InsertRun\<rparr> else e))"

definition delete_range :: "nat \<Rightarrow> nat \<Rightarrow> run \<Rightarrow> editor \<Rightarrow> editor option" where
  "delete_range start fin r e =
     (if start = fin then Some (e\<lparr>e_run := NoRun\<rparr>)
      else remove_plain start fin ((if r = NoRun \<or> e_run e \<noteq> r then record_undo e else e)\<lparr>e_run := r\<rparr>))"

definition insert_image :: "string \<Rightarrow> editor \<Rightarrow> editor option" where
  "insert_image path e =
     (let e = e\<lparr>e_run := NoRun\<rparr>; at = nat (cursor (e_draft e)); label = image_label (length (d_images (e_draft e)) + 1)
      in case insert_typed label e of
           None \<Rightarrow> None
         | Some e1 \<Rightarrow>
             let d = e_draft e1; t = \<lparr>tk_start = at, tk_end = at + length label, tk_path = path, tk_name = '''',
                   tk_text = '''', tk_source = ''''\<rparr>
             in map_option (\<lambda>d. e1\<lparr>e_draft := d, e_run := NoRun\<rparr>) (renumber_images (d\<lparr>d_images := d_images d @ [t]\<rparr>)))"

section \<open>Selections\<close>

definition selection_limit :: nat where
  "selection_limit = (192 * 1024) div 2"

definition selection_prefix :: string where
  "selection_prefix = ''[Selected ''"

text \<open>The labels tried in turn; the first one is not numbered.\<close>

definition selection_label :: "string \<Rightarrow> nat \<Rightarrow> string" where
  "selection_label description n =
     (if n < 2 then selection_prefix @ description @ '']''
      else selection_prefix @ description @ '' '' @ nat_dec n @ '']'')"

definition label_used :: "string \<Rightarrow> draft list \<Rightarrow> string \<Rightarrow> bool" where
  "label_used s pending label \<longleftrightarrow> contains s label \<or> list_ex (\<lambda>d. contains (d_text d) label) pending"

text \<open>
  The loop over the labels.  A position of a text carries one label at most, so the texts
  bound the number of rounds.
\<close>

fun fresh_label :: "nat \<Rightarrow> string \<Rightarrow> string \<Rightarrow> draft list \<Rightarrow> nat \<Rightarrow> string option" where
  "fresh_label 0 description s pending n = None"
| "fresh_label (Suc fuel) description s pending n =
     (if label_used s pending (selection_label description n) then fresh_label fuel description s pending (n + 1)
      else Some (selection_label description n))"

definition label_fuel :: "string \<Rightarrow> draft list \<Rightarrow> nat" where
  "label_fuel s pending = Suc (length s + sum_list (map (\<lambda>d. length (d_text d)) pending))"

definition insert_selection :: "string \<Rightarrow> string \<Rightarrow> string \<Rightarrow> draft list \<Rightarrow> editor \<Rightarrow> (string + editor) option" where
  "insert_selection description quoted src pending e =
     (if quoted = '''' then Some (Inr e)
      else if selection_limit < length quoted
        then Some (Inl (''Selection exceeds the 96 KiB mention limit; copy it instead''))
      else case fresh_label (label_fuel (d_text (e_draft e)) pending) (trim_prefix ''Selected '' description)
                  (d_text (e_draft e)) pending 1 of
          None \<Rightarrow> None
        | Some label \<Rightarrow>
            (case insert_typed label (e\<lparr>e_run := NoRun\<rparr>) of
               None \<Rightarrow> None
             | Some e1 \<Rightarrow>
                 let d = e_draft e1; fin = nat (cursor d);
                     t = \<lparr>tk_start = fin - length label, tk_end = fin, tk_path = '''', tk_name = '''',
                          tk_text = quoted, tk_source = src\<rparr>
                 in map_option Inr (insert_plain '' ''
                      (e1\<lparr>e_draft := d\<lparr>d_selections := sort_key tk_start (d_selections d @ [t])\<rparr>\<rparr>))))"

section \<open>Submission, parking\<close>

definition take_draft :: "editor \<Rightarrow> draft \<times> editor" where
  "take_draft e =
     ((editable (e_draft e))\<lparr>d_back := 0\<rparr>,
      (replace_draft empty_draft e)\<lparr>e_back := 0, e_history_draft := empty_draft, e_undo := [], e_redo := [], e_run := NoRun\<rparr>)"

definition restore_parts :: "draft list \<Rightarrow> editor \<Rightarrow> editor option" where
  "restore_parts parts e =
     map_option (\<lambda>d. replace_draft d (e\<lparr>e_undo := [], e_redo := [], e_run := NoRun\<rparr>))
       (join_drafts (parts @ [editable (e_draft e)]))"

definition park :: "editor \<Rightarrow> parked" where
  "park e = \<lparr>k_snapshot = snapshot e, k_undo = e_undo e, k_redo = e_redo e, k_run = e_run e\<rparr>"

definition resume :: "parked \<Rightarrow> editor \<Rightarrow> editor" where
  "resume k e = (restore_snapshot (k_snapshot k) e)\<lparr>e_undo := k_undo k, e_redo := k_redo k, e_run := k_run k\<rparr>"

definition empty_parked :: parked where
  "empty_parked = \<lparr>k_snapshot = \<lparr>u_draft = empty_draft, u_back = 0, u_history_draft = empty_draft\<rparr>, k_undo = [], k_redo = [],
     k_run = NoRun\<rparr>"

text \<open>
  A prompt borrows the editor (\<open>modules/conversation/prompt/editor.go\<close>): the editor it takes is parked, and
  the answer is parked when the prompt closes.
\<close>

definition open_prompt :: "parked \<Rightarrow> editor \<Rightarrow> parked \<times> editor" where
  "open_prompt answer e = (park e, resume answer e)"

definition close_prompt :: "parked \<times> editor \<Rightarrow> parked \<times> parked \<times> editor" where
  "close_prompt s = (case s of (k, e) \<Rightarrow> (park e, empty_parked, resume k e))"

text \<open>Submissions that come back while a prompt owns the editor (\<open>RestoreInput\<close>).\<close>

definition restore_parked :: "draft list \<Rightarrow> parked \<Rightarrow> parked option" where
  "restore_parked parts k = map_option park (restore_parts parts (resume k new_editor))"

section \<open>Input history\<close>

definition remember :: "string \<Rightarrow> draft \<Rightarrow> editor \<Rightarrow> editor" where
  "remember fresh d e =
     (if d_text d = '''' then e
      else e\<lparr>e_history := newest_hundred
             (e_history e @ [\<lparr>h_draft = d, h_occurrence = fresh, h_source = '''', h_restored = False\<rparr>])\<rparr>)"

definition unbound :: "draft \<Rightarrow> bool" where
  "unbound d \<longleftrightarrow> d_images d = [] \<and> d_files d = [] \<and> d_skills d = [] \<and> d_selections d = []"

definition restored_entry :: "string \<Rightarrow> draft \<Rightarrow> history_entry \<Rightarrow> history_entry" where
  "restored_entry fresh d h =
     h\<lparr>h_draft := (if unbound (h_draft h) then d else h_draft h),
       h_occurrence := (if h_occurrence h = '''' then fresh else h_occurrence h), h_restored := True\<rparr>"

definition restore_history :: "string \<Rightarrow> string \<Rightarrow> draft \<Rightarrow> editor \<Rightarrow> editor" where
  "restore_history fresh src d e =
     (case find_index (\<lambda>h. h_source h = src \<and> d_text (h_draft h) = d_text d \<and> \<not> h_restored h) (e_history e) of
        Some i \<Rightarrow> e\<lparr>e_history := (e_history e)[i := restored_entry fresh d (e_history e ! i)]\<rparr>
      | None \<Rightarrow>
          let e1 = remember fresh d e
          in if d_text d = '''' then e1
             else e1\<lparr>e_history := butlast (e_history e1) @ [(last (e_history e1))\<lparr>h_source := src, h_restored := True\<rparr>]\<rparr>)"

definition recall :: "bool \<Rightarrow> editor \<Rightarrow> bool \<times> editor" where
  "recall backward e =
     (let nxt = (if backward then e_back e + 1 else e_back e - 1)
      in if nxt < 0 \<or> int (length (e_history e)) < nxt then (False, e)
         else let e1 = (if e_back e = 0 then e\<lparr>e_history_draft := editable (e_draft e)\<rparr> else e);
                  e2 = (record_undo e1)\<lparr>e_back := nxt\<rparr>;
                  d = (if 0 < nxt then h_draft (e_history e2 ! (length (e_history e2) - nat nxt)) else e_history_draft e2)
              in (True, replace_draft d e2))"

text \<open>
  \<open>PrependHistory\<close>: the entries restored from shared history are matched with the local ones,
  each local entry once; restored local entries that shared history no longer holds come
  before it, live ones after it.  Positions are those of the local entries in the new history.
\<close>

definition entry_match :: "history_entry \<Rightarrow> history_entry \<Rightarrow> bool" where
  "entry_match l entry \<longleftrightarrow>
     (if h_occurrence l \<noteq> '''' \<and> h_occurrence entry \<noteq> '''' then h_occurrence l = h_occurrence entry
      else h_source l = h_source entry \<and> d_text (h_draft l) = d_text (h_draft entry))"

definition share_entry :: "history_entry list \<Rightarrow> history_entry \<Rightarrow> int list \<times> history_entry list \<Rightarrow> int list \<times> history_entry list" where
  "share_entry locals entry s =
     (case s of (positions, shared) \<Rightarrow>
      (case find_index (\<lambda>(p, l). p < 0 \<and> h_restored l \<and> entry_match l entry) (zip positions locals) of
         None \<Rightarrow> (positions, shared @ [entry])
       | Some i \<Rightarrow> (positions[i := int (length shared)],
           shared @ [if h_occurrence (locals ! i) \<noteq> '''' \<or> h_occurrence entry = '''' then locals ! i else entry])))"

definition keep_absent :: "nat \<Rightarrow> nat \<times> history_entry \<Rightarrow> int list \<times> history_entry list \<Rightarrow> int list \<times> history_entry list" where
  "keep_absent shared il s =
     (case s of (positions, history) \<Rightarrow>
      if positions ! fst il < 0 \<and> h_restored (snd il)
      then (positions[fst il := int (length history) + int shared], history @ [snd il]) else s)"

definition place :: "nat \<Rightarrow> nat \<Rightarrow> int \<Rightarrow> int" where
  "place shared before p = (if int shared \<le> p then p - int shared else if 0 \<le> p then p + int before else p)"

definition keep_live :: "nat \<times> history_entry \<Rightarrow> int list \<times> history_entry list \<Rightarrow> int list \<times> history_entry list" where
  "keep_live il s =
     (case s of (positions, history) \<Rightarrow>
      if positions ! fst il < 0 then (positions[fst il := int (length history)], history @ [snd il]) else s)"

definition merged_history :: "history_entry list \<Rightarrow> history_entry list \<Rightarrow> int list \<times> history_entry list" where
  "merged_history locals entries =
     (case fold (share_entry locals) entries (replicate (length locals) (- 1), []) of (positions, shared) \<Rightarrow>
      case fold (keep_absent (length shared)) (enumerate 0 locals) (positions, []) of (positions, history) \<Rightarrow>
      fold keep_live (enumerate 0 locals) (map (place (length shared) (length history)) positions, history @ shared))"

text \<open>A position of browsing follows its entry, or ends when the entry is older than a hundred.\<close>

definition rebase :: "int list \<Rightarrow> nat \<Rightarrow> int \<Rightarrow> int \<times> bool" where
  "rebase positions n back =
     (if 0 < back \<and> back \<le> int (length positions)
      then let b = int n - positions ! (length positions - nat back) in if 100 < b then (0, True) else (b, False)
      else (back, False))"

definition rebase_undo :: "int list \<Rightarrow> nat \<Rightarrow> undo \<Rightarrow> undo" where
  "rebase_undo positions n u =
     (case rebase positions n (u_back u) of (b, expired) \<Rightarrow>
        (if expired then u\<lparr>u_back := b, u_draft := editable (u_history_draft u)\<rparr> else u\<lparr>u_back := b\<rparr>))"

definition rebase_parked :: "int list \<Rightarrow> nat \<Rightarrow> parked \<Rightarrow> parked" where
  "rebase_parked positions n k =
     (let u = rebase_undo positions n (k_snapshot k)
      in k\<lparr>k_snapshot := u, k_run := (if 0 < u_back (k_snapshot k) \<and> u_back u = 0 then NoRun else k_run k),
           k_undo := map (rebase_undo positions n) (k_undo k), k_redo := map (rebase_undo positions n) (k_redo k)\<rparr>)"

definition prepend_history :: "history_entry list \<Rightarrow> parked list \<Rightarrow> editor \<Rightarrow> editor \<times> parked list" where
  "prepend_history entries ks e =
     (case merged_history (e_history e) entries of (positions, history) \<Rightarrow>
      let n = length history;
          e1 = (case rebase positions n (e_back e) of (b, expired) \<Rightarrow>
                  if expired then (replace_draft (e_history_draft e) (e\<lparr>e_back := b\<rparr>))\<lparr>e_run := NoRun\<rparr> else e\<lparr>e_back := b\<rparr>)
      in (e1\<lparr>e_undo := map (rebase_undo positions n) (e_undo e), e_redo := map (rebase_undo positions n) (e_redo e),
             e_history := newest_hundred history\<rparr>,
          map (rebase_parked positions n) ks))"

section \<open>Actions\<close>

datatype edit_action =
    NoAction
  | InsertAction string
  | DeleteAction int int run
  | MoveAction int
  | UndoAction
  | RedoAction
  | RecallPreviousAction
  | RecallNextAction
  | UnknownAction

text \<open>The result is an error, or whether the draft changed.\<close>

definition changed_from :: "editor \<Rightarrow> editor \<Rightarrow> (string + bool) \<times> editor" where
  "changed_from e e' = (Inr (e_revision e' \<noteq> e_revision e), e')"

definition apply_action :: "splitter \<Rightarrow> edit_action \<Rightarrow> editor \<Rightarrow> ((string + bool) \<times> editor) option" where
  "apply_action clusters act e =
     (case act of
        NoAction \<Rightarrow> Some (changed_from e e)
      | InsertAction s \<Rightarrow> map_option (changed_from e) (insert_typed s e)
      | DeleteAction start fin r \<Rightarrow>
          if \<not> valid_range clusters start fin (e_draft e) \<or> r = InsertRun
          then Some (Inl ''Draft deletion must use complete text or attachment boundaries.'', e)
          else map_option (changed_from e) (delete_range (nat start) (nat fin) r e)
      | MoveAction at \<Rightarrow>
          if \<not> valid_range clusters at at (e_draft e)
          then Some (Inl ''Draft caret must use complete text or attachment boundaries.'', e)
          else let e1 = e\<lparr>e_run := NoRun\<rparr>; d = e_draft e
               in Some (changed_from e (if cursor d \<noteq> at
                    then changed (e1\<lparr>e_draft := d\<lparr>d_back := int (length (d_text d)) - at\<rparr>\<rparr>) else e1))
      | UndoAction \<Rightarrow> Some (changed_from e (undo_step False e))
      | RedoAction \<Rightarrow> Some (changed_from e (undo_step True e))
      | RecallPreviousAction \<Rightarrow> Some (changed_from e (snd (recall True (e\<lparr>e_run := NoRun\<rparr>))))
      | RecallNextAction \<Rightarrow> Some (changed_from e (snd (recall False (e\<lparr>e_run := NoRun\<rparr>))))
      | UnknownAction \<Rightarrow> Some (Inl ''Unknown draft action.'', e))"

end
