(* ===== verification/Composer_Tokens.thy ===== *)
theory Composer_Tokens
  imports Composer_Editor "HOL-Library.Multiset"
begin

text \<open>
  What keeps a draft well formed: its bindings are non-empty, inside the text and apart, its
  images carry their numbers in order, and the caret is inside no binding.  Insertions,
  removals and renumberings are all replacements of a segment that no binding crosses.
\<close>

section \<open>Bindings apart\<close>

definition all_tokens :: "draft \<Rightarrow> token list" where
  "all_tokens d = d_images d @ d_files d @ d_skills d @ d_selections d"

definition apart :: "token \<Rightarrow> token \<Rightarrow> bool" where
  "apart a b \<longleftrightarrow> tk_end a \<le> tk_start b \<or> tk_end b \<le> tk_start a"

definition within :: "nat \<Rightarrow> token \<Rightarrow> bool" where
  "within n t \<longleftrightarrow> tk_start t < tk_end t \<and> tk_end t \<le> n"

definition tokens_ok :: "nat \<Rightarrow> token list \<Rightarrow> bool" where
  "tokens_ok n ts \<longleftrightarrow> list_all (within n) ts \<and> sorted_wrt apart ts"

definition clear :: "nat \<Rightarrow> nat \<Rightarrow> token \<Rightarrow> bool" where
  "clear start fin t \<longleftrightarrow> tk_end t \<le> start \<or> fin \<le> tk_start t"

definition aligned_with :: "nat \<Rightarrow> nat \<Rightarrow> token \<Rightarrow> bool" where
  "aligned_with start fin t \<longleftrightarrow> clear start fin t \<or> tk_start t = start \<and> tk_end t = fin"

definition label_of :: "string \<Rightarrow> token \<Rightarrow> string" where
  "label_of s t = segment s (tk_start t) (tk_end t)"

definition resize :: "nat \<Rightarrow> nat \<Rightarrow> nat \<Rightarrow> token \<Rightarrow> token" where
  "resize start fin n t =
     (if tk_start t = start \<and> tk_end t = fin then t\<lparr>tk_end := start + n\<rparr> else shift_after start fin n t)"

lemma apart_sym: "apart a b \<Longrightarrow> apart b a"
  by (auto simp: apart_def)

lemma tokens_ok_mem:
  assumes "tokens_ok n ts" and "a \<in> set ts" and "b \<in> set ts" and "a \<noteq> b"
  shows "apart a b"
proof -
  obtain i j where ij: "i < length ts" "j < length ts" "a = ts ! i" "b = ts ! j" using assms(2,3) by (auto simp: in_set_conv_nth)
  with assms(1,4) show ?thesis
    by (cases "i < j"; cases "j < i") (auto simp: tokens_ok_def sorted_wrt_iff_nth_less intro: apart_sym)
qed

lemma shift_clear: "clear start fin t \<Longrightarrow> start \<le> fin \<Longrightarrow> tk_start t < tk_end t \<Longrightarrow>
    resize start fin n t = shift_after start fin n t"
  by (auto simp: resize_def clear_def shift_after_def)

lemma resize_apart:
  assumes "apart a b" and "aligned_with start fin a" and "aligned_with start fin b" and "start \<le> fin"
    and "tk_start a < tk_end a" and "tk_start b < tk_end b"
  shows "apart (resize start fin n a) (resize start fin n b)"
  using assms by (auto simp: apart_def aligned_with_def clear_def resize_def shift_after_def)

lemma resize_within:
  assumes "within m t" and "aligned_with start fin t" and "start \<le> fin" and "fin \<le> m" and "0 < n \<or> clear start fin t"
  shows "within (start + n + (m - fin)) (resize start fin n t)"
  using assms by (auto simp: within_def aligned_with_def clear_def resize_def shift_after_def)

lemma tokens_ok_resize:
  assumes ok: "tokens_ok m ts" and al: "list_all (aligned_with start fin) ts" and r: "start \<le> fin" "fin \<le> m"
    and n: "0 < n \<or> list_all (clear start fin) ts"
  shows "tokens_ok (start + n + (m - fin)) (map (resize start fin n) ts)"
proof -
  have "list_all (within (start + n + (m - fin))) (map (resize start fin n) ts)"
    using ok al n resize_within [OF _ _ r] by (auto simp: tokens_ok_def list_all_iff)
  moreover have "sorted_wrt apart (map (resize start fin n) ts)"
    using ok al resize_apart [OF _ _ _ r(1)]
    by (auto simp: tokens_ok_def sorted_wrt_map list_all_iff within_def intro: sorted_wrt_mono_rel [where P = apart])
  ultimately show ?thesis by (simp add: tokens_ok_def)
qed

lemma replaced_length: "start \<le> fin \<Longrightarrow> fin \<le> length s \<Longrightarrow> length (take start s @ r @ drop fin s) = start + length r + (length s - fin)"
  by simp

lemma label_of_resize:
  assumes "within (length s) t" and "aligned_with start fin t" and "start \<le> fin" and "fin \<le> length s"
  shows "label_of (take start s @ r @ drop fin s) (resize start fin (length r) t)
    = (if clear start fin t then label_of s t else r)"
proof -
  consider "tk_end t \<le> start" | "fin \<le> tk_start t" "start < tk_end t" | "\<not> clear start fin t"
    unfolding clear_def by linarith
  then show ?thesis
  proof cases
    case 1
    then have "resize start fin (length r) t = t" using assms by (auto simp: resize_def shift_after_def within_def)
    moreover have "segment (take start s @ r @ drop fin s) (tk_start t) (tk_end t) = segment s (tk_start t) (tk_end t)"
    proof (rule nth_equalityI)
      have le: "tk_end t \<le> length s" using assms(1) by (simp add: within_def)
      have le': "tk_end t \<le> length (take start s @ r @ drop fin s)" using 1 assms(3,4) by simp
      show "length (segment (take start s @ r @ drop fin s) (tk_start t) (tk_end t)) = length (segment s (tk_start t) (tk_end t))"
        unfolding segment_length [OF le] segment_length [OF le'] ..
      fix k assume "k < length (segment (take start s @ r @ drop fin s) (tk_start t) (tk_end t))"
      then have k: "k < tk_end t - tk_start t" unfolding segment_length [OF le'] .
      then have "tk_start t + k < start" using 1 by linarith
      with k show "segment (take start s @ r @ drop fin s) (tk_start t) (tk_end t) ! k = segment s (tk_start t) (tk_end t) ! k"
        using 1 le assms(3,4) by (simp add: segment_nth nth_append)
    qed
    ultimately show ?thesis using 1 by (simp add: label_of_def clear_def)
  next
    case 2
    then have t: "resize start fin (length r) t = t\<lparr>tk_start := tk_start t + start + length r - fin, tk_end := tk_end t + start + length r - fin\<rparr>"
      using assms by (auto simp: resize_def shift_after_def within_def)
    obtain k where k: "tk_start t = fin + k" using 2 le_Suc_ex by blast
    have "fin \<le> tk_end t" using 2 assms(1) by (simp add: within_def)
    then obtain m where m: "tk_end t = fin + m" using le_Suc_ex by blast
    have "take (start + length r + m) (take start s @ r @ drop fin s) = take start s @ r @ take m (drop fin s)"
      using assms(3,4) by simp
    then have "segment (take start s @ r @ drop fin s) (start + length r + k) (start + length r + m) = drop k (take m (drop fin s))"
      using assms(3,4) by (simp add: segment_def drop_take add.commute)
    moreover have "segment s (fin + k) (fin + m) = drop k (take m (drop fin s))"
      unfolding segment_def drop_take drop_drop add_diff_cancel_left by (simp only: add.commute)
    ultimately show ?thesis using 2 by (simp add: label_of_def t k m clear_def add.commute add.left_commute)
  next
    case 3
    then have "tk_start t = start" "tk_end t = fin" using assms(2) by (simp_all add: aligned_with_def)
    with 3 assms show ?thesis by (simp add: label_of_def resize_def segment_def)
  qed
qed


section \<open>Well-formed drafts\<close>

definition draft_tokens_ok :: "draft \<Rightarrow> bool" where
  "draft_tokens_ok d \<longleftrightarrow> tokens_ok (length (d_text d)) (all_tokens d)"

definition caret_clear :: "nat \<Rightarrow> draft \<Rightarrow> bool" where
  "caret_clear at d \<longleftrightarrow> at \<le> length (d_text d) \<and> list_all (clear at at) (all_tokens d)"

definition numbered :: "draft \<Rightarrow> bool" where
  "numbered d \<longleftrightarrow> sorted (map tk_start (d_images d))
     \<and> map (label_of (d_text d)) (d_images d) = map image_label [1..<length (d_images d) + 1]"

definition draft_ok :: "draft \<Rightarrow> bool" where
  "draft_ok d \<longleftrightarrow> draft_tokens_ok d \<and> numbered d \<and> 0 \<le> d_back d \<and> d_back d \<le> int (length (d_text d))
     \<and> caret_clear (nat (cursor d)) d"

text \<open>The payload of a binding: what it stands for.\<close>

definition payload :: "token \<Rightarrow> string \<times> string \<times> string \<times> string" where
  "payload t = (tk_path t, tk_name t, tk_text t, tk_source t)"

text \<open>Bindings that keep their payload and their label.\<close>

definition bound_as :: "draft \<Rightarrow> token list \<Rightarrow> (string \<times> string \<times> string \<times> string \<times> string) list" where
  "bound_as d ts = map (\<lambda>t. (label_of (d_text d) t, payload t)) ts"

definition same_bindings :: "draft \<Rightarrow> draft \<Rightarrow> bool" where
  "same_bindings d d' \<longleftrightarrow> bound_as d' (d_files d') = bound_as d (d_files d)
     \<and> bound_as d' (d_skills d') = bound_as d (d_skills d)
     \<and> bound_as d' (d_selections d') = bound_as d (d_selections d)
     \<and> map payload (d_images d') = map payload (d_images d)"

lemma same_bindings_refl: "same_bindings d d"
  by (simp add: same_bindings_def)

lemma same_bindings_trans: "same_bindings a b \<Longrightarrow> same_bindings b c \<Longrightarrow> same_bindings a c"
  by (simp add: same_bindings_def)

lemma group_subsets:
  "set (d_images d) \<subseteq> set (all_tokens d)" "set (d_files d) \<subseteq> set (all_tokens d)"
  "set (d_skills d) \<subseteq> set (all_tokens d)" "set (d_selections d) \<subseteq> set (all_tokens d)"
  by (auto simp: all_tokens_def)

lemma all_tokens_map: "all_tokens (map_groups (map f) d) = map f (all_tokens d)"
  by (simp add: all_tokens_def map_groups_def)

lemma payload_resize [simp]: "payload (resize start fin n t) = payload t"
  by (simp add: payload_def resize_def shift_after_def)

section \<open>Replacing a segment\<close>

definition replace_segment :: "nat \<Rightarrow> nat \<Rightarrow> string \<Rightarrow> draft \<Rightarrow> draft" where
  "replace_segment start fin s d =
     map_groups (map (resize start fin (length s))) (d\<lparr>d_text := take start (d_text d) @ s @ drop fin (d_text d)\<rparr>)"

lemma replace_segment_text: "d_text (replace_segment start fin s d) = take start (d_text d) @ s @ drop fin (d_text d)"
  by (simp add: replace_segment_def map_groups_def)

lemma replace_segment_tokens: "all_tokens (replace_segment start fin s d) = map (resize start fin (length s)) (all_tokens d)"
  by (simp add: replace_segment_def map_groups_def all_tokens_def)

lemma replace_segment_images: "d_images (replace_segment start fin s d) = map (resize start fin (length s)) (d_images d)"
  by (simp add: replace_segment_def map_groups_def)

lemma replace_segment_groups:
  "d_images (replace_segment start fin s d) = map (resize start fin (length s)) (d_images d)"
  "d_files (replace_segment start fin s d) = map (resize start fin (length s)) (d_files d)"
  "d_skills (replace_segment start fin s d) = map (resize start fin (length s)) (d_skills d)"
  "d_selections (replace_segment start fin s d) = map (resize start fin (length s)) (d_selections d)"
  by (simp_all add: replace_segment_def map_groups_def)

definition replaceable :: "nat \<Rightarrow> nat \<Rightarrow> string \<Rightarrow> draft \<Rightarrow> bool" where
  "replaceable start fin s d \<longleftrightarrow> draft_tokens_ok d \<and> list_all (aligned_with start fin) (all_tokens d)
     \<and> start \<le> fin \<and> fin \<le> length (d_text d) \<and> (s \<noteq> [] \<or> list_all (clear start fin) (all_tokens d))"

lemma replace_segment_ok: "replaceable start fin s d \<Longrightarrow> draft_tokens_ok (replace_segment start fin s d)"
  using tokens_ok_resize [of "length (d_text d)" "all_tokens d" start fin "length s"]
  by (auto simp: replaceable_def draft_tokens_ok_def replace_segment_text replace_segment_tokens add.assoc)

lemma replace_segment_label:
  assumes "replaceable start fin s d" and "t \<in> set (all_tokens d)"
  shows "label_of (d_text (replace_segment start fin s d)) (resize start fin (length s) t)
    = (if clear start fin t then label_of (d_text d) t else s)"
  unfolding replace_segment_text
  by (rule label_of_resize) (use assms in \<open>auto simp: replaceable_def draft_tokens_ok_def tokens_ok_def list_all_iff\<close>)

lemma replace_segment_bound:
  assumes "replaceable start fin s d" and "set ts \<subseteq> set (all_tokens d)" and "list_all (clear start fin) ts"
  shows "bound_as (replace_segment start fin s d) (map (resize start fin (length s)) ts) = bound_as d ts"
  using assms replace_segment_label [OF assms(1)] by (auto simp: bound_as_def list_all_iff subset_iff)

text \<open>A caret that stood clear stays clear.\<close>

definition shift_caret :: "nat \<Rightarrow> nat \<Rightarrow> nat \<Rightarrow> nat \<Rightarrow> nat" where
  "shift_caret start fin n at = (if fin \<le> at then at + start + n - fin else at)"

lemma replace_segment_caret:
  assumes "replaceable start fin s d" and "caret_clear at d" and "at \<le> start \<or> fin \<le> at" and "start < fin"
  shows "caret_clear (shift_caret start fin (length s) at) (replace_segment start fin s d)"
proof -
  have c: "clear (shift_caret start fin (length s) at) (shift_caret start fin (length s) at) (resize start fin (length s) t)"
    if "t \<in> set (all_tokens d)" for t
  proof -
    have "clear at at t" "aligned_with start fin t" "tk_start t < tk_end t"
      using assms(1,2) that by (auto simp: caret_clear_def replaceable_def list_all_iff draft_tokens_ok_def tokens_ok_def within_def)
    with assms(3,4) show ?thesis
      by (auto simp: clear_def aligned_with_def shift_caret_def resize_def shift_after_def)
  qed
  moreover have "shift_caret start fin (length s) at \<le> length (d_text (replace_segment start fin s d))"
    using assms by (auto simp: shift_caret_def replace_segment_text replaceable_def caret_clear_def)
  ultimately show ?thesis by (simp add: caret_clear_def replace_segment_tokens list_all_iff)
qed

lemma resize_start_mono:
  assumes "tk_start a \<le> tk_start b" and "aligned_with start fin a" and "aligned_with start fin b" and "start \<le> fin"
    and "tk_start a < tk_end a" and "tk_start b < tk_end b"
  shows "tk_start (resize start fin n a) \<le> tk_start (resize start fin n b)"
  using assms by (auto simp: aligned_with_def clear_def resize_def shift_after_def)

lemma replace_segment_sorted:
  assumes "replaceable start fin s d" and "sorted (map tk_start (d_images d))"
  shows "sorted (map tk_start (d_images (replace_segment start fin s d)))"
proof -
  have "tk_start (resize start fin (length s) a) \<le> tk_start (resize start fin (length s) b)"
    if "a \<in> set (d_images d)" "b \<in> set (d_images d)" "tk_start a \<le> tk_start b" for a b
    using that assms(1) resize_start_mono [of a b start fin "length s"]
    by (auto simp: replaceable_def list_all_iff draft_tokens_ok_def tokens_ok_def within_def all_tokens_def)
  with assms(2) show ?thesis
    unfolding replace_segment_images sorted_map sorted_wrt_map
    by (auto intro: sorted_wrt_mono_rel [where P = "\<lambda>x y. tk_start x \<le> tk_start y"])
qed

section \<open>Renumbering\<close>

lemma image_label_nonempty: "image_label n \<noteq> []"
  by (simp add: image_label_def)

lemma image_aligned:
  assumes "draft_tokens_ok d" and "im \<in> set (d_images d)" and "t \<in> set (all_tokens d)"
  shows "aligned_with (tk_start im) (tk_end im) t" and "t \<noteq> im \<Longrightarrow> clear (tk_start im) (tk_end im) t"
proof -
  have "apart im t" if "t \<noteq> im"
    using tokens_ok_mem [of "length (d_text d)" "all_tokens d" im t] assms that by (auto simp: draft_tokens_ok_def all_tokens_def)
  then show "aligned_with (tk_start im) (tk_end im) t" and "t \<noteq> im \<Longrightarrow> clear (tk_start im) (tk_end im) t"
    by (auto simp: aligned_with_def clear_def apart_def)
qed

lemma images_apart:
  assumes "draft_tokens_ok d" and "i < length (d_images d)" and "j < length (d_images d)" and "i \<noteq> j"
  shows "apart (d_images d ! i) (d_images d ! j)"
proof -
  have "sorted_wrt apart (d_images d)" using assms(1) by (simp add: draft_tokens_ok_def tokens_ok_def all_tokens_def sorted_wrt_append)
  with assms(2-4) show ?thesis by (cases "i < j") (auto simp: sorted_wrt_iff_nth_less intro: apart_sym)
qed

lemma other_than_image:
  assumes ok: "draft_tokens_ok d" and im: "im \<in> set (d_images d)" and t: "t \<in> set (d_files d @ d_skills d @ d_selections d)"
  shows "t \<noteq> im"
proof
  assume "t = im"
  then have "apart im im" using assms by (auto simp: draft_tokens_ok_def tokens_ok_def all_tokens_def sorted_wrt_append)
  moreover have "within (length (d_text d)) im"
    using ok im by (auto simp: draft_tokens_ok_def tokens_ok_def all_tokens_def list_all_iff)
  ultimately show False by (simp add: apart_def within_def)
qed

text \<open>One round replaces the label of one image.\<close>

lemma renumber_image_replaces:
  assumes ok: "draft_tokens_ok d" and i: "i < length (d_images d)"
  defines "im \<equiv> d_images d ! i"
  shows "replaceable (tk_start im) (tk_end im) (image_label (i + 1)) d"
    and "renumber_image i (int at, d) = Some (int (shift_caret (tk_start im) (tk_end im) (length (image_label (i + 1))) at),
      replace_segment (tk_start im) (tk_end im) (image_label (i + 1)) d)"
proof -
  define start fin n where "start = tk_start im" and "fin = tk_end im" and "n = length (image_label (Suc i))"
  have im: "im \<in> set (d_images d)" "im \<in> set (all_tokens d)" using i by (auto simp: im_def all_tokens_def)
  then have w: "start < fin" "fin \<le> length (d_text d)"
    using ok by (auto simp: draft_tokens_ok_def tokens_ok_def list_all_iff within_def start_def fin_def)
  show rp: "replaceable (tk_start im) (tk_end im) (image_label (i + 1)) d"
    using ok w image_aligned(1) [OF ok im(1)] by (auto simp: replaceable_def list_all_iff image_label_nonempty start_def fin_def)
  have others: "resize start fin n t = shift_after start fin n t" if "t \<in> set (all_tokens d)" "t \<noteq> im" for t
    using image_aligned(2) [OF ok im(1) that] ok that w
    by (intro shift_clear) (auto simp: draft_tokens_ok_def tokens_ok_def list_all_iff within_def start_def fin_def)
  note im_only = other_than_image [OF ok im(1)]
  have imgs: "(map (shift_after start fin n) (d_images d))[i := im\<lparr>tk_end := tk_end im + start + n - fin\<rparr>]
      = map (resize start fin n) (d_images d)"
  proof (rule nth_equalityI)
    fix j assume j: "j < length ((map (shift_after start fin n) (d_images d))[i := im\<lparr>tk_end := tk_end im + start + n - fin\<rparr>])"
    show "(map (shift_after start fin n) (d_images d))[i := im\<lparr>tk_end := tk_end im + start + n - fin\<rparr>] ! j
        = map (resize start fin n) (d_images d) ! j"
    proof (cases "j = i")
      case True
      then show ?thesis using i w by (simp add: im_def [symmetric] resize_def start_def fin_def)
    next
      case False
      then have "apart (d_images d ! j) im" using images_apart [OF ok _ i False] j by (simp add: im_def)
      then have "d_images d ! j \<noteq> im" using w by (auto simp: apart_def start_def fin_def)
      with False j others [of "d_images d ! j"] show ?thesis by (simp add: all_tokens_def)
    qed
  qed simp
  have moved: "map (shift_after start fin n) (d_images d) ! i = im"
    using i w by (simp add: im_def [symmetric] shift_after_def start_def fin_def)
  have groups: "map (shift_after start fin n) (d_files d) = map (resize start fin n) (d_files d)"
    "map (shift_after start fin n) (d_skills d) = map (resize start fin n) (d_skills d)"
    "map (shift_after start fin n) (d_selections d) = map (resize start fin n) (d_selections d)"
    using others im_only by (auto simp: all_tokens_def)
  show "renumber_image i (int at, d) = Some (int (shift_caret (tk_start im) (tk_end im) (length (image_label (i + 1))) at),
      replace_segment (tk_start im) (tk_end im) (image_label (i + 1)) d)"
    using w moved imgs groups
    by (simp add: renumber_image_def Let_def im_def [symmetric] start_def [symmetric] fin_def [symmetric] n_def [symmetric]
        map_groups_def replace_segment_def shift_caret_def of_nat_diff)
qed


definition rest_of :: "draft \<Rightarrow> string list \<times> string list \<times> string \<times> bool" where
  "rest_of d = (d_answer_images d, d_attachments d, d_notice d, d_in_history d)"

lemma replace_segment_rest: "rest_of (replace_segment start fin s d) = rest_of d"
  by (simp add: replace_segment_def map_groups_def rest_of_def)

lemma label_image_bindings:
  assumes ok: "draft_tokens_ok d" and i: "i < length (d_images d)"
  defines "im \<equiv> d_images d ! i"
  shows "same_bindings d (replace_segment (tk_start im) (tk_end im) (image_label (i + 1)) d)"
proof -
  have im: "im \<in> set (d_images d)" using i by (simp add: im_def)
  note rp = renumber_image_replaces(1) [OF ok i, folded im_def]
  have "list_all (clear (tk_start im) (tk_end im)) (d_files d @ d_skills d @ d_selections d)"
    unfolding list_all_iff
  proof
    fix t assume t: "t \<in> set (d_files d @ d_skills d @ d_selections d)"
    then have "t \<in> set (all_tokens d)" by (auto simp: all_tokens_def)
    from image_aligned(2) [OF ok im this] other_than_image [OF ok im t] show "clear (tk_start im) (tk_end im) t" by blast
  qed
  with replace_segment_bound [OF rp] show ?thesis
    by (auto simp: same_bindings_def all_tokens_def replace_segment_def map_groups_def)
qed

lemma renumber_from_ok:
  assumes "draft_tokens_ok d" and "sorted (map tk_start (d_images d))" and "caret_clear at d"
    and "i \<le> length (d_images d)" and "\<forall>j < i. label_of (d_text d) (d_images d ! j) = image_label (j + 1)"
  shows "\<exists>at' d'. renumber_from [i..<length (d_images d)] (int at, d) = Some (int at', d') \<and> draft_tokens_ok d' \<and> numbered d'
    \<and> caret_clear at' d' \<and> same_bindings d d' \<and> rest_of d' = rest_of d"
  using assms
proof (induction "length (d_images d) - i" arbitrary: i at d)
  case 0
  then have i: "i = length (d_images d)" by simp
  have "map (label_of (d_text d)) (d_images d) = map image_label [1..<length (d_images d) + 1]"
    using 0(6) i by (intro nth_equalityI) (simp_all del: upt_Suc)
  then show ?case using 0 i by (intro exI [of _ at] exI [of _ d]) (simp add: numbered_def same_bindings_refl)
next
  case (Suc k)
  then have i: "i < length (d_images d)" by simp
  define im where "im = d_images d ! i"
  define start fin lb where "start = tk_start im" and "fin = tk_end im" and "lb = image_label (i + 1)"
  define d1 where "d1 = replace_segment start fin lb d"
  define at1 where "at1 = shift_caret start fin (length lb) at"
  note step = renumber_image_replaces [OF Suc.prems(1) i, folded im_def, folded start_def fin_def lb_def]
  have im: "im \<in> set (d_images d)" "im \<in> set (all_tokens d)" using i by (simp_all add: im_def all_tokens_def)
  have w: "start < fin" using im(2) Suc.prems(1)
    by (auto simp: draft_tokens_ok_def tokens_ok_def list_all_iff within_def start_def fin_def)
  have "at \<le> start \<or> fin \<le> at" using Suc.prems(3) im(2) by (auto simp: caret_clear_def list_all_iff clear_def start_def fin_def)
  from replace_segment_caret [OF step(1) Suc.prems(3) this w] have caret: "caret_clear at1 d1" by (simp add: at1_def d1_def)
  have ok1: "draft_tokens_ok d1" using replace_segment_ok [OF step(1)] by (simp add: d1_def)
  have sorted1: "sorted (map tk_start (d_images d1))" using replace_segment_sorted [OF step(1) Suc.prems(2)] by (simp add: d1_def)
  have len: "length (d_images d1) = length (d_images d)" by (simp add: d1_def replace_segment_images)
  have labels: "\<forall>j < Suc i. label_of (d_text d1) (d_images d1 ! j) = image_label (j + 1)"
  proof (intro allI impI)
    fix j assume j: "j < Suc i"
    have mem: "d_images d ! j \<in> set (all_tokens d)" using j i by (simp add: all_tokens_def)
    have "label_of (d_text d1) (d_images d1 ! j) = (if clear start fin (d_images d ! j) then label_of (d_text d) (d_images d ! j) else lb)"
      using replace_segment_label [OF step(1) mem] j i by (simp add: d1_def replace_segment_images)
    moreover have "clear start fin (d_images d ! j)" if "j \<noteq> i"
      using images_apart [OF Suc.prems(1) _ i that] j i by (auto simp: apart_def clear_def im_def start_def fin_def)
    moreover have "\<not> clear start fin im" using w by (simp add: clear_def start_def fin_def)
    ultimately show "label_of (d_text d1) (d_images d1 ! j) = image_label (j + 1)"
      using Suc.prems(5) j by (cases "j = i") (simp_all add: im_def lb_def)
  qed
  have "k = length (d_images d1) - Suc i" using Suc(2) len by simp
  from Suc(1) [OF this ok1 sorted1 caret _ labels] i len obtain at' d' where
    r: "renumber_from [Suc i..<length (d_images d)] (int at1, d1) = Some (int at', d')" "draft_tokens_ok d'" "numbered d'"
      "caret_clear at' d'" "same_bindings d1 d'" "rest_of d' = rest_of d1" by auto
  have "same_bindings d d1" using label_image_bindings [OF Suc.prems(1) i] by (simp add: d1_def im_def start_def fin_def lb_def)
  moreover have "renumber_from [i..<length (d_images d)] (int at, d) = Some (int at', d')"
    using step(2) r(1) i by (simp add: upt_conv_Cons d1_def at1_def)
  ultimately show ?case using r same_bindings_trans replace_segment_rest [of start fin lb d]
    by (intro exI [of _ at'] exI [of _ d']) (auto simp: d1_def)
qed

text \<open>The order in which bindings are listed does not matter.\<close>

lemma tokens_ok_perm:
  assumes "mset ts = mset ts'" and "tokens_ok n ts"
  shows "tokens_ok n ts'"
proof -
  have w: "list_all (within n) ts'" using assms mset_eq_setD [OF assms(1)] by (simp add: tokens_ok_def list_all_iff)
  have "distinct ts"
  proof -
    have "ts ! i \<noteq> ts ! j" if "i < j" "j < length ts" for i j
    proof
      assume eq: "ts ! i = ts ! j"
      have "apart (ts ! i) (ts ! j)" using assms(2) that by (simp add: tokens_ok_def sorted_wrt_iff_nth_less)
      then have "apart (ts ! j) (ts ! j)" unfolding eq .
      moreover have "within n (ts ! j)" using assms(2) that by (simp add: tokens_ok_def list_all_length)
      ultimately show False by (simp add: apart_def within_def)
    qed
    then show ?thesis by (metis distinct_conv_nth nat_neq_iff)
  qed
  then have d: "distinct ts'" using assms(1) mset_eq_imp_distinct_iff by blast
  have "apart (ts' ! i) (ts' ! j)" if "i < j" "j < length ts'" for i j
    using tokens_ok_mem [OF assms(2), of "ts' ! i" "ts' ! j"] that d mset_eq_setD [OF assms(1)]
    by (auto simp: nth_eq_iff_index_eq)
  with w show ?thesis by (simp add: tokens_ok_def sorted_wrt_iff_nth_less)
qed

definition sort_images :: "draft \<Rightarrow> draft" where
  "sort_images d = d\<lparr>d_images := sort_key tk_start (d_images d)\<rparr>"

lemma renumber_images_ok:
  assumes ok: "draft_tokens_ok d" and caret: "caret_clear at d" and cur: "cursor d = int at"
  shows "\<exists>d'. renumber_images d = Some d' \<and> draft_ok d' \<and> same_bindings (sort_images d) d' \<and> rest_of d' = rest_of d"
proof -
  let ?d = "sort_images d"
  have perm: "mset (all_tokens d) = mset (all_tokens ?d)" by (simp add: all_tokens_def sort_images_def)
  have ok': "draft_tokens_ok ?d" using tokens_ok_perm [OF perm] ok by (simp add: draft_tokens_ok_def sort_images_def)
  have "set (all_tokens ?d) = set (all_tokens d)" using mset_eq_setD [OF perm] by simp
  then have caret': "caret_clear at ?d" using caret by (simp add: caret_clear_def list_all_iff sort_images_def)
  have len: "length (d_images ?d) = length (d_images d)" by (simp add: sort_images_def)
  obtain at' d' where r: "renumber_from [0..<length (d_images d)] (int at, ?d) = Some (int at', d')" "draft_tokens_ok d'" "numbered d'"
    "caret_clear at' d'" "same_bindings ?d d'" "rest_of d' = rest_of ?d"
    using renumber_from_ok [OF ok' _ caret', of 0] len by (auto simp: sort_images_def)
  let ?r = "d'\<lparr>d_back := int (length (d_text d')) - int at'\<rparr>"
  have at': "at' \<le> length (d_text d')" using r(4) by (simp add: caret_clear_def)
  then have "cursor ?r = int at'" by (simp add: cursor_def)
  moreover have "all_tokens ?r = all_tokens d'" by (simp add: all_tokens_def)
  ultimately have "draft_ok ?r" using r(2-4) at'
    by (simp add: draft_ok_def draft_tokens_ok_def numbered_def caret_clear_def)
  moreover have "same_bindings ?d ?r" using r(5) by (simp add: same_bindings_def bound_as_def)
  moreover have "renumber_images d = Some ?r" using r(1) cur by (simp add: renumber_images_def sort_images_def)
  ultimately show ?thesis using r(6) by (intro exI [of _ ?r]) (simp add: rest_of_def sort_images_def)
qed

end
