(* ===== verification/Composer_Edits.thy ===== *)
theory Composer_Edits
  imports Composer_Tokens
begin

text \<open>
  The edits of a draft keep it well formed: insertion, removal, renumbering and joining return,
  keep the bindings they do not remove with their labels and payloads, and change nothing of
  the text outside bindings but the edited range.
\<close>

section \<open>Text outside bindings\<close>

definition bound_offsets :: "draft \<Rightarrow> nat set" where
  "bound_offsets d = {i. \<exists>t \<in> set (all_tokens d). tk_start t \<le> i \<and> i < tk_end t}"

definition free_text :: "draft \<Rightarrow> string" where
  "free_text d = nths (d_text d) (- bound_offsets d)"

lemma nths_agree: "(\<And>i. i < length xs \<Longrightarrow> i \<in> A \<longleftrightarrow> i \<in> B) \<Longrightarrow> nths xs A = nths xs B"
  unfolding nths_def by (rule arg_cong [where f = "map fst"], rule filter_cong) (auto simp: set_zip)

lemma nths_none: "(\<And>i. i < length xs \<Longrightarrow> i \<notin> A) \<Longrightarrow> nths xs A = []"
  using nths_agree [of xs A "{}"] by simp

lemma nths_full: "(\<And>i. i < length xs \<Longrightarrow> i \<in> A) \<Longrightarrow> nths xs A = xs"
  by (rule nths_all) simp

lemma nths_three: "nths (a @ b @ c) A
    = nths a A @ nths b {j. j + length a \<in> A} @ nths c {j. j + length a + length b \<in> A}"
  by (simp add: nths_append ac_simps)

lemma resize_covers:
  assumes "aligned_with start fin t" and "start \<le> fin" and "tk_start t < tk_end t"
  shows "i < start \<Longrightarrow> tk_start (resize start fin n t) \<le> i \<and> i < tk_end (resize start fin n t) \<longleftrightarrow> tk_start t \<le> i \<and> i < tk_end t"
    and "tk_start (resize start fin n t) \<le> j + start + n \<and> j + start + n < tk_end (resize start fin n t)
      \<longleftrightarrow> tk_start t \<le> j + fin \<and> j + fin < tk_end t"
  using assms by (auto simp: aligned_with_def clear_def resize_def shift_after_def)

lemma covered_replace:
  assumes rp: "replaceable start fin s d"
  shows "i < start \<Longrightarrow> i \<in> bound_offsets (replace_segment start fin s d) \<longleftrightarrow> i \<in> bound_offsets d"
    and "j + start + length s \<in> bound_offsets (replace_segment start fin s d) \<longleftrightarrow> j + fin \<in> bound_offsets d"
proof -
  have facts: "aligned_with start fin t \<and> tk_start t < tk_end t" if "t \<in> set (all_tokens d)" for t
    using rp that by (auto simp: replaceable_def draft_tokens_ok_def tokens_ok_def list_all_iff within_def)
  have le: "start \<le> fin" using rp by (simp add: replaceable_def)
  show "i < start \<Longrightarrow> i \<in> bound_offsets (replace_segment start fin s d) \<longleftrightarrow> i \<in> bound_offsets d"
    using resize_covers(1) [OF _ le] facts by (simp add: bound_offsets_def replace_segment_tokens)
  show "j + start + length s \<in> bound_offsets (replace_segment start fin s d) \<longleftrightarrow> j + fin \<in> bound_offsets d"
    using resize_covers(2) [OF _ le] facts by (simp add: bound_offsets_def replace_segment_tokens)
qed

lemma plain_split:
  assumes "start \<le> fin" and "fin \<le> length (d_text d)"
  shows "free_text d = nths (take start (d_text d)) (- bound_offsets d)
    @ nths (segment (d_text d) start fin) {j. j + start \<notin> bound_offsets d} @ nths (drop fin (d_text d)) {j. j + fin \<notin> bound_offsets d}"
proof -
  have "d_text d = take start (d_text d) @ segment (d_text d) start fin @ drop fin (d_text d)"
    using assms by (metis append_assoc append_take_drop_id segment_take_drop)
  then have "free_text d = nths (take start (d_text d) @ segment (d_text d) start fin @ drop fin (d_text d)) (- bound_offsets d)"
    unfolding free_text_def by simp
  then show ?thesis unfolding nths_three using assms by (simp add: segment_length)
qed

lemma plain_replace:
  assumes rp: "replaceable start fin s d"
  shows "free_text (replace_segment start fin s d) = nths (take start (d_text d)) (- bound_offsets d)
    @ nths s {j. j + start \<notin> bound_offsets (replace_segment start fin s d)} @ nths (drop fin (d_text d)) {j. j + fin \<notin> bound_offsets d}"
proof -
  have le: "start \<le> fin" "fin \<le> length (d_text d)" using rp by (simp_all add: replaceable_def)
  have "nths (take start (d_text d)) (- bound_offsets (replace_segment start fin s d)) = nths (take start (d_text d)) (- bound_offsets d)"
    by (rule nths_agree) (simp add: covered_replace [OF rp])
  moreover have "{j. j + start + length s \<notin> bound_offsets (replace_segment start fin s d)} = {j. j + fin \<notin> bound_offsets d}"
    using covered_replace(2) [OF rp] by blast
  ultimately show ?thesis
    unfolding free_text_def replace_segment_text nths_three using le by simp
qed

lemma plain_label:
  assumes rp: "replaceable start fin s d" and t: "t \<in> set (all_tokens d)" "tk_start t = start" "tk_end t = fin" "start < fin"
  shows "free_text (replace_segment start fin s d) = free_text d"
proof -
  have le: "start \<le> fin" "fin \<le> length (d_text d)" using rp by (simp_all add: replaceable_def)
  have "nths s {j. j + start \<notin> bound_offsets (replace_segment start fin s d)} = []"
  proof (rule nths_none)
    fix j assume j: "j < length s"
    have "resize start fin (length s) t \<in> set (all_tokens (replace_segment start fin s d))" using t(1) by (simp add: replace_segment_tokens)
    moreover have "tk_start (resize start fin (length s) t) = start" "tk_end (resize start fin (length s) t) = start + length s"
      using t by (simp_all add: resize_def)
    ultimately show "j \<notin> {j. j + start \<notin> bound_offsets (replace_segment start fin s d)}" using j by (force simp: bound_offsets_def)
  qed
  moreover have "nths (segment (d_text d) start fin) {j. j + start \<notin> bound_offsets d} = []"
  proof (rule nths_none)
    fix j assume "j < length (segment (d_text d) start fin)"
    then have "j + start < fin" using le by (simp add: segment_length)
    then show "j \<notin> {j. j + start \<notin> bound_offsets d}" using t by (force simp: bound_offsets_def)
  qed
  ultimately show ?thesis unfolding plain_replace [OF rp] plain_split [OF le] by simp
qed

text \<open>Renumbering leaves the text outside bindings.\<close>

lemma renumber_from_plain:
  assumes "draft_tokens_ok d" and "i \<le> length (d_images d)"
    and "renumber_from [i..<length (d_images d)] (int at, d) = Some (int at', d')"
  shows "free_text d' = free_text d"
  using assms
proof (induction "length (d_images d) - i" arbitrary: i at d)
  case (Suc k)
  then have i: "i < length (d_images d)" by simp
  define im where "im = d_images d ! i"
  define start fin lb where "start = tk_start im" and "fin = tk_end im" and "lb = image_label (i + 1)"
  note step = renumber_image_replaces [OF Suc.prems(1) i, folded im_def, folded start_def fin_def lb_def]
  have im: "im \<in> set (all_tokens d)" using i by (simp add: im_def all_tokens_def)
  then have w: "start < fin" using Suc.prems(1)
    by (auto simp: draft_tokens_ok_def tokens_ok_def list_all_iff within_def start_def fin_def)
  have "renumber_from [Suc i..<length (d_images (replace_segment start fin lb d))]
      (int (shift_caret start fin (length lb) at), replace_segment start fin lb d) = Some (int at', d')"
    using Suc.prems(3) step(2) i by (simp add: upt_conv_Cons replace_segment_images)
  with Suc(1) [OF _ replace_segment_ok [OF step(1)] _ this] Suc(2) i
  have "free_text d' = free_text (replace_segment start fin lb d)" by (simp add: replace_segment_images)
  also have "\<dots> = free_text d" by (rule plain_label [OF step(1) im _ _ w]) (simp_all add: start_def fin_def)
  finally show ?case .
qed simp

lemma renumber_images_plain:
  assumes ok: "draft_tokens_ok d" and caret: "caret_clear at d" and cur: "cursor d = int at" and r: "renumber_images d = Some d'"
  shows "free_text d' = free_text d"
proof -
  let ?d = "sort_images d"
  have perm: "mset (all_tokens d) = mset (all_tokens ?d)" by (simp add: all_tokens_def sort_images_def)
  have ok': "draft_tokens_ok ?d" using tokens_ok_perm [OF perm] ok by (simp add: draft_tokens_ok_def sort_images_def)
  have "set (all_tokens ?d) = set (all_tokens d)" using mset_eq_setD [OF perm] by simp
  then have same: "free_text ?d = free_text d" and caret': "caret_clear at ?d"
    using caret by (simp_all add: free_text_def bound_offsets_def sort_images_def caret_clear_def list_all_iff)
  have len: "length (d_images ?d) = length (d_images d)" by (simp add: sort_images_def)
  obtain at' d1 where r1: "renumber_from [0..<length (d_images d)] (int at, ?d) = Some (int at', d1)"
    using renumber_from_ok [OF ok' _ caret', of 0] len by (auto simp: sort_images_def)
  then have "d' = d1\<lparr>d_back := int (length (d_text d1)) - int at'\<rparr>"
    using r cur by (simp add: renumber_images_def sort_images_def)
  then have "free_text d' = free_text d1" by (simp add: free_text_def bound_offsets_def all_tokens_def)
  with renumber_from_plain [OF ok', of 0] r1 len same show ?thesis by simp
qed

section \<open>Insertion\<close>

lemma cursor_caret: "draft_ok d \<Longrightarrow> cursor d = int (nat (cursor d)) \<and> nat (cursor d) \<le> length (d_text d)"
  by (auto simp: draft_ok_def cursor_def)

lemma insert_text_replaces:
  assumes "draft_ok d"
  shows "insert_text s d = Some (replace_segment (nat (cursor d)) (nat (cursor d)) s d)"
    and "replaceable (nat (cursor d)) (nat (cursor d)) s d"
proof -
  let ?at = "nat (cursor d)"
  have tok: "clear ?at ?at t \<and> tk_start t < tk_end t" if "t \<in> set (all_tokens d)" for t
    using assms that by (auto simp: draft_ok_def caret_clear_def list_all_iff draft_tokens_ok_def tokens_ok_def within_def)
  then show "replaceable ?at ?at s d"
    using assms cursor_caret [OF assms] by (auto simp: replaceable_def draft_ok_def list_all_iff aligned_with_def)
  have "(if ?at \<le> tk_start t then t\<lparr>tk_start := tk_start t + length s, tk_end := tk_end t + length s\<rparr> else t)
      = resize ?at ?at (length s) t" if "t \<in> set (all_tokens d)" for t
    using tok [OF that] by (auto simp: resize_def shift_after_def)
  then show "insert_text s d = Some (replace_segment ?at ?at s d)"
    using cursor_caret [OF assms] by (auto simp: insert_text_def Let_def replace_segment_def map_groups_def all_tokens_def)
qed

lemma insert_text_ok:
  assumes ok: "draft_ok d"
  shows "\<exists>d'. insert_text s d = Some d' \<and> draft_ok d' \<and> same_bindings d d' \<and> rest_of d' = rest_of d
    \<and> d_text d' = take (nat (cursor d)) (d_text d) @ s @ drop (nat (cursor d)) (d_text d)
    \<and> cursor d' = cursor d + int (length s)"
proof -
  define at where "at = nat (cursor d)"
  define d' where "d' = replace_segment at at s d"
  note ins = insert_text_replaces [OF ok, of s, folded at_def, folded d'_def]
  have at: "cursor d = int at" "at \<le> length (d_text d)" using cursor_caret [OF ok] by (simp_all add: at_def)
  have clear: "list_all (clear at at) (all_tokens d)" using ok by (simp add: draft_ok_def caret_clear_def at_def)
  have bound: "bound_as d' (map (resize at at (length s)) ts) = bound_as d ts" if "set ts \<subseteq> set (all_tokens d)" for ts
    using replace_segment_bound [OF ins(2) that] clear that by (auto simp: d'_def list_all_iff)
  have same: "same_bindings d d'"
    using bound [OF group_subsets(2)] bound [OF group_subsets(3)] bound [OF group_subsets(4)]
    by (simp add: same_bindings_def replace_segment_groups d'_def)
  have unmoved: "d_back d' = d_back d" by (simp add: d'_def replace_segment_def map_groups_def)
  have body: "d_text d' = take at (d_text d) @ s @ drop at (d_text d)" by (simp add: d'_def replace_segment_text)
  then have len: "length (d_text d') = length (d_text d) + length s" using at(2) by simp
  have "cursor d = int (length (d_text d)) - d_back d" "d_back d \<le> int (length (d_text d))"
    using ok by (simp_all add: cursor_def draft_ok_def)
  then have cur: "cursor d' = int (at + length s)" using at(1) unmoved len by (simp add: cursor_def)
  have images: "map (label_of (d_text d')) (d_images d') = map (label_of (d_text d)) (d_images d)"
    "length (d_images d') = length (d_images d)"
    using bound [OF group_subsets(1)] by (simp_all add: bound_as_def d'_def replace_segment_images)
  have "numbered d" "sorted (map tk_start (d_images d'))"
    using ok replace_segment_sorted [OF ins(2)] by (simp_all add: numbered_def draft_ok_def d'_def)
  then have "numbered d'" unfolding numbered_def images by blast
  moreover have "caret_clear (at + length s) d'"
  proof -
    have "clear (at + length s) (at + length s) (resize at at (length s) t)" if "t \<in> set (all_tokens d)" for t
      using clear that ok by (auto simp: list_all_iff clear_def resize_def shift_after_def draft_ok_def draft_tokens_ok_def tokens_ok_def within_def)
    then show ?thesis using at(2) by (simp add: caret_clear_def d'_def replace_segment_text replace_segment_tokens list_all_iff)
  qed
  moreover have "draft_tokens_ok d'" using replace_segment_ok [OF ins(2)] by (simp add: d'_def)
  moreover have "nat (cursor d') = at + length s" unfolding cur by simp
  ultimately have "draft_ok d'" using ok unmoved body at by (simp add: draft_ok_def)
  moreover have "rest_of d' = rest_of d" by (simp add: d'_def replace_segment_rest)
  moreover have "cursor d' = cursor d + int (length s)" unfolding at(1) cur by simp
  ultimately show ?thesis using ins(1) same body unfolding at_def by blast
qed

lemma insert_text_plain:
  assumes ok: "draft_ok d" and "insert_text s d = Some d'"
  shows "\<exists>a b. free_text d = a @ b \<and> free_text d' = a @ s @ b"
proof -
  define at where "at = nat (cursor d)"
  note ins = insert_text_replaces [OF ok, of s, folded at_def]
  have d': "d' = replace_segment at at s d" using assms(2) ins(1) by simp
  have le: "at \<le> length (d_text d)" using cursor_caret [OF ok] by (simp add: at_def)
  have "nths s {j. j + at \<notin> bound_offsets d'} = s"
  proof (rule nths_full)
    fix j assume j: "j < length s"
    have "clear at at t \<and> tk_start t < tk_end t" if "t \<in> set (all_tokens d)" for t
      using ok that by (auto simp: at_def draft_ok_def caret_clear_def list_all_iff draft_tokens_ok_def tokens_ok_def within_def)
    then have "j + at \<notin> bound_offsets d'" using j
      unfolding bound_offsets_def d' replace_segment_tokens by (fastforce simp: clear_def resize_def shift_after_def)
    then show "j \<in> {j. j + at \<notin> bound_offsets d'}" by simp
  qed
  moreover have "segment (d_text d) at at = []" by simp
  ultimately show ?thesis
    using plain_replace [OF ins(2)] plain_split [OF le_refl le] unfolding d' by auto
qed


section \<open>Removal\<close>

text \<open>The bindings that a removal leaves: those clear of the range.\<close>

definition kept :: "nat \<Rightarrow> nat \<Rightarrow> draft \<Rightarrow> draft" where
  "kept start fin d = map_groups (filter (clear start fin)) d"

lemma kept_tokens: "all_tokens (kept start fin d) = filter (clear start fin) (all_tokens d)"
  by (simp add: kept_def map_groups_def all_tokens_def)

lemma kept_text [simp]: "d_text (kept start fin d) = d_text d" and kept_rest: "rest_of (kept start fin d) = rest_of d"
  by (simp_all add: kept_def map_groups_def rest_of_def)

lemma kept_replaceable:
  assumes "draft_tokens_ok d" and "start \<le> fin" and "fin \<le> length (d_text d)"
  shows "replaceable start fin [] (kept start fin d)"
  using assms by (auto simp: replaceable_def draft_tokens_ok_def tokens_ok_def kept_tokens list_all_iff
      aligned_with_def sorted_wrt_filter)

definition removed :: "nat \<Rightarrow> nat \<Rightarrow> draft \<Rightarrow> draft" where
  "removed start fin d = (replace_segment start fin [] (kept start fin d))
     \<lparr>d_back := int (length (d_text d)) - int fin\<rparr>"

lemma remove_range_removed:
  assumes ok: "draft_tokens_ok d" and r: "start \<le> fin" "fin \<le> length (d_text d)"
  shows "remove_range start fin d = renumber_images (removed start fin d)"
proof -
  have tokens: "remove_tokens start fin ts = map (resize start fin 0) (filter (clear start fin) ts)" if "set ts \<subseteq> set (all_tokens d)" for ts
  proof -
    have "(\<not> (tk_start t < fin \<and> start < tk_end t)) = clear start fin t" for t by (auto simp: clear_def)
    moreover have "(if fin \<le> tk_start t then t\<lparr>tk_start := tk_start t + start - fin, tk_end := tk_end t + start - fin\<rparr> else t)
        = resize start fin 0 t" if "t \<in> set ts" "clear start fin t" for t
    proof -
      have "tk_start t < tk_end t"
        using \<open>set ts \<subseteq> set (all_tokens d)\<close> that ok by (auto simp: draft_tokens_ok_def tokens_ok_def list_all_iff within_def)
      with that(2) r(1) shift_clear [of start fin t 0] show ?thesis by (simp add: shift_after_def)
    qed
    ultimately show ?thesis by (auto simp: remove_tokens_def)
  qed
  have "map_groups (remove_tokens start fin) (d\<lparr>d_text := take start (d_text d) @ drop fin (d_text d),
        d_back := int (length (take start (d_text d) @ drop fin (d_text d))) - int start\<rparr>) = removed start fin d"
    using tokens [OF group_subsets(1)] tokens [OF group_subsets(2)] tokens [OF group_subsets(3)] tokens [OF group_subsets(4)] r
    by (simp add: map_groups_def removed_def replace_segment_def kept_def of_nat_diff)
  with r show ?thesis by (simp add: remove_range_def Let_def)
qed

lemma removed_ok:
  assumes ok: "draft_tokens_ok d" and r: "start \<le> fin" "fin \<le> length (d_text d)"
  shows "draft_tokens_ok (removed start fin d)" and "caret_clear start (removed start fin d)" and "cursor (removed start fin d) = int start"
    and "d_text (removed start fin d) = take start (d_text d) @ drop fin (d_text d)"
proof -
  note rp = kept_replaceable [OF ok r]
  let ?k = "replace_segment start fin [] (kept start fin d)"
  have tok: "all_tokens (removed start fin d) = all_tokens ?k" by (simp add: removed_def all_tokens_def)
  show body: "d_text (removed start fin d) = take start (d_text d) @ drop fin (d_text d)"
    by (simp add: removed_def replace_segment_text)
  have same: "d_text (removed start fin d) = d_text ?k" by (simp add: removed_def)
  show "draft_tokens_ok (removed start fin d)" using replace_segment_ok [OF rp] by (simp add: draft_tokens_ok_def tok same)
  have "clear start start (resize start fin 0 t)" if "t \<in> set (all_tokens (kept start fin d))" for t
  proof -
    have "clear start fin t" "tk_start t < tk_end t" using that ok
      by (auto simp: kept_tokens draft_tokens_ok_def tokens_ok_def list_all_iff within_def)
    with r show ?thesis by (auto simp: clear_def resize_def shift_after_def)
  qed
  then show "caret_clear start (removed start fin d)"
    using r by (simp add: caret_clear_def tok body replace_segment_tokens list_all_iff)
  show "cursor (removed start fin d) = int start" using r by (simp add: cursor_def removed_def replace_segment_text of_nat_diff)
qed

lemma removed_bindings:
  assumes ok: "draft_tokens_ok d" and r: "start \<le> fin" "fin \<le> length (d_text d)"
  shows "same_bindings (kept start fin d) (removed start fin d)"
proof -
  note rp = kept_replaceable [OF ok r]
  have clear: "list_all (clear start fin) (all_tokens (kept start fin d))" by (simp add: kept_tokens list_all_iff)
  have "bound_as (removed start fin d) (map (resize start fin 0) ts) = bound_as (kept start fin d) ts"
    if "set ts \<subseteq> set (all_tokens (kept start fin d))" for ts
    using replace_segment_bound [OF rp that] that clear by (auto simp: list_all_iff bound_as_def removed_def)
  from this [OF group_subsets(2)] this [OF group_subsets(3)] this [OF group_subsets(4)] show ?thesis
    by (simp add: same_bindings_def removed_def replace_segment_groups)
qed

lemma sort_images_removed:
  assumes ok: "draft_tokens_ok d" and r: "start \<le> fin" "fin \<le> length (d_text d)" and sorted: "sorted (map tk_start (d_images d))"
  shows "sort_images (removed start fin d) = removed start fin d"
proof -
  have "sorted (map tk_start (d_images (kept start fin d)))" using sorted by (simp add: kept_def map_groups_def sorted_filter)
  from replace_segment_sorted [OF kept_replaceable [OF ok r] this]
  have "sorted (map tk_start (d_images (removed start fin d)))" by (simp add: removed_def)
  then have "sort_key tk_start (d_images (removed start fin d)) = d_images (removed start fin d)" by (rule sort_key_id_if_sorted)
  then show ?thesis by (simp add: sort_images_def)
qed

lemma remove_range_ok:
  assumes ok: "draft_tokens_ok d" and r: "start \<le> fin" "fin \<le> length (d_text d)"
  shows "\<exists>d'. remove_range start fin d = Some d' \<and> draft_ok d' \<and> rest_of d' = rest_of d
    \<and> (sorted (map tk_start (d_images d)) \<longrightarrow> same_bindings (kept start fin d) d')"
proof -
  note R = removed_ok [OF ok r]
  obtain d' where d': "renumber_images (removed start fin d) = Some d'" "draft_ok d'" "same_bindings (sort_images (removed start fin d)) d'"
    "rest_of d' = rest_of (removed start fin d)" using renumber_images_ok [OF R(1-3)] by blast
  have "rest_of (removed start fin d) = rest_of d"
    by (simp add: removed_def rest_of_def replace_segment_def map_groups_def kept_def)
  with d' remove_range_removed [OF ok r] removed_bindings [OF ok r] sort_images_removed [OF ok r] same_bindings_trans
  show ?thesis by auto
qed

text \<open>A removal that cuts no binding removes plain text only.\<close>

lemma remove_range_plain:
  assumes ok: "draft_tokens_ok d" and r: "start \<le> fin" "fin \<le> length (d_text d)"
    and whole: "\<forall>t \<in> set (all_tokens d). clear start fin t \<or> start \<le> tk_start t \<and> tk_end t \<le> fin"
    and d': "remove_range start fin d = Some d'"
  shows "free_text d' = nths (take start (d_text d)) (- bound_offsets d) @ nths (drop fin (d_text d)) {j. j + fin \<notin> bound_offsets d}"
proof -
  note R = removed_ok [OF ok r]
  let ?k = "kept start fin d"
  have "free_text d' = free_text (removed start fin d)"
    using renumber_images_plain [OF R(1-3)] d' remove_range_removed [OF ok r] by simp
  also have "\<dots> = free_text (replace_segment start fin [] ?k)" by (simp add: free_text_def bound_offsets_def removed_def all_tokens_def)
  also have "\<dots> = nths (take start (d_text d)) (- bound_offsets ?k) @ nths (drop fin (d_text d)) {j. j + fin \<notin> bound_offsets ?k}"
    unfolding plain_replace [OF kept_replaceable [OF ok r]] by simp
  also have "nths (take start (d_text d)) (- bound_offsets ?k) = nths (take start (d_text d)) (- bound_offsets d)"
  proof (rule nths_agree)
    fix i assume "i < length (take start (d_text d))"
    then have "i < start" by simp
    with whole have "i \<in> bound_offsets d \<longleftrightarrow> i \<in> bound_offsets ?k" unfolding bound_offsets_def kept_tokens by fastforce
    then show "i \<in> - bound_offsets ?k \<longleftrightarrow> i \<in> - bound_offsets d" by simp
  qed
  also have "{j. j + fin \<notin> bound_offsets ?k} = {j. j + fin \<notin> bound_offsets d}"
  proof -
    have "j + fin \<in> bound_offsets d \<longleftrightarrow> j + fin \<in> bound_offsets ?k" for j using whole unfolding bound_offsets_def kept_tokens by fastforce
    then show ?thesis by simp
  qed
  finally show ?thesis .
qed


section \<open>Joining\<close>

lemma shift_tokens_label:
  "within (length u) t \<Longrightarrow> label_of (s @ u) (t\<lparr>tk_start := tk_start t + length s, tk_end := tk_end t + length s\<rparr>) = label_of u t"
  by (simp add: label_of_def segment_def)

lemma apart_shifted:
  assumes "within n a" and "n \<le> m"
  shows "apart a (b\<lparr>tk_start := tk_start b + m, tk_end := tk_end b + m\<rparr>)"
  using assms by (simp add: apart_def within_def)

lemma tokens_ok_append:
  assumes "tokens_ok n ts" and "tokens_ok k us" and "n \<le> m"
  shows "tokens_ok (m + k) (ts @ shift_tokens m us)"
proof -
  have "list_all (within (m + k)) (ts @ shift_tokens m us)"
    using assms by (auto simp: tokens_ok_def shift_tokens_def list_all_iff within_def)
  moreover have "sorted_wrt apart (shift_tokens m us)"
    using assms(2) by (simp add: tokens_ok_def shift_tokens_def sorted_wrt_map apart_def [abs_def])
  moreover have "\<forall>a \<in> set ts. \<forall>b \<in> set (shift_tokens m us). apart a b"
    using assms apart_shifted by (auto simp: tokens_ok_def shift_tokens_def list_all_iff)
  ultimately show ?thesis using assms(1) by (simp add: tokens_ok_def sorted_wrt_append)
qed

text \<open>What joining keeps: bindings apart, images in order, and a caret that is clear.\<close>

definition joined_ok :: "draft \<Rightarrow> bool" where
  "joined_ok d \<longleftrightarrow> draft_tokens_ok d \<and> sorted (map tk_start (d_images d)) \<and> 0 \<le> d_back d
     \<and> d_back d \<le> int (length (d_text d)) \<and> caret_clear (nat (cursor d)) d"

lemma draft_ok_joined: "draft_ok d \<Longrightarrow> joined_ok d"
  by (simp add: draft_ok_def joined_ok_def numbered_def)

lemma no_text_no_tokens: "draft_tokens_ok d \<Longrightarrow> d_text d = '''' \<Longrightarrow> all_tokens d = []"
  by (cases "all_tokens d") (auto simp: draft_tokens_ok_def tokens_ok_def within_def)

lemma join_part_ok:
  assumes j: "joined_ok joined" and p: "joined_ok part"
  shows "joined_ok (join_part joined part)"
proof (cases "d_text part = ''''")
  case True
  with j show ?thesis by (simp add: join_part_def)
next
  case False
  define s where "s = (if d_text joined \<noteq> '''' then d_text joined @ [newline] else d_text joined)"
  define m where "m = length s"
  let ?d = "join_part joined part"
  have body: "d_text ?d = s @ d_text part" using False by (simp add: join_part_def s_def Let_def)
  have le: "length (d_text joined) \<le> m" by (simp add: m_def s_def)
  have "mset (all_tokens ?d) = mset (all_tokens joined @ shift_tokens m (all_tokens part))"
    using False by (simp add: join_part_def s_def m_def Let_def all_tokens_def shift_tokens_def)
  then have perm: "mset (all_tokens joined @ shift_tokens m (all_tokens part)) = mset (all_tokens ?d)" by simp
  have tok: "tokens_ok (m + length (d_text part)) (all_tokens joined @ shift_tokens m (all_tokens part))"
    using tokens_ok_append [OF _ _ le] j p by (simp add: joined_ok_def draft_tokens_ok_def)
  have "draft_tokens_ok ?d" using tokens_ok_perm [OF perm tok] by (simp add: draft_tokens_ok_def body m_def)
  moreover have "sorted (map tk_start (d_images ?d))"
  proof -
    have "tk_start a \<le> m" if "a \<in> set (d_images joined)" for a
    proof -
      have "within (length (d_text joined)) a"
        using j that by (simp add: joined_ok_def draft_tokens_ok_def tokens_ok_def all_tokens_def list_all_iff)
      with le show ?thesis by (simp add: within_def)
    qed
    moreover have "sorted (map tk_start (shift_tokens m (d_images part)))"
      using p by (simp add: joined_ok_def shift_tokens_def sorted_map comp_def sorted_wrt_map)
    ultimately show ?thesis using j False
      by (fastforce simp: join_part_def s_def m_def Let_def sorted_append joined_ok_def shift_tokens_def)
  qed
  moreover have unmoved: "d_back ?d = d_back part" using False by (simp add: join_part_def Let_def)
  moreover have "caret_clear (nat (cursor ?d)) ?d"
  proof -
    have "0 \<le> cursor part" "cursor ?d = int m + cursor part"
      using p by (simp_all add: cursor_def unmoved body m_def joined_ok_def)
    then have cur: "nat (cursor ?d) = m + nat (cursor part)" by (simp add: nat_add_distrib)
    have "clear (m + nat (cursor part)) (m + nat (cursor part)) t" if t: "t \<in> set (all_tokens joined @ shift_tokens m (all_tokens part))" for t
      using t j p le
      by (fastforce simp: shift_tokens_def joined_ok_def caret_clear_def list_all_iff clear_def draft_tokens_ok_def tokens_ok_def within_def)
    moreover have "set (all_tokens ?d) = set (all_tokens joined @ shift_tokens m (all_tokens part))"
      using mset_eq_setD [OF perm] by simp
    ultimately show ?thesis using p by (simp add: caret_clear_def cur body m_def list_all_iff joined_ok_def)
  qed
  ultimately show ?thesis using p by (simp add: joined_ok_def body)
qed


lemma join_parts_ok:
  assumes "\<forall>p \<in> set parts. joined_ok p" and "joined_ok d"
  shows "joined_ok (foldl join_part d parts)"
  using assms by (induction parts arbitrary: d) (simp_all add: join_part_ok)

lemma joined_empty: "joined_ok empty_draft"
  by (simp add: joined_ok_def empty_draft_def draft_tokens_ok_def tokens_ok_def all_tokens_def caret_clear_def cursor_def)

lemma empty_draft_ok: "draft_ok empty_draft"
  by (simp add: draft_ok_def numbered_def empty_draft_def draft_tokens_ok_def tokens_ok_def all_tokens_def caret_clear_def cursor_def)

text \<open>The bindings of the parts, in order.\<close>

lemma join_part_bound:
  assumes j: "joined_ok joined" and p: "joined_ok part"
    and ts: "set ts \<subseteq> set (all_tokens joined)" and us: "set us \<subseteq> set (all_tokens part)" and ne: "d_text part \<noteq> ''''"
  shows "bound_as (join_part joined part)
      (ts @ shift_tokens (length (if d_text joined \<noteq> '''' then d_text joined @ [newline] else d_text joined)) us)
    = bound_as joined ts @ bound_as part us"
proof -
  define s where "s = (if d_text joined \<noteq> '''' then d_text joined @ [newline] else d_text joined)"
  have body: "d_text (join_part joined part) = s @ d_text part" using ne by (simp add: join_part_def s_def Let_def)
  have "label_of (s @ d_text part) t = label_of (d_text joined) t" if "t \<in> set ts" for t
  proof -
    have "within (length (d_text joined)) t"
      using that ts j by (auto simp: joined_ok_def draft_tokens_ok_def tokens_ok_def list_all_iff)
    then have "tk_end t \<le> length (d_text joined)" "d_text joined \<noteq> ''''" by (auto simp: within_def)
    then show ?thesis by (simp add: label_of_def segment_def s_def)
  qed
  moreover have "label_of (s @ d_text part) (t\<lparr>tk_start := tk_start t + length s, tk_end := tk_end t + length s\<rparr>) = label_of (d_text part) t"
    if "t \<in> set us" for t
    using shift_tokens_label [of "d_text part" t s] that us p
    by (auto simp: joined_ok_def draft_tokens_ok_def tokens_ok_def list_all_iff)
  ultimately show ?thesis unfolding s_def [symmetric]
    by (simp add: bound_as_def body shift_tokens_def payload_def)
qed

definition text_drafts :: "draft list \<Rightarrow> draft list" where
  "text_drafts parts = filter (\<lambda>p. d_text p \<noteq> '''') parts"

lemma join_parts_bound:
  assumes "\<forall>p \<in> set parts. joined_ok p" and "joined_ok d"
  shows "bound_as (foldl join_part d parts) (d_files (foldl join_part d parts))
      = bound_as d (d_files d) @ concat (map (\<lambda>p. bound_as p (d_files p)) (text_drafts parts))
    \<and> bound_as (foldl join_part d parts) (d_skills (foldl join_part d parts))
      = bound_as d (d_skills d) @ concat (map (\<lambda>p. bound_as p (d_skills p)) (text_drafts parts))
    \<and> bound_as (foldl join_part d parts) (d_selections (foldl join_part d parts))
      = bound_as d (d_selections d) @ concat (map (\<lambda>p. bound_as p (d_selections p)) (text_drafts parts))
    \<and> map payload (d_images (foldl join_part d parts))
      = map payload (d_images d) @ concat (map (\<lambda>p. map payload (d_images p)) (text_drafts parts))"
  using assms
proof (induction parts arbitrary: d)
  case (Cons p parts)
  have jp: "joined_ok p" "joined_ok (join_part d p)" using Cons.prems join_part_ok by simp_all
  note IH = Cons.IH [OF _ jp(2)]
  show ?case
  proof (cases "d_text p = ''''")
    case True
    then have "join_part d p = d" by (simp add: join_part_def)
    with IH Cons.prems True show ?thesis by (simp add: text_drafts_def)
  next
    case False
    note B = join_part_bound [OF Cons.prems(2) jp(1) _ _ False]
    have "bound_as (join_part d p) (d_files (join_part d p)) = bound_as d (d_files d) @ bound_as p (d_files p)"
      "bound_as (join_part d p) (d_skills (join_part d p)) = bound_as d (d_skills d) @ bound_as p (d_skills p)"
      "bound_as (join_part d p) (d_selections (join_part d p)) = bound_as d (d_selections d) @ bound_as p (d_selections p)"
      using B [OF group_subsets(2) group_subsets(2)] B [OF group_subsets(3) group_subsets(3)] B [OF group_subsets(4) group_subsets(4)] False
      by (simp_all add: join_part_def Let_def)
    moreover have "map payload (d_images (join_part d p)) = map payload (d_images d) @ map payload (d_images p)"
      using False by (simp add: join_part_def Let_def shift_tokens_def payload_def)
    ultimately show ?thesis using IH Cons.prems False by (simp add: text_drafts_def)
  qed
qed (simp add: text_drafts_def)

lemma join_drafts_ok:
  assumes "\<forall>p \<in> set parts. draft_ok p"
  shows "\<exists>d. join_drafts parts = Some d \<and> draft_ok d \<and> same_bindings (foldl join_part empty_draft parts) d"
proof -
  let ?j = "foldl join_part empty_draft parts"
  have j: "joined_ok ?j" using join_parts_ok [OF _ joined_empty] assms draft_ok_joined by blast
  then have "sort_images ?j = ?j" by (simp add: sort_images_def joined_ok_def sort_key_id_if_sorted)
  moreover have "cursor ?j = int (nat (cursor ?j))" using j by (simp add: joined_ok_def cursor_def)
  ultimately show ?thesis
    using renumber_images_ok [of ?j "nat (cursor ?j)"] j unfolding join_drafts_def joined_ok_def by auto
qed

end
