(* ===== verification/Composer_Boundaries.thy ===== *)
theory Composer_Boundaries
  imports Composer_Edits
begin

text \<open>
  Boundaries of a draft: the clusters tile the text between the edges of the bindings, moving
  by a boundary makes progress, and what the editor accepts as a caret or a range cuts no
  binding.  The splitter is only asked to split a string into non-empty pieces.
\<close>

definition splitter_ok :: "splitter \<Rightarrow> bool" where
  "splitter_ok clusters \<longleftrightarrow> (\<forall>s. concat (clusters s) = s \<and> [] \<notin> set (clusters s))"

section \<open>Clusters\<close>

fun strung :: "nat \<Rightarrow> (nat \<times> string) list \<Rightarrow> nat \<Rightarrow> bool" where
  "strung a [] b \<longleftrightarrow> a = b"
| "strung a ((s, g) # gs) b \<longleftrightarrow> s = a \<and> g \<noteq> [] \<and> strung (a + length g) gs b"

lemma strung_append: "strung a xs b \<Longrightarrow> strung b ys c \<Longrightarrow> strung a (xs @ ys) c"
  by (induction xs arbitrary: a) auto

lemma strung_le: "strung a gs b \<Longrightarrow> a \<le> b \<and> (\<forall>(s, g) \<in> set gs. a \<le> s \<and> s + length g \<le> b)"
  by (induction gs arbitrary: a) fastforce+

lemma offsets_strung: "[] \<notin> set gs \<Longrightarrow> strung a (offsets a gs) (a + length (concat gs))"
  by (induction gs arbitrary: a) (auto simp: add.assoc [symmetric])

definition beside :: "nat set \<Rightarrow> nat \<times> string \<Rightarrow> bool" where
  "beside E p \<longleftrightarrow> (\<forall>e \<in> E. fst p + length (snd p) \<le> e \<or> e \<le> fst p)"

lemma clusters_between_strung:
  assumes "splitter_ok clusters" and "sorted es" and "\<forall>e \<in> set es. e \<le> length s" and "es \<noteq> []"
  shows "strung (hd es) (clusters_between clusters s es) (last es)"
    and "\<forall>p \<in> set (clusters_between clusters s es). beside (set es) p"
proof -
  have "strung (hd es) (clusters_between clusters s es) (last es)
      \<and> (\<forall>p \<in> set (clusters_between clusters s es). beside (set es) p)"
    using assms(2-)
  proof (induction es)
    case (Cons a es)
    show ?case
    proof (cases es)
      case Nil
      then show ?thesis by simp
    next
      case (Cons b fs)
      have le: "a \<le> b" "b \<le> length s" "\<forall>e \<in> set es. b \<le> e" using Cons.prems Cons by auto
      have "length (concat (clusters (segment s a b))) = b - a"
        using assms(1) le by (simp add: splitter_ok_def segment_length)
      moreover have "[] \<notin> set (clusters (segment s a b))" using assms(1) by (simp add: splitter_ok_def)
      ultimately have one: "strung a (offsets a (clusters (segment s a b))) b"
        using offsets_strung [of "clusters (segment s a b)" a] le by simp
      have IH: "strung b (clusters_between clusters s es) (last es)" "\<forall>p \<in> set (clusters_between clusters s es). beside (set es) p"
        using Cons.IH Cons.prems Cons by auto
      have "beside (set (a # es)) p" if "p \<in> set (offsets a (clusters (segment s a b)))" for p
        using strung_le [OF one] that le(3) by (fastforce simp: beside_def)
      moreover have "beside (set (a # es)) p" if "p \<in> set (clusters_between clusters s es)" for p
        using strung_le [OF IH(1)] IH(2) that le(1) by (fastforce simp: beside_def)
      ultimately show ?thesis using strung_append [OF one IH(1)] Cons by auto
    qed
  qed simp
  then show "strung (hd es) (clusters_between clusters s es) (last es)"
    and "\<forall>p \<in> set (clusters_between clusters s es). beside (set es) p" by simp_all
qed

lemma spans_tokens: "set (map (\<lambda>sp. (ds_start sp, ds_end sp)) (spans d)) = (\<lambda>t. (tk_start t, tk_end t)) ` set (all_tokens d)"
  by (auto simp: spans_def kind_spans_def all_tokens_def image_Un image_image)

lemma span_token: "sp \<in> set (spans d) \<Longrightarrow> \<exists>t \<in> set (all_tokens d). ds_start sp = tk_start t \<and> ds_end sp = tk_end t"
  by (auto simp: spans_def kind_spans_def all_tokens_def)

lemma token_span: "t \<in> set (all_tokens d) \<Longrightarrow> \<exists>sp \<in> set (spans d). ds_start sp = tk_start t \<and> ds_end sp = tk_end t"
  by (force simp: spans_def kind_spans_def all_tokens_def)

lemma set_edges: "set (edges d) = {0, length (d_text d)} \<union> (\<Union>sp \<in> set (spans d). {ds_start sp, ds_end sp})"
  unfolding edges_def remdups_adj_set set_sort by auto

lemma sorted_le_last: "sorted xs \<Longrightarrow> x \<in> set xs \<Longrightarrow> x \<le> last xs"
  by (induction xs rule: rev_induct) (auto simp: sorted_append)

lemma graphemes_ok:
  assumes "splitter_ok clusters" and "draft_tokens_ok d"
  shows "strung 0 (graphemes clusters d) (length (d_text d))"
    and "t \<in> set (all_tokens d) \<Longrightarrow> p \<in> set (graphemes clusters d) \<Longrightarrow> beside {tk_start t, tk_end t} p"
proof -
  have le: "\<forall>e \<in> set (edges d). e \<le> length (d_text d)"
  proof
    fix e assume "e \<in> set (edges d)"
    moreover have "ds_start sp \<le> length (d_text d) \<and> ds_end sp \<le> length (d_text d)" if "sp \<in> set (spans d)" for sp
      using span_token [OF that] assms(2) by (fastforce simp: draft_tokens_ok_def tokens_ok_def list_all_iff within_def)
    ultimately show "e \<le> length (d_text d)" by (auto simp: set_edges)
  qed
  have sorted: "sorted (edges d)" unfolding edges_def by (rule sorted_remdups_adj [OF sorted_sort])
  have ne: "edges d \<noteq> []" using set_edges [of d] by auto
  have "hd (edges d) = 0"
  proof -
    have "0 \<in> set (edges d)" by (simp add: set_edges)
    then show ?thesis using sorted ne by (cases "edges d") auto
  qed
  moreover have "last (edges d) = length (d_text d)"
  proof -
    have "length (d_text d) \<in> set (edges d)" by (simp add: set_edges)
    then have "length (d_text d) \<le> last (edges d)" using sorted sorted_le_last by blast
    with le ne show ?thesis by (simp add: order_antisym)
  qed
  ultimately show "strung 0 (graphemes clusters d) (length (d_text d))"
    using clusters_between_strung(1) [OF assms(1) sorted le ne] by (simp add: graphemes_def)
  assume t: "t \<in> set (all_tokens d)" and p: "p \<in> set (graphemes clusters d)"
  obtain sp where "sp \<in> set (spans d)" "ds_start sp = tk_start t" "ds_end sp = tk_end t" using token_span [OF t] by blast
  then have "{tk_start t, tk_end t} \<subseteq> set (edges d)" by (force simp: set_edges)
  with clusters_between_strung(2) [OF assms(1) sorted le ne] p show "beside {tk_start t, tk_end t} p"
    by (auto simp: graphemes_def beside_def)
qed

section \<open>Moving\<close>

lemma cluster_boundary_right:
  assumes "strung a gs b" and "a \<le> at" and "at < b"
  shows "\<exists>(s, g) \<in> set gs. s \<le> at \<and> at < s + length g \<and> cluster_boundary b at 1 a gs = s + length g"
  using assms
proof (induction gs arbitrary: a)
  case (Cons p gs)
  obtain s g where p: "p = (s, g)" by fastforce
  show ?case
  proof (cases "at < s + length g")
    case False
    have "strung (a + length g) gs b" "a + length g \<le> at" using Cons.prems(1) False p by auto
    from Cons.IH [OF this Cons.prems(3)]
    have "\<exists>(s, g') \<in> set gs. s \<le> at \<and> at < s + length g' \<and> cluster_boundary b at 1 (a + length g) gs = s + length g'" .
    moreover have "s = a" using Cons.prems(1) p by simp
    ultimately have "\<exists>(s, g) \<in> set gs. s \<le> at \<and> at < s + length g \<and> cluster_boundary b at 1 a (p # gs) = s + length g"
      using False p by (simp add: Let_def)
    then show ?thesis by auto
  qed (use Cons p in auto)
qed simp

lemma cluster_boundary_end: "strung a gs b \<Longrightarrow> b \<le> at \<Longrightarrow> cluster_boundary b at 1 a gs = b"
proof (induction gs arbitrary: a)
  case (Cons p gs)
  then show ?case using strung_le [OF Cons.prems(1)] by (cases p) auto
qed simp

lemma cluster_boundary_left:
  "strung a gs b \<Longrightarrow> a < at \<Longrightarrow> at \<le> b \<Longrightarrow> cluster_boundary b at (- 1) a gs < at"
proof (induction gs arbitrary: a)
  case (Cons p gs)
  then show ?case by (cases p) (auto simp: Let_def)
qed simp

lemma first_boundary_Some: "first_boundary at direction sps = Some b \<Longrightarrow> \<exists>sp \<in> set sps. span_boundary at direction sp = Some b"
  by (induction sps) (auto split: option.splits)

lemma first_boundary_None: "first_boundary at direction sps = None \<Longrightarrow> sp \<in> set sps \<Longrightarrow> span_boundary at direction sp = None"
  by (induction sps) (auto split: option.splits)

lemma caret_boundary_right:
  assumes cl: "splitter_ok clusters" and ok: "draft_tokens_ok d" and at: "at < length (d_text d)"
  shows "at < caret_boundary clusters at 1 d \<and> caret_boundary clusters at 1 d \<le> length (d_text d)"
proof (cases "first_boundary at 1 (spans d)")
  case None
  note G = graphemes_ok [OF cl ok]
  from cluster_boundary_right [OF G(1) le0 at] None show ?thesis
    using strung_le [OF G(1)] by (auto simp: caret_boundary_def)
next
  case (Some b)
  then obtain sp where "sp \<in> set (spans d)" "span_boundary at 1 sp = Some b" using first_boundary_Some by blast
  moreover from span_token [OF this(1)] ok have "ds_end sp \<le> length (d_text d)"
    by (fastforce simp: draft_tokens_ok_def tokens_ok_def list_all_iff within_def)
  ultimately show ?thesis using Some by (auto simp: caret_boundary_def span_boundary_def split: if_splits)
qed

lemma caret_boundary_left:
  assumes cl: "splitter_ok clusters" and ok: "draft_tokens_ok d" and at: "0 < at" "at \<le> length (d_text d)"
  shows "caret_boundary clusters at (- 1) d < at"
proof (cases "first_boundary at (- 1) (spans d)")
  case None
  from cluster_boundary_left [OF graphemes_ok(1) [OF cl ok] at] None show ?thesis by (simp add: caret_boundary_def)
next
  case (Some b)
  then obtain sp where "span_boundary at (- 1) sp = Some b" using first_boundary_Some by blast
  then show ?thesis using Some by (auto simp: caret_boundary_def span_boundary_def split: if_splits)
qed

text \<open>A boundary to the right is inside no binding.\<close>

lemma boundary_right_clear:
  fixes at :: nat
  assumes cl: "splitter_ok clusters" and ok: "draft_tokens_ok d" and t: "t \<in> set (all_tokens d)"
  defines "r \<equiv> caret_boundary clusters at 1 d"
  shows "clear r r t"
proof (cases "first_boundary at 1 (spans d)")
  case None
  have free: "\<not> (tk_start t \<le> at \<and> at < tk_end t)"
  proof -
    obtain sp where "sp \<in> set (spans d)" "ds_start sp = tk_start t" "ds_end sp = tk_end t" using token_span [OF t] by blast
    with first_boundary_None [OF None] show ?thesis by (fastforce simp: span_boundary_def split: if_splits)
  qed
  have w: "tk_end t \<le> length (d_text d)" using ok t by (auto simp: draft_tokens_ok_def tokens_ok_def list_all_iff within_def)
  note G = graphemes_ok [OF cl ok]
  have r: "r = cluster_boundary (length (d_text d)) at 1 0 (graphemes clusters d)" by (simp add: r_def caret_boundary_def None)
  show ?thesis
  proof (cases "at < length (d_text d)")
    case True
    from cluster_boundary_right [OF G(1) le0 True] obtain s g where
      sg: "(s, g) \<in> set (graphemes clusters d)" "s \<le> at" "at < s + length g" "r = s + length g" by (auto simp: r)
    have "beside {tk_start t, tk_end t} (s, g)" using G(2) [OF t sg(1)] .
    with sg free show ?thesis by (auto simp: clear_def beside_def)
  next
    case False
    with cluster_boundary_end [OF G(1)] w show ?thesis by (simp add: r clear_def)
  qed
next
  case (Some b)
  then obtain sp where sp: "sp \<in> set (spans d)" "span_boundary at 1 sp = Some b" using first_boundary_Some by blast
  obtain u where u: "u \<in> set (all_tokens d)" "ds_start sp = tk_start u" "ds_end sp = tk_end u" using span_token [OF sp(1)] by blast
  have r: "r = tk_end u" using Some sp(2) u by (auto simp: r_def caret_boundary_def span_boundary_def split: if_splits)
  show ?thesis
  proof (cases "t = u")
    case False
    with tokens_ok_mem [OF ok [unfolded draft_tokens_ok_def] t u(1)] have "apart t u" .
    moreover have "tk_start u < tk_end u" using ok u by (auto simp: draft_tokens_ok_def tokens_ok_def list_all_iff within_def)
    ultimately show ?thesis by (auto simp: clear_def r apart_def)
  qed (simp add: clear_def r)
qed

lemma is_boundary_clear:
  assumes "splitter_ok clusters" and "draft_tokens_ok d" and "at \<le> length (d_text d)" and "is_boundary clusters at d"
  shows "caret_clear at d"
proof -
  have "clear at at t" if t: "t \<in> set (all_tokens d)" for t
    using boundary_right_clear [OF assms(1,2) t, of "caret_boundary clusters at (- 1) d"] assms(2,4) t
    by (auto simp: is_boundary_def clear_def draft_tokens_ok_def tokens_ok_def list_all_iff within_def)
  with assms(3) show ?thesis by (simp add: caret_clear_def list_all_iff)
qed

text \<open>A valid range holds every binding whole or not at all.\<close>

lemma valid_range_whole:
  assumes "splitter_ok clusters" and "draft_tokens_ok d" and "valid_range clusters start fin d" and "t \<in> set (all_tokens d)"
  shows "clear (nat start) (nat fin) t \<or> nat start \<le> tk_start t \<and> tk_end t \<le> nat fin"
proof -
  have r: "nat start \<le> nat fin" "nat fin \<le> length (d_text d)" "is_boundary clusters (nat start) d" "is_boundary clusters (nat fin) d"
    using assms(3) by (auto simp: valid_range_def)
  then have "caret_clear (nat start) d" "caret_clear (nat fin) d" using is_boundary_clear [OF assms(1,2)] by simp_all
  with assms(4) have "clear (nat start) (nat start) t" "clear (nat fin) (nat fin) t" by (simp_all add: caret_clear_def list_all_iff)
  with r(1) show ?thesis by (auto simp: clear_def)
qed

end
