(* ===== verification/Composer_Invariant.thy ===== *)
theory Composer_Invariant
  imports Composer_Boundaries
begin

text \<open>
  The invariant of the editor: every draft it keeps (shown, parked in an undo stack, in the
  input history) is well formed, at most a hundred edits can be undone or redone, and browsing
  stays within the input history.  Every operation keeps it and none of them panics.
\<close>

definition undo_ok :: "nat \<Rightarrow> undo \<Rightarrow> bool" where
  "undo_ok n u \<longleftrightarrow> draft_ok (u_draft u) \<and> editable (u_draft u) = u_draft u \<and> draft_ok (u_history_draft u)
     \<and> 0 \<le> u_back u \<and> u_back u \<le> int n"

definition stacks_ok :: "nat \<Rightarrow> undo list \<Rightarrow> undo list \<Rightarrow> bool" where
  "stacks_ok n us rs \<longleftrightarrow> list_all (undo_ok n) us \<and> list_all (undo_ok n) rs \<and> length us + length rs \<le> 100"

definition editor_ok :: "editor \<Rightarrow> bool" where
  "editor_ok e \<longleftrightarrow> draft_ok (e_draft e) \<and> draft_ok (e_history_draft e)
     \<and> 0 \<le> e_back e \<and> e_back e \<le> int (length (e_history e))
     \<and> list_all (\<lambda>h. draft_ok (h_draft h)) (e_history e) \<and> length (e_history e) \<le> 100
     \<and> stacks_ok (length (e_history e)) (e_undo e) (e_redo e)"

definition parked_ok :: "nat \<Rightarrow> parked \<Rightarrow> bool" where
  "parked_ok n k \<longleftrightarrow> undo_ok n (k_snapshot k) \<and> stacks_ok n (k_undo k) (k_redo k)"

text \<open>A transition of the editor that keeps its invariant and its parked states.\<close>

definition keeps_editor :: "editor \<Rightarrow> editor \<Rightarrow> bool" where
  "keeps_editor e e' \<longleftrightarrow> editor_ok e' \<and> length (e_history e) \<le> length (e_history e')"

lemma draft_ok_cong:
  assumes "d_text d' = d_text d" and "d_back d' = d_back d" and "d_images d' = d_images d" and "d_files d' = d_files d"
    and "d_skills d' = d_skills d" and "d_selections d' = d_selections d"
  shows "draft_ok d' \<longleftrightarrow> draft_ok d"
  using assms by (simp add: draft_ok_def draft_tokens_ok_def numbered_def caret_clear_def cursor_def all_tokens_def)

lemma editable_ok [simp]: "draft_ok (editable d) \<longleftrightarrow> draft_ok d"
  by (rule draft_ok_cong) (simp_all add: editable_def)

lemma editable_idem [simp]: "editable (editable d) = editable d"
  by (simp add: editable_def)

lemma draft_caret_ok:
  assumes "draft_ok d" and "caret_clear at d"
  shows "draft_ok (d\<lparr>d_back := int (length (d_text d)) - int at\<rparr>)"
  using assms by (auto simp: draft_ok_def draft_tokens_ok_def numbered_def caret_clear_def cursor_def all_tokens_def)

lemma caret_end_clear: "draft_tokens_ok d \<Longrightarrow> caret_clear (length (d_text d)) d"
  by (auto simp: caret_clear_def draft_tokens_ok_def tokens_ok_def list_all_iff within_def clear_def)

lemma back_end_ok: "draft_ok d \<Longrightarrow> draft_ok (d\<lparr>d_back := 0\<rparr>)"
  using draft_caret_ok [of d "length (d_text d)"] caret_end_clear [of d] by (simp add: draft_ok_def)

lemma newest_hundred_all: "list_all P xs \<Longrightarrow> list_all P (newest_hundred xs)"
  by (auto simp: newest_hundred_def list_all_iff dest: in_set_dropD)

lemma newest_hundred_length: "length (newest_hundred xs) = min 100 (length xs)"
  by (simp add: newest_hundred_def)

lemma undo_ok_mono: "undo_ok n u \<Longrightarrow> n \<le> m \<Longrightarrow> undo_ok m u"
  by (auto simp: undo_ok_def)

lemma stacks_ok_mono: "stacks_ok n us rs \<Longrightarrow> n \<le> m \<Longrightarrow> stacks_ok m us rs"
  by (auto simp: stacks_ok_def list_all_iff intro: undo_ok_mono)

lemma parked_ok_mono: "parked_ok n k \<Longrightarrow> n \<le> m \<Longrightarrow> parked_ok m k"
  by (auto simp: parked_ok_def intro: undo_ok_mono stacks_ok_mono)

lemma new_editor_ok: "editor_ok new_editor"
  by (simp add: editor_ok_def new_editor_def empty_draft_ok stacks_ok_def)

section \<open>Single steps\<close>

lemma run_ok [simp]: "editor_ok (e\<lparr>e_run := r\<rparr>) \<longleftrightarrow> editor_ok e"
  by (simp add: editor_ok_def)

lemma changed_ok [simp]: "editor_ok (changed e) \<longleftrightarrow> editor_ok e"
  by (simp add: editor_ok_def changed_def)

lemma set_draft_ok: "editor_ok e \<Longrightarrow> draft_ok d \<Longrightarrow> editor_ok (e\<lparr>e_draft := d\<rparr>)"
  by (simp add: editor_ok_def)

lemma replace_draft_ok: "editor_ok e \<Longrightarrow> draft_ok d \<Longrightarrow> editor_ok (replace_draft d e)"
  by (simp add: replace_draft_def set_draft_ok)

lemma snapshot_ok: "editor_ok e \<Longrightarrow> undo_ok (length (e_history e)) (snapshot e)"
  by (simp add: editor_ok_def undo_ok_def snapshot_def)

lemma record_undo_ok: "editor_ok e \<Longrightarrow> editor_ok (record_undo e)"
  using snapshot_ok [of e]
  by (auto simp: editor_ok_def record_undo_def stacks_ok_def newest_hundred_length intro: newest_hundred_all)

lemma record_undo_draft [simp]: "e_draft (record_undo e) = e_draft e" "e_history (record_undo e) = e_history e"
  by (simp_all add: record_undo_def)

lemma replace_draft_history [simp]: "e_history (replace_draft d e) = e_history e" "e_history (changed e) = e_history e"
  by (simp_all add: replace_draft_def changed_def)

lemma restore_snapshot_ok: "editor_ok e \<Longrightarrow> undo_ok (length (e_history e)) u \<Longrightarrow> editor_ok (restore_snapshot u e)"
  by (simp add: restore_snapshot_def replace_draft_def editor_ok_def undo_ok_def changed_def)

lemma undo_step_ok:
  assumes ok: "editor_ok e"
  shows "editor_ok (undo_step redo e)" and "e_history (undo_step redo e) = e_history e"
proof -
  define stack where "stack = (if redo then e_redo e else e_undo e)"
  define e2 where "e2 = (if redo
      then e\<lparr>e_run := NoRun, e_redo := butlast stack, e_undo := e_undo e @ [snapshot e]\<rparr>
      else e\<lparr>e_run := NoRun, e_undo := butlast stack, e_redo := e_redo e @ [snapshot e]\<rparr>)"
  have step: "undo_step redo e = (if stack = [] then e\<lparr>e_run := NoRun\<rparr> else restore_snapshot (last stack) e2)"
    by (simp add: undo_step_def stack_def e2_def Let_def)
  have all: "list_all (undo_ok (length (e_history e))) stack"
    using ok by (simp add: stack_def editor_ok_def stacks_ok_def)
  have "editor_ok e2" if "stack \<noteq> []"
    using ok that snapshot_ok [OF ok] all
    by (auto simp: e2_def stack_def editor_ok_def stacks_ok_def list_all_iff neq_Nil_conv dest: in_set_butlastD)
  moreover have "undo_ok (length (e_history e2)) (last stack)" if "stack \<noteq> []"
    using all that by (simp add: e2_def list_all_iff)
  ultimately show "editor_ok (undo_step redo e)" using ok by (simp add: step restore_snapshot_ok)
  show "e_history (undo_step redo e) = e_history e" by (simp add: step e2_def restore_snapshot_def)
qed

section \<open>Edits\<close>

lemma insert_plain_ok:
  assumes ok: "editor_ok e"
  shows "\<exists>e'. insert_plain s e = Some e' \<and> editor_ok e' \<and> e_history e' = e_history e"
proof -
  obtain d where "insert_text s (e_draft e) = Some d" "draft_ok d" using insert_text_ok ok unfolding editor_ok_def by blast
  with ok show ?thesis by (simp add: insert_plain_def set_draft_ok)
qed

lemma remove_plain_ok:
  assumes ok: "editor_ok e" and r: "start \<le> fin" "fin \<le> length (d_text (e_draft e))"
  shows "\<exists>e'. remove_plain start fin e = Some e' \<and> editor_ok e' \<and> e_history e' = e_history e"
proof -
  have "draft_tokens_ok (e_draft e)" using ok by (simp add: editor_ok_def draft_ok_def)
  from remove_range_ok [OF this r] obtain d where "remove_range start fin (e_draft e) = Some d" "draft_ok d" by blast
  with ok show ?thesis by (simp add: remove_plain_def set_draft_ok)
qed

lemma insert_typed_ok:
  assumes ok: "editor_ok e"
  shows "\<exists>e'. insert_typed s e = Some e' \<and> editor_ok e' \<and> e_history e' = e_history e"
proof -
  define e1 where "e1 = (if e_run e \<noteq> InsertRun \<or> word_starts s (e_draft e) then (record_undo e)\<lparr>e_run := InsertRun\<rparr> else e)"
  have "cursor (e_draft e) \<le> int (length (d_text (e_draft e)))" using ok by (simp add: editor_ok_def draft_ok_def cursor_def)
  then have "insert_typed s e = insert_plain s e1" by (simp add: insert_typed_def e1_def)
  moreover have "editor_ok e1" "e_history e1 = e_history e" using ok record_undo_ok by (simp_all add: e1_def)
  ultimately show ?thesis using insert_plain_ok by metis
qed

lemma delete_range_ok:
  assumes ok: "editor_ok e" and r: "start \<le> fin" "fin \<le> length (d_text (e_draft e))"
  shows "\<exists>e'. delete_range start fin k e = Some e' \<and> editor_ok e' \<and> e_history e' = e_history e"
proof -
  define e1 where "e1 = (if k = NoRun \<or> e_run e \<noteq> k then record_undo e else e)\<lparr>e_run := k\<rparr>"
  have e1: "editor_ok e1" "e_history e1 = e_history e" "e_draft e1 = e_draft e" using ok record_undo_ok by (simp_all add: e1_def)
  show ?thesis
  proof (cases "start = fin")
    case False
    from remove_plain_ok [OF e1(1)] r obtain e' where
      "remove_plain start fin e1 = Some e'" "editor_ok e'" "e_history e' = e_history e" using e1(2,3) by metis
    with False show ?thesis by (simp add: delete_range_def e1_def)
  qed (simp add: delete_range_def ok)
qed

lemma recall_ok:
  assumes ok: "editor_ok e"
  shows "editor_ok (snd (recall b e))" and "e_history (snd (recall b e)) = e_history e"
proof -
  define nxt where "nxt = (if b then e_back e + 1 else e_back e - 1)"
  define e1 where "e1 = (if e_back e = 0 then e\<lparr>e_history_draft := editable (e_draft e)\<rparr> else e)"
  define e2 where "e2 = (record_undo e1)\<lparr>e_back := nxt\<rparr>"
  define d where "d = (if 0 < nxt then h_draft (e_history e2 ! (length (e_history e2) - nat nxt)) else e_history_draft e2)"
  have r: "recall b e = (if nxt < 0 \<or> int (length (e_history e)) < nxt then (False, e) else (True, replace_draft d e2))"
    by (simp add: recall_def nxt_def e1_def e2_def d_def Let_def)
  have h: "e_history e2 = e_history e" by (simp add: e2_def e1_def)
  have e1: "editor_ok e1" using ok by (simp add: e1_def editor_ok_def)
  show "e_history (snd (recall b e)) = e_history e" using h by (simp add: r)
  show "editor_ok (snd (recall b e))"
  proof (cases "nxt < 0 \<or> int (length (e_history e)) < nxt")
    case False
    have e2: "editor_ok e2" using record_undo_ok [OF e1] False h by (simp add: e2_def editor_ok_def)
    have "draft_ok d"
    proof (cases "0 < nxt")
      case True
      with False have "length (e_history e2) - nat nxt < length (e_history e2)" by (simp add: h)
      with e2 True show ?thesis by (simp add: d_def editor_ok_def list_all_length)
    next
      case False
      with e2 show ?thesis by (simp add: d_def editor_ok_def)
    qed
    with e2 False show ?thesis by (simp add: r replace_draft_ok)
  qed (simp add: r ok)
qed

text \<open>Every action of the editor.\<close>

lemma apply_action_ok:
  assumes cl: "splitter_ok clusters" and ok: "editor_ok e"
  shows "\<exists>r e'. apply_action clusters act e = Some (r, e') \<and> editor_ok e' \<and> e_history e' = e_history e
    \<and> (r = Inr True \<longleftrightarrow> e_revision e' \<noteq> e_revision e) \<and> (\<forall>m. r = Inl m \<longrightarrow> e' = e)"
proof -
  have d: "draft_ok (e_draft e)" "draft_tokens_ok (e_draft e)" using ok by (simp_all add: editor_ok_def draft_ok_def)
  show ?thesis
  proof (cases act)
    case (InsertAction s)
    with insert_typed_ok [OF ok, of s] show ?thesis by (auto simp: apply_action_def changed_from_def)
  next
    case (DeleteAction start fin k)
    have "\<exists>e'. delete_range (nat start) (nat fin) k e = Some e' \<and> editor_ok e' \<and> e_history e' = e_history e"
      if "valid_range clusters start fin (e_draft e)"
      by (rule delete_range_ok [OF ok]) (use that in \<open>auto simp: valid_range_def\<close>)
    with DeleteAction ok show ?thesis by (auto simp: apply_action_def changed_from_def)
  next
    case (MoveAction at)
    have "caret_clear (nat at) (e_draft e)" if "valid_range clusters at at (e_draft e)"
      using is_boundary_clear [OF cl d(2)] that by (auto simp: valid_range_def)
    from draft_caret_ok [OF d(1) this]
    have "draft_ok ((e_draft e)\<lparr>d_back := int (length (d_text (e_draft e))) - at\<rparr>)" if "valid_range clusters at at (e_draft e)"
      using that by (auto simp: valid_range_def)
    with MoveAction ok show ?thesis by (auto simp: apply_action_def changed_from_def Let_def set_draft_ok)
  next
    case UndoAction
    with undo_step_ok [OF ok] show ?thesis by (simp add: apply_action_def changed_from_def)
  next
    case RedoAction
    with undo_step_ok [OF ok] show ?thesis by (simp add: apply_action_def changed_from_def)
  next
    case RecallPreviousAction
    with recall_ok [of "e\<lparr>e_run := NoRun\<rparr>"] ok show ?thesis by (simp add: apply_action_def changed_from_def)
  next
    case RecallNextAction
    with recall_ok [of "e\<lparr>e_run := NoRun\<rparr>"] ok show ?thesis by (simp add: apply_action_def changed_from_def)
  qed (use ok in \<open>simp_all add: apply_action_def changed_from_def\<close>)
qed

section \<open>Undo and redo\<close>

text \<open>A redo takes back an undo; an undo takes back a recorded edit.\<close>

lemma redo_undo:
  assumes ok: "editor_ok e" and ne: "e_undo e \<noteq> []"
  defines "e' \<equiv> undo_step True (undo_step False e)"
  shows "e_draft e' = editable (e_draft e)" and "e_undo e' = e_undo e" and "e_redo e' = e_redo e"
    and "e_back e' = e_back e" and "e_history_draft e' = e_history_draft e"
proof -
  have "last (e_undo e) \<in> set (e_undo e)" using ne by simp
  then have ed: "editable (u_draft (last (e_undo e))) = u_draft (last (e_undo e))"
    using ok by (auto simp: editor_ok_def stacks_ok_def list_all_iff undo_ok_def)
  have one: "undo_step False e = restore_snapshot (last (e_undo e))
      (e\<lparr>e_run := NoRun, e_undo := butlast (e_undo e), e_redo := e_redo e @ [snapshot e]\<rparr>)"
    using ne by (simp add: undo_step_def Let_def)
  have snap: "snapshot (undo_step False e) = last (e_undo e)"
    by (simp add: one restore_snapshot_def replace_draft_def changed_def snapshot_def ed)
  have e': "e' = restore_snapshot (snapshot e) ((undo_step False e)\<lparr>e_run := NoRun, e_redo := e_redo e,
      e_undo := butlast (e_undo e) @ [last (e_undo e)]\<rparr>)"
    unfolding e'_def undo_step_def [of True] Let_def snap
    by (simp add: one restore_snapshot_def replace_draft_def changed_def)
  show "e_draft e' = editable (e_draft e)" "e_undo e' = e_undo e" "e_redo e' = e_redo e" "e_back e' = e_back e"
    "e_history_draft e' = e_history_draft e"
    using ne by (simp_all add: e' one restore_snapshot_def replace_draft_def changed_def snapshot_def)
qed

lemma undo_recorded:
  assumes "e_undo e' = newest_hundred (e_undo e @ [snapshot e])"
  shows "e_draft (undo_step False e') = editable (e_draft e)" and "e_back (undo_step False e') = e_back e"
    and "e_history_draft (undo_step False e') = e_history_draft e"
    and "length (e_undo e) < 100 \<Longrightarrow> e_undo (undo_step False e') = e_undo e"
proof -
  have ne: "e_undo e' \<noteq> []" "last (e_undo e') = snapshot e" by (simp_all add: assms newest_hundred_def)
  have one: "undo_step False e' = restore_snapshot (snapshot e)
      (e'\<lparr>e_run := NoRun, e_undo := butlast (e_undo e'), e_redo := e_redo e' @ [snapshot e']\<rparr>)"
    using ne by (simp add: undo_step_def Let_def)
  show "e_draft (undo_step False e') = editable (e_draft e)" "e_back (undo_step False e') = e_back e"
    "e_history_draft (undo_step False e') = e_history_draft e"
    by (simp_all add: one restore_snapshot_def replace_draft_def changed_def snapshot_def)
  show "length (e_undo e) < 100 \<Longrightarrow> e_undo (undo_step False e') = e_undo e"
    by (simp add: one restore_snapshot_def replace_draft_def changed_def assms newest_hundred_def)
qed

end
