(* ===== verification/Composer_Shared.thy ===== *)
theory Composer_Shared
  imports Composer_Invariant
begin

text \<open>
  Merging the shared input history (\<open>Editor.PrependHistory\<close>): each local entry has one place of
  its own in the merged history, that place holds the entry or its enrichment, and browsing
  positions move with their entries.
\<close>

text \<open>What stands for a local entry: the entry, or a live publication of the same input.\<close>

definition follows :: "history_entry \<Rightarrow> history_entry \<Rightarrow> bool" where
  "follows l x \<longleftrightarrow> x = l \<or> entry_match l x \<and> h_occurrence l = '''' \<and> h_occurrence x \<noteq> ''''"

definition tracked :: "history_entry list \<Rightarrow> int list \<Rightarrow> history_entry list \<Rightarrow> bool" where
  "tracked locals ps xs \<longleftrightarrow> length ps = length locals
     \<and> (\<forall>i < length ps. - 1 \<le> ps ! i \<and> ps ! i < int (length xs)
          \<and> (0 \<le> ps ! i \<longrightarrow> follows (locals ! i) (xs ! nat (ps ! i))))
     \<and> (\<forall>i < length ps. \<forall>j < length ps. i \<noteq> j \<longrightarrow> 0 \<le> ps ! i \<longrightarrow> ps ! i \<noteq> ps ! j)"

lemma tracked_start: "tracked locals (replicate (length locals) (- 1)) []"
  by (simp add: tracked_def)

lemma trackedD:
  assumes "tracked locals ps xs"
  shows "length ps = length locals" and "i < length locals \<Longrightarrow> ps ! i < int (length xs)"
    and "i < length locals \<Longrightarrow> 0 \<le> ps ! i \<Longrightarrow> follows (locals ! i) (xs ! nat (ps ! i))"
  using assms by (simp_all add: tracked_def)

lemma tracked_grow:
  assumes "tracked locals ps xs"
  shows "tracked locals ps (xs @ ys)"
  using assms by (fastforce simp: tracked_def nth_append)

lemma tracked_place:
  assumes t: "tracked locals ps xs" and i: "i < length locals" and f: "follows (locals ! i) y"
  shows "tracked locals (ps[i := int (length xs)]) (xs @ [y])"
proof -
  have len: "length ps = length locals" using trackedD(1) [OF t] .
  have lt: "ps ! j < int (length xs)" if "j < length locals" for j using trackedD(2) [OF t that] .
  have "- 1 \<le> ps[i := int (length xs)] ! j \<and> ps[i := int (length xs)] ! j < int (length (xs @ [y]))
      \<and> (0 \<le> ps[i := int (length xs)] ! j \<longrightarrow> follows (locals ! j) ((xs @ [y]) ! nat (ps[i := int (length xs)] ! j)))"
    if "j < length locals" for j
    using t i f len lt [OF that] that by (cases "j = i") (auto simp: tracked_def nth_append)
  moreover have "ps[i := int (length xs)] ! j \<noteq> ps[i := int (length xs)] ! k"
    if "j < length locals" "k < length locals" "j \<noteq> k" "0 \<le> ps[i := int (length xs)] ! j" for j k
    using t i len lt [OF that(1)] lt [OF that(2)] that by (cases "j = i"; cases "k = i") (auto simp: tracked_def)
  ultimately show ?thesis using len by (simp add: tracked_def)
qed

section \<open>The rounds\<close>

lemma share_entry_tracked:
  assumes "tracked locals (fst s) (snd s)"
  shows "tracked locals (fst (share_entry locals entry s)) (snd (share_entry locals entry s))"
    and "length (snd (share_entry locals entry s)) = Suc (length (snd s))"
proof -
  obtain ps sh where s: "s = (ps, sh)" by fastforce
  have t: "tracked locals ps sh" using assms s by simp
  let ?f = "find_index (\<lambda>(p, l). p < 0 \<and> h_restored l \<and> entry_match l entry) (zip ps locals)"
  have "tracked locals (fst (share_entry locals entry s)) (snd (share_entry locals entry s))
    \<and> length (snd (share_entry locals entry s)) = Suc (length (snd s))"
  proof (cases ?f)
    case None
    with tracked_grow [OF t] s show ?thesis by (simp add: share_entry_def)
  next
    case (Some i)
    have i: "i < length locals" "entry_match (locals ! i) entry"
      using find_index_Some [OF Some] trackedD(1) [OF t] by auto
    have "follows (locals ! i) (if h_occurrence (locals ! i) \<noteq> '''' \<or> h_occurrence entry = '''' then locals ! i else entry)"
      using i(2) by (simp add: follows_def)
    from tracked_place [OF t i(1) this] Some s show ?thesis by (simp add: share_entry_def)
  qed
  then show "tracked locals (fst (share_entry locals entry s)) (snd (share_entry locals entry s))"
    and "length (snd (share_entry locals entry s)) = Suc (length (snd s))" by blast+
qed

lemma share_entries_tracked:
  assumes "tracked locals (fst s) (snd s)"
  shows "tracked locals (fst (fold (share_entry locals) entries s)) (snd (fold (share_entry locals) entries s))"
    and "length (snd (fold (share_entry locals) entries s)) = length (snd s) + length entries"
  using assms by (induction entries arbitrary: s) (simp_all add: share_entry_tracked)

lemma keep_absent_tracked:
  assumes "tracked locals (fst s) (shared @ snd s)" and "fst il < length locals" and "locals ! fst il = snd il"
  shows "tracked locals (fst (keep_absent (length shared) il s)) (shared @ snd (keep_absent (length shared) il s))"
  using assms tracked_place [OF assms(1,2), of "snd il"]
  by (cases s) (simp add: keep_absent_def follows_def add.commute)

lemma keep_live_tracked:
  assumes "tracked locals (fst s) (snd s)" and "fst il < length locals" and "locals ! fst il = snd il"
  shows "tracked locals (fst (keep_live il s)) (snd (keep_live il s))"
    and "0 \<le> fst (keep_live il s) ! fst il"
    and "j < length locals \<Longrightarrow> 0 \<le> fst s ! j \<Longrightarrow> 0 \<le> fst (keep_live il s) ! j"
  using assms tracked_place [OF assms(1,2), of "snd il"] trackedD(1) [OF assms(1)]
  by (cases s; simp add: keep_live_def follows_def nth_list_update)+

lemma keep_absents_tracked:
  assumes "tracked locals (fst s) (shared @ snd s)" and "\<forall>il \<in> set ils. fst il < length locals \<and> locals ! fst il = snd il"
  shows "tracked locals (fst (fold (keep_absent (length shared)) ils s)) (shared @ snd (fold (keep_absent (length shared)) ils s))"
  using assms by (induction ils arbitrary: s) (simp_all add: keep_absent_tracked)

lemma keep_lives_tracked:
  assumes "tracked locals (fst s) (snd s)" and "\<forall>il \<in> set ils. fst il < length locals \<and> locals ! fst il = snd il"
  shows "tracked locals (fst (fold keep_live ils s)) (snd (fold keep_live ils s))
    \<and> (\<forall>il \<in> set ils. 0 \<le> fst (fold keep_live ils s) ! fst il)
    \<and> (\<forall>j < length locals. 0 \<le> fst s ! j \<longrightarrow> 0 \<le> fst (fold keep_live ils s) ! j)"
  using assms
proof (induction ils arbitrary: s)
  case (Cons il ils)
  have il: "fst il < length locals" "locals ! fst il = snd il" using Cons.prems(2) by simp_all
  note K = keep_live_tracked [OF Cons.prems(1) il]
  from Cons.IH [OF K(1)] Cons.prems(2) K(2,3) il(1) show ?case by simp
qed simp

lemma place_tracked:
  assumes "tracked locals ps (shared @ before)"
  shows "tracked locals (map (place (length shared) (length before)) ps) (before @ shared)"
proof -
  have len: "length ps = length locals" using trackedD(1) [OF assms] .
  have lt: "ps ! j < int (length shared + length before) \<and> - 1 \<le> ps ! j" if "j < length locals" for j
    using assms that by (simp add: tracked_def)
  have inj: "place (length shared) (length before) p \<noteq> place (length shared) (length before) q"
    if "p < int (length shared + length before)" "q < int (length shared + length before)" "0 \<le> p" "p \<noteq> q" for p q
    using that by (auto simp: place_def)
  have at: "- 1 \<le> place (length shared) (length before) p \<and> place (length shared) (length before) p < int (length (before @ shared))
      \<and> (0 \<le> place (length shared) (length before) p \<longrightarrow> 0 \<le> p
          \<and> (before @ shared) ! nat (place (length shared) (length before) p) = (shared @ before) ! nat p)"
    if "p < int (length shared + length before)" "- 1 \<le> p" for p
    using that by (auto simp: place_def nth_append nat_diff_distrib nat_add_distrib)
  show ?thesis unfolding tracked_def
  proof (intro conjI allI impI)
    fix i j assume ij: "i < length (map (place (length shared) (length before)) ps)" "j < length (map (place (length shared) (length before)) ps)"
      "i \<noteq> j" "0 \<le> map (place (length shared) (length before)) ps ! i"
    have "0 \<le> ps ! i" using at [of "ps ! i"] lt [of i] ij len by auto
    with assms ij len have "ps ! i \<noteq> ps ! j" by (simp add: tracked_def)
    with inj [of "ps ! i" "ps ! j"] lt [of i] lt [of j] ij len \<open>0 \<le> ps ! i\<close>
    show "map (place (length shared) (length before)) ps ! i \<noteq> map (place (length shared) (length before)) ps ! j" by simp
  next
    fix i assume i: "i < length (map (place (length shared) (length before)) ps)"
    note a = at [of "ps ! i"]
    show "- 1 \<le> map (place (length shared) (length before)) ps ! i" using a lt [of i] i len by simp
    show "map (place (length shared) (length before)) ps ! i < int (length (before @ shared))" using a lt [of i] i len by simp
    assume "0 \<le> map (place (length shared) (length before)) ps ! i"
    with a lt [of i] i len trackedD(3) [OF assms, of i]
    show "follows (locals ! i) ((before @ shared) ! nat (map (place (length shared) (length before)) ps ! i))" by simp
  qed (simp add: len)
qed

section \<open>The merged history\<close>

lemma enumerate_at: "il \<in> set (enumerate 0 xs) \<Longrightarrow> fst il < length xs \<and> xs ! fst il = snd il"
  by (cases il) (auto simp: in_set_enumerate_eq)

lemma merged_history_tracked:
  assumes "merged_history locals entries = (ps, xs)"
  shows "tracked locals ps xs" and "i < length locals \<Longrightarrow> 0 \<le> ps ! i"
proof -
  obtain p1 sh where one: "fold (share_entry locals) entries (replicate (length locals) (- 1), []) = (p1, sh)" by fastforce
  have t1: "tracked locals p1 sh"
    using share_entries_tracked(1) [of locals "(replicate (length locals) (- 1), [])" entries] tracked_start by (simp add: one)
  obtain p2 be where two: "fold (keep_absent (length sh)) (enumerate 0 locals) (p1, []) = (p2, be)" by fastforce
  have ils: "\<forall>il \<in> set (enumerate 0 locals). fst il < length locals \<and> locals ! fst il = snd il" using enumerate_at by blast
  have t2: "tracked locals p2 (sh @ be)"
    using keep_absents_tracked [OF _ ils, of "(p1, [])" sh] t1 by (simp add: two)
  have m: "(ps, xs) = fold keep_live (enumerate 0 locals) (map (place (length sh) (length be)) p2, be @ sh)"
    using assms by (simp add: merged_history_def one two)
  note K = keep_lives_tracked [OF _ ils, of "(map (place (length sh) (length be)) p2, be @ sh)", folded m]
  show "tracked locals ps xs" using K place_tracked [OF t2] by simp
  assume "i < length locals"
  then have "(i, locals ! i) \<in> set (enumerate 0 locals)" by (simp add: in_set_enumerate_eq)
  with K place_tracked [OF t2] show "0 \<le> ps ! i" by fastforce
qed

lemma merged_history_length:
  assumes "merged_history locals entries = (ps, xs)"
  shows "length locals \<le> length xs"
proof -
  note M = merged_history_tracked [OF assms]
  have len: "length ps = length locals" using trackedD(1) [OF M(1)] .
  have "distinct ps" using M by (auto simp: distinct_conv_nth tracked_def)
  moreover have "set ps \<subseteq> {0..<int (length xs)}" using M len by (auto simp: tracked_def in_set_conv_nth)
  ultimately have "length ps \<le> card {0..<int (length xs)}"
    by (metis card_mono distinct_card finite_atLeastLessThan_int)
  with len show ?thesis by simp
qed

end
