(* ===== verification/Composer_Bindings.thy ===== *)
theory Composer_Bindings
  imports Composer_Invariant
begin

text \<open>
  Inserting a binding: the inserted label is covered by the new token alone, images are
  renumbered around it, and a selection finds a label that occurs in no draft.
\<close>

section \<open>A fresh label\<close>

lemma contains_at: "contains s l \<Longrightarrow> l \<noteq> '''' \<Longrightarrow> \<exists>i < length s. prefix l (drop i s)"
proof (induction s)
  case (Cons c s)
  then show ?case
  proof (cases "prefix l (c # s)")
    case False
    with Cons.prems have "contains s l" by (auto simp: contains_def)
    with Cons.IH Cons.prems(2) obtain i where "i < length s" "prefix l (drop i s)" by blast
    then show ?thesis by (intro exI [of _ "Suc i"]) simp
  qed auto
qed (simp add: contains_def)

lemma digits_prefix:
  assumes "prefix (u @ '']'') v'" and "prefix (v @ '']'') v'" and "list_all is_digit u" and "list_all is_digit v"
  shows "u = v"
  using assms
proof (induction u arbitrary: v v')
  case Nil
  then show ?case by (cases v; cases v') (auto simp: is_digit_def)
next
  case (Cons c u)
  then obtain w where w: "v' = c # w" "prefix (u @ '']'') w" by (cases v') auto
  show ?case
  proof (cases v)
    case Nil
    with Cons.prems w show ?thesis by (auto simp: is_digit_def)
  next
    case (Cons e v1)
    with w Cons.prems Cons.IH [OF w(2), of v1] show ?thesis by auto
  qed
qed

lemma selection_label_nonempty: "selection_label description n \<noteq> ''''"
  by (simp add: selection_label_def selection_prefix_def)

lemma selection_labels_apart:
  assumes "prefix (selection_label description m) s" and "prefix (selection_label description n) s" and "0 < m" "0 < n"
  shows "m = n"
proof -
  define tl where "tl k = (if k < 2 then '']'' else CHR '' '' # nat_dec k @ '']'')" for k :: nat
  have l: "selection_label description k = (selection_prefix @ description) @ tl k" for k
    by (simp add: selection_label_def tl_def)
  obtain r where r: "s = (selection_prefix @ description) @ r" using assms(1) unfolding l by (auto simp: prefix_def)
  have p: "prefix (tl m) r" "prefix (tl n) r" using assms(1,2) unfolding l r same_prefix_prefix by blast+
  have "nat_dec m = nat_dec n" if "\<not> m < 2" "\<not> n < 2"
  proof -
    have tls: "tl m = CHR '' '' # nat_dec m @ '']''" "tl n = CHR '' '' # nat_dec n @ '']''" using that by (simp_all add: tl_def)
    obtain r' where "prefix (nat_dec m @ '']'') r'" "prefix (nat_dec n @ '']'') r'"
      using p unfolding tls by (cases r) auto
    then show ?thesis using digits_prefix nat_dec_digits by blast
  qed
  moreover have "m < 2 \<longleftrightarrow> n < 2" using p by (cases r) (auto simp: tl_def split: if_splits)
  ultimately show ?thesis using assms(3,4) nat_dec_digits [of m] nat_dec_digits [of n] by (metis One_nat_def Suc_leI le_antisym less_2_cases_iff neq0_conv)
qed

lemma fresh_label_None: "fresh_label fuel description s pending n = None \<Longrightarrow> k < fuel \<Longrightarrow> label_used s pending (selection_label description (n + k))"
proof (induction fuel arbitrary: n k)
  case (Suc fuel)
  then have u: "label_used s pending (selection_label description n)" "fresh_label fuel description s pending (n + 1) = None"
    by (simp_all split: if_splits)
  then show ?case using Suc.IH [OF u(2), of "k - 1"] Suc.prems(2) by (cases k) simp_all
qed simp

lemma fresh_label_Some: "fresh_label fuel description s pending n = Some l \<Longrightarrow>
    \<not> label_used s pending l \<and> (\<exists>k < fuel. l = selection_label description (n + k) \<and> (\<forall>i < k. label_used s pending (selection_label description (n + i))))"
proof (induction fuel arbitrary: n)
  case (Suc fuel)
  show ?case
  proof (cases "label_used s pending (selection_label description n)")
    case True
    with Suc.prems have "fresh_label fuel description s pending (n + 1) = Some l" by simp
    from Suc.IH [OF this] obtain k where k: "\<not> label_used s pending l" "k < fuel" "l = selection_label description (n + 1 + k)"
      "\<forall>i < k. label_used s pending (selection_label description (n + 1 + i))" by auto
    have "label_used s pending (selection_label description (n + i))" if "i < Suc k" for i
      using True k(4) that by (cases i) auto
    with k(1-3) show ?thesis by (intro conjI exI [of _ "Suc k"]) auto
  next
    case False
    with Suc.prems show ?thesis by auto
  qed
qed simp

text \<open>Each used label has a position of its own in one of the texts.\<close>

lemma label_position:
  assumes "label_used s pending l" and "l \<noteq> ''''"
  shows "\<exists>i < length s + sum_list (map (\<lambda>d. length (d_text d)) pending). prefix l (drop i (s @ concat (map d_text pending)))"
proof -
  have split: "\<exists>i < length u + length v + length w. prefix l (drop i (u @ v @ w))" if v: "contains v l" for u v w :: string
  proof -
    obtain i where "i < length v" "prefix l (drop i v)" using contains_at [OF v assms(2)] by blast
    then have "i + length u < length u + length v + length w \<and> prefix l (drop (i + length u) (u @ v @ w))"
      by (simp add: prefix_prefix)
    then show ?thesis by blast
  qed
  have len: "length (concat (map d_text ds)) = sum_list (map (\<lambda>d. length (d_text d)) ds)" for ds
    by (induction ds) simp_all
  show ?thesis
  proof (cases "contains s l")
    case True
    with split [of s "[]" "concat (map d_text pending)"] show ?thesis by (simp add: len)
  next
    case False
    with assms(1) obtain d where d: "d \<in> set pending" "contains (d_text d) l" by (auto simp: label_used_def list_ex_iff)
    obtain a b where ab: "pending = a @ d # b" using split_list [OF d(1)] by blast
    have "s @ concat (map d_text pending) = (s @ concat (map d_text a)) @ d_text d @ concat (map d_text b)"
      "length s + sum_list (map (\<lambda>d. length (d_text d)) pending)
        = length (s @ concat (map d_text a)) + length (d_text d) + length (concat (map d_text b))"
      by (simp_all add: ab len)
    then show ?thesis using split [OF d(2), of "s @ concat (map d_text a)" "concat (map d_text b)"] by metis
  qed
qed

lemma fresh_label_found: "\<exists>l. fresh_label (label_fuel s pending) description s pending 1 = Some l"
proof (rule ccontr)
  define n where "n = length s + sum_list (map (\<lambda>d. length (d_text d)) pending)"
  define t where "t = s @ concat (map d_text pending)"
  assume "\<not> (\<exists>l. fresh_label (label_fuel s pending) description s pending 1 = Some l)"
  then have none: "fresh_label (Suc n) description s pending 1 = None" by (simp add: label_fuel_def n_def)
  have "\<exists>i < n. prefix (selection_label description (Suc k)) (drop i t)" if "k < Suc n" for k
    using label_position [of s pending "selection_label description (Suc k)"] fresh_label_None [OF none that]
    by (simp add: n_def t_def selection_label_def selection_prefix_def)
  then obtain f where f: "\<And>k. k < Suc n \<Longrightarrow> f k < n \<and> prefix (selection_label description (Suc k)) (drop (f k) t)" by metis
  have "inj_on f {..n}"
  proof (rule inj_onI)
    fix j k assume "j \<in> {..n}" "k \<in> {..n}" "f j = f k"
    then have "prefix (selection_label description (Suc j)) (drop (f j) t)" "prefix (selection_label description (Suc k)) (drop (f j) t)"
      using f [of j] f [of k] by simp_all
    from selection_labels_apart [OF this] show "j = k" by simp
  qed
  moreover have "f ` {..n} \<subseteq> {..<n}" using f by auto
  ultimately have "card {..n} \<le> card {..<n}" using card_inj_on_le by blast
  then show False by simp
qed

section \<open>A new token\<close>

lemma insert_text_token:
  assumes ok: "draft_ok d" and ins: "insert_text s d = Some d'" and ne: "s \<noteq> ''''"
    and t: "tk_start t = nat (cursor d)" "tk_end t = nat (cursor d) + length s"
  shows "tokens_ok (length (d_text d')) (t # all_tokens d')" and "label_of (d_text d') t = s"
proof -
  note R = insert_text_replaces [OF ok, of s]
  have d': "d' = replace_segment (nat (cursor d)) (nat (cursor d)) s d" using R(1) ins by simp
  have at: "nat (cursor d) \<le> length (d_text d)" using cursor_caret [OF ok] by simp
  have ok': "tokens_ok (length (d_text d')) (all_tokens d')" using replace_segment_ok [OF R(2)] by (simp add: d' draft_tokens_ok_def)
  have "apart t u" if u: "u \<in> set (all_tokens d')" for u
  proof -
    obtain v where v: "v \<in> set (all_tokens d)" "u = resize (nat (cursor d)) (nat (cursor d)) (length s) v"
      using u unfolding d' replace_segment_tokens set_map by blast
    have "clear (nat (cursor d)) (nat (cursor d)) v \<and> tk_start v < tk_end v"
      using ok v(1) by (auto simp: draft_ok_def caret_clear_def draft_tokens_ok_def tokens_ok_def list_all_iff within_def)
    then show ?thesis using t v(2) by (auto simp: apart_def clear_def resize_def shift_after_def)
  qed
  moreover have "within (length (d_text d')) t" using t at ne by (simp add: within_def d' replace_segment_text)
  ultimately show "tokens_ok (length (d_text d')) (t # all_tokens d')" using ok' by (simp add: tokens_ok_def)
  show "label_of (d_text d') t = s" using t at by (simp add: label_of_def segment_def d' replace_segment_text)
qed

lemma caret_clear_end: "caret_clear at d \<Longrightarrow> tk_end t = at \<Longrightarrow> set (all_tokens d') = insert t (set (all_tokens d)) \<Longrightarrow>
    d_text d' = d_text d \<Longrightarrow> caret_clear at d'"
  by (simp add: caret_clear_def list_all_iff clear_def)

text \<open>The new token covers what was inserted and nothing else.\<close>

lemma insert_token_plain:
  assumes ok: "draft_ok d" and ins: "insert_text s d = Some d'"
    and t: "tk_start t = nat (cursor d)" "tk_end t = nat (cursor d) + length s"
    and d1: "d_text d1 = d_text d'" "set (all_tokens d1) = insert t (set (all_tokens d'))"
  shows "free_text d1 = free_text d"
proof -
  define at where "at = nat (cursor d)"
  note R = insert_text_replaces [OF ok, of s, folded at_def]
  have d': "d' = replace_segment at at s d" using R(1) ins by simp
  have le: "at \<le> length (d_text d)" using cursor_caret [OF ok] by (simp add: at_def)
  have body: "d_text d1 = take at (d_text d) @ s @ drop at (d_text d)" by (simp add: d1(1) d' replace_segment_text)
  have cov: "i \<in> bound_offsets d1 \<longleftrightarrow> i \<in> bound_offsets d' \<or> at \<le> i \<and> i < at + length s" for i
    using t by (auto simp: bound_offsets_def d1(2) at_def)
  note C = covered_replace [OF R(2), folded d']
  have "nths (take at (d_text d)) (- bound_offsets d1) = nths (take at (d_text d)) (- bound_offsets d)"
    by (rule nths_agree) (use C(1) le in \<open>simp add: cov\<close>)
  moreover have "nths s {j. j + at \<in> - bound_offsets d1} = []" by (rule nths_none) (simp add: cov)
  moreover have "{j. j + at + length s \<in> - bound_offsets d1} = {j. j + at \<notin> bound_offsets d}" using C(2) by (auto simp: cov)
  moreover have "free_text d1 = nths (take at (d_text d)) (- bound_offsets d1) @ nths s {j. j + at \<in> - bound_offsets d1}
      @ nths (drop at (d_text d)) {j. j + at + length s \<in> - bound_offsets d1}"
    using nths_three [of "take at (d_text d)" s "drop at (d_text d)" "- bound_offsets d1"] le by (simp add: free_text_def body)
  moreover have "segment (d_text d) at at = []" by simp
  ultimately show ?thesis using plain_split [OF le_refl le] by simp
qed

text \<open>Typing a label moves the caret behind it.\<close>

lemma insert_typed_draft:
  assumes "editor_ok e" and "insert_typed s e = Some e'"
  shows "insert_text s (e_draft e) = Some (e_draft e') \<or> s = '''' \<and> e_draft e' = e_draft e"
  using assms by (auto simp: insert_typed_def insert_plain_def changed_def split: if_splits)

lemma insert_typed_at:
  assumes ok: "editor_ok e" and ins: "insert_typed s e = Some e'" and ne: "s \<noteq> ''''"
  shows "editor_ok e'" and "insert_text s (e_draft e) = Some (e_draft e')" and "cursor (e_draft e') = cursor (e_draft e) + int (length s)"
    and "e_history e' = e_history e" and "draft_ok (e_draft e')"
proof -
  show e': "editor_ok e'" "e_history e' = e_history e" using insert_typed_ok [OF ok, of s] ins by auto
  show one: "insert_text s (e_draft e) = Some (e_draft e')" using insert_typed_draft [OF ok ins] ne by simp
  then show "cursor (e_draft e') = cursor (e_draft e) + int (length s)"
    using insert_text_ok [of "e_draft e" s] ok by (auto simp: editor_ok_def)
  show "draft_ok (e_draft e')" using e' by (simp add: editor_ok_def)
qed

text \<open>Images.\<close>

lemma insert_image_ok:
  assumes ok: "editor_ok e"
  shows "\<exists>e'. insert_image path e = Some e' \<and> editor_ok e' \<and> e_history e' = e_history e
    \<and> length (d_images (e_draft e')) = Suc (length (d_images (e_draft e)))
    \<and> mset (map payload (d_images (e_draft e'))) = add_mset (path, '''', '''', '''') (mset (map payload (d_images (e_draft e))))
    \<and> free_text (e_draft e') = free_text (e_draft e)"
proof -
  define e0 where "e0 = e\<lparr>e_run := NoRun\<rparr>"
  define l where "l = image_label (length (d_images (e_draft e0)) + 1)"
  define t where "t = \<lparr>tk_start = nat (cursor (e_draft e0)), tk_end = nat (cursor (e_draft e0)) + length l, tk_path = path,
    tk_name = '''', tk_text = '''', tk_source = ''''\<rparr>"
  have e0: "editor_ok e0" "draft_ok (e_draft e0)" using ok by (simp_all add: e0_def editor_ok_def)
  have ne: "l \<noteq> ''''" using image_label_nonempty by (simp add: l_def)
  obtain e1 where ins: "insert_typed l e0 = Some e1" using insert_typed_ok [OF e0(1)] by blast
  note I = insert_typed_at [OF e0(1) ins ne]
  obtain d0 where d0: "insert_text l (e_draft e0) = Some d0" "same_bindings (e_draft e0) d0" using insert_text_ok [OF e0(2)] by blast
  then have same: "map payload (d_images (e_draft e1)) = map payload (d_images (e_draft e0))"
    using I(2) by (simp add: same_bindings_def)
  define d1 where "d1 = (e_draft e1)\<lparr>d_images := d_images (e_draft e1) @ [t]\<rparr>"
  have tt: "tk_start t = nat (cursor (e_draft e0))" "tk_end t = nat (cursor (e_draft e0)) + length l" by (simp_all add: t_def)
  note T = insert_text_token [OF e0(2) I(2) ne tt]
  have "mset (t # all_tokens (e_draft e1)) = mset (all_tokens d1)" by (simp add: d1_def all_tokens_def)
  from tokens_ok_perm [OF this T(1)] have ok1: "draft_tokens_ok d1" by (simp add: draft_tokens_ok_def d1_def)
  have cur: "cursor d1 = int (nat (cursor (e_draft e1)))" using cursor_caret [OF I(5)] by (simp add: d1_def cursor_def)
  have "tk_end t = nat (cursor (e_draft e1))"
    using tt conjunct1 [OF cursor_caret [OF e0(2)]] unfolding I(3) by linarith
  then have caret: "caret_clear (nat (cursor (e_draft e1))) d1"
    using caret_clear_end [of _ "e_draft e1" t d1] I(5) by (simp add: d1_def all_tokens_def draft_ok_def)
  from renumber_images_ok [OF ok1 caret cur] obtain d' where d': "renumber_images d1 = Some d'" "draft_ok d'" "same_bindings (sort_images d1) d'"
    by blast
  have r: "insert_image path e = Some (e1\<lparr>e_draft := d', e_run := NoRun\<rparr>)"
    using ins d'(1) unfolding insert_image_def Let_def e0_def [symmetric] l_def [symmetric] t_def [symmetric]
    by (simp add: d1_def)
  have "mset (map payload (d_images d')) = mset (map payload (d_images d1))"
    using d'(3) by (simp add: same_bindings_def sort_images_def)
  also have "\<dots> = add_mset (path, '''', '''', '''') (mset (map payload (d_images (e_draft e0))))"
    using same by (simp add: d1_def t_def payload_def)
  finally have m: "mset (map payload (d_images d')) = add_mset (path, '''', '''', '''') (mset (map payload (d_images (e_draft e))))"
    by (simp add: e0_def)
  then have len: "length (d_images d') = Suc (length (d_images (e_draft e)))"
    by (metis length_map size_add_mset size_mset)
  have "free_text d' = free_text d1" using renumber_images_plain [OF ok1 caret cur d'(1)] .
  also have "\<dots> = free_text (e_draft e0)"
    by (rule insert_token_plain [OF e0(2) I(2) tt]) (auto simp: d1_def all_tokens_def)
  finally have "free_text d' = free_text (e_draft e)" by (simp add: e0_def)
  with I r d'(2) m len show ?thesis by (simp add: set_draft_ok e0_def)
qed

text \<open>Selections.\<close>

lemma sort_selections_ok:
  assumes ok: "draft_ok d" and tok: "tokens_ok (length (d_text d)) (t # all_tokens d)" and fin: "tk_end t = nat (cursor d)"
  shows "draft_ok (d\<lparr>d_selections := sort_key tk_start (d_selections d @ [t])\<rparr>)" (is "draft_ok ?d")
proof -
  have "mset (t # all_tokens d) = mset (all_tokens ?d)" by (simp add: all_tokens_def)
  from tokens_ok_perm [OF this tok] have "draft_tokens_ok ?d" by (simp add: draft_tokens_ok_def)
  moreover have "cursor ?d = cursor d" by (simp add: cursor_def)
  moreover have "caret_clear (nat (cursor d)) ?d"
    by (rule caret_clear_end [of _ d t]) (use ok fin in \<open>auto simp: draft_ok_def all_tokens_def\<close>)
  ultimately show ?thesis using ok by (simp add: draft_ok_def numbered_def)
qed

lemma insert_selection_ok:
  assumes ok: "editor_ok e" and q: "quoted \<noteq> ''''" "length quoted \<le> selection_limit"
  shows "\<exists>l e' t. insert_selection description quoted src pending e = Some (Inr e') \<and> editor_ok e' \<and> e_history e' = e_history e
    \<and> t \<in> set (d_selections (e_draft e')) \<and> payload t = ('''', '''', quoted, src) \<and> label_of (d_text (e_draft e')) t = l
    \<and> \<not> label_used (d_text (e_draft e)) pending l"
proof -
  define e0 where "e0 = e\<lparr>e_run := NoRun\<rparr>"
  have e0: "editor_ok e0" "draft_ok (e_draft e0)" using ok by (simp_all add: e0_def editor_ok_def)
  obtain l where fl: "fresh_label (label_fuel (d_text (e_draft e)) pending) (trim_prefix ''Selected '' description)
      (d_text (e_draft e)) pending 1 = Some l" using fresh_label_found by blast
  from fresh_label_Some [OF fl] have l: "\<not> label_used (d_text (e_draft e)) pending l" "l \<noteq> ''''"
    using selection_label_nonempty by metis+
  obtain e1 where ins: "insert_typed l e0 = Some e1" using insert_typed_ok [OF e0(1)] by blast
  note I = insert_typed_at [OF e0(1) ins l(2)]
  define d where "d = e_draft e1"
  define fin where "fin = nat (cursor d)"
  define t where "t = \<lparr>tk_start = fin - length l, tk_end = fin, tk_path = '''', tk_name = '''', tk_text = quoted, tk_source = src\<rparr>"
  define d1 where "d1 = d\<lparr>d_selections := sort_key tk_start (d_selections d @ [t])\<rparr>"
  have c: "cursor (e_draft e0) = int (nat (cursor (e_draft e0)))" using cursor_caret [OF e0(2)] by blast
  have fin: "fin = nat (cursor (e_draft e0)) + length l" using c I(3) unfolding fin_def d_def by linarith
  then have tt: "tk_start t = nat (cursor (e_draft e0))" "tk_end t = nat (cursor (e_draft e0)) + length l" by (simp_all add: t_def)
  note T = insert_text_token [OF e0(2) I(2) l(2) tt]
  have ok1: "draft_ok d1" using sort_selections_ok [OF I(5) T(1)] unfolding d1_def by (simp add: t_def fin_def d_def)
  define e2 where "e2 = e1\<lparr>e_draft := d1\<rparr>"
  have e2: "editor_ok e2" using I(1) ok1 by (simp add: e2_def set_draft_ok)
  obtain d2 where d2: "insert_text '' '' d1 = Some d2" "draft_ok d2" "same_bindings d1 d2" using insert_text_ok [OF ok1] by blast
  define e3 where "e3 = changed (e2\<lparr>e_draft := d2\<rparr>)"
  have p: "insert_plain '' '' e2 = Some e3" by (simp add: insert_plain_def e2_def e3_def d2(1))
  have r: "insert_selection description quoted src pending e = Some (Inr e3)"
    using q fl ins p unfolding insert_selection_def Let_def e0_def [symmetric]
    by (simp add: e2_def d1_def d_def t_def fin_def)
  have "t \<in> set (d_selections d1)" by (simp add: d1_def)
  then have "(label_of (d_text d1) t, payload t) \<in> set (bound_as d1 (d_selections d1))" by (auto simp: bound_as_def)
  then have "(label_of (d_text d1) t, payload t) \<in> set (bound_as d2 (d_selections d2))" using d2(3) by (simp add: same_bindings_def)
  then obtain t' where t': "t' \<in> set (d_selections d2)" "label_of (d_text d2) t' = label_of (d_text d1) t" "payload t' = payload t"
    by (auto simp: bound_as_def)
  have "editor_ok e3" using set_draft_ok [OF e2 d2(2)] by (simp add: e3_def)
  moreover have "e_history e3 = e_history e" "e_draft e3 = d2"
    using I(4) by (simp_all add: e3_def e2_def e0_def changed_def)
  moreover have "label_of (d_text d2) t' = l" using t'(2) T(2) by (simp add: d1_def d_def)
  moreover have "payload t' = ('''', '''', quoted, src)" using t'(3) by (simp add: t_def payload_def)
  ultimately show ?thesis using r t'(1) l(1) by blast
qed

end
