(* ===== verification/Composer_History.thy ===== *)
theory Composer_History
  imports Composer_Shared Composer_Bindings
begin

text \<open>
  Submission, parking and the shared input history keep the invariant of the editor and of the
  parked states, and browsing follows the entry it shows when the history is merged.
\<close>

section \<open>Remembered input\<close>

lemma history_ok:
  assumes "editor_ok e" and "list_all (\<lambda>h. draft_ok (h_draft h)) hs" and "length (e_history e) \<le> length hs"
  shows "editor_ok (e\<lparr>e_history := newest_hundred hs\<rparr>)" and "length (e_history e) \<le> length (newest_hundred hs)"
proof -
  show le: "length (e_history e) \<le> length (newest_hundred hs)"
    using assms(1,3) by (simp add: editor_ok_def newest_hundred_length)
  show "editor_ok (e\<lparr>e_history := newest_hundred hs\<rparr>)"
    using assms(1) newest_hundred_all [OF assms(2)] le stacks_ok_mono [OF _ le]
    by (auto simp: editor_ok_def newest_hundred_length)
qed

lemma remember_ok:
  assumes ok: "editor_ok e" and d: "draft_ok d"
  shows "keeps_editor e (remember fresh d e)"
  using history_ok [OF ok, of "e_history e @ [\<lparr>h_draft = d, h_occurrence = fresh, h_source = '''', h_restored = False\<rparr>]"] ok d
  by (simp add: remember_def keeps_editor_def editor_ok_def)

lemma update_history_ok:
  assumes "editor_ok e" and "draft_ok (h_draft h)"
  shows "editor_ok (e\<lparr>e_history := (e_history e)[i := h]\<rparr>)"
  using assms set_update_subset_insert [of "e_history e" i h] by (fastforce simp: editor_ok_def list_all_iff)

lemma restore_history_ok:
  assumes ok: "editor_ok e" and d: "draft_ok d"
  shows "keeps_editor e (restore_history fresh src d e)"
proof (cases "find_index (\<lambda>h. h_source h = src \<and> d_text (h_draft h) = d_text d \<and> \<not> h_restored h) (e_history e)")
  case (Some i)
  have "i < length (e_history e)" using find_index_Some [OF Some] by blast
  with ok d have "draft_ok (h_draft (restored_entry fresh d (e_history e ! i)))"
    by (simp add: restored_entry_def editor_ok_def list_all_length)
  from update_history_ok [OF ok this] Some show ?thesis by (simp add: restore_history_def keeps_editor_def)
next
  case None
  define e1 where "e1 = remember fresh d e"
  have e1: "editor_ok e1" "length (e_history e) \<le> length (e_history e1)" using remember_ok [OF ok d] by (simp_all add: e1_def keeps_editor_def)
  show ?thesis
  proof (cases "d_text d = ''''")
    case False
    then have hs: "e_history e1 = newest_hundred (e_history e @ [\<lparr>h_draft = d, h_occurrence = fresh, h_source = '''', h_restored = False\<rparr>])"
      by (simp add: e1_def remember_def)
    then have ne: "e_history e1 \<noteq> []" by (simp add: newest_hundred_def)
    have up: "butlast (e_history e1) @ [h] = (e_history e1)[length (e_history e1) - 1 := h]" for h
      using ne by (metis append_butlast_last_id length_append_singleton diff_Suc_1 list_update_length)
    have "draft_ok (h_draft ((last (e_history e1))\<lparr>h_source := src, h_restored := True\<rparr>))"
      using e1(1) ne by (simp add: editor_ok_def list_all_iff)
    from update_history_ok [OF e1(1) this, of "length (e_history e1) - 1"] e1(2) ne None False
    show ?thesis unfolding restore_history_def keeps_editor_def by (simp add: e1_def [symmetric] Let_def up)
  qed (use None e1 in \<open>simp add: restore_history_def keeps_editor_def e1_def [symmetric]\<close>)
qed

section \<open>Submission and parking\<close>

lemma take_draft_ok:
  assumes ok: "editor_ok e"
  shows "draft_ok (fst (take_draft e))" and "editor_ok (snd (take_draft e))"
    and "take_draft e = (d, e') \<Longrightarrow> d_text d = d_text (e_draft e) \<and> same_bindings (e_draft e) d \<and> e_history e' = e_history e
      \<and> e_draft e' = empty_draft \<and> e_undo e' = [] \<and> e_redo e' = []"
proof -
  show "draft_ok (fst (take_draft e))" using ok back_end_ok [of "editable (e_draft e)"] by (simp add: take_draft_def editor_ok_def)
  have "editable empty_draft = empty_draft" by (simp add: editable_def empty_draft_def)
  then show "take_draft e = (d, e') \<Longrightarrow> d_text d = d_text (e_draft e) \<and> same_bindings (e_draft e) d \<and> e_history e' = e_history e
      \<and> e_draft e' = empty_draft \<and> e_undo e' = [] \<and> e_redo e' = []"
    by (auto simp: take_draft_def editable_def same_bindings_def bound_as_def replace_draft_def changed_def)
  show "editor_ok (snd (take_draft e))"
    using ok empty_draft_ok by (simp add: take_draft_def editor_ok_def replace_draft_def changed_def stacks_ok_def)
qed

lemma restore_parts_ok:
  assumes ok: "editor_ok e" and parts: "\<forall>p \<in> set parts. draft_ok p"
  shows "\<exists>e'. restore_parts parts e = Some e' \<and> editor_ok e' \<and> e_history e' = e_history e"
proof -
  have "\<forall>p \<in> set (parts @ [editable (e_draft e)]). draft_ok p" using ok parts by (auto simp: editor_ok_def)
  then obtain d where d: "join_drafts (parts @ [editable (e_draft e)]) = Some d" "draft_ok d" using join_drafts_ok by metis
  have "editor_ok (e\<lparr>e_undo := [], e_redo := [], e_run := NoRun\<rparr>)" using ok by (simp add: editor_ok_def stacks_ok_def)
  from replace_draft_ok [OF this d(2)] d(1) show ?thesis by (simp add: restore_parts_def)
qed

lemma park_ok: "editor_ok e \<Longrightarrow> parked_ok (length (e_history e)) (park e)"
  using snapshot_ok by (simp add: park_def parked_ok_def editor_ok_def)

lemma resume_ok: "editor_ok e \<Longrightarrow> parked_ok (length (e_history e)) k \<Longrightarrow> editor_ok (resume k e)"
  by (simp add: resume_def restore_snapshot_def replace_draft_def changed_def editor_ok_def parked_ok_def undo_ok_def)

lemma empty_parked_ok: "parked_ok n empty_parked"
  using empty_draft_ok
  by (simp add: parked_ok_def empty_parked_def undo_ok_def stacks_ok_def empty_draft_def editable_def)

lemma restore_parked_ok:
  assumes k: "parked_ok n k" and parts: "\<forall>p \<in> set parts. draft_ok p"
  shows "\<exists>k'. restore_parked parts k = Some k' \<and> parked_ok n k'"
proof -
  let ?e = "resume k new_editor"
  have d: "e_draft ?e = editable (u_draft (k_snapshot k))" "e_back ?e = u_back (k_snapshot k)"
    "e_history_draft ?e = u_history_draft (k_snapshot k)"
    by (simp_all add: resume_def restore_snapshot_def replace_draft_def changed_def)
  have "\<forall>p \<in> set (parts @ [editable (e_draft ?e)]). draft_ok p" using k parts by (auto simp: d parked_ok_def undo_ok_def)
  then obtain j where j: "join_drafts (parts @ [editable (e_draft ?e)]) = Some j" "draft_ok j" using join_drafts_ok by metis
  have r: "restore_parts parts ?e = Some (replace_draft j (?e\<lparr>e_undo := [], e_redo := [], e_run := NoRun\<rparr>))"
    unfolding restore_parts_def j(1) option.map(2) ..
  show ?thesis unfolding restore_parked_def r option.map(2)
    using k j(2) d(2,3)
    by (simp add: park_def snapshot_def replace_draft_def changed_def parked_ok_def undo_ok_def stacks_ok_def)
qed

section \<open>Browsing across a merge\<close>

lemma merged_entries:
  assumes "merged_history locals entries = (ps, xs)"
  shows "set xs \<subseteq> set locals \<union> set entries"
proof -
  have sh: "set (snd (fold (share_entry locals) es s)) \<subseteq> set (snd s) \<union> set locals \<union> set es"
    if "length (fst s) = length locals" for es s
    using that
  proof (induction es arbitrary: s)
    case (Cons x es)
    have step: "length (fst (share_entry locals x s)) = length locals"
        "set (snd (share_entry locals x s)) \<subseteq> insert x (set (snd s) \<union> set locals)"
      using Cons.prems by (cases s; auto simp: share_entry_def split: option.splits dest!: find_index_Some)+
    from Cons.IH [OF step(1)] step(2) show ?case by auto
  qed simp
  have ab: "set (snd (fold (keep_absent n) ils s)) \<subseteq> set (snd s) \<union> snd ` set ils" for n ils s
  proof (induction ils arbitrary: s)
    case (Cons il ils)
    have "set (snd (keep_absent n il s)) \<subseteq> insert (snd il) (set (snd s))" by (cases s) (auto simp: keep_absent_def)
    with Cons [of "keep_absent n il s"] show ?case by auto
  qed simp
  have li: "set (snd (fold keep_live ils s)) \<subseteq> set (snd s) \<union> snd ` set ils" for ils s
  proof (induction ils arbitrary: s)
    case (Cons il ils)
    have "set (snd (keep_live il s)) \<subseteq> insert (snd il) (set (snd s))" by (cases s) (auto simp: keep_live_def)
    with Cons [of "keep_live il s"] show ?case by auto
  qed simp
  obtain p1 s1 where one: "fold (share_entry locals) entries (replicate (length locals) (- 1), []) = (p1, s1)" by fastforce
  obtain p2 be where two: "fold (keep_absent (length s1)) (enumerate 0 locals) (p1, []) = (p2, be)" by fastforce
  have en: "snd ` set (enumerate 0 locals) = set locals" by (metis list.set_map map_snd_enumerate)
  have "set xs \<subseteq> set (be @ s1) \<union> set locals"
    using assms li [of "enumerate 0 locals" "(map (place (length s1) (length be)) p2, be @ s1)"] en
    by (simp add: merged_history_def one two)
  moreover have "set be \<subseteq> set locals" using ab [of "length s1" "enumerate 0 locals" "(p1, [])"] en by (simp add: two)
  moreover have "set s1 \<subseteq> set locals \<union> set entries"
    using sh [of "(replicate (length locals) (- 1), [])" entries] by (simp add: one)
  ultimately show ?thesis by auto
qed

text \<open>The entry that a browsing position shows.\<close>

definition browsed :: "history_entry list \<Rightarrow> int \<Rightarrow> history_entry" where
  "browsed hs b = hs ! (length hs - nat b)"

lemma browsed_newest: "0 < b \<Longrightarrow> b \<le> 100 \<Longrightarrow> b \<le> int (length hs) \<Longrightarrow> browsed (newest_hundred hs) b = browsed hs b"
  by (auto simp: browsed_def newest_hundred_def)

lemma rebase_follows:
  assumes m: "merged_history locals entries = (ps, xs)" and b: "0 \<le> b" "b \<le> int (length locals)"
    and r: "rebase ps (length xs) b = (b', expired)"
  shows "0 \<le> b'" and "b' \<le> int (length (newest_hundred xs))" and "expired \<Longrightarrow> b' = 0 \<and> 0 < b"
    and "b = 0 \<Longrightarrow> b' = 0" and "\<not> expired \<Longrightarrow> 0 < b \<Longrightarrow> 0 < b' \<and> follows (browsed locals b) (browsed (newest_hundred xs) b')"
proof -
  note M = merged_history_tracked [OF m]
  have len: "length ps = length locals" using trackedD(1) [OF M(1)] .
  define i where "i = length ps - nat b"
  have "0 \<le> b' \<and> b' \<le> int (length (newest_hundred xs)) \<and> (expired \<longrightarrow> b' = 0 \<and> 0 < b) \<and> (b = 0 \<longrightarrow> b' = 0)
    \<and> (\<not> expired \<longrightarrow> 0 < b \<longrightarrow> 0 < b' \<and> follows (browsed locals b) (browsed (newest_hundred xs) b'))"
  proof (cases "0 < b")
    case True
    have i: "i < length locals" "locals ! i = browsed locals b" using True b len by (auto simp: i_def browsed_def)
    define c where "c = int (length xs) - ps ! i"
    have p: "0 \<le> ps ! i" "ps ! i < int (length xs)" "follows (browsed locals b) (xs ! nat (ps ! i))"
      using M(2) [OF i(1)] trackedD(2,3) [OF M(1) i(1)] i(2) by simp_all
    have c: "0 < c" "c \<le> int (length xs)" "xs ! nat (ps ! i) = browsed xs c"
      using p(1,2) by (simp_all add: c_def browsed_def nat_diff_distrib)
    have r': "(b', expired) = (if 100 < c then (0, True) else (c, False))"
      using r True b len by (simp add: rebase_def i_def c_def Let_def split: if_splits)
    show ?thesis
    proof (cases "100 < c")
      case False
      with r' c p(3) browsed_newest [of c xs] True show ?thesis by (simp add: newest_hundred_length)
    qed (use r' True in simp)
  next
    case False
    with b r show ?thesis by (simp add: rebase_def)
  qed
  then show "0 \<le> b'" and "b' \<le> int (length (newest_hundred xs))" and "expired \<Longrightarrow> b' = 0 \<and> 0 < b"
    and "b = 0 \<Longrightarrow> b' = 0" and "\<not> expired \<Longrightarrow> 0 < b \<Longrightarrow> 0 < b' \<and> follows (browsed locals b) (browsed (newest_hundred xs) b')"
    by blast+
qed

lemma rebase_undo_ok:
  assumes m: "merged_history locals entries = (ps, xs)" and u: "undo_ok (length locals) u"
  shows "undo_ok (length (newest_hundred xs)) (rebase_undo ps (length xs) u)"
proof -
  obtain b' expired where r: "rebase ps (length xs) (u_back u) = (b', expired)" by fastforce
  from rebase_follows(1,2) [OF m _ _ r] u have "0 \<le> b'" "b' \<le> int (length (newest_hundred xs))"
    by (simp_all add: undo_ok_def)
  with u r show ?thesis by (simp add: rebase_undo_def undo_ok_def)
qed

lemma rebase_stacks_ok:
  assumes m: "merged_history locals entries = (ps, xs)" and s: "stacks_ok (length locals) us rs"
  shows "stacks_ok (length (newest_hundred xs)) (map (rebase_undo ps (length xs)) us) (map (rebase_undo ps (length xs)) rs)"
  using s rebase_undo_ok [OF m] by (auto simp: stacks_ok_def list_all_iff)

lemma prepend_history_ok:
  assumes ok: "editor_ok e" and entries: "\<forall>h \<in> set entries. draft_ok (h_draft h)"
    and parked: "\<forall>k \<in> set ks. parked_ok (length (e_history e)) k" and p: "prepend_history entries ks e = (e', ks')"
  shows "keeps_editor e e'" and "\<forall>k \<in> set ks'. parked_ok (length (e_history e')) k"
proof -
  obtain ps xs where m: "merged_history (e_history e) entries = (ps, xs)" by fastforce
  obtain b expired where r: "rebase ps (length xs) (e_back e) = (b, expired)" by fastforce
  define e1 where "e1 = (if expired then (replace_draft (e_history_draft e) (e\<lparr>e_back := b\<rparr>))\<lparr>e_run := NoRun\<rparr> else e\<lparr>e_back := b\<rparr>)"
  have e': "e' = e1\<lparr>e_undo := map (rebase_undo ps (length xs)) (e_undo e), e_redo := map (rebase_undo ps (length xs)) (e_redo e),
      e_history := newest_hundred xs\<rparr>" "ks' = map (rebase_parked ps (length xs)) ks"
    using p by (simp_all add: prepend_history_def m r e1_def Let_def)
  have b: "0 \<le> b" "b \<le> int (length (newest_hundred xs))"
    using rebase_follows(1,2) [OF m _ _ r] ok by (simp_all add: editor_ok_def)
  have "list_all (\<lambda>h. draft_ok (h_draft h)) xs"
    using merged_entries [OF m] ok entries by (auto simp: editor_ok_def list_all_iff)
  from newest_hundred_all [OF this] rebase_stacks_ok [OF m] b ok
  have "editor_ok e'" unfolding e'(1)
    by (simp add: editor_ok_def e1_def replace_draft_def changed_def newest_hundred_length)
  moreover have len: "length (e_history e) \<le> length (newest_hundred xs)"
    using merged_history_length [OF m] ok by (simp add: editor_ok_def newest_hundred_length)
  ultimately show "keeps_editor e e'" by (simp add: keeps_editor_def e'(1))
  show "\<forall>k \<in> set ks'. parked_ok (length (e_history e')) k"
    using parked rebase_undo_ok [OF m] rebase_stacks_ok [OF m]
    by (auto simp: e' rebase_parked_def Let_def parked_ok_def)
qed

text \<open>A prompt that opens and closes gives the editor back as it was.\<close>

lemma prompt_round_trip:
  assumes "open_prompt answer e = (k, e1)" and "close_prompt (k, e1) = (answer', rest, e2)"
  shows "e_draft e2 = editable (e_draft e)" and "e_undo e2 = e_undo e" and "e_redo e2 = e_redo e" and "e_run e2 = e_run e"
    and "e_back e2 = e_back e" and "e_history_draft e2 = e_history_draft e" and "e_history e2 = e_history e"
    and "parked_ok n answer \<Longrightarrow> answer' = answer"
  using assms
  by (auto simp: open_prompt_def close_prompt_def park_def resume_def restore_snapshot_def replace_draft_def changed_def
      snapshot_def parked_ok_def undo_ok_def)

end
