(* ===== verification/Composer_Properties.thy ===== *)
theory Composer_Properties
  imports Composer_History
begin

text \<open>
  What the conversation composer guarantees, over every run of its editor: the states are those
  reached from a new editor by actions, insertions, submissions, parking and the merges of the
  shared history.
\<close>

section \<open>Runs\<close>

text \<open>A draft of text alone, as input history restores it.\<close>

definition text_draft :: "string \<Rightarrow> draft" where
  "text_draft s = empty_draft\<lparr>d_text := s\<rparr>"


lemma text_draft_ok: "draft_ok (text_draft s)"
  by (simp add: draft_ok_def numbered_def text_draft_def empty_draft_def draft_tokens_ok_def tokens_ok_def all_tokens_def
      caret_clear_def cursor_def)



text \<open>A splitter for the witnesses: every byte is a cluster.\<close>

definition bytewise :: splitter where
  "bytewise s = map (\<lambda>c. [c]) s"

lemma bytewise_ok: "splitter_ok bytewise"
proof -
  have "concat (map (\<lambda>c. [c]) s) = s" for s :: string by (induction s) simp_all
  then show ?thesis by (auto simp: splitter_ok_def bytewise_def)
qed

section \<open>Properties\<close>



text \<open>
  C14: Undo takes back what it recorded.  After an insertion that starts a run of typing, or a
  deletion of a chosen range, undo shows the draft from before with its bindings and its caret,
  redo shows the edited draft again, and another undo leads back.
\<close>

theorem undo_restores:
  assumes "editor_ok e" and "splitter_ok clusters" and "apply_action clusters act e = Some (Inr True, e')"
    and "act = DeleteAction start fin NoRun \<or> act = InsertAction s \<and> e_run e \<noteq> InsertRun"
  shows "e_draft (undo_step False e') = editable (e_draft e)
    \<and> e_draft (undo_step True (undo_step False e')) = editable (e_draft e')
    \<and> e_undo (undo_step True (undo_step False e')) = e_undo e' \<and> e_redo (undo_step True (undo_step False e')) = e_redo e'"
proof -
  have stack: "e_undo e' = newest_hundred (e_undo e @ [snapshot e])"
    using assms(3,4) by (auto simp: apply_action_def changed_from_def insert_typed_def insert_plain_def delete_range_def
        remove_plain_def record_undo_def changed_def split: if_splits)
  then have ne: "e_undo e' \<noteq> []" by (simp add: newest_hundred_def)
  have "editor_ok e'" using apply_action_ok [OF assms(2,1), of act] assms(3) by auto
  from redo_undo [OF this ne] undo_recorded(1) [OF stack] show ?thesis by simp
qed

theorem undo_restores_witness:
  "e_draft (undo_step False (snd (the (apply_action bytewise (InsertAction ''ab'') new_editor)))) = empty_draft"
proof -
  have r: "apply_action bytewise (InsertAction ''ab'') new_editor
      = Some (Inr True, snd (the (apply_action bytewise (InsertAction ''ab'') new_editor)))" by code_simp
  have "editable (e_draft new_editor) = empty_draft" "e_run new_editor \<noteq> InsertRun"
    by (simp_all add: editable_def empty_draft_def new_editor_def)
  with undo_restores [OF new_editor_ok bytewise_ok r] show ?thesis by simp
qed

text \<open>The text of a draft between two offsets that belongs to no binding.\<close>

definition free_between :: "draft \<Rightarrow> nat \<Rightarrow> nat \<Rightarrow> string" where
  "free_between d i j = nths (segment (d_text d) i j) {k. k + i \<notin> bound_offsets d}"

text \<open>
  C12: A deletion between boundaries takes whole bindings.  Every binding is either outside the
  range and kept, with its label and what it stands for, or inside it and gone; the images that
  are left are renumbered, and of the text outside the bindings exactly the range is lost.
\<close>

theorem deletion_whole_bindings:
  assumes "editor_ok e" and "splitter_ok clusters" and "start < fin"
    and "apply_action clusters (DeleteAction start fin r) e = Some (Inr c, e')"
  shows "same_bindings (kept (nat start) (nat fin) (e_draft e)) (e_draft e') \<and> numbered (e_draft e')
    \<and> (\<forall>t \<in> set (all_tokens (e_draft e)). clear (nat start) (nat fin) t \<or> nat start \<le> tk_start t \<and> tk_end t \<le> nat fin)
    \<and> free_text (e_draft e') = free_between (e_draft e) 0 (nat start) @ free_between (e_draft e) (nat fin) (length (d_text (e_draft e)))"
proof -
  let ?d = "e_draft e"
  have d: "draft_ok ?d" "draft_tokens_ok ?d" "sorted (map tk_start (d_images ?d))"
    using assms(1) by (simp_all add: editor_ok_def draft_ok_def numbered_def)
  have v: "valid_range clusters start fin ?d" using assms(4) by (auto simp: apply_action_def split: if_splits)
  then have le: "nat start \<le> nat fin" "nat fin \<le> length (d_text ?d)" "nat start \<noteq> nat fin" using assms(3) by (auto simp: valid_range_def)
  have whole: "\<forall>t \<in> set (all_tokens ?d). clear (nat start) (nat fin) t \<or> nat start \<le> tk_start t \<and> tk_end t \<le> nat fin"
    using valid_range_whole [OF assms(2) d(2) v] by blast
  have rm: "remove_range (nat start) (nat fin) ?d = Some (e_draft e')"
    using assms(4) le(3) by (auto simp: apply_action_def changed_from_def delete_range_def remove_plain_def changed_def record_undo_def split: if_splits)
  from remove_range_ok [OF d(2) le(1,2)] rm d(3)
  have "same_bindings (kept (nat start) (nat fin) ?d) (e_draft e') \<and> numbered (e_draft e')" by (auto simp: draft_ok_def)
  moreover have "{k. k \<notin> bound_offsets ?d} = - bound_offsets ?d" by blast
  ultimately show ?thesis
    using whole remove_range_plain [OF d(2) le(1,2) whole rm] by (simp add: free_between_def segment_def)
qed

theorem deletion_whole_bindings_witness:
  "free_text (e_draft (snd (the (apply_action bytewise (DeleteAction 0 1 BackspaceRun)
      (snd (the (apply_action bytewise (InsertAction ''ab'') new_editor))))))) = ''b''"
proof -
  define e where "e = snd (the (apply_action bytewise (InsertAction ''ab'') new_editor))"
  obtain r1 e1 where "apply_action bytewise (InsertAction ''ab'') new_editor = Some (r1, e1) \<and> editor_ok e1"
    using apply_action_ok [OF bytewise_ok new_editor_ok] by blast
  then have ok: "editor_ok e" by (simp add: e_def)
  have r: "apply_action bytewise (DeleteAction 0 1 BackspaceRun) e
      = Some (Inr True, snd (the (apply_action bytewise (DeleteAction 0 1 BackspaceRun) e)))" unfolding e_def by code_simp
  have one: "d_text (e_draft e) = ''ab''" "all_tokens (e_draft e) = []" unfolding e_def by code_simp+
  then have "bound_offsets (e_draft e) = {}" by (simp add: bound_offsets_def)
  with one deletion_whole_bindings [OF ok bytewise_ok _ r] show ?thesis
    by (simp add: free_between_def e_def [symmetric] segment_def)
qed

lemma mset_single_list: "mset xs = {#x#} \<Longrightarrow> xs = [x]"
  by (cases xs) auto

text \<open>
  An inserted image is bound at the caret.  Its path joins the paths of the images and no
  other is lost, the images carry the numbers from one in the order of the text, and the text
  outside the bindings stays as it was.
\<close>

lemma image_inserted:
  assumes "editor_ok e"
  shows "\<exists>e'. insert_image path e = Some e' \<and> numbered (e_draft e')
    \<and> mset (map payload (d_images (e_draft e'))) = add_mset (path, '''', '''', '''') (mset (map payload (d_images (e_draft e))))
    \<and> free_text (e_draft e') = free_text (e_draft e)"
  using insert_image_ok [OF assms, of path] by (auto simp: editor_ok_def draft_ok_def)

lemma image_inserted_witness:
  "\<exists>e'. insert_image ''p'' new_editor = Some e' \<and> map payload (d_images (e_draft e')) = [(''p'', '''', '''', '''')]"
proof -
  obtain e' where e': "insert_image ''p'' new_editor = Some e'"
    "mset (map payload (d_images (e_draft e'))) = add_mset (''p'', '''', '''', '''') (mset (map payload (d_images (e_draft new_editor))))"
    using image_inserted [OF new_editor_ok, of "''p''"] by blast
  from e'(2) have "mset (map payload (d_images (e_draft e'))) = {#(''p'', '''', '''', '''')#}"
    by (simp add: new_editor_def empty_draft_def)
  note one = mset_single_list [OF this]
  show ?thesis by (rule exI [of _ e'], rule conjI [OF e'(1) one])
qed

text \<open>
  C15: A mentioned selection finds a label.  Within its size limit it is always inserted, its
  label occurs in no draft that is pending and not in the text before, and the new binding
  carries the quoted text and where it was selected.
\<close>

theorem selection_label_found:
  assumes "editor_ok e" and "quoted \<noteq> ''''" and "length quoted \<le> selection_limit"
  shows "\<exists>l e' t. insert_selection description quoted src pending e = Some (Inr e')
    \<and> t \<in> set (d_selections (e_draft e')) \<and> payload t = ('''', '''', quoted, src) \<and> label_of (d_text (e_draft e')) t = l
    \<and> \<not> label_used (d_text (e_draft e)) pending l"
  using insert_selection_ok [OF assms, of description src pending] by blast

theorem selection_label_found_witness:
  "\<exists>l. \<not> label_used '''' [text_draft ''[Selected x]''] l"
  using selection_label_found [OF new_editor_ok, of "''q''" "''x''" "''s''" "[text_draft ''[Selected x]'']"]
  by (auto simp: selection_limit_def new_editor_def empty_draft_def)

text \<open>
  C13: Browsing survives a merge of the shared history.  The position moves to the place of the
  entry it showed (or of the live publication of the same input); when that place is older
  than a hundred entries, browsing ends and the draft from before it is shown again.
\<close>

theorem browsing_follows:
  assumes "editor_ok e" and "prepend_history entries ks e = (e', ks')" and "0 < e_back e"
  shows "0 < e_back e' \<and> e_draft e' = e_draft e
      \<and> follows (browsed (e_history e) (e_back e)) (browsed (e_history e') (e_back e'))
    \<or> e_back e' = 0 \<and> e_draft e' = editable (e_history_draft e)"
proof -
  obtain ps xs where m: "merged_history (e_history e) entries = (ps, xs)" by fastforce
  obtain b expired where r: "rebase ps (length xs) (e_back e) = (b, expired)" by fastforce
  have "0 \<le> e_back e" "e_back e \<le> int (length (e_history e))" using assms(1) by (simp_all add: editor_ok_def)
  note F = rebase_follows [OF m this r]
  from assms(2) have "e_back e' = b" "e_history e' = newest_hundred xs"
    "e_draft e' = (if expired then editable (e_history_draft e) else e_draft e)"
    by (auto simp: prepend_history_def m r Let_def replace_draft_def changed_def split: if_splits)
  with F(3,5) assms(3) show ?thesis by (cases expired) simp_all
qed

theorem browsing_follows_witness:
  "let e = snd (recall True (remember ''x'' (text_draft ''old'') new_editor));
       e' = fst (prepend_history [\<lparr>h_draft = text_draft ''new'', h_occurrence = '''', h_source = ''s'', h_restored = True\<rparr>] [] e)
   in 0 < e_back e' \<and> e_draft e' = e_draft e \<or> e_back e' = 0 \<and> e_draft e' = editable (e_history_draft e)"
proof -
  define e where "e = snd (recall True (remember ''x'' (text_draft ''old'') new_editor))"
  have "editor_ok (remember ''x'' (text_draft ''old'') new_editor)"
    using remember_ok [OF new_editor_ok text_draft_ok] by (simp add: keeps_editor_def)
  then have ok: "editor_ok e" unfolding e_def by (rule recall_ok)
  have "e_back e = 1" unfolding e_def by code_simp
  with browsing_follows [OF ok surjective_pairing] show ?thesis unfolding e_def [symmetric] Let_def by (metis zero_less_one)
qed

text \<open>
  Restoring submitted drafts keeps their bindings.  The files, skills and selections of
  the result are those of the drafts with text, in order, then those of the draft in the editor,
  each with its label and what it stands for; the images are renumbered in one sequence.
\<close>

lemma restore_keeps_bindings:
  assumes "editor_ok e" and "\<forall>p \<in> set parts. draft_ok p"
  shows "\<exists>e'. restore_parts parts e = Some e' \<and> numbered (e_draft e')
    \<and> (let ps = text_drafts (parts @ [editable (e_draft e)]) in
       bound_as (e_draft e') (d_files (e_draft e')) = concat (map (\<lambda>p. bound_as p (d_files p)) ps)
       \<and> bound_as (e_draft e') (d_skills (e_draft e')) = concat (map (\<lambda>p. bound_as p (d_skills p)) ps)
       \<and> bound_as (e_draft e') (d_selections (e_draft e')) = concat (map (\<lambda>p. bound_as p (d_selections p)) ps)
       \<and> map payload (d_images (e_draft e')) = concat (map (\<lambda>p. map payload (d_images p)) ps))"
proof -
  let ?ps = "parts @ [editable (e_draft e)]"
  let ?j = "foldl join_part empty_draft ?ps"
  have all: "\<forall>p \<in> set ?ps. draft_ok p" using assms by (auto simp: editor_ok_def)
  then obtain d where d: "join_drafts ?ps = Some d" "draft_ok d" "same_bindings ?j d" using join_drafts_ok by metis
  have "\<forall>p \<in> set ?ps. joined_ok p" using all draft_ok_joined by blast
  note B = join_parts_bound [OF this joined_empty]
  have nil: "d_files empty_draft = []" "d_skills empty_draft = []" "d_selections empty_draft = []" "d_images empty_draft = []"
    by (simp_all add: empty_draft_def)
  define e' where "e' = replace_draft d (e\<lparr>e_undo := [], e_redo := [], e_run := NoRun\<rparr>)"
  have r: "restore_parts parts e = Some e'" using d(1) by (simp add: restore_parts_def e'_def)
  have ed: "e_draft e' = editable d" by (simp add: e'_def replace_draft_def changed_def)
  have same: "same_bindings d (editable d)" by (simp add: same_bindings_def editable_def bound_as_def)
  have "numbered (e_draft e')" using d(2) by (simp add: ed draft_ok_def numbered_def editable_def)
  moreover have "same_bindings ?j (e_draft e')" using same_bindings_trans [OF d(3) same] ed by simp
  ultimately show ?thesis using r B by (auto simp: same_bindings_def Let_def nil bound_as_def)
qed

lemma restore_keeps_bindings_witness:
  "\<exists>e'. restore_parts [text_draft ''a''] new_editor = Some e' \<and> d_images (e_draft e') = []"
  using restore_keeps_bindings [OF new_editor_ok, of "[text_draft ''a'']"] text_draft_ok
  by (auto simp: text_drafts_def new_editor_def text_draft_def empty_draft_def editable_def Let_def)

text \<open>
  The caret moves.  From inside the text, a move to the right ends further right and inside
  the text, a move to the left ends further left, and after a move to the right the caret is
  inside no binding.
\<close>

lemma caret_progress:
  assumes "splitter_ok clusters" and "draft_ok d"
  shows "(at < length (d_text d) \<longrightarrow> at < caret_boundary clusters at 1 d \<and> caret_boundary clusters at 1 d \<le> length (d_text d)
      \<and> caret_clear (caret_boundary clusters at 1 d) d)
    \<and> (0 < at \<longrightarrow> at \<le> length (d_text d) \<longrightarrow> caret_boundary clusters at (- 1) d < at)"
proof -
  have ok: "draft_tokens_ok d" using assms(2) by (simp add: draft_ok_def)
  show ?thesis
    using caret_boundary_right [OF assms(1) ok] boundary_right_clear [OF assms(1) ok, of _ at] caret_boundary_left [OF assms(1) ok]
    by (simp add: caret_clear_def list_all_iff)
qed

lemma caret_progress_witness: "caret_boundary bytewise 1 1 (text_draft ''abc'') \<in> {2, 3}"
proof -
  have "length (d_text (text_draft ''abc'')) = 3" by (simp add: text_draft_def)
  with caret_progress [OF bytewise_ok text_draft_ok, of 1 "''abc''"] show ?thesis by auto
qed

end
