(* ===== verification/Prompt_Questions.thy ===== *)
theory Prompt_Questions
  imports Composer_Editor
begin

text \<open>
  Questions that agents put to the user (\<open>modules/conversation/prompt/questions.go\<close>, \<open>answers.go\<close>,
  \<open>input.go\<close>).  Calls are shared by pointer: the dock keeps a heap of calls, its list and its
  active call are addresses.  \<open>None\<close> is a panic (no active call, an index out of range).
\<close>

section \<open>Data\<close>

record question_option =
  op_label :: string
  op_description :: string

record question =
  q_name :: string
  q_header :: string
  q_question :: string
  q_secret :: bool
  q_choices :: "question_option list"
  q_editor :: parked
  q_selected :: int
  q_note :: bool
  q_done :: bool
  q_skipped :: bool
  q_answer :: "string list"
  q_outcome :: string

record question_call =
  qc_key :: string
  qc_thread :: string
  qc_turn :: string
  qc_item :: string
  qc_sync :: bool
  qc_local :: bool
  qc_questions :: "question list"
  qc_sent :: bool
  qc_resolved :: bool
  qc_submission :: string

record dock =
  dk_heap :: "nat \<Rightarrow> question_call"
  dk_calls :: "nat list"
  dk_active :: "nat option"
  dk_index :: int
  dk_confirm :: bool
  dk_auto_open :: bool
  dk_turns :: "string set"

text \<open>Go's remainder has the sign of the dividend.\<close>

definition go_rem :: "int \<Rightarrow> int \<Rightarrow> int" where
  "go_rem a b = a - b * go_div a b"

definition set_call :: "nat \<Rightarrow> question_call \<Rightarrow> dock \<Rightarrow> dock" where
  "set_call r c d = d\<lparr>dk_heap := (dk_heap d)(r := c)\<rparr>"

definition set_question :: "nat \<Rightarrow> question \<Rightarrow> question_call \<Rightarrow> question_call" where
  "set_question i q c = c\<lparr>qc_questions := (qc_questions c)[i := q]\<rparr>"

section \<open>The dock\<close>

definition record_turn :: "string \<Rightarrow> dock \<Rightarrow> dock" where
  "record_turn turn d = d\<lparr>dk_turns := insert turn (dk_turns d)\<rparr>"

definition add_call :: "nat \<Rightarrow> bool \<Rightarrow> dock \<Rightarrow> bool \<times> dock" where
  "add_call r replay d =
     (let c = dk_heap d r
      in if qc_questions c = [] \<or> list_ex (\<lambda>p. qc_key (dk_heap d p) = qc_key c) (dk_calls d) then (False, d)
         else let d1 = record_turn (qc_turn c) d; d2 = d1\<lparr>dk_calls := dk_calls d1 @ [r]\<rparr>
              in (True, if replay then d2 else d2\<lparr>dk_auto_open := True\<rparr>))"

definition count_questions :: "string \<Rightarrow> dock \<Rightarrow> nat" where
  "count_questions thread d =
     sum_list (map (\<lambda>r. let c = dk_heap d r
        in if qc_thread c \<noteq> thread \<and> \<not> qc_local c \<or> qc_resolved c \<or> qc_sent c then 0
           else length (filter (\<lambda>q. q_outcome q = '''') (qc_questions c))) (dk_calls d))"

definition waiting :: "string \<Rightarrow> dock \<Rightarrow> bool" where
  "waiting thread d \<longleftrightarrow> list_ex (\<lambda>r. let c = dk_heap d r
     in qc_thread c = thread \<and> (qc_sync c \<or> qc_local c) \<and> \<not> qc_resolved c) (dk_calls d)"

definition next_call :: "dock \<Rightarrow> nat option" where
  "next_call d =
     (case find (\<lambda>r. let c = dk_heap d r in (qc_sync c \<or> qc_local c) \<and> \<not> qc_resolved c \<and> \<not> qc_sent c) (dk_calls d) of
        Some r \<Rightarrow> Some r
      | None \<Rightarrow> find (\<lambda>r. let c = dk_heap d r in \<not> qc_resolved c \<and> \<not> qc_sent c) (dk_calls d))"

definition open_call :: "nat option \<Rightarrow> dock \<Rightarrow> bool \<times> dock" where
  "open_call p d =
     (case p of
        None \<Rightarrow> (False, d)
      | Some r \<Rightarrow>
          if dk_active d \<noteq> None then (False, d)
          else let i = (case find_index (\<lambda>q. q_outcome q = '''') (qc_questions (dk_heap d r)) of None \<Rightarrow> 0 | Some i \<Rightarrow> i)
               in (True, d\<lparr>dk_active := Some r, dk_index := int i, dk_confirm := False\<rparr>))"

definition hide_dock :: "dock \<Rightarrow> dock" where
  "hide_dock d = d\<lparr>dk_active := None, dk_confirm := False\<rparr>"

text \<open>\<open>Current\<close>: the call and the index of its question; no active call gives no question.\<close>

definition current_question :: "dock \<Rightarrow> (nat \<times> nat) option option" where
  "current_question d =
     (case dk_active d of
        None \<Rightarrow> Some None
      | Some r \<Rightarrow>
          if 0 \<le> dk_index d \<and> dk_index d < int (length (qc_questions (dk_heap d r)))
          then Some (Some (r, nat (dk_index d))) else None)"

definition move_question :: "int \<Rightarrow> dock \<Rightarrow> dock option" where
  "move_question step d =
     (case dk_active d of
        None \<Rightarrow> None
      | Some r \<Rightarrow>
          let n = int (length (qc_questions (dk_heap d r)))
          in if n = 0 then None else Some (d\<lparr>dk_index := go_rem (dk_index d + step + n) n, dk_confirm := False\<rparr>))"

definition should_open :: "bool \<Rightarrow> dock \<Rightarrow> bool" where
  "should_open vacant d \<longleftrightarrow> dk_auto_open d \<and> dk_active d = None \<and> vacant \<and> next_call d \<noteq> None"

definition remove_call :: "nat \<Rightarrow> dock \<Rightarrow> dock" where
  "remove_call r d = d\<lparr>dk_calls := filter (\<lambda>p. p \<noteq> r) (dk_calls d)\<rparr>"

section \<open>Questions\<close>

definition choose_option :: "int \<Rightarrow> question \<Rightarrow> question" where
  "choose_option i q = q\<lparr>q_selected := i, q_done := False\<rparr>"

definition edit_answer :: "bool \<Rightarrow> question \<Rightarrow> question" where
  "edit_answer other q =
     (let q1 = (if other then q\<lparr>q_selected := int (length (q_choices q))\<rparr> else q)
      in q1\<lparr>q_done := False, q_skipped := False\<rparr>)"

definition complete :: "string \<Rightarrow> bool \<Rightarrow> bool \<Rightarrow> question \<Rightarrow> (bool \<times> question) option" where
  "complete s sync skip q =
     (let q1 = q\<lparr>q_skipped := skip, q_done := True, q_answer := []\<rparr>
      in if skip then Some (True, q1)
         else if q_selected q < int (length (q_choices q)) then
           if q_selected q < 0 then None
           else let l = op_label (q_choices q ! nat (q_selected q))
                in Some (True, q1\<lparr>q_answer := (if sync \<and> s \<noteq> '''' then [l, s] else [l])\<rparr>)
         else if s \<noteq> '''' then Some (True, q1\<lparr>q_answer := [s]\<rparr>)
         else Some (False, q1\<lparr>q_done := False\<rparr>))"

definition gaps :: "question_call \<Rightarrow> nat" where
  "gaps c = length (filter (\<lambda>q. q_outcome q = '''' \<and> (q_skipped q \<or> \<not> q_done q)) (qc_questions c))"

text \<open>The step to the next open question, or whether the answers can be submitted.\<close>

definition advance_question :: "dock \<Rightarrow> ((int \<times> bool) \<times> dock) option" where
  "advance_question d =
     (case dk_active d of
        None \<Rightarrow> None
      | Some r \<Rightarrow>
          if dk_index d + 1 < 0 then None
          else let c = dk_heap d r
               in case find (\<lambda>j. \<not> q_done (qc_questions c ! j) \<and> q_outcome (qc_questions c ! j) = '''')
                     [nat (dk_index d + 1)..<length (qc_questions c)] of
                    Some j \<Rightarrow> Some ((int j - dk_index d, False), d)
                  | None \<Rightarrow> Some ((0, gaps c = 0), d\<lparr>dk_confirm := 0 < gaps c\<rparr>))"

section \<open>Calls\<close>

text \<open>A question that is not settled takes the outcome; its draft is remembered.\<close>

definition resolve_question :: "string \<Rightarrow> question_call \<Rightarrow> question \<Rightarrow> question \<times> draft list" where
  "resolve_question outcome c q =
     (if q_outcome q \<noteq> '''' then (q, [])
      else if qc_sync c \<and> qc_sent c
        then (q\<lparr>q_outcome := (if q_skipped q \<or> \<not> q_done q then ''skipped'' else ''answered''), q_editor := empty_parked\<rparr>, [])
      else (q\<lparr>q_outcome := outcome, q_editor := empty_parked\<rparr>,
        if \<not> q_secret q \<and> d_text (u_draft (k_snapshot (q_editor q))) \<noteq> '''' then [u_draft (k_snapshot (q_editor q))] else []))"

definition resolve_call :: "string \<Rightarrow> question_call \<Rightarrow> question_call \<times> draft list" where
  "resolve_call outcome c =
     (if qc_resolved c then (c, [])
      else let rs = map (resolve_question outcome c) (qc_questions c)
           in (c\<lparr>qc_questions := map fst rs, qc_resolved := True\<rparr>, concat (map snd rs)))"

definition reject_call :: "question_call \<Rightarrow> bool \<times> question_call" where
  "reject_call c = (if qc_resolved c \<or> qc_sync c then (False, c) else (True, c\<lparr>qc_sent := False, qc_submission := ''''\<rparr>))"

text \<open>The host committed an answer: the one submitted here, or one from elsewhere.\<close>

definition own_answer :: "question_call \<Rightarrow> question \<Rightarrow> string \<Rightarrow> string \<Rightarrow> bool" where
  "own_answer c q client answer \<longleftrightarrow> qc_submission c \<noteq> ''''
     \<and> (client = qc_submission c \<or> client = '''' \<and> answer = join [newline] (q_answer q))"

definition commit_question :: "question_call \<Rightarrow> string \<Rightarrow> string \<Rightarrow> question \<Rightarrow> draft \<times> question" where
  "commit_question c client answer q =
     (let own = own_answer c q client answer;
          q1 = (if own then q else q\<lparr>q_done := False\<rparr>);
          discarded = (if own \<or> q_secret q then empty_draft else u_draft (k_snapshot (q_editor q)));
          q2 = q1\<lparr>q_outcome := (if own then ''answered'' else ''answered elsewhere'')\<rparr>;
          q3 = (if q_secret q then q2 else q2\<lparr>q_answer := [answer]\<rparr>)
      in (discarded, q3\<lparr>q_editor := empty_parked\<rparr>))"

definition commit_call :: "int \<Rightarrow> string \<Rightarrow> string \<Rightarrow> question_call \<Rightarrow> (draft \<times> bool) \<times> question_call" where
  "commit_call index client answer c =
     (if index < 0 \<or> int (length (qc_questions c)) \<le> index \<or> qc_sync c then ((empty_draft, False), c)
      else let q = qc_questions c ! nat index
           in if q_outcome q \<noteq> '''' then ((empty_draft, False), c)
              else case commit_question c client answer q of (discarded, q') \<Rightarrow>
                let c' = set_question (nat index) q' c
                in ((discarded, True), c'\<lparr>qc_resolved := \<not> list_ex (\<lambda>q. q_outcome q = '''') (qc_questions c')\<rparr>))"

definition submit_question :: "question \<Rightarrow> question" where
  "submit_question q =
     (if q_outcome q = '''' \<and> (q_skipped q \<or> \<not> q_done q) then q\<lparr>q_outcome := ''skipped'', q_editor := empty_parked\<rparr> else q)"

definition submitted_call :: "question_call \<Rightarrow> question_call" where
  "submitted_call c =
     (if qc_sync c then c\<lparr>qc_sent := True, qc_questions := map (\<lambda>q. q\<lparr>q_editor := empty_parked\<rparr>) (qc_questions c)\<rparr>
      else c\<lparr>qc_sent := True, qc_questions := map submit_question (qc_questions c),
             qc_resolved := \<not> list_ex (\<lambda>q. q_outcome q = '''' \<and> \<not> (q_skipped q \<or> \<not> q_done q)) (qc_questions c)\<rparr>)"

section \<open>Answers and input\<close>

datatype answer_error = QuestionUnavailable | SecretAnswer | EmptyAnswer | IncompleteAnswers

definition question_key :: "question_call \<Rightarrow> int \<Rightarrow> string" where
  "question_key c i = qc_key c @ ''/'' @ int_dec i"

definition pending_call :: "string \<Rightarrow> dock \<Rightarrow> nat option" where
  "pending_call key d = find (\<lambda>r. let c = dk_heap d r in qc_key c = key \<and> \<not> qc_resolved c \<and> \<not> qc_sent c) (dk_calls d)"

record answer_input =
  an_call :: string
  an_question :: string
  an_choice :: int
  an_draft :: draft
  an_skip :: bool

text \<open>\<open>Answer\<close>: an error, or the call and question that took the answer.\<close>

definition answer_question :: "answer_input \<Rightarrow> dock \<Rightarrow> ((answer_error + nat \<times> nat) \<times> dock) option" where
  "answer_question a d =
     (case pending_call (an_call a) d of
        None \<Rightarrow> Some (Inl QuestionUnavailable, d)
      | Some r \<Rightarrow>
          let c = dk_heap d r
          in case find (\<lambda>i. question_key c (int i) = an_question a) [0..<length (qc_questions c)] of
               None \<Rightarrow> Some (Inl QuestionUnavailable, d)
             | Some i \<Rightarrow>
                 let q = qc_questions c ! i; n = int (length (q_choices q))
                 in if q_outcome q \<noteq> '''' \<or> an_choice a < 0 \<or> n < an_choice a then Some (Inl QuestionUnavailable, d)
                    else if q_secret q then Some (Inl SecretAnswer, d)
                    else if \<not> an_skip a \<and> an_choice a = n \<and> d_text (an_draft a) = '''' then Some (Inl EmptyAnswer, d)
                    else let k = q_editor q;
                             q1 = q\<lparr>q_selected := an_choice a,
                                    q_editor := k\<lparr>k_snapshot := (k_snapshot k)\<lparr>u_draft := an_draft a\<rparr>\<rparr>\<rparr>
                         in map_option (\<lambda>s. (Inr (r, i), set_call r (set_question i (snd s) c) d))
                              (complete (d_text (an_draft a)) (qc_sync c) (an_skip a) q1))"

definition submission :: "string \<Rightarrow> bool \<Rightarrow> dock \<Rightarrow> answer_error + nat" where
  "submission key incomplete d =
     (case pending_call key d of
        None \<Rightarrow> Inl QuestionUnavailable
      | Some r \<Rightarrow> if 0 < gaps (dk_heap d r) \<and> \<not> incomplete then Inl IncompleteAnswers else Inr r)"

datatype input_kind = InputNone | InputChoose | InputEdit | InputNote | InputCancelConfirm | InputUnknown

record question_input =
  in_call :: string
  in_question :: string
  in_kind :: input_kind
  in_choice :: int
  in_enabled :: bool

definition apply_input :: "question_input \<Rightarrow> dock \<Rightarrow> (bool \<times> dock) option" where
  "apply_input x d =
     (case dk_active d of
        None \<Rightarrow> Some (False, d)
      | Some r \<Rightarrow>
          let c = dk_heap d r
          in if qc_key c \<noteq> in_call x \<or> question_key c (dk_index d) \<noteq> in_question x \<or> qc_resolved c \<or> qc_sent c
             then Some (False, d)
             else case current_question d of
                    None \<Rightarrow> None
                  | Some None \<Rightarrow> None
                  | Some (Some (r, i)) \<Rightarrow>
                      let q = qc_questions c ! i; put = (\<lambda>q'. set_call r (set_question i q' c) d)
                      in Some (case in_kind x of
                           InputNone \<Rightarrow> (True, d)
                         | InputChoose \<Rightarrow>
                             if in_choice x < 0 \<or> int (length (q_choices q)) < in_choice x then (False, d)
                             else (True, put (choose_option (in_choice x) q))
                         | InputEdit \<Rightarrow> (True, put (edit_answer (in_enabled x) q))
                         | InputNote \<Rightarrow>
                             if in_enabled x \<and> (\<not> qc_sync c \<or> int (length (q_choices q)) \<le> q_selected q) then (False, d)
                             else (True, put (q\<lparr>q_note := in_enabled x\<rparr>))
                         | InputCancelConfirm \<Rightarrow> (True, d\<lparr>dk_confirm := False\<rparr>)
                         | InputUnknown \<Rightarrow> (False, d)))"

section \<open>Channels\<close>

text \<open>The open questions of all calls that are not sent, in order.\<close>

definition open_positions :: "dock \<Rightarrow> (nat \<times> nat) list" where
  "open_positions d =
     concat (map (\<lambda>r. let c = dk_heap d r
       in if qc_sent c \<or> qc_resolved c then []
          else map (Pair r) (filter (\<lambda>i. q_outcome (qc_questions c ! i) = '''') [0..<length (qc_questions c)])) (dk_calls d))"

definition shown_position :: "dock \<Rightarrow> nat \<times> nat \<Rightarrow> bool" where
  "shown_position d p \<longleftrightarrow> dk_active d = Some (fst p) \<and> dk_index d = int (snd p)"

text \<open>The number of positions before the last one that is shown, zero when none is.\<close>

definition channel_position :: "dock \<Rightarrow> nat" where
  "channel_position d = fold (\<lambda>(n, p) at. if shown_position d p then n else at) (enumerate 0 (open_positions d)) 0"

definition move_channel :: "int \<Rightarrow> dock \<Rightarrow> dock option" where
  "move_channel step d =
     (let ps = open_positions d; n = int (length ps)
      in if ps = [] then Some d
         else let i = go_rem (int (channel_position d) + step + n) n
              in if i < 0 then None
                 else Some (d\<lparr>dk_active := Some (fst (ps ! nat i)), dk_index := int (snd (ps ! nat i)), dk_confirm := False\<rparr>))"

section \<open>Views\<close>

record question_view =
  qv_selected :: int
  qv_note :: bool
  qv_pending :: bool
  qv_key :: string
  qv_header :: string
  qv_text :: string
  qv_state :: string
  qv_choices :: "question_option list"
  qv_answer :: "string list"
  qv_secret :: bool

record call_view =
  cv_sync :: bool
  cv_local :: bool
  cv_key :: string
  cv_thread :: string
  cv_turn :: string
  cv_item :: string
  cv_questions :: "question_view list"
  cv_sent :: bool
  cv_resolved :: bool

record dock_view =
  dv_count :: nat
  dv_index :: int
  dv_gaps :: nat
  dv_position :: nat
  dv_total :: nat
  dv_confirm :: bool
  dv_call :: "call_view option"

definition question_state :: "question_call \<Rightarrow> question \<Rightarrow> string" where
  "question_state c q =
     (if q_outcome q \<noteq> '''' then q_outcome q
      else if qc_sent c then ''sending'' else if qc_sync c \<or> qc_local c then ''waiting'' else ''open'')"

definition view_answer :: "question_call \<Rightarrow> question \<Rightarrow> string list" where
  "view_answer c q =
     (if q_secret q \<or> q_outcome q = '''' then []
      else if qc_sync c \<and> length (q_answer q) = 1 \<and> q_selected q = int (length (q_choices q))
        then [''Other:'' @ [newline, newline] @ hd (q_answer q)]
      else q_answer q)"

definition view_question :: "question_call \<Rightarrow> nat \<Rightarrow> question_view" where
  "view_question c i =
     (let q = qc_questions c ! i
      in \<lparr>qv_selected = q_selected q, qv_note = q_note q, qv_pending = q_outcome q = '''', qv_key = question_key c (int i),
          qv_header = q_header q, qv_text = q_question q, qv_state = question_state c q, qv_choices = q_choices q,
          qv_answer = view_answer c q, qv_secret = q_secret q\<rparr>)"

definition view_call :: "question_call \<Rightarrow> call_view" where
  "view_call c = \<lparr>cv_sync = qc_sync c, cv_local = qc_local c, cv_key = qc_key c, cv_thread = qc_thread c, cv_turn = qc_turn c,
     cv_item = qc_item c, cv_questions = map (view_question c) [0..<length (qc_questions c)], cv_sent = qc_sent c,
     cv_resolved = qc_resolved c\<rparr>"

definition view_dock :: "string \<Rightarrow> dock \<Rightarrow> dock_view" where
  "view_dock thread d = \<lparr>dv_count = count_questions thread d, dv_index = dk_index d,
     dv_gaps = (case dk_active d of None \<Rightarrow> 0 | Some r \<Rightarrow> gaps (dk_heap d r)), dv_position = 0, dv_total = 0,
     dv_confirm = dk_confirm d, dv_call = map_option (\<lambda>r. view_call (dk_heap d r)) (dk_active d)\<rparr>"

definition channel_view :: "string \<Rightarrow> dock \<Rightarrow> dock_view" where
  "channel_view thread d =
     (let n = length (open_positions d)
      in (view_dock thread d)\<lparr>dv_position := channel_position d, dv_total := n, dv_count := n\<rparr>)"

end
