(* ===== verification/Prompt_Observe.thy ===== *)
theory Prompt_Observe
  imports Prompt_Questions
begin

text \<open>
  What an observed message does to the questions (\<open>modules/conversation/prompt/observations.go\<close>).
  The iteration over the calls and the changes it makes are interleaved in the code: each
  candidate is tested in the state that the changes before it left.
\<close>

definition item_completed :: string where
  "item_completed = ''item/completed''"

definition agent_delta :: string where
  "agent_delta = ''item/agentMessage/delta''"

record reply =
  rp_item :: string
  rp_answer :: string
  rp_index :: int

record message =
  ms_thread :: string
  ms_turn :: string
  ms_item :: string
  ms_kind :: string
  ms_main :: bool
  ms_user :: bool
  ms_history :: bool
  ms_call :: "nat option"
  ms_client :: string
  ms_has_replies :: bool
  ms_replies :: "reply list"

record call_change =
  ch_call :: nat
  ch_discarded :: "draft list"
  ch_superseded :: bool

record message_changes =
  mc_added :: "nat option"
  mc_changed :: "call_change list"
  mc_suppress :: bool

text \<open>The calls an input may concern, with the reply to it; without a reply it supersedes the call.\<close>

definition message_candidates :: "message \<Rightarrow> dock \<Rightarrow> (nat \<times> reply option) list" where
  "message_candidates m d =
     (if \<not> ms_main m \<or> \<not> ms_user m \<or> ms_kind m \<noteq> item_completed then []
      else if \<not> ms_has_replies m then
        if ms_turn m \<in> dk_turns d then [] else map (\<lambda>r. (r, None)) (dk_calls d)
      else concat (map (\<lambda>rep. map (\<lambda>r. (r, Some rep)) (dk_calls d)) (ms_replies m)))"

definition offered :: "message \<Rightarrow> dock \<Rightarrow> nat \<times> reply option \<Rightarrow> bool" where
  "offered m d p =
     (let c = dk_heap d (fst p)
      in case snd p of
           None \<Rightarrow> qc_thread c = ms_thread m \<and> \<not> qc_sync c \<and> \<not> qc_local c \<and> \<not> qc_resolved c \<and> qc_turn c \<noteq> ms_turn m
             \<and> (\<not> qc_sent c \<or> qc_submission c = '''')
         | Some rep \<Rightarrow> qc_thread c = ms_thread m \<and> qc_item c = rp_item rep \<and> \<not> qc_sync c \<and> \<not> qc_local c
             \<and> 0 \<le> rp_index rep \<and> rp_index rep < int (length (qc_questions c))
             \<and> q_outcome (qc_questions c ! nat (rp_index rep)) = '''')"

text \<open>The test before a message, in the state before it.\<close>

definition needs_parking :: "message \<Rightarrow> dock \<Rightarrow> bool" where
  "needs_parking m d \<longleftrightarrow> dk_active d \<noteq> None \<and> list_ex (\<lambda>p. offered m d p \<and> dk_active d = Some (fst p)) (message_candidates m d)"

definition apply_candidate :: "message \<Rightarrow> nat \<times> reply option \<Rightarrow> dock \<times> call_change list \<Rightarrow> dock \<times> call_change list" where
  "apply_candidate m p s =
     (case s of (d, changes) \<Rightarrow>
      if \<not> offered m d p then (d, changes)
      else let r = fst p; c = dk_heap d r
           in case snd p of
                None \<Rightarrow>
                  (case resolve_call ''superseded'' c of (c', drafts) \<Rightarrow>
                     (set_call r c' d, changes @ [\<lparr>ch_call = r, ch_discarded = drafts, ch_superseded = True\<rparr>]))
              | Some rep \<Rightarrow>
                  (case commit_call (rp_index rep) (ms_client m) (rp_answer rep) c of ((draft, took), c') \<Rightarrow>
                     (set_call r c' d, changes @ [\<lparr>ch_call = r, ch_discarded = (if took then [draft] else []), ch_superseded = False\<rparr>])))"

definition observe_message :: "message \<Rightarrow> dock \<Rightarrow> message_changes \<times> dock" where
  "observe_message m d =
     (case fold (apply_candidate m) (message_candidates m d) (d, []) of (d1, cs) \<Rightarrow>
      let d2 = (if ms_main m \<and> ms_user m \<and> ms_kind m = item_completed then record_turn (ms_turn m) d1 else d1);
          (added, d3) = (case ms_call m of
              None \<Rightarrow> (None, d2)
            | Some r \<Rightarrow> if ms_main m then (case add_call r (ms_history m) d2 of (ok, d') \<Rightarrow> (if ok then Some r else None, d')) else (None, d2));
          delta = ms_kind m = agent_delta
            \<and> list_ex (\<lambda>r. let c = dk_heap d3 r in qc_thread c = ms_thread m \<and> qc_item c = ms_item m \<and> \<not> qc_sync c) (dk_calls d3)
      in (\<lparr>mc_added = added, mc_changed = cs, mc_suppress = ms_call m \<noteq> None \<or> delta\<rparr>, d3))"

section \<open>The preflight\<close>

lemma apply_candidate_effect:
  "\<exists>d' cs. apply_candidate m p (d, changes) = (d', changes @ cs) \<and> (\<forall>r. r \<noteq> fst p \<longrightarrow> dk_heap d' r = dk_heap d r)
    \<and> map ch_call cs = (if offered m d p then [fst p] else []) \<and> (\<not> offered m d p \<longrightarrow> d' = d)
    \<and> dk_calls d' = dk_calls d \<and> dk_active d' = dk_active d \<and> dk_index d' = dk_index d"
  by (auto simp: apply_candidate_def set_call_def Let_def split: option.splits prod.splits)

text \<open>
  Calls that were not changed yet are offered as they were at the start, so the calls that are
  changed are the ones offered at the start.
\<close>

lemma apply_candidates_changed:
  assumes "\<forall>r. r \<notin> ch_call ` set changes \<longrightarrow> dk_heap d r = dk_heap d0 r"
  shows "ch_call ` set (snd (fold (apply_candidate m) ps (d, changes)))
    = ch_call ` set changes \<union> fst ` {p \<in> set ps. offered m d0 p}"
  using assms
proof (induction ps arbitrary: d changes)
  case (Cons p ps)
  obtain d' cs where s: "apply_candidate m p (d, changes) = (d', changes @ cs)" "\<forall>r. r \<noteq> fst p \<longrightarrow> dk_heap d' r = dk_heap d r"
    "map ch_call cs = (if offered m d p then [fst p] else [])" "\<not> offered m d p \<longrightarrow> d' = d"
    using apply_candidate_effect [of m p d changes] by blast
  have same: "offered m d p = offered m d0 p" if "fst p \<notin> ch_call ` set changes"
    using Cons.prems that by (simp add: offered_def)
  have cs: "ch_call ` set cs = (if offered m d p then {fst p} else {})" using s(3) by (metis list.set(1,2) list.set_map)
  have "\<forall>r. r \<notin> ch_call ` set (changes @ cs) \<longrightarrow> dk_heap d' r = dk_heap d0 r"
    using Cons.prems s(2,4) cs by (auto simp: image_Un split: if_splits)
  from Cons.IH [OF this] s(1)
  have "ch_call ` set (snd (fold (apply_candidate m) (p # ps) (d, changes)))
      = ch_call ` set changes \<union> (if offered m d p then {fst p} else {}) \<union> fst ` {p \<in> set ps. offered m d0 p}"
    by (simp add: image_Un cs)
  with same show ?case by (cases "fst p \<in> ch_call ` set changes") auto
qed simp

lemma observe_changes: "mc_changed (fst (observe_message m d)) = snd (fold (apply_candidate m) (message_candidates m d) (d, []))"
  by (cases "fold (apply_candidate m) (message_candidates m d) (d, [])") (simp add: observe_message_def Let_def split: prod.splits)

lemma observe_changed:
  "ch_call ` set (mc_changed (fst (observe_message m d))) = fst ` {p \<in> set (message_candidates m d). offered m d p}"
  using apply_candidates_changed [of "[]" d d m "message_candidates m d"]
  by (simp add: observe_changes)

lemma needs_parking_changed:
  "needs_parking m d \<longleftrightarrow> (\<exists>r. dk_active d = Some r \<and> r \<in> ch_call ` set (mc_changed (fst (observe_message m d))))"
  unfolding observe_changed by (force simp: needs_parking_def list_ex_iff)

end
