(* ===== verification/Prompt_Invariant.thy ===== *)
theory Prompt_Invariant
  imports Prompt_Observe
begin

text \<open>
  What every operation on questions keeps: a call keeps its identity and its questions, an
  outcome once set stays, a resolved call has an outcome for every question, and the active
  question exists.
\<close>

section \<open>Calls\<close>

definition question_good :: "question \<Rightarrow> bool" where
  "question_good q \<longleftrightarrow> 0 \<le> q_selected q \<and> q_selected q \<le> int (length (q_choices q))"

definition call_good :: "question_call \<Rightarrow> bool" where
  "call_good c \<longleftrightarrow> list_all question_good (qc_questions c)
     \<and> (qc_resolved c \<longrightarrow> list_all (\<lambda>q. q_outcome q \<noteq> '''') (qc_questions c))"

definition question_keeps :: "question \<Rightarrow> question \<Rightarrow> bool" where
  "question_keeps q q' \<longleftrightarrow> q_choices q' = q_choices q \<and> q_secret q' = q_secret q \<and> q_question q' = q_question q
     \<and> (q_outcome q \<noteq> '''' \<longrightarrow> q_outcome q' = q_outcome q)"

definition call_keeps :: "question_call \<Rightarrow> question_call \<Rightarrow> bool" where
  "call_keeps c c' \<longleftrightarrow> qc_key c' = qc_key c \<and> qc_thread c' = qc_thread c \<and> qc_turn c' = qc_turn c \<and> qc_item c' = qc_item c
     \<and> qc_sync c' = qc_sync c \<and> qc_local c' = qc_local c \<and> list_all2 question_keeps (qc_questions c) (qc_questions c')
     \<and> (call_good c \<longrightarrow> call_good c' \<and> (qc_resolved c \<longrightarrow> qc_resolved c'))"

lemma question_keeps_refl [simp]: "question_keeps q q"
  by (simp add: question_keeps_def)

lemma call_keeps_refl [simp]: "call_keeps c c"
  by (simp add: call_keeps_def list_all2_refl)

lemma question_keeps_trans: "question_keeps a b \<Longrightarrow> question_keeps b c \<Longrightarrow> question_keeps a c"
  by (auto simp: question_keeps_def)

lemma call_keeps_trans: "call_keeps a b \<Longrightarrow> call_keeps b c \<Longrightarrow> call_keeps a c"
proof -
  assume k: "call_keeps a b" "call_keeps b c"
  then have "list_all2 question_keeps (qc_questions a) (qc_questions c)"
    using list_all2_trans [of question_keeps question_keeps question_keeps] question_keeps_trans unfolding call_keeps_def by blast
  with k show ?thesis unfolding call_keeps_def by simp
qed

lemma call_keeps_questions:
  assumes "call_keeps c c'"
  shows "length (qc_questions c') = length (qc_questions c)"
    and "i < length (qc_questions c) \<Longrightarrow> question_keeps (qc_questions c ! i) (qc_questions c' ! i)"
  using assms by (auto simp: call_keeps_def list_all2_lengthD list_all2_nthD)

lemma call_good_nth: "call_good c \<Longrightarrow> i < length (qc_questions c) \<Longrightarrow> question_good (qc_questions c ! i)"
  by (simp add: call_good_def list_all_length)

text \<open>Replacing a question that is not settled.\<close>

lemma set_question_keeps:
  assumes i: "i < length (qc_questions c)" and k: "question_keeps (qc_questions c ! i) q"
    and g: "call_good c \<Longrightarrow> question_good q"
  shows "call_keeps c (set_question i q c)"
proof -
  have "list_all2 question_keeps (qc_questions c) ((qc_questions c)[i := q])"
    using i k by (auto simp: list_all2_conv_all_nth nth_list_update)
  moreover have "call_good (set_question i q c)" if c: "call_good c"
  proof -
    have "q_outcome q \<noteq> ''''" if "qc_resolved c" using c that i k by (auto simp: call_good_def list_all_length question_keeps_def)
    then show ?thesis using c g [OF c] i
      by (auto simp: call_good_def set_question_def list_all_length nth_list_update)
  qed
  ultimately show ?thesis by (simp add: call_keeps_def set_question_def)
qed

lemma resolve_question_keeps:
  "question_keeps q (fst (resolve_question outcome c q))"
  "question_good q \<Longrightarrow> question_good (fst (resolve_question outcome c q))"
  "outcome \<noteq> '''' \<Longrightarrow> q_outcome (fst (resolve_question outcome c q)) \<noteq> ''''"
  by (simp_all add: resolve_question_def question_keeps_def question_good_def)

lemma resolve_call_keeps:
  assumes "outcome \<noteq> ''''"
  shows "call_keeps c (fst (resolve_call outcome c))"
proof -
  have "list_all2 question_keeps (qc_questions c) (map (fst \<circ> resolve_question outcome c) (qc_questions c))"
    by (simp add: list_all2_conv_all_nth resolve_question_keeps)
  then show ?thesis using resolve_question_keeps(2,3) assms
    by (auto simp: resolve_call_def call_keeps_def call_good_def list_all_iff Let_def list_all2_refl)
qed

lemma reject_call_keeps: "call_keeps c (snd (reject_call c))"
  by (simp add: reject_call_def call_keeps_def call_good_def list_all2_refl)

lemma commit_question_keeps:
  "q_outcome q = '''' \<Longrightarrow> question_keeps q (snd (commit_question c client answer q))"
  "question_good q \<Longrightarrow> question_good (snd (commit_question c client answer q))"
  by (simp_all add: commit_question_def question_keeps_def question_good_def Let_def)

lemma commit_call_keeps: "call_keeps c (snd (commit_call index client answer c))"
proof (cases "index < 0 \<or> int (length (qc_questions c)) \<le> index \<or> qc_sync c \<or> q_outcome (qc_questions c ! nat index) \<noteq> ''''")
  case False
  define q' where "q' = snd (commit_question c client answer (qc_questions c ! nat index))"
  define c' where "c' = set_question (nat index) q' c"
  have i: "nat index < length (qc_questions c)" using False by auto
  have keeps: "call_keeps c c'" unfolding c'_def
    by (rule set_question_keeps [OF i]) (use False i call_good_nth commit_question_keeps in \<open>auto simp: q'_def\<close>)
  have eq: "snd (commit_call index client answer c) = c'\<lparr>qc_resolved := \<not> list_ex (\<lambda>q. q_outcome q = '''') (qc_questions c')\<rparr>"
    using False by (auto simp: commit_call_def c'_def q'_def Let_def split: prod.splits)
  have nr: "\<not> (call_good c \<and> qc_resolved c)" using False i by (auto simp: call_good_def list_all_length)
  have none: "(\<not> list_ex (\<lambda>q. q_outcome q = '''') qs) = list_all (\<lambda>q. q_outcome q \<noteq> '''') qs" for qs
    by (simp add: list_ex_iff list_all_iff)
  have "call_good c' \<Longrightarrow> call_good (c'\<lparr>qc_resolved := \<not> list_ex (\<lambda>q. q_outcome q = '''') (qc_questions c')\<rparr>)"
    unfolding none by (simp add: call_good_def)
  with keeps nr show ?thesis unfolding eq call_keeps_def by simp
qed (auto simp: commit_call_def Let_def)

lemma submit_question_keeps:
  "question_keeps q (submit_question q)" "question_good q \<Longrightarrow> question_good (submit_question q)"
  "q_outcome (submit_question q) = '''' \<longleftrightarrow> q_outcome q = '''' \<and> \<not> (q_skipped q \<or> \<not> q_done q)"
  by (auto simp: submit_question_def question_keeps_def question_good_def)

lemma submitted_call_keeps: "call_keeps c (submitted_call c)"
proof (cases "qc_sync c")
  case True
  have "list_all2 question_keeps (qc_questions c) (map (\<lambda>q. q\<lparr>q_editor := empty_parked\<rparr>) (qc_questions c))"
    by (simp add: list_all2_conv_all_nth question_keeps_def)
  with True show ?thesis by (auto simp: submitted_call_def call_keeps_def call_good_def list_all_iff question_good_def)
next
  case False
  have "list_all2 question_keeps (qc_questions c) (map submit_question (qc_questions c))"
    by (simp add: list_all2_conv_all_nth submit_question_keeps)
  moreover have "call_good (submitted_call c) \<and> (qc_resolved c \<longrightarrow> qc_resolved (submitted_call c))" if "call_good c"
  proof -
    have "list_all question_good (map submit_question (qc_questions c))"
      using that submit_question_keeps(2) by (auto simp: call_good_def list_all_iff)
    moreover have "list_all (\<lambda>q. q_outcome q \<noteq> '''') (map submit_question (qc_questions c))
        \<longleftrightarrow> \<not> list_ex (\<lambda>q. q_outcome q = '''' \<and> \<not> (q_skipped q \<or> \<not> q_done q)) (qc_questions c)"
      unfolding list_all_iff list_ex_iff set_map ball_simps(9) submit_question_keeps(3) by blast
    moreover have "qc_resolved c \<Longrightarrow> \<not> list_ex (\<lambda>q. q_outcome q = '''' \<and> \<not> (q_skipped q \<or> \<not> q_done q)) (qc_questions c)"
      using that unfolding call_good_def list_all_iff list_ex_iff by blast
    ultimately show ?thesis using False by (simp add: submitted_call_def call_good_def)
  qed
  ultimately show ?thesis using False by (simp add: submitted_call_def call_keeps_def)
qed

lemma complete_keeps:
  assumes "question_good q"
  shows "\<exists>b q'. complete s sync skip q = Some (b, q') \<and> question_keeps q q' \<and> question_good q'"
  using assms by (auto simp: complete_def question_good_def question_keeps_def Let_def)

section \<open>The dock\<close>

definition dock_keeps :: "dock \<Rightarrow> dock \<Rightarrow> bool" where
  "dock_keeps d d' \<longleftrightarrow> (\<forall>r. call_keeps (dk_heap d r) (dk_heap d' r))"

definition dock_ok :: "dock \<Rightarrow> bool" where
  "dock_ok d \<longleftrightarrow> (\<forall>r. call_good (dk_heap d r)) \<and> distinct (map (\<lambda>r. qc_key (dk_heap d r)) (dk_calls d))
     \<and> (\<forall>r \<in> set (dk_calls d). qc_questions (dk_heap d r) \<noteq> [])
     \<and> (\<forall>r. dk_active d = Some r \<longrightarrow> 0 \<le> dk_index d \<and> dk_index d < int (length (qc_questions (dk_heap d r))))"

lemma dock_keeps_refl [simp]: "dock_keeps d d"
  by (simp add: dock_keeps_def)

lemma dock_keeps_trans: "dock_keeps a b \<Longrightarrow> dock_keeps b c \<Longrightarrow> dock_keeps a c"
  by (auto simp: dock_keeps_def intro: call_keeps_trans)

lemma dock_keeps_frame: "dk_heap d' = dk_heap d \<Longrightarrow> dock_keeps d d'"
  by (simp add: dock_keeps_def)

lemma set_call_keeps: "call_keeps (dk_heap d r) c \<Longrightarrow> dock_keeps d (set_call r c d)"
  by (simp add: dock_keeps_def set_call_def)

text \<open>An operation that keeps the calls keeps the rest of the invariant when its lists do.\<close>

lemma dock_ok_keeps:
  assumes ok: "dock_ok d" and k: "dock_keeps d d'" and calls: "set (dk_calls d') \<subseteq> set (dk_calls d)" "distinct (dk_calls d')"
    and act: "\<And>r. dk_active d' = Some r \<Longrightarrow> 0 \<le> dk_index d' \<and> dk_index d' < int (length (qc_questions (dk_heap d r)))"
  shows "dock_ok d'"
proof -
  have kr: "call_keeps (dk_heap d r) (dk_heap d' r)" for r using k by (simp add: dock_keeps_def)
  then have key: "qc_key (dk_heap d' r) = qc_key (dk_heap d r)" and len: "length (qc_questions (dk_heap d' r)) = length (qc_questions (dk_heap d r))"
    and good: "call_good (dk_heap d r) \<Longrightarrow> call_good (dk_heap d' r)" for r
    using call_keeps_questions(1) [OF kr] by (simp_all add: call_keeps_def)
  have "inj_on (\<lambda>r. qc_key (dk_heap d r)) (set (dk_calls d))" using ok by (simp add: dock_ok_def distinct_map)
  then have "distinct (map (\<lambda>r. qc_key (dk_heap d' r)) (dk_calls d'))"
    using calls inj_on_subset by (auto simp: distinct_map key)
  moreover have "qc_questions (dk_heap d' r) \<noteq> []" if "r \<in> set (dk_calls d')" for r
    using ok calls(1) that len [of r] by (auto simp: dock_ok_def)
  ultimately show ?thesis using ok act good len by (auto simp: dock_ok_def)
qed

lemma dock_ok_set_call:
  assumes "dock_ok d" and "call_keeps (dk_heap d r) c"
  shows "dock_ok (set_call r c d)" and "dock_keeps d (set_call r c d)"
proof -
  show k: "dock_keeps d (set_call r c d)" using set_call_keeps [OF assms(2)] .
  have "distinct (dk_calls d)" using assms(1) by (auto simp: dock_ok_def distinct_map)
  then show "dock_ok (set_call r c d)"
    using dock_ok_keeps [OF assms(1) k] assms(1) by (simp add: set_call_def dock_ok_def)
qed

lemma dock_ok_distinct: "dock_ok d \<Longrightarrow> distinct (dk_calls d)"
  by (auto simp: dock_ok_def distinct_map)

lemma add_call_ok:
  assumes ok: "dock_ok d"
  shows "dock_ok (snd (add_call r replay d))" and "dock_keeps d (snd (add_call r replay d))"
proof -
  show "dock_keeps d (snd (add_call r replay d))" by (rule dock_keeps_frame) (simp add: add_call_def record_turn_def Let_def)
  show "dock_ok (snd (add_call r replay d))"
    using ok by (auto simp: add_call_def record_turn_def dock_ok_def Let_def list_ex_iff)
qed

lemma open_call_ok:
  assumes ok: "dock_ok d" and p: "\<And>r. p = Some r \<Longrightarrow> r \<in> set (dk_calls d)"
  shows "dock_ok (snd (open_call p d))" and "dock_keeps d (snd (open_call p d))"
proof -
  show k: "dock_keeps d (snd (open_call p d))" by (rule dock_keeps_frame) (simp add: open_call_def split: option.splits)
  show "dock_ok (snd (open_call p d))"
  proof (cases "p = None \<or> dk_active d \<noteq> None")
    case False
    then obtain r where r: "p = Some r" "dk_active d = None" by auto
    have ne: "qc_questions (dk_heap d r) \<noteq> []" using ok p [OF r(1)] by (simp add: dock_ok_def)
    show ?thesis
      by (rule dock_ok_keeps [OF ok k])
        (use r ne dock_ok_distinct [OF ok] in \<open>auto simp: open_call_def split: option.splits dest: find_index_Some\<close>)
  qed (use ok in \<open>auto simp: open_call_def split: option.splits\<close>)
qed

lemma hide_dock_ok: "dock_ok d \<Longrightarrow> dock_ok (hide_dock d)" "dock_keeps d (hide_dock d)"
  by (simp_all add: hide_dock_def dock_ok_def dock_keeps_def)

lemma remove_call_ok: "dock_ok d \<Longrightarrow> dock_ok (remove_call r d)" "dock_keeps d (remove_call r d)"
  by (auto simp: remove_call_def dock_ok_def dock_keeps_def distinct_map inj_on_def)

lemma go_rem_range: "0 \<le> a \<Longrightarrow> 0 < n \<Longrightarrow> 0 \<le> go_rem a n \<and> go_rem a n < n \<and> go_rem a n = a mod n"
  by (simp add: go_rem_def go_div_pos minus_mult_div_eq_mod)

lemma move_question_ok:
  assumes ok: "dock_ok d" and act: "dk_active d = Some r" and step: "- int (length (qc_questions (dk_heap d r))) \<le> step"
  shows "\<exists>d'. move_question step d = Some d' \<and> dock_ok d' \<and> dock_keeps d d'"
proof -
  define n where "n = int (length (qc_questions (dk_heap d r)))"
  have i: "0 \<le> dk_index d" "dk_index d < n" using ok act by (simp_all add: dock_ok_def n_def)
  then have "0 \<le> go_rem (dk_index d + step + n) n \<and> go_rem (dk_index d + step + n) n < n"
    using go_rem_range [of "dk_index d + step + n" n] step [folded n_def] by linarith
  with i ok act show ?thesis by (auto simp: move_question_def Let_def n_def [symmetric] dock_ok_def dock_keeps_def)
qed

lemma advance_question_ok:
  assumes ok: "dock_ok d" and act: "dk_active d \<noteq> None"
  shows "\<exists>x d'. advance_question d = Some (x, d') \<and> dock_ok d' \<and> dock_keeps d d'"
proof -
  obtain r where r: "dk_active d = Some r" using act by blast
  with ok have "0 \<le> dk_index d" by (simp add: dock_ok_def)
  then show ?thesis using ok r
    by (auto simp: advance_question_def Let_def dock_ok_def dock_keeps_def split: option.splits)
qed

lemma current_question_ok: "dock_ok d \<Longrightarrow> current_question d = Some (map_option (\<lambda>r. (r, nat (dk_index d))) (dk_active d))"
  by (auto simp: current_question_def dock_ok_def split: option.splits)

lemma answer_question_ok:
  assumes ok: "dock_ok d"
  shows "\<exists>x d'. answer_question a d = Some (x, d') \<and> dock_ok d' \<and> dock_keeps d d'"
proof (cases "pending_call (an_call a) d")
  case None
  with ok show ?thesis by (simp add: answer_question_def)
next
  case (Some r)
  define c where "c = dk_heap d r"
  show ?thesis
  proof (cases "find (\<lambda>i. question_key c (int i) = an_question a) [0..<length (qc_questions c)]")
    case None
    with ok Some show ?thesis by (simp add: answer_question_def c_def)
  next
    case (Some i)
    then have i: "i < length (qc_questions c)" by (auto simp: find_Some_iff)
    define q where "q = qc_questions c ! i"
    define q1 where "q1 = q\<lparr>q_selected := an_choice a, q_editor := (q_editor q)\<lparr>k_snapshot := (k_snapshot (q_editor q))\<lparr>u_draft := an_draft a\<rparr>\<rparr>\<rparr>"
    show ?thesis
    proof (cases "q_outcome q \<noteq> '''' \<or> an_choice a < 0 \<or> int (length (q_choices q)) < an_choice a \<or> q_secret q
        \<or> \<not> an_skip a \<and> an_choice a = int (length (q_choices q)) \<and> d_text (an_draft a) = ''''")
      case True
      with Some \<open>pending_call (an_call a) d = Some r\<close> ok show ?thesis
        by (auto simp: answer_question_def c_def [symmetric] q_def [symmetric] Let_def)
    next
      case False
      then have "question_good q1" by (simp add: q1_def question_good_def)
      then obtain b q' where q': "complete (d_text (an_draft a)) (qc_sync c) (an_skip a) q1 = Some (b, q')"
        "question_keeps q1 q'" "question_good q'" using complete_keeps by blast
      have "question_keeps q q'" using q'(2) False by (simp add: question_keeps_def q1_def)
      with i q'(3) have "call_keeps c (set_question i q' c)" by (intro set_question_keeps) (simp_all add: q_def)
      from dock_ok_set_call [OF ok this [unfolded c_def]]
      have "dock_ok (set_call r (set_question i q' c) d)" "dock_keeps d (set_call r (set_question i q' c) d)" by (simp_all add: c_def)
      moreover have "answer_question a d = Some (Inr (r, i), set_call r (set_question i q' c) d)"
        using Some \<open>pending_call (an_call a) d = Some r\<close> False q'(1)
        unfolding answer_question_def q1_def by (simp add: c_def [symmetric] q_def [symmetric] Let_def)
      ultimately show ?thesis by blast
    qed
  qed
qed

lemma input_question_keeps:
  "0 \<le> i \<Longrightarrow> i \<le> int (length (q_choices q)) \<Longrightarrow> question_good (choose_option i q)"
  "question_good q \<Longrightarrow> question_good (edit_answer b q)" "question_good q \<Longrightarrow> question_good (q\<lparr>q_note := b\<rparr>)"
  "question_keeps q (choose_option i q)" "question_keeps q (edit_answer b q)" "question_keeps q (q\<lparr>q_note := b\<rparr>)"
  by (simp_all add: choose_option_def edit_answer_def question_good_def question_keeps_def Let_def)

lemma apply_input_ok:
  assumes ok: "dock_ok d"
  shows "\<exists>b d'. apply_input x d = Some (b, d') \<and> dock_ok d' \<and> dock_keeps d d'"
proof (cases "dk_active d")
  case None
  then have "apply_input x d = Some (False, d)" by (simp add: apply_input_def)
  with ok show ?thesis by auto
next
  case (Some r)
  define c where "c = dk_heap d r"
  define i where "i = nat (dk_index d)"
  have cur: "current_question d = Some (Some (r, i))" using current_question_ok [OF ok] Some by (simp add: i_def)
  have i: "i < length (qc_questions c)" using ok Some by (auto simp: dock_ok_def i_def c_def)
  have g: "question_good (qc_questions c ! i)" using ok call_good_nth i by (simp add: dock_ok_def c_def)
  have put: "dock_ok (set_call r (set_question i q c) d) \<and> dock_keeps d (set_call r (set_question i q c) d)"
    if "question_keeps (qc_questions c ! i) q" "question_good q" for q
    using dock_ok_set_call [OF ok, of r "set_question i q c"] set_question_keeps [OF i that(1)] that(2) by (simp add: c_def)
  have conf: "dock_ok (d\<lparr>dk_confirm := False\<rparr>)" "dock_keeps d (d\<lparr>dk_confirm := False\<rparr>)"
    using ok by (simp_all add: dock_ok_def dock_keeps_def)
  show ?thesis
  proof (cases "qc_key c \<noteq> in_call x \<or> question_key c (dk_index d) \<noteq> in_question x \<or> qc_resolved c \<or> qc_sent c")
    case True
    with Some ok show ?thesis by (auto simp: apply_input_def c_def [symmetric] Let_def)
  next
    case False
    with Some ok put g conf input_question_keeps cur show ?thesis
      by (cases "in_kind x") (auto simp: apply_input_def c_def [symmetric] Let_def)
  qed
qed

end
