(* ===== verification/Prompt_Runs.thy ===== *)
theory Prompt_Runs
  imports Prompt_Invariant
begin

text \<open>
  Messages and channels keep the invariant of the questions, moving through the channel and
  back returns to the question shown, and what a view may depend on.
\<close>

section \<open>Messages\<close>

lemma apply_candidate_ok:
  assumes ok: "dock_ok (fst s)"
  shows "dock_ok (fst (apply_candidate m p s))" and "dock_keeps (fst s) (fst (apply_candidate m p s))"
proof -
  obtain d cs where s: "s = (d, cs)" by fastforce
  have rc: "call_keeps c (fst (resolve_call ''superseded'' c))" for c by (rule resolve_call_keeps) simp
  have cc: "call_keeps c (snd (commit_call i cl an c))" for c i cl an by (rule commit_call_keeps)
  have ok': "dock_ok d" using ok s by simp
  have "dock_ok (fst (apply_candidate m p s)) \<and> dock_keeps (fst s) (fst (apply_candidate m p s))"
  proof (cases "offered m d p")
    case True
    show ?thesis
    proof (cases "snd p")
      case None
      with True dock_ok_set_call [OF ok' rc, of "fst p"] show ?thesis
        by (cases "resolve_call ''superseded'' (dk_heap d (fst p))") (simp add: s apply_candidate_def Let_def)
    next
      case (Some rep)
      define x where "x = commit_call (rp_index rep) (ms_client m) (rp_answer rep) (dk_heap d (fst p))"
      have "fst (apply_candidate m p s) = set_call (fst p) (snd x) d"
        using True Some by (simp add: s apply_candidate_def Let_def x_def [symmetric] split: prod.split)
      with dock_ok_set_call [OF ok' cc, of "fst p"] show ?thesis by (simp add: s x_def)
    qed
  qed (use ok' in \<open>simp add: s apply_candidate_def\<close>)
  then show "dock_ok (fst (apply_candidate m p s))" and "dock_keeps (fst s) (fst (apply_candidate m p s))" by blast+
qed

lemma apply_candidates_ok:
  "dock_ok (fst s) \<Longrightarrow> dock_ok (fst (fold (apply_candidate m) ps s)) \<and> dock_keeps (fst s) (fst (fold (apply_candidate m) ps s))"
proof (induction ps arbitrary: s)
  case (Cons p ps)
  note A = apply_candidate_ok [OF Cons.prems, of m p]
  from Cons.IH [OF A(1)] A(2) show ?case by (auto intro: dock_keeps_trans)
qed simp

lemma record_turn_ok: "dock_ok (record_turn t d) \<longleftrightarrow> dock_ok d" "dock_keeps d (record_turn t d)"
  by (simp_all add: record_turn_def dock_ok_def dock_keeps_def)

lemma observe_message_ok:
  assumes ok: "dock_ok d"
  shows "dock_ok (snd (observe_message m d))" and "dock_keeps d (snd (observe_message m d))"
proof -
  obtain d1 cs where f: "fold (apply_candidate m) (message_candidates m d) (d, []) = (d1, cs)" by fastforce
  have one: "dock_ok d1" "dock_keeps d d1" using apply_candidates_ok [of "(d, [])" m "message_candidates m d"] ok f by simp_all
  define d2 where "d2 = (if ms_main m \<and> ms_user m \<and> ms_kind m = item_completed then record_turn (ms_turn m) d1 else d1)"
  have two: "dock_ok d2" "dock_keeps d1 d2" using one record_turn_ok by (simp_all add: d2_def)
  have "snd (observe_message m d) = (case ms_call m of None \<Rightarrow> d2
      | Some r \<Rightarrow> if ms_main m then snd (add_call r (ms_history m) d2) else d2)"
    unfolding observe_message_def f prod.case d2_def [symmetric] Let_def by (simp split: option.split prod.split)
  then have "snd (observe_message m d) = d2 \<or> (\<exists>r. snd (observe_message m d) = snd (add_call r (ms_history m) d2))"
    by (cases "ms_call m") auto
  then show "dock_ok (snd (observe_message m d))" and "dock_keeps d (snd (observe_message m d))"
    using two one add_call_ok [OF two(1)] dock_keeps_trans by metis+
qed

section \<open>Channels\<close>

lemma open_positions_in:
  "p \<in> set (open_positions d) \<Longrightarrow> fst p \<in> set (dk_calls d) \<and> snd p < length (qc_questions (dk_heap d (fst p)))"
  by (auto simp: open_positions_def Let_def split: if_splits)

lemma open_positions_distinct: "distinct (dk_calls d) \<Longrightarrow> distinct (open_positions d)"
proof -
  have "distinct (concat (map (\<lambda>r. let c = dk_heap d r in if qc_sent c \<or> qc_resolved c then []
      else map (Pair r) (filter (\<lambda>i. q_outcome (qc_questions c ! i) = '''') [0..<length (qc_questions c)])) rs))"
    if "distinct rs" for rs
    using that by (induction rs) (auto simp: Let_def distinct_map inj_on_def)
  then show "distinct (dk_calls d) \<Longrightarrow> ?thesis" by (simp add: open_positions_def)
qed

lemma last_match_none: "\<forall>p \<in> set ps. \<not> P p \<Longrightarrow> fold (\<lambda>(n, p) at. if P p then n else at) (enumerate k ps) a = a"
  by (induction ps arbitrary: k) simp_all

lemma last_match_range:
  "fold (\<lambda>(n, p) at. if P p then n else at) (enumerate k ps) a = a
    \<or> fold (\<lambda>(n, p) at. if P p then n else at) (enumerate k ps) a < k + length ps"
proof (induction ps arbitrary: k a)
  case (Cons p ps)
  from Cons [of "Suc k" "if P p then k else a"] show ?case by auto
qed simp

lemma last_match_unique:
  "i < length ps \<Longrightarrow> \<forall>j < length ps. P (ps ! j) \<longleftrightarrow> j = i \<Longrightarrow>
    fold (\<lambda>(n, p) at. if P p then n else at) (enumerate k ps) a = k + i"
proof (induction ps arbitrary: i k a)
  case (Cons p ps)
  show ?case
  proof (cases i)
    case 0
    have "\<not> P x" if x: "x \<in> set ps" for x
    proof -
      obtain j where "j < length ps" "x = ps ! j" using x by (auto simp: in_set_conv_nth)
      with Cons.prems(2) 0 show ?thesis by fastforce
    qed
    moreover have "P p" using Cons.prems 0 by fastforce
    ultimately show ?thesis using last_match_none [of ps P "Suc k" k] 0 by simp
  next
    case (Suc i')
    have "\<not> P p" using Cons.prems(2) Suc by fastforce
    moreover have "\<forall>j < length ps. P (ps ! j) \<longleftrightarrow> j = i'" using Cons.prems(2) Suc by fastforce
    ultimately show ?thesis using Cons.IH [of i' "Suc k" a] Cons.prems(1) Suc by simp
  qed
qed simp

lemma channel_position_range: "open_positions d \<noteq> [] \<Longrightarrow> channel_position d < length (open_positions d)"
  using last_match_range [of "shown_position d" 0 "open_positions d" 0] by (auto simp: channel_position_def)

lemma channel_position_shown:
  assumes "distinct (dk_calls d)" and "i < length (open_positions d)" and "shown_position d (open_positions d ! i)"
  shows "channel_position d = i"
proof -
  note dist = open_positions_distinct [OF assms(1)]
  have "shown_position d (open_positions d ! j) \<longleftrightarrow> j = i" if "j < length (open_positions d)" for j
    using assms(2,3) that nth_eq_iff_index_eq [OF dist that assms(2)]
    by (auto simp: shown_position_def prod_eq_iff)
  then show ?thesis using last_match_unique [OF assms(2), of "shown_position d" 0 0] by (simp add: channel_position_def)
qed

definition channel_at :: "nat \<Rightarrow> dock \<Rightarrow> dock" where
  "channel_at i d = d\<lparr>dk_active := Some (fst (open_positions d ! i)), dk_index := int (snd (open_positions d ! i)), dk_confirm := False\<rparr>"

lemma move_channel_at:
  assumes "open_positions d \<noteq> []" and "- int (length (open_positions d)) \<le> step"
  shows "move_channel step d = Some (channel_at (nat ((int (channel_position d) + step) mod int (length (open_positions d)))) d)"
proof -
  define n where "n = int (length (open_positions d))"
  have n: "0 < n" using assms(1) by (simp add: n_def)
  have nn: "0 \<le> int (channel_position d) + step + n" using assms(2) by (simp add: n_def)
  from go_rem_range [OF nn n] have r: "go_rem (int (channel_position d) + step + n) n = (int (channel_position d) + step) mod n" by simp
  have "\<not> (int (channel_position d) + step) mod n < 0" using pos_mod_sign [OF n] by (simp add: not_less)
  with assms(1) r show ?thesis by (simp add: move_channel_def channel_at_def Let_def n_def [symmetric])
qed

lemma move_channel_ok:
  assumes ok: "dock_ok d" and step: "- int (length (open_positions d)) \<le> step"
  shows "\<exists>d'. move_channel step d = Some d' \<and> dock_ok d' \<and> dock_keeps d d'"
proof (cases "open_positions d = []")
  case True
  with ok show ?thesis by (simp add: move_channel_def)
next
  case False
  define i where "i = nat ((int (channel_position d) + step) mod int (length (open_positions d)))"
  have i: "i < length (open_positions d)" using False by (simp add: i_def nat_less_iff)
  note p = open_positions_in [OF nth_mem [OF i]]
  have k: "dock_keeps d (channel_at i d)" by (simp add: channel_at_def dock_keeps_def)
  have "dock_ok (channel_at i d)"
    by (rule dock_ok_keeps [OF ok k]) (use p dock_ok_distinct [OF ok] in \<open>auto simp: channel_at_def\<close>)
  with k move_channel_at [OF False step] show ?thesis by (simp add: i_def)
qed

text \<open>Forth and back.\<close>

lemma channel_at_positions [simp]: "open_positions (channel_at i d) = open_positions d"
  by (simp add: open_positions_def channel_at_def)

lemma move_channel_back:
  assumes ok: "dock_ok d" and i: "i < length (open_positions d)" and shown: "shown_position d (open_positions d ! i)"
    and d': "move_channel 1 d = Some d'"
  shows "\<exists>e. move_channel (- 1) d' = Some e \<and> dk_active e = dk_active d \<and> dk_index e = dk_index d"
proof -
  define n where "n = length (open_positions d)"
  have ne: "open_positions d \<noteq> []" using i by auto
  then have n: "0 < n" by (simp add: n_def)
  define j where "j = nat ((int i + 1) mod int n)"
  have dc: "distinct (dk_calls d)" using dock_ok_distinct [OF ok] .
  have e: "d' = channel_at j d"
    using move_channel_at [OF ne, of 1] d' channel_position_shown [OF dc i shown] by (simp add: j_def n_def)
  have j: "j < n" "int j = (int i + 1) mod int n" using n by (simp_all add: j_def nat_less_iff)
  have dc': "distinct (dk_calls d')" using dc by (simp add: e channel_at_def)
  have sh': "shown_position d' (open_positions d' ! j)" by (simp add: e) (simp add: shown_position_def channel_at_def)
  have pos: "channel_position d' = j" using channel_position_shown [OF dc' _ sh'] j(1) by (simp add: e n_def)
  have "(int j - 1) mod int n = int i mod int n" unfolding j(2) by (simp add: mod_simps)
  then have "nat ((int j + - 1) mod int n) = i" using i by (simp add: n_def)
  then have "move_channel (- 1) d' = Some (channel_at i d')"
    using move_channel_at [of d' "- 1"] ne n pos by (simp add: e n_def Suc_le_eq)
  moreover have "dk_active (channel_at i d') = dk_active d" "dk_index (channel_at i d') = dk_index d"
    using shown by (simp_all add: channel_at_def shown_position_def e [symmetric]) (simp_all add: e channel_at_def open_positions_def)
  ultimately show ?thesis by blast
qed

section \<open>What a view may show\<close>

text \<open>A question without its drafts; a secret or open one also without its answer.\<close>

definition public_question :: "question \<Rightarrow> question" where
  "public_question q = q\<lparr>q_editor := empty_parked,
     q_answer := (if q_secret q \<or> q_outcome q = '''' then [] else q_answer q)\<rparr>"

definition public_call :: "question_call \<Rightarrow> question_call" where
  "public_call c = c\<lparr>qc_questions := map public_question (qc_questions c)\<rparr>"

lemma view_call_public: "view_call (public_call c) = view_call c"
proof -
  have "view_question (public_call c) i = view_question c i" if "i < length (qc_questions c)" for i
    using that by (simp add: view_question_def public_call_def public_question_def question_state_def view_answer_def
        question_key_def Let_def)
  then show ?thesis by (simp add: view_call_def) (simp add: public_call_def)
qed

lemma gaps_public: "gaps (public_call c) = gaps c"
  by (simp add: gaps_def public_call_def filter_map comp_def public_question_def)

definition public_dock :: "dock \<Rightarrow> dock" where
  "public_dock d = d\<lparr>dk_heap := \<lambda>r. public_call (dk_heap d r)\<rparr>"

lemma public_fields [simp]:
  "qc_thread (public_call c) = qc_thread c" "qc_local (public_call c) = qc_local c" "qc_resolved (public_call c) = qc_resolved c"
  "qc_sent (public_call c) = qc_sent c" "q_outcome (public_question q) = q_outcome q"
  by (simp_all add: public_call_def public_question_def)

lemma open_of_public:
  "filter (\<lambda>i. q_outcome (qc_questions (public_call c) ! i) = '''') [0..<length (qc_questions (public_call c))]
    = filter (\<lambda>i. q_outcome (qc_questions c ! i) = '''') [0..<length (qc_questions c)]"
  by (rule filter_cong) (simp_all add: public_call_def)

lemma open_positions_public: "open_positions (public_dock d) = open_positions d"
proof -
  have heap: "dk_heap (public_dock d) r = public_call (dk_heap d r)" "dk_calls (public_dock d) = dk_calls d" for r
    by (simp_all add: public_dock_def)
  show ?thesis unfolding open_positions_def Let_def heap open_of_public public_fields ..
qed

lemma view_public: "view_dock thread (public_dock d) = view_dock thread d" "channel_view thread (public_dock d) = channel_view thread d"
proof -
  have "count_questions thread (public_dock d) = count_questions thread d"
    by (simp add: count_questions_def public_dock_def Let_def) (simp add: public_call_def filter_map comp_def public_question_def cong: if_cong)
  then show one: "view_dock thread (public_dock d) = view_dock thread d"
    by (cases "dk_active d") (simp_all add: view_dock_def public_dock_def view_call_public gaps_public)
  have "shown_position (public_dock d) = shown_position d" by (rule ext) (simp add: shown_position_def public_dock_def)
  then show "channel_view thread (public_dock d) = channel_view thread d"
    by (simp add: channel_view_def open_positions_public channel_position_def one)
qed

end
