(* ===== verification/Prompt_Properties.thy ===== *)
theory Prompt_Properties
  imports Prompt_Runs Composer_Properties
begin

text \<open>
  What holds of the questions in every run of a session: the operations of the adapters in any
  order, with calls that were built before they are added.
\<close>

section \<open>Runs\<close>

text \<open>
  The calls stand in the heap from the start; an operation on a call that was not added yet is
  allowed.  Moves step by at most the number of questions.
\<close>

inductive dock_step :: "dock \<Rightarrow> dock \<Rightarrow> bool" where
  added: "dock_step d (snd (add_call r replay d))"
| opened: "p = None \<or> (\<exists>r \<in> set (dk_calls d). p = Some r) \<Longrightarrow> dock_step d (snd (open_call p d))"
| hidden: "dock_step d (hide_dock d)"
| moved: "dk_active d = Some r \<Longrightarrow> - int (length (qc_questions (dk_heap d r))) \<le> n \<Longrightarrow> move_question n d = Some d' \<Longrightarrow> dock_step d d'"
| removed: "dock_step d (remove_call r d)"
| advanced: "dk_active d \<noteq> None \<Longrightarrow> advance_question d = Some (x, d') \<Longrightarrow> dock_step d d'"
| resolved: "outcome \<noteq> '''' \<Longrightarrow> dock_step d (set_call r (fst (resolve_call outcome (dk_heap d r))) d)"
| rejected: "dock_step d (set_call r (snd (reject_call (dk_heap d r))) d)"
| committed: "dock_step d (set_call r (snd (commit_call i client answer (dk_heap d r))) d)"
| submitted: "dock_step d (set_call r (submitted_call (dk_heap d r)) d)"
| answered: "answer_question a d = Some (x, d') \<Longrightarrow> dock_step d d'"
| input_applied: "apply_input y d = Some (b, d') \<Longrightarrow> dock_step d d'"
| channel_moved: "- int (length (open_positions d)) \<le> n \<Longrightarrow> move_channel n d = Some d' \<Longrightarrow> dock_step d d'"
| observed: "dock_step d (snd (observe_message m d))"

definition new_dock :: "(nat \<Rightarrow> question_call) \<Rightarrow> dock" where
  "new_dock h = \<lparr>dk_heap = h, dk_calls = [], dk_active = None, dk_index = 0, dk_confirm = False, dk_auto_open = False, dk_turns = {}\<rparr>"

lemma dock_step_ok:
  assumes "dock_step d d'" and ok: "dock_ok d"
  shows "dock_ok d' \<and> dock_keeps d d'"
  using assms(1)
proof cases
  case (added r replay)
  with add_call_ok [OF ok] show ?thesis by simp
next
  case (opened p)
  then have "\<And>r. p = Some r \<Longrightarrow> r \<in> set (dk_calls d)" by auto
  with opened open_call_ok [OF ok] show ?thesis by simp
next
  case hidden
  with hide_dock_ok ok show ?thesis by simp
next
  case (moved r n)
  with move_question_ok [OF ok moved(1,2)] show ?thesis by simp
next
  case (removed r)
  with remove_call_ok ok show ?thesis by simp
next
  case (advanced x)
  with advance_question_ok [OF ok advanced(1)] show ?thesis by simp
next
  case (resolved outcome r)
  with dock_ok_set_call [OF ok resolve_call_keeps] show ?thesis by simp
next
  case (rejected r)
  with dock_ok_set_call [OF ok reject_call_keeps] show ?thesis by simp
next
  case (committed r i client answer)
  with dock_ok_set_call [OF ok commit_call_keeps] show ?thesis by simp
next
  case (submitted r)
  with dock_ok_set_call [OF ok submitted_call_keeps] show ?thesis by simp
next
  case (answered a x)
  with answer_question_ok [OF ok, of a] show ?thesis by simp
next
  case (input_applied y b)
  with apply_input_ok [OF ok, of y] show ?thesis by simp
next
  case (channel_moved n)
  with move_channel_ok [OF ok channel_moved(1)] show ?thesis by simp
next
  case (observed m)
  with observe_message_ok [OF ok] show ?thesis by simp
qed

lemma dock_steps_ok: "dock_step\<^sup>*\<^sup>* d d' \<Longrightarrow> dock_ok d \<Longrightarrow> dock_ok d' \<and> dock_keeps d d'"
proof (induction rule: rtranclp_induct)
  case (step y z)
  with dock_step_ok [of y z] dock_keeps_trans [of d y z] show ?case by blast
qed simp

lemma new_dock_ok: "\<forall>r. call_good (h r) \<Longrightarrow> dock_ok (new_dock h)"
  by (simp add: new_dock_def dock_ok_def)

section \<open>Properties\<close>

text \<open>
  C16: A question is settled once.  Whatever happens to the questions of a session, an outcome
  that was set stays what it is, a resolved call stays resolved and all its questions have
  outcomes, and the active question exists, so reading it, moving by one, advancing and
  answering never panic.
\<close>

theorem questions_settle_once:
  assumes "\<forall>r. call_good (h r)" and "dock_step\<^sup>*\<^sup>* (new_dock h) d" and "dock_step\<^sup>*\<^sup>* d d'"
  shows "(\<forall>r i. i < length (qc_questions (dk_heap d r)) \<longrightarrow> q_outcome (qc_questions (dk_heap d r) ! i) \<noteq> '''' \<longrightarrow>
        q_outcome (qc_questions (dk_heap d' r) ! i) = q_outcome (qc_questions (dk_heap d r) ! i))
    \<and> (\<forall>r. qc_resolved (dk_heap d r) \<longrightarrow> qc_resolved (dk_heap d' r) \<and> (\<forall>q \<in> set (qc_questions (dk_heap d r)). q_outcome q \<noteq> ''''))
    \<and> current_question d' \<noteq> None
    \<and> (dk_active d' \<noteq> None \<longrightarrow> move_question 1 d' \<noteq> None \<and> move_question (- 1) d' \<noteq> None \<and> advance_question d' \<noteq> None)
    \<and> (\<forall>a. answer_question a d' \<noteq> None) \<and> (\<forall>x. apply_input x d' \<noteq> None)"
proof -
  have d: "dock_ok d" using dock_steps_ok [OF assms(2) new_dock_ok [OF assms(1)]] by blast
  have d': "dock_ok d'" "dock_keeps d d'" using dock_steps_ok [OF assms(3) d] by blast+
  have k: "call_keeps (dk_heap d r) (dk_heap d' r)" and g: "call_good (dk_heap d r)" for r
    using d d'(2) by (simp_all add: dock_keeps_def dock_ok_def)
  have "move_question n d' \<noteq> None" if act: "dk_active d' = Some r" and n: "- 1 \<le> n" for r n
  proof -
    have "0 < length (qc_questions (dk_heap d' r))" using d'(1) act by (auto simp: dock_ok_def)
    with n have "- int (length (qc_questions (dk_heap d' r))) \<le> n" by linarith
    from move_question_ok [OF d'(1) act this] show ?thesis by auto
  qed
  then have moves: "dk_active d' \<noteq> None \<longrightarrow> move_question 1 d' \<noteq> None \<and> move_question (- 1) d' \<noteq> None \<and> advance_question d' \<noteq> None"
    using advance_question_ok [OF d'(1)] by fastforce
  have cur: "current_question d' \<noteq> None" using current_question_ok [OF d'(1)] by simp
  have calls: "\<forall>a. answer_question a d' \<noteq> None" "\<forall>x. apply_input x d' \<noteq> None"
    using answer_question_ok [OF d'(1)] apply_input_ok [OF d'(1)] by (metis option.distinct(1))+
  have settled: "\<forall>r i. i < length (qc_questions (dk_heap d r)) \<longrightarrow> q_outcome (qc_questions (dk_heap d r) ! i) \<noteq> '''' \<longrightarrow>
      q_outcome (qc_questions (dk_heap d' r) ! i) = q_outcome (qc_questions (dk_heap d r) ! i)"
    using call_keeps_questions(2) [OF k] unfolding question_keeps_def by blast
  have "\<forall>r. qc_resolved (dk_heap d r) \<longrightarrow> qc_resolved (dk_heap d' r) \<and> (\<forall>q \<in> set (qc_questions (dk_heap d r)). q_outcome q \<noteq> '''')"
    using k g unfolding call_keeps_def call_good_def list_all_iff by blast
  with settled cur moves calls show ?thesis by (intro conjI)
qed

text \<open>Two calls for the witnesses.\<close>

definition demo_question :: "string \<Rightarrow> question" where
  "demo_question s = \<lparr>q_name = ''q'', q_header = '''', q_question = s, q_secret = False, q_choices = [],
     q_editor = empty_parked, q_selected = 0, q_note = False, q_done = False, q_skipped = False, q_answer = [], q_outcome = ''''\<rparr>"

definition demo_call :: "nat \<Rightarrow> question_call" where
  "demo_call r = \<lparr>qc_key = nat_dec r, qc_thread = ''t'', qc_turn = ''u'', qc_item = ''i'', qc_sync = False, qc_local = False,
     qc_questions = [demo_question ''one?'', demo_question ''two?''], qc_sent = False, qc_resolved = False, qc_submission = ''''\<rparr>"

lemma demo_call_good: "\<forall>r. call_good (demo_call r)"
  by (simp add: call_good_def demo_call_def demo_question_def question_good_def)

theorem questions_settle_once_witness:
  "q_outcome (qc_questions (dk_heap (snd (observe_message
      \<lparr>ms_thread = ''t'', ms_turn = ''v'', ms_item = '''', ms_kind = item_completed, ms_main = True, ms_user = True, ms_history = False,
       ms_call = None, ms_client = '''', ms_has_replies = False, ms_replies = []\<rparr>
      (set_call 1 (snd (commit_call 0 '''' ''yes'' (demo_call 1))) (new_dock demo_call)))) 1) ! 0) = ''answered elsewhere''"
proof -
  define d where "d = set_call 1 (snd (commit_call 0 '''' ''yes'' (demo_call 1))) (new_dock demo_call)"
  have "dock_step (new_dock demo_call) d"
    unfolding d_def using committed [of "new_dock demo_call" 1 0 "''''" "''yes''"] by (simp add: new_dock_def)
  then have one: "dock_step\<^sup>*\<^sup>* (new_dock demo_call) d" by blast
  have "dock_step\<^sup>*\<^sup>* d (snd (observe_message m d))" for m using observed by blast
  note P = questions_settle_once [OF demo_call_good one this]
  have facts: "0 < length (qc_questions (dk_heap d 1))" "q_outcome (qc_questions (dk_heap d 1) ! 0) = ''answered elsewhere''"
    unfolding d_def by code_simp+
  then show ?thesis unfolding d_def [symmetric] using P by simp
qed

text \<open>
  The preflight of a message is exact.  An active call has to be parked before a message
  precisely when observing the message changes that call, although the message is applied
  call by call and each change is visible to the next test.
\<close>

lemma parking_exact:
  "needs_parking m d \<longleftrightarrow> (\<exists>r. dk_active d = Some r \<and> r \<in> ch_call ` set (mc_changed (fst (observe_message m d))))"
  by (rule needs_parking_changed)

text \<open>
  C17: Views keep secrets.  Two docks that differ only in drafts, in answers to secret questions
  and in answers that are not settled have the same views, of one thread and of the channel.
\<close>

theorem views_keep_secrets:
  assumes "public_dock d = public_dock d'"
  shows "view_dock thread d = view_dock thread d' \<and> channel_view thread d = channel_view thread d'"
  using view_public [of thread d] view_public [of thread d'] assms by simp

theorem views_keep_secrets_witness:
  "view_dock ''t'' (set_call 1 (set_question 0 ((demo_question ''one?'')\<lparr>q_secret := True, q_answer := [''pin'']\<rparr>) (demo_call 1)) (new_dock demo_call))
    = view_dock ''t'' (set_call 1 (set_question 0 ((demo_question ''one?'')\<lparr>q_secret := True\<rparr>) (demo_call 1)) (new_dock demo_call))"
proof -
  have "public_call (set_question 0 ((demo_question ''one?'')\<lparr>q_secret := True, q_answer := [''pin'']\<rparr>) (demo_call 1))
      = public_call (set_question 0 ((demo_question ''one?'')\<lparr>q_secret := True\<rparr>) (demo_call 1))" by code_simp
  then show ?thesis
    by (intro conjunct1 [OF views_keep_secrets]) (simp add: public_dock_def set_call_def fun_eq_iff)
qed

text \<open>
  Moving to the next question of the channel and back shows the same question again.
\<close>

lemma channel_round_trip:
  assumes "\<forall>r. call_good (h r)" and "dock_step\<^sup>*\<^sup>* (new_dock h) d"
    and "i < length (open_positions d)" and "shown_position d (open_positions d ! i)"
  shows "\<exists>d1 d2. move_channel 1 d = Some d1 \<and> move_channel (- 1) d1 = Some d2 \<and> dk_active d2 = dk_active d \<and> dk_index d2 = dk_index d"
proof -
  have d: "dock_ok d" using dock_steps_ok [OF assms(2) new_dock_ok [OF assms(1)]] by blast
  obtain d1 where "move_channel 1 d = Some d1" using move_channel_ok [OF d, of 1] by auto
  with move_channel_back [OF d assms(3,4)] show ?thesis by blast
qed

end
