(* ===== verification/Prompt_Approvals.thy ===== *)
theory Prompt_Approvals
  imports Prompt_Questions
begin

text \<open>
  Approvals that wait for the user (\<open>modules/conversation/prompt/approvals.go\<close>, \<open>input.go\<close>).  Approvals are
  shared by pointer, as calls are.
\<close>

record choice =
  cc_key :: int
  cc_label :: string
  cc_approve :: bool
  cc_session :: bool
  cc_deny :: bool
  cc_outcome :: string

record approval =
  aq_key :: string
  aq_thread :: string
  aq_turn :: string
  aq_item :: string
  aq_title :: string
  aq_subject :: string
  aq_details :: "string list"
  aq_choices :: "choice list"
  aq_selected :: int
  aq_editor :: parked
  aq_outcome :: string

record approvals =
  av_heap :: "nat \<Rightarrow> approval"
  av_pending :: "nat list"
  av_open :: bool
  av_auto_open :: bool
  av_next :: "64 word"

definition denial_choice :: "approval \<Rightarrow> int" where
  "denial_choice a = (case find_index cc_deny (aq_choices a) of None \<Rightarrow> - 1 | Some i \<Rightarrow> int i)"

definition local_key :: "64 word \<Rightarrow> string" where
  "local_key n = ''local/'' @ uint64_dec n"

definition add_approval :: "nat \<Rightarrow> approvals \<Rightarrow> approvals" where
  "add_approval r m =
     (let a = av_heap m r;
          m1 = (if aq_key a = '''' then m\<lparr>av_next := av_next m + 1, av_heap := (av_heap m)(r := a\<lparr>aq_key := local_key (av_next m + 1)\<rparr>)\<rparr> else m)
      in m1\<lparr>av_pending := av_pending m1 @ [r], av_auto_open := True\<rparr>)"

text \<open>The request is the first of its name; only a choice it offers is taken.\<close>

definition decision :: "string \<Rightarrow> int \<Rightarrow> approvals \<Rightarrow> (nat \<times> choice) option" where
  "decision key c m =
     (case find (\<lambda>r. aq_key (av_heap m r) = key) (av_pending m) of
        None \<Rightarrow> None
      | Some r \<Rightarrow> map_option (Pair r) (find (\<lambda>x. cc_key x = c) (aq_choices (av_heap m r))))"

definition remove_approval :: "nat \<Rightarrow> approvals \<Rightarrow> bool \<times> approvals" where
  "remove_approval r m =
     (if r \<in> set (av_pending m) then (True, m\<lparr>av_pending := remove1 r (av_pending m)\<rparr>) else (False, m))"

definition approvals_should_open :: "bool \<Rightarrow> bool \<Rightarrow> approvals \<Rightarrow> bool" where
  "approvals_should_open vacant question_open m \<longleftrightarrow>
     av_auto_open m \<and> \<not> av_open m \<and> av_pending m \<noteq> [] \<and> \<not> question_open \<and> vacant"

definition show_approvals :: "approvals \<Rightarrow> bool \<times> approvals" where
  "show_approvals m = (if av_pending m = [] then (False, m) else (True, m\<lparr>av_open := True\<rparr>))"

definition hide_approvals :: "approvals \<Rightarrow> approvals" where
  "hide_approvals m = m\<lparr>av_open := False\<rparr>"

definition move_approval :: "int \<Rightarrow> approval \<Rightarrow> approval option" where
  "move_approval step a =
     (let n = int (length (aq_choices a))
      in if n = 0 then None else Some (a\<lparr>aq_selected := go_rem (aq_selected a + step + n) n\<rparr>))"

record approval_input =
  ai_request :: string
  ai_select :: bool
  ai_choice :: int

definition apply_approval_input :: "approval_input \<Rightarrow> approvals \<Rightarrow> bool \<times> approvals" where
  "apply_approval_input x m =
     (case av_pending m of
        [] \<Rightarrow> (False, m)
      | r # rs \<Rightarrow>
          let a = av_heap m r
          in if \<not> av_open m \<or> aq_key a \<noteq> ai_request x then (False, m)
             else if ai_select x then
               (case find_index (\<lambda>c. cc_key c = ai_choice x) (aq_choices a) of
                  None \<Rightarrow> (False, m)
                | Some i \<Rightarrow> (True, m\<lparr>av_heap := (av_heap m)(r := a\<lparr>aq_selected := int i\<rparr>)\<rparr>))
             else (True, m))"

section \<open>Views\<close>

record approval_view =
  pv_selected :: int
  pv_key :: string
  pv_thread :: string
  pv_turn :: string
  pv_item :: string
  pv_title :: string
  pv_subject :: string
  pv_outcome :: string
  pv_details :: "string list"
  pv_choices :: "choice list"

record approval_dock_view =
  pd_count :: nat
  pd_open :: bool
  pd_reason :: bool
  pd_approval :: approval_view

definition view_approval :: "approval \<Rightarrow> approval_view" where
  "view_approval a = \<lparr>pv_selected = aq_selected a, pv_key = aq_key a, pv_thread = aq_thread a, pv_turn = aq_turn a,
     pv_item = aq_item a, pv_title = aq_title a, pv_subject = aq_subject a, pv_outcome = aq_outcome a,
     pv_details = aq_details a, pv_choices = aq_choices a\<rparr>"

definition empty_approval_view :: approval_view where
  "empty_approval_view = \<lparr>pv_selected = 0, pv_key = '''', pv_thread = '''', pv_turn = '''', pv_item = '''', pv_title = '''',
     pv_subject = '''', pv_outcome = '''', pv_details = [], pv_choices = []\<rparr>"

definition view_approvals :: "approvals \<Rightarrow> approval_dock_view" where
  "view_approvals m =
     (case av_pending m of
        [] \<Rightarrow> \<lparr>pd_count = 0, pd_open = av_open m, pd_reason = False, pd_approval = empty_approval_view\<rparr>
      | r # rs \<Rightarrow> \<lparr>pd_count = length (av_pending m), pd_open = av_open m, pd_reason = 0 \<le> denial_choice (av_heap m r),
          pd_approval = view_approval (av_heap m r)\<rparr>)"

section \<open>Selections stay in range\<close>

definition approval_ok :: "approval \<Rightarrow> bool" where
  "approval_ok a \<longleftrightarrow> 0 \<le> aq_selected a \<and> (aq_choices a \<noteq> [] \<longrightarrow> aq_selected a < int (length (aq_choices a)))"

lemma move_approval_ok:
  assumes "approval_ok a" and "aq_choices a \<noteq> []" and "- int (length (aq_choices a)) \<le> step"
  shows "\<exists>a'. move_approval step a = Some a' \<and> approval_ok a' \<and> aq_choices a' = aq_choices a"
proof -
  have "0 \<le> aq_selected a + step + int (length (aq_choices a))" using assms by (simp add: approval_ok_def)
  moreover have "0 < int (length (aq_choices a))" using assms(2) by simp
  ultimately have "0 \<le> go_rem (aq_selected a + step + int (length (aq_choices a))) (int (length (aq_choices a)))
      \<and> go_rem (aq_selected a + step + int (length (aq_choices a))) (int (length (aq_choices a))) < int (length (aq_choices a))"
    by (simp add: go_rem_def go_div_pos minus_mult_div_eq_mod)
  with assms(2) show ?thesis by (auto simp: move_approval_def approval_ok_def Let_def)
qed

lemma apply_approval_input_ok:
  assumes "\<forall>r. approval_ok (av_heap m r)"
  shows "\<forall>r. approval_ok (av_heap (snd (apply_approval_input x m)) r)"
  using assms find_index_Some [of _ "aq_choices _"]
  by (auto simp: apply_approval_input_def Let_def approval_ok_def split: list.splits option.splits)

text \<open>A decision is about a pending request and a choice it offers; a removed request takes none.\<close>

lemma decision_offered:
  assumes "decision key c m = Some (r, x)"
  shows "r \<in> set (av_pending m)" and "aq_key (av_heap m r) = key" and "x \<in> set (aq_choices (av_heap m r))" and "cc_key x = c"
  using assms by (auto simp: decision_def find_Some_iff split: option.splits)

lemma decision_removed:
  assumes "distinct (map (\<lambda>r. aq_key (av_heap m r)) (av_pending m))" and "decision key c m = Some (r, x)"
  shows "decision key c' (snd (remove_approval r m)) = None"
proof -
  note D = decision_offered [OF assms(2)]
  have "aq_key (av_heap m p) \<noteq> key" if "p \<in> set (av_pending m)" "p \<noteq> r" for p
    using assms(1) D(1,2) that by (auto simp: distinct_map inj_on_def)
  moreover have "distinct (av_pending m)" using assms(1) by (simp add: distinct_map)
  ultimately have "find (\<lambda>p. aq_key (av_heap m p) = key) (remove1 r (av_pending m)) = None"
    by (auto simp: find_None_iff)
  with D(1) show ?thesis by (simp add: remove_approval_def decision_def)
qed

text \<open>Requests without a name get names of their own.\<close>

lemma local_key_injective: "local_key a = local_key b \<longleftrightarrow> a = b"
proof -
  have "nat_dec m = nat_dec n \<longleftrightarrow> m = n" for m n using nat_dec_digits by metis
  then show ?thesis by (simp add: local_key_def uint64_dec_def word_unat_eq_iff)
qed

end
