(* ===== verification/Reload_Metadata.thy ===== *)
theory Reload_Metadata
  imports Strings
begin

text \<open>
  Reload metadata in answers (\<open>modules/agentguidance/compact/metadata.go\<close>): a model ends a
  summary with a block of reload metadata.  A completed answer is shown without a terminal
  block; a streamed answer withholds what may become one.  Strings are byte strings.
\<close>

section \<open>Searching\<close>

text \<open>\<open>strings.LastIndex\<close> and \<open>strings.CutLast\<close>.\<close>

fun last_index_of :: "string \<Rightarrow> string \<Rightarrow> nat option" where
  "last_index_of sep [] = (if sep = [] then Some 0 else None)"
| "last_index_of sep (c # cs) =
     (case last_index_of sep cs of
        Some i \<Rightarrow> Some (Suc i)
      | None \<Rightarrow> if prefix sep (c # cs) then Some 0 else None)"

definition cut_last :: "string \<Rightarrow> string \<Rightarrow> string \<times> string \<times> bool" where
  "cut_last s sep = (case last_index_of sep s of None \<Rightarrow> (s, '''', False)
     | Some i \<Rightarrow> (take i s, drop (i + length sep) s, True))"

definition only_space :: "string \<Rightarrow> bool" where
  "only_space s \<longleftrightarrow> trim_space s = ''''"

section \<open>Completed answers\<close>

definition reload_start :: string where
  "reload_start = ''<mekugi-reload-v1>''"

definition reload_end :: string where
  "reload_end = ''</mekugi-reload-v1>''"

definition reload_marker :: string where
  "reload_marker = newline # reload_start"

text \<open>The handover and the metadata of a text that ends with a block.\<close>

definition split_compact_reload :: "string \<Rightarrow> (string \<times> string) option" where
  "split_compact_reload s =
     (case cut_last s reload_marker of (handoff, rest, found) \<Rightarrow>
      if \<not> found then None
      else let t = trim_space rest
           in if suffix reload_end t then Some (handoff @ [newline], take (length t - length reload_end) t) else None)"

definition reload_text :: "string \<Rightarrow> string" where
  "reload_text s =
     (case split_compact_reload s of
        Some (body, _) \<Rightarrow> body
      | None \<Rightarrow>
          (case cut_last s reload_marker of (body, rest, found) \<Rightarrow>
           if found \<and> \<not> contains rest reload_end then body @ [newline]
           else (case cut_last s [newline] of (before, tail, broken) \<Rightarrow>
                 if broken \<and> prefix ''<mekugi-'' tail \<and> prefix tail reload_start then before @ [newline] else s)))"

section \<open>Streamed answers\<close>

record reload_stream =
  rs_pending :: string
  rs_hidden :: bool

definition new_stream :: reload_stream where
  "new_stream = \<lparr>rs_pending = '''', rs_hidden = False\<rparr>"

text \<open>The longest end of the text, up to the given length, that may grow into the marker.\<close>

fun held_end :: "string \<Rightarrow> nat \<Rightarrow> nat" where
  "held_end p 0 = 0"
| "held_end p (Suc k) = (if prefix (drop (length p - Suc k) p) reload_marker then Suc k else held_end p k)"

lemma cut_shorter:
  "cut s sep = (before, after, True) \<Longrightarrow> sep \<noteq> '''' \<Longrightarrow> s = before @ sep @ after"
proof -
  have "s = take i s @ sep @ drop (i + length sep) s" if "index_of sep s = Some i" for i
    using that
  proof (induction sep s arbitrary: i rule: index_of.induct)
    case (2 sep c cs)
    show ?case
    proof (cases "prefix sep (c # cs)")
      case True
      with 2 show ?thesis by (auto simp: prefix_def)
    next
      case False
      with 2 show ?thesis by (auto split: if_splits)
    qed
  qed (auto split: if_splits)
  then show "cut s sep = (before, after, True) \<Longrightarrow> sep \<noteq> '''' \<Longrightarrow> s = before @ sep @ after"
    by (auto simp: cut_def split: option.splits)
qed

lemma cut_end_length: "(before, after, True) = cut p reload_end \<Longrightarrow> length after < length p"
  using cut_shorter [of p reload_end before after] by (simp add: reload_end_def)

lemma cut_marker_length: "(before, after, True) = cut p reload_marker \<Longrightarrow> length reload_marker + length after \<le> length p"
  using cut_shorter [of p reload_marker before after] by (simp add: reload_marker_def)

text \<open>What a push shows of the pending text, and the state it leaves.\<close>

function push_pending :: "string \<Rightarrow> bool \<Rightarrow> string \<times> reload_stream" where
  "push_pending p hidden =
     (if hidden then
        (case cut p reload_end of (before, after, closed) \<Rightarrow>
         if \<not> closed \<or> only_space after then ('''', \<lparr>rs_pending = p, rs_hidden = True\<rparr>)
         else case push_pending after False of (out, s) \<Rightarrow> (before @ reload_end @ out, s))
      else
        (case cut p reload_marker of (before, after, found) \<Rightarrow>
         if found then case push_pending (reload_marker @ after) True of (out, s) \<Rightarrow> (before @ out, s)
         else let k = held_end p (min (length p) (length reload_marker - 1))
              in (take (length p - k) p, \<lparr>rs_pending = drop (length p - k) p, rs_hidden = False\<rparr>)))"
  by pat_completeness auto

termination
  by (relation "measure (\<lambda>(p, hidden). 2 * length p + (if hidden then 0 else 1))")
    (auto dest!: cut_end_length cut_marker_length)

declare push_pending.simps [simp del]

definition push :: "string \<Rightarrow> reload_stream \<Rightarrow> string \<times> reload_stream" where
  "push delta s = push_pending (rs_pending s @ delta) (rs_hidden s)"

definition push_all :: "string list \<Rightarrow> string \<times> reload_stream" where
  "push_all ds = fold (\<lambda>d (out, s). case push d s of (v, s') \<Rightarrow> (out @ v, s')) ds ('''', new_stream)"


end
