(* ===== verification/Transcript_Reducer.thy ===== *)
theory Transcript_Reducer
  imports Playback Reload_Metadata
begin

text \<open>
  The transcript reducer (\<open>modules/conversation/transcript/reducer.go\<close>): public text events of a turn
  become updates of the feed.  A thread keeps the placeholder it shows before reasoning starts
  and the number of reasoning items that run; a turn keeps their texts and start times, and
  completed items as empty tombstones.  The stores of threads and turns belong to the
  application: the operations take and return the states of one thread and one turn.  Times
  are nanoseconds, zero is the zero time; maps are association lists.
\<close>

section \<open>Data\<close>

record item_ref =
  ref_thread :: string
  ref_turn :: string
  ref_item :: string

record text_item =
  ti_ref :: item_ref
  ti_type :: string
  ti_text :: string
  ti_status :: string
  ti_summary :: "string list"
  ti_async_question :: bool
  ti_final :: bool

record text_event =
  te_at :: int
  te_kind :: string
  te_item :: text_item
  te_delta :: string

record text_update =
  tx_ref :: item_ref
  tx_replaces :: string
  tx_kind :: string
  tx_phase :: string
  tx_text :: string
  tx_status :: string
  tx_observed :: int
  tx_completed :: int
  tx_thought :: int
  tx_live :: bool
  tx_sequence :: "64 word"

record thread_state =
  th_pending :: "string \<times> int"
  th_thinking :: int

record turn_state =
  tu_reasoning :: "(string \<times> string) list"
  tu_thinking :: "(string \<times> int) list"
  tu_message :: text_update
  tu_final :: bool

definition zero_update :: text_update where
  "zero_update = \<lparr>tx_ref = \<lparr>ref_thread = '''', ref_turn = '''', ref_item = ''''\<rparr>, tx_replaces = '''', tx_kind = '''', tx_phase = '''',
     tx_text = '''', tx_status = '''', tx_observed = 0, tx_completed = 0, tx_thought = 0, tx_live = False, tx_sequence = 0\<rparr>"

definition new_thread :: thread_state where
  "new_thread = \<lparr>th_pending = ('''', 0), th_thinking = 0\<rparr>"

definition new_turn :: turn_state where
  "new_turn = \<lparr>tu_reasoning = [], tu_thinking = [], tu_message = zero_update, tu_final = False\<rparr>"

definition item_started_kind :: string where
  "item_started_kind = ''item/started''"

definition item_completed_kind :: string where
  "item_completed_kind = ''item/completed''"

definition agent_delta_kind :: string where
  "agent_delta_kind = ''item/agentMessage/delta''"

definition reasoning_delta_kind :: string where
  "reasoning_delta_kind = ''item/reasoning/summaryTextDelta''"

definition reasoning_part_kind :: string where
  "reasoning_part_kind = ''item/reasoning/summaryPartAdded''"

section \<open>Placeholders\<close>

definition drop_pending :: "string \<Rightarrow> thread_state \<Rightarrow> text_update list \<times> thread_state" where
  "drop_pending thread th =
     (if fst (th_pending th) = '''' then ([], th)
      else ([zero_update\<lparr>tx_ref := \<lparr>ref_thread = thread, ref_turn = '''', ref_item = fst (th_pending th)\<rparr>,
               tx_kind := ''reasoning'', tx_phase := ''discarded''\<rparr>], th\<lparr>th_pending := ('''', 0)\<rparr>))"

definition placeholder :: "64 word \<Rightarrow> string" where
  "placeholder n = ''thinking:'' @ uint64_dec n"

definition provider_started :: "string \<Rightarrow> int \<Rightarrow> 64 word \<times> thread_state \<Rightarrow> text_update list \<times> 64 word \<times> thread_state" where
  "provider_started thread at s =
     (case s of (sq, th) \<Rightarrow>
      if th_thinking th \<noteq> 0 then ([], sq, th)
      else case drop_pending thread th of (us, th1) \<Rightarrow>
        let item = placeholder (sq + 1)
        in (us @ [zero_update\<lparr>tx_ref := \<lparr>ref_thread = thread, ref_turn = '''', ref_item = item\<rparr>,
               tx_kind := ''reasoning'', tx_phase := ''summary'', tx_observed := at, tx_live := True\<rparr>],
            sq + 1, th1\<lparr>th_pending := (item, at)\<rparr>))"

section \<open>Reasoning\<close>

text \<open>An item starts once; it takes the time and the place of the placeholder.\<close>

definition start_thinking :: "text_update \<Rightarrow> int \<Rightarrow> thread_state \<times> turn_state \<Rightarrow> text_update \<times> thread_state \<times> turn_state" where
  "start_thinking u at s =
     (case s of (th, t) \<Rightarrow>
      let k = ref_item (tx_ref u)
      in if alist_get (tu_thinking t) k \<noteq> None then (u, th, t)
         else let th1 = th\<lparr>th_thinking := th_thinking th + 1\<rparr>; p = th_pending th
              in if fst p \<noteq> ''''
                 then (u\<lparr>tx_replaces := fst p\<rparr>, th1\<lparr>th_pending := ('''', 0)\<rparr>, t\<lparr>tu_thinking := alist_put k (snd p) (tu_thinking t)\<rparr>)
                 else (u, th1, t\<lparr>tu_thinking := alist_put k at (tu_thinking t)\<rparr>))"

definition stop_thinking :: "string \<Rightarrow> thread_state \<times> turn_state \<Rightarrow> thread_state \<times> turn_state" where
  "stop_thinking k s =
     (case s of (th, t) \<Rightarrow> (th\<lparr>th_thinking := th_thinking th - 1\<rparr>, t\<lparr>tu_thinking := AList.delete k (tu_thinking t)\<rparr>))"

text \<open>A completed item is in the texts but does not run.\<close>

definition tombstone :: "string \<Rightarrow> turn_state \<Rightarrow> bool" where
  "tombstone k t \<longleftrightarrow> alist_get (tu_reasoning t) k \<noteq> None \<and> alist_get (tu_thinking t) k = None"

definition reasoning_text :: "turn_state \<Rightarrow> string \<Rightarrow> string" where
  "reasoning_text t k = alist_zero '''' (tu_reasoning t) k"

definition reasoning_part :: "text_event \<Rightarrow> turn_state \<Rightarrow> turn_state" where
  "reasoning_part e t =
     (let k = ref_item (ti_ref (te_item e)); s = reasoning_text t k
      in if tombstone k t \<or> s = '''' then t
         else t\<lparr>tu_reasoning := alist_put k (s @ [newline, newline]) (tu_reasoning t)\<rparr>)"

definition reasoning_delta :: "text_event \<Rightarrow> thread_state \<times> turn_state \<Rightarrow> text_update list \<times> thread_state \<times> turn_state" where
  "reasoning_delta e s =
     (case s of (th, t) \<Rightarrow>
      let k = ref_item (ti_ref (te_item e))
      in if tombstone k t then ([], th, t)
         else let body = reasoning_text t k @ te_delta e;
                  t1 = t\<lparr>tu_reasoning := alist_put k body (tu_reasoning t)\<rparr>
              in case start_thinking (zero_update\<lparr>tx_ref := ti_ref (te_item e), tx_kind := ''reasoning'', tx_phase := ''summary'',
                     tx_text := body, tx_observed := te_at e, tx_live := True\<rparr>) (te_at e) (th, t1) of
                   (u, s') \<Rightarrow> ([u], s'))"

section \<open>Items\<close>

definition message_kind :: "text_item \<Rightarrow> bool \<Rightarrow> string" where
  "message_kind item main =
     (if ti_async_question item \<or> \<not> main \<and> only_space (ti_text item) then ''''
      else if \<not> main \<and> ti_final item then ''final'' else ''text'')"

text \<open>A completed reasoning item; \<open>None\<close> when it leaves nothing but a tombstone.\<close>

definition complete_reasoning :: "int \<Rightarrow> text_update \<Rightarrow> thread_state \<times> turn_state \<Rightarrow> text_update option \<times> thread_state \<times> turn_state" where
  "complete_reasoning at u s =
     (case s of (th, t) \<Rightarrow>
      let k = ref_item (tx_ref u); p = th_pending th;
          (u1, th1) = (if alist_get (tu_reasoning t) k = None \<and> fst p \<noteq> '''' \<and> \<not> only_space (tx_text u)
             then (u\<lparr>tx_thought := time_sub at (snd p), tx_replaces := fst p\<rparr>, th\<lparr>th_pending := ('''', 0)\<rparr>) else (u, th))
      in case alist_get (tu_thinking t) k of
           Some began \<Rightarrow>
             let u2 = u1\<lparr>tx_thought := time_sub at began, tx_text := (if only_space (tx_text u1) then reasoning_text t k else tx_text u1)\<rparr>
             in (Some (if only_space (tx_text u2) then u2\<lparr>tx_phase := ''discarded''\<rparr> else u2), stop_thinking k (th1, t))
         | None \<Rightarrow>
             if only_space (tx_text u1) then (None, th1, t\<lparr>tu_reasoning := alist_put k '''' (tu_reasoning t)\<rparr>)
             else (Some u1, th1, t))"

definition reasoning_item :: "text_event \<Rightarrow> bool \<Rightarrow> text_update \<Rightarrow> thread_state \<times> turn_state \<Rightarrow> text_update list \<times> thread_state \<times> turn_state" where
  "reasoning_item e completed u s =
     (let u0 = u\<lparr>tx_kind := ''reasoning'', tx_text := join [newline, newline] (ti_summary (te_item e))\<rparr>;
          k = ref_item (tx_ref u)
      in case (if completed then complete_reasoning (te_at e) u0 s
               else case start_thinking u0 (te_at e) s of (u1, s') \<Rightarrow> (Some u1, s')) of
           (None, s') \<Rightarrow> ([], s')
         | (Some u1, th, t) \<Rightarrow>
             (if completed \<or> \<not> only_space (tx_text u1) \<or> tx_replaces u1 \<noteq> '''' then [u1] else [],
              th, t\<lparr>tu_reasoning := alist_put k (if completed then '''' else tx_text u1) (tu_reasoning t)\<rparr>))"

definition agent_item :: "text_event \<Rightarrow> bool \<Rightarrow> bool \<Rightarrow> text_update \<Rightarrow> turn_state \<Rightarrow> text_update list \<times> turn_state" where
  "agent_item e main completed u t =
     (if \<not> main \<and> \<not> completed then ([], t)
      else let k = message_kind (te_item e) main
           in if k = '''' then ([], t)
              else if main then ([u\<lparr>tx_kind := k\<rparr>], t)
              else let u1 = u\<lparr>tx_kind := k, tx_phase := (if k = ''final'' then ''item/completed'' else ''message'')\<rparr>
                   in ([u1], t\<lparr>tu_message := u1, tu_final := (if k = ''final'' then True else tu_final t)\<rparr>))"

definition observe_item :: "text_event \<Rightarrow> bool \<Rightarrow> bool \<Rightarrow> thread_state \<times> turn_state \<Rightarrow> text_update list \<times> thread_state \<times> turn_state" where
  "observe_item e main completed s =
     (case s of (th, t) \<Rightarrow>
      let item = te_item e;
          u = zero_update\<lparr>tx_ref := ti_ref item, tx_kind := ''text'', tx_phase := te_kind e, tx_text := ti_text item,
                tx_status := ti_status item, tx_observed := te_at e, tx_live := True\<rparr>;
          (us, th1) = (if \<not> completed \<and> ti_type item \<noteq> ''reasoning'' \<and> ti_type item \<noteq> ''userMessage''
             then drop_pending (ref_thread (ti_ref item)) th else ([], th))
      in if ti_type item = ''reasoning'' then (case reasoning_item e completed u (th1, t) of (vs, s') \<Rightarrow> (us @ vs, s'))
         else if ti_type item = ''agentMessage'' then (case agent_item e main completed u t of (vs, t') \<Rightarrow> (us @ vs, th1, t'))
         else if ti_type item = ''userMessage'' then (if main then us @ [u] else us, th1, t)
         else (us, th1, t))"

section \<open>Events\<close>

text \<open>Without a turn store only completions count, and they touch no state.\<close>

definition observe_open :: "text_event \<Rightarrow> bool \<Rightarrow> thread_state \<times> turn_state \<Rightarrow> text_update list \<times> thread_state \<times> turn_state" where
  "observe_open e main s =
     (if te_kind e = item_started_kind \<or> te_kind e = item_completed_kind
      then observe_item e main (te_kind e = item_completed_kind) s
      else if te_kind e = agent_delta_kind then
        (case s of (th, t) \<Rightarrow> case drop_pending (ref_thread (ti_ref (te_item e))) th of (us, th1) \<Rightarrow>
           (if main then us @ [zero_update\<lparr>tx_ref := ti_ref (te_item e), tx_kind := ''text'', tx_phase := te_kind e,
                tx_text := te_delta e, tx_observed := te_at e, tx_live := True\<rparr>] else us, th1, t))
      else if te_kind e = reasoning_delta_kind then reasoning_delta e s
      else if te_kind e = reasoning_part_kind then ([], fst s, reasoning_part e (snd s))
      else ([], s))"

definition observe_text :: "text_event \<Rightarrow> bool \<Rightarrow> bool \<Rightarrow> thread_state \<times> turn_state \<Rightarrow> text_update list \<times> thread_state \<times> turn_state" where
  "observe_text e main closed s =
     (if closed then (if te_kind e \<noteq> item_completed_kind then ([], s) else (fst (observe_open e main (new_thread, new_turn)), s))
      else observe_open e main s)"

definition finish_thinking :: "string \<Rightarrow> string \<Rightarrow> int \<Rightarrow> string \<Rightarrow> text_update list \<times> thread_state \<times> turn_state
    \<Rightarrow> text_update list \<times> thread_state \<times> turn_state" where
  "finish_thinking thread turn at k s =
     (case s of (us, th, t) \<Rightarrow>
      let body = reasoning_text t k;
          u = zero_update\<lparr>tx_ref := \<lparr>ref_thread = thread, ref_turn = turn, ref_item = k\<rparr>, tx_kind := ''reasoning'',
                tx_phase := (if only_space body then ''discarded'' else ''item/completed''), tx_text := body, tx_observed := at,
                tx_thought := time_sub at (alist_zero 0 (tu_thinking t) k), tx_live := True\<rparr>
      in (us @ [u], stop_thinking k (th, t\<lparr>tu_reasoning := alist_put k '''' (tu_reasoning t)\<rparr>)))"

definition turn_completed :: "string \<Rightarrow> string \<Rightarrow> string \<Rightarrow> int \<Rightarrow> bool \<Rightarrow> thread_state \<times> turn_state
    \<Rightarrow> text_update list \<times> thread_state \<times> turn_state" where
  "turn_completed thread turn status at current s =
     (case s of (th, t) \<Rightarrow>
      case (if current then drop_pending thread th else ([], th)) of (us, th1) \<Rightarrow>
      case fold (finish_thinking thread turn at) (sort (map fst (tu_thinking t))) (us, th1, t) of (us2, th2, t2) \<Rightarrow>
      if current \<and> tx_kind (tu_message t2) \<noteq> ''''
      then (if \<not> tu_final t2 \<and> status = ''completed''
              then us2 @ [(tu_message t2)\<lparr>tx_kind := ''final'', tx_phase := ''item/completed''\<rparr>] else us2,
            th2, t2\<lparr>tu_message := zero_update\<rparr>)
      else (us2, th2, t2))"

section \<open>History\<close>

text \<open>One retained item; the flags say whether a final message was seen and which was the last.\<close>

definition history_item :: "bool \<Rightarrow> text_event \<Rightarrow> (string \<times> text_update) list \<times> string \<times> bool
    \<Rightarrow> (string \<times> text_update) list \<times> string \<times> bool" where
  "history_item main e s =
     (case s of (result, final_item, has_final) \<Rightarrow>
      let i = te_item e; k = ref_item (ti_ref i);
          u = zero_update\<lparr>tx_ref := ti_ref i, tx_kind := ''text'', tx_phase := te_kind e, tx_text := ti_text i,
                tx_status := ti_status i, tx_observed := te_at e\<rparr>
      in if ti_type i = ''reasoning'' then
           (let body = join [newline, newline] (ti_summary i)
            in if only_space body then s else (alist_put k (u\<lparr>tx_kind := ''reasoning'', tx_text := body\<rparr>) result, final_item, has_final))
         else if ti_type i = ''agentMessage'' then
           (let m = message_kind i main
            in if m = '''' then s else (alist_put k (u\<lparr>tx_kind := m\<rparr>) result, k, has_final \<or> m = ''final''))
         else if ti_type i = ''userMessage'' then
           (if main then (alist_put k u result, final_item, has_final) else s)
         else s)"

definition text_history :: "text_event list \<Rightarrow> bool \<Rightarrow> bool \<Rightarrow> (string \<times> text_update) list" where
  "text_history items main promote =
     (case fold (history_item main) items ([], '''', False) of (result, final_item, has_final) \<Rightarrow>
      if \<not> main \<and> promote \<and> \<not> has_final \<and> final_item \<noteq> ''''
      then alist_put final_item ((alist_zero zero_update result final_item)\<lparr>tx_kind := ''final''\<rparr>) result
      else result)"

end
