(* ===== verification/Transcript_Attachment.thy ===== *)
theory Transcript_Attachment
  imports Transcript_Reducer
begin

text \<open>
  The transcript of an attached session (\<open>sessionpresentation/attachment.go\<close>,
  \<open>transcript_observation.go\<close>, \<open>turn.go\<close>): the attachment owns the stores of threads and
  turns.  A turn is unknown, open, or closed for good; of a closed turn the attachment keeps
  the key with no store.  Of a scope store the model has the entries of the transcript and of
  the answers that stream; an entry starts with its zero value.
\<close>

record turn_store =
  ts_turn :: turn_state
  ts_streams :: "(string \<times> reload_stream) list"

record attachment =
  at_threads :: "(string \<times> thread_state) list"
  at_turns :: "((string \<times> string) \<times> turn_store option) list"
  at_retired :: bool

definition new_turn_store :: turn_store where
  "new_turn_store = \<lparr>ts_turn = new_turn, ts_streams = []\<rparr>"

definition new_attachment :: attachment where
  "new_attachment = \<lparr>at_threads = [], at_turns = [], at_retired = False\<rparr>"

text \<open>The transcript's state of a thread.\<close>

definition thread_value :: "attachment \<Rightarrow> string \<Rightarrow> thread_state" where
  "thread_value a thread = alist_zero new_thread (at_threads a) thread"

definition put_thread :: "string \<Rightarrow> thread_state \<Rightarrow> attachment \<Rightarrow> attachment" where
  "put_thread thread th a = a\<lparr>at_threads := alist_put thread th (at_threads a)\<rparr>"

definition put_turn :: "string \<Rightarrow> string \<Rightarrow> turn_store option \<Rightarrow> attachment \<Rightarrow> attachment" where
  "put_turn thread turn ts a = a\<lparr>at_turns := alist_put (thread, turn) ts (at_turns a)\<rparr>"

text \<open>\<open>Thread\<close> and \<open>Transcript\<close>: an observation opens an unknown turn.\<close>

definition open_thread :: "string \<Rightarrow> attachment \<Rightarrow> attachment" where
  "open_thread thread a =
     (if at_retired a \<or> thread = '''' \<or> alist_get (at_threads a) thread \<noteq> None then a else put_thread thread new_thread a)"

definition admit_turn :: "string \<Rightarrow> string \<Rightarrow> attachment \<Rightarrow> turn_store option \<times> attachment" where
  "admit_turn thread turn a =
     (if at_retired a \<or> thread = '''' \<or> turn = '''' then (None, a)
      else let a1 = (if alist_get (at_turns a) (thread, turn) = None then put_turn thread turn (Some new_turn_store) a else a)
           in (alist_zero None (at_turns a1) (thread, turn), open_thread thread a1))"

definition close_turn :: "string \<Rightarrow> string \<Rightarrow> attachment \<Rightarrow> attachment" where
  "close_turn thread turn a =
     (if at_retired a \<or> thread = '''' \<or> turn = '''' then a else put_turn thread turn None a)"

definition retire :: "attachment \<Rightarrow> attachment" where
  "retire a = \<lparr>at_threads = [], at_turns = [], at_retired = True\<rparr>"

section \<open>Observations\<close>

definition project_completion :: "text_event \<Rightarrow> text_event" where
  "project_completion e =
     (if ti_type (te_item e) = ''agentMessage'' \<and> te_kind e = item_completed_kind
      then e\<lparr>te_item := (te_item e)\<lparr>ti_text := reload_text (ti_text (te_item e))\<rparr>\<rparr> else e)"

text \<open>A delta of the main answer goes through the stream of its item; a completion ends the stream.\<close>

definition stream_text :: "text_event \<Rightarrow> bool \<Rightarrow> turn_store \<Rightarrow> text_event \<times> turn_store" where
  "stream_text e main ts =
     (let k = ref_item (ti_ref (te_item e))
      in if te_kind e = agent_delta_kind \<and> main then
           (case push (te_delta e) (alist_zero new_stream (ts_streams ts) k) of (shown, s) \<Rightarrow>
              (e\<lparr>te_delta := shown\<rparr>, ts\<lparr>ts_streams := alist_put k s (ts_streams ts)\<rparr>))
         else if te_kind e = item_completed_kind then (e, ts\<lparr>ts_streams := AList.delete k (ts_streams ts)\<rparr>)
         else (e, ts))"

definition observe_attached :: "text_event \<Rightarrow> bool \<Rightarrow> attachment \<Rightarrow> text_update list \<times> attachment" where
  "observe_attached e main a =
     (let r = ti_ref (te_item e)
      in if ref_thread r = '''' \<or> ref_turn r = '''' \<or> ref_item r = '''' then ([], a)
         else case admit_turn (ref_thread r) (ref_turn r) a of
           (None, a1) \<Rightarrow> (fst (observe_text (project_completion e) main True (new_thread, new_turn)), a1)
         | (Some ts, a1) \<Rightarrow>
             (case stream_text e main ts of (e1, ts1) \<Rightarrow>
              case observe_text (project_completion e1) main False (thread_value a1 (ref_thread r), ts_turn ts1) of
                (us, th, t) \<Rightarrow> (us, put_thread (ref_thread r) th (put_turn (ref_thread r) (ref_turn r) (Some (ts1\<lparr>ts_turn := t\<rparr>)) a1))))"

text \<open>The completion of a turn closes it; it is current unless another turn is selected.\<close>

definition observe_turn_completed :: "string \<Rightarrow> string \<Rightarrow> string \<Rightarrow> int \<Rightarrow> string \<Rightarrow> attachment \<Rightarrow> text_update list \<times> attachment" where
  "observe_turn_completed thread turn status at selected a =
     (case admit_turn thread turn a of
        (None, a1) \<Rightarrow> ([], a1)
      | (Some ts, a1) \<Rightarrow>
          (case turn_completed thread turn status at (selected = '''' \<or> selected = turn) (thread_value a1 thread, ts_turn ts) of
             (us, th, t) \<Rightarrow> (us, close_turn thread turn (put_thread thread th (put_turn thread turn (Some (ts\<lparr>ts_turn := t\<rparr>)) a1)))))"

text \<open>Any other item that starts in an open turn settles the placeholder of its thread.\<close>

definition observe_other_item :: "string \<Rightarrow> string \<Rightarrow> attachment \<Rightarrow> text_update list \<times> attachment" where
  "observe_other_item thread turn a =
     (case admit_turn thread turn a of
        (None, a1) \<Rightarrow> ([], a1)
      | (Some ts, a1) \<Rightarrow> (case drop_pending thread (thread_value a1 thread) of (us, th) \<Rightarrow> (us, put_thread thread th a1)))"

section \<open>Runs\<close>

text \<open>The feed: the attachment, the sequence of the transcript and the updates of each thread.\<close>

record feed =
  fd_attachment :: attachment
  fd_sequence :: "64 word"
  fd_log :: "string \<Rightarrow> text_update list"

datatype feed_event = Provider_Started string int | Turn_Started string string | Other_Item string string
  | Text_Event text_event bool | Turn_Completed string string string int string

definition new_feed :: feed where
  "new_feed = \<lparr>fd_attachment = new_attachment, fd_sequence = 0, fd_log = \<lambda>_. []\<rparr>"

definition log_updates :: "string \<Rightarrow> text_update list \<times> attachment \<Rightarrow> feed \<Rightarrow> feed" where
  "log_updates thread r f = f\<lparr>fd_attachment := snd r, fd_log := (fd_log f)(thread := fd_log f thread @ fst r)\<rparr>"

definition observe_provider :: "string \<Rightarrow> int \<Rightarrow> feed \<Rightarrow> feed" where
  "observe_provider thread at f =
     (if thread = '''' then f
      else let a = open_thread thread (fd_attachment f)
           in case provider_started thread at (fd_sequence f, thread_value a thread) of
                (us, sq, th) \<Rightarrow> (log_updates thread (us, put_thread thread th a) f)\<lparr>fd_sequence := sq\<rparr>)"

fun feed_step :: "feed_event \<Rightarrow> feed \<Rightarrow> feed" where
  "feed_step (Provider_Started thread at) f = observe_provider thread at f"
| "feed_step (Turn_Started thread turn) f = f\<lparr>fd_attachment := snd (admit_turn thread turn (fd_attachment f))\<rparr>"
| "feed_step (Other_Item thread turn) f = log_updates thread (observe_other_item thread turn (fd_attachment f)) f"
| "feed_step (Text_Event e main) f = log_updates (ref_thread (ti_ref (te_item e))) (observe_attached e main (fd_attachment f)) f"
| "feed_step (Turn_Completed thread turn status at selected) f =
     log_updates thread (observe_turn_completed thread turn status at selected (fd_attachment f)) f"

definition feed_run :: "feed_event list \<Rightarrow> feed" where
  "feed_run es = fold feed_step es new_feed"

end
