(* ===== verification/Transcript_Runs.thy ===== *)
theory Transcript_Runs
  imports Transcript_Reducer
begin

text \<open>
  Runs of the transcript reducer over the turns of one thread: the count of running reasoning
  items is exact, and every placeholder that is shown is settled once.
\<close>

section \<open>Placeholders in a log\<close>

text \<open>The placeholders an update shows, and those it settles by discarding or replacing them.\<close>

definition shown :: "text_update list \<Rightarrow> string list" where
  "shown us = concat (map (\<lambda>u. if ref_turn (tx_ref u) = '''' \<and> tx_phase u = ''summary'' then [ref_item (tx_ref u)] else []) us)"

definition settled_names :: "text_update list \<Rightarrow> string list" where
  "settled_names us = concat (map (\<lambda>u. if tx_replaces u \<noteq> '''' then [tx_replaces u]
     else if ref_turn (tx_ref u) = '''' \<and> tx_phase u = ''discarded'' then [ref_item (tx_ref u)] else []) us)"

definition open_placeholder :: "thread_state \<Rightarrow> string list" where
  "open_placeholder th = (if fst (th_pending th) = '''' then [] else [fst (th_pending th)])"

lemma shown_append [simp]: "shown (us @ vs) = shown us @ shown vs" "shown [] = []"
  by (simp_all add: shown_def)

lemma settled_names_append [simp]: "settled_names (us @ vs) = settled_names us @ settled_names vs" "settled_names [] = []"
  by (simp_all add: settled_names_def)

text \<open>An operation on one turn that shows no placeholder and keeps the count.\<close>

definition steady :: "text_update list \<Rightarrow> thread_state \<times> turn_state \<Rightarrow> thread_state \<times> turn_state \<Rightarrow> bool" where
  "steady us s s' \<longleftrightarrow> shown us = [] \<and> open_placeholder (fst s) = settled_names us @ open_placeholder (fst s')
     \<and> th_thinking (fst s') - th_thinking (fst s) = int (length (tu_thinking (snd s'))) - int (length (tu_thinking (snd s)))
     \<and> (distinct (map fst (tu_thinking (snd s))) \<longrightarrow> distinct (map fst (tu_thinking (snd s'))))
     \<and> (tx_replaces (tu_message (snd s)) = '''' \<longrightarrow> tx_replaces (tu_message (snd s')) = '''')
     \<and> (open_placeholder (fst s') \<noteq> [] \<longrightarrow> length (tu_thinking (snd s')) \<le> length (tu_thinking (snd s)))"

lemma steady_refl [simp]: "steady [] s s"
  by (simp add: steady_def)

lemma steady_trans: "steady us a b \<Longrightarrow> steady vs b c \<Longrightarrow> steady (us @ vs) a c"
  unfolding steady_def by (auto simp: open_placeholder_def split: if_splits)

section \<open>Operations\<close>

lemma drop_pending_steady:
  "drop_pending thread th = (us, th') \<Longrightarrow> steady us (th, t) (th', t)"
  "drop_pending thread th = (us, th') \<Longrightarrow> open_placeholder th' = [] \<and> th_thinking th' = th_thinking th \<and> shown us = [] \<and> settled_names us = open_placeholder th"
  by (auto simp: drop_pending_def steady_def shown_def settled_names_def open_placeholder_def zero_update_def split: if_splits)

lemma update_length:
  "alist_get m k = None \<Longrightarrow> length (alist_put k v m) = Suc (length m)"
  by (induction m) (auto split: if_splits)

lemma delete_length:
  "distinct (map fst m) \<Longrightarrow> alist_get m k \<noteq> None \<Longrightarrow> length m = Suc (length (AList.delete k m))"
proof (induction m)
  case (Cons p m)
  show ?case
  proof (cases "fst p = k")
    case True
    then have "k \<notin> fst ` set m" using Cons.prems(1) by auto
    then have "AList.delete k m = m" by (simp add: delete_id)
    with True show ?thesis by (cases p) simp
  next
    case False
    with Cons show ?thesis by (cases p) (auto split: if_splits)
  qed
qed simp

lemma distinct_delete_keys: "distinct (map fst m) \<Longrightarrow> distinct (map fst (AList.delete k m))"
  by (simp add: distinct_delete)

text \<open>The update of a start settles the placeholder when it is published.\<close>

lemma start_thinking_steady:
  assumes "start_thinking u at (th, t) = (u', th', t')" and "tx_replaces u = ''''" and "ref_turn (tx_ref u) \<noteq> ''''"
  shows "steady [u'] (th, t) (th', t')" and "tx_ref u' = tx_ref u" and "tx_text u' = tx_text u"
    and "tx_replaces u' = '''' \<Longrightarrow> steady [] (th, t) (th', t')" and "tu_reasoning t' = tu_reasoning t"
  using assms
  by (auto simp: start_thinking_def steady_def shown_def settled_names_def open_placeholder_def Let_def update_length
      distinct_update split: if_splits)

lemma reasoning_cong:
  "steady us s (th', t') \<Longrightarrow> tu_thinking t2 = tu_thinking t' \<Longrightarrow> tu_message t2 = tu_message t' \<Longrightarrow> steady us s (th', t2)"
  "steady us (th, t) s' \<Longrightarrow> tu_thinking t2 = tu_thinking t \<Longrightarrow> tu_message t2 = tu_message t \<Longrightarrow> steady us (th, t2) s'"
  by (simp_all add: steady_def)

lemma reasoning_part_steady: "steady [] (th, t) (th, reasoning_part e t)"
  by (simp add: steady_def reasoning_part_def Let_def)

lemma reasoning_delta_steady:
  assumes "reasoning_delta e (th, t) = (us, s')" and "ref_turn (ti_ref (te_item e)) \<noteq> ''''"
  shows "steady us (th, t) s'"
proof (cases "tombstone (ref_item (ti_ref (te_item e))) t")
  case True
  with assms(1) show ?thesis by (simp add: reasoning_delta_def)
next
  case False
  define k where "k = ref_item (ti_ref (te_item e))"
  define body where "body = reasoning_text t k @ te_delta e"
  define t1 where "t1 = t\<lparr>tu_reasoning := alist_put k body (tu_reasoning t)\<rparr>"
  define u where "u = zero_update\<lparr>tx_ref := ti_ref (te_item e), tx_kind := ''reasoning'', tx_phase := ''summary'', tx_text := body,
    tx_observed := te_at e, tx_live := True\<rparr>"
  obtain u' th' t' where st: "start_thinking u (te_at e) (th, t1) = (u', th', t')" by (metis surj_pair)
  have us: "us = [u']" "s' = (th', t')"
    using assms(1) False st by (simp_all add: reasoning_delta_def k_def body_def t1_def u_def Let_def)
  have "steady [u'] (th, t1) (th', t')"
    by (rule start_thinking_steady(1) [OF st]) (use assms(2) in \<open>simp_all add: u_def zero_update_def\<close>)
  then show ?thesis using reasoning_cong(2) [of "[u']" th t1 "(th', t')" t] us by (simp add: t1_def)
qed

lemma stop_thinking_steady:
  assumes "distinct (map fst (tu_thinking t))" and "alist_get (tu_thinking t) k \<noteq> None" and "stop_thinking k (th, t) = (th', t')"
  shows "th_thinking th' - th_thinking th = int (length (tu_thinking t')) - int (length (tu_thinking t))"
    and "distinct (map fst (tu_thinking t'))" and "th_pending th' = th_pending th" and "length (tu_thinking t') \<le> length (tu_thinking t)"
    and "tu_reasoning t' = tu_reasoning t" and "tu_message t' = tu_message t"
  using assms delete_length [OF assms(1,2)] distinct_delete_keys [OF assms(1), of k]
  by (auto simp: stop_thinking_def)

lemma complete_reasoning_steady:
  assumes c: "complete_reasoning at u (th, t) = (r, th', t')" and u: "tx_replaces u = ''''" "ref_turn (tx_ref u) \<noteq> ''''"
    and d: "distinct (map fst (tu_thinking t))"
  shows "steady (case r of None \<Rightarrow> [] | Some u' \<Rightarrow> [u']) (th, t) (th', t')" and "r = Some u' \<Longrightarrow> ref_turn (tx_ref u') \<noteq> ''''"
proof -
  define k where "k = ref_item (tx_ref u)"
  define b where "b \<longleftrightarrow> alist_get (tu_reasoning t) k = None \<and> fst (th_pending th) \<noteq> '''' \<and> \<not> only_space (tx_text u)"
  define u1 where "u1 = (if b then u\<lparr>tx_thought := time_sub at (snd (th_pending th)), tx_replaces := fst (th_pending th)\<rparr> else u)"
  define th1 where "th1 = (if b then th\<lparr>th_pending := ('''', 0)\<rparr> else th)"
  have u1: "ref_turn (tx_ref u1) \<noteq> ''''" "only_space (tx_text u1) = only_space (tx_text u)" using u by (simp_all add: u1_def)
  have one: "shown [v] = [] \<and> settled_names [v] @ open_placeholder th1 = open_placeholder th"
    if "tx_ref v = tx_ref u1" "tx_replaces v = tx_replaces u1" for v
    using that u u1 by (auto simp: u1_def th1_def b_def shown_def settled_names_def open_placeholder_def)
  have th1: "th_thinking th1 = th_thinking th" by (simp add: th1_def)
  have pair: "(if alist_get (tu_reasoning t) k = None \<and> fst (th_pending th) \<noteq> '''' \<and> \<not> only_space (tx_text u)
      then (u\<lparr>tx_thought := time_sub at (snd (th_pending th)), tx_replaces := fst (th_pending th)\<rparr>, th\<lparr>th_pending := ('''', 0)\<rparr>)
      else (u, th)) = (u1, th1)" by (simp add: u1_def th1_def b_def)
  have "steady (case r of None \<Rightarrow> [] | Some u' \<Rightarrow> [u']) (th, t) (th', t') \<and> (r = Some u' \<longrightarrow> ref_turn (tx_ref u') \<noteq> '''')"
  proof (cases "alist_get (tu_thinking t) k")
    case None
    show ?thesis
    proof (cases "only_space (tx_text u)")
      case True
      then have "\<not> b" by (simp add: b_def)
      with c None True pair show ?thesis
        by (auto simp: complete_reasoning_def k_def [symmetric] Let_def u1_def th1_def steady_def)
    next
      case False
      with c None pair u1 have "r = Some u1" "th' = th1" "t' = t"
        by (simp_all add: complete_reasoning_def k_def [symmetric] Let_def)
      with one [of u1] th1 u1(1) show ?thesis by (auto simp: steady_def)
    qed
  next
    case (Some began)
    define u2 where "u2 = u1\<lparr>tx_thought := time_sub at began, tx_text := (if only_space (tx_text u1) then reasoning_text t k else tx_text u1)\<rparr>"
    have r: "r = Some (if only_space (tx_text u2) then u2\<lparr>tx_phase := ''discarded''\<rparr> else u2)" "stop_thinking k (th1, t) = (th', t')"
      using c Some pair by (auto simp: complete_reasoning_def k_def [symmetric] Let_def u2_def)
    have "alist_get (tu_thinking t) k \<noteq> None" using Some by simp
    note S = stop_thinking_steady [OF d this r(2)]
    have op: "open_placeholder th' = open_placeholder th1" using S(3) by (simp add: open_placeholder_def)
    show ?thesis using one [of "if only_space (tx_text u2) then u2\<lparr>tx_phase := ''discarded''\<rparr> else u2"] S(1,2,4,6) th1 u1(1)
      by (auto simp: r(1) steady_def u2_def op)
  qed
  then show "steady (case r of None \<Rightarrow> [] | Some u' \<Rightarrow> [u']) (th, t) (th', t')" and "r = Some u' \<Longrightarrow> ref_turn (tx_ref u') \<noteq> ''''"
    by blast+
qed

lemma reasoning_item_steady:
  assumes r: "reasoning_item e completed u (th, t) = (us, s')" and u: "tx_replaces u = ''''" "ref_turn (tx_ref u) \<noteq> ''''"
    and d: "distinct (map fst (tu_thinking t))"
  shows "steady us (th, t) s'"
proof -
  define u0 where "u0 = u\<lparr>tx_kind := ''reasoning'', tx_text := join [newline, newline] (ti_summary (te_item e))\<rparr>"
  have u0: "tx_replaces u0 = ''''" "ref_turn (tx_ref u0) \<noteq> ''''" using u by (simp_all add: u0_def)
  show ?thesis
  proof (cases completed)
    case True
    obtain x th' t' where c: "complete_reasoning (te_at e) u0 (th, t) = (x, th', t')" by (metis surj_pair)
    note C = complete_reasoning_steady [OF c u0 d]
    show ?thesis
    proof (cases x)
      case None
      with r c True C(1) show ?thesis by (simp add: reasoning_item_def u0_def [symmetric] Let_def)
    next
      case (Some u1)
      define t2 where "t2 = t'\<lparr>tu_reasoning := alist_put (ref_item (tx_ref u)) '''' (tu_reasoning t')\<rparr>"
      have "us = [u1]" "s' = (th', t2)"
        using r c True Some by (simp_all add: reasoning_item_def u0_def [symmetric] Let_def t2_def)
      with C(1) Some reasoning_cong(1) [of "[u1]" "(th, t)" th' t' t2] show ?thesis by (simp add: t2_def)
    qed
  next
    case False
    obtain u1 th' t' where st: "start_thinking u0 (te_at e) (th, t) = (u1, th', t')" by (metis surj_pair)
    note S = start_thinking_steady [OF st u0]
    define t2 where "t2 = t'\<lparr>tu_reasoning := alist_put (ref_item (tx_ref u)) (tx_text u1) (tu_reasoning t')\<rparr>"
    have "us = (if \<not> only_space (tx_text u1) \<or> tx_replaces u1 \<noteq> '''' then [u1] else [])" "s' = (th', t2)"
      using r st False by (simp_all add: reasoning_item_def u0_def [symmetric] Let_def t2_def)
    moreover have "steady (if \<not> only_space (tx_text u1) \<or> tx_replaces u1 \<noteq> '''' then [u1] else []) (th, t) (th', t')"
      using S(1,4) by simp
    ultimately show ?thesis
      using reasoning_cong(1) [of us "(th, t)" th' t' t2] by (simp add: t2_def)
  qed
qed

lemma agent_item_steady:
  assumes "agent_item e main completed u t = (us, t')" and "tx_replaces u = ''''" "ref_turn (tx_ref u) \<noteq> ''''"
  shows "steady us (th, t) (th, t')"
  using assms by (auto simp: agent_item_def Let_def steady_def shown_def settled_names_def split: if_splits)

lemma observe_item_steady:
  assumes r: "observe_item e main completed (th, t) = (us, s')" and ref: "ref_turn (ti_ref (te_item e)) \<noteq> ''''"
    and d: "distinct (map fst (tu_thinking t))"
  shows "steady us (th, t) s'"
proof -
  define u where "u = zero_update\<lparr>tx_ref := ti_ref (te_item e), tx_kind := ''text'', tx_phase := te_kind e, tx_text := ti_text (te_item e),
    tx_status := ti_status (te_item e), tx_observed := te_at e, tx_live := True\<rparr>"
  have u: "tx_replaces u = ''''" "ref_turn (tx_ref u) \<noteq> ''''" using ref by (simp_all add: u_def zero_update_def)
  obtain vs th1 where dp: "(if \<not> completed \<and> ti_type (te_item e) \<noteq> ''reasoning'' \<and> ti_type (te_item e) \<noteq> ''userMessage''
      then drop_pending (ref_thread (ti_ref (te_item e))) th else ([], th)) = (vs, th1)" by fastforce
  have first: "steady vs (th, t) (th1, t)" using dp drop_pending_steady(1) by (auto split: if_splits)
  have user: "steady [u] (th1, t) (th1, t)" using u by (auto simp: steady_def shown_def settled_names_def)
  show ?thesis
  proof (cases "ti_type (te_item e) = ''reasoning''")
    case True
    obtain ws x where ri: "reasoning_item e completed u (th1, t) = (ws, x)" by (cases "reasoning_item e completed u (th1, t)")
    have "vs = []" "th1 = th" using dp True by auto
    then have "us = vs @ ws" "s' = x" using r True ri by (simp_all add: observe_item_def u_def [symmetric] dp Let_def)
    with steady_trans [OF first reasoning_item_steady [OF ri u d]] show ?thesis by simp
  next
    case False
    note nr = this
    show ?thesis
    proof (cases "ti_type (te_item e) = ''agentMessage''")
      case True
      obtain ws t' where ai: "agent_item e main completed u t = (ws, t')" by fastforce
      have "us = vs @ ws" "s' = (th1, t')" using r nr True ai dp by (simp_all add: observe_item_def u_def [symmetric] Let_def)
      with steady_trans [OF first agent_item_steady [OF ai u]] show ?thesis by simp
    next
      case False
      have "s' = (th1, t) \<and> (us = vs \<or> us = vs @ [u])"
        using r nr False dp by (auto simp: observe_item_def u_def [symmetric] Let_def split: if_splits)
      with first steady_trans [OF first user] show ?thesis by auto
    qed
  qed
qed

lemma observe_open_steady:
  assumes r: "observe_open e main (th, t) = (us, s')" and ref: "ref_turn (ti_ref (te_item e)) \<noteq> ''''"
    and d: "distinct (map fst (tu_thinking t))"
  shows "steady us (th, t) s'"
proof (cases "te_kind e = item_started_kind \<or> te_kind e = item_completed_kind")
  case True
  with r observe_item_steady [OF _ ref d] show ?thesis by (simp add: observe_open_def)
next
  case ni: False
  show ?thesis
  proof (cases "te_kind e = agent_delta_kind")
    case True
    define u where "u = zero_update\<lparr>tx_ref := ti_ref (te_item e), tx_kind := ''text'', tx_phase := te_kind e, tx_text := te_delta e,
      tx_observed := te_at e, tx_live := True\<rparr>"
    obtain vs th1 where dp: "drop_pending (ref_thread (ti_ref (te_item e))) th = (vs, th1)" by fastforce
    have user: "steady [u] (th1, t) (th1, t)" using ref by (auto simp: u_def zero_update_def steady_def shown_def settled_names_def)
    have "s' = (th1, t) \<and> us = (if main then vs @ [u] else vs)"
      using r ni True dp by (auto simp: observe_open_def u_def Let_def)
    with drop_pending_steady(1) [OF dp] steady_trans [OF drop_pending_steady(1) [OF dp] user] show ?thesis by simp
  next
    case False
    show ?thesis
    proof (cases "te_kind e = reasoning_delta_kind")
      case True
      with r ni False reasoning_delta_steady [OF _ ref] show ?thesis by (simp add: observe_open_def)
    next
      case nd: False
      have "s' = (th, if te_kind e = reasoning_part_kind then reasoning_part e t else t) \<and> us = []"
        using r ni False nd by (auto simp: observe_open_def split: if_splits)
      then show ?thesis using reasoning_part_steady by auto
    qed
  qed
qed

section \<open>Completed turns\<close>

lemma finish_thinking_steady:
  assumes f: "finish_thinking thread turn at k (us, th, t) = (us', th', t')" and turn: "turn \<noteq> ''''"
    and d: "distinct (map fst (tu_thinking t))" and k: "alist_get (tu_thinking t) k \<noteq> None"
  shows "(\<exists>u. us' = us @ [u] \<and> steady [u] (th, t) (th', t')) \<and> tu_thinking t' = AList.delete k (tu_thinking t)"
proof -
  define t1 where "t1 = t\<lparr>tu_reasoning := alist_put k '''' (tu_reasoning t)\<rparr>"
  obtain u where u: "us' = us @ [u]" "stop_thinking k (th, t1) = (th', t')" "tx_replaces u = ''''" "ref_turn (tx_ref u) = turn"
    using f by (auto simp: finish_thinking_def t1_def Let_def zero_update_def)
  have t1: "tu_thinking t1 = tu_thinking t" "tu_message t1 = tu_message t" by (simp_all add: t1_def)
  have "distinct (map fst (tu_thinking t1))" "alist_get (tu_thinking t1) k \<noteq> None" using d k by (simp_all add: t1_def)
  note S = stop_thinking_steady [OF this u(2)]
  have "steady [u] (th, t) (th', t')"
    using S turn u(3,4) by (auto simp: steady_def shown_def settled_names_def open_placeholder_def t1)
  moreover have "tu_thinking t' = AList.delete k (tu_thinking t)"
    using u(2) by (auto simp: stop_thinking_def t1)
  ultimately show ?thesis using u(1) by blast
qed

lemma steady_distinct: "steady us a b \<Longrightarrow> distinct (map fst (tu_thinking (snd a))) \<Longrightarrow> distinct (map fst (tu_thinking (snd b)))"
  by (simp add: steady_def)

lemma finish_all_steady:
  assumes "fold (finish_thinking thread turn at) ks (us, th, t) = (us', th', t')" and "turn \<noteq> ''''"
    and "distinct (map fst (tu_thinking t))" and "distinct ks" and "set ks \<subseteq> fst ` set (tu_thinking t)"
  shows "(\<exists>vs. us' = us @ vs \<and> steady vs (th, t) (th', t')) \<and> fst ` set (tu_thinking t') = fst ` set (tu_thinking t) - set ks"
  using assms
proof (induction ks arbitrary: us th t)
  case (Cons k ks)
  obtain us1 th1 t1 where one: "finish_thinking thread turn at k (us, th, t) = (us1, th1, t1)" by (metis surj_pair)
  have k: "alist_get (tu_thinking t) k \<noteq> None" using Cons.prems(5) by (simp add: map_of_eq_None_iff)
  from finish_thinking_steady [OF one Cons.prems(2,3) k] obtain u where
    u: "us1 = us @ [u]" "steady [u] (th, t) (th1, t1)" "tu_thinking t1 = AList.delete k (tu_thinking t)" by blast
  have keys: "fst ` set (tu_thinking t1) = fst ` set (tu_thinking t) - {k}"
    using arg_cong [where f = set, OF delete_keys [of k "tu_thinking t"]] by (simp add: u(3))
  have "(\<exists>vs. us' = us1 @ vs \<and> steady vs (th1, t1) (th', t')) \<and> fst ` set (tu_thinking t') = fst ` set (tu_thinking t1) - set ks"
  proof (rule Cons.IH)
    show "fold (finish_thinking thread turn at) ks (us1, th1, t1) = (us', th', t')" using Cons.prems(1) one by simp
    show "distinct (map fst (tu_thinking t1))" using steady_distinct [OF u(2)] Cons.prems(3) by simp
    show "set ks \<subseteq> fst ` set (tu_thinking t1)" using Cons.prems(4,5) keys by auto
  qed (use Cons.prems in simp_all)
  then obtain vs where vs: "us' = us1 @ vs" "steady vs (th1, t1) (th', t')"
    and rest: "fst ` set (tu_thinking t') = fst ` set (tu_thinking t1) - set ks" by blast
  have "us' = us @ ([u] @ vs)" "steady ([u] @ vs) (th, t) (th', t')" using vs(1) u(1) steady_trans [OF u(2) vs(2)] by simp_all
  moreover have "fst ` set (tu_thinking t') = fst ` set (tu_thinking t) - set (k # ks)" using rest keys by auto
  ultimately show ?case by blast
qed auto

lemma turn_completed_steady:
  assumes c: "turn_completed thread turn status at current (th, t) = (us, th', t')" and turn: "turn \<noteq> ''''"
    and d: "distinct (map fst (tu_thinking t))" and m: "tx_replaces (tu_message t) = ''''"
  shows "steady us (th, t) (th', t')" and "tu_thinking t' = []"
proof -
  obtain vs th1 where dp: "(if current then drop_pending thread th else ([], th)) = (vs, th1)"
    by (cases "if current then drop_pending thread th else ([], th)")
  have first: "steady vs (th, t) (th1, t)" using dp drop_pending_steady(1) by (auto split: if_splits)
  obtain us2 th2 t2 where fa: "fold (finish_thinking thread turn at) (sort (map fst (tu_thinking t))) (vs, th1, t) = (us2, th2, t2)"
    by (metis surj_pair)
  have "distinct (sort (map fst (tu_thinking t)))" "set (sort (map fst (tu_thinking t))) \<subseteq> fst ` set (tu_thinking t)" using d by simp_all
  from finish_all_steady [OF fa turn d this] obtain ws where
    ws: "us2 = vs @ ws" "steady ws (th1, t) (th2, t2)" and none: "fst ` set (tu_thinking t2) = {}" by auto
  have both: "steady us2 (th, t) (th2, t2)" using steady_trans [OF first ws(2)] ws(1) by simp
  have m2: "tx_replaces (tu_message t2) = ''''" using both m by (simp add: steady_def)
  have e2: "tu_thinking t2 = []" using none by simp
  define fin where "fin = (tu_message t2)\<lparr>tx_kind := ''final'', tx_phase := ''item/completed''\<rparr>"
  have last: "steady [fin] (th2, t2) (th2, t2\<lparr>tu_message := zero_update\<rparr>)" "steady [] (th2, t2) (th2, t2\<lparr>tu_message := zero_update\<rparr>)"
    using m2 by (simp_all add: steady_def fin_def shown_def settled_names_def zero_update_def)
  have "th' = th2 \<and> tu_thinking t' = [] \<and> (t' = t2 \<and> us = us2 \<or> t' = t2\<lparr>tu_message := zero_update\<rparr> \<and> (us = us2 @ [fin] \<or> us = us2 @ []))"
    using c dp fa e2 by (auto simp: turn_completed_def fin_def split: if_splits)
  then show "steady us (th, t) (th', t')" and "tu_thinking t' = []"
    using both steady_trans [OF both last(1)] steady_trans [OF both last(2)] by auto
qed

end
