(* ===== verification/Transcript_Feed.thy ===== *)
theory Transcript_Feed
  imports Transcript_Attachment Transcript_Runs
begin

text \<open>The invariant of a feed: counts of running reasoning items, and placeholders settled_names in order.\<close>

section \<open>Attachments\<close>

definition running_of :: "turn_store option \<Rightarrow> nat" where
  "running_of st = (case st of None \<Rightarrow> 0 | Some ts \<Rightarrow> length (tu_thinking (ts_turn ts)))"

text \<open>The reasoning items that run in the turns of a thread.\<close>

definition running :: "attachment \<Rightarrow> string \<Rightarrow> nat" where
  "running a thread = sum_list (map (\<lambda>(k, st). if fst k = thread then running_of st else 0) (at_turns a))"

definition turn_good :: "turn_store option \<Rightarrow> bool" where
  "turn_good st \<longleftrightarrow> (case st of None \<Rightarrow> True | Some ts \<Rightarrow>
     distinct (map fst (tu_thinking (ts_turn ts))) \<and> tx_replaces (tu_message (ts_turn ts)) = '''')"

definition attachment_ok :: "attachment \<Rightarrow> bool" where
  "attachment_ok a \<longleftrightarrow> distinct (map fst (at_turns a)) \<and> (\<forall>k st. alist_get (at_turns a) k = Some st \<longrightarrow> turn_good st)
     \<and> (\<forall>thread. th_thinking (thread_value a thread) = int (running a thread)
         \<and> (open_placeholder (thread_value a thread) \<noteq> [] \<longrightarrow> running a thread = 0))"

lemma sum_update:
  assumes "distinct (map fst m)"
  shows "sum_list (map (\<lambda>(k, st). if fst k = x then f st else 0) (alist_put (t, u) new m)) +
      (case alist_get m (t, u) of None \<Rightarrow> 0 | Some old \<Rightarrow> if t = x then f old else 0)
    = sum_list (map (\<lambda>(k, st). if fst k = x then f st else 0) m) + (if t = x then f new else (0 :: nat))"
  using assms
proof (induction m)
  case (Cons p m)
  then have IH: "sum_list (map (\<lambda>(k, st). if fst k = x then f st else 0) (alist_put (t, u) new m)) +
      (case alist_get m (t, u) of None \<Rightarrow> 0 | Some old \<Rightarrow> if t = x then f old else 0)
    = sum_list (map (\<lambda>(k, st). if fst k = x then f st else 0) m) + (if t = x then f new else 0)" by simp
  show ?case
  proof (cases "fst p = (t, u)")
    case True
    then show ?thesis by (cases p) simp
  next
    case False
    with IH show ?thesis by (cases p) simp
  qed
qed simp

lemma running_put:
  assumes "distinct (map fst (at_turns a))"
  shows "running (put_turn t u new a) x + (case alist_get (at_turns a) (t, u) of None \<Rightarrow> 0 | Some old \<Rightarrow> if t = x then running_of old else 0)
    = running a x + (if t = x then running_of new else 0)"
  using sum_update [OF assms, of x running_of t u new] by (simp add: running_def put_turn_def)

lemma thread_value_put [simp]:
  "thread_value (put_thread t th a) x = (if x = t then th else thread_value a x)"
  "thread_value (put_turn t u st a) x = thread_value a x"
  "running (put_thread t th a) x = running a x" "at_turns (put_thread t th a) = at_turns a"
  "thread_value (open_thread t a) x = thread_value a x" "running (open_thread t a) x = running a x"
  "at_turns (open_thread t a) = at_turns a" "at_turns (put_turn t u st a) = alist_put (t, u) st (at_turns a)"
  by (simp_all add: thread_value_def put_thread_def put_turn_def open_thread_def running_def alist_zero_def)

lemma attachment_ok_open: "attachment_ok (open_thread t a) = attachment_ok a"
  by (simp add: attachment_ok_def)

lemma admit_new_ok:
  assumes "attachment_ok a" and "alist_get (at_turns a) (t, u) = None"
  shows "attachment_ok (put_turn t u (Some new_turn_store) a)"
proof -
  have "distinct (map fst (at_turns a))" using assms(1) by (simp add: attachment_ok_def)
  note R = running_put [OF this, of t u "Some new_turn_store"]
  have "running (put_turn t u (Some new_turn_store) a) x = running a x" for x
    using R [of x] assms(2) by (simp add: running_of_def new_turn_store_def new_turn_def)
  then show ?thesis using assms
    by (auto simp: attachment_ok_def turn_good_def new_turn_store_def new_turn_def zero_update_def distinct_update)
qed

lemma admit_turn_ok:
  assumes "attachment_ok a" and "admit_turn t u a = (st, a1)"
  shows "attachment_ok a1" and "thread_value a1 x = thread_value a x" and "running a1 x = running a x"
    and "st = Some ts \<Longrightarrow> alist_get (at_turns a1) (t, u) = Some (Some ts) \<and> t \<noteq> '''' \<and> u \<noteq> ''''"
proof -
  have "attachment_ok a1 \<and> thread_value a1 x = thread_value a x \<and> running a1 x = running a x
    \<and> (st = Some ts \<longrightarrow> alist_get (at_turns a1) (t, u) = Some (Some ts) \<and> t \<noteq> '''' \<and> u \<noteq> '''')"
  proof (cases "at_retired a \<or> t = '''' \<or> u = ''''")
    case True
    with assms show ?thesis by (auto simp: admit_turn_def)
  next
    case False
    note open_case = False
    show ?thesis
    proof (cases "alist_get (at_turns a) (t, u)")
      case None
      have "distinct (map fst (at_turns a))" using assms(1) by (simp add: attachment_ok_def)
      note R = running_put [OF this, of t u "Some new_turn_store" x]
      have "running (put_turn t u (Some new_turn_store) a) x = running a x"
        using R None by (simp add: running_of_def new_turn_store_def new_turn_def)
      with None open_case assms(2) admit_new_ok [OF assms(1) None] show ?thesis
        by (auto simp: admit_turn_def Let_def alist_zero_def attachment_ok_open)
    next
      case (Some st')
      with open_case assms show ?thesis by (auto simp: admit_turn_def Let_def alist_zero_def attachment_ok_open)
    qed
  qed
  then show "attachment_ok a1" and "thread_value a1 x = thread_value a x" and "running a1 x = running a x"
    and "st = Some ts \<Longrightarrow> alist_get (at_turns a1) (t, u) = Some (Some ts) \<and> t \<noteq> '''' \<and> u \<noteq> ''''" by blast+
qed

lemma turn_store_good:
  assumes "attachment_ok a" and "alist_get (at_turns a) (t, u) = Some (Some ts)"
  shows "distinct (map fst (tu_thinking (ts_turn ts)))" and "tx_replaces (tu_message (ts_turn ts)) = ''''"
  using assms by (fastforce simp: attachment_ok_def turn_good_def)+

lemma running_ge:
  assumes "alist_get (at_turns a) (t, u) = Some st"
  shows "running_of st \<le> running a t"
proof -
  have "((t, u), st) \<in> set (at_turns a)" using assms by (rule map_of_SomeD)
  then have "running_of st \<in> set (map (\<lambda>(k, st). if fst k = t then running_of st else 0) (at_turns a))" by force
  then show ?thesis unfolding running_def by (rule member_le_sum_list) auto
qed

text \<open>A steady operation on an open turn keeps the attachment well formed.\<close>

lemma steady_ok:
  assumes a: "attachment_ok a" and st: "alist_get (at_turns a) (t, u) = Some (Some ts)"
    and s: "steady us (thread_value a t, ts_turn ts) (th', t')" and ts': "ts_turn ts' = t'"
  shows "attachment_ok (put_thread t th' (put_turn t u (Some ts') a))"
proof -
  have d: "distinct (map fst (at_turns a))" using a by (simp add: attachment_ok_def)
  define b where "b = put_turn t u (Some ts') a"
  have R: "running b x + (if t = x then length (tu_thinking (ts_turn ts)) else 0) = running a x + (if t = x then length (tu_thinking t') else 0)" for x
    using running_put [OF d, of t u "Some ts'" x] unfolding st ts' [symmetric] by (cases "t = x") (simp_all add: running_of_def b_def)
  have ge: "length (tu_thinking (ts_turn ts)) \<le> running a t" using running_ge [OF st] by (simp add: running_of_def)
  have count: "th_thinking (thread_value a x) = int (running a x)" and
    pend: "open_placeholder (thread_value a x) \<noteq> [] \<Longrightarrow> running a x = 0" for x
    using a by (auto simp: attachment_ok_def)
  have "th_thinking th' = int (running b t)"
    using s count [of t] R [of t] by (simp add: steady_def)
  moreover have "running b t = 0" if p: "open_placeholder th' \<noteq> []"
  proof -
    have "running a t = 0" by (rule pend) (use s p in \<open>auto simp: steady_def\<close>)
    moreover have "length (tu_thinking t') \<le> length (tu_thinking (ts_turn ts))" using s p by (simp add: steady_def)
    ultimately show ?thesis using R [of t] ge by simp
  qed
  moreover have "th_thinking (thread_value b x) = int (running b x) \<and> (open_placeholder (thread_value b x) \<noteq> [] \<longrightarrow> running b x = 0)"
    if "x \<noteq> t" for x
    using count [of x] pend [of x] R [of x] that by (simp add: b_def)
  ultimately have counts: "th_thinking (thread_value (put_thread t th' b) x) = int (running (put_thread t th' b) x)
      \<and> (open_placeholder (thread_value (put_thread t th' b) x) \<noteq> [] \<longrightarrow> running (put_thread t th' b) x = 0)" for x
    by (cases "x = t") simp_all
  have keys: "distinct (map fst (at_turns (put_thread t th' b)))" using alist_put_distinct [OF d] by (simp add: b_def)
  have "turn_good (Some ts')" using s ts' turn_store_good [OF a st] by (simp add: steady_def turn_good_def)
  moreover have "alist_get (at_turns (put_thread t th' b)) k = (if k = (t, u) then Some (Some ts') else alist_get (at_turns a) k)" for k
    by (simp add: b_def)
  moreover have "\<forall>k st. alist_get (at_turns a) k = Some st \<longrightarrow> turn_good st" using a by (simp add: attachment_ok_def)
  ultimately have "\<forall>k st. alist_get (at_turns (put_thread t th' b)) k = Some st \<longrightarrow> turn_good st" by (metis option.inject)
  with keys counts show ?thesis unfolding attachment_ok_def b_def [symmetric] by blast
qed

lemma close_turn_ok:
  assumes a: "attachment_ok a" and st: "alist_get (at_turns a) (t, u) = Some (Some ts)" and e: "tu_thinking (ts_turn ts) = []"
  shows "attachment_ok (close_turn t u a)" and "thread_value (close_turn t u a) x = thread_value a x" and "running (close_turn t u a) x = running a x"
proof -
  have d: "distinct (map fst (at_turns a))" using a by (simp add: attachment_ok_def)
  have R: "running (put_turn t u None a) x = running a x" for x
    using running_put [OF d, of t u None x] st e by (simp add: running_of_def split: if_splits)
  have v: "thread_value (close_turn t u a) x = thread_value a x" for x by (simp add: close_turn_def)
  have r: "running (close_turn t u a) x = running a x" for x using R by (simp add: close_turn_def)
  have "distinct (map fst (at_turns (close_turn t u a)))" using d by (simp add: close_turn_def distinct_update)
  moreover have "turn_good s" if "alist_get (at_turns (close_turn t u a)) k = Some s" for k s
  proof -
    have g: "\<forall>k st. alist_get (at_turns a) k = Some st \<longrightarrow> turn_good st" using a by (simp add: attachment_ok_def)
    have "alist_get (at_turns (close_turn t u a)) k = Some s \<Longrightarrow> s = None \<or> alist_get (at_turns a) k = Some s"
      by (cases "(t, u) = k") (simp_all add: close_turn_def split: if_splits)
    with that g have "s = None \<or> turn_good s" by blast
    then show ?thesis by (auto simp: turn_good_def)
  qed
  ultimately show "attachment_ok (close_turn t u a)" using a v r by (simp add: attachment_ok_def)
  show "thread_value (close_turn t u a) x = thread_value a x" "running (close_turn t u a) x = running a x" using v r by blast+
qed

section \<open>Feeds\<close>

lemma alist_put_same: "alist_get m k = Some v \<Longrightarrow> alist_put k v m = m"
  by (induction m) (auto split: if_splits)

definition placeholder_names :: "nat \<Rightarrow> string set" where
  "placeholder_names n = (\<lambda>m. ''thinking:'' @ nat_dec m) ` {1..n}"

definition feed_ok :: "nat \<Rightarrow> feed \<Rightarrow> bool" where
  "feed_ok n f \<longleftrightarrow> attachment_ok (fd_attachment f) \<and> unat (fd_sequence f) \<le> n
     \<and> (\<forall>t. shown (fd_log f t) = settled_names (fd_log f t) @ open_placeholder (thread_value (fd_attachment f) t)
         \<and> distinct (shown (fd_log f t)) \<and> set (shown (fd_log f t)) \<subseteq> placeholder_names (unat (fd_sequence f)))
     \<and> (\<forall>t t'. t \<noteq> t' \<longrightarrow> set (shown (fd_log f t)) \<inter> set (shown (fd_log f t')) = {})"

text \<open>An operation that shows no placeholder and settles what it takes from its thread.\<close>

definition calm_step :: "string \<Rightarrow> text_update list \<times> attachment \<Rightarrow> attachment \<Rightarrow> bool" where
  "calm_step t r a \<longleftrightarrow> attachment_ok (snd r) \<and> shown (fst r) = []
     \<and> open_placeholder (thread_value a t) = settled_names (fst r) @ open_placeholder (thread_value (snd r) t)
     \<and> (\<forall>x. x \<noteq> t \<longrightarrow> thread_value (snd r) x = thread_value a x)"

lemma feed_ok_log:
  assumes "feed_ok n f" and "calm_step t r (fd_attachment f)"
  shows "feed_ok n (log_updates t r f)"
proof -
  define g where "g = log_updates t r f"
  have sh: "shown (fd_log g x) = shown (fd_log f x)" for x using assms(2) by (simp add: g_def log_updates_def calm_step_def)
  have "shown (fd_log g x) = settled_names (fd_log g x) @ open_placeholder (thread_value (fd_attachment g) x)" for x
  proof -
    have "shown (fd_log f x) = settled_names (fd_log f x) @ open_placeholder (thread_value (fd_attachment f) x)"
      using assms(1) by (simp add: feed_ok_def)
    then show ?thesis using assms(2) unfolding sh by (simp add: g_def log_updates_def calm_step_def)
  qed
  then have settle: "\<forall>x. shown (fd_log g x) = settled_names (fd_log g x) @ open_placeholder (thread_value (fd_attachment g) x)" by blast
  have att: "attachment_ok (fd_attachment g)" and sq: "fd_sequence g = fd_sequence f"
    using assms(2) by (simp_all add: g_def log_updates_def calm_step_def)
  have "unat (fd_sequence g) \<le> n" and "\<forall>x. distinct (shown (fd_log g x)) \<and> set (shown (fd_log g x)) \<subseteq> placeholder_names (unat (fd_sequence g))"
    and "\<forall>x y. x \<noteq> y \<longrightarrow> set (shown (fd_log g x)) \<inter> set (shown (fd_log g y)) = {}"
    using assms(1) unfolding feed_ok_def sh sq by blast+
  with settle att show ?thesis unfolding feed_ok_def g_def [symmetric] by blast
qed

lemma observe_late_quiet:
  assumes "ref_turn (ti_ref (te_item e)) \<noteq> ''''"
  shows "shown (fst (observe_text e main True (new_thread, new_turn))) = [] \<and> settled_names (fst (observe_text e main True (new_thread, new_turn))) = []"
proof (cases "te_kind e = item_completed_kind")
  case True
  obtain us s where o: "observe_open e main (new_thread, new_turn) = (us, s)" by (metis surj_pair)
  have "steady us (new_thread, new_turn) s" by (rule observe_open_steady [OF o assms]) (simp add: new_turn_def)
  with True o show ?thesis by (simp add: observe_text_def steady_def open_placeholder_def new_thread_def)
qed (simp add: observe_text_def)

lemma project_completion_ref [simp]: "ti_ref (te_item (project_completion e)) = ti_ref (te_item e)"
  by (simp add: project_completion_def)

lemma stream_text_facts:
  "stream_text e main ts = (e1, ts1) \<Longrightarrow> ti_ref (te_item e1) = ti_ref (te_item e) \<and> ts_turn ts1 = ts_turn ts"
  by (auto simp: stream_text_def Let_def split: if_splits prod.splits)

lemma observe_attached_calm:
  assumes a: "attachment_ok a"
  shows "calm_step (ref_thread (ti_ref (te_item e))) (observe_attached e main a) a"
proof -
  define r where "r = ti_ref (te_item e)"
  show ?thesis
  proof (cases "ref_thread r = '''' \<or> ref_turn r = '''' \<or> ref_item r = ''''")
    case True
    then have "observe_attached e main a = ([], a)" by (simp add: observe_attached_def r_def [symmetric] Let_def)
    with a show ?thesis by (simp add: calm_step_def)
  next
    case False
    obtain st a1 where ad: "admit_turn (ref_thread r) (ref_turn r) a = (st, a1)" by (metis surj_pair)
    note A = admit_turn_ok [OF a ad]
    show ?thesis
    proof (cases st)
      case None
      have "observe_attached e main a = (fst (observe_text (project_completion e) main True (new_thread, new_turn)), a1)"
        using False ad None by (simp add: observe_attached_def r_def [symmetric] Let_def)
      with A(1,2) observe_late_quiet [of "project_completion e" main] False show ?thesis by (simp add: calm_step_def r_def [symmetric])
    next
      case (Some ts)
      obtain e1 ts1 where s: "stream_text e main ts = (e1, ts1)" by (metis surj_pair)
      note S = stream_text_facts [OF s]
      obtain us th t where o: "observe_text (project_completion e1) main False (thread_value a1 (ref_thread r), ts_turn ts1) = (us, th, t)"
        by (metis surj_pair)
      have tst: "alist_get (at_turns a1) (ref_thread r, ref_turn r) = Some (Some ts)" using A(4) Some by blast
      have st: "steady us (thread_value a1 (ref_thread r), ts_turn ts) (th, t)"
        by (rule observe_open_steady [of "project_completion e1" main])
          (use o S False turn_store_good(1) [OF A(1) tst] in \<open>simp_all add: observe_text_def r_def\<close>)
      define a2 where "a2 = put_thread (ref_thread r) th (put_turn (ref_thread r) (ref_turn r) (Some (ts1\<lparr>ts_turn := t\<rparr>)) a1)"
      have "observe_attached e main a = (us, a2)"
        using False ad Some s o by (simp add: observe_attached_def r_def [symmetric] Let_def a2_def)
      moreover have "attachment_ok a2" unfolding a2_def by (rule steady_ok [OF A(1) tst st]) simp
      ultimately show ?thesis using st A(2) by (simp add: calm_step_def r_def [symmetric] a2_def steady_def)
    qed
  qed
qed

lemma observe_other_item_calm:
  assumes a: "attachment_ok a"
  shows "calm_step t (observe_other_item t u a) a"
proof -
  obtain st a1 where ad: "admit_turn t u a = (st, a1)" by (metis surj_pair)
  note A = admit_turn_ok [OF a ad]
  show ?thesis
  proof (cases st)
    case None
    with ad A show ?thesis by (simp add: observe_other_item_def calm_step_def)
  next
    case (Some ts)
    obtain us th where d: "drop_pending t (thread_value a1 t) = (us, th)" by (metis surj_pair)
    have tst: "alist_get (at_turns a1) (t, u) = Some (Some ts)" using A(4) Some by blast
    have st: "steady us (thread_value a1 t, ts_turn ts) (th, ts_turn ts)" using drop_pending_steady(1) [OF d] .
    have "alist_put (t, u) (Some ts) (at_turns a1) = at_turns a1" using tst by (rule alist_put_same)
    then have same: "put_turn t u (Some ts) a1 = a1" by (simp add: put_turn_def)
    have "attachment_ok (put_thread t th (put_turn t u (Some ts) a1))" by (rule steady_ok [OF A(1) tst st]) simp
    then have "attachment_ok (put_thread t th a1)" using same by simp
    with Some ad d st A(2) show ?thesis by (simp add: observe_other_item_def calm_step_def steady_def)
  qed
qed

lemma observe_turn_completed_calm:
  assumes a: "attachment_ok a"
  shows "calm_step t (observe_turn_completed t u status at selected a) a"
proof -
  obtain st a1 where ad: "admit_turn t u a = (st, a1)" by (metis surj_pair)
  note A = admit_turn_ok [OF a ad]
  show ?thesis
  proof (cases st)
    case None
    with ad A show ?thesis by (simp add: observe_turn_completed_def calm_step_def)
  next
    case (Some ts)
    obtain us th tu where c: "turn_completed t u status at (selected = '''' \<or> selected = u) (thread_value a1 t, ts_turn ts) = (us, th, tu)"
      by (metis surj_pair)
    have tst: "alist_get (at_turns a1) (t, u) = Some (Some ts)" and u: "u \<noteq> ''''" using A(4) Some by blast+
    note T = turn_completed_steady [OF c u turn_store_good [OF A(1) tst]]
    define a2 where "a2 = put_thread t th (put_turn t u (Some (ts\<lparr>ts_turn := tu\<rparr>)) a1)"
    have ok: "attachment_ok a2" unfolding a2_def by (rule steady_ok [OF A(1) tst T(1)]) simp
    have "alist_get (at_turns a2) (t, u) = Some (Some (ts\<lparr>ts_turn := tu\<rparr>))" by (simp add: a2_def)
    note C = close_turn_ok [OF ok this]
    have "observe_turn_completed t u status at selected a = (us, close_turn t u a2)"
      using ad Some c by (simp add: observe_turn_completed_def a2_def)
    with C T A(2) show ?thesis by (simp add: calm_step_def a2_def [symmetric]) (simp add: a2_def steady_def)
  qed
qed

section \<open>Provider requests\<close>

lemma nat_dec_eq: "nat_dec m = nat_dec n \<Longrightarrow> m = n"
  by (metis nat_dec_digits)

lemma placeholder_fresh:
  assumes "Suc (unat sq) < 2 ^ 64"
  shows "unat (sq + 1) = Suc (unat sq)" and "placeholder (sq + 1) \<notin> placeholder_names (unat sq)"
    and "placeholder_names (Suc (unat sq)) = insert (placeholder (sq + 1)) (placeholder_names (unat sq))"
    and "placeholder (sq + 1) \<noteq> ''''"
proof -
  show u: "unat (sq + 1) = Suc (unat sq)"
    using assms unat_add_lem [where x = sq and y = 1] by simp
  have p: "placeholder (sq + 1) = ''thinking:'' @ nat_dec (Suc (unat sq))" by (simp add: placeholder_def uint64_dec_def u)
  show "placeholder (sq + 1) \<notin> placeholder_names (unat sq)"
    unfolding p placeholder_names_def using nat_dec_eq by fastforce
  show "placeholder_names (Suc (unat sq)) = insert (placeholder (sq + 1)) (placeholder_names (unat sq))"
    unfolding p placeholder_names_def by (simp add: atLeastAtMostSuc_conv)
  show "placeholder (sq + 1) \<noteq> ''''" by (simp add: p)
qed

lemma attachment_ok_thread:
  assumes "attachment_ok a" and "th_thinking th = th_thinking (thread_value a t)"
    and "open_placeholder th \<noteq> [] \<Longrightarrow> running a t = 0"
  shows "attachment_ok (put_thread t th a)"
  using assms by (auto simp: attachment_ok_def)

lemma feed_ok_mono: "feed_ok n f \<Longrightarrow> n \<le> m \<Longrightarrow> feed_ok m f"
  unfolding feed_ok_def by (meson le_trans)

lemma feed_ok_provider:
  assumes f: "feed_ok n f" and n: "Suc n < 2 ^ 64"
  shows "feed_ok (Suc n) (observe_provider t at f)"
proof -
  define a where "a = open_thread t (fd_attachment f)"
  define th where "th = thread_value (fd_attachment f) t"
  have a: "attachment_ok a" "thread_value a x = thread_value (fd_attachment f) x" for x
    using f by (simp_all add: a_def feed_ok_def attachment_ok_open)
  have th: "thread_value a t = th" using a(2) by (simp add: th_def)
  consider "t = ''''" | "t \<noteq> ''''" "th_thinking th \<noteq> 0" | "t \<noteq> ''''" "th_thinking th = 0" by blast
  then show ?thesis
  proof cases
    case 1
    with feed_ok_mono [OF f] show ?thesis by (simp add: observe_provider_def)
  next
    case 2
    have "calm_step t ([], put_thread t th a) (fd_attachment f)"
      using attachment_ok_thread [OF a(1), of th t] a th by (auto simp: calm_step_def attachment_ok_def th_def)
    from feed_ok_log [OF f this] have "feed_ok n (log_updates t ([], put_thread t th a) f)" .
    moreover have "observe_provider t at f = log_updates t ([], put_thread t th a) f"
      using 2 th by (simp add: observe_provider_def a_def [symmetric] Let_def provider_started_def log_updates_def)
    ultimately show ?thesis using feed_ok_mono by simp
  next
    case 3
    obtain us th1 where d: "drop_pending t th = (us, th1)" by (metis surj_pair)
    note D = drop_pending_steady(2) [OF d]
    define sq where "sq = fd_sequence f"
    define item where "item = placeholder (sq + 1)"
    define new where "new = zero_update\<lparr>tx_ref := \<lparr>ref_thread = t, ref_turn = '''', ref_item = item\<rparr>, tx_kind := ''reasoning'',
      tx_phase := ''summary'', tx_observed := at, tx_live := True\<rparr>"
    define th2 where "th2 = th1\<lparr>th_pending := (item, at)\<rparr>"
    define g where "g = (log_updates t (us @ [new], put_thread t th2 a) f)\<lparr>fd_sequence := sq + 1\<rparr>"
    have g: "observe_provider t at f = g"
      using 3 th d by (simp add: observe_provider_def a_def [symmetric] Let_def provider_started_def g_def new_def th2_def item_def sq_def)
    have sq: "unat sq \<le> n" using f by (simp add: feed_ok_def sq_def)
    then have "Suc (unat sq) < 2 ^ 64" using n by simp
    note F = placeholder_fresh [OF this]
    have run: "running a t = 0" using a(1) th 3(2) by (auto simp: attachment_ok_def dest: spec [of _ t])
    have att: "attachment_ok (fd_attachment g)"
      using attachment_ok_thread [OF a(1), of th2 t] run th D by (simp add: g_def log_updates_def th2_def)
    have news: "shown (us @ [new]) = [item]" "settled_names (us @ [new]) = open_placeholder th"
      using D by (simp_all add: new_def zero_update_def shown_def settled_names_def)
    have old: "shown (fd_log f x) = settled_names (fd_log f x) @ open_placeholder (thread_value (fd_attachment f) x)"
      "distinct (shown (fd_log f x))" "set (shown (fd_log f x)) \<subseteq> placeholder_names (unat sq)" for x
      using f unfolding feed_ok_def sq_def by blast+
    have sh: "shown (fd_log g x) = (if x = t then shown (fd_log f x) @ [item] else shown (fd_log f x))" for x
      using news by (simp add: g_def log_updates_def)
    have "shown (fd_log g x) = settled_names (fd_log g x) @ open_placeholder (thread_value (fd_attachment g) x)" for x
      unfolding sh using old(1) [of x] news F(4) a(2) by (auto simp: g_def log_updates_def th2_def th_def open_placeholder_def item_def)
    moreover have "distinct (shown (fd_log g x))" for x
      unfolding sh using old(2,3) [of x] F(2) by (auto simp: item_def)
    moreover have "set (shown (fd_log g x)) \<subseteq> placeholder_names (unat (fd_sequence g))" for x
      unfolding sh using old(3) [of x] F(1,3) by (auto simp: g_def item_def)
    moreover have "set (shown (fd_log g x)) \<inter> set (shown (fd_log g y)) = {}" if "x \<noteq> y" for x y
    proof -
      have "set (shown (fd_log f x)) \<inter> set (shown (fd_log f y)) = {}" using f that unfolding feed_ok_def by blast
      then show ?thesis unfolding sh using old(3) [of x] old(3) [of y] F(2) that by (auto simp: item_def)
    qed
    moreover have "unat (fd_sequence g) \<le> Suc n" using sq F(1) by (simp add: g_def)
    ultimately have "feed_ok (Suc n) g" using att unfolding feed_ok_def by blast
    then show ?thesis by (simp add: g)
  qed
qed

lemma feed_step_ok:
  assumes f: "feed_ok n f" and n: "Suc n < 2 ^ 64"
  shows "feed_ok (Suc n) (feed_step e f)"
proof -
  have a: "attachment_ok (fd_attachment f)" using f by (simp add: feed_ok_def)
  note calm = feed_ok_log [OF f, THEN feed_ok_mono, of _ _ "Suc n"]
  show ?thesis
  proof (cases e)
    case (Provider_Started t at)
    with feed_ok_provider [OF f n] show ?thesis by simp
  next
    case (Turn_Started t u)
    obtain st a1 where ad: "admit_turn t u (fd_attachment f) = (st, a1)" by (metis surj_pair)
    have "calm_step t ([], a1) (fd_attachment f)" using admit_turn_ok(1,2) [OF a ad] by (simp add: calm_step_def)
    from calm [OF this] ad Turn_Started show ?thesis by (simp add: log_updates_def)
  next
    case (Other_Item t u)
    with calm [OF observe_other_item_calm [OF a]] show ?thesis by simp
  next
    case (Text_Event x main)
    with calm [OF observe_attached_calm [OF a]] show ?thesis by simp
  next
    case (Turn_Completed t u status at selected)
    with calm [OF observe_turn_completed_calm [OF a]] show ?thesis by simp
  qed
qed

lemma new_feed_ok: "feed_ok 0 new_feed"
  by (simp add: feed_ok_def new_feed_def new_attachment_def attachment_ok_def thread_value_def alist_zero_def
      new_thread_def running_def open_placeholder_def)

lemma feed_steps_ok:
  "feed_ok n f \<Longrightarrow> n + length es < 2 ^ 64 \<Longrightarrow> feed_ok (n + length es) (fold feed_step es f)"
proof (induction es arbitrary: n f)
  case (Cons e es)
  have "feed_ok (Suc n) (feed_step e f)" using feed_step_ok [OF Cons.prems(1)] Cons.prems(2) by simp
  from Cons.IH [OF this] Cons.prems(2) show ?case by simp
qed simp

lemma feed_run_ok: "length es < 2 ^ 64 \<Longrightarrow> feed_ok (length es) (feed_run es)"
  using feed_steps_ok [OF new_feed_ok, of es] by (simp add: feed_run_def)

end
