(* ===== verification/Reload_Stream.thy ===== *)
theory Reload_Stream
  imports Reload_Metadata
begin

text \<open>
  What a streamed answer shows: nothing is lost, the chunks do not matter, and for an answer
  with at most one closing tag behind its last block it is the start of the completed answer.
\<close>

section \<open>Cutting\<close>

lemma index_of_Some:
  "index_of sep s = Some i \<Longrightarrow> i + length sep \<le> length s \<and> prefix sep (drop i s) \<and> (\<forall>j < i. \<not> prefix sep (drop j s))"
proof (induction sep s arbitrary: i rule: index_of.induct)
  case (2 sep c cs)
  show ?case
  proof (cases "prefix sep (c # cs)")
    case True
    with 2 show ?thesis using prefix_length_le [OF True] by auto
  next
    case False
    with 2 obtain j where j: "index_of sep cs = Some j" "i = Suc j" by auto
    have "\<not> prefix sep (drop m (c # cs))" if "m < i" for m
      using that False 2(1) [OF False j(1)] j(2) by (cases m) auto
    with 2(1) [OF False j(1)] j(2) show ?thesis by auto
  qed
qed (auto split: if_splits)

lemma index_of_None: "sep \<noteq> '''' \<Longrightarrow> index_of sep s = None \<longleftrightarrow> (\<forall>j. \<not> prefix sep (drop j s))"
proof (induction s)
  case (Cons c cs)
  have "(\<forall>j. \<not> prefix sep (drop j (c # cs))) \<longleftrightarrow> \<not> prefix sep (c # cs) \<and> (\<forall>j. \<not> prefix sep (drop j cs))"
  proof
    assume a: "\<forall>j. \<not> prefix sep (drop j (c # cs))"
    have "\<not> prefix sep (drop j cs)" for j using a [rule_format, of "Suc j"] by simp
    with a [rule_format, of 0] show "\<not> prefix sep (c # cs) \<and> (\<forall>j. \<not> prefix sep (drop j cs))" by simp
  next
    assume a: "\<not> prefix sep (c # cs) \<and> (\<forall>j. \<not> prefix sep (drop j cs))"
    show "\<forall>j. \<not> prefix sep (drop j (c # cs))"
    proof
      fix j show "\<not> prefix sep (drop j (c # cs))" using a by (cases j) auto
    qed
  qed
  with Cons show ?case by simp
qed simp

lemma index_of_eq:
  assumes "sep \<noteq> ''''" and "prefix sep (drop i s)" and "\<forall>j < i. \<not> prefix sep (drop j s)"
  shows "index_of sep s = Some i"
proof (cases "index_of sep s")
  case None
  then show ?thesis using assms index_of_None by blast
next
  case (Some k)
  from index_of_Some [OF this] assms(2,3) have "\<not> i < k" "\<not> k < i" by blast+
  with Some show ?thesis by simp
qed

lemma cut_True:
  assumes "sep \<noteq> ''''"
  shows "cut s sep = (b, a, True) \<longleftrightarrow> s = b @ sep @ a \<and> (\<forall>j < length b. \<not> prefix sep (drop j s))"
proof
  assume c: "cut s sep = (b, a, True)"
  then obtain i where i: "index_of sep s = Some i" "b = take i s" by (auto simp: cut_def split: option.splits)
  note I = index_of_Some [OF i(1)]
  have "length b = i" using I i(2) by simp
  with I cut_shorter [OF c assms] show "s = b @ sep @ a \<and> (\<forall>j < length b. \<not> prefix sep (drop j s))" by blast
next
  assume r: "s = b @ sep @ a \<and> (\<forall>j < length b. \<not> prefix sep (drop j s))"
  have "prefix sep (drop (length b) s)" using conjunct1 [OF r] by simp
  then have "index_of sep s = Some (length b)" using index_of_eq [OF assms] conjunct2 [OF r] by blast
  then show "cut s sep = (b, a, True)" using r by (simp add: cut_def)
qed

lemma cut_False:
  assumes "sep \<noteq> ''''"
  shows "cut s sep = (b, a, False) \<longleftrightarrow> b = s \<and> a = '''' \<and> (\<forall>j. \<not> prefix sep (drop j s))"
proof (cases "index_of sep s")
  case None
  have "\<forall>j. \<not> prefix sep (drop j s)" using None index_of_None [OF assms] by blast
  with None show ?thesis by (auto simp: cut_def)
next
  case (Some i)
  have "\<not> (\<forall>j. \<not> prefix sep (drop j s))" using Some index_of_None [OF assms, of s] by simp
  with Some show ?thesis by (simp add: cut_def)
qed

lemma prefix_drop_append: "prefix sep (drop j s) \<Longrightarrow> prefix sep (drop j (s @ t))"
  by (auto simp: prefix_def)

lemma cut_append:
  assumes "sep \<noteq> ''''" and "cut s sep = (b, a, True)"
  shows "cut (s @ t) sep = (b, a @ t, True)"
proof -
  from assms have s: "s = b @ sep @ a" "\<forall>j < length b. \<not> prefix sep (drop j s)" using cut_True by blast+
  have "\<not> prefix sep (drop j (s @ t))" if j: "j < length b" for j
  proof
    assume "prefix sep (drop j (s @ t))"
    then have p: "prefix sep (drop j s @ t)" using j s(1) by simp
    have "length sep \<le> length (drop j s)" using j s(1) by simp
    with p have "prefix sep (drop j s)" by (metis append_eq_append_conv_if append_take_drop_id prefix_def)
    with s(2) j show False by blast
  qed
  moreover have "s @ t = b @ sep @ (a @ t)" using s(1) by simp
  ultimately show ?thesis using cut_True [OF assms(1)] by blast
qed

lemma cut_drop:
  assumes "sep \<noteq> ''''" and "cut s sep = (b, a, True)" and "j \<le> length b"
  shows "cut (drop j s) sep = (drop j b, a, True)"
proof -
  from assms have s: "s = b @ sep @ a" "\<forall>i < length b. \<not> prefix sep (drop i s)" using cut_True by blast+
  have "\<not> prefix sep (drop i (drop j s))" if "i < length b - j" for i
    using that s(2) [rule_format, of "i + j"] by simp
  moreover have "drop j s = drop j b @ sep @ a" using s(1) assms(3) by simp
  ultimately show ?thesis using cut_True [OF assms(1)] by (metis length_drop)
qed

lemma last_index_Some:
  "sep \<noteq> '''' \<Longrightarrow> last_index_of sep s = Some i \<Longrightarrow>
     i + length sep \<le> length s \<and> prefix sep (drop i s) \<and> (\<forall>j. prefix sep (drop j s) \<longrightarrow> j \<le> i)"
proof (induction sep s arbitrary: i rule: last_index_of.induct)
  case (2 sep c cs)
  show ?case
  proof (cases "last_index_of sep cs")
    case None
    then have none: "\<not> prefix sep (drop j cs)" for j
      using 2(2)
    proof (induction sep cs arbitrary: j rule: last_index_of.induct)
      case (2 sep c cs)
      from 2(2) have n: "last_index_of sep cs = None" and np: "\<not> prefix sep (c # cs)" by (auto split: option.splits if_splits)
      show ?case using 2(1) [OF n 2(3)] np by (cases j) auto
    qed auto
    have "prefix sep (c # cs)" "i = 0" using 2(3) None by (auto split: if_splits)
    moreover have "j \<le> 0" if "prefix sep (drop j (c # cs))" for j using that none by (cases j) auto
    ultimately show ?thesis using prefix_length_le by fastforce
  next
    case (Some k)
    with 2 have i: "i = Suc k" by auto
    have "j \<le> Suc k" if "prefix sep (drop j (c # cs))" for j
      using that 2(1) [OF 2(2) Some] by (cases j) auto
    with 2(1) [OF 2(2) Some] i show ?thesis by auto
  qed
qed auto

lemma last_index_None: "sep \<noteq> '''' \<Longrightarrow> last_index_of sep s = None \<Longrightarrow> \<not> prefix sep (drop j s)"
proof (induction sep s arbitrary: j rule: last_index_of.induct)
  case (2 sep c cs)
  from 2(3) have n: "last_index_of sep cs = None" and np: "\<not> prefix sep (c # cs)" by (auto split: option.splits if_splits)
  show ?case using 2(1) [OF 2(2) n] np by (cases j) auto
qed auto

section \<open>Nothing is lost\<close>

lemma marker_nonempty [simp]: "reload_marker \<noteq> ''''" "reload_end \<noteq> ''''"
  by (simp_all add: reload_marker_def reload_end_def)

lemma push_pending_hidden:
  "push_pending p True =
     (case cut p reload_end of (before, after, closed) \<Rightarrow>
      if \<not> closed \<or> only_space after then ('''', \<lparr>rs_pending = p, rs_hidden = True\<rparr>)
      else case push_pending after False of (out, s) \<Rightarrow> (before @ reload_end @ out, s))"
  by (subst push_pending.simps) simp

lemma push_pending_shown:
  "push_pending p False =
     (case cut p reload_marker of (before, after, found) \<Rightarrow>
      if found then case push_pending (reload_marker @ after) True of (out, s) \<Rightarrow> (before @ out, s)
      else let k = held_end p (min (length p) (length reload_marker - 1))
           in (take (length p - k) p, \<lparr>rs_pending = drop (length p - k) p, rs_hidden = False\<rparr>))"
  by (subst push_pending.simps) simp

lemma push_lossless: "push_pending p h = (out, s) \<Longrightarrow> out @ rs_pending s = p"
proof (induction p h arbitrary: out s rule: push_pending.induct)
  case (1 p h)
  show ?case
  proof (cases h)
    case True
    obtain before after closed where c: "cut p reload_end = (before, after, closed)" by (metis surj_pair)
    show ?thesis
    proof (cases "closed \<and> \<not> only_space after")
      case False
      with 1(3) True c show ?thesis by (auto simp: push_pending_hidden)
    next
      case cl: True
      obtain o1 s1 where r: "push_pending after False = (o1, s1)" by (metis surj_pair)
      have "o1 @ rs_pending s1 = after" using 1(1) [OF True c [symmetric] refl] cl r by blast
      moreover have "out = before @ reload_end @ o1" "s = s1" using 1(3) True c cl r by (simp_all add: push_pending_hidden)
      moreover have "p = before @ reload_end @ after" using c cl cut_shorter by simp
      ultimately show ?thesis by simp
    qed
  next
    case False
    obtain before after found where c: "cut p reload_marker = (before, after, found)" by (metis surj_pair)
    show ?thesis
    proof (cases found)
      case True
      obtain o1 s1 where r: "push_pending (reload_marker @ after) True = (o1, s1)" by (metis surj_pair)
      have "o1 @ rs_pending s1 = reload_marker @ after" using 1(2) [OF False c [symmetric] refl True r] .
      moreover have "out = before @ o1" "s = s1" using 1(3) False c True r by (simp_all add: push_pending_shown)
      moreover have "p = before @ reload_marker @ after" using c True cut_shorter by simp
      ultimately show ?thesis by simp
    next
      case nf: False
      with 1(3) False c show ?thesis by (auto simp: push_pending_shown Let_def)
    qed
  qed
qed

section \<open>Chunks\<close>

lemma held_le: "held_end p n \<le> n"
  by (induction n) (auto simp: le_SucI)

lemma held_prefix: "0 < held_end p n \<Longrightarrow> prefix (drop (length p - held_end p n) p) reload_marker"
  by (induction n) (auto split: if_splits)

lemma held_max: "0 < k \<Longrightarrow> k \<le> n \<Longrightarrow> prefix (drop (length p - k) p) reload_marker \<Longrightarrow> k \<le> held_end p n"
proof (induction n)
  case (Suc n)
  then show ?case by (cases "k = Suc n") (auto simp: le_SucI)
qed simp

text \<open>A string that does not end inside a space.\<close>

definition whole :: "string \<Rightarrow> bool" where
  "whole s \<longleftrightarrow> (\<forall>p \<in> set space_runes. \<forall>k < length p. 0 < k \<longrightarrow> \<not> suffix (take k p) s)"

lemma whole_suffix: "whole (a @ b) \<Longrightarrow> whole b"
  unfolding whole_def by (meson suffix_appendI)

lemma whole_append:
  assumes "whole a" and "whole b"
  shows "whole (a @ b)"
  unfolding whole_def
proof (intro ballI allI impI notI)
  fix p k assume p: "p \<in> set space_runes" "k < length p" "0 < k" and s: "suffix (take k p) (a @ b)"
  show False
  proof (cases "suffix (take k p) b")
    case True
    with assms(2) p show False by (auto simp: whole_def)
  next
    case False
    with s obtain w where w: "take k p = w @ b" "suffix w a" by (auto simp: suffix_append)
    with False have "w \<noteq> ''''" by auto
    have "length w \<le> k" using arg_cong [OF w(1), of length] p(2) by simp
    then have "w = take (length w) p"
      using arg_cong [OF w(1), of "take (length w)"] by (simp add: min_def)
    moreover have "length w < length p" using arg_cong [OF w(1), of length] p(2) by simp
    ultimately show False using assms(1) p(1) \<open>w \<noteq> ''''\<close> w(2) unfolding whole_def by (metis length_greater_0_conv)
  qed
qed

lemma whole_ascii:
  assumes "s \<noteq> '''' \<Longrightarrow> (of_char (last s) :: nat) < 128"
  shows "whole s"
  unfolding whole_def
proof (intro ballI allI impI notI)
  fix p k assume p: "p \<in> set space_runes" "k < length p" "0 < k" and s: "suffix (take k p) s"
  have "\<forall>p \<in> set space_runes. 1 < length p \<longrightarrow> list_all (\<lambda>c. 128 \<le> (of_char c :: nat)) p" by code_simp
  then have high: "list_all (\<lambda>c. 128 \<le> (of_char c :: nat)) p" using p by auto
  have ne: "take k p \<noteq> ''''" using p by auto
  with s have "s \<noteq> ''''" "last s = last (take k p)" by (auto simp: suffix_def)
  moreover have "last (take k p) \<in> set p" using ne last_in_set in_set_takeD by metis
  ultimately show False using assms high by (auto simp: list_all_iff)
qed

lemma whole_concat: "\<forall>d \<in> set ds. whole d \<Longrightarrow> whole (concat ds)"
proof (induction ds)
  case Nil
  have "\<forall>p \<in> set space_runes. \<forall>k < length p. 0 < k \<longrightarrow> take k p \<noteq> ''''" by (auto simp: take_eq_Nil)
  then show ?case by (simp add: whole_def)
qed (simp add: whole_append)

section \<open>Spaces\<close>

lemma spaces_nonempty: "p \<in> set space_runes \<Longrightarrow> p \<noteq> ''''"
proof -
  have "\<forall>p \<in> set space_runes. p \<noteq> ''''" by code_simp
  then show "p \<in> set space_runes \<Longrightarrow> p \<noteq> ''''" by blast
qed

lemma spaces_prefix_free: "p \<in> set space_runes \<Longrightarrow> q \<in> set space_runes \<Longrightarrow> prefix p q \<Longrightarrow> p = q"
proof -
  have "\<forall>p \<in> set space_runes. \<forall>q \<in> set space_runes. prefix p q \<longrightarrow> p = q" by code_simp
  then show "p \<in> set space_runes \<Longrightarrow> q \<in> set space_runes \<Longrightarrow> prefix p q \<Longrightarrow> p = q" by blast
qed

lemma trim_left_split: "\<exists>ps. set ps \<subseteq> set rs \<and> s = concat ps @ trim_left_fuel rs n s"
proof (induction n arbitrary: s)
  case 0
  show ?case by (rule exI [of _ "[]"]) simp
next
  case (Suc n)
  show ?case
  proof (cases "find (\<lambda>p. prefix p s) rs")
    case None
    show ?thesis by (rule exI [of _ "[]"]) (simp add: None)
  next
    case (Some p)
    then have p: "p \<in> set rs" "prefix p s" by (auto simp: find_Some_iff)
    obtain ps where ps: "set ps \<subseteq> set rs" "drop (length p) s = concat ps @ trim_left_fuel rs n (drop (length p) s)" using Suc by blast
    have "s = p @ drop (length p) s" using p(2) by (metis append_eq_conv_conj prefix_def)
    with ps have "s = concat (p # ps) @ trim_left_fuel rs n (drop (length p) s)" by simp
    then show ?thesis using p(1) ps(1) Some by (intro exI [of _ "p # ps"]) simp
  qed
qed

lemma trim_left_spaces: "set ps \<subseteq> set space_runes \<Longrightarrow> length (concat ps) \<le> n \<Longrightarrow> trim_left_fuel space_runes n (concat ps) = ''''"
proof (induction ps arbitrary: n)
  case Nil
  have "find (\<lambda>p. prefix p '''') space_runes = None" using spaces_nonempty by (auto simp: find_None_iff)
  then show ?case by (cases n) simp_all
next
  case (Cons p ps)
  have p: "p \<in> set space_runes" "p \<noteq> ''''" using Cons.prems(1) spaces_nonempty by simp_all
  have "0 < length p" using p(2) by simp
  then have "length (concat ps) \<le> n - 1" "n = Suc (n - 1)" using Cons.prems(2) unfolding concat.simps length_append by linarith+
  then obtain m where m: "n = Suc m" "length (concat ps) \<le> m" by blast
  have "find (\<lambda>q. prefix q (concat (p # ps))) space_runes \<noteq> None" using p by (auto simp: find_None_iff)
  then obtain q where q: "find (\<lambda>q. prefix q (concat (p # ps))) space_runes = Some q" by auto
  then have "q \<in> set space_runes" "prefix q (p @ concat ps)" by (auto simp: find_Some_iff)
  moreover have "prefix p (p @ concat ps)" by simp
  ultimately have "q = p" using spaces_prefix_free p(1) prefix_same_cases by metis
  with q m Cons.IH [of m] Cons.prems(1) show ?case by simp
qed

lemma blank_iff: "only_space s \<longleftrightarrow> (\<exists>ps. set ps \<subseteq> set space_runes \<and> s = concat ps)"
proof
  assume b: "only_space s"
  define r where "r = trim_left space_runes s"
  obtain ps where ps: "set ps \<subseteq> set space_runes" "s = concat ps @ r"
    using trim_left_split [of space_runes s "length s"] by (auto simp: r_def trim_left_def)
  have "trim_left (map rev space_runes) (rev r) = ''''" using b by (simp add: only_space_def trim_space_def r_def)
  then obtain qs where qs: "set qs \<subseteq> set (map rev space_runes)" "rev r = concat qs"
    using trim_left_split [of "map rev space_runes" "rev r" "length (rev r)"] by (auto simp: trim_left_def)
  have free: "\<not> prefix p r" if "p \<in> set space_runes" for p
    using trim_left_fuel_done [of space_runes s "length s"] spaces_nonempty that by (auto simp: r_def trim_left_def)
  have "qs = []"
  proof (rule ccontr)
    assume "qs \<noteq> []"
    then obtain us u where u: "qs = us @ [u]" by (metis append_butlast_last_id)
    then have "r = rev u @ rev (concat us)" using qs(2) by (metis concat.simps concat_append append_Nil2 rev_append rev_rev_ident)
    moreover have "rev u \<in> set space_runes" using qs(1) u by auto
    ultimately show False using free [of "rev u"] by simp
  qed
  with qs ps show "\<exists>ps. set ps \<subseteq> set space_runes \<and> s = concat ps" by auto
next
  assume "\<exists>ps. set ps \<subseteq> set space_runes \<and> s = concat ps"
  then obtain ps where "set ps \<subseteq> set space_runes" "s = concat ps" by blast
  then have "trim_left space_runes s = ''''" using trim_left_spaces by (simp add: trim_left_def)
  then show "only_space s" by (simp add: only_space_def trim_space_def trim_left_def)
qed

lemma blank_Nil [simp]: "only_space ''''"
  unfolding blank_iff by (rule exI [of _ "[]"]) simp

lemma concat_cut:
  "a @ b = concat ps \<Longrightarrow> \<exists>qs w. a = concat qs @ w \<and> set qs \<subseteq> set ps \<and> (w = '''' \<or> (\<exists>p \<in> set ps. \<exists>k < length p. 0 < k \<and> w = take k p))"
proof (induction ps arbitrary: a)
  case (Cons p ps)
  show ?case
  proof (cases "length a < length p")
    case True
    have "a = take (length a) (a @ b)" by simp
    also have "\<dots> = take (length a) p" using Cons.prems True by simp
    finally show ?thesis using True by (intro exI [of _ "[]"] exI [of _ a]) auto
  next
    case False
    define c where "c = drop (length p) a"
    have "take (length p) a = p" using arg_cong [OF Cons.prems, of "take (length p)"] False by simp
    then have a: "a = p @ c" unfolding c_def by (metis append_take_drop_id)
    then have "c @ b = concat ps" using Cons.prems by simp
    from Cons.IH [OF this] obtain qs w where "c = concat qs @ w" "set qs \<subseteq> set ps"
      "w = '''' \<or> (\<exists>p \<in> set ps. \<exists>k < length p. 0 < k \<and> w = take k p)" by blast
    then show ?thesis using a by (intro exI [of _ "p # qs"] exI [of _ w]) auto
  qed
qed simp

lemma blank_whole:
  assumes "only_space (a @ b)" and "whole a"
  shows "only_space a"
proof -
  obtain ps where ps: "set ps \<subseteq> set space_runes" "a @ b = concat ps" using assms(1) blank_iff by blast
  from concat_cut [OF ps(2)] obtain qs w where
    a: "a = concat qs @ w" "set qs \<subseteq> set ps" and w: "w = '''' \<or> (\<exists>p \<in> set ps. \<exists>k < length p. 0 < k \<and> w = take k p)" by blast
  have "w = ''''"
  proof (rule ccontr)
    assume "w \<noteq> ''''"
    then obtain p k where "p \<in> set space_runes" "k < length p" "0 < k" "w = take k p" using w ps(1) by blast
    with assms(2) a(1) show False unfolding whole_def by (metis suffixI)
  qed
  with a ps(1) show ?thesis unfolding blank_iff by (intro exI [of _ qs]) auto
qed

section \<open>The chunks do not matter\<close>

lemma held_apart:
  assumes nf: "\<forall>j. \<not> prefix reload_marker (drop j p)" and i: "i < length p - held_end p (min (length p) (length reload_marker - 1))"
  shows "\<not> prefix reload_marker (drop i p @ x)" and "\<not> prefix (drop i p @ x) reload_marker"
proof -
  define w where "w = drop i p"
  have pos: "0 < length w" using i by (simp add: w_def)
  have wp: "drop (length p - length w) p = w" using i by (simp add: w_def)
  have a: "\<not> prefix reload_marker w" using nf by (simp add: w_def)
  have b: "\<not> prefix w reload_marker"
  proof
    assume p: "prefix w reload_marker"
    then have "w \<noteq> reload_marker" "length w \<le> length reload_marker" using a prefix_length_le by auto
    with p have "length w \<le> length reload_marker - 1" by (metis One_nat_def Suc_pred le_neq_implies_less length_greater_0_conv less_Suc_eq_le marker_nonempty(1) prefix_def append_eq_append_conv append_Nil2)
    moreover have "length w \<le> length p" by (simp add: w_def)
    ultimately have "length w \<le> held_end p (min (length p) (length reload_marker - 1))"
      using held_max [OF pos, of _ p] p wp by simp
    with i show False by (simp add: w_def)
  qed
  show "\<not> prefix reload_marker (drop i p @ x)"
    using a b unfolding w_def [symmetric] by (metis prefix_same_cases prefixI)
  show "\<not> prefix (drop i p @ x) reload_marker"
    using b unfolding w_def [symmetric] by (metis append_prefixD)
qed

lemma held_join:
  assumes apart: "\<forall>i < length v. \<not> prefix (drop i v @ r) reload_marker"
  shows "held_end (v @ r) (min (length (v @ r)) m) = held_end r (min (length r) m)"
proof (rule antisym)
  define k where "k = held_end (v @ r) (min (length (v @ r)) m)"
  have le: "k \<le> length (v @ r)" "k \<le> m" using held_le [of "v @ r" "min (length (v @ r)) m"] by (simp_all add: k_def)
  show "held_end (v @ r) (min (length (v @ r)) m) \<le> held_end r (min (length r) m)"
  proof (cases "k = 0")
    case False
    then have p: "prefix (drop (length (v @ r) - k) (v @ r)) reload_marker" using held_prefix [of "v @ r"] unfolding k_def by blast
    have "k \<le> length r"
    proof (rule ccontr)
      assume "\<not> k \<le> length r"
      then have "length (v @ r) - k < length v" "length v + length r - k - length v = 0" using le by simp_all
      with p apart show False by simp
    qed
    with p held_max [of k "min (length r) m" r] False le(2) have "k \<le> held_end r (min (length r) m)" by simp
    then show ?thesis unfolding k_def .
  qed (simp add: k_def)
next
  define k where "k = held_end r (min (length r) m)"
  have le: "k \<le> length r" "k \<le> m" using held_le [of r "min (length r) m"] by (simp_all add: k_def)
  show "held_end r (min (length r) m) \<le> held_end (v @ r) (min (length (v @ r)) m)"
  proof (cases "k = 0")
    case False
    then have "prefix (drop (length r - k) r) reload_marker" using held_prefix by (simp add: k_def)
    with held_max [of k "min (length (v @ r)) m" "v @ r"] False le have "k \<le> held_end (v @ r) (min (length (v @ r)) m)" by simp
    then show ?thesis unfolding k_def .
  qed (simp add: k_def)
qed

lemma push_open:
  assumes apart: "\<forall>i < length v. \<not> prefix (drop i v @ r) reload_marker \<and> \<not> prefix reload_marker (drop i v @ r)"
  shows "push_pending (v @ r) False = (case push_pending r False of (out, s) \<Rightarrow> (v @ out, s))"
proof -
  obtain b a found where c: "cut r reload_marker = (b, a, found)" by (metis surj_pair)
  have early: "\<not> prefix reload_marker (drop j (v @ r))" if "j < length v" for j using apart that by simp
  have late: "drop j (v @ r) = drop (j - length v) r" if "\<not> j < length v" for j using that by simp
  show ?thesis
  proof (cases found)
    case True
    with c have "cut r reload_marker = (b, a, True)" by simp
    then have r: "r = b @ reload_marker @ a" "\<forall>j < length b. \<not> prefix reload_marker (drop j r)"
      using cut_True [OF marker_nonempty(1)] by blast+
    have "\<not> prefix reload_marker (drop j (v @ r))" if "j < length (v @ b)" for j
      using that early [of j] r(2) [rule_format, of "j - length v"] late [of j] by (cases "j < length v") auto
    moreover have "v @ r = (v @ b) @ reload_marker @ a" using r(1) by simp
    ultimately have "cut (v @ r) reload_marker = (v @ b, a, True)" using cut_True [OF marker_nonempty(1)] by blast
    with c True show ?thesis by (simp add: push_pending_shown split: prod.splits)
  next
    case False
    with c have n: "\<forall>j. \<not> prefix reload_marker (drop j r)" using cut_False [of reload_marker r b a] by simp
    have "\<not> prefix reload_marker (drop j (v @ r))" for j
      using early [of j] n late [of j] by (cases "j < length v") auto
    then have "cut (v @ r) reload_marker = (v @ r, '''', False)" using cut_False [OF marker_nonempty(1)] by blast
    moreover have "held_end (v @ r) (min (length (v @ r)) (length reload_marker - 1)) = held_end r (min (length r) (length reload_marker - 1))"
      by (rule held_join) (use apart in blast)
    moreover have "held_end r (min (length r) (length reload_marker - 1)) \<le> length r" using held_le [of r] by (meson le_trans min.cobounded1)
    ultimately show ?thesis using c False by (simp add: push_pending_shown Let_def)
  qed
qed

lemma push_chunk:
  "push_pending p h = (v, s) \<Longrightarrow> whole p \<Longrightarrow>
     push_pending (p @ d) h = (case push_pending (rs_pending s @ d) (rs_hidden s) of (v', s') \<Rightarrow> (v @ v', s'))"
proof (induction p h arbitrary: v s rule: push_pending.induct)
  case (1 p h)
  show ?case
  proof (cases h)
    case True
    obtain before after closed where c: "cut p reload_end = (before, after, closed)" by (metis surj_pair)
    show ?thesis
    proof (cases "closed \<and> \<not> only_space after")
      case False
      then have "v = ''''" "s = \<lparr>rs_pending = p, rs_hidden = True\<rparr>" using 1(3) True c by (auto simp: push_pending_hidden)
      then show ?thesis by (simp add: True split: prod.splits)
    next
      case cl: True
      obtain o1 s1 where r: "push_pending after False = (o1, s1)" by (metis surj_pair)
      have v: "v = before @ reload_end @ o1" "s = s1" using 1(3) True c cl r by (simp_all add: push_pending_hidden)
      have p: "p = before @ reload_end @ after" using c cl cut_shorter by simp
      have wh: "whole after" using 1(4) p whole_suffix [of "before @ reload_end" after] by simp
      have nb: "\<not> only_space (after @ d)" using blank_whole wh cl by blast
      have "cut (p @ d) reload_end = (before, after @ d, True)" using cut_append c cl by simp
      moreover have "push_pending (after @ d) False = (case push_pending (rs_pending s1 @ d) (rs_hidden s1) of (v', s') \<Rightarrow> (o1 @ v', s'))"
        using 1(1) [OF True c [symmetric] refl _ r wh] cl by blast
      ultimately show ?thesis using True nb v by (simp add: push_pending_hidden split: prod.splits)
    qed
  next
    case False
    obtain before after found where c: "cut p reload_marker = (before, after, found)" by (metis surj_pair)
    show ?thesis
    proof (cases found)
      case True
      obtain o1 s1 where r: "push_pending (reload_marker @ after) True = (o1, s1)" by (metis surj_pair)
      have v: "v = before @ o1" "s = s1" using 1(3) False c True r by (simp_all add: push_pending_shown)
      have p: "p = before @ reload_marker @ after" using c True cut_shorter by simp
      have wh: "whole (reload_marker @ after)" using 1(4) p whole_suffix by simp
      have "cut (p @ d) reload_marker = (before, after @ d, True)" using cut_append c True by simp
      moreover have "push_pending (reload_marker @ after @ d) True
          = (case push_pending (rs_pending s1 @ d) (rs_hidden s1) of (v', s') \<Rightarrow> (o1 @ v', s'))"
        using 1(2) [OF False c [symmetric] refl True r wh] by simp
      ultimately show ?thesis using False v by (simp add: push_pending_shown [of "p @ d"] split: prod.splits)
    next
      case nf: False
      define k where "k = held_end p (min (length p) (length reload_marker - 1))"
      have none: "\<forall>j. \<not> prefix reload_marker (drop j p)" using c nf cut_False [of reload_marker p before after] by simp
      have v: "v = take (length p - k) p" "s = \<lparr>rs_pending = drop (length p - k) p, rs_hidden = False\<rparr>"
        using 1(3) False c nf by (simp_all add: push_pending_shown k_def Let_def)
      have vp: "p = v @ rs_pending s" using v by simp
      have "\<not> prefix (drop i v @ rs_pending s @ d) reload_marker \<and> \<not> prefix reload_marker (drop i v @ rs_pending s @ d)" if "i < length v" for i
      proof -
        have "drop i v @ rs_pending s @ d = drop i p @ d" using that arg_cong [OF vp, of "\<lambda>x. drop i x @ d"] by simp
        moreover have "i < length p - k" using that v(1) by simp
        ultimately show ?thesis using held_apart [OF none, of i d] unfolding k_def by metis
      qed
      then have "push_pending (v @ rs_pending s @ d) False = (case push_pending (rs_pending s @ d) False of (out, s') \<Rightarrow> (v @ out, s'))"
        using push_open by blast
      moreover have "p @ d = v @ rs_pending s @ d" using vp by simp
      moreover have "rs_hidden s = False" using v(2) by simp
      ultimately show ?thesis using False by simp
    qed
  qed
qed

lemma push_all_snoc: "push_all (ds @ [d]) = (case push_all ds of (out, s) \<Rightarrow> case push d s of (v, s') \<Rightarrow> (out @ v, s'))"
  by (simp add: push_all_def split: prod.splits)

lemma push_all_whole: "\<forall>d \<in> set ds. whole d \<Longrightarrow> push_all ds = push_pending (concat ds) False"
proof (induction ds rule: rev_induct)
  case Nil
  have "cut '''' reload_marker = ('''', '''', False)" by code_simp
  then show ?case by (simp add: push_all_def new_stream_def push_pending_shown)
next
  case (snoc d ds)
  obtain out s where r: "push_pending (concat ds) False = (out, s)" by (metis surj_pair)
  have "whole (concat ds)" using snoc.prems whole_concat by simp
  from push_chunk [OF r this, of d] snoc r show ?case
    by (simp add: push_all_snoc push_def split: prod.splits)
qed

end
