(* ===== verification/Reload_Shown.thy ===== *)
theory Reload_Shown
  imports Reload_Stream
begin

text \<open>What is shown while an answer streams is the start of what is shown of the completed answer.\<close>

section \<open>Overlaps\<close>

lemma overlap:
  assumes "prefix a (drop i s)" and "prefix b (drop j s)" and "i \<le> j" and "j < i + length a"
  shows "prefix b (drop (j - i) a) \<or> prefix (drop (j - i) a) b"
proof -
  obtain y where y: "drop i s = a @ y" using assms(1) by (auto simp: prefix_def)
  have "drop j s = drop (j - i) (drop i s)" using assms(3) by simp
  also have "\<dots> = drop (j - i) a @ y" using y assms(3,4) by simp
  finally have "prefix (drop (j - i) a) (drop j s)" by simp
  with assms(2) show ?thesis using prefix_same_cases by blast
qed

lemma marker_over_end:
  "0 < m \<Longrightarrow> m < length reload_marker \<Longrightarrow> \<not> prefix reload_end (drop m reload_marker) \<and> \<not> prefix (drop m reload_marker) reload_end"
proof -
  have "\<forall>m \<in> set [1..<length reload_marker]. \<not> prefix reload_end (drop m reload_marker) \<and> \<not> prefix (drop m reload_marker) reload_end"
    by code_simp
  then show "0 < m \<Longrightarrow> m < length reload_marker \<Longrightarrow> ?thesis" by simp
qed

lemma end_over_marker:
  "m < length reload_end \<Longrightarrow> \<not> prefix reload_marker (drop m reload_end) \<and> \<not> prefix (drop m reload_end) reload_marker"
proof -
  have "\<forall>m \<in> set [0..<length reload_end]. \<not> prefix reload_marker (drop m reload_end) \<and> \<not> prefix (drop m reload_end) reload_marker"
    by code_simp
  then show "m < length reload_end \<Longrightarrow> ?thesis" by simp
qed

lemma end_over_end:
  "0 < m \<Longrightarrow> m < length reload_end \<Longrightarrow> \<not> prefix reload_end (drop m reload_end) \<and> \<not> prefix (drop m reload_end) reload_end"
proof -
  have "\<forall>m \<in> set [1..<length reload_end]. \<not> prefix reload_end (drop m reload_end) \<and> \<not> prefix (drop m reload_end) reload_end"
    by code_simp
  then show "0 < m \<Longrightarrow> m < length reload_end \<Longrightarrow> ?thesis" by simp
qed

section \<open>Closed blocks\<close>

definition block_closed :: "string \<Rightarrow> nat \<Rightarrow> bool" where
  "block_closed s i \<longleftrightarrow> (\<exists>x a. cut (drop (i + length reload_marker) s) reload_end = (x, a, True) \<and> \<not> only_space a)"

definition blocks_closed :: "string \<Rightarrow> nat \<Rightarrow> bool" where
  "blocks_closed s n \<longleftrightarrow> (\<forall>i < n. prefix reload_marker (drop i s) \<longrightarrow> block_closed s i)"

definition stream_good :: "string \<Rightarrow> reload_stream \<Rightarrow> bool" where
  "stream_good t s \<longleftrightarrow> (if rs_hidden s then prefix reload_marker (rs_pending s)
     else (\<forall>w. suffix w t \<and> prefix w reload_marker \<and> w \<noteq> reload_marker \<longrightarrow> length w \<le> length (rs_pending s)))"

lemma block_before_end:
  assumes c: "cut p reload_end = (b, a, True)" and m: "prefix reload_marker (drop j p)" and j: "j < length b + length reload_end"
  shows "j + length reload_marker \<le> length b"
proof (rule ccontr)
  assume n: "\<not> j + length reload_marker \<le> length b"
  have p: "p = b @ reload_end @ a" using c cut_shorter by simp
  then have e: "prefix reload_end (drop (length b) p)" by simp
  show False
  proof (cases "j < length b")
    case True
    with overlap [OF m e] n marker_over_end [of "length b - j"] show False by fastforce
  next
    case False
    with overlap [OF e m] j end_over_marker [of "j - length b"] show False by fastforce
  qed
qed

lemma stream_blocks:
  assumes "push_pending p h = (v, s)" and "t = out @ p" and "blocks_closed t (length out)"
    and "h \<Longrightarrow> prefix reload_marker p" and "out \<noteq> '''' \<Longrightarrow> \<not> h \<Longrightarrow> last out = CHR ''>''"
  shows "blocks_closed t (length (out @ v)) \<and> stream_good t s"
  using assms
proof (induction p h arbitrary: out v s rule: push_pending.induct)
  case (1 p h)
  show ?case
  proof (cases h)
    case True
    obtain before after closed where c: "cut p reload_end = (before, after, closed)" by (metis surj_pair)
    show ?thesis
    proof (cases "closed \<and> \<not> only_space after")
      case False
      then have "v = ''''" "s = \<lparr>rs_pending = p, rs_hidden = True\<rparr>" using 1(3) True c by (auto simp: push_pending_hidden)
      then show ?thesis using 1(5,6) True by (simp add: stream_good_def)
    next
      case cl: True
      obtain o1 s1 where r: "push_pending after False = (o1, s1)" by (metis surj_pair)
      have v: "v = before @ reload_end @ o1" "s = s1" using 1(3) True c cl r by (simp_all add: push_pending_hidden)
      have p: "p = before @ reload_end @ after" using c cl cut_shorter by simp
      define out1 where "out1 = out @ before @ reload_end"
      have ends: "last out1 = CHR ''>''" by (simp add: out1_def reload_end_def)
      have "block_closed t i" if i: "i < length out1" and m: "prefix reload_marker (drop i t)" for i
      proof (cases "i < length out")
        case True
        with 1(5) m show ?thesis by (simp add: blocks_closed_def)
      next
        case False
        define j where "j = i - length out"
        have d: "drop k t = drop (k - length out) p" if "length out \<le> k" for k using that 1(4) by simp
        have "j + length reload_marker \<le> length before"
          by (rule block_before_end [of p before after]) (use c cl m d [of i] False i in \<open>simp_all add: j_def out1_def\<close>)
        from cut_drop [OF marker_nonempty(2) _ this] c cl
        have "cut (drop (j + length reload_marker) p) reload_end = (drop (j + length reload_marker) before, after, True)" by simp
        moreover have "drop (i + length reload_marker) t = drop (j + length reload_marker) p"
          using d [of "i + length reload_marker"] False by (simp add: j_def)
        ultimately show ?thesis using cl unfolding block_closed_def by auto
      qed
      then have b: "blocks_closed t (length out1)" by (simp add: blocks_closed_def)
      have "blocks_closed t (length (out1 @ o1)) \<and> stream_good t s1"
        by (rule 1(1) [OF True c [symmetric] refl _ r _ b]) (use cl ends 1(4) p in \<open>simp_all add: out1_def\<close>)
      then show ?thesis by (simp add: v out1_def)
    qed
  next
    case False
    obtain before after found where c: "cut p reload_marker = (before, after, found)" by (metis surj_pair)
    have clear: "blocks_closed t (length out + n)" if "\<forall>j < n. \<not> prefix reload_marker (drop j p)" for n
      unfolding blocks_closed_def
    proof (intro allI impI)
      fix i assume i: "i < length out + n" and m: "prefix reload_marker (drop i t)"
      show "block_closed t i"
      proof (cases "i < length out")
        case True
        with 1(5) m show ?thesis by (simp add: blocks_closed_def)
      next
        case False
        then have "drop i t = drop (i - length out) p" "i - length out < n" using 1(4) i by simp_all
        with that m show ?thesis by simp
      qed
    qed
    show ?thesis
    proof (cases found)
      case True
      obtain o1 s1 where r: "push_pending (reload_marker @ after) True = (o1, s1)" by (metis surj_pair)
      have v: "v = before @ o1" "s = s1" using 1(3) False c True r by (simp_all add: push_pending_shown)
      have "cut p reload_marker = (before, after, True)" using c True by simp
      then have p: "p = before @ reload_marker @ after" "\<forall>j < length before. \<not> prefix reload_marker (drop j p)"
        using cut_True [OF marker_nonempty(1)] by blast+
      have b: "blocks_closed t (length (out @ before))" using clear [OF p(2)] by simp
      have "blocks_closed t (length ((out @ before) @ o1)) \<and> stream_good t s1"
        by (rule 1(2) [OF False c [symmetric] refl True r _ b]) (use 1(4) p(1) in simp_all)
      then show ?thesis by (simp add: v)
    next
      case nf: False
      define k where "k = held_end p (min (length p) (length reload_marker - 1))"
      have none: "\<forall>j. \<not> prefix reload_marker (drop j p)" using c nf cut_False [of reload_marker p before after] by simp
      have v: "v = take (length p - k) p" "s = \<lparr>rs_pending = drop (length p - k) p, rs_hidden = False\<rparr>"
        using 1(3) False c nf by (simp_all add: push_pending_shown k_def Let_def)
      have kl: "k \<le> length p" using held_le [of p "min (length p) (length reload_marker - 1)"] unfolding k_def by simp
      have "length w \<le> k" if w: "suffix w t" "prefix w reload_marker" "w \<noteq> reload_marker" for w
      proof (cases "suffix w p")
        case True
        define i where "i = length p - length w"
        have wi: "drop i p = w" using True by (auto simp: suffix_def i_def)
        show ?thesis
        proof (rule ccontr)
          assume "\<not> length w \<le> k"
          then have "i < length p - k" using suffix_length_le [OF True] by (simp add: i_def)
          with held_apart(2) [OF none, of i "''''"] wi w(2) show False by (simp add: k_def)
        qed
      next
        case nsp: False
        with w(1) 1(4) obtain u where u: "w = u @ p" "suffix u out" by (auto simp: suffix_append)
        with nsp have "u \<noteq> ''''" "out \<noteq> ''''" by auto
        then have "last u = CHR ''>''" using 1(7) False u(2) by (metis append_is_Nil_conv last_appendR suffix_def)
        then have "CHR ''>'' \<in> set w" using \<open>u \<noteq> ''''\<close> u(1) by (metis UnCI last_in_set set_append)
        moreover obtain zs where z: "reload_marker = w @ zs" using w(2) unfolding prefix_def by blast
        have "zs \<noteq> ''''" using z w(3) by (metis append_Nil2)
        then have "set w \<subseteq> set (butlast reload_marker)" unfolding z by (auto simp: butlast_append)
        moreover have "CHR ''>'' \<notin> set (butlast reload_marker)" by code_simp
        ultimately show ?thesis by blast
      qed
      then have "stream_good t s" using v(2) kl by (simp add: stream_good_def)
      moreover have "blocks_closed t (length (out @ v))" using clear [of "length v"] none by simp
      ultimately show ?thesis by simp
    qed
  qed
qed
section \<open>The completed answer\<close>

lemma trim_space_parts: "\<exists>l r. s = l @ trim_space s @ r \<and> only_space l \<and> only_space r"
proof -
  define q where "q = trim_left space_runes s"
  obtain ps where ps: "set ps \<subseteq> set space_runes" "s = concat ps @ q"
    using trim_left_split [of space_runes s "length s"] by (auto simp: q_def trim_left_def)
  obtain qs where qs: "set qs \<subseteq> set (map rev space_runes)" "rev q = concat qs @ rev (trim_space s)"
    using trim_left_split [of "map rev space_runes" "rev q" "length (rev q)"]
    by (auto simp: q_def trim_left_def trim_space_def)
  define rs where "rs = map rev (rev qs)"
  have "q = trim_space s @ concat rs" using arg_cong [OF qs(2), of rev] by (simp add: rs_def rev_concat)
  moreover have "set rs \<subseteq> set space_runes" using qs(1) by (auto simp: rs_def)
  ultimately have "s = concat ps @ trim_space s @ concat rs" "only_space (concat ps)" "only_space (concat rs)"
    using ps blank_iff by auto
  then show ?thesis by blast
qed

lemma cut_last_True:
  assumes "sep \<noteq> ''''" and "cut_last s sep = (b, r, True)"
  shows "s = b @ sep @ r" and "prefix sep (drop j s) \<Longrightarrow> j \<le> length b"
proof -
  obtain i where i: "last_index_of sep s = Some i" "b = take i s" "r = drop (i + length sep) s"
    using assms(2) by (auto simp: cut_last_def split: option.splits)
  note I = last_index_Some [OF assms(1) i(1)]
  have "s = take i s @ drop i s" by simp
  moreover have "drop i s = sep @ drop (length sep) (drop i s)" using I by (metis append_eq_conv_conj prefix_def)
  ultimately show "s = b @ sep @ r" using i(2,3) by (metis add.commute drop_drop)
  have "length b = i" using I i(2) by simp
  then show "prefix sep (drop j s) \<Longrightarrow> j \<le> length b" using I by blast
qed

text \<open>At most one closing tag follows the last opening tag.\<close>

definition single_end :: "string \<Rightarrow> bool" where
  "single_end s = (case cut_last s reload_marker of (_, rest, _) \<Rightarrow>
     case cut rest reload_end of (_, after, _) \<Rightarrow> \<not> contains after reload_end)"

lemma containsI: "prefix sep (drop j s) \<Longrightarrow> sep \<noteq> '''' \<Longrightarrow> contains s sep"
  unfolding contains_def using index_of_None [of sep s] by blast

lemma closed_not_terminal:
  assumes c: "cut rest reload_end = (x, a, True)" and a: "\<not> only_space a" "\<not> contains a reload_end"
  shows "\<not> suffix reload_end (trim_space rest)"
proof
  assume "suffix reload_end (trim_space rest)"
  then obtain y where y: "trim_space rest = y @ reload_end" by (auto simp: suffix_def)
  from trim_space_parts [of rest] obtain l r where lr: "rest = l @ trim_space rest @ r" "only_space r" by blast
  define e where "e = length (l @ y)"
  have rest: "rest = (l @ y) @ reload_end @ r" using lr(1) unfolding y by simp
  then have pe: "prefix reload_end (drop e rest)" by (simp add: e_def)
  have x: "rest = x @ reload_end @ a" "\<forall>j < length x. \<not> prefix reload_end (drop j rest)" using c cut_True [OF marker_nonempty(2)] by blast+
  have px: "prefix reload_end (drop (length x) rest)" using x(1) by simp
  have ge: "length x \<le> e" using x(2) pe by (meson leI)
  show False
  proof (cases "e < length x + length reload_end")
    case True
    show False
    proof (cases "e = length x")
      case True
      then have "a = r" using arg_cong [OF rest, of "drop (e + length reload_end)"] arg_cong [OF x(1), of "drop (e + length reload_end)"]
        by (simp add: e_def)
      with a(1) lr(2) show False by simp
    next
      case False
      with overlap [OF px pe ge True] ge True end_over_end [of "e - length x"] show False by auto
    qed
  next
    case False
    then have "drop e rest = drop (e - length x - length reload_end) a" using arg_cong [OF x(1), of "drop e"] ge by simp
    with pe a(2) containsI show False by (metis marker_nonempty(2))
  qed
qed

lemma shown_prefix:
  assumes p: "push_pending t False = (v, s)" and one: "single_end t"
  shows "prefix v (reload_text t)"
proof -
  have "blocks_closed t (length ('''' @ v)) \<and> stream_good t s"
    by (rule stream_blocks [OF p]) (simp_all add: blocks_closed_def)
  then have closed: "blocks_closed t (length v)" and good: "stream_good t s" by simp_all
  have t: "t = v @ rs_pending s" using push_lossless [OF p] by simp
  have long: "prefix v (b @ [newline])" if "t = b @ u" "length v \<le> length b" for b u
    using that t by (metis append_eq_append_conv_if append_take_drop_id prefixI prefix_append prefix_def)
  show ?thesis
  proof (cases "cut_last t reload_marker")
    case (fields b rest found)
    have marked: "length v \<le> length b \<or> (\<exists>x a. cut rest reload_end = (x, a, True) \<and> \<not> only_space a \<and> \<not> contains a reload_end)"
      if f: "cut_last t reload_marker = (b, rest, True)"
    proof (cases "length v \<le> length b")
      case False
      have bt: "t = b @ reload_marker @ rest" using cut_last_True(1) [OF marker_nonempty(1) f] .
      then have "block_closed t (length b)" using closed False by (simp add: blocks_closed_def)
      moreover have "drop (length b + length reload_marker) t = rest" using bt by simp
      ultimately obtain x a where "cut rest reload_end = (x, a, True)" "\<not> only_space a" unfolding block_closed_def by auto
      with one f show ?thesis by (auto simp: single_end_def)
    qed simp
    have body: "length v \<le> length b" if f: "cut_last t reload_marker = (b, rest, True)"
      and h: "suffix reload_end (trim_space rest) \<or> \<not> contains rest reload_end"
    proof (rule ccontr)
      assume "\<not> length v \<le> length b"
      with marked [OF f] obtain x a where x: "cut rest reload_end = (x, a, True)" "\<not> only_space a" "\<not> contains a reload_end" by blast
      have "contains rest reload_end" using x(1) by (auto simp: cut_def contains_def split: option.splits)
      with h closed_not_terminal [OF x] show False by blast
    qed
    have line: "length v \<le> length before"
      if l: "cut_last t [newline] = (before, tail, True)" and pt: "prefix tail reload_start" for before tail
    proof (rule ccontr)
      assume n: "\<not> length v \<le> length before"
      have bt: "t = before @ [newline] @ tail" using cut_last_True(1) [OF _ l] by simp
      then have w: "suffix (newline # tail) t" "prefix (newline # tail) reload_marker" using pt by (auto simp: suffix_def reload_marker_def)
      show False
      proof (cases "newline # tail = reload_marker")
        case True
        then have "prefix reload_marker (drop (length before) t)" "drop (length before + length reload_marker) t = ''''"
          using bt by (simp_all add: reload_marker_def)
        moreover have "block_closed t (length before)" using calculation(1) closed n by (simp add: blocks_closed_def)
        ultimately show False unfolding block_closed_def by (auto simp: cut_def reload_end_def)
      next
        case False
        have "length t = length v + length (rs_pending s)" using t by (metis length_append)
        moreover have "length t = length before + length (newline # tail)" using bt by simp
        ultimately have "length (rs_pending s) < length (newline # tail)" using n by simp
        moreover have "\<not> rs_hidden s"
        proof
          assume "rs_hidden s"
          then have "prefix [newline] (drop (length v) t)"
            using good t by (auto simp: stream_good_def reload_marker_def prefix_def)
          then have "length v \<le> length before" using cut_last_True(2) [OF _ l] by simp
          with n show False by simp
        qed
        ultimately show False using good w False unfolding stream_good_def by fastforce
      qed
    qed
    have whole: "prefix v t" using t by (metis prefixI)
    show ?thesis
    proof (cases "split_compact_reload t")
      case (Some r)
      then have "found" "suffix reload_end (trim_space rest)" "fst r = b @ [newline]"
        using fields by (auto simp: split_compact_reload_def Let_def split: if_splits)
      moreover have "t = b @ reload_marker @ rest" using cut_last_True(1) [OF marker_nonempty(1)] fields calculation(1) by simp
      ultimately have "prefix v (fst r)" using long body fields by simp
      moreover have "reload_text t = fst r" using Some by (simp add: reload_text_def split_beta)
      ultimately show ?thesis by simp
    next
      case None
      show ?thesis
      proof (cases "found \<and> \<not> contains rest reload_end")
        case True
        moreover have "t = b @ reload_marker @ rest" using cut_last_True(1) [OF marker_nonempty(1)] fields True by simp
        ultimately show ?thesis using None long body fields by (simp add: reload_text_def)
      next
        case False
        obtain before tail broken where l: "cut_last t [newline] = (before, tail, broken)" by (metis surj_pair)
        show ?thesis
        proof (cases "broken \<and> prefix ''<mekugi-'' tail \<and> prefix tail reload_start")
          case True
          moreover have "t = before @ [newline] @ tail" using cut_last_True(1) [of "[newline]"] l True by simp
          ultimately have "prefix v (before @ [newline])" using l long line by simp
          moreover have "reload_text t = before @ [newline]" using None False True l fields by (auto simp: reload_text_def)
          ultimately show ?thesis by simp
        next
          case nl: False
          with None False l fields whole show ?thesis by (auto simp: reload_text_def)
        qed
      qed
    qed
  qed
qed

end
