(* ===== verification/Transcript_Properties.thy ===== *)
theory Transcript_Properties
  imports Transcript_Feed Reload_Shown
begin

text \<open>Properties of streamed answers and of the transcript of an attached session.\<close>

section \<open>Streamed answers\<close>

lemma push_all_lossless: "push_all ds = (out, s) \<Longrightarrow> out @ rs_pending s = concat ds"
proof (induction ds arbitrary: out s rule: rev_induct)
  case (snoc d ds)
  obtain o1 s1 where r: "push_all ds = (o1, s1)" by (metis surj_pair)
  obtain o2 s2 where p: "push d s1 = (o2, s2)" by (metis surj_pair)
  have "out = o1 @ o2" "s = s2" using snoc.prems r p by (simp_all add: push_all_snoc)
  moreover have "o2 @ rs_pending s2 = rs_pending s1 @ d" using p by (intro push_lossless [of _ "rs_hidden s1"]) (simp add: push_def)
  ultimately show ?case using snoc.IH [OF r] by simp
qed (simp add: push_all_def new_stream_def)

text \<open>
  C31: Chunks do not matter.  However an answer is cut into chunks, the stream shows the same
  text and ends in the same state, and what it shows with what it withholds is the answer.  No
  chunk ends inside a space that takes several bytes.
\<close>

theorem stream_chunks_irrelevant:
  assumes "\<forall>d \<in> set ds. whole d"
  shows "push_all ds = push_all [concat ds] \<and> fst (push_all ds) @ rs_pending (snd (push_all ds)) = concat ds"
proof -
  have "\<forall>d \<in> set [concat ds]. whole d" using assms whole_concat by simp
  from push_all_whole [OF this] push_all_whole [OF assms] have "push_all ds = push_all [concat ds]" by simp
  then show ?thesis using push_all_lossless [of ds] by (metis prod.collapse)
qed

theorem stream_chunks_irrelevant_witness:
  "push_all [''Done'' @ [newline] @ ''<mekugi-'', ''reload-v1>x'', ''</mekugi-reload-v1> y'']
    = push_all [''Done'' @ [newline] @ ''<mekugi-reload-v1>x</mekugi-reload-v1> y'']"
proof -
  have "\<forall>d \<in> set [''Done'' @ [newline] @ ''<mekugi-'', ''reload-v1>x'', ''</mekugi-reload-v1> y'']. whole d"
    by (auto intro!: whole_ascii)
  from stream_chunks_irrelevant [OF this] show ?thesis by simp
qed

text \<open>
  The closing tag inside the metadata of a terminal block: the stream shows what the completed
  answer hides.
\<close>

lemma closing_tag_shown:
  "fst (push_all [newline # ''<mekugi-reload-v1>a</mekugi-reload-v1>b</mekugi-reload-v1>'']) \<noteq> ''''
    \<and> reload_text (newline # ''<mekugi-reload-v1>a</mekugi-reload-v1>b</mekugi-reload-v1>'') = [newline]"
  by code_simp

definition streamed :: "text_update list \<Rightarrow> string" where
  "streamed us = concat (map tx_text (filter (\<lambda>u. tx_kind u = ''text'') us))"


lemma streamed_append [simp]: "streamed (us @ vs) = streamed us @ streamed vs" "streamed [] = ''''"
  by (simp_all add: streamed_def)


lemma admit_open:
  assumes "alist_get (at_turns a) (t, u) = Some (Some ts)" and "\<not> at_retired a" and "t \<noteq> ''''" and "u \<noteq> ''''"
  shows "admit_turn t u a = (Some ts, open_thread t a)"
  using assms by (simp add: admit_turn_def alist_zero_def)

lemma open_thread_retired [simp]: "at_retired (open_thread t a) = at_retired a"
  by (simp add: open_thread_def put_thread_def)






text \<open>An attached session with one open turn, for the witnesses.\<close>

definition demo_ref :: item_ref where
  "demo_ref = \<lparr>ref_thread = ''t'', ref_turn = ''u'', ref_item = ''m''\<rparr>"

definition demo_item :: "string \<Rightarrow> string \<Rightarrow> text_item" where
  "demo_item kind body = \<lparr>ti_ref = demo_ref, ti_type = kind, ti_text = body, ti_status = '''', ti_summary = [], ti_async_question = False, ti_final = False\<rparr>"

definition demo_delta :: "string \<Rightarrow> text_event" where
  "demo_delta d = \<lparr>te_at = 0, te_kind = agent_delta_kind, te_item = demo_item ''agentMessage'' '''', te_delta = d\<rparr>"




section \<open>Placeholders\<close>

text \<open>
  C18: Placeholders settle once.  In every run of an attached session, over all its threads and
  turns, the placeholders a thread shows before its reasoning starts are named differently, and
  they are settled (replaced by a reasoning item or discarded) in the order they were shown and
  once each; only the last one may be open, and it is the one the thread keeps.
\<close>

theorem placeholders_settle_once:
  assumes "length es < 2 ^ 64"
  shows "shown (fd_log (feed_run es) t) = settled_names (fd_log (feed_run es) t) @ open_placeholder (thread_value (fd_attachment (feed_run es)) t)
    \<and> distinct (shown (fd_log (feed_run es) t))"
  using feed_run_ok [OF assms] unfolding feed_ok_def by blast

theorem placeholders_settle_once_witness:
  "shown (fd_log (feed_run [Provider_Started ''t'' 1, Provider_Started ''t'' 2]) ''t'') = [''thinking:1'', ''thinking:2'']
    \<and> settled_names (fd_log (feed_run [Provider_Started ''t'' 1, Provider_Started ''t'' 2]) ''t'') = [''thinking:1'']"
proof -
  define f where "f = feed_run [Provider_Started ''t'' 1, Provider_Started ''t'' 2]"
  have "length [Provider_Started ''t'' 1, Provider_Started ''t'' 2] < 2 ^ 64" by simp
  from placeholders_settle_once [OF this, of "''t''"]
  have "shown (fd_log f ''t'') = settled_names (fd_log f ''t'') @ open_placeholder (thread_value (fd_attachment f) ''t'')"
    by (simp add: f_def)
  moreover have "settled_names (fd_log f ''t'') = [''thinking:1'']" unfolding f_def by code_simp
  moreover have "open_placeholder (thread_value (fd_attachment f) ''t'') = [''thinking:2'']" unfolding f_def by code_simp
  ultimately show ?thesis unfolding f_def by simp
qed

text \<open>
  C29: The thinking count is exact.  In every run the count a thread keeps is the number of
  reasoning items that run in its turns, and a thread shows a placeholder only while none runs.
\<close>

theorem thinking_counted:
  assumes "length es < 2 ^ 64"
  shows "th_thinking (thread_value (fd_attachment (feed_run es)) t) = int (running (fd_attachment (feed_run es)) t)
    \<and> (open_placeholder (thread_value (fd_attachment (feed_run es)) t) \<noteq> [] \<longrightarrow> running (fd_attachment (feed_run es)) t = 0)"
  using feed_run_ok [OF assms] unfolding feed_ok_def attachment_ok_def by blast

definition demo_started :: text_event where
  "demo_started = \<lparr>te_at = 5, te_kind = item_started_kind, te_item = demo_item ''reasoning'' '''', te_delta = ''''\<rparr>"

theorem thinking_counted_witness:
  "th_thinking (thread_value (fd_attachment (feed_run [Provider_Started ''t'' 1, Text_Event demo_started True])) ''t'') = 1"
proof -
  have "length [Provider_Started ''t'' 1, Text_Event demo_started True] < 2 ^ 64" by simp
  moreover have "running (fd_attachment (feed_run [Provider_Started ''t'' 1, Text_Event demo_started True])) ''t'' = 1" by code_simp
  ultimately show ?thesis using thinking_counted [of "[Provider_Started ''t'' 1, Text_Event demo_started True]" "''t''"] by simp
qed

section \<open>Closed turns\<close>

lemma admit_keeps_closed:
  assumes "alist_get (at_turns a) k = Some None" and "admit_turn t u a = (st, a1)"
  shows "alist_get (at_turns a1) k = Some None" and "st = Some ts \<Longrightarrow> (t, u) \<noteq> k"
  using assms by (auto simp: admit_turn_def Let_def alist_zero_def split: if_splits)

lemma observe_keeps_closed:
  assumes "alist_get (at_turns a) k = Some None"
  shows "alist_get (at_turns (snd (observe_attached e main a))) k = Some None"
    and "alist_get (at_turns (snd (observe_other_item t u a))) k = Some None"
    and "alist_get (at_turns (snd (observe_turn_completed t u status at selected a))) k = Some None"
proof -
  define r where "r = ti_ref (te_item e)"
  obtain st a1 where ad: "admit_turn (ref_thread r) (ref_turn r) a = (st, a1)" by (metis surj_pair)
  show "alist_get (at_turns (snd (observe_attached e main a))) k = Some None"
    using assms ad admit_keeps_closed [OF assms ad]
    by (auto simp: observe_attached_def r_def [symmetric] Let_def split: option.splits prod.splits)
  obtain st2 a2 where ad2: "admit_turn t u a = (st2, a2)" by (metis surj_pair)
  note K = admit_keeps_closed [OF assms ad2]
  show "alist_get (at_turns (snd (observe_other_item t u a))) k = Some None"
    using K by (auto simp: observe_other_item_def ad2 split: option.splits prod.splits)
  show "alist_get (at_turns (snd (observe_turn_completed t u status at selected a))) k = Some None"
    using K by (auto simp: observe_turn_completed_def close_turn_def ad2 split: option.splits prod.splits)
qed

lemma step_keeps_closed:
  assumes "alist_get (at_turns (fd_attachment f)) k = Some None"
  shows "alist_get (at_turns (fd_attachment (feed_step e f))) k = Some None"
proof (cases e)
  case (Turn_Started t u)
  then show ?thesis using admit_keeps_closed(1) [OF assms] by (cases "admit_turn t u (fd_attachment f)") auto
next
  case (Provider_Started t at)
  then show ?thesis using assms by (auto simp: observe_provider_def log_updates_def Let_def split: prod.splits)
qed (use observe_keeps_closed [OF assms] in \<open>simp_all add: log_updates_def\<close>)

lemma steps_keep_closed:
  "alist_get (at_turns (fd_attachment f)) k = Some None \<Longrightarrow> alist_get (at_turns (fd_attachment (fold feed_step es f))) k = Some None"
  by (induction es arbitrary: f) (simp_all add: step_keeps_closed)

lemma turn_completed_closes:
  assumes "\<not> at_retired a" and "t \<noteq> ''''" and "u \<noteq> ''''"
  shows "alist_get (at_turns (snd (observe_turn_completed t u status at selected a))) (t, u) = Some None"
proof (cases "alist_get (at_turns a) (t, u)")
  case (Some st)
  show ?thesis
  proof (cases st)
    case None
    with Some observe_keeps_closed(3) show ?thesis by blast
  next
    case (Some ts)
    with \<open>alist_get (at_turns a) (t, u) = Some st\<close> assms show ?thesis
      by (auto simp: observe_turn_completed_def admit_open close_turn_def put_thread_def put_turn_def split: prod.splits)
  qed
next
  case None
  with assms show ?thesis
    by (auto simp: observe_turn_completed_def admit_turn_def Let_def alist_zero_def close_turn_def put_thread_def put_turn_def
        open_thread_def split: prod.splits)
qed

text \<open>
  C30: A completed turn stays closed.  Whatever is observed after a turn is completed, a late
  text event of the turn changes no state of a thread or a turn, and it publishes nothing
  unless it is an authoritative completion.
\<close>

theorem completed_turn_inert:
  assumes "\<not> at_retired (fd_attachment f)" and "t \<noteq> ''''" and "u \<noteq> ''''"
    and f': "f' = fold feed_step es (feed_step (Turn_Completed t u status at selected) f)"
    and e: "ref_thread (ti_ref (te_item e)) = t" "ref_turn (ti_ref (te_item e)) = u"
  shows "at_turns (snd (observe_attached e main (fd_attachment f'))) = at_turns (fd_attachment f')
    \<and> thread_value (snd (observe_attached e main (fd_attachment f'))) x = thread_value (fd_attachment f') x
    \<and> (te_kind e \<noteq> item_completed_kind \<longrightarrow> fst (observe_attached e main (fd_attachment f')) = [])"
proof -
  have "alist_get (at_turns (fd_attachment (feed_step (Turn_Completed t u status at selected) f))) (t, u) = Some None"
    using turn_completed_closes [OF assms(1-3)] by (simp add: log_updates_def)
  then have c: "alist_get (at_turns (fd_attachment f')) (t, u) = Some None" unfolding f' by (rule steps_keep_closed)
  define a where "a = fd_attachment f'"
  have "fst (admit_turn t u a) = None \<and> at_turns (snd (admit_turn t u a)) = at_turns a
      \<and> (\<forall>x. thread_value (snd (admit_turn t u a)) x = thread_value a x)"
    using c by (simp add: admit_turn_def a_def alist_zero_def Let_def)
  then obtain a1 where ad: "admit_turn t u a = (None, a1)" "at_turns a1 = at_turns a" "\<forall>x. thread_value a1 x = thread_value a x"
    by (cases "admit_turn t u a") auto
  show ?thesis
    using ad e by (auto simp: observe_attached_def Let_def a_def [symmetric] observe_text_def project_completion_def)
qed

theorem completed_turn_inert_witness:
  "fst (observe_attached (demo_delta ''late'') True (fd_attachment (feed_step (Turn_Completed ''t'' ''u'' ''completed'' 9 '''') new_feed))) = []"
  using completed_turn_inert [of new_feed "''t''" "''u''" "feed_step (Turn_Completed ''t'' ''u'' ''completed'' 9 '''') new_feed" "[]"
      "''completed''" 9 "''''" "demo_delta ''late''" True "''t''"]
  by (simp add: new_feed_def new_attachment_def demo_delta_def demo_item_def demo_ref_def agent_delta_kind_def item_completed_kind_def)

end
