(* ===== verification/Spec2Isabelle.thy ===== *)
theory Spec2Isabelle
  imports Control_Dispatch_Properties Control_Lifecycle_Properties Control_Wait_Properties
    Module_Properties Diff_Properties Dedup_Properties Composer_Properties Prompt_Properties Prompt_Approvals
    Transcript_Properties
begin

text \<open>
  A model of the deterministic cores of mekugi, a Go host for coding agents, and the properties
  that make them correct.  Paths below are relative to \<open>src/\<close>.

  \<^bold>\<open>The program.\<close>  A launch runs agents in threads.  \<open>modules/threadcontrol\<close> keeps the logical
  tree of one root thread and its child agents: which agent runs, waits, is stopped or finished,
  the effects (spawn, message, interruption, compaction, final report) that the host still has to
  deliver, the waits that an agent registered, and the record of the tree that outlives the
  process.  Handlers and backends call the operations of its service; each operation reads the
  current tree, computes a new one and publishes it, or reports an error and publishes nothing.
  \<open>modules/notifications\<close> queues notices and attaches them to outgoing requests,
  \<open>modules/sessionnaming\<close> asks for a thread title once, \<open>modules/sessionreplay\<close> plays recorded
  events back, \<open>libraries/diffmodel\<close> captures, parses, composes, replays and undoes the
  edits that the agents make, and \<open>modules/outputdeduplication\<close> replaces text that a model request
  already holds by references to it.  \<open>modules/conversation/composer\<close> is the editor in which the user
  writes: text with bound attachments, undo, parking and the input history, and
  \<open>modules/conversation/prompt\<close> keeps the questions and approvals that wait for the user;
  \<open>modules/conversation/transcript\<close> turns what the host reports of a turn into the feed that is shown,
  after \<open>modules/agentguidance/compact\<close> has taken reload metadata out of the answers.

  \<^bold>\<open>Library.\<close>  \<open>Prelude\<close> holds errors, outcomes, association lists, fields of strings and the
  generic lemmas, those on segments of lists among them.  \<open>Interfaces\<close> states the contracts as locales: \<open>keyed_store\<close> (what a lookup
  returns after an update), \<open>codec\<close> (a printer and a reader that undoes it), \<open>step_system\<close> (an
  invariant kept by the steps of a machine, lifted to runs) and \<open>forward_system\<close> (a fact that
  only moves forward along a run).  \<open>Strings\<close> writes out the functions of the standard library on
  byte strings: fields, cuts, split lines, decimal numbers; \<open>Runes\<close> decodes UTF-8.

  \<^bold>\<open>Thread control\<close> (\<open>modules/threadcontrol/control\<close>):
    \<^item> \<open>Control_Types\<close> (\<open>types.go\<close>, \<open>native.go\<close>, \<open>peer.go\<close>): the records of the tree.  The members of
      a tree are an association list, whose order is the iteration order of the Go map.  Times
      are nanoseconds as integers, generations are 64-bit words, an effect pointer is a
      reference \<open>eref\<close> that says where in the tree the effect stands.
    \<^item> \<open>Control_Tree\<close>, \<open>Control_Lifecycle\<close> (\<open>lifecycle.go\<close>): effects, reservations, stops, pausing, host
      outcomes, recovery.
    \<^item> \<open>Control_Waits\<close> (\<open>waits.go\<close>): registration, outcomes, wakes, timeouts.
    \<^item> \<open>Control_Actions\<close> (\<open>actions.go\<close>, \<open>admission.go\<close>, \<open>interruptions.go\<close>, \<open>rewind.go\<close>): spawning, messages,
      claims and acknowledgements of effects.
    \<^item> \<open>Control_Reads\<close> (\<open>reads.go\<close>, \<open>inspection.go\<close>, \<open>instructions.go\<close>, \<open>names.go\<close>): views.
    \<^item> \<open>Control_Service\<close> (\<open>store.go\<close>, \<open>features.go\<close>, \<open>import.go\<close>): the service over all trees: admission,
      publication, restoration, rewinding, feature counts.  Copy-on-write in \<open>Service.update\<close>
      and \<open>Tree.edit\<close> is why passing the state is faithful: nothing is visible before
      the publication, and on an error nothing is published.
    \<^item> \<open>Control_Invariant\<close> states well-formedness of a tree (\<open>tree_ok\<close>) and shows that every
      operation keeps it, \<open>Control_Reachable\<close> that every reachable service has it,
      \<open>Control_Serial\<close> that effects of one target are dispatched one at a time, and
      \<open>Control_Examples\<close> runs concrete launches for the witnesses.
    \<^item> The properties stand in \<open>Control_Dispatch_Properties\<close> (what a launch keeps, how effects
      are claimed and acknowledged, restoration), \<open>Control_Lifecycle_Properties\<close> (pausing,
      finishing, recovery, idempotence, names, roots) and \<open>Control_Wait_Properties\<close> (outcomes
      claimed once, bounds of timed waits, wakes).

  \<^bold>\<open>Notices, naming, playback\<close>: \<open>Notices\<close> (\<open>modules/notifications/notice/queue.go\<close>; entries carry the address
  they were allocated at, because the queue compares pointers, and the clock is an argument),
  \<open>Naming\<close> (\<open>modules/sessionnaming/internal/naming/state.go\<close>; the inference call is a parameter), \<open>Playback\<close>
  (\<open>modules/sessionreplay/playback/player.go\<close>; speeds are numerators over \<open>2 ^ 56\<close>, which holds every double
  from a sixteenth up, and a product is rounded to 53 bits).  The properties stand in
  \<open>Module_Properties\<close>.

  \<^bold>\<open>Captured diffs\<close> (\<open>libraries/diffmodel\<close>):
    \<^item> \<open>Diff_Review\<close> (\<open>review.go\<close>, \<open>align.go\<close>, \<open>group.go\<close>, \<open>status.go\<close> and the parser of \<open>review_compose.go\<close>): the
      rendering of a before/after pair, the parser of hunks, line counts, grouping, status.
    \<^item> \<open>Diff_Merge\<close> (\<open>review_merge.go\<close>): locating, anchoring and merging hunks.
    \<^item> \<open>Diff_Compose\<close> (\<open>review_compose.go\<close>): the net change of a chain of captures.
    \<^item> The third-party matcher (difflib) and the quoting of \<open>%q\<close> are the fields of \<open>differ\<close>; what the
      code relies on is the hypothesis \<open>differ_ok\<close> of \<open>Diff_Roundtrip\<close>, which \<open>Diff_Properties\<close> shows for a
      concrete matcher.
    \<^item> \<open>Diff_Roundtrip\<close>: the parser inverts the printer.  \<open>Diff_Replay\<close>: hunks as chains from one text
      to the other, replay and undo.  \<open>Diff_Threeway\<close>: progress and meaning of the three-way merge.
      \<open>Diff_Grouping\<close>: the invariant of the grouping.
    \<^item> \<open>Diff_Tiling\<close> (regions that tile a change), \<open>Diff_Learning\<close> (the lines a capture adds),
      \<open>Diff_Applying\<close> (one edit), \<open>Diff_Composition\<close> (normalisation, a capture, a chain of captures) and
      \<open>Diff_Projection\<close> (the visible files) show that a composition stands for the change from the first to
      the last text.  The properties stand in \<open>Diff_Properties\<close>.

  \<^bold>\<open>Output deduplication\<close> (\<open>modules/outputdeduplication/internal\<close>).  A pass over one model request shows texts
  under numbers and delivers a later text with markers for the rows it shares with a visible one, as
  edits of a visible one, or as a reference to texts it equals.  The hash of a line and the tokenizer
  are arbitrary functions: nothing that is lossless depends on them.
    \<^item> \<open>Dedup_Matcher\<close> (\<open>matcher/matcher.go\<close>): the index of pieces and seeds, the search for runs,
      adding a unit, eviction.  Seeds keep 32-bit offsets, as the code packs them.
    \<^item> \<open>Dedup_Edits\<close> (\<open>projection/edits.go\<close>): the bounded search for byte edits.  \<open>Dedup_Pass\<close>
      (\<open>projection/projection.go\<close>, \<open>measurement.go\<close>): texts, sources, chunks, savings.
    \<^item> \<open>Dedup_Rows\<close> (rows and their boundaries), \<open>Dedup_Table\<close> (the candidate table against a search of all
      pieces), \<open>Dedup_Matching\<close> (every run found stands verbatim in the unit it names), \<open>Dedup_Adding\<close>
      (adding and evicting keep that, and the window).
    \<^item> \<open>Dedup_Edit_Search\<close> (the frontier leads from one text to the other), \<open>Dedup_Edit_Apply\<close> (its byte
      edits rebuild the text).
    \<^item> \<open>Dedup_Lossless\<close> (what a delivered text stands for), \<open>Dedup_Reading\<close> (a reader who follows
      it), \<open>Dedup_Runs\<close> (whole runs), \<open>Dedup_Savings\<close> (tokens), \<open>Dedup_Utf8\<close> (runes).  The properties
      stand in \<open>Dedup_Properties\<close>.

  \<^bold>\<open>Conversation composer\<close> (\<open>modules/conversation/composer\<close>).  A draft is text with bindings (images, files,
  skills, selections) on parts of it; slices out of range are \<open>None\<close>.  Clones are values; because
  a parked state shares its stacks with the editor, a run resumes it once, as prompts do.
    \<^item> \<open>Composer_Draft\<close> (\<open>draft.go\<close>): inserting, removing, renumbering images, joining.  \<open>Composer_Moves\<close>
      (\<open>draft.go\<close>, \<open>validRange\<close>): clusters, boundaries, words.  \<open>Composer_Editor\<close> (\<open>editor.go\<close>, \<open>edit.go\<close>): the editor, its
      history, selections and actions.
    \<^item> \<open>Composer_Tokens\<close> (bindings apart; every edit is the replacement of a segment that no binding
      crosses), \<open>Composer_Edits\<close> (the edits of a draft keep it well formed, and what they do to labels, payloads and
      the text outside the bindings), \<open>Composer_Boundaries\<close> (clusters tile the text, a valid range cuts
      no binding), \<open>Composer_Invariant\<close> (actions and undo), \<open>Composer_Bindings\<close> (new images and selections),
      \<open>Composer_Shared\<close> and \<open>Composer_History\<close> (merging the shared history, parking).  The properties stand in
      \<open>Composer_Properties\<close>, over runs of the editor (\<open>composed\<close>).
    \<^item> The caret moves over the grapheme clusters that the third-party splitter finds; the code relies on it
      only to split a string into non-empty pieces (\<open>splitter_ok\<close>).

  \<^bold>\<open>Conversation prompts\<close> (\<open>modules/conversation/prompt\<close>).  Calls and approvals are shared by pointer, so the
  dock keeps a heap of them and refers to them by address.
    \<^item> \<open>Prompt_Questions\<close> (\<open>questions.go\<close>, \<open>answers.go\<close>, \<open>input.go\<close>), \<open>Prompt_Observe\<close> (\<open>observations.go\<close>, with the
      interleaving of the iteration and its changes, and the proof that the preflight is exact),
      \<open>Prompt_Approvals\<close> (\<open>approvals.go\<close>).
    \<^item> \<open>Prompt_Invariant\<close>: every operation keeps identities, outcomes and the active question;
      \<open>Prompt_Runs\<close>: messages, the channel, and what a view depends on.  The properties stand in
      \<open>Prompt_Properties\<close>.

  \<^bold>\<open>Conversation transcript\<close> (\<open>modules/conversation/transcript\<close>, \<open>agentguidance/compact/metadata.go\<close>, and the
  attachment of \<open>apps/mekugi/internal/sessionpresentation\<close> that composes them).  Scope stores are the entries the
  transcript and the streams of answers keep in them; a turn is unknown, open or closed for good.
    \<^item> \<open>Reload_Metadata\<close> (\<open>metadata.go\<close>): completed answers and the stream of an answer.  \<open>Reload_Stream\<close>:
      nothing is lost and chunks do not matter.  \<open>Reload_Shown\<close>: what is streamed is the start of the
      completed answer, for at most one closing tag behind the last opening tag; \<open>closing_tag_shown\<close> is a run
      with two, where the stream shows what the completed answer hides.
    \<^item> \<open>Transcript_Reducer\<close> (\<open>reducer.go\<close>): placeholders, reasoning, messages, completed turns, history.
      \<open>Transcript_Attachment\<close> (\<open>attachment.go\<close>, \<open>transcript_observation.go\<close>, \<open>turn.go\<close>): admission and closing of
      turns, text events, completions, and runs of a feed over many threads and turns.
    \<^item> \<open>Transcript_Runs\<close> (each operation on a turn is steady: it keeps the count and settles what it takes),
      \<open>Transcript_Feed\<close> (the invariant of a feed).  The properties stand in \<open>Transcript_Properties\<close>.

  \<^bold>\<open>Fuel and bounds.\<close>  The walk of \<open>ContextPreloads\<close> over the ancestors has the length of the task path
  as fuel, enough by \<open>context_preloads_returns\<close>.  The loop of the three-way merge has the number of lines of the three
  sides as fuel, enough by \<open>three_way_merge\<close> and \<open>merge_returns\<close>.  The loop over
  the labels of a selection has the length of the texts it searches as fuel, enough by
  \<open>selection_label_found\<close>.  The other loops are recursions on their data.  A
  parsed hunk stays within \<open>2 ^ 20\<close> rows and positions within \<open>2 ^ 30\<close>, as in the code; the
  properties about captures bound the two sides by the same number of lines.

  \<^bold>\<open>Parameters.\<close>  The JSON codec of the published record (its round trip is the hypothesis of the
  restoration property; detaching drops the fields that the code does not store), the back-off
  of providers, the digest and identifiers of messages, the reload of sources at a compaction,
  the outcome of the history transaction, the inference call, difflib, the hash of a seed, the
  tokenizer, the splitter into grapheme clusters, the table of punctuation, the identifiers of history entries.

  \<^bold>\<open>Not modelled.\<close>  Channels that announce changes, locks and goroutines (operations are atomic under the
  lock of the service), logging, the native launch types, overflow of the conversion of a scaled
  duration to 64 bits, and the parts of the program that are user interface, process, network and
  file handling or generated tables; the manifest lists each with its reason.
\<close>

end
